(* ===== verification/Snip_Prelude.thy ===== *)
theory Snip_Prelude
  imports Main "HOL-Library.Word"
begin

text \<open>
  The prelude of the development: names for the machine types of the Rust sources, the error
  values of \<open>sum-store\<close>, and the parts of the Rust standard library the modelled code calls
  (slices, \<open>str::split\<close>, \<open>str::lines\<close>, \<open>str::rfind\<close>, \<open>u8::from_str_radix\<close>,
  \<open>u32::parse\<close>, \<open>hex::encode\<close>, \<open>to_be_bytes\<close>, checked and saturating arithmetic),
  each with the lemmas the components share. A Rust \<open>String\<close> is its list of bytes (HOL's
  \<open>char\<close> is an 8-bit value), so \<open>length\<close> is \<open>str::len\<close>.
\<close>

unbundle bit_operations_syntax

section \<open>Types\<close>

type_synonym byte = "8 word"
type_synonym bytes = "byte list"
type_synonym u32 = "32 word"
type_synonym u64 = "64 word"
type_synonym hash = "byte list"  \<comment> \<open>\<open>[u8; 32]\<close> and \<open>blake3::Hash\<close>\<close>
type_synonym addr20 = "byte list"  \<comment> \<open>\<open>[u8; 20]\<close>, an L1 address\<close>
type_synonym cid = string

named_theorems snip_defs \<open>unfolding rules of the small helpers of the model\<close>
named_theorems roundtrip \<open>decode-after-encode equations of the text formats\<close>

text \<open>The variants of \<open>StoreError\<close> (\<open>sum-store/src/error.rs\<close>) the modelled operations return.\<close>

datatype store_error =
    UnsupportedPlatform
  | LeaseUnsupportedPlatform
  | StoreRootBusy string string
  | InvalidKey string
  | InvalidCid string
  | DurabilityUnconfirmed string string
  | Io string
  | IntegrityMismatch string string
  | NotFound string
  | MerkleErr string
  | ManifestNotFound string
  | Other string

text \<open>The texts the error type derives for \<open>Display\<close>, as messages quote them.\<close>

fun display_error :: "store_error \<Rightarrow> string" where
  "display_error UnsupportedPlatform =
     ''store publication is not supported on this platform: native Windows is unsupported; run under WSL2 or another Unix target''"
| "display_error LeaseUnsupportedPlatform =
     ''the exclusive store lease is not supported on this platform: native Windows is unsupported; run under WSL2 or another Unix target''"
| "display_error (StoreRootBusy rt lease) =
     ''store root '' @ rt @ '' is already in use: an exclusive lease on '' @ lease @ '' is held elsewhere. Two nodes sharing a root share one chunk namespace and garbage-collect against each other; give this node its own root with --store-dir''"
| "display_error (InvalidKey k) = ''invalid store key: '' @ k"
| "display_error (InvalidCid c) = ''publication requires canonical CIDv1/raw/BLAKE3-256: '' @ c"
| "display_error (DurabilityUnconfirmed c detail) =
     ''publication may exist for '' @ c @ '', but durability is unconfirmed: '' @ detail"
| "display_error (Io e) = ''I/O error: '' @ e"
| "display_error (IntegrityMismatch expected actual) =
     ''integrity check failed: expected '' @ expected @ '', got '' @ actual"
| "display_error (NotFound c) = ''chunk not found: '' @ c"
| "display_error (MerkleErr e) = ''merkle error: '' @ e"
| "display_error (ManifestNotFound r) = ''manifest not found for merkle root: '' @ r"
| "display_error (Other e) = e"

section \<open>Slices and arithmetic\<close>

text \<open>\<open>&xs[a..b]\<close>: \<open>None\<close> is the panic on an inverted or out-of-range window.\<close>

definition sub_slice :: "'a list \<Rightarrow> nat \<Rightarrow> nat \<Rightarrow> 'a list option" where
  "sub_slice xs a b = (if a \<le> b \<and> b \<le> length xs then Some (take (b - a) (drop a xs)) else None)"

definition checked_add :: "'n::len word \<Rightarrow> 'n word \<Rightarrow> 'n word option" where
  "checked_add a b = (if unat a + unat b < 2 ^ LENGTH('n) then Some (a + b) else None)"

definition saturating_add :: "'n::len word \<Rightarrow> 'n word \<Rightarrow> 'n word" where
  "saturating_add a b = (if unat a + unat b < 2 ^ LENGTH('n) then a + b else - 1)"

definition u32_of :: "nat \<Rightarrow> u32" where  \<comment> \<open>\<open>as u32\<close>: truncates\<close>
  "u32_of n = word_of_nat n"

definition u64_of :: "nat \<Rightarrow> u64" where
  "u64_of n = word_of_nat n"

definition be_bytes32 :: "u32 \<Rightarrow> bytes" where  \<comment> \<open>\<open>u32::to_be_bytes\<close>\<close>
  "be_bytes32 w = [ucast (drop_bit 24 w), ucast (drop_bit 16 w), ucast (drop_bit 8 w), ucast w]"

fun be_to_nat :: "bytes \<Rightarrow> nat" where  \<comment> \<open>\<open>u64::from_be_bytes\<close>, read as a number\<close>
  "be_to_nat bs = fold (\<lambda>b n. 256 * n + unat b) bs 0"

lemma sub_slice_Some_iff:
  "sub_slice xs a b = Some ys \<longleftrightarrow> a \<le> b \<and> b \<le> length xs \<and> ys = take (b - a) (drop a xs)"
  by (auto simp: sub_slice_def)

lemma sub_slice_append:
  assumes "sub_slice xs a b = Some ys" and "sub_slice xs b c = Some zs"
  shows "sub_slice xs a c = Some (ys @ zs)"
proof -
  have "take (c - a) (drop a xs) = take (b - a) (drop a xs) @ take (c - b) (drop b xs)"
    using assms take_add [of "b - a" "c - b" "drop a xs"] by (auto simp: sub_slice_Some_iff)
  then show ?thesis using assms by (auto simp: sub_slice_Some_iff)
qed

lemma unat_less: "unat (w :: 'n::len word) < 2 ^ LENGTH('n)"
  by (rule unsigned_less)

lemma checked_add_Some:
  "checked_add a b = Some c \<Longrightarrow> unat c = unat a + unat b"
  by (auto simp: checked_add_def unat_word_ariths split: if_splits)

lemma checked_add_eq_Some_iff:
  "checked_add (a :: 'n::len word) b = Some c \<longleftrightarrow>
     unat a + unat b < 2 ^ LENGTH('n) \<and> c = a + b"
  by (auto simp: checked_add_def)

lemma unat_saturating_add:
  "unat (saturating_add (a :: 'n::len word) b) = min (unat a + unat b) (2 ^ LENGTH('n) - 1)"
proof (cases "unat a + unat b < 2 ^ LENGTH('n)")
  case True
  then show ?thesis by (simp add: saturating_add_def unat_word_ariths)
next
  case False
  have "unat (- 1 :: 'n word) = 2 ^ LENGTH('n) - 1"
    by (simp add: unsigned_minus_1_eq_mask mask_eq_exp_minus_1)
  with False show ?thesis by (simp add: saturating_add_def)
qed

lemma unat_u32_of: "n < 2 ^ 32 \<Longrightarrow> unat (u32_of n) = n"
  by (simp add: u32_of_def unat_of_nat)

lemma unat_u64_of: "n < 2 ^ 64 \<Longrightarrow> unat (u64_of n) = n"
  by (simp add: u64_of_def unat_of_nat)

lemma u32_of_unat [simp]: "u32_of (unat w) = w"
  by (simp add: u32_of_def)

lemma length_be_bytes32 [simp]: "length (be_bytes32 w) = 4"
  by (simp add: be_bytes32_def)


section \<open>Text\<close>

text \<open>\<open>str::split(c)\<close>: the segments between separators, at least one.\<close>

fun split_on :: "char \<Rightarrow> string \<Rightarrow> string list" where
  "split_on c [] = [[]]"
| "split_on c (x # xs) =
     (if x = c then [] # split_on c xs
      else (case split_on c xs of [] \<Rightarrow> [[x]] | s # ss \<Rightarrow> (x # s) # ss))"

text \<open>\<open>[..].join(sep)\<close>.\<close>

fun join_with :: "string \<Rightarrow> string list \<Rightarrow> string" where
  "join_with sep [] = []"
| "join_with sep [x] = x"
| "join_with sep (x # y # ys) = x @ sep @ join_with sep (y # ys)"

definition newline :: char where "newline = CHR 0x0A"

text \<open>\<open>&content[..=content.rfind('\n')]\<close>, or the empty string: every complete line.\<close>

definition complete_part :: "string \<Rightarrow> string" where
  "complete_part s = rev (dropWhile (\<lambda>c. c \<noteq> newline) (rev s))"

text \<open>\<open>str::lines\<close> strips one carriage return before each line feed.\<close>

definition strip_cr :: "string \<Rightarrow> string" where
  "strip_cr l = (if l \<noteq> [] \<and> last l = CHR 0x0D then butlast l else l)"

text \<open>\<open>str::lines\<close> on a text whose lines are all complete (the only use in the model).\<close>

definition lines_of :: "string \<Rightarrow> string list" where
  "lines_of s = map strip_cr (butlast (split_on newline s))"

definition is_ascii_ws :: "char \<Rightarrow> bool" where
  "is_ascii_ws c \<longleftrightarrow> c = CHR '' '' \<or> c \<in> {CHR 0x09, CHR 0x0A, CHR 0x0B, CHR 0x0C, CHR 0x0D}"

definition trim :: "string \<Rightarrow> string" where
  "trim s = rev (dropWhile is_ascii_ws (rev (dropWhile is_ascii_ws s)))"

definition is_ascii_digit :: "char \<Rightarrow> bool" where
  "is_ascii_digit c \<longleftrightarrow> 48 \<le> (of_char c :: nat) \<and> (of_char c :: nat) \<le> 57"

definition is_ascii_uppercase :: "char \<Rightarrow> bool" where
  "is_ascii_uppercase c \<longleftrightarrow> 65 \<le> (of_char c :: nat) \<and> (of_char c :: nat) \<le> 90"

text \<open>\<open>char::to_digit(16)\<close>.\<close>

definition hex_val :: "char \<Rightarrow> nat option" where
  "hex_val c = (let n = of_char c :: nat in
     if 48 \<le> n \<and> n \<le> 57 then Some (n - 48)
     else if 97 \<le> n \<and> n \<le> 102 then Some (n - 87)
     else if 65 \<le> n \<and> n \<le> 70 then Some (n - 55)
     else None)"

definition is_ascii_hexdigit :: "char \<Rightarrow> bool" where
  "is_ascii_hexdigit c \<longleftrightarrow> hex_val c \<noteq> None"

text \<open>
  \<open>u8::from_str_radix(s, 16)\<close> on the two-byte strings the sources give it. The standard library
  accepts one leading plus sign, so \<open>"+f"\<close> is 15; a lone sign is an error.
\<close>

fun from_str_radix16 :: "string \<Rightarrow> byte option" where
  "from_str_radix16 [a, b] =
     (if a = CHR ''+'' then map_option word_of_nat (hex_val b)
      else (case hex_val a of None \<Rightarrow> None
            | Some x \<Rightarrow> (case hex_val b of None \<Rightarrow> None
                         | Some y \<Rightarrow> Some (word_of_nat (16 * x + y)))))"
| "from_str_radix16 _ = None"

text \<open>\<open>as_bytes().chunks(2)\<close> and the loop that parses each pair.\<close>

fun parse_hex_pairs :: "string \<Rightarrow> bytes option" where
  "parse_hex_pairs [] = Some []"
| "parse_hex_pairs [a] = None"
| "parse_hex_pairs (a # b # r) =
     (case from_str_radix16 [a, b] of None \<Rightarrow> None
      | Some x \<Rightarrow> map_option ((#) x) (parse_hex_pairs r))"

definition hex_digit :: "nat \<Rightarrow> char" where
  "hex_digit n = (if n < 10 then char_of (n + 48) else char_of (n + 87))"

text \<open>\<open>hex::encode\<close> and \<open>format!("{b:02x}")\<close>.\<close>

definition hex_byte :: "byte \<Rightarrow> string" where
  "hex_byte b = [hex_digit (unat b div 16), hex_digit (unat b mod 16)]"

definition hex_encode :: "bytes \<Rightarrow> string" where
  "hex_encode bs = concat (map hex_byte bs)"

text \<open>\<open>format!("{n}")\<close> and \<open>str::parse::<u32>\<close> on strings of ASCII digits.\<close>

fun dec_of_nat :: "nat \<Rightarrow> string" where
  "dec_of_nat n = (if n < 10 then [char_of (n + 48)]
     else dec_of_nat (n div 10) @ [char_of (n mod 10 + 48)])"

declare dec_of_nat.simps [simp del]

definition nat_of_dec :: "string \<Rightarrow> nat" where
  "nat_of_dec s = foldl (\<lambda>n c. 10 * n + (of_char c - 48)) 0 s"

definition parse_u32 :: "string \<Rightarrow> u32 option" where
  "parse_u32 s = (if s \<noteq> [] \<and> list_all is_ascii_digit s \<and> nat_of_dec s < 2 ^ 32
     then Some (u32_of (nat_of_dec s)) else None)"

definition strip_prefix :: "string \<Rightarrow> string \<Rightarrow> string option" where
  "strip_prefix p s = (if take (length p) s = p then Some (drop (length p) s) else None)"


subsection \<open>Splitting and lines\<close>

lemma split_on_not_Nil [simp]: "split_on c s \<noteq> []"
  by (induction s) (auto split: list.splits)

lemma split_on_absent: "c \<notin> set a \<Longrightarrow> split_on c a = [a]"
  by (induction a) auto

lemma split_on_sep: "c \<notin> set a \<Longrightarrow> split_on c (a @ c # b) = a # split_on c b"
  by (induction a) auto

lemma join_split [roundtrip]:
  assumes "xs \<noteq> []" and "\<forall>x \<in> set xs. c \<notin> set x"
  shows "split_on c (join_with [c] xs) = xs"
  using assms by (induction "[c]" xs rule: join_with.induct) (auto simp: split_on_absent split_on_sep)

definition plain_line :: "string \<Rightarrow> bool" where
  "plain_line l \<longleftrightarrow> newline \<notin> set l \<and> CHR 0x0D \<notin> set l"

lemma split_on_lines:
  assumes "\<forall>l \<in> set ls. newline \<notin> set l" and "newline \<notin> set t"
  shows "split_on newline (concat (map (\<lambda>l. l @ [newline]) ls) @ t) = ls @ [t]"
  using assms by (induction ls) (auto simp: split_on_absent split_on_sep)

lemma strip_cr_plain: "plain_line l \<Longrightarrow> strip_cr l = l"
  by (auto simp: strip_cr_def plain_line_def dest: last_in_set)

lemma lines_of_lines [roundtrip]:
  assumes "\<forall>l \<in> set ls. plain_line l"
  shows "lines_of (concat (map (\<lambda>l. l @ [newline]) ls)) = ls"
proof -
  have "split_on newline (concat (map (\<lambda>l. l @ [newline]) ls)) = ls @ [[]]"
    using assms split_on_lines [of ls "[]"] by (auto simp: plain_line_def)
  then show ?thesis
    using assms by (auto simp: lines_of_def strip_cr_plain intro!: map_idI)
qed

lemma complete_part_lines [roundtrip]:
  assumes "newline \<notin> set t"
  shows "complete_part (concat (map (\<lambda>l. l @ [newline]) ls) @ t) = concat (map (\<lambda>l. l @ [newline]) ls)"
proof -
  have t: "\<forall>x \<in> set (rev t). x \<noteq> newline" using assms by auto
  show ?thesis
  proof (cases ls rule: rev_cases)
    case Nil
    with t show ?thesis by (simp add: complete_part_def dropWhile_eq_Nil_conv)
  next
    case (snoc ls' l)
    have "dropWhile (\<lambda>c. c \<noteq> newline) (rev t @ newline # r) = newline # r" for r
      using t by (induction t rule: rev_induct) auto
    with snoc show ?thesis by (simp add: complete_part_def)
  qed
qed

subsection \<open>Hexadecimal and decimal round trips\<close>

lemma of_char_of_small [simp]: "n < 256 \<Longrightarrow> of_char (char_of n :: char) = (n :: nat)"
  by (simp add: of_char_of)

lemma hex_val_hex_digit [simp]: "n < 16 \<Longrightarrow> hex_val (hex_digit n) = Some n"
  by (auto simp: hex_val_def hex_digit_def Let_def)

lemma hex_digit_not_plus [simp]: "n < 16 \<Longrightarrow> hex_digit n \<noteq> CHR ''+''"
proof
  assume "n < 16" and "hex_digit n = CHR ''+''"
  then have "hex_val (CHR ''+'') = Some n" by (metis hex_val_hex_digit)
  then show False by (simp add: hex_val_def)
qed

lemma byte_nibbles: "word_of_nat (16 * (unat (b :: byte) div 16) + unat b mod 16) = b"
  by simp

lemma from_str_radix16_hex_byte [simp]: "from_str_radix16 (hex_byte b) = Some b"
proof -
  have "unat b < 256" using unat_less [of b] by simp
  then have "unat b div 16 < 16" by linarith
  then show ?thesis by (simp add: hex_byte_def)
qed

lemma parse_hex_encode [roundtrip, simp]: "parse_hex_pairs (hex_encode bs) = Some bs"
proof (induction bs)
  case Nil
  show ?case by (simp add: hex_encode_def)
next
  case (Cons b bs)
  have "from_str_radix16 [hex_digit (unat b div 16), hex_digit (unat b mod 16)] = Some b"
    using from_str_radix16_hex_byte [of b] by (simp add: hex_byte_def)
  with Cons show ?case by (simp add: hex_encode_def hex_byte_def del: from_str_radix16.simps)
qed

lemma length_hex_encode [simp]: "length (hex_encode bs) = 2 * length bs"
  by (induction bs) (auto simp: hex_encode_def hex_byte_def)

lemma parse_hex_pairs_length: "parse_hex_pairs s = Some bs \<Longrightarrow> length s = 2 * length bs"
  by (induction s arbitrary: bs rule: parse_hex_pairs.induct) (auto split: option.splits)

lemma hex_digit_chars: "n < 16 \<Longrightarrow> hex_digit n \<in> set ''0123456789abcdef''"
proof -
  assume "n < 16"
  then have "n \<in> set [0..<16]" by simp
  moreover have "\<forall>k \<in> set [0..<16]. hex_digit k \<in> set ''0123456789abcdef''" by code_simp
  ultimately show ?thesis by blast
qed

lemma hex_encode_chars: "set (hex_encode bs) \<subseteq> set ''0123456789abcdef''"
proof
  fix c assume "c \<in> set (hex_encode bs)"
  then obtain b where "c \<in> set (hex_byte b)" by (auto simp: hex_encode_def)
  moreover have "unat b < 256" using unat_less [of b] by simp
  then have "unat b div 16 < 16" by linarith
  ultimately show "c \<in> set ''0123456789abcdef''"
    using hex_digit_chars [of "unat b div 16"] hex_digit_chars [of "unat b mod 16"]
    by (auto simp: hex_byte_def)
qed

lemma hex_encode_avoids: "c \<notin> set ''0123456789abcdef'' \<Longrightarrow> c \<notin> set (hex_encode bs)"
  using hex_encode_chars by blast

lemma hex_encode_lowercase: "list_all (\<lambda>c. \<not> is_ascii_uppercase c) (hex_encode bs)"
proof -
  have "\<forall>c \<in> set ''0123456789abcdef''. \<not> is_ascii_uppercase c" by code_simp
  then show ?thesis using hex_encode_chars by (auto simp: list_all_iff)
qed

lemma hex_encode_hexdigits: "list_all is_ascii_hexdigit (hex_encode bs)"
proof -
  have "\<forall>c \<in> set ''0123456789abcdef''. is_ascii_hexdigit c" by code_simp
  then show ?thesis using hex_encode_chars by (auto simp: list_all_iff)
qed

lemma hex_encode_inject [simp]: "hex_encode a = hex_encode b \<longleftrightarrow> a = b"
  by (metis option.inject parse_hex_encode)

lemma dec_of_nat_digits: "list_all is_ascii_digit (dec_of_nat n)"
proof (induction n rule: dec_of_nat.induct)
  case (1 n)
  then show ?case
    by (cases "n < 10") (auto simp: dec_of_nat.simps [of n] is_ascii_digit_def)
qed

lemma dec_of_nat_not_Nil [simp]: "dec_of_nat n \<noteq> []"
  by (simp add: dec_of_nat.simps [of n])

lemma nat_of_dec_of_nat [roundtrip, simp]: "nat_of_dec (dec_of_nat n) = n"
proof (induction n rule: dec_of_nat.induct)
  case (1 n)
  then show ?case
    by (cases "n < 10") (auto simp: dec_of_nat.simps [of n] nat_of_dec_def)
qed

lemma parse_u32_dec [roundtrip, simp]: "parse_u32 (dec_of_nat (unat (w :: u32))) = Some w"
  using unat_less [of w] by (simp add: parse_u32_def dec_of_nat_digits)

lemma dec_of_nat_avoids: "\<not> is_ascii_digit c \<Longrightarrow> c \<notin> set (dec_of_nat n)"
  using dec_of_nat_digits by (auto simp: list_all_iff)

lemma strip_prefix_append [simp]: "strip_prefix p (p @ s) = Some s"
  by (simp add: strip_prefix_def)

lemma strip_prefix_Some: "strip_prefix p s = Some t \<longleftrightarrow> s = p @ t"
  by (auto simp: strip_prefix_def) (metis append_take_drop_id)

end
