(* ===== verification/Assignment.thy ===== *)
theory Assignment
  imports Snip_Prelude "HOL-Library.List_Lexorder"
begin

text \<open>
  Chunk-to-node assignment: the V1 hash-and-probe algorithm of \<open>sum-store/src/assignment.rs\<close> and
  the V2 rendezvous assignment of \<open>sum-store/src/assignment_v2.rs\<close>, a wrapper of the
  \<open>sumchain_wire\<close> crate. The probe loop of V1 has no exit of its own, so it is a partial
  function: \<open>None\<close> is a loop that never ends. The two functions of the wire crate are parameters
  (\<open>wire_lib\<close>), their documented contract is \<open>wire_ok\<close>. The locale
  \<open>replica_assignment\<close> is what the node relies on of either scheme; both are interpreted.
\<close>

section \<open>V1: hash and linear probe\<close>

partial_function (option) probe :: "addr20 list \<Rightarrow> addr20 list \<Rightarrow> nat \<Rightarrow> addr20 option" where
  "probe active_nodes assigned idx =
     (if active_nodes ! idx \<notin> set assigned then Some (active_nodes ! idx)
      else probe active_nodes assigned ((idx + 1) mod length active_nodes))"

definition start_index :: "(bytes \<Rightarrow> hash) \<Rightarrow> hash \<Rightarrow> nat \<Rightarrow> nat \<Rightarrow> nat \<Rightarrow> nat" where
  "start_index H merkle_root chunk_index replica n =
     be_to_nat (take 8 (H (merkle_root @ be_bytes32 (u32_of chunk_index) @ be_bytes32 (u32_of replica)))) mod n"

fun replica_loop ::
    "(bytes \<Rightarrow> hash) \<Rightarrow> hash \<Rightarrow> nat \<Rightarrow> addr20 list \<Rightarrow> nat list \<Rightarrow> addr20 list \<Rightarrow> addr20 list option" where
  "replica_loop H merkle_root chunk_index active_nodes [] assigned = Some assigned"
| "replica_loop H merkle_root chunk_index active_nodes (replica # rs) assigned =
     (case probe active_nodes assigned
             (start_index H merkle_root chunk_index replica (length active_nodes)) of
        None \<Rightarrow> None
      | Some a \<Rightarrow> replica_loop H merkle_root chunk_index active_nodes rs (assigned @ [a]))"

fun chunk_assign_loop ::
    "(bytes \<Rightarrow> hash) \<Rightarrow> hash \<Rightarrow> addr20 list \<Rightarrow> nat \<Rightarrow> nat list \<Rightarrow> addr20 list list option" where
  "chunk_assign_loop H merkle_root active_nodes replicas [] = Some []"
| "chunk_assign_loop H merkle_root active_nodes replicas (c # cs) =
     (case replica_loop H merkle_root c active_nodes [0..<replicas] [] of
        None \<Rightarrow> None
      | Some a \<Rightarrow> map_option ((#) a) (chunk_assign_loop H merkle_root active_nodes replicas cs))"

definition compute_chunk_assignment ::
    "(bytes \<Rightarrow> hash) \<Rightarrow> hash \<Rightarrow> nat \<Rightarrow> addr20 list \<Rightarrow> u32 \<Rightarrow> addr20 list list option" where
  "compute_chunk_assignment H merkle_root chunk_count active_nodes replication_factor =
     (let n = length active_nodes in
      if n = 0 \<or> chunk_count = 0 then Some (replicate chunk_count [])
      else chunk_assign_loop H merkle_root active_nodes (min (unat replication_factor) n) [0..<chunk_count])"

definition chunks_for_node :: "addr20 list list \<Rightarrow> addr20 \<Rightarrow> u32 list" where
  "chunks_for_node assignment node_address =
     map (\<lambda>(i, _). u32_of i) (filter (\<lambda>(_, nodes). node_address \<in> set nodes) (enumerate 0 assignment))"

definition nodes_for_chunk :: "addr20 list list \<Rightarrow> u32 \<Rightarrow> addr20 list option" where
  "nodes_for_chunk assignment chunk_index =
     (if unat chunk_index < length assignment then Some (assignment ! unat chunk_index) else None)"

subsection \<open>The probe loop\<close>

lemma probe_Some:
  assumes "probe nodes assigned idx = Some a" and "idx < length nodes"
  shows "a \<in> set nodes \<and> a \<notin> set assigned"
proof -
  have "idx < length nodes \<longrightarrow> a \<in> set nodes \<and> a \<notin> set assigned"
  proof (rule probe.raw_induct
      [where P = "\<lambda>nodes assigned idx a. idx < length nodes \<longrightarrow> a \<in> set nodes \<and> a \<notin> set assigned",
       OF _ assms(1)])
    fix f nodes assigned idx a
    assume IH: "\<And>nodes assigned idx a. f nodes assigned idx = Some a \<Longrightarrow>
        idx < length nodes \<longrightarrow> a \<in> set nodes \<and> a \<notin> set assigned"
      and eq: "(if nodes ! idx \<notin> set assigned then Some (nodes ! idx)
         else f nodes assigned ((idx + 1) mod length nodes)) = Some a"
    show "idx < length nodes \<longrightarrow> a \<in> set nodes \<and> a \<notin> set assigned"
    proof
      assume "idx < length nodes"
      moreover from this have "(idx + 1) mod length nodes < length nodes" by (intro mod_less_divisor) auto
      ultimately show "a \<in> set nodes \<and> a \<notin> set assigned"
        using eq IH [of nodes assigned "(idx + 1) mod length nodes" a] by (auto split: if_splits)
    qed
  qed
  with assms(2) show ?thesis by blast
qed

lemma probe_finds:
  assumes "nodes ! ((idx + k) mod length nodes) \<notin> set assigned" and "idx < length nodes"
  shows "\<exists>a. probe nodes assigned idx = Some a"
  using assms
proof (induction k arbitrary: idx)
  case 0
  then show ?case by (simp add: probe.simps)
next
  case (Suc k)
  let ?next = "(idx + 1) mod length nodes"
  have "(?next + k) mod length nodes = (idx + Suc k) mod length nodes"
    by (simp add: mod_simps)
  moreover have "?next < length nodes" using Suc.prems(2) by (intro mod_less_divisor) auto
  ultimately have "\<exists>a. probe nodes assigned ?next = Some a" using Suc by metis
  then show ?case by (simp add: probe.simps [of nodes assigned idx])
qed

lemma probe_total:
  assumes "\<exists>x \<in> set nodes. x \<notin> set assigned" and "idx < length nodes"
  shows "\<exists>a. probe nodes assigned idx = Some a"
proof -
  from assms(1) obtain j where j: "j < length nodes" "nodes ! j \<notin> set assigned"
    by (auto simp: in_set_conv_nth)
  have "(idx + (j + length nodes - idx)) mod length nodes = j"
    using j assms(2) by simp
  then show ?thesis using probe_finds [of nodes idx "j + length nodes - idx"] j assms(2) by simp
qed

lemma probe_diverges:
  "set nodes \<subseteq> set assigned \<Longrightarrow> idx < length nodes \<Longrightarrow> probe nodes assigned idx = None"
  using probe_Some [of nodes assigned idx] by (cases "probe nodes assigned idx") auto

lemma start_index_less: "0 < n \<Longrightarrow> start_index H r c k n < n"
  by (simp add: start_index_def)

lemma replica_loop_Some:
  assumes "distinct assigned" and "set assigned \<subseteq> set nodes" and "nodes \<noteq> []"
    and "length assigned + length rs \<le> card (set nodes)"
  shows "\<exists>a. replica_loop H r c nodes rs assigned = Some a \<and> distinct a \<and> set a \<subseteq> set nodes
           \<and> length a = length assigned + length rs"
  using assms
proof (induction rs arbitrary: assigned)
  case Nil
  then show ?case by simp
next
  case (Cons k rs)
  let ?i = "start_index H r c k (length nodes)"
  have i: "?i < length nodes" using Cons.prems(3) by (simp add: start_index_less)
  have "card (set assigned) < card (set nodes)"
    using Cons.prems by (simp add: distinct_card)
  then have "\<exists>x \<in> set nodes. x \<notin> set assigned"
    by (metis List.finite_set card_mono leD subsetI)
  then obtain a where a: "probe nodes assigned ?i = Some a" using probe_total i by blast
  with probe_Some [OF a i] Cons.prems Cons.IH [of "assigned @ [a]"] show ?case by simp
qed

lemma replica_loop_None:
  assumes "nodes \<noteq> []" and "distinct assigned" and "set assigned \<subseteq> set nodes"
    and "length assigned \<le> card (set nodes)" and "card (set nodes) < length assigned + length rs"
  shows "replica_loop H r c nodes rs assigned = None"
  using assms
proof (induction rs arbitrary: assigned)
  case Nil
  then show ?case by simp
next
  case (Cons k rs)
  let ?i = "start_index H r c k (length nodes)"
  have i: "?i < length nodes" using Cons.prems(1) by (simp add: start_index_less)
  show ?case
  proof (cases "probe nodes assigned ?i")
    case None
    then show ?thesis by simp
  next
    case (Some a)
    note a = probe_Some [OF this i]
    have "length assigned < card (set nodes)"
      using a Cons.prems by (metis List.finite_set card_subset_eq distinct_card le_eq_less_or_eq)
    with a Cons Some show ?thesis by simp
  qed
qed


section \<open>V2: rendezvous assignment through the wire crate\<close>

record wire_lib =
  wire_assigned_archives :: "hash \<Rightarrow> addr20 list \<Rightarrow> u32 \<Rightarrow> u32 \<Rightarrow> addr20 list"
  wire_assigned_archives_presorted :: "hash \<Rightarrow> addr20 list \<Rightarrow> u32 \<Rightarrow> u32 \<Rightarrow> addr20 list"

definition presorted_addresses :: "addr20 list \<Rightarrow> addr20 list" where
  "presorted_addresses snapshot = remdups_adj (sort snapshot)"

text \<open>
  The contract the module documents of the wire crate: the plain entry point sorts and removes
  duplicates before the presorted one, and the presorted one selects, of a strictly ascending list,
  the top \<open>min R n\<close> distinct archives.
\<close>

definition wire_ok :: "wire_lib \<Rightarrow> bool" where
  "wire_ok W \<longleftrightarrow>
     (\<forall>root addrs i r. wire_assigned_archives W root addrs i r
        = wire_assigned_archives_presorted W root (presorted_addresses addrs) i r)
   \<and> (\<forall>root addrs i r. sorted addrs \<longrightarrow> distinct addrs \<longrightarrow>
        distinct (wire_assigned_archives_presorted W root addrs i r)
      \<and> set (wire_assigned_archives_presorted W root addrs i r) \<subseteq> set addrs
      \<and> length (wire_assigned_archives_presorted W root addrs i r) = min (unat r) (length addrs))"

definition assigned_archives :: "wire_lib \<Rightarrow> hash \<Rightarrow> addr20 list \<Rightarrow> u32 \<Rightarrow> u32 \<Rightarrow> addr20 list" where
  "assigned_archives W merkle_root snapshot chunk_index replication_factor =
     wire_assigned_archives W merkle_root snapshot chunk_index replication_factor"

definition compute_assignment_v2 ::
    "wire_lib \<Rightarrow> hash \<Rightarrow> u32 \<Rightarrow> addr20 list \<Rightarrow> u32 \<Rightarrow> addr20 list list" where
  "compute_assignment_v2 W merkle_root chunk_count snapshot replication_factor =
     (let presorted = presorted_addresses snapshot in
      map (\<lambda>i. wire_assigned_archives_presorted W merkle_root presorted (u32_of i) replication_factor)
          [0..<unat chunk_count])"

text \<open>\<open>slice::binary_search\<close> on a sorted list.\<close>

definition binary_search :: "addr20 list \<Rightarrow> addr20 \<Rightarrow> bool" where
  "binary_search xs a \<longleftrightarrow> a \<in> set xs"

text \<open>The \<open>BTreeSet\<close> of chunk indices, as its ascending list.\<close>

definition chunks_for_archive_v2 ::
    "wire_lib \<Rightarrow> hash \<Rightarrow> u32 \<Rightarrow> addr20 list \<Rightarrow> u32 \<Rightarrow> addr20 \<Rightarrow> u32 list" where
  "chunks_for_archive_v2 W merkle_root chunk_count snapshot replication_factor archive =
     (let presorted = presorted_addresses snapshot in
      if \<not> binary_search presorted archive then []
      else filter (\<lambda>i. archive \<in> set (wire_assigned_archives_presorted W merkle_root presorted i replication_factor))
             (map u32_of [0..<unat chunk_count]))"

fun first_hit :: "(nat \<Rightarrow> addr20 list) \<Rightarrow> addr20 list \<Rightarrow> nat list \<Rightarrow> (u32 \<times> addr20) option" where
  "first_hit assigned wanted [] = None"
| "first_hit assigned wanted (i # is) =
     (case find (\<lambda>a. a \<in> set wanted) (assigned i) of
        Some hit \<Rightarrow> Some (u32_of i, hit)
      | None \<Rightarrow> first_hit assigned wanted is)"

definition first_chunk_assigned_to_any ::
    "wire_lib \<Rightarrow> hash \<Rightarrow> u32 \<Rightarrow> addr20 list \<Rightarrow> u32 \<Rightarrow> addr20 list \<Rightarrow> (u32 \<times> addr20) option" where
  "first_chunk_assigned_to_any W merkle_root chunk_count snapshot replication_factor targets =
     (let presorted = presorted_addresses snapshot;
          wanted = filter (binary_search presorted) targets
      in if wanted = [] then None
         else first_hit (\<lambda>i. wire_assigned_archives_presorted W merkle_root presorted (u32_of i) replication_factor)
                wanted [0..<unat chunk_count])"

lemma distinct_remdups_adj_sorted: "sorted xs \<Longrightarrow> distinct (remdups_adj xs)"
  by (induction xs rule: remdups_adj.induct) (auto simp: antisym)

lemma presorted_addresses_props [simp]:
  "sorted (presorted_addresses xs)" "distinct (presorted_addresses xs)"
  "set (presorted_addresses xs) = set xs"
  by (simp_all add: presorted_addresses_def sorted_remdups_adj distinct_remdups_adj_sorted)

lemma length_presorted: "length (presorted_addresses xs) = card (set xs)"
  by (metis distinct_card presorted_addresses_props(2,3))

lemma wire_okD:
  assumes "wire_ok W"
  shows "wire_assigned_archives W root addrs i r
      = wire_assigned_archives_presorted W root (presorted_addresses addrs) i r"
    and "distinct (wire_assigned_archives_presorted W root (presorted_addresses addrs) i r)"
    and "set (wire_assigned_archives_presorted W root (presorted_addresses addrs) i r) \<subseteq> set addrs"
    and "length (wire_assigned_archives_presorted W root (presorted_addresses addrs) i r)
      = min (unat r) (card (set addrs))"
  using assms length_presorted [of addrs] presorted_addresses_props [of addrs]
  unfolding wire_ok_def by metis+

section \<open>The contract of an assignment scheme\<close>

locale replica_assignment =
  fixes valid :: "'p \<Rightarrow> bool"
    and assign :: "'p \<Rightarrow> addr20 list list"
    and nodes :: "'p \<Rightarrow> addr20 set"
    and count :: "'p \<Rightarrow> nat"
    and repl :: "'p \<Rightarrow> nat"
  assumes finite_nodes: "finite (nodes p)"
    and assign_rows: "valid p \<Longrightarrow> length (assign p) = count p"
    and row_distinct: "valid p \<Longrightarrow> ns \<in> set (assign p) \<Longrightarrow> distinct ns"
    and row_nodes: "valid p \<Longrightarrow> ns \<in> set (assign p) \<Longrightarrow> set ns \<subseteq> nodes p"
    and row_length: "valid p \<Longrightarrow> ns \<in> set (assign p) \<Longrightarrow> length ns = min (repl p) (card (nodes p))"

lemma length_filter_enumerate:
  "length (filter (\<lambda>(_, x). P x) (enumerate k xs)) = length (filter P xs)"
  by (induction xs arbitrary: k) auto

lemma length_chunks_for_node:
  "length (chunks_for_node asg a) = length (filter (\<lambda>ns. a \<in> set ns) asg)"
  by (simp add: chunks_for_node_def length_filter_enumerate)

lemma sum_slots:
  assumes "finite N" and "\<forall>ns \<in> set asg. distinct ns \<and> set ns \<subseteq> N \<and> length ns = k"
  shows "(\<Sum>a \<in> N. length (filter (\<lambda>ns. a \<in> set ns) asg)) = length asg * k"
  using assms(2)
proof (induction asg)
  case Nil
  then show ?case by simp
next
  case (Cons ns asg)
  have "(\<Sum>a \<in> N. if a \<in> set ns then 1 else 0 :: nat) = card (set ns)"
    using assms(1) Cons.prems by (simp add: sum.If_cases Int_absorb1)
  moreover have "(\<Sum>a \<in> N. length (filter (\<lambda>ns. a \<in> set ns) (ns # asg))) =
      (\<Sum>a \<in> N. if a \<in> set ns then 1 else 0) + (\<Sum>a \<in> N. length (filter (\<lambda>ns. a \<in> set ns) asg))"
    by (subst sum.distrib [symmetric]) (auto intro: sum.cong)
  ultimately show ?case using Cons by (simp add: distinct_card)
qed

context replica_assignment
begin

lemma slot_total:
  assumes "valid p"
  shows "(\<Sum>a \<in> nodes p. length (chunks_for_node (assign p) a)) = count p * min (repl p) (card (nodes p))"
  using sum_slots [OF finite_nodes [of p], of "assign p"] assms
    row_distinct row_nodes row_length assign_rows
  by (simp add: length_chunks_for_node)

lemma every_chunk_held:
  assumes "valid p" and "i < count p" and "0 < repl p" and "nodes p \<noteq> {}"
  shows "\<exists>a \<in> nodes p. a \<in> set (assign p ! i)"
proof -
  have row: "assign p ! i \<in> set (assign p)" using assms by (simp add: assign_rows)
  have "0 < card (nodes p)" using assms(4) finite_nodes by (simp add: card_gt_0_iff)
  then have "assign p ! i \<noteq> []" using row_length [OF assms(1) row] assms(3) by auto
  then show ?thesis using row_nodes [OF assms(1) row] hd_in_set by blast
qed

end


section \<open>Both schemes meet the contract\<close>

type_synonym v1_input = "(bytes \<Rightarrow> hash) \<times> hash \<times> nat \<times> addr20 list \<times> u32"
type_synonym v2_input = "wire_lib \<times> hash \<times> u32 \<times> addr20 list \<times> u32"

definition v1_valid :: "v1_input \<Rightarrow> bool" where
  "v1_valid = (\<lambda>(H, r, n, nodes, R). distinct nodes)"

definition v1_assign :: "v1_input \<Rightarrow> addr20 list list" where
  "v1_assign = (\<lambda>(H, r, n, nodes, R). the (compute_chunk_assignment H r n nodes R))"

definition v2_valid :: "v2_input \<Rightarrow> bool" where
  "v2_valid = (\<lambda>(W, r, n, snapshot, R). wire_ok W)"

definition v2_assign :: "v2_input \<Rightarrow> addr20 list list" where
  "v2_assign = (\<lambda>(W, r, n, snapshot, R). compute_assignment_v2 W r n snapshot R)"

lemma chunk_assign_loop_Some:
  assumes "nodes \<noteq> []" and "k \<le> card (set nodes)"
  shows "\<exists>a. chunk_assign_loop H r nodes k cs = Some a \<and> length a = length cs
           \<and> (\<forall>ns \<in> set a. distinct ns \<and> set ns \<subseteq> set nodes \<and> length ns = k)"
proof (induction cs)
  case Nil
  then show ?case by simp
next
  case (Cons c cs)
  moreover obtain a where "replica_loop H r c nodes [0..<k] [] = Some a" "distinct a"
      "set a \<subseteq> set nodes" "length a = k"
    using replica_loop_Some [of "[]" nodes "[0..<k]" H r c] assms by auto
  ultimately show ?case by auto
qed

lemma compute_chunk_assignment_rows:
  assumes "distinct nodes"
  shows "\<exists>a. compute_chunk_assignment H r n nodes R = Some a \<and> length a = n
           \<and> (\<forall>ns \<in> set a. distinct ns \<and> set ns \<subseteq> set nodes \<and> length ns = min (unat R) (length nodes))"
proof (cases "length nodes = 0 \<or> n = 0")
  case True
  then show ?thesis by (auto simp: compute_chunk_assignment_def Let_def)
next
  case False
  then show ?thesis
    using chunk_assign_loop_Some [of nodes "min (unat R) (length nodes)" H r "[0..<n]"] assms
    by (auto simp: compute_chunk_assignment_def Let_def distinct_card)
qed

interpretation v1: replica_assignment v1_valid v1_assign
    "\<lambda>(H, r, n, nodes, R). set nodes" "\<lambda>(H, r, n, nodes, R). n" "\<lambda>(H, r, n, nodes, R). unat R"
proof
  fix p :: v1_input and ns
  obtain H r n nodes R where p: "p = (H, r, n, nodes, R)" by (cases p) auto
  show "finite (case p of (H, r, n, nodes, R) \<Rightarrow> set nodes)" by (simp add: p)
  assume "v1_valid p"
  then have "distinct nodes" by (simp add: p v1_valid_def)
  from compute_chunk_assignment_rows [OF this, of H r n R] \<open>distinct nodes\<close>
  show "length (v1_assign p) = (case p of (H, r, n, nodes, R) \<Rightarrow> n)"
    and "ns \<in> set (v1_assign p) \<Longrightarrow> distinct ns"
    and "ns \<in> set (v1_assign p) \<Longrightarrow> set ns \<subseteq> (case p of (H, r, n, nodes, R) \<Rightarrow> set nodes)"
    and "ns \<in> set (v1_assign p) \<Longrightarrow> length ns =
      min (case p of (H, r, n, nodes, R) \<Rightarrow> unat R) (card (case p of (H, r, n, nodes, R) \<Rightarrow> set nodes))"
    by (auto simp: p v1_assign_def distinct_card)
qed

interpretation v2: replica_assignment v2_valid v2_assign
    "\<lambda>(W, r, n, snapshot, R). set snapshot" "\<lambda>(W, r, n, snapshot, R). unat n"
    "\<lambda>(W, r, n, snapshot, R). unat R"
  by unfold_locales (auto simp: v2_valid_def v2_assign_def compute_assignment_v2_def Let_def wire_okD
      dest: wire_okD(3) [THEN subsetD])

section \<open>Properties\<close>

text \<open>
  V1 assignment is total and correct on a node list without repetitions: the probe loops all
  end, every chunk gets a row, and each row holds exactly \<open>min R n\<close> different active nodes.
\<close>

theorem v1_assignment_total:
  assumes "distinct active_nodes"
  shows "\<exists>a. compute_chunk_assignment H r n active_nodes R = Some a \<and> length a = n
           \<and> (\<forall>ns \<in> set a. distinct ns \<and> set ns \<subseteq> set active_nodes
                          \<and> length ns = min (unat R) (length active_nodes))"
  using assms by (rule compute_chunk_assignment_rows)

text \<open>
  The probe loop never ends when the node list repeats an address and the replica count
  exceeds the number of different addresses, although the list may be sorted as the function asks:
  the computation returns nothing for any file with a chunk.
\<close>

theorem v1_assignment_diverges_on_duplicates:
  assumes "card (set active_nodes) < min (unat R) (length active_nodes)" and "0 < n"
  shows "compute_chunk_assignment H r n active_nodes R = None"
proof -
  have "active_nodes \<noteq> []" using assms by auto
  then have "replica_loop H r 0 active_nodes [0..<min (unat R) (length active_nodes)] [] = None"
    using assms(1) by (intro replica_loop_None) auto
  with assms(2) \<open>active_nodes \<noteq> []\<close> show ?thesis
    by (simp add: compute_chunk_assignment_def Let_def upt_conv_Cons)
qed

text \<open>
  Conservation of replica slots, for both schemes: summed over the nodes of the snapshot, the
  chunk lists that \<open>chunks_for_node\<close> hands to each node make up exactly
  \<open>chunk_count * min R n\<close> slots, so no replica is lost and none is handed out twice.
\<close>

theorem assignment_slots_conserved:
  assumes "distinct active_nodes" and "wire_ok W"
    and "compute_chunk_assignment H r n active_nodes R = Some a1"
    and "compute_assignment_v2 W r n2 snapshot R = a2"
  shows "(\<Sum>x \<in> set active_nodes. length (chunks_for_node a1 x)) = n * min (unat R) (length active_nodes)
       \<and> (\<Sum>x \<in> set snapshot. length (chunks_for_node a2 x)) = unat n2 * min (unat R) (card (set snapshot))"
  using v1.slot_total [of "(H, r, n, active_nodes, R)"] v2.slot_total [of "(W, r, n2, snapshot, R)"] assms
  by (simp add: v1_valid_def v1_assign_def v2_valid_def v2_assign_def distinct_card)

text \<open>
  The batch and the single-archive entry points of V2 agree with the per-chunk one: row \<open>i\<close> of
  \<open>compute_assignment_v2\<close> is \<open>assigned_archives\<close> of chunk \<open>i\<close>, and \<open>chunks_for_archive_v2\<close>
  (with its fast exit for archives outside the snapshot) lists exactly the chunks whose
  \<open>assigned_archives\<close> contain the archive, in ascending order.
\<close>

theorem v2_entry_points_agree:
  assumes "wire_ok W"
  shows "compute_assignment_v2 W r n snapshot R =
           map (\<lambda>i. assigned_archives W r snapshot (u32_of i) R) [0..<unat n]
       \<and> chunks_for_archive_v2 W r n snapshot R archive =
           filter (\<lambda>i. archive \<in> set (assigned_archives W r snapshot i R)) (map u32_of [0..<unat n])"
proof -
  have "archive \<notin> set snapshot \<Longrightarrow> archive \<notin> set (assigned_archives W r snapshot i R)" for i
    using wire_okD(1) [OF assms] wire_okD(3) [OF assms, of r snapshot i R] by (auto simp: assigned_archives_def)
  then show ?thesis
    by (auto simp: compute_assignment_v2_def chunks_for_archive_v2_def assigned_archives_def
        binary_search_def Let_def wire_okD(1) [OF assms] filter_empty_conv)
qed

lemma find_SomeD: "find P xs = Some x \<Longrightarrow> x \<in> set xs \<and> P x"
  by (auto simp: find_Some_iff)

lemma first_hit_None:
  "first_hit f wanted is = None \<longleftrightarrow> (\<forall>i \<in> set is. set (f i) \<inter> set wanted = {})"
  by (induction "is") (fastforce simp: find_None_iff split: option.splits dest: find_SomeD)+

lemma first_hit_SomeD:
  "first_hit f wanted [k..<m] = Some (j, a) \<Longrightarrow>
     \<exists>i. k \<le> i \<and> i < m \<and> j = u32_of i \<and> a \<in> set (f i) \<inter> set wanted
       \<and> (\<forall>i'. k \<le> i' \<and> i' < i \<longrightarrow> set (f i') \<inter> set wanted = {})"
proof (induction "m - k" arbitrary: k)
  case 0
  then show ?case by simp
next
  case (Suc d)
  then have "[k..<m] = k # [Suc k..<m]" by (simp add: upt_conv_Cons)
  show ?case
  proof (cases "find (\<lambda>a. a \<in> set wanted) (f k)")
    case (Some hit)
    then have "j = u32_of k" "a = hit" "hit \<in> set (f k) \<inter> set wanted"
      using Suc.prems \<open>[k..<m] = _\<close> find_SomeD [OF Some] by auto
    then show ?thesis using Suc.hyps by (intro exI [of _ k]) auto
  next
    case None
    then have none: "set (f k) \<inter> set wanted = {}" by (auto simp: find_None_iff)
    from None Suc have "first_hit f wanted [Suc k..<m] = Some (j, a)"
      using \<open>[k..<m] = _\<close> by simp
    moreover have "d = m - Suc k" using Suc.hyps(2) by simp
    ultimately obtain i where "Suc k \<le> i" "i < m" "j = u32_of i" "a \<in> set (f i) \<inter> set wanted"
        "\<forall>i'. Suc k \<le> i' \<and> i' < i \<longrightarrow> set (f i') \<inter> set wanted = {}"
      using Suc.hyps(1) [of "Suc k"] by blast
    moreover have "\<forall>i'. k \<le> i' \<and> i' < i \<longrightarrow> set (f i') \<inter> set wanted = {}"
      using calculation(5) none by (metis Suc_leI le_eq_less_or_eq)
    ultimately show ?thesis by (intro exI [of _ i]) simp
  qed
qed


text \<open>
  \<open>first_chunk_assigned_to_any\<close> decides whether any target holds a chunk of the file: it
  returns nothing exactly when no target is assigned any chunk, and otherwise the smallest such
  chunk index with a target that is assigned to it.
\<close>

theorem first_chunk_assigned_to_any_correct:
  assumes "wire_ok W"
  shows "case first_chunk_assigned_to_any W r n snapshot R targets of
      None \<Rightarrow> (\<forall>i < unat n. set (assigned_archives W r snapshot (u32_of i) R) \<inter> set targets = {})
    | Some (j, a) \<Rightarrow> a \<in> set targets \<and> a \<in> set (assigned_archives W r snapshot j R)
        \<and> unat j < unat n
        \<and> (\<forall>i < unat j. set (assigned_archives W r snapshot (u32_of i) R) \<inter> set targets = {})"
proof -
  let ?f = "\<lambda>i. assigned_archives W r snapshot (u32_of i) R"
  let ?wanted = "filter (binary_search (presorted_addresses snapshot)) targets"
  have sub: "set (?f i) \<subseteq> set snapshot" for i
    using wire_okD(1,3) [OF assms] by (simp add: assigned_archives_def)
  then have w: "set (?f i) \<inter> set ?wanted = set (?f i) \<inter> set targets" for i
    by (auto simp: binary_search_def)
  have eq: "first_chunk_assigned_to_any W r n snapshot R targets =
      (if ?wanted = [] then None else first_hit ?f ?wanted [0..<unat n])"
    by (simp add: first_chunk_assigned_to_any_def assigned_archives_def wire_okD(1) [OF assms] Let_def)
  show ?thesis
  proof (cases "first_chunk_assigned_to_any W r n snapshot R targets")
    case None
    then have "?wanted = [] \<or> first_hit ?f ?wanted [0..<unat n] = None" using eq by (simp split: if_splits)
    then have "\<forall>i < unat n. set (?f i) \<inter> set ?wanted = {}"
    proof
      assume "?wanted = []"
      then show ?thesis by (simp only: list.set) simp
    next
      assume "first_hit ?f ?wanted [0..<unat n] = None"
      then show ?thesis by (simp only: first_hit_None) simp
    qed
    with None show ?thesis by (simp only: w option.case)
  next
    case (Some ja)
    obtain j a where ja: "ja = (j, a)" by (cases ja)
    with Some eq have "first_hit ?f ?wanted [0..<unat n] = Some (j, a)" by (simp split: if_splits)
    from first_hit_SomeD [OF this] obtain i where i: "i < unat n" "j = u32_of i"
        "a \<in> set (?f i) \<inter> set ?wanted" "\<forall>i'. i' < i \<longrightarrow> set (?f i') \<inter> set ?wanted = {}"
      by auto
    have "unat j = i" using i(1,2) unat_less [of n] by (simp add: unat_u32_of)
    moreover have "\<forall>i'. i' < i \<longrightarrow> set (?f i') \<inter> set targets = {}" and "a \<in> set (?f i) \<inter> set targets"
      using i(3,4) by (simp_all only: w)
    ultimately show ?thesis using i(1,2) Some ja by auto
  qed
qed

section \<open>Instances\<close>

definition demo_wire :: wire_lib where
  "demo_wire = \<lparr>wire_assigned_archives = (\<lambda>root addrs i r. take (unat r) (presorted_addresses addrs)),
     wire_assigned_archives_presorted = (\<lambda>root addrs i r. take (unat r) addrs)\<rparr>"

lemma demo_wire_ok: "wire_ok demo_wire"
  by (auto simp: wire_ok_def demo_wire_def dest: in_set_takeD)

definition demo_nodes :: "addr20 list" where
  "demo_nodes = [replicate 20 1, replicate 20 2]"

lemma demo_nodes_simps [simp]: "distinct demo_nodes" "length demo_nodes = 2"
  "set demo_nodes = {replicate 20 1, replicate 20 2}" "card (set demo_nodes) = 2"
  by (simp_all add: demo_nodes_def)

theorem v1_assignment_total_witness:
  "\<exists>a. compute_chunk_assignment (\<lambda>d. take 32 (d @ replicate 32 0)) (replicate 32 0) 2 demo_nodes 3 = Some a
     \<and> length a = 2
     \<and> (\<forall>ns \<in> set a. distinct ns \<and> set ns \<subseteq> set demo_nodes \<and> length ns = min (unat (3 :: u32)) (length demo_nodes))"
  by (rule v1_assignment_total) simp

theorem v1_assignment_diverges_witness:
  "compute_chunk_assignment (\<lambda>d. take 32 (d @ replicate 32 0)) (replicate 32 0) 1
     [replicate 20 1, replicate 20 1] 2 = None"
  by (rule v1_assignment_diverges_on_duplicates) simp_all

theorem assignment_slots_conserved_witness:
  "\<exists>a1. compute_chunk_assignment (\<lambda>d. d) (replicate 32 0) 2 demo_nodes 1 = Some a1
     \<and> (\<Sum>x \<in> set demo_nodes. length (chunks_for_node a1 x)) = 2 * 1
     \<and> (\<Sum>x \<in> set demo_nodes.
          length (chunks_for_node (compute_assignment_v2 demo_wire (replicate 32 0) 5 demo_nodes 1) x)) = 5 * 1"
proof -
  obtain a1 where a1: "compute_chunk_assignment (\<lambda>d. d) (replicate 32 0) 2 demo_nodes 1 = Some a1"
    using compute_chunk_assignment_rows [of demo_nodes "\<lambda>d. d" "replicate 32 0" 2 1] by auto
  from assignment_slots_conserved [OF _ demo_wire_ok a1 refl, of 5 demo_nodes] a1
  show ?thesis by simp
qed

theorem v2_entry_points_agree_witness:
  "compute_assignment_v2 demo_wire (replicate 32 0) 2 demo_nodes 1 =
     map (\<lambda>i. assigned_archives demo_wire (replicate 32 0) demo_nodes (u32_of i) 1) [0..<unat (2 :: u32)]
   \<and> chunks_for_archive_v2 demo_wire (replicate 32 0) 2 demo_nodes 1 (replicate 20 2) =
     filter (\<lambda>i. replicate 20 2 \<in> set (assigned_archives demo_wire (replicate 32 0) demo_nodes i 1))
       (map u32_of [0..<unat (2 :: u32)])"
  by (rule v2_entry_points_agree [OF demo_wire_ok])

theorem first_chunk_assigned_to_any_witness:
  "case first_chunk_assigned_to_any demo_wire (replicate 32 0) 2 demo_nodes 1 [replicate 20 1] of
      None \<Rightarrow> (\<forall>i < unat (2 :: u32).
        set (assigned_archives demo_wire (replicate 32 0) demo_nodes (u32_of i) 1) \<inter> set [replicate 20 1] = {})
    | Some (j, a) \<Rightarrow> a \<in> set [replicate 20 1]
        \<and> a \<in> set (assigned_archives demo_wire (replicate 32 0) demo_nodes j 1)
        \<and> unat j < unat (2 :: u32)
        \<and> (\<forall>i < unat j.
             set (assigned_archives demo_wire (replicate 32 0) demo_nodes (u32_of i) 1) \<inter> set [replicate 20 1] = {})"
  by (rule first_chunk_assigned_to_any_correct [OF demo_wire_ok])

end
