(* ===== verification/Merkle.thy ===== *)
theory Merkle
  imports Snip_Prelude
begin

text \<open>
  The BLAKE3 Merkle tree of \<open>sum-store/src/merkle.rs\<close> and the proof verifiers of
  \<open>sum-store/src/verify.rs\<close>. BLAKE3 itself is a third-party crate: it is the parameter \<open>H\<close>
  of every definition, with the output length of 32 bytes as the only fact relied on. The shift
  \<open>chunk_index >> level\<close> is the release-build shift, whose amount is taken modulo 32.
\<close>

section \<open>The tree\<close>

definition hash_pair :: "(bytes \<Rightarrow> hash) \<Rightarrow> hash \<Rightarrow> hash \<Rightarrow> hash" where
  "hash_pair H left right = H (left @ right)"

record merkle_tree =
  levels :: "hash list list"

text \<open>One pass over \<open>current.chunks(2)\<close>; an odd last node is paired with itself.\<close>

fun next_level :: "(bytes \<Rightarrow> hash) \<Rightarrow> hash list \<Rightarrow> hash list" where
  "next_level H [] = []"
| "next_level H [x] = [hash_pair H x x]"
| "next_level H (x # y # r) = hash_pair H x y # next_level H r"

lemma length_next_level [simp]: "length (next_level H xs) = (length xs + 1) div 2"
  by (induction H xs rule: next_level.induct) auto

text \<open>The \<open>while current.len() > 1\<close> loop: the levels it pushes after the leaves.\<close>

function build_levels :: "(bytes \<Rightarrow> hash) \<Rightarrow> hash list \<Rightarrow> hash list list" where
  "build_levels H current =
     (if length current > 1 then next_level H current # build_levels H (next_level H current)
      else [])"
  by pat_completeness auto
termination
  by (relation "measure (\<lambda>(H, c). length c)") auto

declare build_levels.simps [simp del]

definition build :: "(bytes \<Rightarrow> hash) \<Rightarrow> hash list \<Rightarrow> merkle_tree" where
  "build H leaf_hashes =
     (if leaf_hashes = [] then \<lparr>levels = []\<rparr>
      else if length leaf_hashes = 1 then \<lparr>levels = [leaf_hashes]\<rparr>
      else \<lparr>levels = leaf_hashes # build_levels H leaf_hashes\<rparr>)"

definition zero_hash :: hash where
  "zero_hash = replicate 32 0"

definition root :: "merkle_tree \<Rightarrow> hash" where
  "root t = (case levels t of [] \<Rightarrow> zero_hash
     | _ \<Rightarrow> (case last (levels t) of [] \<Rightarrow> zero_hash | h # _ \<Rightarrow> h))"

definition depth :: "merkle_tree \<Rightarrow> nat" where
  "depth t = (if length (levels t) \<le> 1 then 0 else length (levels t) - 1)"

definition leaf_count :: "merkle_tree \<Rightarrow> nat" where
  "leaf_count t = (case levels t of [] \<Rightarrow> 0 | l # _ \<Rightarrow> length l)"

text \<open>The loop of \<open>generate_proof\<close> over the levels below the root; \<open>None\<close> is the
  out-of-bounds panic of \<open>self.levels[level][idx]\<close>.\<close>

fun proof_loop :: "hash list list \<Rightarrow> nat \<Rightarrow> hash list option" where
  "proof_loop [] idx = Some []"
| "proof_loop (lv # lvs) idx =
     (let sibling_idx = (if even idx then idx + 1 else idx - 1) in
      if sibling_idx < length lv then map_option ((#) (lv ! sibling_idx)) (proof_loop lvs (idx div 2))
      else if idx < length lv then map_option ((#) (lv ! idx)) (proof_loop lvs (idx div 2))
      else None)"

definition generate_proof :: "merkle_tree \<Rightarrow> u32 \<Rightarrow> hash list option" where
  "generate_proof t chunk_index =
     (if length (levels t) \<le> 1 then Some []
      else proof_loop (butlast (levels t)) (unat chunk_index))"

section \<open>Verification\<close>

definition shr32 :: "u32 \<Rightarrow> nat \<Rightarrow> u32" where
  "shr32 i level = drop_bit (level mod 32) i"

text \<open>The loop of \<open>verify_merkle_proof\<close> from a given level on.\<close>

fun merkle_walk :: "(bytes \<Rightarrow> hash) \<Rightarrow> u32 \<Rightarrow> nat \<Rightarrow> hash \<Rightarrow> hash list \<Rightarrow> hash" where
  "merkle_walk H chunk_index level current [] = current"
| "merkle_walk H chunk_index level current (sibling # path) =
     (if shr32 chunk_index level AND 1 = 0
      then merkle_walk H chunk_index (Suc level) (H (current @ sibling)) path
      else merkle_walk H chunk_index (Suc level) (H (sibling @ current)) path)"

definition verify_merkle_proof :: "(bytes \<Rightarrow> hash) \<Rightarrow> hash \<Rightarrow> u32 \<Rightarrow> hash list \<Rightarrow> hash \<Rightarrow> bool" where
  "verify_merkle_proof H chunk_hash chunk_index merkle_path expected_root \<longleftrightarrow>
     merkle_walk H chunk_index 0 chunk_hash merkle_path = expected_root"

text \<open>The wire variant only converts \<open>[u8; 32]\<close> to \<open>blake3::Hash\<close>, one type here.\<close>

definition verify_merkle_proof_bytes ::
    "(bytes \<Rightarrow> hash) \<Rightarrow> hash \<Rightarrow> u32 \<Rightarrow> hash list \<Rightarrow> hash \<Rightarrow> bool" where
  "verify_merkle_proof_bytes H chunk_hash chunk_index merkle_path expected_root =
     verify_merkle_proof H chunk_hash chunk_index (map (\<lambda>b. b) merkle_path) expected_root"

definition leading_zeros :: "u32 \<Rightarrow> nat" where
  "leading_zeros w = length (takeWhile (\<lambda>i. \<not> bit w i) (rev [0..<32]))"

definition expected_proof_depth :: "u32 \<Rightarrow> nat" where
  "expected_proof_depth total_leaves =
     (if total_leaves = 0 \<or> total_leaves = 1 then 0 else 32 - leading_zeros (total_leaves - 1))"

definition verify_merkle_proof_bytes_for_tree ::
    "(bytes \<Rightarrow> hash) \<Rightarrow> hash \<Rightarrow> u32 \<Rightarrow> hash list \<Rightarrow> hash \<Rightarrow> u32 \<Rightarrow> bool" where
  "verify_merkle_proof_bytes_for_tree H chunk_hash chunk_index merkle_path expected_root total_leaves =
     (if total_leaves = 0 then False
      else if chunk_index \<ge> total_leaves then False
      else if length merkle_path \<noteq> expected_proof_depth total_leaves then False
      else if total_leaves = 1 then chunk_hash = expected_root
      else verify_merkle_proof_bytes H chunk_hash chunk_index merkle_path expected_root)"

section \<open>Depth\<close>

fun bitlen :: "nat \<Rightarrow> nat" where
  "bitlen n = (if n = 0 then 0 else Suc (bitlen (n div 2)))"

declare bitlen.simps [simp del]

lemma bitlen_0 [simp]: "bitlen 0 = 0"
  by (simp add: bitlen.simps)

lemma bitlen_eq: "2 ^ k \<le> n \<Longrightarrow> n < 2 ^ Suc k \<Longrightarrow> bitlen n = Suc k"
proof (induction k arbitrary: n)
  case 0
  then have "n = 1" by simp
  then show ?case by (simp add: bitlen.simps)
next
  case (Suc k)
  then have "bitlen (n div 2) = Suc k" by (intro Suc.IH) auto
  moreover have "n \<noteq> 0" using Suc.prems by (metis not_less_zero power_eq_0_iff zero_neq_numeral le_zero_eq)
  ultimately show ?case by (simp add: bitlen.simps [of n])
qed

lemma bitlen_le: "n < 2 ^ k \<Longrightarrow> bitlen n \<le> k"
proof (induction k arbitrary: n)
  case 0
  then show ?case by (simp add: bitlen.simps)
next
  case (Suc k)
  then have "bitlen (n div 2) \<le> k" by (intro Suc.IH) auto
  then show ?case by (simp add: bitlen.simps [of n])
qed

lemma less_two_pow_bitlen: "n < 2 ^ bitlen n"
proof (induction n rule: bitlen.induct)
  case (1 n)
  then show ?case by (cases "n = 0") (auto simp: bitlen.simps [of n])
qed

lemma takeWhile_bits:
  assumes "unat (w :: u32) < 2 ^ k"
  shows "k - length (takeWhile (\<lambda>i. \<not> bit w i) (rev [0..<k])) = bitlen (unat w)"
  using assms
proof (induction k)
  case 0
  then show ?case by (simp add: bitlen.simps)
next
  case (Suc k)
  have bit_k: "bit w k \<longleftrightarrow> 2 ^ k \<le> unat w"
  proof -
    have "bit w k \<longleftrightarrow> odd (unat w div 2 ^ k)"
      using bit_iff_odd [of "unat w" k] by (simp add: bit_unsigned_iff)
    moreover have "unat w div 2 ^ k < 2"
      using Suc.prems by (simp add: less_mult_imp_div_less)
    moreover have "unat w div 2 ^ k = 0 \<longleftrightarrow> unat w < 2 ^ k"
      by (simp add: div_eq_0_iff)
    moreover have "odd m \<longleftrightarrow> m \<noteq> 0" if "m < 2" for m :: nat
      using that by (cases m) auto
    ultimately show ?thesis by (metis linorder_not_le)
  qed
  show ?case
  proof (cases "bit w k")
    case True
    with bit_k Suc.prems show ?thesis by (simp add: bitlen_eq)
  next
    case False
    with bit_k have "unat w < 2 ^ k" by simp
    moreover have "length (takeWhile (\<lambda>i. \<not> bit w i) (rev [0..<k])) \<le> k"
      by (metis diff_zero length_rev length_takeWhile_le length_upt)
    ultimately show ?thesis using False Suc.IH by simp
  qed
qed

lemma expected_proof_depth_bitlen:
  "expected_proof_depth n = (if unat n \<le> 1 then 0 else bitlen (unat n - 1))"
proof (cases "unat n \<le> 1")
  case True
  then have "word_of_nat (unat n) = (0 :: u32) \<or> word_of_nat (unat n) = (1 :: u32)"
    by (cases "unat n") auto
  then have "n = 0 \<or> n = 1" by simp
  with True show ?thesis by (simp add: expected_proof_depth_def)
next
  case False
  then have "n \<noteq> 0" "n \<noteq> 1" by auto
  moreover have "unat (n - 1) = unat n - 1" using \<open>n \<noteq> 0\<close> by (simp add: unat_minus_one)
  ultimately show ?thesis using False takeWhile_bits [of "n - 1" 32] unat_less [of "n - 1"]
    by (simp add: expected_proof_depth_def leading_zeros_def)
qed

lemma length_build_levels: "length (build_levels H cur) = bitlen (length cur - 1)"
proof (induction H cur rule: build_levels.induct)
  case (1 H cur)
  show ?case
  proof (cases "length cur > 1")
    case True
    have "(length cur + 1) div 2 - 1 = (length cur - 1) div 2" using True by linarith
    with True 1 show ?thesis
      by (simp add: build_levels.simps [of H cur] bitlen.simps [of "length cur - Suc 0"])
  next
    case False
    then have "length cur - 1 = 0" by linarith
    with False show ?thesis by (simp add: build_levels.simps [of H cur] bitlen.simps)
  qed
qed


section \<open>Completeness: every generated proof verifies\<close>

lemma next_level_nth:
  "j < (length xs + 1) div 2 \<Longrightarrow>
     next_level H xs ! j =
       hash_pair H (xs ! (2 * j)) (if 2 * j + 1 < length xs then xs ! (2 * j + 1) else xs ! (2 * j))"
proof (induction H xs arbitrary: j rule: next_level.induct)
  case (3 H x y r)
  then show ?case by (cases j) auto
qed auto

lemma shr32_bit: "level < 32 \<Longrightarrow> shr32 ci level AND 1 = 0 \<longleftrightarrow> even (unat ci div 2 ^ level)"
proof -
  assume l: "level < 32"
  have "shr32 ci level AND 1 = 0 \<longleftrightarrow> even (drop_bit level ci)"
    using l by (simp add: shr32_def and_one_eq even_iff_mod_2_eq_zero)
  also have "\<dots> \<longleftrightarrow> \<not> bit ci level" by (simp add: even_drop_bit_iff_not_bit)
  also have "\<dots> \<longleftrightarrow> even (unat ci div 2 ^ level)"
    using bit_iff_odd [of "unat ci" level] by (simp add: bit_unsigned_iff)
  finally show ?thesis .
qed

lemma last_Cons_build_levels:
  "length cur > 1 \<Longrightarrow> last (cur # build_levels H cur) = last (next_level H cur # build_levels H (next_level H cur))"
  by (simp add: build_levels.simps [of H cur])

definition sibling_of :: "hash list \<Rightarrow> nat \<Rightarrow> hash" where
  "sibling_of lv i =
     (if even i then (if i + 1 < length lv then lv ! (i + 1) else lv ! i) else lv ! (i - 1))"

lemma proof_loop_Cons:
  "i < length lv \<Longrightarrow> proof_loop (lv # lvs) i = map_option ((#) (sibling_of lv i)) (proof_loop lvs (i div 2))"
  by (auto simp: sibling_of_def Let_def)

declare proof_loop.simps(2) [simp del]

lemma merkle_walk_Cons:
  assumes "level < 32" and "i = unat ci div 2 ^ level"
  shows "merkle_walk H ci level cur (s # p) =
    merkle_walk H ci (Suc level) (H (if even i then cur @ s else s @ cur)) p"
  using assms by (simp add: shr32_bit)

declare merkle_walk.simps(2) [simp del]

lemma next_level_step:
  "i < length xs \<Longrightarrow> next_level H xs ! (i div 2) =
     H (if even i then xs ! i @ sibling_of xs i else sibling_of xs i @ xs ! i)"
  using next_level_nth [of "i div 2" xs H]
  by (cases "even i") (auto simp: hash_pair_def sibling_of_def elim!: oddE)

lemma proof_walk:
  assumes "i = unat ci div 2 ^ level" and "i < length cur"
    and "level + length (build_levels H cur) \<le> 32"
  shows "\<exists>p. proof_loop (butlast (cur # build_levels H cur)) i = Some p
           \<and> length p = length (build_levels H cur)
           \<and> [merkle_walk H ci level (cur ! i) p] = last (cur # build_levels H cur)"
  using assms
proof (induction H cur arbitrary: i level rule: build_levels.induct)
  case (1 H cur)
  show ?case
  proof (cases "length cur > 1")
    case False
    with 1 have "length cur = 1" by linarith
    moreover from this have "build_levels H cur = []" by (simp add: build_levels.simps [of H cur])
    ultimately show ?thesis using 1 by (cases cur) auto
  next
    case True
    let ?nx = "next_level H cur" and ?j = "i div 2"
    have bl: "build_levels H cur = ?nx # build_levels H ?nx"
      using True by (simp add: build_levels.simps [of H cur])
    have "?j = unat ci div 2 ^ Suc level" using 1 by (simp add: div_mult2_eq [symmetric] mult.commute)
    moreover have j: "?j < length ?nx" using 1(3) by simp
    ultimately obtain p where p: "proof_loop (butlast (?nx # build_levels H ?nx)) ?j = Some p"
        "length p = length (build_levels H ?nx)"
        "[merkle_walk H ci (Suc level) (?nx ! ?j) p] = last (?nx # build_levels H ?nx)"
      using "1.IH" [of ?j "Suc level"] True "1.prems" bl by auto
    have "butlast (cur # build_levels H cur) = cur # butlast (?nx # build_levels H ?nx)"
      by (simp add: bl)
    then have "proof_loop (butlast (cur # build_levels H cur)) i = Some (sibling_of cur i # p)"
      using p 1(3) by (simp only: proof_loop_Cons option.map)
    moreover have "merkle_walk H ci level (cur ! i) (sibling_of cur i # p) =
        merkle_walk H ci (Suc level) (?nx ! ?j) p"
      using "1.prems" bl by (simp add: merkle_walk_Cons next_level_step)
    ultimately show ?thesis using p last_Cons_build_levels [OF True] bl by auto
  qed
qed

lemma length_last_level: "cur \<noteq> [] \<Longrightarrow> length (last (cur # build_levels H cur)) = 1"
proof (induction H cur rule: build_levels.induct)
  case (1 H cur)
  show ?case
  proof (cases "length cur > 1")
    case True
    then have "next_level H cur \<noteq> []" using length_next_level [of H cur] by (cases "next_level H cur") auto
    then have "length (last (next_level H cur # build_levels H (next_level H cur))) = 1"
      using 1 True by blast
    with True show ?thesis by (simp only: last_Cons_build_levels)
  next
    case False
    with 1 have "length cur = 1" by (cases cur) auto
    with False show ?thesis by (simp add: build_levels.simps [of H cur])
  qed
qed

lemma levels_build: "leaves \<noteq> [] \<Longrightarrow> levels (build H leaves) = leaves # build_levels H leaves"
  by (cases "length leaves = 1") (auto simp: build_def build_levels.simps [of H leaves])

lemma root_build: "leaves \<noteq> [] \<Longrightarrow> [root (build H leaves)] = last (leaves # build_levels H leaves)"
  using length_last_level [of leaves H]
  by (auto simp: root_def levels_build length_Suc_conv simp del: last.simps split: list.splits)

lemma depth_build: "depth (build H leaves) = bitlen (length leaves - 1)"
proof (cases "leaves = []")
  case True
  then show ?thesis by (simp add: depth_def build_def bitlen.simps)
next
  case False
  then show ?thesis using length_build_levels [of H leaves]
    by (cases "build_levels H leaves") (auto simp: depth_def levels_build)
qed


lemma bitlen_leaves: "n < 2 ^ 32 \<Longrightarrow> bitlen (n - 1) \<le> 32"
  by (rule bitlen_le) simp

lemma generated_proof_verifies:
  assumes "length leaves < 2 ^ 32" and "unat ci < length leaves"
  shows "\<exists>p. generate_proof (build H leaves) ci = Some p
           \<and> verify_merkle_proof_bytes_for_tree H (leaves ! unat ci) ci p
               (root (build H leaves)) (u32_of (length leaves))"
proof -
  let ?n = "u32_of (length leaves)"
  have n: "unat ?n = length leaves" and ne: "leaves \<noteq> []"
    using assms by (auto simp: unat_u32_of)
  obtain p where p: "proof_loop (butlast (leaves # build_levels H leaves)) (unat ci) = Some p"
      "length p = bitlen (length leaves - 1)"
      "[merkle_walk H ci 0 (leaves ! unat ci) p] = last (leaves # build_levels H leaves)"
    using proof_walk [of "unat ci" ci 0 leaves H] assms bitlen_leaves [OF assms(1)]
    by (auto simp: length_build_levels)
  then have w: "merkle_walk H ci 0 (leaves ! unat ci) p = root (build H leaves)"
    using root_build [OF ne, of H] by (metis list.inject)
  have "generate_proof (build H leaves) ci = Some p"
    using p(1,2) ne
    by (cases "build_levels H leaves") (auto simp: generate_proof_def levels_build)
  moreover have "length p = expected_proof_depth ?n"
    using p(2) n by (auto simp: expected_proof_depth_bitlen)
  moreover have "?n \<noteq> 0" and "\<not> ci \<ge> ?n"
    using n assms by (auto simp: word_le_nat_alt)
  ultimately show ?thesis
    using w p(2) n by (auto simp: verify_merkle_proof_bytes_for_tree_def verify_merkle_proof_bytes_def
        verify_merkle_proof_def)
qed

text \<open>
  Proof completeness: for every file of fewer than \<open>2^32\<close> chunks and every chunk of it,
  \<open>generate_proof\<close> does not panic and the proof it returns passes the strict push verifier
  against the tree's root and the file's chunk count.
\<close>

theorem merkle_proof_complete:
  assumes "length leaves < 2 ^ 32" and "unat ci < length leaves"
  shows "\<exists>p. generate_proof (build H leaves) ci = Some p
           \<and> verify_merkle_proof_bytes_for_tree H (leaves ! unat ci) ci p
               (root (build H leaves)) (u32_of (length leaves))"
  using assms by (rule generated_proof_verifies)

section \<open>Soundness: a verified leaf is the file's leaf, or BLAKE3 is broken\<close>

text \<open>
  The pair of distinct inputs with one digest that a forged proof hands out: the walk over the
  forged path, compared at each level with the real tree.
\<close>

fun merkle_collision ::
    "(bytes \<Rightarrow> hash) \<Rightarrow> hash list \<Rightarrow> nat \<Rightarrow> hash \<Rightarrow> hash list \<Rightarrow> (bytes \<times> bytes) option" where
  "merkle_collision H cur i h [] = None"
| "merkle_collision H cur i h (s # p) =
     (let x = (if even i then h @ s else s @ h);
          y = (if even i then cur ! i @ sibling_of cur i else sibling_of cur i @ cur ! i)
      in if x \<noteq> y \<and> H x = H y then Some (x, y)
         else merkle_collision H (next_level H cur) (i div 2) (H x) p)"

definition is_collision :: "(bytes \<Rightarrow> hash) \<Rightarrow> (bytes \<times> bytes) option \<Rightarrow> bool" where
  "is_collision H c = (case c of None \<Rightarrow> False
     | Some (x, y) \<Rightarrow> x \<noteq> y \<and> length x = 64 \<and> length y = 64 \<and> H x = H y)"

lemma sibling_of_in: "i < length lv \<Longrightarrow> sibling_of lv i \<in> set lv"
  by (auto simp: sibling_of_def)

lemma next_level_hashes:
  "\<forall>d. length (H d) = 32 \<Longrightarrow> \<forall>l \<in> set (next_level H xs). length l = 32"
  by (induction H xs rule: next_level.induct) (auto simp: hash_pair_def)

lemma walk_sound:
  assumes H32: "\<forall>d. length (H d) = 32"
    and "i = unat ci div 2 ^ level" and "i < length cur"
    and "level + length (build_levels H cur) \<le> 32"
    and "\<forall>l \<in> set cur. length l = 32" and "length h = 32" and "\<forall>s \<in> set p. length s = 32"
    and "length p = length (build_levels H cur)"
    and "[merkle_walk H ci level h p] = last (cur # build_levels H cur)"
  shows "h = cur ! i \<or> is_collision H (merkle_collision H cur i h p)"
  using assms
proof (induction H cur arbitrary: i level h p rule: build_levels.induct)
  case (1 H cur)
  show ?case
  proof (cases "length cur > 1")
    case False
    with 1 have "length cur = 1" by linarith
    moreover from this have "build_levels H cur = []" by (simp add: build_levels.simps [of H cur])
    ultimately show ?thesis using 1 by (cases cur) auto
  next
    case True
    let ?nx = "next_level H cur" and ?sib = "sibling_of cur i"
    have bl: "build_levels H cur = ?nx # build_levels H ?nx"
      using True by (simp add: build_levels.simps [of H cur])
    obtain s p' where p: "p = s # p'" using 1 bl by (cases p) auto
    let ?x = "if even i then h @ s else s @ h"
    let ?y = "if even i then cur ! i @ ?sib else ?sib @ cur ! i"
    have "length ?sib = 32" "length (cur ! i) = 32" using 1 sibling_of_in by auto
    then have len: "length ?x = 64" "length ?y = 64" and inj: "?x = ?y \<Longrightarrow> h = cur ! i"
      using "1.prems" p by (auto simp: append_eq_append_conv split: if_splits)
    have ny: "?nx ! (i div 2) = H ?y" using 1 by (simp add: next_level_step)
    have "i div 2 = unat ci div 2 ^ Suc level"
      using 1 by (simp add: div_mult2_eq [symmetric] mult.commute)
    moreover have "[merkle_walk H ci (Suc level) (H ?x) p'] = last (?nx # build_levels H ?nx)"
      using "1.prems" p bl last_Cons_build_levels [OF True] by (simp add: merkle_walk_Cons)
    ultimately have "H ?x = H ?y \<or> is_collision H (merkle_collision H ?nx (i div 2) (H ?x) p')"
      using "1.IH" [of "i div 2" "Suc level" "H ?x" p'] True "1.prems" p bl ny next_level_hashes
      by auto
    then show ?thesis
      using inj len p by (auto simp: Let_def is_collision_def)
  qed
qed

lemma verify_for_treeD:
  assumes "verify_merkle_proof_bytes_for_tree H h ci path rt n"
  shows "unat ci < unat n" and "length path = bitlen (unat n - 1)"
    and "merkle_walk H ci 0 h path = rt"
  using assms
  by (auto simp: verify_merkle_proof_bytes_for_tree_def verify_merkle_proof_bytes_def
      verify_merkle_proof_def expected_proof_depth_bitlen word_le_nat_alt split: if_splits)

lemma verified_leaf_binding:
  assumes "\<forall>d. length (H d) = 32"
    and "length leaves < 2 ^ 32" and "\<forall>l \<in> set leaves. length l = 32"
    and "length h = 32" and "\<forall>s \<in> set path. length s = 32"
    and "verify_merkle_proof_bytes_for_tree H h ci path (root (build H leaves)) (u32_of (length leaves))"
  shows "unat ci < length leaves
       \<and> (h = leaves ! unat ci \<or> is_collision H (merkle_collision H leaves (unat ci) h path))"
proof -
  have n: "unat (u32_of (length leaves)) = length leaves" using assms(2) by (rule unat_u32_of)
  note v = verify_for_treeD [OF assms(6), unfolded n]
  from v(1) have "leaves \<noteq> []" by auto
  then have "[merkle_walk H ci 0 h path] = last (leaves # build_levels H leaves)"
    using root_build v(3) by metis
  then have "h = leaves ! unat ci \<or> is_collision H (merkle_collision H leaves (unat ci) h path)"
    using assms v bitlen_leaves [OF assms(2)]
    by (intro walk_sound [where level = 0]) (auto simp: length_build_levels)
  with v(1) show ?thesis by simp
qed

text \<open>
  C37. Proof soundness: when the strict push verifier accepts a leaf hash at an index against the
  root of a file's tree and its chunk count, the index is in range and the hash is that leaf of the
  file, or the accepted path yields, by the explicit computation \<open>merkle_collision\<close>, two
  different 64-byte inputs with one BLAKE3 digest.
\<close>

theorem merkle_proof_binding:
  assumes "\<forall>d. length (H d) = 32"
    and "length leaves < 2 ^ 32" and "\<forall>l \<in> set leaves. length l = 32"
    and "length h = 32" and "\<forall>s \<in> set path. length s = 32"
    and "verify_merkle_proof_bytes_for_tree H h ci path (root (build H leaves)) (u32_of (length leaves))"
  shows "unat ci < length leaves
       \<and> (h = leaves ! unat ci \<or> is_collision H (merkle_collision H leaves (unat ci) h path))"
  using assms by (rule verified_leaf_binding)

text \<open>
  The closed formula \<open>32 - (n - 1).leading_zeros()\<close> of the verifier is the depth of the tree
  the builder makes for every leaf count below \<open>2^32\<close>, the empty and one-leaf trees included.
\<close>

theorem expected_depth_is_tree_depth:
  "length leaves < 2 ^ 32 \<Longrightarrow>
     expected_proof_depth (u32_of (length leaves)) = depth (build H leaves)"
  by (cases "length leaves \<le> 1")
     (auto simp: expected_proof_depth_bitlen depth_build unat_u32_of)

lemma next_level_dup_last: "odd (length xs) \<Longrightarrow> next_level H (xs @ [last xs]) = next_level H xs"
  by (induction H xs rule: next_level.induct) (auto simp: odd_pos)

text \<open>
  The root does not determine the number of leaves: appending a copy of the last leaf to a
  tree with an odd number (at least three) of leaves leaves the root unchanged. The chunk count has
  to come from elsewhere, which is why the strict verifier takes it from chain state.
\<close>

theorem merkle_root_duplicate_last:
  assumes "odd (length xs)" and "length xs \<ge> 3"
  shows "root (build H (xs @ [last xs])) = root (build H xs)"
proof -
  have "xs \<noteq> []" using assms(2) by auto
  have "[root (build H (xs @ [last xs]))] = [root (build H xs)]"
    using root_build [of "xs @ [last xs]" H] root_build [OF \<open>xs \<noteq> []\<close>, of H]
      assms next_level_dup_last [OF assms(1), of H] \<open>xs \<noteq> []\<close>
    by (simp add: build_levels.simps [of H "xs @ [last xs]"] build_levels.simps [of H xs])
  then show ?thesis by simp
qed


section \<open>Instances\<close>

text \<open>A concrete 32-byte digest, for instances of the theorems: the first 32 bytes, zero padded.\<close>

definition demo_hash :: "bytes \<Rightarrow> hash" where
  "demo_hash d = take 32 (d @ replicate 32 0)"

lemma length_demo_hash [simp]: "length (demo_hash d) = 32"
  by (simp add: demo_hash_def)

definition demo_leaves :: "hash list" where
  "demo_leaves = [replicate 32 1, replicate 32 2, replicate 32 3]"

lemma demo_leaves_simps [simp]:
  "length demo_leaves = 3" "demo_leaves ! 0 = replicate 32 1" "demo_leaves ! Suc 0 = replicate 32 2"
  "demo_leaves ! 2 = replicate 32 3" "demo_leaves \<noteq> []" "last demo_leaves = replicate 32 3"
  "\<forall>l \<in> set demo_leaves. length l = 32"
  by (simp_all add: demo_leaves_def)

theorem merkle_proof_complete_witness:
  "\<exists>p. generate_proof (build demo_hash demo_leaves) 2 = Some p
     \<and> verify_merkle_proof_bytes_for_tree demo_hash (replicate 32 3) 2 p
         (root (build demo_hash demo_leaves)) 3"
  using merkle_proof_complete [of demo_leaves 2 demo_hash] by (simp add: u32_of_def)

lemma demo_root: "root (build demo_hash demo_leaves) = replicate 32 1"
  by (simp add: root_def build_def demo_leaves_def build_levels.simps hash_pair_def demo_hash_def)

lemma demo_verifies:
  "verify_merkle_proof_bytes_for_tree demo_hash (replicate 32 1) 0 [replicate 32 2, replicate 32 3]
     (replicate 32 1) 3"
proof -
  have "expected_proof_depth 3 = 2"
    by (simp add: expected_proof_depth_bitlen bitlen.simps)
  then show ?thesis
    by (simp add: verify_merkle_proof_bytes_for_tree_def verify_merkle_proof_bytes_def
        verify_merkle_proof_def merkle_walk.simps shr32_def demo_hash_def)
qed

theorem merkle_proof_binding_witness:
  "unat (0 :: u32) < length demo_leaves
   \<and> (replicate 32 1 = demo_leaves ! 0
      \<or> is_collision demo_hash
          (merkle_collision demo_hash demo_leaves 0 (replicate 32 1) [replicate 32 2, replicate 32 3]))"
  using merkle_proof_binding [of demo_hash demo_leaves "replicate 32 1" "[replicate 32 2, replicate 32 3]" 0]
    demo_verifies demo_root
  by (simp add: u32_of_def)

theorem expected_depth_is_tree_depth_witness:
  "expected_proof_depth 3 = depth (build demo_hash demo_leaves)"
  using expected_depth_is_tree_depth [of demo_leaves demo_hash] by (simp add: u32_of_def)

theorem merkle_root_duplicate_last_witness:
  "root (build demo_hash (demo_leaves @ [replicate 32 3])) = root (build demo_hash demo_leaves)"
  using merkle_root_duplicate_last [of demo_leaves demo_hash] by simp

end
