(* ===== verification/Storage_Types.thy ===== *)
theory Storage_Types
  imports Snip_Prelude
begin

text \<open>
  The data model shared by every crate (\<open>sum-types/src/storage.rs\<close>), content identifiers
  (\<open>sum-store/src/content_id.rs\<close>) and the digest checks of \<open>sum-store/src/verify.rs\<close>.
  The crates \<open>blake3\<close> and \<open>cid\<close> are third-party code: \<open>digest_lib\<close> holds the functions the
  sources call, and \<open>lib_ok\<close> states the documented behaviour some theorems rely on.
\<close>

section \<open>Third-party digests and content identifiers\<close>

datatype cid_version = CidV0 | CidV1

record cid_parts =
  cid_ver :: cid_version
  cid_codec :: u64
  cid_hash_code :: u64
  cid_digest :: bytes

record digest_lib =
  blake3 :: "bytes \<Rightarrow> hash"                 \<comment> \<open>\<open>blake3::hash\<close>\<close>
  cid_to_string :: "cid_parts \<Rightarrow> string"    \<comment> \<open>\<open>Cid::to_string\<close>\<close>
  cid_try_from :: "string \<Rightarrow> cid_parts option" \<comment> \<open>\<open>Cid::try_from\<close>\<close>

definition BLAKE3_CODE :: u64 where "BLAKE3_CODE = 0x1e"
definition RAW_CODEC :: u64 where "RAW_CODEC = 0x55"

text \<open>\<open>Multihash::wrap\<close> and \<open>Cid::new_v1\<close> only put the parts together.\<close>

definition raw_cid :: "hash \<Rightarrow> cid_parts" where
  "raw_cid h = \<lparr>cid_ver = CidV1, cid_codec = RAW_CODEC, cid_hash_code = BLAKE3_CODE, cid_digest = h\<rparr>"

definition cid_from_blake3_hash :: "digest_lib \<Rightarrow> hash \<Rightarrow> cid" where
  "cid_from_blake3_hash L h = cid_to_string L (raw_cid h)"

definition cid_from_data :: "digest_lib \<Rightarrow> bytes \<Rightarrow> cid" where
  "cid_from_data L data = cid_from_blake3_hash L (blake3 L data)"

definition blake3_hex :: "digest_lib \<Rightarrow> bytes \<Rightarrow> string" where
  "blake3_hex L data = hex_encode (blake3 L data)"

text \<open>What a file key must avoid: path separators, NUL, white space and the line terminators.\<close>

definition plain_key :: "string \<Rightarrow> bool" where
  "plain_key k \<longleftrightarrow> k \<noteq> [] \<and> length k \<le> 249 \<and> k \<noteq> ''.'' \<and> k \<noteq> ''..''
     \<and> CHR ''/'' \<notin> set k \<and> CHR 0x5C \<notin> set k \<and> CHR 0x00 \<notin> set k
     \<and> list_all (\<lambda>c. \<not> is_ascii_ws c) k"

text \<open>
  Documented behaviour of the two crates: BLAKE3 digests have 32 bytes; parsing the printed form of
  a CIDv1 over a 32-byte BLAKE3 digest gives it back; the printed form is base32 text of 59
  characters, so it is a plain file key.
\<close>

definition lib_ok :: "digest_lib \<Rightarrow> bool" where
  "lib_ok L \<longleftrightarrow> (\<forall>d. length (blake3 L d) = 32)
     \<and> (\<forall>h. length h = 32 \<longrightarrow> cid_try_from L (cid_to_string L (raw_cid h)) = Some (raw_cid h))
     \<and> (\<forall>h. length h = 32 \<longrightarrow> plain_key (cid_to_string L (raw_cid h)))"

lemma lib_ok_blake3 [dest]: "lib_ok L \<Longrightarrow> length (blake3 L d) = 32"
  by (simp add: lib_ok_def)

lemma lib_ok_parse: "lib_ok L \<Longrightarrow> length h = 32 \<Longrightarrow>
    cid_try_from L (cid_from_blake3_hash L h) = Some (raw_cid h)"
  by (simp add: lib_ok_def cid_from_blake3_hash_def)

lemma lib_ok_plain: "lib_ok L \<Longrightarrow> length h = 32 \<Longrightarrow> plain_key (cid_from_blake3_hash L h)"
  by (simp add: lib_ok_def cid_from_blake3_hash_def)

lemma cid_from_blake3_hash_inject:
  assumes "lib_ok L" and "length h = 32" and "length g = 32"
    and "cid_from_blake3_hash L h = cid_from_blake3_hash L g"
  shows "h = g"
proof -
  have "raw_cid h = raw_cid g"
    using lib_ok_parse [OF assms(1,2)] lib_ok_parse [OF assms(1,3)] assms(4) by simp
  then show ?thesis by (simp add: raw_cid_def)
qed

section \<open>Digest checks\<close>

definition verify_blake3 :: "digest_lib \<Rightarrow> bytes \<Rightarrow> string \<Rightarrow> store_error + unit" where
  "verify_blake3 L data expected_hex =
     (let actual = hex_encode (blake3 L data) in
      if actual \<noteq> expected_hex then Inl (IntegrityMismatch expected_hex actual) else Inr ())"

definition verify_cid :: "digest_lib \<Rightarrow> bytes \<Rightarrow> string \<Rightarrow> store_error + unit" where
  "verify_cid L data expected_cid =
     (let actual = cid_from_data L data in
      if actual \<noteq> expected_cid then Inl (IntegrityMismatch expected_cid actual) else Inr ())"

lemma verify_cid_Inr [simp]: "verify_cid L data c = Inr () \<longleftrightarrow> cid_from_data L data = c"
  by (simp add: verify_cid_def Let_def)

section \<open>Manifests\<close>

definition CHUNK_SIZE :: nat where "CHUNK_SIZE = 1048576"

record chunk_descriptor =
  cd_index :: u32
  cd_offset :: u64
  cd_size :: u64
  cd_hash :: hash
  cd_cid :: cid
  cd_plaintext_hash :: "hash option"

record data_manifest =
  file_name :: string
  file_hash :: hash
  total_size_bytes :: u64
  chunk_count :: u32
  merkle_root :: hash
  chunks :: "chunk_descriptor list"

section \<open>A concrete library for instances\<close>

definition demo_lib :: digest_lib where
  "demo_lib = \<lparr>blake3 = (\<lambda>d. take 32 (d @ replicate 32 0)),
     cid_to_string = (\<lambda>c. CHR ''b'' # hex_encode (cid_digest c)),
     cid_try_from = (\<lambda>s. case s of [] \<Rightarrow> None
        | c # r \<Rightarrow> if c = CHR ''b'' \<and> length r = 64 then map_option raw_cid (parse_hex_pairs r) else None)\<rparr>"

lemma plain_key_hex:
  assumes "length h = 32"
  shows "plain_key (CHR ''b'' # hex_encode h)"
proof -
  have "\<forall>c \<in> set ''0123456789abcdef''. \<not> is_ascii_ws c" by code_simp
  then show ?thesis
    using assms hex_encode_avoids [of "CHR ''/''" h] hex_encode_avoids [of "CHR 0x5C" h]
      hex_encode_avoids [of "CHR 0x00" h] hex_encode_chars [of h] length_hex_encode [of h]
    by (auto simp: plain_key_def list_all_iff is_ascii_ws_def)
qed

lemma demo_lib_ok: "lib_ok demo_lib"
proof -
  have "plain_key (cid_to_string demo_lib (raw_cid h))" if "length h = 32" for h
    using plain_key_hex [OF that] by (simp add: demo_lib_def raw_cid_def)
  then show ?thesis
    by (auto simp: lib_ok_def demo_lib_def raw_cid_def)
qed

end
