(* ===== verification/Chain_Types.thy ===== *)
theory Chain_Types
  imports Storage_Types
begin

text \<open>
  What the chain reports (\<open>sum-types/src/rpc_types.rs\<close>): archive records and their eligibility, V2
  file rows, assignment coverage; and the decoding of an archive's base58 address
  (\<open>sum-net/src/identity.rs\<close>) over an external base58 decoder.
\<close>

section \<open>Archives and files\<close>

record node_record_info =
  nr_address :: string
  nr_role :: string
  nr_staked_balance :: u64
  nr_status :: string
  nr_registered_at :: u64

definition is_active_archive :: "node_record_info \<Rightarrow> bool" where
  "is_active_archive r \<longleftrightarrow> nr_role r = ''ArchiveNode'' \<and> nr_status r = ''Active''"

definition filter_active_archives :: "node_record_info list \<Rightarrow> node_record_info list" where
  "filter_active_archives records = filter is_active_archive records"

record access_entry_v2 =
  ae_address :: string
  ae_encrypted_key_bundle :: "string option"
  ae_expires_at :: "u64 option"

record storage_file_info_v2 =
  fi_merkle_root :: string
  fi_owner :: string
  fi_plaintext_size_bytes :: u64
  fi_stored_size_bytes :: u64
  fi_chunk_count :: u32
  fi_fee_pool :: u64
  fi_created_at :: u64
  fi_activated_at_height :: "u64 option"
  fi_abandoned_at_height :: "u64 option"
  fi_assignment_height :: u64
  fi_visibility :: byte
  fi_lifecycle :: byte
  fi_access_list :: "access_entry_v2 list"

definition is_pending :: "byte \<Rightarrow> bool" where "is_pending l \<longleftrightarrow> l = 0"
definition is_active_file :: "byte \<Rightarrow> bool" where "is_active_file l \<longleftrightarrow> l = 1"
definition is_abandoned :: "byte \<Rightarrow> bool" where "is_abandoned l \<longleftrightarrow> l = 2"
definition is_private :: "byte \<Rightarrow> bool" where "is_private v \<longleftrightarrow> v = 1"

definition l1_address_from_base58 :: "digest_lib \<Rightarrow> (string \<Rightarrow> string + bytes) \<Rightarrow> string \<Rightarrow> string + addr20" where
  "l1_address_from_base58 L bs58_decode s =
     (case bs58_decode s of
        Inl e \<Rightarrow> Inl (''invalid base58: '' @ e)
      | Inr decoded \<Rightarrow>
          if length decoded \<noteq> 24 then
            Inl (''invalid address length: expected 24 bytes (20 + 4 checksum), got '' @ dec_of_nat (length decoded))
          else if take 4 (blake3 L (blake3 L (take 20 decoded))) \<noteq> drop 20 decoded then
            Inl ''address checksum mismatch''
          else Inr (take 20 decoded))"

text \<open>A row of \<open>storage_getFundedFiles\<close> and \<open>storage_getAccessList\<close>.\<close>

record storage_file_info =
  sf_merkle_root :: string
  sf_owner :: string
  sf_total_size_bytes :: u64
  sf_access_list :: "string list"
  sf_fee_pool :: u64
  sf_created_at :: u64

section \<open>Coverage\<close>

record archive_coverage_summary_v2 =
  as_archive :: string
  as_assigned_count :: "u32 option"
  as_attested_count :: u32
  as_currently_active :: bool

record assignment_epoch_coverage_v2 =
  ep_epoch_height :: u64
  ep_is_epoch_zero :: bool
  ep_covered_count :: u32
  ep_per_archive :: "archive_coverage_summary_v2 list"

record assignment_coverage_v2 =
  ac_chunk_count :: u32
  ac_covered_count :: u32
  ac_can_activate_now :: bool
  ac_missing_total :: u32
  ac_missing_offset :: u32
  ac_missing_indices :: "u32 list"
  ac_per_archive :: "archive_coverage_summary_v2 list"
  ac_assignment_epochs :: "u64 list"
  ac_latest_assignment_epoch :: u64
  ac_reassignment_needed :: bool
  ac_per_epoch :: "assignment_epoch_coverage_v2 list"

definition resolved_latest_epoch :: "assignment_coverage_v2 \<Rightarrow> u64 option" where
  "resolved_latest_epoch c = (if ac_assignment_epochs c = [] then None else Some (ac_latest_assignment_epoch c))"

end
