(* ===== verification/Push_Validator.thy ===== *)
theory Push_Validator
  imports Assignment Merkle Chain_Types
begin

text \<open>
  The receive-side gates of \<open>sum-node/src/push_validator.rs\<close>. The JSON-RPC client, base58 and
  hexadecimal decoding are third-party or remote: one call of the validator takes their answers, the
  clock readings and what the LRU caches evict in a \<open>pv_env\<close>.
\<close>

section \<open>Validator state\<close>

datatype push_reject =
    UnknownRoot string
  | NotRegistered string
  | Abandoned
  | OutOfRange u32 u32
  | EpochLookup string
  | SnapshotLookup u64 string
  | NotInSnapshot u64 string
  | NotAssigned u32
  | BadChainShape string
  | BadProof

fun display_reject :: "push_reject \<Rightarrow> string" where
  "display_reject (UnknownRoot e) = ''file_info lookup failed for root: '' @ e"
| "display_reject (NotRegistered r) = ''file not registered on chain: '' @ r"
| "display_reject Abandoned = ''file is Abandoned''"
| "display_reject (OutOfRange i n) =
     ''chunk_index '' @ dec_of_nat (unat i) @ '' >= chunk_count '' @ dec_of_nat (unat n)"
| "display_reject (EpochLookup e) = ''assignment-epoch lookup failed: '' @ e"
| "display_reject (SnapshotLookup h e) =
     ''snapshot lookup failed at height '' @ dec_of_nat (unat h) @ '': '' @ e"
| "display_reject (NotInSnapshot h a) =
     ''our archive (addr='' @ a @ '') is not in the snapshot at height '' @ dec_of_nat (unat h)"
| "display_reject (NotAssigned i) =
     ''chunk_index '' @ dec_of_nat (unat i) @ '' not assigned to this archive for this file''"
| "display_reject (BadChainShape e) = ''malformed chain response: '' @ e"
| "display_reject BadProof = ''Merkle proof failed verification''"

record validated_push =
  vp_leaf_hash :: hash
  vp_visibility :: byte

record push_validator =
  pv_my_addr :: addr20
  pv_replication_factor :: u32
  pv_file_info :: "hash \<Rightarrow> storage_file_info_v2 option"
  pv_snapshot :: "u64 \<Rightarrow> addr20 list option"
  pv_epochs :: "hash \<Rightarrow> (u64 \<times> nat) option"
  pv_epoch_ttl :: nat
  pv_epoch_recheck_min :: nat

record pv_env =
  pe_file_info :: "string \<Rightarrow> string + storage_file_info_v2 option"
  pe_active_nodes :: "u64 \<Rightarrow> string + node_record_info list"
  pe_latest_epoch :: "string \<Rightarrow> string + u64 option"
  pe_hex_decode :: "string \<Rightarrow> string + bytes"
  pe_bs58_decode :: "string \<Rightarrow> string + bytes"
  pe_now :: nat  \<comment> \<open>at the first look at the epoch cache\<close>
  pe_recheck :: nat  \<comment> \<open>at the second look\<close>
  pe_read :: nat  \<comment> \<open>when an epoch read from the chain is stored\<close>
  pe_evict_info :: "(hash \<Rightarrow> storage_file_info_v2 option) \<Rightarrow> hash \<Rightarrow> hash \<Rightarrow> storage_file_info_v2 option"
  pe_evict_snapshot :: "(u64 \<Rightarrow> addr20 list option) \<Rightarrow> u64 \<Rightarrow> u64 \<Rightarrow> addr20 list option"
  pe_evict_epoch :: "(hash \<Rightarrow> (u64 \<times> nat) option) \<Rightarrow> hash \<Rightarrow> hash \<Rightarrow> (u64 \<times> nat) option"

text \<open>Durations and instants are in nanoseconds.\<close>

definition DEFAULT_EPOCH_TTL :: nat where "DEFAULT_EPOCH_TTL = 30 * 10 ^ 9"
definition DEFAULT_EPOCH_RECHECK_MIN :: nat where "DEFAULT_EPOCH_RECHECK_MIN = 2 * 10 ^ 9"

definition push_validator_new :: "addr20 \<Rightarrow> u32 \<Rightarrow> push_validator" where
  "push_validator_new my_addr replication_factor =
     \<lparr>pv_my_addr = my_addr, pv_replication_factor = replication_factor, pv_file_info = Map.empty,
      pv_snapshot = Map.empty, pv_epochs = Map.empty, pv_epoch_ttl = DEFAULT_EPOCH_TTL,
      pv_epoch_recheck_min = DEFAULT_EPOCH_RECHECK_MIN\<rparr>"

text \<open>What an LRU cache documents of an insertion: it may drop entries, never alter one.\<close>

definition evict_ok :: "pv_env \<Rightarrow> bool" where
  "evict_ok env \<longleftrightarrow> (\<forall>c k. pe_evict_info env c k \<subseteq>\<^sub>m c) \<and> (\<forall>c k. pe_evict_snapshot env c k \<subseteq>\<^sub>m c)
     \<and> (\<forall>c k. pe_evict_epoch env c k \<subseteq>\<^sub>m c)"

section \<open>Operations\<close>

definition decode_root_hex :: "pv_env \<Rightarrow> string \<Rightarrow> string + hash" where
  "decode_root_hex env s =
     (case pe_hex_decode env (case strip_prefix ''0x'' s of Some t \<Rightarrow> t | None \<Rightarrow> s) of
        Inl e \<Rightarrow> Inl ''merkle_root not hex-decodable''
      | Inr b \<Rightarrow> if length b \<noteq> 32 then Inl (''merkle_root expected 32 bytes, got '' @ dec_of_nat (length b)) else Inr b)"

definition root_text :: "hash \<Rightarrow> string" where
  "root_text rt = ''0x'' @ hex_encode rt"

definition fetch_file_info ::
    "pv_env \<Rightarrow> push_validator \<Rightarrow> hash \<Rightarrow> (push_reject + storage_file_info_v2) \<times> push_validator" where
  "fetch_file_info env pv rt =
     (case pv_file_info pv rt of Some info \<Rightarrow> (Inr info, pv)
      | None \<Rightarrow>
         (case pe_file_info env (root_text rt) of
            Inl e \<Rightarrow> (Inl (UnknownRoot e), pv)
          | Inr None \<Rightarrow> (Inl (NotRegistered (root_text rt)), pv)
          | Inr (Some info) \<Rightarrow>
             (case decode_root_hex env (fi_merkle_root info) of
                Inl e \<Rightarrow> (Inl (BadChainShape e), pv)
              | Inr returned \<Rightarrow>
                  if returned \<noteq> rt then
                    (Inl (BadChainShape (''asked for root 0x'' @ hex_encode rt @ '' but chain returned root ''
                       @ fi_merkle_root info)), pv)
                  else (Inr info,
                        pv\<lparr>pv_file_info := (pe_evict_info env (pv_file_info pv) rt)(rt \<mapsto> info)\<rparr>))))"

fun decode_addresses :: "digest_lib \<Rightarrow> pv_env \<Rightarrow> u64 \<Rightarrow> node_record_info list \<Rightarrow> push_reject + addr20 list" where
  "decode_addresses L env height [] = Inr []"
| "decode_addresses L env height (r # rs) =
     (case l1_address_from_base58 L (pe_bs58_decode env) (nr_address r) of
        Inl e \<Rightarrow> Inl (BadChainShape (''snapshot at h='' @ dec_of_nat (unat height)
                   @ '' contained unparseable address '' @ [CHR 0x22] @ nr_address r @ [CHR 0x22] @ '': '' @ e))
      | Inr addr \<Rightarrow> map_sum id ((#) addr) (decode_addresses L env height rs))"

text \<open>The admission set of a chain snapshot: eligible archives only, decoded, sorted, deduplicated.\<close>

definition canonical_snapshot :: "digest_lib \<Rightarrow> pv_env \<Rightarrow> u64 \<Rightarrow> node_record_info list \<Rightarrow> push_reject + addr20 list" where
  "canonical_snapshot L env height raw =
     map_sum id (\<lambda>d. remdups_adj (sort d)) (decode_addresses L env height (filter_active_archives raw))"

definition fetch_snapshot ::
    "digest_lib \<Rightarrow> pv_env \<Rightarrow> push_validator \<Rightarrow> u64 \<Rightarrow> (push_reject + addr20 list) \<times> push_validator" where
  "fetch_snapshot L env pv height =
     (case pv_snapshot pv height of Some snap \<Rightarrow> (Inr snap, pv)
      | None \<Rightarrow>
         (case pe_active_nodes env height of
            Inl e \<Rightarrow> (Inl (SnapshotLookup height e), pv)
          | Inr raw \<Rightarrow>
             (case canonical_snapshot L env height raw of
                Inl e \<Rightarrow> (Inl e, pv)
              | Inr decoded \<Rightarrow>
                  (Inr decoded,
                   pv\<lparr>pv_snapshot := (pe_evict_snapshot env (pv_snapshot pv) height)(height \<mapsto> decoded)\<rparr>))))"

text \<open>The epoch the chain reports for a file, checked against its first one.\<close>

definition epoch_from_chain :: "pv_env \<Rightarrow> hash \<Rightarrow> storage_file_info_v2 \<Rightarrow> push_reject + u64" where
  "epoch_from_chain env rt info =
     (case pe_latest_epoch env (root_text rt) of
        Inl e \<Rightarrow> Inl (EpochLookup e)
      | Inr None \<Rightarrow> Inr (fi_assignment_height info)
      | Inr (Some latest) \<Rightarrow>
          if latest < fi_assignment_height info then
            Inl (BadChainShape (''latest assignment epoch '' @ dec_of_nat (unat latest) @ '' below assignment_height ''
                  @ dec_of_nat (unat (fi_assignment_height info)) @ '' for root '' @ root_text rt))
          else Inr latest)"

definition assignment_epoch ::
    "pv_env \<Rightarrow> nat \<Rightarrow> push_validator \<Rightarrow> hash \<Rightarrow> storage_file_info_v2 \<Rightarrow> nat
       \<Rightarrow> (push_reject + (u64 \<times> bool)) \<times> push_validator" where
  "assignment_epoch env now pv rt info max_age =
     (case (case pv_epochs pv rt of Some (epoch, read_at) \<Rightarrow> if now - read_at < max_age then Some epoch else None
            | None \<Rightarrow> None) of
        Some epoch \<Rightarrow> (Inr (epoch, False), pv)
      | None \<Rightarrow>
         (case epoch_from_chain env rt info of
            Inl e \<Rightarrow> (Inl e, pv)
          | Inr epoch \<Rightarrow>
              (Inr (epoch, True),
               pv\<lparr>pv_epochs := (pe_evict_epoch env (pv_epochs pv) rt)(rt \<mapsto> (epoch, pe_read env))\<rparr>)))"

definition check_assigned ::
    "digest_lib \<Rightarrow> wire_lib \<Rightarrow> pv_env \<Rightarrow> push_validator \<Rightarrow> hash \<Rightarrow> u64 \<Rightarrow> u32 \<Rightarrow> (push_reject + unit) \<times> push_validator" where
  "check_assigned L W env pv rt epoch chunk_index =
     (case fetch_snapshot L env pv epoch of
        (Inl e, pv') \<Rightarrow> (Inl e, pv')
      | (Inr snap, pv') \<Rightarrow>
          if \<not> binary_search snap (pv_my_addr pv) then
            (Inl (NotInSnapshot epoch (hex_encode (pv_my_addr pv))), pv')
          else if pv_my_addr pv \<notin> set (assigned_archives W rt snap chunk_index (pv_replication_factor pv)) then
            (Inl (NotAssigned chunk_index), pv')
          else (Inr (), pv'))"

fun is_assignment_refusal :: "push_reject \<Rightarrow> bool" where
  "is_assignment_refusal (NotInSnapshot _ _) = True"
| "is_assignment_refusal (NotAssigned _) = True"
| "is_assignment_refusal _ = False"

text \<open>The assignment gate with its one re-read of a cached epoch before a refusal.\<close>

definition assignment_gate ::
    "digest_lib \<Rightarrow> wire_lib \<Rightarrow> pv_env \<Rightarrow> push_validator \<Rightarrow> hash \<Rightarrow> storage_file_info_v2 \<Rightarrow> u32
       \<Rightarrow> (push_reject + unit) \<times> push_validator" where
  "assignment_gate L W env pv rt info chunk_index =
     (case assignment_epoch env (pe_now env) pv rt info (pv_epoch_ttl pv) of
        (Inl e, pv1) \<Rightarrow> (Inl e, pv1)
      | (Inr (epoch, read_now), pv1) \<Rightarrow>
         (case check_assigned L W env pv1 rt epoch chunk_index of
            (Inr _, pv2) \<Rightarrow> (Inr (), pv2)
          | (Inl refused, pv2) \<Rightarrow>
              if is_assignment_refusal refused \<and> \<not> read_now then
                (case assignment_epoch env (pe_recheck env) pv2 rt info (pv_epoch_recheck_min pv2) of
                   (Inl e, pv3) \<Rightarrow> (Inl e, pv3)
                 | (Inr (fresh, _), pv3) \<Rightarrow>
                     if fresh = epoch then (Inl refused, pv3)
                     else check_assigned L W env pv3 rt fresh chunk_index)
              else (Inl refused, pv2)))"

definition validate_push ::
    "digest_lib \<Rightarrow> wire_lib \<Rightarrow> pv_env \<Rightarrow> push_validator \<Rightarrow> hash \<Rightarrow> u32 \<Rightarrow> bytes \<Rightarrow> hash list
       \<Rightarrow> (push_reject + validated_push) \<times> push_validator" where
  "validate_push L W env pv rt chunk_index data merkle_path =
     (let leaf_hash = blake3 L data in
      case fetch_file_info env pv rt of
        (Inl e, pv1) \<Rightarrow> (Inl e, pv1)
      | (Inr info, pv1) \<Rightarrow>
          if is_abandoned (fi_lifecycle info) then (Inl Abandoned, pv1)
          else if \<not> (is_pending (fi_lifecycle info) \<or> is_active_file (fi_lifecycle info)) then
            (Inl (BadChainShape (''unexpected lifecycle byte '' @ dec_of_nat (unat (fi_lifecycle info))
                   @ '' for root 0x'' @ hex_encode rt)), pv1)
          else if chunk_index \<ge> fi_chunk_count info then
            (Inl (OutOfRange chunk_index (fi_chunk_count info)), pv1)
          else
            (case assignment_gate L W env pv1 rt info chunk_index of
               (Inl e, pv2) \<Rightarrow> (Inl e, pv2)
             | (Inr _, pv2) \<Rightarrow>
                 if \<not> verify_merkle_proof_bytes_for_tree (blake3 L) leaf_hash chunk_index merkle_path rt
                      (fi_chunk_count info)
                 then (Inl BadProof, pv2)
                 else (Inr \<lparr>vp_leaf_hash = leaf_hash, vp_visibility = fi_visibility info\<rparr>, pv2)))"

section \<open>What the chain has said\<close>

text \<open>
  The caches may hold old answers, so the gates are stated against the set \<open>E\<close> of calls so far:
  what some call heard from the chain.
\<close>

definition info_said :: "pv_env set \<Rightarrow> hash \<Rightarrow> storage_file_info_v2 \<Rightarrow> bool" where
  "info_said E rt info \<longleftrightarrow> (\<exists>env \<in> E. pe_file_info env (root_text rt) = Inr (Some info)
     \<and> decode_root_hex env (fi_merkle_root info) = Inr rt)"

definition snap_said :: "digest_lib \<Rightarrow> pv_env set \<Rightarrow> u64 \<Rightarrow> addr20 list \<Rightarrow> bool" where
  "snap_said L E h snap \<longleftrightarrow> (\<exists>env \<in> E. \<exists>raw. pe_active_nodes env h = Inr raw \<and> canonical_snapshot L env h raw = Inr snap)"

definition epoch_said :: "pv_env set \<Rightarrow> hash \<Rightarrow> u64 \<Rightarrow> nat \<Rightarrow> bool" where
  "epoch_said E rt e t \<longleftrightarrow> (\<exists>env \<in> E. \<exists>info. info_said E rt info \<and> epoch_from_chain env rt info = Inr e \<and> t = pe_read env)"

definition pv_inv :: "digest_lib \<Rightarrow> pv_env set \<Rightarrow> push_validator \<Rightarrow> bool" where
  "pv_inv L E pv \<longleftrightarrow>
     (\<forall>rt info. pv_file_info pv rt = Some info \<longrightarrow> info_said E rt info)
   \<and> (\<forall>h snap. pv_snapshot pv h = Some snap \<longrightarrow> snap_said L E h snap)
   \<and> (\<forall>rt e t. pv_epochs pv rt = Some (e, t) \<longrightarrow> epoch_said E rt e t)"

definition same_params :: "push_validator \<Rightarrow> push_validator \<Rightarrow> bool" where
  "same_params a b \<longleftrightarrow> pv_my_addr a = pv_my_addr b \<and> pv_replication_factor a = pv_replication_factor b
     \<and> pv_epoch_ttl a = pv_epoch_ttl b \<and> pv_epoch_recheck_min a = pv_epoch_recheck_min b"

lemma said_mono:
  assumes "E \<subseteq> F"
  shows "info_said E rt info \<Longrightarrow> info_said F rt info" "snap_said L E h snap \<Longrightarrow> snap_said L F h snap"
    "epoch_said E rt e t \<Longrightarrow> epoch_said F rt e t" "pv_inv L E pv \<Longrightarrow> pv_inv L F pv"
proof -
  show i: "info_said E rt info \<Longrightarrow> info_said F rt info" for rt info
    using assms by (auto simp: info_said_def)
  show n: "snap_said L E h snap \<Longrightarrow> snap_said L F h snap" for h snap
    using assms by (auto simp: snap_said_def)
  show e: "epoch_said E rt e t \<Longrightarrow> epoch_said F rt e t" for rt e t
    using assms i unfolding epoch_said_def by blast
  show "pv_inv L E pv \<Longrightarrow> pv_inv L F pv" using i n e unfolding pv_inv_def by blast
qed

lemma evict_submap:
  assumes "evict_ok env"
  shows "pe_evict_info env c k x = Some v \<Longrightarrow> c x = Some v"
    "pe_evict_snapshot env c2 k2 x2 = Some v2 \<Longrightarrow> c2 x2 = Some v2"
    "pe_evict_epoch env c3 k x = Some v3 \<Longrightarrow> c3 x = Some v3"
  using assms unfolding evict_ok_def map_le_def by (metis domI)+

lemma fetch_file_info_step:
  assumes "fetch_file_info env pv rt = (r, pv')" and "pv_inv L E pv" and "env \<in> E" and "evict_ok env"
  shows "pv_inv L E pv'" "same_params pv' pv" "pv_epochs pv' = pv_epochs pv"
    "r = Inr info \<Longrightarrow> info_said E rt info"
proof -
  have "(pv' = pv \<and> (\<forall>info. r = Inr info \<longrightarrow> info_said E rt info)) \<or>
      (\<exists>info. r = Inr info \<and> info_said E rt info
         \<and> pv' = pv\<lparr>pv_file_info := (pe_evict_info env (pv_file_info pv) rt)(rt \<mapsto> info)\<rparr>)"
  proof (cases "\<exists>info. pv_file_info pv rt = None \<and> pe_file_info env (root_text rt) = Inr (Some info)
      \<and> decode_root_hex env (fi_merkle_root info) = Inr rt")
    case True
    then obtain info where c: "pv_file_info pv rt = None" "pe_file_info env (root_text rt) = Inr (Some info)"
        "decode_root_hex env (fi_merkle_root info) = Inr rt" by blast
    then have "info_said E rt info" using assms(3) by (auto simp: info_said_def)
    moreover have "r = Inr info"
        "pv' = pv\<lparr>pv_file_info := (pe_evict_info env (pv_file_info pv) rt)(rt \<mapsto> info)\<rparr>"
      using assms(1) c by (auto simp: fetch_file_info_def)
    ultimately show ?thesis by blast
  next
    case False
    then show ?thesis
      using assms(1,2) by (auto simp: fetch_file_info_def pv_inv_def split: option.splits sum.splits if_splits)
  qed
  then show "pv_inv L E pv'" "same_params pv' pv" "pv_epochs pv' = pv_epochs pv"
    "r = Inr info \<Longrightarrow> info_said E rt info"
    using assms(2) evict_submap(1) [OF assms(4)]
    by (auto simp: pv_inv_def same_params_def split: if_splits)
qed

lemma fetch_snapshot_step:
  assumes "fetch_snapshot L env pv h = (r, pv')" and "pv_inv L E pv" and "env \<in> E" and "evict_ok env"
  shows "pv_inv L E pv'" "same_params pv' pv" "pv_epochs pv' = pv_epochs pv" "pv_file_info pv' = pv_file_info pv"
    "r = Inr snap \<Longrightarrow> snap_said L E h snap"
proof -
  have "(pv' = pv \<and> (\<forall>snap. r = Inr snap \<longrightarrow> snap_said L E h snap)) \<or>
      (\<exists>snap. r = Inr snap \<and> snap_said L E h snap
         \<and> pv' = pv\<lparr>pv_snapshot := (pe_evict_snapshot env (pv_snapshot pv) h)(h \<mapsto> snap)\<rparr>)"
  proof (cases "\<exists>raw snap. pv_snapshot pv h = None \<and> pe_active_nodes env h = Inr raw
      \<and> canonical_snapshot L env h raw = Inr snap")
    case True
    then obtain raw snap where c: "pv_snapshot pv h = None" "pe_active_nodes env h = Inr raw"
        "canonical_snapshot L env h raw = Inr snap" by blast
    then have "snap_said L E h snap" using assms(3) by (auto simp: snap_said_def)
    moreover have "r = Inr snap"
        "pv' = pv\<lparr>pv_snapshot := (pe_evict_snapshot env (pv_snapshot pv) h)(h \<mapsto> snap)\<rparr>"
      using assms(1) c by (auto simp: fetch_snapshot_def)
    ultimately show ?thesis by blast
  next
    case False
    then show ?thesis
      using assms(1,2) by (auto simp: fetch_snapshot_def pv_inv_def split: option.splits sum.splits)
  qed
  then show "pv_inv L E pv'" "same_params pv' pv" "pv_epochs pv' = pv_epochs pv" "pv_file_info pv' = pv_file_info pv"
    "r = Inr snap \<Longrightarrow> snap_said L E h snap"
    using assms(2) evict_submap(2) [OF assms(4)]
    by (auto simp: pv_inv_def same_params_def split: if_splits)
qed

lemma assignment_epoch_step:
  assumes "assignment_epoch env now pv rt info max_age = (r, pv')" and "pv_inv L E pv" and "env \<in> E"
    and "evict_ok env" and "info_said E rt info"
  shows "pv_inv L E pv'" "same_params pv' pv"
    "r = Inr (e, fresh) \<Longrightarrow> \<exists>t. epoch_said E rt e t \<and> (t = pe_read env \<or> now - t < max_age)"
    "r = Inr (e, False) \<Longrightarrow> pv' = pv"
proof -
  consider (hit) e t where "r = Inr (e, False)" "pv' = pv" "pv_epochs pv rt = Some (e, t)" "now - t < max_age"
    | (err) x where "r = Inl x" "pv' = pv"
    | (read) e where "r = Inr (e, True)" "epoch_from_chain env rt info = Inr e"
        "pv' = pv\<lparr>pv_epochs := (pe_evict_epoch env (pv_epochs pv) rt)(rt \<mapsto> (e, pe_read env))\<rparr>"
    using assms(1) by (auto simp: assignment_epoch_def split: option.splits sum.splits if_splits)
  then have "pv_inv L E pv' \<and> same_params pv' pv \<and>
      (r = Inr (e, fresh) \<longrightarrow> (\<exists>t. epoch_said E rt e t \<and> (t = pe_read env \<or> now - t < max_age))) \<and>
      (r = Inr (e, False) \<longrightarrow> pv' = pv)" (is ?all)
  proof cases
    case (hit x t)
    then have "epoch_said E rt x t" using assms(2) by (auto simp: pv_inv_def)
    with hit show ?all using assms(2) by (auto simp: same_params_def)
  next
    case err
    then show ?all using assms(2) by (auto simp: same_params_def)
  next
    case (read x)
    have "epoch_said E rt x (pe_read env)" using read(2) assms(3,5) unfolding epoch_said_def by blast
    then show ?all
      using read assms(2) evict_submap(3) [OF assms(4)]
      by (auto simp: pv_inv_def same_params_def split: if_splits)
  qed
  then show "pv_inv L E pv'" "same_params pv' pv"
    "r = Inr (e, fresh) \<Longrightarrow> \<exists>t. epoch_said E rt e t \<and> (t = pe_read env \<or> now - t < max_age)"
    "r = Inr (e, False) \<Longrightarrow> pv' = pv" by blast+
qed

definition assigned_at :: "digest_lib \<Rightarrow> wire_lib \<Rightarrow> pv_env set \<Rightarrow> push_validator \<Rightarrow> hash \<Rightarrow> u64 \<Rightarrow> u32 \<Rightarrow> bool" where
  "assigned_at L W E pv rt epoch i \<longleftrightarrow> (\<exists>snap. snap_said L E epoch snap
     \<and> pv_my_addr pv \<in> set (assigned_archives W rt snap i (pv_replication_factor pv)))"

lemma map_sum_Inl: "map_sum id f x = Inl e \<longleftrightarrow> x = Inl e"
  by (cases x) auto

lemma decode_addresses_error: "decode_addresses L env h rs = Inl x \<Longrightarrow> \<not> is_assignment_refusal x"
  by (induction rs arbitrary: x) (auto simp: map_sum_Inl split: sum.splits)

lemma check_assigned_step:
  assumes "check_assigned L W env pv rt epoch i = (r, pv')" and "pv_inv L E pv" and "env \<in> E" and "evict_ok env"
  shows "pv_inv L E pv'" "same_params pv' pv" "pv_epochs pv' = pv_epochs pv"
    "r = Inr () \<Longrightarrow> assigned_at L W E pv rt epoch i"
    "r = Inl e \<Longrightarrow> is_assignment_refusal e \<Longrightarrow> wire_ok W \<Longrightarrow> \<exists>snap. snap_said L E epoch snap
       \<and> pv_my_addr pv \<notin> set (assigned_archives W rt snap i (pv_replication_factor pv))"
proof -
  obtain r1 pv1 where f: "fetch_snapshot L env pv epoch = (r1, pv1)" by fastforce
  note st = fetch_snapshot_step [OF f assms(2-4)]
  have pv': "pv' = pv1" using assms(1) f by (auto simp: check_assigned_def split: sum.splits if_splits)
  show "pv_inv L E pv'" "same_params pv' pv" "pv_epochs pv' = pv_epochs pv" using st pv' by auto
  show "r = Inr () \<Longrightarrow> assigned_at L W E pv rt epoch i"
    using assms(1) f st(5) by (auto simp: check_assigned_def assigned_at_def split: sum.splits if_splits)
  assume e: "r = Inl e" "is_assignment_refusal e" "wire_ok W"
  show "\<exists>snap. snap_said L E epoch snap
       \<and> pv_my_addr pv \<notin> set (assigned_archives W rt snap i (pv_replication_factor pv))"
  proof (cases r1)
    case (Inl x)
    have "\<not> is_assignment_refusal x"
      using f Inl
      by (auto simp: fetch_snapshot_def canonical_snapshot_def map_sum_Inl split: option.splits sum.splits
          dest: decode_addresses_error)
    then show ?thesis using assms(1) f Inl e by (simp add: check_assigned_def)
  next
    case (Inr snap)
    have "set (assigned_archives W rt snap i (pv_replication_factor pv)) \<subseteq> set snap"
      using wire_okD(1,3) [OF e(3)] by (simp add: assigned_archives_def)
    then have "pv_my_addr pv \<notin> set (assigned_archives W rt snap i (pv_replication_factor pv))"
      using assms(1) f Inr e(1) by (auto simp: check_assigned_def binary_search_def split: if_splits)
    then show ?thesis using st(5) Inr by blast
  qed
qed

lemma same_params_trans: "same_params a b \<Longrightarrow> same_params b c \<Longrightarrow> same_params a c"
  by (simp add: same_params_def)

lemma assigned_at_cong: "same_params a b \<Longrightarrow> assigned_at L W E a rt e i = assigned_at L W E b rt e i"
  by (simp add: assigned_at_def same_params_def)

text \<open>
  The gate as a whole: what it accepts is an assignment at an epoch the chain named; what it refuses
  for the assignment is a non-assignment at an epoch that was read in this call or recently enough.
\<close>

lemma assignment_gate_step:
  assumes "assignment_gate L W env pv rt info i = (r, pv')" and "pv_inv L E pv" and "env \<in> E"
    and "evict_ok env" and "info_said E rt info"
  shows "pv_inv L E pv' \<and> same_params pv' pv
    \<and> (r = Inr () \<longrightarrow> (\<exists>e t. epoch_said E rt e t \<and> assigned_at L W E pv rt e i))
    \<and> (\<forall>x. r = Inl x \<longrightarrow> is_assignment_refusal x \<longrightarrow> wire_ok W \<longrightarrow>
         (\<exists>e t snap. epoch_said E rt e t \<and> (t = pe_read env \<or> pe_recheck env - t < pv_epoch_recheck_min pv)
            \<and> snap_said L E e snap
            \<and> pv_my_addr pv \<notin> set (assigned_archives W rt snap i (pv_replication_factor pv))))"
proof -
  obtain r1 pv1 where a1: "assignment_epoch env (pe_now env) pv rt info (pv_epoch_ttl pv) = (r1, pv1)" by fastforce
  note s1 = assignment_epoch_step [OF a1 assms(2-5)]
  show ?thesis
  proof (cases r1)
    case (Inl x)
    then have "r = Inl x" "pv' = pv1" using assms(1) a1 by (auto simp: assignment_gate_def)
    moreover have "\<not> is_assignment_refusal x"
      using a1 Inl by (auto simp: assignment_epoch_def epoch_from_chain_def split: option.splits sum.splits if_splits)
    ultimately show ?thesis using s1 by auto
  next
    case (Inr ef)
    obtain e fresh where ef: "ef = (e, fresh)" by (cases ef)
    then obtain t where t: "epoch_said E rt e t" "t = pe_read env \<or> pe_now env - t < pv_epoch_ttl pv"
      using s1(3) Inr by blast
    obtain r2 pv2 where c2: "check_assigned L W env pv1 rt e i = (r2, pv2)" by fastforce
    note s2 = check_assigned_step [OF c2 s1(1) assms(3,4)]
    have p2: "same_params pv2 pv" using s1(2) s2(2) same_params_trans by blast
    show ?thesis
    proof (cases r2)
      case ok: (Inr u)
      then have "r = Inr ()" "pv' = pv2" using assms(1) a1 Inr ef c2 by (auto simp: assignment_gate_def)
      then show ?thesis using s2 p2 t ok assigned_at_cong [OF s1(2)] by auto
    next
      case ref: (Inl x)
      show ?thesis
      proof (cases "is_assignment_refusal x \<and> \<not> fresh")
        case False
        then have r: "r = Inl x" "pv' = pv2" using assms(1) a1 Inr ef c2 ref by (auto simp: assignment_gate_def)
        have "\<exists>e t snap. epoch_said E rt e t \<and> (t = pe_read env \<or> pe_recheck env - t < pv_epoch_recheck_min pv)
            \<and> snap_said L E e snap \<and> pv_my_addr pv \<notin> set (assigned_archives W rt snap i (pv_replication_factor pv))"
          if "is_assignment_refusal x" "wire_ok W"
        proof -
          have "fresh" using that False by simp
          then have "\<exists>t. epoch_said E rt e t \<and> t = pe_read env"
            using a1 Inr ef assms(3,5)
            by (auto simp: assignment_epoch_def epoch_said_def split: option.splits sum.splits if_splits)
          then show ?thesis using s2(5) [OF ref that] s1(2) by (auto simp: same_params_def)
        qed
        then show ?thesis using r s2 p2 by auto
      next
        case True
        obtain r3 pv3 where a3: "assignment_epoch env (pe_recheck env) pv2 rt info (pv_epoch_recheck_min pv2) = (r3, pv3)"
          by fastforce
        note s3 = assignment_epoch_step [OF a3 s2(1) assms(3-5)]
        have p3: "same_params pv3 pv" using s3(2) p2 same_params_trans by blast
        show ?thesis
        proof (cases r3)
          case (Inl y)
          then have "r = Inl y" "pv' = pv3" using assms(1) a1 Inr ef c2 ref True a3 \<open>r1 = Inr ef\<close>
            by (auto simp: assignment_gate_def)
          moreover have "\<not> is_assignment_refusal y"
            using a3 Inl by (auto simp: assignment_epoch_def epoch_from_chain_def split: option.splits sum.splits if_splits)
          ultimately show ?thesis using s3 p3 by auto
        next
          case (Inr gf)
          obtain g fl where g: "gf = (g, fl)" by (cases gf)
          obtain t3 where t3: "epoch_said E rt g t3" "t3 = pe_read env \<or> pe_recheck env - t3 < pv_epoch_recheck_min pv"
            using s3(3) Inr g p2 by (auto simp: same_params_def)
          show ?thesis
          proof (cases "g = e")
            case eq: True
            then have "r = Inl x" "pv' = pv3"
              using assms(1) a1 \<open>r1 = Inr ef\<close> ef c2 ref True a3 Inr g by (auto simp: assignment_gate_def)
            then show ?thesis
              using s3 p3 t3 eq s2(5) [OF ref] True s1(2) by (auto simp: same_params_def)
          next
            case neq: False
            then have c4: "check_assigned L W env pv3 rt g i = (r, pv')"
              using assms(1) a1 \<open>r1 = Inr ef\<close> ef c2 ref True a3 Inr g by (auto simp: assignment_gate_def)
            note s4 = check_assigned_step [OF c4 s3(1) assms(3,4)]
            have p4: "same_params pv' pv" using s4(2) p3 same_params_trans by blast
            have "r = Inr () \<longrightarrow> (\<exists>e t. epoch_said E rt e t \<and> assigned_at L W E pv rt e i)"
              using s4(4) t3 assigned_at_cong [OF p3] by blast
            moreover have "\<exists>e t snap. epoch_said E rt e t
                \<and> (t = pe_read env \<or> pe_recheck env - t < pv_epoch_recheck_min pv)
                \<and> snap_said L E e snap \<and> pv_my_addr pv \<notin> set (assigned_archives W rt snap i (pv_replication_factor pv))"
              if "r = Inl y" "is_assignment_refusal y" "wire_ok W" for y
              using s4(5) [OF that] t3 p3 by (auto simp: same_params_def)
            ultimately show ?thesis using s4(1) p4 by blast
          qed
        qed
      qed
    qed
  qed
qed

text \<open>Everything an accepted push has behind it.\<close>

definition push_justified ::
    "digest_lib \<Rightarrow> wire_lib \<Rightarrow> pv_env set \<Rightarrow> push_validator \<Rightarrow> hash \<Rightarrow> u32 \<Rightarrow> bytes \<Rightarrow> hash list \<Rightarrow> validated_push \<Rightarrow> bool" where
  "push_justified L W E pv rt i data path vp \<longleftrightarrow>
     (\<exists>info e t. info_said E rt info \<and> epoch_said E rt e t
        \<and> (is_pending (fi_lifecycle info) \<or> is_active_file (fi_lifecycle info)) \<and> i < fi_chunk_count info
        \<and> assigned_at L W E pv rt e i
        \<and> verify_merkle_proof_bytes_for_tree (blake3 L) (blake3 L data) i path rt (fi_chunk_count info)
        \<and> vp = \<lparr>vp_leaf_hash = blake3 L data, vp_visibility = fi_visibility info\<rparr>)"

lemma validate_push_step:
  assumes "validate_push L W env pv rt i data path = (r, pv')" and "pv_inv L E pv" and "env \<in> E" and "evict_ok env"
  shows "pv_inv L E pv' \<and> same_params pv' pv \<and> (\<forall>vp. r = Inr vp \<longrightarrow> push_justified L W E pv rt i data path vp)"
proof -
  obtain r1 pv1 where f: "fetch_file_info env pv rt = (r1, pv1)" by fastforce
  note s1 = fetch_file_info_step [OF f assms(2-4)]
  show ?thesis
  proof (cases r1)
    case (Inl e)
    then show ?thesis using assms(1) f s1 by (auto simp: validate_push_def)
  next
    case (Inr info)
    have said: "info_said E rt info" using s1(4) Inr by blast
    let ?ok = "\<not> is_abandoned (fi_lifecycle info)
      \<and> (is_pending (fi_lifecycle info) \<or> is_active_file (fi_lifecycle info)) \<and> \<not> i \<ge> fi_chunk_count info"
    show ?thesis
    proof (cases ?ok)
      case False
      then have "pv' = pv1" "\<forall>vp. r \<noteq> Inr vp"
        using assms(1) f Inr by (auto simp: validate_push_def Let_def split: if_splits)
      then show ?thesis using s1 by auto
    next
      case True
      obtain r2 pv2 where g: "assignment_gate L W env pv1 rt info i = (r2, pv2)" by fastforce
      note s2 = assignment_gate_step [OF g s1(1) assms(3,4) said]
      have "pv' = pv2"
        using assms(1) f Inr True g by (auto simp: validate_push_def Let_def split: sum.splits if_splits)
      moreover have "push_justified L W E pv rt i data path vp" if "r = Inr vp" for vp
      proof -
        have r2: "r2 = Inr ()" and v: "verify_merkle_proof_bytes_for_tree (blake3 L) (blake3 L data) i path rt (fi_chunk_count info)"
          and vp: "vp = \<lparr>vp_leaf_hash = blake3 L data, vp_visibility = fi_visibility info\<rparr>"
          using assms(1) f Inr True g that by (auto simp: validate_push_def Let_def split: sum.splits if_splits)
        obtain e t where "epoch_said E rt e t" "assigned_at L W E pv1 rt e i" using s2 r2 by blast
        then show ?thesis
          using said True v vp assigned_at_cong [OF s1(2)] unfolding push_justified_def
          by (intro exI [of _ info] exI [of _ e] exI [of _ t]) auto
      qed
      ultimately show ?thesis using s2 s1(2) same_params_trans by blast
    qed
  qed
qed

lemma validate_push_refusal:
  assumes "validate_push L W env pv rt i data path = (Inl x, pv')" and "pv_inv L E pv" and "env \<in> E"
    and "evict_ok env" and "is_assignment_refusal x" and "wire_ok W"
  shows "\<exists>e t snap. epoch_said E rt e t \<and> (t = pe_read env \<or> pe_recheck env - t < pv_epoch_recheck_min pv)
           \<and> snap_said L E e snap
           \<and> pv_my_addr pv \<notin> set (assigned_archives W rt snap i (pv_replication_factor pv))"
proof -
  obtain r1 pv1 where f: "fetch_file_info env pv rt = (r1, pv1)" by fastforce
  note s1 = fetch_file_info_step [OF f assms(2-4)]
  have "\<not> is_assignment_refusal y" if "r1 = Inl y" for y
    using f that by (auto simp: fetch_file_info_def split: option.splits sum.splits if_splits)
  then obtain info where info: "r1 = Inr info"
    using assms(1,5) f by (cases r1) (auto simp: validate_push_def)
  obtain r2 pv2 where g: "assignment_gate L W env pv1 rt info i = (r2, pv2)" by fastforce
  have "r2 = Inl x"
    using assms(1,5) f info g by (auto simp: validate_push_def Let_def split: sum.splits if_splits)
  moreover have "info_said E rt info" using s1(4) info by blast
  ultimately show ?thesis
    using assignment_gate_step [OF g s1(1) assms(3,4)] assms(5,6) s1(2) by (auto simp: same_params_def)
qed

section \<open>Runs of the validator\<close>

record push_call =
  pc_env :: pv_env
  pc_root :: hash
  pc_index :: u32
  pc_data :: bytes
  pc_path :: "hash list"

fun validate_pushes ::
    "digest_lib \<Rightarrow> wire_lib \<Rightarrow> push_validator \<Rightarrow> push_call list \<Rightarrow> (push_reject + validated_push) list \<times> push_validator" where
  "validate_pushes L W pv [] = ([], pv)"
| "validate_pushes L W pv (c # cs) =
     (case validate_push L W (pc_env c) pv (pc_root c) (pc_index c) (pc_data c) (pc_path c) of (r, pv1) \<Rightarrow>
      case validate_pushes L W pv1 cs of (rs, pv2) \<Rightarrow> (r # rs, pv2))"

text \<open>The state a call of a run starts from, and what it answers there.\<close>

lemma validate_pushes_nth:
  assumes "validate_pushes L W pv calls = (rs, pv')" and "k < length calls"
    and "pv_inv L E pv" and "\<forall>c \<in> set calls. evict_ok (pc_env c)"
  shows "\<exists>pvk pvk'. pv_inv L (E \<union> pc_env ` set (take (Suc k) calls)) pvk \<and> same_params pvk pv
    \<and> validate_push L W (pc_env (calls ! k)) pvk (pc_root (calls ! k)) (pc_index (calls ! k)) (pc_data (calls ! k))
        (pc_path (calls ! k)) = (rs ! k, pvk')"
  using assms
proof (induction calls arbitrary: pv rs k E)
  case (Cons c cs)
  obtain r pv1 where v: "validate_push L W (pc_env c) pv (pc_root c) (pc_index c) (pc_data c) (pc_path c) = (r, pv1)"
    by fastforce
  obtain rs1 where b: "validate_pushes L W pv1 cs = (rs1, pv')" and rs: "rs = r # rs1"
    using Cons.prems(1) v by (auto split: prod.splits)
  let ?E = "insert (pc_env c) E"
  have inv: "pv_inv L ?E pv" using said_mono(4) [OF _ Cons.prems(3)] by blast
  note st = validate_push_step [OF v inv insertI1]
  show ?case
  proof (cases k)
    case 0
    then show ?thesis using inv v rs by (auto simp: same_params_def)
  next
    case (Suc j)
    have ok: "evict_ok (pc_env c)" "\<forall>c \<in> set cs. evict_ok (pc_env c)" using Cons.prems(4) by simp_all
    have j: "j < length cs" using Cons.prems(2) Suc by simp
    obtain pvk pvk' where "pv_inv L (?E \<union> pc_env ` set (take (Suc j) cs)) pvk" "same_params pvk pv1"
        "validate_push L W (pc_env (cs ! j)) pvk (pc_root (cs ! j)) (pc_index (cs ! j)) (pc_data (cs ! j))
          (pc_path (cs ! j)) = (rs1 ! j, pvk')"
      using Cons.IH [OF b j _ ok(2), of ?E] st [OF ok(1)] by blast
    then show ?thesis
      using st [OF ok(1)] same_params_trans Suc rs by (intro exI [of _ pvk] exI [of _ pvk']) auto
  qed
qed simp

lemma fresh_validator_inv: "pv_inv L E (push_validator_new addr rf)"
  by (simp add: pv_inv_def push_validator_new_def)

lemma push_justified_cong: "same_params a b \<Longrightarrow> push_justified L W E a rt i data path vp = push_justified L W E b rt i data path vp"
  by (simp add: push_justified_def assigned_at_cong)

lemma accepted_in_run:
  assumes "validate_pushes L W (push_validator_new addr rf) calls = (rs, pv')" and "k < length calls"
    and "\<forall>c \<in> set calls. evict_ok (pc_env c)" and "rs ! k = Inr vp"
  shows "push_justified L W (pc_env ` set (take (Suc k) calls)) (push_validator_new addr rf) (pc_root (calls ! k))
           (pc_index (calls ! k)) (pc_data (calls ! k)) (pc_path (calls ! k)) vp"
proof -
  let ?E = "pc_env ` set (take (Suc k) calls)"
  obtain pvk pvk' where s: "pv_inv L ?E pvk" "same_params pvk (push_validator_new addr rf)"
      "validate_push L W (pc_env (calls ! k)) pvk (pc_root (calls ! k)) (pc_index (calls ! k)) (pc_data (calls ! k))
        (pc_path (calls ! k)) = (rs ! k, pvk')"
    using validate_pushes_nth [OF assms(1,2) fresh_validator_inv assms(3), of "{}"] by auto
  have "pc_env (calls ! k) \<in> ?E" using assms(2) by (auto simp: take_Suc_conv_app_nth)
  then show ?thesis
    using validate_push_step [OF s(3,1)] assms(2,3,4) push_justified_cong [OF s(2)] by auto
qed

text \<open>
  C6. Safety of the receive gates over any history of pushes, with caches that start empty and may
  evict anything: a push is accepted only if, by answers the chain gave in this or an earlier call,
  the file is registered under exactly this root and is pending or active, the index is below its
  chunk count, the assignment over the snapshot of one of its assignment epochs names this archive
  for the chunk, and the strict Merkle proof over the chain's chunk count verifies. The leaf and the
  visibility handed on are the data's digest and the chain's.
\<close>

theorem accepted_pushes_justified:
  assumes "validate_pushes L W (push_validator_new addr rf) calls = (rs, pv')"
    and "k < length calls" and "\<forall>c \<in> set calls. evict_ok (pc_env c)" and "rs ! k = Inr vp"
  shows "\<exists>info e t snap. let E = pc_env ` set (take (Suc k) calls); c = calls ! k in
           info_said E (pc_root c) info \<and> epoch_said E (pc_root c) e t \<and> snap_said L E e snap
         \<and> fi_lifecycle info \<in> {0, 1} \<and> pc_index c < fi_chunk_count info
         \<and> addr \<in> set (assigned_archives W (pc_root c) snap (pc_index c) rf)
         \<and> verify_merkle_proof_bytes_for_tree (blake3 L) (blake3 L (pc_data c)) (pc_index c) (pc_path c)
             (pc_root c) (fi_chunk_count info)
         \<and> vp = \<lparr>vp_leaf_hash = blake3 L (pc_data c), vp_visibility = fi_visibility info\<rparr>"
  using accepted_in_run [OF assms]
  unfolding push_justified_def assigned_at_def push_validator_new_def Let_def is_pending_def is_active_file_def
  by fastforce

text \<open>
  A refusal for the assignment is never based on an old epoch: when a push of a run is refused as
  not in the snapshot or not assigned, this archive is not among the chunk's archives in the snapshot
  of an epoch that was read from the chain in this call or less than \<open>DEFAULT_EPOCH_RECHECK_MIN\<close>
  before it.
\<close>

theorem assignment_refusals_are_fresh:
  assumes "validate_pushes L W (push_validator_new addr rf) calls = (rs, pv')"
    and "k < length calls" and "\<forall>c \<in> set calls. evict_ok (pc_env c)" and "wire_ok W"
    and "rs ! k = Inl x" and "is_assignment_refusal x"
  shows "\<exists>e t snap. let E = pc_env ` set (take (Suc k) calls); c = calls ! k in
           epoch_said E (pc_root c) e t
         \<and> (t = pe_read (pc_env c) \<or> pe_recheck (pc_env c) - t < DEFAULT_EPOCH_RECHECK_MIN)
         \<and> snap_said L E e snap \<and> addr \<notin> set (assigned_archives W (pc_root c) snap (pc_index c) rf)"
proof -
  let ?E = "pc_env ` set (take (Suc k) calls)"
  obtain pvk pvk' where s: "pv_inv L ?E pvk" "same_params pvk (push_validator_new addr rf)"
      "validate_push L W (pc_env (calls ! k)) pvk (pc_root (calls ! k)) (pc_index (calls ! k)) (pc_data (calls ! k))
        (pc_path (calls ! k)) = (Inl x, pvk')"
    using validate_pushes_nth [OF assms(1,2) fresh_validator_inv assms(3), of "{}"] assms(5) by auto
  have "pc_env (calls ! k) \<in> ?E" using assms(2) by (auto simp: take_Suc_conv_app_nth)
  from validate_push_refusal [OF s(3,1) this _ assms(6,4)] show ?thesis
    using assms(2,3) s(2) by (simp add: same_params_def push_validator_new_def Let_def)
qed

text \<open>
  C21. What an accepted push stores is the chunk the owner registered. Let the chain report, for a
  root built from the chunks \<open>cs\<close>, the number of those chunks: then an accepted push carries the
  chunk at its index, or the push exhibits a collision of BLAKE3 (in the chunk itself, or at a node
  of the tree).
\<close>

theorem accepted_push_is_registered_chunk:
  assumes "validate_pushes L W (push_validator_new addr rf) calls = (rs, pv')"
    and "k < length calls" and "\<forall>c \<in> set calls. evict_ok (pc_env c)" and "rs ! k = Inr vp"
    and "lib_ok L" and "length cs < 2 ^ 32" and "pc_root (calls ! k) = root (build (blake3 L) (map (blake3 L) cs))"
    and "\<forall>c \<in> set calls. \<forall>info. pe_file_info (pc_env c) (root_text (pc_root (calls ! k))) = Inr (Some info)
           \<longrightarrow> fi_chunk_count info = u32_of (length cs)"
    and "\<forall>s \<in> set (pc_path (calls ! k)). length s = 32"
  shows "let i = unat (pc_index (calls ! k)); data = pc_data (calls ! k) in
           i < length cs
         \<and> (data = cs ! i \<or> (data \<noteq> cs ! i \<and> blake3 L data = blake3 L (cs ! i))
            \<or> is_collision (blake3 L) (merkle_collision (blake3 L) (map (blake3 L) cs) i (blake3 L data) (pc_path (calls ! k))))"
proof -
  obtain info where info: "info_said (pc_env ` set (take (Suc k) calls)) (pc_root (calls ! k)) info"
      "verify_merkle_proof_bytes_for_tree (blake3 L) (blake3 L (pc_data (calls ! k))) (pc_index (calls ! k))
         (pc_path (calls ! k)) (pc_root (calls ! k)) (fi_chunk_count info)"
    using accepted_in_run [OF assms(1-4)] unfolding push_justified_def by blast
  have "fi_chunk_count info = u32_of (length (map (blake3 L) cs))"
    using info(1) assms(8) by (auto simp: info_said_def dest: in_set_takeD)
  with info(2) assms(5-7,9)
  show ?thesis
    using verified_leaf_binding [of "blake3 L" "map (blake3 L) cs" "blake3 L (pc_data (calls ! k))"
        "pc_path (calls ! k)" "pc_index (calls ! k)"] by (auto simp: lib_ok_blake3)
qed

lemma honest_push_passes:
  assumes "wire_ok W" and "length cs < 2 ^ 32" and "unat i < length cs"
    and "rt = root (build (blake3 L) (map (blake3 L) cs))" and "length rt = 32"
    and "pe_file_info env (root_text rt) = Inr (Some info)" and "fi_merkle_root info = root_text rt"
    and "pe_hex_decode env (hex_encode rt) = Inr rt"
    and "fi_lifecycle info \<in> {0, 1}" and "fi_chunk_count info = u32_of (length cs)"
    and "epoch_from_chain env rt info = Inr e" and "pe_active_nodes env e = Inr raw"
    and "canonical_snapshot L env e raw = Inr snap" and "addr \<in> set (assigned_archives W rt snap i rf)"
  shows "\<exists>path pv'. generate_proof (build (blake3 L) (map (blake3 L) cs)) i = Some path
           \<and> validate_push L W env (push_validator_new addr rf) rt i (cs ! unat i) path
               = (Inr \<lparr>vp_leaf_hash = blake3 L (cs ! unat i), vp_visibility = fi_visibility info\<rparr>, pv')"
proof -
  obtain path where path: "generate_proof (build (blake3 L) (map (blake3 L) cs)) i = Some path"
      "verify_merkle_proof_bytes_for_tree (blake3 L) (blake3 L (cs ! unat i)) i path rt (fi_chunk_count info)"
    using generated_proof_verifies [of "map (blake3 L) cs" i "blake3 L"] assms by auto
  have "decode_root_hex env (root_text rt) = Inr rt"
    using assms(5,8) by (simp add: decode_root_hex_def root_text_def strip_prefix_def)
  then have f: "\<exists>pv1. fetch_file_info env (push_validator_new addr rf) rt = (Inr info, pv1)
      \<and> pv_my_addr pv1 = addr \<and> pv_replication_factor pv1 = rf \<and> pv_snapshot pv1 = Map.empty \<and> pv_epochs pv1 = Map.empty"
    using assms(6,7) by (simp add: fetch_file_info_def push_validator_new_def)
  then obtain pv1 where f: "fetch_file_info env (push_validator_new addr rf) rt = (Inr info, pv1)"
      "pv_my_addr pv1 = addr" "pv_replication_factor pv1 = rf" "pv_snapshot pv1 = Map.empty" "pv_epochs pv1 = Map.empty"
    by blast
  have "addr \<in> set snap"
    using assms(14) wire_okD(3) [OF assms(1)] unfolding assigned_archives_def wire_okD(1) [OF assms(1)] by blast
  then have "\<exists>pv2. assignment_gate L W env pv1 rt info i = (Inr (), pv2)"
    using f assms(11-14)
    by (simp add: assignment_gate_def assignment_epoch_def check_assigned_def fetch_snapshot_def binary_search_def)
  then obtain pv2 where "assignment_gate L W env pv1 rt info i = (Inr (), pv2)" by blast
  moreover have "i < fi_chunk_count info"
    using assms(2,3,10) by (simp add: word_less_nat_alt unat_u32_of)
  ultimately have "validate_push L W env (push_validator_new addr rf) rt i (cs ! unat i) path
      = (Inr \<lparr>vp_leaf_hash = blake3 L (cs ! unat i), vp_visibility = fi_visibility info\<rparr>, pv2)"
    using f(1) assms(9) path(2)
    by (auto simp: validate_push_def Let_def is_abandoned_def is_pending_def is_active_file_def)
  then show ?thesis using path(1) by blast
qed

text \<open>
  The gates let the right pushes through: an archive the chain assigns chunk \<open>i\<close> at the file's
  latest epoch accepts, from a freshly started validator, the chunk with the proof the Merkle builder
  generates for it.
\<close>

theorem honest_push_accepted:
  assumes "wire_ok W" and "length cs < 2 ^ 32" and "unat i < length cs"
    and "rt = root (build (blake3 L) (map (blake3 L) cs))" and "length rt = 32"
    and "pe_file_info env (root_text rt) = Inr (Some info)" and "fi_merkle_root info = root_text rt"
    and "pe_hex_decode env (hex_encode rt) = Inr rt"
    and "fi_lifecycle info \<in> {0, 1}" and "fi_chunk_count info = u32_of (length cs)"
    and "epoch_from_chain env rt info = Inr e" and "pe_active_nodes env e = Inr raw"
    and "canonical_snapshot L env e raw = Inr snap" and "addr \<in> set (assigned_archives W rt snap i rf)"
  shows "\<exists>path pv'. generate_proof (build (blake3 L) (map (blake3 L) cs)) i = Some path
           \<and> validate_push L W env (push_validator_new addr rf) rt i (cs ! unat i) path
               = (Inr \<lparr>vp_leaf_hash = blake3 L (cs ! unat i), vp_visibility = fi_visibility info\<rparr>, pv')"
  using assms by (rule honest_push_passes)

section \<open>Instances\<close>

definition demo_chunk_root :: hash where "demo_chunk_root = 7 # replicate 31 0"

definition demo_info :: storage_file_info_v2 where
  "demo_info = \<lparr>fi_merkle_root = root_text demo_chunk_root, fi_owner = [], fi_plaintext_size_bytes = 1,
     fi_stored_size_bytes = 1, fi_chunk_count = 1, fi_fee_pool = 0, fi_created_at = 0,
     fi_activated_at_height = None, fi_abandoned_at_height = None, fi_assignment_height = 5,
     fi_visibility = 0, fi_lifecycle = 1, fi_access_list = []\<rparr>"

definition demo_record :: node_record_info where
  "demo_record = \<lparr>nr_address = ''a'', nr_role = ''ArchiveNode'', nr_staked_balance = 0, nr_status = ''Active'',
     nr_registered_at = 0\<rparr>"

text \<open>A chain with one archive, the one at \<open>replicate 20 1\<close>, and one one-chunk file.\<close>

definition demo_pv_env :: pv_env where
  "demo_pv_env = \<lparr>pe_file_info = (\<lambda>_. Inr (Some demo_info)), pe_active_nodes = (\<lambda>_. Inr [demo_record]),
     pe_latest_epoch = (\<lambda>_. Inr None),
     pe_hex_decode = (\<lambda>s. case parse_hex_pairs s of None \<Rightarrow> Inl [] | Some b \<Rightarrow> Inr b),
     pe_bs58_decode = (\<lambda>_. Inr (replicate 24 1)), pe_now = 0, pe_recheck = 0, pe_read = 0,
     pe_evict_info = (\<lambda>c k. c), pe_evict_snapshot = (\<lambda>c k. c), pe_evict_epoch = (\<lambda>c k. c)\<rparr>"

lemma demo_evict_ok: "evict_ok demo_pv_env"
  by (simp add: evict_ok_def demo_pv_env_def)

lemma demo_chunk_root_built: "root (build (blake3 demo_lib) (map (blake3 demo_lib) [[7]])) = demo_chunk_root"
  by (simp add: root_def build_def build_levels.simps demo_lib_def demo_chunk_root_def)

lemma demo_snapshot: "canonical_snapshot demo_lib demo_pv_env e [demo_record] = Inr [replicate 20 1]"
  by (simp add: canonical_snapshot_def filter_active_archives_def is_active_archive_def demo_record_def
      l1_address_from_base58_def demo_pv_env_def demo_lib_def)

lemma demo_epoch: "epoch_from_chain demo_pv_env rt demo_info = Inr 5"
  by (simp add: epoch_from_chain_def demo_pv_env_def demo_info_def)

lemma demo_decode: "pe_hex_decode demo_pv_env (hex_encode demo_chunk_root) = Inr demo_chunk_root"
  by (simp add: demo_pv_env_def)

lemmas demo_pv_simps = demo_pv_env_def demo_info_def demo_chunk_root_def u32_of_def

lemma demo_assigned: "replicate 20 1 \<in> set (assigned_archives demo_wire demo_chunk_root [replicate 20 1] 0 3)"
  by (simp add: assigned_archives_def demo_wire_def presorted_addresses_def)

theorem honest_push_accepted_witness:
  "\<exists>path pv'. generate_proof (build (blake3 demo_lib) (map (blake3 demo_lib) [[7]])) 0 = Some path
     \<and> validate_push demo_lib demo_wire demo_pv_env (push_validator_new (replicate 20 1) 3) demo_chunk_root 0
         ([[7]] ! unat (0 :: u32)) path
       = (Inr \<lparr>vp_leaf_hash = blake3 demo_lib ([[7]] ! unat (0 :: u32)), vp_visibility = fi_visibility demo_info\<rparr>, pv')"
  by (rule honest_push_accepted [OF demo_wire_ok, where e = 5 and raw = "[demo_record]" and snap = "[replicate 20 1]"])
    (use demo_chunk_root_built demo_snapshot demo_epoch demo_decode in
      \<open>auto simp: demo_pv_simps assigned_archives_def demo_wire_def presorted_addresses_def\<close>)

definition demo_call :: push_call where
  "demo_call = \<lparr>pc_env = demo_pv_env, pc_root = demo_chunk_root, pc_index = 0, pc_data = [7], pc_path = []\<rparr>"

lemma demo_validates:
  "\<exists>pv'. validate_push demo_lib demo_wire demo_pv_env (push_validator_new (replicate 20 1) 3) demo_chunk_root 0 [7] []
     = (Inr \<lparr>vp_leaf_hash = blake3 demo_lib [7], vp_visibility = 0\<rparr>, pv')"
proof -
  have "generate_proof (build (blake3 demo_lib) [blake3 demo_lib [7]]) 0 = Some []"
    by (simp add: generate_proof_def build_def build_levels.simps)
  then show ?thesis
    using honest_push_passes [OF demo_wire_ok, of "[[7]]" 0 demo_chunk_root demo_lib demo_pv_env demo_info 5
        "[demo_record]" "[replicate 20 1]" "replicate 20 1" 3]
      demo_chunk_root_built demo_snapshot demo_epoch demo_decode demo_assigned
    by (simp add: demo_pv_simps)
qed

lemma demo_run: "\<exists>pv'. validate_pushes demo_lib demo_wire (push_validator_new (replicate 20 1) 3) [demo_call]
    = ([Inr \<lparr>vp_leaf_hash = blake3 demo_lib [7], vp_visibility = 0\<rparr>], pv')"
  using demo_validates by (auto simp: demo_call_def)

theorem accepted_pushes_justified_witness:
  "\<exists>info e t snap. info_said {demo_pv_env} demo_chunk_root info \<and> epoch_said {demo_pv_env} demo_chunk_root e t
     \<and> snap_said demo_lib {demo_pv_env} e snap
     \<and> replicate 20 1 \<in> set (assigned_archives demo_wire demo_chunk_root snap 0 3)"
proof -
  obtain pv' where r: "validate_pushes demo_lib demo_wire (push_validator_new (replicate 20 1) 3) [demo_call]
    = ([Inr \<lparr>vp_leaf_hash = blake3 demo_lib [7], vp_visibility = 0\<rparr>], pv')" using demo_run by blast
  show ?thesis
    using accepted_pushes_justified [OF r, of 0] demo_evict_ok by (fastforce simp: demo_call_def Let_def)
qed

theorem accepted_push_is_registered_chunk_witness:
  "[7] = [[7]] ! 0 \<or> ([7] \<noteq> [[7]] ! 0 \<and> blake3 demo_lib [7] = blake3 demo_lib ([[7]] ! 0))
   \<or> is_collision (blake3 demo_lib) (merkle_collision (blake3 demo_lib) (map (blake3 demo_lib) [[7]]) 0 (blake3 demo_lib [7]) [])"
proof -
  obtain pv' where r: "validate_pushes demo_lib demo_wire (push_validator_new (replicate 20 1) 3) [demo_call]
    = ([Inr \<lparr>vp_leaf_hash = blake3 demo_lib [7], vp_visibility = 0\<rparr>], pv')" using demo_run by blast
  show ?thesis
    using accepted_push_is_registered_chunk [OF r, of 0 _ "[[7]]"] demo_evict_ok demo_lib_ok demo_chunk_root_built
    by (simp add: demo_call_def Let_def demo_pv_simps)
qed

text \<open>An archive the chain does not list is refused at the epoch just read.\<close>

lemma demo_refusal: "\<exists>pv' x. is_assignment_refusal x \<and>
    validate_pushes demo_lib demo_wire (push_validator_new (replicate 20 2) 3) [demo_call] = ([Inl x], pv')"
proof -
  have "decode_root_hex demo_pv_env (fi_merkle_root demo_info) = Inr demo_chunk_root"
    using demo_decode by (simp add: decode_root_hex_def root_text_def strip_prefix_def demo_info_def)
      (simp add: demo_chunk_root_def)
  moreover have "pe_file_info demo_pv_env t = Inr (Some demo_info)" "pe_active_nodes demo_pv_env h = Inr [demo_record]" for t h
    by (simp_all add: demo_pv_env_def)
  moreover have "\<not> is_abandoned (fi_lifecycle demo_info)" "is_active_file (fi_lifecycle demo_info)"
      "\<not> fi_chunk_count demo_info \<le> 0"
    by (simp_all add: demo_info_def is_abandoned_def is_active_file_def)
  moreover have "replicate 20 2 \<noteq> replicate 20 (1 :: byte)" by simp
  ultimately show ?thesis
    using demo_snapshot [of 5] demo_epoch [of demo_chunk_root]
    by (simp add: demo_call_def validate_push_def Let_def fetch_file_info_def push_validator_new_def
        assignment_gate_def assignment_epoch_def check_assigned_def fetch_snapshot_def binary_search_def)
qed

theorem assignment_refusals_are_fresh_witness:
  "\<exists>e t snap. epoch_said {demo_pv_env} demo_chunk_root e t
     \<and> (t = pe_read demo_pv_env \<or> pe_recheck demo_pv_env - t < DEFAULT_EPOCH_RECHECK_MIN)
     \<and> snap_said demo_lib {demo_pv_env} e snap
     \<and> replicate 20 2 \<notin> set (assigned_archives demo_wire demo_chunk_root snap 0 3)"
proof -
  obtain pv' x where r: "is_assignment_refusal x"
      "validate_pushes demo_lib demo_wire (push_validator_new (replicate 20 2) 3) [demo_call] = ([Inl x], pv')"
    using demo_refusal by blast
  show ?thesis
    using assignment_refusals_are_fresh [OF r(2), of 0 x] r(1) demo_evict_ok demo_wire_ok
    by (simp add: demo_call_def Let_def)
qed

end
