(* ===== verification/Publication.thy ===== *)
theory Publication
  imports Storage_Types
begin

text \<open>
  The content-addressed chunk store: \<open>PublicationStore\<close> (\<open>sum-store/src/publication.rs\<close>) and its
  wrapper \<open>ChunkStore\<close> (\<open>sum-store/src/store.rs\<close>). The store root is a directory, modelled as
  its list of entries in \<open>read_dir\<close> order together with the set of names whose bytes and
  directory entry have been synchronised. Every system call that can fail has a slot in \<open>io_env\<close>:
  \<open>Some msg\<close> makes that call fail, so each error path of the source is a branch. Staging
  directories live outside the modelled name space, since no final name begins with the staging prefix
  and ends in the suffix. The locale \<open>content_store\<close> is the contract the fetcher, the collector and
  the request handlers rely on.
\<close>

section \<open>State and environment\<close>

datatype dir_entry = Regular bytes | NonRegular

record pub_store =
  suffix :: string
  entries :: "(string \<times> dir_entry) list"
  durable :: "string list"

datatype unlink_fault = UnlinkNotFound | UnlinkError string

record io_env =
  io_tempdir :: "string option"
  io_open_stage :: "string option"
  io_write :: "string option"
  io_open_payload :: "string option"
  io_read :: "string option"
  io_file_sync :: "string option"
  io_link :: "string option"
  io_open :: "string option"
  io_dir_sync :: "string option"
  io_unlink :: "unlink_fault option"
  io_vanished :: bool   \<comment> \<open>another process removes the destination after a refused link\<close>

definition io_fine :: io_env where
  "io_fine = \<lparr>io_tempdir = None, io_open_stage = None, io_write = None, io_open_payload = None,
     io_read = None, io_file_sync = None, io_link = None, io_open = None, io_dir_sync = None, io_unlink = None,
     io_vanished = False\<rparr>"

section \<open>Names\<close>

datatype path_component = RootDir | CurDir | ParentDir | NormalComp string

text \<open>\<open>Path::components\<close>: empty segments and inner dots are dropped.\<close>

definition body_components :: "string list \<Rightarrow> path_component list" where
  "body_components ps = map (\<lambda>p. if p = ''..'' then ParentDir else NormalComp p)
     (filter (\<lambda>p. p \<noteq> [] \<and> p \<noteq> ''.'') ps)"

definition path_components :: "string \<Rightarrow> path_component list" where
  "path_components key =
     (if key = [] then []
      else (let ps = split_on (CHR ''/'') key in
            if hd key = CHR ''/'' then RootDir # body_components (tl ps)
            else if hd ps = ''.'' then CurDir # body_components (tl ps)
            else body_components ps))"

definition single_component :: "string \<Rightarrow> bool" where
  "single_component key = (case path_components key of [NormalComp _] \<Rightarrow> True | _ \<Rightarrow> False)"

definition name :: "pub_store \<Rightarrow> string \<Rightarrow> store_error + string" where
  "name s key =
     (if key = [] \<or> length key > 249 \<or> key = ''.'' \<or> key = ''..''
         \<or> list_ex (\<lambda>c. c = CHR ''/'' \<or> c = CHR 0x5C \<or> c = CHR 0x00) key
         \<or> \<not> single_component key
      then Inl (InvalidKey key) else Inr (key @ suffix s))"

definition canonical_cid :: "digest_lib \<Rightarrow> pub_store \<Rightarrow> string \<Rightarrow> store_error + unit" where
  "canonical_cid L s cid =
     (case name s cid of Inl e \<Rightarrow> Inl e
      | Inr _ \<Rightarrow>
         (case cid_try_from L cid of None \<Rightarrow> Inl (InvalidCid cid)
          | Some parsed \<Rightarrow>
              if cid_ver parsed \<noteq> CidV1 \<or> cid_codec parsed \<noteq> 0x55 \<or> cid_hash_code parsed \<noteq> 0x1e
                 \<or> length (cid_digest parsed) \<noteq> 32 \<or> cid_to_string L parsed \<noteq> cid
              then Inl (InvalidCid cid) else Inr ()))"

section \<open>Reading\<close>

definition open_key :: "io_env \<Rightarrow> pub_store \<Rightarrow> string \<Rightarrow> store_error + bytes option" where
  "open_key env s key =
     (case name s key of Inl e \<Rightarrow> Inl e
      | Inr n \<Rightarrow>
         (case io_open env of Some msg \<Rightarrow> Inl (Io msg)
          | None \<Rightarrow>
             (case map_of (entries s) n of None \<Rightarrow> Inr None
              | Some (Regular b) \<Rightarrow> Inr (Some b)
              | Some NonRegular \<Rightarrow> Inl (Io ''not a regular store file''))))"

definition has :: "io_env \<Rightarrow> pub_store \<Rightarrow> string \<Rightarrow> bool" where
  "has env s key = (case open_key env s key of Inr (Some _) \<Rightarrow> True | _ \<Rightarrow> False)"

definition get :: "io_env \<Rightarrow> pub_store \<Rightarrow> string \<Rightarrow> store_error + bytes" where
  "get env s key =
     (case open_key env s key of Inl e \<Rightarrow> Inl e
      | Inr None \<Rightarrow> Inl (NotFound key)
      | Inr (Some b) \<Rightarrow> (case io_read env of Some msg \<Rightarrow> Inl (Io msg) | None \<Rightarrow> Inr b))"

definition verify_file ::
    "digest_lib \<Rightarrow> io_env \<Rightarrow> bytes \<Rightarrow> string \<Rightarrow> string option \<Rightarrow> store_error + unit" where
  "verify_file L env contents cid expected_blake3 =
     (case io_read env of Some msg \<Rightarrow> Inl (Io msg)
      | None \<Rightarrow>
         (let h = blake3 L contents;
              by_cid = (let actual = cid_from_blake3_hash L h in
                        if actual \<noteq> cid then Inl (IntegrityMismatch cid actual) else Inr ())
          in case expected_blake3 of None \<Rightarrow> by_cid
             | Some expected \<Rightarrow>
                 if hex_encode h \<noteq> expected then Inl (IntegrityMismatch expected (hex_encode h)) else by_cid))"

section \<open>Publishing and deleting\<close>

definition mark_durable :: "string \<Rightarrow> pub_store \<Rightarrow> pub_store" where
  "mark_durable n s = s\<lparr>durable := List.insert n (durable s)\<rparr>"

definition remove_entry :: "string \<Rightarrow> pub_store \<Rightarrow> pub_store" where
  "remove_entry n s = s\<lparr>entries := filter (\<lambda>(m, _). m \<noteq> n) (entries s),
                        durable := filter (\<lambda>m. m \<noteq> n) (durable s)\<rparr>"

definition sync_directory :: "io_env \<Rightarrow> pub_store \<Rightarrow> string \<Rightarrow> (store_error + unit) \<times> pub_store" where
  "sync_directory env s cid =
     (case io_dir_sync env of Some msg \<Rightarrow> (Inl (DurabilityUnconfirmed cid (display_error (Io msg))), s)
      | None \<Rightarrow> (Inr (), mark_durable (cid @ suffix s) s))"

text \<open>The error of a failed directory sync, as the lemmas name it.\<close>

abbreviation unconfirmed :: "io_env \<Rightarrow> string \<Rightarrow> store_error" where
  "unconfirmed env cid \<equiv> DurabilityUnconfirmed cid (display_error (Io (the (io_dir_sync env))))"

definition verify_existing ::
    "digest_lib \<Rightarrow> io_env \<Rightarrow> pub_store \<Rightarrow> string \<Rightarrow> string option \<Rightarrow> (store_error + bool) \<times> pub_store" where
  "verify_existing L env s cid expected_blake3 =
     (case canonical_cid L s cid of Inl e \<Rightarrow> (Inl e, s)
      | Inr _ \<Rightarrow>
         (case open_key env s cid of
            Inl e \<Rightarrow> (Inl e, s)
          | Inr None \<Rightarrow> (Inr False, s)
          | Inr (Some b) \<Rightarrow>
             (case verify_file L env b cid expected_blake3 of Inl e \<Rightarrow> (Inl e, s)
              | Inr _ \<Rightarrow>
                 (case io_file_sync env of Some msg \<Rightarrow> (Inl (Io msg), s)
                  | None \<Rightarrow>
                     (case sync_directory env s cid of (Inl e, s') \<Rightarrow> (Inl e, s')
                      | (Inr _, s') \<Rightarrow> (Inr True, s'))))))"

text \<open>The link step: no final name is ever opened for writing, and an existing name is kept.\<close>

definition link_and_sync ::
    "digest_lib \<Rightarrow> io_env \<Rightarrow> pub_store \<Rightarrow> string \<Rightarrow> string option \<Rightarrow> bytes \<Rightarrow> (store_error + bool) \<times> pub_store" where
  "link_and_sync L env s cid expected_blake3 payload =
     (case name s cid of Inl e \<Rightarrow> (Inl e, s)
      | Inr n \<Rightarrow>
         (case io_link env of Some msg \<Rightarrow> (Inl (Io msg), s)
          | None \<Rightarrow>
             if map_of (entries s) n \<noteq> None then
               (case verify_existing L env (if io_vanished env then remove_entry n s else s) cid expected_blake3 of
                  (Inl e, s') \<Rightarrow> (Inl e, s')
                | (Inr ok, s') \<Rightarrow>
                    if ok then (Inr False, s')
                    else (Inl (Io ''publication destination disappeared; retry''), s'))
             else
               (case sync_directory env (s\<lparr>entries := entries s @ [(n, Regular payload)]\<rparr>) cid of
                  (Inl e, s') \<Rightarrow> (Inl e, s')
                | (Inr _, s') \<Rightarrow> (Inr True, s'))))"

definition publish_with ::
    "digest_lib \<Rightarrow> io_env \<Rightarrow> pub_store \<Rightarrow> string \<Rightarrow> string option \<Rightarrow> (store_error + bytes)
       \<Rightarrow> (store_error + bool) \<times> pub_store" where
  "publish_with L env s cid expected_blake3 written =
     (case canonical_cid L s cid of Inl e \<Rightarrow> (Inl e, s)
      | Inr _ \<Rightarrow>
         (case io_tempdir env of Some msg \<Rightarrow> (Inl (Io msg), s)
          | None \<Rightarrow>
             (case io_open_stage env of Some msg \<Rightarrow> (Inl (Io msg), s)
              | None \<Rightarrow>
                 (case written of Inl e \<Rightarrow> (Inl e, s)
                  | Inr payload \<Rightarrow>
                     (case io_open_payload env of Some msg \<Rightarrow> (Inl (Io msg), s)
                      | None \<Rightarrow>
                         (case verify_file L env payload cid expected_blake3 of Inl e \<Rightarrow> (Inl e, s)
                          | Inr _ \<Rightarrow>
                             (case io_file_sync env of Some msg \<Rightarrow> (Inl (Io msg), s)
                              | None \<Rightarrow> link_and_sync L env s cid expected_blake3 payload)))))))"

definition put ::
    "digest_lib \<Rightarrow> io_env \<Rightarrow> pub_store \<Rightarrow> string \<Rightarrow> bytes \<Rightarrow> (store_error + unit) \<times> pub_store" where
  "put L env s cid data =
     (case canonical_cid L s cid of Inl e \<Rightarrow> (Inl e, s)
      | Inr _ \<Rightarrow>
         (case verify_cid L data cid of Inl e \<Rightarrow> (Inl e, s)
          | Inr _ \<Rightarrow>
             (case publish_with L env s cid None
                      (case io_write env of Some msg \<Rightarrow> Inl (Io msg) | None \<Rightarrow> Inr data) of
                (Inl e, s') \<Rightarrow> (Inl e, s')
              | (Inr _, s') \<Rightarrow> (Inr (), s'))))"

definition delete :: "io_env \<Rightarrow> pub_store \<Rightarrow> string \<Rightarrow> (store_error + bool) \<times> pub_store" where
  "delete env s key =
     (case name s key of Inl e \<Rightarrow> (Inl e, s)
      | Inr n \<Rightarrow>
         (case open_key env s key of Inl e \<Rightarrow> (Inl e, s)
          | Inr None \<Rightarrow> (Inr False, s)
          | Inr (Some _) \<Rightarrow>
             (case io_unlink env of
                Some UnlinkNotFound \<Rightarrow> (Inr False, remove_entry n s)
              | Some (UnlinkError msg) \<Rightarrow> (Inl (Io msg), s)
              | None \<Rightarrow> (Inr True, remove_entry n s))))"

definition strip_suffix :: "string \<Rightarrow> string \<Rightarrow> string option" where
  "strip_suffix suf n = map_option rev (strip_prefix (rev suf) (rev n))"

text \<open>\<open>ChunkStore::list_all_cids\<close>: regular files with the suffix and a valid key, in directory order.\<close>

fun list_entries :: "io_env \<Rightarrow> pub_store \<Rightarrow> (string \<times> dir_entry) list \<Rightarrow> store_error + string list" where
  "list_entries env s [] = Inr []"
| "list_entries env s ((n, e) # es) =
     (case strip_suffix (suffix s) n of None \<Rightarrow> list_entries env s es
      | Some key \<Rightarrow>
          if e = NonRegular \<or> (case name s key of Inl _ \<Rightarrow> True | Inr _ \<Rightarrow> False)
          then list_entries env s es
          else (case open_key env s key of Inl err \<Rightarrow> Inl err
                | Inr None \<Rightarrow> list_entries env s es
                | Inr (Some _) \<Rightarrow> map_sum id ((#) key) (list_entries env s es)))"

definition list_all_cids :: "io_env \<Rightarrow> pub_store \<Rightarrow> store_error + string list" where
  "list_all_cids env s = list_entries env s (entries s)"

definition empty_chunk_store :: pub_store where
  "empty_chunk_store = \<lparr>suffix = ''.chunk'', entries = [], durable = []\<rparr>"


section \<open>Invariant and abstraction\<close>

text \<open>What a reader sees under a key.\<close>

definition lookup :: "pub_store \<Rightarrow> string \<Rightarrow> bytes option" where
  "lookup s key = (case map_of (entries s) (key @ suffix s) of Some (Regular b) \<Rightarrow> Some b | _ \<Rightarrow> None)"

definition store_inv :: "digest_lib \<Rightarrow> pub_store \<Rightarrow> bool" where
  "store_inv L s \<longleftrightarrow> distinct (map fst (entries s))
     \<and> set (durable s) \<subseteq> fst ` set (entries s)
     \<and> (\<forall>key b. canonical_cid L s key = Inr () \<longrightarrow> lookup s key = Some b \<longrightarrow> cid_from_data L b = key)"

text \<open>No other process touches the root, which the store lease grants.\<close>

definition exclusive :: "io_env \<Rightarrow> bool" where
  "exclusive env \<longleftrightarrow> \<not> io_vanished env \<and> io_unlink env \<noteq> Some UnlinkNotFound"

lemma name_Inr: "name s key = Inr n \<Longrightarrow> n = key @ suffix s"
  by (auto simp: name_def split: if_splits)

lemma name_cong: "suffix s = suffix t \<Longrightarrow> name s = name t"
  by (intro ext) (simp add: name_def)

lemma canonical_cid_cong: "suffix s = suffix t \<Longrightarrow> canonical_cid L s = canonical_cid L t"
  by (intro ext) (simp add: canonical_cid_def name_cong [of s t])

lemma canonical_name: "canonical_cid L s cid = Inr u \<Longrightarrow> name s cid = Inr (cid @ suffix s)"
  by (auto simp: canonical_cid_def split: sum.splits dest: name_Inr)

lemma open_key_Some: "open_key env s key = Inr (Some b) \<Longrightarrow> lookup s key = Some b"
  by (auto simp: open_key_def lookup_def split: sum.splits option.splits dir_entry.splits dest: name_Inr)

lemma open_key_None: "open_key env s key = Inr None \<Longrightarrow> lookup s key = None"
  by (auto simp: open_key_def lookup_def split: sum.splits option.splits dir_entry.splits dest: name_Inr)

lemma verify_file_Inr: "verify_file L env b cid x = Inr u \<Longrightarrow> cid_from_data L b = cid"
  by (auto simp: verify_file_def Let_def cid_from_data_def split: option.splits if_splits)

lemma map_of_filter_neq: "map_of (filter (\<lambda>(m, _). m \<noteq> n) xs) k = (if k = n then None else map_of xs k)"
  by (induction xs) auto

lemma remove_entry_simps [simp]:
  "suffix (remove_entry n s) = suffix s"
  "map_of (entries (remove_entry n s)) k = (if k = n then None else map_of (entries s) k)"
  by (simp_all add: remove_entry_def map_of_filter_neq)

lemma lookup_remove_entry [simp]:
  "lookup (remove_entry (k @ suffix s) s) j = (if j = k then None else lookup s j)"
  by (simp add: lookup_def)

lemma mark_durable_simps [simp]:
  "suffix (mark_durable n s) = suffix s" "entries (mark_durable n s) = entries s"
  "lookup (mark_durable n s) = lookup s" "set (durable (mark_durable n s)) = insert n (set (durable s))"
  by (auto simp: mark_durable_def lookup_def)

lemma sync_directory_cases:
  "sync_directory env s cid = (r, s') \<longleftrightarrow>
     (io_dir_sync env \<noteq> None \<and> r = Inl (unconfirmed env cid) \<and> s' = s
      \<or> io_dir_sync env = None \<and> r = Inr () \<and> s' = mark_durable (cid @ suffix s) s)"
  by (auto simp: sync_directory_def split: option.splits)

lemma lookup_map_of: "lookup s k = Some b \<Longrightarrow> map_of (entries s) (k @ suffix s) = Some (Regular b)"
  by (auto simp: lookup_def split: option.splits dir_entry.splits)

text \<open>
  The outcomes of the link step under exclusive access: the old state, the old state with the
  existing file confirmed durable, or the payload under a name that was free.
\<close>

definition published :: "pub_store \<Rightarrow> string \<Rightarrow> bytes \<Rightarrow> pub_store" where
  "published s cid payload = s\<lparr>entries := entries s @ [(cid @ suffix s, Regular payload)]\<rparr>"

lemma verify_existing_cases:
  assumes "verify_existing L env s cid x = (r, s')"
  shows "(s' = s \<and> r \<noteq> Inr True)
    \<or> (r = Inr True \<and> s' = mark_durable (cid @ suffix s) s
        \<and> (\<exists>b. lookup s cid = Some b \<and> cid_from_data L b = cid))"
  using assms
  by (auto simp: verify_existing_def sync_directory_def split: sum.splits option.splits prod.splits
      dest: open_key_Some verify_file_Inr)

lemma name_error: "name s k = Inl e \<Longrightarrow> e \<noteq> DurabilityUnconfirmed c d"
  by (auto simp: name_def split: if_splits)

lemma canonical_cid_error: "canonical_cid L s k = Inl e \<Longrightarrow> e \<noteq> DurabilityUnconfirmed c d"
  by (auto simp: canonical_cid_def split: sum.splits option.splits if_splits dest: name_error)

lemma open_key_error: "open_key env s k = Inl e \<Longrightarrow> e \<noteq> DurabilityUnconfirmed c d"
  by (auto simp: open_key_def split: sum.splits option.splits dir_entry.splits dest: name_error)

lemma verify_existing_missing:
  assumes "verify_existing L env s cid x = (r, s')" and "lookup s cid = None"
  shows "r \<noteq> Inl (DurabilityUnconfirmed c d)"
proof (cases "open_key env s cid")
  case (Inl e)
  then show ?thesis using assms(1) open_key_error [OF Inl]
    by (auto simp: verify_existing_def split: sum.splits dest: canonical_cid_error)
next
  case (Inr found)
  then have "found = None" using assms(2) open_key_Some by (cases found) fastforce+
  then show ?thesis using Inr assms(1)
    by (auto simp: verify_existing_def split: sum.splits dest: canonical_cid_error)
qed

lemma link_and_sync_cases:
  assumes "link_and_sync L env s cid x payload = (r, s')" and "exclusive env"
  shows "(s' = s \<and> (\<exists>e. r = Inl e \<and> (lookup s cid = None \<longrightarrow> e \<noteq> unconfirmed env cid)))
    \<or> (r = Inr False \<and> s' = mark_durable (cid @ suffix s) s
        \<and> (\<exists>b. lookup s cid = Some b \<and> cid_from_data L b = cid))
    \<or> (map_of (entries s) (cid @ suffix s) = None
        \<and> (r = Inl (unconfirmed env cid) \<and> s' = published s cid payload
           \<or> r = Inr True \<and> s' = mark_durable (cid @ suffix s) (published s cid payload)))"
proof -
  show ?thesis
  proof (cases "name s cid")
    case (Inl e)
    with assms(1) show ?thesis by (auto simp: link_and_sync_def name_def split: if_splits)
  next
    case (Inr n)
    then have n: "n = cid @ suffix s" by (rule name_Inr)
    show ?thesis
    proof (cases "io_link env = None \<and> map_of (entries s) n = None")
      case True
      with Inr n assms(1) show ?thesis
        by (auto simp: link_and_sync_def published_def sync_directory_def mark_durable_def split: option.splits)
    next
      case False
      show ?thesis
      proof (cases "io_link env")
        case (Some msg)
        with Inr assms(1) show ?thesis by (auto simp: link_and_sync_def)
      next
        case None
        obtain r0 s0 where v: "verify_existing L env s cid x = (r0, s0)" by fastforce
        have "lookup s cid = None \<Longrightarrow> r0 \<noteq> Inl (unconfirmed env cid)"
          using verify_existing_missing [OF v] by blast
        moreover have "(r, s') = (case (r0, s0) of (Inl e, s') \<Rightarrow> (Inl e, s')
            | (Inr ok, s') \<Rightarrow> if ok then (Inr False, s')
                else (Inl (Io ''publication destination disappeared; retry''), s'))"
          using assms None False Inr v by (simp add: link_and_sync_def exclusive_def n)
        ultimately show ?thesis using verify_existing_cases [OF v]
          by (cases r0) (auto split: if_splits)
      qed
    qed
  qed
qed


lemma publish_with_cases:
  assumes "publish_with L env s cid x written = (r, s')"
  shows "(s' = s \<and> (\<exists>e. r = Inl e \<and> (\<forall>w. written = Inl w \<longrightarrow> e = w \<or> e \<noteq> unconfirmed env cid)
             \<and> (\<forall>p. written = Inr p \<longrightarrow> e \<noteq> unconfirmed env cid)))
    \<or> (\<exists>payload. written = Inr payload \<and> canonical_cid L s cid = Inr () \<and> cid_from_data L payload = cid
          \<and> link_and_sync L env s cid x payload = (r, s'))"
proof (cases "canonical_cid L s cid")
  case (Inl e)
  then show ?thesis using assms canonical_cid_error [OF Inl] by (auto simp: publish_with_def)
next
  case (Inr u)
  note can = this
  show ?thesis
  proof (cases written)
    case (Inl w)
    then show ?thesis using can assms by (auto simp: publish_with_def split: option.splits)
  next
    case (Inr payload)
    show ?thesis
    proof (cases "verify_file L env payload cid x")
      case (Inl e)
      then have "e \<noteq> unconfirmed env cid"
        by (auto simp: verify_file_def Let_def split: option.splits if_splits)
      then show ?thesis using Inl \<open>written = Inr payload\<close> can assms
        by (auto simp: publish_with_def split: option.splits)
    next
      case (Inr v)
      with verify_file_Inr [OF Inr] \<open>written = Inr payload\<close> can assms show ?thesis
        by (auto simp: publish_with_def split: option.splits)
    qed
  qed
qed

lemma put_cases:
  assumes "put L env s cid data = (r, s')" and "exclusive env"
  shows "(s' = s \<and> (\<exists>e. r = Inl e \<and> (lookup s cid = None \<longrightarrow> e \<noteq> unconfirmed env cid)))
    \<or> (r = Inr () \<and> s' = mark_durable (cid @ suffix s) s \<and> canonical_cid L s cid = Inr ()
        \<and> (\<exists>b. lookup s cid = Some b \<and> cid_from_data L b = cid))
    \<or> (map_of (entries s) (cid @ suffix s) = None \<and> cid_from_data L data = cid
        \<and> canonical_cid L s cid = Inr ()
        \<and> (r = Inl (unconfirmed env cid) \<and> s' = published s cid data
           \<or> r = Inr () \<and> s' = mark_durable (cid @ suffix s) (published s cid data)))"
proof (cases "canonical_cid L s cid")
  case (Inl e)
  then have "s' = s" "r = Inl e" using assms(1) by (simp_all add: put_def)
  then show ?thesis using canonical_cid_error [OF Inl] by blast
next
  case (Inr u)
  let ?w = "case io_write env of Some msg \<Rightarrow> Inl (Io msg) | None \<Rightarrow> Inr data"
  show ?thesis
  proof (cases "cid_from_data L data = cid")
    case False
    then have "s' = s" "r = Inl (IntegrityMismatch cid (cid_from_data L data))"
      using Inr assms(1) by (simp_all add: put_def verify_cid_def Let_def)
    then show ?thesis by blast
  next
    case True
    obtain r0 s0 where p: "publish_with L env s cid None ?w = (r0, s0)" by fastforce
    have eq: "(r, s') = (case (r0, s0) of (Inl e, s') \<Rightarrow> (Inl e, s') | (Inr _, s') \<Rightarrow> (Inr (), s'))"
      using assms(1) Inr True p by (simp add: put_def verify_cid_def Let_def)
    from publish_with_cases [OF p] show ?thesis
    proof
      assume "s0 = s \<and> (\<exists>e. r0 = Inl e \<and> (\<forall>w. ?w = Inl w \<longrightarrow> e = w \<or> e \<noteq> unconfirmed env cid)
             \<and> (\<forall>p. ?w = Inr p \<longrightarrow> e \<noteq> unconfirmed env cid))"
      then show ?thesis using eq by (cases "io_write env") auto
    next
      assume "\<exists>payload. ?w = Inr payload \<and> canonical_cid L s cid = Inr () \<and> cid_from_data L payload = cid
          \<and> link_and_sync L env s cid None payload = (r0, s0)"
      then have "canonical_cid L s cid = Inr ()" "link_and_sync L env s cid None data = (r0, s0)"
        by (auto split: option.splits)
      with link_and_sync_cases [OF this(2) assms(2)] eq True show ?thesis by auto
    qed
  qed
qed

lemma published_simps [simp]:
  "suffix (published s cid b) = suffix s"
  "map_of (entries s) (cid @ suffix s) = None \<Longrightarrow>
     lookup (published s cid b) k = (if k = cid then Some b else lookup s k)"
  by (auto simp: published_def lookup_def map_add_def split: option.splits dir_entry.splits)

lemma map_of_None_fst: "map_of xs k = None \<Longrightarrow> k \<notin> fst ` set xs"
  by (simp add: map_of_eq_None_iff)

lemma store_inv_mark:
  "store_inv L s \<Longrightarrow> map_of (entries s) n \<noteq> None \<Longrightarrow> store_inv L (mark_durable n s)"
  using canonical_cid_cong [of "mark_durable n s" s L]
  by (auto simp: store_inv_def dest: map_of_SomeD intro: rev_image_eqI)

lemma store_inv_published:
  assumes "store_inv L s" and "map_of (entries s) (cid @ suffix s) = None" and "cid_from_data L b = cid"
  shows "store_inv L (published s cid b)"
proof -
  have "canonical_cid L (published s cid b) = canonical_cid L s" by (rule canonical_cid_cong) simp
  moreover have "set (durable (published s cid b)) \<subseteq> fst ` set (entries (published s cid b))"
    using assms(1) by (auto simp: store_inv_def published_def)
  moreover have "distinct (map fst (entries (published s cid b)))"
    using assms(1,2) by (auto simp: store_inv_def published_def dest: map_of_None_fst)
  ultimately show ?thesis using assms by (auto simp: store_inv_def)
qed

lemma store_inv_remove: "store_inv L s \<Longrightarrow> store_inv L (remove_entry (k @ suffix s) s)"
proof -
  assume inv: "store_inv L s"
  have "canonical_cid L (remove_entry (k @ suffix s) s) = canonical_cid L s"
    by (rule canonical_cid_cong) simp
  moreover have "distinct (map fst (filter (\<lambda>(m, _). m \<noteq> k @ suffix s) (entries s)))"
    using inv by (auto simp: store_inv_def intro: distinct_map_filter)
  moreover have "entries (remove_entry (k @ suffix s) s) = filter (\<lambda>(m, _). m \<noteq> k @ suffix s) (entries s)"
    "durable (remove_entry (k @ suffix s) s) = filter (\<lambda>m. m \<noteq> k @ suffix s) (durable s)"
    by (simp_all add: remove_entry_def)
  moreover have "set (filter (\<lambda>m. m \<noteq> k @ suffix s) (durable s)) \<subseteq>
      fst ` set (filter (\<lambda>(m, _). m \<noteq> k @ suffix s) (entries s))"
    using inv by (force simp: store_inv_def)
  ultimately show ?thesis
    using inv by (simp add: store_inv_def)
qed


lemma delete_cases:
  assumes "delete env s key = (r, s')" and "exclusive env"
  shows "(s' = s \<and> r \<noteq> Inr True) \<or> (r = Inr True \<and> s' = remove_entry (key @ suffix s) s)"
proof (cases "name s key")
  case (Inl e)
  with assms show ?thesis by (auto simp: delete_def)
next
  case (Inr n)
  with name_Inr [OF Inr] assms show ?thesis
    by (auto simp: delete_def exclusive_def split: sum.splits option.splits unlink_fault.splits)
qed

section \<open>The contract of a content store\<close>

locale content_store =
  fixes inv :: "'s \<Rightarrow> bool"
    and look :: "'s \<Rightarrow> string \<Rightarrow> bytes option"
    and store_put :: "'e \<Rightarrow> 's \<Rightarrow> string \<Rightarrow> bytes \<Rightarrow> (store_error + unit) \<times> 's"
    and store_delete :: "'e \<Rightarrow> 's \<Rightarrow> string \<Rightarrow> (store_error + bool) \<times> 's"
    and alone :: "'e \<Rightarrow> bool"
    and addr :: "bytes \<Rightarrow> string"
  assumes put_inv: "alone e \<Longrightarrow> inv s \<Longrightarrow> inv (snd (store_put e s c b))"
    and put_Ok: "alone e \<Longrightarrow> store_put e s c b = (Inr (), s') \<Longrightarrow> \<exists>b'. look s' c = Some b' \<and> addr b' = c"
    and put_fresh: "alone e \<Longrightarrow> store_put e s c b = (Inr (), s') \<Longrightarrow> look s c = None \<Longrightarrow> look s' c = Some b"
    and put_other: "alone e \<Longrightarrow> k \<noteq> c \<Longrightarrow> look (snd (store_put e s c b)) k = look s k"
    and put_keeps: "alone e \<Longrightarrow> look s c = Some b0 \<Longrightarrow> look (snd (store_put e s c b)) c = Some b0"
    and delete_inv: "alone e \<Longrightarrow> inv s \<Longrightarrow> inv (snd (store_delete e s c))"
    and delete_True: "alone e \<Longrightarrow> store_delete e s c = (Inr True, s') \<Longrightarrow> look s' c = None"
    and delete_other: "alone e \<Longrightarrow> k \<noteq> c \<Longrightarrow> look (snd (store_delete e s c)) k = look s k"
    and delete_noop: "alone e \<Longrightarrow> store_delete e s c = (r, s') \<Longrightarrow> r \<noteq> Inr True \<Longrightarrow> s' = s"
begin

lemma put_lookup:
  assumes "alone e" and "store_put e s c b = (Inr (), s')"
  shows "\<exists>b'. look s' = (look s)(c \<mapsto> b') \<and> addr b' = c \<and> look s c \<in> {None, Some b'}
           \<and> (look s c = None \<longrightarrow> b' = b)"
proof -
  obtain b' where b': "look s' c = Some b'" "addr b' = c" using put_Ok [OF assms] by blast
  have "look s' = (look s)(c \<mapsto> b')"
    using put_other [OF assms(1), of _ c s b] assms(2) b' by (auto simp: fun_eq_iff)
  moreover have "look s c = None \<or> look s c = Some b'"
    using put_keeps [OF assms(1), of s c _ b] assms(2) b'(1) by (cases "look s c") auto
  ultimately show ?thesis using b' put_fresh [OF assms] by auto
qed

lemma put_pointwise:
  assumes "alone e" and "look s k = Some b0"
  shows "look (snd (store_put e s c b)) k = Some b0"
  using put_other [OF assms(1), of k c s b] put_keeps [OF assms(1), of s c b0 b] assms(2) by (cases "k = c") auto

lemma delete_pointwise:
  assumes "alone e"
  shows "look (snd (store_delete e s c)) k \<in> {None, look s k}"
proof (cases "k = c")
  case True
  show ?thesis
    using delete_True [OF assms, of s c] delete_noop [OF assms, of s c] True
    by (cases "store_delete e s c") (metis insert_iff snd_conv)
qed (simp add: delete_other [OF assms])

end

lemma put_store_inv:
  assumes "exclusive env" and "store_inv L s"
  shows "store_inv L (snd (put L env s cid data))"
proof -
  obtain r s' where p: "put L env s cid data = (r, s')" by fastforce
  have ex: "map_of (entries (published s cid data)) (cid @ suffix s) \<noteq> None"
    by (simp add: published_def map_of_eq_None_iff)
  from put_cases [OF p assms(1)] show ?thesis
  proof (elim disjE conjE exE)
    fix b assume "s' = mark_durable (cid @ suffix s) s" "lookup s cid = Some b"
    then show ?thesis using p lookup_map_of [of s cid b] assms(2) by (simp add: store_inv_mark)
  next
    assume m: "map_of (entries s) (cid @ suffix s) = None" and "cid_from_data L data = cid"
      and "s' = mark_durable (cid @ suffix s) (published s cid data)"
    then show ?thesis using p store_inv_published [OF assms(2)] ex by (simp add: store_inv_mark)
  next
    assume "map_of (entries s) (cid @ suffix s) = None" "cid_from_data L data = cid"
      "s' = published s cid data"
    then show ?thesis using p store_inv_published [OF assms(2)] by simp
  qed (use p assms in simp)
qed

lemma put_lookup_cases:
  assumes "put L env s cid data = (r, s')" and "exclusive env"
  shows "(lookup s' = lookup s \<and> (r = Inr () \<longrightarrow> (\<exists>b. lookup s cid = Some b \<and> cid_from_data L b = cid)))
    \<or> (lookup s cid = None \<and> cid_from_data L data = cid \<and> lookup s' = (lookup s)(cid \<mapsto> data)
       \<and> (r = Inr () \<or> r = Inl (unconfirmed env cid)))"
  using put_cases [OF assms]
proof (elim disjE conjE exE)
  assume m: "map_of (entries s) (cid @ suffix s) = None" and c: "cid_from_data L data = cid"
    and "r = Inr ()" and "s' = mark_durable (cid @ suffix s) (published s cid data)"
  moreover have "lookup s cid = None" using m by (simp add: lookup_def)
  ultimately show ?thesis by (auto simp: fun_eq_iff)
next
  assume m: "map_of (entries s) (cid @ suffix s) = None" and c: "cid_from_data L data = cid"
    and "r = Inl (unconfirmed env cid)" and "s' = published s cid data"
  moreover have "lookup s cid = None" using m by (simp add: lookup_def)
  ultimately show ?thesis by (auto simp: fun_eq_iff)
qed auto

interpretation cs: content_store "store_inv L" lookup "put L" delete exclusive "cid_from_data L" for L
proof
  fix e s c b s' k b0 r
  assume e: "exclusive e"
  show "store_inv L s \<Longrightarrow> store_inv L (snd (put L e s c b))" by (rule put_store_inv [OF e])
  show "put L e s c b = (Inr (), s') \<Longrightarrow> \<exists>b'. lookup s' c = Some b' \<and> cid_from_data L b' = c"
    using put_lookup_cases [of L e s c b "Inr ()" s'] e by auto
  show "put L e s c b = (Inr (), s') \<Longrightarrow> lookup s c = None \<Longrightarrow> lookup s' c = Some b"
    using put_lookup_cases [of L e s c b "Inr ()" s'] e by auto
  obtain r1 s1 where p: "put L e s c b = (r1, s1)" by fastforce
  show "k \<noteq> c \<Longrightarrow> lookup (snd (put L e s c b)) k = lookup s k"
    using put_lookup_cases [OF p e] p by auto
  show "lookup s c = Some b0 \<Longrightarrow> lookup (snd (put L e s c b)) c = Some b0"
    using put_lookup_cases [OF p e] p by auto
  obtain r2 s2 where d: "delete e s c = (r2, s2)" by fastforce
  note dc = delete_cases [OF d e]
  show "store_inv L s \<Longrightarrow> store_inv L (snd (delete e s c))"
    using dc d store_inv_remove by auto
  show "delete e s c = (Inr True, s') \<Longrightarrow> lookup s' c = None" using dc d by auto
  show "k \<noteq> c \<Longrightarrow> lookup (snd (delete e s c)) k = lookup s k" using dc d by auto
  show "delete e s c = (r, s') \<Longrightarrow> r \<noteq> Inr True \<Longrightarrow> s' = s" using dc d by auto
qed


section \<open>Runs of the store\<close>

datatype store_op =
    OpPut io_env string bytes
  | OpDelete io_env string
  | OpVerify io_env string "string option"

fun store_step :: "digest_lib \<Rightarrow> pub_store \<Rightarrow> store_op \<Rightarrow> pub_store" where
  "store_step L s (OpPut env cid data) = snd (put L env s cid data)"
| "store_step L s (OpDelete env key) = snd (delete env s key)"
| "store_step L s (OpVerify env cid x) = snd (verify_existing L env s cid x)"

fun op_env :: "store_op \<Rightarrow> io_env" where
  "op_env (OpPut env _ _) = env" | "op_env (OpDelete env _) = env" | "op_env (OpVerify env _ _) = env"

definition run_store :: "digest_lib \<Rightarrow> pub_store \<Rightarrow> store_op list \<Rightarrow> pub_store" where
  "run_store L s ops = foldl (store_step L) s ops"

lemma verify_existing_store:
  "store_inv L s \<Longrightarrow> store_inv L (snd (verify_existing L env s cid x))
     \<and> lookup (snd (verify_existing L env s cid x)) = lookup s"
proof -
  assume inv: "store_inv L s"
  obtain r s' where v: "verify_existing L env s cid x = (r, s')" by fastforce
  from verify_existing_cases [OF v] show ?thesis
  proof (elim disjE conjE exE)
    fix b assume "s' = mark_durable (cid @ suffix s) s" "lookup s cid = Some b"
    then show ?thesis using v inv lookup_map_of [of s cid b] by (simp add: store_inv_mark)
  qed (use v inv in simp)
qed

lemma store_step_inv:
  "exclusive (op_env a) \<Longrightarrow> store_inv L s \<Longrightarrow> store_inv L (store_step L s a)"
  by (cases a) (simp_all add: cs.put_inv cs.delete_inv verify_existing_store)

lemma store_step_immutable:
  assumes "exclusive (op_env a)" and "store_inv L s" and "lookup s k = Some b"
  shows "lookup (store_step L s a) k \<in> {None, Some b}"
proof (cases a)
  case (OpPut env cid data)
  then show ?thesis using cs.put_pointwise [of env s k b L cid data] assms by simp
next
  case (OpDelete env key)
  then show ?thesis using cs.delete_pointwise [of env s key k] assms by simp
next
  case (OpVerify env cid x)
  then show ?thesis using verify_existing_store [OF assms(2), of env cid x] assms(3) by simp
qed

text \<open>
  A successful \<open>put\<close>: the reader's view changes at the one key only, the bytes under it hash to
  the key, they are the given bytes unless the key was already taken (then the old bytes stay), the
  name is durable, reading the key back succeeds, and the store invariant holds.
\<close>

theorem put_publishes:
  assumes "exclusive env" and "store_inv L s" and "put L env s cid data = (Inr (), s')"
  shows "\<exists>b. lookup s' = (lookup s)(cid \<mapsto> b) \<and> cid_from_data L b = cid
           \<and> lookup s cid \<in> {None, Some b} \<and> (lookup s cid = None \<longrightarrow> b = data)
           \<and> cid @ suffix s \<in> set (durable s') \<and> store_inv L s'
           \<and> get io_fine s' cid = Inr b"
proof -
  obtain b where b: "lookup s' = (lookup s)(cid \<mapsto> b)"
      "cid_from_data L b = cid" "lookup s cid \<in> {None, Some b}" "lookup s cid = None \<longrightarrow> b = data"
    using cs.put_lookup [OF assms(1,3)] by (elim exE conjE) (rule that)
  have d: "cid @ suffix s \<in> set (durable s') \<and> suffix s' = suffix s \<and> canonical_cid L s cid = Inr ()"
    using put_cases [OF assms(3,1)] by (elim disjE conjE exE) simp_all
  then have "name s' cid = Inr (cid @ suffix s')"
    using canonical_name [of L s cid] name_cong [of s' s] by simp
  moreover have "map_of (entries s') (cid @ suffix s') = Some (Regular b)"
    using lookup_map_of [of s' cid b] b(1) by simp
  ultimately have "get io_fine s' cid = Inr b"
    by (simp add: get_def open_key_def io_fine_def)
  moreover have "store_inv L s'" using cs.put_inv [OF assms(1,2), of cid data] assms(3) by simp
  ultimately show ?thesis using b d by (intro exI [of _ b]) simp
qed

text \<open>
  A failed \<open>put\<close> leaves the store as it was, with one exception: when only the directory
  synchronisation failed, the verified bytes are published under a name that was free and the
  error says that their durability is unconfirmed.
\<close>

theorem put_failure_atomic:
  assumes "exclusive env" and "put L env s cid data = (Inl e, s')"
  shows "s' = s
       \<or> (e = unconfirmed env cid \<and> lookup s cid = None \<and> cid_from_data L data = cid
          \<and> lookup s' = (lookup s)(cid \<mapsto> data))"
  using put_cases [OF assms(2,1)]
proof (elim disjE conjE exE)
  assume m: "map_of (entries s) (cid @ suffix s) = None" and "cid_from_data L data = cid"
    and "Inl e = Inl (unconfirmed env cid)" and "s' = published s cid data"
  moreover have "lookup s cid = None" using m by (simp add: lookup_def)
  ultimately show ?thesis by (simp add: fun_eq_iff)
qed simp_all

text \<open>
  C35. Immutability and content addressing over every run of puts, deletes and verifications with
  arbitrary I/O faults, under exclusive access: the invariant holds at the end, so every canonical
  key maps to bytes with that CID, and a key present at the start shows its old bytes, or bytes with
  the same CID (after a delete and a new put), or nothing.
\<close>

theorem store_run_invariant:
  assumes "store_inv L s" and "\<forall>a \<in> set ops. exclusive (op_env a)"
  shows "store_inv L (run_store L s ops)
       \<and> (\<forall>k b b'. canonical_cid L s k = Inr () \<longrightarrow> lookup s k = Some b
            \<longrightarrow> lookup (run_store L s ops) k = Some b' \<longrightarrow> cid_from_data L b' = cid_from_data L b)"
proof -
  have inv: "store_inv L (run_store L s ops)"
    using assms by (induction ops arbitrary: s) (auto simp: run_store_def store_step_inv)
  have "suffix (store_step L t a) = suffix t" if "exclusive (op_env a)" for t a
  proof (cases a)
    case (OpPut env cid data)
    obtain r t' where "put L env t cid data = (r, t')" by fastforce
    with put_cases [OF this] that OpPut show ?thesis by auto
  next
    case (OpDelete env key)
    obtain r t' where "delete env t key = (r, t')" by fastforce
    with delete_cases [OF this] that OpDelete show ?thesis by auto
  next
    case (OpVerify env cid x)
    obtain r t' where "verify_existing L env t cid x = (r, t')" by fastforce
    with verify_existing_cases [OF this] OpVerify show ?thesis by auto
  qed
  then have "suffix (run_store L s ops) = suffix s"
    using assms(2) by (induction ops arbitrary: s) (auto simp: run_store_def)
  then have "canonical_cid L (run_store L s ops) = canonical_cid L s" by (rule canonical_cid_cong)
  with inv assms(1) show ?thesis by (auto simp: store_inv_def)
qed

lemma strip_suffix_Some: "strip_suffix suf n = Some k \<longleftrightarrow> n = k @ suf"
  by (auto simp: strip_suffix_def strip_prefix_Some) (metis rev_append rev_rev_ident)

definition valid_name :: "pub_store \<Rightarrow> string \<Rightarrow> bool" where
  "valid_name s k \<longleftrightarrow> name s k = Inr (k @ suffix s)"

lemma list_entries_Inr:
  assumes "io_open env = None" and "distinct (map fst (entries s))" and "set es \<subseteq> set (entries s)"
    and "distinct (map fst es)"
  shows "\<exists>ks. list_entries env s es = Inr ks \<and> distinct ks
           \<and> set ks = {k. valid_name s k \<and> (\<exists>b. (k @ suffix s, Regular b) \<in> set es)}"
  using assms(3,4)
proof (induction es)
  case Nil
  then show ?case by simp
next
  case (Cons ne es)
  obtain n e where ne: "ne = (n, e)" by (cases ne)
  from Cons obtain ks where ks: "list_entries env s es = Inr ks" "distinct ks"
      "set ks = {k. valid_name s k \<and> (\<exists>b. (k @ suffix s, Regular b) \<in> set es)}" by auto
  show ?case
  proof (cases "\<exists>k b. n = k @ suffix s \<and> e = Regular b \<and> valid_name s k")
    case False
    then have "list_entries env s (ne # es) = list_entries env s es"
    proof (cases "strip_suffix (suffix s) n")
      case None
      then show ?thesis by (simp add: ne)
    next
      case (Some k)
      then have "n = k @ suffix s" by (simp add: strip_suffix_Some)
      with False have "e = NonRegular \<or> (\<exists>err. name s k = Inl err)"
        by (cases e; cases "name s k") (auto simp: valid_name_def dest: name_Inr)
      then show ?thesis using Some by (auto simp: ne)
    qed
    with False ks show ?thesis by (auto simp: ne)
  next
    case True
    then obtain k b where kb: "n = k @ suffix s" "e = Regular b" "valid_name s k" by blast
    have "map_of (entries s) n = Some e" using Cons.prems assms(2) ne by (simp add: map_of_eq_Some_iff)
    then have "open_key env s k = Inr (Some b)"
      using kb assms(1) by (simp add: open_key_def valid_name_def)
    moreover have "strip_suffix (suffix s) n = Some k" using kb by (simp add: strip_suffix_Some)
    ultimately have "list_entries env s (ne # es) = Inr (k # ks)"
      using ks kb by (simp add: ne valid_name_def)
    moreover have "k \<notin> set ks" using ks(3) Cons.prems(2) ne kb by force
    ultimately show ?thesis using ks kb ne by auto
  qed
qed

text \<open>
  \<open>list_all_cids\<close>, the only input of the garbage collector's delete loop, lists exactly the
  valid keys a reader can read, each once: the lease file and other names without the chunk suffix
  are invisible to it.
\<close>

theorem list_all_cids_exact:
  assumes "io_open env = None" and "store_inv L s"
  shows "\<exists>ks. list_all_cids env s = Inr ks \<and> distinct ks
           \<and> set ks = {k. valid_name s k \<and> lookup s k \<noteq> None}"
proof -
  have dist: "distinct (map fst (entries s))" using assms(2) by (simp add: store_inv_def)
  have "(\<exists>b. (k @ suffix s, Regular b) \<in> set (entries s)) \<longleftrightarrow> lookup s k \<noteq> None" for k
    using dist by (auto simp: lookup_def map_of_eq_Some_iff split: option.splits dir_entry.splits
        dest: eq_key_imp_eq_value)
  with list_entries_Inr [OF assms(1) dist subset_refl dist] show ?thesis
    by (simp add: list_all_cids_def)
qed

section \<open>Instances\<close>

lemma store_inv_empty: "store_inv L empty_chunk_store"
  by (simp add: store_inv_def empty_chunk_store_def lookup_def)

lemma exclusive_fine [simp]: "exclusive io_fine"
  by (simp add: exclusive_def io_fine_def)

definition demo_cid :: string where
  "demo_cid = cid_from_data demo_lib [7]"

lemma single_component_plain: "plain_key k \<Longrightarrow> single_component k"
proof -
  assume k: "plain_key k"
  then have s: "split_on (CHR ''/'') k = [k]" by (simp add: plain_key_def split_on_absent)
  from k have "k \<noteq> []" "hd k \<noteq> CHR ''/''" "k \<noteq> ''.''" "k \<noteq> ''..''"
    by (auto simp: plain_key_def dest: list.set_sel(1))
  then have "path_components k = [NormalComp k]"
    using s by (simp add: path_components_def body_components_def)
  then show ?thesis by (simp add: single_component_def)
qed

lemma name_plain: "plain_key k \<Longrightarrow> name s k = Inr (k @ suffix s)"
  using single_component_plain [of k] by (auto simp: name_def plain_key_def list_ex_iff)

lemma canonical_cid_of_hash:
  assumes "lib_ok L" and "length h = 32"
  shows "canonical_cid L s (cid_from_blake3_hash L h) = Inr ()"
  using lib_ok_parse [OF assms] name_plain [OF lib_ok_plain [OF assms], of s] assms(2)
  by (simp add: canonical_cid_def cid_from_blake3_hash_def raw_cid_def RAW_CODEC_def BLAKE3_CODE_def)

text \<open>On a free key with no fault, \<open>put\<close> of bytes under their own CID succeeds.\<close>

lemma put_fresh_succeeds:
  assumes "lib_ok L" and "map_of (entries s) (cid_from_data L data @ suffix s) = None"
  shows "put L io_fine s (cid_from_data L data) data =
    (Inr (), mark_durable (cid_from_data L data @ suffix s) (published s (cid_from_data L data) data))"
proof -
  have can: "canonical_cid L s (cid_from_data L data) = Inr ()"
    unfolding cid_from_data_def using assms(1) by (intro canonical_cid_of_hash) auto
  then show ?thesis
    using assms(2) canonical_name [OF can]
    by (simp add: put_def publish_with_def link_and_sync_def verify_cid_def verify_file_def Let_def
        io_fine_def sync_directory_def published_def mark_durable_def cid_from_data_def)
qed

lemma demo_put: "put demo_lib io_fine empty_chunk_store demo_cid [7] =
    (Inr (), mark_durable (demo_cid @ ''.chunk'') (published empty_chunk_store demo_cid [7]))"
  using put_fresh_succeeds [OF demo_lib_ok, of empty_chunk_store "[7]"]
  by (simp add: demo_cid_def empty_chunk_store_def)

theorem put_publishes_witness:
  "\<exists>s' b. put demo_lib io_fine empty_chunk_store demo_cid [7] = (Inr (), s')
     \<and> lookup s' = (lookup empty_chunk_store)(demo_cid \<mapsto> b) \<and> cid_from_data demo_lib b = demo_cid
     \<and> get io_fine s' demo_cid = Inr b \<and> store_inv demo_lib s'"
  using put_publishes [OF exclusive_fine store_inv_empty demo_put] demo_put by blast

theorem put_failure_atomic_witness:
  "\<exists>s' e. put demo_lib (io_fine\<lparr>io_dir_sync := Some ''EIO''\<rparr>) empty_chunk_store demo_cid [8] = (Inl e, s')
     \<and> (s' = empty_chunk_store
        \<or> (e = unconfirmed (io_fine\<lparr>io_dir_sync := Some ''EIO''\<rparr>) demo_cid \<and> lookup empty_chunk_store demo_cid = None
           \<and> cid_from_data demo_lib [8] = demo_cid
           \<and> lookup s' = (lookup empty_chunk_store)(demo_cid \<mapsto> [8])))"
proof -
  let ?env = "io_fine\<lparr>io_dir_sync := Some ''EIO''\<rparr>"
  have can: "canonical_cid demo_lib empty_chunk_store demo_cid = Inr ()"
    unfolding demo_cid_def cid_from_data_def using demo_lib_ok by (intro canonical_cid_of_hash) auto
  have "cid_from_data demo_lib [8] \<noteq> demo_cid"
    by (simp add: demo_cid_def cid_from_data_def cid_from_blake3_hash_def demo_lib_def raw_cid_def)
  then have p: "put demo_lib ?env empty_chunk_store demo_cid [8] =
      (Inl (IntegrityMismatch demo_cid (cid_from_data demo_lib [8])), empty_chunk_store)"
    using can by (simp add: put_def verify_cid_def Let_def)
  have "exclusive ?env" by (simp add: exclusive_def io_fine_def)
  from put_failure_atomic [OF this p] p show ?thesis by blast
qed

theorem store_run_invariant_witness:
  "store_inv demo_lib (run_store demo_lib empty_chunk_store
     [OpPut io_fine demo_cid [7], OpDelete io_fine demo_cid])"
  using store_run_invariant [OF store_inv_empty,
      of "[OpPut io_fine demo_cid [7], OpDelete io_fine demo_cid]" demo_lib] by simp

theorem list_all_cids_exact_witness:
  "\<exists>ks. list_all_cids io_fine empty_chunk_store = Inr ks \<and> distinct ks
     \<and> set ks = {k. valid_name empty_chunk_store k \<and> lookup empty_chunk_store k \<noteq> None}"
  by (rule list_all_cids_exact [OF _ store_inv_empty]) (simp add: io_fine_def)

end
