(* ===== verification/Wire_Codec.thy ===== *)
theory Wire_Codec
  imports Snip_Prelude
begin

text \<open>
  The shard-transfer messages and the versioned, length-prefixed codec of
  \<open>sum-net/src/codec.rs\<close>. Bincode is a third-party crate: its encoders and decoders for the four
  message types are the fields of \<open>bincode_lib\<close>. A stream is the list of bytes still to be read;
  the asynchronous reads of the source either deliver all bytes asked for or fail with an
  unexpected end.
\<close>

section \<open>Messages\<close>

record shard_request =
  sr_cid :: string
  sr_offset :: "u64 option"
  sr_max_bytes :: "u64 option"
  sr_push_data :: "bytes option"

record shard_response =
  rs_cid :: string
  rs_offset :: u64
  rs_total_bytes :: u64
  rs_data :: bytes
  rs_error :: "string option"

datatype shard_request_v2 =
    Pull string u64 u64
  | Push bytes hash u32 "hash list"
  | ManifestPush hash bytes
  | ManifestPull hash

datatype shard_response_v2 =
    Data string u64 u64 bytes "string option"
  | PushAck hash u32 "string option"
  | ManifestPushAck hash "string option"
  | ManifestData hash bytes "string option"

datatype shard_request_versioned = ReqV1 shard_request | ReqV2 shard_request_v2

datatype shard_response_versioned = RespV1 shard_response | RespV2 shard_response_v2

datatype wire_error =
    UnexpectedEof
  | InvalidData string
  | Unsupported string
  | InvalidInput string

definition SHARD_XFER_PROTOCOL_V1 :: string where "SHARD_XFER_PROTOCOL_V1 = ''/sum/storage/v1''"
definition SHARD_XFER_PROTOCOL_V2 :: string where "SHARD_XFER_PROTOCOL_V2 = ''/sum/storage/v2''"

definition MAX_MSG_BYTES :: nat where "MAX_MSG_BYTES = 256 * 1024 * 1024"

record bincode_lib =
  enc_req1 :: "shard_request \<Rightarrow> string + bytes"
  dec_req1 :: "bytes \<Rightarrow> string + shard_request"
  enc_resp1 :: "shard_response \<Rightarrow> string + bytes"
  dec_resp1 :: "bytes \<Rightarrow> string + shard_response"
  enc_req2 :: "shard_request_v2 \<Rightarrow> string + bytes"
  dec_req2 :: "bytes \<Rightarrow> string + shard_request_v2"
  enc_resp2 :: "shard_response_v2 \<Rightarrow> string + bytes"
  dec_resp2 :: "bytes \<Rightarrow> string + shard_response_v2"

section \<open>Framing\<close>

definition read_exact :: "nat \<Rightarrow> bytes \<Rightarrow> wire_error + bytes \<times> bytes" where
  "read_exact n io = (if length io < n then Inl UnexpectedEof else Inr (take n io, drop n io))"

definition read_length_prefixed :: "nat \<Rightarrow> bytes \<Rightarrow> wire_error + bytes \<times> bytes" where
  "read_length_prefixed max_bytes io =
     (case read_exact 4 io of Inl e \<Rightarrow> Inl e
      | Inr (len_buf, io1) \<Rightarrow>
          (let len = be_to_nat len_buf in
           if len > max_bytes then Inl (InvalidData ''message too large'')
           else read_exact len io1))"

definition write_length_prefixed :: "bytes \<Rightarrow> wire_error + bytes" where
  "write_length_prefixed data =
     (if length data \<ge> 2 ^ 32 then Inl (InvalidData ''payload exceeds u32::MAX'')
      else Inr (be_bytes32 (u32_of (length data)) @ data))"

section \<open>The versioned codec\<close>

definition read_request ::
    "bincode_lib \<Rightarrow> nat \<Rightarrow> string \<Rightarrow> bytes \<Rightarrow> wire_error + shard_request_versioned \<times> bytes" where
  "read_request B max_msg_bytes protocol io =
     (case read_length_prefixed max_msg_bytes io of Inl e \<Rightarrow> Inl e
      | Inr (buf, rest) \<Rightarrow>
          if protocol = SHARD_XFER_PROTOCOL_V1 then
            (case dec_req1 B buf of Inl e \<Rightarrow> Inl (InvalidData e) | Inr req \<Rightarrow> Inr (ReqV1 req, rest))
          else if protocol = SHARD_XFER_PROTOCOL_V2 then
            (case dec_req2 B buf of Inl e \<Rightarrow> Inl (InvalidData e) | Inr req \<Rightarrow> Inr (ReqV2 req, rest))
          else Inl (Unsupported protocol))"

definition read_response ::
    "bincode_lib \<Rightarrow> nat \<Rightarrow> string \<Rightarrow> bytes \<Rightarrow> wire_error + shard_response_versioned \<times> bytes" where
  "read_response B max_msg_bytes protocol io =
     (case read_length_prefixed max_msg_bytes io of Inl e \<Rightarrow> Inl e
      | Inr (buf, rest) \<Rightarrow>
          if protocol = SHARD_XFER_PROTOCOL_V1 then
            (case dec_resp1 B buf of Inl e \<Rightarrow> Inl (InvalidData e) | Inr resp \<Rightarrow> Inr (RespV1 resp, rest))
          else if protocol = SHARD_XFER_PROTOCOL_V2 then
            (case dec_resp2 B buf of Inl e \<Rightarrow> Inl (InvalidData e) | Inr resp \<Rightarrow> Inr (RespV2 resp, rest))
          else Inl (Unsupported protocol))"

definition framed :: "string + bytes \<Rightarrow> wire_error + bytes" where
  "framed r = (case r of Inl e \<Rightarrow> Inl (InvalidData e) | Inr buf \<Rightarrow> write_length_prefixed buf)"

definition write_request ::
    "bincode_lib \<Rightarrow> string \<Rightarrow> shard_request_versioned \<Rightarrow> wire_error + bytes" where
  "write_request B protocol req =
     (case req of
        ReqV1 r \<Rightarrow> if protocol = SHARD_XFER_PROTOCOL_V1 then framed (enc_req1 B r)
                   else Inl (InvalidInput ''V1 request written to non-V1 stream'')
      | ReqV2 r \<Rightarrow> if protocol = SHARD_XFER_PROTOCOL_V2 then framed (enc_req2 B r)
                   else Inl (InvalidInput ''V2 request written to non-V2 stream''))"

definition write_response ::
    "bincode_lib \<Rightarrow> string \<Rightarrow> shard_response_versioned \<Rightarrow> wire_error + bytes" where
  "write_response B protocol resp =
     (case resp of
        RespV1 r \<Rightarrow> if protocol = SHARD_XFER_PROTOCOL_V1 then framed (enc_resp1 B r)
                    else Inl (InvalidInput ''V1 response written to non-V1 stream'')
      | RespV2 r \<Rightarrow> if protocol = SHARD_XFER_PROTOCOL_V2 then framed (enc_resp2 B r)
                    else Inl (InvalidInput ''V2 response written to non-V2 stream''))"

section \<open>Lemmas\<close>

lemma be_to_nat_be_bytes32 [roundtrip, simp]: "be_to_nat (be_bytes32 w) = unat w"
proof -
  let ?n = "unat w"
  have "?n < 2 ^ 32" using unat_less [of w] by simp
  have b: "unat (ucast (drop_bit k w) :: byte) = ?n div 2 ^ k mod 256" for k
    by (simp add: unsigned_ucast_eq take_bit_eq_mod unat_drop_bit_eq) (simp add: drop_bit_eq_div)
  have s: "256 * (m div 256) + m mod 256 = m" for m :: nat by simp
  have "?n div 2 ^ 24 mod 256 = ?n div 2 ^ 24" using \<open>?n < 2 ^ 32\<close> by simp
  moreover have "256 * (?n div 2 ^ 24) + ?n div 2 ^ 16 mod 256 = ?n div 2 ^ 16"
    using s [of "?n div 2 ^ 16"] by (simp add: div_mult2_eq [symmetric])
  moreover have "256 * (?n div 2 ^ 16) + ?n div 2 ^ 8 mod 256 = ?n div 2 ^ 8"
    using s [of "?n div 2 ^ 8"] by (simp add: div_mult2_eq [symmetric])
  ultimately show ?thesis
    using b [of 24] b [of 16] b [of 8] b [of 0] s [of ?n] by (simp add: be_bytes32_def)
qed

lemma read_write_framed:
  assumes "write_length_prefixed data = Inr out"
  shows "read_length_prefixed max_bytes (out @ rest) =
    (if length data \<le> max_bytes then Inr (data, rest) else Inl (InvalidData ''message too large''))"
proof -
  from assms have len: "length data < 2 ^ 32" and out: "out = be_bytes32 (u32_of (length data)) @ data"
    by (auto simp: write_length_prefixed_def split: if_splits)
  have "be_to_nat (be_bytes32 (u32_of (length data))) = length data"
    using len by (simp add: unat_u32_of del: be_to_nat.simps)
  then show ?thesis
    by (simp add: out read_length_prefixed_def read_exact_def del: be_to_nat.simps)
qed

lemma protocols_differ [simp]:
  "SHARD_XFER_PROTOCOL_V1 \<noteq> SHARD_XFER_PROTOCOL_V2" "SHARD_XFER_PROTOCOL_V2 \<noteq> SHARD_XFER_PROTOCOL_V1"
  by (simp_all add: SHARD_XFER_PROTOCOL_V1_def SHARD_XFER_PROTOCOL_V2_def)

text \<open>The documented behaviour of bincode: decoding inverts encoding.\<close>

definition bincode_ok :: "bincode_lib \<Rightarrow> bool" where
  "bincode_ok B \<longleftrightarrow>
     (\<forall>r b. enc_req1 B r = Inr b \<longrightarrow> dec_req1 B b = Inr r)
   \<and> (\<forall>r b. enc_req2 B r = Inr b \<longrightarrow> dec_req2 B b = Inr r)
   \<and> (\<forall>r b. enc_resp1 B r = Inr b \<longrightarrow> dec_resp1 B b = Inr r)
   \<and> (\<forall>r b. enc_resp2 B r = Inr b \<longrightarrow> dec_resp2 B b = Inr r)"

lemma framed_Inr: "framed r = Inr out \<Longrightarrow> \<exists>b. r = Inr b \<and> write_length_prefixed b = Inr out"
  by (auto simp: framed_def split: sum.splits)

lemma length_framed: "write_length_prefixed b = Inr out \<Longrightarrow> length out = 4 + length b"
  by (auto simp: write_length_prefixed_def split: if_splits)

section \<open>Properties\<close>

text \<open>
  Round trip of the versioned codec: a request or response that the writer accepts on a stream
  is read back unchanged on a stream of the same protocol, with the rest of the stream untouched, as
  long as the frame is within the reader's limit; over the limit the reader refuses the frame before
  it allocates the payload.
\<close>

theorem codec_roundtrip:
  assumes "bincode_ok B" and "write_request B protocol req = Inr out"
    and "write_response B protocol resp = Inr out2"
  shows "read_request B max_msg protocol (out @ rest) =
           (if length out \<le> 4 + max_msg then Inr (req, rest) else Inl (InvalidData ''message too large''))
       \<and> read_response B max_msg protocol (out2 @ rest) =
           (if length out2 \<le> 4 + max_msg then Inr (resp, rest) else Inl (InvalidData ''message too large''))"
proof
  show "read_request B max_msg protocol (out @ rest) =
      (if length out \<le> 4 + max_msg then Inr (req, rest) else Inl (InvalidData ''message too large''))"
    using assms(1,2)
    by (cases req) (auto simp: write_request_def read_request_def bincode_ok_def read_write_framed
        length_framed split: if_splits dest!: framed_Inr)
  show "read_response B max_msg protocol (out2 @ rest) =
      (if length out2 \<le> 4 + max_msg then Inr (resp, rest) else Inl (InvalidData ''message too large''))"
    using assms(1,3)
    by (cases resp) (auto simp: write_response_def read_response_def bincode_ok_def read_write_framed
        length_framed split: if_splits dest!: framed_Inr)
qed

text \<open>
  No cross-version confusion: the writer refuses a message on a stream of another protocol, and
  whatever a reader returns carries the version of the stream's protocol; an unknown protocol yields
  no message.
\<close>

theorem codec_no_version_confusion:
  "(write_request B protocol req = Inr out \<longrightarrow>
      protocol = (case req of ReqV1 _ \<Rightarrow> SHARD_XFER_PROTOCOL_V1 | ReqV2 _ \<Rightarrow> SHARD_XFER_PROTOCOL_V2))
 \<and> (read_request B max_msg protocol io = Inr (req', rest) \<longrightarrow>
      protocol = (case req' of ReqV1 _ \<Rightarrow> SHARD_XFER_PROTOCOL_V1 | ReqV2 _ \<Rightarrow> SHARD_XFER_PROTOCOL_V2))
 \<and> (write_response B protocol resp = Inr out2 \<longrightarrow>
      protocol = (case resp of RespV1 _ \<Rightarrow> SHARD_XFER_PROTOCOL_V1 | RespV2 _ \<Rightarrow> SHARD_XFER_PROTOCOL_V2))
 \<and> (read_response B max_msg protocol io = Inr (resp', rest) \<longrightarrow>
      protocol = (case resp' of RespV1 _ \<Rightarrow> SHARD_XFER_PROTOCOL_V1 | RespV2 _ \<Rightarrow> SHARD_XFER_PROTOCOL_V2))"
  by (auto simp: write_request_def read_request_def write_response_def read_response_def
      split: shard_request_versioned.splits shard_response_versioned.splits if_splits sum.splits prod.splits)

section \<open>Instances\<close>

text \<open>A concrete codec library that knows one message of each type.\<close>

definition demo_req1 :: shard_request where
  "demo_req1 = \<lparr>sr_cid = ''c'', sr_offset = None, sr_max_bytes = None, sr_push_data = None\<rparr>"

definition demo_resp1 :: shard_response where
  "demo_resp1 = \<lparr>rs_cid = ''c'', rs_offset = 0, rs_total_bytes = 1, rs_data = [9], rs_error = None\<rparr>"

definition demo_bincode :: bincode_lib where
  "demo_bincode =
     \<lparr>enc_req1 = (\<lambda>r. if r = demo_req1 then Inr [1] else Inl ''e''),
      dec_req1 = (\<lambda>b. if b = [1] then Inr demo_req1 else Inl ''e''),
      enc_resp1 = (\<lambda>r. if r = demo_resp1 then Inr [2, 3] else Inl ''e''),
      dec_resp1 = (\<lambda>b. if b = [2, 3] then Inr demo_resp1 else Inl ''e''),
      enc_req2 = (\<lambda>r. Inl ''e''), dec_req2 = (\<lambda>b. Inl ''e''),
      enc_resp2 = (\<lambda>r. Inl ''e''), dec_resp2 = (\<lambda>b. Inl ''e'')\<rparr>"

lemma demo_bincode_ok: "bincode_ok demo_bincode"
  by (simp add: bincode_ok_def demo_bincode_def)

theorem codec_roundtrip_witness:
  "\<exists>out out2. write_request demo_bincode SHARD_XFER_PROTOCOL_V1 (ReqV1 demo_req1) = Inr out
     \<and> write_response demo_bincode SHARD_XFER_PROTOCOL_V1 (RespV1 demo_resp1) = Inr out2
     \<and> read_request demo_bincode MAX_MSG_BYTES SHARD_XFER_PROTOCOL_V1 (out @ [5]) = Inr (ReqV1 demo_req1, [5])
     \<and> read_response demo_bincode MAX_MSG_BYTES SHARD_XFER_PROTOCOL_V1 (out2 @ [5]) = Inr (RespV1 demo_resp1, [5])"
proof -
  have w: "write_request demo_bincode SHARD_XFER_PROTOCOL_V1 (ReqV1 demo_req1) = Inr (be_bytes32 1 @ [1])"
    "write_response demo_bincode SHARD_XFER_PROTOCOL_V1 (RespV1 demo_resp1) = Inr (be_bytes32 2 @ [2, 3])"
    by (simp_all add: write_request_def write_response_def demo_bincode_def framed_def
        write_length_prefixed_def u32_of_def)
  from codec_roundtrip [OF demo_bincode_ok w, of MAX_MSG_BYTES "[5]"] w show ?thesis
    by (simp add: MAX_MSG_BYTES_def)
qed

theorem codec_no_version_confusion_witness:
  "\<exists>out. write_request demo_bincode SHARD_XFER_PROTOCOL_V1 (ReqV1 demo_req1) = Inr out
     \<and> SHARD_XFER_PROTOCOL_V1 = (case ReqV1 demo_req1 of ReqV1 _ \<Rightarrow> SHARD_XFER_PROTOCOL_V1
                                  | ReqV2 _ \<Rightarrow> SHARD_XFER_PROTOCOL_V2)"
proof -
  have w: "write_request demo_bincode SHARD_XFER_PROTOCOL_V1 (ReqV1 demo_req1) = Inr (be_bytes32 1 @ [1])"
    by (simp add: write_request_def demo_bincode_def framed_def write_length_prefixed_def u32_of_def)
  with codec_no_version_confusion [of demo_bincode SHARD_XFER_PROTOCOL_V1 "ReqV1 demo_req1"]
  show ?thesis by blast
qed

end
