(* ===== verification/Fetch.thy ===== *)
theory Fetch
  imports Publication Wire_Codec
begin

text \<open>
  The outbound fetch state machine of \<open>sum-store/src/fetch.rs\<close>: metadata validation, windowed
  reassembly, the integrity check and the hand-over to the chunk store. The network is the argument
  \<open>net\<close>: it says whether the next \<open>request_shard_chunk\<close> is accepted by the swarm. The requests an
  operation sends are part of its result.
\<close>

section \<open>State\<close>

type_synonym peer_id = string

record fetch_request =
  fq_peer :: peer_id
  fq_cid :: string
  fq_offset :: "u64 option"
  fq_max_bytes :: "u64 option"

type_synonym fetch_net = "fetch_request \<Rightarrow> string + unit"

definition MAX_CHUNK_BYTES :: u64 where "MAX_CHUNK_BYTES = 1048576"

record fetch_state =
  fs_peer_id :: peer_id
  fs_total_bytes :: "u64 option"
  fs_next_offset :: u64
  fs_buffer :: bytes
  fs_expected_size :: "u64 option"

record fetch_manager =
  fm_chunk_size :: u64
  fm_active :: "string \<Rightarrow> fetch_state option"

datatype fetch_outcome = InProgress | Complete string u64 | Failed string string

definition fetch_new :: "nat \<Rightarrow> fetch_manager" where
  "fetch_new max_chunk_msg_bytes = \<lparr>fm_chunk_size = u64_of max_chunk_msg_bytes, fm_active = Map.empty\<rparr>"

definition is_active :: "fetch_manager \<Rightarrow> string \<Rightarrow> bool" where
  "is_active m cid \<longleftrightarrow> fm_active m cid \<noteq> None"

definition active_remove :: "string \<Rightarrow> fetch_manager \<Rightarrow> fetch_manager" where
  "active_remove cid m = m\<lparr>fm_active := (fm_active m)(cid := None)\<rparr>"

definition active_insert :: "string \<Rightarrow> fetch_state \<Rightarrow> fetch_manager \<Rightarrow> fetch_manager" where
  "active_insert cid st m = m\<lparr>fm_active := (fm_active m)(cid \<mapsto> st)\<rparr>"

section \<open>Operations\<close>

definition start_fetch_with_expected_size ::
    "fetch_net \<Rightarrow> fetch_manager \<Rightarrow> peer_id \<Rightarrow> string \<Rightarrow> u64 option
       \<Rightarrow> (store_error + unit) \<times> fetch_manager \<times> fetch_request list" where
  "start_fetch_with_expected_size net m peer cid expected_size =
     (if is_active m cid then (Inl (Other (''fetch already in progress: '' @ cid)), m, [])
      else
        (let q = \<lparr>fq_peer = peer, fq_cid = cid, fq_offset = Some 0, fq_max_bytes = Some (fm_chunk_size m)\<rparr>
         in case net q of
              Inl e \<Rightarrow> (Inl (Other e), m, [q])
            | Inr _ \<Rightarrow> (Inr (), active_insert cid
                  \<lparr>fs_peer_id = peer, fs_total_bytes = None, fs_next_offset = 0, fs_buffer = [],
                   fs_expected_size = expected_size\<rparr> m, [q])))"

definition start_fetch ::
    "fetch_net \<Rightarrow> fetch_manager \<Rightarrow> peer_id \<Rightarrow> string
       \<Rightarrow> (store_error + unit) \<times> fetch_manager \<times> fetch_request list" where
  "start_fetch net m peer cid = start_fetch_with_expected_size net m peer cid None"

text \<open>The \<open>checked_add\<close> at the end refuses a wrapped position.\<close>

definition validate_response_metadata ::
    "shard_response \<Rightarrow> u64 \<Rightarrow> u64 option \<Rightarrow> u64 option \<Rightarrow> u64 \<Rightarrow> string + unit" where
  "validate_response_metadata r next_offset declared_total expected_size max_chunk_bytes =
     (let total = rs_total_bytes r;
          data_len = u64_of (length (rs_data r));
          num = (\<lambda>w::u64. dec_of_nat (unat w))
      in if total = 0 then Inl ''ShardResponse.total_bytes is zero''
         else if total > max_chunk_bytes then
           Inl (''ShardResponse.total_bytes = '' @ num total @ '' exceeds safety bound '' @ num max_chunk_bytes)
         else if (case expected_size of Some e \<Rightarrow> total \<noteq> e | None \<Rightarrow> False) then
           Inl (''ShardResponse.total_bytes = '' @ num total @ '' does not match expected size ''
                 @ num (the expected_size))
         else if (case declared_total of Some p \<Rightarrow> total \<noteq> p | None \<Rightarrow> False) then
           Inl (''ShardResponse.total_bytes = '' @ num total @ '' differs from previously declared ''
                 @ num (the declared_total))
         else if data_len > total then
           Inl (''ShardResponse.data.len() = '' @ num data_len @ '' exceeds total_bytes = '' @ num total)
         else if rs_offset r \<noteq> next_offset then
           Inl (''ShardResponse.offset = '' @ num (rs_offset r) @ '' does not match expected next offset ''
                 @ num next_offset)
         else (case checked_add next_offset data_len of
                 None \<Rightarrow> Inl ''ShardResponse.offset + data.len() overflows u64''
               | Some next_pos \<Rightarrow>
                   if next_pos > total then
                     Inl (''cumulative bytes '' @ num next_pos @ '' would exceed total_bytes = '' @ num total)
                   else Inr ()))"

text \<open>The last step of a fetch: the buffer must hash to the identifier before it is stored.\<close>

definition finish_fetch ::
    "digest_lib \<Rightarrow> io_env \<Rightarrow> pub_store \<Rightarrow> string \<Rightarrow> bytes \<Rightarrow> fetch_outcome \<times> pub_store" where
  "finish_fetch L env s cid buffer =
     (case verify_cid L buffer cid of
        Inl e \<Rightarrow> (Failed cid (''integrity check failed: '' @ display_error e), s)
      | Inr _ \<Rightarrow>
          (case put L env s cid buffer of
             (Inl e, s') \<Rightarrow> (Failed cid (''failed to write chunk: '' @ display_error e), s')
           | (Inr _, s') \<Rightarrow> (Complete cid (u64_of (length buffer)), s')))"

definition absorb_piece :: "fetch_state \<Rightarrow> shard_response \<Rightarrow> fetch_state" where
  "absorb_piece st r =
     st\<lparr>fs_total_bytes := (case fs_total_bytes st of None \<Rightarrow> Some (rs_total_bytes r) | Some t \<Rightarrow> Some t),
        fs_buffer := fs_buffer st @ rs_data r,
        fs_next_offset := rs_offset r + u64_of (length (rs_data r))\<rparr>"

definition fetch_bound :: "fetch_state \<Rightarrow> u64" where
  "fetch_bound st = (case fs_expected_size st of Some e \<Rightarrow> min e MAX_CHUNK_BYTES | None \<Rightarrow> MAX_CHUNK_BYTES)"

definition on_chunk_received ::
    "digest_lib \<Rightarrow> io_env \<Rightarrow> fetch_net \<Rightarrow> fetch_manager \<Rightarrow> pub_store \<Rightarrow> shard_response
       \<Rightarrow> fetch_outcome \<times> fetch_manager \<times> pub_store \<times> fetch_request list" where
  "on_chunk_received L env net m s r =
     (let cid = rs_cid r in
      case rs_error r of
        Some err \<Rightarrow> (Failed cid err, active_remove cid m, s, [])
      | None \<Rightarrow>
         (case fm_active m cid of
            None \<Rightarrow> (Failed cid ''no active fetch for this CID'', m, s, [])
          | Some st \<Rightarrow>
             (case validate_response_metadata r (fs_next_offset st) (fs_total_bytes st)
                     (fs_expected_size st) (fetch_bound st) of
                Inl msg \<Rightarrow> (Failed cid msg, active_remove cid m, s, [])
              | Inr _ \<Rightarrow>
                 (let st' = absorb_piece st r in
                  if fs_next_offset st' < the (fs_total_bytes st') then
                    (let q = \<lparr>fq_peer = fs_peer_id st', fq_cid = cid, fq_offset = Some (fs_next_offset st'),
                              fq_max_bytes = Some (fm_chunk_size m)\<rparr>
                     in case net q of
                          Inl e \<Rightarrow> (Failed cid (''failed to request next piece: '' @ e),
                                    active_remove cid m, s, [q])
                        | Inr _ \<Rightarrow> (InProgress, active_insert cid st' m, s, [q]))
                  else
                    (case finish_fetch L env s cid (fs_buffer st') of
                       (outcome, s') \<Rightarrow> (outcome, active_remove cid m, s', []))))))"

section \<open>Invariant\<close>

text \<open>A \<open>Vec\<close> never holds more than \<open>isize::MAX\<close> bytes, so \<open>len() as u64\<close> is exact.\<close>

definition vec_sized :: "bytes \<Rightarrow> bool" where
  "vec_sized xs \<longleftrightarrow> length xs < 2 ^ 63"

definition fetch_ok :: "fetch_state \<Rightarrow> bool" where
  "fetch_ok st \<longleftrightarrow> length (fs_buffer st) = unat (fs_next_offset st)
     \<and> (case fs_total_bytes st of None \<Rightarrow> fs_next_offset st = 0
        | Some t \<Rightarrow> fs_next_offset st < t \<and> t \<le> MAX_CHUNK_BYTES
                    \<and> (\<forall>e. fs_expected_size st = Some e \<longrightarrow> t = e))"

definition fetch_inv :: "fetch_manager \<Rightarrow> bool" where
  "fetch_inv m \<longleftrightarrow> (\<forall>cid st. fm_active m cid = Some st \<longrightarrow> fetch_ok st)"

lemma active_simps [simp]:
  "fm_chunk_size (active_remove cid m) = fm_chunk_size m"
  "fm_chunk_size (active_insert cid st m) = fm_chunk_size m"
  "fm_active (active_remove cid m) = (fm_active m)(cid := None)"
  "fm_active (active_insert cid st m) = (fm_active m)(cid \<mapsto> st)"
  by (simp_all add: active_remove_def active_insert_def)

lemma fetch_inv_update:
  assumes "fetch_inv m"
  shows "fetch_inv (active_remove cid m)" and "fetch_ok st \<Longrightarrow> fetch_inv (active_insert cid st m)"
  using assms by (auto simp: fetch_inv_def)

lemma MAX_CHUNK_BYTES_nat: "unat MAX_CHUNK_BYTES = 1048576"
  by (simp add: MAX_CHUNK_BYTES_def)

lemma unat_vec_len: "vec_sized xs \<Longrightarrow> unat (u64_of (length xs)) = length xs"
  by (simp add: vec_sized_def unat_u64_of)

lemma validate_accepts:
  assumes "validate_response_metadata r off declared expected bound = Inr ()"
    and "vec_sized (rs_data r)"
  shows "0 < rs_total_bytes r" "rs_total_bytes r \<le> bound" "rs_offset r = off"
    "unat off + length (rs_data r) \<le> unat (rs_total_bytes r)"
    "\<And>e. expected = Some e \<Longrightarrow> rs_total_bytes r = e"
    "\<And>t. declared = Some t \<Longrightarrow> rs_total_bytes r = t"
proof -
  note v = assms(1) [unfolded validate_response_metadata_def Let_def]
  have "\<exists>p. checked_add off (u64_of (length (rs_data r))) = Some p \<and> p \<le> rs_total_bytes r"
    using v by (auto split: if_splits option.splits)
  then show "unat off + length (rs_data r) \<le> unat (rs_total_bytes r)"
    using unat_vec_len [OF assms(2)] by (auto simp: checked_add_eq_Some_iff word_le_nat_alt unat_word_ariths)
  show "0 < rs_total_bytes r" using v by (auto simp: word_gt_0 split: if_splits)
  show "rs_total_bytes r \<le> bound" "rs_offset r = off" using v by (auto split: if_splits)
  show "\<And>e. expected = Some e \<Longrightarrow> rs_total_bytes r = e" using v by (auto split: if_splits)
  show "\<And>t. declared = Some t \<Longrightarrow> rs_total_bytes r = t" using v by (auto split: if_splits)
qed

lemma validate_complete:
  assumes "0 < rs_total_bytes r" "rs_total_bytes r \<le> bound" "rs_offset r = off"
    "unat off + length (rs_data r) \<le> unat (rs_total_bytes r)"
    "\<forall>e. expected = Some e \<longrightarrow> rs_total_bytes r = e" "\<forall>t. declared = Some t \<longrightarrow> rs_total_bytes r = t"
  shows "validate_response_metadata r off declared expected bound = Inr ()"
proof -
  let ?n = "u64_of (length (rs_data r))"
  have lt: "unat off + length (rs_data r) < 2 ^ 64"
    using assms(4) unat_less [of "rs_total_bytes r"] by simp
  then have n: "unat ?n = length (rs_data r)" by (simp add: unat_u64_of)
  have "checked_add off ?n = Some (off + ?n)" using lt n by (simp add: checked_add_def)
  moreover have "unat (off + ?n) = unat off + length (rs_data r)"
    using lt n by (simp add: unat_word_ariths)
  ultimately show ?thesis
    using assms n
    by (auto simp: validate_response_metadata_def Let_def word_gt_0 not_less word_le_nat_alt split: option.splits)
qed

text \<open>One accepted piece extends the buffer by the piece and keeps the bookkeeping exact.\<close>

lemma absorb_accepted:
  assumes "validate_response_metadata r (fs_next_offset st) (fs_total_bytes st) (fs_expected_size st)
      (fetch_bound st) = Inr ()" and "vec_sized (rs_data r)" and "fetch_ok st"
  shows "fs_total_bytes (absorb_piece st r) = Some (rs_total_bytes r)"
    "unat (fs_next_offset (absorb_piece st r)) = unat (fs_next_offset st) + length (rs_data r)"
    "length (fs_buffer (absorb_piece st r)) = unat (fs_next_offset (absorb_piece st r))"
    "fs_next_offset (absorb_piece st r) \<le> rs_total_bytes r" "rs_total_bytes r \<le> MAX_CHUNK_BYTES"
    "fs_next_offset (absorb_piece st r) < rs_total_bytes r \<Longrightarrow> fetch_ok (absorb_piece st r)"
proof -
  note v = validate_accepts [OF assms(1,2)]
  have lt: "unat (fs_next_offset st) + length (rs_data r) < 2 ^ 64"
    using v(4) unat_less [of "rs_total_bytes r"] by simp
  show t: "fs_total_bytes (absorb_piece st r) = Some (rs_total_bytes r)"
    using v(6) by (auto simp: absorb_piece_def split: option.splits)
  show n: "unat (fs_next_offset (absorb_piece st r)) = unat (fs_next_offset st) + length (rs_data r)"
    using lt v(3) unat_vec_len [OF assms(2)] by (simp add: absorb_piece_def unat_word_ariths)
  show b: "length (fs_buffer (absorb_piece st r)) = unat (fs_next_offset (absorb_piece st r))"
    using assms(3) unfolding n by (simp add: absorb_piece_def fetch_ok_def)
  show "fs_next_offset (absorb_piece st r) \<le> rs_total_bytes r"
    using v(4) n by (simp add: word_le_nat_alt)
  have "fetch_bound st \<le> MAX_CHUNK_BYTES" by (simp add: fetch_bound_def split: option.splits)
  with v(2) show m: "rs_total_bytes r \<le> MAX_CHUNK_BYTES" by simp
  have "fs_expected_size (absorb_piece st r) = fs_expected_size st" by (simp add: absorb_piece_def)
  then show "fs_next_offset (absorb_piece st r) < rs_total_bytes r \<Longrightarrow> fetch_ok (absorb_piece st r)"
    using t b m v(5) by (simp add: fetch_ok_def)
qed

text \<open>
  What one received piece can do: fail without touching the store, extend one buffer and ask for
  the next offset, or end the fetch by handing a buffer of the declared size to the store.
\<close>

lemma on_chunk_received_cases:
  assumes "on_chunk_received L env net m s r = (out, m', s', qs)"
    and "fetch_inv m" and "vec_sized (rs_data r)"
  obtains (fail) msg where "out = Failed (rs_cid r) msg" "s' = s" "m' = m \<or> m' = active_remove (rs_cid r) m"
      "fm_active m' (rs_cid r) = None"
  | (more) st where "rs_error r = None" "fm_active m (rs_cid r) = Some st" "out = InProgress" "s' = s"
      "fetch_ok (absorb_piece st r)"
      "m' = active_insert (rs_cid r) (absorb_piece st r) m"
      "unat (fs_next_offset (absorb_piece st r)) = unat (fs_next_offset st) + length (rs_data r)"
      "fs_total_bytes (absorb_piece st r) = Some (rs_total_bytes r)"
      "qs = [\<lparr>fq_peer = fs_peer_id st, fq_cid = rs_cid r,
              fq_offset = Some (fs_next_offset (absorb_piece st r)), fq_max_bytes = Some (fm_chunk_size m)\<rparr>]"
  | (finish) st where "rs_error r = None" "fm_active m (rs_cid r) = Some st"
      "finish_fetch L env s (rs_cid r) (fs_buffer st @ rs_data r) = (out, s')"
      "m' = active_remove (rs_cid r) m" "qs = []"
      "length (fs_buffer st @ rs_data r) = unat (rs_total_bytes r)" "rs_total_bytes r \<le> MAX_CHUNK_BYTES"
      "\<And>e. fs_expected_size st = Some e \<Longrightarrow> rs_total_bytes r = e"
proof (cases "rs_error r")
  case (Some err)
  then show thesis using assms(1) by (intro fail) (auto simp: on_chunk_received_def Let_def)
next
  case None
  show thesis
  proof (cases "fm_active m (rs_cid r)")
    case None
    then show thesis
      using assms(1) \<open>rs_error r = None\<close> by (intro fail) (auto simp: on_chunk_received_def Let_def)
  next
    case (Some st)
    note [simp] = \<open>rs_error r = None\<close> Some
    let ?v = "validate_response_metadata r (fs_next_offset st) (fs_total_bytes st) (fs_expected_size st)
                (fetch_bound st)"
    show thesis
    proof (cases ?v)
      case (Inl msg)
      then show thesis using assms(1) by (intro fail) (auto simp: on_chunk_received_def Let_def)
    next
      case (Inr u)
      then have v: "?v = Inr ()" by simp
      have ok: "fetch_ok st" using assms(2) Some unfolding fetch_inv_def by blast
      note a = absorb_accepted [OF v assms(3) ok]
      have peer: "fs_peer_id (absorb_piece st r) = fs_peer_id st" by (simp add: absorb_piece_def)
      have buf: "fs_buffer (absorb_piece st r) = fs_buffer st @ rs_data r" by (simp add: absorb_piece_def)
      show thesis
      proof (cases "fs_next_offset (absorb_piece st r) < rs_total_bytes r")
        case True
        then have "out = InProgress \<and> s' = s \<and> m' = active_insert (rs_cid r) (absorb_piece st r) m
            \<and> qs = [\<lparr>fq_peer = fs_peer_id st, fq_cid = rs_cid r,
              fq_offset = Some (fs_next_offset (absorb_piece st r)), fq_max_bytes = Some (fm_chunk_size m)\<rparr>]
          \<or> (\<exists>msg. out = Failed (rs_cid r) msg) \<and> s' = s \<and> m' = active_remove (rs_cid r) m"
          using assms(1) a(1) v by (auto simp: on_chunk_received_def Let_def peer split: sum.splits)
        then show thesis
        proof (elim disjE conjE exE)
          fix msg assume "out = Failed (rs_cid r) msg" "s' = s" "m' = active_remove (rs_cid r) m"
          then show thesis by (intro fail) auto
        qed (rule more [OF _ _ _ _ a(6) [OF True] _ a(2,1)]; simp)
      next
        case False
        have "fs_next_offset (absorb_piece st r) = rs_total_bytes r" using False a(4) by simp
        then have len: "length (fs_buffer st @ rs_data r) = unat (rs_total_bytes r)" using a(3) buf by simp
        have f: "finish_fetch L env s (rs_cid r) (fs_buffer st @ rs_data r) = (out, s') \<and>
            m' = active_remove (rs_cid r) m \<and> qs = []"
          using assms(1) a(1) v False by (auto simp: on_chunk_received_def Let_def buf split: prod.splits)
        show thesis
          by (rule finish [of st]) (use f len a(5) validate_accepts(5) [OF v assms(3)] in auto)
      qed
    qed
  qed
qed

lemma finish_fetch_store:
  assumes "finish_fetch L env s cid buf = (out, s')" and "exclusive env"
  shows "store_inv L s \<Longrightarrow> store_inv L s'"
    and "k \<noteq> cid \<Longrightarrow> lookup s' k = lookup s k"
    and "lookup s k = Some b \<Longrightarrow> lookup s' k = Some b"
    and "out = Complete c n \<Longrightarrow> c = cid \<and> n = u64_of (length buf) \<and> cid_from_data L buf = cid
           \<and> put L env s cid buf = (Inr (), s')"
    and "out \<noteq> InProgress"
proof -
  have s': "s' = s \<or> s' = snd (put L env s cid buf)"
    using assms(1) by (auto simp: finish_fetch_def split: sum.splits prod.splits)
  show "store_inv L s \<Longrightarrow> store_inv L s'" using s' cs.put_inv [OF assms(2)] by blast
  show "k \<noteq> cid \<Longrightarrow> lookup s' k = lookup s k" using s' cs.put_other [OF assms(2), of k cid L s buf] by auto
  show "lookup s k = Some b \<Longrightarrow> lookup s' k = Some b"
    using s' cs.put_pointwise [OF assms(2), of s k b L cid buf] by auto
  show "out = Complete c n \<Longrightarrow> c = cid \<and> n = u64_of (length buf) \<and> cid_from_data L buf = cid
           \<and> put L env s cid buf = (Inr (), s')"
    using assms(1) by (auto simp: finish_fetch_def verify_cid_def Let_def split: sum.splits prod.splits if_splits)
  show "out \<noteq> InProgress" using assms(1) by (auto simp: finish_fetch_def split: sum.splits prod.splits)
qed

section \<open>Runs of the fetch manager\<close>

datatype fetch_event =
    EvStart fetch_net peer_id string "u64 option"
  | EvReceive io_env fetch_net shard_response

fun fetch_step :: "digest_lib \<Rightarrow> fetch_manager \<times> pub_store \<Rightarrow> fetch_event \<Rightarrow> fetch_manager \<times> pub_store" where
  "fetch_step L (m, s) (EvStart net peer cid expected) =
     (fst (snd (start_fetch_with_expected_size net m peer cid expected)), s)"
| "fetch_step L (m, s) (EvReceive env net r) =
     (case on_chunk_received L env net m s r of (_, m', s', _) \<Rightarrow> (m', s'))"

definition run_fetch ::
    "digest_lib \<Rightarrow> fetch_manager \<times> pub_store \<Rightarrow> fetch_event list \<Rightarrow> fetch_manager \<times> pub_store" where
  "run_fetch L = foldl (fetch_step L)"

fun fetch_event_ok :: "fetch_event \<Rightarrow> bool" where
  "fetch_event_ok (EvStart _ _ _ _) = True"
| "fetch_event_ok (EvReceive env _ r) \<longleftrightarrow> exclusive env \<and> vec_sized (rs_data r)"

lemma start_fetch_inv:
  assumes "fetch_inv m"
  shows "fetch_inv (fst (snd (start_fetch_with_expected_size net m peer cid expected)))"
  using assms fetch_inv_update(2) [OF assms]
  by (simp add: start_fetch_with_expected_size_def Let_def fetch_ok_def split: sum.splits)

lemma on_chunk_received_keeps:
  assumes "on_chunk_received L env net m s r = (out, m', s', qs)"
    and "fetch_inv m" and "vec_sized (rs_data r)" and "exclusive env"
  shows "fetch_inv m'" and "store_inv L s \<Longrightarrow> store_inv L s'"
    and "\<And>k b. lookup s k = Some b \<Longrightarrow> lookup s' k = Some b"
    and "\<And>k. k \<noteq> rs_cid r \<Longrightarrow> fm_active m' k = fm_active m k \<and> lookup s' k = lookup s k"
proof -
  show "fetch_inv m'"
    by (rule on_chunk_received_cases [OF assms(1-3)]) (auto simp: fetch_inv_update assms(2))
  show "store_inv L s \<Longrightarrow> store_inv L s'"
    by (rule on_chunk_received_cases [OF assms(1-3)]) (auto intro: finish_fetch_store(1) [OF _ assms(4)])
  show "\<And>k b. lookup s k = Some b \<Longrightarrow> lookup s' k = Some b"
    by (rule on_chunk_received_cases [OF assms(1-3)]) (auto intro: finish_fetch_store(3) [OF _ assms(4)])
  show "\<And>k. k \<noteq> rs_cid r \<Longrightarrow> fm_active m' k = fm_active m k \<and> lookup s' k = lookup s k"
    by (rule on_chunk_received_cases [OF assms(1-3)]) (auto intro: finish_fetch_store(2) [OF _ assms(4)])
qed

lemma fetch_step_inv:
  assumes "fetch_step L (m, s) e = (m', s')" and "fetch_event_ok e" and "fetch_inv m" and "store_inv L s"
  shows "fetch_inv m' \<and> store_inv L s' \<and> (\<forall>k b. lookup s k = Some b \<longrightarrow> lookup s' k = Some b)"
proof (cases e)
  case (EvStart net peer cid expected)
  then show ?thesis using assms start_fetch_inv by auto
next
  case (EvReceive env net r)
  obtain out m1 s1 qs where o: "on_chunk_received L env net m s r = (out, m1, s1, qs)"
    by (cases "on_chunk_received L env net m s r") auto
  show ?thesis using on_chunk_received_keeps [OF o assms(3)] assms EvReceive o by auto
qed

text \<open>
  C34. Whatever peers send, in any interleaving of fetches and under any I/O faults: every active
  fetch holds exactly the bytes before its next offset, never more than one megabyte and never more
  than the total the peer declared (which equals the size from the manifest when that is known); the
  store keeps its invariant and every chunk it already had.
\<close>

theorem fetch_run_invariant:
  assumes "store_inv L s" and "\<forall>e \<in> set evs. fetch_event_ok e"
    and "run_fetch L (fetch_new n, s) evs = (m', s')"
  shows "store_inv L s' \<and> (\<forall>k b. lookup s k = Some b \<longrightarrow> lookup s' k = Some b)
       \<and> (\<forall>cid st. fm_active m' cid = Some st \<longrightarrow>
            length (fs_buffer st) = unat (fs_next_offset st) \<and> length (fs_buffer st) \<le> 1048576
            \<and> (\<forall>t. fs_total_bytes st = Some t \<longrightarrow> length (fs_buffer st) < unat t
                  \<and> (\<forall>e. fs_expected_size st = Some e \<longrightarrow> t = e)))"
proof -
  have "fetch_inv m' \<and> store_inv L s' \<and> (\<forall>k b. lookup s k = Some b \<longrightarrow> lookup s' k = Some b)"
    if "run_fetch L (m, s) evs = (m', s')" "fetch_inv m" "store_inv L s" "\<forall>e \<in> set evs. fetch_event_ok e"
    for m s using that
  proof (induction evs arbitrary: m s)
    case Nil
    then show ?case by (simp add: run_fetch_def)
  next
    case (Cons e evs)
    obtain m1 s1 where st: "fetch_step L (m, s) e = (m1, s1)" by fastforce
    have "run_fetch L (m1, s1) evs = (m', s')" using Cons.prems(1) st by (simp add: run_fetch_def)
    with Cons.IH [of m1 s1] fetch_step_inv [OF st _ Cons.prems(2,3)] Cons.prems(4) show ?case by auto
  qed
  from this [OF assms(3) _ assms(1,2)]
  have k: "fetch_inv m'" "store_inv L s'" "\<forall>k b. lookup s k = Some b \<longrightarrow> lookup s' k = Some b"
    by (auto simp: fetch_inv_def fetch_new_def)
  have "length (fs_buffer st) = unat (fs_next_offset st) \<and> length (fs_buffer st) \<le> 1048576
     \<and> (\<forall>t. fs_total_bytes st = Some t \<longrightarrow> length (fs_buffer st) < unat t
          \<and> (\<forall>e. fs_expected_size st = Some e \<longrightarrow> t = e))"
    if "fm_active m' cid = Some st" for cid st
  proof -
    have "fetch_ok st" using k(1) that by (simp add: fetch_inv_def)
    then show ?thesis using MAX_CHUNK_BYTES_nat
      by (cases "fs_total_bytes st") (auto simp: fetch_ok_def word_less_nat_alt word_le_nat_alt)
  qed
  with k show ?thesis by blast
qed

text \<open>
  A fetch reports completion only for verified content: the reassembled buffer has exactly the
  declared size and the identifier that was asked for, the store shows bytes with that identifier
  under it (the buffer itself if the key was free), nothing else in the store changes, and the
  fetch is no longer active.
\<close>

theorem fetch_complete_verified:
  assumes "on_chunk_received L env net m s r = (Complete c n, m', s', qs)"
    and "fetch_inv m" and "vec_sized (rs_data r)" and "exclusive env"
  shows "c = rs_cid r \<and> n = rs_total_bytes r \<and> fm_active m' c = None \<and> qs = []
       \<and> (\<exists>st b. fm_active m c = Some st \<and> cid_from_data L (fs_buffer st @ rs_data r) = c
            \<and> length (fs_buffer st @ rs_data r) = unat n
            \<and> lookup s' = (lookup s)(c \<mapsto> b) \<and> cid_from_data L b = c
            \<and> (lookup s c = None \<longrightarrow> b = fs_buffer st @ rs_data r))"
  using assms(1-3)
proof (cases rule: on_chunk_received_cases)
  case (finish st)
  note f = finish_fetch_store(4) [OF finish(3) assms(4) refl]
  have "n = u64_of (unat (rs_total_bytes r))" using f finish(6) by metis
  then have n: "n = rs_total_bytes r" by (simp add: u64_of_def)
  have p: "put L env s (rs_cid r) (fs_buffer st @ rs_data r) = (Inr (), s')" using f by blast
  obtain b where "lookup s' = (lookup s)(rs_cid r \<mapsto> b)" "cid_from_data L b = rs_cid r"
      "lookup s (rs_cid r) = None \<longrightarrow> b = fs_buffer st @ rs_data r"
    using cs.put_lookup [OF assms(4) p] by (elim exE conjE) (rule that)
  then show ?thesis using f n finish by auto
qed auto

text \<open>
  Progress: a piece that keeps a fetch open moves the next offset by exactly its length, asks
  for that offset from the peer of the fetch and leaves the store alone; so a piece without data
  leaves the fetch where it was, once the total is known.
\<close>

theorem fetch_progress:
  assumes "on_chunk_received L env net m s r = (InProgress, m', s', qs)"
    and "fetch_inv m" and "vec_sized (rs_data r)"
  shows "s' = s \<and> (\<exists>st st'. fm_active m (rs_cid r) = Some st \<and> m' = active_insert (rs_cid r) st' m
       \<and> unat (fs_next_offset st') = unat (fs_next_offset st) + length (rs_data r)
       \<and> fs_buffer st' = fs_buffer st @ rs_data r \<and> fs_next_offset st' < rs_total_bytes r
       \<and> qs = [\<lparr>fq_peer = fs_peer_id st, fq_cid = rs_cid r, fq_offset = Some (fs_next_offset st'),
                fq_max_bytes = Some (fm_chunk_size m)\<rparr>]
       \<and> (rs_data r = [] \<and> fs_total_bytes st \<noteq> None \<longrightarrow> st' = st))"
  using assms(1-3)
proof (cases rule: on_chunk_received_cases)
  case (more st)
  have "rs_data r = [] \<and> fs_total_bytes st \<noteq> None \<longrightarrow> absorb_piece st r = st"
  proof
    assume a: "rs_data r = [] \<and> fs_total_bytes st \<noteq> None"
    then have "fs_next_offset (absorb_piece st r) = fs_next_offset st" using more(7) by (simp add: word_unat_eq_iff)
    then show "absorb_piece st r = st" using a by (auto simp: absorb_piece_def split: option.splits)
  qed
  moreover have "fs_next_offset (absorb_piece st r) < rs_total_bytes r"
    using more(5,8) by (simp add: fetch_ok_def)
  moreover have "fs_buffer (absorb_piece st r) = fs_buffer st @ rs_data r" by (simp add: absorb_piece_def)
  ultimately show ?thesis using more by blast
next
  case (finish st)
  have "InProgress \<noteq> InProgress"
    using finish(3) by (auto simp: finish_fetch_def split: sum.splits prod.splits)
  then show ?thesis by simp
qed auto

section \<open>Concrete runs\<close>

definition demo_net :: fetch_net where
  "demo_net = (\<lambda>q. Inr ())"

definition demo_manager :: fetch_manager where
  "demo_manager = fst (snd (start_fetch demo_net (fetch_new 1) ''p'' demo_cid))"

definition demo_piece :: "u64 \<Rightarrow> bytes \<Rightarrow> shard_response" where
  "demo_piece t data = \<lparr>rs_cid = demo_cid, rs_offset = 0, rs_total_bytes = t, rs_data = data, rs_error = None\<rparr>"

lemma demo_manager_active:
  "fm_active demo_manager = [demo_cid \<mapsto> \<lparr>fs_peer_id = ''p'', fs_total_bytes = None, fs_next_offset = 0,
      fs_buffer = [], fs_expected_size = None\<rparr>]"
  "fm_chunk_size demo_manager = 1"
  by (simp_all add: demo_manager_def start_fetch_def start_fetch_with_expected_size_def fetch_new_def
      is_active_def demo_net_def u64_of_def)

lemma demo_manager_inv: "fetch_inv demo_manager"
  by (simp add: fetch_inv_def demo_manager_active fetch_ok_def)

lemma demo_first_piece:
  "validate_response_metadata (demo_piece 2 [7]) 0 None None MAX_CHUNK_BYTES = Inr ()"
  "validate_response_metadata (demo_piece 1 [7]) 0 None None MAX_CHUNK_BYTES = Inr ()"
  by (rule validate_complete; simp add: demo_piece_def MAX_CHUNK_BYTES_def word_less_nat_alt word_le_nat_alt)+

lemma demo_more:
  "\<exists>m' qs. on_chunk_received demo_lib io_fine demo_net demo_manager empty_chunk_store (demo_piece 2 [7])
     = (InProgress, m', empty_chunk_store, qs)"
  using demo_first_piece
  by (simp add: on_chunk_received_def demo_manager_active fetch_bound_def absorb_piece_def demo_net_def
      Let_def) (simp add: demo_piece_def demo_manager_active fetch_bound_def absorb_piece_def Let_def
      word_less_nat_alt u64_of_def)

lemma demo_done:
  "\<exists>m' s'. on_chunk_received demo_lib io_fine demo_net demo_manager empty_chunk_store (demo_piece 1 [7])
     = (Complete demo_cid 1, m', s', [])"
proof -
  have "finish_fetch demo_lib io_fine empty_chunk_store demo_cid [7] =
      (Complete demo_cid 1, mark_durable (demo_cid @ ''.chunk'') (published empty_chunk_store demo_cid [7]))"
    using demo_put by (simp add: finish_fetch_def verify_cid_def demo_cid_def [symmetric] u64_of_def Let_def)
  then show ?thesis
    using demo_first_piece
    by (simp add: on_chunk_received_def demo_piece_def demo_manager_active fetch_bound_def absorb_piece_def
        demo_net_def Let_def u64_of_def)
qed

theorem fetch_run_invariant_witness:
  "\<exists>m' s'. run_fetch demo_lib (fetch_new 1, empty_chunk_store)
      [EvStart demo_net ''p'' demo_cid None, EvReceive io_fine demo_net (demo_piece 2 [7])] = (m', s')
     \<and> store_inv demo_lib s'"
  using fetch_run_invariant [OF store_inv_empty, of "[EvStart demo_net ''p'' demo_cid None,
      EvReceive io_fine demo_net (demo_piece 2 [7])]" demo_lib 1] exclusive_fine
  by (cases "run_fetch demo_lib (fetch_new 1, empty_chunk_store)
      [EvStart demo_net ''p'' demo_cid None, EvReceive io_fine demo_net (demo_piece 2 [7])]")
    (simp add: vec_sized_def demo_piece_def)

theorem fetch_complete_verified_witness:
  "\<exists>m' s' b. on_chunk_received demo_lib io_fine demo_net demo_manager empty_chunk_store (demo_piece 1 [7])
       = (Complete demo_cid 1, m', s', []) \<and> fm_active m' demo_cid = None
     \<and> lookup s' = (lookup empty_chunk_store)(demo_cid \<mapsto> b) \<and> cid_from_data demo_lib b = demo_cid"
proof -
  obtain m' s' where d: "on_chunk_received demo_lib io_fine demo_net demo_manager empty_chunk_store
      (demo_piece 1 [7]) = (Complete demo_cid 1, m', s', [])" using demo_done by blast
  show ?thesis
    using fetch_complete_verified [OF d demo_manager_inv _ exclusive_fine] d
    by (auto simp: vec_sized_def demo_piece_def)
qed

theorem fetch_progress_witness:
  "\<exists>m' qs st'. on_chunk_received demo_lib io_fine demo_net demo_manager empty_chunk_store (demo_piece 2 [7])
       = (InProgress, m', empty_chunk_store, qs)
     \<and> m' = active_insert demo_cid st' demo_manager \<and> fs_buffer st' = [7]"
proof -
  obtain m' qs where d: "on_chunk_received demo_lib io_fine demo_net demo_manager empty_chunk_store
      (demo_piece 2 [7]) = (InProgress, m', empty_chunk_store, qs)" using demo_more by blast
  show ?thesis
    using fetch_progress [OF d demo_manager_inv] d
    by (auto simp: vec_sized_def demo_piece_def demo_manager_active)
qed

end
