(* ===== verification/Sidecar.thy ===== *)
theory Sidecar
  imports Merkle
begin

text \<open>
  The line-oriented sidecar files of \<open>sum-store/src/manifest_index.rs\<close>: line parsers and
  formatters, the torn-tail cut, and the record scan that drops conflicting indices. Texts are lists
  of ASCII characters; a file that is not valid UTF-8 is a read error of the index model.
\<close>

section \<open>Lines of an append-only file\<close>

text \<open>The loaders read only newline-terminated lines.\<close>

definition text_lines :: "string \<Rightarrow> string list" where
  "text_lines content = lines_of (complete_part content)"

definition unlines :: "string list \<Rightarrow> string" where
  "unlines ls = concat (map (\<lambda>l. l @ [newline]) ls)"

text \<open>\<open>cut_torn_tail\<close> scans the file backwards in blocks of 4096 bytes for the last line feed.\<close>

definition rposition :: "('a \<Rightarrow> bool) \<Rightarrow> 'a list \<Rightarrow> nat option" where
  "rposition P xs = (case dropWhile (\<lambda>x. \<not> P x) (rev xs) of [] \<Rightarrow> None | _ # ys \<Rightarrow> Some (length ys))"

function cut_scan :: "string \<Rightarrow> nat \<Rightarrow> nat" where
  "cut_scan content e =
     (if e = 0 then 0
      else (let start = e - 4096 in
            case rposition (\<lambda>c. c = newline) (take (e - start) (drop start content)) of
              Some i \<Rightarrow> start + i + 1
            | None \<Rightarrow> cut_scan content start))"
  by pat_completeness auto
termination by (relation "measure snd") auto

declare cut_scan.simps [simp del]

definition cut_torn_tail :: "string \<Rightarrow> string" where
  "cut_torn_tail content =
     (if content = [] \<or> last content = newline then content
      else take (cut_scan content (length content - 1)) content)"

section \<open>Line formats\<close>

definition decode_hex_root :: "string \<Rightarrow> hash option" where
  "decode_hex_root s = (if length s \<noteq> 64 then None else parse_hex_pairs s)"

definition parse_index :: "string \<Rightarrow> u32 option" where
  "parse_index s = (if s = [] \<or> \<not> list_all is_ascii_digit s then None else parse_u32 s)"

definition parse_v2_held_line :: "string \<Rightarrow> (u32 \<times> string) option" where
  "parse_v2_held_line line =
     (case split_on (CHR '' '') line of
        [index, cid] \<Rightarrow>
          if cid = [] \<or> list_ex is_ascii_ws cid then None
          else map_option (\<lambda>i. (i, cid)) (parse_index index)
      | _ \<Rightarrow> None)"

definition format_v2_held_line :: "u32 \<Rightarrow> string \<Rightarrow> string" where
  "format_v2_held_line chunk_index cid = dec_of_nat (unat chunk_index) @ '' '' @ cid"

record pushed_proof =
  pp_leaf :: hash
  pp_path :: "hash list"

definition MAX_PUSHED_PROOF_DEPTH :: nat where "MAX_PUSHED_PROOF_DEPTH = 32"

definition format_v2_proof_line :: "u32 \<Rightarrow> pushed_proof \<Rightarrow> string" where
  "format_v2_proof_line chunk_index p =
     dec_of_nat (unat chunk_index) @ '' '' @ hex_encode (pp_leaf p) @ '' '' @
     (if pp_path p = [] then ''-'' else join_with '','' (map hex_encode (pp_path p)))"

fun collect_options :: "'a option list \<Rightarrow> 'a list option" where
  "collect_options [] = Some []"
| "collect_options (None # xs) = None"
| "collect_options (Some x # xs) = map_option ((#) x) (collect_options xs)"

definition parse_v2_proof_line :: "string \<Rightarrow> (u32 \<times> pushed_proof) option" where
  "parse_v2_proof_line line =
     (case split_on (CHR '' '') line of
        [index, leaf, path] \<Rightarrow>
          (case parse_index index of None \<Rightarrow> None
           | Some i \<Rightarrow>
              (case decode_hex_root leaf of None \<Rightarrow> None
               | Some lf \<Rightarrow>
                  if path = ''-'' then Some (i, \<lparr>pp_leaf = lf, pp_path = []\<rparr>)
                  else (case collect_options (map decode_hex_root (split_on (CHR '','') path)) of
                          None \<Rightarrow> None
                        | Some nodes \<Rightarrow>
                            if length nodes > MAX_PUSHED_PROOF_DEPTH then None
                            else Some (i, \<lparr>pp_leaf = lf, pp_path = nodes\<rparr>))))
      | _ \<Rightarrow> None)"

text \<open>\<open>checked_shr(depth).unwrap_or(0)\<close>: a shift by the width or more gives 0.\<close>

definition checked_shr0 :: "u32 \<Rightarrow> nat \<Rightarrow> u32" where
  "checked_shr0 w n = (if n < 32 then drop_bit n w else 0)"

definition pushed_proof_verifies :: "(bytes \<Rightarrow> hash) \<Rightarrow> hash \<Rightarrow> u32 \<Rightarrow> pushed_proof \<Rightarrow> bool" where
  "pushed_proof_verifies H rt chunk_index p \<longleftrightarrow>
     length (pp_path p) \<le> MAX_PUSHED_PROOF_DEPTH
   \<and> checked_shr0 chunk_index (length (pp_path p)) = 0
   \<and> verify_merkle_proof_bytes H (pp_leaf p) chunk_index (pp_path p) rt"

definition parse_gc_protected_line :: "string \<Rightarrow> string option" where
  "parse_gc_protected_line line =
     (case split_on (CHR '' '') line of
        [kind, rt, cid] \<Rightarrow>
          if cid = [] then None
          else if (if kind = ''v2'' then length rt = 64 \<and> list_all is_ascii_hexdigit rt
                   else if kind = ''legacy'' then rt = ''-'' else False)
          then Some cid else None
      | _ \<Rightarrow> None)"

definition format_gc_v2_line :: "hash \<Rightarrow> string \<Rightarrow> string" where
  "format_gc_v2_line rt cid = ''v2 '' @ hex_encode rt @ '' '' @ cid"

definition format_gc_legacy_line :: "string \<Rightarrow> string" where
  "format_gc_legacy_line cid = ''legacy - '' @ cid"

section \<open>Record scan\<close>

text \<open>\<open>BTreeMap<u32, _>\<close> as an association list in key order.\<close>

fun bt_insert :: "u32 \<Rightarrow> 'r \<Rightarrow> (u32 \<times> 'r) list \<Rightarrow> (u32 \<times> 'r) list" where
  "bt_insert k v [] = [(k, v)]"
| "bt_insert k v ((k', v') # xs) =
     (if k < k' then (k, v) # (k', v') # xs
      else if k = k' then (k, v) # xs
      else (k', v') # bt_insert k v xs)"

definition bt_remove :: "u32 \<Rightarrow> (u32 \<times> 'r) list \<Rightarrow> (u32 \<times> 'r) list" where
  "bt_remove k xs = filter (\<lambda>(k', _). k' \<noteq> k) xs"

record 'r scan_state =
  sc_records :: "(u32 \<times> 'r) list"
  sc_conflicted :: "u32 list"
  sc_skipped :: nat

text \<open>The loop body shared by \<open>load_v2_held_lines\<close> and \<open>load_v2_proof_lines\<close>.\<close>

definition scan_line :: "(string \<Rightarrow> (u32 \<times> 'r) option) \<Rightarrow> 'r scan_state \<Rightarrow> string \<Rightarrow> 'r scan_state" where
  "scan_line parse st line =
     (case parse line of
        None \<Rightarrow> st\<lparr>sc_skipped := sc_skipped st + 1\<rparr>
      | Some (index, v) \<Rightarrow>
          if index \<in> set (sc_conflicted st) then st
          else (case map_of (sc_records st) index of
                  Some existing \<Rightarrow>
                    if existing \<noteq> v then
                      st\<lparr>sc_records := bt_remove index (sc_records st),
                         sc_conflicted := List.insert index (sc_conflicted st)\<rparr>
                    else st
                | None \<Rightarrow> st\<lparr>sc_records := bt_insert index v (sc_records st)\<rparr>))"

definition scan_lines :: "(string \<Rightarrow> (u32 \<times> 'r) option) \<Rightarrow> string list \<Rightarrow> 'r scan_state" where
  "scan_lines parse ls = foldl (scan_line parse) \<lparr>sc_records = [], sc_conflicted = [], sc_skipped = 0\<rparr> ls"

text \<open>Whether the loader rewrites the file: a torn tail, an unusable line or a conflict.\<close>

definition scan_dirty :: "string \<Rightarrow> 'r scan_state \<Rightarrow> bool" where
  "scan_dirty content st \<longleftrightarrow>
     length (complete_part content) \<noteq> length content \<or> sc_skipped st > 0 \<or> sc_conflicted st \<noteq> []"

definition scan_content :: "(string \<Rightarrow> (u32 \<times> 'r) option) \<Rightarrow> string \<Rightarrow> 'r scan_state" where
  "scan_content parse content = scan_lines parse (text_lines content)"

text \<open>The proof loader also skips a line whose path does not lead to the root.\<close>

definition parse_verified_proof_line ::
    "(bytes \<Rightarrow> hash) \<Rightarrow> hash \<Rightarrow> string \<Rightarrow> (u32 \<times> pushed_proof) option" where
  "parse_verified_proof_line H rt line =
     (case parse_v2_proof_line line of None \<Rightarrow> None
      | Some (index, p) \<Rightarrow> if pushed_proof_verifies H rt index p then Some (index, p) else None)"

section \<open>Lemmas on lines\<close>

lemma split_on_no_sep: "l \<in> set (split_on c s) \<Longrightarrow> c \<notin> set l"
  by (induction s arbitrary: l) (auto split: if_splits list.splits)

lemma split_on_decompose:
  "s = concat (map (\<lambda>l. l @ [c]) (butlast (split_on c s))) @ last (split_on c s)"
  by (induction s) (auto split: list.splits if_splits)

lemma complete_part_split: "complete_part s = unlines (butlast (split_on newline s))"
proof -
  have "newline \<notin> set (last (split_on newline s))"
    by (rule split_on_no_sep [of _ _ s]) simp
  then show ?thesis
    using complete_part_lines [of "last (split_on newline s)" "butlast (split_on newline s)"]
    by (metis split_on_decompose unlines_def)
qed

lemma text_lines_split: "text_lines s = map strip_cr (butlast (split_on newline s))"
proof -
  have "\<forall>l \<in> set (butlast (split_on newline s)). newline \<notin> set l"
    using split_on_no_sep by (meson in_set_butlastD)
  from split_on_lines [OF this, of "[]"] show ?thesis
    by (simp add: text_lines_def lines_of_def complete_part_split unlines_def)
qed

lemma text_lines_append:
  assumes "newline \<notin> set l" and "newline \<notin> set t"
  shows "text_lines (complete_part s @ l @ newline # t) = text_lines s @ [strip_cr l]"
    and "text_lines (complete_part s @ t) = text_lines s"
proof -
  let ?ls = "butlast (split_on newline s)"
  have ls: "\<forall>l \<in> set ?ls. newline \<notin> set l" using split_on_no_sep by (meson in_set_butlastD)
  have "split_on newline (unlines (?ls @ [l]) @ t) = (?ls @ [l]) @ [t]"
    unfolding unlines_def using ls assms by (intro split_on_lines) auto
  then show "text_lines (complete_part s @ l @ newline # t) = text_lines s @ [strip_cr l]"
    by (simp add: text_lines_split complete_part_split unlines_def butlast_append)
  have "split_on newline (unlines ?ls @ t) = ?ls @ [t]"
    unfolding unlines_def using ls assms by (intro split_on_lines) auto
  then show "text_lines (complete_part s @ t) = text_lines s"
    by (simp add: text_lines_split complete_part_split unlines_def)
qed

lemma text_lines_unlines [roundtrip]:
  "\<forall>l \<in> set ls. plain_line l \<Longrightarrow> text_lines (unlines ls) = ls"
  using complete_part_lines [of "[]" ls] lines_of_lines [of ls] by (simp add: text_lines_def unlines_def)

lemma complete_part_append:
  "complete_part (a @ b) = (if newline \<in> set b then a @ complete_part b else complete_part a)"
proof (cases "newline \<in> set b")
  case True
  then have "dropWhile (\<lambda>c. c \<noteq> newline) (rev b @ rev a) = dropWhile (\<lambda>c. c \<noteq> newline) (rev b) @ rev a"
    by (intro dropWhile_append1) auto
  with True show ?thesis by (simp add: complete_part_def)
next
  case False
  then have "dropWhile (\<lambda>c. c \<noteq> newline) (rev b @ rev a) = dropWhile (\<lambda>c. c \<noteq> newline) (rev a)"
    by (intro dropWhile_append2) auto
  with False show ?thesis by (simp add: complete_part_def)
qed

lemma complete_part_absent: "newline \<notin> set a \<Longrightarrow> complete_part a = []"
  by (simp add: complete_part_def dropWhile_eq_Nil_conv) blast

lemma complete_part_prefix: "take (length (complete_part s)) s = complete_part s"
  using split_on_decompose [of s newline] unfolding complete_part_split unlines_def
  by (metis append_eq_conv_conj)

lemma complete_part_full: "s = [] \<or> last s = newline \<Longrightarrow> complete_part s = s"
  by (cases s rule: rev_cases) (auto simp: complete_part_def)

lemma rposition_newline:
  "rposition (\<lambda>c. c = newline) b =
     (if newline \<in> set b then Some (length (complete_part b) - 1) else None)"
proof (cases "newline \<in> set b")
  case True
  then have "dropWhile (\<lambda>x. x \<noteq> newline) (rev b) \<noteq> []" by (auto simp: dropWhile_eq_Nil_conv)
  with True show ?thesis by (auto simp: rposition_def complete_part_def split: list.splits)
next
  case False
  then have "dropWhile (\<lambda>x. x \<noteq> newline) (rev b) = []" by (auto simp: dropWhile_eq_Nil_conv)
  with False show ?thesis unfolding rposition_def by (simp only: list.case if_False)
qed

lemma complete_part_nonempty: "newline \<in> set b \<Longrightarrow> 0 < length (complete_part b)"
  by (auto simp: complete_part_def dropWhile_eq_Nil_conv)

lemma cut_scan_correct: "e \<le> length s \<Longrightarrow> cut_scan s e = length (complete_part (take e s))"
proof (induction s e rule: cut_scan.induct)
  case (1 s e)
  let ?start = "e - 4096"
  let ?b = "take (e - ?start) (drop ?start s)"
  have t: "take e s = take ?start s @ ?b"
    by (metis diff_le_self le_add_diff_inverse2 add.commute take_add)
  have len: "length (take ?start s) = ?start" using 1(2) by simp
  show ?case
  proof (cases "e = 0")
    case True
    then show ?thesis by (simp add: cut_scan.simps complete_part_def)
  next
    case False
    show ?thesis
    proof (cases "newline \<in> set ?b")
      case True
      then have "cut_scan s e = ?start + (length (complete_part ?b) - 1) + 1"
        using False by (subst cut_scan.simps) (simp add: rposition_newline Let_def)
      then show ?thesis
        using True len complete_part_nonempty [OF True] unfolding t complete_part_append by simp
    next
      case nl: False
      then have "cut_scan s e = cut_scan s ?start"
        using False by (subst cut_scan.simps) (simp add: rposition_newline Let_def)
      also have "\<dots> = length (complete_part (take ?start s))"
        using 1(1) [OF False refl, of] 1(2) nl by (simp add: rposition_newline)
      finally show ?thesis using nl unfolding t complete_part_append by simp
    qed
  qed
qed

lemma cut_torn_tail_eq: "cut_torn_tail s = complete_part s"
proof (cases "s = [] \<or> last s = newline")
  case True
  then show ?thesis using complete_part_full [OF True] by (auto simp: cut_torn_tail_def)
next
  case False
  then obtain a c where s: "s = a @ [c]" "c \<noteq> newline" by (cases s rule: rev_cases) auto
  then have "complete_part s = complete_part a" by (simp add: complete_part_append)
  moreover have "cut_scan s (length s - 1) = length (complete_part a)"
    using cut_scan_correct [of "length s - 1" s] s by simp
  ultimately show ?thesis using False complete_part_prefix [of s] by (simp add: cut_torn_tail_def)
qed

section \<open>What a scan keeps\<close>

lemma map_of_bt_insert [simp]: "map_of (bt_insert k v xs) = (map_of xs)(k \<mapsto> v)"
  by (induction k v xs rule: bt_insert.induct) (auto simp: fun_eq_iff)

lemma map_of_bt_remove [simp]: "map_of (bt_remove k xs) = (map_of xs)(k := None)"
  by (induction xs) (auto simp: bt_remove_def fun_eq_iff)

definition parsed :: "(string \<Rightarrow> (u32 \<times> 'r) option) \<Rightarrow> string list \<Rightarrow> (u32 \<times> 'r) set" where
  "parsed parse ls = {rec. \<exists>l \<in> set ls. parse l = Some rec}"

definition agreed :: "(u32 \<times> 'r) set \<Rightarrow> u32 \<Rightarrow> 'r \<Rightarrow> bool" where
  "agreed R i v \<longleftrightarrow> (i, v) \<in> R \<and> (\<forall>v'. (i, v') \<in> R \<longrightarrow> v' = v)"

lemma parsed_simps [simp]:
  "parsed parse [] = {}"
  "parsed parse (ls @ [l]) = parsed parse ls \<union> set_option (parse l)"
  by (auto simp: parsed_def)

lemma scan_line_spec:
  assumes "\<forall>i v. map_of (sc_records st) i = Some v \<longleftrightarrow> agreed R i v"
    and "\<forall>i. i \<in> set (sc_conflicted st) \<longleftrightarrow> (\<exists>v v'. (i, v) \<in> R \<and> (i, v') \<in> R \<and> v \<noteq> v')"
    and st': "st' = scan_line parse st l" and R': "R' = R \<union> set_option (parse l)"
  shows "(\<forall>i v. map_of (sc_records st') i = Some v \<longleftrightarrow> agreed R' i v)
    \<and> (\<forall>i. i \<in> set (sc_conflicted st') \<longleftrightarrow> (\<exists>v v'. (i, v) \<in> R' \<and> (i, v') \<in> R' \<and> v \<noteq> v'))"
proof (cases "parse l")
  case None
  then show ?thesis using assms by (simp add: scan_line_def)
next
  case (Some p)
  obtain j w where p: "p = (j, w)" by (cases p)
  have R: "R' = insert (j, w) R" using R' Some p by auto
  have keep: "agreed R' i v \<longleftrightarrow> agreed R i v" if "i \<noteq> j" for i v
    using that by (auto simp: agreed_def R)
  consider (conf) "j \<in> set (sc_conflicted st)"
    | (clash) x where "j \<notin> set (sc_conflicted st)" "map_of (sc_records st) j = Some x" "x \<noteq> w"
    | (same) "j \<notin> set (sc_conflicted st)" "map_of (sc_records st) j = Some w"
    | (new) "j \<notin> set (sc_conflicted st)" "map_of (sc_records st) j = None"
    by (cases "map_of (sc_records st) j") auto
  then show ?thesis
  proof cases
    case conf
    then have s: "st' = st" using st' Some p by (simp add: scan_line_def)
    obtain v v' where "(j, v) \<in> R" "(j, v') \<in> R" "v \<noteq> v'" using conf assms(2) by blast
    then have "\<not> agreed R' j x" "\<not> agreed R j x" for x by (auto simp: agreed_def R)
    then have "map_of (sc_records st') i = Some v \<longleftrightarrow> agreed R' i v" for i v
      using keep assms(1) s by (cases "i = j") auto
    moreover have "i \<in> set (sc_conflicted st') \<longleftrightarrow> (\<exists>v v'. (i, v) \<in> R' \<and> (i, v') \<in> R' \<and> v \<noteq> v')" for i
      using conf assms(2) s unfolding R by (cases "i = j") auto
    ultimately show ?thesis by blast
  next
    case (clash x)
    then have s: "sc_records st' = bt_remove j (sc_records st)"
        "set (sc_conflicted st') = insert j (set (sc_conflicted st))"
      using st' Some p by (auto simp: scan_line_def)
    have x: "(j, x) \<in> R" using clash assms(1) by (auto simp: agreed_def)
    have "\<not> agreed R' j y" for y using x clash(3) by (auto simp: agreed_def R)
    then have "map_of (sc_records st') i = Some v \<longleftrightarrow> agreed R' i v" for i v
      using keep assms(1) s(1) by (cases "i = j") auto
    moreover have "i \<in> set (sc_conflicted st') \<longleftrightarrow> (\<exists>v v'. (i, v) \<in> R' \<and> (i, v') \<in> R' \<and> v \<noteq> v')" for i
      using x clash(3) assms(2) s(2) unfolding R by (cases "i = j") auto
    ultimately show ?thesis by blast
  next
    case same
    then have s: "st' = st" using st' Some p by (simp add: scan_line_def)
    have "R' = R" using same assms(1) unfolding R by (auto simp: agreed_def)
    then show ?thesis using assms(1,2) s by simp
  next
    case new
    then have s: "sc_records st' = bt_insert j w (sc_records st)" "sc_conflicted st' = sc_conflicted st"
      using st' Some p by (auto simp: scan_line_def)
    have none: "(j, y) \<notin> R" for y
    proof
      assume a: "(j, y) \<in> R"
      then have "agreed R j y" using new(1) assms(2) unfolding agreed_def by blast
      then show False using new(2) assms(1) by force
    qed
    then have "agreed R' j y \<longleftrightarrow> y = w" for y by (auto simp: agreed_def R)
    then have "map_of (sc_records st') i = Some v \<longleftrightarrow> agreed R' i v" for i v
      using keep assms(1) s(1) by (cases "i = j") auto
    moreover have "i \<in> set (sc_conflicted st') \<longleftrightarrow> (\<exists>v v'. (i, v) \<in> R' \<and> (i, v') \<in> R' \<and> v \<noteq> v')" for i
      using none assms(2) s(2) unfolding R by (cases "i = j") auto
    ultimately show ?thesis by blast
  qed
qed

lemma scan_lines_spec:
  "(\<forall>i v. map_of (sc_records (scan_lines parse ls)) i = Some v \<longleftrightarrow> agreed (parsed parse ls) i v)
   \<and> (\<forall>i. i \<in> set (sc_conflicted (scan_lines parse ls)) \<longleftrightarrow>
        (\<exists>v v'. (i, v) \<in> parsed parse ls \<and> (i, v') \<in> parsed parse ls \<and> v \<noteq> v'))"
proof (induction ls rule: rev_induct)
  case Nil
  show ?case by (simp add: scan_lines_def agreed_def)
next
  case (snoc l ls)
  from snoc.IH show ?case
    by (intro scan_line_spec [where st = "scan_lines parse ls" and R = "parsed parse ls"])
      (auto simp: scan_lines_def)
qed

lemmas scan_records = scan_lines_spec [THEN conjunct1, rule_format]

lemma scan_content_records:
  "map_of (sc_records (scan_content parse content)) i = Some v
     \<longleftrightarrow> agreed (parsed parse (text_lines content)) i v"
  by (simp add: scan_content_def scan_records)

section \<open>Line codecs\<close>

text \<open>A record format: every good record is written as one plain line that parses back to it.\<close>

locale line_codec =
  fixes fmt :: "u32 \<Rightarrow> 'r \<Rightarrow> string"
    and parse :: "string \<Rightarrow> (u32 \<times> 'r) option"
    and good :: "u32 \<Rightarrow> 'r \<Rightarrow> bool"
  assumes parse_fmt: "good i v \<Longrightarrow> parse (fmt i v) = Some (i, v)"
    and fmt_plain: "good i v \<Longrightarrow> plain_line (fmt i v)"
begin

lemma parsed_append:
  assumes "good i v" and "newline \<notin> set t"
  shows "parsed parse (text_lines (complete_part c @ fmt i v @ newline # t)) =
    insert (i, v) (parsed parse (text_lines c))"
proof -
  have "newline \<notin> set (fmt i v)" using fmt_plain [OF assms(1)] by (simp add: plain_line_def)
  from text_lines_append(1) [OF this assms(2)] show ?thesis
    by (simp add: strip_cr_plain [OF fmt_plain [OF assms(1)]] parse_fmt [OF assms(1)])
qed

text \<open>A write that stopped inside the line leaves a fragment that the next load ignores.\<close>

lemma parsed_torn:
  assumes "good i v" and "k \<le> length (fmt i v)"
  shows "parsed parse (text_lines (complete_part c @ take k (fmt i v @ [newline]))) = parsed parse (text_lines c)"
proof -
  have "newline \<notin> set (take k (fmt i v))"
    using fmt_plain [OF assms(1)] in_set_takeD by (fastforce simp: plain_line_def)
  from text_lines_append(2) [of "[]", OF _ this] show ?thesis using assms(2) by simp
qed

lemma parsed_unlines:
  assumes "\<forall>(i, v) \<in> set recs. good i v"
  shows "parsed parse (text_lines (unlines (map (\<lambda>(i, v). fmt i v) recs))) = set recs"
proof -
  have "\<forall>l \<in> set (map (\<lambda>(i, v). fmt i v) recs). plain_line l" using assms fmt_plain by auto
  note t = text_lines_unlines [OF this]
  have f: "parse (fmt i v) = Some (i, v)" if "(i, v) \<in> set recs" for i v
    using assms parse_fmt that by blast
  show ?thesis unfolding t
  proof
    show "parsed parse (map (\<lambda>(i, v). fmt i v) recs) \<subseteq> set recs" by (auto simp: parsed_def f)
    show "set recs \<subseteq> parsed parse (map (\<lambda>(i, v). fmt i v) recs)" by (force simp: parsed_def f)
  qed
qed

text \<open>Rewriting a file with the usable records keeps what a load of it finds.\<close>

lemma rewrite_scan:
  assumes "\<forall>(i, v) \<in> set recs. good i v" and "distinct (map fst recs)"
  shows "map_of (sc_records (scan_content parse (unlines (map (\<lambda>(i, v). fmt i v) recs)))) = map_of recs"
proof
  fix i
  have "map_of (sc_records (scan_content parse (unlines (map (\<lambda>(i, v). fmt i v) recs)))) i = Some v
      \<longleftrightarrow> map_of recs i = Some v" for v
    unfolding scan_content_records parsed_unlines [OF assms(1)] agreed_def
    using map_of_eq_Some_iff [OF assms(2)] by (metis option.inject)
  then show "map_of (sc_records (scan_content parse (unlines (map (\<lambda>(i, v). fmt i v) recs)))) i = map_of recs i"
    by (metis not_None_eq)
qed

end

subsection \<open>The two record formats\<close>

definition cid_text :: "string \<Rightarrow> bool" where
  "cid_text cid \<longleftrightarrow> cid \<noteq> [] \<and> list_all (\<lambda>c. \<not> is_ascii_ws c) cid"

lemma cid_text_avoids: "cid_text cid \<Longrightarrow> is_ascii_ws c \<Longrightarrow> c \<notin> set cid"
  by (auto simp: cid_text_def list_all_iff)

lemma space_ws [simp]:
  "is_ascii_ws (CHR '' '')" "is_ascii_ws newline" "is_ascii_ws (CHR 0x0D)"
  by (simp_all add: is_ascii_ws_def newline_def)

lemma dec_avoids_ws: "is_ascii_ws c \<Longrightarrow> c \<notin> set (dec_of_nat n)"
  by (rule dec_of_nat_avoids) (auto simp: is_ascii_ws_def is_ascii_digit_def)

lemma hex_avoids_ws: "is_ascii_ws c \<Longrightarrow> c \<notin> set (hex_encode bs)"
  by (rule hex_encode_avoids) (auto simp: is_ascii_ws_def)

lemma parse_index_dec [roundtrip, simp]: "parse_index (dec_of_nat (unat w)) = Some w"
  by (simp add: parse_index_def dec_of_nat_digits)

lemma decode_hex_encode [roundtrip]: "length h = 32 \<Longrightarrow> decode_hex_root (hex_encode h) = Some h"
  by (simp add: decode_hex_root_def)

lemma decode_hex_root_length: "decode_hex_root s = Some h \<Longrightarrow> length h = 32"
  using parse_hex_pairs_length [of s h] by (auto simp: decode_hex_root_def split: if_splits)

lemma split_two: "c \<notin> set a \<Longrightarrow> c \<notin> set b \<Longrightarrow> split_on c (a @ c # b) = [a, b]"
  by (simp add: split_on_sep split_on_absent)

lemma parse_v2_held_format [roundtrip]:
  assumes "cid_text cid"
  shows "parse_v2_held_line (format_v2_held_line i cid) = Some (i, cid)"
proof -
  have "split_on (CHR '' '') (format_v2_held_line i cid) = [dec_of_nat (unat i), cid]"
    using split_two [of "CHR '' ''" "dec_of_nat (unat i)" cid] assms
    by (simp add: format_v2_held_line_def dec_avoids_ws cid_text_avoids)
  then show ?thesis
    using assms by (auto simp: parse_v2_held_line_def cid_text_def list_ex_iff list_all_iff)
qed

interpretation held: line_codec format_v2_held_line parse_v2_held_line "\<lambda>i. cid_text"
proof
  fix i :: u32 and cid
  assume c: "cid_text cid"
  show "parse_v2_held_line (format_v2_held_line i cid) = Some (i, cid)" by (rule parse_v2_held_format [OF c])
  show "plain_line (format_v2_held_line i cid)"
    using cid_text_avoids [OF c] dec_avoids_ws
    by (auto simp: plain_line_def format_v2_held_line_def newline_def is_ascii_ws_def)
qed

definition proof_shape :: "pushed_proof \<Rightarrow> bool" where
  "proof_shape p \<longleftrightarrow> length (pp_leaf p) = 32 \<and> (\<forall>h \<in> set (pp_path p). length h = 32)
     \<and> length (pp_path p) \<le> MAX_PUSHED_PROOF_DEPTH"

lemma collect_decode: "\<forall>h \<in> set hs. length h = 32 \<Longrightarrow>
    collect_options (map decode_hex_root (map hex_encode hs)) = Some hs"
  by (induction hs) (auto simp: decode_hex_encode)

lemma set_join: "set (join_with [c] xs) \<subseteq> insert c (\<Union> (set ` set xs))"
  by (induction "[c]" xs rule: join_with.induct) auto

lemma length_join: "length x \<le> length (join_with sep (x # xs))"
  by (cases xs) auto

lemma proof_path_text:
  assumes "proof_shape p" and "pp_path p \<noteq> []"
  defines "t \<equiv> join_with '','' (map hex_encode (pp_path p))"
  shows "split_on (CHR '','') t = map hex_encode (pp_path p)" "t \<noteq> ''-''"
    "is_ascii_ws c \<Longrightarrow> c \<notin> set t"
proof -
  show "split_on (CHR '','') t = map hex_encode (pp_path p)"
    unfolding t_def using assms(2) by (intro join_split) (auto simp: hex_encode_avoids)
  obtain h hs where p: "pp_path p = h # hs" using assms(2) by (cases "pp_path p") auto
  have "64 \<le> length t"
    using length_join [of "hex_encode h" "'',''" "map hex_encode hs"] assms(1)
    by (simp add: t_def p proof_shape_def)
  then show "t \<noteq> ''-''" by auto
  show "is_ascii_ws c \<Longrightarrow> c \<notin> set t"
    using set_join [of "CHR '',''" "map hex_encode (pp_path p)"] hex_avoids_ws
    by (auto simp: t_def is_ascii_ws_def)
qed

lemma proof_line_split:
  assumes "proof_shape p"
  defines "t \<equiv> (if pp_path p = [] then ''-'' else join_with '','' (map hex_encode (pp_path p)))"
  shows "split_on (CHR '' '') (format_v2_proof_line i p) = [dec_of_nat (unat i), hex_encode (pp_leaf p), t]"
    and "plain_line (format_v2_proof_line i p)"
proof -
  have t: "is_ascii_ws c \<Longrightarrow> c \<notin> set t" for c
    using proof_path_text(3) [OF assms(1)] by (auto simp: t_def is_ascii_ws_def)
  have f: "format_v2_proof_line i p = dec_of_nat (unat i) @ CHR '' '' # hex_encode (pp_leaf p) @ CHR '' '' # t"
    by (simp add: format_v2_proof_line_def t_def)
  show "split_on (CHR '' '') (format_v2_proof_line i p) = [dec_of_nat (unat i), hex_encode (pp_leaf p), t]"
    unfolding f by (simp add: split_on_sep split_on_absent dec_avoids_ws hex_avoids_ws t)
  show "plain_line (format_v2_proof_line i p)"
    using t dec_avoids_ws hex_avoids_ws unfolding f plain_line_def newline_def
    by (auto simp: is_ascii_ws_def)
qed

lemma parse_v2_proof_format [roundtrip]:
  assumes "proof_shape p"
  shows "parse_v2_proof_line (format_v2_proof_line i p) = Some (i, p)"
proof -
  note s = proof_line_split(1) [OF assms, of i]
  have leaf: "decode_hex_root (hex_encode (pp_leaf p)) = Some (pp_leaf p)"
    using assms by (simp add: proof_shape_def decode_hex_encode)
  show ?thesis
  proof (cases "pp_path p = []")
    case True
    then show ?thesis by (simp add: parse_v2_proof_line_def s leaf)
  next
    case False
    note t = proof_path_text [OF assms False]
    have "collect_options (map decode_hex_root (map hex_encode (pp_path p))) = Some (pp_path p)"
      using assms by (intro collect_decode) (simp add: proof_shape_def)
    then show ?thesis
      using False t assms by (simp add: parse_v2_proof_line_def s leaf proof_shape_def)
  qed
qed

interpretation proofs: line_codec format_v2_proof_line "parse_verified_proof_line H rt"
    "\<lambda>i p. proof_shape p \<and> pushed_proof_verifies H rt i p" for H rt
  by unfold_locales (simp_all add: parse_verified_proof_line_def parse_v2_proof_format proof_line_split)

section \<open>Properties\<close>

text \<open>
  \<open>cut_torn_tail\<close>, which scans backwards in 4096-byte blocks, keeps exactly the complete lines
  of the file: what it removes has no line feed, what it keeps is empty or ends in one, and the
  loaders read the same lines before and after.
\<close>

theorem cut_torn_tail_exact:
  "\<exists>tail. content = cut_torn_tail content @ tail \<and> newline \<notin> set tail
     \<and> (cut_torn_tail content = [] \<or> last (cut_torn_tail content) = newline)
     \<and> text_lines (cut_torn_tail content) = text_lines content"
proof (intro exI conjI)
  let ?t = "last (split_on newline content)"
  have cp: "cut_torn_tail content = unlines (butlast (split_on newline content))"
    by (simp add: cut_torn_tail_eq complete_part_split)
  show "content = cut_torn_tail content @ ?t"
    unfolding cp unlines_def by (rule split_on_decompose)
  show "newline \<notin> set ?t" by (rule split_on_no_sep [of _ _ content]) simp
  show "cut_torn_tail content = [] \<or> last (cut_torn_tail content) = newline"
    unfolding cp unlines_def by (cases "butlast (split_on newline content)" rule: rev_cases) auto
  show "text_lines (cut_torn_tail content) = text_lines content"
    using text_lines_append(2) [of "[]" "[]" content] by (simp add: cut_torn_tail_eq)
qed

text \<open>
  Both sidecar formats are read back as written: a held record whose CID has no white space and a
  push proof of 32-byte hashes within the depth limit parse to themselves, and the lines written for
  them contain no line feed or carriage return.
\<close>

theorem sidecar_lines_roundtrip:
  "(cid_text cid \<longrightarrow> parse_v2_held_line (format_v2_held_line i cid) = Some (i, cid)
      \<and> plain_line (format_v2_held_line i cid))
   \<and> (proof_shape p \<longrightarrow> parse_v2_proof_line (format_v2_proof_line i p) = Some (i, p)
      \<and> plain_line (format_v2_proof_line i p))"
  using held.parse_fmt held.fmt_plain parse_v2_proof_format proof_line_split(2) by blast

text \<open>
  What a reload keeps of an arbitrary held-record file, torn or hand-edited: an index is recorded
  under a CID exactly when some complete line says so and no other complete line disagrees.
\<close>

theorem held_scan_keeps_agreed:
  "map_of (sc_records (scan_content parse_v2_held_line content)) i = Some cid \<longleftrightarrow>
     (\<exists>l \<in> set (text_lines content). parse_v2_held_line l = Some (i, cid))
   \<and> (\<forall>l \<in> set (text_lines content). \<forall>cid'. parse_v2_held_line l = Some (i, cid') \<longrightarrow> cid' = cid)"
  unfolding scan_content_records agreed_def parsed_def by blast

theorem sidecar_lines_roundtrip_witness:
  "parse_v2_held_line (format_v2_held_line 3 ''abc'') = Some (3, ''abc'')
   \<and> parse_v2_proof_line (format_v2_proof_line 1 \<lparr>pp_leaf = replicate 32 7, pp_path = [replicate 32 9]\<rparr>) =
       Some (1, \<lparr>pp_leaf = replicate 32 7, pp_path = [replicate 32 9]\<rparr>)"
proof -
  have "cid_text ''abc''" by (simp add: cid_text_def is_ascii_ws_def)
  moreover have "proof_shape \<lparr>pp_leaf = replicate 32 7, pp_path = [replicate 32 9]\<rparr>"
    by (simp add: proof_shape_def MAX_PUSHED_PROOF_DEPTH_def)
  ultimately show ?thesis
    using sidecar_lines_roundtrip [of "''abc''" 3 "\<lparr>pp_leaf = replicate 32 7, pp_path = [replicate 32 9]\<rparr>"]
      sidecar_lines_roundtrip [of "''abc''" 1 "\<lparr>pp_leaf = replicate 32 7, pp_path = [replicate 32 9]\<rparr>"]
    by blast
qed

theorem held_scan_keeps_agreed_witness:
  "map_of (sc_records (scan_content parse_v2_held_line
     (unlines [format_v2_held_line 3 ''abc'', format_v2_held_line 4 ''x'', format_v2_held_line 4 ''y'']))) 3
     = Some ''abc''
   \<and> map_of (sc_records (scan_content parse_v2_held_line
     (unlines [format_v2_held_line 3 ''abc'', format_v2_held_line 4 ''x'', format_v2_held_line 4 ''y'']))) 4
     \<noteq> Some ''x''"
proof -
  let ?ls = "[format_v2_held_line 3 ''abc'', format_v2_held_line 4 ''x'', format_v2_held_line 4 ''y'']"
  have c: "cid_text ''abc''" "cid_text ''x''" "cid_text ''y''"
    by (simp_all add: cid_text_def is_ascii_ws_def)
  have "text_lines (unlines ?ls) = ?ls"
    by (rule text_lines_unlines) (use c held.fmt_plain in auto)
  then show ?thesis
    using held_scan_keeps_agreed [of "unlines ?ls" 3 "''abc''"] held_scan_keeps_agreed [of "unlines ?ls" 4 "''x''"]
      c held.parse_fmt by auto
qed

end
