(* ===== verification/Manifest_Index.thy ===== *)
theory Manifest_Index
  imports Sidecar Storage_Types "HOL-Library.AList"
begin

text \<open>
  The manifest index of \<open>sum-store/src/manifest_index.rs\<close> and the manifest files of
  \<open>sum-store/src/manifest.rs\<close>. The state of an operation is the in-memory index together with the
  \<open>manifests/\<close> directory, an association list from file names to contents in directory order.
  \<open>mi_env\<close> holds one slot per I/O call that can fail; a failing write stores a prefix. CBOR is a
  third-party crate: \<open>cbor_ser\<close> and \<open>cbor_de\<close> are parameters.
\<close>

section \<open>State\<close>

record cbor_lib =
  cbor_ser :: "data_manifest \<Rightarrow> string + bytes"
  cbor_de :: "bytes \<Rightarrow> string + data_manifest"

record manifest_index =
  mi_by_root :: "hash \<Rightarrow> data_manifest option"
  mi_cid_to_root :: "string \<Rightarrow> hash option"
  mi_private_bytes :: "hash \<Rightarrow> bytes option"
  mi_private_cid_to_root :: "string \<Rightarrow> hash option"
  mi_gc_protected :: "string set"
  mi_v2_held :: "hash \<Rightarrow> (u32 \<times> string) list option"
  mi_v2_proofs :: "hash \<Rightarrow> (u32 \<times> pushed_proof) list option"
  mi_durable_sidecars :: "string set"
  mi_read_only :: bool
  mi_gc_intact :: "bool option"

type_synonym mdir = "(string \<times> string) list"

record store_dir =
  sd_exists :: bool  \<comment> \<open>\<open>manifests/\<close> is a directory\<close>
  sd_files :: mdir
  sd_legacy :: "string option"  \<comment> \<open>\<open>manifest.cbor\<close> beside it\<close>

record mi_env =
  me_create_dir :: "string option"
  me_read_dir :: "string option"
  me_read :: "string \<Rightarrow> string option"  \<comment> \<open>unreadable, or not UTF-8 where text is read\<close>
  me_open :: "string option"
  me_cut :: "string option"
  me_write :: "(nat \<times> string) option"  \<comment> \<open>bytes written before the failure\<close>
  me_sync :: "string option"
  me_rename :: "string option"
  me_sync_dir :: "string option"
  me_truncate :: "string option"
  me_marker :: "(bool \<times> string) option"  \<comment> \<open>whether the file was created before the failure\<close>

definition me_fine :: mi_env where
  "me_fine = \<lparr>me_create_dir = None, me_read_dir = None, me_read = (\<lambda>_. None), me_open = None, me_cut = None,
     me_write = None, me_sync = None, me_rename = None, me_sync_dir = None, me_truncate = None,
     me_marker = None\<rparr>"

definition text_of_bytes :: "bytes \<Rightarrow> string" where
  "text_of_bytes = map (\<lambda>b. char_of (unat b))"

definition bytes_of_text :: "string \<Rightarrow> bytes" where
  "bytes_of_text = map (\<lambda>c. word_of_nat (of_char c))"

section \<open>Files\<close>

definition file_ext :: "string \<Rightarrow> string option" where
  "file_ext n = (case rposition (\<lambda>c. c = CHR ''.'') n of
     None \<Rightarrow> None | Some i \<Rightarrow> if i = 0 then None else Some (drop (i + 1) n))"

definition file_stem :: "string \<Rightarrow> string" where
  "file_stem n = (case rposition (\<lambda>c. c = CHR ''.'') n of
     None \<Rightarrow> n | Some i \<Rightarrow> if i = 0 then n else take i n)"

definition GC_PROTECTED_FILE :: string where "GC_PROTECTED_FILE = ''gc_protected.list''"
definition GC_PROTECTED_MARKER :: string where "GC_PROTECTED_MARKER = ''gc_protected.initialized''"

definition io_result :: "string option \<Rightarrow> store_error + unit" where
  "io_result f = (case f of None \<Rightarrow> Inr () | Some msg \<Rightarrow> Inl (Io msg))"

text \<open>\<open>std::fs::write\<close>: create or truncate, then write everything.\<close>

definition fs_write :: "mi_env \<Rightarrow> mdir \<Rightarrow> string \<Rightarrow> string \<Rightarrow> (store_error + unit) \<times> mdir" where
  "fs_write env d n content =
     (case me_open env of Some msg \<Rightarrow> (Inl (Io msg), d)
      | None \<Rightarrow>
         (case me_write env of
            Some (k, msg) \<Rightarrow> (Inl (Io msg), AList.update n (take k content) d)
          | None \<Rightarrow> (Inr (), AList.update n content d)))"

text \<open>Temp file, fsync, rename, directory fsync.\<close>

definition atomic_rewrite :: "mi_env \<Rightarrow> mdir \<Rightarrow> string \<Rightarrow> string \<Rightarrow> (store_error + unit) \<times> mdir" where
  "atomic_rewrite env d n content =
     (let tmp = n @ ''.tmp'' in
      case fs_write env d tmp content of (Inl e, d1) \<Rightarrow> (Inl e, d1)
      | (Inr _, d1) \<Rightarrow>
         (case me_sync env of Some msg \<Rightarrow> (Inl (Io msg), d1)
          | None \<Rightarrow>
             (case me_rename env of Some msg \<Rightarrow> (Inl (Io msg), d1)
              | None \<Rightarrow> (io_result (me_sync_dir env), AList.update n content (AList.delete tmp d1)))))"

definition ensure_writable :: "manifest_index \<Rightarrow> store_error + unit" where
  "ensure_writable idx =
     (if mi_read_only idx then Inl (Other ''manifest index opened read-only; refusing to write'') else Inr ())"

text \<open>
  \<open>append_sidecar_line\<close>: the file is created if needed, its directory entry is synced on the first
  append of this process, a torn tail is cut, and only then is the line written and synced.
\<close>

definition append_sidecar_line ::
    "mi_env \<Rightarrow> manifest_index \<Rightarrow> mdir \<Rightarrow> string \<Rightarrow> string \<Rightarrow> (store_error + unit) \<times> manifest_index \<times> mdir" where
  "append_sidecar_line env idx d n line =
     (case ensure_writable idx of Inl e \<Rightarrow> (Inl e, idx, d)
      | Inr _ \<Rightarrow>
         (case me_open env of Some msg \<Rightarrow> (Inl (Io msg), idx, d)
          | None \<Rightarrow>
             (let old = (case map_of d n of None \<Rightarrow> [] | Some c \<Rightarrow> c);
                  d1 = AList.update n old d in
              case (if n \<in> mi_durable_sidecars idx then None else me_sync_dir env) of
                Some msg \<Rightarrow> (Inl (Io msg), idx, d1)
              | None \<Rightarrow>
                 (let idx1 = idx\<lparr>mi_durable_sidecars := insert n (mi_durable_sidecars idx)\<rparr> in
                  case me_cut env of Some msg \<Rightarrow> (Inl (Io msg), idx1, d1)
                  | None \<Rightarrow>
                     (let kept = cut_torn_tail old in
                      case me_write env of
                        Some (k, msg) \<Rightarrow> (Inl (Io msg), idx1, AList.update n (kept @ take k line) d1)
                      | None \<Rightarrow> (io_result (me_sync env), idx1, AList.update n (kept @ line) d1))))))"

definition held_file :: "hash \<Rightarrow> string" where "held_file rt = hex_encode rt @ ''.v2_held''"
definition proofs_file :: "hash \<Rightarrow> string" where "proofs_file rt = hex_encode rt @ ''.v2_proofs''"
definition private_chunks_file :: "hash \<Rightarrow> string" where "private_chunks_file rt = hex_encode rt @ ''.private_chunks''"

section \<open>Manifests\<close>

definition write_manifest ::
    "cbor_lib \<Rightarrow> mi_env \<Rightarrow> manifest_index \<Rightarrow> mdir \<Rightarrow> data_manifest \<Rightarrow> (store_error + unit) \<times> mdir" where
  "write_manifest B env idx d m =
     (case ensure_writable idx of Inl e \<Rightarrow> (Inl e, d)
      | Inr _ \<Rightarrow>
         (case cbor_ser B m of Inl e \<Rightarrow> (Inl (Other (''CBOR serialization: '' @ e)), d)
          | Inr buf \<Rightarrow> fs_write env d (hex_encode (merkle_root m) @ ''.cbor'') (text_of_bytes buf)))"

definition read_manifest :: "cbor_lib \<Rightarrow> string option \<Rightarrow> string \<Rightarrow> store_error + data_manifest" where
  "read_manifest B fault content =
     (case fault of Some msg \<Rightarrow> Inl (Io msg)
      | None \<Rightarrow> (case cbor_de B (bytes_of_text content) of
                   Inl e \<Rightarrow> Inl (Other (''CBOR deserialization: '' @ e)) | Inr m \<Rightarrow> Inr m))"

definition add_to_maps :: "manifest_index \<Rightarrow> data_manifest \<Rightarrow> manifest_index" where
  "add_to_maps idx m =
     (let rt = merkle_root m in
      idx\<lparr>mi_cid_to_root := foldl (\<lambda>f c. f(cd_cid c \<mapsto> rt)) (mi_cid_to_root idx) (chunks m),
          mi_by_root := (mi_by_root idx)(rt \<mapsto> m)\<rparr>)"

definition mi_insert ::
    "cbor_lib \<Rightarrow> mi_env \<Rightarrow> manifest_index \<Rightarrow> mdir \<Rightarrow> data_manifest \<Rightarrow> (store_error + unit) \<times> manifest_index \<times> mdir" where
  "mi_insert B env idx d m =
     (case write_manifest B env idx d m of
        (Inl e, d') \<Rightarrow> (Inl e, idx, d')
      | (Inr _, d') \<Rightarrow> (Inr (), add_to_maps idx m, d'))"

definition get_by_merkle_root :: "manifest_index \<Rightarrow> hash \<Rightarrow> data_manifest option" where
  "get_by_merkle_root idx rt = mi_by_root idx rt"

definition get_private_bytes :: "manifest_index \<Rightarrow> hash \<Rightarrow> bytes option" where
  "get_private_bytes idx rt = mi_private_bytes idx rt"

datatype accept_outcome = Indexed data_manifest | AlreadyPresent data_manifest

definition commit_validated ::
    "cbor_lib \<Rightarrow> mi_env \<Rightarrow> manifest_index \<Rightarrow> mdir \<Rightarrow> data_manifest
       \<Rightarrow> (string + accept_outcome) \<times> manifest_index \<times> mdir" where
  "commit_validated B env idx d m =
     (if get_by_merkle_root idx (merkle_root m) \<noteq> None then (Inr (AlreadyPresent m), idx, d)
      else (case mi_insert B env idx d m of
              (Inl e, idx', d') \<Rightarrow> (Inl (''manifest index insert failed: '' @ display_error e), idx', d')
            | (Inr _, idx', d') \<Rightarrow> (Inr (Indexed m), idx', d')))"

definition insert_private ::
    "mi_env \<Rightarrow> manifest_index \<Rightarrow> mdir \<Rightarrow> hash \<Rightarrow> bytes \<Rightarrow> (store_error + unit) \<times> manifest_index \<times> mdir" where
  "insert_private env idx d rt bytes =
     (case ensure_writable idx of Inl e \<Rightarrow> (Inl e, idx, d)
      | Inr _ \<Rightarrow>
         (case fs_write env d (hex_encode rt @ ''.opaque'') (text_of_bytes bytes) of
            (Inl e, d') \<Rightarrow> (Inl e, idx, d')
          | (Inr _, d') \<Rightarrow> (Inr (), idx\<lparr>mi_private_bytes := (mi_private_bytes idx)(rt \<mapsto> bytes)\<rparr>, d')))"

definition chunk_cid :: "manifest_index \<Rightarrow> hash \<Rightarrow> u32 \<Rightarrow> string option" where
  "chunk_cid idx rt i =
     (case mi_by_root idx rt of None \<Rightarrow> None
      | Some m \<Rightarrow> if unat i < length (chunks m) then Some (cd_cid (chunks m ! unat i)) else None)"

definition merkle_root_for_cid :: "manifest_index \<Rightarrow> string \<Rightarrow> hash option" where
  "merkle_root_for_cid idx cid =
     (case mi_cid_to_root idx cid of Some rt \<Rightarrow> Some rt | None \<Rightarrow> mi_private_cid_to_root idx cid)"

definition is_private_chunk_cid :: "manifest_index \<Rightarrow> string \<Rightarrow> bool" where
  "is_private_chunk_cid idx cid \<longleftrightarrow> mi_private_cid_to_root idx cid \<noteq> None"

section \<open>Durable records\<close>

definition record_private_chunk_cid ::
    "mi_env \<Rightarrow> manifest_index \<Rightarrow> mdir \<Rightarrow> hash \<Rightarrow> string \<Rightarrow> (store_error + unit) \<times> manifest_index \<times> mdir" where
  "record_private_chunk_cid env idx d rt cid =
     (case mi_private_cid_to_root idx cid of
        Some existing \<Rightarrow>
          if existing = rt then (Inr (), idx, d)
          else (Inl (Other (''cid '' @ cid @ '' already mapped to root 0x'' @ hex_encode existing
                  @ '' '' @ [CHR 0xE2, CHR 0x80, CHR 0x94] @ '' refusing rebind to 0x'' @ hex_encode rt)), idx, d)
      | None \<Rightarrow>
         (case append_sidecar_line env idx d (private_chunks_file rt) (cid @ [newline]) of
            (Inl e, idx', d') \<Rightarrow> (Inl e, idx', d')
          | (Inr _, idx', d') \<Rightarrow>
              (Inr (), idx'\<lparr>mi_private_cid_to_root := (mi_private_cid_to_root idx')(cid \<mapsto> rt)\<rparr>, d')))"

definition gc_protection_intact :: "manifest_index \<Rightarrow> bool" where
  "gc_protection_intact idx \<longleftrightarrow> mi_gc_intact idx = Some True"

definition gc_protection_initialized :: "manifest_index \<Rightarrow> bool" where
  "gc_protection_initialized idx \<longleftrightarrow> mi_gc_intact idx \<noteq> None"

definition is_gc_protected :: "manifest_index \<Rightarrow> string \<Rightarrow> bool" where
  "is_gc_protected idx cid \<longleftrightarrow> cid \<in> mi_gc_protected idx"

text \<open>The protected list is never created by an append: a list that vanished is an error.\<close>

definition append_gc_protected_line ::
    "mi_env \<Rightarrow> manifest_index \<Rightarrow> mdir \<Rightarrow> string \<Rightarrow> (store_error + unit) \<times> mdir" where
  "append_gc_protected_line env idx d line =
     (case ensure_writable idx of Inl e \<Rightarrow> (Inl e, d)
      | Inr _ \<Rightarrow>
         (case me_open env of Some msg \<Rightarrow> (Inl (Io msg), d)
          | None \<Rightarrow>
             (case map_of d GC_PROTECTED_FILE of
                None \<Rightarrow> (Inl (Io ''No such file or directory''), d)
              | Some old \<Rightarrow>
                 (case me_write env of
                    Some (k, msg) \<Rightarrow> (Inl (Io msg), AList.update GC_PROTECTED_FILE (old @ take k line) d)
                  | None \<Rightarrow> (io_result (me_sync env), AList.update GC_PROTECTED_FILE (old @ line) d)))))"

definition record_v2_held_chunk ::
    "mi_env \<Rightarrow> manifest_index \<Rightarrow> mdir \<Rightarrow> hash \<Rightarrow> string \<Rightarrow> (store_error + unit) \<times> manifest_index \<times> mdir" where
  "record_v2_held_chunk env idx d rt cid =
     (if cid \<in> mi_gc_protected idx then (Inr (), idx, d)
      else if \<not> gc_protection_initialized idx then
        (Inl (Other ''GC-protected chunk list not initialized (open the store via SumStore::new)''), idx, d)
      else if \<not> gc_protection_intact idx then
        (Inl (Other ''GC-protected chunk list is unavailable; refusing to accept a V2 chunk''), idx, d)
      else
        (case append_gc_protected_line env idx d (format_gc_v2_line rt cid @ [newline]) of
           (Inl e, d') \<Rightarrow> (Inl e, idx\<lparr>mi_gc_intact := Some False\<rparr>, d')
         | (Inr _, d') \<Rightarrow> (Inr (), idx\<lparr>mi_gc_protected := insert cid (mi_gc_protected idx)\<rparr>, d')))"

definition entry_insert ::
    "(hash \<Rightarrow> (u32 \<times> 'r) list option) \<Rightarrow> hash \<Rightarrow> u32 \<Rightarrow> 'r \<Rightarrow> hash \<Rightarrow> (u32 \<times> 'r) list option" where
  "entry_insert f rt i v = f(rt \<mapsto> bt_insert i v (case f rt of None \<Rightarrow> [] | Some m \<Rightarrow> m))"

definition recorded :: "(hash \<Rightarrow> (u32 \<times> 'r) list option) \<Rightarrow> hash \<Rightarrow> u32 \<Rightarrow> 'r option" where
  "recorded f rt i = (case f rt of None \<Rightarrow> None | Some m \<Rightarrow> map_of m i)"

definition record_v2_held_index ::
    "mi_env \<Rightarrow> manifest_index \<Rightarrow> mdir \<Rightarrow> hash \<Rightarrow> u32 \<Rightarrow> string \<Rightarrow> (store_error + unit) \<times> manifest_index \<times> mdir" where
  "record_v2_held_index env idx d rt i cid =
     (case recorded (mi_v2_held idx) rt i of
        Some existing \<Rightarrow>
          if existing = cid then (Inr (), idx, d)
          else (Inl (Other (''chunk '' @ dec_of_nat (unat i) @ '' of root 0x'' @ hex_encode rt @ '' is recorded as ''
                  @ existing @ ''; refusing to rebind it to '' @ cid)), idx, d)
      | None \<Rightarrow>
         (case append_sidecar_line env idx d (held_file rt) (format_v2_held_line i cid @ [newline]) of
            (Inl e, idx', d') \<Rightarrow> (Inl e, idx', d')
          | (Inr _, idx', d') \<Rightarrow>
              (Inr (), idx'\<lparr>mi_v2_held := entry_insert (mi_v2_held idx') rt i cid\<rparr>, d')))"

definition record_v2_pushed_proof ::
    "(bytes \<Rightarrow> hash) \<Rightarrow> mi_env \<Rightarrow> manifest_index \<Rightarrow> mdir \<Rightarrow> hash \<Rightarrow> u32 \<Rightarrow> hash \<Rightarrow> hash list
       \<Rightarrow> (store_error + unit) \<times> manifest_index \<times> mdir" where
  "record_v2_pushed_proof H env idx d rt i leaf path =
     (case recorded (mi_v2_proofs idx) rt i of
        Some existing \<Rightarrow>
          if pp_leaf existing = leaf \<and> pp_path existing = path then (Inr (), idx, d)
          else (Inl (Other (''chunk '' @ dec_of_nat (unat i) @ '' of root 0x'' @ hex_encode rt
                  @ '' has a recorded push proof for leaf '' @ hex_encode (pp_leaf existing)
                  @ ''; refusing to rebind it to leaf '' @ hex_encode leaf)), idx, d)
      | None \<Rightarrow>
         (let p = \<lparr>pp_leaf = leaf, pp_path = path\<rparr> in
          if \<not> pushed_proof_verifies H rt i p then
            (Inl (Other (''push proof for chunk '' @ dec_of_nat (unat i) @ '' does not lead to root 0x''
                  @ hex_encode rt @ ''; not recorded'')), idx, d)
          else
            (case append_sidecar_line env idx d (proofs_file rt) (format_v2_proof_line i p @ [newline]) of
               (Inl e, idx', d') \<Rightarrow> (Inl e, idx', d')
             | (Inr _, idx', d') \<Rightarrow>
                 (Inr (), idx'\<lparr>mi_v2_proofs := entry_insert (mi_v2_proofs idx') rt i p\<rparr>, d'))))"

definition v2_pushed_proof :: "manifest_index \<Rightarrow> hash \<Rightarrow> u32 \<Rightarrow> pushed_proof option" where
  "v2_pushed_proof idx rt i = recorded (mi_v2_proofs idx) rt i"

definition v2_held_records :: "manifest_index \<Rightarrow> hash \<Rightarrow> (u32 \<times> string) list option" where
  "v2_held_records idx rt = mi_v2_held idx rt"

section \<open>Loading\<close>

definition empty_index :: "bool \<Rightarrow> manifest_index" where
  "empty_index read_only =
     \<lparr>mi_by_root = Map.empty, mi_cid_to_root = Map.empty, mi_private_bytes = Map.empty,
      mi_private_cid_to_root = Map.empty, mi_gc_protected = {}, mi_v2_held = Map.empty,
      mi_v2_proofs = Map.empty, mi_durable_sidecars = {}, mi_read_only = read_only, mi_gc_intact = None\<rparr>"

fun parse_all :: "(string \<Rightarrow> 'a option) \<Rightarrow> string list \<Rightarrow> 'a list option" where
  "parse_all p [] = Some []"
| "parse_all p (l # ls) = (case p l of None \<Rightarrow> None | Some x \<Rightarrow> map_option ((#) x) (parse_all p ls))"

definition write_marker :: "mi_env \<Rightarrow> mdir \<Rightarrow> (store_error + unit) \<times> mdir" where
  "write_marker env d =
     (case me_marker env of
        Some (created, msg) \<Rightarrow> (Inl (Io msg), if created then AList.update GC_PROTECTED_MARKER [] d else d)
      | None \<Rightarrow> (Inr (), AList.update GC_PROTECTED_MARKER [] d))"

definition truncate_to :: "mi_env \<Rightarrow> mdir \<Rightarrow> string \<Rightarrow> nat \<Rightarrow> (store_error + unit) \<times> mdir" where
  "truncate_to env d n len =
     (case me_truncate env of Some msg \<Rightarrow> (Inl (Io msg), d)
      | None \<Rightarrow> (Inr (), AList.update n (take len (case map_of d n of None \<Rightarrow> [] | Some c \<Rightarrow> c)) d))"

definition load_gc_protected :: "mi_env \<Rightarrow> manifest_index \<Rightarrow> mdir \<Rightarrow> manifest_index \<times> mdir" where
  "load_gc_protected env idx d =
     (let broken = idx\<lparr>mi_gc_intact := Some False\<rparr> in
      case map_of d GC_PROTECTED_FILE of
        None \<Rightarrow> (if map_of d GC_PROTECTED_MARKER \<noteq> None then broken else idx, d)
      | Some content \<Rightarrow>
         (if me_read env GC_PROTECTED_FILE \<noteq> None then (broken, d)
          else
            (case parse_all parse_gc_protected_line (text_lines content) of
               None \<Rightarrow> (broken, d)
             | Some cids \<Rightarrow>
                (case (if \<not> mi_read_only idx \<and> length (complete_part content) \<noteq> length content
                       then truncate_to env d GC_PROTECTED_FILE (length (complete_part content))
                       else (Inr (), d)) of
                   (Inl _, d1) \<Rightarrow> (broken, d1)
                 | (Inr _, d1) \<Rightarrow>
                    (case (if \<not> mi_read_only idx \<and> map_of d1 GC_PROTECTED_MARKER = None
                           then write_marker env d1 else (Inr (), d1)) of
                       (Inl _, d2) \<Rightarrow> (broken, d2)
                     | (Inr _, d2) \<Rightarrow>
                         (idx\<lparr>mi_gc_protected := mi_gc_protected idx \<union> set cids, mi_gc_intact := Some True\<rparr>, d2))))))"

definition seed_gc_protected_legacy ::
    "mi_env \<Rightarrow> manifest_index \<Rightarrow> mdir \<Rightarrow> string list \<Rightarrow> (store_error + unit) \<times> manifest_index \<times> mdir" where
  "seed_gc_protected_legacy env idx d cids_on_disk =
     (case ensure_writable idx of Inl e \<Rightarrow> (Inl e, idx, d)
      | Inr _ \<Rightarrow>
         (case atomic_rewrite env d GC_PROTECTED_FILE (unlines (map format_gc_legacy_line cids_on_disk)) of
            (Inl e, d1) \<Rightarrow> (Inl e, idx, d1)
          | (Inr _, d1) \<Rightarrow>
             (case write_marker env d1 of
                (Inl e, d2) \<Rightarrow> (Inl e, idx, d2)
              | (Inr _, d2) \<Rightarrow>
                  (Inr (), idx\<lparr>mi_gc_protected := mi_gc_protected idx \<union> set cids_on_disk,
                               mi_gc_intact := Some True\<rparr>, d2))))"

definition entry_extend ::
    "(hash \<Rightarrow> (u32 \<times> 'r) list option) \<Rightarrow> hash \<Rightarrow> (u32 \<times> 'r) list \<Rightarrow> hash \<Rightarrow> (u32 \<times> 'r) list option" where
  "entry_extend f rt recs =
     (if recs = [] then f
      else f(rt \<mapsto> foldl (\<lambda>m (i, v). bt_insert i v m) (case f rt of None \<Rightarrow> [] | Some m \<Rightarrow> m) recs))"

definition rewrite_v2_held ::
    "mi_env \<Rightarrow> manifest_index \<Rightarrow> mdir \<Rightarrow> hash \<Rightarrow> (u32 \<times> string) list \<Rightarrow> (store_error + unit) \<times> mdir" where
  "rewrite_v2_held env idx d rt records =
     (case ensure_writable idx of Inl e \<Rightarrow> (Inl e, d)
      | Inr _ \<Rightarrow> atomic_rewrite env d (held_file rt) (unlines (map (\<lambda>(i, v). format_v2_held_line i v) records)))"

definition load_v2_held_lines ::
    "mi_env \<Rightarrow> manifest_index \<Rightarrow> mdir \<Rightarrow> hash \<Rightarrow> string \<Rightarrow> manifest_index \<times> mdir" where
  "load_v2_held_lines env idx d rt content =
     (let st = scan_content parse_v2_held_line content;
          d' = (if scan_dirty content st \<and> \<not> mi_read_only idx
                then snd (rewrite_v2_held env idx d rt (sc_records st)) else d)
      in (idx\<lparr>mi_v2_held := entry_extend (mi_v2_held idx) rt (sc_records st)\<rparr>, d'))"

definition rewrite_v2_proofs ::
    "mi_env \<Rightarrow> manifest_index \<Rightarrow> mdir \<Rightarrow> hash \<Rightarrow> (u32 \<times> pushed_proof) list \<Rightarrow> (store_error + unit) \<times> mdir" where
  "rewrite_v2_proofs env idx d rt records =
     (case ensure_writable idx of Inl e \<Rightarrow> (Inl e, d)
      | Inr _ \<Rightarrow> atomic_rewrite env d (proofs_file rt) (unlines (map (\<lambda>(i, v). format_v2_proof_line i v) records)))"

definition load_v2_proof_lines ::
    "(bytes \<Rightarrow> hash) \<Rightarrow> mi_env \<Rightarrow> manifest_index \<Rightarrow> mdir \<Rightarrow> hash \<Rightarrow> string \<Rightarrow> manifest_index \<times> mdir" where
  "load_v2_proof_lines H env idx d rt content =
     (let st = scan_content (parse_verified_proof_line H rt) content;
          d' = (if scan_dirty content st \<and> \<not> mi_read_only idx
                then snd (rewrite_v2_proofs env idx d rt (sc_records st)) else d)
      in (idx\<lparr>mi_v2_proofs := entry_extend (mi_v2_proofs idx) rt (sc_records st)\<rparr>, d'))"

definition rewrite_private_chunks ::
    "mi_env \<Rightarrow> manifest_index \<Rightarrow> mdir \<Rightarrow> hash \<Rightarrow> string list \<Rightarrow> (store_error + unit) \<times> mdir" where
  "rewrite_private_chunks env idx d rt cids =
     (case ensure_writable idx of Inl e \<Rightarrow> (Inl e, d)
      | Inr _ \<Rightarrow> atomic_rewrite env d (private_chunks_file rt) (unlines cids))"

text \<open>The loop over the lines: trimmed, blank lines skipped, duplicates kept once.\<close>

definition private_line :: "string list \<times> nat \<Rightarrow> string \<Rightarrow> string list \<times> nat" where
  "private_line acc line =
     (case acc of (cids, skipped) \<Rightarrow>
        let cid = trim line in
        if cid = [] then (cids, skipped + 1)
        else if cid \<in> set cids then (cids, skipped) else (cids @ [cid], skipped))"

definition load_private_chunk_lines ::
    "mi_env \<Rightarrow> manifest_index \<Rightarrow> mdir \<Rightarrow> hash \<Rightarrow> string \<Rightarrow> manifest_index \<times> mdir" where
  "load_private_chunk_lines env idx d rt content =
     (case foldl private_line ([], 0) (text_lines content) of (cids, skipped) \<Rightarrow>
        let d' = (if (length (complete_part content) \<noteq> length content \<or> skipped > 0) \<and> \<not> mi_read_only idx
                  then snd (rewrite_private_chunks env idx d rt cids) else d)
        in (idx\<lparr>mi_private_cid_to_root := foldl (\<lambda>f c. f(c \<mapsto> rt)) (mi_private_cid_to_root idx) cids\<rparr>, d'))"

text \<open>One directory entry of the loop in \<open>load_with\<close>.\<close>

definition load_entry ::
    "(bytes \<Rightarrow> hash) \<Rightarrow> cbor_lib \<Rightarrow> mi_env \<Rightarrow> manifest_index \<times> mdir \<Rightarrow> string \<Rightarrow> manifest_index \<times> mdir" where
  "load_entry H B env s n =
     (case s of (idx, d) \<Rightarrow>
      case map_of d n of None \<Rightarrow> (idx, d)
      | Some content \<Rightarrow>
         (let sidecar = (\<lambda>load. case decode_hex_root (file_stem n) of None \<Rightarrow> (idx, d)
                         | Some rt \<Rightarrow> if me_read env n \<noteq> None then (idx, d) else load idx d rt content) in
          if file_ext n = Some ''cbor'' then
            (case read_manifest B (me_read env n) content of Inl _ \<Rightarrow> (idx, d) | Inr m \<Rightarrow> (add_to_maps idx m, d))
          else if file_ext n = Some ''opaque'' then
            sidecar (\<lambda>i e rt c. (i\<lparr>mi_private_bytes := (mi_private_bytes i)(rt \<mapsto> bytes_of_text c)\<rparr>, e))
          else if file_ext n = Some ''private_chunks'' then sidecar (load_private_chunk_lines env)
          else if file_ext n = Some ''v2_held'' then sidecar (load_v2_held_lines env)
          else if file_ext n = Some ''v2_proofs'' then sidecar (load_v2_proof_lines H env)
          else (idx, d)))"

definition load_with ::
    "(bytes \<Rightarrow> hash) \<Rightarrow> cbor_lib \<Rightarrow> mi_env \<Rightarrow> bool \<Rightarrow> store_dir \<Rightarrow> store_error + (manifest_index \<times> store_dir)" where
  "load_with H B env read_only sd =
     (if \<not> read_only \<and> me_create_dir env \<noteq> None then Inl (Io (the (me_create_dir env)))
      else if read_only \<and> \<not> sd_exists sd then Inr (empty_index read_only, sd)
      else
        (let (idx1, d1) = load_gc_protected env (empty_index read_only) (sd_files sd) in
         case me_read_dir env of Some msg \<Rightarrow> Inl (Io msg)
         | None \<Rightarrow>
            (let (idx2, d2) = foldl (load_entry H B env) (idx1, d1) (map fst d1);
                 sd2 = sd\<lparr>sd_exists := True, sd_files := d2\<rparr> in
             case sd_legacy sd of None \<Rightarrow> Inr (idx2, sd2)
             | Some content \<Rightarrow>
                 if mi_by_root idx2 = Map.empty \<and> mi_private_bytes idx2 = Map.empty then
                   (case read_manifest B (me_read env ''manifest.cbor'') content of
                      Inl _ \<Rightarrow> Inr (idx2, sd2)
                    | Inr m \<Rightarrow>
                        Inr (add_to_maps idx2 m,
                             sd2\<lparr>sd_files := (if read_only then d2 else snd (write_manifest B env idx2 d2 m))\<rparr>))
                 else Inr (idx2, sd2))))"

section \<open>Lemmas on files\<close>

lemma map_of_update [simp]: "map_of (AList.update k v al) = (map_of al)(k \<mapsto> v)"
  by (rule update_conv')

lemma map_of_delete [simp]: "map_of (AList.delete k al) = (map_of al)(k := None)"
  by (rule delete_conv')

lemma text_bytes_inverse [roundtrip, simp]: "bytes_of_text (text_of_bytes b) = b"
proof -
  have "word_of_nat (of_char (char_of (unat w) :: char)) = w" for w :: byte
    using unat_less [of w] by (simp add: of_char_of)
  then show ?thesis by (simp add: bytes_of_text_def text_of_bytes_def o_def map_idI)
qed

definition disk_content :: "mdir \<Rightarrow> string \<Rightarrow> string" where
  "disk_content d n = (case map_of d n of None \<Rightarrow> [] | Some c \<Rightarrow> c)"

lemma disk_content_cong: "map_of d n = map_of d' n \<Longrightarrow> disk_content d n = disk_content d' n"
  by (simp add: disk_content_def)

lemma io_result_Inr [simp]: "io_result f = Inr u \<longleftrightarrow> f = None"
  by (simp add: io_result_def split: option.splits)

lemma complete_part_idem [simp]: "complete_part (complete_part s) = complete_part s"
  using complete_part_lines [of "[]" "butlast (split_on newline s)"] complete_part_split [of s]
  by (simp add: unlines_def)

text \<open>
  What an append can leave behind: the old content, possibly without its torn tail and followed by
  a prefix of the line; the whole line if it reported success.
\<close>

lemma append_sidecar_line_cases:
  assumes "append_sidecar_line env idx d n line = (r, idx', d')"
  shows "m \<noteq> n \<Longrightarrow> map_of d' m = map_of d m"
    and "\<exists>s. idx' = idx\<lparr>mi_durable_sidecars := s\<rparr>"
    and "disk_content d' n = disk_content d n
           \<or> (\<exists>k. disk_content d' n = complete_part (disk_content d n) @ take k line)"
    and "r = Inr () \<Longrightarrow> disk_content d' n = complete_part (disk_content d n) @ line"
proof -
  have idx: "\<exists>s. i = i\<lparr>mi_durable_sidecars := s\<rparr>" for i :: manifest_index
    by (rule exI [of _ "mi_durable_sidecars i"]) simp
  note app = assms [unfolded append_sidecar_line_def Let_def cut_torn_tail_eq disk_content_def [symmetric]]
  show "m \<noteq> n \<Longrightarrow> map_of d' m = map_of d m"
    using app by (auto split: sum.splits option.splits prod.splits if_splits)
  show "\<exists>s. idx' = idx\<lparr>mi_durable_sidecars := s\<rparr>"
    using app idx by (auto split: sum.splits option.splits prod.splits if_splits)
  have "take (length line) line = line" by simp
  with app show "disk_content d' n = disk_content d n
      \<or> (\<exists>k. disk_content d' n = complete_part (disk_content d n) @ take k line)"
    by (auto simp: disk_content_def split: sum.splits option.splits prod.splits if_splits)
      (metis \<open>take (length line) line = line\<close>)+
  show "r = Inr () \<Longrightarrow> disk_content d' n = complete_part (disk_content d n) @ line"
    using app by (auto simp: disk_content_def split: sum.splits option.splits prod.splits if_splits)
qed

context line_codec begin

lemma append_parsed:
  assumes "append_sidecar_line env idx d n (fmt i v @ [newline]) = (r, idx', d')" and "good i v"
  defines "P \<equiv> \<lambda>e. parsed parse (text_lines (disk_content e n))"
  shows "P d' = P d \<or> P d' = insert (i, v) (P d)" and "r = Inr () \<Longrightarrow> P d' = insert (i, v) (P d)"
proof -
  let ?line = "fmt i v @ [newline]"
  show "r = Inr () \<Longrightarrow> P d' = insert (i, v) (P d)"
    using append_sidecar_line_cases(4) [OF assms(1)] parsed_append [OF assms(2), of "[]"]
    by (simp add: P_def)
  from append_sidecar_line_cases(3) [OF assms(1)]
  show "P d' = P d \<or> P d' = insert (i, v) (P d)"
  proof (elim disjE exE)
    fix k assume k: "disk_content d' n = complete_part (disk_content d n) @ take k ?line"
    show ?thesis
    proof (cases "k \<le> length (fmt i v)")
      case True
      then show ?thesis using parsed_torn [OF assms(2) True] k by (simp add: P_def)
    next
      case False
      then show ?thesis using parsed_append [OF assms(2), of "[]"] k by (simp add: P_def)
    qed
  qed (simp add: P_def)
qed

end

subsection \<open>File names\<close>

lemma ext_of_hex:
  assumes "CHR ''.'' \<notin> set e"
  shows "file_ext (hex_encode h @ CHR ''.'' # e) = (if h = [] then None else Some e)"
    and "h \<noteq> [] \<Longrightarrow> file_stem (hex_encode h @ CHR ''.'' # e) = hex_encode h"
proof -
  have "dropWhile (\<lambda>x. x \<noteq> CHR ''.'') (rev e @ CHR ''.'' # r) = CHR ''.'' # r" for r
    using assms by (induction e rule: rev_induct) auto
  then have "rposition (\<lambda>c. c = CHR ''.'') (hex_encode h @ CHR ''.'' # e) = Some (2 * length h)"
    by (simp add: rposition_def)
  then show "file_ext (hex_encode h @ CHR ''.'' # e) = (if h = [] then None else Some e)"
    and "h \<noteq> [] \<Longrightarrow> file_stem (hex_encode h @ CHR ''.'' # e) = hex_encode h"
    by (auto simp: file_ext_def file_stem_def)
qed

lemma sidecar_names:
  assumes "length rt = 32"
  shows "file_ext (held_file rt) = Some ''v2_held''" "file_stem (held_file rt) = hex_encode rt"
    "file_ext (proofs_file rt) = Some ''v2_proofs''" "file_stem (proofs_file rt) = hex_encode rt"
    "file_ext (private_chunks_file rt) = Some ''private_chunks''"
    "file_stem (private_chunks_file rt) = hex_encode rt"
    "length (held_file rt) = 72" "length (proofs_file rt) = 74" "length (private_chunks_file rt) = 79"
proof -
  have "rt \<noteq> []" using assms by auto
  then show "file_ext (held_file rt) = Some ''v2_held''" "file_stem (held_file rt) = hex_encode rt"
    "file_ext (proofs_file rt) = Some ''v2_proofs''" "file_stem (proofs_file rt) = hex_encode rt"
    "file_ext (private_chunks_file rt) = Some ''private_chunks''"
    "file_stem (private_chunks_file rt) = hex_encode rt"
    using ext_of_hex [of "''v2_held''" rt] ext_of_hex [of "''v2_proofs''" rt]
      ext_of_hex [of "''private_chunks''" rt]
    by (simp_all add: held_file_def proofs_file_def private_chunks_file_def)
qed (simp_all add: held_file_def proofs_file_def private_chunks_file_def assms)

lemma held_file_inject [simp]: "held_file a = held_file b \<longleftrightarrow> a = b"
  by (simp add: held_file_def)

lemma proofs_file_inject [simp]: "proofs_file a = proofs_file b \<longleftrightarrow> a = b"
  by (simp add: proofs_file_def)

lemma atomic_rewrite_other:
  "m \<noteq> n \<Longrightarrow> m \<noteq> n @ ''.tmp'' \<Longrightarrow> map_of (snd (atomic_rewrite env d n c)) m = map_of d m"
  by (auto simp: atomic_rewrite_def fs_write_def Let_def split: option.splits sum.splits prod.splits)

section \<open>Held records over restarts\<close>

definition bt_sorted :: "(u32 \<times> 'r) list \<Rightarrow> bool" where
  "bt_sorted xs \<longleftrightarrow> sorted_wrt (<) (map fst xs)"

lemma bt_insert_keys: "fst ` set (bt_insert k v xs) = insert k (fst ` set xs)"
  by (induction k v xs rule: bt_insert.induct) auto

lemma bt_insert_sorted: "bt_sorted xs \<Longrightarrow> bt_sorted (bt_insert k v xs)"
proof (induction k v xs rule: bt_insert.induct)
  case (2 k v k' v' xs)
  have "\<forall>j \<in> fst ` set (bt_insert k v xs). k' < j" if "k' < k"
    using 2(2) that unfolding bt_insert_keys by (auto simp: bt_sorted_def)
  with 2 show ?case by (auto simp: bt_sorted_def)
qed (simp add: bt_sorted_def)

lemma bt_remove_sorted: "bt_sorted xs \<Longrightarrow> bt_sorted (bt_remove k xs)"
  by (induction xs) (auto simp: bt_sorted_def bt_remove_def)

lemma scan_sorted: "bt_sorted (sc_records (scan_content parse c))"
proof -
  have "bt_sorted (sc_records st) \<Longrightarrow> bt_sorted (sc_records (foldl (scan_line parse) st ls))" for st ls
  proof (induction ls arbitrary: st)
    case (Cons l ls)
    have "bt_sorted (sc_records (scan_line parse st l))"
      using Cons.prems
      by (auto simp: scan_line_def bt_insert_sorted bt_remove_sorted split: option.splits prod.splits)
    then show ?case using Cons.IH by simp
  qed simp
  then show ?thesis by (simp add: scan_content_def scan_lines_def bt_sorted_def)
qed

lemma bt_sorted_distinct: "bt_sorted xs \<Longrightarrow> distinct (map fst xs)"
  unfolding bt_sorted_def by (simp add: strict_sorted_iff)

lemma foldl_bt_insert:
  "distinct (map fst recs) \<Longrightarrow>
     map_of (foldl (\<lambda>m (i, v). bt_insert i v m) m0 recs) = map_of m0 ++ map_of recs"
proof (induction recs arbitrary: m0)
  case (Cons a recs)
  obtain i v where a: "a = (i, v)" by (cases a)
  have "map_of recs i = None" using Cons.prems a by (simp add: map_of_eq_None_iff)
  with Cons a show ?case by (auto simp: fun_eq_iff map_add_def split: option.splits)
qed simp

lemma recorded_extend:
  assumes "bt_sorted recs"
  shows "recorded (entry_extend f rt recs) rt i =
    (case map_of recs i of Some v \<Rightarrow> Some v | None \<Rightarrow> recorded f rt i)"
  using foldl_bt_insert [OF bt_sorted_distinct [OF assms]]
  by (auto simp: recorded_def entry_extend_def map_add_def split: option.splits)

lemma entry_extend_other: "rt' \<noteq> rt \<Longrightarrow> entry_extend f rt recs rt' = f rt'"
  by (simp add: entry_extend_def)

lemma recorded_insert: "recorded (entry_insert f rt i v) rt' j =
    (if rt' = rt \<and> j = i then Some v else recorded f rt' j)"
  by (auto simp: recorded_def entry_insert_def split: option.splits)

lemma sidecar_files_differ:
  assumes "length rt = 32" "length r2 = 32"
  shows "held_file rt \<noteq> held_file r2 @ ''.tmp''" "held_file rt \<noteq> proofs_file r2"
    "held_file rt \<noteq> proofs_file r2 @ ''.tmp''" "held_file rt \<noteq> private_chunks_file r2"
    "held_file rt \<noteq> private_chunks_file r2 @ ''.tmp''" "held_file rt \<noteq> GC_PROTECTED_FILE"
    "held_file rt \<noteq> GC_PROTECTED_MARKER" "held_file rt \<noteq> GC_PROTECTED_FILE @ ''.tmp''"
proof -
  note l = sidecar_names(7-9) [OF assms(1)] sidecar_names(7-9) [OF assms(2)]
  have *: "length a \<noteq> length b \<Longrightarrow> a \<noteq> b" for a b :: string by auto
  show "held_file rt \<noteq> held_file r2 @ ''.tmp''" "held_file rt \<noteq> proofs_file r2"
    "held_file rt \<noteq> proofs_file r2 @ ''.tmp''" "held_file rt \<noteq> private_chunks_file r2"
    "held_file rt \<noteq> private_chunks_file r2 @ ''.tmp''" "held_file rt \<noteq> GC_PROTECTED_FILE"
    "held_file rt \<noteq> GC_PROTECTED_MARKER" "held_file rt \<noteq> GC_PROTECTED_FILE @ ''.tmp''"
    by (rule *; simp add: l GC_PROTECTED_FILE_def GC_PROTECTED_MARKER_def)+
qed

lemma rewrite_frame:
  assumes "length rt = 32" "length r2 = 32"
  shows "rt \<noteq> r2 \<Longrightarrow> map_of (snd (rewrite_v2_held env idx d r2 recs)) (held_file rt) = map_of d (held_file rt)"
    "map_of (snd (rewrite_v2_proofs env idx d r2 precs)) (held_file rt) = map_of d (held_file rt)"
    "map_of (snd (rewrite_private_chunks env idx d r2 cids)) (held_file rt) = map_of d (held_file rt)"
  using sidecar_files_differ [OF assms]
  by (simp_all add: rewrite_v2_held_def rewrite_v2_proofs_def rewrite_private_chunks_def
      atomic_rewrite_other split: sum.split)

lemma load_lines_frame:
  assumes "length rt = 32" "length r2 = 32"
  shows "load_v2_held_lines env idx d r2 c = (idx', d') \<Longrightarrow> rt \<noteq> r2 \<Longrightarrow>
      mi_v2_held idx' rt = mi_v2_held idx rt \<and> map_of d' (held_file rt) = map_of d (held_file rt)"
    "load_v2_proof_lines H env idx d r2 c = (idx', d') \<Longrightarrow>
      mi_v2_held idx' = mi_v2_held idx \<and> map_of d' (held_file rt) = map_of d (held_file rt)"
    "load_private_chunk_lines env idx d r2 c = (idx', d') \<Longrightarrow>
      mi_v2_held idx' = mi_v2_held idx \<and> map_of d' (held_file rt) = map_of d (held_file rt)"
  using rewrite_frame [OF assms]
  by (auto simp: load_v2_held_lines_def load_v2_proof_lines_def load_private_chunk_lines_def Let_def
      entry_extend_other split: prod.splits if_splits)

lemma load_entry_frame:
  assumes "length rt = 32" and "load_entry H B env (idx, d) n = (idx', d')"
    and "file_ext n = Some ''v2_held'' \<Longrightarrow> decode_hex_root (file_stem n) \<noteq> Some rt"
  shows "mi_v2_held idx' rt = mi_v2_held idx rt \<and> map_of d' (held_file rt) = map_of d (held_file rt)"
proof (cases "map_of d n")
  case None
  then show ?thesis using assms(2) by (simp add: load_entry_def)
next
  case (Some c)
  note le = assms(2) [unfolded load_entry_def Let_def prod.case Some option.case]
  show ?thesis
  proof (cases "decode_hex_root (file_stem n)")
    case None
    then show ?thesis using le by (auto simp: add_to_maps_def Let_def split: sum.splits if_splits)
  next
    case (Some r2)
    note f = load_lines_frame [OF assms(1) decode_hex_root_length [OF Some]]
    show ?thesis
      using le Some assms(3) f(1) [of env idx d c idx' d'] f(2) [of H env idx d c idx' d'] f(3) [of env idx d c idx' d']
      by (auto simp: add_to_maps_def Let_def split: sum.splits if_splits)
  qed
qed

lemma load_entry_held:
  assumes "length rt = 32" and "load_entry H B env (idx, d) (held_file rt) = (idx', d')"
    and "map_of d (held_file rt) = Some c" and "me_read env (held_file rt) = None"
    and "mi_v2_held idx rt = None"
  shows "recorded (mi_v2_held idx') rt i = map_of (sc_records (scan_content parse_v2_held_line c)) i"
proof -
  have "idx' = fst (load_v2_held_lines env idx d rt c)"
    using assms(2-4) by (simp add: load_entry_def sidecar_names [OF assms(1)] decode_hex_encode [OF assms(1)])
  then have "recorded (mi_v2_held idx') rt i =
      recorded (entry_extend (mi_v2_held idx) rt (sc_records (scan_content parse_v2_held_line c))) rt i"
    by (simp add: load_v2_held_lines_def Let_def)
  also have "\<dots> = map_of (sc_records (scan_content parse_v2_held_line c)) i"
    using recorded_extend [OF scan_sorted, of "mi_v2_held idx" rt parse_v2_held_line c i] assms(5)
    by (simp add: recorded_def split: option.splits)
  finally show ?thesis .
qed

text \<open>Only the canonical file name of a root is taken for its held records.\<close>

definition canonical_held :: "string list \<Rightarrow> hash \<Rightarrow> bool" where
  "canonical_held ns rt \<longleftrightarrow> (\<forall>n \<in> set ns. file_ext n = Some ''v2_held'' \<longrightarrow>
     decode_hex_root (file_stem n) = Some rt \<longrightarrow> n = held_file rt)"

lemma load_loop_frame:
  assumes "length rt = 32" and "foldl (load_entry H B env) (idx, d) ns = (idx', d')"
    and "held_file rt \<notin> set ns" and "canonical_held ns rt"
  shows "mi_v2_held idx' rt = mi_v2_held idx rt \<and> map_of d' (held_file rt) = map_of d (held_file rt)"
  using assms(2-4)
proof (induction ns arbitrary: idx d)
  case (Cons n ns)
  obtain i1 d1 where e: "load_entry H B env (idx, d) n = (i1, d1)" by fastforce
  have "mi_v2_held i1 rt = mi_v2_held idx rt \<and> map_of d1 (held_file rt) = map_of d (held_file rt)"
    using Cons.prems by (intro load_entry_frame [OF assms(1) e]) (auto simp: canonical_held_def)
  with Cons.IH [of i1 d1] Cons.prems e show ?case by (auto simp: canonical_held_def)
qed simp

lemma load_loop_held:
  assumes "length rt = 32" and "foldl (load_entry H B env) (idx, d) ns = (idx', d')"
    and "distinct ns" and "canonical_held ns rt" and "mi_v2_held idx rt = None"
    and "held_file rt \<in> set ns \<longleftrightarrow> map_of d (held_file rt) \<noteq> None" and "me_read env (held_file rt) = None"
  shows "recorded (mi_v2_held idx') rt i =
    map_of (sc_records (scan_content parse_v2_held_line (disk_content d (held_file rt)))) i"
proof (cases "held_file rt \<in> set ns")
  case False
  then have "mi_v2_held idx' rt = None" "map_of d (held_file rt) = None"
    using load_loop_frame [OF assms(1,2) False assms(4)] assms(5,6) by auto
  moreover have "sc_records (scan_content parse_v2_held_line []) = []"
    by (simp add: scan_content_def scan_lines_def text_lines_def complete_part_def lines_of_def)
  ultimately show ?thesis by (simp add: recorded_def disk_content_def)
next
  case True
  then obtain as bs where ns: "ns = as @ held_file rt # bs" by (meson split_list)
  have nin: "held_file rt \<notin> set as" "held_file rt \<notin> set bs" using assms(3) ns by auto
  have can: "canonical_held as rt" "canonical_held bs rt" using assms(4) ns by (auto simp: canonical_held_def)
  obtain i1 d1 where a: "foldl (load_entry H B env) (idx, d) as = (i1, d1)" by fastforce
  obtain i2 d2 where b: "load_entry H B env (i1, d1) (held_file rt) = (i2, d2)" by fastforce
  have c: "foldl (load_entry H B env) (i2, d2) bs = (idx', d')" using assms(2) ns a b by simp
  note fa = load_loop_frame [OF assms(1) a nin(1) can(1)]
  note fc = load_loop_frame [OF assms(1) c nin(2) can(2)]
  obtain ct where ct: "map_of d (held_file rt) = Some ct" using True assms(6) by auto
  have "recorded (mi_v2_held i2) rt i = map_of (sc_records (scan_content parse_v2_held_line ct)) i"
    using fa ct assms(5,7) by (intro load_entry_held [OF assms(1) b]) auto
  then show ?thesis using fc ct by (simp add: recorded_def disk_content_def)
qed

lemma update_names: "a \<in> fst ` set (AList.update k v al) \<longleftrightarrow> a = k \<or> a \<in> fst ` set al"
  by (simp add: dom_update)

lemma load_gc_frame:
  assumes "load_gc_protected env idx d = (idx', d')" and "length rt = 32"
  shows "mi_v2_held idx' = mi_v2_held idx" "mi_v2_proofs idx' = mi_v2_proofs idx"
    "map_of d' (held_file rt) = map_of d (held_file rt)"
    "distinct (map fst d) \<Longrightarrow> distinct (map fst d')"
    "fst ` set d' \<subseteq> fst ` set d \<union> {GC_PROTECTED_FILE, GC_PROTECTED_MARKER}"
proof -
  note lg = assms(1) [unfolded load_gc_protected_def Let_def truncate_to_def write_marker_def]
  show "mi_v2_held idx' = mi_v2_held idx" "mi_v2_proofs idx' = mi_v2_proofs idx"
    using lg by (auto split: option.splits if_splits prod.splits sum.splits)
  show "map_of d' (held_file rt) = map_of d (held_file rt)"
    using lg sidecar_files_differ [OF assms(2,2)] by (auto split: option.splits if_splits prod.splits sum.splits)
  show "distinct (map fst d) \<Longrightarrow> distinct (map fst d')"
    using lg by (auto simp: distinct_update split: option.splits if_splits prod.splits sum.splits)
  show "fst ` set d' \<subseteq> fst ` set d \<union> {GC_PROTECTED_FILE, GC_PROTECTED_MARKER}"
  proof
    fix a assume "a \<in> fst ` set d'"
    then show "a \<in> fst ` set d \<union> {GC_PROTECTED_FILE, GC_PROTECTED_MARKER}"
      using lg by (simp add: update_names split: option.splits if_splits prod.splits sum.splits)
        (metis prod.inject update_names)+
  qed
qed

lemma gc_names_not_held:
  "file_ext GC_PROTECTED_FILE = Some ''list''" "file_ext GC_PROTECTED_MARKER = Some ''initialized''"
  by (simp_all add: file_ext_def GC_PROTECTED_FILE_def GC_PROTECTED_MARKER_def rposition_def)

lemma load_with_held:
  assumes "load_with H B env ro sd = Inr (idx, sd')" and "sd_exists sd" and "length rt = 32"
    and "distinct (map fst (sd_files sd))" and "canonical_held (map fst (sd_files sd)) rt"
    and "me_read env (held_file rt) = None"
  shows "recorded (mi_v2_held idx) rt i =
    map_of (sc_records (scan_content parse_v2_held_line (disk_content (sd_files sd) (held_file rt)))) i"
proof -
  obtain i1 d1 where g: "load_gc_protected env (empty_index ro) (sd_files sd) = (i1, d1)" by fastforce
  obtain i2 d2 where l: "foldl (load_entry H B env) (i1, d1) (map fst d1) = (i2, d2)" by fastforce
  note lw = assms(1) [unfolded load_with_def Let_def g l prod.case]
  have idx: "mi_v2_held idx = mi_v2_held i2"
    using lw assms(2) by (auto simp: add_to_maps_def Let_def split: if_splits option.splits sum.splits)
  note f = load_gc_frame [OF g assms(3)]
  have "canonical_held (map fst d1) rt"
    using assms(5) f(5) gc_names_not_held unfolding canonical_held_def by (auto dest!: subsetD)
  then have "recorded (mi_v2_held i2) rt i =
      map_of (sc_records (scan_content parse_v2_held_line (disk_content d1 (held_file rt)))) i"
    using f(1) by (intro load_loop_held [OF assms(3) l f(4) [OF assms(4)] _ _ _ assms(6)])
      (auto simp: empty_index_def map_of_eq_None_iff)
  then show ?thesis using idx disk_content_cong [OF f(3)] by (simp add: recorded_def)
qed

definition held_disk :: "mdir \<Rightarrow> hash \<Rightarrow> (u32 \<times> string) set" where
  "held_disk d rt = parsed parse_v2_held_line (text_lines (disk_content d (held_file rt)))"

type_synonym held_call = "mi_env \<times> hash \<times> u32 \<times> string"

fun run_held :: "manifest_index \<Rightarrow> mdir \<Rightarrow> held_call list \<Rightarrow> (store_error + unit) list \<times> manifest_index \<times> mdir" where
  "run_held idx d [] = ([], idx, d)"
| "run_held idx d ((env, rt, i, cid) # cs) =
     (case record_v2_held_index env idx d rt i cid of (r, idx1, d1) \<Rightarrow>
      case run_held idx1 d1 cs of (rs, idx2, d2) \<Rightarrow> (r # rs, idx2, d2))"

text \<open>Every index of a root belongs to one chunk, and what memory holds is backed by the disk.\<close>

definition held_backed :: "(hash \<Rightarrow> u32 \<Rightarrow> string) \<Rightarrow> manifest_index \<Rightarrow> mdir \<Rightarrow> bool" where
  "held_backed bound idx d \<longleftrightarrow> (\<forall>rt i v. (i, v) \<in> held_disk d rt \<longrightarrow> v = bound rt i)
     \<and> (\<forall>rt i v. recorded (mi_v2_held idx) rt i = Some v \<longrightarrow> (i, v) \<in> held_disk d rt)"

lemma record_held_step:
  assumes "record_v2_held_index env idx d rt i cid = (r, idx', d')" and "held_backed bound idx d"
    and "cid_text cid" and "cid = bound rt i"
  shows "held_backed bound idx' d'" and "\<And>rt'. held_disk d rt' \<subseteq> held_disk d' rt'"
    and "r = Inr () \<Longrightarrow> (i, cid) \<in> held_disk d' rt"
proof -
  have "held_backed bound idx' d' \<and> (\<forall>rt'. held_disk d rt' \<subseteq> held_disk d' rt') \<and>
      (r = Inr () \<longrightarrow> (i, cid) \<in> held_disk d' rt)"
  proof (cases "recorded (mi_v2_held idx) rt i")
    case (Some x)
    then show ?thesis
      using assms(1,2) by (auto simp: record_v2_held_index_def held_backed_def split: if_splits)
  next
    case None
    obtain r1 idx1 d1 where a:
      "append_sidecar_line env idx d (held_file rt) (format_v2_held_line i cid @ [newline]) = (r1, idx1, d1)"
      by (cases "append_sidecar_line env idx d (held_file rt) (format_v2_held_line i cid @ [newline])") auto
    have d': "d' = d1" "r = r1"
      and idx': "mi_v2_held idx' = (if r1 = Inr () then entry_insert (mi_v2_held idx1) rt i cid else mi_v2_held idx1)"
      using assms(1) None a by (auto simp: record_v2_held_index_def split: sum.splits)
    have mem: "mi_v2_held idx1 = mi_v2_held idx" using append_sidecar_line_cases(2) [OF a] by auto
    have other: "rt' \<noteq> rt \<Longrightarrow> held_disk d' rt' = held_disk d rt'" for rt'
      using append_sidecar_line_cases(1) [OF a] disk_content_cong [of d1 "held_file rt'" d]
      by (simp add: held_disk_def d')
    have here: "held_disk d' rt = held_disk d rt \<or> held_disk d' rt = insert (i, cid) (held_disk d rt)"
        "r = Inr () \<Longrightarrow> held_disk d' rt = insert (i, cid) (held_disk d rt)"
      using held.append_parsed [OF a assms(3)] d' by (auto simp: held_disk_def)
    have grow: "held_disk d rt' \<subseteq> held_disk d' rt'" for rt' using other here(1) by (cases "rt' = rt") auto
    have "v = bound rt' j" if "(j, v) \<in> held_disk d' rt'" for rt' j v
      using that other here(1) assms(2,4) by (cases "rt' = rt") (auto simp: held_backed_def)
    moreover have "(j, v) \<in> held_disk d' rt'" if "recorded (mi_v2_held idx') rt' j = Some v" for rt' j v
      using that grow here(2) assms(2) d' unfolding idx' mem held_backed_def
      by (fastforce simp: recorded_insert split: if_splits)
    ultimately show ?thesis using grow here(2) by (auto simp: held_backed_def)
  qed
  then show "held_backed bound idx' d'" and "\<And>rt'. held_disk d rt' \<subseteq> held_disk d' rt'"
    and "r = Inr () \<Longrightarrow> (i, cid) \<in> held_disk d' rt" by auto
qed

lemma run_held_backed:
  assumes "run_held idx d calls = (rs, idx', d')" and "held_backed bound idx d"
    and "\<forall>(env, rt, i, cid) \<in> set calls. cid_text cid \<and> cid = bound rt i"
  shows "held_backed bound idx' d' \<and> (\<forall>rt. held_disk d rt \<subseteq> held_disk d' rt) \<and> length rs = length calls
    \<and> (\<forall>k < length calls. rs ! k = Inr () \<longrightarrow>
         (case calls ! k of (_, rt, i, cid) \<Rightarrow> (i, cid) \<in> held_disk d' rt))"
  using assms
proof (induction idx d calls arbitrary: rs rule: run_held.induct)
  case (2 idx d env rt i cid cs)
  obtain r idx1 d1 where a: "record_v2_held_index env idx d rt i cid = (r, idx1, d1)"
    by (cases "record_v2_held_index env idx d rt i cid") auto
  obtain rs1 where b: "run_held idx1 d1 cs = (rs1, idx', d')" and rs: "rs = r # rs1"
    using 2(2) a by (auto split: prod.splits)
  note st = record_held_step [OF a 2(3)]
  have ok: "cid_text cid" "cid = bound rt i" using 2(4) by auto
  have ih: "held_backed bound idx' d' \<and> (\<forall>rt. held_disk d1 rt \<subseteq> held_disk d' rt) \<and> length rs1 = length cs
    \<and> (\<forall>k < length cs. rs1 ! k = Inr () \<longrightarrow>
         (case cs ! k of (_, rt, i, cid) \<Rightarrow> (i, cid) \<in> held_disk d' rt))"
    using 2(4) st(1) [OF ok] by (intro 2(1) [OF a [symmetric] refl b]) auto
  have "r = Inr () \<Longrightarrow> (i, cid) \<in> held_disk d' rt" using st(3) [OF ok] ih by blast
  with ih st(2) [OF ok] show ?case unfolding rs by (auto simp: nth_Cons split: nat.splits)
qed simp

text \<open>
  C19. Durability of the held-chunk records. Take any sequence of \<open>record_v2_held_index\<close> calls for
  any roots under arbitrary I/O faults (failed opens, partial writes, failed syncs), in which every
  index of a root is pushed with the one CID bound to it. If the process then dies and the index is
  loaded again from the directory, every record whose call returned \<open>Ok\<close> is there, and no record
  names a CID that was not pushed for its index.
\<close>

theorem held_records_survive_restart:
  assumes "held_backed bound idx d"
    and "\<forall>(env, rt, i, cid) \<in> set calls. cid_text cid \<and> cid = bound rt i"
    and "run_held idx d calls = (rs, idx1, sd_files sd)"
    and "load_with H B env ro sd = Inr (idx2, sd2)" and "sd_exists sd"
    and "distinct (map fst (sd_files sd))" and "canonical_held (map fst (sd_files sd)) rt"
    and "length rt = 32" and "me_read env (held_file rt) = None"
  shows "(\<forall>k < length calls. \<forall>e i cid. rs ! k = Inr () \<longrightarrow> calls ! k = (e, rt, i, cid) \<longrightarrow>
            recorded (mi_v2_held idx2) rt i = Some cid)
       \<and> (\<forall>i cid. recorded (mi_v2_held idx2) rt i = Some cid \<longrightarrow> cid = bound rt i)"
proof -
  note l = load_with_held [OF assms(4,5,8,6,7,9)]
  note r = run_held_backed [OF assms(3,1,2)]
  have ld: "recorded (mi_v2_held idx2) rt i = Some v \<longleftrightarrow> agreed (held_disk (sd_files sd) rt) i v" for i v
    by (simp add: l scan_content_records held_disk_def)
  have b: "v = bound rt i" if "(i, v) \<in> held_disk (sd_files sd) rt" for i v
    using r that by (auto simp: held_backed_def)
  have "recorded (mi_v2_held idx2) rt i = Some cid"
    if "k < length calls" "rs ! k = Inr ()" "calls ! k = (e, rt, i, cid)" for k e i cid
  proof -
    have "(i, cid) \<in> held_disk (sd_files sd) rt" using r that by force
    then show ?thesis using b unfolding ld agreed_def by blast
  qed
  moreover have "cid = bound rt i" if "recorded (mi_v2_held idx2) rt i = Some cid" for i cid
    using that b unfolding ld agreed_def by blast
  ultimately show ?thesis by blast
qed

section \<open>Runs of the index\<close>

datatype index_op =
    OpHeld mi_env hash u32 string
  | OpProof mi_env hash u32 hash "hash list"
  | OpPrivateCid mi_env hash string
  | OpProtect mi_env hash string
  | OpCommit mi_env data_manifest
  | OpInsertPrivate mi_env hash bytes
  | OpSeed mi_env "string list"

fun index_step :: "(bytes \<Rightarrow> hash) \<Rightarrow> cbor_lib \<Rightarrow> manifest_index \<times> mdir \<Rightarrow> index_op \<Rightarrow> manifest_index \<times> mdir" where
  "index_step H B (idx, d) (OpHeld env rt i cid) = snd (record_v2_held_index env idx d rt i cid)"
| "index_step H B (idx, d) (OpProof env rt i leaf path) = snd (record_v2_pushed_proof H env idx d rt i leaf path)"
| "index_step H B (idx, d) (OpPrivateCid env rt cid) = snd (record_private_chunk_cid env idx d rt cid)"
| "index_step H B (idx, d) (OpProtect env rt cid) = snd (record_v2_held_chunk env idx d rt cid)"
| "index_step H B (idx, d) (OpCommit env m) = snd (commit_validated B env idx d m)"
| "index_step H B (idx, d) (OpInsertPrivate env rt b) = snd (insert_private env idx d rt b)"
| "index_step H B (idx, d) (OpSeed env cids) = snd (seed_gc_protected_legacy env idx d cids)"

definition index_run :: "(bytes \<Rightarrow> hash) \<Rightarrow> cbor_lib \<Rightarrow> manifest_index \<times> mdir \<Rightarrow> index_op list \<Rightarrow> manifest_index \<times> mdir" where
  "index_run H B = foldl (index_step H B)"

text \<open>What an operation may not change: a binding once made, and protection once given.\<close>

definition index_extends :: "manifest_index \<Rightarrow> manifest_index \<Rightarrow> bool" where
  "index_extends a b \<longleftrightarrow>
     (\<forall>rt i v. recorded (mi_v2_held a) rt i = Some v \<longrightarrow> recorded (mi_v2_held b) rt i = Some v)
   \<and> (\<forall>rt i p. recorded (mi_v2_proofs a) rt i = Some p \<longrightarrow> recorded (mi_v2_proofs b) rt i = Some p)
   \<and> mi_private_cid_to_root a \<subseteq>\<^sub>m mi_private_cid_to_root b
   \<and> mi_by_root a \<subseteq>\<^sub>m mi_by_root b
   \<and> mi_gc_protected a \<subseteq> mi_gc_protected b
   \<and> mi_read_only a = mi_read_only b"

definition proofs_ok :: "(bytes \<Rightarrow> hash) \<Rightarrow> manifest_index \<Rightarrow> bool" where
  "proofs_ok H idx \<longleftrightarrow> (\<forall>rt i p. recorded (mi_v2_proofs idx) rt i = Some p \<longrightarrow> pushed_proof_verifies H rt i p)"

lemma index_extends_refl [simp]: "index_extends a a"
  by (simp add: index_extends_def)

lemma index_extends_trans: "index_extends a b \<Longrightarrow> index_extends b c \<Longrightarrow> index_extends a c"
  unfolding index_extends_def by (blast intro: map_le_trans)

lemma index_extends_sidecars [simp]: "index_extends a (a\<lparr>mi_durable_sidecars := x\<rparr>)"
  by (simp add: index_extends_def)

lemma record_held_extends:
  "index_extends idx (fst (snd (record_v2_held_index env idx d rt i cid)))"
  "mi_v2_proofs (fst (snd (record_v2_held_index env idx d rt i cid))) = mi_v2_proofs idx"
proof -
  obtain r idx1 d1 where fields:
    "append_sidecar_line env idx d (held_file rt) (format_v2_held_line i cid @ [newline]) = (r, idx1, d1)"
    by (cases "append_sidecar_line env idx d (held_file rt) (format_v2_held_line i cid @ [newline])") auto
  obtain x where x: "idx1 = idx\<lparr>mi_durable_sidecars := x\<rparr>"
    using append_sidecar_line_cases(2) [OF fields] by blast
  then show "index_extends idx (fst (snd (record_v2_held_index env idx d rt i cid)))"
    and "mi_v2_proofs (fst (snd (record_v2_held_index env idx d rt i cid))) = mi_v2_proofs idx"
    using fields
    by (auto simp: record_v2_held_index_def recorded_insert index_extends_def map_le_def
        split: option.splits sum.splits)
qed

lemma record_proof_extends:
  "index_extends idx (fst (snd (record_v2_pushed_proof H env idx d rt i leaf path)))
   \<and> (proofs_ok H idx \<longrightarrow> proofs_ok H (fst (snd (record_v2_pushed_proof H env idx d rt i leaf path))))"
proof (cases "append_sidecar_line env idx d (proofs_file rt)
    (format_v2_proof_line i \<lparr>pp_leaf = leaf, pp_path = path\<rparr> @ [newline])")
  case (fields r idx1 d1)
  obtain x where x: "idx1 = idx\<lparr>mi_durable_sidecars := x\<rparr>"
    using append_sidecar_line_cases(2) [OF fields] by blast
  then show ?thesis
    using fields
    by (auto simp: record_v2_pushed_proof_def recorded_insert index_extends_def proofs_ok_def map_le_def Let_def
        split: option.splits sum.splits)
qed

lemma record_private_extends:
  "index_extends idx (fst (snd (record_private_chunk_cid env idx d rt cid)))"
  "mi_v2_proofs (fst (snd (record_private_chunk_cid env idx d rt cid))) = mi_v2_proofs idx"
proof -
  obtain r idx1 d1 where fields:
    "append_sidecar_line env idx d (private_chunks_file rt) (cid @ [newline]) = (r, idx1, d1)"
    by (cases "append_sidecar_line env idx d (private_chunks_file rt) (cid @ [newline])") auto
  obtain x where x: "idx1 = idx\<lparr>mi_durable_sidecars := x\<rparr>"
    using append_sidecar_line_cases(2) [OF fields] by blast
  then show "index_extends idx (fst (snd (record_private_chunk_cid env idx d rt cid)))"
    and "mi_v2_proofs (fst (snd (record_private_chunk_cid env idx d rt cid))) = mi_v2_proofs idx"
    using fields
    by (auto simp: record_private_chunk_cid_def index_extends_def map_le_def split: option.splits sum.splits)
qed

lemma commit_extends:
  "index_extends idx (fst (snd (commit_validated B env idx d m)))"
  "mi_v2_proofs (fst (snd (commit_validated B env idx d m))) = mi_v2_proofs idx"
  by (auto simp: commit_validated_def mi_insert_def get_by_merkle_root_def add_to_maps_def Let_def
      index_extends_def map_le_def split: sum.splits prod.splits)

lemma index_step_extends: "index_extends (fst s) (fst (index_step H B s a))"
proof (cases s; cases a)
  fix idx d env rt i cid assume "s = (idx, d)" "a = OpHeld env rt i cid"
  then show ?thesis using record_held_extends by simp
next
  fix idx d env rt i leaf path assume "s = (idx, d)" "a = OpProof env rt i leaf path"
  then show ?thesis using record_proof_extends by simp
next
  fix idx d env rt cid assume "s = (idx, d)" "a = OpPrivateCid env rt cid"
  then show ?thesis using record_private_extends by simp
next
  fix idx d env m assume "s = (idx, d)" "a = OpCommit env m"
  then show ?thesis using commit_extends by simp
qed (auto simp: record_v2_held_chunk_def insert_private_def seed_gc_protected_legacy_def index_extends_def
    split: sum.splits prod.splits)

lemma proofs_ok_cong: "mi_v2_proofs a = mi_v2_proofs b \<Longrightarrow> proofs_ok H a = proofs_ok H b"
  by (simp add: proofs_ok_def)

lemma other_ops_proofs:
  "mi_v2_proofs (fst (snd (record_v2_held_chunk env idx d rt cid))) = mi_v2_proofs idx"
  "mi_v2_proofs (fst (snd (insert_private env idx d rt b))) = mi_v2_proofs idx"
  "mi_v2_proofs (fst (snd (seed_gc_protected_legacy env idx d cids))) = mi_v2_proofs idx"
  by (simp add: record_v2_held_chunk_def split: sum.split prod.split)
    (simp add: insert_private_def split: sum.split prod.split,
     simp add: seed_gc_protected_legacy_def split: sum.split prod.split)

lemma index_step_proofs:
  assumes "proofs_ok H (fst s)"
  shows "proofs_ok H (fst (index_step H B s a))"
proof -
  obtain idx d where s: "s = (idx, d)" by (cases s)
  show ?thesis
  proof (cases "\<exists>env rt i leaf path. a = OpProof env rt i leaf path")
    case True
    then show ?thesis using record_proof_extends assms s by auto
  next
    case False
    then have np: "a \<noteq> OpProof env rt i leaf path" for env rt i leaf path by blast
    have "mi_v2_proofs (fst (index_step H B (idx, d) a)) = mi_v2_proofs idx"
    proof (cases a)
      case (OpProof env rt i leaf path)
      then show ?thesis using np by blast
    qed (simp_all only: index_step.simps record_held_extends(2) record_private_extends(2)
        commit_extends(2) other_ops_proofs)
    from proofs_ok_cong [OF this] show ?thesis using assms s by simp
  qed
qed

text \<open>A read-only index never changes the directory.\<close>

lemma read_only_ops:
  assumes "mi_read_only idx"
  shows "snd (snd (record_v2_held_index env idx d rt i cid)) = d"
    "snd (snd (record_v2_pushed_proof H env idx d rt i leaf path)) = d"
    "snd (snd (record_private_chunk_cid env idx d rt cid)) = d"
    "snd (snd (record_v2_held_chunk env idx d rt cid)) = d"
    "snd (snd (commit_validated B env idx d m)) = d"
    "snd (snd (insert_private env idx d rt b)) = d"
    "snd (snd (seed_gc_protected_legacy env idx d cids)) = d"
proof -
  obtain e where w: "ensure_writable idx = Inl e" using assms by (simp add: ensure_writable_def)
  have a: "append_sidecar_line env idx d n l = (Inl e, idx, d)" for n l
    by (simp add: append_sidecar_line_def w)
  show "snd (snd (record_v2_held_index env idx d rt i cid)) = d"
    by (simp add: record_v2_held_index_def a split: option.split)
  show "snd (snd (record_v2_pushed_proof H env idx d rt i leaf path)) = d"
    by (simp add: record_v2_pushed_proof_def a Let_def split: option.split)
  show "snd (snd (record_private_chunk_cid env idx d rt cid)) = d"
    by (simp add: record_private_chunk_cid_def a split: option.split)
  show "snd (snd (record_v2_held_chunk env idx d rt cid)) = d"
    by (simp add: record_v2_held_chunk_def append_gc_protected_line_def w)
  show "snd (snd (commit_validated B env idx d m)) = d"
    by (simp add: commit_validated_def mi_insert_def write_manifest_def w)
  show "snd (snd (insert_private env idx d rt b)) = d" by (simp add: insert_private_def w)
  show "snd (snd (seed_gc_protected_legacy env idx d cids)) = d" by (simp add: seed_gc_protected_legacy_def w)
qed

lemma read_only_step: "mi_read_only idx \<Longrightarrow> snd (index_step H B (idx, d) a) = d"
  by (cases a) (simp_all only: index_step.simps read_only_ops)

lemma verified_line: "parse_verified_proof_line H rt l = Some (i, p) \<Longrightarrow> pushed_proof_verifies H rt i p"
  unfolding parse_verified_proof_line_def by (simp split: option.splits prod.splits if_splits)

lemma load_proofs_ok:
  assumes "proofs_ok H idx"
  shows "proofs_ok H (fst (load_entry H B env (idx, d) n))"
proof -
  have ext: "proofs_ok H (fst (load_v2_proof_lines H env idx d rt c))" for rt c
  proof -
    let ?recs = "sc_records (scan_content (parse_verified_proof_line H rt) c)"
    have v: "pushed_proof_verifies H rt i p" if "map_of ?recs i = Some p" for i p
      using that verified_line unfolding scan_content_records agreed_def parsed_def by blast
    have "pushed_proof_verifies H rt' i p"
      if "recorded (entry_extend (mi_v2_proofs idx) rt ?recs) rt' i = Some p" for rt' i p
    proof (cases "rt' = rt")
      case True
      then show ?thesis
        using that recorded_extend [OF scan_sorted, of "mi_v2_proofs idx" rt "parse_verified_proof_line H rt" c i]
          v assms by (auto simp: proofs_ok_def split: option.splits)
    next
      case False
      then show ?thesis using that assms by (simp add: proofs_ok_def recorded_def entry_extend_other)
    qed
    then show ?thesis by (simp add: proofs_ok_def load_v2_proof_lines_def Let_def)
  qed
  have cong: "mi_v2_proofs i = mi_v2_proofs idx \<Longrightarrow> proofs_ok H i" for i
    using assms proofs_ok_cong by blast
  show ?thesis
    using ext assms
    by (auto simp: load_entry_def Let_def load_v2_held_lines_def load_private_chunk_lines_def add_to_maps_def
        intro!: cong split: option.split sum.split prod.split)
qed

lemma load_with_proofs_ok:
  assumes "load_with H B env ro sd = Inr (idx, sd')"
  shows "proofs_ok H idx"
proof -
  obtain i1 d1 where g: "load_gc_protected env (empty_index ro) (sd_files sd) = (i1, d1)" by fastforce
  obtain i2 d2 where l: "foldl (load_entry H B env) (i1, d1) (map fst d1) = (i2, d2)" by fastforce
  have e: "proofs_ok H (empty_index ro)" by (simp add: proofs_ok_def empty_index_def recorded_def)
  have "length (replicate 32 (0::byte)) = 32" by simp
  then have "proofs_ok H i1" using load_gc_frame(2) [OF g] e proofs_ok_cong by blast
  then have "proofs_ok H (fst (foldl (load_entry H B env) (i1, d1) ns))" for ns
  proof (induction ns arbitrary: i1 d1)
    case (Cons n ns)
    obtain i3 d3 where "load_entry H B env (i1, d1) n = (i3, d3)" by fastforce
    then show ?case using Cons.IH [of i3 d3] load_proofs_ok [OF Cons.prems, of B env d1 n] by simp
  qed simp
  then have "proofs_ok H i2" using l by (metis fst_conv)
  moreover have "mi_v2_proofs idx = mi_v2_proofs i2 \<or> idx = empty_index ro"
    using assms [unfolded load_with_def Let_def g l prod.case]
    by (auto simp: add_to_maps_def Let_def split: if_splits option.splits sum.splits)
  ultimately show ?thesis using e proofs_ok_cong by metis
qed

text \<open>
  The push proofs the index hands to the proof-of-retrieval responder always verify: whatever
  the sidecar files contain when the index is loaded, and whatever operations follow under any I/O
  faults, a proof kept for a chunk leads from its leaf to the root, fits the depth limit, and its
  chunk index fits the depth of the path.
\<close>

theorem pushed_proofs_always_verify:
  assumes "load_with H B env ro sd = Inr (idx, sd')"
    and "index_run H B (idx, sd_files sd') ops = (idx', d')"
    and "v2_pushed_proof idx' rt i = Some p"
  shows "verify_merkle_proof_bytes H (pp_leaf p) i (pp_path p) rt \<and> length (pp_path p) \<le> 32
       \<and> unat i < 2 ^ length (pp_path p)"
proof -
  have "proofs_ok H (fst (index_run H B s ops))" if "proofs_ok H (fst s)" for s
    using that by (induction ops arbitrary: s) (simp_all add: index_run_def index_step_proofs)
  from this [of "(idx, sd_files sd')"] have "pushed_proof_verifies H rt i p"
    using load_with_proofs_ok [OF assms(1)] assms(2,3) by (simp add: proofs_ok_def v2_pushed_proof_def)
  then have v: "verify_merkle_proof_bytes H (pp_leaf p) i (pp_path p) rt" "length (pp_path p) \<le> 32"
      "checked_shr0 i (length (pp_path p)) = 0"
    by (auto simp: pushed_proof_verifies_def MAX_PUSHED_PROOF_DEPTH_def)
  have "unat i < 2 ^ length (pp_path p)"
  proof (cases "length (pp_path p) = 32")
    case True
    then show ?thesis using unat_less [of i] by simp
  next
    case False
    then have "drop_bit (length (pp_path p)) i = 0" using v(2,3) by (simp add: checked_shr0_def)
    then have "unat i div 2 ^ length (pp_path p) = 0"
      by (metis drop_bit_eq_div unat_0 unat_drop_bit_eq)
    then show ?thesis by (simp add: div_eq_0_iff)
  qed
  with v show ?thesis by blast
qed

text \<open>
  No operation of the index ever rebinds: over any run, a chunk index stays recorded under its
  CID, a push proof and a private chunk's root stay as they were recorded, an indexed manifest is
  never replaced and a protected chunk stays protected; and an index opened read-only leaves the
  directory as it is.
\<close>

theorem index_run_never_rebinds:
  "index_extends idx (fst (index_run H B (idx, d) ops))
   \<and> (mi_read_only idx \<longrightarrow> snd (index_run H B (idx, d) ops) = d)"
proof (induction ops arbitrary: idx d)
  case Nil
  show ?case by (simp add: index_run_def)
next
  case (Cons a ops)
  obtain idx1 d1 where st: "index_step H B (idx, d) a = (idx1, d1)" by fastforce
  have e: "index_extends idx idx1" using index_step_extends [of "(idx, d)" H B a] st by simp
  have "mi_read_only idx \<longrightarrow> d1 = d" using read_only_step [of idx H B d a] st by simp
  moreover have "mi_read_only idx1 = mi_read_only idx" using e by (simp add: index_extends_def)
  moreover have "index_run H B (idx, d) (a # ops) = index_run H B (idx1, d1) ops"
    using st by (simp add: index_run_def)
  ultimately show ?case using Cons [of idx1 d1] index_extends_trans [OF e] by auto
qed

section \<open>The protected list\<close>

lemma parse_gc_v2_format [roundtrip]:
  assumes "length rt = 32" and "cid_text cid"
  shows "parse_gc_protected_line (format_gc_v2_line rt cid) = Some cid" "plain_line (format_gc_v2_line rt cid)"
proof -
  have "format_gc_v2_line rt cid = ''v2'' @ CHR '' '' # hex_encode rt @ CHR '' '' # cid"
    by (simp add: format_gc_v2_line_def)
  then have "split_on (CHR '' '') (format_gc_v2_line rt cid) = [''v2'', hex_encode rt, cid]"
    using cid_text_avoids [OF assms(2)] by (simp add: split_on_sep split_on_absent hex_avoids_ws)
  then show "parse_gc_protected_line (format_gc_v2_line rt cid) = Some cid"
    using assms hex_encode_hexdigits [of rt] by (simp add: parse_gc_protected_line_def cid_text_def)
  show "plain_line (format_gc_v2_line rt cid)"
    using cid_text_avoids [OF assms(2)] hex_avoids_ws
    by (auto simp: format_gc_v2_line_def plain_line_def newline_def is_ascii_ws_def)
qed

lemma parse_all_append: "parse_all p (ls @ [l]) =
    (case parse_all p ls of None \<Rightarrow> None | Some xs \<Rightarrow> map_option (\<lambda>x. xs @ [x]) (p l))"
  by (induction ls) (auto simp: option.map_comp comp_def split: option.split)

definition gc_cids :: "string \<Rightarrow> string list option" where
  "gc_cids content = parse_all parse_gc_protected_line (text_lines content)"

text \<open>
  The list on disk names every protected chunk; while it is trusted it has no torn tail.
\<close>

definition gc_backed :: "manifest_index \<Rightarrow> mdir \<Rightarrow> bool" where
  "gc_backed idx d \<longleftrightarrow> (\<exists>content cids. map_of d GC_PROTECTED_FILE = Some content \<and> gc_cids content = Some cids
     \<and> mi_gc_protected idx \<subseteq> set cids \<and> (gc_protection_intact idx \<longrightarrow> complete_part content = content))"

lemma gc_append:
  assumes "gc_cids content = Some cids" and "complete_part content = content"
    and "length rt = 32" and "cid_text cid"
  defines "line \<equiv> format_gc_v2_line rt cid @ [newline]"
  shows "gc_cids (content @ line) = Some (cids @ [cid])" "complete_part (content @ line) = content @ line"
    "gc_cids (content @ take k line) = Some cids \<or> gc_cids (content @ take k line) = Some (cids @ [cid])"
proof -
  note f = parse_gc_v2_format [OF assms(3,4)]
  have nl: "newline \<notin> set (format_gc_v2_line rt cid)" using f(2) by (simp add: plain_line_def)
  show full: "gc_cids (content @ line) = Some (cids @ [cid])"
    using text_lines_append(1) [OF nl, of "[]" content] assms(1,2) f
    by (simp add: gc_cids_def line_def parse_all_append strip_cr_plain)
  show "complete_part (content @ line) = content @ line"
    by (rule complete_part_full) (simp add: line_def)
  show "gc_cids (content @ take k line) = Some cids \<or> gc_cids (content @ take k line) = Some (cids @ [cid])"
  proof (cases "k \<le> length (format_gc_v2_line rt cid)")
    case True
    have "newline \<notin> set (take k (format_gc_v2_line rt cid))" using nl in_set_takeD by fastforce
    from text_lines_append(2) [of "[]", OF _ this, of content] show ?thesis
      using True assms(1,2) by (simp add: gc_cids_def line_def)
  next
    case False
    then have "take k line = line" by (simp add: line_def)
    with full show ?thesis by simp
  qed
qed

lemma record_protected_step:
  assumes "record_v2_held_chunk env idx d rt cid = (r, idx', d')" and "gc_backed idx d"
    and "length rt = 32" and "cid_text cid"
  shows "gc_backed idx' d'" and "r = Inr () \<Longrightarrow> cid \<in> mi_gc_protected idx'"
    and "mi_gc_protected idx \<subseteq> mi_gc_protected idx'"
proof -
  obtain content cids where c: "map_of d GC_PROTECTED_FILE = Some content" "gc_cids content = Some cids"
      "mi_gc_protected idx \<subseteq> set cids" "gc_protection_intact idx \<longrightarrow> complete_part content = content"
    using assms(2) by (auto simp: gc_backed_def)
  let ?line = "format_gc_v2_line rt cid @ [newline]"
  have "gc_backed idx' d' \<and> (r = Inr () \<longrightarrow> cid \<in> mi_gc_protected idx')
      \<and> mi_gc_protected idx \<subseteq> mi_gc_protected idx'"
  proof (cases "cid \<in> mi_gc_protected idx \<or> \<not> gc_protection_intact idx")
    case True
    then show ?thesis
      using assms(1,2) by (auto simp: record_v2_held_chunk_def split: if_splits)
  next
    case False
    then have int: "gc_protection_intact idx" "gc_protection_initialized idx" "cid \<notin> mi_gc_protected idx"
      by (auto simp: gc_protection_intact_def gc_protection_initialized_def)
    note g = gc_append [OF c(2) _ assms(3,4)]
    have cp: "complete_part content = content" using c(4) int(1) by simp
    obtain r1 d1 where a: "append_gc_protected_line env idx d ?line = (r1, d1)" by fastforce
    have d1: "d1 = d \<or> map_of d1 GC_PROTECTED_FILE = Some (content @ ?line)
        \<or> (\<exists>k. map_of d1 GC_PROTECTED_FILE = Some (content @ take k ?line))"
      and ok: "r1 = Inr () \<Longrightarrow> map_of d1 GC_PROTECTED_FILE = Some (content @ ?line)"
      using a c(1)
      by (auto simp: append_gc_protected_line_def split: sum.splits option.splits prod.splits)
    have "\<exists>content' cids'. map_of d1 GC_PROTECTED_FILE = Some content' \<and> gc_cids content' = Some cids'
        \<and> set cids \<subseteq> set cids'"
      using d1
    proof (elim disjE exE)
      fix k assume "map_of d1 GC_PROTECTED_FILE = Some (content @ take k ?line)"
      then show ?thesis using g(3) [OF cp, of k] by auto
    qed (use c(1,2) g(1) [OF cp] in auto)
    then obtain content' cids' where c': "map_of d1 GC_PROTECTED_FILE = Some content'"
        "gc_cids content' = Some cids'" "set cids \<subseteq> set cids'" by blast
    show ?thesis
    proof (cases "r1 = Inr ()")
      case True
      then have "idx' = idx\<lparr>mi_gc_protected := insert cid (mi_gc_protected idx)\<rparr>" "d' = d1" "r = Inr ()"
        using assms(1) a int by (auto simp: record_v2_held_chunk_def)
      then show ?thesis
        using ok [OF True] g(1,2) [OF cp] c(3) unfolding gc_backed_def
        by (intro conjI exI [of _ "content @ ?line"] exI [of _ "cids @ [cid]"]) auto
    next
      case False
      then have "idx' = idx\<lparr>mi_gc_intact := Some False\<rparr>" "d' = d1" "r \<noteq> Inr ()"
        using assms(1) a int by (auto simp: record_v2_held_chunk_def split: sum.splits)
      then show ?thesis
        using c' c(3) by (auto simp: gc_backed_def gc_protection_intact_def)
    qed
  qed
  then show "gc_backed idx' d'" and "r = Inr () \<Longrightarrow> cid \<in> mi_gc_protected idx'"
    and "mi_gc_protected idx \<subseteq> mi_gc_protected idx'" by auto
qed

type_synonym protect_call = "mi_env \<times> hash \<times> string"

fun run_protect :: "manifest_index \<Rightarrow> mdir \<Rightarrow> protect_call list \<Rightarrow> (store_error + unit) list \<times> manifest_index \<times> mdir" where
  "run_protect idx d [] = ([], idx, d)"
| "run_protect idx d ((env, rt, cid) # cs) =
     (case record_v2_held_chunk env idx d rt cid of (r, idx1, d1) \<Rightarrow>
      case run_protect idx1 d1 cs of (rs, idx2, d2) \<Rightarrow> (r # rs, idx2, d2))"

lemma run_protect_backed:
  assumes "run_protect idx d calls = (rs, idx', d')" and "gc_backed idx d"
    and "\<forall>(env, rt, cid) \<in> set calls. length rt = 32 \<and> cid_text cid"
  shows "gc_backed idx' d' \<and> mi_gc_protected idx \<subseteq> mi_gc_protected idx' \<and> length rs = length calls
    \<and> (\<forall>k < length calls. rs ! k = Inr () \<longrightarrow> snd (snd (calls ! k)) \<in> mi_gc_protected idx')"
  using assms
proof (induction idx d calls arbitrary: rs rule: run_protect.induct)
  case (2 idx d env rt cid cs)
  obtain r idx1 d1 where a: "record_v2_held_chunk env idx d rt cid = (r, idx1, d1)"
    by (cases "record_v2_held_chunk env idx d rt cid") auto
  obtain rs1 where b: "run_protect idx1 d1 cs = (rs1, idx', d')" and rs: "rs = r # rs1"
    using 2(2) a by (auto split: prod.splits)
  have ok: "length rt = 32" "cid_text cid" using 2(4) by auto
  note st = record_protected_step [OF a 2(3) ok]
  have ih: "gc_backed idx' d' \<and> mi_gc_protected idx1 \<subseteq> mi_gc_protected idx' \<and> length rs1 = length cs
    \<and> (\<forall>k < length cs. rs1 ! k = Inr () \<longrightarrow> snd (snd (cs ! k)) \<in> mi_gc_protected idx')"
    using 2(4) st(1) by (intro 2(1) [OF a [symmetric] refl b]) auto
  have "r = Inr () \<Longrightarrow> cid \<in> mi_gc_protected idx'" using st(2) ih by blast
  with ih st(3) show ?case unfolding rs by (auto simp: nth_Cons split: nat.splits)
qed simp

lemma load_gc_intact:
  assumes "load_gc_protected env (empty_index ro) d = (idx, d')" and "gc_protection_intact idx"
  shows "\<exists>content cids. map_of d GC_PROTECTED_FILE = Some content \<and> gc_cids content = Some cids
           \<and> mi_gc_protected idx = set cids"
proof -
  note lg = assms(1) [unfolded load_gc_protected_def Let_def]
  have ni: "\<not> gc_protection_intact (empty_index ro)" "\<not> gc_protection_intact (i\<lparr>mi_gc_intact := Some False\<rparr>)"
    for i by (simp_all add: gc_protection_intact_def empty_index_def)
  obtain content where c: "map_of d GC_PROTECTED_FILE = Some content"
    using lg assms(2) ni by (cases "map_of d GC_PROTECTED_FILE") (auto split: if_splits)
  obtain cids where p: "gc_cids content = Some cids"
    using lg assms(2) ni c by (cases "gc_cids content") (auto simp: gc_cids_def split: if_splits)
  have "mi_gc_protected idx = mi_gc_protected (empty_index ro) \<union> set cids"
    using lg [unfolded c option.case p [unfolded gc_cids_def]] assms(2) ni
    by (auto split: if_splits sum.splits prod.splits)
  then show ?thesis using c p by (simp add: empty_index_def)
qed

text \<open>
  Garbage-collection protection is durable and fails closed. From a trusted list, run any
  sequence of \<open>record_v2_held_chunk\<close> calls under arbitrary I/O faults, stop the process anywhere and
  load the list again: if the loaded list is trusted (only then may anything be deleted), every CID
  whose call returned \<open>Ok\<close> is protected; without a read fault or a failing repair it is trusted; and
  an index whose list is not trusted refuses every chunk that is not protected already, writing nothing.
\<close>

theorem gc_protection_durable:
  assumes "gc_backed idx d" and "\<forall>(env, rt, cid) \<in> set calls. length rt = 32 \<and> cid_text cid"
    and "run_protect idx d calls = (rs, idx1, d1)"
    and "load_gc_protected env (empty_index ro) d1 = (idx2, d2)"
  shows "(gc_protection_intact idx2 \<longrightarrow>
            (\<forall>k < length calls. rs ! k = Inr () \<longrightarrow> is_gc_protected idx2 (snd (snd (calls ! k)))))
       \<and> (me_read env GC_PROTECTED_FILE = None \<and> me_truncate env = None \<and> me_marker env = None
            \<longrightarrow> gc_protection_intact idx2)
       \<and> (\<not> gc_protection_intact idx2 \<longrightarrow> (\<forall>env' rt cid. \<not> is_gc_protected idx2 cid \<longrightarrow>
            (\<exists>e. record_v2_held_chunk env' idx2 d2 rt cid = (Inl e, idx2, d2))))"
proof -
  have r: "gc_backed idx1 d1" "mi_gc_protected idx \<subseteq> mi_gc_protected idx1"
      "\<forall>k < length calls. rs ! k = Inr () \<longrightarrow> snd (snd (calls ! k)) \<in> mi_gc_protected idx1"
    using run_protect_backed [OF assms(3,1,2)] by auto
  then obtain content cids where c: "map_of d1 GC_PROTECTED_FILE = Some content" "gc_cids content = Some cids"
      "mi_gc_protected idx1 \<subseteq> set cids"
    by (auto simp: gc_backed_def)
  have "mi_gc_protected idx2 = set cids" if "gc_protection_intact idx2"
    using load_gc_intact [OF assms(4) that] c(1,2) by auto
  then have "gc_protection_intact idx2 \<longrightarrow>
      (\<forall>k < length calls. rs ! k = Inr () \<longrightarrow> is_gc_protected idx2 (snd (snd (calls ! k))))"
    using r(3) c(3) by (auto simp: is_gc_protected_def)
  moreover have "gc_protection_intact idx2"
    if "me_read env GC_PROTECTED_FILE = None \<and> me_truncate env = None \<and> me_marker env = None"
    using assms(4) c(1,2) that
    by (auto simp: load_gc_protected_def Let_def gc_cids_def gc_protection_intact_def truncate_to_def
        write_marker_def split: if_splits)
  moreover have "\<exists>e. record_v2_held_chunk env' idx2 d2 rt cid = (Inl e, idx2, d2)"
    if "\<not> gc_protection_intact idx2" "\<not> is_gc_protected idx2 cid" for env' rt cid
    using that by (simp add: record_v2_held_chunk_def is_gc_protected_def)
  ultimately show ?thesis by blast
qed

text \<open>
  Committing a validated manifest: if the root is already indexed, nothing changes; otherwise
  success indexes the manifest under its root and every one of its chunks under that root, and the
  file on disk reads back as the manifest (given that CBOR decoding inverts encoding), while failure
  leaves the index as it was.
\<close>

theorem commit_validated_spec:
  assumes "commit_validated B env idx d m = (r, idx', d')"
    and "\<forall>x buf. cbor_ser B x = Inr buf \<longrightarrow> cbor_de B buf = Inr x"
  shows "case r of
      Inl e \<Rightarrow> idx' = idx
    | Inr (AlreadyPresent m') \<Rightarrow> m' = m \<and> idx' = idx \<and> d' = d \<and> get_by_merkle_root idx (merkle_root m) \<noteq> None
    | Inr (Indexed m') \<Rightarrow> m' = m \<and> get_by_merkle_root idx (merkle_root m) = None
        \<and> get_by_merkle_root idx' (merkle_root m) = Some m
        \<and> (\<forall>c \<in> set (chunks m). merkle_root_for_cid idx' (cd_cid c) = Some (merkle_root m))
        \<and> (\<forall>i. unat i < length (chunks m) \<longrightarrow> chunk_cid idx' (merkle_root m) i = Some (cd_cid (chunks m ! unat i)))
        \<and> read_manifest B None (disk_content d' (hex_encode (merkle_root m) @ ''.cbor'')) = Inr m"
proof -
  have fold: "foldl (\<lambda>f c. f(cd_cid c \<mapsto> rt)) f0 cs x = (if x \<in> cd_cid ` set cs then Some rt else f0 x)"
    for f0 :: "string \<Rightarrow> hash option" and rt cs x
    by (induction cs arbitrary: f0) auto
  show ?thesis
  proof (cases "get_by_merkle_root idx (merkle_root m) = None")
    case False
    then show ?thesis using assms(1) by (auto simp: commit_validated_def)
  next
    case True
    obtain r1 idx1 d1 where i: "mi_insert B env idx d m = (r1, idx1, d1)"
      by (cases "mi_insert B env idx d m") auto
    show ?thesis
    proof (cases r1)
      case (Inl e)
      then have "idx1 = idx" using i by (auto simp: mi_insert_def split: sum.splits prod.splits)
      then have "r = Inl (''manifest index insert failed: '' @ display_error e)" "idx' = idx"
        using assms(1) True i Inl by (auto simp: commit_validated_def)
      then show ?thesis by simp
    next
      case (Inr u)
      then have r: "r = Inr (Indexed m)" "idx' = idx1" "d' = d1"
        using assms(1) True i by (auto simp: commit_validated_def)
      have idx1: "idx1 = add_to_maps idx m"
        using i Inr by (auto simp: mi_insert_def split: sum.splits prod.splits)
      obtain buf where buf: "cbor_ser B m = Inr buf"
          "d1 = AList.update (hex_encode (merkle_root m) @ ''.cbor'') (text_of_bytes buf) d"
        using i Inr
        by (auto simp: mi_insert_def write_manifest_def fs_write_def split: sum.splits prod.splits option.splits)
      have "read_manifest B None (disk_content d' (hex_encode (merkle_root m) @ ''.cbor'')) = Inr m"
        using buf assms(2) r(3) by (simp add: read_manifest_def disk_content_def)
      then show ?thesis
        using r idx1 True
        by (auto simp: get_by_merkle_root_def add_to_maps_def Let_def merkle_root_for_cid_def chunk_cid_def fold)
    qed
  qed
qed

section \<open>Concrete runs\<close>

definition demo_root :: hash where "demo_root = replicate 32 0"

definition demo_manifest :: data_manifest where
  "demo_manifest = \<lparr>file_name = ''f'', file_hash = demo_root, total_size_bytes = 1, chunk_count = 1,
     merkle_root = demo_root,
     chunks = [\<lparr>cd_index = 0, cd_offset = 0, cd_size = 1, cd_hash = demo_root, cd_cid = ''abc'',
                cd_plaintext_hash = None\<rparr>]\<rparr>"

definition demo_cbor :: cbor_lib where
  "demo_cbor = \<lparr>cbor_ser = (\<lambda>m. if m = demo_manifest then Inr [1] else Inl ''unsupported''),
                cbor_de = (\<lambda>b. Inr demo_manifest)\<rparr>"

lemma demo_root_length [simp]: "length demo_root = 32"
  by (simp add: demo_root_def)

lemma load_with_fine: "\<exists>idx sd'. load_with H B me_fine ro sd = Inr (idx, sd')"
  by (simp add: load_with_def me_fine_def Let_def split: prod.split option.split sum.split)

lemma empty_records:
  "recorded (mi_v2_held (empty_index ro)) rt i = None" "recorded (mi_v2_proofs (empty_index ro)) rt i = None"
  by (simp_all add: empty_index_def recorded_def)

lemma append_fine:
  "append_sidecar_line me_fine (empty_index False) [] n line =
     (Inr (), (empty_index False)\<lparr>mi_durable_sidecars := {n}\<rparr>, [(n, line)])"
  by (simp add: append_sidecar_line_def ensure_writable_def empty_index_def me_fine_def io_result_def
      cut_torn_tail_def)

lemma demo_held: "\<exists>idx. run_held (empty_index False) [] [(me_fine, demo_root, 3, ''abc'')] =
    ([Inr ()], idx, [(held_file demo_root, format_v2_held_line 3 ''abc'' @ [newline])])"
  by (simp add: record_v2_held_index_def append_fine empty_records)

lemma held_backed_empty: "held_backed bound (empty_index ro) []"
  by (simp add: held_backed_def held_disk_def empty_index_def recorded_def disk_content_def parsed_def
      text_lines_def complete_part_def lines_of_def)

theorem held_records_survive_restart_witness:
  "\<exists>idx2 sd2. load_with demo_hash demo_cbor me_fine False
      \<lparr>sd_exists = True, sd_files = [(held_file demo_root, format_v2_held_line 3 ''abc'' @ [newline])],
       sd_legacy = None\<rparr> = Inr (idx2, sd2)
     \<and> recorded (mi_v2_held idx2) demo_root 3 = Some ''abc''"
proof -
  let ?sd = "\<lparr>sd_exists = True, sd_files = [(held_file demo_root, format_v2_held_line 3 ''abc'' @ [newline])],
     sd_legacy = None\<rparr>"
  let ?calls = "[(me_fine, demo_root, 3, ''abc'')]"
  obtain idx2 sd2 where l: "load_with demo_hash demo_cbor me_fine False ?sd = Inr (idx2, sd2)"
    using load_with_fine by blast
  obtain idx1 where r: "run_held (empty_index False) [] ?calls = ([Inr ()], idx1, sd_files ?sd)"
    using demo_held by auto
  have c: "\<forall>(env, rt, i, cid) \<in> set ?calls. cid_text cid \<and> cid = (\<lambda>_ _. ''abc'') rt i"
    by (simp add: cid_text_def is_ascii_ws_def)
  have can: "canonical_held (map fst (sd_files ?sd)) demo_root" by (simp add: canonical_held_def)
  have "me_read me_fine (held_file demo_root) = None" by (simp add: me_fine_def)
  from held_records_survive_restart [OF held_backed_empty c r l _ _ can demo_root_length this] l
  show ?thesis by auto
qed

lemma demo_proof_ok: "pushed_proof_verifies H demo_root 0 \<lparr>pp_leaf = demo_root, pp_path = []\<rparr>"
  by (simp add: pushed_proof_verifies_def MAX_PUSHED_PROOF_DEPTH_def checked_shr0_def
      verify_merkle_proof_bytes_def verify_merkle_proof_def)

theorem pushed_proofs_always_verify_witness:
  "\<exists>idx sd' idx' d' p. load_with demo_hash demo_cbor me_fine False \<lparr>sd_exists = True, sd_files = [], sd_legacy = None\<rparr>
        = Inr (idx, sd')
     \<and> index_run demo_hash demo_cbor (idx, sd_files sd') [OpProof me_fine demo_root 0 demo_root []] = (idx', d')
     \<and> v2_pushed_proof idx' demo_root 0 = Some p
     \<and> verify_merkle_proof_bytes demo_hash (pp_leaf p) 0 (pp_path p) demo_root"
proof -
  let ?sd = "\<lparr>sd_exists = True, sd_files = [], sd_legacy = None\<rparr>"
  have l: "load_with demo_hash demo_cbor me_fine False ?sd = Inr (empty_index False, ?sd)"
    by (simp add: load_with_def load_gc_protected_def me_fine_def)
  obtain idx' d' where r: "index_run demo_hash demo_cbor (empty_index False, sd_files ?sd)
      [OpProof me_fine demo_root 0 demo_root []] = (idx', d')" by fastforce
  have "v2_pushed_proof (fst (index_run demo_hash demo_cbor (empty_index False, sd_files ?sd)
      [OpProof me_fine demo_root 0 demo_root []])) demo_root 0 = Some \<lparr>pp_leaf = demo_root, pp_path = []\<rparr>"
    using demo_proof_ok
    by (simp add: index_run_def record_v2_pushed_proof_def append_fine Let_def empty_records
        v2_pushed_proof_def recorded_insert)
  with r have p: "v2_pushed_proof idx' demo_root 0 = Some \<lparr>pp_leaf = demo_root, pp_path = []\<rparr>" by simp
  from pushed_proofs_always_verify [OF l r p] l r p show ?thesis by blast
qed

theorem index_run_never_rebinds_witness:
  "snd (index_run demo_hash demo_cbor (empty_index True, []) [OpSeed me_fine [''abc'']]) = []"
  using index_run_never_rebinds [of "empty_index True" demo_hash demo_cbor "[]" "[OpSeed me_fine [''abc'']]"]
  by (simp add: empty_index_def)

definition demo_trusted :: manifest_index where
  "demo_trusted = (empty_index False)\<lparr>mi_gc_intact := Some True\<rparr>"

lemma demo_protect: "\<exists>idx d. run_protect demo_trusted [(GC_PROTECTED_FILE, [])] [(me_fine, demo_root, ''abc'')] =
    ([Inr ()], idx, d)"
  by (simp add: demo_trusted_def record_v2_held_chunk_def append_gc_protected_line_def ensure_writable_def
      empty_index_def me_fine_def gc_protection_initialized_def gc_protection_intact_def io_result_def)

theorem gc_protection_durable_witness:
  "\<exists>idx1 d1. run_protect demo_trusted [(GC_PROTECTED_FILE, [])] [(me_fine, demo_root, ''abc'')] = ([Inr ()], idx1, d1)
     \<and> is_gc_protected (fst (load_gc_protected me_fine (empty_index False) d1)) ''abc''"
proof -
  let ?calls = "[(me_fine, demo_root, ''abc'')]"
  obtain idx1 d1 where r: "run_protect demo_trusted [(GC_PROTECTED_FILE, [])] ?calls = ([Inr ()], idx1, d1)"
    using demo_protect by blast
  obtain idx2 d2 where l: "load_gc_protected me_fine (empty_index False) d1 = (idx2, d2)" by fastforce
  have b: "gc_backed demo_trusted [(GC_PROTECTED_FILE, [])]"
    by (simp add: gc_backed_def demo_trusted_def empty_index_def gc_cids_def text_lines_def complete_part_def
        lines_of_def)
  have c: "\<forall>(env, rt, cid) \<in> set ?calls. length rt = 32 \<and> cid_text cid"
    by (simp add: cid_text_def is_ascii_ws_def)
  have "gc_protection_intact idx2 \<and> is_gc_protected idx2 ''abc''"
    using gc_protection_durable [OF b c r l] by (simp add: me_fine_def)
  then show ?thesis using r l by auto
qed

theorem commit_validated_spec_witness:
  "\<exists>idx' d'. commit_validated demo_cbor me_fine (empty_index False) [] demo_manifest
        = (Inr (Indexed demo_manifest), idx', d')
     \<and> get_by_merkle_root idx' demo_root = Some demo_manifest
     \<and> merkle_root_for_cid idx' ''abc'' = Some demo_root"
proof -
  obtain idx' d' where c: "commit_validated demo_cbor me_fine (empty_index False) [] demo_manifest
      = (Inr (Indexed demo_manifest), idx', d')"
    by (simp add: commit_validated_def get_by_merkle_root_def mi_insert_def write_manifest_def ensure_writable_def
        fs_write_def empty_index_def me_fine_def demo_cbor_def)
  have "\<forall>x buf. cbor_ser demo_cbor x = Inr buf \<longrightarrow> cbor_de demo_cbor buf = Inr x"
    by (simp add: demo_cbor_def)
  from commit_validated_spec [OF c this] c show ?thesis by (simp add: demo_manifest_def)
qed

end
