(* ===== verification/Chunker.thy ===== *)
theory Chunker
  imports Storage_Types Merkle
begin

text \<open>
  \<open>BinaryChunker::chunk_file\<close> (\<open>sum-store/src/chunker.rs\<close>) on the bytes of the mapped file.
  The result is an option: \<open>None\<close> is the panic of an out-of-range slice, which is shown never to
  happen. The chunk count is truncated to 32 bits as in the source.
\<close>

definition chunk_descriptor_at :: "digest_lib \<Rightarrow> bytes \<Rightarrow> nat \<Rightarrow> chunk_descriptor option" where
  "chunk_descriptor_at L mapped i =
     (let offset = i * CHUNK_SIZE;
          stop = min (offset + CHUNK_SIZE) (length mapped)
      in case sub_slice mapped offset stop of None \<Rightarrow> None
         | Some chunk_data \<Rightarrow>
             (let h = blake3 L chunk_data in
              Some \<lparr>cd_index = u32_of i, cd_offset = u64_of offset, cd_size = u64_of (stop - offset),
                    cd_hash = h, cd_cid = cid_from_blake3_hash L h, cd_plaintext_hash = None\<rparr>))"

fun chunk_loop :: "digest_lib \<Rightarrow> bytes \<Rightarrow> nat list \<Rightarrow> chunk_descriptor list option" where
  "chunk_loop L mapped [] = Some []"
| "chunk_loop L mapped (i # is) =
     (case chunk_descriptor_at L mapped i of None \<Rightarrow> None
      | Some c \<Rightarrow> map_option ((#) c) (chunk_loop L mapped is))"

definition div_ceil :: "nat \<Rightarrow> nat \<Rightarrow> nat" where
  "div_ceil a b = (if a mod b = 0 then a div b else a div b + 1)"

definition chunk_file :: "digest_lib \<Rightarrow> string \<Rightarrow> bytes \<Rightarrow> data_manifest option" where
  "chunk_file L name mapped =
     (if length mapped = 0 then
        Some \<lparr>file_name = name, file_hash = replicate 32 0, total_size_bytes = 0, chunk_count = 0,
              merkle_root = replicate 32 0, chunks = []\<rparr>
      else
        (let n = u32_of (div_ceil (length mapped) CHUNK_SIZE) in
         case chunk_loop L mapped [0..<unat n] of None \<Rightarrow> None
         | Some cs \<Rightarrow>
             Some \<lparr>file_name = name, file_hash = blake3 L mapped,
                   total_size_bytes = u64_of (length mapped), chunk_count = n,
                   merkle_root = root (build (blake3 L) (map cd_hash cs)), chunks = cs\<rparr>))"

section \<open>Lemmas\<close>

lemma CHUNK_SIZE_pos [simp]: "0 < CHUNK_SIZE"
  by (simp add: CHUNK_SIZE_def)

lemma div_ceil_bounds:
  assumes "0 < b" and "0 < a"
  shows "(div_ceil a b - 1) * b < a" and "a \<le> div_ceil a b * b" and "0 < div_ceil a b"
proof -
  have a: "a = a div b * b + a mod b" by simp
  have m: "a mod b < b" using assms(1) by simp
  show "a \<le> div_ceil a b * b"
  proof (cases "a mod b = 0")
    case True
    then show ?thesis using a by (simp add: div_ceil_def)
  next
    case False
    have "a div b * b + a mod b \<le> a div b * b + b" using m by linarith
    then show ?thesis using False a by (simp add: div_ceil_def)
  qed
  show pos: "0 < div_ceil a b" using assms a by (cases "a div b") (auto simp: div_ceil_def)
  show "(div_ceil a b - 1) * b < a"
  proof (cases "a mod b = 0")
    case True
    then have "a = a div b * b" using a by simp
    moreover have "(a div b - 1) * b < a div b * b" using calculation assms by (cases "a div b") auto
    ultimately show ?thesis using True by (simp add: div_ceil_def)
  next
    case False
    then have "a div b * b < a" using a by linarith
    with False show ?thesis by (simp add: div_ceil_def)
  qed
qed

text \<open>The bytes of chunk \<open>i\<close>.\<close>

definition chunk_bytes :: "bytes \<Rightarrow> nat \<Rightarrow> bytes" where
  "chunk_bytes mapped i = take CHUNK_SIZE (drop (i * CHUNK_SIZE) mapped)"

lemma chunk_descriptor_at_Some:
  assumes "i * CHUNK_SIZE < length mapped"
  shows "chunk_descriptor_at L mapped i =
    Some \<lparr>cd_index = u32_of i, cd_offset = u64_of (i * CHUNK_SIZE),
          cd_size = u64_of (length (chunk_bytes mapped i)),
          cd_hash = blake3 L (chunk_bytes mapped i),
          cd_cid = cid_from_data L (chunk_bytes mapped i), cd_plaintext_hash = None\<rparr>"
proof -
  have "take (min (i * CHUNK_SIZE + CHUNK_SIZE) (length mapped) - i * CHUNK_SIZE) (drop (i * CHUNK_SIZE) mapped)
      = chunk_bytes mapped i"
    by (cases "i * CHUNK_SIZE + CHUNK_SIZE \<le> length mapped") (auto simp: chunk_bytes_def min_def)
  moreover have "min (i * CHUNK_SIZE + CHUNK_SIZE) (length mapped) - i * CHUNK_SIZE = length (chunk_bytes mapped i)"
    by (auto simp: chunk_bytes_def min_def)
  ultimately show ?thesis
    using assms by (simp add: chunk_descriptor_at_def sub_slice_def Let_def cid_from_data_def)
qed

lemma chunk_loop_Some:
  assumes "\<forall>i \<in> set is. i * CHUNK_SIZE < length mapped"
  shows "chunk_loop L mapped is = Some (map (\<lambda>i. the (chunk_descriptor_at L mapped i)) is)"
  using assms by (induction "is") (auto simp: chunk_descriptor_at_Some)

lemma concat_chunk_bytes:
  "concat (map (chunk_bytes mapped) [0..<n]) = take (n * CHUNK_SIZE) mapped"
proof (induction n)
  case (Suc n)
  have "take (n * CHUNK_SIZE + CHUNK_SIZE) mapped = take (n * CHUNK_SIZE) mapped @ chunk_bytes mapped n"
    by (simp add: take_add chunk_bytes_def)
  with Suc show ?case by (simp add: algebra_simps)
qed simp

lemma chunk_bytes_length:
  "length (chunk_bytes mapped i) = min CHUNK_SIZE (length mapped - i * CHUNK_SIZE)"
  by (simp add: chunk_bytes_def)

definition expected_chunks :: "digest_lib \<Rightarrow> bytes \<Rightarrow> chunk_descriptor list" where
  "expected_chunks L mapped =
     map (\<lambda>i. the (chunk_descriptor_at L mapped i)) [0..<div_ceil (length mapped) CHUNK_SIZE]"

lemma chunk_file_nonempty:
  assumes "mapped \<noteq> []" and "length mapped \<le> (2 ^ 32 - 1) * CHUNK_SIZE"
  shows "chunk_file L name mapped =
    Some \<lparr>file_name = name, file_hash = blake3 L mapped, total_size_bytes = u64_of (length mapped),
          chunk_count = u32_of (div_ceil (length mapped) CHUNK_SIZE),
          merkle_root = root (build (blake3 L) (map cd_hash (expected_chunks L mapped))),
          chunks = expected_chunks L mapped\<rparr>"
    and "unat (u32_of (div_ceil (length mapped) CHUNK_SIZE)) = div_ceil (length mapped) CHUNK_SIZE"
    and "\<forall>i < div_ceil (length mapped) CHUNK_SIZE. i * CHUNK_SIZE < length mapped"
proof -
  let ?n = "div_ceil (length mapped) CHUNK_SIZE"
  have b: "(?n - 1) * CHUNK_SIZE < length mapped" "0 < ?n"
    using div_ceil_bounds [of CHUNK_SIZE "length mapped"] assms(1) by auto
  show "\<forall>i < ?n. i * CHUNK_SIZE < length mapped"
  proof (intro allI impI)
    fix i assume "i < ?n"
    then have "i * CHUNK_SIZE \<le> (?n - 1) * CHUNK_SIZE" by (intro mult_le_mono1) simp
    then show "i * CHUNK_SIZE < length mapped" using b(1) by (rule le_less_trans)
  qed
  moreover have "?n - 1 < 2 ^ 32 - 1"
    using less_le_trans [OF b(1) assms(2)] by (simp only: mult_less_cancel2)
  then have "?n < 2 ^ 32" by linarith
  then show n: "unat (u32_of ?n) = ?n" by (rule unat_u32_of)
  ultimately show "chunk_file L name mapped =
    Some \<lparr>file_name = name, file_hash = blake3 L mapped, total_size_bytes = u64_of (length mapped),
          chunk_count = u32_of ?n,
          merkle_root = root (build (blake3 L) (map cd_hash (expected_chunks L mapped))),
          chunks = expected_chunks L mapped\<rparr>"
    using assms(1) by (simp add: chunk_file_def chunk_loop_Some n expected_chunks_def Let_def)
qed


lemma chunk_bytes_pos:
  assumes "mapped \<noteq> []" and "length mapped \<le> (2 ^ 32 - 1) * CHUNK_SIZE" and "i < div_ceil (length mapped) CHUNK_SIZE"
  shows "0 < length (chunk_bytes mapped i)"
  using chunk_file_nonempty(3) [OF assms(1,2)] assms(3) by (simp add: chunk_bytes_length)

lemma chunk_at_fields:
  fixes L :: digest_lib
  assumes "mapped \<noteq> []" and "length mapped \<le> (2 ^ 32 - 1) * CHUNK_SIZE" and "i < div_ceil (length mapped) CHUNK_SIZE"
  defines "c \<equiv> expected_chunks L mapped ! i"
  shows "unat (cd_index c) = i" and "unat (cd_offset c) = i * CHUNK_SIZE"
    and "unat (cd_size c) = length (chunk_bytes mapped i)"
    and "cd_hash c = blake3 L (chunk_bytes mapped i)"
    and "cd_cid c = cid_from_data L (chunk_bytes mapped i)"
proof -
  have i: "i * CHUNK_SIZE < length mapped" using chunk_file_nonempty(3) assms by blast
  moreover have "length (chunk_bytes mapped i) \<le> CHUNK_SIZE" by (simp add: chunk_bytes_length)
  ultimately show "unat (cd_index c) = i" "unat (cd_offset c) = i * CHUNK_SIZE"
      "unat (cd_size c) = length (chunk_bytes mapped i)"
      "cd_hash c = blake3 L (chunk_bytes mapped i)"
      "cd_cid c = cid_from_data L (chunk_bytes mapped i)"
    using assms
    by (simp_all add: expected_chunks_def chunk_descriptor_at_Some unat_u32_of unat_u64_of
        chunk_bytes_length CHUNK_SIZE_def)
qed

lemma length_expected_chunks [simp]:
  "length (expected_chunks L mapped) = div_ceil (length mapped) CHUNK_SIZE"
  by (simp add: expected_chunks_def)

text \<open>The chunk a descriptor names, cut out of the file.\<close>

definition descriptor_bytes :: "bytes \<Rightarrow> chunk_descriptor \<Rightarrow> bytes" where
  "descriptor_bytes mapped c = take (unat (cd_size c)) (drop (unat (cd_offset c)) mapped)"

lemma take_chunk_bytes:
  "take (length (chunk_bytes mapped i)) (drop (i * CHUNK_SIZE) mapped) = chunk_bytes mapped i"
  by (simp add: chunk_bytes_def min_def)

lemma descriptor_bytes_expected:
  assumes "mapped \<noteq> []" and "length mapped \<le> (2 ^ 32 - 1) * CHUNK_SIZE"
  shows "map (descriptor_bytes mapped) (expected_chunks L mapped) =
    map (chunk_bytes mapped) [0..<div_ceil (length mapped) CHUNK_SIZE]"
proof (rule nth_equalityI)
  fix i assume "i < length (map (descriptor_bytes mapped) (expected_chunks L mapped))"
  then have i: "i < div_ceil (length mapped) CHUNK_SIZE" by simp
  from chunk_at_fields [OF assms i, where L = L] i
  show "map (descriptor_bytes mapped) (expected_chunks L mapped) ! i =
      map (chunk_bytes mapped) [0..<div_ceil (length mapped) CHUNK_SIZE] ! i"
    by (simp add: descriptor_bytes_def take_chunk_bytes)
qed simp

definition well_chunked :: "bytes \<Rightarrow> data_manifest \<Rightarrow> bool" where
  "well_chunked mapped m \<longleftrightarrow>
     length (chunks m) = unat (chunk_count m)
   \<and> unat (total_size_bytes m) = length mapped
   \<and> (\<forall>i < length (chunks m).
        unat (cd_index (chunks m ! i)) = i
      \<and> unat (cd_offset (chunks m ! i)) = i * CHUNK_SIZE
      \<and> 0 < unat (cd_size (chunks m ! i))
      \<and> (if Suc i = length (chunks m) then unat (cd_size (chunks m ! i)) \<le> CHUNK_SIZE
         else unat (cd_size (chunks m ! i)) = CHUNK_SIZE))"

lemma full_chunk:
  assumes "mapped \<noteq> []" and "Suc i < div_ceil (length mapped) CHUNK_SIZE"
  shows "length (chunk_bytes mapped i) = CHUNK_SIZE"
proof -
  have "Suc i * CHUNK_SIZE \<le> (div_ceil (length mapped) CHUNK_SIZE - 1) * CHUNK_SIZE"
    using assms(2) by (intro mult_le_mono1) linarith
  then show ?thesis
    using div_ceil_bounds(1) [of CHUNK_SIZE "length mapped"] assms(1) by (simp add: chunk_bytes_length)
qed

lemma chunk_file_well_chunked:
  assumes "length mapped \<le> (2 ^ 32 - 1) * CHUNK_SIZE" and "chunk_file L name mapped = Some m"
  shows "well_chunked mapped m"
proof (cases "mapped = []")
  case True
  with assms show ?thesis by (auto simp: chunk_file_def well_chunked_def)
next
  case False
  note f = chunk_file_nonempty [OF False assms(1)]
  from f(1) assms(2) have m: "chunks m = expected_chunks L mapped"
      "unat (chunk_count m) = div_ceil (length mapped) CHUNK_SIZE"
      "unat (total_size_bytes m) = length mapped"
    using f(2) assms(1) by (auto simp: unat_u64_of CHUNK_SIZE_def)
  then show ?thesis
    using chunk_at_fields [OF False assms(1), where L = L] full_chunk [OF False]
      chunk_bytes_pos [OF False assms(1)]
    by (auto simp: well_chunked_def chunk_bytes_length)
qed

text \<open>
  Chunking partitions the file: for every file of fewer than \<open>2^32\<close> chunks the chunker does not panic, the
  descriptors carry consecutive indices and offsets, every chunk but the last has exactly 1 MiB and
  the last between 1 byte and 1 MiB, concatenating the chunks the descriptors name gives the file
  back, and each descriptor's hash and CID are those of its bytes.
\<close>

theorem chunk_file_partition:
  assumes "length mapped \<le> (2 ^ 32 - 1) * CHUNK_SIZE"
  shows "\<exists>m. chunk_file L name mapped = Some m \<and> well_chunked mapped m
           \<and> concat (map (descriptor_bytes mapped) (chunks m)) = mapped
           \<and> (\<forall>c \<in> set (chunks m). cd_hash c = blake3 L (descriptor_bytes mapped c)
                                  \<and> cd_cid c = cid_from_data L (descriptor_bytes mapped c))"
proof (cases "mapped = []")
  case True
  then show ?thesis by (auto simp: chunk_file_def well_chunked_def)
next
  case False
  note f = chunk_file_nonempty [OF False assms]
  have "concat (map (descriptor_bytes mapped) (expected_chunks L mapped)) = mapped"
    using div_ceil_bounds(2) [of CHUNK_SIZE "length mapped"] False
    by (simp only: descriptor_bytes_expected [OF False assms] concat_chunk_bytes) simp
  moreover have "cd_hash c = blake3 L (descriptor_bytes mapped c)
      \<and> cd_cid c = cid_from_data L (descriptor_bytes mapped c)" if "c \<in> set (expected_chunks L mapped)" for c
  proof -
    from that obtain i where "i < div_ceil (length mapped) CHUNK_SIZE" "c = expected_chunks L mapped ! i"
      by (auto simp: in_set_conv_nth)
    then show ?thesis using chunk_at_fields [OF False assms, where L = L and i = i]
      by (simp add: descriptor_bytes_def take_chunk_bytes)
  qed
  ultimately show ?thesis
    using f(1) [of L name] chunk_file_well_chunked [OF assms f(1) [of L name]] by auto
qed

theorem chunk_file_partition_witness:
  "\<exists>m. chunk_file demo_lib ''a'' [7, 8, 9] = Some m \<and> well_chunked [7, 8, 9] m
     \<and> concat (map (descriptor_bytes [7, 8, 9]) (chunks m)) = [7, 8, 9]
     \<and> (\<forall>c \<in> set (chunks m). cd_hash c = blake3 demo_lib (descriptor_bytes [7, 8, 9] c)
                            \<and> cd_cid c = cid_from_data demo_lib (descriptor_bytes [7, 8, 9] c))"
proof -
  have "length [7, 8, 9 :: byte] \<le> (2 ^ 32 - 1) * CHUNK_SIZE" by (simp add: CHUNK_SIZE_def)
  from chunk_file_partition [OF this] show ?thesis .
qed

end
