(* ===== verification/Serve.thy ===== *)
theory Serve
  imports Fetch Manifest_Index Chunker
begin

text \<open>
  The inbound V1 handlers of \<open>sum-store/src/serve.rs\<close>: chunk pulls with a byte window, chunk pushes,
  manifest pulls and manifest pushes with full validation. A handler's result is the response it
  sends and the state it leaves; a failed send is only logged by the source. \<open>None\<close> in place of a
  response is a panic of the slice expression.
\<close>

section \<open>Requests for chunks\<close>

definition MANIFEST_REQUEST_PREFIX :: string where "MANIFEST_REQUEST_PREFIX = ''manifest:''"

definition error_response :: "string \<Rightarrow> string \<Rightarrow> shard_response" where
  "error_response cid msg =
     \<lparr>rs_cid = cid, rs_offset = 0, rs_total_bytes = 0, rs_data = [], rs_error = Some msg\<rparr>"

definition ok_response :: "string \<Rightarrow> u64 \<Rightarrow> u64 \<Rightarrow> bytes \<Rightarrow> shard_response" where
  "ok_response cid off tot dat =
     \<lparr>rs_cid = cid, rs_offset = off, rs_total_bytes = tot, rs_data = dat, rs_error = None\<rparr>"

definition resolve_chunk_window :: "nat \<Rightarrow> u64 option \<Rightarrow> u64 option \<Rightarrow> nat \<times> nat" where
  "resolve_chunk_window tot offset max_bytes =
     (let total_u64 = u64_of tot;
          start = min (case offset of None \<Rightarrow> 0 | Some off \<Rightarrow> off) total_u64;
          len = (case max_bytes of None \<Rightarrow> total_u64 | Some n \<Rightarrow> n);
          stop = min (saturating_add start len) total_u64
      in (unat start, unat stop))"

definition mmap :: "io_env \<Rightarrow> pub_store \<Rightarrow> string \<Rightarrow> store_error + bytes" where
  "mmap env s cid =
     (case open_key env s cid of Inl e \<Rightarrow> Inl e
      | Inr None \<Rightarrow> Inl (NotFound cid)
      | Inr (Some b) \<Rightarrow> (case io_read env of Some msg \<Rightarrow> Inl (Io msg) | None \<Rightarrow> Inr b))"

definition handle_chunk_request :: "io_env \<Rightarrow> pub_store \<Rightarrow> shard_request \<Rightarrow> shard_response option" where
  "handle_chunk_request env s req =
     (let cid = sr_cid req in
      if \<not> has env s cid then Some (error_response cid (''chunk not found: '' @ cid))
      else (case mmap env s cid of
              Inl e \<Rightarrow> Some (error_response cid (''mmap error: '' @ display_error e))
            | Inr mapped \<Rightarrow>
               (case resolve_chunk_window (length mapped) (sr_offset req) (sr_max_bytes req) of (start, stop) \<Rightarrow>
                case sub_slice mapped start stop of None \<Rightarrow> None
                | Some dat \<Rightarrow> Some (ok_response cid (u64_of start) (u64_of (length mapped)) dat))))"

definition handle_push_request ::
    "digest_lib \<Rightarrow> io_env \<Rightarrow> pub_store \<Rightarrow> string \<Rightarrow> bytes \<Rightarrow> shard_response \<times> pub_store" where
  "handle_push_request L env s cid data =
     (case verify_cid L data cid of
        Inl e \<Rightarrow> (error_response cid (''CID verification failed: '' @ display_error e), s)
      | Inr _ \<Rightarrow>
         (case put L env s cid data of
            (Inl e, s') \<Rightarrow> (error_response cid (''store write failed: '' @ display_error e), s')
          | (Inr _, s') \<Rightarrow> (ok_response cid 0 (u64_of (length data)) [], s')))"

section \<open>Requests for manifests\<close>

definition hex_to_32 :: "string \<Rightarrow> hash option" where
  "hex_to_32 hex =
     (if length hex \<noteq> 64 then None
      else if list_ex is_ascii_uppercase hex then None
      else parse_hex_pairs hex)"

definition handle_manifest_request :: "cbor_lib \<Rightarrow> manifest_index \<Rightarrow> string \<Rightarrow> shard_response" where
  "handle_manifest_request B idx cid =
     (let root_hex = drop (length MANIFEST_REQUEST_PREFIX) cid in
      case hex_to_32 root_hex of
        None \<Rightarrow> error_response cid (''invalid manifest root hex: '' @ root_hex)
      | Some root_bytes \<Rightarrow>
         (case get_by_merkle_root idx root_bytes of
            Some m \<Rightarrow>
              (case cbor_ser B m of
                 Inl e \<Rightarrow> error_response cid (''manifest serialization error: '' @ e)
               | Inr buf \<Rightarrow> ok_response cid 0 (u64_of (length buf)) buf)
          | None \<Rightarrow>
              (case get_private_bytes idx root_bytes of
                 Some opaque \<Rightarrow> ok_response cid 0 (u64_of (length opaque)) opaque
               | None \<Rightarrow> error_response cid (''manifest not found for root: '' @ root_hex))))"

text \<open>The pass over the descriptors that also collects the Merkle leaves.\<close>

fun check_chunks :: "digest_lib \<Rightarrow> nat \<Rightarrow> chunk_descriptor list \<Rightarrow> string + hash list" where
  "check_chunks L i [] = Inr []"
| "check_chunks L i (c # cs) =
     (if unat (cd_index c) \<noteq> i then
        Inl (''manifest chunks out of order at position '' @ dec_of_nat i @ '': chunk_index = ''
              @ dec_of_nat (unat (cd_index c)))
      else if cd_cid c \<noteq> cid_from_blake3_hash L (cd_hash c) then
        Inl (''manifest chunk '' @ dec_of_nat i @ '' cid does not match its blake3_hash: cid='' @ cd_cid c
              @ '' expected_cid='' @ cid_from_blake3_hash L (cd_hash c))
      else map_sum id ((#) (cd_hash c)) (check_chunks L (i + 1) cs))"

definition validate_manifest_push ::
    "digest_lib \<Rightarrow> cbor_lib \<Rightarrow> string \<Rightarrow> bytes \<Rightarrow> string + data_manifest" where
  "validate_manifest_push L B root_hex data =
     (case hex_to_32 root_hex of
        None \<Rightarrow> Inl (''invalid manifest root hex: '' @ root_hex)
      | Some expected_root \<Rightarrow>
         (case cbor_de B data of
            Inl e \<Rightarrow> Inl (''manifest deserialization failed: '' @ e)
          | Inr m \<Rightarrow>
              if merkle_root m \<noteq> expected_root then
                Inl (''manifest merkle_root mismatch: cid says '' @ root_hex @ '', manifest says ''
                      @ hex_encode (merkle_root m))
              else if length (chunks m) \<noteq> unat (chunk_count m) then
                Inl (''manifest chunk_count mismatch: header says '' @ dec_of_nat (unat (chunk_count m))
                      @ '' chunks, vector has '' @ dec_of_nat (length (chunks m)))
              else
                (case check_chunks L 0 (chunks m) of
                   Inl e \<Rightarrow> Inl e
                 | Inr leaf_hashes \<Rightarrow>
                     (let recomputed = root (build (blake3 L) leaf_hashes) in
                      if recomputed \<noteq> merkle_root m then
                        Inl (''manifest merkle root recomputation failed: chunks compute to ''
                              @ hex_encode recomputed @ '', manifest claims '' @ root_hex)
                      else Inr m))))"

definition handle_manifest_push ::
    "digest_lib \<Rightarrow> cbor_lib \<Rightarrow> mi_env \<Rightarrow> manifest_index \<Rightarrow> mdir \<Rightarrow> shard_request
       \<Rightarrow> shard_response \<times> manifest_index \<times> mdir" where
  "handle_manifest_push L B env idx d req =
     (let cid = sr_cid req in
      case sr_push_data req of
        None \<Rightarrow> (error_response cid ''handle_manifest_push called without push_data'', idx, d)
      | Some data \<Rightarrow>
         (case strip_prefix MANIFEST_REQUEST_PREFIX cid of
            None \<Rightarrow> (error_response cid (''handle_manifest_push: cid does not start with `''
                       @ MANIFEST_REQUEST_PREFIX @ ''`''), idx, d)
          | Some root_hex \<Rightarrow>
             (case validate_manifest_push L B root_hex data of
                Inl reason \<Rightarrow> (error_response cid reason, idx, d)
              | Inr m \<Rightarrow>
                 (let ack = ok_response cid 0 (u64_of (length data)) [] in
                  if get_by_merkle_root idx (merkle_root m) \<noteq> None then (ack, idx, d)
                  else (case mi_insert B env idx d m of
                          (Inl e, idx', d') \<Rightarrow>
                            (error_response cid (''manifest_idx.insert failed: '' @ display_error e), idx', d')
                        | (Inr _, idx', d') \<Rightarrow> (ack, idx', d'))))))"

text \<open>The dispatcher under the read lock.\<close>

definition handle_request ::
    "digest_lib \<Rightarrow> cbor_lib \<Rightarrow> io_env \<Rightarrow> pub_store \<Rightarrow> manifest_index \<Rightarrow> shard_request
       \<Rightarrow> shard_response option \<times> pub_store" where
  "handle_request L B env s idx req =
     (let cid = sr_cid req;
          is_manifest = (strip_prefix MANIFEST_REQUEST_PREFIX cid \<noteq> None) in
      case sr_push_data req of
        Some data \<Rightarrow>
          if is_manifest then
            (Some (error_response cid ''manifest push must be dispatched via handle_manifest_push (write lock)''), s)
          else (case handle_push_request L env s cid data of (resp, s') \<Rightarrow> (Some resp, s'))
      | None \<Rightarrow>
          if is_manifest then (Some (handle_manifest_request B idx cid), s)
          else (handle_chunk_request env s req, s))"

section \<open>Windows\<close>

lemma min_unat: "unat (min a b) = min (unat a) (unat b)" for a b :: "'n::len word"
  by (simp add: min_def word_le_nat_alt)

lemma resolve_window_eq:
  assumes "tot < 2 ^ 64"
  shows "resolve_chunk_window tot offset max_bytes =
    (let start = min (case offset of None \<Rightarrow> 0 | Some off \<Rightarrow> unat off) tot;
         len = (case max_bytes of None \<Rightarrow> tot | Some n \<Rightarrow> unat n)
     in (start, min (start + len) tot))"
proof -
  have t: "unat (u64_of tot) = tot" using assms by (simp add: unat_u64_of)
  have "min (unat (saturating_add a b)) tot = min (unat a + unat b) tot" for a b :: u64
    using assms by (simp add: unat_saturating_add min_def)
  then show ?thesis
    by (simp add: resolve_chunk_window_def Let_def min_unat t split: option.split)
qed

text \<open>
  The byte window a peer selects with arbitrary 64-bit \<open>offset\<close> and \<open>max_bytes\<close> is always in
  range, the clamped offset is its start, and it is as long as asked for up to the end of the chunk:
  the saturating addition neither overflows nor inverts the window.
\<close>

theorem chunk_window_in_range:
  assumes "tot < 2 ^ 64" and "resolve_chunk_window tot (Some off) (Some n) = (start, stop)"
  shows "start \<le> stop \<and> stop \<le> tot \<and> start = min (unat off) tot \<and> stop - start = min (unat n) (tot - start)"
  using assms by (auto simp: resolve_window_eq Let_def min_def)

lemma handle_chunk_found:
  assumes "name s cid = Inr (cid @ suffix s)" and "lookup s cid = Some b" and "length b < 2 ^ 63"
    and "io_open env = None" and "io_read env = None" and "sr_cid req = cid"
  shows "handle_chunk_request env s req =
    (case resolve_chunk_window (length b) (sr_offset req) (sr_max_bytes req) of (start, stop) \<Rightarrow>
       Some (ok_response cid (u64_of start) (u64_of (length b)) (take (stop - start) (drop start b))))"
proof -
  have o: "open_key env s cid = Inr (Some b)"
    using assms lookup_map_of [of s cid b] by (simp add: open_key_def)
  obtain start stop where w: "resolve_chunk_window (length b) (sr_offset req) (sr_max_bytes req) = (start, stop)"
    by fastforce
  have "start \<le> stop \<and> stop \<le> length b"
    using w assms(3) by (auto simp: resolve_window_eq Let_def)
  then show ?thesis
    using assms o w by (simp add: handle_chunk_request_def has_def mmap_def sub_slice_def Let_def)
qed

text \<open>
  A chunk request never panics, whatever the store holds, the peer asks for and the I/O does: the
  answer is an error with no data, or the exact window of the stored bytes with its true offset and
  the true size of the chunk.
\<close>

theorem chunk_request_serves_window:
  assumes "\<forall>b. lookup s (sr_cid req) = Some b \<longrightarrow> length b < 2 ^ 63"
  shows "\<exists>resp. handle_chunk_request env s req = Some resp \<and> rs_cid resp = sr_cid req
       \<and> (rs_error resp \<noteq> None \<and> rs_data resp = [] \<or>
          (\<exists>b. lookup s (sr_cid req) = Some b \<and> rs_error resp = None
             \<and> unat (rs_total_bytes resp) = length b
             \<and> unat (rs_offset resp) = min (case sr_offset req of None \<Rightarrow> 0 | Some off \<Rightarrow> unat off) (length b)
             \<and> rs_data resp = take (case sr_max_bytes req of None \<Rightarrow> length b | Some n \<Rightarrow> unat n)
                                  (drop (unat (rs_offset resp)) b)))"
proof (cases "has env s (sr_cid req)")
  case False
  then show ?thesis by (simp add: handle_chunk_request_def error_response_def Let_def)
next
  case True
  then obtain b where o: "open_key env s (sr_cid req) = Inr (Some b)"
    by (auto simp: has_def split: sum.splits option.splits)
  then have n: "name s (sr_cid req) = Inr (sr_cid req @ suffix s)" "io_open env = None"
    and look: "lookup s (sr_cid req) = Some b"
    by (auto simp: open_key_def lookup_def name_def split: sum.splits option.splits dir_entry.splits if_splits)
  have len: "length b < 2 ^ 63" using assms look by blast
  show ?thesis
  proof (cases "io_read env")
    case (Some msg)
    then show ?thesis using True o by (simp add: handle_chunk_request_def mmap_def error_response_def Let_def)
  next
    case None
    let ?start = "min (case sr_offset req of None \<Rightarrow> 0 | Some off \<Rightarrow> unat off) (length b)"
    let ?len = "case sr_max_bytes req of None \<Rightarrow> length b | Some n \<Rightarrow> unat n"
    have w: "resolve_chunk_window (length b) (sr_offset req) (sr_max_bytes req) = (?start, min (?start + ?len) (length b))"
      using len by (simp add: resolve_window_eq Let_def)
    have u: "unat (u64_of ?start) = ?start" "unat (u64_of (length b)) = length b"
      using len by (simp_all add: unat_u64_of)
    have "take (min (?start + ?len) (length b) - ?start) (drop ?start b) = take ?len (drop ?start b)"
      by (simp add: min_def)
    then show ?thesis
      using handle_chunk_found [OF n(1) look len n(2) None refl] w u look by (simp add: ok_response_def)
  qed
qed

section \<open>Manifest validation\<close>

definition consistent_manifest :: "digest_lib \<Rightarrow> data_manifest \<Rightarrow> bool" where
  "consistent_manifest L m \<longleftrightarrow>
     length (chunks m) = unat (chunk_count m)
   \<and> (\<forall>i < length (chunks m). unat (cd_index (chunks m ! i)) = i
        \<and> cd_cid (chunks m ! i) = cid_from_blake3_hash L (cd_hash (chunks m ! i)))
   \<and> merkle_root m = root (build (blake3 L) (map cd_hash (chunks m)))"

lemma check_chunks_Inr:
  "check_chunks L i cs = Inr hs \<longleftrightarrow> hs = map cd_hash cs
     \<and> (\<forall>j < length cs. unat (cd_index (cs ! j)) = i + j \<and> cd_cid (cs ! j) = cid_from_blake3_hash L (cd_hash (cs ! j)))"
proof (induction cs arbitrary: i hs)
  case (Cons c cs)
  have "check_chunks L i (c # cs) = Inr hs \<longleftrightarrow> unat (cd_index c) = i \<and> cd_cid c = cid_from_blake3_hash L (cd_hash c)
      \<and> (\<exists>hs'. hs = cd_hash c # hs' \<and> check_chunks L (Suc i) cs = Inr hs')"
    by (cases "check_chunks L (Suc i) cs") auto
  then show ?case unfolding Cons.IH [of "Suc i"] by (auto simp: All_less_Suc2)
qed auto

lemma validate_manifest_push_iff:
  "validate_manifest_push L B root_hex data = Inr m \<longleftrightarrow>
     cbor_de B data = Inr m \<and> hex_to_32 root_hex = Some (merkle_root m) \<and> consistent_manifest L m"
proof (cases "hex_to_32 root_hex")
  case None
  then show ?thesis by (simp add: validate_manifest_push_def)
next
  case (Some rt)
  show ?thesis
  proof (cases "cbor_de B data")
    case (Inl e)
    then show ?thesis using Some by (simp add: validate_manifest_push_def)
  next
    case (Inr m')
    have "validate_manifest_push L B root_hex data = Inr m \<longleftrightarrow>
        m' = m \<and> merkle_root m' = rt \<and> length (chunks m') = unat (chunk_count m')
        \<and> check_chunks L 0 (chunks m') = Inr (map cd_hash (chunks m'))
        \<and> root (build (blake3 L) (map cd_hash (chunks m'))) = merkle_root m'"
    proof (cases "check_chunks L 0 (chunks m')")
      case (Inl e)
      then show ?thesis using Some \<open>cbor_de B data = Inr m'\<close> by (auto simp: validate_manifest_push_def)
    next
      case (Inr hs)
      then have "hs = map cd_hash (chunks m')" by (simp add: check_chunks_Inr)
      with Inr show ?thesis using Some \<open>cbor_de B data = Inr m'\<close>
        by (auto simp: validate_manifest_push_def Let_def)
    qed
    then show ?thesis
      using Some Inr by (auto simp: check_chunks_Inr consistent_manifest_def)
  qed
qed

text \<open>
  Manifest validation accepts exactly the right payloads: the root text decodes, the bytes
  deserialise to a manifest with that root, the chunk count is the number of descriptors, their
  indices count up from 0, each CID is the one of its hash, and the Merkle tree over the hashes has
  that root. Everything else is refused.
\<close>

theorem validate_manifest_push_exact:
  "validate_manifest_push L B root_hex data = Inr m \<longleftrightarrow>
     cbor_de B data = Inr m \<and> hex_to_32 root_hex = Some (merkle_root m) \<and> consistent_manifest L m"
  by (rule validate_manifest_push_iff)

lemma hex_to_32_encode [roundtrip]: "length h = 32 \<Longrightarrow> hex_to_32 (hex_encode h) = Some h"
proof -
  assume "length h = 32"
  moreover have "\<not> list_ex is_ascii_uppercase (hex_encode h)"
    using hex_encode_lowercase [of h] by (auto simp: list_ex_iff list_all_iff)
  ultimately show ?thesis by (simp add: hex_to_32_def)
qed

lemma next_level_length32:
  assumes "\<forall>d. length (H d) = 32"
  shows "\<forall>h \<in> set (next_level H hs). length h = 32"
  using assms by (induction H hs rule: next_level.induct) (auto simp: hash_pair_def)

lemma build_levels_length32:
  assumes "\<forall>d. length (H d) = 32"
  shows "\<forall>l \<in> set (build_levels H hs). \<forall>h \<in> set l. length h = 32"
  using assms
proof (induction H hs rule: build_levels.induct)
  case (1 H hs)
  then show ?case using next_level_length32 [OF 1(2), of hs] by (subst build_levels.simps) (auto simp: Let_def)
qed

lemma root_length32:
  assumes "\<forall>d. length (H d) = 32" and "\<forall>h \<in> set hs. length h = 32"
  shows "length (root (build H hs)) = 32"
proof -
  have "\<forall>l \<in> set (levels (build H hs)). \<forall>h \<in> set l. length h = 32"
    using build_levels_length32 [OF assms(1)] assms(2) by (auto simp: build_def)
  then show ?thesis
    by (auto simp: root_def zero_hash_def split: list.splits dest: last_in_set)
qed

text \<open>
  An honest push is accepted: for every file within the chunker's limit, the manifest the
  chunker builds, serialised and pushed under the hexadecimal text of its root, passes validation.
\<close>

theorem chunked_manifest_validates:
  assumes "lib_ok L" and "length mapped \<le> (2 ^ 32 - 1) * CHUNK_SIZE"
    and "chunk_file L fname mapped = Some m"
    and "\<forall>x buf. cbor_ser B x = Inr buf \<longrightarrow> cbor_de B buf = Inr x" and "cbor_ser B m = Inr data"
  shows "validate_manifest_push L B (hex_encode (merkle_root m)) data = Inr m"
proof -
  have len: "\<forall>d. length (blake3 L d) = 32" using assms(1) by auto
  have cons: "consistent_manifest L m \<and> length (merkle_root m) = 32"
  proof (cases "mapped = []")
    case True
    then have "chunks m = []" "chunk_count m = 0" "merkle_root m = replicate 32 0"
      using assms(3) by (auto simp: chunk_file_def)
    then show ?thesis by (simp add: consistent_manifest_def root_def build_def zero_hash_def)
  next
    case False
    note f = chunk_file_nonempty(1) [OF False assms(2), of L fname] chunk_file_nonempty(2) [OF False assms(2)]
    have m: "chunks m = expected_chunks L mapped" "length (chunks m) = unat (chunk_count m)"
        "merkle_root m = root (build (blake3 L) (map cd_hash (chunks m)))"
      using f assms(3) by auto
    have c: "unat (cd_index (chunks m ! i)) = i
        \<and> cd_cid (chunks m ! i) = cid_from_blake3_hash L (cd_hash (chunks m ! i))
        \<and> length (cd_hash (chunks m ! i)) = 32" if "i < length (chunks m)" for i
      using chunk_at_fields [OF False assms(2), where L = L and i = i] that m(1) len
      by (simp add: cid_from_data_def)
    have "\<forall>h \<in> set (map cd_hash (chunks m)). length h = 32"
      using c by (auto simp: in_set_conv_nth)
    then have "length (merkle_root m) = 32" using m(3) root_length32 [OF len] by simp
    then show ?thesis using m c by (simp add: consistent_manifest_def)
  qed
  then show ?thesis
    using assms(4,5) hex_to_32_encode unfolding validate_manifest_push_iff by blast
qed

text \<open>
  The text of a root is not canonical: because the two-digit parser accepts a leading plus sign,
  every root whose first byte is below 16 has a second accepted text besides its hexadecimal digits.
\<close>

theorem hex_root_text_not_canonical:
  assumes "h = b # hs" and "length h = 32" and "unat b < 16"
  shows "hex_to_32 (CHR ''+'' # tl (hex_encode h)) = Some h \<and> hex_to_32 (hex_encode h) = Some h
       \<and> CHR ''+'' # tl (hex_encode h) \<noteq> hex_encode h"
proof -
  have e: "hex_encode h = hex_digit 0 # hex_digit (unat b) # hex_encode hs"
    using assms by (simp add: hex_encode_def hex_byte_def)
  have v: "hex_val (hex_digit (unat b)) = Some (unat b)" using assms(3) by simp
  have "\<not> list_ex is_ascii_uppercase (hex_encode h)"
    using hex_encode_lowercase [of h] by (auto simp: list_ex_iff list_all_iff)
  then have "\<not> list_ex is_ascii_uppercase (CHR ''+'' # tl (hex_encode h))"
    by (simp add: e is_ascii_uppercase_def)
  moreover have "length (CHR ''+'' # tl (hex_encode h)) = 64" using assms(2) by simp
  moreover have "parse_hex_pairs (CHR ''+'' # tl (hex_encode h)) = Some h"
    unfolding e by (simp add: v assms(1))
  moreover have "hex_encode h \<noteq> CHR ''+'' # tl (hex_encode h)" by (simp add: e)
  ultimately show ?thesis using hex_to_32_encode [OF assms(2)] by (auto simp: hex_to_32_def)
qed

definition index_consistent :: "digest_lib \<Rightarrow> manifest_index \<Rightarrow> bool" where
  "index_consistent L idx \<longleftrightarrow>
     (\<forall>rt m. get_by_merkle_root idx rt = Some m \<longrightarrow> merkle_root m = rt \<and> consistent_manifest L m)"

text \<open>
  A manifest push keeps the index consistent: every indexed manifest has the root it is indexed
  under and hashes to it; a push that is acknowledged leaves a manifest for the root it names, one
  already indexed is not replaced, and a refused push changes nothing in memory.
\<close>

theorem manifest_push_keeps_index:
  assumes "handle_manifest_push L B env idx d req = (resp, idx', d')" and "index_consistent L idx"
  shows "index_consistent L idx' \<and> mi_by_root idx \<subseteq>\<^sub>m mi_by_root idx'
       \<and> (if rs_error resp = None
          then \<exists>root_hex rt. strip_prefix MANIFEST_REQUEST_PREFIX (sr_cid req) = Some root_hex
                 \<and> hex_to_32 root_hex = Some rt \<and> get_by_merkle_root idx' rt \<noteq> None
          else idx' = idx)"
proof (cases "\<exists>data root_hex m. sr_push_data req = Some data
    \<and> strip_prefix MANIFEST_REQUEST_PREFIX (sr_cid req) = Some root_hex
    \<and> validate_manifest_push L B root_hex data = Inr m")
  case False
  then have "rs_error resp \<noteq> None \<and> idx' = idx"
    using assms(1)
    by (auto simp: handle_manifest_push_def Let_def error_response_def split: option.splits sum.splits)
  then show ?thesis using assms(2) by auto
next
  case True
  then obtain data root_hex m where r: "sr_push_data req = Some data"
      "strip_prefix MANIFEST_REQUEST_PREFIX (sr_cid req) = Some root_hex"
      "validate_manifest_push L B root_hex data = Inr m" by blast
  then have v: "hex_to_32 root_hex = Some (merkle_root m)" "consistent_manifest L m"
    by (auto simp: validate_manifest_push_iff)
  note h = assms(1) [unfolded handle_manifest_push_def Let_def r option.case sum.case]
  show ?thesis
  proof (cases "get_by_merkle_root idx (merkle_root m)")
    case (Some m0)
    then have "idx' = idx" "rs_error resp = None" using h by (auto simp: ok_response_def)
    then show ?thesis using r v Some assms(2) by auto
  next
    case None
    consider (fail) "rs_error resp \<noteq> None" "idx' = idx" | (ok) "rs_error resp = None" "idx' = add_to_maps idx m"
      using h None
      by (auto simp: mi_insert_def error_response_def ok_response_def split: sum.splits prod.splits)
    then show ?thesis
    proof cases
      case fail
      then show ?thesis using assms(2) by auto
    next
      case ok
      have "index_consistent L idx'"
        using assms(2) ok(2) v(2) by (simp add: index_consistent_def get_by_merkle_root_def add_to_maps_def Let_def)
      moreover have "mi_by_root idx \<subseteq>\<^sub>m mi_by_root idx'"
        using None ok(2) by (auto simp: map_le_def get_by_merkle_root_def add_to_maps_def Let_def)
      moreover have "get_by_merkle_root idx' (merkle_root m) = Some m"
        using ok(2) by (simp add: get_by_merkle_root_def add_to_maps_def Let_def)
      ultimately show ?thesis using r v ok(1) by auto
    qed
  qed
qed

text \<open>
  Push then pull: a chunk push that is acknowledged leaves the store invariant intact and every
  other key as it was, and a pull of the whole chunk then answers with bytes that hash to its CID,
  the pushed bytes if the key was free.
\<close>

theorem push_then_pull:
  assumes "handle_push_request L env s cid data = (resp, s')" and "rs_error resp = None"
    and "exclusive env" and "store_inv L s" and "length data < 2 ^ 63"
    and "\<forall>b. lookup s cid = Some b \<longrightarrow> length b < 2 ^ 63"
  shows "store_inv L s' \<and> (\<forall>k. k \<noteq> cid \<longrightarrow> lookup s' k = lookup s k)
       \<and> (\<exists>b. handle_chunk_request io_fine s' \<lparr>sr_cid = cid, sr_offset = None, sr_max_bytes = None, sr_push_data = None\<rparr>
              = Some (ok_response cid 0 (u64_of (length b)) b)
            \<and> cid_from_data L b = cid \<and> (lookup s cid = None \<longrightarrow> b = data))"
proof -
  have p: "put L env s cid data = (Inr (), s')"
    using assms(1,2) by (auto simp: handle_push_request_def error_response_def split: sum.splits prod.splits)
  obtain b where b: "lookup s' = (lookup s)(cid \<mapsto> b)" "cid_from_data L b = cid" "lookup s cid \<in> {None, Some b}"
      "lookup s cid = None \<longrightarrow> b = data"
    using cs.put_lookup [OF assms(3) p] by (elim exE conjE) (rule that)
  have len: "length b < 2 ^ 63"
    using b(3,4) assms(5,6) by (cases "lookup s cid") auto
  have "canonical_cid L s cid = Inr () \<and> suffix s' = suffix s"
    using put_cases [OF p assms(3)] by (elim disjE conjE exE) simp_all
  then have n: "name s' cid = Inr (cid @ suffix s')" using canonical_name [of L s cid] name_cong [of s' s] by simp
  let ?req = "\<lparr>sr_cid = cid, sr_offset = None, sr_max_bytes = None, sr_push_data = None\<rparr>"
  have "resolve_chunk_window (length b) (sr_offset ?req) (sr_max_bytes ?req) = (0, length b)"
    using len by (simp add: resolve_window_eq)
  moreover have "lookup s' cid = Some b" using b(1) by simp
  ultimately have "handle_chunk_request io_fine s' ?req = Some (ok_response cid 0 (u64_of (length b)) b)"
    using handle_chunk_found [OF n _ len, of io_fine ?req] by (simp add: io_fine_def u64_of_def)
  moreover have "store_inv L s'" using cs.put_inv [OF assms(3,4), of cid data] p by simp
  ultimately show ?thesis using b by auto
qed

section \<open>Concrete requests\<close>

definition demo_chunked_manifest :: data_manifest where
  "demo_chunked_manifest = the (chunk_file demo_lib ''a'' [7])"

definition demo_chunked_cbor :: cbor_lib where
  "demo_chunked_cbor = \<lparr>cbor_ser = (\<lambda>m. if m = demo_chunked_manifest then Inr [1] else Inl ''unsupported''),
                        cbor_de = (\<lambda>b. Inr demo_chunked_manifest)\<rparr>"

lemma demo_chunked: "chunk_file demo_lib ''a'' [7] = Some demo_chunked_manifest"
proof -
  have "\<exists>m. chunk_file demo_lib ''a'' [7] = Some m"
    using chunk_file_nonempty(1) [of "[7]" demo_lib "''a''"] by (simp add: CHUNK_SIZE_def)
  then show ?thesis by (auto simp: demo_chunked_manifest_def)
qed

theorem chunk_window_in_range_witness:
  "resolve_chunk_window 10 (Some 4) (Some (- 1)) = (4, 10)"
proof -
  obtain start stop where w: "resolve_chunk_window 10 (Some 4) (Some (- 1)) = (start, stop)" by fastforce
  have "start \<le> stop \<and> stop \<le> 10 \<and> start = 4 \<and> stop - start = 10 - start"
    using chunk_window_in_range [OF _ w] by (auto simp: unsigned_minus_1_eq_mask mask_eq_exp_minus_1)
  then show ?thesis using w by auto
qed

theorem chunk_request_serves_window_witness:
  "\<exists>resp. handle_chunk_request io_fine empty_chunk_store
     \<lparr>sr_cid = demo_cid, sr_offset = None, sr_max_bytes = None, sr_push_data = None\<rparr> = Some resp
     \<and> rs_cid resp = demo_cid"
proof -
  have "lookup empty_chunk_store k = None" for k by (simp add: lookup_def empty_chunk_store_def)
  then show ?thesis
    using chunk_request_serves_window [of empty_chunk_store
        "\<lparr>sr_cid = demo_cid, sr_offset = None, sr_max_bytes = None, sr_push_data = None\<rparr>" io_fine]
    by auto
qed

theorem chunked_manifest_validates_witness:
  "validate_manifest_push demo_lib demo_chunked_cbor (hex_encode (merkle_root demo_chunked_manifest)) [1]
     = Inr demo_chunked_manifest"
proof -
  have "length [7 :: byte] \<le> (2 ^ 32 - 1) * CHUNK_SIZE" by (simp add: CHUNK_SIZE_def)
  moreover have "\<forall>x buf. cbor_ser demo_chunked_cbor x = Inr buf \<longrightarrow> cbor_de demo_chunked_cbor buf = Inr x"
    by (simp add: demo_chunked_cbor_def)
  moreover have "cbor_ser demo_chunked_cbor demo_chunked_manifest = Inr [1]"
    by (simp add: demo_chunked_cbor_def)
  ultimately show ?thesis by (rule chunked_manifest_validates [OF demo_lib_ok _ demo_chunked])
qed

theorem hex_root_text_not_canonical_witness:
  "hex_to_32 (CHR ''+'' # tl (hex_encode demo_root)) = Some demo_root
   \<and> CHR ''+'' # tl (hex_encode demo_root) \<noteq> hex_encode demo_root"
  using hex_root_text_not_canonical [of demo_root 0 "replicate 31 0"]
  by (simp add: demo_root_def replicate_Suc [symmetric] del: replicate_Suc)

theorem manifest_push_keeps_index_witness:
  "\<exists>resp idx' d'. handle_manifest_push demo_lib demo_chunked_cbor me_fine (empty_index False) []
       \<lparr>sr_cid = ''manifest:zz'', sr_offset = None, sr_max_bytes = None, sr_push_data = Some [1]\<rparr> = (resp, idx', d')
     \<and> index_consistent demo_lib idx'"
proof -
  obtain resp idx' d' where h: "handle_manifest_push demo_lib demo_chunked_cbor me_fine (empty_index False) []
       \<lparr>sr_cid = ''manifest:zz'', sr_offset = None, sr_max_bytes = None, sr_push_data = Some [1]\<rparr> = (resp, idx', d')"
    by (cases "handle_manifest_push demo_lib demo_chunked_cbor me_fine (empty_index False) []
       \<lparr>sr_cid = ''manifest:zz'', sr_offset = None, sr_max_bytes = None, sr_push_data = Some [1]\<rparr>") auto
  have "index_consistent demo_lib (empty_index False)"
    by (simp add: index_consistent_def get_by_merkle_root_def empty_index_def)
  from manifest_push_keeps_index [OF h this] h show ?thesis by blast
qed

theorem push_then_pull_witness:
  "\<exists>s' b. handle_push_request demo_lib io_fine empty_chunk_store demo_cid [7] = (ok_response demo_cid 0 1 [], s')
     \<and> handle_chunk_request io_fine s' \<lparr>sr_cid = demo_cid, sr_offset = None, sr_max_bytes = None, sr_push_data = None\<rparr>
         = Some (ok_response demo_cid 0 (u64_of (length b)) b) \<and> b = [7]"
proof -
  have v: "verify_cid demo_lib [7] demo_cid = Inr ()" by (simp add: verify_cid_def demo_cid_def)
  obtain s' where h: "handle_push_request demo_lib io_fine empty_chunk_store demo_cid [7] = (ok_response demo_cid 0 1 [], s')"
    using demo_put by (simp add: handle_push_request_def v [unfolded verify_cid_def] verify_cid_def demo_cid_def [symmetric] u64_of_def Let_def)
  have "lookup empty_chunk_store k = None" for k by (simp add: lookup_def empty_chunk_store_def)
  then show ?thesis
    using push_then_pull [OF h _ exclusive_fine store_inv_empty] h by (auto simp: ok_response_def)
qed

end
