(* ===== verification/Inbound_V2.thy ===== *)
theory Inbound_V2
  imports Push_Validator Serve
begin

text \<open>
  The dispatcher of inbound V2 requests (\<open>sum-node/src/inbound_v2.rs\<close>): pulls behind the access
  check, validated pushes with their durable records, manifest pushes that trigger attestation, and
  the held-set tracker. The access checker is a parameter, and a request's RPC answers, I/O outcomes
  and the fate of its response are the fields of \<open>inbound_env\<close>. A handler's critical sections are
  taken in the order the source takes the store lock; log lines are left out.
\<close>

section \<open>State\<close>

record v2_dispatcher =
  vd_validator :: push_validator
  vd_local :: pub_store
  vd_index :: manifest_index
  vd_mdir :: mdir
  vd_held :: "hash \<Rightarrow> u32 set"

record file_shape =
  fs_chunk_count :: u32
  fs_assignment_height :: u64
  fs_visibility :: byte
  fs_lifecycle :: byte

record inbound_env =
  ie_pv :: pv_env
  ie_get :: io_env
  ie_put :: io_env
  ie_protect :: mi_env
  ie_private :: mi_env
  ie_proof :: mi_env
  ie_held :: mi_env
  ie_manifest :: mi_env
  ie_file_shape :: "hash \<Rightarrow> string + file_shape"
  ie_sent :: bool  \<comment> \<open>\<open>respond_shard_v2\<close> returned \<open>Ok\<close>\<close>

type_synonym access_checker = "string \<Rightarrow> string \<Rightarrow> manifest_index \<Rightarrow> bool"  \<comment> \<open>peer, CID, index\<close>

section \<open>Assignment epochs\<close>

definition epoch_from_coverage :: "assignment_coverage_v2 \<Rightarrow> u64 \<Rightarrow> string + u64" where
  "epoch_from_coverage coverage assignment_height =
     (case resolved_latest_epoch coverage of
        None \<Rightarrow> Inr assignment_height
      | Some latest \<Rightarrow>
          if latest < assignment_height then
            Inl (''chain reports latest assignment epoch '' @ dec_of_nat (unat latest)
                  @ '' below the file's assignment_height '' @ dec_of_nat (unat assignment_height))
          else Inr latest)"

definition latest_assignment_epoch ::
    "(hash \<Rightarrow> string + assignment_coverage_v2 option) \<Rightarrow> hash \<Rightarrow> file_shape \<Rightarrow> string + u64" where
  "latest_assignment_epoch fetch_coverage rt shape =
     (case fetch_coverage rt of
        Inl e \<Rightarrow> Inl e
      | Inr None \<Rightarrow> Inl (''no coverage row for registered root 0x'' @ hex_encode rt)
      | Inr (Some coverage) \<Rightarrow> epoch_from_coverage coverage (fs_assignment_height shape))"

section \<open>Pulls\<close>

definition resolve_pull_window :: "nat \<Rightarrow> u64 \<Rightarrow> u64 \<Rightarrow> (nat \<times> nat) option" where
  "resolve_pull_window len offset max_bytes =
     (let total_u64 = u64_of len in
      if offset > total_u64 then None
      else (let window_end = min (saturating_add offset max_bytes) total_u64 in
            Some (unat offset, unat window_end)))"

definition ACCESS_DENIED :: string where "ACCESS_DENIED = ''ACCESS_DENIED: not in file access list''"

definition build_pull_response ::
    "access_checker \<Rightarrow> inbound_env \<Rightarrow> v2_dispatcher \<Rightarrow> string \<Rightarrow> string \<Rightarrow> u64 \<Rightarrow> u64 \<Rightarrow> shard_response_v2" where
  "build_pull_response acl env vd peer_id cid offset max_bytes =
     (if \<not> acl peer_id cid (vd_index vd) then Data cid offset 0 [] (Some ACCESS_DENIED)
      else
        (case get (ie_get env) (vd_local vd) cid of
           Inr full \<Rightarrow>
             (case resolve_pull_window (length full) offset max_bytes of
                None \<Rightarrow> Data cid offset (u64_of (length full)) []
                   (Some (''offset '' @ dec_of_nat (unat offset) @ '' > total_bytes ''
                           @ dec_of_nat (unat (u64_of (length full)))))
              | Some (s, e) \<Rightarrow> Data cid offset (u64_of (length full)) (take (e - s) (drop s full)) None)
         | Inl e \<Rightarrow> Data cid offset 0 [] (Some (''not found: '' @ display_error e))))"

definition build_manifest_pull_response ::
    "cbor_lib \<Rightarrow> access_checker \<Rightarrow> v2_dispatcher \<Rightarrow> string \<Rightarrow> hash \<Rightarrow> shard_response_v2" where
  "build_manifest_pull_response B acl vd peer_id rt =
     (if \<not> acl peer_id (MANIFEST_REQUEST_PREFIX @ hex_encode rt) (vd_index vd) then
        ManifestData rt [] (Some ACCESS_DENIED)
      else
        (case get_by_merkle_root (vd_index vd) rt of
           Some m \<Rightarrow>
             (case cbor_ser B m of Inr buf \<Rightarrow> ManifestData rt buf None
              | Inl e \<Rightarrow> ManifestData rt [] (Some (''manifest serialization error: '' @ e)))
         | None \<Rightarrow>
             (case get_private_bytes (vd_index vd) rt of
                Some opaque \<Rightarrow> ManifestData rt opaque None
              | None \<Rightarrow> ManifestData rt [] (Some (''manifest not found for root: '' @ hex_encode rt)))))"

section \<open>Pushes\<close>

definition record_pushed_proof ::
    "(bytes \<Rightarrow> hash) \<Rightarrow> mi_env \<Rightarrow> v2_dispatcher \<Rightarrow> hash \<Rightarrow> u32 \<Rightarrow> hash \<Rightarrow> hash list
       \<Rightarrow> (string + unit) \<times> v2_dispatcher" where
  "record_pushed_proof H env vd rt i leaf path =
     (case record_v2_pushed_proof H env (vd_index vd) (vd_mdir vd) rt i leaf path of
        (r, idx, d) \<Rightarrow>
          (map_sum (\<lambda>e. ''push-proof persistence failed: '' @ display_error e) id r,
           vd\<lparr>vd_index := idx, vd_mdir := d\<rparr>))"

definition record_held ::
    "mi_env \<Rightarrow> v2_dispatcher \<Rightarrow> hash \<Rightarrow> u32 \<Rightarrow> string \<Rightarrow> (string + unit) \<times> v2_dispatcher" where
  "record_held env vd rt i cid =
     (case record_v2_held_index env (vd_index vd) (vd_mdir vd) rt i cid of
        (Inl e, idx, d) \<Rightarrow>
          (Inl (''held-index persistence failed: '' @ display_error e), vd\<lparr>vd_index := idx, vd_mdir := d\<rparr>)
      | (Inr _, idx, d) \<Rightarrow>
          (Inr (), vd\<lparr>vd_index := idx, vd_mdir := d,
                      vd_held := (vd_held vd)(rt := insert i (vd_held vd rt))\<rparr>))"

text \<open>The exemption from garbage collection is durable before the chunk is written.\<close>

definition store_v2_pushed_chunk ::
    "digest_lib \<Rightarrow> inbound_env \<Rightarrow> v2_dispatcher \<Rightarrow> hash \<Rightarrow> string \<Rightarrow> bytes \<Rightarrow> (string + unit) \<times> v2_dispatcher" where
  "store_v2_pushed_chunk L env vd rt cid data =
     (case record_v2_held_chunk (ie_protect env) (vd_index vd) (vd_mdir vd) rt cid of
        (Inl e, idx, d) \<Rightarrow>
          (Inl (''gc exemption persistence failed: '' @ display_error e), vd\<lparr>vd_index := idx, vd_mdir := d\<rparr>)
      | (Inr _, idx, d) \<Rightarrow>
          (case put L (ie_put env) (vd_local vd) cid data of
             (r, s) \<Rightarrow>
               (map_sum (\<lambda>e. ''store error: '' @ display_error e) id r,
                vd\<lparr>vd_index := idx, vd_mdir := d, vd_local := s\<rparr>)))"

text \<open>The proof, then the held index: what both visibilities record, in this order.\<close>

definition record_proof_and_held ::
    "digest_lib \<Rightarrow> inbound_env \<Rightarrow> v2_dispatcher \<Rightarrow> hash \<Rightarrow> u32 \<Rightarrow> hash \<Rightarrow> hash list \<Rightarrow> string
       \<Rightarrow> string option \<times> v2_dispatcher" where
  "record_proof_and_held L env vd rt i leaf path cid =
     (case record_pushed_proof (blake3 L) (ie_proof env) vd rt i leaf path of
        (Inl e, vd1) \<Rightarrow> (Some e, vd1)
      | (Inr _, vd1) \<Rightarrow>
         (case record_held (ie_held env) vd1 rt i cid of
            (Inl e, vd2) \<Rightarrow> (Some e, vd2)
          | (Inr _, vd2) \<Rightarrow> (None, vd2)))"

definition accept_validated ::
    "digest_lib \<Rightarrow> wire_lib \<Rightarrow> inbound_env \<Rightarrow> v2_dispatcher \<Rightarrow> bytes \<Rightarrow> hash \<Rightarrow> u32 \<Rightarrow> hash list \<Rightarrow> bool
       \<Rightarrow> string option \<times> v2_dispatcher" where
  "accept_validated L W env vd data rt i path allow_private =
     (case validate_push L W (ie_pv env) (vd_validator vd) rt i data path of
        (Inl reject, pv) \<Rightarrow> (Some (display_reject reject), vd\<lparr>vd_validator := pv\<rparr>)
      | (Inr v, pv) \<Rightarrow>
         (let vd0 = vd\<lparr>vd_validator := pv\<rparr>;
              cid = cid_from_blake3_hash L (vp_leaf_hash v) in
          if is_private (vp_visibility v) \<and> \<not> allow_private then
            (Some ''re-fetch of Private data is not authorized'', vd0)
          else
            (case store_v2_pushed_chunk L env vd0 rt cid data of
               (Inl e, vd1) \<Rightarrow> (Some e, vd1)
             | (Inr _, vd1) \<Rightarrow>
                 if is_private (vp_visibility v) then
                   (case record_private_chunk_cid (ie_private env) (vd_index vd1) (vd_mdir vd1) rt cid of
                      (Inl e, idx, d) \<Rightarrow>
                        (Some (''private chunk mapping persistence failed: '' @ display_error e),
                         vd1\<lparr>vd_index := idx, vd_mdir := d\<rparr>)
                    | (Inr _, idx, d) \<Rightarrow>
                        record_proof_and_held L env (vd1\<lparr>vd_index := idx, vd_mdir := d\<rparr>) rt i (vp_leaf_hash v) path cid)
                 else record_proof_and_held L env vd1 rt i (vp_leaf_hash v) path cid)))"

definition accept_chunk ::
    "digest_lib \<Rightarrow> wire_lib \<Rightarrow> inbound_env \<Rightarrow> v2_dispatcher \<Rightarrow> bytes \<Rightarrow> hash \<Rightarrow> u32 \<Rightarrow> hash list
       \<Rightarrow> string option \<times> v2_dispatcher" where
  "accept_chunk L W env vd data rt i path = accept_validated L W env vd data rt i path True"

definition accept_refetched_chunk ::
    "digest_lib \<Rightarrow> wire_lib \<Rightarrow> inbound_env \<Rightarrow> v2_dispatcher \<Rightarrow> bytes \<Rightarrow> hash \<Rightarrow> u32 \<Rightarrow> hash list
       \<Rightarrow> string option \<times> v2_dispatcher" where
  "accept_refetched_chunk L W env vd data rt i path = accept_validated L W env vd data rt i path False"

definition accept_refetched_manifest ::
    "digest_lib \<Rightarrow> cbor_lib \<Rightarrow> inbound_env \<Rightarrow> v2_dispatcher \<Rightarrow> hash \<Rightarrow> u32 \<Rightarrow> bytes
       \<Rightarrow> (string + data_manifest) \<times> v2_dispatcher" where
  "accept_refetched_manifest L B env vd rt chain_chunk_count manifest_bytes =
     (case validate_manifest_push L B (hex_encode rt) manifest_bytes of
        Inl e \<Rightarrow> (Inl e, vd)
      | Inr m \<Rightarrow>
          if chunk_count m \<noteq> chain_chunk_count then
            (Inl (''manifest declares '' @ dec_of_nat (unat (chunk_count m)) @ '' chunks, the chain registered ''
                   @ dec_of_nat (unat chain_chunk_count)), vd)
          else if get_by_merkle_root (vd_index vd) rt = None then
            (case mi_insert B (ie_manifest env) (vd_index vd) (vd_mdir vd) m of
               (Inl e, idx, d) \<Rightarrow>
                 (Inl (''manifest persistence failed: '' @ display_error e), vd\<lparr>vd_index := idx, vd_mdir := d\<rparr>)
             | (Inr _, idx, d) \<Rightarrow> (Inr m, vd\<lparr>vd_index := idx, vd_mdir := d\<rparr>))
          else (Inr m, vd))"

section \<open>Manifest pushes\<close>

definition held_for :: "v2_dispatcher \<Rightarrow> hash \<Rightarrow> u32 set" where
  "held_for vd rt = vd_held vd rt"

text \<open>A spawned attestation is the root and the held set it was given.\<close>

type_synonym attestation = "hash \<times> u32 set"

definition spawn_attestation :: "v2_dispatcher \<Rightarrow> hash \<Rightarrow> attestation" where
  "spawn_attestation vd rt = (rt, held_for vd rt)"

definition handle_manifest_push_v2 ::
    "digest_lib \<Rightarrow> cbor_lib \<Rightarrow> inbound_env \<Rightarrow> v2_dispatcher \<Rightarrow> hash \<Rightarrow> bytes
       \<Rightarrow> shard_response_v2 \<times> v2_dispatcher \<times> attestation option" where
  "handle_manifest_push_v2 L B env vd rt manifest_bytes =
     (let refuse = (\<lambda>e vd'. (ManifestPushAck rt (Some e), vd', None));
          acknowledge = (\<lambda>vd'. (ManifestPushAck rt None, vd',
                               if ie_sent env then Some (spawn_attestation vd' rt) else None)) in
      case ie_file_shape env rt of
        Inl e \<Rightarrow> refuse (''chain probe failed: '' @ e) vd
      | Inr shape \<Rightarrow>
          if is_private (fs_visibility shape) then
            (if get_private_bytes (vd_index vd) rt \<noteq> None then acknowledge vd
             else
               (case insert_private (ie_manifest env) (vd_index vd) (vd_mdir vd) rt manifest_bytes of
                  (Inl e, idx, d) \<Rightarrow>
                    refuse (''private manifest persistence failed: '' @ display_error e)
                      (vd\<lparr>vd_index := idx, vd_mdir := d\<rparr>)
                | (Inr _, idx, d) \<Rightarrow> acknowledge (vd\<lparr>vd_index := idx, vd_mdir := d\<rparr>)))
          else
            (case validate_manifest_push L B (hex_encode rt) manifest_bytes of
               Inl reason \<Rightarrow> refuse reason vd
             | Inr m \<Rightarrow>
                 if get_by_merkle_root (vd_index vd) rt \<noteq> None then acknowledge vd
                 else
                   (case mi_insert B (ie_manifest env) (vd_index vd) (vd_mdir vd) m of
                      (Inl e, idx, d) \<Rightarrow>
                        refuse (''manifest persistence failed: '' @ display_error e)
                          (vd\<lparr>vd_index := idx, vd_mdir := d\<rparr>)
                    | (Inr _, idx, d) \<Rightarrow> acknowledge (vd\<lparr>vd_index := idx, vd_mdir := d\<rparr>))))"

section \<open>The dispatcher\<close>

definition handle_v2 ::
    "digest_lib \<Rightarrow> wire_lib \<Rightarrow> cbor_lib \<Rightarrow> access_checker \<Rightarrow> inbound_env \<Rightarrow> v2_dispatcher \<Rightarrow> string
       \<Rightarrow> shard_request_v2 \<Rightarrow> shard_response_v2 \<times> v2_dispatcher \<times> attestation option" where
  "handle_v2 L W B acl env vd peer_id request =
     (case request of
        Pull cid offset max_bytes \<Rightarrow> (build_pull_response acl env vd peer_id cid offset max_bytes, vd, None)
      | Push data rt i path \<Rightarrow>
          (case accept_chunk L W env vd data rt i path of (e, vd') \<Rightarrow> (PushAck rt i e, vd', None))
      | ManifestPush rt manifest_bytes \<Rightarrow> handle_manifest_push_v2 L B env vd rt manifest_bytes
      | ManifestPull rt \<Rightarrow> (build_manifest_pull_response B acl vd peer_id rt, vd, None))"

definition v2_dispatcher_new :: "push_validator \<Rightarrow> pub_store \<Rightarrow> manifest_index \<Rightarrow> mdir \<Rightarrow> v2_dispatcher" where
  "v2_dispatcher_new pv s idx d =
     \<lparr>vd_validator = pv, vd_local = s, vd_index = idx, vd_mdir = d, vd_held = (\<lambda>_. {})\<rparr>"

text \<open>Rebuilding the held tracker after a restart; the count the source also returns is for the log.\<close>

definition held_from_disk :: "io_env \<Rightarrow> pub_store \<Rightarrow> manifest_index \<Rightarrow> hash \<Rightarrow> u32 set" where
  "held_from_disk env s idx rt =
     (case v2_held_records idx rt of None \<Rightarrow> {}
      | Some records \<Rightarrow> set (map fst (filter (\<lambda>(_, cid). has env s cid) records)))
   \<union> (case get_by_merkle_root idx rt of None \<Rightarrow> {}
      | Some m \<Rightarrow> set (map cd_index (filter (\<lambda>c. has env s (cd_cid c)) (chunks m))))"

definition seed_held_from_disk :: "io_env \<Rightarrow> v2_dispatcher \<Rightarrow> v2_dispatcher" where
  "seed_held_from_disk env vd =
     vd\<lparr>vd_held := (\<lambda>rt. vd_held vd rt \<union> held_from_disk env (vd_local vd) (vd_index vd) rt)\<rparr>"

section \<open>What a record leaves behind\<close>

lemma protect_record:
  assumes "record_v2_held_chunk env idx d rt cid = (r, idx', d')"
  shows "index_extends idx idx'" "mi_v2_proofs idx' = mi_v2_proofs idx" "mi_v2_held idx' = mi_v2_held idx"
    "mi_by_root idx' = mi_by_root idx" "r = Inr () \<Longrightarrow> is_gc_protected idx' cid"
  using assms
  by (auto simp: record_v2_held_chunk_def is_gc_protected_def index_extends_def split: if_splits sum.splits prod.splits)

lemma private_record:
  assumes "record_private_chunk_cid env idx d rt cid = (r, idx', d')"
  shows "index_extends idx idx'" "mi_v2_proofs idx' = mi_v2_proofs idx" "mi_by_root idx' = mi_by_root idx"
    "r = Inr () \<Longrightarrow> mi_private_cid_to_root idx' cid = Some rt"
proof -
  show "index_extends idx idx'" "mi_v2_proofs idx' = mi_v2_proofs idx"
    using record_private_extends [where env = env and idx = idx and d = d and rt = rt and cid = cid] assms by simp_all
  obtain r1 idx1 d1 where a: "append_sidecar_line env idx d (private_chunks_file rt) (cid @ [newline]) = (r1, idx1, d1)"
    by (metis prod_cases3)
  obtain x where "idx1 = idx\<lparr>mi_durable_sidecars := x\<rparr>" using append_sidecar_line_cases(2) [OF a] by blast
  then show "mi_by_root idx' = mi_by_root idx" "r = Inr () \<Longrightarrow> mi_private_cid_to_root idx' cid = Some rt"
    using assms a by (auto simp: record_private_chunk_cid_def split: option.splits if_splits sum.splits)
qed

lemma proof_record:
  assumes "record_v2_pushed_proof H env idx d rt i leaf path = (r, idx', d')"
  shows "index_extends idx idx'" "proofs_ok H idx \<Longrightarrow> proofs_ok H idx'" "mi_by_root idx' = mi_by_root idx"
    "r = Inr () \<Longrightarrow> v2_pushed_proof idx' rt i = Some \<lparr>pp_leaf = leaf, pp_path = path\<rparr>"
proof -
  show "index_extends idx idx'" "proofs_ok H idx \<Longrightarrow> proofs_ok H idx'"
    using record_proof_extends [where H = H and env = env and idx = idx and d = d and rt = rt and i = i and leaf = leaf and path = path] assms by simp_all
  obtain r1 idx1 d1 where a: "append_sidecar_line env idx d (proofs_file rt)
      (format_v2_proof_line i \<lparr>pp_leaf = leaf, pp_path = path\<rparr> @ [newline]) = (r1, idx1, d1)"
    by (metis prod_cases3)
  obtain x where x: "idx1 = idx\<lparr>mi_durable_sidecars := x\<rparr>" using append_sidecar_line_cases(2) [OF a] by blast
  then show "mi_by_root idx' = mi_by_root idx"
    using assms a by (auto simp: record_v2_pushed_proof_def Let_def split: option.splits if_splits sum.splits)
  show "r = Inr () \<Longrightarrow> v2_pushed_proof idx' rt i = Some \<lparr>pp_leaf = leaf, pp_path = path\<rparr>"
    using assms a x
    by (auto simp: record_v2_pushed_proof_def v2_pushed_proof_def recorded_insert Let_def
        split: option.splits if_splits sum.splits)
qed

lemma held_record:
  assumes "record_v2_held_index env idx d rt i cid = (r, idx', d')"
  shows "index_extends idx idx'" "mi_v2_proofs idx' = mi_v2_proofs idx" "mi_by_root idx' = mi_by_root idx"
    "r = Inr () \<Longrightarrow> recorded (mi_v2_held idx') rt i = Some cid"
proof -
  show "index_extends idx idx'" "mi_v2_proofs idx' = mi_v2_proofs idx"
    using record_held_extends [where env = env and idx = idx and d = d and rt = rt and i = i and cid = cid] assms by simp_all
  obtain r1 idx1 d1 where a: "append_sidecar_line env idx d (held_file rt) (format_v2_held_line i cid @ [newline])
      = (r1, idx1, d1)" by (metis prod_cases3)
  obtain x where "idx1 = idx\<lparr>mi_durable_sidecars := x\<rparr>" using append_sidecar_line_cases(2) [OF a] by blast
  then show "mi_by_root idx' = mi_by_root idx" "r = Inr () \<Longrightarrow> recorded (mi_v2_held idx') rt i = Some cid"
    using assms a by (auto simp: record_v2_held_index_def recorded_insert split: option.splits if_splits sum.splits)
qed

section \<open>Growth\<close>

lemma map_leD: "f \<subseteq>\<^sub>m g \<Longrightarrow> f x = Some y \<Longrightarrow> g x = Some y"
  by (metis domI map_le_def)

lemma index_extendsD:
  assumes "index_extends a b"
  shows "recorded (mi_v2_held a) rt i = Some cid \<Longrightarrow> recorded (mi_v2_held b) rt i = Some cid"
    "v2_pushed_proof a rt i = Some p \<Longrightarrow> v2_pushed_proof b rt i = Some p"
    "mi_private_cid_to_root a c = Some rt \<Longrightarrow> mi_private_cid_to_root b c = Some rt"
    "is_gc_protected a c \<Longrightarrow> is_gc_protected b c"
    "get_by_merkle_root a rt = Some m \<Longrightarrow> get_by_merkle_root b rt = Some m"
  using assms unfolding index_extends_def
  by (auto simp: v2_pushed_proof_def is_gc_protected_def get_by_merkle_root_def dest: map_leD)

text \<open>What no handler takes back: an index binding, a stored chunk, a held index.\<close>

definition vd_grows :: "digest_lib \<Rightarrow> v2_dispatcher \<Rightarrow> v2_dispatcher \<Rightarrow> bool" where
  "vd_grows L a b \<longleftrightarrow> index_extends (vd_index a) (vd_index b) \<and> lookup (vd_local a) \<subseteq>\<^sub>m lookup (vd_local b)
     \<and> (proofs_ok (blake3 L) (vd_index a) \<longrightarrow> proofs_ok (blake3 L) (vd_index b))
     \<and> (store_inv L (vd_local a) \<longrightarrow> store_inv L (vd_local b)) \<and> (\<forall>rt. vd_held a rt \<subseteq> vd_held b rt)"

lemma vd_grows_refl [simp]: "vd_grows L a a"
  by (simp add: vd_grows_def)

lemma vd_grows_trans: "vd_grows L a b \<Longrightarrow> vd_grows L b c \<Longrightarrow> vd_grows L a c"
  unfolding vd_grows_def by (blast intro: index_extends_trans map_le_trans)

lemma vd_grows_index:
  assumes "index_extends (vd_index vd) idx"
    and "proofs_ok (blake3 L) (vd_index vd) \<longrightarrow> proofs_ok (blake3 L) idx"
  shows "vd_grows L vd (vd\<lparr>vd_index := idx, vd_mdir := d\<rparr>)"
  using assms by (simp add: vd_grows_def)

lemma put_grows:
  assumes "put L env s cid data = (r, s')" and "exclusive env"
  shows "lookup s \<subseteq>\<^sub>m lookup s'"
  using put_lookup_cases [OF assms] by (auto simp: map_le_def)

lemma store_pushed_chunk_step:
  assumes "store_v2_pushed_chunk L env vd rt cid data = (r, vd')" and "exclusive (ie_put env)"
  shows "vd_grows L vd vd'" "vd_held vd' = vd_held vd" "mi_by_root (vd_index vd') = mi_by_root (vd_index vd)"
    "r = Inr () \<Longrightarrow> is_gc_protected (vd_index vd') cid
       \<and> (\<exists>b. lookup (vd_local vd') cid = Some b \<and> cid_from_data L b = cid)"
proof -
  obtain rp idx d where p: "record_v2_held_chunk (ie_protect env) (vd_index vd) (vd_mdir vd) rt cid = (rp, idx, d)"
    by (metis prod_cases3)
  obtain rs s where q: "put L (ie_put env) (vd_local vd) cid data = (rs, s)" by fastforce
  note pr = protect_record [OF p]
  have g: "vd_grows L vd (vd\<lparr>vd_index := idx, vd_mdir := d\<rparr>)"
    using pr(1,2) proofs_ok_cong [OF pr(2)] by (simp add: vd_grows_index)
  have g2: "vd_grows L vd (vd\<lparr>vd_index := idx, vd_mdir := d, vd_local := s\<rparr>)"
    using g put_grows [OF q assms(2)] put_store_inv [OF assms(2), of L "vd_local vd" cid data] q
    by (simp add: vd_grows_def)
  show "vd_grows L vd vd'" "vd_held vd' = vd_held vd" "mi_by_root (vd_index vd') = mi_by_root (vd_index vd)"
    using assms(1) p q g g2 pr(4) by (auto simp: store_v2_pushed_chunk_def split: sum.splits)
  have "\<exists>b. lookup s cid = Some b \<and> cid_from_data L b = cid" if "rs = Inr ()"
    using cs.put_Ok [OF assms(2)] q that by blast
  then show "r = Inr () \<Longrightarrow> is_gc_protected (vd_index vd') cid
       \<and> (\<exists>b. lookup (vd_local vd') cid = Some b \<and> cid_from_data L b = cid)"
    using assms(1) p q pr(5) by (cases rs) (auto simp: store_v2_pushed_chunk_def split: sum.splits)
qed

lemma record_proof_and_held_step:
  assumes "record_proof_and_held L env vd rt i leaf path cid = (e, vd')"
  shows "vd_grows L vd vd'" "vd_local vd' = vd_local vd" "mi_by_root (vd_index vd') = mi_by_root (vd_index vd)"
    "e = None \<Longrightarrow> v2_pushed_proof (vd_index vd') rt i = Some \<lparr>pp_leaf = leaf, pp_path = path\<rparr>
       \<and> recorded (mi_v2_held (vd_index vd')) rt i = Some cid
       \<and> vd_held vd' = (vd_held vd)(rt := insert i (vd_held vd rt))"
    "e \<noteq> None \<Longrightarrow> vd_held vd' = vd_held vd"
proof -
  obtain rp idx1 d1 where p: "record_v2_pushed_proof (blake3 L) (ie_proof env) (vd_index vd) (vd_mdir vd) rt i leaf path
      = (rp, idx1, d1)" by (metis prod_cases3)
  obtain rh idx2 d2 where h: "record_v2_held_index (ie_held env) idx1 d1 rt i cid = (rh, idx2, d2)"
    by (metis prod_cases3)
  note pr = proof_record [OF p] and hr = held_record [OF h]
  have g1: "vd_grows L vd (vd\<lparr>vd_index := idx1, vd_mdir := d1\<rparr>)"
    using pr(1,2) by (simp add: vd_grows_index)
  have g2: "vd_grows L vd (vd\<lparr>vd_index := idx2, vd_mdir := d2\<rparr>)"
    using pr(1,2) hr(1) proofs_ok_cong [OF hr(2)] by (auto simp: vd_grows_def intro: index_extends_trans)
  then have g3: "vd_grows L vd (vd\<lparr>vd_index := idx2, vd_mdir := d2,
      vd_held := (vd_held vd)(rt := insert i (vd_held vd rt))\<rparr>)"
    by (auto simp: vd_grows_def)
  consider (proof_failed) x where "rp = Inl x" "e \<noteq> None" "vd' = vd\<lparr>vd_index := idx1, vd_mdir := d1\<rparr>"
    | (held_failed) x where "rp = Inr ()" "rh = Inl x" "e \<noteq> None" "vd' = vd\<lparr>vd_index := idx2, vd_mdir := d2\<rparr>"
    | (ok) "rp = Inr ()" "rh = Inr ()" "e = None" "vd' = vd\<lparr>vd_index := idx2, vd_mdir := d2,
      vd_held := (vd_held vd)(rt := insert i (vd_held vd rt))\<rparr>"
    using assms p h
    by (cases rp; cases rh) (auto simp: record_proof_and_held_def record_pushed_proof_def record_held_def)
  then have "vd_grows L vd vd' \<and> vd_local vd' = vd_local vd \<and> mi_by_root (vd_index vd') = mi_by_root (vd_index vd)
     \<and> (e = None \<longrightarrow> v2_pushed_proof (vd_index vd') rt i = Some \<lparr>pp_leaf = leaf, pp_path = path\<rparr>
       \<and> recorded (mi_v2_held (vd_index vd')) rt i = Some cid
       \<and> vd_held vd' = (vd_held vd)(rt := insert i (vd_held vd rt)))
     \<and> (e \<noteq> None \<longrightarrow> vd_held vd' = vd_held vd)" (is ?all)
  proof cases
    case proof_failed
    then show ?all using g1 pr(3) by auto
  next
    case held_failed
    then show ?all using g2 pr(3) hr(3) by auto
  next
    case ok
    then show ?all using g3 pr(3,4) hr(2,3,4) by (simp add: v2_pushed_proof_def)
  qed
  then show "vd_grows L vd vd'" "vd_local vd' = vd_local vd" "mi_by_root (vd_index vd') = mi_by_root (vd_index vd)"
    "e = None \<Longrightarrow> v2_pushed_proof (vd_index vd') rt i = Some \<lparr>pp_leaf = leaf, pp_path = path\<rparr>
       \<and> recorded (mi_v2_held (vd_index vd')) rt i = Some cid
       \<and> vd_held vd' = (vd_held vd)(rt := insert i (vd_held vd rt))"
    "e \<noteq> None \<Longrightarrow> vd_held vd' = vd_held vd" by blast+
qed

section \<open>Accepting a chunk\<close>

lemma accept_validated_step:
  assumes "accept_validated L W env vd data rt i path ap = (e, vd')" and "exclusive (ie_put env)"
  shows "vd_grows L vd vd' \<and> mi_by_root (vd_index vd') = mi_by_root (vd_index vd)
    \<and> (e \<noteq> None \<longrightarrow> vd_held vd' = vd_held vd)
    \<and> (e = None \<longrightarrow> (\<exists>v pv b. validate_push L W (ie_pv env) (vd_validator vd) rt i data path = (Inr v, pv)
         \<and> (is_private (vp_visibility v) \<longrightarrow>
              ap \<and> mi_private_cid_to_root (vd_index vd') (cid_from_blake3_hash L (vp_leaf_hash v)) = Some rt)
         \<and> is_gc_protected (vd_index vd') (cid_from_blake3_hash L (vp_leaf_hash v))
         \<and> lookup (vd_local vd') (cid_from_blake3_hash L (vp_leaf_hash v)) = Some b
         \<and> cid_from_data L b = cid_from_blake3_hash L (vp_leaf_hash v)
         \<and> v2_pushed_proof (vd_index vd') rt i = Some \<lparr>pp_leaf = vp_leaf_hash v, pp_path = path\<rparr>
         \<and> recorded (mi_v2_held (vd_index vd')) rt i = Some (cid_from_blake3_hash L (vp_leaf_hash v))
         \<and> vd_held vd' = (vd_held vd)(rt := insert i (vd_held vd rt))))"
proof -
  obtain r pv where v: "validate_push L W (ie_pv env) (vd_validator vd) rt i data path = (r, pv)" by fastforce
  define vd0 where "vd0 = vd\<lparr>vd_validator := pv\<rparr>"
  have g0: "vd_grows L vd vd0" "vd_held vd0 = vd_held vd" "vd_index vd0 = vd_index vd"
    by (simp_all add: vd_grows_def vd0_def)
  show ?thesis
  proof (cases r)
    case (Inl x)
    then show ?thesis using assms(1) v g0 by (auto simp: accept_validated_def vd0_def)
  next
    case (Inr w)
    define cid where "cid = cid_from_blake3_hash L (vp_leaf_hash w)"
    show ?thesis
    proof (cases "is_private (vp_visibility w) \<and> \<not> ap")
      case True
      then show ?thesis using assms(1) v Inr g0 by (auto simp: accept_validated_def vd0_def)
    next
      case ap: False
      obtain rs vd1 where st: "store_v2_pushed_chunk L env vd0 rt cid data = (rs, vd1)" by fastforce
      note s1 = store_pushed_chunk_step [OF st assms(2)]
      have g1: "vd_grows L vd vd1" using vd_grows_trans [OF g0(1) s1(1)] .
      show ?thesis
      proof (cases rs)
        case (Inl x)
        then have "e = Some x" "vd' = vd1"
          using assms(1) v \<open>r = Inr w\<close> ap st by (auto simp: accept_validated_def vd0_def [symmetric] cid_def [symmetric])
        then show ?thesis using g1 s1(2,3) g0 by simp
      next
        case stored: (Inr u)
        have sd: "is_gc_protected (vd_index vd1) cid" "\<exists>b. lookup (vd_local vd1) cid = Some b \<and> cid_from_data L b = cid"
          using s1(4) stored by auto
        obtain rq idx d where pq: "record_private_chunk_cid (ie_private env) (vd_index vd1) (vd_mdir vd1) rt cid = (rq, idx, d)"
          by (metis prod_cases3)
        note pr = private_record [OF pq]
        have g2: "vd_grows L vd1 (vd1\<lparr>vd_index := idx, vd_mdir := d\<rparr>)"
          using pr(1) proofs_ok_cong [OF pr(2)] by (simp add: vd_grows_index)
        consider (mapping_failed) "e \<noteq> None" "vd' = vd1\<lparr>vd_index := idx, vd_mdir := d\<rparr>"
          | (recorded) vd2 where "record_proof_and_held L env vd2 rt i (vp_leaf_hash w) path cid = (e, vd')"
              "vd_grows L vd1 vd2" "vd_held vd2 = vd_held vd1" "vd_local vd2 = vd_local vd1"
              "mi_by_root (vd_index vd2) = mi_by_root (vd_index vd1)"
              "is_private (vp_visibility w) \<Longrightarrow> mi_private_cid_to_root (vd_index vd2) cid = Some rt"
        proof (cases "is_private (vp_visibility w)")
          case priv: True
          show ?thesis
          proof (cases rq)
            case (Inl x)
            then show ?thesis
              using assms(1) v \<open>r = Inr w\<close> ap st stored pq priv
              by (intro mapping_failed) (auto simp: accept_validated_def vd0_def [symmetric] cid_def [symmetric])
          next
            case (Inr y)
            then show ?thesis
              using assms(1) v \<open>r = Inr w\<close> ap st stored pq priv g2 pr
              by (intro recorded [of "vd1\<lparr>vd_index := idx, vd_mdir := d\<rparr>"])
                (auto simp: accept_validated_def vd0_def [symmetric] cid_def [symmetric])
          qed
        next
          case False
          then show ?thesis
            using assms(1) v \<open>r = Inr w\<close> st stored
            by (intro recorded [of vd1]) (auto simp: accept_validated_def vd0_def [symmetric] cid_def [symmetric])
        qed
        then show ?thesis
        proof cases
          case mapping_failed
          then show ?thesis using vd_grows_trans [OF g1 g2] s1(2,3) g0 pr(3) by auto
        next
          case (recorded vd2)
          note rs = record_proof_and_held_step [OF recorded(1)]
          have g: "vd_grows L vd vd'" using g1 recorded(2) rs(1) vd_grows_trans by blast
          have x: "index_extends (vd_index vd1) (vd_index vd')" "index_extends (vd_index vd2) (vd_index vd')"
            using recorded(2) rs(1) index_extends_trans by (auto simp: vd_grows_def)
          obtain b where b: "lookup (vd_local vd') cid = Some b" "cid_from_data L b = cid"
            using sd(2) recorded(4) rs(2) by auto
          have "is_gc_protected (vd_index vd') cid" using index_extendsD(4) [OF x(1) sd(1)] .
          moreover have "mi_private_cid_to_root (vd_index vd') cid = Some rt" if "is_private (vp_visibility w)"
            using index_extendsD(3) [OF x(2) recorded(6) [OF that]] .
          moreover have "mi_by_root (vd_index vd') = mi_by_root (vd_index vd)"
            using rs(3) recorded(5) s1(3) g0(3) by simp
          moreover have "vd_held vd2 = vd_held vd" using recorded(3) s1(2) g0(2) by simp
          moreover have "validate_push L W (ie_pv env) (vd_validator vd) rt i data path = (Inr w, pv)" using v Inr by simp
          ultimately show ?thesis
            using g rs(4,5) ap b unfolding cid_def by (cases "e = None") (simp_all, blast)
        qed
      qed
    qed
  qed
qed

section \<open>Manifests\<close>

lemma hex_to_32_own: "hex_to_32 (hex_encode rt) = Some x \<Longrightarrow> x = rt"
  by (cases "length rt = 32") (auto simp: roundtrip hex_to_32_def split: if_splits)

lemma insert_fresh:
  assumes "mi_insert B env idx d m = (r, idx', d')" and "get_by_merkle_root idx (merkle_root m) = None"
  shows "index_extends idx idx'" "mi_v2_proofs idx' = mi_v2_proofs idx"
    "idx' = (if r = Inr () then add_to_maps idx m else idx)"
  using assms
  by (auto simp: mi_insert_def get_by_merkle_root_def add_to_maps_def Let_def index_extends_def map_le_def
      split: sum.splits prod.splits)

lemma add_consistent:
  assumes "index_consistent L idx" and "consistent_manifest L m"
  shows "index_consistent L (add_to_maps idx m)"
  using assms by (simp add: index_consistent_def get_by_merkle_root_def add_to_maps_def Let_def)

text \<open>Indexing a manifest that was validated for this root.\<close>

lemma insert_validated:
  assumes "validate_manifest_push L B (hex_encode rt) bs = Inr m" and "get_by_merkle_root (vd_index vd) rt = None"
    and "mi_insert B env (vd_index vd) (vd_mdir vd) m = (r, idx, d)"
  shows "vd_grows L vd (vd\<lparr>vd_index := idx, vd_mdir := d\<rparr>)"
    "index_consistent L (vd_index vd) \<Longrightarrow> index_consistent L idx" "r = Inr () \<Longrightarrow> get_by_merkle_root idx rt = Some m"
proof -
  have m: "merkle_root m = rt" "consistent_manifest L m"
    using assms(1) hex_to_32_own by (auto simp: validate_manifest_push_iff)
  note ins = insert_fresh [OF assms(3)]
  have f: "get_by_merkle_root (vd_index vd) (merkle_root m) = None" using assms(2) m by simp
  show "vd_grows L vd (vd\<lparr>vd_index := idx, vd_mdir := d\<rparr>)"
    using ins(1) [OF f] proofs_ok_cong [OF ins(2) [OF f]] by (simp add: vd_grows_index)
  show "index_consistent L (vd_index vd) \<Longrightarrow> index_consistent L idx"
    using ins(3) [OF f] add_consistent [OF _ m(2)] by (auto split: if_splits)
  show "r = Inr () \<Longrightarrow> get_by_merkle_root idx rt = Some m"
    using ins(3) [OF f] m(1) by (simp add: get_by_merkle_root_def add_to_maps_def Let_def)
qed

lemma index_consistent_cong: "mi_by_root a = mi_by_root b \<Longrightarrow> index_consistent L a = index_consistent L b"
  by (simp add: index_consistent_def get_by_merkle_root_def)

lemma private_manifest:
  assumes "insert_private env idx d rt bs = (r, idx', d')"
  shows "index_extends idx idx'" "mi_v2_proofs idx' = mi_v2_proofs idx" "mi_by_root idx' = mi_by_root idx"
    "r = Inr () \<Longrightarrow> get_private_bytes idx' rt = Some bs"
  using assms by (auto simp: insert_private_def index_extends_def get_private_bytes_def split: sum.splits prod.splits)

lemma manifest_push_step:
  assumes "handle_manifest_push_v2 L B env vd rt bs = (resp, vd', att)"
  shows "vd_grows L vd vd'" "vd_held vd' = vd_held vd" "vd_local vd' = vd_local vd"
    "index_consistent L (vd_index vd) \<Longrightarrow> index_consistent L (vd_index vd')"
    "att = (if resp = ManifestPushAck rt None \<and> ie_sent env then Some (spawn_attestation vd' rt) else None)"
    "resp = ManifestPushAck rt None \<Longrightarrow> \<exists>shape. ie_file_shape env rt = Inr shape
       \<and> (if is_private (fs_visibility shape) then get_private_bytes (vd_index vd') rt \<noteq> None
          else get_by_merkle_root (vd_index vd') rt \<noteq> None)"
proof -
  consider (same) e where "resp = ManifestPushAck rt (Some e)" "vd' = vd" "att = None"
    | (present) shape where "ie_file_shape env rt = Inr shape"
        "if is_private (fs_visibility shape) then get_private_bytes (vd_index vd) rt \<noteq> None
         else get_by_merkle_root (vd_index vd) rt \<noteq> None"
        "resp = ManifestPushAck rt None" "vd' = vd" "att = (if ie_sent env then Some (spawn_attestation vd' rt) else None)"
    | (opaque) shape r idx d where "ie_file_shape env rt = Inr shape" "is_private (fs_visibility shape)"
        "insert_private (ie_manifest env) (vd_index vd) (vd_mdir vd) rt bs = (r, idx, d)"
        "vd' = vd\<lparr>vd_index := idx, vd_mdir := d\<rparr>" "r = Inr () \<longleftrightarrow> resp = ManifestPushAck rt None"
        "att = (if resp = ManifestPushAck rt None \<and> ie_sent env then Some (spawn_attestation vd' rt) else None)"
    | (public) shape m r idx d where "ie_file_shape env rt = Inr shape" "\<not> is_private (fs_visibility shape)"
        "validate_manifest_push L B (hex_encode rt) bs = Inr m" "get_by_merkle_root (vd_index vd) rt = None"
        "mi_insert B (ie_manifest env) (vd_index vd) (vd_mdir vd) m = (r, idx, d)"
        "vd' = vd\<lparr>vd_index := idx, vd_mdir := d\<rparr>" "r = Inr () \<longleftrightarrow> resp = ManifestPushAck rt None"
        "att = (if resp = ManifestPushAck rt None \<and> ie_sent env then Some (spawn_attestation vd' rt) else None)"
  proof (cases "ie_file_shape env rt")
    case (Inl e)
    then show ?thesis using assms by (intro same) (auto simp: handle_manifest_push_v2_def)
  next
    case (Inr shape)
    show ?thesis
    proof (cases "is_private (fs_visibility shape)")
      case priv: True
      obtain r idx d where q: "insert_private (ie_manifest env) (vd_index vd) (vd_mdir vd) rt bs = (r, idx, d)"
        by (metis prod_cases3)
      show ?thesis
      proof (cases "get_private_bytes (vd_index vd) rt = None")
        case True
        then show ?thesis
          using assms Inr priv q
          by (intro opaque [OF Inr priv q]; cases r) (auto simp: handle_manifest_push_v2_def)
      next
        case False
        then show ?thesis using assms Inr priv by (intro present [OF Inr]) (auto simp: handle_manifest_push_v2_def)
      qed
    next
      case pub: False
      show ?thesis
      proof (cases "validate_manifest_push L B (hex_encode rt) bs")
        case (Inl e)
        then show ?thesis using assms \<open>ie_file_shape env rt = Inr shape\<close> pub
          by (intro same) (auto simp: handle_manifest_push_v2_def)
      next
        case v: (Inr m)
        obtain r idx d where q: "mi_insert B (ie_manifest env) (vd_index vd) (vd_mdir vd) m = (r, idx, d)"
          by (metis prod_cases3)
        show ?thesis
        proof (cases "get_by_merkle_root (vd_index vd) rt = None")
          case True
          then show ?thesis
            using assms Inr pub v q
            by (intro public [OF Inr pub v True q]; cases r) (auto simp: handle_manifest_push_v2_def)
        next
          case False
          then show ?thesis using assms Inr pub v by (intro present [OF Inr]) (auto simp: handle_manifest_push_v2_def)
        qed
      qed
    qed
  qed
  then have "vd_grows L vd vd' \<and> vd_held vd' = vd_held vd \<and> vd_local vd' = vd_local vd
    \<and> (index_consistent L (vd_index vd) \<longrightarrow> index_consistent L (vd_index vd'))
    \<and> att = (if resp = ManifestPushAck rt None \<and> ie_sent env then Some (spawn_attestation vd' rt) else None)
    \<and> (resp = ManifestPushAck rt None \<longrightarrow> (\<exists>shape. ie_file_shape env rt = Inr shape
       \<and> (if is_private (fs_visibility shape) then get_private_bytes (vd_index vd') rt \<noteq> None
          else get_by_merkle_root (vd_index vd') rt \<noteq> None)))" (is ?all)
  proof cases
    case opaque
    note p = private_manifest [OF opaque(3)]
    have "vd_grows L vd vd'" using p(1) proofs_ok_cong [OF p(2)] opaque(4) by (simp add: vd_grows_index)
    then show ?all using opaque p(3,4) index_consistent_cong [OF p(3)] by auto
  next
    case public
    note p = insert_validated [OF public(3,4,5)]
    show ?all using public p by auto
  qed auto
  then show "vd_grows L vd vd'" "vd_held vd' = vd_held vd" "vd_local vd' = vd_local vd"
    "index_consistent L (vd_index vd) \<Longrightarrow> index_consistent L (vd_index vd')"
    "att = (if resp = ManifestPushAck rt None \<and> ie_sent env then Some (spawn_attestation vd' rt) else None)"
    "resp = ManifestPushAck rt None \<Longrightarrow> \<exists>shape. ie_file_shape env rt = Inr shape
       \<and> (if is_private (fs_visibility shape) then get_private_bytes (vd_index vd') rt \<noteq> None
          else get_by_merkle_root (vd_index vd') rt \<noteq> None)" by blast+
qed

lemma refetched_manifest_step:
  assumes "accept_refetched_manifest L B env vd rt n bs = (r, vd')"
  shows "vd_grows L vd vd'" "vd_held vd' = vd_held vd" "vd_local vd' = vd_local vd"
    "index_consistent L (vd_index vd) \<Longrightarrow> index_consistent L (vd_index vd')"
    "r = Inr m \<Longrightarrow> consistent_manifest L m \<and> merkle_root m = rt \<and> chunk_count m = n
       \<and> get_by_merkle_root (vd_index vd') rt \<noteq> None"
proof -
  consider (same) "vd' = vd" "\<forall>m. r = Inr m \<longrightarrow> validate_manifest_push L B (hex_encode rt) bs = Inr m
        \<and> chunk_count m = n \<and> get_by_merkle_root (vd_index vd) rt \<noteq> None"
    | (ins) m0 r1 idx d where "validate_manifest_push L B (hex_encode rt) bs = Inr m0" "chunk_count m0 = n"
        "get_by_merkle_root (vd_index vd) rt = None" "\<forall>m. r = Inr m \<longrightarrow> m = m0 \<and> r1 = Inr ()"
        "mi_insert B (ie_manifest env) (vd_index vd) (vd_mdir vd) m0 = (r1, idx, d)"
        "vd' = vd\<lparr>vd_index := idx, vd_mdir := d\<rparr>"
  proof (cases "\<exists>m0. validate_manifest_push L B (hex_encode rt) bs = Inr m0 \<and> chunk_count m0 = n
      \<and> get_by_merkle_root (vd_index vd) rt = None")
    case True
    then obtain m0 where m0: "validate_manifest_push L B (hex_encode rt) bs = Inr m0" "chunk_count m0 = n"
        "get_by_merkle_root (vd_index vd) rt = None" by blast
    obtain r1 idx d where q: "mi_insert B (ie_manifest env) (vd_index vd) (vd_mdir vd) m0 = (r1, idx, d)"
      by (metis prod_cases3)
    show ?thesis
      using assms m0 q by (intro ins [OF m0 _ q]; cases r1) (auto simp: accept_refetched_manifest_def)
  next
    case False
    then show ?thesis
      using assms by (intro same) (auto simp: accept_refetched_manifest_def split: sum.splits if_splits)
  qed
  then have "vd_grows L vd vd' \<and> vd_held vd' = vd_held vd \<and> vd_local vd' = vd_local vd
    \<and> (index_consistent L (vd_index vd) \<longrightarrow> index_consistent L (vd_index vd'))
    \<and> (\<forall>m. r = Inr m \<longrightarrow> consistent_manifest L m \<and> merkle_root m = rt \<and> chunk_count m = n
       \<and> get_by_merkle_root (vd_index vd') rt \<noteq> None)" (is ?all)
  proof cases
    case same
    then show ?all by (auto simp: validate_manifest_push_iff dest: hex_to_32_own)
  next
    case ins
    then show ?all
      using insert_validated [OF ins(1,3,5)] by (auto simp: validate_manifest_push_iff dest: hex_to_32_own)
  qed
  then show "vd_grows L vd vd'" "vd_held vd' = vd_held vd" "vd_local vd' = vd_local vd"
    "index_consistent L (vd_index vd) \<Longrightarrow> index_consistent L (vd_index vd')"
    "r = Inr m \<Longrightarrow> consistent_manifest L m \<and> merkle_root m = rt \<and> chunk_count m = n
       \<and> get_by_merkle_root (vd_index vd') rt \<noteq> None" by blast+
qed

section \<open>Runs of the dispatcher\<close>

datatype inbound_event =
    Request inbound_env string shard_request_v2
  | RefetchChunk inbound_env bytes hash u32 "hash list"
  | RefetchManifest inbound_env hash u32 bytes

fun event_env :: "inbound_event \<Rightarrow> inbound_env" where
  "event_env (Request env peer_id req) = env"
| "event_env (RefetchChunk env data rt i path) = env"
| "event_env (RefetchManifest env rt n bs) = env"

fun inbound_step ::
    "digest_lib \<Rightarrow> wire_lib \<Rightarrow> cbor_lib \<Rightarrow> access_checker \<Rightarrow> v2_dispatcher \<Rightarrow> inbound_event
       \<Rightarrow> v2_dispatcher \<times> attestation option" where
  "inbound_step L W B acl vd (Request env peer_id req) = snd (handle_v2 L W B acl env vd peer_id req)"
| "inbound_step L W B acl vd (RefetchChunk env data rt i path) =
     (snd (accept_refetched_chunk L W env vd data rt i path), None)"
| "inbound_step L W B acl vd (RefetchManifest env rt n bs) = (snd (accept_refetched_manifest L B env vd rt n bs), None)"

fun inbound_run ::
    "digest_lib \<Rightarrow> wire_lib \<Rightarrow> cbor_lib \<Rightarrow> access_checker \<Rightarrow> v2_dispatcher \<Rightarrow> inbound_event list
       \<Rightarrow> v2_dispatcher \<times> attestation list" where
  "inbound_run L W B acl vd [] = (vd, [])"
| "inbound_run L W B acl vd (ev # evs) =
     (case inbound_step L W B acl vd ev of (vd1, att) \<Rightarrow>
      case inbound_run L W B acl vd1 evs of (vd2, atts) \<Rightarrow>
        (vd2, (case att of None \<Rightarrow> atts | Some a \<Rightarrow> a # atts)))"

text \<open>
  A held index can be attested: its proof is recorded and leads to the root, and the chunk with that
  leaf is stored, recorded as held and exempt from garbage collection.
\<close>

definition answerable :: "digest_lib \<Rightarrow> v2_dispatcher \<Rightarrow> hash \<Rightarrow> u32 \<Rightarrow> bool" where
  "answerable L vd rt i \<longleftrightarrow> (\<exists>p b. v2_pushed_proof (vd_index vd) rt i = Some p
     \<and> lookup (vd_local vd) (cid_from_blake3_hash L (pp_leaf p)) = Some b \<and> blake3 L b = pp_leaf p
     \<and> verify_merkle_proof_bytes (blake3 L) (blake3 L b) i (pp_path p) rt
     \<and> recorded (mi_v2_held (vd_index vd)) rt i = Some (cid_from_data L b)
     \<and> is_gc_protected (vd_index vd) (cid_from_data L b))"

definition attestable :: "digest_lib \<Rightarrow> v2_dispatcher \<Rightarrow> bool" where
  "attestable L vd \<longleftrightarrow> proofs_ok (blake3 L) (vd_index vd) \<and> (\<forall>rt. \<forall>i \<in> vd_held vd rt. answerable L vd rt i)"

lemma answerable_mono: "vd_grows L a b \<Longrightarrow> answerable L a rt i \<Longrightarrow> answerable L b rt i"
  unfolding answerable_def vd_grows_def by (meson index_extendsD map_leD)

text \<open>The same with a set of indices that were held before, whose backing is looked at separately.\<close>

definition attestable_from :: "digest_lib \<Rightarrow> (hash \<Rightarrow> u32 set) \<Rightarrow> v2_dispatcher \<Rightarrow> bool" where
  "attestable_from L H0 vd \<longleftrightarrow> proofs_ok (blake3 L) (vd_index vd)
     \<and> (\<forall>rt. \<forall>i \<in> vd_held vd rt. i \<in> H0 rt \<or> answerable L vd rt i)"

lemma attestable_from_none: "attestable_from L (\<lambda>_. {}) vd = attestable L vd"
  by (simp add: attestable_from_def attestable_def)

lemma attestable_same_held:
  assumes "attestable_from L H0 vd" and "vd_grows L vd vd'" and "vd_held vd' = vd_held vd"
  shows "attestable_from L H0 vd'"
  using assms answerable_mono [OF assms(2)] by (auto simp: attestable_from_def vd_grows_def)

lemma validate_push_leaf:
  "validate_push L W env pv rt i data path = (Inr v, pv') \<Longrightarrow> vp_leaf_hash v = blake3 L data"
  by (auto simp: validate_push_def Let_def split: sum.splits if_splits prod.splits)

lemma accepted_answerable:
  assumes "accept_validated L W env vd data rt i path ap = (None, vd')" and "exclusive (ie_put env)"
    and "lib_ok L" and "proofs_ok (blake3 L) (vd_index vd)"
  shows "answerable L vd' rt i" "vd_held vd' = (vd_held vd)(rt := insert i (vd_held vd rt))"
    "\<exists>b. lookup (vd_local vd') (cid_from_data L data) = Some b \<and> blake3 L b = blake3 L data"
    "v2_pushed_proof (vd_index vd') rt i = Some \<lparr>pp_leaf = blake3 L data, pp_path = path\<rparr>"
    "\<exists>v pv. validate_push L W (ie_pv env) (vd_validator vd) rt i data path = (Inr v, pv)
       \<and> (is_private (vp_visibility v) \<longrightarrow>
            ap \<and> mi_private_cid_to_root (vd_index vd') (cid_from_data L data) = Some rt)"
proof -
  note st = accept_validated_step [OF assms(1,2)]
  obtain v pv b where v: "validate_push L W (ie_pv env) (vd_validator vd) rt i data path = (Inr v, pv)"
      "is_private (vp_visibility v) \<longrightarrow>
              ap \<and> mi_private_cid_to_root (vd_index vd') (cid_from_blake3_hash L (vp_leaf_hash v)) = Some rt"
      "is_gc_protected (vd_index vd') (cid_from_blake3_hash L (vp_leaf_hash v))"
      "lookup (vd_local vd') (cid_from_blake3_hash L (vp_leaf_hash v)) = Some b"
      "cid_from_data L b = cid_from_blake3_hash L (vp_leaf_hash v)"
      "v2_pushed_proof (vd_index vd') rt i = Some \<lparr>pp_leaf = vp_leaf_hash v, pp_path = path\<rparr>"
      "recorded (mi_v2_held (vd_index vd')) rt i = Some (cid_from_blake3_hash L (vp_leaf_hash v))"
      "vd_held vd' = (vd_held vd)(rt := insert i (vd_held vd rt))"
    using st by blast
  have leaf: "vp_leaf_hash v = blake3 L data" using validate_push_leaf [OF v(1)] .
  then have b: "blake3 L b = blake3 L data"
    using v(5) cid_from_blake3_hash_inject [OF assms(3)] lib_ok_blake3 [OF assms(3)] by (simp add: cid_from_data_def)
  have "pushed_proof_verifies (blake3 L) rt i \<lparr>pp_leaf = blake3 L data, pp_path = path\<rparr>"
    using st assms(4) v(6) leaf by (auto simp: vd_grows_def proofs_ok_def v2_pushed_proof_def)
  then show "answerable L vd' rt i"
    unfolding answerable_def using v(3-7) leaf b
    by (intro exI [of _ "\<lparr>pp_leaf = blake3 L data, pp_path = path\<rparr>"] exI [of _ b])
      (simp add: pushed_proof_verifies_def cid_from_data_def)
  show "vd_held vd' = (vd_held vd)(rt := insert i (vd_held vd rt))" using v(8) .
  show "\<exists>b. lookup (vd_local vd') (cid_from_data L data) = Some b \<and> blake3 L b = blake3 L data"
    "v2_pushed_proof (vd_index vd') rt i = Some \<lparr>pp_leaf = blake3 L data, pp_path = path\<rparr>"
    "\<exists>v pv. validate_push L W (ie_pv env) (vd_validator vd) rt i data path = (Inr v, pv)
       \<and> (is_private (vp_visibility v) \<longrightarrow>
            ap \<and> mi_private_cid_to_root (vd_index vd') (cid_from_data L data) = Some rt)"
    using v b leaf by (auto simp: cid_from_data_def)
qed

lemma accept_attestable_from:
  assumes "accept_validated L W env vd data rt i path ap = (e, vd')" and "exclusive (ie_put env)"
    and "lib_ok L" and "attestable_from L H0 vd"
  shows "vd_grows L vd vd'" "attestable_from L H0 vd'"
proof -
  show g: "vd_grows L vd vd'" using accept_validated_step [OF assms(1,2)] by blast
  show "attestable_from L H0 vd'"
  proof (cases e)
    case None
    then have a: "accept_validated L W env vd data rt i path ap = (None, vd')" using assms(1) by simp
    have "proofs_ok (blake3 L) (vd_index vd)" using assms(4) by (simp add: attestable_from_def)
    note ans = accepted_answerable [OF a assms(2,3) this]
    have "j \<in> H0 rt' \<or> answerable L vd' rt' j" if "j \<in> vd_held vd' rt'" for rt' j
      using that ans(1,2) assms(4) answerable_mono [OF g] by (auto simp: attestable_from_def split: if_splits)
    then show ?thesis using g assms(4) by (auto simp: attestable_from_def vd_grows_def)
  next
    case (Some x)
    then show ?thesis
      using attestable_same_held [OF assms(4) g] accept_validated_step [OF assms(1,2)] by blast
  qed
qed

lemma inbound_step_attestable_from:
  assumes "inbound_step L W B acl vd ev = (vd', att)" and "exclusive (ie_put (event_env ev))"
    and "lib_ok L" and "attestable_from L H0 vd"
  shows "vd_grows L vd vd' \<and> attestable_from L H0 vd' \<and> (\<forall>a. att = Some a \<longrightarrow> snd a = vd_held vd' (fst a))"
proof (cases ev)
  case (Request env peer_id req)
  show ?thesis
  proof (cases req)
    case (Push data rt i path)
    then have "accept_validated L W env vd data rt i path True = (fst (accept_chunk L W env vd data rt i path), vd')"
      "att = None"
      using assms(1) Request by (auto simp: handle_v2_def accept_chunk_def split: prod.splits)
    then show ?thesis using accept_attestable_from assms(2-4) Request by auto
  next
    case (ManifestPush rt bs)
    then obtain resp where h: "handle_manifest_push_v2 L B env vd rt bs = (resp, vd', att)"
      using assms(1) Request by (cases "handle_manifest_push_v2 L B env vd rt bs") (auto simp: handle_v2_def)
    note st = manifest_push_step [OF h]
    show ?thesis
      using st attestable_same_held [OF assms(4)] by (auto simp: spawn_attestation_def held_for_def split: if_splits)
  qed (use assms Request in \<open>auto simp: handle_v2_def\<close>)
next
  case (RefetchChunk env data rt i path)
  then have "accept_validated L W env vd data rt i path False
      = (fst (accept_refetched_chunk L W env vd data rt i path), vd')" "att = None"
    using assms(1) by (auto simp: accept_refetched_chunk_def)
  then show ?thesis using accept_attestable_from assms(2-4) RefetchChunk by auto
next
  case (RefetchManifest env rt n bs)
  then obtain r where h: "accept_refetched_manifest L B env vd rt n bs = (r, vd')" and "att = None"
    using assms(1) by (cases "accept_refetched_manifest L B env vd rt n bs") auto
  then show ?thesis using refetched_manifest_step [OF h] attestable_same_held [OF assms(4)] by auto
qed

lemma inbound_run_attestable_from:
  assumes "inbound_run L W B acl vd evs = (vd', atts)" and "\<forall>ev \<in> set evs. exclusive (ie_put (event_env ev))"
    and "lib_ok L" and "attestable_from L H0 vd"
  shows "vd_grows L vd vd' \<and> attestable_from L H0 vd' \<and> (\<forall>(rt, held) \<in> set atts. held \<subseteq> vd_held vd' rt)"
  using assms
proof (induction evs arbitrary: vd atts)
  case (Cons ev evs)
  obtain vd1 att where st: "inbound_step L W B acl vd ev = (vd1, att)" by fastforce
  obtain as where r: "inbound_run L W B acl vd1 evs = (vd', as)"
    and atts: "atts = (case att of None \<Rightarrow> as | Some a \<Rightarrow> a # as)"
    using Cons.prems(1) st by (auto split: prod.splits)
  have s1: "vd_grows L vd vd1" "attestable_from L H0 vd1" "\<forall>a. att = Some a \<longrightarrow> snd a = vd_held vd1 (fst a)"
    using inbound_step_attestable_from [OF st _ Cons.prems(3,4)] Cons.prems(2) by auto
  have s2: "vd_grows L vd1 vd'" "attestable_from L H0 vd'" "\<forall>(rt, held) \<in> set as. held \<subseteq> vd_held vd' rt"
    using Cons.IH [OF r _ Cons.prems(3) s1(2)] Cons.prems(2) by auto
  have h: "vd_held vd1 rt \<subseteq> vd_held vd' rt" for rt using s2(1) by (simp add: vd_grows_def)
  have "\<forall>(rt, held) \<in> set atts. held \<subseteq> vd_held vd' rt"
    using s1(3) s2(3) atts h by (cases att) fastforce+
  then show ?case using vd_grows_trans [OF s1(1) s2(1)] s2(2) by blast
qed simp

lemmas accept_attestable = accept_attestable_from [where ?H0.0 = "\<lambda>_. {}", unfolded attestable_from_none]
lemmas inbound_step_attestable = inbound_step_attestable_from [where ?H0.0 = "\<lambda>_. {}", unfolded attestable_from_none]
lemmas inbound_run_attestable = inbound_run_attestable_from [where ?H0.0 = "\<lambda>_. {}", unfolded attestable_from_none]

text \<open>
  C20. What an acknowledged V2 push guarantees. When \<open>accept_chunk\<close> answers with no error, whatever the
  I/O faults of the call: the pushed content is stored under its content identifier, the chunk is
  exempt from garbage collection, its Merkle path is recorded and leads from the stored bytes to the
  root, the index is recorded as held on disk and in memory, and for a Private file the identifier is
  mapped to its root.
\<close>

theorem acknowledged_push_is_complete:
  assumes "accept_chunk L W env vd data rt i path = (None, vd')"
    and "exclusive (ie_put env)" and "lib_ok L" and "proofs_ok (blake3 L) (vd_index vd)"
  shows "(\<exists>b. lookup (vd_local vd') (cid_from_data L data) = Some b \<and> blake3 L b = blake3 L data)
       \<and> v2_pushed_proof (vd_index vd') rt i = Some \<lparr>pp_leaf = blake3 L data, pp_path = path\<rparr>
       \<and> verify_merkle_proof_bytes (blake3 L) (blake3 L data) i path rt
       \<and> recorded (mi_v2_held (vd_index vd')) rt i = Some (cid_from_data L data)
       \<and> is_gc_protected (vd_index vd') (cid_from_data L data)
       \<and> held_for vd' rt = insert i (held_for vd rt)
       \<and> (\<exists>v pv. validate_push L W (ie_pv env) (vd_validator vd) rt i data path = (Inr v, pv)
            \<and> (is_private (vp_visibility v) \<longrightarrow> merkle_root_for_cid (vd_index vd') (cid_from_data L data) \<noteq> None))"
proof -
  note a = accepted_answerable [OF assms(1) [unfolded accept_chunk_def] assms(2-4)]
  have "verify_merkle_proof_bytes (blake3 L) (blake3 L data) i path rt
      \<and> recorded (mi_v2_held (vd_index vd')) rt i = Some (cid_from_data L data)
      \<and> is_gc_protected (vd_index vd') (cid_from_data L data)"
    using a(1,4) by (auto simp: answerable_def cid_from_data_def)
  moreover have "held_for vd' rt = insert i (held_for vd rt)" using a(2) by (simp add: held_for_def)
  moreover have "\<exists>v pv. validate_push L W (ie_pv env) (vd_validator vd) rt i data path = (Inr v, pv)
      \<and> (is_private (vp_visibility v) \<longrightarrow> merkle_root_for_cid (vd_index vd') (cid_from_data L data) \<noteq> None)"
    using a(5) by (auto simp: merkle_root_for_cid_def split: option.splits)
  ultimately show ?thesis using a(3,4) by blast
qed

text \<open>
  A refused chunk is never attested and takes nothing back: whether a push or a re-fetched chunk
  is refused, the held tracker stays as it was, every record and every stored chunk stays; a chunk
  the validator refuses, and a re-fetched chunk of a Private file, changes neither the store, the
  index nor the directory.
\<close>

theorem refused_chunk_changes_nothing_held:
  assumes "accept_validated L W env vd data rt i path allow_private = (Some e, vd')" and "exclusive (ie_put env)"
  shows "vd_held vd' = vd_held vd \<and> index_extends (vd_index vd) (vd_index vd')
       \<and> lookup (vd_local vd) \<subseteq>\<^sub>m lookup (vd_local vd')
       \<and> (case fst (validate_push L W (ie_pv env) (vd_validator vd) rt i data path) of
            Inl reject \<Rightarrow> e = display_reject reject \<and> vd_local vd' = vd_local vd \<and> vd_index vd' = vd_index vd
                        \<and> vd_mdir vd' = vd_mdir vd
          | Inr v \<Rightarrow> is_private (vp_visibility v) \<and> \<not> allow_private \<longrightarrow>
                     vd_local vd' = vd_local vd \<and> vd_index vd' = vd_index vd \<and> vd_mdir vd' = vd_mdir vd)"
proof -
  have "vd_held vd' = vd_held vd \<and> vd_grows L vd vd'" using accept_validated_step [OF assms] by blast
  moreover have "case fst (validate_push L W (ie_pv env) (vd_validator vd) rt i data path) of
            Inl reject \<Rightarrow> e = display_reject reject \<and> vd_local vd' = vd_local vd \<and> vd_index vd' = vd_index vd
                        \<and> vd_mdir vd' = vd_mdir vd
          | Inr v \<Rightarrow> is_private (vp_visibility v) \<and> \<not> allow_private \<longrightarrow>
                     vd_local vd' = vd_local vd \<and> vd_index vd' = vd_index vd \<and> vd_mdir vd' = vd_mdir vd"
  proof (cases "validate_push L W (ie_pv env) (vd_validator vd) rt i data path")
    case (Pair r pv)
    then show ?thesis using assms(1) by (cases r) (auto simp: accept_validated_def)
  qed
  ultimately show ?thesis by (simp add: vd_grows_def)
qed

section \<open>Pulls serve exact windows\<close>

lemma resolve_pull_window_eq:
  assumes "len < 2 ^ 64"
  shows "resolve_pull_window len off n =
    (if len < unat off then None else Some (unat off, min (unat off + unat n) len))"
proof -
  have t: "unat (u64_of len) = len" using assms by (simp add: unat_u64_of)
  have "min (unat (saturating_add off n)) len = min (unat off + unat n) len"
    using assms by (simp add: unat_saturating_add min_def)
  then show ?thesis
    using t by (simp add: resolve_pull_window_def Let_def min_unat word_less_nat_alt)
qed

text \<open>
  A V2 pull. A peer the access check refuses learns nothing: the answer is the same whatever the
  store holds. For an allowed peer and arbitrary 64-bit \<open>offset\<close> and \<open>max_bytes\<close> the answer carries
  exactly the bytes of the window, cut at the end of the chunk, an error when the offset is past the
  end, and never data with an error.
\<close>

theorem pull_response_exact:
  assumes "\<forall>b. lookup (vd_local vd) cid = Some b \<longrightarrow> length b < 2 ^ 64"
  shows "case build_pull_response acl env vd peer cid off n of
           Data c o' t bs e \<Rightarrow> c = cid \<and> o' = off
             \<and> (if acl peer cid (vd_index vd) then
                  (case get (ie_get env) (vd_local vd) cid of
                     Inl x \<Rightarrow> t = 0 \<and> bs = [] \<and> e \<noteq> None
                   | Inr full \<Rightarrow> unat t = length full
                       \<and> (if unat off \<le> length full then bs = take (unat n) (drop (unat off) full) \<and> e = None
                          else bs = [] \<and> e \<noteq> None))
                else t = 0 \<and> bs = [] \<and> e = Some ACCESS_DENIED)
         | _ \<Rightarrow> False"
proof (cases "get (ie_get env) (vd_local vd) cid")
  case (Inl x)
  then show ?thesis by (simp add: build_pull_response_def)
next
  case (Inr full)
  then have "lookup (vd_local vd) cid = Some full"
    by (auto simp: get_def split: sum.splits option.splits dest: open_key_Some)
  then have len: "length full < 2 ^ 64" using assms by blast
  have w: "take (min (unat off + unat n) (length full) - unat off) (drop (unat off) full)
      = take (unat n) (drop (unat off) full)" if "unat off \<le> length full"
    using that by (auto simp: min_def)
  show ?thesis
    using Inr len w unat_u64_of [of "length full"]
    by (simp add: build_pull_response_def resolve_pull_window_eq)
qed

section \<open>Restart\<close>

lemma has_stored:
  assumes "lib_ok L" and "io_open env = None" and "lookup s (cid_from_data L b) = Some c"
  shows "has env s (cid_from_data L b)"
proof -
  have "plain_key (cid_from_data L b)"
    using lib_ok_plain [OF assms(1)] lib_ok_blake3 [OF assms(1)] by (simp add: cid_from_data_def)
  then show ?thesis
    using assms(2,3) lookup_map_of [OF assms(3)] name_plain [of "cid_from_data L b" s] by (simp add: has_def open_key_def)
qed

lemma held_from_disk_manifest:
  assumes "lib_ok L" and "store_inv L s" and "index_consistent L idx" and "get_by_merkle_root idx rt = Some m"
    and "c \<in> set (chunks m)" and "has env s (cd_cid c)" and "length (cd_hash c) = 32"
  shows "\<exists>b. lookup s (cd_cid c) = Some b \<and> blake3 L b = map cd_hash (chunks m) ! unat (cd_index c)"
proof -
  obtain j where j: "j < length (chunks m)" "c = chunks m ! j" using assms(5) by (auto simp: in_set_conv_nth)
  have c: "unat (cd_index c) = j" "cd_cid c = cid_from_blake3_hash L (cd_hash c)"
    using assms(3,4) j by (auto simp: index_consistent_def consistent_manifest_def)
  obtain b where b: "lookup s (cd_cid c) = Some b"
    using assms(6) by (auto simp: has_def split: sum.splits option.splits dest: open_key_Some)
  moreover have "canonical_cid L s (cd_cid c) = Inr ()" using canonical_cid_of_hash [OF assms(1,7)] c(2) by simp
  ultimately have "cid_from_data L b = cd_cid c" using assms(2) by (auto simp: store_inv_def)
  then have "blake3 L b = cd_hash c"
    using c(2) cid_from_blake3_hash_inject [OF assms(1)] lib_ok_blake3 [OF assms(1)] assms(7)
    by (simp add: cid_from_data_def)
  then show ?thesis using b j c by auto
qed

section \<open>What the boot seeds\<close>

text \<open>
  Three ways a held index is backed. A pushed chunk is \<open>answerable\<close>. A chunk of an indexed Public
  manifest is backed by the manifest: the stored bytes have the leaf the manifest lists at that
  index, and the manifest's leaves have the root. A held record on disk is backed when its push proof
  is recorded too, for the same chunk, and the chunk is exempt from garbage collection; the rebuild at
  boot does not look at that.
\<close>

definition manifest_backed :: "digest_lib \<Rightarrow> v2_dispatcher \<Rightarrow> hash \<Rightarrow> u32 \<Rightarrow> bool" where
  "manifest_backed L vd rt i \<longleftrightarrow> (\<exists>m b. get_by_merkle_root (vd_index vd) rt = Some m
     \<and> merkle_root m = rt \<and> consistent_manifest L m \<and> unat i < length (chunks m)
     \<and> lookup (vd_local vd) (cd_cid (chunks m ! unat i)) = Some b \<and> blake3 L b = cd_hash (chunks m ! unat i))"

definition held_list :: "manifest_index \<Rightarrow> hash \<Rightarrow> (u32 \<times> string) list" where
  "held_list idx rt = (case v2_held_records idx rt of None \<Rightarrow> [] | Some r \<Rightarrow> r)"

definition record_backed :: "digest_lib \<Rightarrow> manifest_index \<Rightarrow> hash \<Rightarrow> u32 \<Rightarrow> string \<Rightarrow> bool" where
  "record_backed L idx rt i cid \<longleftrightarrow> recorded (mi_v2_held idx) rt i = Some cid \<and> is_gc_protected idx cid
     \<and> (case v2_pushed_proof idx rt i of None \<Rightarrow> False
        | Some p \<Rightarrow> length (pp_leaf p) = 32 \<and> cid = cid_from_blake3_hash L (pp_leaf p))"

definition records_backed :: "digest_lib \<Rightarrow> manifest_index \<Rightarrow> bool" where
  "records_backed L idx \<longleftrightarrow> (\<forall>rt. \<forall>(i, cid) \<in> set (held_list idx rt). record_backed L idx rt i cid)"

definition unproved_record :: "digest_lib \<Rightarrow> manifest_index \<Rightarrow> pub_store \<Rightarrow> hash \<Rightarrow> u32 \<Rightarrow> bool" where
  "unproved_record L idx s rt i \<longleftrightarrow>
     (\<exists>(j, cid) \<in> set (held_list idx rt). j = i \<and> lookup s cid \<noteq> None \<and> \<not> record_backed L idx rt i cid)"

text \<open>The manifest's digests are \<open>[u8; 32]\<close> in the source.\<close>

definition index_typed :: "manifest_index \<Rightarrow> bool" where
  "index_typed idx \<longleftrightarrow> (\<forall>rt m. get_by_merkle_root idx rt = Some m \<longrightarrow> (\<forall>c \<in> set (chunks m). length (cd_hash c) = 32))"

lemma manifest_backed_mono:
  assumes "vd_grows L a b" and "manifest_backed L a rt i"
  shows "manifest_backed L b rt i"
proof -
  have x: "index_extends (vd_index a) (vd_index b)" "lookup (vd_local a) \<subseteq>\<^sub>m lookup (vd_local b)"
    using assms(1) by (simp_all add: vd_grows_def)
  show ?thesis using assms(2) index_extendsD(5) [OF x(1)] map_leD [OF x(2)] unfolding manifest_backed_def by blast
qed

lemma record_backed_mono: "index_extends a b \<Longrightarrow> record_backed L a rt i cid \<Longrightarrow> record_backed L b rt i cid"
  unfolding record_backed_def by (auto dest: index_extendsD split: option.splits)

lemma has_lookup: "has env s key \<Longrightarrow> \<exists>b. lookup s key = Some b"
  by (auto simp: has_def split: sum.splits option.splits dest: open_key_Some)

lemma seeded_record:
  assumes "lib_ok L" and "store_inv L (vd_local vd)" and "proofs_ok (blake3 L) (vd_index vd)"
    and "(i, cid) \<in> set (held_list (vd_index vd) rt)" and "has env (vd_local vd) cid"
  shows "answerable L vd rt i \<or> unproved_record L (vd_index vd) (vd_local vd) rt i"
proof (cases "record_backed L (vd_index vd) rt i cid")
  case False
  then show ?thesis using assms(4) has_lookup [OF assms(5)] by (force simp: unproved_record_def)
next
  case True
  then obtain p where p: "v2_pushed_proof (vd_index vd) rt i = Some p" "length (pp_leaf p) = 32"
      "cid = cid_from_blake3_hash L (pp_leaf p)" "recorded (mi_v2_held (vd_index vd)) rt i = Some cid"
      "is_gc_protected (vd_index vd) cid"
    by (auto simp: record_backed_def split: option.splits)
  obtain b where b: "lookup (vd_local vd) cid = Some b" using has_lookup [OF assms(5)] by blast
  then have c: "cid_from_data L b = cid"
    using assms(2) canonical_cid_of_hash [OF assms(1) p(2)] p(3) by (auto simp: store_inv_def)
  then have "blake3 L b = pp_leaf p"
    using p(2,3) cid_from_blake3_hash_inject [OF assms(1)] lib_ok_blake3 [OF assms(1)] by (simp add: cid_from_data_def)
  moreover have "pushed_proof_verifies (blake3 L) rt i p" using assms(3) p(1) by (simp add: proofs_ok_def v2_pushed_proof_def)
  ultimately show ?thesis using p b c by (auto simp: answerable_def pushed_proof_verifies_def)
qed

lemma seeded_manifest:
  assumes "lib_ok L" and "store_inv L (vd_local vd)" and "index_consistent L (vd_index vd)" and "index_typed (vd_index vd)"
    and "get_by_merkle_root (vd_index vd) rt = Some m" and "c \<in> set (chunks m)" and "has env (vd_local vd) (cd_cid c)"
  shows "manifest_backed L vd rt (cd_index c)"
proof -
  have "length (cd_hash c) = 32" using assms(4-6) by (auto simp: index_typed_def)
  note h = held_from_disk_manifest [OF assms(1-3,5-7) this]
  obtain j where j: "j < length (chunks m)" "c = chunks m ! j" using assms(6) by (auto simp: in_set_conv_nth)
  then have "unat (cd_index c) = j" using assms(3,5) by (auto simp: index_consistent_def consistent_manifest_def)
  then show ?thesis using h j assms(3,5) by (auto simp: manifest_backed_def index_consistent_def)
qed

text \<open>Whatever the rebuild adds to the tracker is stored; it is backed unless its record on disk is not.\<close>

lemma seeded_backed:
  assumes "lib_ok L" and "store_inv L s" and "proofs_ok (blake3 L) idx" and "index_consistent L idx" and "index_typed idx"
    and "i \<in> held_from_disk env s idx rt" and "vd_local vd = s" and "vd_index vd = idx"
  shows "answerable L vd rt i \<or> manifest_backed L vd rt i \<or> unproved_record L idx s rt i"
proof -
  consider (rec) cid where "(i, cid) \<in> set (held_list idx rt)" "has env s cid"
    | (man) m c where "get_by_merkle_root idx rt = Some m" "c \<in> set (chunks m)" "has env s (cd_cid c)" "i = cd_index c"
    using assms(6) by (auto simp: held_from_disk_def held_list_def split: option.splits)
  then show ?thesis
  proof cases
    case rec
    then show ?thesis using seeded_record [of L vd i cid rt env] assms by blast
  next
    case man
    then show ?thesis using seeded_manifest [of L vd rt m c env] assms by blast
  qed
qed

text \<open>A record the dispatcher makes is backed: the exemption and the proof precede it.\<close>

lemma bt_insert_subset: "set (bt_insert k v xs) \<subseteq> insert (k, v) (set xs)"
  by (induction k v xs rule: bt_insert.induct) (auto split: if_splits)

lemma records_backed_same:
  assumes "records_backed L idx" and "index_extends idx idx'" and "mi_v2_held idx' = mi_v2_held idx"
  shows "records_backed L idx'"
  using assms record_backed_mono [OF assms(2)] by (fastforce simp: records_backed_def held_list_def v2_held_records_def)

lemma held_list_record:
  assumes "record_v2_held_index env idx d rt i cid = (r, idx', d')"
  shows "set (held_list idx' rt') \<subseteq> set (held_list idx rt') \<union> (if r = Inr () \<and> rt' = rt then {(i, cid)} else {})"
proof -
  obtain r1 idx1 d1 where a: "append_sidecar_line env idx d (held_file rt) (format_v2_held_line i cid @ [newline])
      = (r1, idx1, d1)" by (metis prod_cases3)
  obtain x where "idx1 = idx\<lparr>mi_durable_sidecars := x\<rparr>" using append_sidecar_line_cases(2) [OF a] by blast
  then show ?thesis
    using assms a bt_insert_subset [of i cid "held_list idx rt"]
    by (auto simp: record_v2_held_index_def held_list_def v2_held_records_def entry_insert_def
        split: option.splits if_splits sum.splits)
qed

lemma keeps_held_list:
  "record_v2_held_chunk env idx d rt cid = (r, idx', d') \<Longrightarrow> mi_v2_held idx' = mi_v2_held idx"
  "record_private_chunk_cid env idx d rt cid = (r, idx', d') \<Longrightarrow> mi_v2_held idx' = mi_v2_held idx"
  "record_v2_pushed_proof H env idx d rt i leaf path = (r, idx', d') \<Longrightarrow> mi_v2_held idx' = mi_v2_held idx"
  by (auto simp: record_v2_held_chunk_def record_private_chunk_cid_def record_v2_pushed_proof_def Let_def
      dest: append_sidecar_line_cases(2) split: if_splits option.splits sum.splits prod.splits)

lemma record_proof_and_held_list:
  assumes "record_proof_and_held L env vd rt i leaf path cid = (e, vd')"
  shows "set (held_list (vd_index vd') rt') \<subseteq> set (held_list (vd_index vd) rt')
     \<union> (if e = None \<and> rt' = rt then {(i, cid)} else {})"
proof -
  obtain rp idx1 d1 where p: "record_v2_pushed_proof (blake3 L) (ie_proof env) (vd_index vd) (vd_mdir vd) rt i leaf path
      = (rp, idx1, d1)" by (metis prod_cases3)
  obtain rh idx2 d2 where h: "record_v2_held_index (ie_held env) idx1 d1 rt i cid = (rh, idx2, d2)"
    by (metis prod_cases3)
  have "held_list idx1 rt' = held_list (vd_index vd) rt'"
    using keeps_held_list(3) [OF p] by (simp add: held_list_def v2_held_records_def)
  then show ?thesis using assms p h held_list_record [OF h, of rt']
    by (cases rp; cases rh) (auto simp: record_proof_and_held_def record_pushed_proof_def record_held_def)
qed

lemma accept_held_list:
  assumes "accept_validated L W env vd data rt i path ap = (e, vd')"
  shows "set (held_list (vd_index vd') rt') \<subseteq> set (held_list (vd_index vd) rt')
     \<union> (if e = None \<and> rt' = rt then {(i, cid_from_data L data)} else {})"
proof -
  obtain r pv where v: "validate_push L W (ie_pv env) (vd_validator vd) rt i data path = (r, pv)" by fastforce
  define vd0 and cid where "vd0 = vd\<lparr>vd_validator := pv\<rparr>" and "cid = cid_from_data L data"
  obtain rs vd1 where st: "store_v2_pushed_chunk L env vd0 rt cid data = (rs, vd1)" by fastforce
  obtain rq idx d where pq: "record_private_chunk_cid (ie_private env) (vd_index vd1) (vd_mdir vd1) rt cid = (rq, idx, d)"
    by (metis prod_cases3)
  have k1: "held_list (vd_index vd1) rt' = held_list (vd_index vd) rt'"
    using st keeps_held_list(1)
    by (auto simp: store_v2_pushed_chunk_def vd0_def held_list_def v2_held_records_def split: prod.splits sum.splits)
  have k2: "held_list idx rt' = held_list (vd_index vd1) rt'"
    using keeps_held_list(2) [OF pq] by (simp add: held_list_def v2_held_records_def)
  have leaf: "cid_from_blake3_hash L (vp_leaf_hash w) = cid" if "r = Inr w" for w
    using validate_push_leaf v that by (simp add: cid_def cid_from_data_def)
  consider (same) "held_list (vd_index vd') rt' = held_list (vd_index vd) rt'"
    | (recorded) vd2 leaf where "record_proof_and_held L env vd2 rt i leaf path cid = (e, vd')"
        "held_list (vd_index vd2) rt' = held_list (vd_index vd) rt'"
  proof (cases r)
    case (Inl x)
    then show ?thesis using assms v by (intro same) (auto simp: accept_validated_def)
  next
    case (Inr w)
    note run = assms [unfolded accept_validated_def Let_def v Inr, simplified, folded vd0_def, unfolded leaf [OF Inr] st]
    show ?thesis
    proof (cases "is_private (vp_visibility w) \<and> \<not> ap \<or> (\<exists>x. rs = Inl x)")
      case True
      then show ?thesis using run k1 by (intro same) (auto simp: vd0_def split: if_splits)
    next
      case False
      then show ?thesis
        using run k1 k2 pq by (cases rs; cases rq; cases "is_private (vp_visibility w)") (auto intro: same recorded)
    qed
  qed
  then show ?thesis
  proof cases
    case recorded
    show ?thesis using record_proof_and_held_list [OF recorded(1), of rt'] unfolding recorded(2) cid_def .
  qed auto
qed

lemma accept_records_backed:
  assumes "accept_validated L W env vd data rt i path ap = (e, vd')" and "exclusive (ie_put env)"
    and "lib_ok L" and "records_backed L (vd_index vd)"
  shows "records_backed L (vd_index vd')"
proof -
  note st = accept_validated_step [OF assms(1,2)]
  have x: "index_extends (vd_index vd) (vd_index vd')" using st by (simp add: vd_grows_def)
  have new: "record_backed L (vd_index vd') rt i (cid_from_data L data)" if none: "e = None"
  proof -
    obtain v :: validated_push and pv where v: "validate_push L W (ie_pv env) (vd_validator vd) rt i data path = (Inr v, pv)"
        "is_gc_protected (vd_index vd') (cid_from_blake3_hash L (vp_leaf_hash v))"
        "v2_pushed_proof (vd_index vd') rt i = Some \<lparr>pp_leaf = vp_leaf_hash v, pp_path = path\<rparr>"
        "recorded (mi_v2_held (vd_index vd')) rt i = Some (cid_from_blake3_hash L (vp_leaf_hash v))"
      using accept_validated_step [OF assms(1) [unfolded none] assms(2)] by blast
    then show ?thesis
      using validate_push_leaf [OF v(1)] lib_ok_blake3 [OF assms(3)] by (simp add: record_backed_def cid_from_data_def)
  qed
  have "record_backed L (vd_index vd') rt' j c" if "(j, c) \<in> set (held_list (vd_index vd') rt')" for rt' j c
  proof (cases "(j, c) \<in> set (held_list (vd_index vd) rt')")
    case True
    then have "record_backed L (vd_index vd) rt' j c" using assms(4) by (auto simp: records_backed_def)
    then show ?thesis by (rule record_backed_mono [OF x])
  next
    case False
    then have "e = None \<and> rt' = rt \<and> (j, c) = (i, cid_from_data L data)"
      using accept_held_list [OF assms(1), of rt'] that by (cases "e = None \<and> rt' = rt") auto
    then show ?thesis using new by simp
  qed
  then show ?thesis by (auto simp: records_backed_def)
qed

lemma manifests_keep_held_list:
  "handle_manifest_push_v2 L B env vd rt bs = (resp, vd', att) \<Longrightarrow> mi_v2_held (vd_index vd') = mi_v2_held (vd_index vd)"
  "accept_refetched_manifest L B env vd rt n bs = (r, vd') \<Longrightarrow> mi_v2_held (vd_index vd') = mi_v2_held (vd_index vd)"
  by (auto simp: handle_manifest_push_v2_def accept_refetched_manifest_def insert_private_def mi_insert_def add_to_maps_def
      Let_def split: sum.splits if_splits prod.splits)

lemma inbound_step_records_backed:
  assumes "inbound_step L W B acl vd ev = (vd', att)" and "exclusive (ie_put (event_env ev))"
    and "lib_ok L" and "records_backed L (vd_index vd)"
  shows "records_backed L (vd_index vd')"
proof (cases ev)
  case (Request env peer_id req)
  show ?thesis
  proof (cases req)
    case (Push data rt i path)
    then have "accept_validated L W env vd data rt i path True = (fst (accept_chunk L W env vd data rt i path), vd')"
      using assms(1) Request by (auto simp: handle_v2_def accept_chunk_def split: prod.splits)
    then show ?thesis using accept_records_backed assms(2-4) Request by auto
  next
    case (ManifestPush rt bs)
    then obtain resp where h: "handle_manifest_push_v2 L B env vd rt bs = (resp, vd', att)"
      using assms(1) Request by (cases "handle_manifest_push_v2 L B env vd rt bs") (auto simp: handle_v2_def)
    have "index_extends (vd_index vd) (vd_index vd')" using manifest_push_step(1) [OF h] by (simp add: vd_grows_def)
    then show ?thesis using records_backed_same [OF assms(4)] manifests_keep_held_list(1) [OF h] by blast
  qed (use assms Request in \<open>auto simp: handle_v2_def\<close>)
next
  case (RefetchChunk env data rt i path)
  then have "accept_validated L W env vd data rt i path False
      = (fst (accept_refetched_chunk L W env vd data rt i path), vd')"
    using assms(1) by (auto simp: accept_refetched_chunk_def)
  then show ?thesis using accept_records_backed assms(2-4) RefetchChunk by auto
next
  case (RefetchManifest env rt n bs)
  then obtain r where h: "accept_refetched_manifest L B env vd rt n bs = (r, vd')"
    using assms(1) by (cases "accept_refetched_manifest L B env vd rt n bs") auto
  have "index_extends (vd_index vd) (vd_index vd')" using refetched_manifest_step(1) [OF h] by (simp add: vd_grows_def)
  then show ?thesis using records_backed_same [OF assms(4)] manifests_keep_held_list(2) [OF h] by blast
qed

lemma inbound_run_records_backed:
  assumes "inbound_run L W B acl vd evs = (vd', atts)" and "\<forall>ev \<in> set evs. exclusive (ie_put (event_env ev))"
    and "lib_ok L" and "records_backed L (vd_index vd)"
  shows "records_backed L (vd_index vd')"
  using assms
proof (induction evs arbitrary: vd atts)
  case (Cons ev evs)
  obtain vd1 att where st: "inbound_step L W B acl vd ev = (vd1, att)" by fastforce
  then obtain as where "inbound_run L W B acl vd1 evs = (vd', as)" using Cons.prems(1) by (auto split: prod.splits)
  then show ?case using Cons.IH inbound_step_records_backed [OF st] Cons.prems(2-4) by auto
qed simp

text \<open>What holds of a dispatcher started the way the node starts it, at any later moment.\<close>

lemma seeded_run:
  assumes "inbound_run L W B acl (seed_held_from_disk env (v2_dispatcher_new pv s idx d)) evs = (vd, atts)"
    and "\<forall>ev \<in> set evs. exclusive (ie_put (event_env ev))" and "lib_ok L" and "store_inv L s"
    and "index_consistent L idx" and "index_typed idx" and "proofs_ok (blake3 L) idx"
  shows "vd_grows L (seed_held_from_disk env (v2_dispatcher_new pv s idx d)) vd"
    "i \<in> held_for vd rt \<Longrightarrow> answerable L vd rt i \<or> manifest_backed L vd rt i \<or> unproved_record L idx s rt i"
    "(rt, held) \<in> set atts \<Longrightarrow> held \<subseteq> held_for vd rt" "proofs_ok (blake3 L) (vd_index vd)"
proof -
  let ?vd0 = "seed_held_from_disk env (v2_dispatcher_new pv s idx d)"
  have f: "vd_local ?vd0 = s" "vd_index ?vd0 = idx" "vd_held ?vd0 = held_from_disk env s idx"
    by (auto simp: seed_held_from_disk_def v2_dispatcher_new_def)
  have "attestable_from L (held_from_disk env s idx) ?vd0" using assms(7) by (simp add: attestable_from_def f)
  note run = inbound_run_attestable_from [OF assms(1-3) this]
  show g: "vd_grows L ?vd0 vd" and "proofs_ok (blake3 L) (vd_index vd)" using run by (simp_all add: attestable_from_def)
  show "(rt, held) \<in> set atts \<Longrightarrow> held \<subseteq> held_for vd rt" using run by (auto simp: held_for_def)
  assume "i \<in> held_for vd rt"
  then consider "answerable L vd rt i" | "i \<in> held_from_disk env s idx rt"
    using run by (auto simp: attestable_from_def held_for_def)
  then show "answerable L vd rt i \<or> manifest_backed L vd rt i \<or> unproved_record L idx s rt i"
    using seeded_backed [OF assms(3,4,7,5,6) _ f(1,2)] answerable_mono [OF g] manifest_backed_mono [OF g] by cases blast+
qed

lemma backed_not_unproved: "records_backed L idx \<Longrightarrow> \<not> unproved_record L idx s rt i"
  by (auto simp: records_backed_def unproved_record_def)

text \<open>
  C5. Nothing is attested that this archive cannot answer for. Boot the dispatcher as the node does, over
  a content-addressed store and a consistent index whose push proofs verify, the held tracker rebuilt
  from disk, and handle any requests and re-fetches, accepted or refused, under any faults. Every index
  of every attestation spawned on the way is, at the end of the run, either answerable from its push
  (the stored chunk and its recorded path prove it against the root, it is recorded as held and exempt
  from garbage collection), or backed by the indexed Public manifest of that root, or was listed by a
  held record at boot whose chunk is stored but which has no matching push proof or exemption, which the
  rebuild does not check. When every held record on disk is backed there are only the first two cases,
  and the run keeps it so. The rebuild forgets nothing: a recorded chunk that is stored is held.
\<close>

theorem attestations_are_answerable:
  assumes "inbound_run L W B acl (seed_held_from_disk env (v2_dispatcher_new pv s idx d)) evs = (vd, atts)"
    and "\<forall>ev \<in> set evs. exclusive (ie_put (event_env ev))" and "lib_ok L" and "store_inv L s"
    and "index_consistent L idx" and "index_typed idx" and "proofs_ok (blake3 L) idx"
    and "(rt, held) \<in> set atts" and "i \<in> held"
  shows "(answerable L vd rt i \<or> manifest_backed L vd rt i \<or> unproved_record L idx s rt i)
       \<and> (records_backed L idx \<longrightarrow> (answerable L vd rt i \<or> manifest_backed L vd rt i) \<and> records_backed L (vd_index vd))
       \<and> (\<forall>j b. io_open env = None \<and> recorded (mi_v2_held idx) rt j = Some (cid_from_data L b)
              \<and> lookup s (cid_from_data L b) \<noteq> None \<longrightarrow> j \<in> held_for vd rt)"
proof -
  let ?vd0 = "seed_held_from_disk env (v2_dispatcher_new pv s idx d)"
  note run = seeded_run [OF assms(1-7)]
  have a: "answerable L vd rt i \<or> manifest_backed L vd rt i \<or> unproved_record L idx s rt i"
    using run(2,3) assms(8,9) by blast
  have i0: "vd_index ?vd0 = idx" by (simp add: seed_held_from_disk_def v2_dispatcher_new_def)
  have "records_backed L (vd_index vd)" if "records_backed L idx"
    using inbound_run_records_backed [OF assms(1-3)] that i0 by simp
  moreover have "j \<in> held_for vd rt" if "io_open env = None" "recorded (mi_v2_held idx) rt j = Some (cid_from_data L b)"
      "lookup s (cid_from_data L b) \<noteq> None" for j b
  proof -
    have "has env s (cid_from_data L b)" using has_stored [OF assms(3) that(1)] that(3) by blast
    then have "j \<in> held_from_disk env s idx rt" using that(2)
      by (force simp: held_from_disk_def v2_held_records_def recorded_def dest: map_of_SomeD split: option.splits)
    then show ?thesis using run(1) by (auto simp: vd_grows_def held_for_def seed_held_from_disk_def v2_dispatcher_new_def)
  qed
  ultimately show ?thesis using a backed_not_unproved by blast
qed

text \<open>
  The held tracker is only a cache of what is on disk. After any run, start a new dispatcher over
  the store that was left and over an index that still has the run's held records, and rebuild the
  tracker: every index that was held is held again. What the rebuild adds through a manifest is true:
  the store has a chunk whose digest is the manifest's leaf at that index.
\<close>

theorem restart_rebuilds_held:
  assumes "inbound_run L W B acl (v2_dispatcher_new pv s idx d) evs = (vd, atts)"
    and "\<forall>ev \<in> set evs. exclusive (ie_put (event_env ev))" and "lib_ok L"
    and "proofs_ok (blake3 L) idx" and "store_inv L s"
    and "\<forall>rt i cid. recorded (mi_v2_held (vd_index vd)) rt i = Some cid \<longrightarrow> recorded (mi_v2_held idx2) rt i = Some cid"
    and "index_consistent L idx2" and "io_open env = None"
    and "\<forall>rt m. get_by_merkle_root idx2 rt = Some m \<longrightarrow> (\<forall>c \<in> set (chunks m). length (cd_hash c) = 32)"
  shows "(\<forall>rt. held_for vd rt \<subseteq> held_for (seed_held_from_disk env (v2_dispatcher_new pv2 (vd_local vd) idx2 d2)) rt)
       \<and> (\<forall>rt i. i \<in> held_from_disk env (vd_local vd) idx2 rt \<longrightarrow>
            (\<exists>cid. (i, cid) \<in> set (case v2_held_records idx2 rt of None \<Rightarrow> [] | Some r \<Rightarrow> r) \<and> has env (vd_local vd) cid)
          \<or> (\<exists>m b. get_by_merkle_root idx2 rt = Some m \<and> unat i < length (chunks m)
                 \<and> lookup (vd_local vd) (cd_cid (chunks m ! unat i)) = Some b
                 \<and> blake3 L b = cd_hash (chunks m ! unat i)))"
proof -
  have a0: "attestable L (v2_dispatcher_new pv s idx d)" using assms(4) by (simp add: attestable_def v2_dispatcher_new_def)
  note run = inbound_run_attestable [OF assms(1-3) a0]
  have inv: "store_inv L (vd_local vd)" using run assms(5) by (simp add: vd_grows_def v2_dispatcher_new_def)
  have "i \<in> held_from_disk env (vd_local vd) idx2 rt" if "i \<in> vd_held vd rt" for rt i
  proof -
    have "answerable L vd rt i" using run that by (auto simp: attestable_def)
    then obtain p :: pushed_proof and b where "lookup (vd_local vd) (cid_from_blake3_hash L (pp_leaf p)) = Some b" "blake3 L b = pp_leaf p"
        and r1: "recorded (mi_v2_held (vd_index vd)) rt i = Some (cid_from_data L b)"
      unfolding answerable_def by blast
    then have r: "recorded (mi_v2_held (vd_index vd)) rt i = Some (cid_from_data L b)"
        "lookup (vd_local vd) (cid_from_data L b) = Some b"
      by (simp_all add: cid_from_data_def)
    then have "recorded (mi_v2_held idx2) rt i = Some (cid_from_data L b)" using assms(6) by blast
    then obtain records where m: "mi_v2_held idx2 rt = Some records" "(i, cid_from_data L b) \<in> set records"
      by (auto simp: recorded_def split: option.splits dest: map_of_SomeD)
    then show ?thesis
      using has_stored [OF assms(3,8) r(2)] by (force simp: held_from_disk_def v2_held_records_def)
  qed
  moreover
  have "\<exists>m b. get_by_merkle_root idx2 rt = Some m \<and> unat i < length (chunks m)
                 \<and> lookup (vd_local vd) (cd_cid (chunks m ! unat i)) = Some b
                 \<and> blake3 L b = cd_hash (chunks m ! unat i)"
    if m: "get_by_merkle_root idx2 rt = Some m" "c \<in> set (chunks m)" "has env (vd_local vd) (cd_cid c)" "i = cd_index c"
    for rt i m c
  proof -
    have "length (cd_hash c) = 32" using assms(9) m by blast
    note h = held_from_disk_manifest [OF assms(3) inv assms(7) m(1-3) this]
    obtain j where j: "j < length (chunks m)" "c = chunks m ! j" using m(2) by (auto simp: in_set_conv_nth)
    then have "unat i = j" using assms(7) m(1,4) by (auto simp: index_consistent_def consistent_manifest_def)
    then show ?thesis using h j m by auto
  qed
  then have "(\<exists>cid. (i, cid) \<in> set (case v2_held_records idx2 rt of None \<Rightarrow> [] | Some r \<Rightarrow> r) \<and> has env (vd_local vd) cid)
      \<or> (\<exists>m b. get_by_merkle_root idx2 rt = Some m \<and> unat i < length (chunks m)
           \<and> lookup (vd_local vd) (cd_cid (chunks m ! unat i)) = Some b
           \<and> blake3 L b = cd_hash (chunks m ! unat i))"
    if "i \<in> held_from_disk env (vd_local vd) idx2 rt" for rt i
    using that by (fastforce simp: held_from_disk_def split: option.splits)
  ultimately show ?thesis
    by (simp add: held_for_def seed_held_from_disk_def v2_dispatcher_new_def subset_iff)
qed

section \<open>Instances\<close>

definition demo_ienv :: inbound_env where
  "demo_ienv = \<lparr>ie_pv = demo_pv_env, ie_get = io_fine, ie_put = io_fine, ie_protect = me_fine, ie_private = me_fine,
     ie_proof = me_fine, ie_held = me_fine, ie_manifest = me_fine,
     ie_file_shape = (\<lambda>_. Inr \<lparr>fs_chunk_count = 1, fs_assignment_height = 5, fs_visibility = 1, fs_lifecycle = 1\<rparr>),
     ie_sent = True\<rparr>"

definition demo_vd :: v2_dispatcher where
  "demo_vd = v2_dispatcher_new (push_validator_new (replicate 20 1) 3) empty_chunk_store demo_trusted
     [(GC_PROTECTED_FILE, [])]"

lemma append_line_fine:
  "\<not> mi_read_only idx \<Longrightarrow> \<exists>d'. append_sidecar_line me_fine idx d n l
     = (Inr (), idx\<lparr>mi_durable_sidecars := insert n (mi_durable_sidecars idx)\<rparr>, d')"
  by (simp add: append_sidecar_line_def ensure_writable_def me_fine_def io_result_def Let_def)

lemma record_both_fine:
  assumes "recorded (mi_v2_proofs (vd_index vd)) rt i = None" and "recorded (mi_v2_held (vd_index vd)) rt i = None"
    and "\<not> mi_read_only (vd_index vd)" and "ie_proof env = me_fine" and "ie_held env = me_fine"
    and "pushed_proof_verifies (blake3 L) rt i \<lparr>pp_leaf = leaf, pp_path = path\<rparr>"
  shows "\<exists>vd'. record_proof_and_held L env vd rt i leaf path cid = (None, vd')"
proof -
  let ?n = "proofs_file rt" and ?p = "\<lparr>pp_leaf = leaf, pp_path = path\<rparr>"
  obtain d1 where p: "append_sidecar_line me_fine (vd_index vd) (vd_mdir vd) ?n (format_v2_proof_line i ?p @ [newline])
     = (Inr (), (vd_index vd)\<lparr>mi_durable_sidecars := insert ?n (mi_durable_sidecars (vd_index vd))\<rparr>, d1)"
    using append_line_fine [OF assms(3)] by blast
  define idx1 where "idx1 = (vd_index vd)\<lparr>mi_durable_sidecars := insert ?n (mi_durable_sidecars (vd_index vd)),
    mi_v2_proofs := entry_insert (mi_v2_proofs (vd_index vd)) rt i ?p\<rparr>"
  have "\<not> mi_read_only idx1" using assms(3) by (simp add: idx1_def)
  then obtain idx2 d2 where h: "append_sidecar_line me_fine idx1 d1 (held_file rt) (format_v2_held_line i cid @ [newline])
     = (Inr (), idx2, d2)" using append_line_fine by blast
  have "record_v2_pushed_proof (blake3 L) me_fine (vd_index vd) (vd_mdir vd) rt i leaf path = (Inr (), idx1, d1)"
    using assms(1,6) p by (simp add: record_v2_pushed_proof_def Let_def idx1_def)
  moreover have "\<exists>idx3 d3. record_v2_held_index me_fine idx1 d1 rt i cid = (Inr (), idx3, d3)"
    using assms(2) h by (simp add: record_v2_held_index_def idx1_def)
  ultimately show ?thesis
    using assms(4,5) by (auto simp: record_proof_and_held_def record_pushed_proof_def record_held_def)
qed

lemma demo_accept: "\<exists>vd'. accept_chunk demo_lib demo_wire demo_ienv demo_vd [7] demo_chunk_root 0 [] = (None, vd')"
proof -
  obtain pv where v: "validate_push demo_lib demo_wire demo_pv_env (push_validator_new (replicate 20 1) 3) demo_chunk_root 0 [7] []
      = (Inr \<lparr>vp_leaf_hash = blake3 demo_lib [7], vp_visibility = 0\<rparr>, pv)" using demo_validates by blast
  obtain idx d where p: "record_v2_held_chunk me_fine demo_trusted [(GC_PROTECTED_FILE, [])] demo_chunk_root demo_cid = (Inr (), idx, d)"
      "idx = demo_trusted\<lparr>mi_gc_protected := {demo_cid}\<rparr>"
    by (simp add: demo_trusted_def record_v2_held_chunk_def append_gc_protected_line_def ensure_writable_def
      empty_index_def me_fine_def gc_protection_initialized_def gc_protection_intact_def io_result_def)
  define s where "s = mark_durable (demo_cid @ ''.chunk'') (published empty_chunk_store demo_cid [7])"
  define vd1 where "vd1 = demo_vd\<lparr>vd_validator := pv, vd_index := idx, vd_mdir := d, vd_local := s\<rparr>"
  have st: "store_v2_pushed_chunk demo_lib demo_ienv (demo_vd\<lparr>vd_validator := pv\<rparr>) demo_chunk_root demo_cid [7] = (Inr (), vd1)"
    using p demo_put by (simp add: store_v2_pushed_chunk_def demo_ienv_def demo_vd_def v2_dispatcher_new_def vd1_def s_def)
  have "pushed_proof_verifies (blake3 demo_lib) demo_chunk_root 0 \<lparr>pp_leaf = blake3 demo_lib [7], pp_path = []\<rparr>"
    by (simp add: pushed_proof_verifies_def checked_shr0_def verify_merkle_proof_bytes_def verify_merkle_proof_def
        demo_chunk_root_def demo_lib_def)
  then obtain vd' where "record_proof_and_held demo_lib demo_ienv vd1 demo_chunk_root 0 (blake3 demo_lib [7]) [] demo_cid = (None, vd')"
    using record_both_fine [of vd1 demo_chunk_root 0 demo_ienv demo_lib "blake3 demo_lib [7]" "[]" demo_cid] p(2)
    by (auto simp: vd1_def demo_vd_def demo_trusted_def empty_index_def recorded_def demo_ienv_def)
  then show ?thesis
    using v st
    by (simp add: accept_chunk_def accept_validated_def demo_vd_def v2_dispatcher_new_def demo_ienv_def is_private_def
        demo_cid_def cid_from_data_def Let_def)
qed

lemma demo_vd_fields: "vd_index demo_vd = demo_trusted" "vd_local demo_vd = empty_chunk_store" "vd_held demo_vd rt = {}"
  "proofs_ok H demo_trusted" "ie_put demo_ienv = io_fine"
  by (simp_all add: demo_vd_def v2_dispatcher_new_def demo_trusted_def proofs_ok_def empty_index_def recorded_def demo_ienv_def)

theorem acknowledged_push_is_complete_witness:
  "\<exists>vd' b. accept_chunk demo_lib demo_wire demo_ienv demo_vd [7] demo_chunk_root 0 [] = (None, vd')
     \<and> lookup (vd_local vd') (cid_from_data demo_lib [7]) = Some b \<and> blake3 demo_lib b = blake3 demo_lib [7]
     \<and> held_for vd' demo_chunk_root = {0}"
proof -
  obtain vd' where a: "accept_chunk demo_lib demo_wire demo_ienv demo_vd [7] demo_chunk_root 0 [] = (None, vd')"
    using demo_accept by blast
  show ?thesis
    using acknowledged_push_is_complete [OF a] demo_lib_ok a by (auto simp: demo_vd_fields held_for_def)
qed

theorem refused_chunk_changes_nothing_held_witness:
  "\<exists>e vd'. accept_validated demo_lib demo_wire demo_ienv demo_vd [7] demo_chunk_root 5 [] True = (Some e, vd')
     \<and> vd_held vd' = vd_held demo_vd"
proof -
  have "\<nexists>vp pv. validate_push demo_lib demo_wire demo_pv_env (vd_validator demo_vd) demo_chunk_root 5 [7] [] = (Inr vp, pv)"
    by (auto simp: validate_push_def fetch_file_info_def demo_vd_def v2_dispatcher_new_def push_validator_new_def
        demo_pv_env_def demo_info_def Let_def split: sum.splits if_splits)
  then obtain e vd' where a: "accept_validated demo_lib demo_wire demo_ienv demo_vd [7] demo_chunk_root 5 [] True = (Some e, vd')"
    by (cases "validate_push demo_lib demo_wire demo_pv_env (vd_validator demo_vd) demo_chunk_root 5 [7] []";
        cases "fst (validate_push demo_lib demo_wire demo_pv_env (vd_validator demo_vd) demo_chunk_root 5 [7] [])")
      (auto simp: accept_validated_def demo_ienv_def)
  show ?thesis using refused_chunk_changes_nothing_held [OF a] a by (auto simp: demo_vd_fields)
qed

definition demo_events :: "inbound_event list" where
  "demo_events = [Request demo_ienv ''p'' (Push [7] demo_chunk_root 0 []), Request demo_ienv ''p'' (ManifestPush demo_chunk_root [9])]"

lemma demo_run_attests:
  "\<exists>vd. inbound_run demo_lib demo_wire demo_cbor (\<lambda>_ _ _. True) demo_vd demo_events = (vd, [(demo_chunk_root, {0})])"
proof -
  obtain vd1 where a: "accept_chunk demo_lib demo_wire demo_ienv demo_vd [7] demo_chunk_root 0 [] = (None, vd1)"
    using demo_accept by blast
  note g = accept_validated_step [OF a [unfolded accept_chunk_def], unfolded demo_vd_fields, OF exclusive_fine]
  have held: "vd_held vd1 demo_chunk_root = {0}" using g by (auto simp: demo_vd_fields)
  have ro: "\<not> mi_read_only (vd_index vd1)"
    using g by (auto simp: vd_grows_def index_extends_def demo_vd_fields demo_trusted_def empty_index_def)
  obtain resp vd2 att where h: "handle_manifest_push_v2 demo_lib demo_cbor demo_ienv vd1 demo_chunk_root [9] = (resp, vd2, att)"
    by (metis prod_cases3)
  have "\<exists>idx d. insert_private me_fine (vd_index vd1) (vd_mdir vd1) demo_chunk_root [9] = (Inr (), idx, d)"
    using ro by (simp add: insert_private_def ensure_writable_def fs_write_def me_fine_def)
  then have "resp = ManifestPushAck demo_chunk_root None"
    using h by (auto simp: handle_manifest_push_v2_def demo_ienv_def is_private_def split: if_splits)
  then have "att = Some (demo_chunk_root, {0})"
    using manifest_push_step(2,5) [OF h] held by (simp add: spawn_attestation_def held_for_def demo_ienv_def)
  then show ?thesis using a h by (simp add: demo_events_def handle_v2_def)
qed

lemma demo_events_exclusive: "\<forall>ev \<in> set demo_events. exclusive (ie_put (event_env ev))"
  by (simp add: demo_events_def demo_vd_fields)

lemma private_push_manifests:
  assumes "ie_file_shape env rt = Inr shape" and "is_private (fs_visibility shape)"
    and "handle_manifest_push_v2 L B env vd rt bs = (resp, vd', att)"
  shows "mi_by_root (vd_index vd') = mi_by_root (vd_index vd)"
  using assms by (auto simp: handle_manifest_push_v2_def insert_private_def Let_def split: if_splits sum.splits prod.splits)

lemma demo_no_manifests:
  assumes "inbound_run demo_lib demo_wire demo_cbor (\<lambda>_ _ _. True) demo_vd demo_events = (vd, atts)"
  shows "mi_by_root (vd_index vd) = Map.empty"
proof -
  obtain e vd1 where a: "accept_chunk demo_lib demo_wire demo_ienv demo_vd [7] demo_chunk_root 0 [] = (e, vd1)" by fastforce
  obtain resp vd2 att where h: "handle_manifest_push_v2 demo_lib demo_cbor demo_ienv vd1 demo_chunk_root [9] = (resp, vd2, att)"
    by (metis prod_cases3)
  have "vd = vd2" using assms a h by (auto simp: demo_events_def handle_v2_def split: option.splits)
  moreover have "mi_by_root (vd_index vd2) = mi_by_root (vd_index vd1)"
  proof (rule private_push_manifests [OF _ _ h])
    show "ie_file_shape demo_ienv demo_chunk_root
        = Inr \<lparr>fs_chunk_count = 1, fs_assignment_height = 5, fs_visibility = 1, fs_lifecycle = 1\<rparr>"
      by (simp add: demo_ienv_def)
  qed (simp add: is_private_def)
  moreover have "mi_by_root (vd_index vd1) = mi_by_root (vd_index demo_vd)"
    using accept_validated_step [OF a [unfolded accept_chunk_def]] exclusive_fine by (simp add: demo_vd_fields)
  ultimately show ?thesis by (simp add: demo_vd_fields demo_trusted_def empty_index_def)
qed

text \<open>The node that handled \<open>demo_events\<close>, restarted: the manifest is pushed again and the rebuilt tracker attested.\<close>

definition demo_reboot :: "v2_dispatcher \<Rightarrow> v2_dispatcher" where
  "demo_reboot vd = seed_held_from_disk io_fine
     (v2_dispatcher_new (push_validator_new (replicate 20 1) 3) (vd_local vd) (vd_index vd) (vd_mdir vd))"

definition demo_again :: "inbound_event list" where
  "demo_again = [Request demo_ienv ''p'' (ManifestPush demo_chunk_root [9])]"

lemma demo_reboot_ok:
  assumes "inbound_run demo_lib demo_wire demo_cbor (\<lambda>_ _ _. True) demo_vd demo_events = (vd, [(demo_chunk_root, {0})])"
  shows "store_inv demo_lib (vd_local vd)" "index_consistent demo_lib (vd_index vd)" "index_typed (vd_index vd)"
    "proofs_ok (blake3 demo_lib) (vd_index vd)" "records_backed demo_lib (vd_index vd)"
    "answerable demo_lib vd demo_chunk_root 0" "mi_by_root (vd_index vd) = Map.empty"
proof -
  have a: "attestable demo_lib demo_vd" by (simp add: attestable_def demo_vd_fields)
  note run = inbound_run_attestable [OF assms demo_events_exclusive demo_lib_ok a]
  show "store_inv demo_lib (vd_local vd)" using run store_inv_empty by (simp add: vd_grows_def demo_vd_fields)
  show m: "mi_by_root (vd_index vd) = Map.empty" using demo_no_manifests [OF assms] .
  then show "index_consistent demo_lib (vd_index vd)" "index_typed (vd_index vd)"
    by (simp_all add: index_consistent_def index_typed_def get_by_merkle_root_def)
  show "proofs_ok (blake3 demo_lib) (vd_index vd)" "answerable demo_lib vd demo_chunk_root 0"
    using run by (auto simp: attestable_def)
  have "records_backed demo_lib (vd_index demo_vd)"
    by (simp add: records_backed_def held_list_def v2_held_records_def demo_vd_fields demo_trusted_def empty_index_def)
  then show "records_backed demo_lib (vd_index vd)"
    by (rule inbound_run_records_backed [OF assms demo_events_exclusive demo_lib_ok])
qed

lemma demo_reboot_attests:
  assumes "inbound_run demo_lib demo_wire demo_cbor (\<lambda>_ _ _. True) demo_vd demo_events = (vd, [(demo_chunk_root, {0})])"
  shows "\<exists>vd2 held. inbound_run demo_lib demo_wire demo_cbor (\<lambda>_ _ _. True) (demo_reboot vd) demo_again
     = (vd2, [(demo_chunk_root, held)]) \<and> 0 \<in> held"
proof -
  obtain resp vd2 att where h: "handle_manifest_push_v2 demo_lib demo_cbor demo_ienv (demo_reboot vd) demo_chunk_root [9]
      = (resp, vd2, att)" by (metis prod_cases3)
  note ok = demo_reboot_ok [OF assms]
  have i: "vd_index (demo_reboot vd) = vd_index vd" "vd_local (demo_reboot vd) = vd_local vd"
    by (simp_all add: demo_reboot_def seed_held_from_disk_def v2_dispatcher_new_def)
  have "mi_read_only (vd_index vd) = mi_read_only demo_trusted"
  proof -
    have "attestable demo_lib demo_vd" by (simp add: attestable_def demo_vd_fields)
    from inbound_run_attestable [OF assms demo_events_exclusive demo_lib_ok this] show ?thesis
      by (simp add: vd_grows_def index_extends_def demo_vd_fields)
  qed
  then have ro: "\<not> mi_read_only (vd_index vd)" by (simp add: demo_trusted_def empty_index_def)
  have "\<exists>idx d. insert_private me_fine (vd_index vd) (vd_mdir (demo_reboot vd)) demo_chunk_root [9] = (Inr (), idx, d)"
    using ro by (simp add: insert_private_def ensure_writable_def fs_write_def me_fine_def)
  then have "resp = ManifestPushAck demo_chunk_root None"
    using h i by (auto simp: handle_manifest_push_v2_def demo_ienv_def is_private_def Let_def split: if_splits)
  then have att: "att = Some (demo_chunk_root, vd_held (demo_reboot vd) demo_chunk_root)"
    using manifest_push_step(2,5) [OF h] by (simp add: spawn_attestation_def held_for_def demo_ienv_def)
  obtain b where b: "recorded (mi_v2_held (vd_index vd)) demo_chunk_root 0 = Some (cid_from_data demo_lib b)"
      "lookup (vd_local vd) (cid_from_data demo_lib b) = Some b"
    using ok(6) unfolding answerable_def cid_from_data_def by metis
  have "has io_fine (vd_local vd) (cid_from_data demo_lib b)" using has_stored [OF demo_lib_ok _ b(2)] by (simp add: io_fine_def)
  then have "0 \<in> vd_held (demo_reboot vd) demo_chunk_root" using b(1)
    by (force simp: demo_reboot_def seed_held_from_disk_def v2_dispatcher_new_def held_from_disk_def v2_held_records_def
        recorded_def dest: map_of_SomeD split: option.splits)
  then show ?thesis using h att by (simp add: demo_again_def handle_v2_def)
qed

theorem attestations_are_answerable_witness:
  "\<exists>vd vd2 held. inbound_run demo_lib demo_wire demo_cbor (\<lambda>_ _ _. True) demo_vd demo_events = (vd, [(demo_chunk_root, {0})])
     \<and> inbound_run demo_lib demo_wire demo_cbor (\<lambda>_ _ _. True) (demo_reboot vd) demo_again = (vd2, [(demo_chunk_root, held)])
     \<and> 0 \<in> held \<and> (answerable demo_lib vd2 demo_chunk_root 0 \<or> manifest_backed demo_lib vd2 demo_chunk_root 0)
     \<and> records_backed demo_lib (vd_index vd2)"
proof -
  obtain vd where r: "inbound_run demo_lib demo_wire demo_cbor (\<lambda>_ _ _. True) demo_vd demo_events = (vd, [(demo_chunk_root, {0})])"
    using demo_run_attests by blast
  obtain vd2 held where r2: "inbound_run demo_lib demo_wire demo_cbor (\<lambda>_ _ _. True) (demo_reboot vd) demo_again
     = (vd2, [(demo_chunk_root, held)])" "0 \<in> held" using demo_reboot_attests [OF r] by blast
  have "\<forall>ev \<in> set demo_again. exclusive (ie_put (event_env ev))" by (simp add: demo_again_def demo_vd_fields)
  note ans = attestations_are_answerable [OF r2(1) [unfolded demo_reboot_def] this demo_lib_ok demo_reboot_ok(1-4) [OF r],
      of demo_chunk_root held 0]
  show ?thesis using ans demo_reboot_ok(5) [OF r] r r2 by auto
qed

theorem pull_response_exact_witness:
  "\<exists>e. build_pull_response (\<lambda>_ _ _. True) demo_ienv demo_vd ''p'' demo_cid 0 8 = Data demo_cid 0 0 [] (Some e)"
proof -
  have "lookup empty_chunk_store k = None" for k by (simp add: lookup_def empty_chunk_store_def)
  moreover have "\<exists>x. get io_fine empty_chunk_store demo_cid = Inl x"
    by (auto simp: get_def open_key_def empty_chunk_store_def split: sum.split option.split)
  ultimately show ?thesis
    using pull_response_exact [where vd = demo_vd and cid = demo_cid and acl = "\<lambda>_ _ _. True" and env = demo_ienv
        and peer = "''p''" and off = 0 and n = 8]
    by (auto simp: demo_vd_fields demo_ienv_def split: shard_response_v2.splits)
qed

theorem restart_rebuilds_held_witness:
  "\<exists>vd. inbound_run demo_lib demo_wire demo_cbor (\<lambda>_ _ _. True) demo_vd demo_events = (vd, [(demo_chunk_root, {0})])
     \<and> 0 \<in> held_for (seed_held_from_disk io_fine
              (v2_dispatcher_new (push_validator_new (replicate 20 1) 3) (vd_local vd) ((vd_index vd)\<lparr>mi_by_root := Map.empty\<rparr>) [])) demo_chunk_root"
proof -
  obtain vd where r: "inbound_run demo_lib demo_wire demo_cbor (\<lambda>_ _ _. True) demo_vd demo_events = (vd, [(demo_chunk_root, {0})])"
    using demo_run_attests by blast
  have a: "attestable demo_lib demo_vd" by (simp add: attestable_def demo_vd_fields)
  note run = inbound_run_attestable [OF r demo_events_exclusive demo_lib_ok a]
  have "0 \<in> held_for vd demo_chunk_root" using run by (simp add: held_for_def)
  then show ?thesis
    using restart_rebuilds_held [OF r [unfolded demo_vd_def] demo_events_exclusive demo_lib_ok demo_vd_fields(4)
        store_inv_empty, of "(vd_index vd)\<lparr>mi_by_root := Map.empty\<rparr>" io_fine] r
    by (auto simp: index_consistent_def get_by_merkle_root_def io_fine_def)
qed

end
