(* ===== verification/Acl.thy ===== *)
theory Acl
  imports Inbound_V2
begin

text \<open>
  Access control for serving (\<open>sum-node/src/acl.rs\<close>) under a runtime profile
  (\<open>sum-node/src/profile.rs\<close>), the textual form of an L1 address (\<open>sum-net/src/identity.rs\<close>), and the
  routing of downloads by visibility (\<open>sum-node/src/download_route.rs\<close>). The checker's RPC answers,
  the base58 encoder and the identify map are the fields of \<open>acl_checker\<close>.
\<close>

section \<open>The checker\<close>

datatype node_profile = Production | Dev

definition is_production :: "node_profile \<Rightarrow> bool" where "is_production p \<longleftrightarrow> p = Production"

definition is_public :: "byte \<Rightarrow> bool" where "is_public v \<longleftrightarrow> v = 0"

record acl_checker =
  acl_file_info_v2 :: "string \<Rightarrow> string + storage_file_info_v2 option"
  acl_access_list :: "string \<Rightarrow> string + storage_file_info option"
  acl_block_height :: "string + u64"
  acl_bs58_encode :: "bytes \<Rightarrow> string"
  acl_peer_addresses :: "string \<Rightarrow> addr20 option"
  acl_profile :: node_profile

definition l1_address_base58 :: "digest_lib \<Rightarrow> (bytes \<Rightarrow> string) \<Rightarrow> addr20 \<Rightarrow> string" where
  "l1_address_base58 L bs58_encode addr =
     (let hash1 = blake3 L addr; hash2 = blake3 L hash1 in bs58_encode (addr @ take 4 hash2))"

text \<open>\<open>parse_hex_to_32\<close> is \<open>serve.rs\<close>'s \<open>hex_to_32\<close>, line by line.\<close>

definition parse_hex_to_32 :: "string \<Rightarrow> hash option" where
  "parse_hex_to_32 hex =
     (if length hex \<noteq> 64 then None
      else if list_ex is_ascii_uppercase hex then None
      else parse_hex_pairs hex)"

definition resolve_root :: "string \<Rightarrow> manifest_index \<Rightarrow> hash option" where
  "resolve_root cid idx =
     (case strip_prefix MANIFEST_REQUEST_PREFIX cid of
        Some hex \<Rightarrow> parse_hex_to_32 hex
      | None \<Rightarrow> merkle_root_for_cid idx cid)"

definition uncertain_branch_allows :: "acl_checker \<Rightarrow> bool" where
  "uncertain_branch_allows A = (case acl_profile A of Production \<Rightarrow> False | Dev \<Rightarrow> True)"

definition resolve_peer_addr :: "acl_checker \<Rightarrow> string \<Rightarrow> addr20 option" where
  "resolve_peer_addr A peer_id = acl_peer_addresses A peer_id"

definition check_access_v2 :: "digest_lib \<Rightarrow> acl_checker \<Rightarrow> string \<Rightarrow> storage_file_info_v2 \<Rightarrow> string + bool" where
  "check_access_v2 L A peer_id info =
     (if is_public (fi_visibility info) then Inr True
      else
        (case resolve_peer_addr A peer_id of
           None \<Rightarrow> Inr False
         | Some addr \<Rightarrow>
            (case find (\<lambda>e. ae_address e = l1_address_base58 L (acl_bs58_encode A) addr) (fi_access_list info) of
               None \<Rightarrow> Inr False
             | Some entry \<Rightarrow>
                (case ae_expires_at entry of
                   None \<Rightarrow> Inr True
                 | Some expires_at \<Rightarrow>
                    (case acl_block_height A of
                       Inl e \<Rightarrow> Inl e
                     | Inr height \<Rightarrow> Inr (\<not> height > expires_at))))))"

definition check_access :: "digest_lib \<Rightarrow> acl_checker \<Rightarrow> string \<Rightarrow> string \<Rightarrow> manifest_index \<Rightarrow> string + bool" where
  "check_access L A peer_id cid idx =
     (case resolve_root cid idx of
        None \<Rightarrow> Inr (uncertain_branch_allows A)
      | Some rt \<Rightarrow>
         (let root_hex = ''0x'' @ hex_encode rt in
          case acl_file_info_v2 A root_hex of
            Inr (Some info) \<Rightarrow> check_access_v2 L A peer_id info
          | Inl e \<Rightarrow> Inl e
          | Inr None \<Rightarrow>
             (case acl_access_list A root_hex of
                Inl e \<Rightarrow> Inl e
              | Inr None \<Rightarrow> Inr (uncertain_branch_allows A)
              | Inr (Some info) \<Rightarrow>
                  if sf_access_list info = [] then Inr True
                  else
                    (case resolve_peer_addr A peer_id of
                       None \<Rightarrow> Inr False
                     | Some addr \<Rightarrow> Inr (l1_address_base58 L (acl_bs58_encode A) addr \<in> set (sf_access_list info))))))"

definition check_access_or_default :: "digest_lib \<Rightarrow> acl_checker \<Rightarrow> access_checker" where
  "check_access_or_default L A peer_id cid idx =
     (case check_access L A peer_id cid idx of
        Inr allowed \<Rightarrow> allowed
      | Inl e \<Rightarrow> (case acl_profile A of Production \<Rightarrow> False | Dev \<Rightarrow> True))"

section \<open>Download routing\<close>

datatype download_path = V1Legacy | V2Public | V2Private
datatype route_error = UnknownV2Visibility byte

definition route_download_target :: "storage_file_info_v2 option \<Rightarrow> route_error + download_path" where
  "route_download_target info =
     (case info of
        None \<Rightarrow> Inr V1Legacy
      | Some i \<Rightarrow>
          if is_public (fi_visibility i) then Inr V2Public
          else if is_private (fi_visibility i) then Inr V2Private
          else Inl (UnknownV2Visibility (fi_visibility i)))"

section \<open>Who may read\<close>

text \<open>
  The specification: a peer is entitled to a Private file by the first entry for its identified
  address, until the entry's height; and may read a file by what the chain says of its root.
\<close>

definition entitled :: "digest_lib \<Rightarrow> acl_checker \<Rightarrow> string \<Rightarrow> storage_file_info_v2 \<Rightarrow> bool" where
  "entitled L A peer info \<longleftrightarrow> (\<exists>addr entry. acl_peer_addresses A peer = Some addr
     \<and> find (\<lambda>e. ae_address e = l1_address_base58 L (acl_bs58_encode A) addr) (fi_access_list info) = Some entry
     \<and> (\<forall>until. ae_expires_at entry = Some until \<longrightarrow> (\<exists>height. acl_block_height A = Inr height \<and> height \<le> until)))"

definition may_read :: "digest_lib \<Rightarrow> acl_checker \<Rightarrow> string \<Rightarrow> hash \<Rightarrow> bool" where
  "may_read L A peer rt \<longleftrightarrow>
     (case acl_file_info_v2 A (''0x'' @ hex_encode rt) of
        Inl e \<Rightarrow> False
      | Inr (Some info) \<Rightarrow> fi_visibility info = 0 \<or> entitled L A peer info
      | Inr None \<Rightarrow>
          (\<exists>info. acl_access_list A (''0x'' @ hex_encode rt) = Inr (Some info)
             \<and> (sf_access_list info = [] \<or> (\<exists>addr. acl_peer_addresses A peer = Some addr
                  \<and> l1_address_base58 L (acl_bs58_encode A) addr \<in> set (sf_access_list info)))))"

lemma check_access_v2_True:
  "check_access_v2 L A peer info = Inr True \<longleftrightarrow> fi_visibility info = 0 \<or> entitled L A peer info"
  by (auto simp: check_access_v2_def entitled_def is_public_def resolve_peer_addr_def not_less split: option.split sum.split)

lemma production_decides:
  assumes "acl_profile A = Production"
  shows "check_access_or_default L A peer cid idx \<longleftrightarrow> (\<exists>rt. resolve_root cid idx = Some rt \<and> may_read L A peer rt)"
proof -
  have "check_access_or_default L A peer cid idx \<longleftrightarrow> check_access L A peer cid idx = Inr True"
    using assms by (auto simp: check_access_or_default_def split: sum.split)
  then show ?thesis
    using assms check_access_v2_True [of L A peer]
    by (auto simp: check_access_def may_read_def uncertain_branch_allows_def resolve_peer_addr_def Let_def
        split: option.split sum.split)
qed

section \<open>Addresses\<close>

lemma address_roundtrip:
  assumes "\<forall>b. bs58_decode (bs58_encode b) = Inr b" and "lib_ok L" and "length addr = 20"
  shows "l1_address_from_base58 L bs58_decode (l1_address_base58 L bs58_encode addr) = Inr addr"
proof -
  have "length (take 4 (blake3 L (blake3 L addr))) = 4" using lib_ok_blake3 [OF assms(2)] by simp
  then show ?thesis using assms(1,3) by (simp add: l1_address_from_base58_def l1_address_base58_def Let_def)
qed

lemma address_text_inject:
  fixes bs58_decode :: "string \<Rightarrow> string + bytes"
  assumes "\<forall>b. bs58_decode (bs58_encode b) = Inr b" and "lib_ok L" and "length a = 20" and "length b = 20"
    and "l1_address_base58 L bs58_encode a = l1_address_base58 L bs58_encode b"
  shows "a = b"
  using address_roundtrip [OF assms(1,2,3)] address_roundtrip [OF assms(1,2,4)] assms(5) by (metis sum.inject(2))

text \<open>
  Access to a Private file is by address: when the listed texts are those of a set of addresses, a peer
  whose identified address is not among them is not entitled, whatever else the list says. It rests on
  the address text being injective, by its checksummed round trip.
\<close>

theorem unlisted_address_not_entitled:
  fixes bs58_decode :: "string \<Rightarrow> string + bytes"
  assumes "\<forall>b. bs58_decode (acl_bs58_encode A b) = Inr b" and "lib_ok L"
    and "ae_address ` set (fi_access_list info) \<subseteq> l1_address_base58 L (acl_bs58_encode A) ` X"
    and "\<forall>x \<in> X. length x = 20" and "acl_peer_addresses A peer = Some addr" and "length addr = 20" and "addr \<notin> X"
  shows "\<not> entitled L A peer info"
proof
  assume "entitled L A peer info"
  then obtain entry where "entry \<in> set (fi_access_list info)" "ae_address entry = l1_address_base58 L (acl_bs58_encode A) addr"
    using assms(5) by (auto simp: entitled_def dest: find_SomeD)
  then have "l1_address_base58 L (acl_bs58_encode A) addr \<in> l1_address_base58 L (acl_bs58_encode A) ` X"
    using assms(3) by (metis image_eqI subsetD)
  then obtain x where "x \<in> X" "l1_address_base58 L (acl_bs58_encode A) addr = l1_address_base58 L (acl_bs58_encode A) x" by blast
  then show False using address_text_inject [OF assms(1,2), of addr x] assms(4,6,7) by blast
qed

section \<open>Serving\<close>



text \<open>
  No downgrade: as long as the chain does not say that the root has no V2 row, the V1 access list has no
  influence on the decision, in either profile, so inducing a V2 error never opens the V1 path.
\<close>

theorem v1_list_never_overrides:
  assumes "\<forall>rt. resolve_root cid idx = Some rt \<longrightarrow> acl_file_info_v2 A (''0x'' @ hex_encode rt) \<noteq> Inr None"
  shows "check_access_or_default L (A\<lparr>acl_access_list := f\<rparr>) peer cid idx = check_access_or_default L A peer cid idx"
  using assms
  by (auto simp: check_access_or_default_def check_access_def check_access_v2_def uncertain_branch_allows_def
      resolve_peer_addr_def Let_def split: option.splits sum.splits)

text \<open>
  The index resolves a chunk name through Public manifests first. A validated manifest of another,
  Public file that names a chunk recorded as Private therefore takes over the chunk's access check:
  a peer that was refused the chunk is served it once the manifest is indexed.
\<close>

theorem public_manifest_unlocks_private_chunk:
  assumes "acl_profile A = Production" and "mi_private_cid_to_root idx cid = Some rt" and "mi_cid_to_root idx cid = None"
    and "strip_prefix MANIFEST_REQUEST_PREFIX cid = None" and "\<not> may_read L A peer rt"
    and "cid \<in> cd_cid ` set (chunks m)"
    and "acl_file_info_v2 A (''0x'' @ hex_encode (merkle_root m)) = Inr (Some info)" and "fi_visibility info = 0"
    and "commit_validated B env idx d m = (Inr (Indexed m), idx', d')"
  shows "\<not> check_access_or_default L A peer cid idx \<and> is_private_chunk_cid idx' cid
       \<and> check_access_or_default L A peer cid idx'"
proof -
  have idx': "idx' = add_to_maps idx m"
    using assms(9) by (auto simp: commit_validated_def mi_insert_def split: if_splits sum.splits prod.splits)
  have "foldl (\<lambda>f c. f(cd_cid c \<mapsto> r)) g cs k = (if k \<in> cd_cid ` set cs then Some r else g k)" for g k and cs :: "chunk_descriptor list" and r :: hash
    by (induction cs arbitrary: g) auto
  then have "mi_cid_to_root idx' cid = Some (merkle_root m)" using idx' assms(6) by (simp add: add_to_maps_def Let_def)
  then have "resolve_root cid idx' = Some (merkle_root m)" "resolve_root cid idx = Some rt"
    using assms(2-4) by (simp_all add: resolve_root_def merkle_root_for_cid_def)
  moreover have "may_read L A peer (merkle_root m)" using assms(7,8) by (simp add: may_read_def)
  moreover have "is_private_chunk_cid idx' cid" using idx' assms(2) by (simp add: is_private_chunk_cid_def add_to_maps_def Let_def)
  ultimately show ?thesis using assms(5) by (simp add: production_decides [OF assms(1)])
qed

section \<open>Instances\<close>

definition demo_private_info :: storage_file_info_v2 where
  "demo_private_info = demo_info\<lparr>fi_visibility := 1,
     fi_access_list := [\<lparr>ae_address = hex_encode (replicate 24 1), ae_encrypted_key_bundle = None, ae_expires_at = Some 9\<rparr>]\<rparr>"

definition demo_checker :: acl_checker where
  "demo_checker = \<lparr>acl_file_info_v2 = (\<lambda>r. Inr (Some (if r = ''0x'' @ hex_encode demo_chunk_root then demo_private_info else demo_info))),
     acl_access_list = (\<lambda>_. Inl ''unused''), acl_block_height = Inr 5, acl_bs58_encode = hex_encode,
     acl_peer_addresses = (\<lambda>p. if p = ''reader'' then Some (replicate 20 1) else if p = ''other'' then Some (replicate 20 2) else None),
     acl_profile = Production\<rparr>"

theorem unlisted_address_not_entitled_witness: "\<not> entitled demo_lib demo_checker ''other'' demo_private_info"
proof (rule unlisted_address_not_entitled [where X = "{replicate 20 1}" and addr = "replicate 20 2"
      and bs58_decode = "\<lambda>s. case parse_hex_pairs s of None \<Rightarrow> Inl [] | Some b \<Rightarrow> Inr b"])
  show "ae_address ` set (fi_access_list demo_private_info) \<subseteq> l1_address_base58 demo_lib (acl_bs58_encode demo_checker) ` {replicate 20 1}"
    by (simp add: demo_private_info_def demo_checker_def l1_address_base58_def demo_lib_def flip: replicate_add)
  show "replicate 20 2 \<notin> {replicate 20 (1 :: byte)}" by simp
qed (simp_all add: demo_checker_def demo_lib_ok)


theorem v1_list_never_overrides_witness:
  "check_access_or_default demo_lib (demo_checker\<lparr>acl_access_list := (\<lambda>_. Inr None)\<rparr>) ''stranger'' ''abc'' demo_trusted
     = check_access_or_default demo_lib demo_checker ''stranger'' ''abc'' demo_trusted"
  by (rule v1_list_never_overrides) (simp add: demo_checker_def)

theorem public_manifest_unlocks_private_chunk_witness:
  "\<exists>idx' d'. commit_validated demo_cbor me_fine ((empty_index False)\<lparr>mi_private_cid_to_root := [''abc'' \<mapsto> demo_chunk_root]\<rparr>) []
         demo_manifest = (Inr (Indexed demo_manifest), idx', d')
     \<and> is_private_chunk_cid idx' ''abc'' \<and> check_access_or_default demo_lib demo_checker ''stranger'' ''abc'' idx'"
proof -
  let ?idx = "(empty_index False)\<lparr>mi_private_cid_to_root := [''abc'' \<mapsto> demo_chunk_root]\<rparr>"
  obtain idx' d' where c: "commit_validated demo_cbor me_fine ?idx [] demo_manifest = (Inr (Indexed demo_manifest), idx', d')"
    by (simp add: commit_validated_def get_by_merkle_root_def mi_insert_def write_manifest_def ensure_writable_def
        fs_write_def empty_index_def me_fine_def demo_cbor_def)
  have n: "\<not> may_read demo_lib demo_checker ''stranger'' demo_chunk_root"
    by (simp add: may_read_def demo_checker_def demo_private_info_def entitled_def)
  have "hex_encode demo_root \<noteq> hex_encode demo_chunk_root"
  proof
    assume "hex_encode demo_root = hex_encode demo_chunk_root"
    then have "hd demo_root = hd demo_chunk_root" using hex_encode_inject [of demo_root demo_chunk_root] by simp
    then show False by (simp add: demo_root_def demo_chunk_root_def)
  qed
  then have i: "acl_file_info_v2 demo_checker (''0x'' @ hex_encode (merkle_root demo_manifest)) = Inr (Some demo_info)"
    by (simp add: demo_checker_def demo_manifest_def)
  have "strip_prefix MANIFEST_REQUEST_PREFIX ''abc'' = None" by (simp add: MANIFEST_REQUEST_PREFIX_def strip_prefix_def)
  with public_manifest_unlocks_private_chunk [where idx = ?idx and cid = "''abc''", OF _ _ _ _ n _ i _ c] c show ?thesis
    by (auto simp: demo_checker_def empty_index_def demo_manifest_def demo_info_def)
qed

end
