(* ===== verification/Tx_Builder.thy ===== *)
theory Tx_Builder
  imports Chain_Types "HOL-Library.Countable"
begin

text \<open>
  The transaction builder (\<open>sum-node/src/tx_builder.rs\<close>). The wire crate's transaction types are
  written with the variants and fields the builder constructs; its encoding, its signing hash, the
  address derivation and Ed25519 are the fields of \<open>sign_lib\<close>.
\<close>

section \<open>Transactions\<close>

type_synonym u128 = "128 word"
type_synonym key_bundle = bytes  \<comment> \<open>\<open>Bundle80\<close>\<close>

record access_entry_mirror =
  am_address :: addr20
  am_encrypted_key_bundle :: "key_bundle option"
  am_expires_at :: "u64 option"

datatype wire_access_entry = WireAccessEntry addr20 "key_bundle option" "u64 option"

datatype storage_metadata_operation =
    SubmitStorageProof (sp_challenge_id: hash) (sp_merkle_root: hash) (sp_chunk_index: u32) (sp_chunk_hash: hash)
      (sp_merkle_path: "hash list")
  | RegisterFile (rf_merkle_root: hash) (rf_total_size_bytes: u64) (rf_access_list: "addr20 list") (rf_fee_deposit: u64)

datatype storage_metadata_operation_v2 =
    RegisterFilePendingV2 hash u64 u64 u32 u64 byte "wire_access_entry list"
  | ActivateFileV2 hash
  | AbandonFileV2 hash
  | AcceptAssignmentV2 hash "u32 list"
  | AddAccessV2 hash wire_access_entry
  | RemoveAccessV2 hash addr20
  | UpdateAccessV2 hash addr20 wire_access_entry
  | ReassignChunksV2 hash

datatype node_role = ArchiveNode
datatype node_registry_operation = Register node_role u64
datatype node_registry_operation_v2 = RegisterEncryptionKey bytes

datatype tx_payload =
    StorageMetadata storage_metadata_operation
  | StorageMetadataV2 storage_metadata_operation_v2
  | NodeRegistry node_registry_operation
  | NodeRegistryV2 node_registry_operation_v2

record transaction_v2 =
  tx_chain_id :: u64
  tx_from :: addr20
  tx_fee :: u128
  tx_nonce :: u64
  tx_payload :: tx_payload

record signed_transaction =
  st_tx :: transaction_v2
  st_signature :: bytes
  st_public_key :: bytes

record sign_lib =
  sl_verifying_key :: "bytes \<Rightarrow> bytes"
  sl_sign :: "bytes \<Rightarrow> hash \<Rightarrow> bytes"
  sl_verify :: "bytes \<Rightarrow> hash \<Rightarrow> bytes \<Rightarrow> bool"
  sl_address :: "bytes \<Rightarrow> addr20"  \<comment> \<open>\<open>Address::from_public_key\<close>\<close>
  sl_to_base58 :: "addr20 \<Rightarrow> string"
  sl_signing_hash :: "transaction_v2 \<Rightarrow> hash"
  sl_to_hex :: "signed_transaction \<Rightarrow> string"
  sl_from_hex :: "string \<Rightarrow> signed_transaction option"

text \<open>What Ed25519 and the wire crate document: signatures verify, and the hex text decodes back.\<close>

definition sign_ok :: "sign_lib \<Rightarrow> bool" where
  "sign_ok S \<longleftrightarrow> (\<forall>seed m. sl_verify S (sl_verifying_key S seed) m (sl_sign S seed m))
     \<and> (\<forall>t. sl_from_hex S (sl_to_hex S t) = Some t)"

section \<open>Signing\<close>

definition sign_v2 :: "sign_lib \<Rightarrow> bytes \<Rightarrow> transaction_v2 \<Rightarrow> string" where
  "sign_v2 S seed tx =
     sl_to_hex S \<lparr>st_tx = tx, st_signature = sl_sign S seed (sl_signing_hash S tx), st_public_key = sl_verifying_key S seed\<rparr>"

definition sign_and_encode :: "sign_lib \<Rightarrow> bytes \<Rightarrow> u64 \<Rightarrow> u64 \<Rightarrow> u128 \<Rightarrow> tx_payload \<Rightarrow> string + string" where
  "sign_and_encode S seed chain_id nonce fee payload =
     Inr (sign_v2 S seed \<lparr>tx_chain_id = chain_id, tx_from = sl_address S (sl_verifying_key S seed), tx_fee = fee,
            tx_nonce = nonce, tx_payload = payload\<rparr>)"

definition sign_transaction_v2 :: "sign_lib \<Rightarrow> bytes \<Rightarrow> transaction_v2 \<Rightarrow> string + string" where
  "sign_transaction_v2 S seed tx =
     (let own = sl_address S (sl_verifying_key S seed) in
      if tx_from tx \<noteq> own then
        Inl (''refusing to sign: transaction sender '' @ sl_to_base58 S (tx_from tx) @ '' is not this key's address ''
              @ sl_to_base58 S own)
      else Inr (sign_v2 S seed tx))"

section \<open>Builders\<close>

definition into_wire :: "access_entry_mirror \<Rightarrow> wire_access_entry" where
  "into_wire e = WireAccessEntry (am_address e) (am_encrypted_key_bundle e) (am_expires_at e)"

definition build_submit_proof_tx ::
    "sign_lib \<Rightarrow> bytes \<Rightarrow> u64 \<Rightarrow> u64 \<Rightarrow> u128 \<Rightarrow> hash \<Rightarrow> hash \<Rightarrow> u32 \<Rightarrow> hash \<Rightarrow> hash list \<Rightarrow> string + string" where
  "build_submit_proof_tx S seed chain_id nonce fee challenge_id rt i chunk_hash path =
     sign_and_encode S seed chain_id nonce fee (StorageMetadata (SubmitStorageProof challenge_id rt i chunk_hash path))"

definition build_register_encryption_key_tx ::
    "sign_lib \<Rightarrow> bytes \<Rightarrow> u64 \<Rightarrow> u64 \<Rightarrow> u128 \<Rightarrow> bytes \<Rightarrow> string + string" where
  "build_register_encryption_key_tx S seed chain_id nonce fee key =
     sign_and_encode S seed chain_id nonce fee (NodeRegistryV2 (RegisterEncryptionKey key))"

definition build_register_archive_node_tx ::
    "sign_lib \<Rightarrow> bytes \<Rightarrow> u64 \<Rightarrow> u64 \<Rightarrow> u128 \<Rightarrow> u64 \<Rightarrow> string + string" where
  "build_register_archive_node_tx S seed chain_id nonce fee stake =
     sign_and_encode S seed chain_id nonce fee (NodeRegistry (Register ArchiveNode stake))"

definition build_register_file_pending_v2_tx ::
    "sign_lib \<Rightarrow> bytes \<Rightarrow> u64 \<Rightarrow> u64 \<Rightarrow> u128 \<Rightarrow> hash \<Rightarrow> u64 \<Rightarrow> u64 \<Rightarrow> u32 \<Rightarrow> u64 \<Rightarrow> byte \<Rightarrow> access_entry_mirror list
       \<Rightarrow> string + string" where
  "build_register_file_pending_v2_tx S seed chain_id nonce fee rt plain stored n deposit vis access =
     sign_and_encode S seed chain_id nonce fee
       (StorageMetadataV2 (RegisterFilePendingV2 rt plain stored n deposit vis (map into_wire access)))"

definition build_activate_file_v2_tx :: "sign_lib \<Rightarrow> bytes \<Rightarrow> u64 \<Rightarrow> u64 \<Rightarrow> u128 \<Rightarrow> hash \<Rightarrow> string + string" where
  "build_activate_file_v2_tx S seed chain_id nonce fee rt =
     sign_and_encode S seed chain_id nonce fee (StorageMetadataV2 (ActivateFileV2 rt))"

definition build_abandon_file_v2_tx :: "sign_lib \<Rightarrow> bytes \<Rightarrow> u64 \<Rightarrow> u64 \<Rightarrow> u128 \<Rightarrow> hash \<Rightarrow> string + string" where
  "build_abandon_file_v2_tx S seed chain_id nonce fee rt =
     sign_and_encode S seed chain_id nonce fee (StorageMetadataV2 (AbandonFileV2 rt))"

definition build_accept_assignment_v2_tx ::
    "sign_lib \<Rightarrow> bytes \<Rightarrow> u64 \<Rightarrow> u64 \<Rightarrow> u128 \<Rightarrow> hash \<Rightarrow> u32 list \<Rightarrow> string + string" where
  "build_accept_assignment_v2_tx S seed chain_id nonce fee rt chunk_indices =
     sign_and_encode S seed chain_id nonce fee (StorageMetadataV2 (AcceptAssignmentV2 rt chunk_indices))"

definition build_add_access_v2_tx ::
    "sign_lib \<Rightarrow> bytes \<Rightarrow> u64 \<Rightarrow> u64 \<Rightarrow> u128 \<Rightarrow> hash \<Rightarrow> access_entry_mirror \<Rightarrow> string + string" where
  "build_add_access_v2_tx S seed chain_id nonce fee rt entry =
     sign_and_encode S seed chain_id nonce fee (StorageMetadataV2 (AddAccessV2 rt (into_wire entry)))"

definition build_remove_access_v2_tx ::
    "sign_lib \<Rightarrow> bytes \<Rightarrow> u64 \<Rightarrow> u64 \<Rightarrow> u128 \<Rightarrow> hash \<Rightarrow> addr20 \<Rightarrow> string + string" where
  "build_remove_access_v2_tx S seed chain_id nonce fee rt address =
     sign_and_encode S seed chain_id nonce fee (StorageMetadataV2 (RemoveAccessV2 rt address))"

definition build_update_access_v2_tx ::
    "sign_lib \<Rightarrow> bytes \<Rightarrow> u64 \<Rightarrow> u64 \<Rightarrow> u128 \<Rightarrow> hash \<Rightarrow> addr20 \<Rightarrow> access_entry_mirror \<Rightarrow> string + string" where
  "build_update_access_v2_tx S seed chain_id nonce fee rt address entry =
     sign_and_encode S seed chain_id nonce fee (StorageMetadataV2 (UpdateAccessV2 rt address (into_wire entry)))"

definition build_register_file_tx ::
    "sign_lib \<Rightarrow> bytes \<Rightarrow> u64 \<Rightarrow> u64 \<Rightarrow> u128 \<Rightarrow> hash \<Rightarrow> u64 \<Rightarrow> addr20 list \<Rightarrow> u64 \<Rightarrow> string + string" where
  "build_register_file_tx S seed chain_id nonce fee rt size_bytes access deposit =
     sign_and_encode S seed chain_id nonce fee (StorageMetadata (RegisterFile rt size_bytes access deposit))"

section \<open>What a signed text says\<close>

text \<open>The chain's view of a submitted text: the transaction, accepted as signed by the account it names.\<close>

definition authentic :: "sign_lib \<Rightarrow> string \<Rightarrow> transaction_v2 option" where
  "authentic S txt =
     (case sl_from_hex S txt of
        None \<Rightarrow> None
      | Some t \<Rightarrow>
          if sl_verify S (st_public_key t) (sl_signing_hash S (st_tx t)) (st_signature t)
             \<and> sl_address S (st_public_key t) = tx_from (st_tx t)
          then Some (st_tx t) else None)"

definition own_tx :: "sign_lib \<Rightarrow> bytes \<Rightarrow> u64 \<Rightarrow> u64 \<Rightarrow> u128 \<Rightarrow> tx_payload \<Rightarrow> transaction_v2" where
  "own_tx S seed chain_id nonce fee payload =
     \<lparr>tx_chain_id = chain_id, tx_from = sl_address S (sl_verifying_key S seed), tx_fee = fee, tx_nonce = nonce,
      tx_payload = payload\<rparr>"

lemma sign_and_encode_authentic:
  assumes "sign_ok S"
  shows "\<exists>txt. sign_and_encode S seed c n f p = Inr txt \<and> authentic S txt = Some (own_tx S seed c n f p)"
  using assms by (simp add: sign_ok_def sign_and_encode_def sign_v2_def authentic_def own_tx_def)

lemma sign_and_encode_inject:
  assumes "sign_ok S" and "sign_and_encode S seed c n f p = Inr txt" and "sign_and_encode S seed' c' n' f' p' = Inr txt"
  shows "c = c' \<and> n = n' \<and> f = f' \<and> p = p'"
  using sign_and_encode_authentic [OF assms(1), of seed c n f p] sign_and_encode_authentic [OF assms(1), of seed' c' n' f' p']
    assms(2,3) by (auto simp: own_tx_def)

text \<open>
  Signing a transaction assembled elsewhere: exactly the transactions of this key's own account are
  signed, unchanged, and what is signed is accepted as that account's; any other sender is refused.
\<close>

theorem sign_transaction_only_own:
  assumes "sign_ok S"
  shows "case sign_transaction_v2 S seed tx of
      Inl e \<Rightarrow> tx_from tx \<noteq> sl_address S (sl_verifying_key S seed)
    | Inr txt \<Rightarrow> tx_from tx = sl_address S (sl_verifying_key S seed) \<and> authentic S txt = Some tx"
  using assms by (simp add: sign_ok_def sign_transaction_v2_def sign_v2_def authentic_def Let_def)

text \<open>
  No two different requests ever produce the same signed text: whatever the keys, equal texts have
  equal chain, nonce, fee and operation, so an attestation can never be replayed as a proof, an
  access change or an attestation of other chunks.
\<close>

theorem signed_text_determines_request:
  assumes "sign_ok S"
    and "build_accept_assignment_v2_tx S seed c n f rt is = Inr txt"
  shows "build_accept_assignment_v2_tx S seed' c' n' f' rt' is' = Inr txt \<longrightarrow>
           c = c' \<and> n = n' \<and> f = f' \<and> rt = rt' \<and> is = is'"
    and "build_submit_proof_tx S seed' c' n' f' ch rt' i h path \<noteq> Inr txt"
    and "build_add_access_v2_tx S seed' c' n' f' rt' entry \<noteq> Inr txt"
  using sign_and_encode_inject [OF assms(1)] assms(2)
  unfolding build_accept_assignment_v2_tx_def build_submit_proof_tx_def build_add_access_v2_tx_def by blast+


section \<open>An instance\<close>

text \<open>Texts that only have to be decodable: the length encodes the transaction.\<close>

instance wire_access_entry :: countable by countable_datatype
instance storage_metadata_operation :: countable by countable_datatype
instance storage_metadata_operation_v2 :: countable by countable_datatype
instance node_role :: countable by countable_datatype
instance node_registry_operation :: countable by countable_datatype
instance node_registry_operation_v2 :: countable by countable_datatype
instance tx_payload :: countable by countable_datatype

definition demo_sign :: sign_lib where
  "demo_sign = \<lparr>sl_verifying_key = id, sl_sign = (\<lambda>k m. k @ m), sl_verify = (\<lambda>pk m s. s = pk @ m),
     sl_address = take 20, sl_to_base58 = (\<lambda>_. []), sl_signing_hash = (\<lambda>_. []),
     sl_to_hex = (\<lambda>t. replicate (to_nat (tx_chain_id (st_tx t), tx_from (st_tx t), tx_fee (st_tx t), tx_nonce (st_tx t),
                                     tx_payload (st_tx t), st_signature t, st_public_key t)) CHR ''a''),
     sl_from_hex = (\<lambda>s. case from_nat (length s) of (c, a, f, n, p, sg, pk) \<Rightarrow>
        Some \<lparr>st_tx = \<lparr>tx_chain_id = c, tx_from = a, tx_fee = f, tx_nonce = n, tx_payload = p\<rparr>,
              st_signature = sg, st_public_key = pk\<rparr>)\<rparr>"

lemma demo_sign_ok: "sign_ok demo_sign"
  by (simp add: sign_ok_def demo_sign_def)

end
