(* ===== verification/Attestor.thy ===== *)
theory Attestor
  imports Inbound_V2 Tx_Builder
begin

text \<open>
  Attestation of held chunks: waiting for a transaction's finality (\<open>sum-node/src/tx_wait.rs\<close>), the
  batched submitter (\<open>sum-node/src/assignment_attestor.rs\<close>) and the run a manifest push or the epoch
  watcher starts (\<open>run_attestation\<close> of \<open>sum-node/src/inbound_v2.rs\<close>). The chain's answers, their
  delays and the overshoot of each sleep are explicit; \<open>None\<close> is a wait that never ends.
\<close>

section \<open>Waiting for finality\<close>

datatype tx_status_v2 =
    TxUnknown
  | TxPending
  | TxIncluded (ts_block_height: u64)
  | TxFinalized (ts_block_height: u64)
  | TxFailed (ts_failed_height: "u64 option") (ts_reason: string)
  | TxDropped

datatype tx_wait_error =
    WaitFailed "u64 option" string
  | WaitDropped
  | WaitTimeout (last_status: tx_status_v2)
  | WaitRpc string

definition DEFAULT_POLL_INTERVAL :: nat where "DEFAULT_POLL_INTERVAL = 2 * 10 ^ 9"

text \<open>
  Round \<open>k\<close> of the loop: the chain's answer, how long it took, and by how much the sleep of that round
  overran. Instants and durations are in nanoseconds.
\<close>

record wait_env =
  we_status :: "nat \<Rightarrow> string + tx_status_v2"
  we_delay :: "nat \<Rightarrow> nat"
  we_oversleep :: "nat \<Rightarrow> nat"

partial_function (option) wait_loop :: "wait_env \<Rightarrow> nat \<Rightarrow> nat \<Rightarrow> nat \<Rightarrow> nat \<Rightarrow> (tx_wait_error + u64) option" where
  "wait_loop env poll_interval deadline k clock =
     (let now = clock + we_delay env k in
      case we_status env k of
        Inl e \<Rightarrow> Some (Inl (WaitRpc e))
      | Inr status \<Rightarrow>
          (case status of
             TxFinalized block_height \<Rightarrow> Some (Inr block_height)
           | TxFailed block_height reason \<Rightarrow> Some (Inl (WaitFailed block_height reason))
           | TxDropped \<Rightarrow> Some (Inl WaitDropped)
           | _ \<Rightarrow>
               if now \<ge> deadline then Some (Inl (WaitTimeout status))
               else wait_loop env poll_interval deadline (Suc k)
                      (min (now + poll_interval) deadline + we_oversleep env k)))"

definition wait_for_finalized :: "wait_env \<Rightarrow> nat \<Rightarrow> nat \<Rightarrow> nat \<Rightarrow> (tx_wait_error + u64) option" where
  "wait_for_finalized env start poll_interval timeout = wait_loop env poll_interval (start + timeout) 0 start"

section \<open>Batched submission\<close>

record v2_params =
  v2p_assignment_replication_factor :: u32
  v2p_max_chunk_indices_per_tx :: u32

record attestor =
  at_sign :: sign_lib
  at_signing_key_seed :: bytes
  at_my_addr :: addr20
  at_chain_id :: u64
  at_fee_per_tx :: u128
  at_params :: v2_params

record attest_request =
  ar_merkle_root :: hash
  ar_chunk_count :: u32
  ar_snapshot :: "addr20 list"
  ar_held :: "u32 set"
  ar_starting_nonce :: u64
  ar_poll_interval :: nat
  ar_batch_timeout :: nat

record batch_outcome =
  bo_chunk_indices :: "u32 list"
  bo_nonce :: u64
  bo_tx_hash :: string
  bo_finalized_at_height :: u64

datatype attest_error =
    BadParams string
  | Submit (ae_nonce: u64) (ae_chunk_indices: "u32 list") (ae_source: string)
  | Wait (ae_nonce: u64) (ae_chunk_indices: "u32 list") (ae_tx_hash: string) (ae_wait: tx_wait_error)

record attest_summary =
  as_batches :: "batch_outcome list"
  as_error :: "attest_error option"

definition fully_attested :: "attest_summary \<Rightarrow> bool" where
  "fully_attested s \<longleftrightarrow> as_error s = None"

definition attested_count :: "attest_summary \<Rightarrow> nat" where
  "attested_count s = sum_list (map (length \<circ> bo_chunk_indices) (as_batches s))"

definition last_finalized_nonce :: "attest_summary \<Rightarrow> u64 option" where
  "last_finalized_nonce s = (if as_batches s = [] then None else Some (bo_nonce (last (as_batches s))))"

definition last_nonce_attempted :: "attest_summary \<Rightarrow> u64 option" where
  "last_nonce_attempted s =
     (let last_finalized = (if as_batches s = [] then None else Some (bo_nonce (last (as_batches s))));
          last_failed = (case as_error s of
              None \<Rightarrow> None | Some (BadParams _) \<Rightarrow> None | Some (Submit n _ _) \<Rightarrow> Some n | Some (Wait n _ _ _) \<Rightarrow> Some n)
      in case last_failed of Some n \<Rightarrow> Some n | None \<Rightarrow> last_finalized)"

text \<open>\<open>slice::chunks\<close> for a positive size.\<close>

function slice_chunks :: "nat \<Rightarrow> 'a list \<Rightarrow> 'a list list" where
  "slice_chunks cap xs = (if cap = 0 \<or> xs = [] then [] else take cap xs # slice_chunks cap (drop cap xs))"
  by pat_completeness auto
termination by (relation "measure (length \<circ> snd)") auto

declare slice_chunks.simps [simp del]

text \<open>
  The chain's side of batch \<open>k\<close>: its answer to \<open>send_raw_transaction\<close>, the status answers for the
  hash, and the clock when the wait starts.
\<close>

record submit_env =
  sb_send :: "nat \<Rightarrow> string \<Rightarrow> string + string"
  sb_wait :: "nat \<Rightarrow> string \<Rightarrow> wait_env"
  sb_clock :: "nat \<Rightarrow> nat"

text \<open>The summary, and the texts handed to \<open>send_raw_transaction\<close>, in order.\<close>

fun attest_loop ::
    "attestor \<Rightarrow> submit_env \<Rightarrow> attest_request \<Rightarrow> nat \<Rightarrow> u64 \<Rightarrow> u32 list list \<Rightarrow> batch_outcome list \<Rightarrow> string list
       \<Rightarrow> (attest_summary \<times> string list) option" where
  "attest_loop a env req k nonce [] batches sent = Some (\<lparr>as_batches = batches, as_error = None\<rparr>, sent)"
| "attest_loop a env req k nonce (chunk_indices # rest) batches sent =
     (case build_accept_assignment_v2_tx (at_sign a) (at_signing_key_seed a) (at_chain_id a) nonce (at_fee_per_tx a)
             (ar_merkle_root req) chunk_indices of
        Inl e \<Rightarrow> Some (\<lparr>as_batches = batches, as_error = Some (Submit nonce chunk_indices e)\<rparr>, sent)
      | Inr tx_hex \<Rightarrow>
         (case sb_send env k tx_hex of
            Inl e \<Rightarrow> Some (\<lparr>as_batches = batches, as_error = Some (Submit nonce chunk_indices e)\<rparr>, sent @ [tx_hex])
          | Inr tx_hash \<Rightarrow>
             (case wait_for_finalized (sb_wait env k tx_hash) (sb_clock env k) (ar_poll_interval req)
                     (ar_batch_timeout req) of
                None \<Rightarrow> None
              | Some (Inl e) \<Rightarrow>
                  Some (\<lparr>as_batches = batches, as_error = Some (Wait nonce chunk_indices tx_hash e)\<rparr>, sent @ [tx_hex])
              | Some (Inr height) \<Rightarrow>
                  attest_loop a env req (Suc k) (nonce + 1) rest
                    (batches @ [\<lparr>bo_chunk_indices = chunk_indices, bo_nonce = nonce, bo_tx_hash = tx_hash,
                                 bo_finalized_at_height = height\<rparr>]) (sent @ [tx_hex]))))"

text \<open>The intersection of two ordered sets, in ascending order: \<open>chunks_for_archive_v2\<close> is ascending.\<close>

definition attest_set :: "wire_lib \<Rightarrow> attestor \<Rightarrow> attest_request \<Rightarrow> u32 list" where
  "attest_set W a req =
     filter (\<lambda>i. i \<in> ar_held req)
       (chunks_for_archive_v2 W (ar_merkle_root req) (ar_chunk_count req) (ar_snapshot req)
          (v2p_assignment_replication_factor (at_params a)) (at_my_addr a))"

definition attest :: "wire_lib \<Rightarrow> attestor \<Rightarrow> submit_env \<Rightarrow> attest_request \<Rightarrow> (attest_summary \<times> string list) option" where
  "attest W a env req =
     (if v2p_max_chunk_indices_per_tx (at_params a) = 0 then
        Some (\<lparr>as_batches = [],
               as_error = Some (BadParams ''max_chunk_indices_per_tx must be > 0 (chain plan v3.2 default = 65,536)'')\<rparr>, [])
      else
        (let todo = attest_set W a req in
         if todo = [] then Some (\<lparr>as_batches = [], as_error = None\<rparr>, [])
         else attest_loop a env req 0 (ar_starting_nonce req)
                (slice_chunks (unat (v2p_max_chunk_indices_per_tx (at_params a))) todo) [] []))"

section \<open>A run\<close>

text \<open>The RPC client behind \<open>AttestTriggerRpc\<close>.\<close>

record trigger_rpc =
  tr_file_info_v2 :: "string \<Rightarrow> string + storage_file_info_v2 option"
  tr_coverage_v2 :: "string \<Rightarrow> string + assignment_coverage_v2 option"
  tr_active_nodes :: "u64 \<Rightarrow> string + node_record_info list"
  tr_get_nonce :: "string \<Rightarrow> string + u64"
  tr_bs58_decode :: "string \<Rightarrow> string + bytes"

definition fetch_file_shape :: "trigger_rpc \<Rightarrow> hash \<Rightarrow> string + file_shape" where
  "fetch_file_shape rpc rt =
     (let key = ''0x'' @ hex_encode rt in
      case tr_file_info_v2 rpc key of
        Inl e \<Rightarrow> Inl e
      | Inr None \<Rightarrow> Inl (''file not registered on chain: '' @ key)
      | Inr (Some info) \<Rightarrow>
          Inr \<lparr>fs_chunk_count = fi_chunk_count info, fs_assignment_height = fi_assignment_height info,
               fs_visibility = fi_visibility info, fs_lifecycle = fi_lifecycle info\<rparr>)"

fun decode_all :: "digest_lib \<Rightarrow> trigger_rpc \<Rightarrow> node_record_info list \<Rightarrow> string + addr20 list" where
  "decode_all L rpc [] = Inr []"
| "decode_all L rpc (r # rs) =
     (case l1_address_from_base58 L (tr_bs58_decode rpc) (nr_address r) of
        Inl e \<Rightarrow> Inl e
      | Inr addr \<Rightarrow> map_sum id ((#) addr) (decode_all L rpc rs))"

definition trigger_snapshot :: "digest_lib \<Rightarrow> trigger_rpc \<Rightarrow> u64 \<Rightarrow> string + addr20 list" where
  "trigger_snapshot L rpc height =
     (case tr_active_nodes rpc height of
        Inl e \<Rightarrow> Inl e
      | Inr raw \<Rightarrow> map_sum id (\<lambda>d. remdups_adj (sort d)) (decode_all L rpc (filter_active_archives raw)))"

definition fetch_coverage :: "trigger_rpc \<Rightarrow> hash \<Rightarrow> string + assignment_coverage_v2 option" where
  "fetch_coverage rpc rt = tr_coverage_v2 rpc (''0x'' @ hex_encode rt)"

text \<open>
  \<open>Some None\<close> is a run that submits nothing; \<open>exclusive_run\<close> holds the account's lock from before the
  reads to the end, so a run's reads and submissions are one step of the model.
\<close>

definition run_attestation ::
    "digest_lib \<Rightarrow> wire_lib \<Rightarrow> attestor \<Rightarrow> trigger_rpc \<Rightarrow> submit_env \<Rightarrow> hash \<Rightarrow> u32 set \<Rightarrow> string \<Rightarrow> nat \<Rightarrow> nat
       \<Rightarrow> (attest_summary \<times> string list) option option" where
  "run_attestation L W a rpc env rt held_snapshot my_addr_base58 poll_interval batch_timeout =
     (if held_snapshot = {} then Some None
      else
        (case fetch_file_shape rpc rt of
           Inl e \<Rightarrow> Some None
         | Inr shape \<Rightarrow>
            (case latest_assignment_epoch (fetch_coverage rpc) rt shape of
               Inl e \<Rightarrow> Some None
             | Inr epoch \<Rightarrow>
                (case trigger_snapshot L rpc epoch of
                   Inl e \<Rightarrow> Some None
                 | Inr snapshot \<Rightarrow>
                    (case tr_get_nonce rpc my_addr_base58 of
                       Inl e \<Rightarrow> Some None
                     | Inr starting_nonce \<Rightarrow>
                        map_option Some (attest W a env
                          \<lparr>ar_merkle_root = rt, ar_chunk_count = fs_chunk_count shape, ar_snapshot = snapshot,
                           ar_held = held_snapshot, ar_starting_nonce = starting_nonce,
                           ar_poll_interval = poll_interval, ar_batch_timeout = batch_timeout\<rparr>))))))"

section \<open>A wait ends\<close>

fun keeps_waiting :: "string + tx_status_v2 \<Rightarrow> bool" where
  "keeps_waiting (Inr TxUnknown) = True"
| "keeps_waiting (Inr TxPending) = True"
| "keeps_waiting (Inr (TxIncluded h)) = True"
| "keeps_waiting _ = False"

fun verdict :: "string + tx_status_v2 \<Rightarrow> tx_wait_error + u64" where
  "verdict (Inl e) = Inl (WaitRpc e)"
| "verdict (Inr (TxFinalized h)) = Inr h"
| "verdict (Inr (TxFailed h r)) = Inl (WaitFailed h r)"
| "verdict (Inr TxDropped) = Inl WaitDropped"
| "verdict (Inr s) = Inl (WaitTimeout s)"

text \<open>The clock when the answer of the \<open>n\<close>-th round from round \<open>k\<close> arrives.\<close>

fun round_now :: "wait_env \<Rightarrow> nat \<Rightarrow> nat \<Rightarrow> nat \<Rightarrow> nat \<Rightarrow> nat \<Rightarrow> nat" where
  "round_now env poll D k t 0 = t + we_delay env k"
| "round_now env poll D k t (Suc n) =
     round_now env poll D (Suc k) (min (t + we_delay env k + poll) D + we_oversleep env k) n"

lemma wait_loop_verdict:
  assumes "\<not> keeps_waiting (we_status env k) \<or> D \<le> t + we_delay env k"
  shows "wait_loop env poll D k t = Some (verdict (we_status env k))"
  using assms by (cases "we_status env k" rule: keeps_waiting.cases) (simp_all add: wait_loop.simps)

lemma wait_loop_again:
  assumes "keeps_waiting (we_status env k)" and "t + we_delay env k < D"
  shows "wait_loop env poll D k t
    = wait_loop env poll D (Suc k) (min (t + we_delay env k + poll) D + we_oversleep env k)"
  using assms by (cases "we_status env k" rule: keeps_waiting.cases)
    (simp_all add: wait_loop.simps [of env poll D k t] Let_def)

lemma wait_loop_rounds:
  assumes "0 < poll"
  shows "\<exists>n. wait_loop env poll D k t = Some (verdict (we_status env (k + n)))
      \<and> (\<forall>j < n. keeps_waiting (we_status env (k + j)))
      \<and> (keeps_waiting (we_status env (k + n)) \<longrightarrow> D \<le> round_now env poll D k t n)
      \<and> (0 < n \<longrightarrow> t + (n - 1) * poll < D)"
proof (induction "D - t" arbitrary: k t rule: less_induct)
  case less
  let ?now = "t + we_delay env k" and ?t = "min (t + we_delay env k + poll) D + we_oversleep env k"
  show ?case
  proof (cases "keeps_waiting (we_status env k) \<and> ?now < D")
    case False
    then show ?thesis using wait_loop_verdict [of env k D t poll] by (intro exI [of _ 0]) auto
  next
    case True
    then have "D - ?t < D - t" using assms by linarith
    from less [OF this, of "Suc k"] obtain n where
      n: "wait_loop env poll D (Suc k) ?t = Some (verdict (we_status env (Suc k + n)))"
        "\<forall>j < n. keeps_waiting (we_status env (Suc k + j))"
        "keeps_waiting (we_status env (Suc k + n)) \<longrightarrow> D \<le> round_now env poll D (Suc k) ?t n"
        "0 < n \<longrightarrow> ?t + (n - 1) * poll < D" by blast
    have "\<forall>j < Suc n. keeps_waiting (we_status env (k + j))"
      using n(2) True by (simp add: less_Suc_eq_0_disj) (metis add_Suc_right)
    moreover have "t + n * poll < D"
    proof (cases n)
      case 0
      then show ?thesis using True by simp
    next
      case (Suc n')
      then have *: "?t + n' * poll < D" using n(4) by simp
      have "t + poll \<le> ?t" if "?t < D" using that by (simp add: min_def split: if_splits)
      moreover have "?t < D" using * by linarith
      ultimately show ?thesis using Suc * by (simp add: algebra_simps)
    qed
    ultimately show ?thesis
      using n(1,3) wait_loop_again [of env k t D poll] True by (intro exI [of _ "Suc n"]) simp
  qed
qed

lemma wait_total:
  assumes "0 < poll"
  shows "\<exists>r. wait_for_finalized env t poll T = Some r"
  using wait_loop_rounds [OF assms] unfolding wait_for_finalized_def by blast

text \<open>
  Waiting for finality always ends when the poll interval is positive, whatever the chain answers and
  however long it takes: the result is the verdict of the first round whose answer is terminal or
  arrives after the deadline, every earlier answer was of a transaction on its way, and the number of
  polls is bounded by the timeout over the interval. A timeout is never reported early.
\<close>

theorem wait_for_finalized_decides:
  assumes "0 < poll"
  shows "\<exists>n. wait_for_finalized env t0 poll T = Some (verdict (we_status env n))
      \<and> (\<forall>j < n. keeps_waiting (we_status env j))
      \<and> (keeps_waiting (we_status env n) \<longrightarrow> t0 + T \<le> round_now env poll (t0 + T) 0 t0 n)
      \<and> (0 < n \<longrightarrow> (n - 1) * poll < T)"
  using wait_loop_rounds [OF assms, of env "t0 + T" 0 t0] by (simp add: wait_for_finalized_def)

section \<open>Batches\<close>

lemma slice_chunks_simps [simp]:
  "slice_chunks cap [] = []" "slice_chunks 0 xs = []"
  by (simp_all add: slice_chunks.simps)

lemma slice_chunks_Cons:
  "0 < cap \<Longrightarrow> xs \<noteq> [] \<Longrightarrow> slice_chunks cap xs = take cap xs # slice_chunks cap (drop cap xs)"
  by (simp add: slice_chunks.simps)

lemma concat_slice_chunks: "0 < cap \<Longrightarrow> concat (slice_chunks cap xs) = xs"
proof (induction cap xs rule: slice_chunks.induct)
  case (1 cap xs)
  then show ?case by (cases "xs = []") (simp_all add: slice_chunks_Cons)
qed

lemma slice_chunks_mem:
  "ys \<in> set (slice_chunks cap xs) \<Longrightarrow> ys \<noteq> [] \<and> length ys \<le> cap \<and> set ys \<subseteq> set xs"
proof (induction cap xs rule: slice_chunks.induct)
  case (1 cap xs)
  show ?case
  proof (cases "cap = 0 \<or> xs = []")
    case True
    then show ?thesis using 1 by auto
  next
    case False
    then have "ys = take cap xs \<or> ys \<in> set (slice_chunks cap (drop cap xs))"
      using 1 by (simp add: slice_chunks_Cons)
    then show ?thesis using False 1 set_drop_subset [of cap xs] set_take_subset [of cap xs] by auto
  qed
qed

lemma slice_chunks_nonempty: "[] \<notin> set (slice_chunks cap xs)"
  using slice_chunks_mem [of "[]" cap xs] by blast

lemma concat_drop_Nil: "[] \<notin> set bs \<Longrightarrow> concat (drop m bs) = [] \<longleftrightarrow> drop m bs = []"
  using set_drop_subset [of m bs] by (cases "drop m bs") auto

lemma sorted_slice_chunks:
  "sorted_wrt P xs \<Longrightarrow> ys \<in> set (slice_chunks cap xs) \<Longrightarrow> sorted_wrt P ys"
proof (induction cap xs rule: slice_chunks.induct)
  case (1 cap xs)
  then show ?case
    by (cases "cap = 0 \<or> xs = []") (auto simp: slice_chunks_Cons sorted_wrt_take sorted_wrt_drop)
qed

text \<open>What a run of batches did: the first \<open>m\<close> finalised, and the next one, if any, failed.\<close>

definition batches_done :: "u64 \<Rightarrow> u32 list list \<Rightarrow> nat \<Rightarrow> batch_outcome list \<Rightarrow> bool" where
  "batches_done n bs m outs \<longleftrightarrow> m \<le> length bs \<and> map bo_chunk_indices outs = take m bs
     \<and> map bo_nonce outs = map (\<lambda>j. n + word_of_nat j) [0..<m]"

definition batch_failed :: "u64 \<Rightarrow> u32 list list \<Rightarrow> nat \<Rightarrow> attest_error \<Rightarrow> bool" where
  "batch_failed n bs m e \<longleftrightarrow> m < length bs
     \<and> (case e of BadParams r \<Rightarrow> False
        | Submit n' is src \<Rightarrow> n' = n + word_of_nat m \<and> is = bs ! m
        | Wait n' is h w \<Rightarrow> n' = n + word_of_nat m \<and> is = bs ! m)"

definition batch_tx :: "attestor \<Rightarrow> hash \<Rightarrow> u64 \<Rightarrow> u32 list list \<Rightarrow> nat \<Rightarrow> transaction_v2" where
  "batch_tx a rt n bs j = own_tx (at_sign a) (at_signing_key_seed a) (at_chain_id a) (n + word_of_nat j)
     (at_fee_per_tx a) (StorageMetadataV2 (AcceptAssignmentV2 rt (bs ! j)))"

lemma map_upt_Suc0: "map f [0..<Suc m] = f 0 # map (\<lambda>j. f (Suc j)) [0..<m]"
  by (simp add: upt_conv_Cons map_Suc_upt [symmetric] del: upt_Suc)

lemma batches_done_Cons:
  "batches_done n (b # bs) (Suc m) (\<lparr>bo_chunk_indices = b, bo_nonce = n, bo_tx_hash = h, bo_finalized_at_height = ht\<rparr> # outs)
     \<longleftrightarrow> batches_done (n + 1) bs m outs"
  by (simp add: batches_done_def map_upt_Suc0 algebra_simps del: upt_Suc)

lemma batch_failed_Cons: "batch_failed n (b # bs) (Suc m) e \<longleftrightarrow> batch_failed (n + 1) bs m e"
  by (cases e) (simp_all add: batch_failed_def algebra_simps)

lemma batch_tx_Cons: "batch_tx a rt n (b # bs) (Suc j) = batch_tx a rt (n + 1) bs j"
  by (simp add: batch_tx_def algebra_simps)

lemma attest_loop_spec:
  assumes "sign_ok (at_sign a)" and "attest_loop a env req k n bs batches sent = Some (s, txs)"
  shows "\<exists>m outs more. as_batches s = batches @ outs \<and> batches_done n bs m outs \<and> txs = sent @ more
      \<and> (case as_error s of None \<Rightarrow> m = length bs | Some e \<Rightarrow> batch_failed n bs m e)
      \<and> map (authentic (at_sign a)) more
          = map (\<lambda>j. Some (batch_tx a (ar_merkle_root req) n bs j)) [0..<(if as_error s = None then m else Suc m)]"
  using assms(2)
proof (induction bs arbitrary: k n batches sent)
  case Nil
  then show ?case by (auto simp: batches_done_def)
next
  case (Cons b bs)
  obtain tx where tx: "build_accept_assignment_v2_tx (at_sign a) (at_signing_key_seed a) (at_chain_id a) n
        (at_fee_per_tx a) (ar_merkle_root req) b = Inr tx"
      "authentic (at_sign a) tx = Some (batch_tx a (ar_merkle_root req) n (b # bs) 0)"
    using sign_and_encode_authentic [OF assms(1)]
    unfolding build_accept_assignment_v2_tx_def batch_tx_def by fastforce
  have stop: ?case if "s = \<lparr>as_batches = batches, as_error = Some e\<rparr>" "txs = sent @ [tx]" "batch_failed n (b # bs) 0 e" for e
    using that tx(2) by (intro exI [of _ 0] exI [of _ "[]"] exI [of _ "[tx]"]) (simp add: batches_done_def)
  show ?case
  proof (cases "sb_send env k tx")
    case (Inl e)
    then show ?thesis using Cons.prems tx by (intro stop) (auto simp: batch_failed_def)
  next
    case (Inr h)
    let ?w = "wait_for_finalized (sb_wait env k h) (sb_clock env k) (ar_poll_interval req) (ar_batch_timeout req)"
    obtain r where r: "?w = Some r" using Cons.prems tx Inr by (cases ?w) auto
    show ?thesis
    proof (cases r)
      case (Inl e)
      then show ?thesis using Cons.prems tx Inr r by (intro stop) (auto simp: batch_failed_def)
    next
      case ht: (Inr ht)
      let ?o = "\<lparr>bo_chunk_indices = b, bo_nonce = n, bo_tx_hash = h, bo_finalized_at_height = ht\<rparr>"
      have "attest_loop a env req (Suc k) (n + 1) bs (batches @ [?o]) (sent @ [tx]) = Some (s, txs)"
        using Cons.prems tx Inr r ht by simp
      from Cons.IH [OF this] obtain m outs new where
        *: "as_batches s = batches @ ?o # outs" "batches_done (n + 1) bs m outs" "txs = sent @ tx # new"
          "case as_error s of None \<Rightarrow> m = length bs | Some e \<Rightarrow> batch_failed (n + 1) bs m e"
          "map (authentic (at_sign a)) new = map (\<lambda>j. Some (batch_tx a (ar_merkle_root req) (n + 1) bs j))
             [0..<(if as_error s = None then m else Suc m)]"
        by auto
      show ?thesis
        using * tx(2) batches_done_Cons [of n b bs m h ht outs]
        by (intro exI [of _ "Suc m"] exI [of _ "?o # outs"] exI [of _ "tx # new"])
          (auto simp: batch_failed_Cons batch_tx_Cons map_upt_Suc0 split: option.splits simp del: upt_Suc)
    qed
  qed
qed

section \<open>What is attested\<close>

lemma sorted_u32_range: "sorted_wrt (<) (map u32_of [0..<unat (n :: u32)])"
proof -
  have "u32_of i < u32_of j" if "i < j" "j < unat n" for i j
    using that unat_less [of n] by (simp add: word_less_nat_alt unat_u32_of)
  then show ?thesis by (auto simp: sorted_wrt_iff_nth_less)
qed

lemma attest_set_sorted: "sorted_wrt (<) (attest_set W a req)"
  unfolding attest_set_def chunks_for_archive_v2_def Let_def
  using sorted_u32_range [of "ar_chunk_count req"] by (simp add: sorted_wrt_filter)

lemma u32_range: "set (map u32_of [0..<unat (n :: u32)]) = {i. i < n}"
proof -
  have "unat (u32_of i) = i" if "i < unat n" for i using that unat_less [of n] by (simp add: unat_u32_of)
  then show ?thesis by (force simp: word_less_nat_alt image_iff intro: bexI [of _ "unat _"])
qed

lemma attest_set_mem:
  assumes "wire_ok W"
  shows "set (attest_set W a req) = {i \<in> ar_held req. i < ar_chunk_count req
      \<and> at_my_addr a \<in> set (assigned_archives W (ar_merkle_root req) (ar_snapshot req) i
                               (v2p_assignment_replication_factor (at_params a)))}"
  using u32_range [of "ar_chunk_count req"] unfolding attest_set_def v2_entry_points_agree [OF assms, THEN conjunct2] by auto

lemma attest_spec:
  assumes "sign_ok (at_sign a)" and "attest W a env req = Some (s, sent)" and "0 < v2p_max_chunk_indices_per_tx (at_params a)"
  defines "bs \<equiv> slice_chunks (unat (v2p_max_chunk_indices_per_tx (at_params a))) (attest_set W a req)"
  shows "\<exists>m. batches_done (ar_starting_nonce req) bs m (as_batches s)
      \<and> (case as_error s of None \<Rightarrow> m = length bs | Some e \<Rightarrow> batch_failed (ar_starting_nonce req) bs m e)
      \<and> map (authentic (at_sign a)) sent
          = map (\<lambda>j. Some (batch_tx a (ar_merkle_root req) (ar_starting_nonce req) bs j))
              [0..<(if as_error s = None then m else Suc m)]"
proof -
  have cap: "v2p_max_chunk_indices_per_tx (at_params a) \<noteq> 0" using assms(3) by auto
  show ?thesis
  proof (cases "attest_set W a req = []")
    case True
    then have "s = \<lparr>as_batches = [], as_error = None\<rparr>" "sent = []" using assms(2) cap by (auto simp: attest_def)
    then show ?thesis using True by (intro exI [of _ 0]) (simp add: batches_done_def bs_def)
  next
    case False
    then have "attest_loop a env req 0 (ar_starting_nonce req) bs [] [] = Some (s, sent)"
      using assms(2) cap by (simp add: attest_def Let_def bs_def)
    from attest_loop_spec [OF assms(1) this] show ?thesis by auto
  qed
qed

lemma attest_batches:
  assumes "sign_ok (at_sign a)" and "attest W a env req = Some (s, sent)" and "0 < v2p_max_chunk_indices_per_tx (at_params a)"
  shows "\<exists>rest. concat (map bo_chunk_indices (as_batches s)) @ rest = attest_set W a req \<and> (fully_attested s \<longleftrightarrow> rest = [])"
    and "length sent = length (as_batches s) + (if fully_attested s then 0 else 1)"
    and "j < length sent \<Longrightarrow> \<exists>is. authentic (at_sign a) (sent ! j)
        = Some (own_tx (at_sign a) (at_signing_key_seed a) (at_chain_id a) (ar_starting_nonce req + word_of_nat j)
            (at_fee_per_tx a) (StorageMetadataV2 (AcceptAssignmentV2 (ar_merkle_root req) is)))
        \<and> is \<noteq> [] \<and> length is \<le> unat (v2p_max_chunk_indices_per_tx (at_params a)) \<and> set is \<subseteq> set (attest_set W a req)"
proof -
  let ?cap = "unat (v2p_max_chunk_indices_per_tx (at_params a))"
  let ?bs = "slice_chunks ?cap (attest_set W a req)"
  obtain m where m: "batches_done (ar_starting_nonce req) ?bs m (as_batches s)"
      "case as_error s of None \<Rightarrow> m = length ?bs | Some e \<Rightarrow> batch_failed (ar_starting_nonce req) ?bs m e"
      "map (authentic (at_sign a)) sent = map (\<lambda>j. Some (batch_tx a (ar_merkle_root req) (ar_starting_nonce req) ?bs j))
              [0..<(if as_error s = None then m else Suc m)]"
    using attest_spec [OF assms] by blast
  have cap: "0 < ?cap" using assms(3) by (simp add: word_less_nat_alt)
  have le: "m < length ?bs \<longleftrightarrow> as_error s \<noteq> None"
    using m(2) by (auto simp: batch_failed_def split: option.splits)
  have b: "map bo_chunk_indices (as_batches s) = take m ?bs" "length (as_batches s) = m"
    using m(1) by (auto simp: batches_done_def dest: arg_cong [where f = length])
  have "concat (drop m ?bs) = [] \<longleftrightarrow> drop m ?bs = []"
    using slice_chunks_nonempty by (rule concat_drop_Nil)
  moreover have "concat (take m ?bs) @ concat (drop m ?bs) = attest_set W a req"
    by (simp add: concat_slice_chunks [OF cap] flip: concat_append)
  ultimately show "\<exists>rest. concat (map bo_chunk_indices (as_batches s)) @ rest = attest_set W a req \<and> (fully_attested s \<longleftrightarrow> rest = [])"
    using le m(1) b by (intro exI [of _ "concat (drop m ?bs)"]) (auto simp: fully_attested_def batches_done_def)
  have len: "length sent = (if as_error s = None then m else Suc m)" using arg_cong [OF m(3), of length] by simp
  then show "length sent = length (as_batches s) + (if fully_attested s then 0 else 1)"
    using b by (simp add: fully_attested_def)
  show "\<exists>is. authentic (at_sign a) (sent ! j)
        = Some (own_tx (at_sign a) (at_signing_key_seed a) (at_chain_id a) (ar_starting_nonce req + word_of_nat j)
            (at_fee_per_tx a) (StorageMetadataV2 (AcceptAssignmentV2 (ar_merkle_root req) is)))
        \<and> is \<noteq> [] \<and> length is \<le> ?cap \<and> set is \<subseteq> set (attest_set W a req)" if j: "j < length sent"
  proof -
    have "authentic (at_sign a) (sent ! j) = map (authentic (at_sign a)) sent ! j" using j by simp
    also have "\<dots> = Some (batch_tx a (ar_merkle_root req) (ar_starting_nonce req) ?bs j)"
      unfolding m(3) using j len by (simp del: upt_Suc)
    finally have "authentic (at_sign a) (sent ! j) = Some (batch_tx a (ar_merkle_root req) (ar_starting_nonce req) ?bs j)" .
    moreover have "?bs ! j \<in> set ?bs" using j len le m(1) by (intro nth_mem) (auto simp: batches_done_def split: if_splits)
    ultimately show ?thesis using slice_chunks_mem [of "?bs ! j"] by (auto simp: batch_tx_def)
  qed
qed

text \<open>
  Attestation is exact. When a run with a positive per-transaction cap returns, the finalised batches,
  in order, are a prefix of the ascending list of the chunks that are both held and assigned to this
  archive in the snapshot, and the run reports full attestation exactly when that is all of them; one
  transaction was sent per finalised batch and one more if the run failed; the \<open>j\<close>-th one is this
  account's, with the \<open>j\<close>-th nonce from the starting one, for a non-empty batch within the cap.
\<close>

theorem attest_batches_exact:
  assumes "sign_ok (at_sign a)" and "wire_ok W" and "attest W a env req = Some (s, sent)"
    and "0 < v2p_max_chunk_indices_per_tx (at_params a)"
  shows "(\<exists>todo rest. concat (map bo_chunk_indices (as_batches s)) @ rest = todo \<and> (fully_attested s \<longleftrightarrow> rest = [])
          \<and> sorted_wrt (<) todo
          \<and> set todo = {i \<in> ar_held req. i < ar_chunk_count req
                \<and> at_my_addr a \<in> set (assigned_archives W (ar_merkle_root req) (ar_snapshot req) i
                                         (v2p_assignment_replication_factor (at_params a)))})
     \<and> length sent = length (as_batches s) + (if fully_attested s then 0 else 1)
     \<and> (\<forall>j < length sent. \<exists>is. authentic (at_sign a) (sent ! j)
          = Some (own_tx (at_sign a) (at_signing_key_seed a) (at_chain_id a) (ar_starting_nonce req + word_of_nat j)
              (at_fee_per_tx a) (StorageMetadataV2 (AcceptAssignmentV2 (ar_merkle_root req) is)))
          \<and> is \<noteq> [] \<and> length is \<le> unat (v2p_max_chunk_indices_per_tx (at_params a)) \<and> set is \<subseteq> ar_held req)"
proof (intro conjI allI impI)
  show "\<exists>todo rest. concat (map bo_chunk_indices (as_batches s)) @ rest = todo \<and> (fully_attested s \<longleftrightarrow> rest = [])
      \<and> sorted_wrt (<) todo
      \<and> set todo = {i \<in> ar_held req. i < ar_chunk_count req
            \<and> at_my_addr a \<in> set (assigned_archives W (ar_merkle_root req) (ar_snapshot req) i
                                     (v2p_assignment_replication_factor (at_params a)))}"
  proof -
    obtain rest where "concat (map bo_chunk_indices (as_batches s)) @ rest = attest_set W a req" "fully_attested s \<longleftrightarrow> rest = []"
      using attest_batches(1) [OF assms(1,3,4)] by blast
    then show ?thesis
      using attest_set_sorted [of W a req] attest_set_mem [OF assms(2), of a req]
      by (intro exI [of _ "attest_set W a req"] exI [of _ rest]) simp
  qed
next
  fix j assume "j < length sent"
  from attest_batches(3) [OF assms(1,3,4) this] attest_set_mem [OF assms(2), of a req]
  show "\<exists>is. authentic (at_sign a) (sent ! j)
          = Some (own_tx (at_sign a) (at_signing_key_seed a) (at_chain_id a) (ar_starting_nonce req + word_of_nat j)
              (at_fee_per_tx a) (StorageMetadataV2 (AcceptAssignmentV2 (ar_merkle_root req) is)))
          \<and> is \<noteq> [] \<and> length is \<le> unat (v2p_max_chunk_indices_per_tx (at_params a)) \<and> set is \<subseteq> ar_held req"
    by blast
qed (rule attest_batches(2) [OF assms(1,3,4)])

section \<open>Attestations end, and a healthy chain finalises them all\<close>

lemma attest_loop_total:
  assumes "0 < ar_poll_interval req"
  shows "\<exists>r. attest_loop a env req k n bs batches sent = Some r"
proof (induction bs arbitrary: k n batches sent)
  case (Cons b bs)
  have "\<exists>r. wait_for_finalized (sb_wait env k h) (sb_clock env k) (ar_poll_interval req) (ar_batch_timeout req) = Some r" for h
    by (rule wait_total [OF assms])
  then show ?case using Cons.IH by (simp split: sum.split option.split) (metis option.distinct(1))
qed simp

definition healthy :: "submit_env \<Rightarrow> attest_request \<Rightarrow> bool" where
  "healthy env req \<longleftrightarrow> (\<forall>k tx. \<exists>h height. sb_send env k tx = Inr h
     \<and> wait_for_finalized (sb_wait env k h) (sb_clock env k) (ar_poll_interval req) (ar_batch_timeout req) = Some (Inr height))"

lemma attest_loop_healthy:
  assumes "sign_ok (at_sign a)" and "healthy env req"
  shows "\<exists>s txs. attest_loop a env req k n bs batches sent = Some (s, txs) \<and> as_error s = None"
proof (induction bs arbitrary: k n batches sent)
  case (Cons b bs)
  obtain tx where "build_accept_assignment_v2_tx (at_sign a) (at_signing_key_seed a) (at_chain_id a) n
        (at_fee_per_tx a) (ar_merkle_root req) b = Inr tx"
    using sign_and_encode_authentic [OF assms(1)] unfolding build_accept_assignment_v2_tx_def by blast
  moreover obtain h height where "sb_send env k tx = Inr h"
      "wait_for_finalized (sb_wait env k h) (sb_clock env k) (ar_poll_interval req) (ar_batch_timeout req) = Some (Inr height)"
    using assms(2) unfolding healthy_def by blast
  ultimately show ?case using Cons.IH by simp
qed simp

lemma attest_ends:
  assumes "0 < ar_poll_interval req"
  shows "\<exists>s sent. attest W a env req = Some (s, sent)
           \<and> (sign_ok (at_sign a) \<and> healthy env req \<and> 0 < v2p_max_chunk_indices_per_tx (at_params a) \<longrightarrow> fully_attested s)"
proof -
  let ?bs = "slice_chunks (unat (v2p_max_chunk_indices_per_tx (at_params a))) (attest_set W a req)"
  obtain r where r: "attest_loop a env req 0 (ar_starting_nonce req) ?bs [] [] = Some r"
    using attest_loop_total [OF assms] by blast
  then have "as_error (fst r) = None" if "sign_ok (at_sign a)" "healthy env req"
    using attest_loop_healthy [OF that, of 0 "ar_starting_nonce req" ?bs "[]" "[]"] by auto
  then show ?thesis using r by (cases r) (auto simp: attest_def Let_def fully_attested_def)
qed

text \<open>
  A run always returns when the poll interval is positive, whatever the chain does; and when every
  submission is accepted and finalises in time, it attests every chunk that is held and assigned.
\<close>

theorem attest_returns:
  assumes "0 < ar_poll_interval req"
  shows "\<exists>s sent. attest W a env req = Some (s, sent)
           \<and> (sign_ok (at_sign a) \<and> healthy env req \<and> 0 < v2p_max_chunk_indices_per_tx (at_params a) \<longrightarrow> fully_attested s)"
  by (rule attest_ends [OF assms])

section \<open>From accepted pushes to submitted attestations\<close>

lemma run_attestation_cases:
  assumes "run_attestation L W a rpc env rt held me poll timeout = Some (Some (s, sent))"
  obtains shape epoch snapshot nonce where "fetch_file_shape rpc rt = Inr shape"
    "latest_assignment_epoch (fetch_coverage rpc) rt shape = Inr epoch" "trigger_snapshot L rpc epoch = Inr snapshot"
    "tr_get_nonce rpc me = Inr nonce" "held \<noteq> {}"
    "attest W a env \<lparr>ar_merkle_root = rt, ar_chunk_count = fs_chunk_count shape, ar_snapshot = snapshot, ar_held = held,
       ar_starting_nonce = nonce, ar_poll_interval = poll, ar_batch_timeout = timeout\<rparr> = Some (s, sent)"
  using assms by (auto simp: run_attestation_def split: if_splits sum.splits)

text \<open>
  What a submitted acceptance says: it is this account's, for chunks of that root, within the cap, each
  assigned to this archive in the chain's snapshot at the file's latest assignment epoch and each with
  the backing \<open>P\<close>.
\<close>

definition sound_acceptance ::
    "digest_lib \<Rightarrow> wire_lib \<Rightarrow> attestor \<Rightarrow> trigger_rpc \<Rightarrow> hash \<Rightarrow> (u32 \<Rightarrow> bool) \<Rightarrow> string \<Rightarrow> bool" where
  "sound_acceptance L W a rpc rt P tx \<longleftrightarrow> (\<exists>n is shape epoch snapshot. authentic (at_sign a) tx
          = Some (own_tx (at_sign a) (at_signing_key_seed a) (at_chain_id a) n (at_fee_per_tx a)
              (StorageMetadataV2 (AcceptAssignmentV2 rt is)))
       \<and> is \<noteq> [] \<and> length is \<le> unat (v2p_max_chunk_indices_per_tx (at_params a))
       \<and> fetch_file_shape rpc rt = Inr shape \<and> latest_assignment_epoch (fetch_coverage rpc) rt shape = Inr epoch
       \<and> trigger_snapshot L rpc epoch = Inr snapshot
       \<and> (\<forall>i \<in> set is. i < fs_chunk_count shape \<and> P i
            \<and> at_my_addr a \<in> set (assigned_archives W rt snapshot i (v2p_assignment_replication_factor (at_params a)))))"

lemma run_attestation_sound:
  assumes "sign_ok (at_sign a)" and "wire_ok W" and "0 < v2p_max_chunk_indices_per_tx (at_params a)"
    and "run_attestation L W a rpc env rt held me poll timeout = Some (Some (s, sent))"
    and "\<forall>i \<in> held. P i" and "tx \<in> set sent"
  shows "sound_acceptance L W a rpc rt P tx"
proof -
  obtain shape epoch snapshot nonce where run: "fetch_file_shape rpc rt = Inr shape"
      "latest_assignment_epoch (fetch_coverage rpc) rt shape = Inr epoch" "trigger_snapshot L rpc epoch = Inr snapshot"
      "attest W a env \<lparr>ar_merkle_root = rt, ar_chunk_count = fs_chunk_count shape, ar_snapshot = snapshot, ar_held = held,
         ar_starting_nonce = nonce, ar_poll_interval = poll, ar_batch_timeout = timeout\<rparr> = Some (s, sent)"
    using assms(4) by (elim run_attestation_cases)
  let ?req = "\<lparr>ar_merkle_root = rt, ar_chunk_count = fs_chunk_count shape, ar_snapshot = snapshot, ar_held = held,
         ar_starting_nonce = nonce, ar_poll_interval = poll, ar_batch_timeout = timeout\<rparr>"
  obtain j where j: "j < length sent" "tx = sent ! j" using assms(6) by (auto simp: in_set_conv_nth)
  obtain "is" where "is": "authentic (at_sign a) tx = Some (own_tx (at_sign a) (at_signing_key_seed a) (at_chain_id a)
        (nonce + word_of_nat j) (at_fee_per_tx a) (StorageMetadataV2 (AcceptAssignmentV2 rt is)))"
      "is \<noteq> []" "length is \<le> unat (v2p_max_chunk_indices_per_tx (at_params a))" "set is \<subseteq> set (attest_set W a ?req)"
    using attest_batches(3) [OF assms(1) run(4) assms(3) j(1)] j(2) by auto
  then have "\<forall>i \<in> set is. i < fs_chunk_count shape \<and> P i
      \<and> at_my_addr a \<in> set (assigned_archives W rt snapshot i (v2p_assignment_replication_factor (at_params a)))"
    using assms(5) attest_set_mem [OF assms(2), of a ?req] by auto
  then show ?thesis using "is" run(1-3) unfolding sound_acceptance_def by blast
qed

section \<open>Instances\<close>

definition demo_attestor :: attestor where
  "demo_attestor = \<lparr>at_sign = demo_sign, at_signing_key_seed = replicate 32 1, at_my_addr = replicate 20 1, at_chain_id = 1,
     at_fee_per_tx = 1, at_params = \<lparr>v2p_assignment_replication_factor = 3, v2p_max_chunk_indices_per_tx = 1\<rparr>\<rparr>"

text \<open>The chain accepts every transaction; it reports it pending once, then final.\<close>

definition demo_submit :: submit_env where
  "demo_submit = \<lparr>sb_send = (\<lambda>k tx. Inr ''h''),
     sb_wait = (\<lambda>k h. \<lparr>we_status = (\<lambda>j. if j = 0 then Inr TxPending else Inr (TxFinalized 9)), we_delay = (\<lambda>_. 1),
                        we_oversleep = (\<lambda>_. 0)\<rparr>), sb_clock = (\<lambda>_. 0)\<rparr>"

definition demo_request :: attest_request where
  "demo_request = \<lparr>ar_merkle_root = demo_chunk_root, ar_chunk_count = 3, ar_snapshot = [replicate 20 1], ar_held = {0, 2},
     ar_starting_nonce = 7, ar_poll_interval = DEFAULT_POLL_INTERVAL, ar_batch_timeout = 120 * 10 ^ 9\<rparr>"

lemma demo_wait: "wait_for_finalized (sb_wait demo_submit k h) (sb_clock demo_submit k) (2 * 10 ^ 9) (120 * 10 ^ 9) = Some (Inr 9)"
  by (simp add: wait_for_finalized_def demo_submit_def wait_loop.simps)

lemma demo_healthy: "healthy demo_submit demo_request"
  using demo_wait by (auto simp: healthy_def demo_request_def DEFAULT_POLL_INTERVAL_def demo_submit_def)

lemma demo_params: "sign_ok (at_sign demo_attestor)" "0 < v2p_max_chunk_indices_per_tx (at_params demo_attestor)"
    "0 < ar_poll_interval demo_request"
  by (simp_all add: demo_attestor_def demo_request_def DEFAULT_POLL_INTERVAL_def demo_sign_ok)

theorem wait_for_finalized_decides_witness:
  "\<exists>n. Some (Inr 9) = Some (verdict (we_status (sb_wait demo_submit 0 ''h'') n)) \<and> n \<le> 60"
proof -
  obtain n where n: "wait_for_finalized (sb_wait demo_submit 0 ''h'') 0 (2 * 10 ^ 9) (120 * 10 ^ 9)
        = Some (verdict (we_status (sb_wait demo_submit 0 ''h'') n))" "0 < n \<longrightarrow> (n - 1) * (2 * 10 ^ 9) < 120 * (10 ^ 9 :: nat)"
    using wait_for_finalized_decides [of "2 * 10 ^ 9" "sb_wait demo_submit 0 ''h''" 0 "120 * 10 ^ 9"] by auto
  have "n \<le> 60" using n(2) by (cases n) auto
  moreover have "sb_clock demo_submit 0 = 0" by (simp add: demo_submit_def)
  ultimately show ?thesis using n(1) demo_wait [of 0 "''h''"] by metis
qed

theorem attest_returns_witness:
  "\<exists>s sent. attest demo_wire demo_attestor demo_submit demo_request = Some (s, sent) \<and> fully_attested s"
  using attest_returns [OF demo_params(3), of demo_wire demo_attestor demo_submit] demo_healthy demo_params(1,2) by auto

theorem attest_batches_exact_witness:
  "\<exists>s sent. attest demo_wire demo_attestor demo_submit demo_request = Some (s, sent) \<and> length sent = length (as_batches s)
     \<and> set (concat (map bo_chunk_indices (as_batches s))) = {i \<in> {0, 2}. i < 3 \<and> replicate 20 1 \<in> set
         (assigned_archives demo_wire demo_chunk_root [replicate 20 1] i 3)}"
proof -
  obtain s sent where a: "attest demo_wire demo_attestor demo_submit demo_request = Some (s, sent)" "fully_attested s"
    using attest_ends [OF demo_params(3), of demo_wire demo_attestor demo_submit] demo_healthy demo_params(1,2) by auto
  from attest_batches_exact [OF demo_params(1) demo_wire_ok a(1) demo_params(2)] a
  obtain todo rest where "concat (map bo_chunk_indices (as_batches s)) @ rest = todo" "rest = []"
      "set todo = {i \<in> ar_held demo_request. i < ar_chunk_count demo_request
         \<and> at_my_addr demo_attestor \<in> set (assigned_archives demo_wire (ar_merkle_root demo_request) (ar_snapshot demo_request) i
              (v2p_assignment_replication_factor (at_params demo_attestor)))}" "length sent = length (as_batches s)"
    by auto
  then show ?thesis using a(1)
    by (intro exI [of _ s] exI [of _ sent]) (simp add: demo_request_def demo_attestor_def)
qed

definition demo_coverage :: assignment_coverage_v2 where
  "demo_coverage = \<lparr>ac_chunk_count = 1, ac_covered_count = 0, ac_can_activate_now = False, ac_missing_total = 1,
     ac_missing_offset = 0, ac_missing_indices = [], ac_per_archive = [], ac_assignment_epochs = [5],
     ac_latest_assignment_epoch = 5, ac_reassignment_needed = False, ac_per_epoch = []\<rparr>"

definition demo_trigger :: trigger_rpc where
  "demo_trigger = \<lparr>tr_file_info_v2 = (\<lambda>_. Inr (Some demo_info)), tr_coverage_v2 = (\<lambda>_. Inr (Some demo_coverage)),
     tr_active_nodes = (\<lambda>_. Inr [demo_record]), tr_get_nonce = (\<lambda>_. Inr 7), tr_bs58_decode = (\<lambda>_. Inr (replicate 24 1))\<rparr>"

lemma demo_trigger_reads:
  "fetch_file_shape demo_trigger rt
     = Inr \<lparr>fs_chunk_count = 1, fs_assignment_height = 5, fs_visibility = 0, fs_lifecycle = 1\<rparr>"
  "latest_assignment_epoch (fetch_coverage demo_trigger) rt
     \<lparr>fs_chunk_count = 1, fs_assignment_height = 5, fs_visibility = 0, fs_lifecycle = 1\<rparr> = Inr 5"
  "trigger_snapshot demo_lib demo_trigger 5 = Inr [replicate 20 1]" "tr_get_nonce demo_trigger me = Inr 7"
  by (simp_all add: fetch_file_shape_def latest_assignment_epoch_def fetch_coverage_def epoch_from_coverage_def
      resolved_latest_epoch_def trigger_snapshot_def filter_active_archives_def is_active_archive_def demo_record_def
      l1_address_from_base58_def demo_trigger_def demo_coverage_def demo_info_def demo_lib_def Let_def)

lemma demo_run_submits:
  "\<exists>s tx. run_attestation demo_lib demo_wire demo_attestor demo_trigger demo_submit demo_chunk_root {0} ''a''
     (2 * 10 ^ 9) (120 * 10 ^ 9) = Some (Some (s, [tx]))"
proof -
  have b: "\<exists>tx. build_accept_assignment_v2_tx demo_sign k c n f rt bs = Inr tx" for k c n f rt bs
    using sign_and_encode_authentic [OF demo_sign_ok] unfolding build_accept_assignment_v2_tx_def by blast
  let ?req = "\<lparr>ar_merkle_root = demo_chunk_root, ar_chunk_count = 1, ar_snapshot = [replicate 20 1], ar_held = {0},
      ar_starting_nonce = 7, ar_poll_interval = 2 * 10 ^ 9, ar_batch_timeout = 120 * 10 ^ 9\<rparr>"
  have "attest_set demo_wire demo_attestor ?req = [0]"
    by (simp add: attest_set_def chunks_for_archive_v2_def binary_search_def demo_attestor_def demo_wire_def
        presorted_addresses_def u32_of_def)
  moreover have "unat (v2p_max_chunk_indices_per_tx (at_params demo_attestor)) = 1"
      "v2p_max_chunk_indices_per_tx (at_params demo_attestor) \<noteq> 0" "at_sign demo_attestor = demo_sign"
      "sb_send demo_submit k tx = Inr ''h''" for k tx
    by (simp_all add: demo_attestor_def demo_submit_def)
  moreover obtain tx where "build_accept_assignment_v2_tx demo_sign (at_signing_key_seed demo_attestor)
      (at_chain_id demo_attestor) 7 (at_fee_per_tx demo_attestor) demo_chunk_root [0] = Inr tx" using b by blast
  ultimately have "\<exists>s. attest demo_wire demo_attestor demo_submit ?req = Some (s, [tx])"
    using demo_wait [of 0] by (simp add: attest_def Let_def slice_chunks_Cons)
  then show ?thesis
    by (auto simp: run_attestation_def demo_trigger_reads)
qed

end
