(* ===== verification/Chain_Client.thy ===== *)
theory Chain_Client
  imports Attestor
begin

text \<open>
  What the owner's commands share: computations that change a state, may return early with an error and
  may wait for ever, with rules to reason about them, and the calls of the RPC client. The \<open>n\<close>-th call
  of a run gets the answer the chain gives at that moment, so every answer takes the number of the call;
  \<open>cw_sent\<close> are the texts handed to \<open>send_raw_transaction\<close>, in order.
\<close>

section \<open>Computations\<close>

type_synonym ('w, 'e, 'a) act = "'w \<Rightarrow> (('e + 'a) \<times> 'w) option"

definition ret :: "'a \<Rightarrow> ('w, 'e, 'a) act" where
  "ret a w = Some (Inr a, w)"

definition fail :: "'e \<Rightarrow> ('w, 'e, 'a) act" where
  "fail e w = Some (Inl e, w)"

definition bind_act :: "('w, 'e, 'a) act \<Rightarrow> ('a \<Rightarrow> ('w, 'e, 'b) act) \<Rightarrow> ('w, 'e, 'b) act" where
  "bind_act m f w =
     (case m w of None \<Rightarrow> None | Some (Inl e, w1) \<Rightarrow> Some (Inl e, w1) | Some (Inr a, w1) \<Rightarrow> f a w1)"

definition lift :: "'e + 'a \<Rightarrow> ('w, 'e, 'a) act" where
  "lift r w = Some (r, w)"

definition map_err :: "('e \<Rightarrow> 'f) \<Rightarrow> ('w, 'e, 'a) act \<Rightarrow> ('w, 'f, 'a) act" where
  "map_err g m w = map_option (\<lambda>(r, w1). (map_sum g id r, w1)) (m w)"

text \<open>The result as a value: errors are handled by the caller.\<close>

definition attempt :: "('w, 'e, 'a) act \<Rightarrow> ('w, 'f, 'e + 'a) act" where
  "attempt m w = map_option (\<lambda>(r, w1). (Inr r, w1)) (m w)"

definition require :: "bool \<Rightarrow> 'e \<Rightarrow> ('w, 'e, unit) act" where
  "require b e = (if b then ret () else fail e)"

definition modify :: "('w \<Rightarrow> 'w) \<Rightarrow> ('w, 'e, unit) act" where
  "modify f w = Some (Inr (), f w)"

definition gets :: "('w \<Rightarrow> 'a) \<Rightarrow> ('w, 'e, 'a) act" where
  "gets f w = Some (Inr (f w), w)"

section \<open>Rules\<close>

text \<open>
  \<open>holds P m Q R\<close>: from a state in \<open>P\<close>, if \<open>m\<close> returns, then a value ends in \<open>Q\<close> and an error in
  \<open>R\<close>. \<open>returns m\<close>: \<open>m\<close> returns from every state.
\<close>

definition holds :: "('w \<Rightarrow> bool) \<Rightarrow> ('w, 'e, 'a) act \<Rightarrow> ('a \<Rightarrow> 'w \<Rightarrow> bool) \<Rightarrow> ('e \<Rightarrow> 'w \<Rightarrow> bool) \<Rightarrow> bool" where
  "holds P m Q R \<longleftrightarrow> (\<forall>w r w'. P w \<longrightarrow> m w = Some (r, w') \<longrightarrow> (case r of Inl e \<Rightarrow> R e w' | Inr a \<Rightarrow> Q a w'))"

definition returns :: "('w, 'e, 'a) act \<Rightarrow> bool" where
  "returns m \<longleftrightarrow> (\<forall>w. m w \<noteq> None)"

named_theorems act_rules \<open>rules for holds\<close>
named_theorems act_returns \<open>rules for returns\<close>

lemma holdsD:
  assumes "holds P m Q R" "P w" "m w = Some (r, w')"
  shows "case r of Inl e \<Rightarrow> R e w' | Inr a \<Rightarrow> Q a w'"
  using assms by (auto simp: holds_def)

lemma holdsI:
  assumes "\<And>w e w'. P w \<Longrightarrow> m w = Some (Inl e, w') \<Longrightarrow> R e w'"
    and "\<And>w a w'. P w \<Longrightarrow> m w = Some (Inr a, w') \<Longrightarrow> Q a w'"
  shows "holds P m Q R"
  using assms by (auto simp: holds_def split: sum.splits)

lemma holds_weaken:
  assumes "holds P m Q R" "\<And>w. P' w \<Longrightarrow> P w" "\<And>a w. Q a w \<Longrightarrow> Q' a w" "\<And>e w. R e w \<Longrightarrow> R' e w"
  shows "holds P' m Q' R'"
proof (rule holdsI)
  fix w e w' assume "P' w" "m w = Some (Inl e, w')"
  then show "R' e w'" using holdsD[OF assms(1), of w "Inl e" w'] assms by auto
next
  fix w a w' assume "P' w" "m w = Some (Inr a, w')"
  then show "Q' a w'" using holdsD[OF assms(1), of w "Inr a" w'] assms by auto
qed

lemma holds_ret [act_rules]: "(\<And>w. P w \<Longrightarrow> Q a w) \<Longrightarrow> holds P (ret a) Q R"
  by (auto simp: holds_def ret_def)

lemma holds_fail [act_rules]: "(\<And>w. P w \<Longrightarrow> R e w) \<Longrightarrow> holds P (fail e) Q R"
  by (auto simp: holds_def fail_def)

lemma holds_lift [act_rules]:
  "(\<And>w e. P w \<Longrightarrow> r = Inl e \<Longrightarrow> R e w) \<Longrightarrow> (\<And>w a. P w \<Longrightarrow> r = Inr a \<Longrightarrow> Q a w) \<Longrightarrow> holds P (lift r) Q R"
  by (auto simp: holds_def lift_def split: sum.splits)

lemma holds_modify [act_rules]: "(\<And>w. P w \<Longrightarrow> Q () (f w)) \<Longrightarrow> holds P (modify f) Q R"
  by (auto simp: holds_def modify_def)

lemma holds_gets [act_rules]: "(\<And>w. P w \<Longrightarrow> Q (f w) w) \<Longrightarrow> holds P (gets f) Q R"
  by (auto simp: holds_def gets_def)

lemma holds_require [act_rules]:
  "(\<And>w. P w \<Longrightarrow> \<not> b \<Longrightarrow> R e w) \<Longrightarrow> (\<And>w. P w \<Longrightarrow> b \<Longrightarrow> Q () w) \<Longrightarrow> holds P (require b e) Q R"
  by (auto simp: require_def intro: holds_ret holds_fail)

lemma holds_bind:
  assumes "holds P m Q' R" and "\<And>a. holds (Q' a) (f a) Q R"
  shows "holds P (bind_act m f) Q R"
proof (unfold holds_def, intro allI impI)
  fix w r w' assume w: "P w" "bind_act m f w = Some (r, w')"
  then obtain r1 w1 where m: "m w = Some (r1, w1)" by (auto simp: bind_act_def split: option.splits)
  show "case r of Inl e \<Rightarrow> R e w' | Inr a \<Rightarrow> Q a w'"
  proof (cases r1)
    case (Inl e)
    then show ?thesis using w m holdsD[OF assms(1) w(1) m] by (auto simp: bind_act_def)
  next
    case (Inr a)
    then have "Q' a w1" "f a w1 = Some (r, w')" using w m holdsD[OF assms(1) w(1) m] by (auto simp: bind_act_def)
    then show ?thesis using holdsD[OF assms(2)] by blast
  qed
qed

lemma map_err_eq:
  "map_err g m w = Some (Inl f, w') \<longleftrightarrow> (\<exists>e. m w = Some (Inl e, w') \<and> f = g e)"
  "map_err g m w = Some (Inr a, w') \<longleftrightarrow> m w = Some (Inr a, w')"
proof -
  consider "m w = None" | e w1 where "m w = Some (Inl e, w1)" | b w1 where "m w = Some (Inr b, w1)"
    by (metis option.exhaust prod.exhaust sum.exhaust)
  then show "map_err g m w = Some (Inl f, w') \<longleftrightarrow> (\<exists>e. m w = Some (Inl e, w') \<and> f = g e)"
    and "map_err g m w = Some (Inr a, w') \<longleftrightarrow> m w = Some (Inr a, w')"
    by (cases; auto simp: map_err_def)+
qed

lemma attempt_eq:
  "attempt m w = Some (r, w') \<longleftrightarrow> (\<exists>s. m w = Some (s, w') \<and> r = Inr s)"
  unfolding attempt_def map_option_eq_Some by auto

lemma holds_map_err [act_rules]: "holds P m Q (\<lambda>e. R (g e)) \<Longrightarrow> holds P (map_err g m) Q R"
  by (rule holdsI) (auto simp: map_err_eq dest: holdsD)

lemma holds_attempt [act_rules]:
  assumes "holds P m (\<lambda>a. Q (Inr a)) (\<lambda>e. Q (Inl e))"
  shows "holds P (attempt m) Q R"
proof (rule holdsI)
  fix w a w' assume "P w" "attempt m w = Some (Inr a, w')"
  then show "Q a w'" using holdsD[OF assms, of w a w'] by (auto simp: attempt_eq split: sum.splits)
qed (auto simp: attempt_eq)

lemma holds_conj:
  "holds P m Q R \<Longrightarrow> holds P' m Q' R' \<Longrightarrow> holds (\<lambda>w. P w \<and> P' w) m (\<lambda>a w. Q a w \<and> Q' a w) (\<lambda>e w. R e w \<and> R' e w)"
  by (auto simp: holds_def split: sum.splits)

lemma returns_simple [act_returns]:
  "returns (ret a)" "returns (fail e)" "returns (lift r)" "returns (modify f)" "returns (gets g)" "returns (require b e)"
  by (auto simp: returns_def ret_def fail_def lift_def modify_def gets_def require_def)

lemma returns_bind [act_returns]: "returns m \<Longrightarrow> (\<And>a. returns (f a)) \<Longrightarrow> returns (bind_act m f)"
  by (auto simp: returns_def bind_act_def split: option.splits sum.splits prod.splits)

lemma returns_map_err [act_returns]: "returns m \<Longrightarrow> returns (map_err g m)"
  by (auto simp: returns_def map_err_def)

lemma returns_attempt [act_returns]: "returns m \<Longrightarrow> returns (attempt m)"
  by (auto simp: returns_def attempt_def)

section \<open>The client\<close>

record chain_params_info =
  cpi_chain_id :: u64
  cpi_block_time_ms :: u64
  cpi_finality_depth :: u64
  cpi_min_fee :: u128
  cpi_assignment_replication_factor :: u32
  cpi_max_chunk_indices_per_tx :: u32
  cpi_max_chunk_count_per_file :: u32
  cpi_activation_grace_blocks :: u64
  cpi_v2_enabled_from_height :: "u64 option"

record chain_rpc =
  cr_chain_params :: "nat \<Rightarrow> string + chain_params_info"
  cr_block_height :: "nat \<Rightarrow> string + u64"
  cr_file_info :: "nat \<Rightarrow> string \<Rightarrow> u32 option \<Rightarrow> u32 option \<Rightarrow> string + storage_file_info_v2 option"
  cr_active_nodes :: "nat \<Rightarrow> u64 \<Rightarrow> string + node_record_info list"
  cr_coverage :: "nat \<Rightarrow> string \<Rightarrow> u32 option \<Rightarrow> u32 option \<Rightarrow> string + assignment_coverage_v2 option"
  cr_v1_registered :: "nat \<Rightarrow> string \<Rightarrow> string + bool"
  cr_encryption_key :: "nat \<Rightarrow> string \<Rightarrow> string + bytes option"
  cr_nonce :: "nat \<Rightarrow> string \<Rightarrow> string + u64"
  cr_send :: "nat \<Rightarrow> string \<Rightarrow> string + string"
  cr_wait :: "nat \<Rightarrow> string \<Rightarrow> wait_env"
  cr_wait_start :: "nat \<Rightarrow> nat"

record chain_world =
  cw_calls :: nat
  cw_sent :: "string list"

definition call :: "(nat \<Rightarrow> string + 'a) \<Rightarrow> ('z chain_world_scheme, string, 'a) act" where
  "call q w = Some (q (cw_calls w), w\<lparr>cw_calls := Suc (cw_calls w)\<rparr>)"

definition send_raw_transaction :: "chain_rpc \<Rightarrow> string \<Rightarrow> ('z chain_world_scheme, string, string) act" where
  "send_raw_transaction R tx_hex w =
     Some (cr_send R (cw_calls w) tx_hex, w\<lparr>cw_calls := Suc (cw_calls w), cw_sent := cw_sent w @ [tx_hex]\<rparr>)"

definition await_finality :: "chain_rpc \<Rightarrow> string \<Rightarrow> nat \<Rightarrow> nat \<Rightarrow> ('z chain_world_scheme, tx_wait_error, u64) act" where
  "await_finality R tx_hash poll_interval timeout w =
     map_option (\<lambda>r. (r, w\<lparr>cw_calls := Suc (cw_calls w)\<rparr>))
       (wait_for_finalized (cr_wait R (cw_calls w) tx_hash) (cr_wait_start R (cw_calls w)) poll_interval timeout)"

lemma holds_call [act_rules]:
  assumes "\<And>w e. P w \<Longrightarrow> q (cw_calls w) = Inl e \<Longrightarrow> F e (w\<lparr>cw_calls := Suc (cw_calls w)\<rparr>)"
    and "\<And>w a. P w \<Longrightarrow> q (cw_calls w) = Inr a \<Longrightarrow> Q a (w\<lparr>cw_calls := Suc (cw_calls w)\<rparr>)"
  shows "holds P (call q) Q F"
  using assms by (auto simp: holds_def call_def split: sum.splits)

lemma holds_send [act_rules]:
  assumes "\<And>w e. P w \<Longrightarrow> cr_send R (cw_calls w) t = Inl e \<Longrightarrow> F e (w\<lparr>cw_calls := Suc (cw_calls w), cw_sent := cw_sent w @ [t]\<rparr>)"
    and "\<And>w a. P w \<Longrightarrow> cr_send R (cw_calls w) t = Inr a \<Longrightarrow> Q a (w\<lparr>cw_calls := Suc (cw_calls w), cw_sent := cw_sent w @ [t]\<rparr>)"
  shows "holds P (send_raw_transaction R t) Q F"
  using assms by (auto simp: holds_def send_raw_transaction_def split: sum.splits)

lemma holds_finality [act_rules]:
  assumes "\<And>w e. P w \<Longrightarrow> F e (w\<lparr>cw_calls := Suc (cw_calls w)\<rparr>)"
    and "\<And>w a. P w \<Longrightarrow> Q a (w\<lparr>cw_calls := Suc (cw_calls w)\<rparr>)"
  shows "holds P (await_finality R h p t) Q F"
  using assms by (auto simp: holds_def await_finality_def split: sum.splits)

lemma returns_client [act_returns]: "returns (call q)" "returns (send_raw_transaction R t)"
  by (auto simp: returns_def call_def send_raw_transaction_def)

lemma returns_finality [act_returns]: "0 < p \<Longrightarrow> returns (await_finality R h p t)"
  using wait_total[of p] by (auto simp: returns_def await_finality_def)

section \<open>What is sent\<close>

text \<open>
  \<open>quiet m\<close>: nothing is sent. \<open>yields m a\<close>: \<open>m\<close> can return \<open>a\<close>. \<open>sends_only m T\<close>: a run of \<open>m\<close> either
  sends nothing and fails, or sends exactly one text, which satisfies \<open>T\<close>.
\<close>

definition quiet :: "('z chain_world_scheme, 'e, 'a) act \<Rightarrow> bool" where
  "quiet m \<longleftrightarrow> (\<forall>w r w'. m w = Some (r, w') \<longrightarrow> cw_sent w' = cw_sent w)"

definition yields :: "('w, 'e, 'a) act \<Rightarrow> 'a \<Rightarrow> bool" where
  "yields m a \<longleftrightarrow> (\<exists>w w'. m w = Some (Inr a, w'))"

definition sends_only :: "('z chain_world_scheme, 'e, 'a) act \<Rightarrow> (string \<Rightarrow> bool) \<Rightarrow> bool" where
  "sends_only m T \<longleftrightarrow> (\<forall>w r w'. m w = Some (r, w') \<longrightarrow>
     (cw_sent w' = cw_sent w \<and> isl r) \<or> (\<exists>txt. cw_sent w' = cw_sent w @ [txt] \<and> T txt))"

named_theorems act_quiet \<open>computations that send nothing\<close>

lemma bind_act_Some:
  "bind_act m f w = Some (r, w') \<longleftrightarrow>
     (\<exists>e. m w = Some (Inl e, w') \<and> r = Inl e) \<or> (\<exists>a w1. m w = Some (Inr a, w1) \<and> f a w1 = Some (r, w'))"
  by (auto simp: bind_act_def split: option.splits prod.splits sum.splits)

lemma quiet_simple [act_quiet]:
  "quiet (ret a)" "quiet (fail e)" "quiet (lift r)" "quiet (gets g)" "quiet (require b e)" "quiet (call q)"
  by (auto simp: quiet_def ret_def fail_def lift_def gets_def require_def call_def)

lemma quiet_bind [act_quiet]: "quiet m \<Longrightarrow> (\<And>a. quiet (f a)) \<Longrightarrow> quiet (bind_act m f)"
  by (fastforce simp: quiet_def bind_act_Some)

lemma quiet_map_err [act_quiet]: "quiet m \<Longrightarrow> quiet (map_err g m)"
  unfolding quiet_def by (metis map_err_eq sum.exhaust)

lemma quiet_attempt [act_quiet]: "quiet m \<Longrightarrow> quiet (attempt m)"
  by (auto simp: quiet_def attempt_eq)

lemma quiet_finality [act_quiet]: "quiet (await_finality R h p t)"
  by (auto simp: quiet_def await_finality_def)

lemma yields_simple:
  "yields (ret a) b \<longleftrightarrow> b = a" "\<not> yields (fail e) b" "yields (lift r) b \<longleftrightarrow> r = Inr b"
  "yields (require c e) u \<longleftrightarrow> c" "yields (call q) b \<longleftrightarrow> (\<exists>n. q n = Inr b)"
proof -
  show "yields (call q) b \<longleftrightarrow> (\<exists>n. q n = Inr b)"
  proof
    assume "\<exists>n. q n = Inr b"
    then obtain n where "q n = Inr b" by blast
    then have "call q (undefined\<lparr>cw_calls := n\<rparr>) = Some (Inr b, undefined\<lparr>cw_calls := Suc n\<rparr>)" by (simp add: call_def)
    then show "yields (call q) b" unfolding yields_def by blast
  qed (auto simp: yields_def call_def)
qed (auto simp: yields_def ret_def fail_def lift_def require_def)

lemma yields_bind: "yields (bind_act m f) b \<Longrightarrow> \<exists>a. yields m a \<and> yields (f a) b"
  by (auto simp: yields_def bind_act_Some)

lemma yields_bindE:
  assumes "yields (bind_act m f) b"
  obtains a where "yields m a" "yields (f a) b"
  using yields_bind[OF assms] by blast

lemma yields_map_err [simp]: "yields (map_err g m) a \<longleftrightarrow> yields m a"
  by (simp add: yields_def map_err_eq)

lemma sends_fail: "sends_only (fail e) T"
  by (auto simp: sends_only_def fail_def)

lemma sends_bind_quiet:
  assumes "quiet m" and "\<And>a. yields m a \<Longrightarrow> sends_only (f a) T"
  shows "sends_only (bind_act m f) T"
proof (unfold sends_only_def, intro allI impI)
  fix w r w' assume "bind_act m f w = Some (r, w')"
  then consider e where "m w = Some (Inl e, w')" "r = Inl e" | a w1 where "m w = Some (Inr a, w1)" "f a w1 = Some (r, w')"
    by (auto simp: bind_act_Some)
  then show "(cw_sent w' = cw_sent w \<and> isl r) \<or> (\<exists>txt. cw_sent w' = cw_sent w @ [txt] \<and> T txt)"
  proof cases
    case 1
    then show ?thesis using assms(1) by (auto simp: quiet_def)
  next
    case 2
    then have "yields m a" by (auto simp: yields_def)
    then have "cw_sent w1 = cw_sent w" "sends_only (f a) T" using assms(1) assms(2)[of a] 2 by (auto simp: quiet_def)
    then show ?thesis using 2 unfolding sends_only_def by metis
  qed
qed

lemma sends_then_quiet:
  assumes "sends_only m T" and "\<And>a. quiet (f a)"
  shows "sends_only (bind_act m f) T"
proof (unfold sends_only_def, intro allI impI)
  fix w r w' assume "bind_act m f w = Some (r, w')"
  then consider e where "m w = Some (Inl e, w')" "r = Inl e" | a w1 where "m w = Some (Inr a, w1)" "f a w1 = Some (r, w')"
    by (auto simp: bind_act_Some)
  then show "(cw_sent w' = cw_sent w \<and> isl r) \<or> (\<exists>txt. cw_sent w' = cw_sent w @ [txt] \<and> T txt)"
  proof cases
    case 1
    then show ?thesis using assms(1) unfolding sends_only_def by fastforce
  next
    case 2
    then have "cw_sent w' = cw_sent w1" using assms(2) by (auto simp: quiet_def)
    moreover have "\<exists>txt. cw_sent w1 = cw_sent w @ [txt] \<and> T txt" using assms(1) 2(1) unfolding sends_only_def by fastforce
    ultimately show ?thesis by auto
  qed
qed

lemma sends_map_err: "sends_only m T \<Longrightarrow> sends_only (map_err g m) T"
proof (unfold sends_only_def, intro allI impI)
  fix w r w' assume m: "\<forall>w r w'. m w = Some (r, w') \<longrightarrow> (cw_sent w' = cw_sent w \<and> isl r) \<or> (\<exists>txt. cw_sent w' = cw_sent w @ [txt] \<and> T txt)"
    and r: "map_err g m w = Some (r, w')"
  show "(cw_sent w' = cw_sent w \<and> isl r) \<or> (\<exists>txt. cw_sent w' = cw_sent w @ [txt] \<and> T txt)"
    using r m[rule_format, of w _ w'] by (cases r) (auto simp: map_err_eq)
qed

lemma sends_raw: "T txt \<Longrightarrow> sends_only (send_raw_transaction R txt) T"
  by (auto simp: sends_only_def send_raw_transaction_def)

lemma sends_weaken: "sends_only m T \<Longrightarrow> (\<And>t. T t \<Longrightarrow> T' t) \<Longrightarrow> sends_only m T'"
  unfolding sends_only_def by metis

lemma encoded_is_own:
  "sign_ok S \<Longrightarrow> sign_and_encode S sd c n f p = Inr t \<Longrightarrow> authentic S t = Some (own_tx S sd c n f p)"
  using sign_and_encode_authentic[of S sd c n f p] by auto

end
