(* ===== verification/Content_Crypto.thy ===== *)
theory Content_Crypto
  imports Snip_Prelude
begin

text \<open>
  Content encryption (\<open>sum-crypto/src\<close>): per-chunk and manifest encryption under a file key, and the
  80-byte bundle that hands the file key to one recipient. HKDF-SHA256, ChaCha20-Poly1305 and X25519 are
  third-party crates, the fields of \<open>crypto_lib\<close>; the randomness of a wrap is an argument.
\<close>

section \<open>Primitives\<close>

record crypto_lib =
  cl_hkdf :: "nat \<Rightarrow> bytes \<Rightarrow> bytes \<Rightarrow> bytes \<Rightarrow> bytes"   \<comment> \<open>output length, salt, ikm, info\<close>
  cl_seal :: "bytes \<Rightarrow> bytes \<Rightarrow> bytes \<Rightarrow> bytes \<Rightarrow> bytes"   \<comment> \<open>key, nonce, aad, message: ciphertext and tag\<close>
  cl_open :: "bytes \<Rightarrow> bytes \<Rightarrow> bytes \<Rightarrow> bytes \<Rightarrow> bytes option"
  cl_secret :: "bytes \<Rightarrow> bytes"                        \<comment> \<open>\<open>StaticSecret::from\<close>, read by \<open>to_bytes\<close>\<close>
  cl_public :: "bytes \<Rightarrow> bytes"                        \<comment> \<open>\<open>PublicKey::from\<close> of a secret\<close>
  cl_dh :: "bytes \<Rightarrow> bytes \<Rightarrow> bytes"                   \<comment> \<open>\<open>diffie_hellman\<close> of a secret and a public key\<close>

text \<open>
  What the crates document: opening inverts sealing and accepts nothing else (the AEAD is a deterministic
  function of key, nonce, associated data and message), the tag has 16 bytes, the two sides of a
  Diffie-Hellman exchange agree, and a stored secret reads back as the same key.
\<close>

definition crypto_ok :: "crypto_lib \<Rightarrow> bool" where
  "crypto_ok K \<longleftrightarrow>
     (\<forall>k n a c m. cl_open K k n a c = Some m \<longleftrightarrow> c = cl_seal K k n a m)
   \<and> (\<forall>k n a m. length (cl_seal K k n a m) = length m + 16)
   \<and> (\<forall>l s i f. length (cl_hkdf K l s i f) = l)
   \<and> (\<forall>a. cl_secret K (cl_secret K a) = cl_secret K a)
   \<and> (\<forall>a. length (cl_public K a) = 32)
   \<and> (\<forall>a b. cl_dh K (cl_secret K a) (cl_public K (cl_secret K b)) = cl_dh K (cl_secret K b) (cl_public K (cl_secret K a)))"

datatype crypto_error = InvalidLength nat nat | DecryptionFailed | NonContributoryKey

definition TAG_SIZE :: nat where "TAG_SIZE = 16"
definition RECIPIENT_BUNDLE_SIZE :: nat where "RECIPIENT_BUNDLE_SIZE = 80"

definition ascii :: "string \<Rightarrow> bytes" where
  "ascii s = map (\<lambda>c. word_of_nat (of_char c)) s"

definition CHUNK_KEY_INFO :: bytes where "CHUNK_KEY_INFO = ascii ''snip-chunk-key-v1''"
definition CHUNK_NONCE_INFO :: bytes where "CHUNK_NONCE_INFO = ascii ''snip-chunk-nonce-v1''"
definition MANIFEST_KEY_INFO :: bytes where "MANIFEST_KEY_INFO = ascii ''snip-manifest-key-v1''"
definition RECIPIENT_KEK_INFO :: bytes where "RECIPIENT_KEK_INFO = ascii ''snip-recipient-kek-v1''"
definition X25519_DERIVATION_INFO :: bytes where "X25519_DERIVATION_INFO = ascii ''snip-x25519-encryption-key-v1''"
definition MANIFEST_AAD :: bytes where "MANIFEST_AAD = ascii ''snip-manifest-v1''"
definition ZERO_NONCE :: bytes where "ZERO_NONCE = replicate 12 0"
definition KEK_NONCE :: bytes where "KEK_NONCE = replicate 12 0"

definition hkdf_expand :: "crypto_lib \<Rightarrow> nat \<Rightarrow> bytes \<Rightarrow> bytes \<Rightarrow> bytes \<Rightarrow> bytes" where
  "hkdf_expand K out_len salt ikm info = cl_hkdf K out_len salt ikm info"

section \<open>Chunks and the manifest\<close>

definition encrypt_chunk :: "crypto_lib \<Rightarrow> bytes \<Rightarrow> u32 \<Rightarrow> bytes \<Rightarrow> bytes" where
  "encrypt_chunk K k_file chunk_index plaintext =
     (let salt = be_bytes32 chunk_index;
          key_bytes = hkdf_expand K 32 salt k_file CHUNK_KEY_INFO;
          nonce_bytes = hkdf_expand K 12 salt k_file CHUNK_NONCE_INFO in
      cl_seal K key_bytes nonce_bytes salt plaintext)"

definition decrypt_chunk :: "crypto_lib \<Rightarrow> bytes \<Rightarrow> u32 \<Rightarrow> bytes \<Rightarrow> crypto_error + bytes" where
  "decrypt_chunk K k_file chunk_index on_disk =
     (let salt = be_bytes32 chunk_index;
          key_bytes = hkdf_expand K 32 salt k_file CHUNK_KEY_INFO;
          nonce_bytes = hkdf_expand K 12 salt k_file CHUNK_NONCE_INFO in
      case cl_open K key_bytes nonce_bytes salt on_disk of None \<Rightarrow> Inl DecryptionFailed | Some pt \<Rightarrow> Inr pt)"

definition manifest_key :: "crypto_lib \<Rightarrow> bytes \<Rightarrow> bytes" where
  "manifest_key K k_file = hkdf_expand K 32 [] k_file MANIFEST_KEY_INFO"

definition encrypt_manifest :: "crypto_lib \<Rightarrow> bytes \<Rightarrow> bytes \<Rightarrow> bytes" where
  "encrypt_manifest K k_file manifest_bytes = cl_seal K (manifest_key K k_file) ZERO_NONCE MANIFEST_AAD manifest_bytes"

definition decrypt_manifest :: "crypto_lib \<Rightarrow> bytes \<Rightarrow> bytes \<Rightarrow> crypto_error + bytes" where
  "decrypt_manifest K k_file stored =
     (case cl_open K (manifest_key K k_file) ZERO_NONCE MANIFEST_AAD stored of
        None \<Rightarrow> Inl DecryptionFailed | Some pt \<Rightarrow> Inr pt)"

section \<open>Bundles\<close>

definition shared_is_contributory :: "bytes \<Rightarrow> bool" where
  "shared_is_contributory shared \<longleftrightarrow> shared \<noteq> replicate 32 0"

definition x25519_keypair_from_ed25519_seed :: "crypto_lib \<Rightarrow> bytes \<Rightarrow> bytes \<times> bytes" where
  "x25519_keypair_from_ed25519_seed K ed25519_seed =
     (let derived = hkdf_expand K 32 [] ed25519_seed X25519_DERIVATION_INFO;
          secret = cl_secret K derived in
      (secret, cl_public K secret))"

text \<open>\<open>eph_seed\<close> is what \<open>OsRng\<close> returned.\<close>

definition wrap_for_recipient :: "crypto_lib \<Rightarrow> bytes \<Rightarrow> bytes \<Rightarrow> addr20 \<Rightarrow> bytes \<Rightarrow> crypto_error + bytes" where
  "wrap_for_recipient K eph_seed k_file recipient_l1_address recipient_enc_pub =
     (let eph_secret = cl_secret K eph_seed;
          eph_pub = cl_public K eph_secret;
          shared = cl_dh K eph_secret recipient_enc_pub in
      if \<not> shared_is_contributory shared then Inl NonContributoryKey
      else
        (let kek = hkdf_expand K 32 [] shared RECIPIENT_KEK_INFO in
         Inr (eph_pub @ cl_seal K kek KEK_NONCE recipient_l1_address k_file)))"

definition unwrap_for_self :: "crypto_lib \<Rightarrow> bytes \<Rightarrow> bytes \<Rightarrow> addr20 \<Rightarrow> crypto_error + bytes" where
  "unwrap_for_self K bundle own_enc_priv own_l1_address =
     (let eph_pub = take 32 bundle;
          wrap_and_tag = take 48 (drop 32 bundle);
          own_secret = cl_secret K own_enc_priv;
          shared = cl_dh K own_secret eph_pub in
      if \<not> shared_is_contributory shared then Inl NonContributoryKey
      else
        (let kek = hkdf_expand K 32 [] shared RECIPIENT_KEK_INFO in
         case cl_open K kek KEK_NONCE own_l1_address wrap_and_tag of
           None \<Rightarrow> Inl DecryptionFailed
         | Some pt \<Rightarrow> if length pt \<noteq> 32 then Inl DecryptionFailed else Inr pt))"

section \<open>Laws\<close>

lemma crypto_okD:
  assumes "crypto_ok K"
  shows "cl_open K k n a c = Some m \<longleftrightarrow> c = cl_seal K k n a m"
    and "length (cl_seal K k n a m) = length m + 16"
    and "cl_secret K (cl_secret K b) = cl_secret K b"
    and "length (cl_public K b) = 32"
    and "cl_dh K (cl_secret K b) (cl_public K (cl_secret K d)) = cl_dh K (cl_secret K d) (cl_public K (cl_secret K b))"
  using assms unfolding crypto_ok_def by blast+

lemma be_bytes32_inject: "be_bytes32 a = be_bytes32 b \<longleftrightarrow> a = b"
proof
  assume eq: "be_bytes32 a = be_bytes32 b"
  have byte: "bit a (n + k) = bit b (n + k)"
    if "(ucast (drop_bit k a) :: byte) = ucast (drop_bit k b)" "n < 8" "n + k < 32" for n k
    using arg_cong[OF that(1), of "\<lambda>w. bit w n"] that(2,3) by (simp add: bit_simps add.commute)
  show "a = b"
  proof (rule bit_word_eqI)
    fix n assume "n < LENGTH(32)"
    then have "n < 32" by simp
    then consider "n < 8" | "8 \<le> n" "n < 16" | "16 \<le> n" "n < 24" | "24 \<le> n" "n < 32" by linarith
    then show "bit a n = bit b n"
      using eq byte[of 0 n] byte[of 8 "n - 8"] byte[of 16 "n - 16"] byte[of 24 "n - 24"]
      by cases (simp_all add: be_bytes32_def)
  qed
qed simp

lemma decrypt_chunk_iff:
  assumes "crypto_ok K"
  shows "decrypt_chunk K k i c = Inr pt \<longleftrightarrow> c = encrypt_chunk K k i pt"
  unfolding decrypt_chunk_def encrypt_chunk_def Let_def crypto_okD(1)[OF assms, symmetric]
  by (simp split: option.splits)

lemma length_encrypt_chunk [simp]: "crypto_ok K \<Longrightarrow> length (encrypt_chunk K k i pt) = length pt + TAG_SIZE"
  by (simp add: encrypt_chunk_def Let_def crypto_okD(2) TAG_SIZE_def)

lemma decrypt_manifest_iff:
  assumes "crypto_ok K"
  shows "decrypt_manifest K k c = Inr pt \<longleftrightarrow> c = encrypt_manifest K k pt"
  unfolding decrypt_manifest_def encrypt_manifest_def crypto_okD(1)[OF assms, symmetric]
  by (simp split: option.splits)

text \<open>
  What an authorised reader decrypts. A chunk decrypts to a plaintext exactly when the stored bytes are the
  encryption of that plaintext under the same key at the same position, so what decrypts is what was encrypted and nothing
  else decrypts; the same holds of the manifest; a stored chunk is 16 bytes longer than its plaintext.
\<close>

theorem content_decrypts_exactly:
  assumes "crypto_ok K"
  shows "(decrypt_chunk K k i c = Inr pt \<longleftrightarrow> c = encrypt_chunk K k i pt)
    \<and> (decrypt_manifest K k s = Inr m \<longleftrightarrow> s = encrypt_manifest K k m)
    \<and> length (encrypt_chunk K k i pt) = length pt + TAG_SIZE"
  using assms by (simp add: decrypt_chunk_iff decrypt_manifest_iff)

lemma wrap_unwrap:
  assumes ok: "crypto_ok K" and w: "wrap_for_recipient K eph k addr (cl_public K (cl_secret K s)) = Inr bundle" and k: "length k = 32"
  shows "unwrap_for_self K bundle (cl_secret K s) addr = Inr k" and "length bundle = RECIPIENT_BUNDLE_SIZE"
proof -
  let ?sh = "cl_dh K (cl_secret K eph) (cl_public K (cl_secret K s))"
  let ?ct = "cl_seal K (hkdf_expand K 32 [] ?sh RECIPIENT_KEK_INFO) KEK_NONCE addr k"
  have c: "shared_is_contributory ?sh" and b: "bundle = cl_public K (cl_secret K eph) @ ?ct"
    using w by (auto simp: wrap_for_recipient_def Let_def split: if_splits)
  have lens: "length (cl_public K (cl_secret K eph)) = 32" "length ?ct = 48" using crypto_okD[OF ok] k by simp_all
  then show "length bundle = RECIPIENT_BUNDLE_SIZE" by (simp add: b RECIPIENT_BUNDLE_SIZE_def)
  have sh: "cl_dh K (cl_secret K (cl_secret K s)) (cl_public K (cl_secret K eph)) = ?sh"
    unfolding crypto_okD(3)[OF ok] by (rule crypto_okD(5)[OF ok])
  have parts: "take 32 bundle = cl_public K (cl_secret K eph)" "take 48 (drop 32 bundle) = ?ct" using lens by (simp_all add: b)
  have opn: "cl_open K (hkdf_expand K 32 [] ?sh RECIPIENT_KEK_INFO) KEK_NONCE addr ?ct = Some k"
    using crypto_okD(1)[OF ok] by blast
  show "unwrap_for_self K bundle (cl_secret K s) addr = Inr k"
    unfolding unwrap_for_self_def Let_def parts sh using c k opn by simp
qed

text \<open>The key-encryption key a secret and a public key agree on.\<close>

definition kek_of :: "crypto_lib \<Rightarrow> bytes \<Rightarrow> bytes \<Rightarrow> bytes" where
  "kek_of K secret pub = hkdf_expand K 32 [] (cl_dh K (cl_secret K secret) pub) RECIPIENT_KEK_INFO"

lemma unwrap_is_sealed:
  assumes "crypto_ok K" and "unwrap_for_self K bundle secret addr = Inr k"
  shows "take 48 (drop 32 bundle) = cl_seal K (kek_of K secret (take 32 bundle)) KEK_NONCE addr k"
  using assms(2) crypto_okD(1)[OF assms(1)]
  by (auto simp: unwrap_for_self_def kek_of_def Let_def split: if_splits option.splits)

lemma wrap_is_sealed:
  assumes "crypto_ok K" and "length k = 32" and "wrap_for_recipient K eph k addr pub = Inr bundle"
  shows "take 48 (drop 32 bundle) = cl_seal K (kek_of K eph pub) KEK_NONCE addr k" and "take 32 bundle = cl_public K (cl_secret K eph)"
proof -
  have b: "bundle = cl_public K (cl_secret K eph) @ cl_seal K (kek_of K eph pub) KEK_NONCE addr k"
    using assms(3) by (auto simp: wrap_for_recipient_def kek_of_def Let_def split: if_splits)
  moreover have "length (cl_public K (cl_secret K eph)) = 32" "length (cl_seal K (kek_of K eph pub) KEK_NONCE addr k) = 48"
    using crypto_okD[OF assms(1)] assms(2) by simp_all
  ultimately show "take 48 (drop 32 bundle) = cl_seal K (kek_of K eph pub) KEK_NONCE addr k"
    "take 32 bundle = cl_public K (cl_secret K eph)" by simp_all
qed

text \<open>
  C30. Key recovery and its binding. A bundle wrapped for the encryption key an account derives from its signing
  seed and for its address has 80 bytes and unwraps, with that seed and that address, to the wrapped file key.
  Whatever secret and address unwrap it otherwise, they give that same key, or they exhibit a forgery of the AEAD:
  one ciphertext that is the seal of two messages under two different pairs of key and associated address.
\<close>

theorem bundle_roundtrip:
  assumes "crypto_ok K" and "length k = 32"
    and "wrap_for_recipient K eph k addr (snd (x25519_keypair_from_ed25519_seed K seed)) = Inr bundle"
  shows "unwrap_for_self K bundle (fst (x25519_keypair_from_ed25519_seed K seed)) addr = Inr k \<and> length bundle = RECIPIENT_BUNDLE_SIZE
    \<and> (\<forall>secret addr' k'. unwrap_for_self K bundle secret addr' = Inr k' \<longrightarrow>
         (let kek = kek_of K eph (snd (x25519_keypair_from_ed25519_seed K seed));
              kek' = kek_of K secret (cl_public K (cl_secret K eph)) in
          kek' = kek \<and> addr' = addr \<and> k' = k
          \<or> (kek', addr') \<noteq> (kek, addr) \<and> cl_seal K kek' KEK_NONCE addr' k' = cl_seal K kek KEK_NONCE addr k))"
proof -
  let ?pub = "snd (x25519_keypair_from_ed25519_seed K seed)"
  note w = wrap_is_sealed[OF assms]
  have "kek_of K secret (cl_public K (cl_secret K eph)) = kek_of K eph ?pub \<and> addr' = addr \<and> k' = k
      \<or> (kek_of K secret (cl_public K (cl_secret K eph)), addr') \<noteq> (kek_of K eph ?pub, addr)
        \<and> cl_seal K (kek_of K secret (cl_public K (cl_secret K eph))) KEK_NONCE addr' k' = cl_seal K (kek_of K eph ?pub) KEK_NONCE addr k"
    if u: "unwrap_for_self K bundle secret addr' = Inr k'" for secret addr' k'
  proof -
    have e: "cl_seal K (kek_of K secret (cl_public K (cl_secret K eph))) KEK_NONCE addr' k' = cl_seal K (kek_of K eph ?pub) KEK_NONCE addr k"
      using unwrap_is_sealed[OF assms(1) u] w by simp
    have "k' = k" if "kek_of K secret (cl_public K (cl_secret K eph)) = kek_of K eph ?pub" "addr' = addr"
      using e that crypto_okD(1)[OF assms(1)] by (metis option.inject)
    then show ?thesis using e by auto
  qed
  then show ?thesis
    using wrap_unwrap[OF assms(1) _ assms(2)] assms(3) by (simp add: x25519_keypair_from_ed25519_seed_def Let_def)
qed

text \<open>
  Key separation. Every key of the scheme is an HKDF output; two derivations from one file key take the same
  salt and info only when they are for the same purpose and, for chunks, the same chunk; the domain strings are distinct.
\<close>

theorem kdf_domains_separated:
  "distinct [CHUNK_KEY_INFO, CHUNK_NONCE_INFO, MANIFEST_KEY_INFO, RECIPIENT_KEK_INFO, X25519_DERIVATION_INFO]
   \<and> ((be_bytes32 i, CHUNK_KEY_INFO) = (be_bytes32 j, CHUNK_KEY_INFO) \<longleftrightarrow> i = j)
   \<and> (be_bytes32 i, CHUNK_KEY_INFO) \<noteq> (be_bytes32 j, CHUNK_NONCE_INFO) \<and> (be_bytes32 i, CHUNK_KEY_INFO) \<noteq> ([], MANIFEST_KEY_INFO)"
proof -
  have "distinct [CHUNK_KEY_INFO, CHUNK_NONCE_INFO, MANIFEST_KEY_INFO, RECIPIENT_KEK_INFO, X25519_DERIVATION_INFO]"
    by code_simp
  then show ?thesis by (simp add: be_bytes32_inject)
qed

section \<open>An instance\<close>

text \<open>A library that satisfies the laws: sealing appends eight bytes of the associated data and eight of the key.\<close>

definition demo_crypto :: crypto_lib where
  "demo_crypto = \<lparr>cl_hkdf = (\<lambda>l s i f. take l (s @ i @ f @ replicate l 0)),
     cl_seal = (\<lambda>k n a m. m @ take 8 (a @ replicate 8 0) @ take 8 (k @ replicate 8 0)),
     cl_open = (\<lambda>k n a c. if drop (length c - 16) c = take 8 (a @ replicate 8 0) @ take 8 (k @ replicate 8 0) \<and> 16 \<le> length c
                          then Some (take (length c - 16) c) else None),
     cl_secret = (\<lambda>b. b), cl_public = (\<lambda>b. take 32 (b @ replicate 32 0)),
     cl_dh = (\<lambda>a b. replicate 32 1)\<rparr>"

lemma demo_crypto_ok: "crypto_ok demo_crypto"
proof -
  have o: "(drop (length c - 16) c = t \<and> 16 \<le> length c \<and> take (length c - 16) c = m) \<longleftrightarrow> c = m @ t"
    if "length t = 16" for c t m :: bytes
  proof
    assume "drop (length c - 16) c = t \<and> 16 \<le> length c \<and> take (length c - 16) c = m"
    then show "c = m @ t" using append_take_drop_id[of "length c - 16" c] by simp
  next
    assume "c = m @ t"
    then show "drop (length c - 16) c = t \<and> 16 \<le> length c \<and> take (length c - 16) c = m" using that by simp
  qed
  show ?thesis unfolding crypto_ok_def
  proof (intro conjI allI)
    fix k n a c m
    show "cl_open demo_crypto k n a c = Some m \<longleftrightarrow> c = cl_seal demo_crypto k n a m"
    proof -
      have "length (take 8 (a @ replicate 8 0) @ take 8 (k @ replicate 8 0)) = 16" by simp
      from o[OF this, of c m] show ?thesis by (auto simp: demo_crypto_def simp del: take_append)
    qed
  qed (simp_all add: demo_crypto_def)
qed

theorem content_decrypts_exactly_witness:
  "decrypt_chunk demo_crypto [7] 0 (encrypt_chunk demo_crypto [7] 0 [1, 2]) = Inr [1, 2]"
  using content_decrypts_exactly[OF demo_crypto_ok, of "[7]" 0 "encrypt_chunk demo_crypto [7] 0 [1, 2]" "[1, 2]"] by blast

theorem bundle_roundtrip_witness:
  "\<exists>bundle. wrap_for_recipient demo_crypto [1] (replicate 32 9) [5] (snd (x25519_keypair_from_ed25519_seed demo_crypto [2])) = Inr bundle
     \<and> unwrap_for_self demo_crypto bundle (fst (x25519_keypair_from_ed25519_seed demo_crypto [2])) [5] = Inr (replicate 32 9)
     \<and> (\<forall>k'. unwrap_for_self demo_crypto bundle (fst (x25519_keypair_from_ed25519_seed demo_crypto [2])) [6] \<noteq> Inr k')"
proof -
  obtain bd where b: "wrap_for_recipient demo_crypto [1] (replicate 32 9) [5] (snd (x25519_keypair_from_ed25519_seed demo_crypto [2])) = Inr bd"
    by (simp add: wrap_for_recipient_def Let_def demo_crypto_def shared_is_contributory_def)
  note r = bundle_roundtrip[OF demo_crypto_ok length_replicate b]
  have ne: "cl_seal demo_crypto kek' KEK_NONCE [6] k' \<noteq> cl_seal demo_crypto kek KEK_NONCE [5] (replicate 32 9)" for kek kek' k'
  proof
    assume "cl_seal demo_crypto kek' KEK_NONCE [6] k' = cl_seal demo_crypto kek KEK_NONCE [5] (replicate 32 9)"
    then have "k' @ take 8 ([6] @ replicate 8 0) @ take 8 (kek' @ replicate 8 0)
        = replicate 32 9 @ take 8 ([5] @ replicate 8 0) @ take 8 (kek @ replicate 8 0)" by (simp add: demo_crypto_def)
    moreover from this have "length k' = length (replicate 32 (9 :: byte))"
      by (auto dest: arg_cong[where f = length])
    ultimately show False by simp
  qed
  have six: "unwrap_for_self demo_crypto bd (fst (x25519_keypair_from_ed25519_seed demo_crypto [2])) [6] \<noteq> Inr k'" for k'
  proof
    assume u: "unwrap_for_self demo_crypto bd (fst (x25519_keypair_from_ed25519_seed demo_crypto [2])) [6] = Inr k'"
    have "[6 :: byte] \<noteq> [5]" by simp
    then show False using r u ne unfolding Let_def by blast
  qed
  show ?thesis using r six b by auto
qed

end
