(* ===== verification/Access_Ops.thy ===== *)
theory Access_Ops
  imports Acl Chain_Client Content_Crypto
begin

text \<open>
  The owner's changes to the access list of a Private file (\<open>sum-node/src/access.rs\<close>): sharing with a
  recipient, revoking and changing an expiry, and the recovery of the file key from the owner's own
  bundle. Libraries are the fields of \<open>access_libs\<close>; log lines are left out.
\<close>

section \<open>Data\<close>

record access_libs =
  xl_digest :: digest_lib
  xl_sign :: sign_lib
  xl_crypto :: crypto_lib
  xl_bs58_encode :: "bytes \<Rightarrow> string"
  xl_bs58_decode :: "string \<Rightarrow> string + bytes"
  xl_hex_decode :: "string \<Rightarrow> string + bytes"
  xl_rng :: "nat \<Rightarrow> bytes"  \<comment> \<open>\<open>OsRng\<close>, by the number of calls made before\<close>

definition ACCESS_PAGE_SIZE :: u32 where "ACCESS_PAGE_SIZE = 256"
definition ACCESS_MAX_PAGES :: nat where "ACCESS_MAX_PAGES = 64"
definition FINALITY_TIMEOUT :: nat where "FINALITY_TIMEOUT = 120 * 10 ^ 9"

datatype access_op_error =
    NotV2Private byte byte
  | NotActive byte
  | NotV2 string
  | NotOwner string string
  | AlreadyInAccessList string
  | NotInAccessList string
  | OwnerSelfRevoke string
  | RecipientHasNoEncryptionKey string
  | OwnerEntryMissing string
  | OwnerBundleMissing
  | BundleHex string
  | BundleUnwrap crypto_error
  | BundleWrap crypto_error
  | UpdateRequiresExpiryDirective
  | UpdateNoOp "u64 option"
  | V2NotEnabled string
  | AccessRpc string
  | TxSubmit string
  | TxWait tx_wait_error

datatype expiry_directive = Unset | Clear | SetTo u64

record recipient_spec =
  rs_addr :: addr20
  rs_addr_b58 :: string
  rs_expiry :: expiry_directive

definition to_chain_value :: "expiry_directive \<Rightarrow> u64 option" where
  "to_chain_value e = (case e of Unset \<Rightarrow> None | Clear \<Rightarrow> None | SetTo h \<Rightarrow> Some h)"

text \<open>\<open>u64::parse\<close>, which accepts one leading plus sign, and \<open>str::split_once(':')\<close>.\<close>

definition parse_u64 :: "string \<Rightarrow> u64 option" where
  "parse_u64 s =
     (let d = (case s of c # r \<Rightarrow> if c = CHR ''+'' then r else s | [] \<Rightarrow> s) in
      if d \<noteq> [] \<and> list_all is_ascii_digit d \<and> nat_of_dec d < 2 ^ 64 then Some (word_of_nat (nat_of_dec d)) else None)"

definition split_colon :: "string \<Rightarrow> string \<times> string option" where
  "split_colon s =
     (case dropWhile (\<lambda>c. c \<noteq> CHR '':'') s of
        [] \<Rightarrow> (s, None)
      | _ # rest \<Rightarrow> (takeWhile (\<lambda>c. c \<noteq> CHR '':'') s, Some rest))"

definition parse_expiry :: "string option \<Rightarrow> access_op_error + expiry_directive" where
  "parse_expiry seg =
     (case seg of
        None \<Rightarrow> Inr Unset
      | Some rest \<Rightarrow>
          if rest = ''none'' \<or> rest = ''None'' \<or> rest = ''NONE'' then Inr Clear
          else
            (case parse_u64 rest of
               None \<Rightarrow> Inl (BundleHex (''expiry segment '' @ rest @ '' is neither `none` nor a u64 block height''))
             | Some h \<Rightarrow> Inr (SetTo h)))"

definition parse_recipient_spec :: "access_libs \<Rightarrow> string \<Rightarrow> access_op_error + recipient_spec" where
  "parse_recipient_spec X s =
     (case split_colon s of (addr_str, seg) \<Rightarrow>
      (case parse_expiry seg of
         Inl e \<Rightarrow> Inl e
       | Inr expiry \<Rightarrow>
           if addr_str = [] then Inl (BundleHex ''empty L1 address'')
           else
             (case l1_address_from_base58 (xl_digest X) (xl_bs58_decode X) addr_str of
                Inl e \<Rightarrow> Inl (BundleHex (''bad base58: '' @ e))
              | Inr addr \<Rightarrow>
                  Inr \<lparr>rs_addr = addr, rs_addr_b58 = l1_address_base58 (xl_digest X) (xl_bs58_encode X) addr,
                       rs_expiry = expiry\<rparr>)))"

definition l1_address_from_keypair :: "digest_lib \<Rightarrow> bytes \<Rightarrow> addr20" where  \<comment> \<open>the public key of the pair\<close>
  "l1_address_from_keypair L pubkey = take 20 (drop 12 (blake3 L pubkey))"

section \<open>Checks\<close>

definition require_v2_enabled :: "chain_rpc \<Rightarrow> ('z chain_world_scheme, access_op_error, unit) act" where
  "require_v2_enabled R =
     bind_act (map_err V2NotEnabled (call (cr_chain_params R))) (\<lambda>cp.
     bind_act (map_err V2NotEnabled (call (cr_block_height R))) (\<lambda>height.
       case cpi_v2_enabled_from_height cp of
         None \<Rightarrow> fail (V2NotEnabled ''chain v2_enabled_from_height = null'')
       | Some h \<Rightarrow>
           if height < h then
             fail (V2NotEnabled (''finalized height '' @ dec_of_nat (unat height) @ '' < v2_enabled_from_height ''
                    @ dec_of_nat (unat h) @ '' ('' @ dec_of_nat (unat (h - height)) @ '' blocks remaining)''))
           else ret ()))"

definition require_private_v2_owner ::
    "chain_rpc \<Rightarrow> string \<Rightarrow> string \<Rightarrow> ('z chain_world_scheme, access_op_error, storage_file_info_v2) act" where
  "require_private_v2_owner R root_hex operator_b58 =
     bind_act (map_err AccessRpc (call (\<lambda>n. cr_file_info R n root_hex (Some 0) (Some ACCESS_PAGE_SIZE)))) (\<lambda>row.
       case row of
         None \<Rightarrow> fail (NotV2 (''storage_getFileInfoV2 returned no row for '' @ root_hex @ '' (not registered as V2)''))
       | Some info \<Rightarrow>
           if \<not> is_private (fi_visibility info) then fail (NotV2Private (fi_visibility info) (fi_lifecycle info))
           else if \<not> is_active_file (fi_lifecycle info) then fail (NotActive (fi_lifecycle info))
           else if fi_owner info \<noteq> operator_b58 then fail (NotOwner operator_b58 (fi_owner info))
           else ret info)"

definition entry_for :: "string \<Rightarrow> storage_file_info_v2 \<Rightarrow> access_entry_v2 option" where
  "entry_for target_b58 info = find (\<lambda>e. ae_address e = target_b58) (fi_access_list info)"

fun scan_pages ::
    "chain_rpc \<Rightarrow> string \<Rightarrow> string \<Rightarrow> nat list \<Rightarrow> ('z chain_world_scheme, access_op_error, access_entry_v2 option) act" where
  "scan_pages R root_hex target_b58 [] = ret None"
| "scan_pages R root_hex target_b58 (page_idx # rest) =
     bind_act (map_err AccessRpc
       (call (\<lambda>n. cr_file_info R n root_hex (Some (u32_of page_idx * ACCESS_PAGE_SIZE)) (Some ACCESS_PAGE_SIZE)))) (\<lambda>row.
         case row of
           None \<Rightarrow> ret None
         | Some page \<Rightarrow>
             (case entry_for target_b58 page of
                Some e \<Rightarrow> ret (Some e)
              | None \<Rightarrow>
                  if length (fi_access_list page) < unat ACCESS_PAGE_SIZE then ret None
                  else scan_pages R root_hex target_b58 rest))"

definition find_access_entry ::
    "chain_rpc \<Rightarrow> string \<Rightarrow> string \<Rightarrow> storage_file_info_v2 \<Rightarrow> ('z chain_world_scheme, access_op_error, access_entry_v2 option) act" where
  "find_access_entry R root_hex target_b58 seed_page =
     (case entry_for target_b58 seed_page of
        Some e \<Rightarrow> ret (Some e)
      | None \<Rightarrow>
          if length (fi_access_list seed_page) < unat ACCESS_PAGE_SIZE then ret None
          else scan_pages R root_hex target_b58 [1..<ACCESS_MAX_PAGES])"

definition parse_bundle_hex :: "access_libs \<Rightarrow> string \<Rightarrow> access_op_error + bytes" where
  "parse_bundle_hex X s =
     (case xl_hex_decode X (case strip_prefix ''0x'' s of Some t \<Rightarrow> t | None \<Rightarrow> s) of
        Inl e \<Rightarrow> Inl (BundleHex (''not valid hex: '' @ e))
      | Inr b \<Rightarrow>
          if length b \<noteq> RECIPIENT_BUNDLE_SIZE then
            Inl (BundleHex (''expected '' @ dec_of_nat RECIPIENT_BUNDLE_SIZE @ '' bytes, got '' @ dec_of_nat (length b)))
          else Inr b)"

definition unwrap_owner_entry :: "access_libs \<Rightarrow> bytes \<Rightarrow> addr20 \<Rightarrow> access_entry_v2 \<Rightarrow> access_op_error + bytes" where
  "unwrap_owner_entry X seed owner_addr entry =
     (case ae_encrypted_key_bundle entry of
        None \<Rightarrow> Inl OwnerBundleMissing
      | Some bundle_hex \<Rightarrow>
         (case parse_bundle_hex X bundle_hex of
            Inl e \<Rightarrow> Inl e
          | Inr bundle \<Rightarrow>
              map_sum BundleUnwrap id
                (unwrap_for_self (xl_crypto X) bundle (fst (x25519_keypair_from_ed25519_seed (xl_crypto X) seed)) owner_addr)))"

definition recover_k_file_from_owner_bundle ::
    "access_libs \<Rightarrow> chain_rpc \<Rightarrow> bytes \<Rightarrow> addr20 \<Rightarrow> string \<Rightarrow> storage_file_info_v2 \<Rightarrow> string
       \<Rightarrow> ('z chain_world_scheme, access_op_error, bytes) act" where
  "recover_k_file_from_owner_bundle X R seed owner_addr owner_b58 seed_page root_hex =
     bind_act (find_access_entry R root_hex owner_b58 seed_page) (\<lambda>row.
       case row of
         None \<Rightarrow> fail (OwnerEntryMissing owner_b58)
       | Some entry \<Rightarrow> lift (unwrap_owner_entry X seed owner_addr entry))"

definition recover_k_file_from_seed_page ::
    "access_libs \<Rightarrow> bytes \<Rightarrow> addr20 \<Rightarrow> string \<Rightarrow> storage_file_info_v2 \<Rightarrow> access_op_error + bytes" where
  "recover_k_file_from_seed_page X seed owner_addr owner_b58 seed_page =
     (case entry_for owner_b58 seed_page of
        None \<Rightarrow> Inl (OwnerEntryMissing owner_b58)
      | Some entry \<Rightarrow> unwrap_owner_entry X seed owner_addr entry)"

section \<open>Operations\<close>

definition submit_and_wait ::
    "chain_rpc \<Rightarrow> string \<Rightarrow> (u64 \<Rightarrow> string + string) \<Rightarrow> ('z chain_world_scheme, access_op_error, string) act" where
  "submit_and_wait R operator_b58 build_tx =
     bind_act (map_err AccessRpc (call (\<lambda>n. cr_nonce R n operator_b58))) (\<lambda>nonce.
     bind_act (map_err TxSubmit (lift (build_tx nonce))) (\<lambda>tx_hex.
     bind_act (map_err TxSubmit (send_raw_transaction R tx_hex)) (\<lambda>tx_hash.
     bind_act (map_err TxWait (await_finality R tx_hash DEFAULT_POLL_INTERVAL FINALITY_TIMEOUT)) (\<lambda>height.
       ret tx_hash))))"

definition wrap_bundle :: "access_libs \<Rightarrow> bytes \<Rightarrow> addr20 \<Rightarrow> bytes \<Rightarrow> ('z chain_world_scheme, access_op_error, bytes) act" where
  "wrap_bundle X k_file addr pk =
     bind_act (gets cw_calls) (\<lambda>n. lift (map_sum BundleWrap id (wrap_for_recipient (xl_crypto X) (xl_rng X n) k_file addr pk)))"

text \<open>The commands log the transaction hash and return nothing.\<close>

definition finish :: "('w, 'e, 'a) act \<Rightarrow> ('w, 'e, unit) act" where
  "finish m = bind_act m (\<lambda>_. ret ())"

definition run_share ::
    "access_libs \<Rightarrow> chain_rpc \<Rightarrow> bytes \<Rightarrow> bytes \<Rightarrow> u64 \<Rightarrow> u128 \<Rightarrow> hash \<Rightarrow> recipient_spec
       \<Rightarrow> ('z chain_world_scheme, access_op_error, unit) act" where
  "run_share X R pubkey seed chain_id fee rt recipient =
     (let operator_addr = l1_address_from_keypair (xl_digest X) pubkey;
          operator_b58 = l1_address_base58 (xl_digest X) (xl_bs58_encode X) operator_addr;
          root_hex = ''0x'' @ hex_encode rt in
      bind_act (require_v2_enabled R) (\<lambda>_.
      bind_act (require_private_v2_owner R root_hex operator_b58) (\<lambda>info.
      bind_act (find_access_entry R root_hex (rs_addr_b58 recipient) info) (\<lambda>existing.
      bind_act (require (existing = None) (AlreadyInAccessList (rs_addr_b58 recipient))) (\<lambda>_.
      bind_act (map_err AccessRpc (call (\<lambda>n. cr_encryption_key R n (rs_addr_b58 recipient)))) (\<lambda>key.
        case key of
          None \<Rightarrow> fail (RecipientHasNoEncryptionKey (rs_addr_b58 recipient))
        | Some recipient_pk \<Rightarrow>
            bind_act (recover_k_file_from_owner_bundle X R seed operator_addr operator_b58 info root_hex) (\<lambda>k_file.
            bind_act (wrap_bundle X k_file (rs_addr recipient) recipient_pk) (\<lambda>bundle.
              finish (submit_and_wait R operator_b58 (\<lambda>nonce.
                build_add_access_v2_tx (xl_sign X) seed chain_id nonce fee rt
                  \<lparr>am_address = rs_addr recipient, am_encrypted_key_bundle = Some bundle,
                   am_expires_at = to_chain_value (rs_expiry recipient)\<rparr>))))))))))"

definition run_revoke ::
    "access_libs \<Rightarrow> chain_rpc \<Rightarrow> bytes \<Rightarrow> bytes \<Rightarrow> u64 \<Rightarrow> u128 \<Rightarrow> hash \<Rightarrow> recipient_spec
       \<Rightarrow> ('z chain_world_scheme, access_op_error, unit) act" where
  "run_revoke X R pubkey seed chain_id fee rt target =
     (let operator_addr = l1_address_from_keypair (xl_digest X) pubkey;
          operator_b58 = l1_address_base58 (xl_digest X) (xl_bs58_encode X) operator_addr;
          root_hex = ''0x'' @ hex_encode rt in
      bind_act (require_v2_enabled R) (\<lambda>_.
      bind_act (require_private_v2_owner R root_hex operator_b58) (\<lambda>info.
      bind_act (require (rs_addr target \<noteq> operator_addr) (OwnerSelfRevoke (rs_addr_b58 target))) (\<lambda>_.
      bind_act (find_access_entry R root_hex (rs_addr_b58 target) info) (\<lambda>existing.
      bind_act (require (existing \<noteq> None) (NotInAccessList (rs_addr_b58 target))) (\<lambda>_.
        finish (submit_and_wait R operator_b58 (\<lambda>nonce.
          build_remove_access_v2_tx (xl_sign X) seed chain_id nonce fee rt (rs_addr target)))))))))"

definition run_update_access ::
    "access_libs \<Rightarrow> chain_rpc \<Rightarrow> bytes \<Rightarrow> bytes \<Rightarrow> u64 \<Rightarrow> u128 \<Rightarrow> hash \<Rightarrow> recipient_spec
       \<Rightarrow> ('z chain_world_scheme, access_op_error, unit) act" where
  "run_update_access X R pubkey seed chain_id fee rt target =
     (let operator_addr = l1_address_from_keypair (xl_digest X) pubkey;
          operator_b58 = l1_address_base58 (xl_digest X) (xl_bs58_encode X) operator_addr;
          root_hex = ''0x'' @ hex_encode rt;
          new_expires_at = to_chain_value (rs_expiry target) in
      if rs_expiry target = Unset then fail UpdateRequiresExpiryDirective
      else
        bind_act (require_v2_enabled R) (\<lambda>_.
        bind_act (require_private_v2_owner R root_hex operator_b58) (\<lambda>info.
        bind_act (find_access_entry R root_hex (rs_addr_b58 target) info) (\<lambda>found.
          case found of
            None \<Rightarrow> fail (NotInAccessList (rs_addr_b58 target))
          | Some existing \<Rightarrow>
              if ae_expires_at existing = new_expires_at then fail (UpdateNoOp new_expires_at)
              else
                (case ae_encrypted_key_bundle existing of
                   None \<Rightarrow> fail OwnerBundleMissing
                 | Some bundle_hex \<Rightarrow>
                     bind_act (lift (parse_bundle_hex X bundle_hex)) (\<lambda>existing_bundle.
                       finish (submit_and_wait R operator_b58 (\<lambda>nonce.
                         build_update_access_v2_tx (xl_sign X) seed chain_id nonce fee rt (rs_addr target)
                           \<lparr>am_address = rs_addr target, am_encrypted_key_bundle = Some existing_bundle,
                            am_expires_at = new_expires_at\<rparr>))))))))"

section \<open>What the operations send\<close>

definition vetted :: "chain_rpc \<Rightarrow> string \<Rightarrow> string \<Rightarrow> storage_file_info_v2 \<Rightarrow> bool" where
  "vetted R root_hex operator_b58 info \<longleftrightarrow>
     (\<exists>n. cr_file_info R n root_hex (Some 0) (Some ACCESS_PAGE_SIZE) = Inr (Some info))
     \<and> is_private (fi_visibility info) \<and> is_active_file (fi_lifecycle info) \<and> fi_owner info = operator_b58"

text \<open>An entry the chain listed for an address.\<close>

definition listed :: "chain_rpc \<Rightarrow> string \<Rightarrow> string \<Rightarrow> access_entry_v2 \<Rightarrow> bool" where
  "listed R root_hex target_b58 e \<longleftrightarrow> ae_address e = target_b58
     \<and> (\<exists>n off info. cr_file_info R n root_hex off (Some ACCESS_PAGE_SIZE) = Inr (Some info) \<and> e \<in> set (fi_access_list info))"

lemma quiet_v2_enabled [act_quiet]: "quiet (require_v2_enabled R)"
  unfolding require_v2_enabled_def
  by (intro act_quiet, auto intro: act_quiet split: option.splits)

lemma quiet_owner [act_quiet]: "quiet (require_private_v2_owner R h b)"
  unfolding require_private_v2_owner_def
  by (intro act_quiet, auto intro: act_quiet split: option.splits)

lemma quiet_scan [act_quiet]: "quiet (scan_pages R h t ps)"
  by (induction ps) (auto intro!: act_quiet split: option.splits)

lemma quiet_find [act_quiet]: "quiet (find_access_entry R h t info)"
  unfolding find_access_entry_def by (auto intro!: act_quiet split: option.splits)

lemma quiet_recover [act_quiet]: "quiet (recover_k_file_from_owner_bundle X R seed a b info h)"
  unfolding recover_k_file_from_owner_bundle_def
  by (intro act_quiet, auto intro: act_quiet split: option.splits)

lemma quiet_wrap [act_quiet]: "quiet (wrap_bundle X k a pk)"
  unfolding wrap_bundle_def by (intro act_quiet)

lemma yields_owner: "yields (require_private_v2_owner R h b) info \<Longrightarrow> vetted R h b info"
  unfolding require_private_v2_owner_def
  apply (erule yields_bindE)
  subgoal for row by (cases row) (auto simp: yields_simple vetted_def split: if_split_asm)
  done

lemma entry_for_Some: "entry_for t info = Some e \<Longrightarrow> ae_address e = t \<and> e \<in> set (fi_access_list info)"
  by (auto simp: entry_for_def find_Some_iff)

lemma yields_scan: "yields (scan_pages R h t ps) (Some e) \<Longrightarrow> listed R h t e"
proof (induction ps)
  case (Cons p ps)
  show ?case
    using Cons.prems unfolding scan_pages.simps
    apply (rule yields_bindE)
    subgoal premises prems for row
    proof -
      have l: "entry_for t page = Some e \<Longrightarrow> row = Some page \<Longrightarrow> listed R h t e" for page
        using prems(1) entry_for_Some[of t page e] by (auto simp: yields_simple listed_def)
      show ?thesis using prems(2) l Cons.IH
        by (cases row; cases "entry_for t (the row)") (auto simp: yields_simple split: if_split_asm)
    qed
    done
qed (simp add: yields_simple)

lemma yields_find:
  assumes "vetted R h b info" and "yields (find_access_entry R h t info) (Some e)"
  shows "listed R h t e"
  using assms yields_scan[of R h t "[1..<ACCESS_MAX_PAGES]" e]
  by (auto simp: find_access_entry_def yields_simple vetted_def listed_def split: option.splits if_splits dest: entry_for_Some)

lemma yields_wrap: "yields (wrap_bundle X k a pk) bundle \<Longrightarrow> \<exists>eph. wrap_for_recipient (xl_crypto X) eph k a pk = Inr bundle"
proof -
  assume "yields (wrap_bundle X k a pk) bundle"
  then obtain n where "map_sum BundleWrap id (wrap_for_recipient (xl_crypto X) (xl_rng X n) k a pk) = Inr bundle"
    unfolding wrap_bundle_def by (auto dest!: yields_bind simp: yields_simple)
  then show ?thesis by (cases "wrap_for_recipient (xl_crypto X) (xl_rng X n) k a pk") auto
qed

lemma yields_recover:
  assumes "vetted R h b info" and "yields (recover_k_file_from_owner_bundle X R seed a b info h) k"
  shows "\<exists>e. listed R h b e \<and> unwrap_owner_entry X seed a e = Inr k"
  using yields_bind[OF assms(2)[unfolded recover_k_file_from_owner_bundle_def]] yields_find[OF assms(1)]
  by (auto simp: yields_simple split: option.splits)

lemma unwrap_owner_entry_length: "unwrap_owner_entry X seed a e = Inr k \<Longrightarrow> length k = 32"
  by (auto simp: unwrap_owner_entry_def unwrap_for_self_def Let_def map_sum_def split: option.splits sum.splits if_splits)

lemma sends_submit:
  assumes "\<And>nonce txt. mk nonce = Inr txt \<Longrightarrow> T txt"
  shows "sends_only (finish (submit_and_wait R b mk)) T"
proof -
  have "sends_only (submit_and_wait R b mk) T"
    unfolding submit_and_wait_def
    apply (rule sends_bind_quiet, intro act_quiet)
    apply (rule sends_bind_quiet, intro act_quiet)
    subgoal for nonce tx_hex
      by (intro sends_then_quiet sends_map_err sends_raw act_quiet) (auto simp: yields_simple intro: assms)
    done
  then show ?thesis unfolding finish_def by (intro sends_then_quiet act_quiet)
qed

text \<open>
  C14. Sharing hands over the file key and nothing else. A share either fails and sends nothing, or sends exactly one
  transaction. It is sent only when the chain reported the file Private and Active with the operator as owner; it is the
  operator's own \<open>AddAccessV2\<close> for that file, recipient and expiry; and its bundle opens, with the recipient's own secret
  and address, to exactly the key the owner's listed bundle opens to.
\<close>

theorem share_hands_over_the_key:
  fixes X :: access_libs and R :: chain_rpc and rt :: hash and pubkey :: bytes
  assumes "sign_ok (xl_sign X)" and "crypto_ok (xl_crypto X)"
  defines "h \<equiv> ''0x'' @ hex_encode rt"
    and "own \<equiv> l1_address_from_keypair (xl_digest X) pubkey"
    and "b58 \<equiv> l1_address_base58 (xl_digest X) (xl_bs58_encode X) (l1_address_from_keypair (xl_digest X) pubkey)"
  shows "sends_only (run_share X R pubkey sd chain_id fee rt recipient) (\<lambda>txt.
    \<exists>info owner_entry n pk k bundle nonce.
      vetted R h b58 info \<and> listed R h b58 owner_entry \<and> unwrap_owner_entry X sd own owner_entry = Inr k
      \<and> cr_encryption_key R n (rs_addr_b58 recipient) = Inr (Some pk)
      \<and> (\<forall>s. cl_public (xl_crypto X) (cl_secret (xl_crypto X) s) = pk \<longrightarrow>
            unwrap_for_self (xl_crypto X) bundle (cl_secret (xl_crypto X) s) (rs_addr recipient) = Inr k)
      \<and> authentic (xl_sign X) txt = Some (own_tx (xl_sign X) sd chain_id nonce fee (StorageMetadataV2
            (AddAccessV2 rt (WireAccessEntry (rs_addr recipient) (Some bundle) (to_chain_value (rs_expiry recipient)))))))"
    (is "sends_only _ ?T")
  unfolding run_share_def Let_def h_def[symmetric] own_def[symmetric] b58_def[symmetric]
proof (intro sends_bind_quiet act_quiet)
  fix info key
  assume info: "yields (require_private_v2_owner R h (l1_address_base58 (xl_digest X) (xl_bs58_encode X) own)) info"
    and key: "yields (map_err AccessRpc (call (\<lambda>n. cr_encryption_key R n (rs_addr_b58 recipient)))) key"
  have b: "l1_address_base58 (xl_digest X) (xl_bs58_encode X) own = b58" by (simp add: own_def b58_def)
  have v: "vetted R h b58 info" using yields_owner info b by simp
  obtain n where n: "cr_encryption_key R n (rs_addr_b58 recipient) = Inr key" using key by (auto simp: yields_simple)
  show "sends_only (case key of None \<Rightarrow> fail (RecipientHasNoEncryptionKey (rs_addr_b58 recipient))
        | Some recipient_pk \<Rightarrow>
            bind_act (recover_k_file_from_owner_bundle X R sd own (l1_address_base58 (xl_digest X) (xl_bs58_encode X) own) info h) (\<lambda>k_file.
            bind_act (wrap_bundle X k_file (rs_addr recipient) recipient_pk) (\<lambda>bundle.
              finish (submit_and_wait R (l1_address_base58 (xl_digest X) (xl_bs58_encode X) own) (\<lambda>nonce.
                build_add_access_v2_tx (xl_sign X) sd chain_id nonce fee rt
                  \<lparr>am_address = rs_addr recipient, am_encrypted_key_bundle = Some bundle,
                   am_expires_at = to_chain_value (rs_expiry recipient)\<rparr>))))) ?T"
  proof (cases key)
    case None
    then show ?thesis by (simp add: sends_fail)
  next
    case (Some pk)
    show ?thesis unfolding Some option.case b
    proof (intro sends_bind_quiet act_quiet sends_submit)
      fix k "bundle" nonce "txt"
      assume k: "yields (recover_k_file_from_owner_bundle X R sd own b58 info h) k"
        and w: "yields (wrap_bundle X k (rs_addr recipient) pk) bundle"
        and t: "build_add_access_v2_tx (xl_sign X) sd chain_id nonce fee rt
                  \<lparr>am_address = rs_addr recipient, am_encrypted_key_bundle = Some bundle,
                   am_expires_at = to_chain_value (rs_expiry recipient)\<rparr> = Inr txt"
      obtain e where e: "listed R h b58 e" "unwrap_owner_entry X sd own e = Inr k" using yields_recover[OF v k] by blast
      obtain eph where eph: "wrap_for_recipient (xl_crypto X) eph k (rs_addr recipient) pk = Inr bundle" using yields_wrap[OF w] by blast
      have un: "\<forall>s. cl_public (xl_crypto X) (cl_secret (xl_crypto X) s) = pk \<longrightarrow>
            unwrap_for_self (xl_crypto X) bundle (cl_secret (xl_crypto X) s) (rs_addr recipient) = Inr k"
        using wrap_unwrap(1)[OF assms(2) _ unwrap_owner_entry_length[OF e(2)]] eph by blast
      have "authentic (xl_sign X) txt = Some (own_tx (xl_sign X) sd chain_id nonce fee (StorageMetadataV2
            (AddAccessV2 rt (WireAccessEntry (rs_addr recipient) (Some bundle) (to_chain_value (rs_expiry recipient))))))"
        using encoded_is_own[OF assms(1)] t by (simp add: build_add_access_v2_tx_def into_wire_def)
      then show "?T txt" using v e n Some un by blast
    qed
  qed
qed

text \<open>
  Revoking and changing an expiry. Each either fails and sends nothing, or sends exactly one transaction of the
  operator's own account, for a Private Active file the chain says the operator owns and a target the chain lists. A
  revocation never names the owner itself; a change of expiry keeps the listed bundle byte for byte and changes the expiry.
\<close>

theorem revoke_and_update_authorised:
  fixes X :: access_libs and R :: chain_rpc and rt :: hash and pubkey :: bytes
  assumes "sign_ok (xl_sign X)"
  defines "h \<equiv> ''0x'' @ hex_encode rt"
    and "own \<equiv> l1_address_from_keypair (xl_digest X) pubkey"
    and "b58 \<equiv> l1_address_base58 (xl_digest X) (xl_bs58_encode X) (l1_address_from_keypair (xl_digest X) pubkey)"
  shows "sends_only (run_revoke X R pubkey sd chain_id fee rt target) (\<lambda>txt. \<exists>info e nonce.
      vetted R h b58 info \<and> listed R h (rs_addr_b58 target) e \<and> rs_addr target \<noteq> own
      \<and> authentic (xl_sign X) txt = Some (own_tx (xl_sign X) sd chain_id nonce fee
          (StorageMetadataV2 (RemoveAccessV2 rt (rs_addr target)))))
    \<and> sends_only (run_update_access X R pubkey sd chain_id fee rt target) (\<lambda>txt. \<exists>info e hex bundle nonce.
      vetted R h b58 info \<and> listed R h (rs_addr_b58 target) e
      \<and> ae_encrypted_key_bundle e = Some hex \<and> parse_bundle_hex X hex = Inr bundle
      \<and> ae_expires_at e \<noteq> to_chain_value (rs_expiry target)
      \<and> authentic (xl_sign X) txt = Some (own_tx (xl_sign X) sd chain_id nonce fee (StorageMetadataV2
          (UpdateAccessV2 rt (rs_addr target) (WireAccessEntry (rs_addr target) (Some bundle) (to_chain_value (rs_expiry target)))))))"
    (is "sends_only _ ?T1 \<and> sends_only _ ?T2")
proof
  have b: "l1_address_base58 (xl_digest X) (xl_bs58_encode X) own = b58" by (simp add: own_def b58_def)
  show "sends_only (run_revoke X R pubkey sd chain_id fee rt target) ?T1"
    unfolding run_revoke_def Let_def h_def[symmetric] own_def[symmetric] b
  proof (intro sends_bind_quiet act_quiet sends_submit)
    fix info u existing u' nonce "txt"
    assume a: "yields (require_private_v2_owner R h b58) info"
      "yields (require (rs_addr target \<noteq> own) (OwnerSelfRevoke (rs_addr_b58 target))) u"
      "yields (find_access_entry R h (rs_addr_b58 target) info) existing"
      "yields (require (existing \<noteq> None) (NotInAccessList (rs_addr_b58 target))) u'"
      and t: "build_remove_access_v2_tx (xl_sign X) sd chain_id nonce fee rt (rs_addr target) = Inr txt"
    have v: "vetted R h b58 info" using a(1) by (rule yields_owner)
    obtain e where "existing = Some e" using a(4) by (auto simp: yields_simple)
    then have "listed R h (rs_addr_b58 target) e" using yields_find[OF v] a(3) by blast
    moreover have "authentic (xl_sign X) txt = Some (own_tx (xl_sign X) sd chain_id nonce fee
          (StorageMetadataV2 (RemoveAccessV2 rt (rs_addr target))))"
      using encoded_is_own[OF assms(1)] t by (simp add: build_remove_access_v2_tx_def)
    ultimately show "?T1 txt" using v a(2) by (auto simp: yields_simple)
  qed
  have upd: "sends_only (case found of None \<Rightarrow> fail (NotInAccessList (rs_addr_b58 target)) | Some existing \<Rightarrow>
              if ae_expires_at existing = to_chain_value (rs_expiry target) then fail (UpdateNoOp (to_chain_value (rs_expiry target)))
              else (case ae_encrypted_key_bundle existing of None \<Rightarrow> fail OwnerBundleMissing
                 | Some bundle_hex \<Rightarrow> bind_act (lift (parse_bundle_hex X bundle_hex)) (\<lambda>existing_bundle.
                       finish (submit_and_wait R b58 (\<lambda>nonce.
                         build_update_access_v2_tx (xl_sign X) sd chain_id nonce fee rt (rs_addr target)
                           \<lparr>am_address = rs_addr target, am_encrypted_key_bundle = Some existing_bundle,
                            am_expires_at = to_chain_value (rs_expiry target)\<rparr>))))) ?T2"
    if v: "vetted R h b58 info" and f: "\<And>e. found = Some e \<Longrightarrow> listed R h (rs_addr_b58 target) e" for found info
  proof (cases found)
    case (Some e)
    show ?thesis
    proof (cases "ae_expires_at e = to_chain_value (rs_expiry target) \<or> ae_encrypted_key_bundle e = None")
      case True
      then show ?thesis using Some by (auto simp: sends_fail)
    next
      case False
      then obtain hx where hx: "ae_encrypted_key_bundle e = Some hx" "ae_expires_at e \<noteq> to_chain_value (rs_expiry target)" by auto
      show ?thesis unfolding Some option.case hx(1) if_not_P[OF hx(2)]
      proof (intro sends_bind_quiet act_quiet sends_submit)
        fix "bundle" nonce "txt"
        assume y: "yields (lift (parse_bundle_hex X hx)) bundle" and t: "build_update_access_v2_tx (xl_sign X) sd chain_id nonce fee rt (rs_addr target)
             \<lparr>am_address = rs_addr target, am_encrypted_key_bundle = Some bundle, am_expires_at = to_chain_value (rs_expiry target)\<rparr> = Inr txt"
        have "authentic (xl_sign X) txt = Some (own_tx (xl_sign X) sd chain_id nonce fee (StorageMetadataV2
          (UpdateAccessV2 rt (rs_addr target) (WireAccessEntry (rs_addr target) (Some bundle) (to_chain_value (rs_expiry target))))))"
          using encoded_is_own[OF assms(1)] t by (simp add: build_update_access_v2_tx_def into_wire_def)
        then show "?T2 txt" using v f[OF Some] hx y by (auto simp: yields_simple)
      qed
    qed
  qed (simp add: sends_fail)
  show "sends_only (run_update_access X R pubkey sd chain_id fee rt target) ?T2"
  proof (cases "rs_expiry target = Unset")
    case True
    then show ?thesis by (simp add: run_update_access_def sends_fail)
  next
    case False
    show ?thesis
      unfolding run_update_access_def Let_def h_def[symmetric] own_def[symmetric] b if_not_P[OF False]
      by (intro sends_bind_quiet act_quiet upd) (auto dest: yields_owner intro: yields_find)
  qed
qed

section \<open>Paging\<close>

text \<open>A chain that serves the pages of one list.\<close>

definition serves_pages :: "chain_rpc \<Rightarrow> string \<Rightarrow> access_entry_v2 list \<Rightarrow> bool" where
  "serves_pages R root_hex all \<longleftrightarrow> (\<forall>n off. \<exists>info. cr_file_info R n root_hex (Some off) (Some ACCESS_PAGE_SIZE) = Inr (Some info)
     \<and> fi_access_list info = take (unat ACCESS_PAGE_SIZE) (drop (unat off) all))"

lemma page_size: "unat ACCESS_PAGE_SIZE = 256"
  by (simp add: ACCESS_PAGE_SIZE_def)

lemma page_offset: "p < 64 \<Longrightarrow> unat (u32_of p * ACCESS_PAGE_SIZE) = p * 256"
  by (simp add: unat_word_ariths page_size unat_u32_of ACCESS_PAGE_SIZE_def)

lemma find_append: "find P (xs @ ys) = (case find P xs of Some x \<Rightarrow> Some x | None \<Rightarrow> find P ys)"
  by (induction xs) auto

lemma scan_pages_exact:
  assumes "serves_pages R h all" "p + k \<le> 64"
  shows "\<exists>w'. scan_pages R h t [p..<p + k] w = Some (Inr (find (\<lambda>e. ae_address e = t) (take (k * 256) (drop (p * 256) all))), w')"
  using assms(2)
proof (induction k arbitrary: p w)
  case 0
  then show ?case by (simp add: ret_def)
next
  case (Suc k)
  have p: "p < 64" using Suc.prems by simp
  obtain info where info: "cr_file_info R (cw_calls w) h (Some (u32_of p * ACCESS_PAGE_SIZE)) (Some ACCESS_PAGE_SIZE) = Inr (Some info)"
    "fi_access_list info = take 256 (drop (p * 256) all)"
    using assms(1) page_offset[OF p] unfolding serves_pages_def page_size by metis
  let ?w = "w\<lparr>cw_calls := Suc (cw_calls w)\<rparr>" and ?P = "\<lambda>e. ae_address e = t" and ?page = "take 256 (drop (p * 256) all)"
  have split: "take (Suc k * 256) (drop (p * 256) all) = ?page @ take (k * 256) (drop (Suc p * 256) all)"
    by (simp add: take_add drop_drop add.commute)
  have range: "[p..<p + Suc k] = p # [Suc p..<Suc p + k]" by (simp add: upt_rec)
  have step: "scan_pages R h t [p..<p + Suc k] w =
     (case find ?P ?page of Some e \<Rightarrow> ret (Some e) | None \<Rightarrow>
        if length ?page < 256 then ret None else scan_pages R h t [Suc p..<Suc p + k]) ?w"
    unfolding range scan_pages.simps using info
    by (simp add: bind_act_def map_err_def call_def entry_for_def page_size del: upt_Suc add_Suc)
  show ?case
  proof (cases "find ?P ?page")
    case (Some e)
    then show ?thesis unfolding step split find_append by (simp add: ret_def)
  next
    case None
    show ?thesis
    proof (cases "length ?page < 256")
      case True
      then have "drop (Suc p * 256) all = []" by simp
      then show ?thesis unfolding step split find_append using None True by (simp add: ret_def)
    next
      case False
      then show ?thesis unfolding step split find_append using None Suc.IH[of "Suc p" ?w] Suc.prems by simp
    qed
  qed
qed

text \<open>
  The paged scan. Against a chain that serves the pages of one access list, the scan started from the first page
  finds an entry exactly when the first 16384 entries contain one for the address, and then the first such entry.
\<close>

theorem find_access_entry_exact:
  assumes "serves_pages R h all" and "fi_access_list seed_page = take 256 all"
  shows "\<exists>w'. find_access_entry R h t seed_page w = Some (Inr (find (\<lambda>e. ae_address e = t) (take 16384 all)), w')"
proof -
  let ?P = "\<lambda>e. ae_address e = t"
  have split: "take 16384 all = take 256 all @ take 16128 (drop 256 all)"
    using take_add[of 256 16128 all] by simp
  show ?thesis
  proof (cases "find ?P (take 256 all)")
    case (Some e)
    then show ?thesis unfolding split find_append
      by (simp add: find_access_entry_def entry_for_def assms(2) ret_def)
  next
    case None
    show ?thesis
    proof (cases "length all < 256")
      case True
      then show ?thesis unfolding split find_append using None
        by (simp add: find_access_entry_def entry_for_def assms(2) ret_def page_size)
    next
      case False
      obtain w' where "scan_pages R h t [1..<1 + 63] w = Some (Inr (find ?P (take (63 * 256) (drop (1 * 256) all))), w')"
        using scan_pages_exact[OF assms(1), of 1 63 t w] by auto
      then show ?thesis unfolding split find_append using None False
        by (simp add: find_access_entry_def entry_for_def assms(2) page_size ACCESS_MAX_PAGES_def)
    qed
  qed
qed

section \<open>Instances\<close>

definition demo_access_entry :: access_entry_v2 where
  "demo_access_entry = \<lparr>ae_address = ''a'', ae_encrypted_key_bundle = None, ae_expires_at = None\<rparr>"

definition demo_access_info :: storage_file_info_v2 where
  "demo_access_info = \<lparr>fi_merkle_root = '''', fi_owner = ''o'', fi_plaintext_size_bytes = 1, fi_stored_size_bytes = 1,
     fi_chunk_count = 1, fi_fee_pool = 0, fi_created_at = 0, fi_activated_at_height = Some 1, fi_abandoned_at_height = None,
     fi_assignment_height = 0, fi_visibility = 1, fi_lifecycle = 1, fi_access_list = [demo_access_entry]\<rparr>"

definition demo_access_rpc :: chain_rpc where
  "demo_access_rpc = \<lparr>cr_chain_params = (\<lambda>_. Inl ''''), cr_block_height = (\<lambda>_. Inl ''''),
     cr_file_info = (\<lambda>n h off lim. Inr (Some (demo_access_info\<lparr>fi_access_list := (if off = Some 0 then [demo_access_entry] else [])\<rparr>))),
     cr_active_nodes = (\<lambda>_ _. Inl ''''), cr_coverage = (\<lambda>_ _ _ _. Inl ''''), cr_v1_registered = (\<lambda>_ _. Inl ''''),
     cr_encryption_key = (\<lambda>_ _. Inl ''''), cr_nonce = (\<lambda>_ _. Inl ''''), cr_send = (\<lambda>_ _. Inl ''''),
     cr_wait = (\<lambda>_ _. \<lparr>we_status = (\<lambda>_. Inl ''''), we_delay = (\<lambda>_. 0), we_oversleep = (\<lambda>_. 0)\<rparr>), cr_wait_start = (\<lambda>_. 0)\<rparr>"

definition demo_access_libs :: access_libs where
  "demo_access_libs = \<lparr>xl_digest = demo_lib, xl_sign = demo_sign, xl_crypto = demo_crypto, xl_bs58_encode = (\<lambda>_. ''o''),
     xl_bs58_decode = (\<lambda>_. Inl ''''), xl_hex_decode = (\<lambda>_. Inl ''''), xl_rng = (\<lambda>_. [])\<rparr>"

lemma demo_serves: "serves_pages demo_access_rpc h [demo_access_entry]"
proof -
  have "take 256 (drop (unat off) [demo_access_entry]) = (if off = 0 then [demo_access_entry] else [])" for off :: u32
  proof (cases "off = 0")
    case False
    then have "0 < unat off" by (simp add: unat_gt_0)
    then show ?thesis using False by (cases "unat off") auto
  qed simp
  then show ?thesis by (auto simp: serves_pages_def demo_access_rpc_def page_size)
qed

theorem find_access_entry_exact_witness:
  "\<exists>w'. find_access_entry demo_access_rpc ''h'' ''a'' demo_access_info \<lparr>cw_calls = 0, cw_sent = []\<rparr> = Some (Inr (Some demo_access_entry), w')"
  using find_access_entry_exact[OF demo_serves, where seed_page = demo_access_info and t = "''a''" and w = "\<lparr>cw_calls = 0, cw_sent = []\<rparr>"]
  by (simp add: demo_access_info_def demo_access_entry_def)

definition demo_recipient :: recipient_spec where
  "demo_recipient = \<lparr>rs_addr = [1], rs_addr_b58 = ''a'', rs_expiry = SetTo 9\<rparr>"

theorem share_hands_over_the_key_witness:
  "sends_only (run_share demo_access_libs demo_access_rpc [] [] 1 1 [] demo_recipient :: (chain_world, access_op_error, unit) act)
     (\<lambda>t. \<exists>info. vetted demo_access_rpc ''0x'' ''o'' info)"
  by (rule sends_weaken[OF share_hands_over_the_key])
    (auto simp: demo_access_libs_def demo_sign_ok demo_crypto_ok l1_address_base58_def Let_def hex_encode_def)

theorem revoke_and_update_authorised_witness:
  "sends_only (run_revoke demo_access_libs demo_access_rpc [] [] 1 1 [] demo_recipient :: (chain_world, access_op_error, unit) act)
     (\<lambda>t. \<exists>info. vetted demo_access_rpc ''0x'' ''o'' info)"
  by (rule sends_weaken[OF conjunct1[OF revoke_and_update_authorised]])
    (auto simp: demo_access_libs_def demo_sign_ok l1_address_base58_def Let_def hex_encode_def)

end
