(* ===== verification/Peer_Discovery.thy ===== *)
theory Peer_Discovery
  imports Fetch Assignment "HOL-Library.Char_ord" "HOL-Library.AList"
begin

text \<open>
  Who is reachable: the map from live peers to chain addresses (\<open>sum-node/src/peer_state.rs\<close>), the
  completion condition of peer discovery (\<open>sum-node/src/peer_discovery.rs\<close>) and the resolver of the
  ingest pipeline (\<open>MapPeerResolver\<close> of \<open>sum-node/src/ingest_v2.rs\<close>). Hash maps are association lists
  with distinct keys, ordered sets are sets; instants are natural numbers.
\<close>

section \<open>Events and the identity map\<close>

datatype sum_net_event =
    PeerIdentified peer_id addr20
  | PeerDisconnected peer_id
  | ShardReceivedV2 peer_id shard_response_v2
  | OtherEvent string  \<comment> \<open>every variant the owner's pipeline ignores\<close>

type_synonym peer_map = "(peer_id \<times> addr20) list"

datatype peer_map_change = Inserted | Removed | Unchanged

definition apply_peer_event :: "peer_map \<Rightarrow> sum_net_event \<Rightarrow> peer_map_change \<times> peer_map" where
  "apply_peer_event m event =
     (case event of
        PeerIdentified peer_id l1_address \<Rightarrow> (Inserted, AList.update peer_id l1_address m)
      | PeerDisconnected peer_id \<Rightarrow>
          if map_of m peer_id \<noteq> None then (Removed, AList.delete peer_id m) else (Unchanged, m)
      | _ \<Rightarrow> (Unchanged, m))"

text \<open>\<open>MapPeerResolver\<close>: the smallest live peer that reports an address.\<close>

definition resolve :: "peer_map \<Rightarrow> addr20 \<Rightarrow> peer_id option" where
  "resolve m addr =
     (case map fst (filter (\<lambda>(_, l1). l1 = addr) m) of
        [] \<Rightarrow> None
      | p # ps \<Rightarrow> Some (fold min ps p))"

definition resolver_observe :: "peer_map \<Rightarrow> sum_net_event \<Rightarrow> peer_map" where
  "resolver_observe m event = snd (apply_peer_event m event)"

section \<open>Discovery\<close>

datatype discovery_status =
    Complete
  | Waiting nat
  | TimedOut "addr20 list"

datatype discovery_failure =
    DiscoveryTimedOut nat "addr20 list" nat
  | NetworkClosed nat "addr20 list"

definition failure_missing :: "discovery_failure \<Rightarrow> addr20 list" where
  "failure_missing f = (case f of DiscoveryTimedOut _ missing _ \<Rightarrow> missing | NetworkClosed _ missing \<Rightarrow> missing)"

record archive_discovery =
  ad_required :: "addr20 set"
  ad_deadline :: nat
  ad_live :: peer_map

definition discovery_new :: "addr20 set \<Rightarrow> nat \<Rightarrow> archive_discovery" where
  "discovery_new required deadline = \<lparr>ad_required = required, ad_deadline = deadline, ad_live = []\<rparr>"

definition seed_peer :: "peer_id \<Rightarrow> addr20 \<Rightarrow> archive_discovery \<Rightarrow> archive_discovery" where
  "seed_peer peer address d = d\<lparr>ad_live := AList.update peer address (ad_live d)\<rparr>"

definition observe_event :: "sum_net_event \<Rightarrow> archive_discovery \<Rightarrow> bool \<times> archive_discovery" where
  "observe_event event d =
     (case apply_peer_event (ad_live d) event of (change, live) \<Rightarrow> (change \<noteq> Unchanged, d\<lparr>ad_live := live\<rparr>))"

definition required_len :: "archive_discovery \<Rightarrow> nat" where
  "required_len d = card (ad_required d)"

definition missing_archives :: "archive_discovery \<Rightarrow> addr20 list" where
  "missing_archives d = sorted_list_of_set {a \<in> ad_required d. a \<notin> snd ` set (ad_live d)}"

definition status_at :: "archive_discovery \<Rightarrow> nat \<Rightarrow> discovery_status" where
  "status_at d now =
     (let m = missing_archives d in
      if m = [] then Complete else if now \<ge> ad_deadline d then TimedOut m else Waiting (length m))"

fun required_loop :: "wire_lib \<Rightarrow> hash \<Rightarrow> addr20 list \<Rightarrow> u32 \<Rightarrow> nat \<Rightarrow> u32 list \<Rightarrow> addr20 set \<Rightarrow> addr20 set" where
  "required_loop W rt snapshot r n [] required = required"
| "required_loop W rt snapshot r n (chunk_index # rest) required =
     (let required' = required \<union> set (assigned_archives W rt snapshot chunk_index r) in
      if card required' = n then required' else required_loop W rt snapshot r n rest required')"

definition required_archives :: "wire_lib \<Rightarrow> hash \<Rightarrow> addr20 list \<Rightarrow> u32 list \<Rightarrow> u32 \<Rightarrow> addr20 set" where
  "required_archives W rt snapshot idxs r =
     (let all = set snapshot in
      if idxs = [] \<or> r = 0 then {}
      else if unat r \<ge> card all then all
      else required_loop W rt snapshot r (card all) idxs {})"

section \<open>The map\<close>

definition peer_map_ok :: "peer_map \<Rightarrow> bool" where
  "peer_map_ok m \<longleftrightarrow> distinct (map fst m)"

lemma apply_peer_event_ok: "peer_map_ok m \<Longrightarrow> peer_map_ok (snd (apply_peer_event m ev))"
  by (cases ev) (auto simp: apply_peer_event_def peer_map_ok_def distinct_update distinct_delete)

lemma map_of_apply_peer_event:
  "map_of (snd (apply_peer_event m ev)) p =
     (case ev of PeerIdentified q a \<Rightarrow> if q = p then Some a else map_of m p
      | PeerDisconnected q \<Rightarrow> if q = p then None else map_of m p
      | _ \<Rightarrow> map_of m p)"
  by (cases ev) (auto simp: apply_peer_event_def update_conv' delete_conv' restrict_map_def)

lemma fold_min: "fold min ps (p :: 'a::linorder) = Min (set (p # ps))"
  by (metis Min.set_eq_fold)

lemma resolve_None: "resolve m a = None \<longleftrightarrow> a \<notin> snd ` set m"
proof -
  have "resolve m a = None \<longleftrightarrow> filter (\<lambda>(_, l1). l1 = a) m = []" by (auto simp: resolve_def split: list.splits)
  then show ?thesis by (force simp: filter_empty_conv)
qed

lemma peers_of_address:
  assumes "peer_map_ok m"
  shows "set (map fst (filter (\<lambda>(_, l1). l1 = a) m)) = {p. map_of m p = Some a}"
  using assms by (force simp: peer_map_ok_def image_iff dest: map_of_SomeD)

lemma resolve_Some:
  assumes "peer_map_ok m"
  shows "resolve m a = Some p \<longleftrightarrow> map_of m p = Some a \<and> (\<forall>q. map_of m q = Some a \<longrightarrow> p \<le> q)"
proof (cases "map fst (filter (\<lambda>(_, l1). l1 = a) m)")
  case Nil
  then have none: "{q. map_of m q = Some a} = {}" using peers_of_address[OF assms, of a] by auto
  then show ?thesis using Nil by (auto simp: resolve_def)
next
  case (Cons q qs)
  let ?P = "{p. map_of m p = Some a}"
  have P: "set (q # qs) = ?P" using peers_of_address[OF assms, of a] Cons by metis
  have r: "resolve m a = Some (Min ?P)" using Cons unfolding resolve_def by (simp add: fold_min P[symmetric])
  have fin: "finite ?P" "?P \<noteq> {}" unfolding P[symmetric] by auto
  show ?thesis unfolding r using Min_eq_iff[OF fin, of p] by auto
qed

text \<open>What a peer's own events say of it: identified with an address and not disconnected since.\<close>

definition live_address :: "sum_net_event list \<Rightarrow> peer_id \<Rightarrow> addr20 option" where
  "live_address evs p =
     foldl (\<lambda>cur ev. case ev of PeerIdentified q a \<Rightarrow> if q = p then Some a else cur
                     | PeerDisconnected q \<Rightarrow> if q = p then None else cur | _ \<Rightarrow> cur) None evs"

definition observe_all :: "archive_discovery \<Rightarrow> sum_net_event list \<Rightarrow> archive_discovery" where
  "observe_all d evs = foldl (\<lambda>d ev. snd (observe_event ev d)) d evs"

lemma observe_fields [simp]:
  "ad_required (snd (observe_event ev d)) = ad_required d" "ad_deadline (snd (observe_event ev d)) = ad_deadline d"
  "ad_live (snd (observe_event ev d)) = snd (apply_peer_event (ad_live d) ev)"
  by (simp_all add: observe_event_def split: prod.splits)

lemma observe_all_snoc: "observe_all d (evs @ [ev]) = snd (observe_event ev (observe_all d evs))"
  by (simp add: observe_all_def)

lemma observe_all_fields:
  "ad_required (observe_all d evs) = ad_required d" "ad_deadline (observe_all d evs) = ad_deadline d"
  by (induction evs rule: rev_induct) (simp_all add: observe_all_snoc, simp_all add: observe_all_def)

lemma observe_all_live:
  "peer_map_ok (ad_live (observe_all (discovery_new R D) evs))
   \<and> map_of (ad_live (observe_all (discovery_new R D) evs)) p = live_address evs p"
proof (induction evs rule: rev_induct)
  case Nil
  then show ?case by (simp add: observe_all_def discovery_new_def live_address_def peer_map_ok_def)
next
  case (snoc ev evs)
  then show ?case
    by (simp add: observe_all_snoc apply_peer_event_ok map_of_apply_peer_event live_address_def split: sum_net_event.splits)
qed

lemma snd_image_map_of: "peer_map_ok m \<Longrightarrow> a \<in> snd ` set m \<longleftrightarrow> (\<exists>p. map_of m p = Some a)"
  by (force simp: peer_map_ok_def image_iff dest: map_of_SomeD)

definition lacking :: "addr20 set \<Rightarrow> sum_net_event list \<Rightarrow> addr20 set" where
  "lacking R evs = {a \<in> R. \<nexists>p. live_address evs p = Some a}"

text \<open>
  Discovery counts chain addresses. After any sequence of events, discovery is complete exactly when every
  required archive has some peer whose latest identify event carries its address with no disconnect since; otherwise the
  reported missing list is exactly the required archives without one, in order, and it is a timeout only from the deadline
  on.
\<close>

theorem discovery_status_exact:
  assumes "finite R"
  shows "status_at (observe_all (discovery_new R D) evs) now =
    (if lacking R evs = {} then Complete
     else if D \<le> now then TimedOut (sorted_list_of_set (lacking R evs)) else Waiting (card (lacking R evs)))"
proof -
  let ?d = "observe_all (discovery_new R D) evs"
  have fields: "ad_required ?d = R" "ad_deadline ?d = D" by (simp_all add: observe_all_fields discovery_new_def)
  have "a \<in> snd ` set (ad_live ?d) \<longleftrightarrow> (\<exists>p. live_address evs p = Some a)" for a
    using snd_image_map_of observe_all_live[of R D evs] by metis
  then have "missing_archives ?d = sorted_list_of_set (lacking R evs)" by (simp add: missing_archives_def fields lacking_def)
  moreover have "finite (lacking R evs)" using assms by (simp add: lacking_def)
  ultimately show ?thesis by (simp add: status_at_def Let_def fields)
qed

section \<open>The required set\<close>

lemma assigned_within:
  assumes "wire_ok W"
  shows "set (assigned_archives W rt snapshot i r) \<subseteq> set snapshot"
    and "unat r \<ge> card (set snapshot) \<Longrightarrow> set (assigned_archives W rt snapshot i r) = set snapshot"
proof -
  note w = wire_okD[OF assms, where root = rt and addrs = snapshot and i = i and r = r]
  show sub: "set (assigned_archives W rt snapshot i r) \<subseteq> set snapshot" using w(1,3) by (simp add: assigned_archives_def)
  assume "unat r \<ge> card (set snapshot)"
  then have "card (set (assigned_archives W rt snapshot i r)) = card (set snapshot)"
    using w by (simp add: assigned_archives_def distinct_card)
  then show "set (assigned_archives W rt snapshot i r) = set snapshot" using sub by (simp add: card_subset_eq)
qed

lemma required_loop_eq:
  assumes "wire_ok W" "req \<subseteq> set snapshot"
  shows "required_loop W rt snapshot r (card (set snapshot)) idxs req
    = req \<union> (\<Union>c\<in>set idxs. set (assigned_archives W rt snapshot c r))"
  using assms(2)
proof (induction idxs arbitrary: req)
  case (Cons c cs)
  let ?req = "req \<union> set (assigned_archives W rt snapshot c r)"
  have sub: "?req \<subseteq> set snapshot" using Cons.prems assigned_within(1)[OF assms(1)] by blast
  show ?case
  proof (cases "card ?req = card (set snapshot)")
    case True
    then have "?req = set snapshot" using sub by (simp add: card_subset_eq)
    moreover have "(\<Union>c\<in>set cs. set (assigned_archives W rt snapshot c r)) \<subseteq> set snapshot"
      using assigned_within(1)[OF assms(1)] by blast
    ultimately show ?thesis using True by (auto simp: Let_def)
  next
    case False
    then show ?thesis using Cons.IH[OF sub] by (auto simp: Let_def)
  qed
qed simp

text \<open>
  The required set is exactly the set the push wave sends to: whichever shortcut is taken, discovery waits for the
  archives the assignment gives some chunk being pushed, and for no other.
\<close>

theorem required_archives_exact:
  assumes "wire_ok W"
  shows "required_archives W rt snapshot idxs r = (\<Union>c\<in>set idxs. set (assigned_archives W rt snapshot c r))"
proof (cases "idxs = [] \<or> r = 0")
  case True
  have "assigned_archives W rt snapshot c 0 = []" for c
    using wire_okD(1,4)[OF assms, where root = rt and addrs = snapshot and i = c and r = 0] by (simp add: assigned_archives_def)
  with True show ?thesis by (auto simp: required_archives_def)
next
  case False
  then show ?thesis
    using assigned_within(2)[OF assms] required_loop_eq[OF assms, of "{}"]
    by (auto simp: required_archives_def Let_def)
qed

section \<open>Instances\<close>

theorem discovery_status_exact_witness:
  "status_at (observe_all (discovery_new {[1], [2]} 9) [PeerIdentified ''a'' [1], PeerIdentified ''b'' [2], PeerDisconnected ''b'']) 9
   = TimedOut [[2]]"
proof -
  have "lacking {[1], [2]} [PeerIdentified ''a'' [1], PeerIdentified ''b'' [2], PeerDisconnected ''b''] = {[2]}"
    by (auto simp: lacking_def live_address_def split: if_splits)
  then show ?thesis using discovery_status_exact[where R = "{[1], [2]}" and D = 9 and now = 9
      and evs = "[PeerIdentified ''a'' [1], PeerIdentified ''b'' [2], PeerDisconnected ''b'']"] by simp
qed

theorem required_archives_exact_witness:
  "required_archives demo_wire [] demo_nodes [0, 1] 1 = (\<Union>c\<in>{0, 1}. set (assigned_archives demo_wire [] demo_nodes c 1))"
  using required_archives_exact[OF demo_wire_ok, of "[]" demo_nodes "[0, 1]" 1] by simp

end
