(* ===== verification/Ingest_Types.thy ===== *)
theory Ingest_Types
  imports Access_Ops Peer_Discovery Chunker
begin

text \<open>
  The data of the owner's side of a V2 file (\<open>sum-node/src/ingest_v2.rs\<close>): parameters, the state a run
  changes, the outcomes and their exit codes. A run is an \<open>act\<close> over \<open>ingest_world\<close>: the events still to
  come from the network, the resolver's map, and what was pushed and sent. A wall-clock deadline is the
  number of turns its loop takes before the deadline fires, one number per timed wait (\<open>ie_turns\<close>), so
  every timing is covered; \<open>None\<close> is a panic or a wait that never ends.
\<close>

section \<open>Parameters and world\<close>

record ingest_params =
  p_assignment_replication_factor :: u32
  p_max_chunk_indices_per_tx :: u32
  p_max_chunk_count_per_file :: u32
  p_chain_id :: u64
  p_fee_per_tx :: u128
  p_fee_deposit :: u64
  p_poll_interval :: nat
  p_activation_wait_secs :: nat
  p_finality_timeout :: nat
  p_push_retries :: u32
  p_push_wait_secs :: nat
  p_manifest_push_wait_secs :: nat
  p_discovery_timeout :: nat
  p_activation_grace_blocks :: u64
  p_v2_enabled_from_height :: "u64 option"

record ingest_params_defaults =
  d_poll_interval :: nat
  d_activation_wait_secs :: nat
  d_finality_timeout :: nat
  d_push_retries :: u32
  d_push_wait_secs :: nat
  d_manifest_push_wait_secs :: nat
  d_discovery_timeout :: nat
  d_fee_deposit :: u64

definition params_defaults :: ingest_params_defaults where
  "params_defaults = \<lparr>d_poll_interval = 2 * 10 ^ 9, d_activation_wait_secs = 120 * 10 ^ 9, d_finality_timeout = 60 * 10 ^ 9,
     d_push_retries = 2, d_push_wait_secs = 60 * 10 ^ 9, d_manifest_push_wait_secs = 30 * 10 ^ 9,
     d_discovery_timeout = 30 * 10 ^ 9, d_fee_deposit = 0\<rparr>"

definition from_chain_params :: "chain_params_info \<Rightarrow> ingest_params_defaults \<Rightarrow> ingest_params" where
  "from_chain_params p defaults = \<lparr>
     p_assignment_replication_factor = cpi_assignment_replication_factor p,
     p_max_chunk_indices_per_tx = cpi_max_chunk_indices_per_tx p,
     p_max_chunk_count_per_file = cpi_max_chunk_count_per_file p,
     p_chain_id = cpi_chain_id p,
     p_fee_per_tx = cpi_min_fee p,
     p_fee_deposit = d_fee_deposit defaults,
     p_poll_interval = d_poll_interval defaults,
     p_activation_wait_secs = d_activation_wait_secs defaults,
     p_finality_timeout = d_finality_timeout defaults,
     p_push_retries = d_push_retries defaults,
     p_push_wait_secs = d_push_wait_secs defaults,
     p_manifest_push_wait_secs = d_manifest_push_wait_secs defaults,
     p_discovery_timeout = d_discovery_timeout defaults,
     p_activation_grace_blocks = cpi_activation_grace_blocks p,
     p_v2_enabled_from_height = cpi_v2_enabled_from_height p\<rparr>"

text \<open>A local file: its name and what opening and mapping it gives.\<close>

record local_file =
  lf_name :: string
  lf_bytes :: "string + bytes"

record chunk_push =
  cp_peer :: peer_id
  cp_data :: bytes
  cp_root :: hash
  cp_index :: u32
  cp_path :: "hash list"

record manifest_push =
  mp_peer :: peer_id
  mp_root :: hash
  mp_bytes :: bytes

record ingest_world = chain_world +
  iw_events :: "sum_net_event list"
  iw_closed :: bool                      \<comment> \<open>after the last event the swarm has shut down\<close>
  iw_peers :: peer_map
  iw_pushes :: "chunk_push list"
  iw_manifests :: "manifest_push list"
  iw_waits :: nat                        \<comment> \<open>timed waits so far\<close>

record ingest_env =
  ie_libs :: access_libs
  ie_wire :: wire_lib
  ie_cbor :: cbor_lib
  ie_rpc :: chain_rpc
  ie_send_error :: "nat \<Rightarrow> string option"   \<comment> \<open>the error of a network send, by the number of sends before it\<close>
  ie_turns :: "nat \<Rightarrow> nat"
  ie_temp_error :: "string option"        \<comment> \<open>an I/O failure of the ciphertext temporary file\<close>
  ie_seed :: bytes
  ie_my_addr :: addr20
  ie_params :: ingest_params

definition my_addr_base58 :: "ingest_env \<Rightarrow> string" where
  "my_addr_base58 E = l1_address_base58 (xl_digest (ie_libs E)) (xl_bs58_encode (ie_libs E)) (ie_my_addr E)"

abbreviation replication :: "ingest_env \<Rightarrow> u32" where
  "replication E \<equiv> p_assignment_replication_factor (ie_params E)"

section \<open>Outcomes\<close>

datatype ingest_stage = RegisterStage | PushStage | ManifestPushStage | CoverageStage | ActivateStage
datatype suggested_action = Resume | Abandon
datatype registration_tx = NotSent | Rejected | Unconfirmed

datatype ingest_error =
    ReplicationFactorZero
  | RpcError string
  | V2Disabled
  | V2NotEnabledYet u64 u64
  | FileError string
  | ChunkCountExceeds u32 u32
  | TooFewArchives nat u64 u32
  | DiscoveryRefused discovery_failure
  | DiscoveryIncomplete discovery_failure
  | BadAddress string
  | BuildError string
  | TxFailedAtChain string
  | TxWasDropped
  | TxTimedOut tx_status_v2
  | NoFileRow string
  | EmptySnapshot u64
  | ManifestEncode string
  | ManifestSend string
  | ManifestAcks nat nat
  | NoCoverageRow
  | NotFileOwner string string
  | KeyRecovery access_op_error
  | ChainShapeCorruption hash
  | UnexpectedLifecycle byte
  | EpochError string
  | SentRegistration registration_tx ingest_error

datatype ingest_outcome =
    Activated hash data_manifest string u64 string u64
  | ActivatedOnChain hash data_manifest u64 u64
  | ResumedActivated hash data_manifest u64 string u64
  | AbandonedOnChain hash data_manifest "u64 option"
  | RootMismatch hash hash data_manifest
  | IngestFailed ingest_stage "data_manifest option" ingest_error
  | PendingNeedsAction hash data_manifest ingest_stage "assignment_coverage_v2 option" "u32 list option" suggested_action
      "ingest_error option"

datatype root_on_chain = Registered | NotRegistered | LookupFailed | NotLookedUp

record ingest_exit_status =
  ex_code :: int
  ex_root_on_chain :: root_on_chain
  ex_lookup_error :: "string option"

definition ACTIVE :: int where "ACTIVE = 0"
definition ERROR :: int where "ERROR = 1"
definition PENDING :: int where "PENDING = 3"
definition ABANDONED :: int where "ABANDONED = 4"
definition ROOT_MISMATCH :: int where "ROOT_MISMATCH = 5"
definition REFUSED :: int where "REFUSED = 6"
definition ALREADY_REGISTERED :: int where "ALREADY_REGISTERED = 7"
definition REGISTRATION_UNCONFIRMED :: int where "REGISTRATION_UNCONFIRMED = 8"

lemmas exit_codes = ACTIVE_def ERROR_def PENDING_def ABANDONED_def ROOT_MISMATCH_def REFUSED_def ALREADY_REGISTERED_def
  REGISTRATION_UNCONFIRMED_def

definition registration_tx_of :: "ingest_outcome \<Rightarrow> registration_tx option" where
  "registration_tx_of out =
     (case out of
        IngestFailed RegisterStage _ source \<Rightarrow> Some (case source of SentRegistration tx _ \<Rightarrow> tx | _ \<Rightarrow> NotSent)
      | _ \<Rightarrow> None)"

definition outcome_manifest :: "ingest_outcome \<Rightarrow> data_manifest option" where
  "outcome_manifest out =
     (case out of
        Activated _ m _ _ _ _ \<Rightarrow> Some m | ActivatedOnChain _ m _ _ \<Rightarrow> Some m | ResumedActivated _ m _ _ _ \<Rightarrow> Some m
      | AbandonedOnChain _ m _ \<Rightarrow> Some m | RootMismatch _ _ m \<Rightarrow> Some m | PendingNeedsAction _ m _ _ _ _ _ \<Rightarrow> Some m
      | IngestFailed _ m _ \<Rightarrow> m)"

definition outcome_root :: "ingest_outcome \<Rightarrow> hash option" where
  "outcome_root out = map_option merkle_root (outcome_manifest out)"

definition ingest_exit_code :: "ingest_outcome \<Rightarrow> root_on_chain \<Rightarrow> int" where
  "ingest_exit_code out rc =
     (case out of
        Activated _ _ _ _ _ _ \<Rightarrow> ACTIVE | ResumedActivated _ _ _ _ _ \<Rightarrow> ACTIVE | ActivatedOnChain _ _ _ _ \<Rightarrow> ACTIVE
      | PendingNeedsAction _ _ _ _ _ _ _ \<Rightarrow> PENDING
      | AbandonedOnChain _ _ _ \<Rightarrow> ABANDONED
      | RootMismatch _ _ _ \<Rightarrow> ERROR
      | IngestFailed _ _ _ \<Rightarrow>
         (case registration_tx_of out of
            Some Unconfirmed \<Rightarrow> REGISTRATION_UNCONFIRMED
          | None \<Rightarrow> ERROR
          | Some _ \<Rightarrow>
             (case rc of
                Registered \<Rightarrow> ALREADY_REGISTERED
              | NotRegistered \<Rightarrow> REFUSED
              | NotLookedUp \<Rightarrow> if outcome_root out = None then REFUSED else ERROR
              | LookupFailed \<Rightarrow> ERROR)))"

definition resume_exit_code :: "ingest_outcome \<Rightarrow> int" where
  "resume_exit_code out =
     (case out of
        Activated _ _ _ _ _ _ \<Rightarrow> ACTIVE | ResumedActivated _ _ _ _ _ \<Rightarrow> ACTIVE | ActivatedOnChain _ _ _ _ \<Rightarrow> ACTIVE
      | PendingNeedsAction _ _ _ _ _ _ _ \<Rightarrow> PENDING
      | AbandonedOnChain _ _ _ \<Rightarrow> ABANDONED
      | RootMismatch _ _ _ \<Rightarrow> ROOT_MISMATCH
      | IngestFailed _ _ _ \<Rightarrow> ERROR)"

text \<open>\<open>root_on_chain\<close>: the V2 lookup, then the V1 lookup if the first found no row.\<close>

definition root_on_chain_lookup :: "chain_rpc \<Rightarrow> string \<Rightarrow> ('z chain_world_scheme, string, root_on_chain \<times> string option) act" where
  "root_on_chain_lookup R root_hex =
     bind_act (attempt (call (\<lambda>n. cr_file_info R n root_hex None None))) (\<lambda>r2.
       case r2 of
         Inr (Some _) \<Rightarrow> ret (Registered, None)
       | _ \<Rightarrow>
          (let v2 = (case r2 of Inl e \<Rightarrow> Some (''storage_getFileInfoV2('' @ root_hex @ ''): '' @ e) | _ \<Rightarrow> None) in
           bind_act (attempt (call (\<lambda>n. cr_v1_registered R n root_hex))) (\<lambda>r1.
             case r1 of
               Inr True \<Rightarrow> ret (Registered, None)
             | _ \<Rightarrow>
                (let v1 = (case r1 of Inl e \<Rightarrow> Some (''storage_getAccessList('' @ root_hex @ ''): '' @ e) | _ \<Rightarrow> None) in
                 case v2 of
                   None \<Rightarrow> (case v1 of None \<Rightarrow> ret (NotRegistered, None) | Some e \<Rightarrow> ret (LookupFailed, Some e))
                 | Some e2 \<Rightarrow>
                     (case v1 of None \<Rightarrow> ret (LookupFailed, Some e2) | Some e1 \<Rightarrow> ret (LookupFailed, Some (e2 @ ''; '' @ e1)))))))"

definition ingest_exit_status_of :: "chain_rpc \<Rightarrow> ingest_outcome \<Rightarrow> ('z chain_world_scheme, string, ingest_exit_status) act" where
  "ingest_exit_status_of R out =
     bind_act
       (case (registration_tx_of out, outcome_root out) of
          (Some NotSent, Some rt) \<Rightarrow> root_on_chain_lookup R (''0x'' @ hex_encode rt)
        | (Some Rejected, Some rt) \<Rightarrow> root_on_chain_lookup R (''0x'' @ hex_encode rt)
        | _ \<Rightarrow> ret (NotLookedUp, None))
       (\<lambda>(rc, lookup_error). ret \<lparr>ex_code = ingest_exit_code out rc, ex_root_on_chain = rc, ex_lookup_error = lookup_error\<rparr>)"

end
