(* ===== verification/Ingest.thy ===== *)
theory Ingest
  imports Ingest_Types
begin

text \<open>
  The stages of ingestion (\<open>sum-node/src/ingest_v2.rs\<close>) and the commands built from them: \<open>run\<close>,
  \<open>run_private\<close>, \<open>resume\<close>, \<open>repush\<close> and \<open>abandon\<close>.
\<close>

section \<open>Chain reads\<close>

definition check_v2_enabled :: "ingest_env \<Rightarrow> ('z chain_world_scheme, ingest_error, u64) act" where
  "check_v2_enabled E =
     bind_act (map_err RpcError (call (cr_block_height (ie_rpc E)))) (\<lambda>height.
       case p_v2_enabled_from_height (ie_params E) of
         None \<Rightarrow> fail V2Disabled
       | Some enabled_at \<Rightarrow> if height < enabled_at then fail (V2NotEnabledYet height enabled_at) else ret height)"

fun decode_addresses :: "access_libs \<Rightarrow> node_record_info list \<Rightarrow> string + addr20 list" where
  "decode_addresses X [] = Inr []"
| "decode_addresses X (r # rs) =
     (case l1_address_from_base58 (xl_digest X) (xl_bs58_decode X) (nr_address r) of
        Inl e \<Rightarrow> Inl e
      | Inr a \<Rightarrow> map_sum id ((#) a) (decode_addresses X rs))"

definition eligible_archive_addresses :: "access_libs \<Rightarrow> node_record_info list \<Rightarrow> string + addr20 list" where
  "eligible_archive_addresses X raw = map_sum id (\<lambda>d. remdups_adj (sort d)) (decode_addresses X (filter_active_archives raw))"

definition fetch_assignment_inputs ::
    "ingest_env \<Rightarrow> hash \<Rightarrow> ('z chain_world_scheme, ingest_error, storage_file_info_v2 \<times> addr20 list) act" where
  "fetch_assignment_inputs E rt =
     (let root_hex = ''0x'' @ hex_encode rt in
      bind_act (map_err RpcError (call (\<lambda>n. cr_file_info (ie_rpc E) n root_hex None None))) (\<lambda>row.
        case row of
          None \<Rightarrow> fail (NoFileRow root_hex)
        | Some info \<Rightarrow>
            bind_act (map_err RpcError (call (\<lambda>n. cr_active_nodes (ie_rpc E) n (fi_assignment_height info)))) (\<lambda>raw.
            bind_act (map_err BadAddress (lift (eligible_archive_addresses (ie_libs E) raw))) (\<lambda>snapshot.
              ret (info, snapshot)))))"

section \<open>S0: chunking\<close>

text \<open>The tree is rebuilt from the manifest's chunk hashes; a panic of the chunker does not return.\<close>

definition s0_chunk :: "ingest_env \<Rightarrow> local_file \<Rightarrow> ('w, ingest_error, data_manifest \<times> bytes \<times> merkle_tree) act" where
  "s0_chunk E file w =
     (case lf_bytes file of
        Inl e \<Rightarrow> Some (Inl (FileError e), w)
      | Inr mapped \<Rightarrow>
         (case chunk_file (xl_digest (ie_libs E)) (lf_name file) mapped of
            None \<Rightarrow> None
          | Some m \<Rightarrow> Some (Inr (m, mapped, build (blake3 (xl_digest (ie_libs E))) (map cd_hash (chunks m))), w)))"

section \<open>S1: registration\<close>

definition registration_error :: "tx_wait_error \<Rightarrow> ingest_error" where
  "registration_error e =
     (case e of
        WaitFailed _ reason \<Rightarrow> SentRegistration Rejected (TxFailedAtChain reason)
      | WaitDropped \<Rightarrow> SentRegistration Rejected TxWasDropped
      | WaitTimeout status \<Rightarrow> SentRegistration Unconfirmed (TxTimedOut status)
      | WaitRpc e \<Rightarrow> SentRegistration Unconfirmed (RpcError e))"

definition s1_register_pending ::
    "ingest_env \<Rightarrow> data_manifest \<Rightarrow> u64 \<Rightarrow> byte \<Rightarrow> access_entry_mirror list
       \<Rightarrow> ('z chain_world_scheme, ingest_error, string \<times> u64) act" where
  "s1_register_pending E m stored_size_bytes visibility initial_access =
     (let P = ie_params E in
      bind_act (map_err RpcError (call (\<lambda>n. cr_nonce (ie_rpc E) n (my_addr_base58 E)))) (\<lambda>nonce.
      bind_act (map_err BuildError (lift (build_register_file_pending_v2_tx (xl_sign (ie_libs E)) (ie_seed E) (p_chain_id P) nonce
          (p_fee_per_tx P) (merkle_root m) (total_size_bytes m) stored_size_bytes (chunk_count m) (p_fee_deposit P) visibility
          initial_access))) (\<lambda>tx_hex.
      bind_act (map_err (\<lambda>e. SentRegistration Unconfirmed (RpcError e)) (send_raw_transaction (ie_rpc E) tx_hex)) (\<lambda>tx_hash.
      bind_act (map_err registration_error (await_finality (ie_rpc E) tx_hash (p_poll_interval P) (p_finality_timeout P))) (\<lambda>height.
        ret (tx_hash, height))))))"

section \<open>Discovery\<close>

definition wait_turns :: "ingest_env \<Rightarrow> (ingest_world, 'e, nat) act" where
  "wait_turns E w = Some (Inr (ie_turns E (iw_waits w)), w\<lparr>iw_waits := Suc (iw_waits w)\<rparr>)"

definition next_event :: "(ingest_world, 'e, sum_net_event option) act" where
  "next_event w =
     (case iw_events w of
        [] \<Rightarrow> Some (Inr None, w)
      | ev # evs \<Rightarrow> Some (Inr (Some ev), w\<lparr>iw_events := evs\<rparr>))"

definition seed_known :: "peer_map \<Rightarrow> addr20 list \<Rightarrow> archive_discovery \<Rightarrow> archive_discovery" where
  "seed_known peers addrs d =
     fold (\<lambda>addr d. case resolve peers addr of None \<Rightarrow> d | Some p \<Rightarrow> seed_peer p addr d) addrs d"

text \<open>
  The clock of one discovery counts the events it has read; its deadline is the number of turns. With no
  event left the loop sleeps to the deadline, unless the swarm has shut down.
\<close>

fun await_loop ::
    "nat \<Rightarrow> bool \<Rightarrow> nat \<Rightarrow> archive_discovery \<Rightarrow> peer_map \<Rightarrow> sum_net_event list
       \<Rightarrow> (discovery_failure + unit) \<times> peer_map \<times> sum_net_event list" where
  "await_loop waited closed now d peers evs =
     (case status_at d now of
        Complete \<Rightarrow> (Inr (), peers, evs)
      | TimedOut missing \<Rightarrow> (Inl (DiscoveryTimedOut (required_len d) missing waited), peers, evs)
      | Waiting _ \<Rightarrow>
         (case evs of
            [] \<Rightarrow> (Inl (if closed then NetworkClosed (required_len d) (missing_archives d)
                        else DiscoveryTimedOut (required_len d) (missing_archives d) waited), peers, evs)
          | ev # rest \<Rightarrow>
              await_loop waited closed (Suc now) (snd (observe_event ev d)) (resolver_observe peers ev) rest))"

declare await_loop.simps [simp del]

definition await_archives :: "ingest_env \<Rightarrow> addr20 set \<Rightarrow> (ingest_world, discovery_failure, unit) act" where
  "await_archives E required =
     bind_act (wait_turns E) (\<lambda>turns w.
       (let d = seed_known (iw_peers w) (sorted_list_of_set required) (discovery_new required turns);
            (r, peers, evs) = await_loop (p_discovery_timeout (ie_params E)) (iw_closed w) 0 d (iw_peers w) (iw_events w) in
        Some (r, w\<lparr>iw_peers := peers, iw_events := evs\<rparr>)))"

definition index_list :: "u32 \<Rightarrow> u32 list" where  \<comment> \<open>\<open>0..chunk_count\<close>\<close>
  "index_list n = map u32_of [0..<unat n]"

definition s1a_require_archives :: "ingest_env \<Rightarrow> hash \<Rightarrow> u32 \<Rightarrow> (ingest_world, ingest_error, unit) act" where
  "s1a_require_archives E rt n =
     (let r = replication E in
      bind_act (map_err RpcError (call (cr_block_height (ie_rpc E)))) (\<lambda>height.
      bind_act (map_err RpcError (call (\<lambda>k. cr_active_nodes (ie_rpc E) k height))) (\<lambda>raw.
      bind_act (map_err BadAddress (lift (eligible_archive_addresses (ie_libs E) raw))) (\<lambda>snapshot.
      bind_act (require (\<not> length snapshot < unat r) (TooFewArchives (length snapshot) height r)) (\<lambda>_.
        map_err DiscoveryRefused (await_archives E (required_archives (ie_wire E) rt snapshot (index_list n) r)))))))"

section \<open>S2: chunk pushes\<close>

definition network_sends :: "ingest_world \<Rightarrow> nat" where
  "network_sends w = length (iw_pushes w) + length (iw_manifests w)"

definition send_one_push ::
    "ingest_env \<Rightarrow> data_manifest \<Rightarrow> bytes \<Rightarrow> merkle_tree \<Rightarrow> u32 \<Rightarrow> peer_id \<Rightarrow> (ingest_world, string, unit) act" where
  "send_one_push E m mapped tree i peer w =
     (if unat i \<ge> length (chunks m) then None
      else
        (let cd = chunks m ! unat i in
         case sub_slice mapped (unat (cd_offset cd)) (unat (cd_offset cd) + unat (cd_size cd)) of
           None \<Rightarrow> None
         | Some piece \<Rightarrow>
            (case generate_proof tree i of
               None \<Rightarrow> None
             | Some path \<Rightarrow>
                 Some (case ie_send_error E (network_sends w) of None \<Rightarrow> Inr () | Some e \<Rightarrow> Inl e,
                       w\<lparr>iw_pushes := iw_pushes w @ [\<lparr>cp_peer = peer, cp_data = piece, cp_root = merkle_root m, cp_index = i,
                           cp_path = path\<rparr>]\<rparr>))))"

type_synonym push_key = "u32 \<times> peer_id"

definition assigned_to :: "ingest_env \<Rightarrow> hash \<Rightarrow> addr20 list \<Rightarrow> u32 \<Rightarrow> addr20 list" where
  "assigned_to E rt snapshot i = assigned_archives (ie_wire E) rt snapshot i (replication E)"

definition push_targets :: "ingest_env \<Rightarrow> peer_map \<Rightarrow> data_manifest \<Rightarrow> addr20 list \<Rightarrow> u32 set \<Rightarrow> push_key list" where
  "push_targets E peers m snapshot todo =
     concat (map (\<lambda>i. if i \<in> todo
                      then List.map_filter (\<lambda>a. map_option (Pair i) (resolve peers a)) (assigned_to E (merkle_root m) snapshot i)
                      else [])
             (index_list (chunk_count m)))"

definition distinct_assigned :: "ingest_env \<Rightarrow> data_manifest \<Rightarrow> addr20 list \<Rightarrow> addr20 set" where
  "distinct_assigned E m snapshot = (\<Union>i \<in> set (index_list (chunk_count m)). set (assigned_to E (merkle_root m) snapshot i))"

definition chunks_replicated_in :: "(u32 \<Rightarrow> peer_id set option) \<Rightarrow> u32 set \<Rightarrow> u32 \<Rightarrow> bool" where
  "chunks_replicated_in acks idxs replication_factor \<longleftrightarrow>
     (\<forall>i \<in> idxs. case acks i of None \<Rightarrow> False | Some s \<Rightarrow> u32_of (card s) \<ge> replication_factor)"

definition under_replicated :: "(u32 \<Rightarrow> peer_id set option) \<Rightarrow> u32 set \<Rightarrow> u32 \<Rightarrow> u32 list" where
  "under_replicated acks idxs r =
     sorted_list_of_set {i \<in> idxs. case acks i of None \<Rightarrow> True | Some s \<Rightarrow> u32_of (card s) < r}"

fun push_wave ::
    "ingest_env \<Rightarrow> data_manifest \<Rightarrow> bytes \<Rightarrow> merkle_tree \<Rightarrow> push_key list \<Rightarrow> (push_key \<Rightarrow> nat option)
       \<Rightarrow> (ingest_world, 'e, push_key \<Rightarrow> nat option) act" where
  "push_wave E m mapped tree [] attempts = ret attempts"
| "push_wave E m mapped tree (k # ks) attempts =
     bind_act (attempt (send_one_push E m mapped tree (fst k) (snd k))) (\<lambda>r.
       push_wave E m mapped tree ks (case r of Inr _ \<Rightarrow> attempts(k \<mapsto> 1) | Inl _ \<Rightarrow> attempts))"

definition on_push_event ::
    "ingest_env \<Rightarrow> data_manifest \<Rightarrow> bytes \<Rightarrow> merkle_tree \<Rightarrow> (push_key \<Rightarrow> nat option) \<Rightarrow> (u32 \<Rightarrow> peer_id set option) \<Rightarrow> sum_net_event
       \<Rightarrow> (ingest_world, 'e, (push_key \<Rightarrow> nat option) \<times> (u32 \<Rightarrow> peer_id set option)) act" where
  "on_push_event E m mapped tree attempts acked ev =
     (case ev of
        ShardReceivedV2 peer (PushAck rt i error) \<Rightarrow>
          if rt \<noteq> merkle_root m then ret (attempts, acked)
          else
            (case attempts (i, peer) of
               None \<Rightarrow> ret (attempts, acked)
             | Some n \<Rightarrow>
                (case error of
                   None \<Rightarrow> ret (attempts, acked(i \<mapsto> insert peer (case acked i of None \<Rightarrow> {} | Some s \<Rightarrow> s)))
                 | Some _ \<Rightarrow>
                     if n \<le> unat (p_push_retries (ie_params E)) then
                       bind_act (attempt (send_one_push E m mapped tree i peer)) (\<lambda>_. ret (attempts((i, peer) \<mapsto> Suc n), acked))
                     else ret (attempts, acked)))
      | _ \<Rightarrow> ret (attempts, acked))"

fun push_loop ::
    "ingest_env \<Rightarrow> data_manifest \<Rightarrow> bytes \<Rightarrow> merkle_tree \<Rightarrow> u32 set \<Rightarrow> nat \<Rightarrow> (push_key \<Rightarrow> nat option) \<Rightarrow> (u32 \<Rightarrow> peer_id set option)
       \<Rightarrow> (ingest_world, 'e, u32 \<Rightarrow> peer_id set option) act" where
  "push_loop E m mapped tree todo 0 attempts acked = ret acked"
| "push_loop E m mapped tree todo (Suc turns) attempts acked =
     (if chunks_replicated_in acked todo (replication E) then ret acked
      else
        bind_act next_event (\<lambda>event.
          case event of
            None \<Rightarrow> ret acked
          | Some ev \<Rightarrow>
              bind_act (on_push_event E m mapped tree attempts acked ev) (\<lambda>(attempts', acked').
                push_loop E m mapped tree todo turns attempts' acked')))"

datatype push_failure = PushFailure "u32 list" "ingest_error option"

definition s2_push_chunks ::
    "ingest_env \<Rightarrow> data_manifest \<Rightarrow> bytes \<Rightarrow> merkle_tree \<Rightarrow> addr20 list \<Rightarrow> u32 set \<Rightarrow> (ingest_world, push_failure, addr20 set) act" where
  "s2_push_chunks E m mapped tree snapshot chunks_to_push =
     (let r = replication E;
          required = required_archives (ie_wire E) (merkle_root m) snapshot (sorted_list_of_set chunks_to_push) r in
      bind_act (attempt (await_archives E required)) (\<lambda>discovery.
      bind_act (gets iw_peers) (\<lambda>peers.
      bind_act (push_wave E m mapped tree (push_targets E peers m snapshot chunks_to_push)
                 (\<lambda>k. if k \<in> set (push_targets E peers m snapshot chunks_to_push) then Some 0 else None)) (\<lambda>attempts.
      bind_act (wait_turns E) (\<lambda>turns.
      bind_act (push_loop E m mapped tree chunks_to_push turns attempts (\<lambda>_. None)) (\<lambda>acked.
        (let under = under_replicated acked chunks_to_push r in
         if under = [] then ret (distinct_assigned E m snapshot)
         else fail (PushFailure under (case discovery of Inl f \<Rightarrow> Some (DiscoveryIncomplete f) | Inr _ \<Rightarrow> None)))))))))"

section \<open>S3: the manifest\<close>

definition push_manifest_v2 :: "ingest_env \<Rightarrow> peer_id \<Rightarrow> hash \<Rightarrow> bytes \<Rightarrow> (ingest_world, string, unit) act" where
  "push_manifest_v2 E peer rt payload w =
     Some (case ie_send_error E (network_sends w) of None \<Rightarrow> Inr () | Some e \<Rightarrow> Inl e,
           w\<lparr>iw_manifests := iw_manifests w @ [\<lparr>mp_peer = peer, mp_root = rt, mp_bytes = payload\<rparr>]\<rparr>)"

fun manifest_wave :: "ingest_env \<Rightarrow> hash \<Rightarrow> bytes \<Rightarrow> peer_id list \<Rightarrow> (ingest_world, string, unit) act" where
  "manifest_wave E rt payload [] = ret ()"
| "manifest_wave E rt payload (p # ps) =
     bind_act (push_manifest_v2 E p rt payload) (\<lambda>_. manifest_wave E rt payload ps)"

fun manifest_loop :: "hash \<Rightarrow> peer_id set \<Rightarrow> nat \<Rightarrow> peer_id set \<Rightarrow> (ingest_world, 'e, peer_id set) act" where
  "manifest_loop rt needed 0 acked = ret acked"
| "manifest_loop rt needed (Suc turns) acked =
     (if \<not> card acked < card needed then ret acked
      else
        bind_act next_event (\<lambda>event.
          case event of
            None \<Rightarrow> ret acked
          | Some ev \<Rightarrow>
              manifest_loop rt needed turns
                (case ev of
                   ShardReceivedV2 peer (ManifestPushAck r err) \<Rightarrow>
                     if r = rt \<and> err = None \<and> peer \<in> needed then insert peer acked else acked
                 | _ \<Rightarrow> acked)))"

definition manifest_targets :: "peer_map \<Rightarrow> addr20 set \<Rightarrow> peer_id list" where
  "manifest_targets peers assigned = remdups_adj (sort (List.map_filter (resolve peers) (sorted_list_of_set assigned)))"

definition s3_push_manifest ::
    "ingest_env \<Rightarrow> data_manifest \<Rightarrow> addr20 set \<Rightarrow> bytes option \<Rightarrow> (ingest_world, ingest_error, unit) act" where
  "s3_push_manifest E m assigned override_bytes =
     bind_act (gets iw_peers) (\<lambda>peers.
       (let targets = manifest_targets peers assigned;
            needed = set targets in
        bind_act (case override_bytes of Some b \<Rightarrow> ret b | None \<Rightarrow> map_err ManifestEncode (lift (cbor_ser (ie_cbor E) m))) (\<lambda>manifest_bytes.
        bind_act (map_err ManifestSend (manifest_wave E (merkle_root m) manifest_bytes targets)) (\<lambda>_.
        bind_act (wait_turns E) (\<lambda>turns.
        bind_act (manifest_loop (merkle_root m) needed turns {}) (\<lambda>acked.
          require (\<not> card acked < card needed) (ManifestAcks (card acked) (card needed))))))))"

section \<open>S4 and S5: coverage and activation\<close>

datatype s4_wait_error = S4Timeout "assignment_coverage_v2 option" | S4NotFound

fun s4_loop :: "ingest_env \<Rightarrow> string \<Rightarrow> nat \<Rightarrow> assignment_coverage_v2 option \<Rightarrow> ('z chain_world_scheme, s4_wait_error, assignment_coverage_v2) act" where
  "s4_loop E root_hex turns latest =
     bind_act (attempt (call (\<lambda>n. cr_coverage (ie_rpc E) n root_hex None None))) (\<lambda>r.
       case r of
         Inr None \<Rightarrow> fail S4NotFound
       | _ \<Rightarrow>
          (let latest' = (case r of Inr (Some cov) \<Rightarrow> Some cov | _ \<Rightarrow> latest) in
           if (case r of Inr (Some cov) \<Rightarrow> ac_can_activate_now cov | _ \<Rightarrow> False) then ret (the latest')
           else (case turns of 0 \<Rightarrow> fail (S4Timeout latest') | Suc t \<Rightarrow> s4_loop E root_hex t latest')))"

declare s4_loop.simps [simp del]

definition s4_wait_coverage :: "ingest_env \<Rightarrow> hash \<Rightarrow> (ingest_world, s4_wait_error, assignment_coverage_v2) act" where
  "s4_wait_coverage E rt = bind_act (wait_turns E) (\<lambda>turns. s4_loop E (''0x'' @ hex_encode rt) turns None)"

definition submit_error :: "tx_wait_error \<Rightarrow> ingest_error" where
  "submit_error e =
     (case e of WaitFailed _ reason \<Rightarrow> TxFailedAtChain reason | WaitDropped \<Rightarrow> TxWasDropped
      | WaitTimeout status \<Rightarrow> TxTimedOut status | WaitRpc e \<Rightarrow> RpcError e)"

definition s5_activate :: "ingest_env \<Rightarrow> hash \<Rightarrow> ('z chain_world_scheme, ingest_error, string \<times> u64) act" where
  "s5_activate E rt =
     (let P = ie_params E in
      bind_act (map_err RpcError (call (\<lambda>n. cr_nonce (ie_rpc E) n (my_addr_base58 E)))) (\<lambda>nonce.
      bind_act (map_err BuildError (lift (build_activate_file_v2_tx (xl_sign (ie_libs E)) (ie_seed E) (p_chain_id P) nonce
          (p_fee_per_tx P) rt))) (\<lambda>tx_hex.
      bind_act (map_err RpcError (send_raw_transaction (ie_rpc E) tx_hex)) (\<lambda>tx_hash.
      bind_act (map_err submit_error (await_finality (ie_rpc E) tx_hash (p_poll_interval P) (p_finality_timeout P))) (\<lambda>height.
        ret (tx_hash, height))))))"

section \<open>Public ingestion\<close>

text \<open>Stages S2 to S6 of a registered file, which \<open>run\<close> and \<open>run_private\<close> share line by line.\<close>

definition pending ::
    "data_manifest \<Rightarrow> ingest_stage \<Rightarrow> assignment_coverage_v2 option \<Rightarrow> u32 list option \<Rightarrow> suggested_action \<Rightarrow> ingest_error option
       \<Rightarrow> ingest_outcome" where
  "pending m stage cov few act err = PendingNeedsAction (merkle_root m) m stage cov few act err"

definition s4_outcome :: "data_manifest \<Rightarrow> s4_wait_error \<Rightarrow> ingest_outcome" where
  "s4_outcome m e =
     (case e of
        S4Timeout latest \<Rightarrow> pending m CoverageStage latest None Resume None
      | S4NotFound \<Rightarrow> pending m CoverageStage None None Abandon (Some NoCoverageRow))"

definition push_outcome :: "data_manifest \<Rightarrow> assignment_coverage_v2 option \<Rightarrow> push_failure \<Rightarrow> ingest_outcome" where
  "push_outcome m cov f = (case f of PushFailure few err \<Rightarrow> pending m PushStage cov (Some few) Resume err)"

definition push_and_activate ::
    "ingest_env \<Rightarrow> data_manifest \<Rightarrow> bytes \<Rightarrow> merkle_tree \<Rightarrow> bytes option \<Rightarrow> string \<times> u64 \<Rightarrow> (ingest_world, ingest_outcome, ingest_outcome) act" where
  "push_and_activate E m mapped tree override reg =
     (let rt = merkle_root m in
      bind_act (map_err (\<lambda>e. pending m PushStage None None Resume (Some e)) (fetch_assignment_inputs E rt)) (\<lambda>(info, snapshot).
      bind_act (require (snapshot \<noteq> []) (pending m PushStage None None Abandon (Some (EmptySnapshot (fi_assignment_height info))))) (\<lambda>_.
      bind_act (map_err (push_outcome m None) (s2_push_chunks E m mapped tree snapshot (set (index_list (chunk_count m))))) (\<lambda>assigned.
      bind_act (map_err (\<lambda>e. pending m ManifestPushStage None None Resume (Some e)) (s3_push_manifest E m assigned override)) (\<lambda>_.
      bind_act (map_err (s4_outcome m) (s4_wait_coverage E rt)) (\<lambda>last_coverage.
      bind_act (map_err (\<lambda>e. pending m ActivateStage (Some last_coverage) None Resume (Some e)) (s5_activate E rt)) (\<lambda>(activate_tx_hash, activate_height).
        ret (Activated rt m (fst reg) (snd reg) activate_tx_hash activate_height))))))))"

definition refuse :: "data_manifest option \<Rightarrow> ingest_error \<Rightarrow> ingest_outcome" where
  "refuse m e = IngestFailed RegisterStage m e"

definition run_body :: "ingest_env \<Rightarrow> local_file \<Rightarrow> (ingest_world, ingest_outcome, ingest_outcome) act" where
  "run_body E file =
     bind_act (require (replication E \<noteq> 0) (refuse None ReplicationFactorZero)) (\<lambda>_.
     bind_act (map_err (refuse None) (check_v2_enabled E)) (\<lambda>_.
     bind_act (map_err (refuse None) (s0_chunk E file)) (\<lambda>(m, mapped, tree).
     bind_act (require (\<not> chunk_count m > p_max_chunk_count_per_file (ie_params E))
                (refuse (Some m) (ChunkCountExceeds (chunk_count m) (p_max_chunk_count_per_file (ie_params E))))) (\<lambda>_.
     bind_act (map_err (refuse (Some m)) (s1a_require_archives E (merkle_root m) (chunk_count m))) (\<lambda>_.
     bind_act (map_err (refuse (Some m)) (s1_register_pending E m (total_size_bytes m) 0 [])) (\<lambda>reg.
       push_and_activate E m mapped tree None reg))))))"

text \<open>An early return and the last expression are both the outcome.\<close>

definition outcome_of :: "('w, 'a, 'a) act \<Rightarrow> 'w \<Rightarrow> ('a \<times> 'w) option" where
  "outcome_of m w = map_option (\<lambda>(r, w1). (case r of Inl x \<Rightarrow> x | Inr x \<Rightarrow> x, w1)) (m w)"

definition run :: "ingest_env \<Rightarrow> local_file \<Rightarrow> ingest_world \<Rightarrow> (ingest_outcome \<times> ingest_world) option" where
  "run E file = outcome_of (run_body E file)"

section \<open>Private ingestion\<close>

definition PRIVATE_PLAINTEXT_CHUNK_SIZE :: nat where "PRIVATE_PLAINTEXT_CHUNK_SIZE = CHUNK_SIZE - TAG_SIZE"

record private_recipient =
  pr_l1_address :: addr20
  pr_x25519_pubkey :: bytes
  pr_expires_at :: "u64 option"

record private_ingest_spec =
  ps_owner_l1_address :: addr20
  ps_owner_x25519_pubkey :: bytes
  ps_recipients :: "private_recipient list"

record private_artifacts =
  pa_ciphertext :: bytes
  pa_manifest :: data_manifest
  pa_encrypted_manifest :: bytes
  pa_stored_size_bytes :: u64

record private_encrypted =
  pe_artifacts :: private_artifacts
  pe_initial_access :: "access_entry_mirror list"

text \<open>The loop over the plaintext chunks; \<open>None\<close> is the panic of an out-of-range slice.\<close>

fun private_chunks ::
    "digest_lib \<Rightarrow> crypto_lib \<Rightarrow> bytes \<Rightarrow> bytes \<Rightarrow> nat list \<Rightarrow> u64 \<Rightarrow> u64 \<Rightarrow> chunk_descriptor list \<Rightarrow> bytes
       \<Rightarrow> (string + chunk_descriptor list \<times> bytes \<times> u64) option" where
  "private_chunks L K k_file mapped [] offset stored descs ct = Some (Inr (descs, ct, stored))"
| "private_chunks L K k_file mapped (i # is) offset stored descs ct =
     (let start = i * PRIVATE_PLAINTEXT_CHUNK_SIZE;
          stop = min (start + PRIVATE_PLAINTEXT_CHUNK_SIZE) (length mapped) in
      case sub_slice mapped start stop of
        None \<Rightarrow> None
      | Some pt \<Rightarrow>
         (let c = encrypt_chunk K k_file (u32_of i) pt;
              desc = \<lparr>cd_index = u32_of i, cd_offset = offset, cd_size = u64_of (length c), cd_hash = blake3 L c,
                      cd_cid = cid_from_data L c, cd_plaintext_hash = Some (blake3 L pt)\<rparr> in
          case checked_add offset (u64_of (length c)) of
            None \<Rightarrow> Some (Inl ''private artifacts: ciphertext offset overflow'')
          | Some offset' \<Rightarrow>
             (case checked_add stored (u64_of (length c)) of
                None \<Rightarrow> Some (Inl ''private artifacts: stored_total overflow'')
              | Some stored' \<Rightarrow> private_chunks L K k_file mapped is offset' stored' (descs @ [desc]) (ct @ c))))"

definition build_private_artifacts ::
    "access_libs \<Rightarrow> cbor_lib \<Rightarrow> string option \<Rightarrow> local_file \<Rightarrow> bytes \<Rightarrow> (string + private_artifacts) option" where
  "build_private_artifacts X B temp_error file k_file =
     (let L = xl_digest X; K = xl_crypto X in
      case lf_bytes file of
        Inl e \<Rightarrow> Some (Inl (''private artifacts: open failed: '' @ e))
      | Inr mapped \<Rightarrow>
          if mapped = [] then Some (Inl ''private artifacts: empty file is not supported'')
          else
            (let n = div_ceil (length mapped) PRIVATE_PLAINTEXT_CHUNK_SIZE in
             if n \<ge> 2 ^ 32 then Some (Inl ''private artifacts: chunk_count overflows u32'')
             else
               (case temp_error of
                  Some e \<Rightarrow> Some (Inl (''private artifacts: ciphertext tempfile failed: '' @ e))
                | None \<Rightarrow>
                   (case private_chunks L K k_file mapped [0..<n] 0 0 [] [] of
                      None \<Rightarrow> None
                    | Some (Inl e) \<Rightarrow> Some (Inl e)
                    | Some (Inr (descs, ct, stored)) \<Rightarrow>
                       (let m = \<lparr>file_name = lf_name file, file_hash = blake3 L mapped, total_size_bytes = u64_of (length mapped),
                                 chunk_count = u32_of n, merkle_root = root (build (blake3 L) (map cd_hash descs)), chunks = descs\<rparr> in
                        case cbor_ser B m of
                          Inl e \<Rightarrow> Some (Inl (''private artifacts: manifest CBOR encode failed: '' @ e))
                        | Inr cbor \<Rightarrow>
                            Some (Inr \<lparr>pa_ciphertext = ct, pa_manifest = m, pa_encrypted_manifest = encrypt_manifest K k_file cbor,
                                       pa_stored_size_bytes = stored\<rparr>))))))"

text \<open>\<open>rng k\<close> is the \<open>k\<close>-th draw from \<open>OsRng\<close>.\<close>

fun wrap_recipients :: "crypto_lib \<Rightarrow> (nat \<Rightarrow> bytes) \<Rightarrow> bytes \<Rightarrow> nat \<Rightarrow> private_recipient list \<Rightarrow> crypto_error + access_entry_mirror list" where
  "wrap_recipients K rng k_file k [] = Inr []"
| "wrap_recipients K rng k_file k (r # rs) =
     (case wrap_for_recipient K (rng k) k_file (pr_l1_address r) (pr_x25519_pubkey r) of
        Inl e \<Rightarrow> Inl e
      | Inr b \<Rightarrow>
          map_sum id ((#) \<lparr>am_address = pr_l1_address r, am_encrypted_key_bundle = Some b, am_expires_at = pr_expires_at r\<rparr>)
            (wrap_recipients K rng k_file (Suc k) rs))"

definition encrypt_for_private ::
    "access_libs \<Rightarrow> cbor_lib \<Rightarrow> string option \<Rightarrow> (nat \<Rightarrow> bytes) \<Rightarrow> local_file \<Rightarrow> private_ingest_spec \<Rightarrow> (ingest_error + private_encrypted) option" where
  "encrypt_for_private X B temp_error rng file spec =
     (let k_file = rng 0 in
      case build_private_artifacts X B temp_error file k_file of
        None \<Rightarrow> None
      | Some (Inl e) \<Rightarrow> Some (Inl (FileError e))
      | Some (Inr a) \<Rightarrow>
          Some (case wrap_recipients (xl_crypto X) rng k_file 1
                       (\<lparr>pr_l1_address = ps_owner_l1_address spec, pr_x25519_pubkey = ps_owner_x25519_pubkey spec, pr_expires_at = None\<rparr>
                        # ps_recipients spec) of
                  Inl e \<Rightarrow> Inl (KeyRecovery (BundleWrap e))
                | Inr access \<Rightarrow> Inr \<lparr>pe_artifacts = a, pe_initial_access = access\<rparr>))"

definition partial :: "('e + 'a) option \<Rightarrow> ('w, 'e, 'a) act" where  \<comment> \<open>a computation that may panic\<close>
  "partial r w = map_option (\<lambda>x. (x, w)) r"

definition run_private_body ::
    "ingest_env \<Rightarrow> (nat \<Rightarrow> bytes) \<Rightarrow> local_file \<Rightarrow> private_ingest_spec \<Rightarrow> (ingest_world, ingest_outcome, ingest_outcome) act" where
  "run_private_body E rng file spec =
     bind_act (require (replication E \<noteq> 0) (refuse None ReplicationFactorZero)) (\<lambda>_.
     bind_act (map_err (refuse None) (check_v2_enabled E)) (\<lambda>_.
     bind_act (map_err (refuse None) (partial (encrypt_for_private (ie_libs E) (ie_cbor E) (ie_temp_error E) rng file spec))) (\<lambda>pe.
       (let a = pe_artifacts pe; m = pa_manifest a in
        bind_act (require (\<not> chunk_count m > p_max_chunk_count_per_file (ie_params E))
                   (refuse (Some m) (ChunkCountExceeds (chunk_count m) (p_max_chunk_count_per_file (ie_params E))))) (\<lambda>_.
        bind_act (map_err (refuse (Some m)) (s1a_require_archives E (merkle_root m) (chunk_count m))) (\<lambda>_.
        bind_act (map_err (refuse (Some m)) (s1_register_pending E m (pa_stored_size_bytes a) 1 (pe_initial_access pe))) (\<lambda>reg.
          push_and_activate E m (pa_ciphertext a) (build (blake3 (xl_digest (ie_libs E))) (map cd_hash (chunks m)))
            (Some (pa_encrypted_manifest a)) reg)))))))"

definition run_private ::
    "ingest_env \<Rightarrow> (nat \<Rightarrow> bytes) \<Rightarrow> local_file \<Rightarrow> private_ingest_spec \<Rightarrow> ingest_world \<Rightarrow> (ingest_outcome \<times> ingest_world) option" where
  "run_private E rng file spec = outcome_of (run_private_body E rng file spec)"

section \<open>Resume\<close>

partial_function (option) collect_missing_loop ::
    "chain_rpc \<Rightarrow> string \<Rightarrow> u32 set \<Rightarrow> u32 \<Rightarrow> 'z chain_world_scheme \<Rightarrow> ((string + u32 set option) \<times> 'z chain_world_scheme) option" where
  "collect_missing_loop R root_hex missing offset w =
     (let w' = w\<lparr>cw_calls := Suc (cw_calls w)\<rparr> in
      case cr_coverage R (cw_calls w) root_hex (Some offset) None of
        Inl e \<Rightarrow> Some (Inl e, w')
      | Inr None \<Rightarrow> Some (Inr None, w')
      | Inr (Some cov) \<Rightarrow>
          if ac_missing_indices cov = [] then Some (Inr (Some missing), w')
          else
            (let final = last (ac_missing_indices cov);
                 missing' = missing \<union> set (ac_missing_indices cov);
                 offset' = saturating_add final 1 in
             if offset' = final then Some (Inr (Some missing'), w')
             else collect_missing_loop R root_hex missing' offset' w'))"

definition collect_missing_indices :: "ingest_env \<Rightarrow> hash \<Rightarrow> ('z chain_world_scheme, string, u32 set option) act" where
  "collect_missing_indices E rt = collect_missing_loop (ie_rpc E) (''0x'' @ hex_encode rt) {} 0"

text \<open>The file as registered: plaintext chunks, or the ciphertext under the key of the owner's bundle.\<close>

definition resume_source ::
    "ingest_env \<Rightarrow> storage_file_info_v2 \<Rightarrow> hash \<Rightarrow> local_file
       \<Rightarrow> ('w, ingest_outcome, data_manifest \<times> bytes \<times> merkle_tree \<times> bytes option) act" where
  "resume_source E info rt file =
     (if is_private (fi_visibility info) then
        bind_act (require (fi_owner info = my_addr_base58 E) (refuse None (NotFileOwner (my_addr_base58 E) (fi_owner info)))) (\<lambda>_.
        bind_act (map_err (\<lambda>e. refuse None (KeyRecovery e))
          (lift (recover_k_file_from_seed_page (ie_libs E) (ie_seed E) (ie_my_addr E) (my_addr_base58 E) info))) (\<lambda>k_file.
        bind_act (map_err (\<lambda>e. refuse None (FileError e))
          (partial (build_private_artifacts (ie_libs E) (ie_cbor E) (ie_temp_error E) file k_file))) (\<lambda>a.
        bind_act (require (merkle_root (pa_manifest a) = rt) (RootMismatch rt (merkle_root (pa_manifest a)) (pa_manifest a))) (\<lambda>_.
          ret (pa_manifest a, pa_ciphertext a, build (blake3 (xl_digest (ie_libs E))) (map cd_hash (chunks (pa_manifest a))),
               Some (pa_encrypted_manifest a))))))
      else
        bind_act (map_err (refuse None) (s0_chunk E file)) (\<lambda>(m, mapped, tree).
        bind_act (require (merkle_root m = rt) (RootMismatch rt (merkle_root m) m)) (\<lambda>_.
          ret (m, mapped, tree, None))))"

definition resume_snapshot :: "ingest_env \<Rightarrow> data_manifest \<Rightarrow> storage_file_info_v2 \<Rightarrow> ('z chain_world_scheme, ingest_outcome, addr20 list) act" where
  "resume_snapshot E m info =
     bind_act (map_err (\<lambda>e. pending m PushStage None None Resume (Some (RpcError e)))
       (call (\<lambda>n. cr_active_nodes (ie_rpc E) n (fi_assignment_height info)))) (\<lambda>raw.
     bind_act (map_err (\<lambda>e. pending m PushStage None None Resume (Some (BadAddress e)))
       (lift (map_sum id (\<lambda>d. remdups_adj (sort d)) (decode_addresses (ie_libs E) (filter_active_archives raw))))) (\<lambda>snapshot.
     bind_act (require (snapshot \<noteq> []) (pending m PushStage None None Abandon (Some (EmptySnapshot (fi_assignment_height info))))) (\<lambda>_.
       ret snapshot)))"

definition resume_push ::
    "ingest_env \<Rightarrow> data_manifest \<Rightarrow> bytes \<Rightarrow> merkle_tree \<Rightarrow> bytes option \<Rightarrow> addr20 list \<Rightarrow> assignment_coverage_v2
       \<Rightarrow> (ingest_world, ingest_outcome, assignment_coverage_v2) act" where
  "resume_push E m mapped tree override snapshot coverage =
     bind_act (map_err (\<lambda>e. pending m CoverageStage (Some coverage) None Resume (Some (RpcError e)))
       (collect_missing_indices E (merkle_root m))) (\<lambda>found.
       case found of
         None \<Rightarrow> fail (pending m CoverageStage (Some coverage) None Abandon (Some NoCoverageRow))
       | Some missing \<Rightarrow>
           bind_act (map_err (push_outcome m (Some coverage)) (s2_push_chunks E m mapped tree snapshot missing)) (\<lambda>assigned.
           bind_act (map_err (\<lambda>e. pending m ManifestPushStage (Some coverage) None Resume (Some e))
             (s3_push_manifest E m assigned override)) (\<lambda>_.
             map_err (s4_outcome m) (s4_wait_coverage E (merkle_root m)))))"

text \<open>The branches of a registered file by its lifecycle; a pending one is pushed as far as it needs and activated.\<close>

definition resume_pending ::
    "ingest_env \<Rightarrow> storage_file_info_v2 \<Rightarrow> data_manifest \<Rightarrow> bytes \<Rightarrow> merkle_tree \<Rightarrow> bytes option \<Rightarrow> (ingest_world, ingest_outcome, ingest_outcome) act" where
  "resume_pending E info m mapped tree override =
     (let rt = merkle_root m in
      bind_act (resume_snapshot E m info) (\<lambda>snapshot.
      bind_act (map_err (\<lambda>e. pending m CoverageStage None None Resume (Some (RpcError e)))
        (call (\<lambda>n. cr_coverage (ie_rpc E) n (''0x'' @ hex_encode rt) None None))) (\<lambda>cov.
        case cov of
          None \<Rightarrow> fail (pending m CoverageStage None None Abandon (Some NoCoverageRow))
        | Some coverage \<Rightarrow>
            bind_act (if ac_can_activate_now coverage then ret coverage
                      else resume_push E m mapped tree override snapshot coverage) (\<lambda>last_coverage.
            bind_act (map_err (\<lambda>e. pending m ActivateStage (Some last_coverage) None Resume (Some e)) (s5_activate E rt))
              (\<lambda>(activate_tx_hash, activate_height).
                ret (ResumedActivated rt m (fi_created_at info) activate_tx_hash activate_height))))))"

definition resume_lifecycle ::
    "ingest_env \<Rightarrow> storage_file_info_v2 \<Rightarrow> data_manifest \<Rightarrow> bytes \<Rightarrow> merkle_tree \<Rightarrow> bytes option \<Rightarrow> (ingest_world, ingest_outcome, ingest_outcome) act" where
  "resume_lifecycle E info m mapped tree override =
     (let rt = merkle_root m in
      if is_active_file (fi_lifecycle info) then
        (case fi_activated_at_height info of
           None \<Rightarrow> fail (refuse (Some m) (ChainShapeCorruption rt))
         | Some h \<Rightarrow> ret (ActivatedOnChain rt m (fi_created_at info) h))
      else if is_abandoned (fi_lifecycle info) then ret (AbandonedOnChain rt m (fi_abandoned_at_height info))
      else if \<not> is_pending (fi_lifecycle info) then fail (refuse (Some m) (UnexpectedLifecycle (fi_lifecycle info)))
      else resume_pending E info m mapped tree override)"

definition resume_body :: "ingest_env \<Rightarrow> hash \<Rightarrow> local_file \<Rightarrow> (ingest_world, ingest_outcome, ingest_outcome) act" where
  "resume_body E rt file =
     (let root_hex = ''0x'' @ hex_encode rt in
      bind_act (require (replication E \<noteq> 0) (refuse None ReplicationFactorZero)) (\<lambda>_.
      bind_act (map_err (refuse None) (check_v2_enabled E)) (\<lambda>_.
      bind_act (map_err (\<lambda>e. refuse None (RpcError e)) (call (\<lambda>n. cr_file_info (ie_rpc E) n root_hex None None))) (\<lambda>row.
        case row of
          None \<Rightarrow> fail (refuse None (NoFileRow root_hex))
        | Some info \<Rightarrow>
            bind_act (resume_source E info rt file) (\<lambda>(m, mapped, tree, override). resume_lifecycle E info m mapped tree override)))))"

definition resume :: "ingest_env \<Rightarrow> hash \<Rightarrow> local_file \<Rightarrow> ingest_world \<Rightarrow> (ingest_outcome \<times> ingest_world) option" where
  "resume E rt file = outcome_of (resume_body E rt file)"

section \<open>Abandon\<close>

datatype abandon_outcome =
    Abandoned string u64
  | NotAdmissible string u64 u64
  | AbandonFailed ingest_error

definition abandon_body :: "ingest_env \<Rightarrow> hash \<Rightarrow> ('z chain_world_scheme, abandon_outcome, abandon_outcome) act" where
  "abandon_body E rt =
     (let root_hex = ''0x'' @ hex_encode rt; P = ie_params E in
      bind_act (map_err AbandonFailed (check_v2_enabled E)) (\<lambda>current_height.
      bind_act (map_err (\<lambda>e. AbandonFailed (RpcError e)) (call (\<lambda>n. cr_file_info (ie_rpc E) n root_hex None None))) (\<lambda>row.
        case row of
          None \<Rightarrow> fail (NotAdmissible (''file '' @ root_hex @ '' is not registered on chain'') current_height 0)
        | Some info \<Rightarrow>
            if \<not> is_pending (fi_lifecycle info) then
              fail (NotAdmissible (''lifecycle byte '' @ dec_of_nat (unat (fi_lifecycle info)) @ '' (expected Pending = 0)'') current_height 0)
            else
              (let earliest = saturating_add (saturating_add (fi_created_at info) (p_activation_grace_blocks P)) 1 in
               if current_height < earliest then
                 fail (NotAdmissible (''activation grace not yet expired (chain plan '' @ [CHR 0xC2, CHR 0xA7]
                        @ ''3.5: current_height must be > created_at + activation_grace_blocks; created_at=''
                        @ dec_of_nat (unat (fi_created_at info)) @ '', grace=''
                        @ dec_of_nat (unat (p_activation_grace_blocks P)) @ '')'') current_height earliest)
               else
                 bind_act (map_err (\<lambda>e. AbandonFailed (RpcError e)) (call (\<lambda>n. cr_nonce (ie_rpc E) n (my_addr_base58 E)))) (\<lambda>nonce.
                 bind_act (map_err (\<lambda>e. AbandonFailed (BuildError e)) (lift (build_abandon_file_v2_tx (xl_sign (ie_libs E)) (ie_seed E)
                     (p_chain_id P) nonce (p_fee_per_tx P) rt))) (\<lambda>tx_hex.
                 bind_act (map_err (\<lambda>e. AbandonFailed (RpcError e)) (send_raw_transaction (ie_rpc E) tx_hex)) (\<lambda>tx_hash.
                 bind_act (map_err (\<lambda>e. AbandonFailed (submit_error e))
                     (await_finality (ie_rpc E) tx_hash (p_poll_interval P) (p_finality_timeout P))) (\<lambda>height.
                   ret (Abandoned tx_hash height)))))))))"

definition abandon :: "ingest_env \<Rightarrow> hash \<Rightarrow> 'z chain_world_scheme \<Rightarrow> (abandon_outcome \<times> 'z chain_world_scheme) option" where
  "abandon E rt = outcome_of (abandon_body E rt)"

end
