(* ===== verification/Ingest_Demo.thy ===== *)
theory Ingest_Demo
  imports Ingest
begin

text \<open>
  One ingestion carried out in full: a file of one byte, one archive, a chain that confirms every
  transaction and a network that identifies the archive's peer and acknowledges both pushes.
\<close>

definition demo_archive_addr :: addr20 where "demo_archive_addr = replicate 20 1"
definition demo_ing_root :: hash where "demo_ing_root = 7 # replicate 31 0"

definition demo_ing_info :: storage_file_info_v2 where
  "demo_ing_info = demo_access_info\<lparr>fi_lifecycle := 0, fi_visibility := 0, fi_assignment_height := 5, fi_created_at := 1\<rparr>"

definition demo_ing_cov :: assignment_coverage_v2 where
  "demo_ing_cov = \<lparr>ac_chunk_count = 1, ac_covered_count = 1, ac_can_activate_now = True, ac_missing_total = 0, ac_missing_offset = 0,
     ac_missing_indices = [], ac_per_archive = [], ac_assignment_epochs = [], ac_latest_assignment_epoch = 0, ac_reassignment_needed = False,
     ac_per_epoch = []\<rparr>"

definition demo_ing_rpc :: chain_rpc where
  "demo_ing_rpc = \<lparr>cr_chain_params = (\<lambda>_. Inl ''''), cr_block_height = (\<lambda>_. Inr 5),
     cr_file_info = (\<lambda>n h off lim. Inr (Some demo_ing_info)),
     cr_active_nodes = (\<lambda>_ _. Inr [\<lparr>nr_address = ''a'', nr_role = ''ArchiveNode'', nr_staked_balance = 1, nr_status = ''Active'', nr_registered_at = 1\<rparr>]),
     cr_coverage = (\<lambda>_ _ _ _. Inr (Some demo_ing_cov)), cr_v1_registered = (\<lambda>_ _. Inl ''''),
     cr_encryption_key = (\<lambda>_ _. Inl ''''), cr_nonce = (\<lambda>_ _. Inr 0), cr_send = (\<lambda>_ _. Inr ''h''),
     cr_wait = (\<lambda>_ _. \<lparr>we_status = (\<lambda>_. Inr (TxFinalized 6)), we_delay = (\<lambda>_. 0), we_oversleep = (\<lambda>_. 0)\<rparr>), cr_wait_start = (\<lambda>_. 0)\<rparr>"

definition demo_ing :: ingest_env where
  "demo_ing = \<lparr>ie_libs = demo_access_libs\<lparr>xl_bs58_decode := \<lambda>_. Inr (replicate 24 1),
       xl_hex_decode := \<lambda>s. case parse_hex_pairs s of None \<Rightarrow> Inl '''' | Some b \<Rightarrow> Inr b\<rparr>, ie_wire = demo_wire,
     ie_cbor = \<lparr>cbor_ser = (\<lambda>_. Inr [1]), cbor_de = (\<lambda>_. Inl '''')\<rparr>, ie_rpc = demo_ing_rpc, ie_send_error = (\<lambda>_. None), ie_turns = (\<lambda>_. Suc (Suc 0)),
     ie_temp_error = None, ie_seed = [], ie_my_addr = [],
     ie_params = \<lparr>p_assignment_replication_factor = 1, p_max_chunk_indices_per_tx = 1, p_max_chunk_count_per_file = 9, p_chain_id = 1,
       p_fee_per_tx = 1, p_fee_deposit = 1, p_poll_interval = 1, p_activation_wait_secs = 9, p_finality_timeout = 9, p_push_retries = 0,
       p_push_wait_secs = 9, p_manifest_push_wait_secs = 9, p_discovery_timeout = 9, p_activation_grace_blocks = 2,
       p_v2_enabled_from_height = Some 0\<rparr>\<rparr>"

definition demo_ing_world :: ingest_world where
  "demo_ing_world = \<lparr>cw_calls = 0, cw_sent = [],
     iw_events = [PeerIdentified ''p'' demo_archive_addr, ShardReceivedV2 ''p'' (PushAck demo_ing_root 0 None),
       ShardReceivedV2 ''p'' (ManifestPushAck demo_ing_root None)],
     iw_closed = True, iw_peers = [], iw_pushes = [], iw_manifests = [], iw_waits = 0\<rparr>"

definition demo_ing_file :: local_file where "demo_ing_file = \<lparr>lf_name = ''f'', lf_bytes = Inr [7]\<rparr>"

definition demo_ing_m :: data_manifest where
  "demo_ing_m = \<lparr>file_name = ''f'', file_hash = demo_ing_root, total_size_bytes = 1, chunk_count = 1, merkle_root = demo_ing_root,
     chunks = [\<lparr>cd_index = 0, cd_offset = 0, cd_size = 1, cd_hash = demo_ing_root, cd_cid = cid_from_data demo_lib [7], cd_plaintext_hash = None\<rparr>]\<rparr>"

lemma ing_demo_blake: "blake3 demo_lib [7] = demo_ing_root"
  by (simp add: demo_lib_def demo_ing_root_def)

lemma ing_demo_chunked: "chunk_file demo_lib ''f'' [7] = Some demo_ing_m"
  by (simp add: chunk_file_def div_ceil_def CHUNK_SIZE_def u32_of_def u64_of_def chunk_descriptor_at_def sub_slice_def Let_def demo_ing_m_def
      ing_demo_blake build_def root_def cid_from_data_def)

lemmas demo_ing_fields = demo_ing_def demo_ing_rpc_def demo_access_libs_def

lemma ing_demo_eligible: "eligible_archive_addresses (ie_libs demo_ing) [\<lparr>nr_address = ''a'', nr_role = ''ArchiveNode'', nr_staked_balance = 1, nr_status = ''Active'', nr_registered_at = 1\<rparr>]
   = Inr [demo_archive_addr]"
  by (simp add: eligible_archive_addresses_def filter_active_archives_def is_active_archive_def l1_address_from_base58_def demo_ing_fields demo_lib_def demo_archive_addr_def)

lemma ing_demo_required: "required_archives demo_wire rt [demo_archive_addr] (index_list 1) 1 = {demo_archive_addr}"
  by (simp add: required_archives_def index_list_def)

lemma ing_demo_finality: "await_finality demo_ing_rpc h p t w = Some (Inr 6, w\<lparr>cw_calls := Suc (cw_calls w)\<rparr>)"
  by (simp add: await_finality_def wait_for_finalized_def wait_loop.simps demo_ing_rpc_def)
lemmas ing_disc = seed_known_def resolve_def discovery_new_def status_at_def observe_event_def resolver_observe_def apply_peer_event_def
  seed_peer_def required_len_def missing_archives_def

lemma ing_demo_await:
  "iw_events w = PeerIdentified ''p'' demo_archive_addr # rest \<Longrightarrow> iw_peers w = [] \<Longrightarrow>
   await_archives demo_ing {demo_archive_addr} w =
     Some (Inr (), w\<lparr>iw_waits := Suc (iw_waits w), iw_peers := [(''p'', demo_archive_addr)], iw_events := rest\<rparr>)"
  by (simp add: await_archives_def bind_act_def wait_turns_def Let_def await_loop.simps ing_disc demo_ing_def)

lemma ing_demo_await2:
  "iw_peers w = [(''p'', demo_archive_addr)] \<Longrightarrow>
   await_archives demo_ing {demo_archive_addr} w = Some (Inr (), w\<lparr>iw_waits := Suc (iw_waits w)\<rparr>)"
  by (simp add: await_archives_def bind_act_def wait_turns_def Let_def await_loop.simps ing_disc demo_ing_def)

lemma ing_demo_assigned: "assigned_to demo_ing rt [demo_archive_addr] i = [demo_archive_addr]"
  by (simp add: assigned_to_def assigned_archives_def demo_ing_def demo_wire_def presorted_addresses_def)

lemma ing_demo_targets: "push_targets demo_ing [(''p'', demo_archive_addr)] demo_ing_m [demo_archive_addr] {0} = [(0, ''p'')]"
  by (simp add: push_targets_def index_list_def ing_demo_assigned demo_ing_m_def List.map_filter_def resolve_def u32_of_def)

lemma ing_demo_tree: "build (blake3 demo_lib) (map cd_hash (chunks demo_ing_m)) = build (blake3 demo_lib) [demo_ing_root]"
  by (simp add: demo_ing_m_def)

lemma ing_demo_proof: "generate_proof (build (blake3 demo_lib) [demo_ing_root]) 0 = Some []"
  by (simp add: generate_proof_def build_def leaf_count_def)

lemma ing_demo_send: "send_one_push demo_ing demo_ing_m [7] (build (blake3 demo_lib) [demo_ing_root]) 0 peer w =
   Some (Inr (), w\<lparr>iw_pushes := iw_pushes w @ [\<lparr>cp_peer = peer, cp_data = [7], cp_root = demo_ing_root, cp_index = 0, cp_path = []\<rparr>]\<rparr>)"
  by (simp add: send_one_push_def Let_def demo_ing_m_def sub_slice_def demo_ing_def ing_demo_proof)

lemma ing_demo_env [simp]:
  "ie_turns demo_ing n = Suc (Suc 0)" "ie_params demo_ing = \<lparr>p_assignment_replication_factor = 1, p_max_chunk_indices_per_tx = 1, p_max_chunk_count_per_file = 9, p_chain_id = 1,
       p_fee_per_tx = 1, p_fee_deposit = 1, p_poll_interval = 1, p_activation_wait_secs = 9, p_finality_timeout = 9, p_push_retries = 0,
       p_push_wait_secs = 9, p_manifest_push_wait_secs = 9, p_discovery_timeout = 9, p_activation_grace_blocks = 2,
       p_v2_enabled_from_height = Some 0\<rparr>" "ie_rpc demo_ing = demo_ing_rpc" "ie_wire demo_ing = demo_wire" "xl_digest (ie_libs demo_ing) = demo_lib"
  "cbor_ser (ie_cbor demo_ing) m = Inr [1]" "ie_send_error demo_ing k = None" "xl_sign (ie_libs demo_ing) = demo_sign" "xl_crypto (ie_libs demo_ing) = demo_crypto"
  "xl_hex_decode (ie_libs demo_ing) s = (case parse_hex_pairs s of None \<Rightarrow> Inl [] | Some b \<Rightarrow> Inr b)"
  "chunk_count demo_ing_m = 1" "merkle_root demo_ing_m = demo_ing_root"
  by (simp_all add: demo_ing_def demo_access_libs_def demo_ing_m_def)

lemma ing_demo_s2l: "iw_events w = ShardReceivedV2 ''p'' (PushAck demo_ing_root 0 None) # rest \<Longrightarrow>
   push_loop demo_ing demo_ing_m [7] tree {0} (Suc (Suc 0)) [(0, ''p'') \<mapsto> 1] (\<lambda>_. None) w
   = Some (Inr [0 \<mapsto> {''p''}], w\<lparr>iw_events := rest\<rparr>)"
  by (simp add: chunks_replicated_in_def bind_act_def next_event_def ret_def on_push_event_def u32_of_def) 

lemma ing_demo_distinct: "distinct_assigned demo_ing demo_ing_m [demo_archive_addr] = {demo_archive_addr}"
  by (simp add: distinct_assigned_def ing_demo_assigned index_list_def)

lemma ing_demo_under: "under_replicated [0 \<mapsto> {''p''}] {0} 1 = []"
proof -
  have "{i. i = (0::u32) \<and> (case [0 \<mapsto> {''p''}] i of None \<Rightarrow> True | Some s \<Rightarrow> u32_of (card s) < 1)} = {}" by (auto simp: u32_of_def)
  then show ?thesis by (simp add: under_replicated_def)
qed

lemma ing_demo_start: "(\<lambda>k. if k = (0::u32, ''p'') then Some (0::nat) else None)((0, ''p'') \<mapsto> 1) = [(0, ''p'') \<mapsto> 1]" by auto

lemma ing_demo_s2:
  "iw_events w = ShardReceivedV2 ''p'' (PushAck demo_ing_root 0 None) # rest \<Longrightarrow> iw_peers w = [(''p'', demo_archive_addr)] \<Longrightarrow>
   s2_push_chunks demo_ing demo_ing_m [7] (build (blake3 demo_lib) [demo_ing_root]) [demo_archive_addr] {0} w =
     Some (Inr {demo_archive_addr}, w\<lparr>iw_waits := Suc (Suc (iw_waits w)), iw_events := rest,
       iw_pushes := iw_pushes w @ [\<lparr>cp_peer = ''p'', cp_data = [7], cp_root = demo_ing_root, cp_index = 0, cp_path = []\<rparr>]\<rparr>)"
  by (simp add: s2_push_chunks_def Let_def required_archives_def bind_act_def attempt_def ing_demo_await2 gets_def ing_demo_targets ing_demo_send ret_def
      wait_turns_def ing_demo_s2l ing_demo_under ing_demo_distinct ing_demo_start del: push_loop.simps One_nat_def)

lemma ing_demo_s3:
  "iw_events w = ShardReceivedV2 ''p'' (ManifestPushAck demo_ing_root None) # rest \<Longrightarrow> iw_peers w = [(''p'', demo_archive_addr)] \<Longrightarrow>
   s3_push_manifest demo_ing demo_ing_m {demo_archive_addr} None w = Some (Inr (), w\<lparr>iw_waits := Suc (iw_waits w), iw_events := rest,
     iw_manifests := iw_manifests w @ [\<lparr>mp_peer = ''p'', mp_root = demo_ing_root, mp_bytes = [1]\<rparr>]\<rparr>)"
  by (simp add: s3_push_manifest_def Let_def bind_act_def gets_def manifest_targets_def List.map_filter_def resolve_def map_err_def lift_def
    push_manifest_v2_def wait_turns_def ret_def next_event_def require_def)

lemma ing_demo_s4: "s4_wait_coverage demo_ing rt w = Some (Inr demo_ing_cov, w\<lparr>iw_waits := Suc (iw_waits w), cw_calls := Suc (cw_calls w)\<rparr>)"
  by (simp add: s4_wait_coverage_def s4_loop.simps bind_act_def wait_turns_def attempt_def call_def demo_ing_rpc_def demo_ing_cov_def ret_def)

lemma ing_demo_rpc [simp]:
  "cr_block_height demo_ing_rpc n = Inr 5" "cr_nonce demo_ing_rpc n s = Inr 0" "cr_send demo_ing_rpc n t = Inr ''h''"
  "cr_file_info demo_ing_rpc n h off lim = Inr (Some demo_ing_info)"
  "cr_active_nodes demo_ing_rpc n k = Inr [\<lparr>nr_address = ''a'', nr_role = ''ArchiveNode'', nr_staked_balance = 1, nr_status = ''Active'', nr_registered_at = 1\<rparr>]"
  by (simp_all add: demo_ing_rpc_def)

lemma ing_demo_send_tx: "send_raw_transaction demo_ing_rpc t w = Some (Inr ''h'', w\<lparr>cw_calls := Suc (cw_calls w), cw_sent := cw_sent w @ [t]\<rparr>)"
  by (simp add: send_raw_transaction_def)

lemma ing_demo_s5: "\<exists>w'. s5_activate demo_ing rt w = Some (Inr (''h'', 6), w')"
  by (simp add: s5_activate_def Let_def bind_act_def map_err_def lift_def call_def build_activate_file_v2_tx_def sign_and_encode_def
    ing_demo_send_tx ing_demo_finality ret_def)

lemma ing_demo_s1:
  "\<exists>w'. s1_register_pending demo_ing m st vis acc w = Some (Inr (''h'', 6), w') \<and> iw_events w' = iw_events w \<and> iw_peers w' = iw_peers w"
  by (simp add: s1_register_pending_def Let_def bind_act_def map_err_def lift_def call_def build_register_file_pending_v2_tx_def sign_and_encode_def
    ing_demo_send_tx ing_demo_finality ret_def)

lemma ing_demo_index: "set (index_list 1) = {0}" "index_list 1 \<noteq> []"
  by (simp_all add: index_list_def u32_of_def)

lemma ing_demo_calls [simp]: "cw_calls demo_ing_world = 0" "total_size_bytes demo_ing_m = 1" "[demo_archive_addr] \<noteq> []"
  by (simp_all add: demo_ing_world_def demo_ing_m_def)

lemma ing_demo_events:
  "tl (iw_events demo_ing_world) = ShardReceivedV2 ''p'' (PushAck demo_ing_root 0 None) # tl (tl (iw_events demo_ing_world))"
  "tl (tl (iw_events demo_ing_world)) = [ShardReceivedV2 ''p'' (ManifestPushAck demo_ing_root None)]"
  by (simp_all add: demo_ing_world_def)

lemma bind_map_err_run: "m w = Some (Inr a, w1) \<Longrightarrow> bind_act (map_err g m) f w = f a w1"
  by (simp add: bind_act_def map_err_def)

lemma bind_require_run: "b \<Longrightarrow> bind_act (require b e) f w = f () w"
  by (simp add: bind_act_def require_def ret_def)

lemma ing_demo_prepare:
  "check_v2_enabled demo_ing w = Some (Inr 5, w\<lparr>cw_calls := Suc (cw_calls w)\<rparr>)"
  "s0_chunk demo_ing demo_ing_file w = Some (Inr (demo_ing_m, [7], build (blake3 demo_lib) [demo_ing_root]), w)"
  "fetch_assignment_inputs demo_ing rt w = Some (Inr (demo_ing_info, [demo_archive_addr]), w\<lparr>cw_calls := Suc (Suc (cw_calls w))\<rparr>)"
  by (simp_all add: check_v2_enabled_def bind_act_def map_err_def call_def ret_def s0_chunk_def demo_ing_file_def ing_demo_chunked ing_demo_tree
      fetch_assignment_inputs_def Let_def lift_def ing_demo_eligible)

lemma ing_demo_s1a:
  "\<exists>w'. s1a_require_archives demo_ing demo_ing_root 1 (demo_ing_world\<lparr>cw_calls := Suc (cw_calls demo_ing_world)\<rparr>) = Some (Inr (), w')
     \<and> iw_events w' = tl (iw_events demo_ing_world) \<and> iw_peers w' = [(''p'', demo_archive_addr)]"
  by (simp add: s1a_require_archives_def Let_def bind_act_def map_err_def lift_def call_def ing_demo_eligible require_def ret_def ing_demo_required
      ing_demo_await demo_ing_world_def)

lemma ing_demo_registers:
  "\<exists>w2. run_body demo_ing demo_ing_file demo_ing_world = push_and_activate demo_ing demo_ing_m [7] (build (blake3 demo_lib) [demo_ing_root]) None (''h'', 6) w2
     \<and> iw_events w2 = tl (iw_events demo_ing_world) \<and> iw_peers w2 = [(''p'', demo_archive_addr)]"
proof -
  obtain w1 where 1: "s1a_require_archives demo_ing demo_ing_root 1 (demo_ing_world\<lparr>cw_calls := Suc (cw_calls demo_ing_world)\<rparr>) = Some (Inr (), w1)"
      "iw_events w1 = tl (iw_events demo_ing_world)" "iw_peers w1 = [(''p'', demo_archive_addr)]"
    using ing_demo_s1a by blast
  obtain w2 where 2: "s1_register_pending demo_ing demo_ing_m (total_size_bytes demo_ing_m) 0 [] w1 = Some (Inr (''h'', 6), w2)"
      "iw_events w2 = iw_events w1" "iw_peers w2 = iw_peers w1"
    using ing_demo_s1 by blast
  have "run_body demo_ing demo_ing_file demo_ing_world = push_and_activate demo_ing demo_ing_m [7] (build (blake3 demo_lib) [demo_ing_root]) None (''h'', 6) w2"
    unfolding run_body_def
    apply (subst bind_require_run, simp)
    apply (subst bind_map_err_run[OF ing_demo_prepare(1)])
    apply (subst bind_map_err_run[OF ing_demo_prepare(2)], simp only: prod.case)
    apply (subst bind_require_run, simp)
    apply (subst bind_map_err_run, simp only: ing_demo_env, rule 1(1))
    apply (subst bind_map_err_run, rule 2(1), rule refl)
    done
  then show ?thesis using 1 2 by auto
qed

lemma ing_demo_run: "\<exists>w'. run demo_ing demo_ing_file demo_ing_world = Some (Activated demo_ing_root demo_ing_m ''h'' 6 ''h'' 6, w')"
proof -
  obtain w2 where run: "run_body demo_ing demo_ing_file demo_ing_world = push_and_activate demo_ing demo_ing_m [7] (build (blake3 demo_lib) [demo_ing_root]) None (''h'', 6) w2"
    and w2: "iw_events w2 = tl (iw_events demo_ing_world)" "iw_peers w2 = [(''p'', demo_archive_addr)]"
    using ing_demo_registers by blast
  let ?w3 = "w2\<lparr>cw_calls := Suc (Suc (cw_calls w2))\<rparr>"
  obtain w4 where s2: "s2_push_chunks demo_ing demo_ing_m [7] (build (blake3 demo_lib) [demo_ing_root]) [demo_archive_addr] {0} ?w3 = Some (Inr {demo_archive_addr}, w4)"
    and w4: "iw_events w4 = tl (tl (iw_events demo_ing_world))" "iw_peers w4 = [(''p'', demo_archive_addr)]"
    using ing_demo_s2[of ?w3 "tl (tl (iw_events demo_ing_world))"] w2 ing_demo_events by simp
  obtain w5 where s3: "s3_push_manifest demo_ing demo_ing_m {demo_archive_addr} None w4 = Some (Inr (), w5)"
    using ing_demo_s3[of w4 "[]"] w4 ing_demo_events by simp
  obtain w6 where s4: "s4_wait_coverage demo_ing demo_ing_root w5 = Some (Inr demo_ing_cov, w6)" using ing_demo_s4 by blast
  obtain w7 where s5: "s5_activate demo_ing demo_ing_root w6 = Some (Inr (''h'', 6), w7)" using ing_demo_s5 by blast
  have "push_and_activate demo_ing demo_ing_m [7] (build (blake3 demo_lib) [demo_ing_root]) None (''h'', 6) w2
     = Some (Inr (Activated demo_ing_root demo_ing_m ''h'' 6 ''h'' 6), w7)"
    unfolding push_and_activate_def Let_def
    apply (subst bind_map_err_run[OF ing_demo_prepare(3)], simp only: prod.case)
    apply (subst bind_require_run, simp)
    apply (subst bind_map_err_run, simp only: ing_demo_env ing_demo_index, rule s2)
    apply (subst bind_map_err_run, rule s3)
    apply (subst bind_map_err_run, simp only: ing_demo_env, rule s4)
    apply (subst bind_map_err_run, simp only: ing_demo_env, rule s5)
    apply (simp add: ret_def)
    done
  then show ?thesis using run by (simp add: run_def outcome_of_def)
qed

end
