(* ===== verification/Ingest_Push.thy ===== *)
theory Ingest_Push
  imports Ingest_Demo
begin

text \<open>
  The pushes of an ingestion (\<open>sum-node/src/ingest_v2.rs\<close>): a prepared file, public or private, is one whose
  every chunk can be cut out, hashes to its descriptor and has a proof against the root; all that is ever
  pushed are such chunks, and the push loops always end.
\<close>

section \<open>Prepared files\<close>

definition prepared :: "digest_lib \<Rightarrow> data_manifest \<Rightarrow> bytes \<Rightarrow> merkle_tree \<Rightarrow> bool" where
  "prepared L m mapped tree \<longleftrightarrow>
     length (chunks m) = unat (chunk_count m) \<and> tree = build (blake3 L) (map cd_hash (chunks m)) \<and> merkle_root m = root tree
   \<and> (\<forall>c \<in> set (chunks m). unat (cd_offset c) + unat (cd_size c) \<le> length mapped
        \<and> cd_hash c = blake3 L (descriptor_bytes mapped c) \<and> unat (cd_size c) \<le> CHUNK_SIZE)"

lemma chunk_starts:
  assumes "mapped \<noteq> []" and "i < unat (u32_of (div_ceil (length mapped) CHUNK_SIZE))"
  shows "i * CHUNK_SIZE < length mapped"
proof -
  have "unat (u32_of (div_ceil (length mapped) CHUNK_SIZE)) \<le> div_ceil (length mapped) CHUNK_SIZE"
    by (simp add: u32_of_def unsigned_of_nat take_bit_eq_mod)
  then have "i * CHUNK_SIZE \<le> (div_ceil (length mapped) CHUNK_SIZE - 1) * CHUNK_SIZE"
    using assms(2) by (intro mult_le_mono1) linarith
  also have "\<dots> < length mapped" using div_ceil_bounds(1)[of CHUNK_SIZE "length mapped"] assms(1) by simp
  finally show ?thesis .
qed

text \<open>The chunker prepares every file, also one whose chunk count does not fit 32 bits.\<close>

lemma chunk_file_prepared:
  assumes "chunk_file L nm mapped = Some m"
  shows "prepared L m mapped (build (blake3 L) (map cd_hash (chunks m)))"
proof (cases "mapped = []")
  case True
  with assms show ?thesis by (auto simp: chunk_file_def prepared_def build_def root_def zero_hash_def)
next
  case False
  define n where "n = unat (u32_of (div_ceil (length mapped) CHUNK_SIZE))"
  have n: "n < 2 ^ 32" unfolding n_def using unat_less[of "u32_of (div_ceil (length mapped) CHUNK_SIZE)"] by simp
  have i: "i * CHUNK_SIZE < length mapped" if "i < n" for i
    using chunk_starts[OF False] that by (simp add: n_def)
  have m: "chunks m = map (\<lambda>i. the (chunk_descriptor_at L mapped i)) [0..<n]"
      "merkle_root m = root (build (blake3 L) (map cd_hash (chunks m)))" "unat (chunk_count m) = n"
    using assms False i by (auto simp: chunk_file_def Let_def chunk_loop_Some n_def)
  have "unat (cd_offset c) + unat (cd_size c) \<le> length mapped \<and> cd_hash c = blake3 L (descriptor_bytes mapped c)
      \<and> unat (cd_size c) \<le> CHUNK_SIZE" if c: "c \<in> set (chunks m)" for c
  proof -
    from c obtain k where k: "k < n" "c = the (chunk_descriptor_at L mapped k)" by (auto simp: m)
    have sz: "length (chunk_bytes mapped k) \<le> CHUNK_SIZE" by (simp add: chunk_bytes_length)
    have "k * CHUNK_SIZE < 2 ^ 64" using k(1) n by (simp add: CHUNK_SIZE_def)
    then have u: "unat (cd_offset c) = k * CHUNK_SIZE" "unat (cd_size c) = length (chunk_bytes mapped k)"
        "cd_hash c = blake3 L (chunk_bytes mapped k)"
      using k i[OF k(1)] sz by (simp_all add: chunk_descriptor_at_Some unat_u64_of CHUNK_SIZE_def)
    moreover have "k * CHUNK_SIZE + length (chunk_bytes mapped k) \<le> length mapped"
      using i[OF k(1)] by (simp add: chunk_bytes_length)
    ultimately show ?thesis using sz by (simp add: descriptor_bytes_def take_chunk_bytes)
  qed
  then show ?thesis using m by (simp add: prepared_def)
qed

lemma chunk_file_total: "chunk_file L nm mapped \<noteq> None"
  using chunk_starts[of mapped] by (simp add: chunk_file_def Let_def chunk_loop_Some)

section \<open>A push\<close>

definition push_ok :: "digest_lib \<Rightarrow> data_manifest \<Rightarrow> chunk_push \<Rightarrow> bool" where
  "push_ok L m p \<longleftrightarrow>
     cp_root p = merkle_root m \<and> unat (cp_index p) < unat (chunk_count m) \<and> length (cp_data p) \<le> CHUNK_SIZE
   \<and> blake3 L (cp_data p) = cd_hash (chunks m ! unat (cp_index p))
   \<and> verify_merkle_proof_bytes_for_tree (blake3 L) (blake3 L (cp_data p)) (cp_index p) (cp_path p) (cp_root p) (chunk_count m)"

lemma send_one_push_ok:
  assumes "prepared (xl_digest (ie_libs E)) m mapped tree" and "unat i < unat (chunk_count m)"
  shows "\<exists>p r. send_one_push E m mapped tree i peer w = Some (r, w\<lparr>iw_pushes := iw_pushes w @ [p]\<rparr>)
           \<and> push_ok (xl_digest (ie_libs E)) m p \<and> cp_peer p = peer \<and> cp_index p = i"
proof -
  let ?L = "xl_digest (ie_libs E)" and ?c = "chunks m ! unat i" and ?leaves = "map cd_hash (chunks m)"
  have m: "length (chunks m) = unat (chunk_count m)" "tree = build (blake3 ?L) ?leaves" "merkle_root m = root tree"
    and c: "?c \<in> set (chunks m)"
    using assms by (auto simp: prepared_def)
  have d: "unat (cd_offset ?c) + unat (cd_size ?c) \<le> length mapped" "cd_hash ?c = blake3 ?L (descriptor_bytes mapped ?c)"
      "length (descriptor_bytes mapped ?c) \<le> CHUNK_SIZE"
    using assms(1) c by (auto simp: prepared_def descriptor_bytes_def)
  have s: "sub_slice mapped (unat (cd_offset ?c)) (unat (cd_offset ?c) + unat (cd_size ?c)) = Some (descriptor_bytes mapped ?c)"
    using d(1) by (simp add: sub_slice_def descriptor_bytes_def)
  obtain path where p: "generate_proof tree i = Some path"
      "verify_merkle_proof_bytes_for_tree (blake3 ?L) (cd_hash ?c) i path (merkle_root m) (chunk_count m)"
    using generated_proof_verifies[of ?leaves i "blake3 ?L"] assms(2) m unat_less[of "chunk_count m"]
    by (auto simp: u32_of_def)
  show ?thesis
    using assms(2) m(1) s p d by (auto simp: send_one_push_def Let_def push_ok_def)
qed

section \<open>Private files\<close>

definition plain_chunk :: "bytes \<Rightarrow> nat \<Rightarrow> bytes" where
  "plain_chunk mapped i = take PRIVATE_PLAINTEXT_CHUNK_SIZE (drop (i * PRIVATE_PLAINTEXT_CHUNK_SIZE) mapped)"

abbreviation cipher_chunk :: "crypto_lib \<Rightarrow> bytes \<Rightarrow> bytes \<Rightarrow> nat \<Rightarrow> bytes" where
  "cipher_chunk K k mapped i \<equiv> encrypt_chunk K k (u32_of i) (plain_chunk mapped i)"

fun cipher_descs :: "digest_lib \<Rightarrow> crypto_lib \<Rightarrow> bytes \<Rightarrow> bytes \<Rightarrow> nat \<Rightarrow> nat list \<Rightarrow> chunk_descriptor list" where
  "cipher_descs L K k mapped off [] = []"
| "cipher_descs L K k mapped off (i # is) =
     (let c = cipher_chunk K k mapped i in
      \<lparr>cd_index = u32_of i, cd_offset = u64_of off, cd_size = u64_of (length c), cd_hash = blake3 L c, cd_cid = cid_from_data L c,
       cd_plaintext_hash = Some (blake3 L (plain_chunk mapped i))\<rparr> # cipher_descs L K k mapped (off + length c) is)"

lemma plain_size: "PRIVATE_PLAINTEXT_CHUNK_SIZE + TAG_SIZE = CHUNK_SIZE" "0 < PRIVATE_PLAINTEXT_CHUNK_SIZE"
  by (simp_all add: PRIVATE_PLAINTEXT_CHUNK_SIZE_def CHUNK_SIZE_def TAG_SIZE_def)

lemma length_plain_chunk: "length (plain_chunk mapped i) = min PRIVATE_PLAINTEXT_CHUNK_SIZE (length mapped - i * PRIVATE_PLAINTEXT_CHUNK_SIZE)"
  by (simp add: plain_chunk_def)

lemma length_cipher_chunk: "crypto_ok K \<Longrightarrow> length (cipher_chunk K k mapped i) \<le> CHUNK_SIZE"
  using plain_size by (simp add: length_plain_chunk min_def)

lemma plain_slice:
  assumes "i * PRIVATE_PLAINTEXT_CHUNK_SIZE < length mapped"
  shows "sub_slice mapped (i * PRIVATE_PLAINTEXT_CHUNK_SIZE)
           (min (i * PRIVATE_PLAINTEXT_CHUNK_SIZE + PRIVATE_PLAINTEXT_CHUNK_SIZE) (length mapped)) = Some (plain_chunk mapped i)"
  using assms by (auto simp: sub_slice_def plain_chunk_def min_def)

lemma checked_add_u64: "a + b < 2 ^ 64 \<Longrightarrow> checked_add (u64_of a) (u64_of b) = Some (u64_of (a + b))"
  by (simp add: checked_add_eq_Some_iff unat_u64_of) (simp add: u64_of_def)

lemma private_chunks_eq:
  assumes "crypto_ok K" and "\<forall>i \<in> set is. i * PRIVATE_PLAINTEXT_CHUNK_SIZE < length mapped"
    and "off + length (concat (map (cipher_chunk K k mapped) is)) < 2 ^ 64"
  shows "private_chunks L K k mapped is (u64_of off) (u64_of off) descs ct =
    Some (Inr (descs @ cipher_descs L K k mapped off is, ct @ concat (map (cipher_chunk K k mapped) is),
               u64_of (off + length (concat (map (cipher_chunk K k mapped) is)))))"
  using assms(2,3)
proof (induction "is" arbitrary: off descs ct)
  case (Cons i "is")
  have c: "checked_add (u64_of off) (u64_of (length (cipher_chunk K k mapped i))) = Some (u64_of (off + length (cipher_chunk K k mapped i)))"
    using Cons.prems by (intro checked_add_u64) simp
  have s: "off + length (cipher_chunk K k mapped i) + length (concat (map (cipher_chunk K k mapped) is)) < 2 ^ 64"
    using Cons.prems by (simp add: add.assoc)
  show ?case
    using Cons.IH[OF _ s] Cons.prems(1) by (simp add: plain_slice c Let_def add.assoc)
qed simp

lemma cipher_descs_bytes:
  assumes "crypto_ok K" and "length pre + length (concat (map (cipher_chunk K k mapped) ixs)) < 2 ^ 64"
  shows "map (descriptor_bytes (pre @ concat (map (cipher_chunk K k mapped) ixs) @ post)) (cipher_descs L K k mapped (length pre) ixs)
       = map (cipher_chunk K k mapped) ixs
     \<and> (\<forall>c \<in> set (cipher_descs L K k mapped (length pre) ixs).
          unat (cd_offset c) + unat (cd_size c) \<le> length pre + length (concat (map (cipher_chunk K k mapped) ixs)) \<and> unat (cd_size c) \<le> CHUNK_SIZE)"
  using assms(2)
proof (induction ixs arbitrary: pre)
  case (Cons i ixs)
  let ?c = "cipher_chunk K k mapped i"
  have s: "length (pre @ ?c) + length (concat (map (cipher_chunk K k mapped) ixs)) < 2 ^ 64"
    using Cons.prems by (simp add: add.assoc)
  have u: "unat (u64_of (length pre)) = length pre" "unat (u64_of (length ?c)) = length ?c"
    using Cons.prems by (auto intro!: unat_u64_of)
  show ?case
    using Cons.IH[OF s] u length_cipher_chunk[OF assms(1), where k = k and mapped = mapped and i = i]
    by (auto simp: Let_def descriptor_bytes_def add.assoc)
qed simp

lemma concat_plain_chunks: "concat (map (plain_chunk mapped) [0..<n]) = take (n * PRIVATE_PLAINTEXT_CHUNK_SIZE) mapped"
proof (induction n)
  case (Suc n)
  have "take (n * PRIVATE_PLAINTEXT_CHUNK_SIZE + PRIVATE_PLAINTEXT_CHUNK_SIZE) mapped
      = take (n * PRIVATE_PLAINTEXT_CHUNK_SIZE) mapped @ plain_chunk mapped n"
    by (simp add: take_add plain_chunk_def)
  with Suc show ?case by (simp add: algebra_simps)
qed simp

text \<open>What the two functions compute, for every file they accept.\<close>

lemma cipher_length:
  assumes "crypto_ok K" and "mapped \<noteq> []"
  defines "n \<equiv> div_ceil (length mapped) PRIVATE_PLAINTEXT_CHUNK_SIZE"
  shows "length (concat (map (cipher_chunk K k mapped) [0..<n])) = length mapped + n * TAG_SIZE"
    and "\<forall>i < n. i * PRIVATE_PLAINTEXT_CHUNK_SIZE < length mapped"
    and "concat (map (plain_chunk mapped) [0..<n]) = mapped"
proof -
  have d: "(n - 1) * PRIVATE_PLAINTEXT_CHUNK_SIZE < length mapped" "length mapped \<le> n * PRIVATE_PLAINTEXT_CHUNK_SIZE"
    using div_ceil_bounds[OF plain_size(2), of "length mapped"] assms(2) by (auto simp: n_def)
  show c: "concat (map (plain_chunk mapped) [0..<n]) = mapped" using d(2) by (simp add: concat_plain_chunks)
  have "length (concat (map (cipher_chunk K k mapped) [0..<n])) = (\<Sum>i \<leftarrow> [0..<n]. length (plain_chunk mapped i) + TAG_SIZE)"
    using assms(1) by (simp add: length_concat comp_def)
  also have "\<dots> = length (concat (map (plain_chunk mapped) [0..<n])) + n * TAG_SIZE"
    by (simp add: length_concat comp_def sum_list_addf sum_list_triv)
  finally show "length (concat (map (cipher_chunk K k mapped) [0..<n])) = length mapped + n * TAG_SIZE" by (simp add: c)
  show "\<forall>i < n. i * PRIVATE_PLAINTEXT_CHUNK_SIZE < length mapped"
  proof (intro allI impI)
    fix i assume "i < n"
    then have "i * PRIVATE_PLAINTEXT_CHUNK_SIZE \<le> (n - 1) * PRIVATE_PLAINTEXT_CHUNK_SIZE" by (intro mult_le_mono1) linarith
    also have "\<dots> < length mapped" by (rule d(1))
    finally show "i * PRIVATE_PLAINTEXT_CHUNK_SIZE < length mapped" .
  qed
qed

lemma cipher_ceil:
  assumes "mapped \<noteq> []"
  defines "n \<equiv> div_ceil (length mapped) PRIVATE_PLAINTEXT_CHUNK_SIZE"
  shows "div_ceil (length mapped + n * TAG_SIZE) CHUNK_SIZE = n"
proof -
  have d: "(n - 1) * PRIVATE_PLAINTEXT_CHUNK_SIZE < length mapped" "length mapped \<le> n * PRIVATE_PLAINTEXT_CHUNK_SIZE" "0 < n"
    using div_ceil_bounds[OF plain_size(2), of "length mapped"] assms(1) by (auto simp: n_def)
  let ?s = "length mapped + n * TAG_SIZE"
  have "?s \<le> n * CHUNK_SIZE" using d(2) by (simp add: plain_size(1)[symmetric] algebra_simps)
  moreover have "(n - 1) * CHUNK_SIZE < ?s"
    using d(1,3) by (cases n) (simp_all add: plain_size(1)[symmetric] algebra_simps)
  ultimately show ?thesis
  proof -
    assume le: "?s \<le> n * CHUNK_SIZE" and gt: "(n - 1) * CHUNK_SIZE < ?s"
    let ?c = "div_ceil ?s CHUNK_SIZE"
    have b: "(?c - 1) * CHUNK_SIZE < ?s" "?s \<le> ?c * CHUNK_SIZE" "0 < ?c"
      using div_ceil_bounds[OF CHUNK_SIZE_pos, of ?s] assms(1) by auto
    have "(n - 1) * CHUNK_SIZE < ?c * CHUNK_SIZE" "(?c - 1) * CHUNK_SIZE < n * CHUNK_SIZE"
      using le gt b by linarith+
    then have "n - 1 < ?c" "?c - 1 < n" by simp_all
    then show ?thesis using b(3) d(3) by linarith
  qed
qed

definition private_manifest :: "digest_lib \<Rightarrow> crypto_lib \<Rightarrow> string \<Rightarrow> bytes \<Rightarrow> bytes \<Rightarrow> data_manifest" where
  "private_manifest L K nm mapped k =
     (let n = div_ceil (length mapped) PRIVATE_PLAINTEXT_CHUNK_SIZE; descs = cipher_descs L K k mapped 0 [0..<n] in
      \<lparr>file_name = nm, file_hash = blake3 L mapped, total_size_bytes = u64_of (length mapped), chunk_count = u32_of n,
       merkle_root = root (build (blake3 L) (map cd_hash descs)), chunks = descs\<rparr>)"

lemma private_loop:
  assumes "crypto_ok K" and "mapped \<noteq> []"
  defines "n \<equiv> div_ceil (length mapped) PRIVATE_PLAINTEXT_CHUNK_SIZE"
  assumes "n < 2 ^ 32"
  shows "length mapped + n * TAG_SIZE < 2 ^ 64"
    and "private_chunks L K k mapped [0..<n] 0 0 [] [] =
      Some (Inr (cipher_descs L K k mapped 0 [0..<n], concat (map (cipher_chunk K k mapped) [0..<n]), u64_of (length mapped + n * TAG_SIZE)))"
proof -
  note l = cipher_length[OF assms(1,2), folded n_def]
  have "length mapped \<le> n * PRIVATE_PLAINTEXT_CHUNK_SIZE"
    using div_ceil_bounds(2)[OF plain_size(2), of "length mapped"] assms(2) by (simp add: n_def)
  then show b: "length mapped + n * TAG_SIZE < 2 ^ 64"
    using assms(4) by (simp add: PRIVATE_PLAINTEXT_CHUNK_SIZE_def CHUNK_SIZE_def TAG_SIZE_def)
  have "u64_of 0 = 0" by (simp add: u64_of_def)
  then show "private_chunks L K k mapped [0..<n] 0 0 [] [] =
      Some (Inr (cipher_descs L K k mapped 0 [0..<n], concat (map (cipher_chunk K k mapped) [0..<n]), u64_of (length mapped + n * TAG_SIZE)))"
    using private_chunks_eq[OF assms(1), of "[0..<n]" mapped 0 k L "[]" "[]"] l(1)[of k] l(2) b by simp
qed

lemma private_artifacts_cases:
  assumes "crypto_ok (xl_crypto X)"
  shows "build_private_artifacts X B te file k \<noteq> None"
    and "build_private_artifacts X B te file k = Some (Inr a) \<Longrightarrow>
      \<exists>mapped cbor. lf_bytes file = Inr mapped \<and> mapped \<noteq> [] \<and> div_ceil (length mapped) PRIVATE_PLAINTEXT_CHUNK_SIZE < 2 ^ 32
        \<and> pa_manifest a = private_manifest (xl_digest X) (xl_crypto X) (lf_name file) mapped k
        \<and> pa_ciphertext a = concat (map (cipher_chunk (xl_crypto X) k mapped) [0..<div_ceil (length mapped) PRIVATE_PLAINTEXT_CHUNK_SIZE])
        \<and> pa_stored_size_bytes a = u64_of (length mapped + div_ceil (length mapped) PRIVATE_PLAINTEXT_CHUNK_SIZE * TAG_SIZE)
        \<and> cbor_ser B (pa_manifest a) = Inr cbor \<and> pa_encrypted_manifest a = encrypt_manifest (xl_crypto X) k cbor"
  using private_loop(2)[OF assms, where L = "xl_digest X" and k = k]
  by (auto simp: build_private_artifacts_def private_manifest_def Let_def split: sum.splits if_splits option.splits)

lemma length_cipher_descs [simp]: "length (cipher_descs L K k mapped off is) = length is"
  by (induction "is" arbitrary: off) (auto simp: Let_def)

lemma hash_cipher_descs: "map cd_hash (cipher_descs L K k mapped off is) = map (\<lambda>i. blake3 L (cipher_chunk K k mapped i)) is"
  by (induction "is" arbitrary: off) (auto simp: Let_def)

lemma private_prepared:
  assumes "crypto_ok (xl_crypto X)" and "build_private_artifacts X B te file k = Some (Inr a)"
  shows "prepared (xl_digest X) (pa_manifest a) (pa_ciphertext a) (build (blake3 (xl_digest X)) (map cd_hash (chunks (pa_manifest a))))"
proof -
  let ?L = "xl_digest X" and ?K = "xl_crypto X"
  obtain mapped where f: "mapped \<noteq> []" "div_ceil (length mapped) PRIVATE_PLAINTEXT_CHUNK_SIZE < 2 ^ 32"
      "pa_manifest a = private_manifest ?L ?K (lf_name file) mapped k"
      "pa_ciphertext a = concat (map (cipher_chunk ?K k mapped) [0..<div_ceil (length mapped) PRIVATE_PLAINTEXT_CHUNK_SIZE])"
    using private_artifacts_cases(2)[OF assms] by blast
  define n where "n = div_ceil (length mapped) PRIVATE_PLAINTEXT_CHUNK_SIZE"
  define descs where "descs = cipher_descs ?L ?K k mapped 0 [0..<n]"
  have b: "map (descriptor_bytes (pa_ciphertext a)) descs = map (cipher_chunk ?K k mapped) [0..<n]"
      "\<forall>c \<in> set descs. unat (cd_offset c) + unat (cd_size c) \<le> length (pa_ciphertext a) \<and> unat (cd_size c) \<le> CHUNK_SIZE"
    using cipher_descs_bytes[OF assms(1), where pre = "[]" and post = "[]" and L = ?L and mapped = mapped and k = k and ixs = "[0..<n]"]
      private_loop(1)[OF assms(1) f(1,2)] cipher_length(1)[OF assms(1) f(1), of k] f(4)
    by (simp_all add: n_def descs_def)
  have "map cd_hash descs = map (blake3 ?L \<circ> descriptor_bytes (pa_ciphertext a)) descs"
    using arg_cong[OF b(1), of "map (blake3 ?L)"] by (simp add: descs_def hash_cipher_descs comp_def)
  then have "\<forall>c \<in> set descs. cd_hash c = blake3 ?L (descriptor_bytes (pa_ciphertext a) c)" by simp
  moreover have "chunks (pa_manifest a) = descs" "unat (chunk_count (pa_manifest a)) = n" "length descs = n"
    using f(2,3) by (simp_all add: private_manifest_def Let_def n_def descs_def unat_u32_of)
  moreover have "merkle_root (pa_manifest a) = root (build (blake3 ?L) (map cd_hash descs))"
    using f(3) by (simp add: private_manifest_def Let_def n_def descs_def)
  ultimately show ?thesis using b(2) by (simp add: prepared_def)
qed

lemma cipher_descs_fields:
  "map cd_index (cipher_descs L K k mapped off ixs) = map u32_of ixs"
  "map cd_plaintext_hash (cipher_descs L K k mapped off ixs) = map (\<lambda>i. Some (blake3 L (plain_chunk mapped i))) ixs"
  by (induction ixs arbitrary: off) (auto simp: Let_def)

text \<open>
  C15. Encrypting for storage loses nothing and fits the chain's rules. The stored size is that of the
  ciphertext and its chunk count is the number of 1 MiB chunks of the ciphertext, none larger than 1 MiB; each stored chunk
  decrypts with the file key at its index to a plaintext whose hash the manifest records, the plaintexts
  concatenate to the file, and the stored manifest decrypts to the serialised manifest.
\<close>

theorem private_artifacts_roundtrip:
  fixes X :: access_libs
  assumes "crypto_ok (xl_crypto X)" and "build_private_artifacts X B te file k = Some (Inr a)" and "lf_bytes file = Inr mapped"
  defines "m \<equiv> pa_manifest a" and "ct \<equiv> pa_ciphertext a"
  shows "unat (pa_stored_size_bytes a) = length ct \<and> unat (chunk_count m) = div_ceil (length ct) CHUNK_SIZE
    \<and> (\<forall>c \<in> set (chunks m). length (descriptor_bytes ct c) \<le> CHUNK_SIZE)
    \<and> (\<exists>pts. length pts = length (chunks m) \<and> concat pts = mapped
         \<and> (\<forall>i < length pts. decrypt_chunk (xl_crypto X) k (cd_index (chunks m ! i)) (descriptor_bytes ct (chunks m ! i)) = Inr (pts ! i)
              \<and> cd_plaintext_hash (chunks m ! i) = Some (blake3 (xl_digest X) (pts ! i))))
    \<and> (\<exists>cbor. cbor_ser B m = Inr cbor \<and> decrypt_manifest (xl_crypto X) k (pa_encrypted_manifest a) = Inr cbor)"
proof -
  let ?L = "xl_digest X" and ?K = "xl_crypto X"
  obtain cbor where f: "mapped \<noteq> []" "div_ceil (length mapped) PRIVATE_PLAINTEXT_CHUNK_SIZE < 2 ^ 32"
      "m = private_manifest ?L ?K (lf_name file) mapped k"
      "ct = concat (map (cipher_chunk ?K k mapped) [0..<div_ceil (length mapped) PRIVATE_PLAINTEXT_CHUNK_SIZE])"
      "pa_stored_size_bytes a = u64_of (length mapped + div_ceil (length mapped) PRIVATE_PLAINTEXT_CHUNK_SIZE * TAG_SIZE)"
      "cbor_ser B m = Inr cbor" "pa_encrypted_manifest a = encrypt_manifest ?K k cbor"
    using private_artifacts_cases(2)[OF assms(1,2)] assms(3) unfolding m_def ct_def by auto
  define n where "n = div_ceil (length mapped) PRIVATE_PLAINTEXT_CHUNK_SIZE"
  define descs where "descs = cipher_descs ?L ?K k mapped 0 [0..<n]"
  note bound = private_loop(1)[OF assms(1) f(1,2), folded n_def]
  have len: "length ct = length mapped + n * TAG_SIZE" using cipher_length(1)[OF assms(1) f(1), of k] f(4) by (simp add: n_def)
  have m: "chunks m = descs" "unat (chunk_count m) = n" "length descs = n"
    using f(2,3) by (simp_all add: private_manifest_def Let_def n_def descs_def unat_u32_of)
  have b: "map (descriptor_bytes ct) descs = map (cipher_chunk ?K k mapped) [0..<n]"
    using cipher_descs_bytes[OF assms(1), where pre = "[]" and post = "[]" and L = ?L and mapped = mapped and k = k and ixs = "[0..<n]"]
      bound len f(4) by (simp add: n_def descs_def)
  have i: "descriptor_bytes ct (descs ! i) = cipher_chunk ?K k mapped i" "cd_index (descs ! i) = u32_of i"
      "cd_plaintext_hash (descs ! i) = Some (blake3 ?L (plain_chunk mapped i))" if "i < n" for i
    using that arg_cong[OF b, of "\<lambda>l. l ! i"] arg_cong[OF cipher_descs_fields(1), of "\<lambda>l. l ! i" ?L ?K k mapped 0 "[0..<n]"]
      arg_cong[OF cipher_descs_fields(2), of "\<lambda>l. l ! i" ?L ?K k mapped 0 "[0..<n]"] m(3) by (simp_all flip: descs_def)
  have "\<forall>c \<in> set descs. length (descriptor_bytes ct c) \<le> CHUNK_SIZE"
    using i(1) m(3) length_cipher_chunk[OF assms(1)] by (auto simp: in_set_conv_nth)
  moreover have "concat (map (plain_chunk mapped) [0..<n]) = mapped" using cipher_length(3)[OF assms(1) f(1)] by (simp add: n_def)
  then have "\<exists>pts. length pts = n \<and> concat pts = mapped \<and> (\<forall>i < n. decrypt_chunk ?K k (cd_index (descs ! i)) (descriptor_bytes ct (descs ! i)) = Inr (pts ! i)
      \<and> cd_plaintext_hash (descs ! i) = Some (blake3 ?L (pts ! i)))"
    using i by (intro exI[of _ "map (plain_chunk mapped) [0..<n]"]) (auto simp: decrypt_chunk_iff[OF assms(1)])
  moreover have "unat (pa_stored_size_bytes a) = length ct" using f(5) len bound by (simp add: n_def unat_u64_of)
  moreover have "n = div_ceil (length ct) CHUNK_SIZE" using cipher_ceil[OF f(1)] len by (simp add: n_def)
  ultimately show ?thesis using f(6,7) m by (auto simp: decrypt_manifest_iff[OF assms(1)])
qed

text \<open>How the chain shows a registered access list.\<close>

definition shown_access :: "access_libs \<Rightarrow> access_entry_mirror \<Rightarrow> access_entry_v2" where
  "shown_access X e = \<lparr>ae_address = l1_address_base58 (xl_digest X) (xl_bs58_encode X) (am_address e),
     ae_encrypted_key_bundle = map_option (\<lambda>b. ''0x'' @ hex_encode b) (am_encrypted_key_bundle e), ae_expires_at = am_expires_at e\<rparr>"

lemma encrypt_for_private_cases:
  assumes "encrypt_for_private X B te rng file spec = Some (Inr pe)"
  shows "build_private_artifacts X B te file (rng 0) = Some (Inr (pe_artifacts pe))"
    and "\<exists>b rest. wrap_for_recipient (xl_crypto X) (rng 1) (rng 0) (ps_owner_l1_address spec) (ps_owner_x25519_pubkey spec) = Inr b
           \<and> pe_initial_access pe = \<lparr>am_address = ps_owner_l1_address spec, am_encrypted_key_bundle = Some b, am_expires_at = None\<rparr> # rest"
  using assms
  by (auto simp: encrypt_for_private_def Let_def map_sum_def split: option.splits sum.splits)

text \<open>
  C27. A private ingestion can be resumed. With a hex codec that decodes what it encoded, a file key of 32 bytes and the
  chain showing the access list as it was registered, resuming with the owner's seed recovers the file key and reproduces
  the registered file exactly: the same manifest and root, ciphertext, tree and encrypted manifest that were registered.
\<close>

theorem private_resume_reproduces:
  fixes E :: ingest_env
  assumes "crypto_ok (xl_crypto (ie_libs E))" and "\<forall>b. xl_hex_decode (ie_libs E) (hex_encode b) = Inr b" and "length (rng 0) = 32"
    and "encrypt_for_private (ie_libs E) (ie_cbor E) (ie_temp_error E) rng file spec = Some (Inr pe)"
    and "ps_owner_l1_address spec = ie_my_addr E"
    and "ps_owner_x25519_pubkey spec = snd (x25519_keypair_from_ed25519_seed (xl_crypto (ie_libs E)) (ie_seed E))"
    and "is_private (fi_visibility info)" and "fi_owner info = my_addr_base58 E"
    and "fi_access_list info = map (shown_access (ie_libs E)) (pe_initial_access pe)"
  defines "a \<equiv> pe_artifacts pe"
  shows "resume_source E info (merkle_root (pa_manifest a)) file w =
    Some (Inr (pa_manifest a, pa_ciphertext a, build (blake3 (xl_digest (ie_libs E))) (map cd_hash (chunks (pa_manifest a))),
               Some (pa_encrypted_manifest a)), w)"
proof -
  let ?X = "ie_libs E" and ?K = "xl_crypto (ie_libs E)"
  obtain b rest where b: "wrap_for_recipient ?K (rng 1) (rng 0) (ie_my_addr E) (snd (x25519_keypair_from_ed25519_seed ?K (ie_seed E))) = Inr b"
      "pe_initial_access pe = \<lparr>am_address = ie_my_addr E, am_encrypted_key_bundle = Some b, am_expires_at = None\<rparr> # rest"
    using encrypt_for_private_cases(2)[OF assms(4)] assms(5,6) by auto
  have u: "unwrap_for_self ?K b (fst (x25519_keypair_from_ed25519_seed ?K (ie_seed E))) (ie_my_addr E) = Inr (rng 0)" "length b = RECIPIENT_BUNDLE_SIZE"
    using wrap_unwrap[OF assms(1) _ assms(3)] b(1) by (simp_all add: x25519_keypair_from_ed25519_seed_def Let_def)
  have "recover_k_file_from_seed_page ?X (ie_seed E) (ie_my_addr E) (my_addr_base58 E) info = Inr (rng 0)"
    using assms(2,9) b(2) u
    by (simp add: recover_k_file_from_seed_page_def entry_for_def shown_access_def my_addr_base58_def unwrap_owner_entry_def
        parse_bundle_hex_def strip_prefix_def)
  then show ?thesis
    using assms(7,8) encrypt_for_private_cases(1)[OF assms(4)]
    by (simp add: resume_source_def bind_act_def require_def map_err_def lift_def ret_def partial_def a_def)
qed

section \<open>The push loops\<close>

text \<open>
  \<open>ensures P m Q R\<close>: from a state in \<open>P\<close>, \<open>m\<close> returns, a value in \<open>Q\<close> or an error in \<open>R\<close>.
\<close>

definition ensures :: "('w \<Rightarrow> bool) \<Rightarrow> ('w, 'e, 'a) act \<Rightarrow> ('a \<Rightarrow> 'w \<Rightarrow> bool) \<Rightarrow> ('e \<Rightarrow> 'w \<Rightarrow> bool) \<Rightarrow> bool" where
  "ensures P m Q R \<longleftrightarrow> (\<forall>w. P w \<longrightarrow> (\<exists>r w'. m w = Some (r, w') \<and> (case r of Inl e \<Rightarrow> R e w' | Inr a \<Rightarrow> Q a w')))"

lemma ensuresI:
  assumes "\<And>w. P w \<Longrightarrow> (\<exists>e w'. m w = Some (Inl e, w') \<and> R e w') \<or> (\<exists>a w'. m w = Some (Inr a, w') \<and> Q a w')"
  shows "ensures P m Q R"
  unfolding ensures_def using assms by (metis sum.case)

lemma ensuresE:
  assumes "ensures P m Q R" "P w"
  obtains e w' where "m w = Some (Inl e, w')" "R e w'" | a w' where "m w = Some (Inr a, w')" "Q a w'"
proof -
  obtain r w' where r: "m w = Some (r, w')" "case r of Inl e \<Rightarrow> R e w' | Inr a \<Rightarrow> Q a w'"
    using assms unfolding ensures_def by blast
  then show thesis using that by (cases r) auto
qed

lemma ensures_bind:
  assumes "ensures P m Q' R" and "\<And>a. ensures (Q' a) (f a) Q R"
  shows "ensures P (bind_act m f) Q R"
proof (rule ensuresI)
  fix w assume "P w"
  with assms(1) show "(\<exists>e w'. bind_act m f w = Some (Inl e, w') \<and> R e w') \<or> (\<exists>a w'. bind_act m f w = Some (Inr a, w') \<and> Q a w')"
  proof (cases rule: ensuresE)
    case (2 a w1)
    from assms(2) 2(2) show ?thesis by (cases rule: ensuresE) (auto simp: bind_act_def 2(1))
  qed (auto simp: bind_act_def)
qed

lemma ensures_ret: "(\<And>w. P w \<Longrightarrow> Q a w) \<Longrightarrow> ensures P (ret a) Q R"
  by (auto simp: ensures_def ret_def)

lemma ensures_attempt:
  assumes "ensures P m (\<lambda>a. Q (Inr a)) (\<lambda>e. Q (Inl e))"
  shows "ensures P (attempt m) Q R"
proof (rule ensuresI)
  fix w assume "P w"
  with assms show "(\<exists>e w'. attempt m w = Some (Inl e, w') \<and> R e w') \<or> (\<exists>a w'. attempt m w = Some (Inr a, w') \<and> Q a w')"
    by (cases rule: ensuresE) (auto simp: attempt_def)
qed

lemma ensures_weaken:
  assumes "ensures P m Q R" "\<And>w. P' w \<Longrightarrow> P w" "\<And>a w. Q a w \<Longrightarrow> Q' a w" "\<And>e w. R e w \<Longrightarrow> R' e w"
  shows "ensures P' m Q' R'"
proof (rule ensuresI)
  fix w assume "P' w"
  then have "P w" by (rule assms(2))
  with assms(1) show "(\<exists>e w'. m w = Some (Inl e, w') \<and> R' e w') \<or> (\<exists>a w'. m w = Some (Inr a, w') \<and> Q' a w')"
    by (cases rule: ensuresE) (auto intro: assms(3,4))
qed

lemma ensures_holds: "ensures P m Q R \<Longrightarrow> holds P m Q R"
  unfolding ensures_def holds_def by (metis Pair_inject option.inject)

text \<open>
  The state of a push stage: the events read so far come from \<open>evs\<close>, the resolver's map is fixed, all pushes
  beyond \<open>ps\<close> are chunks of the file with a valid proof, and each key of \<open>K\<close> has been pushed.
\<close>

definition pushing :: "digest_lib \<Rightarrow> data_manifest \<Rightarrow> sum_net_event list \<Rightarrow> chunk_push list \<Rightarrow> peer_map \<Rightarrow> push_key set \<Rightarrow> ingest_world \<Rightarrow> bool" where
  "pushing L m evs ps peers K w \<longleftrightarrow>
     set (iw_events w) \<subseteq> set evs \<and> iw_peers w = peers
   \<and> (\<exists>new. iw_pushes w = ps @ new \<and> (\<forall>p \<in> set new. push_ok L m p)
        \<and> (\<forall>k \<in> K. \<exists>p \<in> set new. cp_index p = fst k \<and> cp_peer p = snd k))"

definition valid_keys :: "data_manifest \<Rightarrow> push_key set" where
  "valid_keys m = {k. unat (fst k) < unat (chunk_count m)}"

lemma pushing_one:
  assumes "prepared (xl_digest (ie_libs E)) m mapped tree" and "k \<in> valid_keys m"
  shows "ensures (pushing (xl_digest (ie_libs E)) m evs ps peers K) (send_one_push E m mapped tree (fst k) (snd k))
    (\<lambda>_. pushing (xl_digest (ie_libs E)) m evs ps peers (insert k K)) (\<lambda>_. pushing (xl_digest (ie_libs E)) m evs ps peers (insert k K))"
proof (rule ensuresI)
  let ?L = "xl_digest (ie_libs E)"
  fix w assume w: "pushing ?L m evs ps peers K w"
  have i: "unat (fst k) < unat (chunk_count m)" using assms(2) by (simp add: valid_keys_def)
  obtain p r where p: "send_one_push E m mapped tree (fst k) (snd k) w = Some (r, w\<lparr>iw_pushes := iw_pushes w @ [p]\<rparr>)"
      "push_ok ?L m p" "cp_peer p = snd k" "cp_index p = fst k"
    using send_one_push_ok[OF assms(1) i, of "snd k" w] by blast
  have "pushing ?L m evs ps peers (insert k K) (w\<lparr>iw_pushes := iw_pushes w @ [p]\<rparr>)"
    using w p(2-4) by (auto simp: pushing_def)
  with p(1) show "(\<exists>e w'. send_one_push E m mapped tree (fst k) (snd k) w = Some (Inl e, w') \<and> pushing ?L m evs ps peers (insert k K) w')
      \<or> (\<exists>a w'. send_one_push E m mapped tree (fst k) (snd k) w = Some (Inr a, w') \<and> pushing ?L m evs ps peers (insert k K) w')"
    by (cases r) auto
qed

lemma pushing_wave:
  assumes "prepared (xl_digest (ie_libs E)) m mapped tree" and "set ks \<subseteq> valid_keys m" and "set ks \<subseteq> dom attempts"
  shows "ensures (pushing (xl_digest (ie_libs E)) m evs ps peers K) (push_wave E m mapped tree ks attempts :: (ingest_world, 'e, _) act)
    (\<lambda>at w. pushing (xl_digest (ie_libs E)) m evs ps peers (K \<union> set ks) w \<and> dom at = dom attempts) (\<lambda>_ _. False)"
  using assms(2,3)
proof (induction ks arbitrary: attempts K)
  case Nil
  then show ?case by (auto intro: ensures_ret)
next
  case (Cons k ks)
  let ?L = "xl_digest (ie_libs E)"
  have "ensures (pushing ?L m evs ps peers K) (attempt (send_one_push E m mapped tree (fst k) (snd k)) :: (ingest_world, 'e, _) act)
      (\<lambda>_. pushing ?L m evs ps peers (insert k K)) (\<lambda>_ _. False)"
    using Cons.prems by (intro ensures_attempt pushing_one[OF assms(1)]) simp
  then show ?case unfolding push_wave.simps
  proof (rule ensures_bind)
    fix r
    let ?at = "case r of Inl _ \<Rightarrow> attempts | Inr _ \<Rightarrow> attempts(k \<mapsto> 1)"
    have d: "dom ?at = dom attempts" using Cons.prems(2) by (auto split: sum.splits)
    show "ensures (pushing ?L m evs ps peers (insert k K)) (push_wave E m mapped tree ks ?at :: (ingest_world, 'e, _) act)
      (\<lambda>at w. pushing ?L m evs ps peers (K \<union> set (k # ks)) w \<and> dom at = dom attempts) (\<lambda>_ _. False)"
      using Cons.IH[of ?at "insert k K"] Cons.prems d by simp
  qed
qed

definition acks_in :: "data_manifest \<Rightarrow> sum_net_event list \<Rightarrow> push_key set \<Rightarrow> (u32 \<Rightarrow> peer_id set option) \<Rightarrow> bool" where
  "acks_in m evs K acked \<longleftrightarrow>
     (\<forall>i s. acked i = Some s \<longrightarrow> finite s \<and> (\<forall>p \<in> s. (i, p) \<in> K \<and> ShardReceivedV2 p (PushAck (merkle_root m) i None) \<in> set evs))"

lemma pushing_event:
  assumes "prepared (xl_digest (ie_libs E)) m mapped tree" and "dom attempts = K" and "K \<subseteq> valid_keys m"
    and "acks_in m evs K acked" and "ev \<in> set evs"
  shows "ensures (pushing (xl_digest (ie_libs E)) m evs ps peers K) (on_push_event E m mapped tree attempts acked ev :: (ingest_world, 'e, _) act)
    (\<lambda>(at, ac) w. pushing (xl_digest (ie_libs E)) m evs ps peers K w \<and> dom at = K \<and> acks_in m evs K ac) (\<lambda>_ _. False)"
proof -
  let ?L = "xl_digest (ie_libs E)"
  have same: "ensures (pushing ?L m evs ps peers K) (ret (attempts, acked) :: (ingest_world, 'e, _) act)
    (\<lambda>(at, ac) w. pushing ?L m evs ps peers K w \<and> dom at = K \<and> acks_in m evs K ac) (\<lambda>_ _. False)"
    using assms(2,4) by (auto intro: ensures_ret)
  show ?thesis
  proof (cases "\<exists>peer i err n. ev = ShardReceivedV2 peer (PushAck (merkle_root m) i err) \<and> attempts (i, peer) = Some n")
    case False
    then have "on_push_event E m mapped tree attempts acked ev = (ret (attempts, acked) :: (ingest_world, 'e, _) act)"
      by (auto simp: on_push_event_def split: sum_net_event.splits shard_response_v2.splits option.splits)
    then show ?thesis using same by simp
  next
    case True
    then obtain peer i err n where ev: "ev = ShardReceivedV2 peer (PushAck (merkle_root m) i err)" and n: "attempts (i, peer) = Some n"
      by blast
    have k: "(i, peer) \<in> K" using n assms(2) by blast
    show ?thesis
    proof (cases err)
      case None
      then have "acks_in m evs K (acked(i \<mapsto> insert peer (case acked i of None \<Rightarrow> {} | Some s \<Rightarrow> s)))"
        using assms(4,5) k ev by (auto simp: acks_in_def split: option.splits)
      then show ?thesis using None assms(2) by (auto simp: on_push_event_def ev n intro: ensures_ret)
    next
      case (Some e)
      have r: "ensures (pushing ?L m evs ps peers K) (bind_act (attempt (send_one_push E m mapped tree i peer)) (\<lambda>_. ret (attempts((i, peer) \<mapsto> Suc n), acked)) :: (ingest_world, 'e, _) act)
        (\<lambda>(at, ac) w. pushing ?L m evs ps peers K w \<and> dom at = K \<and> acks_in m evs K ac) (\<lambda>_ _. False)"
        using pushing_one[OF assms(1), of "(i, peer)" evs ps peers K] k assms(2-4)
        by (intro ensures_bind[OF ensures_attempt] ensures_ret) (auto simp: insert_absorb)
      show ?thesis using same r by (simp add: on_push_event_def ev n Some)
    qed
  qed
qed

lemma pushing_loop:
  assumes "prepared (xl_digest (ie_libs E)) m mapped tree" and "dom attempts = K" and "K \<subseteq> valid_keys m" and "acks_in m evs K acked"
  shows "ensures (pushing (xl_digest (ie_libs E)) m evs ps peers K) (push_loop E m mapped tree todo turns attempts acked :: (ingest_world, 'e, _) act)
    (\<lambda>ac w. pushing (xl_digest (ie_libs E)) m evs ps peers K w \<and> acks_in m evs K ac) (\<lambda>_ _. False)"
  using assms(2,4)
proof (induction turns arbitrary: attempts acked)
  case 0
  then show ?case by (auto intro: ensures_ret)
next
  case (Suc turns)
  let ?L = "xl_digest (ie_libs E)"
  let ?Q = "\<lambda>ac w. pushing ?L m evs ps peers K w \<and> acks_in m evs K ac"
  have next_ev: "ensures (pushing ?L m evs ps peers K) (next_event :: (ingest_world, 'e, _) act)
      (\<lambda>event w. pushing ?L m evs ps peers K w \<and> (\<forall>ev. event = Some ev \<longrightarrow> ev \<in> set evs)) (\<lambda>_ _. False)"
    by (auto simp: ensures_def next_event_def pushing_def split: list.split)
  have step: "ensures (\<lambda>w. pushing ?L m evs ps peers K w \<and> (\<forall>ev. event = Some ev \<longrightarrow> ev \<in> set evs))
      ((case event of None \<Rightarrow> ret acked
        | Some ev \<Rightarrow> bind_act (on_push_event E m mapped tree attempts acked ev) (\<lambda>(at, ac). push_loop E m mapped tree todo turns at ac))
       :: (ingest_world, 'e, _) act) ?Q (\<lambda>_ _. False)" for event
  proof (cases event)
    case None
    then show ?thesis using Suc.prems by (auto intro: ensures_ret)
  next
    case (Some ev)
    show ?thesis
    proof (cases "ev \<in> set evs")
      case True
      have "ensures (pushing ?L m evs ps peers K)
          (bind_act (on_push_event E m mapped tree attempts acked ev) (\<lambda>(at, ac). push_loop E m mapped tree todo turns at ac)
            :: (ingest_world, 'e, _) act) ?Q (\<lambda>_ _. False)"
      proof (rule ensures_bind[OF pushing_event[OF assms(1) Suc.prems(1) assms(3) Suc.prems(2) True]])
        fix r :: "(push_key \<Rightarrow> nat option) \<times> (u32 \<Rightarrow> peer_id set option)"
        show "ensures ((\<lambda>(at, ac) w. pushing ?L m evs ps peers K w \<and> dom at = K \<and> acks_in m evs K ac) r)
            ((\<lambda>(at, ac). push_loop E m mapped tree todo turns at ac) r :: (ingest_world, 'e, _) act) ?Q (\<lambda>_ _. False)"
          using Suc.IH[of "fst r" "snd r"] by (cases "dom (fst r) = K \<and> acks_in m evs K (snd r)") (auto simp: ensures_def case_prod_beta)
      qed
      then show ?thesis using Some by (simp add: ensures_def)
    qed (auto simp: ensures_def Some)
  qed
  show ?case
    using ensures_bind[OF next_ev step] Suc.prems by (auto intro: ensures_ret)
qed

lemma index_list_set: "set (index_list n) = {i. unat i < unat n}"
proof -
  have "i \<in> set (index_list n)" if "unat i < unat n" for i
    using that by (auto simp: index_list_def image_iff u32_of_def intro!: bexI[of _ "unat i"])
  moreover have "unat i < unat n" if i: "i \<in> set (index_list n)" for i
  proof -
    obtain j where "j < unat n" "i = u32_of j" using i by (auto simp: index_list_def)
    then show ?thesis using unat_less[of n] by (simp add: unat_u32_of)
  qed
  ultimately show ?thesis by blast
qed

lemma push_targets_iff:
  "(i, p) \<in> set (push_targets E peers m snapshot todo) \<longleftrightarrow>
     i \<in> todo \<and> unat i < unat (chunk_count m) \<and> (\<exists>a \<in> set (assigned_to E (merkle_root m) snapshot i). resolve peers a = Some p)"
  by (auto simp: push_targets_def index_list_set List.map_filter_def image_iff split: if_splits)
    (rule bexI[of _ i]; force)

lemma awaiting:
  "ensures (pushing L m evs ps peers0 {}) (await_archives E required)
     (\<lambda>_ w. pushing L m evs ps (iw_peers w) {} w) (\<lambda>_ w. pushing L m evs ps (iw_peers w) {} w)"
proof -
  have s: "set (snd (snd (await_loop waited closed now d peers evs'))) \<subseteq> set evs'" for waited closed now d peers evs'
  proof (induction evs' arbitrary: now d peers)
    case (Cons ev evs')
    show ?case using Cons by (subst await_loop.simps; cases closed) (simp_all add: subset_insertI2 split: discovery_status.split)
  qed (subst await_loop.simps, auto split: discovery_status.split)
  show ?thesis
  proof (rule ensuresI)
    fix w assume w: "pushing L m evs ps peers0 {} w"
    define d where "d = seed_known (iw_peers w) (sorted_list_of_set required) (discovery_new required (ie_turns E (iw_waits w)))"
    obtain r ps' es where l: "await_loop (p_discovery_timeout (ie_params E)) (iw_closed w) 0 d (iw_peers w) (iw_events w) = (r, ps', es)"
      by (cases "await_loop (p_discovery_timeout (ie_params E)) (iw_closed w) 0 d (iw_peers w) (iw_events w)")
    have "set es \<subseteq> set (iw_events w)" using s[of _ _ _ d "iw_peers w" "iw_events w"] l by (metis snd_conv)
    then have "pushing L m evs ps ps' {} (w\<lparr>iw_waits := Suc (iw_waits w), iw_peers := ps', iw_events := es\<rparr>)"
      using w by (auto simp: pushing_def)
    moreover have "await_archives E required w = Some (r, w\<lparr>iw_waits := Suc (iw_waits w), iw_peers := ps', iw_events := es\<rparr>)"
      using l by (simp add: await_archives_def bind_act_def wait_turns_def Let_def d_def)
    ultimately show "(\<exists>e w'. await_archives E required w = Some (Inl e, w') \<and> pushing L m evs ps (iw_peers w') {} w')
      \<or> (\<exists>a w'. await_archives E required w = Some (Inr a, w') \<and> pushing L m evs ps (iw_peers w') {} w')"
      by (cases r) auto
  qed
qed

text \<open>
  Chunk \<open>i\<close> is replicated: at least as many peers as the chain's replication factor acknowledged it, each the peer of an
  archive it is assigned to, and each was pushed the chunk with a valid proof.
\<close>

definition replicated :: "ingest_env \<Rightarrow> data_manifest \<Rightarrow> addr20 list \<Rightarrow> sum_net_event list \<Rightarrow> peer_map \<Rightarrow> chunk_push list \<Rightarrow> u32 \<Rightarrow> bool" where
  "replicated E m snapshot evs peers ps i \<longleftrightarrow>
     (\<exists>S. finite S \<and> unat (replication E) \<le> card S \<and> (\<forall>p \<in> S.
        ShardReceivedV2 p (PushAck (merkle_root m) i None) \<in> set evs
      \<and> (\<exists>a \<in> set (assigned_to E (merkle_root m) snapshot i). resolve peers a = Some p)
      \<and> (\<exists>c \<in> set ps. cp_peer c = p \<and> cp_index c = i \<and> push_ok (xl_digest (ie_libs E)) m c)))"

lemma ensures_wait_turns: "ensures (pushing L m evs ps peers K) (wait_turns E) (\<lambda>_. pushing L m evs ps peers K) R"
  by (auto simp: ensures_def wait_turns_def pushing_def)

lemma ensures_fix_world:
  assumes "\<And>w0. P w0 \<Longrightarrow> ensures (\<lambda>w. w = w0) m Q R"
  shows "ensures P m Q R"
  using assms unfolding ensures_def by blast

lemma replicated_if:
  assumes "acks_in m evs K acked" and "under_replicated acked todo (replication E) = []" and "finite todo" and "i \<in> todo"
    and "K = set (push_targets E peers m snapshot todo)" and "pushing (xl_digest (ie_libs E)) m evs ps peers K w"
  shows "replicated E m snapshot evs peers (iw_pushes w) i"
proof -
  have "i \<notin> {i \<in> todo. case acked i of None \<Rightarrow> True | Some s \<Rightarrow> u32_of (card s) < replication E}"
    using assms(2,3) unfolding under_replicated_def by (simp add: sorted_list_of_set_eq_Nil_iff)
  then obtain s where s: "acked i = Some s" "\<not> u32_of (card s) < replication E" using assms(4) by (auto split: option.splits)
  have "unat (u32_of (card s)) \<le> card s" by (simp add: u32_of_def unsigned_of_nat take_bit_eq_mod)
  then have "unat (replication E) \<le> card s" using s(2) by (simp add: word_less_nat_alt)
  moreover have "finite s \<and> (\<forall>p \<in> s. (i, p) \<in> K \<and> ShardReceivedV2 p (PushAck (merkle_root m) i None) \<in> set evs)"
    using assms(1) s(1) by (auto simp: acks_in_def)
  moreover have "\<exists>c \<in> set (iw_pushes w). cp_peer c = p \<and> cp_index c = i \<and> push_ok (xl_digest (ie_libs E)) m c" if "(i, p) \<in> K" for p
    using assms(6) that unfolding pushing_def by force
  ultimately show ?thesis unfolding replicated_def using assms(5) by (intro exI[of _ s]) (auto simp: push_targets_iff)
qed

lemma push_stage:
  assumes "prepared (xl_digest (ie_libs E)) m mapped tree" and "finite todo"
  shows "ensures (pushing (xl_digest (ie_libs E)) m evs ps peers0 {}) (s2_push_chunks E m mapped tree snapshot todo)
    (\<lambda>assigned w. pushing (xl_digest (ie_libs E)) m evs ps (iw_peers w) {} w \<and> assigned = distinct_assigned E m snapshot
        \<and> (\<forall>i \<in> todo. replicated E m snapshot evs (iw_peers w) (iw_pushes w) i))
    (\<lambda>f w. pushing (xl_digest (ie_libs E)) m evs ps (iw_peers w) {} w)"
  (is "ensures _ _ ?Q ?R")
proof -
  let ?L = "xl_digest (ie_libs E)"
  let ?K = "\<lambda>peers. set (push_targets E peers m snapshot todo)"
  have K: "?K peers \<subseteq> valid_keys m" for peers by (auto simp: push_targets_iff valid_keys_def)
  have start: "dom (\<lambda>k. if k \<in> S then Some (0 :: nat) else None) = S" for S :: "push_key set"
    by (auto simp: dom_def)
  have weak: "pushing ?L m evs ps peers K w \<Longrightarrow> pushing ?L m evs ps (iw_peers w) {} w" for peers K w
    by (auto simp: pushing_def)
  have finish: "ensures (\<lambda>w. pushing ?L m evs ps peers (?K peers) w \<and> acks_in m evs (?K peers) acked)
      (if under_replicated acked todo (replication E) = [] then ret (distinct_assigned E m snapshot)
       else fail (PushFailure (under_replicated acked todo (replication E)) err)) ?Q ?R" for peers acked err
  proof (rule ensuresI)
    fix w assume w: "pushing ?L m evs ps peers (?K peers) w \<and> acks_in m evs (?K peers) acked"
    then have p: "iw_peers w = peers" by (simp add: pushing_def)
    have "?Q (distinct_assigned E m snapshot) w" if "under_replicated acked todo (replication E) = []"
      using replicated_if[OF _ that assms(2) _ refl, of m evs peers snapshot _ ps w] w p weak by auto
    moreover have "?R f w" for f using w weak by blast
    ultimately show "(\<exists>e w'. (if under_replicated acked todo (replication E) = [] then ret (distinct_assigned E m snapshot)
       else fail (PushFailure (under_replicated acked todo (replication E)) err)) w = Some (Inl e, w') \<and> ?R e w')
      \<or> (\<exists>a w'. (if under_replicated acked todo (replication E) = [] then ret (distinct_assigned E m snapshot)
       else fail (PushFailure (under_replicated acked todo (replication E)) err)) w = Some (Inr a, w') \<and> ?Q a w')"
      by (simp add: ret_def fail_def)
  qed
  have rest: "ensures (pushing ?L m evs ps peers {})
      (bind_act (push_wave E m mapped tree (push_targets E peers m snapshot todo)
                   (\<lambda>k. if k \<in> ?K peers then Some 0 else None)) (\<lambda>attempts.
       bind_act (wait_turns E) (\<lambda>turns.
       bind_act (push_loop E m mapped tree todo turns attempts (\<lambda>_. None)) (\<lambda>acked.
         if under_replicated acked todo (replication E) = [] then ret (distinct_assigned E m snapshot)
         else fail (PushFailure (under_replicated acked todo (replication E)) err))))) ?Q ?R" for peers err
  proof (rule ensures_bind)
    show "ensures (pushing ?L m evs ps peers {})
        (push_wave E m mapped tree (push_targets E peers m snapshot todo) (\<lambda>k. if k \<in> ?K peers then Some 0 else None))
        (\<lambda>at w. pushing ?L m evs ps peers (?K peers) w \<and> dom at = ?K peers) ?R"
      by (rule ensures_weaken[OF pushing_wave[OF assms(1) K, where K = "{}"]]) (auto simp: start)
    show "ensures (\<lambda>w. pushing ?L m evs ps peers (?K peers) w \<and> dom at = ?K peers) (bind_act (wait_turns E) (\<lambda>turns.
       bind_act (push_loop E m mapped tree todo turns at (\<lambda>_. None)) (\<lambda>acked.
         if under_replicated acked todo (replication E) = [] then ret (distinct_assigned E m snapshot)
         else fail (PushFailure (under_replicated acked todo (replication E)) err)))) ?Q ?R" for at
    proof (cases "dom at = ?K peers")
      case True
      have "ensures (pushing ?L m evs ps peers (?K peers)) (push_loop E m mapped tree todo turns at (\<lambda>_. None))
          (\<lambda>ac w. pushing ?L m evs ps peers (?K peers) w \<and> acks_in m evs (?K peers) ac) ?R" for turns
        by (rule ensures_weaken[OF pushing_loop[OF assms(1) True K]]) (auto simp: acks_in_def)
      from ensures_bind[OF ensures_wait_turns ensures_bind[OF this finish]] True show ?thesis by simp
    qed (simp add: ensures_def)
  qed
  show ?thesis unfolding s2_push_chunks_def Let_def
    by (rule ensures_bind[OF ensures_attempt[OF awaiting]],
        rule ensures_bind[where Q' = "\<lambda>peers. pushing ?L m evs ps peers {}", OF _ rest], simp add: ensures_def gets_def)
qed

section \<open>The other stages\<close>

text \<open>A stage that always returns, pushes no chunk, leaves the resolver's map alone and reads events in order.\<close>

definition calm :: "(ingest_world, 'e, 'a) act \<Rightarrow> bool" where
  "calm m \<longleftrightarrow> (\<forall>w. \<exists>r w'. m w = Some (r, w') \<and> iw_peers w' = iw_peers w \<and> iw_pushes w' = iw_pushes w \<and> set (iw_events w') \<subseteq> set (iw_events w))"

named_theorems act_calm \<open>rules for calm\<close>

lemma calm_simple [act_calm]:
  "calm (ret a)" "calm (fail e)" "calm (lift x)" "calm (gets g)" "calm (require b e)" "calm (call q)" "calm (send_raw_transaction C t)"
  "calm (wait_turns E)" "calm (push_manifest_v2 E p rt bs)"
  by (auto simp: calm_def ret_def fail_def lift_def gets_def require_def call_def send_raw_transaction_def wait_turns_def push_manifest_v2_def)

lemma calm_event [act_calm]: "calm next_event"
  by (auto simp: calm_def next_event_def split: list.split)

lemma calm_finality [act_calm]: "0 < p \<Longrightarrow> calm (await_finality C h p t)"
  using wait_total[of p] by (auto simp: calm_def await_finality_def)

lemma calm_bind [act_calm]:
  assumes "calm m" and "\<And>a. calm (f a)"
  shows "calm (bind_act m f)"
proof (unfold calm_def, intro allI)
  fix w
  obtain r w1 where 1: "m w = Some (r, w1)" "iw_peers w1 = iw_peers w" "iw_pushes w1 = iw_pushes w" "set (iw_events w1) \<subseteq> set (iw_events w)"
    using assms(1) unfolding calm_def by blast
  show "\<exists>r w'. bind_act m f w = Some (r, w') \<and> iw_peers w' = iw_peers w \<and> iw_pushes w' = iw_pushes w \<and> set (iw_events w') \<subseteq> set (iw_events w)"
  proof (cases r)
    case (Inr a)
    obtain r2 w2 where "f a w1 = Some (r2, w2)" "iw_peers w2 = iw_peers w1" "iw_pushes w2 = iw_pushes w1" "set (iw_events w2) \<subseteq> set (iw_events w1)"
      using assms(2)[of a] unfolding calm_def by blast
    then show ?thesis using 1 Inr by (auto simp: bind_act_def)
  qed (use 1 in \<open>auto simp: bind_act_def\<close>)
qed

lemma calm_map_err [act_calm]: "calm m \<Longrightarrow> calm (map_err g m)"
  unfolding calm_def map_err_def by fastforce

lemma calm_attempt [act_calm]: "calm m \<Longrightarrow> calm (attempt m)"
  unfolding calm_def attempt_def by fastforce

lemma calm_option [act_calm]: "calm a \<Longrightarrow> (\<And>x. calm (b x)) \<Longrightarrow> calm (case z of None \<Rightarrow> a | Some x \<Rightarrow> b x)"
  by (cases z) auto

lemma calm_if [act_calm]: "calm a \<Longrightarrow> calm b \<Longrightarrow> calm (if c then a else b)"
  by auto

lemma calm_prod [act_calm]: "(\<And>x y. calm (f x y)) \<Longrightarrow> calm (case z of (x, y) \<Rightarrow> f x y)"
  by (cases z) auto

lemma calm_reads [act_calm]:
  "calm (check_v2_enabled E)" "calm (fetch_assignment_inputs E rt)" "calm (s0_chunk E file)" "x \<noteq> None \<Longrightarrow> calm (partial x)"
proof -
  show "calm (check_v2_enabled E)" unfolding check_v2_enabled_def by (intro act_calm)
  show "calm (fetch_assignment_inputs E rt)" unfolding fetch_assignment_inputs_def Let_def by (intro act_calm)
  show "calm (s0_chunk E file)" by (auto simp: calm_def s0_chunk_def chunk_file_total split: sum.splits option.split)
  show "x \<noteq> None \<Longrightarrow> calm (partial x)" by (auto simp: calm_def partial_def)
qed

lemma calm_register [act_calm]: "0 < p_poll_interval (ie_params E) \<Longrightarrow> calm (s1_register_pending E m stored vis access)"
  unfolding s1_register_pending_def Let_def by (intro act_calm)

lemma calm_manifest_wave [act_calm]: "calm (manifest_wave E rt b ps)"
  by (induction ps) (auto intro!: act_calm)

lemma calm_manifest_loop [act_calm]: "calm (manifest_loop rt needed turns acked)"
  by (induction turns arbitrary: acked) (auto intro!: act_calm split: option.split)

lemma calm_push_manifest [act_calm]: "calm (s3_push_manifest E m assigned b)"
  unfolding s3_push_manifest_def Let_def by (intro act_calm)

lemma calm_s4_loop [act_calm]: "calm (s4_loop E h turns latest)"
proof (induction turns arbitrary: latest)
  case 0
  show ?case by (subst s4_loop.simps) (auto simp: Let_def intro!: act_calm split: sum.split option.split)
next
  case (Suc t)
  show ?case by (subst s4_loop.simps) (auto simp: Let_def Suc intro!: act_calm split: sum.split option.split)
qed

lemma calm_wait_coverage [act_calm]: "calm (s4_wait_coverage E rt)"
  unfolding s4_wait_coverage_def by (intro act_calm)

lemma calm_activate [act_calm]: "0 < p_poll_interval (ie_params E) \<Longrightarrow> calm (s5_activate E rt)"
  unfolding s5_activate_def Let_def by (intro act_calm)

section \<open>Whole runs\<close>

definition untouched :: "chunk_push list \<Rightarrow> sum_net_event list \<Rightarrow> ingest_world \<Rightarrow> bool" where
  "untouched ps evs w \<longleftrightarrow> iw_pushes w = ps \<and> set (iw_events w) \<subseteq> set evs"

text \<open>Whatever the outcome, all that was pushed are chunks of the outcome's manifest with valid proofs.\<close>

definition tidy :: "digest_lib \<Rightarrow> chunk_push list \<Rightarrow> ingest_outcome \<Rightarrow> chunk_push list \<Rightarrow> bool" where
  "tidy L ps out ps' \<longleftrightarrow> (\<exists>new. ps' = ps @ new \<and> (\<forall>p \<in> set new. \<exists>m. outcome_manifest out = Some m \<and> push_ok L m p))"

definition stable :: "(ingest_world \<Rightarrow> bool) \<Rightarrow> bool" where
  "stable P \<longleftrightarrow> (\<forall>w w'. P w \<and> iw_peers w' = iw_peers w \<and> iw_pushes w' = iw_pushes w \<and> set (iw_events w') \<subseteq> set (iw_events w) \<longrightarrow> P w')"

lemma stable_simple: "stable (untouched ps evs)" "stable (\<lambda>w. pushing L m evs ps (iw_peers w) K w)"
  unfolding stable_def untouched_def pushing_def by auto

lemma ensures_map_err: "ensures P m Q (\<lambda>e. R (g e)) \<Longrightarrow> ensures P (map_err g m) Q R"
  by (rule ensuresI) (erule ensuresE, assumption, auto simp: map_err_eq)

lemma ensures_calm:
  assumes "calm m" and "stable P" and "\<And>e w. P w \<Longrightarrow> R e w"
  shows "ensures P m (\<lambda>a w. P w \<and> yields m a) R"
proof (rule ensuresI)
  fix w assume "P w"
  moreover obtain r w' where r: "m w = Some (r, w')" "iw_peers w' = iw_peers w" "iw_pushes w' = iw_pushes w" "set (iw_events w') \<subseteq> set (iw_events w)"
    using assms(1) unfolding calm_def by blast
  ultimately have "P w'" using assms(2) unfolding stable_def by blast
  then show "(\<exists>e w'. m w = Some (Inl e, w') \<and> R e w') \<or> (\<exists>a w'. m w = Some (Inr a, w') \<and> P w' \<and> yields m a)"
    using r(1) assms(3) by (cases r) (auto simp: yields_def)
qed

lemma calm_then:
  assumes "calm m" and "stable P" and "\<And>w e. P w \<Longrightarrow> R (g e) w" and "\<And>a. yields m a \<Longrightarrow> ensures P (f a) Q R"
  shows "ensures P (bind_act (map_err g m) f) Q R"
proof (rule ensures_bind[OF ensures_map_err[OF ensures_calm[OF assms(1,2)]]])
  show "ensures (\<lambda>w. P w \<and> yields m a) (f a) Q R" for a
    using assms(4)[of a] by (auto simp: ensures_def)
qed (rule assms(3))

lemma require_then:
  assumes "\<And>w. P w \<Longrightarrow> \<not> b \<Longrightarrow> R e w" and "b \<Longrightarrow> ensures P f Q R"
  shows "ensures P (bind_act (require b e) (\<lambda>_. f)) Q R"
  using assms by (auto simp: ensures_def bind_act_def require_def ret_def fail_def)

lemma manifest_acks:
  assumes "acked \<subseteq> needed" and "\<forall>p \<in> acked. ShardReceivedV2 p (ManifestPushAck rt None) \<in> set evs" and "set (iw_events w) \<subseteq> set evs"
    and "(manifest_loop rt needed turns acked :: (ingest_world, 'e, _) act) w = Some (Inr acked', w')"
  shows "acked' \<subseteq> needed \<and> (\<forall>p \<in> acked'. ShardReceivedV2 p (ManifestPushAck rt None) \<in> set evs)"
  using assms
proof (induction turns arbitrary: acked w)
  case 0
  then show ?case by (auto simp: ret_def)
next
  case (Suc turns)
  show ?case
  proof (cases "\<not> card acked < card needed \<or> iw_events w = []")
    case True
    then show ?thesis using Suc.prems by (auto simp: ret_def bind_act_def next_event_def split: if_splits)
  next
    case False
    then obtain ev rest where e: "iw_events w = ev # rest" by (cases "iw_events w") auto
    define ac where "ac = (case ev of ShardReceivedV2 peer (ManifestPushAck r err) \<Rightarrow>
        if r = rt \<and> err = None \<and> peer \<in> needed then insert peer acked else acked | _ \<Rightarrow> acked)"
    have "(manifest_loop rt needed turns ac :: (ingest_world, 'e, _) act) (w\<lparr>iw_events := rest\<rparr>) = Some (Inr acked', w')"
      using Suc.prems(4) False e by (simp add: bind_act_def next_event_def ac_def)
    moreover have "ac \<subseteq> needed" "\<forall>p \<in> ac. ShardReceivedV2 p (ManifestPushAck rt None) \<in> set evs"
      using Suc.prems(1-3) e by (auto simp: ac_def split: sum_net_event.splits shard_response_v2.splits if_splits)
    ultimately show ?thesis using Suc.IH[of ac "w\<lparr>iw_events := rest\<rparr>"] Suc.prems(3) e by simp
  qed
qed

lemma manifest_stage:
  assumes "s3_push_manifest E m assigned ov w = Some (Inr (), w')" and "set (iw_events w) \<subseteq> set evs"
    and "p \<in> set (manifest_targets (iw_peers w) assigned)"
  shows "ShardReceivedV2 p (ManifestPushAck (merkle_root m) None) \<in> set evs"
proof -
  let ?T = "manifest_targets (iw_peers w) assigned"
  obtain b w1 w2 turns w3 acked where s:
      "(case ov of Some b \<Rightarrow> ret b | None \<Rightarrow> map_err ManifestEncode (lift (cbor_ser (ie_cbor E) m))) w = Some (Inr b, w1)"
      "map_err ManifestSend (manifest_wave E (merkle_root m) b ?T) w1 = Some (Inr (), w2)" "(wait_turns E :: (ingest_world, ingest_error, _) act) w2 = Some (Inr turns, w3)"
      "(manifest_loop (merkle_root m) (set ?T) turns {} :: (ingest_world, ingest_error, _) act) w3 = Some (Inr acked, w')" "card (set ?T) \<le> card acked"
    using assms(1) unfolding s3_push_manifest_def Let_def
    by (auto simp: bind_act_Some gets_def require_def ret_def fail_def split: if_splits)
  have "calm (map_err ManifestSend (manifest_wave E (merkle_root m) b ?T))" by (intro act_calm)
  then have "set (iw_events w2) \<subseteq> set (iw_events w1)" using s(2) unfolding calm_def by (metis option.inject prod.inject)
  moreover have "iw_events w1 = iw_events w" using s(1) by (auto simp: ret_def map_err_eq lift_def split: option.splits)
  moreover have "iw_events w3 = iw_events w2" using s(3) by (auto simp: wait_turns_def)
  ultimately have "acked \<subseteq> set ?T \<and> (\<forall>p \<in> acked. ShardReceivedV2 p (ManifestPushAck (merkle_root m) None) \<in> set evs)"
    using manifest_acks[OF _ _ _ s(4), of evs] assms(2) by auto
  moreover from this have "acked = set ?T" using s(5) card_seteq[of "set ?T" acked] by simp
  ultimately show ?thesis using assms(3) by blast
qed

definition activation_due :: "ingest_env \<Rightarrow> data_manifest \<Rightarrow> sum_net_event list \<Rightarrow> ingest_world \<Rightarrow> bool" where
  "activation_due E m evs w \<longleftrightarrow>
     (\<exists>n k info raw snapshot. cr_file_info (ie_rpc E) n (''0x'' @ hex_encode (merkle_root m)) None None = Inr (Some info)
        \<and> cr_active_nodes (ie_rpc E) k (fi_assignment_height info) = Inr raw
        \<and> eligible_archive_addresses (ie_libs E) raw = Inr snapshot
        \<and> (\<forall>i. unat i < unat (chunk_count m) \<longrightarrow> replicated E m snapshot evs (iw_peers w) (iw_pushes w) i)
        \<and> (\<forall>p \<in> set (manifest_targets (iw_peers w) (distinct_assigned E m snapshot)).
              ShardReceivedV2 p (ManifestPushAck (merkle_root m) None) \<in> set evs))
   \<and> (\<exists>n cov. cr_coverage (ie_rpc E) n (''0x'' @ hex_encode (merkle_root m)) None None = Inr (Some cov) \<and> ac_can_activate_now cov)"

lemma yields_assignment:
  "yields (fetch_assignment_inputs E rt) (info, snapshot) \<Longrightarrow>
     \<exists>n k raw. cr_file_info (ie_rpc E) n (''0x'' @ hex_encode rt) None None = Inr (Some info)
       \<and> cr_active_nodes (ie_rpc E) k (fi_assignment_height info) = Inr raw \<and> eligible_archive_addresses (ie_libs E) raw = Inr snapshot"
  unfolding fetch_assignment_inputs_def Let_def
  by (erule yields_bindE) (auto simp: yields_simple split: option.splits elim!: yields_bindE, blast)

lemma yields_s4: "yields (s4_loop E h turns latest) cov \<Longrightarrow> \<exists>n cov. cr_coverage (ie_rpc E) n h None None = Inr (Some cov) \<and> ac_can_activate_now cov"
proof (induction turns arbitrary: latest)
  case 0
  then show ?case
    by (subst (asm) s4_loop.simps) (auto simp: Let_def yields_def bind_act_Some attempt_eq call_def fail_def ret_def split: sum.splits option.splits if_splits)
next
  case (Suc t)
  from Suc.prems show ?case
    by (subst (asm) s4_loop.simps)
      (auto simp: Let_def yields_def bind_act_Some attempt_eq call_def fail_def ret_def split: sum.splits option.splits if_splits intro: Suc.IH[unfolded yields_def])
qed

lemma yields_coverage:
  "yields (s4_wait_coverage E rt) cov \<Longrightarrow>
     \<exists>n cov. cr_coverage (ie_rpc E) n (''0x'' @ hex_encode rt) None None = Inr (Some cov) \<and> ac_can_activate_now cov"
  unfolding s4_wait_coverage_def by (erule yields_bindE) (rule yields_s4)

lemma tidy_if:
  "untouched ps evs w \<Longrightarrow> tidy L ps out (iw_pushes w)"
  "outcome_manifest out = Some m \<Longrightarrow> pushing L m evs ps peers K w \<Longrightarrow> tidy L ps out (iw_pushes w)"
  by (auto simp: untouched_def tidy_def pushing_def)

lemma pending_manifest [simp]:
  "outcome_manifest (pending m st cov few act err) = Some m" "outcome_manifest (s4_outcome m e) = Some m"
  "outcome_manifest (push_outcome m cov f) = Some m"
  by (auto simp: outcome_manifest_def pending_def s4_outcome_def push_outcome_def split: s4_wait_error.split push_failure.split)

definition is_activated :: "ingest_outcome \<Rightarrow> bool" where
  "is_activated out \<longleftrightarrow> (\<exists>rt m a b c d. out = Activated rt m a b c d)"

lemma not_activated [simp]:
  "\<not> is_activated (pending m st cov few act err)" "\<not> is_activated (s4_outcome m e)" "\<not> is_activated (push_outcome m cov f)"
  "\<not> is_activated (refuse mo er)"
  by (auto simp: is_activated_def pending_def s4_outcome_def push_outcome_def refuse_def split: s4_wait_error.split push_failure.split)

lemma ensures_manifest:
  assumes "stable P" and "\<And>w. P w \<Longrightarrow> set (iw_events w) \<subseteq> set evs"
  shows "ensures P (s3_push_manifest E m assigned ov)
    (\<lambda>_ w. P w \<and> (\<forall>p \<in> set (manifest_targets (iw_peers w) assigned). ShardReceivedV2 p (ManifestPushAck (merkle_root m) None) \<in> set evs)) (\<lambda>_. P)"
proof (rule ensuresI)
  fix w assume w: "P w"
  obtain r w' where r: "s3_push_manifest E m assigned ov w = Some (r, w')" "iw_peers w' = iw_peers w" "iw_pushes w' = iw_pushes w"
      "set (iw_events w') \<subseteq> set (iw_events w)"
    using calm_push_manifest[of E m assigned ov] unfolding calm_def by blast
  have p: "P w'" using w r(2-4) assms(1) unfolding stable_def by blast
  show "(\<exists>e w'. s3_push_manifest E m assigned ov w = Some (Inl e, w') \<and> P w') \<or> (\<exists>a w'. s3_push_manifest E m assigned ov w = Some (Inr a, w') \<and>
      P w' \<and> (\<forall>p \<in> set (manifest_targets (iw_peers w') assigned). ShardReceivedV2 p (ManifestPushAck (merkle_root m) None) \<in> set evs))"
    using r(1,2) p manifest_stage[of E m assigned ov w w' evs] assms(2)[OF w] by (cases r) auto
qed

lemma push_and_activate_ensures:
  assumes "prepared (xl_digest (ie_libs E)) m mapped tree" and "0 < p_poll_interval (ie_params E)"
  shows "ensures (untouched ps evs) (push_and_activate E m mapped tree ov rg)
    (\<lambda>out w. tidy (xl_digest (ie_libs E)) ps out (iw_pushes w) \<and> outcome_manifest out = Some m \<and> activation_due E m evs w)
    (\<lambda>out w. tidy (xl_digest (ie_libs E)) ps out (iw_pushes w) \<and> \<not> is_activated out)"
  (is "ensures _ _ ?Q ?R")
proof -
  let ?L = "xl_digest (ie_libs E)" and ?rt = "merkle_root m"
  let ?push = "\<lambda>w. pushing ?L m evs ps (iw_peers w) {} w"
  let ?all = "set (index_list (chunk_count m))"
  have last_stages: "ensures (\<lambda>w. ?push w \<and> (\<forall>i \<in> ?all. replicated E m snapshot evs (iw_peers w) (iw_pushes w) i)
        \<and> (\<forall>p \<in> set (manifest_targets (iw_peers w) (distinct_assigned E m snapshot)). ShardReceivedV2 p (ManifestPushAck ?rt None) \<in> set evs))
      (bind_act (map_err (s4_outcome m) (s4_wait_coverage E ?rt)) (\<lambda>last_coverage.
       bind_act (map_err (\<lambda>e. pending m ActivateStage (Some last_coverage) None Resume (Some e)) (s5_activate E ?rt)) (\<lambda>(h, n).
        ret (Activated ?rt m (fst rg) (snd rg) h n)))) ?Q ?R" (is "ensures ?P _ _ _")
    if "yields (fetch_assignment_inputs E ?rt) (info, snapshot)" for info snapshot
  proof (rule calm_then)
    note inputs = yields_assignment[OF that]
    show st: "stable ?P" unfolding stable_def pushing_def by auto
    show "ensures ?P (bind_act (map_err (\<lambda>e. pending m ActivateStage (Some cov) None Resume (Some e)) (s5_activate E ?rt)) (\<lambda>(h, n).
        ret (Activated ?rt m (fst rg) (snd rg) h n))) ?Q ?R" if c: "yields (s4_wait_coverage E ?rt) cov" for cov
    proof (rule calm_then[OF calm_activate[OF assms(2)] st])
      show "ensures ?P ((\<lambda>(h, n). ret (Activated ?rt m (fst rg) (snd rg) h n)) a) ?Q ?R" for a
        using yields_coverage[OF c] inputs unfolding case_prod_beta
        by (intro ensures_ret)
          (auto simp: outcome_manifest_def activation_due_def index_list_set intro: tidy_if(2)[where m = m], blast)
    qed (auto intro: tidy_if(2)[where m = m])
  qed (auto intro: tidy_if(2)[where m = m] act_calm)
  show ?thesis unfolding push_and_activate_def Let_def case_prod_beta
  proof (rule calm_then[OF calm_reads(2) stable_simple(1)])
    fix r assume r: "yields (fetch_assignment_inputs E ?rt) r"
    have s2: "ensures (untouched ps evs) (map_err (push_outcome m None) (s2_push_chunks E m mapped tree (snd r) ?all))
        (\<lambda>assigned w. ?push w \<and> assigned = distinct_assigned E m (snd r) \<and> (\<forall>i \<in> ?all. replicated E m (snd r) evs (iw_peers w) (iw_pushes w) i)) ?R"
      by (rule ensures_map_err, rule ensures_fix_world, rule ensures_weaken[OF push_stage[OF assms(1), where evs = evs and ps = ps]])
        (auto simp: untouched_def pushing_def intro: tidy_if(2)[where m = m])
    show "ensures (untouched ps evs) (bind_act (require (snd r \<noteq> []) (pending m PushStage None None Abandon (Some (EmptySnapshot (fi_assignment_height (fst r))))))
        (\<lambda>_. bind_act (map_err (push_outcome m None) (s2_push_chunks E m mapped tree (snd r) ?all)) (\<lambda>assigned.
          bind_act (map_err (\<lambda>e. pending m ManifestPushStage None None Resume (Some e)) (s3_push_manifest E m assigned ov)) (\<lambda>_.
          bind_act (map_err (s4_outcome m) (s4_wait_coverage E ?rt)) (\<lambda>last_coverage.
          bind_act (map_err (\<lambda>e. pending m ActivateStage (Some last_coverage) None Resume (Some e)) (s5_activate E ?rt)) (\<lambda>x.
            ret (Activated ?rt m (fst rg) (snd rg) (fst x) (snd x)))))))) ?Q ?R"
    proof (rule require_then, simp add: tidy_if(1), rule ensures_bind[OF s2])
      fix assigned
      let ?P = "\<lambda>w. ?push w \<and> assigned = distinct_assigned E m (snd r) \<and> (\<forall>i \<in> ?all. replicated E m (snd r) evs (iw_peers w) (iw_pushes w) i)"
      have st: "stable ?P" unfolding stable_def pushing_def by auto
      have s3: "ensures ?P (map_err (\<lambda>e. pending m ManifestPushStage None None Resume (Some e)) (s3_push_manifest E m assigned ov))
          (\<lambda>_ w. ?P w \<and> (\<forall>p \<in> set (manifest_targets (iw_peers w) assigned). ShardReceivedV2 p (ManifestPushAck ?rt None) \<in> set evs)) ?R"
        by (rule ensures_map_err, rule ensures_weaken[OF ensures_manifest[OF st, where evs = evs]])
          (auto simp: pushing_def intro: tidy_if(2)[where m = m])
      show "ensures ?P (bind_act (map_err (\<lambda>e. pending m ManifestPushStage None None Resume (Some e)) (s3_push_manifest E m assigned ov)) (\<lambda>_.
          bind_act (map_err (s4_outcome m) (s4_wait_coverage E ?rt)) (\<lambda>last_coverage.
          bind_act (map_err (\<lambda>e. pending m ActivateStage (Some last_coverage) None Resume (Some e)) (s5_activate E ?rt)) (\<lambda>x.
            ret (Activated ?rt m (fst rg) (snd rg) (fst x) (snd x)))))) ?Q ?R"
        by (rule ensures_bind[OF s3], rule ensures_weaken[OF last_stages[unfolded case_prod_beta, of "fst r" "snd r"]]) (use r in auto)
    qed
  qed (auto intro: tidy_if(1))
qed

lemma untouched_archives:
  "ensures (untouched ps evs) (s1a_require_archives E rt n) (\<lambda>_. untouched ps evs) (\<lambda>_. untouched ps evs)"
proof -
  have "ensures (untouched ps evs) (await_archives E required) (\<lambda>_. untouched ps evs) (\<lambda>_. untouched ps evs)" for required
  proof (rule ensures_fix_world)
    fix w0 assume w0: "untouched ps evs w0"
    \<comment> \<open>with no acceptable push at all, a pushing state is an untouched one\<close>
    define m0 :: data_manifest where "m0 = undefined\<lparr>chunk_count := 0\<rparr>"
    have none: "\<not> push_ok L m0 p" for L p by (simp add: push_ok_def m0_def)
    show "ensures (\<lambda>w. w = w0) (await_archives E required) (\<lambda>_. untouched ps evs) (\<lambda>_. untouched ps evs)"
      by (rule ensures_weaken[OF awaiting[of undefined m0 evs ps "iw_peers w0"]])
        (use w0 in \<open>auto simp: pushing_def untouched_def none\<close>)
  qed
  then show ?thesis unfolding s1a_require_archives_def Let_def
    by (intro calm_then act_calm stable_simple(1) require_then ensures_map_err) auto
qed

lemma registered_ensures:
  assumes "prepared (xl_digest (ie_libs E)) m mapped tree" and "0 < p_poll_interval (ie_params E)"
  shows "ensures (untouched ps evs)
      (bind_act (map_err (refuse (Some m)) (s1a_require_archives E (merkle_root m) (chunk_count m))) (\<lambda>_.
       bind_act (map_err (refuse (Some m)) (s1_register_pending E m stored vis access)) (push_and_activate E m mapped tree ov)))
    (\<lambda>out w. tidy (xl_digest (ie_libs E)) ps out (iw_pushes w) \<and> outcome_manifest out = Some m \<and> activation_due E m evs w)
    (\<lambda>out w. tidy (xl_digest (ie_libs E)) ps out (iw_pushes w) \<and> \<not> is_activated out)"
    (is "ensures _ _ ?Q ?R")
proof (rule ensures_bind)
  show "ensures (untouched ps evs) (map_err (refuse (Some m)) (s1a_require_archives E (merkle_root m) (chunk_count m))) (\<lambda>_. untouched ps evs) ?R"
    by (rule ensures_map_err, rule ensures_weaken[OF untouched_archives]) (auto intro: tidy_if(1))
  show "ensures (untouched ps evs) (bind_act (map_err (refuse (Some m)) (s1_register_pending E m stored vis access)) (push_and_activate E m mapped tree ov)) ?Q ?R"
    by (intro calm_then act_calm assms(2) stable_simple(1) push_and_activate_ensures[OF assms]) (auto intro: tidy_if(1))
qed

definition run_result :: "ingest_env \<Rightarrow> ingest_world \<Rightarrow> ingest_outcome \<Rightarrow> ingest_world \<Rightarrow> bool" where
  "run_result E w out w' \<longleftrightarrow>
     tidy (xl_digest (ie_libs E)) (iw_pushes w) out (iw_pushes w')
   \<and> (is_activated out \<longrightarrow> (\<exists>m. outcome_manifest out = Some m \<and> activation_due E m (iw_events w) w'))"

lemma outcome_ensures:
  assumes "ensures P b (\<lambda>out w. A out w \<and> B out w) (\<lambda>out w. A out w \<and> \<not> is_activated out)" and "P w"
  shows "\<exists>out w'. outcome_of b w = Some (out, w') \<and> A out w' \<and> (is_activated out \<longrightarrow> B out w')"
  using assms by (cases rule: ensuresE) (auto simp: outcome_of_def)

lemma run_ensures:
  assumes "0 < p_poll_interval (ie_params E)"
  shows "ensures (untouched ps evs) (run_body E file)
    (\<lambda>out w. tidy (xl_digest (ie_libs E)) ps out (iw_pushes w) \<and> (\<exists>m. outcome_manifest out = Some m \<and> activation_due E m evs w))
    (\<lambda>out w. tidy (xl_digest (ie_libs E)) ps out (iw_pushes w) \<and> \<not> is_activated out)"
proof -
  have p: "prepared (xl_digest (ie_libs E)) (fst r) (fst (snd r)) (snd (snd r))" if "yields (s0_chunk E file) r" for r
    using that chunk_file_prepared by (cases "lf_bytes file") (auto simp: yields_def s0_chunk_def split: option.splits)
  show ?thesis unfolding run_body_def case_prod_beta
    by (intro calm_then require_then act_calm stable_simple(1) ensures_weaken[OF registered_ensures[OF p assms]])
      (auto intro: tidy_if(1))
qed

lemma run_private_ensures:
  assumes "0 < p_poll_interval (ie_params E)" and "crypto_ok (xl_crypto (ie_libs E))"
  shows "ensures (untouched ps evs) (run_private_body E rng file spec)
    (\<lambda>out w. tidy (xl_digest (ie_libs E)) ps out (iw_pushes w) \<and> (\<exists>m. outcome_manifest out = Some m \<and> activation_due E m evs w))
    (\<lambda>out w. tidy (xl_digest (ie_libs E)) ps out (iw_pushes w) \<and> \<not> is_activated out)"
proof -
  have n: "encrypt_for_private (ie_libs E) (ie_cbor E) (ie_temp_error E) rng file spec \<noteq> None"
    using private_artifacts_cases(1)[OF assms(2)] by (auto simp: encrypt_for_private_def Let_def split: option.splits sum.splits)
  have p: "prepared (xl_digest (ie_libs E)) (pa_manifest (pe_artifacts pe)) (pa_ciphertext (pe_artifacts pe))
      (build (blake3 (xl_digest (ie_libs E))) (map cd_hash (chunks (pa_manifest (pe_artifacts pe)))))"
    if "yields (partial (encrypt_for_private (ie_libs E) (ie_cbor E) (ie_temp_error E) rng file spec)) pe" for pe
    using that private_prepared[OF assms(2) encrypt_for_private_cases(1)] by (auto simp: yields_def partial_def)
  show ?thesis unfolding run_private_body_def Let_def
    by (intro calm_then require_then act_calm n stable_simple(1) ensures_weaken[OF registered_ensures[OF p assms(1)]])
      (auto intro: tidy_if(1))
qed

text \<open>
  C2. Ingestion always returns, pushes nothing but chunks of the file, and activates only a replicated file. From any
  state and whatever the chain and the network do, a run returns an outcome; every chunk it pushed is at most 1 MiB, hashes
  to its manifest entry and carries a Merkle proof that verifies against the root with the registered chunk count; and if
  the outcome is Activated, then for the chain's assignment every chunk was acknowledged without
  error by as many distinct peers of its assigned archives as the replication factor asks, every peer that was to hold the manifest
  acknowledged it, and the chain reported the file ready for activation. The same holds of private ingestion.
\<close>

theorem ingest_replicates_before_activation:
  assumes "0 < p_poll_interval (ie_params E)"
  shows "(\<exists>out w'. run E file w = Some (out, w') \<and> run_result E w out w')
    \<and> (crypto_ok (xl_crypto (ie_libs E)) \<longrightarrow> (\<exists>out w'. run_private E rng file spec w = Some (out, w') \<and> run_result E w out w'))"
proof (intro conjI impI)
  have w: "untouched (iw_pushes w) (iw_events w) w" by (simp add: untouched_def)
  show "\<exists>out w'. run E file w = Some (out, w') \<and> run_result E w out w'"
    unfolding run_def run_result_def by (rule outcome_ensures[OF run_ensures[OF assms] w])
  show "\<exists>out w'. run_private E rng file spec w = Some (out, w') \<and> run_result E w out w'" if "crypto_ok (xl_crypto (ie_libs E))"
    unfolding run_private_def run_result_def by (rule outcome_ensures[OF run_private_ensures[OF assms that] w])
qed

section \<open>Instances\<close>

theorem ingest_replicates_before_activation_witness:
  "\<exists>w'. run demo_ing demo_ing_file demo_ing_world = Some (Activated demo_ing_root demo_ing_m ''h'' 6 ''h'' 6, w')
     \<and> activation_due demo_ing demo_ing_m (iw_events demo_ing_world) w'"
proof -
  obtain w' where r: "run demo_ing demo_ing_file demo_ing_world = Some (Activated demo_ing_root demo_ing_m ''h'' 6 ''h'' 6, w')"
    using ing_demo_run by blast
  have "0 < p_poll_interval (ie_params demo_ing)" by simp
  from conjunct1[OF ingest_replicates_before_activation[OF this, of demo_ing_file demo_ing_world]] r
  have "run_result demo_ing demo_ing_world (Activated demo_ing_root demo_ing_m ''h'' 6 ''h'' 6) w'" by simp
  then show ?thesis using r by (simp add: run_result_def is_activated_def outcome_manifest_def)
qed

lemma demo_private_artifacts:
  "\<exists>a. build_private_artifacts (ie_libs demo_ing) (ie_cbor demo_ing) None demo_ing_file k = Some (Inr a)"
proof -
  have n: "div_ceil (Suc 0) PRIVATE_PLAINTEXT_CHUNK_SIZE = Suc 0"
    by (simp add: div_ceil_def PRIVATE_PLAINTEXT_CHUNK_SIZE_def CHUNK_SIZE_def TAG_SIZE_def)
  show ?thesis
    using private_loop(2)[OF demo_crypto_ok, of "[7]" demo_lib k]
    by (simp add: build_private_artifacts_def demo_ing_file_def Let_def n)
qed

theorem private_artifacts_roundtrip_witness:
  "\<exists>a. build_private_artifacts (ie_libs demo_ing) (ie_cbor demo_ing) None demo_ing_file [9] = Some (Inr a)
     \<and> unat (pa_stored_size_bytes a) = length (pa_ciphertext a)"
proof -
  obtain a where a: "build_private_artifacts (ie_libs demo_ing) (ie_cbor demo_ing) None demo_ing_file [9] = Some (Inr a)"
    using demo_private_artifacts by blast
  have "crypto_ok (xl_crypto (ie_libs demo_ing))" "lf_bytes demo_ing_file = Inr [7]" by (simp_all add: demo_crypto_ok demo_ing_file_def)
  from private_artifacts_roundtrip[OF this(1) a this(2)] a show ?thesis by blast
qed

definition demo_private_spec :: private_ingest_spec where
  "demo_private_spec = \<lparr>ps_owner_l1_address = [], ps_owner_x25519_pubkey = snd (x25519_keypair_from_ed25519_seed demo_crypto []), ps_recipients = []\<rparr>"

theorem private_resume_reproduces_witness:
  "\<exists>pe. encrypt_for_private (ie_libs demo_ing) (ie_cbor demo_ing) (ie_temp_error demo_ing) (\<lambda>_. replicate 32 9) demo_ing_file demo_private_spec = Some (Inr pe)
     \<and> (\<exists>r. resume_source demo_ing (demo_ing_info\<lparr>fi_visibility := 1, fi_owner := my_addr_base58 demo_ing,
             fi_access_list := map (shown_access (ie_libs demo_ing)) (pe_initial_access pe)\<rparr>) (merkle_root (pa_manifest (pe_artifacts pe))) demo_ing_file demo_ing_world
           = Some (Inr (pa_manifest (pe_artifacts pe), r), demo_ing_world))"
proof -
  have te: "ie_temp_error demo_ing = None" "ie_my_addr demo_ing = []" "ie_seed demo_ing = []" by (simp_all add: demo_ing_def)
  obtain a where a: "build_private_artifacts (ie_libs demo_ing) (ie_cbor demo_ing) None demo_ing_file (replicate 32 9) = Some (Inr a)"
    using demo_private_artifacts by blast
  have "\<exists>b. wrap_for_recipient demo_crypto (replicate 32 9) (replicate 32 9) [] (snd (x25519_keypair_from_ed25519_seed demo_crypto [])) = Inr b"
    by (simp add: wrap_for_recipient_def Let_def demo_crypto_def shared_is_contributory_def)
  then obtain pe where pe: "encrypt_for_private (ie_libs demo_ing) (ie_cbor demo_ing) (ie_temp_error demo_ing) (\<lambda>_. replicate 32 9) demo_ing_file demo_private_spec = Some (Inr pe)"
    using a te by (auto simp: encrypt_for_private_def Let_def demo_private_spec_def)
  have h: "\<forall>b. xl_hex_decode (ie_libs demo_ing) (hex_encode b) = Inr b" by simp
  show ?thesis
    using private_resume_reproduces[OF _ h _ pe, where w = demo_ing_world] pe te
    by (auto simp: demo_crypto_ok demo_private_spec_def is_private_def)
qed

end
