(* ===== verification/Ingest_Correct.thy ===== *)
theory Ingest_Correct
  imports Ingest_Push
begin

text \<open>
  What the owner's commands guarantee (\<open>sum-node/src/ingest_v2.rs\<close>): which transactions a run has sent when it
  reports an outcome, what was pushed and acknowledged before a file is activated, and that every pushed chunk
  comes with a proof the receiver accepts.
\<close>

section \<open>Stages that send no transaction\<close>

lemma quiet_option [act_quiet]: "quiet a \<Longrightarrow> (\<And>x. quiet (b x)) \<Longrightarrow> quiet (case z of None \<Rightarrow> a | Some x \<Rightarrow> b x)"
  by (cases z) auto

lemma quiet_if [act_quiet]: "quiet a \<Longrightarrow> quiet b \<Longrightarrow> quiet (if c then a else b)"
  by auto

lemma quiet_prod [act_quiet]: "(\<And>x y. quiet (f x y)) \<Longrightarrow> quiet (case z of (x, y) \<Rightarrow> f x y)"
  by (cases z) auto

lemma quiet_sum [act_quiet]: "(\<And>x. quiet (f x)) \<Longrightarrow> (\<And>y. quiet (g y)) \<Longrightarrow> quiet (case z of Inl x \<Rightarrow> f x | Inr y \<Rightarrow> g y)"
  by (cases z) auto

lemma quiet_reads [act_quiet]:
  "quiet (check_v2_enabled E)" "quiet (fetch_assignment_inputs E rt)" "quiet (s0_chunk E file)" "quiet (partial r)"
proof -
  show "quiet (check_v2_enabled E)" unfolding check_v2_enabled_def by (intro act_quiet)
  show "quiet (fetch_assignment_inputs E rt)" unfolding fetch_assignment_inputs_def Let_def by (intro act_quiet)
  show "quiet (s0_chunk E file)" by (auto simp: quiet_def s0_chunk_def split: sum.splits option.splits)
  show "quiet (partial r)" by (auto simp: quiet_def partial_def)
qed

lemma quiet_world [act_quiet]:
  "quiet (wait_turns E)" "quiet next_event" "quiet (send_one_push E m mapped tree i peer)" "quiet (push_manifest_v2 E p rt b)"
  by (auto simp: quiet_def wait_turns_def next_event_def send_one_push_def push_manifest_v2_def Let_def
      split: list.splits option.splits if_splits)

lemma quiet_await [act_quiet]: "quiet (await_archives E required)"
  unfolding await_archives_def by (intro act_quiet) (auto simp: quiet_def Let_def split: prod.splits)

lemma quiet_require_archives [act_quiet]: "quiet (s1a_require_archives E rt n)"
  unfolding s1a_require_archives_def Let_def by (intro act_quiet)

lemma quiet_push_wave [act_quiet]: "quiet (push_wave E m mapped tree ks attempts)"
  by (induction ks arbitrary: attempts) (auto intro!: act_quiet)

lemma quiet_push_event [act_quiet]: "quiet (on_push_event E m mapped tree attempts acked ev)"
  unfolding on_push_event_def by (auto split: sum_net_event.split shard_response_v2.split intro!: act_quiet)

lemma quiet_push_loop [act_quiet]: "quiet (push_loop E m mapped tree todo turns attempts acked)"
  by (induction turns arbitrary: attempts acked) (auto intro!: act_quiet split: option.split)

lemma quiet_push_chunks [act_quiet]: "quiet (s2_push_chunks E m mapped tree snapshot todo)"
  unfolding s2_push_chunks_def Let_def by (intro act_quiet)

lemma quiet_manifest_wave [act_quiet]: "quiet (manifest_wave E rt b ps)"
  by (induction ps) (auto intro!: act_quiet)

lemma quiet_manifest_loop [act_quiet]: "quiet (manifest_loop rt needed turns acked)"
  by (induction turns arbitrary: acked) (auto intro!: act_quiet split: option.split)

lemma quiet_push_manifest [act_quiet]: "quiet (s3_push_manifest E m assigned b)"
  unfolding s3_push_manifest_def Let_def by (intro act_quiet)

lemma quiet_s4_loop [act_quiet]: "quiet (s4_loop E h turns latest)"
proof (induction turns arbitrary: latest)
  case 0
  show ?case by (subst s4_loop.simps) (auto simp: Let_def intro!: act_quiet split: sum.split option.split)
next
  case (Suc t)
  show ?case by (subst s4_loop.simps) (auto simp: Let_def Suc intro!: act_quiet split: sum.split option.split)
qed

lemma quiet_wait_coverage [act_quiet]: "quiet (s4_wait_coverage E rt)"
  unfolding s4_wait_coverage_def by (intro act_quiet)

section \<open>The transactions of a run\<close>

text \<open>A text is this account's own registration of the file, or its own activation or abandonment of a root.\<close>

definition own_text :: "ingest_env \<Rightarrow> storage_metadata_operation_v2 \<Rightarrow> string \<Rightarrow> bool" where
  "own_text E op txt \<longleftrightarrow>
     (\<exists>nonce. authentic (xl_sign (ie_libs E)) txt =
        Some (own_tx (xl_sign (ie_libs E)) (ie_seed E) (p_chain_id (ie_params E)) nonce (p_fee_per_tx (ie_params E)) (StorageMetadataV2 op)))"

definition registration :: "ingest_env \<Rightarrow> data_manifest \<Rightarrow> u64 \<Rightarrow> byte \<Rightarrow> access_entry_mirror list \<Rightarrow> storage_metadata_operation_v2" where
  "registration E m stored vis access =
     RegisterFilePendingV2 (merkle_root m) (total_size_bytes m) stored (chunk_count m) (p_fee_deposit (ie_params E)) vis (map into_wire access)"

lemma holds_quiet:
  assumes "quiet m" and "\<And>w a w'. m w = Some (Inr a, w') \<Longrightarrow> cw_sent w' = s \<Longrightarrow> Q a w'"
    and "\<And>w e w'. m w = Some (Inl e, w') \<Longrightarrow> cw_sent w' = s \<Longrightarrow> R e w'"
  shows "holds (\<lambda>w. cw_sent w = s) m Q R"
proof (rule holdsI)
  fix w e w' assume "cw_sent w = s" "m w = Some (Inl e, w')"
  then show "R e w'" using assms(1) assms(3)[of w e w'] by (auto simp: quiet_def)
next
  fix w a w' assume "cw_sent w = s" "m w = Some (Inr a, w')"
  then show "Q a w'" using assms(1) assms(2)[of w a w'] by (auto simp: quiet_def)
qed

definition unsent :: "ingest_error \<Rightarrow> bool" where
  "unsent e \<longleftrightarrow> (\<forall>tx e'. e \<noteq> SentRegistration tx e')"

definition errs :: "('e \<Rightarrow> bool) \<Rightarrow> ('w, 'e, 'a) act \<Rightarrow> bool" where  \<comment> \<open>every error satisfies \<open>F\<close>\<close>
  "errs F m \<longleftrightarrow> (\<forall>w e w'. m w = Some (Inl e, w') \<longrightarrow> F e)"

named_theorems errs_rules \<open>rules for errs\<close>

lemma errs_simple [errs_rules]:
  "errs F (ret a)" "F e \<Longrightarrow> errs F (fail e)" "F e \<Longrightarrow> errs F (require b e)"
  by (auto simp: errs_def ret_def fail_def require_def)

lemma errs_bind [errs_rules]: "errs F m \<Longrightarrow> (\<And>a. errs F (f a)) \<Longrightarrow> errs F (bind_act m f)"
  unfolding errs_def bind_act_Some by blast

lemma errs_map_err [errs_rules]: "(\<And>e. F (g e)) \<Longrightarrow> errs F (map_err g m)"
  unfolding errs_def map_err_eq by blast

lemma errsD: "errs F m \<Longrightarrow> m w = Some (Inl e, w') \<Longrightarrow> F e"
  unfolding errs_def by blast

lemma never_sent_before_registration [errs_rules]:
  "errs unsent (check_v2_enabled E)" "errs unsent (s0_chunk E file)" "errs unsent (s1a_require_archives E rt n)"
proof -
  show "errs unsent (check_v2_enabled E)" unfolding check_v2_enabled_def
    by (intro errs_rules) (auto simp: unsent_def split: option.split intro!: errs_rules)
  show "errs unsent (s0_chunk E file)" by (auto simp: errs_def s0_chunk_def unsent_def split: sum.splits option.splits)
  show "errs unsent (s1a_require_archives E rt n)" unfolding s1a_require_archives_def Let_def
    by (intro errs_rules) (auto simp: unsent_def)
qed

lemma registration_ledger:
  assumes "sign_ok (xl_sign (ie_libs E))"
  shows "holds (\<lambda>w. cw_sent w = s) (s1_register_pending E m stored vis access)
    (\<lambda>_ w. \<exists>t. cw_sent w = s @ [t] \<and> own_text E (registration E m stored vis access) t)
    (\<lambda>e w. if unsent e then cw_sent w = s
           else \<exists>t. cw_sent w = s @ [t] \<and> own_text E (registration E m stored vis access) t)"
  unfolding s1_register_pending_def Let_def
  apply (rule holds_bind[where Q' = "\<lambda>_ w. cw_sent w = s"], rule holds_quiet, intro act_quiet, simp)
   apply (auto simp: map_err_eq unsent_def)[1]
  apply (rule holds_bind[where Q' = "\<lambda>t w. cw_sent w = s \<and> own_text E (registration E m stored vis access) t"], rule holds_map_err, rule holds_lift)
    apply (simp add: unsent_def)
   apply (auto simp: own_text_def registration_def build_register_file_pending_v2_tx_def encoded_is_own[OF assms])[1]
  apply (rule holds_bind[where Q' = "\<lambda>_ w. \<exists>t. cw_sent w = s @ [t] \<and> own_text E (registration E m stored vis access) t"],
      rule holds_map_err, rule holds_send)
    apply (auto simp: unsent_def)[2]
  apply (rule holds_bind[where Q' = "\<lambda>_ w. \<exists>t. cw_sent w = s @ [t] \<and> own_text E (registration E m stored vis access) t"],
      rule holds_map_err, rule holds_finality)
    apply (auto simp: unsent_def registration_error_def split: tx_wait_error.splits)[2]
  apply (rule holds_ret, simp)
  done

lemma submission_sends:
  assumes "\<And>nonce t. b nonce = Inr t \<Longrightarrow> T t" and "\<And>h n. quiet (c h n)"
  shows "sends_only (bind_act (map_err f (call q)) (\<lambda>nonce. bind_act (map_err g (lift (b nonce))) (\<lambda>tx_hex.
           bind_act (map_err h (send_raw_transaction R tx_hex)) (\<lambda>tx_hash.
           bind_act (map_err k (await_finality R tx_hash p timeout)) (c tx_hash))))) T"
  by (rule sends_bind_quiet, intro act_quiet, rule sends_bind_quiet, intro act_quiet,
      intro sends_then_quiet sends_map_err sends_raw act_quiet)
    (auto simp: yields_simple intro: assms)

lemma activation_sends:
  assumes "sign_ok (xl_sign (ie_libs E))"
  shows "sends_only (s5_activate E rt) (own_text E (ActivateFileV2 rt))"
  unfolding s5_activate_def Let_def
  by (rule submission_sends)
    (auto simp: own_text_def build_activate_file_v2_tx_def encoded_is_own[OF assms] intro: act_quiet)

definition abandonable :: "ingest_env \<Rightarrow> hash \<Rightarrow> bool" where
  "abandonable E rt \<longleftrightarrow>
     (\<exists>n k info h. cr_block_height (ie_rpc E) n = Inr h
        \<and> cr_file_info (ie_rpc E) k (''0x'' @ hex_encode rt) None None = Inr (Some info) \<and> is_pending (fi_lifecycle info)
        \<and> min (unat (fi_created_at info) + unat (p_activation_grace_blocks (ie_params E))) (2 ^ 64 - 2) < unat h)"

lemma yields_enabled: "yields (check_v2_enabled E) h \<Longrightarrow> \<exists>n. cr_block_height (ie_rpc E) n = Inr h"
  unfolding check_v2_enabled_def
  by (auto elim!: yields_bindE simp: yields_simple split: option.splits if_splits)

lemma grace_is_over:
  fixes a g h :: u64
  assumes "\<not> h < saturating_add (saturating_add a g) 1"
  shows "min (unat a + unat g) (2 ^ 64 - 2) < unat h"
  using assms by (auto simp: unat_saturating_add word_less_nat_alt min_def split: if_splits)

lemma abandonment_sends:
  assumes "sign_ok (xl_sign (ie_libs E))"
  shows "sends_only (abandon_body E rt) (\<lambda>t. own_text E (AbandonFileV2 rt) t \<and> abandonable E rt)"
  unfolding abandon_body_def Let_def
  apply (rule sends_bind_quiet, intro act_quiet, rule sends_bind_quiet, intro act_quiet)
  subgoal premises prems for h row
  proof (cases row)
    case None
    then show ?thesis by (simp add: sends_fail)
  next
    case (Some info)
    have ok: "abandonable E rt" if "is_pending (fi_lifecycle info)"
      "\<not> h < saturating_add (saturating_add (fi_created_at info) (p_activation_grace_blocks (ie_params E))) 1"
      unfolding abandonable_def using prems Some yields_enabled[of E h] that grace_is_over[OF that(2)]
      by (auto simp: yields_simple)
    show ?thesis unfolding Some option.case
      by (auto intro!: sends_fail submission_sends act_quiet ok
          simp: own_text_def build_abandon_file_v2_tx_def encoded_is_own[OF assms])
  qed
  done

text \<open>
  What the texts of a run must be for each outcome: \<open>reg m t\<close> says that \<open>t\<close> is the registration of the file with manifest \<open>m\<close>.
\<close>

definition ledger :: "ingest_env \<Rightarrow> (data_manifest \<Rightarrow> string \<Rightarrow> bool) \<Rightarrow> ingest_outcome \<Rightarrow> string list \<Rightarrow> bool" where
  "ledger E reg out txs \<longleftrightarrow>
     (case out of
        Activated rt m _ _ _ _ \<Rightarrow>
          rt = merkle_root m \<and> (\<exists>t1 t2. txs = [t1, t2] \<and> reg m t1 \<and> own_text E (ActivateFileV2 rt) t2)
      | PendingNeedsAction rt m stage _ _ _ _ \<Rightarrow>
          rt = merkle_root m \<and>
          (\<exists>t1. reg m t1 \<and> (txs = [t1] \<or> stage = ActivateStage \<and> (\<exists>t2. txs = [t1, t2] \<and> own_text E (ActivateFileV2 rt) t2)))
      | IngestFailed stage mo e \<Rightarrow>
          stage = RegisterStage \<and> (if unsent e then txs = [] else (\<exists>m t. mo = Some m \<and> txs = [t] \<and> reg m t))
      | _ \<Rightarrow> False)"

definition told :: "ingest_env \<Rightarrow> (data_manifest \<Rightarrow> string \<Rightarrow> bool) \<Rightarrow> string list \<Rightarrow> ingest_outcome \<Rightarrow> string list \<Rightarrow> bool" where
  "told E reg s out sent \<longleftrightarrow> (\<exists>txs. sent = s @ txs \<and> ledger E reg out txs)"

lemma quiet_stage:
  assumes "quiet m" and "\<And>w e w'. m w = Some (Inl e, w') \<Longrightarrow> B e s"
    and "\<And>a. yields m a \<Longrightarrow> holds (\<lambda>w. cw_sent w = s) (f a) Q (\<lambda>e w. B e (cw_sent w))"
  shows "holds (\<lambda>w. cw_sent w = s) (bind_act m f) Q (\<lambda>e w. B e (cw_sent w))"
proof (rule holds_bind)
  show "holds (\<lambda>w. cw_sent w = s) m (\<lambda>a w. cw_sent w = s \<and> yields m a) (\<lambda>e w. B e (cw_sent w))"
    by (rule holds_quiet[OF assms(1)]) (use assms(2) in \<open>fastforce simp: yields_def\<close>)+
  show "holds (\<lambda>w. cw_sent w = s \<and> yields m a) (f a) Q (\<lambda>e w. B e (cw_sent w))" for a
    using assms(3)[of a] by (auto simp: holds_def)
qed

lemma quiet_requires:
  assumes "\<not> b \<Longrightarrow> B e s" and "b \<Longrightarrow> holds (\<lambda>w. cw_sent w = s) f Q (\<lambda>e w. B e (cw_sent w))"
  shows "holds (\<lambda>w. cw_sent w = s) (bind_act (require b e) (\<lambda>_. f)) Q (\<lambda>e w. B e (cw_sent w))"
  by (rule quiet_stage, intro act_quiet)
    (auto simp: require_def ret_def fail_def yields_def assms split: if_splits)

lemma quiet_calls:
  assumes "quiet m" and "\<And>w e w'. m w = Some (Inl e, w') \<Longrightarrow> B (g e) s"
    and "\<And>a. yields m a \<Longrightarrow> holds (\<lambda>w. cw_sent w = s) (f a) Q (\<lambda>e w. B e (cw_sent w))"
  shows "holds (\<lambda>w. cw_sent w = s) (bind_act (map_err g m) f) Q (\<lambda>e w. B e (cw_sent w))"
  by (rule quiet_stage, intro act_quiet assms(1)) (auto simp: map_err_eq assms)

lemma told_pending:
  assumes "reg m t1"
  shows "told E reg s (pending m st cov few act err) (s @ [t1])"
    "told E reg s (push_outcome m cov f) (s @ [t1])" "told E reg s (s4_outcome m e) (s @ [t1])"
  using assms
  by (auto simp: told_def ledger_def pending_def push_outcome_def s4_outcome_def split: push_failure.splits s4_wait_error.splits)

lemma told_refused: "unsent e \<Longrightarrow> told E reg s (refuse mo e) s"
  by (auto simp: told_def ledger_def refuse_def)

lemma push_and_activate_ledger:
  assumes "sign_ok (xl_sign (ie_libs E))" and "reg m t1"
  shows "holds (\<lambda>w. cw_sent w = s @ [t1]) (push_and_activate E m mapped tree override rg)
    (\<lambda>out w. told E reg s out (cw_sent w)) (\<lambda>out w. told E reg s out (cw_sent w))"
proof -
  have s5: "holds (\<lambda>w. cw_sent w = s @ [t1]) (map_err (\<lambda>e. pending m ActivateStage cov None Resume (Some e)) (s5_activate E (merkle_root m)))
       (\<lambda>_ w. \<exists>t2. cw_sent w = s @ [t1, t2] \<and> own_text E (ActivateFileV2 (merkle_root m)) t2)
       (\<lambda>out w. told E reg s out (cw_sent w))" for cov
    using activation_sends[OF assms(1), of "merkle_root m"] assms(2)
    unfolding sends_only_def by (intro holdsI) (fastforce simp: map_err_eq told_def ledger_def pending_def)+
  show ?thesis unfolding push_and_activate_def Let_def case_prod_beta
    by (intro quiet_calls quiet_requires act_quiet told_pending assms(2) holds_bind[OF s5] holds_ret)
      (auto simp: told_def ledger_def assms(2))
qed

lemma registered_ledger:
  assumes "sign_ok (xl_sign (ie_libs E))" and "\<And>t. own_text E (registration E m stored vis access) t \<Longrightarrow> reg m t"
  shows "holds (\<lambda>w. cw_sent w = s)
      (bind_act (map_err (refuse (Some m)) (s1_register_pending E m stored vis access)) (push_and_activate E m mapped tree override))
    (\<lambda>out w. told E reg s out (cw_sent w)) (\<lambda>out w. told E reg s out (cw_sent w))"
proof (rule holds_bind)
  show "holds (\<lambda>w. cw_sent w = s) (map_err (refuse (Some m)) (s1_register_pending E m stored vis access))
      (\<lambda>_ w. \<exists>t. cw_sent w = s @ [t] \<and> reg m t) (\<lambda>out w. told E reg s out (cw_sent w))"
    by (rule holds_map_err, rule holds_weaken[OF registration_ledger[OF assms(1), of s m stored vis access]])
      (auto simp: told_def ledger_def refuse_def split: if_splits intro: assms(2))
  show "holds (\<lambda>w. \<exists>t. cw_sent w = s @ [t] \<and> reg m t) (push_and_activate E m mapped tree override rg)
      (\<lambda>out w. told E reg s out (cw_sent w)) (\<lambda>out w. told E reg s out (cw_sent w))" for rg
    using push_and_activate_ledger[OF assms(1), of reg m] unfolding holds_def by blast
qed

lemma run_ledger:
  assumes "sign_ok (xl_sign (ie_libs E))"
  defines "reg \<equiv> \<lambda>m. own_text E (registration E m (total_size_bytes m) 0 [])"
  shows "holds (\<lambda>w. cw_sent w = s) (run_body E file)
    (\<lambda>out w. told E reg s out (cw_sent w)) (\<lambda>out w. told E reg s out (cw_sent w))"
  unfolding run_body_def case_prod_beta
  by (intro quiet_requires quiet_calls act_quiet told_refused registered_ledger assms(1))
    (auto simp: unsent_def reg_def dest: errsD[OF never_sent_before_registration(1)]
      errsD[OF never_sent_before_registration(2)] errsD[OF never_sent_before_registration(3)])

lemma never_sent_encrypting: "errs unsent (partial (encrypt_for_private X B te rng file spec))"
  by (auto simp: errs_def partial_def encrypt_for_private_def unsent_def Let_def split: option.splits sum.splits)

definition private_registration :: "ingest_env \<Rightarrow> (nat \<Rightarrow> bytes) \<Rightarrow> local_file \<Rightarrow> private_ingest_spec \<Rightarrow> data_manifest \<Rightarrow> string \<Rightarrow> bool" where
  "private_registration E rng file spec m t \<longleftrightarrow>
     (\<exists>pe. encrypt_for_private (ie_libs E) (ie_cbor E) (ie_temp_error E) rng file spec = Some (Inr pe) \<and> m = pa_manifest (pe_artifacts pe)
        \<and> own_text E (registration E m (pa_stored_size_bytes (pe_artifacts pe)) 1 (pe_initial_access pe)) t)"

lemma yields_partial: "yields (partial r) a \<longleftrightarrow> r = Some (Inr a)"
  by (auto simp: yields_def partial_def)

lemma run_private_ledger:
  assumes "sign_ok (xl_sign (ie_libs E))"
  shows "holds (\<lambda>w. cw_sent w = s) (run_private_body E rng file spec)
    (\<lambda>out w. told E (private_registration E rng file spec) s out (cw_sent w))
    (\<lambda>out w. told E (private_registration E rng file spec) s out (cw_sent w))"
  unfolding run_private_body_def Let_def
  by (intro quiet_requires quiet_calls act_quiet told_refused registered_ledger assms(1))
    (auto simp: unsent_def private_registration_def yields_partial dest: errsD[OF never_sent_before_registration(1)]
      errsD[OF never_sent_encrypting] errsD[OF never_sent_before_registration(3)])

lemma outcome_cases:
  assumes "outcome_of m w = Some (out, w')"
  shows "m w = Some (Inl out, w') \<or> m w = Some (Inr out, w')"
  using assms by (cases "m w"; cases "fst (the (m w))") (auto simp: outcome_of_def)

lemma outcome_holds:
  assumes "holds P m Q Q" "P w" "outcome_of m w = Some (out, w')"
  shows "Q out w'"
  using outcome_cases[OF assms(3)] holdsD[OF assms(1,2)] by fastforce

lemma errs_abandoning: "errs (\<lambda>out. \<forall>h n. out \<noteq> Abandoned h n) (abandon_body E rt)"
  unfolding abandon_body_def Let_def
  by (intro errs_rules) (auto split: option.split intro!: errs_rules)

text \<open>
  C7. An outcome tells which transactions the run has sent. A run that reports Activated has sent exactly two texts, its
  own registration of the file (root, size, chunk count, deposit and visibility as prepared locally) and then its own
  activation of that root; a Pending outcome means that the registration was sent, and the activation at most when the
  failed stage is the activation; a refusal for which no registration was sent has sent nothing, and any other
  refusal exactly the registration. No other outcome occurs. The same holds of private ingestion, whose
  registration carries the ciphertext's size and the wrapped keys.
\<close>

theorem outcome_tells_transactions:
  assumes "sign_ok (xl_sign (ie_libs E))"
  shows "(run E file w = Some (out, w') \<longrightarrow>
           (\<exists>txs. cw_sent w' = cw_sent w @ txs \<and> ledger E (\<lambda>m. own_text E (registration E m (total_size_bytes m) 0 [])) out txs))
    \<and> (run_private E rng file spec w = Some (out, w') \<longrightarrow>
           (\<exists>txs. cw_sent w' = cw_sent w @ txs \<and> ledger E (private_registration E rng file spec) out txs))"
proof (intro conjI impI)
  assume "run E file w = Some (out, w')"
  then show "\<exists>txs. cw_sent w' = cw_sent w @ txs \<and> ledger E (\<lambda>m. own_text E (registration E m (total_size_bytes m) 0 [])) out txs"
    using outcome_holds[OF run_ledger[OF assms, where s = "cw_sent w"] refl] by (simp add: run_def told_def)
next
  assume "run_private E rng file spec w = Some (out, w')"
  then show "\<exists>txs. cw_sent w' = cw_sent w @ txs \<and> ledger E (private_registration E rng file spec) out txs"
    using outcome_holds[OF run_private_ledger[OF assms, where s = "cw_sent w"] refl] by (simp add: run_private_def told_def)
qed

text \<open>
  C29. Abandoning is the operator's own \<open>AbandonFileV2\<close> of that root, sent at most once, and only when the chain reported
  the file Pending at a height past its creation plus the activation grace; a run that sends nothing never reports
  Abandoned.
\<close>

theorem abandon_only_after_grace:
  assumes "sign_ok (xl_sign (ie_libs E))" and "abandon E rt w = Some (out, w')"
  shows "cw_sent w' = cw_sent w \<and> (\<forall>h n. out \<noteq> Abandoned h n)
       \<or> (\<exists>t. cw_sent w' = cw_sent w @ [t] \<and> own_text E (AbandonFileV2 rt) t \<and> abandonable E rt)"
  using outcome_cases[OF assms(2)[unfolded abandon_def]] abandonment_sends[OF assms(1), of rt] errsD[OF errs_abandoning]
  unfolding sends_only_def by (metis isl_def sum.distinct(1))

section \<open>Exit status\<close>

text \<open>What the two lookups, the next two calls, say of a root.\<close>

definition shown_on_chain :: "chain_rpc \<Rightarrow> nat \<Rightarrow> hash \<Rightarrow> bool" where
  "shown_on_chain R n rt \<longleftrightarrow> (\<exists>info. cr_file_info R n (''0x'' @ hex_encode rt) None None = Inr (Some info))
     \<or> cr_v1_registered R (Suc n) (''0x'' @ hex_encode rt) = Inr True"

definition absent_on_chain :: "chain_rpc \<Rightarrow> nat \<Rightarrow> hash \<Rightarrow> bool" where
  "absent_on_chain R n rt \<longleftrightarrow> cr_file_info R n (''0x'' @ hex_encode rt) None None = Inr None
     \<and> cr_v1_registered R (Suc n) (''0x'' @ hex_encode rt) = Inr False"

lemma lookup_result:
  "\<exists>rc err w'. root_on_chain_lookup R (''0x'' @ hex_encode rt) w = Some (Inr (rc, err), w')
     \<and> (rc = Registered \<longleftrightarrow> shown_on_chain R (cw_calls w) rt) \<and> (rc = NotRegistered \<longleftrightarrow> absent_on_chain R (cw_calls w) rt)
     \<and> rc \<noteq> NotLookedUp"
  by (auto simp: root_on_chain_lookup_def bind_act_def attempt_def call_def ret_def Let_def shown_on_chain_def absent_on_chain_def
      split: sum.splits option.splits bool.splits)

lemma exit_code_cases:
  "ingest_exit_code out rc = (case registration_tx_of out of
      None \<Rightarrow> (case out of Activated _ _ _ _ _ _ \<Rightarrow> ACTIVE | ResumedActivated _ _ _ _ _ \<Rightarrow> ACTIVE | ActivatedOnChain _ _ _ _ \<Rightarrow> ACTIVE
        | PendingNeedsAction _ _ _ _ _ _ _ \<Rightarrow> PENDING | AbandonedOnChain _ _ _ \<Rightarrow> ABANDONED | _ \<Rightarrow> ERROR)
    | Some Unconfirmed \<Rightarrow> REGISTRATION_UNCONFIRMED
    | Some _ \<Rightarrow> (case rc of Registered \<Rightarrow> ALREADY_REGISTERED | NotRegistered \<Rightarrow> REFUSED
        | NotLookedUp \<Rightarrow> if outcome_root out = None then REFUSED else ERROR | LookupFailed \<Rightarrow> ERROR))"
  by (auto simp: ingest_exit_code_def registration_tx_of_def split: ingest_outcome.splits ingest_stage.splits)

text \<open>
  C28. The exit status tells exactly what happened. It is always computed; 0 is reported exactly for a file that is active, 3
  exactly for a registered file that still needs action, 4 exactly for a file abandoned on chain, 8 exactly when a registration
  was sent and not confirmed; when this run certainly registered nothing, 6 exactly when no root is known or the two lookups
  show neither a V2 nor a V1 row for it, and 7 exactly when they show one; and the general error exactly for a root
  mismatch, a failure after registration, or a root of which the lookups say neither. A resume reports the same code except
  for a mismatch, which has its own, and for failures, which are all general errors.
\<close>

theorem exit_status_truthful:
  "\<exists>st w'. ingest_exit_status_of R out w = Some (Inr st, w')
     \<and> (ex_code st = ACTIVE \<longleftrightarrow> (case out of Activated _ _ _ _ _ _ \<Rightarrow> True | ResumedActivated _ _ _ _ _ \<Rightarrow> True | ActivatedOnChain _ _ _ _ \<Rightarrow> True | _ \<Rightarrow> False))
     \<and> (ex_code st = PENDING \<longleftrightarrow> (case out of PendingNeedsAction _ _ _ _ _ _ _ \<Rightarrow> True | _ \<Rightarrow> False))
     \<and> (ex_code st = ABANDONED \<longleftrightarrow> (case out of AbandonedOnChain _ _ _ \<Rightarrow> True | _ \<Rightarrow> False))
     \<and> (ex_code st = REGISTRATION_UNCONFIRMED \<longleftrightarrow> registration_tx_of out = Some Unconfirmed)
     \<and> (ex_code st = REFUSED \<longleftrightarrow> registration_tx_of out \<in> {Some NotSent, Some Rejected}
          \<and> (\<forall>rt. outcome_root out = Some rt \<longrightarrow> absent_on_chain R (cw_calls w) rt))
     \<and> (ex_code st = ALREADY_REGISTERED \<longleftrightarrow> registration_tx_of out \<in> {Some NotSent, Some Rejected}
          \<and> (\<exists>rt. outcome_root out = Some rt \<and> shown_on_chain R (cw_calls w) rt))
     \<and> (ex_code st = ERROR \<longleftrightarrow> (case out of RootMismatch _ _ _ \<Rightarrow> True | IngestFailed _ _ _ \<Rightarrow> registration_tx_of out = None | _ \<Rightarrow> False)
          \<or> registration_tx_of out \<in> {Some NotSent, Some Rejected} \<and> (\<exists>rt. outcome_root out = Some rt
              \<and> \<not> shown_on_chain R (cw_calls w) rt \<and> \<not> absent_on_chain R (cw_calls w) rt))
     \<and> resume_exit_code out = (case out of RootMismatch _ _ _ \<Rightarrow> ROOT_MISMATCH | IngestFailed _ _ _ \<Rightarrow> ERROR | _ \<Rightarrow> ex_code st)"
proof -
  define look where "look \<longleftrightarrow> registration_tx_of out \<in> {Some NotSent, Some Rejected} \<and> outcome_root out \<noteq> None"
  have sent: "registration_tx_of out = Some tx \<Longrightarrow> \<exists>st mo e. out = IngestFailed st mo e" for tx
    by (auto simp: registration_tx_of_def split: ingest_outcome.splits)
  show ?thesis
  proof (cases look)
    case True
    then obtain rt tx where rt: "outcome_root out = Some rt" "registration_tx_of out = Some tx" "tx = NotSent \<or> tx = Rejected"
      by (auto simp: look_def)
    obtain rc err w' where l: "root_on_chain_lookup R (''0x'' @ hex_encode rt) w = Some (Inr (rc, err), w')"
      and r: "rc = Registered \<longleftrightarrow> shown_on_chain R (cw_calls w) rt" "rc = NotRegistered \<longleftrightarrow> absent_on_chain R (cw_calls w) rt"
        "rc \<noteq> NotLookedUp"
      using lookup_result[of R rt w] by blast
    have "ingest_exit_status_of R out w = Some (Inr \<lparr>ex_code = ingest_exit_code out rc, ex_root_on_chain = rc, ex_lookup_error = err\<rparr>, w')"
      using rt l by (auto simp: ingest_exit_status_of_def bind_act_def ret_def)
    moreover have "ingest_exit_code out rc = (case rc of Registered \<Rightarrow> ALREADY_REGISTERED | NotRegistered \<Rightarrow> REFUSED | _ \<Rightarrow> ERROR)"
      using rt r(3) by (auto simp: exit_code_cases split: root_on_chain.splits)
    ultimately show ?thesis using rt r sent[OF rt(2)] by (cases rc) (auto simp: exit_codes resume_exit_code_def)
  next
    case False
    then have "ingest_exit_status_of R out w = Some (Inr \<lparr>ex_code = ingest_exit_code out NotLookedUp, ex_root_on_chain = NotLookedUp, ex_lookup_error = None\<rparr>, w)"
      by (auto simp: look_def ingest_exit_status_of_def bind_act_def ret_def split: option.splits registration_tx.splits)
    then show ?thesis using False sent
      by (cases "registration_tx_of out"; cases "the (registration_tx_of out)"; cases out)
        (auto simp: look_def exit_code_cases exit_codes resume_exit_code_def)
  qed
qed

section \<open>The missing chunks\<close>

text \<open>
  A chain that pages as documented: a page asked for at an offset holds the next missing indices from there on, at
  least one while any is left; how many may change from call to call.
\<close>

definition pages_missing :: "chain_rpc \<Rightarrow> string \<Rightarrow> u32 list \<Rightarrow> bool" where
  "pages_missing R h M \<longleftrightarrow> sorted M \<and> distinct M
     \<and> (\<forall>n off. \<exists>cov k. 0 < k \<and> cr_coverage R n h (Some off) None = Inr (Some cov)
          \<and> ac_missing_indices cov = take k (filter (\<lambda>i. off \<le> i) M))"

lemma unat_max32: "unat (- 1 :: u32) = 2 ^ 32 - 1"
  by (simp add: unsigned_minus_1_eq_mask mask_eq_exp_minus_1)

lemma next_index:
  fixes l y :: u32
  assumes "l \<noteq> - 1"
  shows "unat l + 1 < 2 ^ 32" "saturating_add l 1 = l + 1" "l + 1 \<noteq> l" "l + 1 \<le> y \<longleftrightarrow> l < y"
proof -
  have "unat l \<noteq> 2 ^ 32 - 1" using assms unat_max32 by (metis word_unat_eq_iff)
  then show b: "unat l + 1 < 2 ^ 32" using unat_less[of l] by simp
  then have s: "unat (l + 1) = unat l + 1" by (simp add: unat_word_ariths)
  show "saturating_add l 1 = l + 1" using b by (simp add: saturating_add_def)
  show "l + 1 \<noteq> l" by simp
  show "l + 1 \<le> y \<longleftrightarrow> l < y" using s by (simp add: word_le_nat_alt word_less_nat_alt Suc_le_eq)
qed

lemma sorted_page:
  fixes p q :: "u32 list"
  assumes "sorted (p @ q)" "distinct (p @ q)" "p \<noteq> []"
  shows "last p = - 1 \<Longrightarrow> q = []" and "last p \<noteq> - 1 \<Longrightarrow> filter (\<lambda>i. last p + 1 \<le> i) (p @ q) = q"
proof -
  have l: "last p \<in> set p" using assms(3) by simp
  have lt: "last p < y" if "y \<in> set q" for y
  proof -
    have "last p \<le> y" "last p \<noteq> y" using assms(1,2) l that by (auto simp: sorted_append)
    then show ?thesis by simp
  qed
  have le: "y \<le> last p" if "y \<in> set p" for y
  proof -
    have "sorted p" using assms(1) by (simp add: sorted_append)
    then show ?thesis using assms(3) that by (auto simp: in_set_conv_nth last_conv_nth sorted_iff_nth_mono)
  qed
  show "q = []" if "last p = - 1" using lt[of "hd q"] that by (cases q) (auto simp: word_order.not_eq_extremum)
  show "filter (\<lambda>i. last p + 1 \<le> i) (p @ q) = q" if "last p \<noteq> - 1"
    using lt le next_index(4)[OF that] by (auto simp: filter_empty_conv filter_id_conv leD)
qed

lemma collect_missing_pages:
  assumes "pages_missing R h M"
  shows "\<exists>n. collect_missing_loop R h acc off w = Some (Inr (Some (acc \<union> {i \<in> set M. off \<le> i})), w\<lparr>cw_calls := n\<rparr>)"
proof (induction "length (filter (\<lambda>i. off \<le> i) M)" arbitrary: off acc w rule: less_induct)
  case less
  let ?F = "filter (\<lambda>i. off \<le> i) M"
  obtain cov k where c: "0 < k" "cr_coverage R (cw_calls w) h (Some off) None = Inr (Some cov)" "ac_missing_indices cov = take k ?F"
    using assms unfolding pages_missing_def by meson
  define p q where "p = take k ?F" and "q = drop k ?F"
  have F: "?F = p @ q" by (simp add: p_def q_def)
  have sF: "sorted (p @ q)" "distinct (p @ q)" unfolding F[symmetric] using assms by (auto simp: pages_missing_def sorted_wrt_filter)
  have set_F: "{i \<in> set M. off \<le> i} = set p \<union> set q" using arg_cong[OF F, of set] by auto
  have u: "collect_missing_loop R h acc off w = (if p = [] then Some (Inr (Some acc), w\<lparr>cw_calls := Suc (cw_calls w)\<rparr>)
      else if saturating_add (last p) 1 = last p then Some (Inr (Some (acc \<union> set p)), w\<lparr>cw_calls := Suc (cw_calls w)\<rparr>)
      else collect_missing_loop R h (acc \<union> set p) (saturating_add (last p) 1) (w\<lparr>cw_calls := Suc (cw_calls w)\<rparr>))"
    by (subst collect_missing_loop.simps) (simp add: c(2,3) Let_def flip: p_def)
  consider "p = []" | "p \<noteq> []" "last p = - 1" | "p \<noteq> []" "last p \<noteq> - 1" by blast
  then show ?case
  proof cases
    case 1
    then have "?F = []" using c(1) by (auto simp: p_def)
    then have "q = []" using F by simp
    then show ?thesis using 1 u set_F by auto
  next
    case 2
    then have "q = []" "saturating_add (last p) 1 = last p" using sorted_page(1)[OF sF] by (simp_all add: saturating_add_def unat_max32)
    then show ?thesis using 2 u set_F by auto
  next
    case 3
    note nx = next_index[OF 3(2)]
    have "off \<le> last p" using last_in_set[OF 3(1)] set_F by blast
    then have "off \<le> i" if "last p + 1 \<le> i" for i using that nx(4)[of i] by simp
    then have "filter (\<lambda>i. last p + 1 \<le> i) M = filter (\<lambda>i. last p + 1 \<le> i) ?F" by (auto intro!: filter_cong)
    then have q: "filter (\<lambda>i. last p + 1 \<le> i) M = q" using F sorted_page(2)[OF sF 3] by simp
    have "length q < length ?F" using 3(1) F by simp
    from less[of "last p + 1" "acc \<union> set p" "w\<lparr>cw_calls := Suc (cw_calls w)\<rparr>", unfolded q, OF this] obtain n where
      "collect_missing_loop R h (acc \<union> set p) (last p + 1) (w\<lparr>cw_calls := Suc (cw_calls w)\<rparr>)
        = Some (Inr (Some (acc \<union> set p \<union> {i \<in> set M. last p + 1 \<le> i})), w\<lparr>cw_calls := n\<rparr>)" by auto
    moreover have "{i \<in> set M. last p + 1 \<le> i} = set q" using arg_cong[OF q, of set] by auto
    ultimately show ?thesis using u 3 nx set_F by (auto simp: Un_assoc)
  qed
qed

text \<open>
  Collecting the missing chunks. From a chain that pages as documented, whatever the sizes of its pages, the collection
  returns and holds exactly the missing indices, \<open>u32::MAX\<close> included.
\<close>

theorem collect_missing_exact:
  assumes "pages_missing (ie_rpc E) (''0x'' @ hex_encode rt) M"
  shows "\<exists>n. collect_missing_indices E rt w = Some (Inr (Some (set M)), w\<lparr>cw_calls := n\<rparr>)"
  using collect_missing_pages[OF assms, of "{}" 0 w] by (simp add: collect_missing_indices_def)

text \<open>
  C40. The guard against a repeating chain does not fire. When the chain answers every offset with one and the same
  non-empty page whose last index is not \<open>u32::MAX\<close>, the collection never returns, although the page is the same each time.
\<close>

theorem collect_missing_stuck:
  assumes "\<forall>n off. cr_coverage (ie_rpc E) n (''0x'' @ hex_encode rt) (Some off) None = Inr (Some cov)"
    and "ac_missing_indices cov \<noteq> []" and "last (ac_missing_indices cov) \<noteq> - 1"
  shows "collect_missing_indices E rt w = None"
proof -
  have "R = ie_rpc E \<longrightarrow> h \<noteq> ''0x'' @ hex_encode rt" if "collect_missing_loop R h mis off w = Some y" for R h mis off w y
  proof (rule collect_missing_loop.raw_induct[where P = "\<lambda>R h mis off w y. R = ie_rpc E \<longrightarrow> h \<noteq> ''0x'' @ hex_encode rt", OF _ that],
      intro impI notI)
    fix f R h mis off w y
    assume IH: "\<And>R h mis off w y. f R h mis off w = Some y \<Longrightarrow> R = ie_rpc E \<longrightarrow> h \<noteq> ''0x'' @ hex_encode rt"
      and body: "(let w' = w\<lparr>cw_calls := Suc (cw_calls w)\<rparr> in case cr_coverage R (cw_calls w) h (Some off) None of
          Inl e \<Rightarrow> Some (Inl e, w') | Inr None \<Rightarrow> Some (Inr None, w')
        | Inr (Some cov) \<Rightarrow> if ac_missing_indices cov = [] then Some (Inr (Some mis), w')
            else (let final = last (ac_missing_indices cov); missing' = mis \<union> set (ac_missing_indices cov); offset' = saturating_add final 1 in
              if offset' = final then Some (Inr (Some missing'), w') else f R h missing' offset' w')) = Some y"
      and R: "R = ie_rpc E" "h = ''0x'' @ hex_encode rt"
    have "f R h (mis \<union> set (ac_missing_indices cov)) (last (ac_missing_indices cov) + 1) (w\<lparr>cw_calls := Suc (cw_calls w)\<rparr>) = Some y"
      using body R assms next_index(2)[OF assms(3)] by (simp add: Let_def)
    from IH[OF this] show False using R by simp
  qed
  then show ?thesis unfolding collect_missing_indices_def by (cases "collect_missing_loop (ie_rpc E) (''0x'' @ hex_encode rt) {} 0 w") blast+
qed

section \<open>Resume\<close>

definition resumable :: "ingest_env \<Rightarrow> hash \<Rightarrow> bool" where
  "resumable E rt \<longleftrightarrow>
     (\<exists>n info. cr_file_info (ie_rpc E) n (''0x'' @ hex_encode rt) None None = Inr (Some info) \<and> is_pending (fi_lifecycle info))
   \<and> (\<exists>n cov. cr_coverage (ie_rpc E) n (''0x'' @ hex_encode rt) None None = Inr (Some cov) \<and> ac_can_activate_now cov)"

text \<open>What a resume may have sent, by its outcome.\<close>

definition resume_told :: "ingest_env \<Rightarrow> hash \<Rightarrow> string list \<Rightarrow> ingest_outcome \<Rightarrow> string list \<Rightarrow> bool" where
  "resume_told E rt s out sent \<longleftrightarrow>
     (case out of
        ResumedActivated rt' m _ _ _ \<Rightarrow>
          rt' = rt \<and> merkle_root m = rt \<and> resumable E rt \<and> (\<exists>t. sent = s @ [t] \<and> own_text E (ActivateFileV2 rt) t)
      | PendingNeedsAction rt' m stage _ _ _ _ \<Rightarrow>
          rt' = rt \<and> merkle_root m = rt
          \<and> (sent = s \<or> stage = ActivateStage \<and> resumable E rt \<and> (\<exists>t. sent = s @ [t] \<and> own_text E (ActivateFileV2 rt) t))
      | ActivatedOnChain rt' m _ _ \<Rightarrow> sent = s \<and> rt' = rt \<and> merkle_root m = rt
      | AbandonedOnChain rt' m _ \<Rightarrow> sent = s \<and> rt' = rt \<and> merkle_root m = rt
      | RootMismatch expected computed m \<Rightarrow> sent = s \<and> expected = rt \<and> computed = merkle_root m \<and> computed \<noteq> rt
      | IngestFailed _ _ _ \<Rightarrow> sent = s
      | Activated _ _ _ _ _ _ \<Rightarrow> False)"

lemma quiet_collect [act_quiet]: "quiet (collect_missing_indices E rt :: ('z chain_world_scheme, _, _) act)"
proof -
  have "cw_sent (snd y) = cw_sent w" if "collect_missing_loop R h mis off w = Some y" for R h mis off and w :: "'z chain_world_scheme" and y
    by (rule collect_missing_loop.raw_induct[where P = "\<lambda>R h mis off w y. cw_sent (snd y) = cw_sent w", OF _ that])
      (fastforce simp: Let_def split: sum.splits option.splits if_splits)
  then show ?thesis unfolding quiet_def collect_missing_indices_def by fastforce
qed

lemma quiet_resume_source [act_quiet]: "quiet (resume_source E info rt file)"
  unfolding resume_source_def by (intro act_quiet)

lemma quiet_resume_snapshot [act_quiet]: "quiet (resume_snapshot E m info)"
  unfolding resume_snapshot_def by (intro act_quiet)

lemma quiet_resume_push [act_quiet]: "quiet (resume_push E m mapped tree ov snapshot cov)"
  unfolding resume_push_def by (intro act_quiet)

lemma resume_source_root:
  "yields (resume_source E info rt file) (m, mapped, tree, ov) \<Longrightarrow> merkle_root m = rt"
  unfolding resume_source_def
  by (auto split: if_splits elim!: yields_bindE simp: yields_simple)

lemma told_resume [simp]:
  "resume_told E rt s (refuse mo e) s" "merkle_root m = rt \<Longrightarrow> resume_told E rt s (pending m st cov few act err) s"
  "merkle_root m = rt \<Longrightarrow> resume_told E rt s (push_outcome m cv f) s" "merkle_root m = rt \<Longrightarrow> resume_told E rt s (s4_outcome m e4) s"
  "merkle_root m \<noteq> rt \<Longrightarrow> resume_told E rt s (RootMismatch rt (merkle_root m) m) s"
  by (auto simp: resume_told_def refuse_def pending_def push_outcome_def s4_outcome_def split: push_failure.split s4_wait_error.split)

lemma errs_resume_source: "errs (\<lambda>out. resume_told E rt s out s) (resume_source E info rt file)"
  unfolding resume_source_def case_prod_beta
  by (auto split: if_splits intro!: errs_rules simp: errs_def require_def ret_def fail_def bind_act_Some map_err_eq)

lemma errs_resume_push:
  assumes "merkle_root m = rt"
  shows "errs (\<lambda>out. resume_told E rt s out s) (resume_push E m mapped tree ov snapshot cov)"
    and "errs (\<lambda>out. resume_told E rt s out s) (resume_snapshot E m info)"
  unfolding resume_push_def resume_snapshot_def using assms
  by (auto intro!: errs_rules split: option.split)

lemma quiet_errs:
  assumes "quiet m" and "errs (\<lambda>e. B e s) m" and "\<And>a. yields m a \<Longrightarrow> holds (\<lambda>w. cw_sent w = s) (f a) Q (\<lambda>e w. B e (cw_sent w))"
  shows "holds (\<lambda>w. cw_sent w = s) (bind_act m f) Q (\<lambda>e w. B e (cw_sent w))"
  by (rule quiet_stage[OF assms(1)]) (use assms(2,3) in \<open>auto simp: errs_def\<close>)

lemma ready_after_push:
  assumes "yields (resume_push E m mapped tree ov snapshot coverage) cov" and "merkle_root m = rt"
  shows "\<exists>n cov. cr_coverage (ie_rpc E) n (''0x'' @ hex_encode rt) None None = Inr (Some cov) \<and> ac_can_activate_now cov"
  using assms yields_coverage[of E rt]
  by (auto simp: resume_push_def yields_simple elim!: yields_bindE split: option.splits)

lemma resume_activation:
  assumes "sign_ok (xl_sign (ie_libs E))" and "merkle_root m = rt" and "resumable E rt"
  shows "holds (\<lambda>w. cw_sent w = s)
      (bind_act (map_err (\<lambda>e. pending m ActivateStage cov None Resume (Some e)) (s5_activate E rt)) (\<lambda>(h, n). ret (ResumedActivated rt m c h n)))
    (\<lambda>out w. resume_told E rt s out (cw_sent w)) (\<lambda>out w. resume_told E rt s out (cw_sent w))"
proof (rule holds_bind)
  show "holds (\<lambda>w. cw_sent w = s) (map_err (\<lambda>e. pending m ActivateStage cov None Resume (Some e)) (s5_activate E rt))
      (\<lambda>_ w. \<exists>t. cw_sent w = s @ [t] \<and> own_text E (ActivateFileV2 rt) t) (\<lambda>out w. resume_told E rt s out (cw_sent w))"
    using activation_sends[OF assms(1), of rt] assms(2,3) unfolding sends_only_def
    by (intro holdsI) (fastforce simp: map_err_eq resume_told_def pending_def)+
qed (use assms in \<open>auto simp: resume_told_def intro!: holds_ret\<close>)

lemma resume_pending_ledger:
  assumes "sign_ok (xl_sign (ie_libs E))" and "cr_file_info (ie_rpc E) k (''0x'' @ hex_encode (merkle_root m)) None None = Inr (Some info)"
    and "is_pending (fi_lifecycle info)"
  shows "holds (\<lambda>w. cw_sent w = s) (resume_pending E info m mapped tree ov)
    (\<lambda>out w. resume_told E (merkle_root m) s out (cw_sent w)) (\<lambda>out w. resume_told E (merkle_root m) s out (cw_sent w))"
  unfolding resume_pending_def Let_def
proof (rule quiet_errs[OF quiet_resume_snapshot errs_resume_push(2)[OF refl]], rule quiet_calls, intro act_quiet, simp)
  fix snapshot row
  assume "yields (call (\<lambda>n. cr_coverage (ie_rpc E) n (''0x'' @ hex_encode (merkle_root m)) None None) :: (ingest_world, _, _) act) row"
  then obtain n where row: "cr_coverage (ie_rpc E) n (''0x'' @ hex_encode (merkle_root m)) None None = Inr row" by (auto simp: yields_simple)
  show "holds (\<lambda>w. cw_sent w = s)
      (case row of None \<Rightarrow> fail (pending m CoverageStage None None Abandon (Some NoCoverageRow))
       | Some coverage \<Rightarrow> bind_act (if ac_can_activate_now coverage then ret coverage else resume_push E m mapped tree ov snapshot coverage) (\<lambda>last_coverage.
           bind_act (map_err (\<lambda>e. pending m ActivateStage (Some last_coverage) None Resume (Some e)) (s5_activate E (merkle_root m)))
             (\<lambda>(h, n). ret (ResumedActivated (merkle_root m) m (fi_created_at info) h n))))
      (\<lambda>out w. resume_told E (merkle_root m) s out (cw_sent w)) (\<lambda>out w. resume_told E (merkle_root m) s out (cw_sent w))"
  proof (cases row)
    case (Some coverage)
    have ready: "resumable E (merkle_root m)"
      if "yields (if ac_can_activate_now coverage then ret coverage else resume_push E m mapped tree ov snapshot coverage) c" for c
      using that row Some ready_after_push[OF _ refl] assms(2,3) unfolding resumable_def by (auto simp: yields_simple split: if_splits)
    show ?thesis unfolding Some option.case
      by (rule quiet_errs, intro act_quiet)
        (auto intro!: resume_activation assms(1) ready errs_resume_push(1) errs_rules)
  qed (auto intro!: holds_fail)
qed

lemma resume_ledger:
  assumes "sign_ok (xl_sign (ie_libs E))"
  shows "holds (\<lambda>w. cw_sent w = s) (resume_body E rt file)
    (\<lambda>out w. resume_told E rt s out (cw_sent w)) (\<lambda>out w. resume_told E rt s out (cw_sent w))"
  unfolding resume_body_def Let_def
  apply (rule quiet_requires, simp, rule quiet_calls, intro act_quiet, simp, rule quiet_calls, intro act_quiet, simp)
  subgoal premises row for h row
  proof (cases row)
    case (Some info)
    then obtain n where info: "cr_file_info (ie_rpc E) n (''0x'' @ hex_encode rt) None None = Inr (Some info)"
      using row by (auto simp: yields_simple)
    show ?thesis unfolding Some option.case
    proof (rule quiet_errs[OF quiet_resume_source errs_resume_source])
      fix x assume x: "yields (resume_source E info rt file) x"
      obtain m mapped tree ov where X: "x = (m, mapped, tree, ov)" by (cases x)
      have m: "rt = merkle_root m" using resume_source_root x X by blast
      show "holds (\<lambda>w. cw_sent w = s) (case x of (m, mapped, tree, ov) \<Rightarrow> resume_lifecycle E info m mapped tree ov)
        (\<lambda>out w. resume_told E rt s out (cw_sent w)) (\<lambda>out w. resume_told E rt s out (cw_sent w))"
        using resume_pending_ledger[OF assms info[unfolded m]] unfolding X prod.case m resume_lifecycle_def Let_def
        by (auto intro!: holds_ret holds_fail split: option.split) (simp_all add: resume_told_def refuse_def)
    qed
  qed (auto intro!: holds_fail)
  done

text \<open>
  C16. Resuming never registers. Whatever the chain and the network do, a resume sends at most one transaction, its own
  activation of the given root, and only when the chain showed the file Pending and reported it ready for activation; it
  reports ResumedActivated only with that one sent, for a local file that reproduces the root. A file that is already active or
  abandoned, a file that does not reproduce the root, and every refusal send nothing.
\<close>

theorem resume_never_registers:
  assumes "sign_ok (xl_sign (ie_libs E))" and "resume E rt file w = Some (out, w')"
  shows "resume_told E rt (cw_sent w) out (cw_sent w')"
  by (rule outcome_holds[OF resume_ledger[OF assms(1)] refl assms(2)[unfolded resume_def]])

text \<open>What a resume of the root \<open>rt\<close> pushes.\<close>

definition resume_pushed :: "digest_lib \<Rightarrow> hash \<Rightarrow> chunk_push list \<Rightarrow> ingest_outcome \<Rightarrow> chunk_push list \<Rightarrow> bool" where
  "resume_pushed L rt ps out ps' \<longleftrightarrow> (\<exists>new. ps' = ps @ new
       \<and> (\<forall>p \<in> set new. cp_root p = rt \<and> (\<exists>m. outcome_manifest out = Some m \<and> merkle_root m = rt \<and> push_ok L m p)))
     \<and> (\<forall>e c m. out = RootMismatch e c m \<longrightarrow> ps' = ps)"

lemma collect_calm:
  assumes "pages_missing (ie_rpc E) (''0x'' @ hex_encode rt) M"
  shows "calm (collect_missing_indices E rt)" and "yields (collect_missing_indices E rt :: (ingest_world, _, _) act) found \<Longrightarrow> found = Some (set M)"
proof -
  have c: "\<exists>n. collect_missing_indices E rt w = Some (Inr (Some (set M)), w\<lparr>cw_calls := n\<rparr>)" for w :: ingest_world
    using collect_missing_pages[OF assms, of "{}" 0 w] by (simp add: collect_missing_indices_def)
  then show "calm (collect_missing_indices E rt)" unfolding calm_def by fastforce
  show "yields (collect_missing_indices E rt :: (ingest_world, _, _) act) found \<Longrightarrow> found = Some (set M)"
    unfolding yields_def using c by (metis Inr_inject option.inject prod.inject)
qed

lemma resume_source_prepared:
  assumes "crypto_ok (xl_crypto (ie_libs E))"
  shows "calm (resume_source E info rt file)"
    and "yields (resume_source E info rt file :: (ingest_world, _, _) act) (m, mapped, tree, ov) \<Longrightarrow> prepared (xl_digest (ie_libs E)) m mapped tree"
proof -
  show "calm (resume_source E info rt file)" unfolding resume_source_def
    by (intro act_calm private_artifacts_cases(1) assms)
  assume y: "yields (resume_source E info rt file :: (ingest_world, _, _) act) (m, mapped, tree, ov)"
  show "prepared (xl_digest (ie_libs E)) m mapped tree"
  proof (cases "is_private (fi_visibility info)")
    case True
    then show ?thesis using y private_prepared[OF assms]
      by (auto simp: resume_source_def yields_simple yields_partial elim!: yields_bindE)
  next
    case False
    then have "yields (s0_chunk E file :: (ingest_world, _, _) act) (m, mapped, tree)" using y
      by (auto simp: resume_source_def yields_simple elim!: yields_bindE)
    then show ?thesis using chunk_file_prepared by (cases "lf_bytes file") (auto simp: yields_def s0_chunk_def split: option.splits)
  qed
qed

lemma resume_pushed_simps:
  "untouched ps evs w \<Longrightarrow> resume_pushed L rt ps out (iw_pushes w)"
  "outcome_manifest out = Some m \<Longrightarrow> (\<forall>e c m. out \<noteq> RootMismatch e c m) \<Longrightarrow> pushing L m evs ps peers K w
     \<Longrightarrow> resume_pushed L (merkle_root m) ps out (iw_pushes w)"
  by (auto simp: resume_pushed_def untouched_def pushing_def push_ok_def)

lemma resumed_manifest [simp]: "outcome_manifest (ResumedActivated rt m c h n) = Some m"
  by (simp add: outcome_manifest_def)

lemma not_mismatch [simp]:
  "pending m st cov few act err \<noteq> RootMismatch x y z" "push_outcome m cov f \<noteq> RootMismatch x y z" "s4_outcome m e \<noteq> RootMismatch x y z"
  by (auto simp: pending_def push_outcome_def s4_outcome_def split: push_failure.split s4_wait_error.split)

lemma resume_push_ensures:
  assumes "prepared (xl_digest (ie_libs E)) m mapped tree" and "pages_missing (ie_rpc E) (''0x'' @ hex_encode (merkle_root m)) M"
  shows "ensures (untouched ps evs) (resume_push E m mapped tree ov snapshot coverage)
    (\<lambda>_ w. pushing (xl_digest (ie_libs E)) m evs ps (iw_peers w) {} w) (\<lambda>out w. resume_pushed (xl_digest (ie_libs E)) (merkle_root m) ps out (iw_pushes w))"
  unfolding resume_push_def
proof (rule calm_then[OF collect_calm(1)[OF assms(2)] stable_simple(1)])
  let ?L = "xl_digest (ie_libs E)"
  let ?P = "\<lambda>w. pushing ?L m evs ps (iw_peers w) {} w" and ?R = "\<lambda>out w. resume_pushed ?L (merkle_root m) ps out (iw_pushes w)"
  fix found assume "yields (collect_missing_indices E (merkle_root m) :: (ingest_world, _, _) act) found"
  then have f: "found = Some (set M)" using collect_calm(2)[OF assms(2)] by blast
  have s2: "ensures (untouched ps evs) (map_err (push_outcome m (Some coverage)) (s2_push_chunks E m mapped tree snapshot (set M))) (\<lambda>_. ?P) ?R"
    by (rule ensures_map_err, rule ensures_fix_world, rule ensures_weaken[OF push_stage[OF assms(1), where evs = evs and ps = ps]])
      (auto simp: untouched_def pushing_def intro: resume_pushed_simps(2)[where m = m])
  have rest: "ensures ?P (bind_act (map_err (\<lambda>e. pending m ManifestPushStage (Some coverage) None Resume (Some e)) (s3_push_manifest E m assigned ov))
      (\<lambda>_. map_err (s4_outcome m) (s4_wait_coverage E (merkle_root m)))) (\<lambda>_. ?P) ?R" for assigned
    by (intro calm_then act_calm stable_simple(2) ensures_map_err ensures_weaken[OF ensures_calm[OF calm_wait_coverage stable_simple(2)]])
      (auto intro: resume_pushed_simps(2)[where m = m])
  show "ensures (untouched ps evs) (case found of None \<Rightarrow> fail (pending m CoverageStage (Some coverage) None Abandon (Some NoCoverageRow))
      | Some missing \<Rightarrow> bind_act (map_err (push_outcome m (Some coverage)) (s2_push_chunks E m mapped tree snapshot missing)) (\<lambda>assigned.
          bind_act (map_err (\<lambda>e. pending m ManifestPushStage (Some coverage) None Resume (Some e)) (s3_push_manifest E m assigned ov))
            (\<lambda>_. map_err (s4_outcome m) (s4_wait_coverage E (merkle_root m))))) (\<lambda>_. ?P) ?R"
    unfolding f option.case by (rule ensures_bind[OF s2 rest])
qed (auto intro: resume_pushed_simps(1))

lemma resume_lifecycle_ensures:
  assumes "prepared (xl_digest (ie_libs E)) m mapped tree" and "pages_missing (ie_rpc E) (''0x'' @ hex_encode (merkle_root m)) M"
    and "0 < p_poll_interval (ie_params E)"
  shows "ensures (untouched ps evs) (resume_lifecycle E info m mapped tree ov)
    (\<lambda>out w. resume_pushed (xl_digest (ie_libs E)) (merkle_root m) ps out (iw_pushes w)) (\<lambda>out w. resume_pushed (xl_digest (ie_libs E)) (merkle_root m) ps out (iw_pushes w))"
proof -
  let ?L = "xl_digest (ie_libs E)"
  let ?P = "\<lambda>w. pushing ?L m evs ps (iw_peers w) {} w" and ?R = "\<lambda>out w. resume_pushed ?L (merkle_root m) ps out (iw_pushes w)"
  have fin: "ensures ?P (bind_act (map_err (\<lambda>e. pending m ActivateStage (Some c) None Resume (Some e)) (s5_activate E (merkle_root m)))
      (\<lambda>(h, n). ret (ResumedActivated (merkle_root m) m (fi_created_at info) h n))) ?R ?R" for c
    unfolding case_prod_beta
    by (intro calm_then calm_activate assms(3) stable_simple(2) ensures_ret)
      (auto intro: resume_pushed_simps(2)[where m = m])
  have push: "ensures (untouched ps evs) (if ac_can_activate_now c then ret c else resume_push E m mapped tree ov snapshot c) (\<lambda>_. ?P) ?R" for c snapshot
    using resume_push_ensures[OF assms(1,2), of ps evs ov snapshot c] by (auto intro!: ensures_ret simp: untouched_def pushing_def)
  have probe: "ensures (untouched ps evs) (bind_act (map_err (\<lambda>e. pending m CoverageStage None None Resume (Some (RpcError e)))
        (call (\<lambda>n. cr_coverage (ie_rpc E) n (''0x'' @ hex_encode (merkle_root m)) None None))) (\<lambda>cov.
        case cov of None \<Rightarrow> fail (pending m CoverageStage None None Abandon (Some NoCoverageRow))
        | Some coverage \<Rightarrow> bind_act (if ac_can_activate_now coverage then ret coverage else resume_push E m mapped tree ov snapshot coverage) (\<lambda>last_coverage.
            bind_act (map_err (\<lambda>e. pending m ActivateStage (Some last_coverage) None Resume (Some e)) (s5_activate E (merkle_root m)))
              (\<lambda>(h, n). ret (ResumedActivated (merkle_root m) m (fi_created_at info) h n))))) ?R ?R" for snapshot
  proof (rule calm_then[OF calm_simple(6) stable_simple(1)])
    fix cov
    show "ensures (untouched ps evs) (case cov of None \<Rightarrow> fail (pending m CoverageStage None None Abandon (Some NoCoverageRow))
        | Some coverage \<Rightarrow> bind_act (if ac_can_activate_now coverage then ret coverage else resume_push E m mapped tree ov snapshot coverage) (\<lambda>last_coverage.
            bind_act (map_err (\<lambda>e. pending m ActivateStage (Some last_coverage) None Resume (Some e)) (s5_activate E (merkle_root m)))
              (\<lambda>(h, n). ret (ResumedActivated (merkle_root m) m (fi_created_at info) h n)))) ?R ?R"
      using ensures_bind[OF push fin]
      by (cases cov) (auto simp: ensures_def fail_def intro: resume_pushed_simps(1))
  qed (auto intro: resume_pushed_simps(1))
  have snap: "calm (resume_snapshot E m info)" unfolding resume_snapshot_def by (intro act_calm)
  have "ensures (untouched ps evs) (resume_pending E info m mapped tree ov) ?R ?R"
    unfolding resume_pending_def Let_def
    by (rule ensures_bind[OF ensures_weaken[OF ensures_calm[OF snap stable_simple(1)]] probe])
      (auto intro: resume_pushed_simps(1))
  then show ?thesis unfolding resume_lifecycle_def Let_def
    by (auto split: option.split simp: ensures_def ret_def fail_def intro: resume_pushed_simps(1))
qed

text \<open>
  C8. A resume ends and pushes only the registered file. When the chain pages its missing chunks as documented, a resume
  always returns; every chunk it pushed is pushed under the given root and is a chunk of a manifest with that root, with a proof that verifies
  against it, and a local file that does not reproduce the root is not pushed at all.
\<close>

theorem resume_returns_and_pushes_the_file:
  assumes "pages_missing (ie_rpc E) (''0x'' @ hex_encode rt) M" and "0 < p_poll_interval (ie_params E)" and "crypto_ok (xl_crypto (ie_libs E))"
  shows "\<exists>out w'. resume E rt file w = Some (out, w') \<and> resume_pushed (xl_digest (ie_libs E)) rt (iw_pushes w) out (iw_pushes w')"
proof -
  let ?R = "\<lambda>out w'. resume_pushed (xl_digest (ie_libs E)) rt (iw_pushes w) out (iw_pushes w')"
  let ?P = "untouched (iw_pushes w) (iw_events w)"
  have src: "ensures ?P (bind_act (resume_source E info rt file) (\<lambda>(m, mapped, tree, ov). resume_lifecycle E info m mapped tree ov)) ?R ?R" for info
  proof (rule ensures_bind[OF ensures_calm[OF resume_source_prepared(1)[OF assms(3)] stable_simple(1)]])
    fix x :: "data_manifest \<times> bytes \<times> merkle_tree \<times> bytes option"
    obtain m mapped tree ov where X: "x = (m, mapped, tree, ov)" by (cases x)
    show "ensures (\<lambda>w. ?P w \<and> yields (resume_source E info rt file :: (ingest_world, _, _) act) x) (case x of (m, mapped, tree, ov) \<Rightarrow> resume_lifecycle E info m mapped tree ov) ?R ?R"
    proof (cases "yields (resume_source E info rt file :: (ingest_world, _, _) act) x")
      case True
      then have "merkle_root m = rt" "prepared (xl_digest (ie_libs E)) m mapped tree"
        using resume_source_root resume_source_prepared(2)[OF assms(3)] X by blast+
      then show ?thesis using resume_lifecycle_ensures[of E m mapped tree M] assms(1,2) X True by simp
    qed (simp add: ensures_def)
  qed (auto intro: resume_pushed_simps(1))
  have "ensures ?P (resume_body E rt file) ?R ?R"
    unfolding resume_body_def Let_def
    apply (intro require_then calm_then act_calm stable_simple(1))
    subgoal for w by (auto intro: resume_pushed_simps(1))
    subgoal for w by (auto intro: resume_pushed_simps(1))
    subgoal for w by (auto intro: resume_pushed_simps(1))
    subgoal for h row using src by (cases row) (auto simp: ensures_def fail_def intro: resume_pushed_simps(1))
    done
  then show ?thesis unfolding resume_def by (rule ensuresE[of _ _ _ _ w]) (auto simp: untouched_def outcome_of_def)
qed

section \<open>Instances\<close>

theorem outcome_tells_transactions_witness:
  "\<exists>w' t1 t2. run demo_ing demo_ing_file demo_ing_world = Some (Activated demo_ing_root demo_ing_m ''h'' 6 ''h'' 6, w')
     \<and> cw_sent w' = [t1, t2] \<and> own_text demo_ing (ActivateFileV2 demo_ing_root) t2"
proof -
  have s: "sign_ok (xl_sign (ie_libs demo_ing))" by (simp add: demo_sign_ok)
  obtain w' where r: "run demo_ing demo_ing_file demo_ing_world = Some (Activated demo_ing_root demo_ing_m ''h'' 6 ''h'' 6, w')"
    using ing_demo_run by blast
  have "cw_sent demo_ing_world = []" by (simp add: demo_ing_world_def)
  with mp[OF conjunct1[OF outcome_tells_transactions[OF s]] r] r show ?thesis by (auto simp: ledger_def)
qed

theorem exit_status_truthful_witness:
  "\<exists>st w'. ingest_exit_status_of demo_ing_rpc (refuse None ReplicationFactorZero) demo_ing_world = Some (Inr st, w') \<and> ex_code st = REFUSED"
  using exit_status_truthful[of demo_ing_rpc "refuse None ReplicationFactorZero" demo_ing_world]
  by (auto simp: refuse_def registration_tx_of_def outcome_root_def outcome_manifest_def)

theorem abandon_only_after_grace_witness:
  "\<exists>w' t. abandon demo_ing demo_ing_root demo_ing_world = Some (Abandoned ''h'' 6, w') \<and> cw_sent w' = [t]
     \<and> own_text demo_ing (AbandonFileV2 demo_ing_root) t \<and> abandonable demo_ing demo_ing_root"
proof -
  have s: "sign_ok (xl_sign (ie_libs demo_ing))" by (simp add: demo_sign_ok)
  have "\<exists>w'. abandon demo_ing demo_ing_root demo_ing_world = Some (Abandoned ''h'' 6, w')"
    by (simp add: abandon_def abandon_body_def outcome_of_def bind_act_def map_err_def ing_demo_prepare call_def demo_ing_info_def is_pending_def
        saturating_add_def lift_def build_abandon_file_v2_tx_def sign_and_encode_def ing_demo_send_tx ing_demo_finality ret_def Let_def)
  then obtain w' where a: "abandon demo_ing demo_ing_root demo_ing_world = Some (Abandoned ''h'' 6, w')" by blast
  have "cw_sent demo_ing_world = []" by (simp add: demo_ing_world_def)
  with abandon_only_after_grace[OF s a] a show ?thesis by auto
qed

definition demo_paged :: ingest_env where
  "demo_paged = demo_ing\<lparr>ie_rpc := demo_ing_rpc\<lparr>cr_coverage := \<lambda>n h off lim.
     Inr (Some (demo_ing_cov\<lparr>ac_missing_indices := filter (\<lambda>i. (case off of None \<Rightarrow> 0 | Some k \<Rightarrow> k) \<le> i) [1, 3]\<rparr>))\<rparr>\<rparr>"

lemma demo_pages: "pages_missing (ie_rpc demo_paged) h [1, 3]"
  unfolding pages_missing_def demo_paged_def by (auto intro!: exI[of _ 2])

theorem collect_missing_exact_witness:
  "\<exists>n. collect_missing_indices demo_paged demo_ing_root demo_ing_world = Some (Inr (Some {1, 3}), demo_ing_world\<lparr>cw_calls := n\<rparr>)"
  using collect_missing_exact[OF demo_pages, of demo_ing_root demo_ing_world] by simp

theorem collect_missing_stuck_witness:
  "collect_missing_indices (demo_ing\<lparr>ie_rpc := demo_ing_rpc\<lparr>cr_coverage := \<lambda>_ _ _ _. Inr (Some (demo_ing_cov\<lparr>ac_missing_indices := [0]\<rparr>))\<rparr>\<rparr>)
     demo_ing_root demo_ing_world = None"
  by (rule collect_missing_stuck[where cov = "demo_ing_cov\<lparr>ac_missing_indices := [0]\<rparr>"]) simp_all

lemma demo_resume: "\<exists>w'. resume demo_ing demo_ing_root demo_ing_file demo_ing_world = Some (ResumedActivated demo_ing_root demo_ing_m 1 ''h'' 6, w')"
proof -
  let ?w = "demo_ing_world\<lparr>cw_calls := Suc (Suc 0)\<rparr>"
  have src: "resume_source demo_ing demo_ing_info demo_ing_root demo_ing_file ?w = Some (Inr (demo_ing_m, [7], build (blake3 demo_lib) [demo_ing_root], None), ?w)"
    by (simp add: resume_source_def demo_ing_info_def is_private_def bind_act_def map_err_def ing_demo_prepare require_def ret_def)
  have snap: "resume_snapshot demo_ing demo_ing_m demo_ing_info ?w = Some (Inr [demo_archive_addr], ?w\<lparr>cw_calls := Suc (cw_calls ?w)\<rparr>)"
    using ing_demo_eligible by (simp add: resume_snapshot_def bind_act_def map_err_def call_def lift_def require_def ret_def eligible_archive_addresses_def)
  obtain w5 where s5: "s5_activate demo_ing demo_ing_root (?w\<lparr>cw_calls := Suc (Suc (cw_calls ?w))\<rparr>) = Some (Inr (''h'', 6), w5)"
    using ing_demo_s5 by blast
  have "resume_pending demo_ing demo_ing_info demo_ing_m [7] (build (blake3 demo_lib) [demo_ing_root]) None ?w
      = Some (Inr (ResumedActivated demo_ing_root demo_ing_m 1 ''h'' 6), w5)"
    using snap s5 by (simp add: resume_pending_def bind_act_def map_err_def call_def Let_def ret_def demo_ing_rpc_def demo_ing_cov_def demo_ing_info_def)
  then show ?thesis using src
    by (simp add: resume_def outcome_of_def resume_body_def Let_def bind_act_def require_def ret_def map_err_def ing_demo_prepare call_def
        resume_lifecycle_def) (simp add: demo_ing_info_def is_active_file_def is_abandoned_def is_pending_def)
qed

theorem resume_never_registers_witness:
  "\<exists>w' t. resume demo_ing demo_ing_root demo_ing_file demo_ing_world = Some (ResumedActivated demo_ing_root demo_ing_m 1 ''h'' 6, w')
     \<and> cw_sent w' = [t] \<and> own_text demo_ing (ActivateFileV2 demo_ing_root) t"
proof -
  have s: "sign_ok (xl_sign (ie_libs demo_ing))" by (simp add: demo_sign_ok)
  obtain w' where r: "resume demo_ing demo_ing_root demo_ing_file demo_ing_world = Some (ResumedActivated demo_ing_root demo_ing_m 1 ''h'' 6, w')"
    using demo_resume by blast
  have "cw_sent demo_ing_world = []" by (simp add: demo_ing_world_def)
  with resume_never_registers[OF s r] r show ?thesis by (auto simp: resume_told_def)
qed

text \<open>A chain that reports the one chunk missing and never covered; the stages that push do not read it.\<close>

definition demo_behind_rpc :: chain_rpc where
  "demo_behind_rpc = demo_ing_rpc\<lparr>cr_coverage := \<lambda>n h off lim.
     Inr (Some (demo_ing_cov\<lparr>ac_can_activate_now := False, ac_missing_indices := filter (\<lambda>i. (case off of None \<Rightarrow> 0 | Some k \<Rightarrow> k) \<le> i) [0]\<rparr>))\<rparr>"

definition demo_behind :: ingest_env where "demo_behind = demo_ing\<lparr>ie_rpc := demo_behind_rpc\<rparr>"

definition demo_behind_world :: ingest_world where
  "demo_behind_world = demo_ing_world\<lparr>iw_events := tl (iw_events demo_ing_world), iw_peers := [(''p'', demo_archive_addr)]\<rparr>"

lemma demo_behind_pages: "pages_missing (ie_rpc demo_behind) h [0]"
  unfolding pages_missing_def demo_behind_def demo_behind_rpc_def by (auto intro!: exI[of _ 1])

lemma push_stage_without_chain:
  "await_archives (E\<lparr>ie_rpc := R\<rparr>) = await_archives E" "wait_turns (E\<lparr>ie_rpc := R\<rparr>) = wait_turns E"
  "send_one_push (E\<lparr>ie_rpc := R\<rparr>) = send_one_push E" "push_targets (E\<lparr>ie_rpc := R\<rparr>) = push_targets E"
  "distinct_assigned (E\<lparr>ie_rpc := R\<rparr>) = distinct_assigned E" "on_push_event (E\<lparr>ie_rpc := R\<rparr>) = on_push_event E"
proof -
  show w: "wait_turns (E\<lparr>ie_rpc := R\<rparr>) = wait_turns E" by (intro ext) (simp add: wait_turns_def)
  show "await_archives (E\<lparr>ie_rpc := R\<rparr>) = await_archives E" by (intro ext) (simp add: await_archives_def w)
  show s: "send_one_push (E\<lparr>ie_rpc := R\<rparr>) = send_one_push E" by (intro ext) (simp add: send_one_push_def Let_def cong: option.case_cong)
  have p: "ie_params (E\<lparr>ie_rpc := R\<rparr>) = ie_params E" by simp
  have a: "assigned_to (E\<lparr>ie_rpc := R\<rparr>) = assigned_to E" by (intro ext) (simp add: assigned_to_def)
  show "push_targets (E\<lparr>ie_rpc := R\<rparr>) = push_targets E" by (intro ext) (simp only: push_targets_def a)
  show "distinct_assigned (E\<lparr>ie_rpc := R\<rparr>) = distinct_assigned E" by (intro ext) (simp only: distinct_assigned_def a)
  show "on_push_event (E\<lparr>ie_rpc := R\<rparr>) = on_push_event E" by (intro ext) (simp only: on_push_event_def s p)
qed

lemma push_loop_without_chain:
  "push_loop (E\<lparr>ie_rpc := R\<rparr>) m mapped tree todo turns = push_loop E m mapped tree todo turns"
  by (induction turns; intro ext; simp only: push_loop.simps push_stage_without_chain; simp)

lemma push_wave_without_chain:
  "push_wave (E\<lparr>ie_rpc := R\<rparr>) m mapped tree ks = push_wave E m mapped tree ks"
  by (induction ks; intro ext; simp add: push_stage_without_chain)

lemma push_chunks_without_chain:
  "s2_push_chunks (E\<lparr>ie_rpc := R\<rparr>) m mapped tree snapshot todo = s2_push_chunks E m mapped tree snapshot todo"
  by (simp only: s2_push_chunks_def push_stage_without_chain push_loop_without_chain push_wave_without_chain) simp

lemma manifest_stage_without_chain:
  "s3_push_manifest (E\<lparr>ie_rpc := R\<rparr>) m assigned ov = s3_push_manifest E m assigned ov"
proof -
  have p: "push_manifest_v2 (E\<lparr>ie_rpc := R\<rparr>) = push_manifest_v2 E" by (intro ext) (simp add: push_manifest_v2_def)
  have "manifest_wave (E\<lparr>ie_rpc := R\<rparr>) rt payload ps = manifest_wave E rt payload ps" for rt payload ps
    by (induction ps) (simp_all add: p)
  then show ?thesis by (cases ov) (simp_all add: s3_push_manifest_def push_stage_without_chain Let_def)
qed

definition demo_behind_push :: chunk_push where
  "demo_behind_push = \<lparr>cp_peer = ''p'', cp_data = [7], cp_root = demo_ing_root, cp_index = 0, cp_path = []\<rparr>"

lemma demo_behind_pushes:
  assumes "iw_events w = tl (iw_events demo_ing_world)" "iw_peers w = [(''p'', demo_archive_addr)]" "iw_pushes w = []"
  shows "\<exists>out w'. resume_push demo_behind demo_ing_m [7] (build (blake3 demo_lib) [demo_ing_root]) None [demo_archive_addr] cov w
      = Some (Inl out, w') \<and> iw_pushes w' = [demo_behind_push]"
proof -
  obtain n where c: "collect_missing_indices demo_behind demo_ing_root w = Some (Inr (Some {0}), w\<lparr>cw_calls := n\<rparr>)"
    using collect_missing_pages[OF demo_behind_pages, of "''0x'' @ hex_encode demo_ing_root" "{}" 0 w] by (auto simp: collect_missing_indices_def)
  define w1 where "w1 = w\<lparr>cw_calls := n\<rparr>"
  obtain w2 where s2: "s2_push_chunks demo_behind demo_ing_m [7] (build (blake3 demo_lib) [demo_ing_root]) [demo_archive_addr] {0} w1
      = Some (Inr {demo_archive_addr}, w2)" "iw_events w2 = tl (tl (iw_events demo_ing_world))" "iw_peers w2 = [(''p'', demo_archive_addr)]"
      "iw_pushes w2 = [demo_behind_push]"
    using ing_demo_s2[of w1 "tl (tl (iw_events demo_ing_world))"] assms ing_demo_events
    by (simp add: demo_behind_def push_chunks_without_chain demo_behind_push_def w1_def)
  obtain w3 where s3: "s3_push_manifest demo_behind demo_ing_m {demo_archive_addr} None w2 = Some (Inr (), w3)" "iw_pushes w3 = [demo_behind_push]"
    using ing_demo_s3[of w2 "[]"] s2 ing_demo_events by (simp add: demo_behind_def manifest_stage_without_chain)
  have s4: "\<exists>e w'. s4_wait_coverage demo_behind demo_ing_root w3 = Some (Inl e, w') \<and> iw_pushes w' = [demo_behind_push]"
    using s3(2) by (simp add: s4_wait_coverage_def s4_loop.simps bind_act_def wait_turns_def attempt_def call_def fail_def demo_behind_def
        demo_behind_rpc_def ret_def Let_def)
  show ?thesis
    unfolding resume_push_def
    using s4 by (auto simp: bind_act_def map_err_def c s2(1)[unfolded w1_def] s3(1))
qed

theorem resume_returns_and_pushes_the_file_witness:
  "\<exists>out w' m. resume demo_behind demo_ing_root demo_ing_file demo_behind_world = Some (out, w') \<and> iw_pushes w' = [demo_behind_push]
     \<and> outcome_manifest out = Some m \<and> merkle_root m = demo_ing_root \<and> push_ok demo_lib m demo_behind_push"
proof -
  let ?w = "demo_behind_world\<lparr>cw_calls := Suc (Suc 0)\<rparr>"
  have s0: "s0_chunk demo_behind demo_ing_file w = Some (Inr (demo_ing_m, [7], build (blake3 demo_lib) [demo_ing_root]), w)" for w :: ingest_world
    by (simp add: s0_chunk_def demo_behind_def demo_ing_file_def ing_demo_chunked ing_demo_tree)
  have src: "resume_source demo_behind demo_ing_info demo_ing_root demo_ing_file ?w
      = Some (Inr (demo_ing_m, [7], build (blake3 demo_lib) [demo_ing_root], None), ?w)"
    by (simp add: resume_source_def demo_ing_info_def is_private_def bind_act_def map_err_def require_def ret_def s0)
  have snap: "resume_snapshot demo_behind demo_ing_m demo_ing_info ?w = Some (Inr [demo_archive_addr], ?w\<lparr>cw_calls := Suc (cw_calls ?w)\<rparr>)"
    using ing_demo_eligible by (simp add: resume_snapshot_def bind_act_def map_err_def call_def lift_def require_def ret_def
        eligible_archive_addresses_def demo_behind_def demo_behind_rpc_def)
  let ?w2 = "?w\<lparr>cw_calls := Suc (Suc (cw_calls ?w))\<rparr>"
  have "\<exists>out w'. resume_pending demo_behind demo_ing_info demo_ing_m [7] (build (blake3 demo_lib) [demo_ing_root]) None ?w = Some (Inl out, w')
      \<and> iw_pushes w' = [demo_behind_push]"
  proof -
    have c: "cr_coverage (ie_rpc demo_behind) n h None None = Inr (Some (demo_ing_cov\<lparr>ac_can_activate_now := False, ac_missing_indices := [0]\<rparr>))" for n h
      by (simp add: demo_behind_def demo_behind_rpc_def)
    have "iw_events ?w2 = tl (iw_events demo_ing_world)" "iw_peers ?w2 = [(''p'', demo_archive_addr)]" "iw_pushes ?w2 = []"
      by (simp_all add: demo_behind_world_def demo_ing_world_def)
    from demo_behind_pushes[OF this, of "demo_ing_cov\<lparr>ac_can_activate_now := False, ac_missing_indices := [0]\<rparr>"] show ?thesis
      using snap by (auto simp: resume_pending_def bind_act_def map_err_def call_def Let_def c)
  qed
  then obtain out w' where p: "resume_pending demo_behind demo_ing_info demo_ing_m [7] (build (blake3 demo_lib) [demo_ing_root]) None ?w = Some (Inl out, w')"
      "iw_pushes w' = [demo_behind_push]" by blast
  have chk: "check_v2_enabled demo_behind w = Some (Inr 5, w\<lparr>cw_calls := Suc (cw_calls w)\<rparr>)" for w :: ingest_world
    by (simp add: check_v2_enabled_def bind_act_def map_err_def call_def ret_def demo_behind_def demo_behind_rpc_def)
  have e: "replication demo_behind \<noteq> 0" "cr_file_info (ie_rpc demo_behind) n h None None = Inr (Some demo_ing_info)"
      "cw_calls demo_behind_world = 0" for n h
    by (simp_all add: demo_behind_def demo_behind_rpc_def demo_behind_world_def)
  have "resume demo_behind demo_ing_root demo_ing_file demo_behind_world = Some (out, w')"
    using src p(1)
    by (simp add: resume_def outcome_of_def resume_body_def Let_def bind_act_def require_def ret_def map_err_def chk call_def
        resume_lifecycle_def e)
      (simp add: demo_ing_info_def is_active_file_def is_abandoned_def is_pending_def)
  moreover have "0 < p_poll_interval (ie_params demo_behind)" "crypto_ok (xl_crypto (ie_libs demo_behind))" "iw_pushes demo_behind_world = []"
      "xl_digest (ie_libs demo_behind) = demo_lib"
    by (simp_all add: demo_behind_def demo_crypto_ok demo_behind_world_def demo_ing_world_def)
  ultimately show ?thesis
    using resume_returns_and_pushes_the_file[OF demo_behind_pages, of demo_ing_root demo_ing_file demo_behind_world] p(2)
    by (auto simp: resume_pushed_def)
qed

end
