(* ===== verification/Repush.thy ===== *)
theory Repush
  imports Ingest_Push
begin

text \<open>
  \<open>sum-node repush\<close> (\<open>sum-node/src/ingest_v2.rs\<close>): every chunk of a registered file is pushed again to
  every archive its latest assignment epoch assigns it to, with the manifest, and every answer is reported.
\<close>

section \<open>Results\<close>

datatype repush_result = Acknowledged | PushRefused string | NoAnswer | Unreachable

record repush_target =
  rpt_chunk_index :: u32
  rpt_archive :: addr20
  rpt_result :: repush_result

datatype epoch_check = EpochUnchanged | EpochChanged u64 u64 "(u32 \<times> addr20) list" | EpochUnknown ingest_error

record repush_report =
  rpr_merkle_root :: hash
  rpr_epoch :: u64
  rpr_active :: bool
  rpr_targets :: "repush_target list"
  rpr_manifests :: "addr20 \<Rightarrow> repush_result option"
  rpr_epoch_check :: epoch_check

definition complete :: "repush_report \<Rightarrow> bool" where
  "complete r \<longleftrightarrow>
     (\<forall>t \<in> set (rpr_targets r). rpt_result t = Acknowledged)
   \<and> (\<forall>v \<in> ran (rpr_manifests r). v = Acknowledged)
   \<and> rpr_epoch_check r = EpochUnchanged"

text \<open>Per archive: chunk pushes acknowledged and assigned.\<close>

definition per_archive :: "repush_report \<Rightarrow> addr20 \<Rightarrow> (nat \<times> nat) option" where
  "per_archive r =
     fold (\<lambda>t out.
       let (acked, assigned) = (case out (rpt_archive t) of None \<Rightarrow> (0, 0) | Some e \<Rightarrow> e) in
       out(rpt_archive t \<mapsto> (if rpt_result t = Acknowledged then acked + 1 else acked, assigned + 1)))
     (rpr_targets r) Map.empty"

datatype repush_outcome =
    RepushDone repush_report
  | RepushAbandoned hash
  | RepushRootMismatch hash hash
  | IdentityMismatch string
  | RepushFailed ingest_error

definition COMPLETE :: int where "COMPLETE = 0"
definition INCOMPLETE :: int where "INCOMPLETE = 3"
definition IDENTITY_MISMATCH :: int where "IDENTITY_MISMATCH = 6"

definition repush_exit_code :: "repush_outcome \<Rightarrow> int" where
  "repush_exit_code out =
     (case out of
        RepushDone report \<Rightarrow>
          if complete report then COMPLETE
          else (case rpr_epoch_check report of EpochUnknown _ \<Rightarrow> ERROR | _ \<Rightarrow> INCOMPLETE)
      | RepushAbandoned _ \<Rightarrow> ABANDONED
      | RepushRootMismatch _ _ \<Rightarrow> ROOT_MISMATCH
      | IdentityMismatch _ \<Rightarrow> IDENTITY_MISMATCH
      | RepushFailed _ \<Rightarrow> ERROR)"

record reproduced_file =
  rf_manifest :: data_manifest
  rf_mapped :: bytes
  rf_tree :: merkle_tree
  rf_manifest_bytes :: bytes
  rf_stored_size_bytes :: u64

datatype reproduce_error = Mismatch hash | OtherError ingest_error

section \<open>Rebuilding the file\<close>

definition reproduce_registered ::
    "ingest_env \<Rightarrow> storage_file_info_v2 \<Rightarrow> hash \<Rightarrow> local_file \<Rightarrow> (ingest_world, reproduce_error, reproduced_file) act" where
  "reproduce_registered E info rt file =
     (if is_private (fi_visibility info) then
        bind_act (map_err (\<lambda>e. OtherError (KeyRecovery e))
          (lift (recover_k_file_from_seed_page (ie_libs E) (ie_seed E) (ie_my_addr E) (my_addr_base58 E) info))) (\<lambda>k_file.
        bind_act (map_err (\<lambda>e. OtherError (FileError e))
          (partial (build_private_artifacts (ie_libs E) (ie_cbor E) (ie_temp_error E) file k_file))) (\<lambda>a.
        bind_act (require (merkle_root (pa_manifest a) = rt) (Mismatch (merkle_root (pa_manifest a)))) (\<lambda>_.
          ret \<lparr>rf_manifest = pa_manifest a, rf_mapped = pa_ciphertext a,
               rf_tree = build (blake3 (xl_digest (ie_libs E))) (map cd_hash (chunks (pa_manifest a))),
               rf_manifest_bytes = pa_encrypted_manifest a, rf_stored_size_bytes = pa_stored_size_bytes a\<rparr>)))
      else
        bind_act (map_err OtherError (s0_chunk E file)) (\<lambda>(m, mapped, tree).
        bind_act (require (merkle_root m = rt) (Mismatch (merkle_root m))) (\<lambda>_.
        bind_act (map_err (\<lambda>e. OtherError (ManifestEncode e)) (lift (cbor_ser (ie_cbor E) m))) (\<lambda>manifest_bytes.
          ret \<lparr>rf_manifest = m, rf_mapped = mapped, rf_tree = tree, rf_manifest_bytes = manifest_bytes,
               rf_stored_size_bytes = total_size_bytes m\<rparr>))))"

section \<open>Targets\<close>

definition latest_assignment_targets ::
    "ingest_env \<Rightarrow> storage_file_info_v2 \<Rightarrow> hash \<Rightarrow> (ingest_world, ingest_error, u64 \<times> (u32 \<times> addr20) list) act" where
  "latest_assignment_targets E info rt =
     bind_act (map_err RpcError (call (\<lambda>n. cr_coverage (ie_rpc E) n (''0x'' @ hex_encode rt) None (Some 0)))) (\<lambda>cov.
       case cov of
         None \<Rightarrow> fail NoCoverageRow
       | Some coverage \<Rightarrow>
           bind_act (map_err EpochError (lift (epoch_from_coverage coverage (fi_assignment_height info)))) (\<lambda>epoch.
           bind_act (map_err RpcError (call (\<lambda>n. cr_active_nodes (ie_rpc E) n epoch))) (\<lambda>raw.
           bind_act (map_err BadAddress (lift (eligible_archive_addresses (ie_libs E) raw))) (\<lambda>snapshot.
           bind_act (require (snapshot \<noteq> []) (EmptySnapshot epoch)) (\<lambda>_.
             ret (epoch, concat (map (\<lambda>i. map (Pair i) (assigned_to E rt snapshot i)) (index_list (fi_chunk_count info)))))))))"

section \<open>Chunk pushes\<close>

record repush_state =
  rp_results :: "u32 \<times> addr20 \<Rightarrow> repush_result option"
  rp_by_key :: "push_key \<Rightarrow> addr20 option"
  rp_attempts :: "push_key \<Rightarrow> nat option"
  rp_awaiting :: "push_key set"

fun repush_wave :: "ingest_env \<Rightarrow> reproduced_file \<Rightarrow> peer_map \<Rightarrow> (u32 \<times> addr20) list \<Rightarrow> repush_state \<Rightarrow> (ingest_world, 'e, repush_state) act" where
  "repush_wave E f peers [] st = ret st"
| "repush_wave E f peers ((i, archive) # ts) st =
     (case resolve peers archive of
        None \<Rightarrow> repush_wave E f peers ts st
      | Some peer \<Rightarrow>
          bind_act (attempt (send_one_push E (rf_manifest f) (rf_mapped f) (rf_tree f) i peer)) (\<lambda>r.
            let st1 = st\<lparr>rp_results := (rp_results st)((i, archive) \<mapsto> NoAnswer), rp_by_key := (rp_by_key st)((i, peer) \<mapsto> archive)\<rparr> in
            repush_wave E f peers ts
              (case r of
                 Inr _ \<Rightarrow> st1\<lparr>rp_attempts := (rp_attempts st1)((i, peer) \<mapsto> 1), rp_awaiting := insert (i, peer) (rp_awaiting st1)\<rparr>
               | Inl _ \<Rightarrow> st1)))"

definition refuse_push :: "push_key \<Rightarrow> addr20 \<Rightarrow> string \<Rightarrow> repush_state \<Rightarrow> repush_state" where
  "refuse_push key archive err st =
     st\<lparr>rp_results := (rp_results st)((fst key, archive) \<mapsto> PushRefused err), rp_awaiting := rp_awaiting st - {key}\<rparr>"

definition on_repush_event :: "ingest_env \<Rightarrow> reproduced_file \<Rightarrow> hash \<Rightarrow> sum_net_event \<Rightarrow> repush_state \<Rightarrow> (ingest_world, 'e, repush_state) act" where
  "on_repush_event E f rt ev st =
     (case ev of
        ShardReceivedV2 peer (PushAck acked_root i error) \<Rightarrow>
          (let key = (i, peer) in
           if acked_root \<noteq> rt \<or> key \<notin> rp_awaiting st then ret st
           else
             (case rp_by_key st key of
                None \<Rightarrow> (\<lambda>_. None)
              | Some archive \<Rightarrow>
                 (case error of
                    None \<Rightarrow> ret (st\<lparr>rp_results := (rp_results st)((i, archive) \<mapsto> Acknowledged), rp_awaiting := rp_awaiting st - {key}\<rparr>)
                  | Some err \<Rightarrow>
                     (let n = (case rp_attempts st key of None \<Rightarrow> 1 | Some n \<Rightarrow> n);
                          st1 = st\<lparr>rp_attempts := (rp_attempts st)(key \<mapsto> n)\<rparr> in
                      if n \<le> unat (p_push_retries (ie_params E)) then
                        bind_act (attempt (send_one_push E (rf_manifest f) (rf_mapped f) (rf_tree f) i peer)) (\<lambda>r.
                          case r of
                            Inr _ \<Rightarrow> ret (st1\<lparr>rp_attempts := (rp_attempts st1)(key \<mapsto> n + 1)\<rparr>)
                          | Inl _ \<Rightarrow> ret (refuse_push key archive err st1))
                      else ret (refuse_push key archive err st1)))))
      | _ \<Rightarrow> ret st)"

fun repush_loop :: "ingest_env \<Rightarrow> reproduced_file \<Rightarrow> hash \<Rightarrow> nat \<Rightarrow> repush_state \<Rightarrow> (ingest_world, 'e, repush_state) act" where
  "repush_loop E f rt 0 st = ret st"
| "repush_loop E f rt (Suc turns) st =
     (if rp_awaiting st = {} then ret st
      else
        bind_act next_event (\<lambda>event.
          case event of
            None \<Rightarrow> ret st
          | Some ev \<Rightarrow> bind_act (on_repush_event E f rt ev st) (repush_loop E f rt turns)))"

definition repush_chunks ::
    "ingest_env \<Rightarrow> reproduced_file \<Rightarrow> hash \<Rightarrow> (u32 \<times> addr20) list \<Rightarrow> (ingest_world, 'e, u32 \<times> addr20 \<Rightarrow> repush_result option) act" where
  "repush_chunks E f rt targets =
     bind_act (gets iw_peers) (\<lambda>peers.
     bind_act (repush_wave E f peers targets
        \<lparr>rp_results = (\<lambda>k. if k \<in> set targets then Some Unreachable else None), rp_by_key = Map.empty, rp_attempts = Map.empty, rp_awaiting = {}\<rparr>) (\<lambda>st.
     bind_act (wait_turns E) (\<lambda>turns.
     bind_act (repush_loop E f rt turns st) (\<lambda>st'.
       ret (rp_results st')))))"

section \<open>Manifest pushes\<close>

record manifest_state =
  rm_results :: "addr20 \<Rightarrow> repush_result option"
  rm_by_peer :: "peer_id \<Rightarrow> addr20 option"
  rm_attempts :: "peer_id \<Rightarrow> nat option"

fun remanifest_wave :: "ingest_env \<Rightarrow> hash \<Rightarrow> bytes \<Rightarrow> peer_map \<Rightarrow> addr20 list \<Rightarrow> manifest_state \<Rightarrow> (ingest_world, 'e, manifest_state) act" where
  "remanifest_wave E rt b peers [] st = ret st"
| "remanifest_wave E rt b peers (archive # as) st =
     (case resolve peers archive of
        None \<Rightarrow> remanifest_wave E rt b peers as st
      | Some peer \<Rightarrow>
          bind_act (attempt (push_manifest_v2 E peer rt b)) (\<lambda>r.
            let st1 = st\<lparr>rm_results := (rm_results st)(archive \<mapsto> NoAnswer)\<rparr> in
            remanifest_wave E rt b peers as
              (case r of
                 Inr _ \<Rightarrow> st1\<lparr>rm_by_peer := (rm_by_peer st1)(peer \<mapsto> archive), rm_attempts := (rm_attempts st1)(peer \<mapsto> 1)\<rparr>
               | Inl _ \<Rightarrow> st1)))"

definition refuse_manifest :: "peer_id \<Rightarrow> addr20 \<Rightarrow> string \<Rightarrow> manifest_state \<Rightarrow> manifest_state" where
  "refuse_manifest peer archive err st =
     st\<lparr>rm_results := (rm_results st)(archive \<mapsto> PushRefused err), rm_by_peer := (rm_by_peer st)(peer := None)\<rparr>"

definition on_manifest_event :: "ingest_env \<Rightarrow> hash \<Rightarrow> bytes \<Rightarrow> sum_net_event \<Rightarrow> manifest_state \<Rightarrow> (ingest_world, 'e, manifest_state) act" where
  "on_manifest_event E rt b ev st =
     (case ev of
        ShardReceivedV2 peer (ManifestPushAck acked_root error) \<Rightarrow>
          if acked_root \<noteq> rt then ret st
          else
            (case rm_by_peer st peer of
               None \<Rightarrow> ret st
             | Some archive \<Rightarrow>
                (case error of
                   None \<Rightarrow> ret (st\<lparr>rm_results := (rm_results st)(archive \<mapsto> Acknowledged), rm_by_peer := (rm_by_peer st)(peer := None)\<rparr>)
                 | Some err \<Rightarrow>
                    (let n = (case rm_attempts st peer of None \<Rightarrow> 1 | Some n \<Rightarrow> n);
                         st1 = st\<lparr>rm_attempts := (rm_attempts st)(peer \<mapsto> n)\<rparr> in
                     if n \<le> unat (p_push_retries (ie_params E)) then
                       bind_act (attempt (push_manifest_v2 E peer rt b)) (\<lambda>r.
                         case r of
                           Inr _ \<Rightarrow> ret (st1\<lparr>rm_attempts := (rm_attempts st1)(peer \<mapsto> n + 1)\<rparr>)
                         | Inl _ \<Rightarrow> ret (refuse_manifest peer archive err st1))
                     else ret (refuse_manifest peer archive err st1))))
      | _ \<Rightarrow> ret st)"

fun remanifest_loop :: "ingest_env \<Rightarrow> hash \<Rightarrow> bytes \<Rightarrow> nat \<Rightarrow> manifest_state \<Rightarrow> (ingest_world, 'e, manifest_state) act" where
  "remanifest_loop E rt b 0 st = ret st"
| "remanifest_loop E rt b (Suc turns) st =
     (if rm_by_peer st = Map.empty then ret st
      else
        bind_act next_event (\<lambda>event.
          case event of
            None \<Rightarrow> ret st
          | Some ev \<Rightarrow> bind_act (on_manifest_event E rt b ev st) (remanifest_loop E rt b turns)))"

definition repush_manifests ::
    "ingest_env \<Rightarrow> hash \<Rightarrow> bytes \<Rightarrow> addr20 set \<Rightarrow> (ingest_world, 'e, addr20 \<Rightarrow> repush_result option) act" where
  "repush_manifests E rt b archives =
     bind_act (gets iw_peers) (\<lambda>peers.
     bind_act (remanifest_wave E rt b peers (sorted_list_of_set archives)
        \<lparr>rm_results = (\<lambda>a. if a \<in> archives then Some Unreachable else None), rm_by_peer = Map.empty, rm_attempts = Map.empty\<rparr>) (\<lambda>st.
     bind_act (wait_turns E) (\<lambda>turns.
     bind_act (remanifest_loop E rt b turns st) (\<lambda>st'.
       ret (rm_results st')))))"

section \<open>The command\<close>

definition identity_mismatches :: "storage_file_info_v2 \<Rightarrow> reproduced_file \<Rightarrow> string list" where
  "identity_mismatches info f =
     (let differs = \<lambda>what (a :: nat) b. if a \<noteq> b then [what @ '' '' @ dec_of_nat a @ '' (registered '' @ dec_of_nat b @ '')''] else [] in
      differs ''chunk count'' (unat (chunk_count (rf_manifest f))) (unat (fi_chunk_count info))
      @ differs ''plaintext size'' (unat (total_size_bytes (rf_manifest f))) (unat (fi_plaintext_size_bytes info))
      @ differs ''stored size'' (unat (rf_stored_size_bytes f)) (unat (fi_stored_size_bytes info)))"

definition epoch_check_of :: "u64 \<Rightarrow> (u32 \<times> addr20 \<Rightarrow> repush_result option) \<Rightarrow> ingest_error + u64 \<times> (u32 \<times> addr20) list \<Rightarrow> epoch_check" where
  "epoch_check_of epoch results again =
     (case again of
        Inl e \<Rightarrow> EpochUnknown e
      | Inr (now, new_targets) \<Rightarrow>
          if now = epoch then EpochUnchanged
          else EpochChanged epoch now (filter (\<lambda>pair. results pair \<noteq> Some Acknowledged) new_targets))"

text \<open>The pushes of a rebuilt file; indexing a result that is not there would panic.\<close>

definition repush_file :: "ingest_env \<Rightarrow> storage_file_info_v2 \<Rightarrow> hash \<Rightarrow> reproduced_file \<Rightarrow> (ingest_world, repush_outcome, repush_outcome) act" where
  "repush_file E info rt f =
     bind_act (map_err RepushFailed (latest_assignment_targets E info rt)) (\<lambda>(epoch, targets).
       (let required = snd ` set targets in
        bind_act (attempt (await_archives E required)) (\<lambda>_.
        bind_act (repush_chunks E f rt targets) (\<lambda>results.
        bind_act (repush_manifests E rt (rf_manifest_bytes f) required) (\<lambda>manifests.
        bind_act (attempt (latest_assignment_targets E info rt)) (\<lambda>again.
          if \<exists>k \<in> set targets. results k = None then (\<lambda>_. None)
          else
            ret (RepushDone \<lparr>rpr_merkle_root = rt, rpr_epoch = epoch, rpr_active = is_active_file (fi_lifecycle info),
              rpr_targets = map (\<lambda>(i, a). \<lparr>rpt_chunk_index = i, rpt_archive = a, rpt_result = the (results (i, a))\<rparr>) targets,
              rpr_manifests = manifests, rpr_epoch_check = epoch_check_of epoch results again\<rparr>)))))))"

definition repush_body :: "ingest_env \<Rightarrow> hash \<Rightarrow> local_file \<Rightarrow> (ingest_world, repush_outcome, repush_outcome) act" where
  "repush_body E rt file =
     bind_act (require (replication E \<noteq> 0) (RepushFailed ReplicationFactorZero)) (\<lambda>_.
     bind_act (map_err (\<lambda>e. RepushFailed (RpcError e)) (call (\<lambda>n. cr_file_info (ie_rpc E) n (''0x'' @ hex_encode rt) None None))) (\<lambda>row.
       case row of
         None \<Rightarrow> fail (RepushFailed (NoFileRow (''0x'' @ hex_encode rt)))
       | Some info \<Rightarrow>
           bind_act (require (\<not> is_abandoned (fi_lifecycle info)) (RepushAbandoned rt)) (\<lambda>_.
           bind_act (require (is_active_file (fi_lifecycle info) \<or> is_pending (fi_lifecycle info)) (RepushFailed (UnexpectedLifecycle (fi_lifecycle info)))) (\<lambda>_.
           bind_act (require (fi_owner info = my_addr_base58 E)
             (IdentityMismatch (''operator '' @ my_addr_base58 E @ '' is not the registered owner '' @ fi_owner info))) (\<lambda>_.
           bind_act (map_err (\<lambda>e. case e of Mismatch actual \<Rightarrow> RepushRootMismatch rt actual | OtherError e \<Rightarrow> RepushFailed e)
             (reproduce_registered E info rt file)) (\<lambda>f.
           bind_act (require (identity_mismatches info f = [])
             (IdentityMismatch (''the rebuilt file differs: '' @ join_with '', '' (identity_mismatches info f)))) (\<lambda>_.
             repush_file E info rt f)))))))"

definition repush :: "ingest_env \<Rightarrow> hash \<Rightarrow> local_file \<Rightarrow> ingest_world \<Rightarrow> (repush_outcome \<times> ingest_world) option" where
  "repush E rt file = outcome_of (repush_body E rt file)"

end
