(* ===== verification/Repush_Correct.thy ===== *)
theory Repush_Correct
  imports Ingest_Correct Repush
begin

text \<open>
  What a repush (\<open>sum-node/src/ingest_v2.rs\<close>) guarantees: it always returns, sends no transaction, pushes only
  chunks of the registered file, and reports a complete run only when every archive of the latest epoch has
  acknowledged every chunk assigned to it and the manifest.
\<close>

section \<open>Nothing is sent\<close>

lemma quiet_repush_wave [act_quiet]: "quiet (repush_wave E f peers ts st)"
  by (induction ts arbitrary: st) (auto simp: Let_def intro!: act_quiet split: option.split)

lemma quiet_repush_event [act_quiet]: "quiet (on_repush_event E f rt ev st)"
  by (auto simp: on_repush_event_def Let_def quiet_def[of "\<lambda>_. None"] intro!: act_quiet
      split: sum_net_event.split shard_response_v2.split)

lemma quiet_repush_loop [act_quiet]: "quiet (repush_loop E f rt turns st)"
  by (induction turns arbitrary: st) (auto intro!: act_quiet split: option.split)

lemma quiet_remanifest_wave [act_quiet]: "quiet (remanifest_wave E rt b peers as st)"
  by (induction as arbitrary: st) (auto simp: Let_def intro!: act_quiet split: option.split)

lemma quiet_manifest_event [act_quiet]: "quiet (on_manifest_event E rt b ev st)"
  by (auto simp: on_manifest_event_def Let_def intro!: act_quiet split: sum_net_event.split shard_response_v2.split)

lemma quiet_remanifest_loop [act_quiet]: "quiet (remanifest_loop E rt b turns st)"
  by (induction turns arbitrary: st) (auto intro!: act_quiet split: option.split)

lemma quiet_targets [act_quiet]: "quiet (latest_assignment_targets E info rt)"
  unfolding latest_assignment_targets_def by (intro act_quiet)

lemma quiet_reproduce [act_quiet]: "quiet (reproduce_registered E info rt file)"
  unfolding reproduce_registered_def by (intro act_quiet)

lemma quiet_repush [act_quiet]: "quiet (repush_body E rt file)"
proof -
  have "quiet (repush_file E info rt f)" for info f
    unfolding repush_file_def Let_def repush_chunks_def repush_manifests_def
    by (intro act_quiet) (auto simp: quiet_def ret_def)
  then show ?thesis unfolding repush_body_def by (intro act_quiet)
qed

section \<open>Chunk answers\<close>

text \<open>
  Each awaited key has been pushed, to the peer of its archive, and an acknowledged result has an
  acknowledgement of that peer among the events.
\<close>

definition answers :: "hash \<Rightarrow> sum_net_event list \<Rightarrow> peer_map \<Rightarrow> push_key set \<Rightarrow> (u32 \<times> addr20) set \<Rightarrow> repush_state \<Rightarrow> bool" where
  "answers rt evs peers K T st \<longleftrightarrow>
     (\<forall>k \<in> rp_awaiting st. k \<in> K \<and> (\<exists>a. rp_by_key st k = Some a \<and> resolve peers a = Some (snd k)))
   \<and> (\<forall>i a. rp_results st (i, a) = Some Acknowledged \<longrightarrow>
        (\<exists>p. resolve peers a = Some p \<and> (i, p) \<in> K \<and> ShardReceivedV2 p (PushAck rt i None) \<in> set evs))
   \<and> T \<subseteq> dom (rp_results st)"

definition wave_keys :: "peer_map \<Rightarrow> (u32 \<times> addr20) list \<Rightarrow> push_key set" where
  "wave_keys peers ts = {(i, p). \<exists>a. (i, a) \<in> set ts \<and> resolve peers a = Some p}"

lemma wave_keys_simps:
  "wave_keys peers [] = {}"
  "wave_keys peers ((i, a) # ts) = (case resolve peers a of None \<Rightarrow> wave_keys peers ts | Some p \<Rightarrow> insert (i, p) (wave_keys peers ts))"
  by (auto simp: wave_keys_def split: option.split)

lemma answers_mono: "answers rt evs peers K T st \<Longrightarrow> K \<subseteq> K' \<Longrightarrow> answers rt evs peers K' T st"
  unfolding answers_def by (meson subsetD)

lemma repush_wave_ensures:
  assumes "prepared (xl_digest (ie_libs E)) (rf_manifest f) (rf_mapped f) (rf_tree f)"
    and "wave_keys peers ts \<subseteq> valid_keys (rf_manifest f)" and "answers rt evs peers K T st"
  shows "ensures (pushing (xl_digest (ie_libs E)) (rf_manifest f) evs ps peers K) (repush_wave E f peers ts st :: (ingest_world, 'e, _) act)
    (\<lambda>st' w. pushing (xl_digest (ie_libs E)) (rf_manifest f) evs ps peers (K \<union> wave_keys peers ts) w
       \<and> answers rt evs peers (K \<union> wave_keys peers ts) T st') (\<lambda>_ _. False)"
  using assms(2,3)
proof (induction ts arbitrary: K st)
  case Nil
  then show ?case by (auto simp: wave_keys_simps intro: ensures_ret)
next
  case (Cons t ts)
  let ?L = "xl_digest (ie_libs E)" and ?m = "rf_manifest f"
  obtain i a where t: "t = (i, a)" by (cases t)
  show ?case
  proof (cases "resolve peers a")
    case None
    then show ?thesis using Cons by (simp add: t wave_keys_simps)
  next
    case (Some p)
    have k: "(i, p) \<in> valid_keys ?m" "wave_keys peers ts \<subseteq> valid_keys ?m" using Cons.prems(1) Some by (auto simp: t wave_keys_simps)
    have send: "ensures (pushing ?L ?m evs ps peers K) (attempt (send_one_push E ?m (rf_mapped f) (rf_tree f) i p) :: (ingest_world, 'e, _) act)
        (\<lambda>_. pushing ?L ?m evs ps peers (insert (i, p) K)) (\<lambda>_ _. False)"
      using pushing_one[OF assms(1) k(1), of evs ps peers K] by (intro ensures_attempt) simp
    have next_st: "answers rt evs peers (insert (i, p) K) T (case r of
          Inr _ \<Rightarrow> st\<lparr>rp_results := (rp_results st)((i, a) \<mapsto> NoAnswer), rp_by_key := (rp_by_key st)((i, p) \<mapsto> a),
             rp_attempts := (rp_attempts st)((i, p) \<mapsto> 1), rp_awaiting := insert (i, p) (rp_awaiting st)\<rparr>
        | Inl _ \<Rightarrow> st\<lparr>rp_results := (rp_results st)((i, a) \<mapsto> NoAnswer), rp_by_key := (rp_by_key st)((i, p) \<mapsto> a)\<rparr>)" for r :: "string + unit"
      using answers_mono[OF Cons.prems(2) subset_insertI[of K "(i, p)"]] Some by (cases r) (auto simp: answers_def)
    show ?thesis unfolding t repush_wave.simps Some option.case Let_def
      using ensures_bind[OF send Cons.IH[OF k(2) next_st]] by (simp add: wave_keys_simps Some cong: sum.case_cong)
  qed
qed

lemma repush_event_ensures:
  assumes "prepared (xl_digest (ie_libs E)) (rf_manifest f) (rf_mapped f) (rf_tree f)" and "K \<subseteq> valid_keys (rf_manifest f)"
    and "answers rt evs peers K T st" and "ev \<in> set evs"
  shows "ensures (pushing (xl_digest (ie_libs E)) (rf_manifest f) evs ps peers K) (on_repush_event E f rt ev st :: (ingest_world, 'e, _) act)
    (\<lambda>st' w. pushing (xl_digest (ie_libs E)) (rf_manifest f) evs ps peers K w \<and> answers rt evs peers K T st') (\<lambda>_ _. False)"
    (is "ensures ?P _ ?Q _")
proof -
  have same: "answers rt evs peers K T st' \<Longrightarrow> ensures ?P (ret st' :: (ingest_world, 'e, _) act) ?Q (\<lambda>_ _. False)" for st'
    by (auto intro: ensures_ret)
  show ?thesis
  proof (cases "\<exists>peer i err. ev = ShardReceivedV2 peer (PushAck rt i err) \<and> (i, peer) \<in> rp_awaiting st")
    case False
    then have "on_repush_event E f rt ev st = (ret st :: (ingest_world, 'e, _) act)"
      by (auto simp: on_repush_event_def Let_def split: sum_net_event.splits shard_response_v2.splits)
    then show ?thesis using same assms(3) by simp
  next
    case True
    then obtain p i err where ev: "ev = ShardReceivedV2 p (PushAck rt i err)" and aw: "(i, p) \<in> rp_awaiting st" by blast
    then obtain a where a: "rp_by_key st (i, p) = Some a" "resolve peers a = Some p" and k: "(i, p) \<in> K"
      using assms(3) unfolding answers_def by fastforce
    show ?thesis
    proof (cases err)
      case None
      have "answers rt evs peers K T (st\<lparr>rp_results := (rp_results st)((i, a) \<mapsto> Acknowledged), rp_awaiting := rp_awaiting st - {(i, p)}\<rparr>)"
        using assms(3,4) a k ev None by (auto simp: answers_def)
      from same[OF this] show ?thesis by (simp add: on_repush_event_def ev aw a None)
    next
      case (Some e)
      let ?at = "\<lambda>n. st\<lparr>rp_attempts := (rp_attempts st)((i, p) \<mapsto> n)\<rparr>"
      have keep: "answers rt evs peers K T (?at n)" "answers rt evs peers K T (refuse_push (i, p) a e (?at n))" for n
        using assms(3) by (auto simp: answers_def refuse_push_def)
      have send: "ensures ?P (attempt (send_one_push E (rf_manifest f) (rf_mapped f) (rf_tree f) i p) :: (ingest_world, 'e, _) act)
          (\<lambda>_. ?P) (\<lambda>_ _. False)"
        using pushing_one[OF assms(1), of "(i, p)" evs ps peers K] k assms(2) by (intro ensures_attempt) (auto simp: insert_absorb)
      have "ensures ?P (bind_act (attempt (send_one_push E (rf_manifest f) (rf_mapped f) (rf_tree f) i p)) (\<lambda>r.
            case r of Inr _ \<Rightarrow> ret (?at (Suc n)) | Inl _ \<Rightarrow> ret (refuse_push (i, p) a e (?at n))) :: (ingest_world, 'e, _) act) ?Q (\<lambda>_ _. False)" for n
        by (rule ensures_bind[OF send]) (auto intro: same keep split: sum.split)
      then show ?thesis using same[OF keep(2)] by (simp add: on_repush_event_def ev aw a Some Let_def)
    qed
  qed
qed

text \<open>The two event loops have one shape: a stage keeps an invariant of its table and of the world at every event.\<close>

lemma next_event_ensures:
  "ensures (pushing L m evs ps peers K) (next_event :: (ingest_world, 'e, _) act)
     (\<lambda>event w. pushing L m evs ps peers K w \<and> (\<forall>ev. event = Some ev \<longrightarrow> ev \<in> set evs)) R"
  by (auto simp: ensures_def next_event_def pushing_def split: list.split)

lemma event_step:
  assumes "I st" and "\<And>ev. ev \<in> set evs \<Longrightarrow> ensures (pushing L m evs ps peers K) (g ev) (\<lambda>st' w. pushing L m evs ps peers K w \<and> I st') R"
    and "\<And>st'. I st' \<Longrightarrow> ensures (pushing L m evs ps peers K) (h st') (\<lambda>st' w. pushing L m evs ps peers K w \<and> I st') R"
  shows "ensures (pushing L m evs ps peers K)
    (bind_act next_event (\<lambda>event. case event of None \<Rightarrow> ret st | Some ev \<Rightarrow> bind_act (g ev) h))
    (\<lambda>st' w. pushing L m evs ps peers K w \<and> I st') R"
proof (rule ensures_bind[OF next_event_ensures])
  fix event :: "sum_net_event option"
  have h: "ensures (\<lambda>w. pushing L m evs ps peers K w \<and> I st') (h st') (\<lambda>st' w. pushing L m evs ps peers K w \<and> I st') R" for st'
    using assms(3)[of st'] by (auto simp: ensures_def)
  show "ensures (\<lambda>w. pushing L m evs ps peers K w \<and> (\<forall>ev. event = Some ev \<longrightarrow> ev \<in> set evs))
      (case event of None \<Rightarrow> ret st | Some ev \<Rightarrow> bind_act (g ev) h) (\<lambda>st' w. pushing L m evs ps peers K w \<and> I st') R"
  proof (cases event)
    case (Some ev)
    then show ?thesis using ensures_bind[OF assms(2) h, of ev] by (cases "ev \<in> set evs") (auto simp: ensures_def)
  qed (auto intro: ensures_ret assms(1))
qed

lemma repush_loop_ensures:
  assumes "prepared (xl_digest (ie_libs E)) (rf_manifest f) (rf_mapped f) (rf_tree f)" and "K \<subseteq> valid_keys (rf_manifest f)"
    and "answers rt evs peers K T st"
  shows "ensures (pushing (xl_digest (ie_libs E)) (rf_manifest f) evs ps peers K) (repush_loop E f rt turns st :: (ingest_world, 'e, _) act)
    (\<lambda>st' w. pushing (xl_digest (ie_libs E)) (rf_manifest f) evs ps peers K w \<and> answers rt evs peers K T st') (\<lambda>_ _. False)"
  using assms(3)
proof (induction turns arbitrary: st)
  case (Suc turns)
  have "ensures (pushing (xl_digest (ie_libs E)) (rf_manifest f) evs ps peers K)
    (bind_act next_event (\<lambda>event. case event of None \<Rightarrow> ret st | Some ev \<Rightarrow> bind_act (on_repush_event E f rt ev st) (repush_loop E f rt turns))
      :: (ingest_world, 'e, _) act)
    (\<lambda>st' w. pushing (xl_digest (ie_libs E)) (rf_manifest f) evs ps peers K w \<and> answers rt evs peers K T st') (\<lambda>_ _. False)"
    by (intro event_step repush_event_ensures[OF assms(1,2)] Suc)
  then show ?case using Suc.prems by (auto intro: ensures_ret)
qed (auto intro: ensures_ret)

text \<open>The results of the chunk pushes.\<close>

definition chunk_acks :: "hash \<Rightarrow> sum_net_event list \<Rightarrow> peer_map \<Rightarrow> push_key set \<Rightarrow> (u32 \<times> addr20 \<Rightarrow> repush_result option) \<Rightarrow> bool" where
  "chunk_acks rt evs peers K res \<longleftrightarrow>
     (\<forall>i a. res (i, a) = Some Acknowledged \<longrightarrow>
        (\<exists>p. resolve peers a = Some p \<and> (i, p) \<in> K \<and> ShardReceivedV2 p (PushAck rt i None) \<in> set evs))"

lemma repush_chunks_ensures:
  assumes "prepared (xl_digest (ie_libs E)) (rf_manifest f) (rf_mapped f) (rf_tree f)"
    and "\<forall>(i, a) \<in> set ts. unat i < unat (chunk_count (rf_manifest f))"
  shows "ensures (\<lambda>w. pushing (xl_digest (ie_libs E)) (rf_manifest f) evs ps (iw_peers w) {} w)
    (repush_chunks E f rt ts :: (ingest_world, 'e, _) act)
    (\<lambda>res w. pushing (xl_digest (ie_libs E)) (rf_manifest f) evs ps (iw_peers w) (wave_keys (iw_peers w) ts) w
       \<and> chunk_acks rt evs (iw_peers w) (wave_keys (iw_peers w) ts) res \<and> set ts \<subseteq> dom res) (\<lambda>_ _. False)"
proof -
  let ?L = "xl_digest (ie_libs E)" and ?m = "rf_manifest f"
  let ?st = "\<lparr>rp_results = (\<lambda>k. if k \<in> set ts then Some Unreachable else None), rp_by_key = Map.empty, rp_attempts = Map.empty, rp_awaiting = {}\<rparr>"
  have v: "wave_keys peers ts \<subseteq> valid_keys ?m" for peers using assms(2) by (auto simp: wave_keys_def valid_keys_def)
  have start: "answers rt evs peers {} (set ts) ?st" for peers by (auto simp: answers_def)
  have final: "ensures (\<lambda>w. pushing ?L ?m evs ps peers (wave_keys peers ts) w \<and> answers rt evs peers (wave_keys peers ts) (set ts) st)
      (ret (rp_results st) :: (ingest_world, 'e, _) act)
      (\<lambda>res w. pushing ?L ?m evs ps (iw_peers w) (wave_keys (iw_peers w) ts) w
       \<and> chunk_acks rt evs (iw_peers w) (wave_keys (iw_peers w) ts) res \<and> set ts \<subseteq> dom res) (\<lambda>_ _. False)" for peers st
    by (rule ensures_ret) (auto simp: pushing_def answers_def chunk_acks_def)
  have looped: "ensures (\<lambda>w. pushing ?L ?m evs ps peers (wave_keys peers ts) w \<and> answers rt evs peers (wave_keys peers ts) (set ts) st)
      (bind_act (wait_turns E) (\<lambda>turns. bind_act (repush_loop E f rt turns st) (\<lambda>st'. ret (rp_results st'))) :: (ingest_world, 'e, _) act)
      (\<lambda>res w. pushing ?L ?m evs ps (iw_peers w) (wave_keys (iw_peers w) ts) w
       \<and> chunk_acks rt evs (iw_peers w) (wave_keys (iw_peers w) ts) res \<and> set ts \<subseteq> dom res) (\<lambda>_ _. False)" for peers st
    using ensures_bind[OF ensures_wait_turns ensures_bind[OF repush_loop_ensures[OF assms(1) v] final]]
    by (cases "answers rt evs peers (wave_keys peers ts) (set ts) st") (auto simp: ensures_def)
  have "ensures (pushing ?L ?m evs ps peers {}) (bind_act (repush_wave E f peers ts ?st) (\<lambda>st.
      bind_act (wait_turns E) (\<lambda>turns. bind_act (repush_loop E f rt turns st) (\<lambda>st'. ret (rp_results st')))) :: (ingest_world, 'e, _) act)
      (\<lambda>res w. pushing ?L ?m evs ps (iw_peers w) (wave_keys (iw_peers w) ts) w
       \<and> chunk_acks rt evs (iw_peers w) (wave_keys (iw_peers w) ts) res \<and> set ts \<subseteq> dom res) (\<lambda>_ _. False)" for peers
    by (rule ensures_bind[OF _ looped]) (use repush_wave_ensures[OF assms(1) v start, of ps peers] in simp)
  then show ?thesis unfolding repush_chunks_def
    by (intro ensures_bind[where Q' = "\<lambda>peers. pushing ?L ?m evs ps peers {}"]) (auto simp: ensures_def gets_def)
qed

section \<open>Manifest answers\<close>

definition manifest_acks_in :: "hash \<Rightarrow> sum_net_event list \<Rightarrow> peer_map \<Rightarrow> (addr20 \<Rightarrow> repush_result option) \<Rightarrow> bool" where
  "manifest_acks_in rt evs peers res \<longleftrightarrow>
     (\<forall>a. res a = Some Acknowledged \<longrightarrow> (\<exists>p. resolve peers a = Some p \<and> ShardReceivedV2 p (ManifestPushAck rt None) \<in> set evs))"

definition manifest_answers :: "hash \<Rightarrow> sum_net_event list \<Rightarrow> peer_map \<Rightarrow> addr20 set \<Rightarrow> manifest_state \<Rightarrow> bool" where
  "manifest_answers rt evs peers T st \<longleftrightarrow>
     (\<forall>p a. rm_by_peer st p = Some a \<longrightarrow> resolve peers a = Some p) \<and> manifest_acks_in rt evs peers (rm_results st) \<and> T \<subseteq> dom (rm_results st)"

lemma push_manifest_ensures:
  "ensures (pushing L m evs ps peers K) (attempt (push_manifest_v2 E p rt b)) (\<lambda>_. pushing L m evs ps peers K) R"
  by (auto simp: ensures_def attempt_def push_manifest_v2_def pushing_def)

lemma remanifest_wave_ensures:
  assumes "manifest_answers rt evs peers T st"
  shows "ensures (pushing L m evs ps peers K) (remanifest_wave E rt b peers as st :: (ingest_world, 'e, _) act)
    (\<lambda>st' w. pushing L m evs ps peers K w \<and> manifest_answers rt evs peers T st') (\<lambda>_ _. False)"
  using assms
proof (induction as arbitrary: st)
  case (Cons a as)
  show ?case
  proof (cases "resolve peers a")
    case (Some p)
    have "manifest_answers rt evs peers T (case r of
        Inr _ \<Rightarrow> st\<lparr>rm_results := (rm_results st)(a \<mapsto> NoAnswer), rm_by_peer := (rm_by_peer st)(p \<mapsto> a), rm_attempts := (rm_attempts st)(p \<mapsto> 1)\<rparr>
      | Inl _ \<Rightarrow> st\<lparr>rm_results := (rm_results st)(a \<mapsto> NoAnswer)\<rparr>)" for r :: "string + unit"
      using Cons.prems Some by (cases r) (auto simp: manifest_answers_def manifest_acks_in_def)
    from ensures_bind[OF push_manifest_ensures Cons.IH[OF this]] show ?thesis
      by (simp add: Some Let_def cong: sum.case_cong)
  qed (use Cons in simp)
qed (auto intro: ensures_ret)

lemma manifest_event_ensures:
  assumes "manifest_answers rt evs peers T st" and "ev \<in> set evs"
  shows "ensures (pushing L m evs ps peers K) (on_manifest_event E rt b ev st :: (ingest_world, 'e, _) act)
    (\<lambda>st' w. pushing L m evs ps peers K w \<and> manifest_answers rt evs peers T st') (\<lambda>_ _. False)" (is "ensures ?P _ ?Q _")
proof -
  have same: "manifest_answers rt evs peers T st' \<Longrightarrow> ensures ?P (ret st' :: (ingest_world, 'e, _) act) ?Q (\<lambda>_ _. False)" for st'
    by (auto intro: ensures_ret)
  show ?thesis
  proof (cases "\<exists>p err a. ev = ShardReceivedV2 p (ManifestPushAck rt err) \<and> rm_by_peer st p = Some a")
    case False
    then have "on_manifest_event E rt b ev st = (ret st :: (ingest_world, 'e, _) act)"
      by (auto simp: on_manifest_event_def split: sum_net_event.splits shard_response_v2.splits option.splits)
    then show ?thesis using same assms(1) by simp
  next
    case True
    then obtain p err a where ev: "ev = ShardReceivedV2 p (ManifestPushAck rt err)" and a: "rm_by_peer st p = Some a" by blast
    then have r: "resolve peers a = Some p" using assms(1) by (simp add: manifest_answers_def)
    show ?thesis
    proof (cases err)
      case None
      have "manifest_answers rt evs peers T (st\<lparr>rm_results := (rm_results st)(a \<mapsto> Acknowledged), rm_by_peer := (rm_by_peer st)(p := None)\<rparr>)"
        using assms r ev None by (auto simp: manifest_answers_def manifest_acks_in_def)
      from same[OF this] show ?thesis by (simp add: on_manifest_event_def ev a None)
    next
      case (Some e)
      let ?at = "\<lambda>n. st\<lparr>rm_attempts := (rm_attempts st)(p \<mapsto> n)\<rparr>"
      have keep: "manifest_answers rt evs peers T (?at n)" "manifest_answers rt evs peers T (refuse_manifest p a e (?at n))" for n
        using assms(1) by (auto simp: manifest_answers_def manifest_acks_in_def refuse_manifest_def)
      have "ensures ?P (bind_act (attempt (push_manifest_v2 E p rt b)) (\<lambda>r.
            case r of Inr _ \<Rightarrow> ret (?at (Suc n)) | Inl _ \<Rightarrow> ret (refuse_manifest p a e (?at n))) :: (ingest_world, 'e, _) act) ?Q (\<lambda>_ _. False)" for n
        by (rule ensures_bind[OF push_manifest_ensures]) (auto intro: same keep split: sum.split)
      then show ?thesis using same[OF keep(2)] by (simp add: on_manifest_event_def ev a Some Let_def)
    qed
  qed
qed

lemma remanifest_loop_ensures:
  assumes "manifest_answers rt evs peers T st"
  shows "ensures (pushing L m evs ps peers K) (remanifest_loop E rt b turns st :: (ingest_world, 'e, _) act)
    (\<lambda>st' w. pushing L m evs ps peers K w \<and> manifest_answers rt evs peers T st') (\<lambda>_ _. False)"
  using assms
proof (induction turns arbitrary: st)
  case (Suc turns)
  have "ensures (pushing L m evs ps peers K)
    (bind_act next_event (\<lambda>event. case event of None \<Rightarrow> ret st | Some ev \<Rightarrow> bind_act (on_manifest_event E rt b ev st) (remanifest_loop E rt b turns))
      :: (ingest_world, 'e, _) act)
    (\<lambda>st' w. pushing L m evs ps peers K w \<and> manifest_answers rt evs peers T st') (\<lambda>_ _. False)"
    by (intro event_step manifest_event_ensures Suc)
  then show ?case using Suc.prems by (auto intro: ensures_ret)
qed (auto intro: ensures_ret)

lemma repush_manifests_ensures:
  "ensures (pushing L m evs ps peers K) (repush_manifests E rt b archives :: (ingest_world, 'e, _) act)
     (\<lambda>res w. pushing L m evs ps peers K w \<and> manifest_acks_in rt evs peers res \<and> archives \<subseteq> dom res) (\<lambda>_ _. False)" (is "ensures ?P _ ?Q ?R")
proof -
  let ?st = "\<lparr>rm_results = (\<lambda>a. if a \<in> archives then Some Unreachable else None), rm_by_peer = Map.empty, rm_attempts = Map.empty\<rparr>"
  have start: "manifest_answers rt evs peers archives ?st" by (auto simp: manifest_answers_def manifest_acks_in_def)
  have final: "ensures (\<lambda>w. ?P w \<and> manifest_answers rt evs peers archives st) (ret (rm_results st) :: (ingest_world, 'e, _) act) ?Q ?R" for st
    by (rule ensures_ret) (auto simp: manifest_answers_def)
  have looped: "ensures (\<lambda>w. ?P w \<and> manifest_answers rt evs peers archives st)
      (bind_act (wait_turns E) (\<lambda>turns. bind_act (remanifest_loop E rt b turns st) (\<lambda>st'. ret (rm_results st'))) :: (ingest_world, 'e, _) act) ?Q ?R" for st
    using ensures_bind[OF ensures_wait_turns ensures_bind[OF remanifest_loop_ensures final]]
    by (cases "manifest_answers rt evs peers archives st") (auto simp: ensures_def)
  have "ensures ?P (bind_act (remanifest_wave E rt b peers (sorted_list_of_set archives) ?st) (\<lambda>st.
      bind_act (wait_turns E) (\<lambda>turns. bind_act (remanifest_loop E rt b turns st) (\<lambda>st'. ret (rm_results st')))) :: (ingest_world, 'e, _) act) ?Q ?R"
    by (rule ensures_bind[OF remanifest_wave_ensures[OF start] looped])
  then show ?thesis unfolding repush_manifests_def
    by (auto simp: ensures_def gets_def pushing_def bind_act_def[of "gets _"])
qed

section \<open>The command\<close>

lemma targets_read:
  assumes "latest_assignment_targets E info rt w = Some (Inr (epoch, ts), w')"
  shows "\<exists>cov raw snapshot. cr_coverage (ie_rpc E) (cw_calls w) (''0x'' @ hex_encode rt) None (Some 0) = Inr (Some cov)
     \<and> epoch_from_coverage cov (fi_assignment_height info) = Inr epoch
     \<and> cr_active_nodes (ie_rpc E) (Suc (cw_calls w)) epoch = Inr raw \<and> eligible_archive_addresses (ie_libs E) raw = Inr snapshot
     \<and> ts = concat (map (\<lambda>i. map (Pair i) (assigned_to E rt snapshot i)) (index_list (fi_chunk_count info)))
     \<and> w' = w\<lparr>cw_calls := Suc (Suc (cw_calls w))\<rparr>"
  using assms unfolding latest_assignment_targets_def
  by (auto simp: bind_act_Some map_err_eq call_def lift_def require_def ret_def fail_def split: option.splits if_splits)

lemma targets_iff:
  "(i, a) \<in> set (concat (map (\<lambda>i. map (Pair i) (assigned_to E rt snapshot i)) (index_list n))) \<longleftrightarrow>
     unat i < unat n \<and> a \<in> set (assigned_to E rt snapshot i)"
  by (auto simp: index_list_set)

lemma calm_targets [act_calm]: "calm (latest_assignment_targets E info rt)"
  unfolding latest_assignment_targets_def by (intro act_calm)

text \<open>
  A file is held again: for the snapshot of the epoch the chain reported, every archive a chunk is assigned to has a peer
  that was pushed the chunk with a valid proof and acknowledged it and the manifest; and the run's last read of
  the coverage reported the same epoch.
\<close>

definition reheld_at :: "ingest_env \<Rightarrow> storage_file_info_v2 \<Rightarrow> data_manifest \<Rightarrow> sum_net_event list \<Rightarrow> ingest_world \<Rightarrow> bool" where
  "reheld_at E info m evs w \<longleftrightarrow>
     (\<exists>n epoch raw snapshot cov. cr_active_nodes (ie_rpc E) n epoch = Inr raw \<and> eligible_archive_addresses (ie_libs E) raw = Inr snapshot
       \<and> (\<forall>i a. unat i < unat (chunk_count m) \<and> a \<in> set (assigned_to E (merkle_root m) snapshot i) \<longrightarrow>
           (\<exists>p. resolve (iw_peers w) a = Some p
              \<and> (\<exists>c \<in> set (iw_pushes w). cp_peer c = p \<and> cp_index c = i \<and> push_ok (xl_digest (ie_libs E)) m c)
              \<and> ShardReceivedV2 p (PushAck (merkle_root m) i None) \<in> set evs
              \<and> ShardReceivedV2 p (ManifestPushAck (merkle_root m) None) \<in> set evs))
       \<and> cr_coverage (ie_rpc E) (cw_calls w - 2) (''0x'' @ hex_encode (merkle_root m)) None (Some 0) = Inr (Some cov)
       \<and> epoch_from_coverage cov (fi_assignment_height info) = Inr epoch)"

definition pushed_for :: "ingest_env \<Rightarrow> data_manifest \<Rightarrow> sum_net_event list \<Rightarrow> chunk_push list \<Rightarrow> (u32 \<times> addr20) list
    \<Rightarrow> (u32 \<times> addr20 \<Rightarrow> repush_result option) \<Rightarrow> (addr20 \<Rightarrow> repush_result option) \<Rightarrow> ingest_world \<Rightarrow> bool" where
  "pushed_for E m evs ps ts res man w \<longleftrightarrow>
     pushing (xl_digest (ie_libs E)) m evs ps (iw_peers w) (wave_keys (iw_peers w) ts) w
   \<and> chunk_acks (merkle_root m) evs (iw_peers w) (wave_keys (iw_peers w) ts) res \<and> set ts \<subseteq> dom res
   \<and> manifest_acks_in (merkle_root m) evs (iw_peers w) man \<and> snd ` set ts \<subseteq> dom man"

lemma pushed_for_stable: "stable (pushed_for E m evs ps ts res man)"
  unfolding stable_def pushed_for_def pushing_def by auto

lemma pushes_of_file:
  assumes "prepared (xl_digest (ie_libs E)) (rf_manifest f) (rf_mapped f) (rf_tree f)" and "merkle_root (rf_manifest f) = rt"
    and "\<forall>(i, a) \<in> set ts. unat i < unat (chunk_count (rf_manifest f))"
    and "\<And>res man. ensures (pushed_for E (rf_manifest f) evs ps ts res man) (k res man) Q R"
  shows "ensures (\<lambda>w. pushing (xl_digest (ie_libs E)) (rf_manifest f) evs ps (iw_peers w) {} w)
    (bind_act (attempt (await_archives E required)) (\<lambda>_. bind_act (repush_chunks E f rt ts) (\<lambda>res.
       bind_act (repush_manifests E rt b (snd ` set ts)) (k res)))) Q R"
proof -
  let ?L = "xl_digest (ie_libs E)" and ?m = "rf_manifest f"
  let ?C = "\<lambda>res w. pushing ?L ?m evs ps (iw_peers w) (wave_keys (iw_peers w) ts) w
       \<and> chunk_acks rt evs (iw_peers w) (wave_keys (iw_peers w) ts) res \<and> set ts \<subseteq> dom res"
  have a: "ensures (\<lambda>w. pushing ?L ?m evs ps (iw_peers w) {} w) (attempt (await_archives E required))
      (\<lambda>_ w. pushing ?L ?m evs ps (iw_peers w) {} w) R"
    by (rule ensures_attempt) (use awaiting[of ?L ?m evs ps _ E required] in \<open>unfold ensures_def, blast\<close>)
  have c: "ensures (\<lambda>w. pushing ?L ?m evs ps (iw_peers w) {} w) (repush_chunks E f rt ts) ?C R"
    by (rule ensures_weaken[OF repush_chunks_ensures[OF assms(1,3)]]) auto
  have m: "ensures (?C res) (repush_manifests E rt b (snd ` set ts)) (\<lambda>man. pushed_for E ?m evs ps ts res man) R" for res
  proof (rule ensures_fix_world)
    fix w0 assume w0: "?C res w0"
    show "ensures (\<lambda>w. w = w0) (repush_manifests E rt b (snd ` set ts)) (\<lambda>man. pushed_for E ?m evs ps ts res man) R"
      by (rule ensures_weaken[OF repush_manifests_ensures[where L = ?L and m = ?m and evs = evs and ps = ps and peers = "iw_peers w0"
            and K = "wave_keys (iw_peers w0) ts"]]) (use w0 assms(2) in \<open>auto simp: pushed_for_def pushing_def\<close>)
  qed
  show ?thesis by (rule ensures_bind[OF a ensures_bind[OF c ensures_bind[OF m assms(4)]]])
qed

definition repush_result_ok :: "ingest_env \<Rightarrow> hash \<Rightarrow> chunk_push list \<Rightarrow> sum_net_event list \<Rightarrow> repush_outcome \<Rightarrow> ingest_world \<Rightarrow> bool" where
  "repush_result_ok E rt ps evs out w \<longleftrightarrow>
     (\<exists>new m. iw_pushes w = ps @ new \<and> (\<forall>c \<in> set new. merkle_root m = rt \<and> push_ok (xl_digest (ie_libs E)) m c))
   \<and> (repush_exit_code out = COMPLETE \<longrightarrow>
        (\<exists>n info m. cr_file_info (ie_rpc E) n (''0x'' @ hex_encode rt) None None = Inr (Some info)
           \<and> fi_owner info = my_addr_base58 E \<and> \<not> is_abandoned (fi_lifecycle info)
           \<and> merkle_root m = rt \<and> chunk_count m = fi_chunk_count info \<and> total_size_bytes m = fi_plaintext_size_bytes info
           \<and> reheld_at E info m evs w))"

lemma acknowledged_is_held:
  assumes "pushed_for E m evs ps ts res man w" and "\<forall>k \<in> set ts. res k = Some Acknowledged"
    and "\<forall>v \<in> ran man. v = Acknowledged" and "(i, a) \<in> set ts"
  shows "\<exists>p. resolve (iw_peers w) a = Some p
     \<and> (\<exists>c \<in> set (iw_pushes w). cp_peer c = p \<and> cp_index c = i \<and> push_ok (xl_digest (ie_libs E)) m c)
     \<and> ShardReceivedV2 p (PushAck (merkle_root m) i None) \<in> set evs
     \<and> ShardReceivedV2 p (ManifestPushAck (merkle_root m) None) \<in> set evs"
proof -
  note w = assms(1)[unfolded pushed_for_def]
  obtain p where p: "resolve (iw_peers w) a = Some p" "(i, p) \<in> wave_keys (iw_peers w) ts" "ShardReceivedV2 p (PushAck (merkle_root m) i None) \<in> set evs"
    using w assms(2,4) unfolding chunk_acks_def by metis
  have "\<exists>c \<in> set (iw_pushes w). cp_peer c = p \<and> cp_index c = i \<and> push_ok (xl_digest (ie_libs E)) m c"
    using conjunct1[OF w] p(2) unfolding pushing_def by force
  moreover have "a \<in> dom man" using w assms(4) by force
  then have "man a = Some Acknowledged" using assms(3) by (auto simp: ran_def)
  then have "ShardReceivedV2 p (ManifestPushAck (merkle_root m) None) \<in> set evs"
    using w p(1) unfolding manifest_acks_in_def by fastforce
  ultimately show ?thesis using p by blast
qed

lemma report_complete:
  assumes "repush_exit_code (RepushDone \<lparr>rpr_merkle_root = rt, rpr_epoch = epoch, rpr_active = act,
      rpr_targets = map (\<lambda>x. \<lparr>rpt_chunk_index = fst x, rpt_archive = snd x, rpt_result = the (res (fst x, snd x))\<rparr>) ts,
      rpr_manifests = man, rpr_epoch_check = epoch_check_of epoch res again\<rparr>) = COMPLETE" and "set ts \<subseteq> dom res"
  shows "\<forall>k \<in> set ts. res k = Some Acknowledged" "\<forall>v \<in> ran man. v = Acknowledged" "\<exists>ts'. again = Inr (epoch, ts')"
proof -
  have c: "\<forall>(i, a) \<in> set ts. the (res (i, a)) = Acknowledged" "\<forall>v \<in> ran man. v = Acknowledged" "epoch_check_of epoch res again = EpochUnchanged"
    using assms(1) by (auto simp: repush_exit_code_def complete_def COMPLETE_def INCOMPLETE_def ERROR_def split: if_splits epoch_check.splits)
  show "\<forall>k \<in> set ts. res k = Some Acknowledged" using c(1) assms(2) by fastforce
  show "\<forall>v \<in> ran man. v = Acknowledged" by (rule c(2))
  show "\<exists>ts'. again = Inr (epoch, ts')" using c(3) by (auto simp: epoch_check_of_def split: sum.splits if_splits)
qed

lemma repush_file_ensures:
  assumes "prepared (xl_digest (ie_libs E)) (rf_manifest f) (rf_mapped f) (rf_tree f)" and "merkle_root (rf_manifest f) = rt"
    and "chunk_count (rf_manifest f) = fi_chunk_count info"
  shows "ensures (\<lambda>w. pushing (xl_digest (ie_libs E)) (rf_manifest f) evs ps (iw_peers w) {} w) (repush_file E info rt f)
    (\<lambda>out w. (\<exists>K. pushing (xl_digest (ie_libs E)) (rf_manifest f) evs ps (iw_peers w) K w)
       \<and> (repush_exit_code out = COMPLETE \<longrightarrow> reheld_at E info (rf_manifest f) evs w))
    (\<lambda>out w. (\<exists>K. pushing (xl_digest (ie_libs E)) (rf_manifest f) evs ps (iw_peers w) K w) \<and> repush_exit_code out \<noteq> COMPLETE)"
    (is "ensures ?P _ ?Q ?R")
  unfolding repush_file_def Let_def case_prod_beta
proof (rule calm_then[OF calm_targets stable_simple(2)])
  fix r :: "u64 \<times> (u32 \<times> addr20) list"
  assume "yields (latest_assignment_targets E info rt) r"
  then obtain w0 w1 where "latest_assignment_targets E info rt w0 = Some (Inr (fst r, snd r), w1)" by (auto simp: yields_def)
  from targets_read[OF this] obtain n raw snapshot where snap: "cr_active_nodes (ie_rpc E) n (fst r) = Inr raw" "eligible_archive_addresses (ie_libs E) raw = Inr snapshot"
      and ts: "snd r = concat (map (\<lambda>i. map (Pair i) (assigned_to E rt snapshot i)) (index_list (fi_chunk_count info)))" by blast
  have snap3: "(i, a) \<in> set (snd r) \<longleftrightarrow> unat i < unat (chunk_count (rf_manifest f)) \<and> a \<in> set (assigned_to E rt snapshot i)" for i a
    unfolding assms(3) ts by (rule targets_iff)
  have last_step: "ensures (pushed_for E (rf_manifest f) evs ps (snd r) res man)
      (bind_act (attempt (latest_assignment_targets E info rt)) (\<lambda>again.
         if \<exists>k \<in> set (snd r). res k = None then (\<lambda>_. None)
         else ret (RepushDone \<lparr>rpr_merkle_root = rt, rpr_epoch = fst r, rpr_active = is_active_file (fi_lifecycle info),
              rpr_targets = map (\<lambda>x. \<lparr>rpt_chunk_index = fst x, rpt_archive = snd x, rpt_result = the (res (fst x, snd x))\<rparr>) (snd r),
              rpr_manifests = man, rpr_epoch_check = epoch_check_of (fst r) res again\<rparr>))) ?Q ?R" (is "ensures _ (bind_act _ ?f) _ _") for res man
  proof (rule ensuresI)
    fix w assume w: "pushed_for E (rf_manifest f) evs ps (snd r) res man w"
    obtain again w' where l: "latest_assignment_targets E info rt w = Some (again, w')" "pushed_for E (rf_manifest f) evs ps (snd r) res man w'"
      using calm_targets[of E info rt] pushed_for_stable w unfolding calm_def stable_def by meson
    let ?out = "RepushDone \<lparr>rpr_merkle_root = rt, rpr_epoch = fst r, rpr_active = is_active_file (fi_lifecycle info),
              rpr_targets = map (\<lambda>x. \<lparr>rpt_chunk_index = fst x, rpt_archive = snd x, rpt_result = the (res (fst x, snd x))\<rparr>) (snd r),
              rpr_manifests = man, rpr_epoch_check = epoch_check_of (fst r) res again\<rparr>"
    have dom: "set (snd r) \<subseteq> dom res" using l(2) by (simp add: pushed_for_def)
    have "reheld_at E info (rf_manifest f) evs w'" if c: "repush_exit_code ?out = COMPLETE"
    proof -
      note all = report_complete[OF c dom]
      from all(3) obtain ts' where "again = Inr (fst r, ts')" by blast
      from targets_read[OF l(1)[unfolded this]] obtain cov where cov:
          "cr_coverage (ie_rpc E) (cw_calls w' - 2) (''0x'' @ hex_encode rt) None (Some 0) = Inr (Some cov)"
          "epoch_from_coverage cov (fi_assignment_height info) = Inr (fst r)" by auto
      show ?thesis unfolding reheld_at_def assms(2)
        using snap snap3 cov acknowledged_is_held[OF l(2) all(1,2), unfolded assms(2)]
        by (intro exI[of _ n] exI[of _ "fst r"] exI[of _ raw] exI[of _ snapshot] exI[of _ cov]) blast
    qed
    moreover have "\<exists>K. pushing (xl_digest (ie_libs E)) (rf_manifest f) evs ps (iw_peers w') K w'" using l(2) unfolding pushed_for_def by blast
    moreover have "bind_act (attempt (latest_assignment_targets E info rt)) ?f w = Some (Inr ?out, w')"
      using l(1) dom by (auto simp: bind_act_Some attempt_eq ret_def)
    ultimately show "(\<exists>e w'. bind_act (attempt (latest_assignment_targets E info rt)) ?f w = Some (Inl e, w') \<and> ?R e w')
      \<or> (\<exists>a w'. bind_act (attempt (latest_assignment_targets E info rt)) ?f w = Some (Inr a, w') \<and> ?Q a w')" by blast
  qed
  show "ensures ?P (bind_act (attempt (await_archives E (snd ` set (snd r)))) (\<lambda>_. bind_act (repush_chunks E f rt (snd r)) (\<lambda>res.
      bind_act (repush_manifests E rt (rf_manifest_bytes f) (snd ` set (snd r))) (\<lambda>man.
      bind_act (attempt (latest_assignment_targets E info rt)) (\<lambda>again.
         if \<exists>k \<in> set (snd r). res k = None then (\<lambda>_. None)
         else ret (RepushDone \<lparr>rpr_merkle_root = rt, rpr_epoch = fst r, rpr_active = is_active_file (fi_lifecycle info),
              rpr_targets = map (\<lambda>x. \<lparr>rpt_chunk_index = fst x, rpt_archive = snd x, rpt_result = the (res (fst x, snd x))\<rparr>) (snd r),
              rpr_manifests = man, rpr_epoch_check = epoch_check_of (fst r) res again\<rparr>)))))) ?Q ?R"
    by (rule pushes_of_file[OF assms(1,2) _ last_step]) (use snap3 in auto)
qed (auto simp: repush_exit_code_def COMPLETE_def ERROR_def)

lemma reproduced:
  assumes "crypto_ok (xl_crypto (ie_libs E))"
  shows "calm (reproduce_registered E info rt file)"
    and "yields (reproduce_registered E info rt file) f \<Longrightarrow>
      prepared (xl_digest (ie_libs E)) (rf_manifest f) (rf_mapped f) (rf_tree f) \<and> merkle_root (rf_manifest f) = rt"
proof -
  show "calm (reproduce_registered E info rt file)" unfolding reproduce_registered_def
    by (intro act_calm private_artifacts_cases(1) assms)
  assume y: "yields (reproduce_registered E info rt file) f"
  show "prepared (xl_digest (ie_libs E)) (rf_manifest f) (rf_mapped f) (rf_tree f) \<and> merkle_root (rf_manifest f) = rt"
  proof (cases "is_private (fi_visibility info)")
    case True
    then show ?thesis using y private_prepared[OF assms]
      by (auto simp: reproduce_registered_def yields_simple yields_partial elim!: yields_bindE)
  next
    case False
    have "prepared (xl_digest (ie_libs E)) (fst r) (fst (snd r)) (snd (snd r))" if "yields (s0_chunk E file :: (ingest_world, _, _) act) r" for r
      using that chunk_file_prepared by (cases "lf_bytes file") (auto simp: yields_def s0_chunk_def split: option.splits)
    then show ?thesis using y False
      by (fastforce simp: reproduce_registered_def yields_simple elim!: yields_bindE)
  qed
qed

lemma no_mismatch: "identity_mismatches info f = [] \<Longrightarrow> chunk_count (rf_manifest f) = fi_chunk_count info
    \<and> total_size_bytes (rf_manifest f) = fi_plaintext_size_bytes info \<and> rf_stored_size_bytes f = fi_stored_size_bytes info"
  by (auto simp: identity_mismatches_def Let_def word_unat_eq_iff split: if_splits)

lemma repush_failed_ok: "untouched ps evs w \<Longrightarrow> repush_exit_code out \<noteq> COMPLETE \<Longrightarrow> repush_result_ok E rt ps evs out w"
  by (auto simp: repush_result_ok_def untouched_def)

lemma repush_ensures:
  assumes "crypto_ok (xl_crypto (ie_libs E))"
  shows "ensures (untouched ps evs) (repush_body E rt file) (repush_result_ok E rt ps evs) (repush_result_ok E rt ps evs)"
proof -
  let ?R = "repush_result_ok E rt ps evs"
  have stop: "untouched ps evs w \<Longrightarrow> ?R out w" if "repush_exit_code out \<noteq> COMPLETE" for out w using repush_failed_ok that by blast
  note codes = repush_exit_code_def COMPLETE_def ERROR_def ABANDONED_def ROOT_MISMATCH_def IDENTITY_MISMATCH_def
  have pushes: "ensures (untouched ps evs) (repush_file E info rt f) ?R ?R"
    if f: "yields (reproduce_registered E info rt file) f" "identity_mismatches info f = []"
      and info: "cr_file_info (ie_rpc E) n (''0x'' @ hex_encode rt) None None = Inr (Some info)" "fi_owner info = my_addr_base58 E"
        "\<not> is_abandoned (fi_lifecycle info)" for info f n
  proof -
    note p = reproduced(2)[OF assms f(1)] and q = no_mismatch[OF f(2)]
    show ?thesis
    proof (rule ensures_weaken[OF repush_file_ensures[OF conjunct1[OF p] conjunct2[OF p] conjunct1[OF q], of evs ps]])
      fix out w
      assume w: "(\<exists>K. pushing (xl_digest (ie_libs E)) (rf_manifest f) evs ps (iw_peers w) K w)
        \<and> (repush_exit_code out = COMPLETE \<longrightarrow> reheld_at E info (rf_manifest f) evs w)"
      then obtain new where "iw_pushes w = ps @ new" "\<forall>c \<in> set new. merkle_root (rf_manifest f) = rt \<and> push_ok (xl_digest (ie_libs E)) (rf_manifest f) c"
        using p by (auto simp: pushing_def)
      then show "?R out w" unfolding repush_result_ok_def using w p q info by blast
    next
      fix out w
      assume w: "(\<exists>K. pushing (xl_digest (ie_libs E)) (rf_manifest f) evs ps (iw_peers w) K w) \<and> repush_exit_code out \<noteq> COMPLETE"
      then obtain new where "iw_pushes w = ps @ new" "\<forall>c \<in> set new. merkle_root (rf_manifest f) = rt \<and> push_ok (xl_digest (ie_libs E)) (rf_manifest f) c"
        using p by (auto simp: pushing_def)
      then show "?R out w" unfolding repush_result_ok_def using w by blast
    qed (auto simp: untouched_def pushing_def)
  qed
  have known: "ensures (untouched ps evs) (bind_act (require (\<not> is_abandoned (fi_lifecycle info)) (RepushAbandoned rt)) (\<lambda>_.
           bind_act (require (is_active_file (fi_lifecycle info) \<or> is_pending (fi_lifecycle info)) (RepushFailed (UnexpectedLifecycle (fi_lifecycle info)))) (\<lambda>_.
           bind_act (require (fi_owner info = my_addr_base58 E)
             (IdentityMismatch (''operator '' @ my_addr_base58 E @ '' is not the registered owner '' @ fi_owner info))) (\<lambda>_.
           bind_act (map_err (\<lambda>e. case e of Mismatch actual \<Rightarrow> RepushRootMismatch rt actual | OtherError e \<Rightarrow> RepushFailed e)
             (reproduce_registered E info rt file)) (\<lambda>f.
           bind_act (require (identity_mismatches info f = [])
             (IdentityMismatch (''the rebuilt file differs: '' @ join_with '', '' (identity_mismatches info f)))) (\<lambda>_.
             repush_file E info rt f)))))) ?R ?R"
    if info: "cr_file_info (ie_rpc E) n (''0x'' @ hex_encode rt) None None = Inr (Some info)" for info n
    by (intro require_then calm_then reproduced(1)[OF assms] stable_simple(1) pushes[OF _ _ info])
      (auto simp: codes intro!: stop split: reproduce_error.split)
  show ?thesis unfolding repush_body_def
  proof (intro require_then calm_then act_calm stable_simple(1))
    fix row assume "yields (call (\<lambda>n. cr_file_info (ie_rpc E) n (''0x'' @ hex_encode rt) None None) :: (ingest_world, _, _) act) row"
    then obtain n where n: "cr_file_info (ie_rpc E) n (''0x'' @ hex_encode rt) None None = Inr row" by (auto simp: yields_simple)
    show "ensures (untouched ps evs) (case row of None \<Rightarrow> fail (RepushFailed (NoFileRow (''0x'' @ hex_encode rt))) | Some info \<Rightarrow>
           bind_act (require (\<not> is_abandoned (fi_lifecycle info)) (RepushAbandoned rt)) (\<lambda>_.
           bind_act (require (is_active_file (fi_lifecycle info) \<or> is_pending (fi_lifecycle info)) (RepushFailed (UnexpectedLifecycle (fi_lifecycle info)))) (\<lambda>_.
           bind_act (require (fi_owner info = my_addr_base58 E)
             (IdentityMismatch (''operator '' @ my_addr_base58 E @ '' is not the registered owner '' @ fi_owner info))) (\<lambda>_.
           bind_act (map_err (\<lambda>e. case e of Mismatch actual \<Rightarrow> RepushRootMismatch rt actual | OtherError e \<Rightarrow> RepushFailed e)
             (reproduce_registered E info rt file)) (\<lambda>f.
           bind_act (require (identity_mismatches info f = [])
             (IdentityMismatch (''the rebuilt file differs: '' @ join_with '', '' (identity_mismatches info f)))) (\<lambda>_.
             repush_file E info rt f)))))) ?R ?R"
    proof (cases row)
      case None
      then show ?thesis by (auto simp: ensures_def fail_def codes intro: stop)
    next
      case (Some info)
      show ?thesis unfolding Some option.case by (rule known[OF n[unfolded Some]])
    qed
  qed (auto simp: codes intro!: stop)
qed

text \<open>
  C9. A repush reported complete is complete. Whatever the chain and the network do, a repush returns, sends no transaction and
  pushes nothing but chunks of the file with the given root, each with a valid proof. It exits with COMPLETE only
  for a file the operator owns and has rebuilt with the registered root, chunk count and size, when for every archive that
  the chain's latest epoch assigns a chunk to, the peer of that archive was pushed the chunk and acknowledged it and the manifest
  without error, and a last read of the coverage reported that epoch again.
\<close>

theorem repush_complete_means_held:
  assumes "crypto_ok (xl_crypto (ie_libs E))"
  shows "\<exists>out w'. repush E rt file w = Some (out, w') \<and> cw_sent w' = cw_sent w \<and> repush_result_ok E rt (iw_pushes w) (iw_events w) out w'"
proof -
  have "untouched (iw_pushes w) (iw_events w) w" by (simp add: untouched_def)
  from ensuresE[OF repush_ensures[OF assms] this] obtain r w' where
    r: "repush_body E rt file w = Some (r, w')" "repush_result_ok E rt (iw_pushes w) (iw_events w) (case r of Inl x \<Rightarrow> x | Inr x \<Rightarrow> x) w'"
    by (metis sum.case)
  moreover have "cw_sent w' = cw_sent w" using quiet_repush r(1) unfolding quiet_def by blast
  ultimately show ?thesis by (auto simp: repush_def outcome_of_def)
qed

section \<open>An instance\<close>

definition demo_file_again :: reproduced_file where
  "demo_file_again = \<lparr>rf_manifest = demo_ing_m, rf_mapped = [7], rf_tree = build (blake3 demo_lib) [demo_ing_root],
     rf_manifest_bytes = [1], rf_stored_size_bytes = 1\<rparr>"

lemma rep_demo_targets:
  "latest_assignment_targets demo_ing demo_ing_info demo_ing_root w =
     Some (Inr (5, [(0, demo_archive_addr)]), w\<lparr>cw_calls := Suc (Suc (cw_calls w))\<rparr>)"
proof -
  have e: "epoch_from_coverage demo_ing_cov 5 = Inr 5" "fi_assignment_height demo_ing_info = 5" "fi_chunk_count demo_ing_info = 1"
    by (simp_all add: epoch_from_coverage_def resolved_latest_epoch_def demo_ing_cov_def demo_ing_info_def demo_access_info_def)
  have c: "cr_coverage demo_ing_rpc n h off lim = Inr (Some demo_ing_cov)" for n h off lim by (simp add: demo_ing_rpc_def)
  show ?thesis
    by (simp add: latest_assignment_targets_def bind_act_def map_err_def call_def c e lift_def ing_demo_eligible require_def ret_def
        index_list_def ing_demo_assigned u32_of_def)
qed

lemma rep_demo_chunks:
  "iw_peers w = [(''p'', demo_archive_addr)] \<Longrightarrow> iw_events w = ShardReceivedV2 ''p'' (PushAck demo_ing_root 0 None) # rest \<Longrightarrow>
   \<exists>res w'. (repush_chunks demo_ing demo_file_again demo_ing_root [(0, demo_archive_addr)] :: (ingest_world, 'e, _) act) w = Some (Inr res, w')
     \<and> res (0, demo_archive_addr) = Some Acknowledged \<and> iw_peers w' = iw_peers w \<and> iw_events w' = rest"
  by (simp add: repush_chunks_def bind_act_def gets_def resolve_def demo_file_again_def attempt_def ing_demo_send wait_turns_def ret_def next_event_def
      on_repush_event_def Let_def)

lemma rep_demo_manifests:
  "iw_peers w = [(''p'', demo_archive_addr)] \<Longrightarrow> iw_events w = ShardReceivedV2 ''p'' (ManifestPushAck demo_ing_root None) # rest \<Longrightarrow>
   \<exists>w'. (repush_manifests demo_ing demo_ing_root b {demo_archive_addr} :: (ingest_world, 'e, _) act) w = Some (Inr [demo_archive_addr \<mapsto> Acknowledged], w')"
  by (auto simp: repush_manifests_def bind_act_def gets_def resolve_def attempt_def push_manifest_v2_def wait_turns_def ret_def next_event_def
      on_manifest_event_def Let_def fun_eq_iff)

lemma bind_attempt_run: "m w = Some (r, w1) \<Longrightarrow> bind_act (attempt m) f w = f r w1"
  by (simp add: bind_act_def attempt_def)

lemma bind_run: "m w = Some (Inr a, w1) \<Longrightarrow> bind_act m f w = f a w1"
  by (simp add: bind_act_def)

lemma rep_demo_file:
  assumes "iw_events w = iw_events demo_ing_world" and "iw_peers w = []"
  shows "\<exists>out w'. repush_file demo_ing demo_ing_info demo_ing_root demo_file_again w = Some (Inr out, w') \<and> repush_exit_code out = COMPLETE"
proof -
  let ?w1 = "w\<lparr>cw_calls := Suc (Suc (cw_calls w))\<rparr>"
  obtain w2 where 2: "await_archives demo_ing {demo_archive_addr} ?w1 = Some (Inr (), w2)" "iw_peers w2 = [(''p'', demo_archive_addr)]"
      "iw_events w2 = tl (iw_events demo_ing_world)"
    using ing_demo_await[of ?w1 "tl (iw_events demo_ing_world)"] assms by (auto simp: demo_ing_world_def)
  obtain res w3 where 3: "(repush_chunks demo_ing demo_file_again demo_ing_root [(0, demo_archive_addr)] :: (ingest_world, repush_outcome, _) act) w2 = Some (Inr res, w3)"
      "res (0, demo_archive_addr) = Some Acknowledged" "iw_peers w3 = iw_peers w2" "iw_events w3 = tl (tl (iw_events demo_ing_world))"
    using rep_demo_chunks[OF 2(2)] 2(3) ing_demo_events(1) by metis
  obtain w4 where 4: "(repush_manifests demo_ing demo_ing_root [1] {demo_archive_addr} :: (ingest_world, repush_outcome, _) act) w3
      = Some (Inr [demo_archive_addr \<mapsto> Acknowledged], w4)"
    using rep_demo_manifests[of w3 "[]" "[1]"] 2(2) 3(3,4) ing_demo_events(2) by auto
  have "repush_file demo_ing demo_ing_info demo_ing_root demo_file_again w =
      Some (Inr (RepushDone \<lparr>rpr_merkle_root = demo_ing_root, rpr_epoch = 5, rpr_active = is_active_file (fi_lifecycle demo_ing_info),
        rpr_targets = [\<lparr>rpt_chunk_index = 0, rpt_archive = demo_archive_addr, rpt_result = Acknowledged\<rparr>],
        rpr_manifests = [demo_archive_addr \<mapsto> Acknowledged], rpr_epoch_check = EpochUnchanged\<rparr>), w4\<lparr>cw_calls := Suc (Suc (cw_calls w4))\<rparr>)"
    unfolding repush_file_def Let_def
    apply (subst bind_map_err_run[OF rep_demo_targets], simp only: prod.case list.set snd_conv image_insert image_empty)
    apply (subst bind_attempt_run, rule 2(1))
    apply (subst bind_run, rule 3(1))
    apply (subst bind_run, simp add: demo_file_again_def 4)
    apply (subst bind_attempt_run, rule rep_demo_targets)
    apply (simp add: 3(2) ret_def epoch_check_of_def)
    done
  then show ?thesis by (simp add: repush_exit_code_def complete_def)
qed

lemma rep_demo_run:
  "\<exists>out w'. repush demo_ing demo_ing_root demo_ing_file demo_ing_world = Some (out, w') \<and> repush_exit_code out = COMPLETE"
proof -
  let ?w = "demo_ing_world\<lparr>cw_calls := Suc 0\<rparr>"
  have info: "is_pending (fi_lifecycle demo_ing_info)" "\<not> is_abandoned (fi_lifecycle demo_ing_info)" "\<not> is_private (fi_visibility demo_ing_info)"
      "fi_owner demo_ing_info = my_addr_base58 demo_ing" "identity_mismatches demo_ing_info demo_file_again = []"
    by (simp_all add: demo_ing_info_def demo_access_info_def is_pending_def is_abandoned_def is_private_def my_addr_base58_def l1_address_base58_def
        demo_ing_def demo_access_libs_def identity_mismatches_def demo_file_again_def demo_ing_m_def)
  have f: "reproduce_registered demo_ing demo_ing_info demo_ing_root demo_ing_file w = Some (Inr demo_file_again, w)" for w
    unfolding reproduce_registered_def using info(3)
    by (simp add: bind_map_err_run[OF ing_demo_prepare(2)] bind_require_run bind_map_err_run[where a = "[1]"] lift_def ret_def demo_file_again_def)
  have row: "call (\<lambda>n. cr_file_info (ie_rpc demo_ing) n h None None) demo_ing_world = Some (Inr (Some demo_ing_info), ?w)" for h
    by (simp add: call_def)
  obtain out w' where "repush_file demo_ing demo_ing_info demo_ing_root demo_file_again ?w = Some (Inr out, w')" "repush_exit_code out = COMPLETE"
    using rep_demo_file[of ?w] by (auto simp: demo_ing_world_def)
  moreover have "repush_body demo_ing demo_ing_root demo_ing_file demo_ing_world = repush_file demo_ing demo_ing_info demo_ing_root demo_file_again ?w"
    unfolding repush_body_def
    apply (subst bind_require_run, simp)
    apply (subst bind_map_err_run, rule row)
    apply (simp only: option.case)
    apply (subst bind_require_run, rule info(2))
    apply (subst bind_require_run, simp add: info(1))
    apply (subst bind_require_run, rule info(4))
    apply (subst bind_map_err_run, rule f)
    apply (subst bind_require_run, rule info(5), simp)
    done
  ultimately show ?thesis by (simp add: repush_def outcome_of_def)
qed

theorem repush_complete_means_held_witness:
  "\<exists>out w' m. repush demo_ing demo_ing_root demo_ing_file demo_ing_world = Some (out, w') \<and> repush_exit_code out = COMPLETE
     \<and> merkle_root m = demo_ing_root \<and> reheld_at demo_ing demo_ing_info m (iw_events demo_ing_world) w'"
proof -
  obtain out w' where r: "repush demo_ing demo_ing_root demo_ing_file demo_ing_world = Some (out, w')" "repush_exit_code out = COMPLETE"
    using rep_demo_run by blast
  have "crypto_ok (xl_crypto (ie_libs demo_ing))" by (simp add: demo_crypto_ok)
  from repush_complete_means_held[OF this, of demo_ing_root demo_ing_file demo_ing_world] r show ?thesis
    by (auto simp: repush_result_ok_def)
qed

end
