(* ===== verification/Correlation.thy ===== *)
theory Correlation
  imports Serve Fetch
begin

text \<open>
  Correlation of responses with the requests this node sent (\<open>sum-net/src/correlation.rs\<close>), and the
  two-phase ingress of pulled manifests (\<open>sum-node/src/manifest_ingress.rs\<close>) that relies on it.
  Request ids are the counters of two libp2p behaviours; instants and durations are in seconds.
\<close>

section \<open>Requests\<close>

definition OUTBOUND_RECORD_TTL :: nat where "OUTBOUND_RECORD_TTL = 300"
definition POISON_TTL :: nat where "POISON_TTL = 600"

datatype request_domain = ShardXferV1 | ShardXferV2

fun domain_protocol :: "request_domain \<Rightarrow> string" where
  "domain_protocol ShardXferV1 = SHARD_XFER_PROTOCOL_V1"
| "domain_protocol ShardXferV2 = SHARD_XFER_PROTOCOL_V2"

fun domain_label :: "request_domain \<Rightarrow> string" where
  "domain_label ShardXferV1 = ''shard-xfer-v1''"
| "domain_label ShardXferV2 = ''shard-xfer-v2''"

type_synonym outbound_key = "request_domain \<times> u64"

datatype outbound_request_kind =
    V1Chunk string
  | V1Manifest (root_hex: string) string
  | V1Push string
  | V2Pull string
  | V2Push hash u32
  | V2ManifestPush hash
  | V2ManifestPull hash

definition from_v1 :: "shard_request \<Rightarrow> outbound_request_kind" where
  "from_v1 req =
     (if sr_push_data req \<noteq> None then V1Push (sr_cid req)
      else (case strip_prefix MANIFEST_REQUEST_PREFIX (sr_cid req) of
              Some r \<Rightarrow> V1Manifest r (sr_cid req)
            | None \<Rightarrow> V1Chunk (sr_cid req)))"

fun from_v2 :: "shard_request_v2 \<Rightarrow> outbound_request_kind" where
  "from_v2 (Pull cid off n) = V2Pull cid"
| "from_v2 (Push bs rt i path) = V2Push rt i"
| "from_v2 (ManifestPush rt bs) = V2ManifestPush rt"
| "from_v2 (ManifestPull rt) = V2ManifestPull rt"

fun kind_protocol :: "outbound_request_kind \<Rightarrow> string" where
  "kind_protocol (V1Chunk _) = SHARD_XFER_PROTOCOL_V1"
| "kind_protocol (V1Manifest _ _) = SHARD_XFER_PROTOCOL_V1"
| "kind_protocol (V1Push _) = SHARD_XFER_PROTOCOL_V1"
| "kind_protocol (V2Pull _) = SHARD_XFER_PROTOCOL_V2"
| "kind_protocol (V2Push _ _) = SHARD_XFER_PROTOCOL_V2"
| "kind_protocol (V2ManifestPush _) = SHARD_XFER_PROTOCOL_V2"
| "kind_protocol (V2ManifestPull _) = SHARD_XFER_PROTOCOL_V2"

fun kind_label :: "outbound_request_kind \<Rightarrow> string" where
  "kind_label (V1Chunk _) = ''v1-chunk-pull''"
| "kind_label (V1Manifest _ _) = ''v1-manifest-pull''"
| "kind_label (V1Push _) = ''v1-chunk-push''"
| "kind_label (V2Pull _) = ''v2-chunk-pull''"
| "kind_label (V2Push _ _) = ''v2-chunk-push''"
| "kind_label (V2ManifestPush _) = ''v2-manifest-push''"
| "kind_label (V2ManifestPull _) = ''v2-manifest-pull''"

section \<open>Matching a response\<close>

datatype correlation_error =
    UnknownRequestId
  | PoisonedRequestId string string
  | PeerMismatch peer_id peer_id
  | ResponseKindMismatch string string
  | CidMismatch string string
  | RootMismatch string string
  | ChunkIndexMismatch u32 u32

fun response_label :: "shard_response_versioned \<Rightarrow> string" where
  "response_label (RespV1 _) = ''v1-response''"
| "response_label (RespV2 (Data _ _ _ _ _)) = ''v2-data''"
| "response_label (RespV2 (PushAck _ _ _)) = ''v2-push-ack''"
| "response_label (RespV2 (ManifestPushAck _ _)) = ''v2-manifest-push-ack''"
| "response_label (RespV2 (ManifestData _ _ _)) = ''v2-manifest-data''"

definition cid_eq :: "string \<Rightarrow> string \<Rightarrow> correlation_error + unit" where
  "cid_eq expected got = (if expected = got then Inr () else Inl (CidMismatch expected got))"

definition root_eq :: "hash \<Rightarrow> hash \<Rightarrow> correlation_error + unit" where
  "root_eq expected got = (if expected = got then Inr () else Inl (RootMismatch (hex_encode expected) (hex_encode got)))"

fun kind_check :: "outbound_request_kind \<Rightarrow> shard_response_versioned \<Rightarrow> correlation_error + unit" where
  "kind_check (V1Chunk cid) (RespV1 resp) = cid_eq cid (rs_cid resp)"
| "kind_check (V1Manifest _ cid) (RespV1 resp) = cid_eq cid (rs_cid resp)"
| "kind_check (V1Push cid) (RespV1 resp) = cid_eq cid (rs_cid resp)"
| "kind_check (V2Pull cid) (RespV2 (Data got _ _ _ _)) = cid_eq cid got"
| "kind_check (V2Push rt i) (RespV2 (PushAck got_root got_index _)) =
     (case root_eq rt got_root of
        Inl e \<Rightarrow> Inl e
      | Inr _ \<Rightarrow> if i \<noteq> got_index then Inl (ChunkIndexMismatch i got_index) else Inr ())"
| "kind_check (V2ManifestPush rt) (RespV2 (ManifestPushAck got _)) = root_eq rt got"
| "kind_check (V2ManifestPull rt) (RespV2 (ManifestData got _ _)) = root_eq rt got"
| "kind_check expected got = Inl (ResponseKindMismatch (kind_label expected) (response_label got))"

record outbound_origin =
  oo_peer :: peer_id
  oo_protocol :: string
  oo_kind :: outbound_request_kind

definition origin_new :: "peer_id \<Rightarrow> outbound_request_kind \<Rightarrow> outbound_origin" where
  "origin_new peer kind = \<lparr>oo_peer = peer, oo_protocol = kind_protocol kind, oo_kind = kind\<rparr>"

definition requested_manifest_root_hex :: "outbound_origin \<Rightarrow> string option" where
  "requested_manifest_root_hex origin = (case oo_kind origin of V1Manifest r _ \<Rightarrow> Some r | _ \<Rightarrow> None)"

definition requested_manifest_root :: "outbound_origin \<Rightarrow> hash option" where
  "requested_manifest_root origin = (case oo_kind origin of V2ManifestPull rt \<Rightarrow> Some rt | _ \<Rightarrow> None)"

definition requested_cid :: "outbound_origin \<Rightarrow> string option" where
  "requested_cid origin =
     (case oo_kind origin of
        V1Chunk cid \<Rightarrow> Some cid | V1Manifest _ cid \<Rightarrow> Some cid | V1Push cid \<Rightarrow> Some cid | V2Pull cid \<Rightarrow> Some cid
      | _ \<Rightarrow> None)"

section \<open>The tracker\<close>

record pending_outbound =
  pd_peer :: peer_id
  pd_kind :: outbound_request_kind
  pd_issued_at :: nat

datatype slot =
    PendingSlot pending_outbound
  | PoisonedSlot nat string string

type_synonym outbound_tracker = "outbound_key \<Rightarrow> slot option"

datatype record_error =
    Collision outbound_key string string
  | DomainProtocolMismatch string string string string

definition record_request ::
    "nat \<Rightarrow> outbound_tracker \<Rightarrow> outbound_key \<Rightarrow> peer_id \<Rightarrow> outbound_request_kind \<Rightarrow> (record_error + unit) \<times> outbound_tracker" where
  "record_request now slots key peer kind =
     (if kind_protocol kind \<noteq> domain_protocol (fst key) then
        (Inl (DomainProtocolMismatch (domain_label (fst key)) (domain_protocol (fst key)) (kind_label kind)
                (kind_protocol kind)), slots)
      else
        (case slots key of
           None \<Rightarrow> (Inr (), slots(key \<mapsto> PendingSlot \<lparr>pd_peer = peer, pd_kind = kind, pd_issued_at = now\<rparr>))
         | Some s \<Rightarrow>
            (let first = (case s of PendingSlot p \<Rightarrow> kind_label (pd_kind p) | PoisonedSlot _ f _ \<Rightarrow> f) in
             (Inl (Collision key first (kind_label kind)), slots(key \<mapsto> PoisonedSlot now first (kind_label kind))))))"

definition correlate_response ::
    "outbound_tracker \<Rightarrow> outbound_key \<Rightarrow> peer_id \<Rightarrow> shard_response_versioned
       \<Rightarrow> (correlation_error + outbound_origin) \<times> outbound_tracker" where
  "correlate_response slots key peer response =
     (case slots key of
        None \<Rightarrow> (Inl UnknownRequestId, slots)
      | Some (PoisonedSlot _ first second) \<Rightarrow> (Inl (PoisonedRequestId first second), slots)
      | Some (PendingSlot p) \<Rightarrow>
         (let slots' = slots(key := None) in
          if pd_peer p \<noteq> peer then (Inl (PeerMismatch (pd_peer p) peer), slots')
          else
            (case kind_check (pd_kind p) response of
               Inl e \<Rightarrow> (Inl e, slots')
             | Inr _ \<Rightarrow> (Inr (origin_new (pd_peer p) (pd_kind p)), slots'))))"

datatype failure_outcome =
    Retained peer_id outbound_request_kind
  | UnknownFailure
  | PoisonedFailure

definition on_failure :: "outbound_tracker \<Rightarrow> outbound_key \<Rightarrow> failure_outcome \<times> outbound_tracker" where
  "on_failure slots key =
     (case slots key of
        None \<Rightarrow> (UnknownFailure, slots)
      | Some (PoisonedSlot _ _ _) \<Rightarrow> (PoisonedFailure, slots)
      | Some (PendingSlot p) \<Rightarrow> (Retained (pd_peer p) (pd_kind p), slots(key := None)))"

fun slot_retained :: "nat \<Rightarrow> nat \<Rightarrow> slot \<Rightarrow> bool" where
  "slot_retained now ttl (PendingSlot p) = (now - pd_issued_at p < ttl)"
| "slot_retained now ttl (PoisonedSlot since _ _) = (now - since < POISON_TTL)"

definition reap :: "nat \<Rightarrow> nat \<Rightarrow> outbound_tracker \<Rightarrow> outbound_tracker" where
  "reap now ttl slots =
     (\<lambda>key. case slots key of None \<Rightarrow> None | Some s \<Rightarrow> if slot_retained now ttl s then Some s else None)"

section \<open>Manifest ingress\<close>

datatype manifest_ingress =
    Rejected string string
  | Commit string data_manifest

definition validate_network_manifest :: "digest_lib \<Rightarrow> cbor_lib \<Rightarrow> string \<Rightarrow> bytes \<Rightarrow> string + data_manifest" where
  "validate_network_manifest L B expected_root_hex data = validate_manifest_push L B expected_root_hex data"

definition plan_manifest_ingress ::
    "digest_lib \<Rightarrow> cbor_lib \<Rightarrow> outbound_origin \<Rightarrow> shard_response \<Rightarrow> manifest_ingress option" where
  "plan_manifest_ingress L B origin response =
     (case requested_manifest_root_hex origin of
        None \<Rightarrow> None
      | Some r \<Rightarrow>
         Some (case validate_network_manifest L B r (rs_data response) of
                 Inr validated \<Rightarrow> Commit r validated
               | Inl e \<Rightarrow> Rejected r e))"

definition commit_manifest_ingress ::
    "cbor_lib \<Rightarrow> mi_env \<Rightarrow> manifest_index \<Rightarrow> mdir \<Rightarrow> data_manifest \<Rightarrow> (string + accept_outcome) \<times> manifest_index \<times> mdir" where
  "commit_manifest_ingress B env idx d validated = commit_validated B env idx d validated"

section \<open>Histories\<close>

datatype tracker_event =
    Sent outbound_key peer_id outbound_request_kind nat
  | Answered outbound_key peer_id shard_response_versioned "correlation_error + outbound_origin"
  | FailedOutbound outbound_key
  | Reaped nat

inductive tracker_step :: "outbound_tracker \<Rightarrow> tracker_event \<Rightarrow> outbound_tracker \<Rightarrow> bool" where
  sent: "record_request now t key peer kind = (r, t') \<Longrightarrow> tracker_step t (Sent key peer kind now) t'"
| answered: "correlate_response t key peer resp = (r, t') \<Longrightarrow> tracker_step t (Answered key peer resp r) t'"
| failed: "on_failure t key = (r, t') \<Longrightarrow> tracker_step t (FailedOutbound key) t'"
| reaped: "tracker_step t (Reaped now) (reap now OUTBOUND_RECORD_TTL t)"

inductive_cases sentE: "tracker_step t (Sent key peer kind now) t'"
inductive_cases answeredE: "tracker_step t (Answered key peer resp r) t'"
inductive_cases failedE: "tracker_step t (FailedOutbound key) t'"
inductive_cases reapedE: "tracker_step t (Reaped now) t'"

inductive tracker_run :: "outbound_tracker \<Rightarrow> tracker_event list \<Rightarrow> outbound_tracker \<Rightarrow> bool" where
  start: "tracker_run t [] t"
| extend: "tracker_run t es t1 \<Longrightarrow> tracker_step t1 e t2 \<Longrightarrow> tracker_run t (es @ [e]) t2"

text \<open>The events that may fill or empty a key's slot, apart from the reaper.\<close>

fun touches :: "outbound_key \<Rightarrow> tracker_event \<Rightarrow> bool" where
  "touches key (Sent k p kind now) \<longleftrightarrow> k = key \<and> kind_protocol kind = domain_protocol (fst k)"
| "touches key (Answered k p resp r) \<longleftrightarrow> k = key"
| "touches key (FailedOutbound k) \<longleftrightarrow> k = key"
| "touches key (Reaped now) \<longleftrightarrow> False"

text \<open>The last event at the key is the sending of this request, on the right behaviour.\<close>

definition filed :: "tracker_event list \<Rightarrow> outbound_key \<Rightarrow> peer_id \<Rightarrow> outbound_request_kind \<Rightarrow> bool" where
  "filed es key peer kind \<longleftrightarrow> kind_protocol kind = domain_protocol (fst key)
     \<and> (\<exists>pre post now. es = pre @ Sent key peer kind now # post \<and> (\<forall>e \<in> set post. \<not> touches key e))"

lemma filed_snoc:
  assumes "filed es key peer kind" and "\<not> touches key e"
  shows "filed (es @ [e]) key peer kind"
proof -
  obtain pre post now where "es = pre @ Sent key peer kind now # post" "\<forall>e \<in> set post. \<not> touches key e"
    using assms(1) by (auto simp: filed_def)
  then have "es @ [e] = pre @ Sent key peer kind now # (post @ [e])" "\<forall>x \<in> set (post @ [e]). \<not> touches key x"
    using assms(2) by auto
  then show ?thesis using assms(1) unfolding filed_def by blast
qed

lemma filed_now: "kind_protocol kind = domain_protocol (fst key) \<Longrightarrow> filed (es @ [Sent key peer kind now]) key peer kind"
  unfolding filed_def by (metis empty_iff empty_set)

lemma pending_after_step:
  assumes "tracker_step t e t'" and "t' key = Some (PendingSlot p)"
  shows "(t key = Some (PendingSlot p) \<and> \<not> touches key e)
      \<or> (\<exists>now. e = Sent key (pd_peer p) (pd_kind p) now \<and> kind_protocol (pd_kind p) = domain_protocol (fst key))"
  using assms
proof (induction rule: tracker_step.cases)
  case (sent now t k peer kind r t')
  then show ?case by (auto simp: record_request_def Let_def split: if_splits option.splits)
next
  case (answered t k peer resp r t')
  then show ?case by (auto simp: correlate_response_def Let_def split: if_splits option.splits slot.splits sum.splits)
next
  case (failed t k r t')
  then show ?case by (auto simp: on_failure_def split: if_splits option.splits slot.splits)
next
  case (reaped t now)
  then show ?case by (auto simp: reap_def split: if_splits option.splits)
qed

lemma pending_filed:
  assumes "tracker_run Map.empty es t" and "t key = Some (PendingSlot p)"
  shows "filed es key (pd_peer p) (pd_kind p)"
  using assms
proof (induction "Map.empty :: outbound_tracker" es t arbitrary: p rule: tracker_run.induct)
  case (extend es t1 e t2)
  from pending_after_step [OF extend(3,4)] show ?case
    using extend(2) filed_snoc filed_now by blast
qed simp

lemma accepted_answer:
  assumes "tracker_step t (Answered key peer resp (Inr origin)) t'"
  shows "\<exists>p. t key = Some (PendingSlot p) \<and> pd_peer p = peer \<and> kind_check (pd_kind p) resp = Inr ()
      \<and> origin = origin_new peer (pd_kind p)"
  using assms by (auto elim!: answeredE simp: correlate_response_def Let_def split: option.splits slot.splits if_splits sum.splits)

lemma answered_filed:
  assumes "tracker_run Map.empty es t" and "es = pre @ Answered key peer resp (Inr origin) # post"
  shows "\<exists>kind. filed pre key peer kind \<and> kind_check kind resp = Inr () \<and> origin = origin_new peer kind"
  using assms
proof (induction "Map.empty :: outbound_tracker" es t arbitrary: post rule: tracker_run.induct)
  case (extend es t1 e t2)
  show ?case
  proof (cases post rule: rev_cases)
    case Nil
    then have "es = pre" "e = Answered key peer resp (Inr origin)" using extend(4) by auto
    then show ?thesis using accepted_answer [of t1 key peer resp origin t2] extend(1,3) pending_filed by blast
  next
    case (snoc post' x)
    then have "es = pre @ Answered key peer resp (Inr origin) # post'" using extend(4) by simp
    then show ?thesis by (rule extend(2))
  qed
qed simp

text \<open>
  C17. Every accepted response answers a request of this node, once. In any history of sends, responses,
  failures and reaps, an accepted response came from the peer the request was sent to, agrees with the
  request on its kind and on the identifier, root and index it names, and the request is the last event
  under its key: it was not answered, failed or overtaken by another request before. What is handed on
  as the origin is the request as it was sent.
\<close>

theorem accepted_response_answers_request:
  assumes "tracker_run Map.empty es t" and "es = pre @ Answered key peer resp (Inr origin) # post"
  shows "\<exists>kind before after now. pre = before @ Sent key peer kind now # after
      \<and> (\<forall>e \<in> set after. \<not> touches key e) \<and> kind_protocol kind = domain_protocol (fst key)
      \<and> kind_check kind resp = Inr () \<and> origin = \<lparr>oo_peer = peer, oo_protocol = kind_protocol kind, oo_kind = kind\<rparr>"
  using answered_filed [OF assms] unfolding filed_def origin_new_def by blast

section \<open>Collisions\<close>

lemma poisoned_step:
  assumes "tracker_step t e t'" and "t key = Some (PoisonedSlot since f s)" and "\<forall>now. e \<noteq> Reaped now"
  shows "\<exists>since f s. t' key = Some (PoisonedSlot since f s)"
  using assms
proof (induction rule: tracker_step.cases)
  case (sent now t k peer kind r t')
  then show ?case by (auto simp: record_request_def Let_def split: if_splits option.splits)
next
  case (answered t k peer resp r t')
  then show ?case by (auto simp: correlate_response_def Let_def split: if_splits option.splits slot.splits sum.splits)
next
  case (failed t k r t')
  then show ?case by (auto simp: on_failure_def split: if_splits option.splits slot.splits)
qed simp

lemma poisoned_run:
  assumes "tracker_run t es t'" and "\<exists>since f s. t key = Some (PoisonedSlot since f s)" and "\<forall>now. Reaped now \<notin> set es"
  shows "(\<exists>since f s. t' key = Some (PoisonedSlot since f s)) \<and> (\<forall>peer resp origin. Answered key peer resp (Inr origin) \<notin> set es)"
  using assms
proof (induction rule: tracker_run.induct)
  case (extend t es t1 e t2)
  then have p: "\<exists>since f s. t1 key = Some (PoisonedSlot since f s)"
      "\<forall>peer resp origin. Answered key peer resp (Inr origin) \<notin> set es" by auto
  have "e \<noteq> Answered key peer resp (Inr origin)" for peer resp origin
    using accepted_answer [of t1 key peer resp origin t2] extend(2) p(1) by auto
  moreover have "\<exists>since f s. t2 key = Some (PoisonedSlot since f s)"
    using p(1) poisoned_step [OF extend(2), of key] extend.prems(2) by (metis in_set_conv_decomp)
  ultimately show ?case using p(2) by auto
qed simp

lemma tracker_run_snocD: "tracker_run t (es @ [e]) t' \<Longrightarrow> \<exists>t1. tracker_run t es t1 \<and> tracker_step t1 e t'"
  by (auto elim: tracker_run.cases)

lemma tracker_run_split:
  "tracker_run t (es @ fs) t' \<Longrightarrow> \<exists>t1. tracker_run t es t1 \<and> tracker_run t1 fs t'"
proof (induction fs arbitrary: t' rule: rev_induct)
  case Nil
  then show ?case by (auto intro: tracker_run.start)
next
  case (snoc e fs)
  then obtain t1 where t1: "tracker_run t (es @ fs) t1" "tracker_step t1 e t'"
    using tracker_run_snocD [of t "es @ fs" e t'] by auto
  then show ?case using snoc.IH [OF t1(1)] by (blast intro: tracker_run.extend)
qed

lemma occupied_run:
  assumes "tracker_run t es t'" and "t key \<noteq> None" and "\<forall>k. Reaped k \<notin> set es" and "\<forall>e \<in> set es. \<not> touches key e"
  shows "t' key \<noteq> None"
  using assms
proof (induction rule: tracker_run.induct)
  case (extend t es u e v)
  then have "u key \<noteq> None" "\<not> touches key e" "\<forall>k. e \<noteq> Reaped k" by auto
  then show ?case using extend(2)
    by (cases e) (auto elim!: sentE answeredE failedE simp: record_request_def correlate_response_def on_failure_def Let_def
        split: if_splits option.splits slot.splits sum.splits)
qed simp

text \<open>
  Two requests under one id are both abandoned: once a request is filed under a key that still holds an
  earlier one, no response under that key is accepted again before the reaper runs, whichever of the
  two it claims to answer.
\<close>

theorem collision_abandons_both:
  assumes "tracker_run Map.empty (es @ Sent key peer kind now # post) t" and "filed es key peer0 kind0"
    and "\<forall>k. Reaped k \<notin> set es \<union> set post" and "kind_protocol kind = domain_protocol (fst key)"
  shows "Answered key p resp (Inr origin) \<notin> set post"
proof -
  obtain t1 where t1: "tracker_run Map.empty es t1" "tracker_run t1 (Sent key peer kind now # post) t"
    using tracker_run_split [OF assms(1)] by blast
  have occ: "t1 key \<noteq> None"
  proof -
    obtain pre mid n where es: "es = pre @ Sent key peer0 kind0 n # mid" "\<forall>e \<in> set mid. \<not> touches key e"
        "kind_protocol kind0 = domain_protocol (fst key)" using assms(2) by (auto simp: filed_def)
    obtain a where a: "tracker_run Map.empty (pre @ [Sent key peer0 kind0 n]) a" "tracker_run a mid t1"
      using tracker_run_split [of Map.empty "pre @ [Sent key peer0 kind0 n]" mid t1] t1(1) es(1) by auto
    obtain b where "tracker_step b (Sent key peer0 kind0 n) a" using tracker_run_snocD [OF a(1)] by blast
    then have "a key \<noteq> None"
      using es(3) by (auto elim!: sentE simp: record_request_def Let_def split: if_splits option.splits)
    moreover have "\<forall>k. Reaped k \<notin> set mid" using assms(3) es(1) by auto
    ultimately show ?thesis using occupied_run [OF a(2)] es(2) by blast
  qed
  obtain t2 where t2: "tracker_run t1 [Sent key peer kind now] t2" "tracker_run t2 post t"
    using tracker_run_split [of t1 "[Sent key peer kind now]" post t] t1(2) by auto
  then have "tracker_step t1 (Sent key peer kind now) t2"
    using tracker_run_snocD [of t1 "[]" "Sent key peer kind now" t2] by (auto elim: tracker_run.cases)
  then have "\<exists>since f s. t2 key = Some (PoisonedSlot since f s)"
    using occ assms(4) by (auto elim!: sentE simp: record_request_def Let_def split: option.splits)
  then show ?thesis using poisoned_run [OF t2(2)] assms(3) by auto
qed

section \<open>Pulled manifests\<close>

lemma commit_consistent:
  assumes "commit_validated B env idx d m = (r, idx', d')" and "index_consistent L idx" and "consistent_manifest L m"
  shows "index_consistent L idx' \<and> mi_by_root idx \<subseteq>\<^sub>m mi_by_root idx'
    \<and> ((\<exists>x. r = Inr x) \<longrightarrow> get_by_merkle_root idx' (merkle_root m) \<noteq> None)"
  using assms
  by (auto simp: commit_validated_def mi_insert_def index_consistent_def get_by_merkle_root_def add_to_maps_def Let_def map_le_def
      split: if_splits sum.splits prod.splits)

text \<open>
  C32. A pulled manifest is indexed under the root this node asked for, never one the peer chose. When an
  accepted response passes the ingress, the request under its key was this node's own pull of that very
  root; the manifest is internally consistent and has it; committing it keeps the index consistent,
  replaces nothing and, when it succeeds, leaves a manifest for the root.
\<close>

theorem pulled_manifest_is_the_requested_one:
  assumes "tracker_run Map.empty (es @ [Answered key peer (RespV1 resp) (Inr origin)]) t"
    and "plan_manifest_ingress L B origin resp = Some (Commit r m)"
    and "commit_manifest_ingress B env idx d m = (res, idx', d')" and "index_consistent L idx"
  shows "(\<exists>cid before after now. es = before @ Sent key peer (V1Manifest r cid) now # after
            \<and> (\<forall>e \<in> set after. \<not> touches key e) \<and> rs_cid resp = cid)
     \<and> hex_to_32 r = Some (merkle_root m) \<and> consistent_manifest L m
     \<and> index_consistent L idx' \<and> mi_by_root idx \<subseteq>\<^sub>m mi_by_root idx'
     \<and> ((\<exists>x. res = Inr x) \<longrightarrow> get_by_merkle_root idx' (merkle_root m) \<noteq> None)"
proof -
  obtain kind where k: "filed es key peer kind" "kind_check kind (RespV1 resp) = Inr ()" "origin = origin_new peer kind"
    using answered_filed [OF assms(1), of es key peer "RespV1 resp" origin "[]"] by auto
  obtain cid where c: "kind = V1Manifest r cid"
    using assms(2) k(3) by (auto simp: plan_manifest_ingress_def requested_manifest_root_hex_def origin_new_def
        split: option.splits sum.splits outbound_request_kind.splits)
  have v: "validate_manifest_push L B r (rs_data resp) = Inr m"
    using assms(2) k(3) c by (auto simp: plan_manifest_ingress_def requested_manifest_root_hex_def origin_new_def
        validate_network_manifest_def split: sum.splits)
  have "rs_cid resp = cid" using k(2) c by (auto simp: cid_eq_def split: if_splits)
  moreover have "hex_to_32 r = Some (merkle_root m)" "consistent_manifest L m" using v by (auto simp: validate_manifest_push_iff)
  moreover note commit_consistent [OF assms(3) [unfolded commit_manifest_ingress_def] assms(4) this(2)]
  ultimately show ?thesis using k(1) c unfolding filed_def by blast
qed

section \<open>Instances\<close>

definition demo_pull_root :: hash where "demo_pull_root = replicate 32 5"

definition demo_pull_manifest :: data_manifest where
  "demo_pull_manifest = \<lparr>file_name = ''f'', file_hash = demo_pull_root, total_size_bytes = 1, chunk_count = 1,
     merkle_root = demo_pull_root,
     chunks = [\<lparr>cd_index = 0, cd_offset = 0, cd_size = 1, cd_hash = demo_pull_root,
                cd_cid = cid_from_blake3_hash demo_lib demo_pull_root, cd_plaintext_hash = None\<rparr>]\<rparr>"

definition demo_pull_cbor :: cbor_lib where
  "demo_pull_cbor = \<lparr>cbor_ser = (\<lambda>_. Inr [1]), cbor_de = (\<lambda>_. Inr demo_pull_manifest)\<rparr>"

definition demo_pull_key :: outbound_key where "demo_pull_key = (ShardXferV1, 0)"

definition demo_pull_kind :: outbound_request_kind where
  "demo_pull_kind = V1Manifest (hex_encode demo_pull_root) (MANIFEST_REQUEST_PREFIX @ hex_encode demo_pull_root)"

definition demo_pull_response :: shard_response where
  "demo_pull_response = \<lparr>rs_cid = MANIFEST_REQUEST_PREFIX @ hex_encode demo_pull_root, rs_offset = 0, rs_total_bytes = 1,
     rs_data = [1], rs_error = None\<rparr>"

lemma demo_answered:
  "\<exists>t. tracker_run Map.empty ([Sent demo_pull_key ''p'' demo_pull_kind 0]
         @ [Answered demo_pull_key ''p'' (RespV1 demo_pull_response) (Inr (origin_new ''p'' demo_pull_kind))]) t"
proof -
  let ?t = "[demo_pull_key \<mapsto> PendingSlot \<lparr>pd_peer = ''p'', pd_kind = demo_pull_kind, pd_issued_at = 0\<rparr>]"
  have "tracker_step Map.empty (Sent demo_pull_key ''p'' demo_pull_kind 0) ?t"
    by (rule tracker_step.sent [where r = "Inr ()"]) (simp add: record_request_def demo_pull_key_def demo_pull_kind_def)
  from tracker_run.extend [OF tracker_run.start this]
  have 1: "tracker_run Map.empty [Sent demo_pull_key ''p'' demo_pull_kind 0] ?t" by simp
  have "tracker_step ?t (Answered demo_pull_key ''p'' (RespV1 demo_pull_response) (Inr (origin_new ''p'' demo_pull_kind)))
      (?t(demo_pull_key := None))"
    by (rule tracker_step.answered) (simp add: correlate_response_def demo_pull_kind_def demo_pull_response_def cid_eq_def Let_def)
  from tracker_run.extend [OF 1 this] show ?thesis by blast
qed

theorem accepted_response_answers_request_witness:
  "\<exists>t. tracker_run Map.empty ([Sent demo_pull_key ''p'' demo_pull_kind 0]
         @ [Answered demo_pull_key ''p'' (RespV1 demo_pull_response) (Inr (origin_new ''p'' demo_pull_kind))]) t
     \<and> (\<exists>kind. kind_check kind (RespV1 demo_pull_response) = Inr () \<and> kind_protocol kind = domain_protocol (fst demo_pull_key))"
proof -
  obtain t where t: "tracker_run Map.empty ([Sent demo_pull_key ''p'' demo_pull_kind 0]
         @ [Answered demo_pull_key ''p'' (RespV1 demo_pull_response) (Inr (origin_new ''p'' demo_pull_kind))]) t"
    using demo_answered by blast
  from accepted_response_answers_request [OF t, of "[Sent demo_pull_key ''p'' demo_pull_kind 0]" demo_pull_key "''p''"
      "RespV1 demo_pull_response" "origin_new ''p'' demo_pull_kind" "[]"] t
  show ?thesis by auto
qed

lemma demo_collides:
  "\<exists>t. tracker_run Map.empty ([Sent demo_pull_key ''p'' demo_pull_kind 0] @ Sent demo_pull_key ''q'' (V1Chunk ''c'') 1 # []) t"
proof -
  obtain t1 where "tracker_step Map.empty (Sent demo_pull_key ''p'' demo_pull_kind 0) t1"
    using tracker_step.sent by (metis surj_pair)
  moreover obtain t2 where "tracker_step t1 (Sent demo_pull_key ''q'' (V1Chunk ''c'') 1) t2"
    using tracker_step.sent by (metis surj_pair)
  ultimately show ?thesis using tracker_run.extend tracker_run.start by (metis append_Nil)
qed

theorem collision_abandons_both_witness:
  "Answered demo_pull_key ''p'' (RespV1 demo_pull_response) (Inr (origin_new ''p'' demo_pull_kind)) \<notin> set ([] :: tracker_event list)
   \<and> (\<exists>t. tracker_run Map.empty ([Sent demo_pull_key ''p'' demo_pull_kind 0] @ Sent demo_pull_key ''q'' (V1Chunk ''c'') 1 # []) t)"
proof -
  obtain t where t: "tracker_run Map.empty ([Sent demo_pull_key ''p'' demo_pull_kind 0] @ Sent demo_pull_key ''q'' (V1Chunk ''c'') 1 # []) t"
    using demo_collides by blast
  have "filed [Sent demo_pull_key ''p'' demo_pull_kind 0] demo_pull_key ''p'' demo_pull_kind"
    using filed_now [of demo_pull_kind demo_pull_key "[]" "''p''" 0] by (simp add: demo_pull_kind_def demo_pull_key_def)
  from collision_abandons_both [OF t this, of "''p''" "RespV1 demo_pull_response" "origin_new ''p'' demo_pull_kind"] t
  show ?thesis by (auto simp: demo_pull_key_def)
qed

theorem pulled_manifest_is_the_requested_one_witness:
  "\<exists>idx' d'. commit_manifest_ingress demo_pull_cbor me_fine (empty_index False) [] demo_pull_manifest
        = (Inr (Indexed demo_pull_manifest), idx', d')
     \<and> get_by_merkle_root idx' demo_pull_root \<noteq> None"
proof -
  obtain t where t: "tracker_run Map.empty ([Sent demo_pull_key ''p'' demo_pull_kind 0]
         @ [Answered demo_pull_key ''p'' (RespV1 demo_pull_response) (Inr (origin_new ''p'' demo_pull_kind))]) t"
    using demo_answered by blast
  have len: "length demo_pull_root = 32" by (simp add: demo_pull_root_def)
  have "consistent_manifest demo_lib demo_pull_manifest"
    by (simp add: consistent_manifest_def demo_pull_manifest_def root_def build_def build_levels.simps)
  then have "validate_manifest_push demo_lib demo_pull_cbor (hex_encode demo_pull_root) [1] = Inr demo_pull_manifest"
    using hex_to_32_encode [OF len] by (simp add: validate_manifest_push_iff demo_pull_cbor_def demo_pull_manifest_def)
  then have p: "plan_manifest_ingress demo_lib demo_pull_cbor (origin_new ''p'' demo_pull_kind) demo_pull_response
      = Some (Commit (hex_encode demo_pull_root) demo_pull_manifest)"
    by (simp add: plan_manifest_ingress_def requested_manifest_root_hex_def origin_new_def demo_pull_kind_def
        demo_pull_response_def validate_network_manifest_def)
  obtain idx' d' where c: "commit_manifest_ingress demo_pull_cbor me_fine (empty_index False) [] demo_pull_manifest
        = (Inr (Indexed demo_pull_manifest), idx', d')"
    by (simp add: commit_manifest_ingress_def commit_validated_def get_by_merkle_root_def mi_insert_def write_manifest_def
        ensure_writable_def fs_write_def empty_index_def me_fine_def demo_pull_cbor_def)
  have "index_consistent demo_lib (empty_index False)"
    by (simp add: index_consistent_def get_by_merkle_root_def empty_index_def)
  from pulled_manifest_is_the_requested_one [OF t p c this] c show ?thesis by (auto simp: demo_pull_manifest_def)
qed

end
