(* ===== verification/Download_V2.thy ===== *)
theory Download_V2
  imports Ingest Correlation
begin

text \<open>
  The download of a Public V2 file: the routing helpers of \<open>sum-node/src/download_v2_routing.rs\<close> and
  \<open>run_v2_public\<close> of \<open>sum-node/src/download.rs\<close>. The manifest is asked of the assigned archives in a
  bounded fan-out, each chunk of one archive at a time; what arrives is checked, stored and assembled.

  One turn of a \<open>select!\<close> is a network event, a failed request, the end of the network, the end of the grace period or
  the deadline; with no turn left the deadline has come. A hash map of peers is an association list in its iteration order.
\<close>

section \<open>The world of a download\<close>

datatype turn =
    Event sum_net_event
  | ShardRequestFailed peer_id string outbound_origin
  | NetworkDown
  | GraceElapsed
  | DeadlineReached

record download_world = chain_world +
  dw_turns :: "turn list"
  dw_peers :: peer_map
  dw_pulls :: "(peer_id \<times> string \<times> u64) list"  \<comment> \<open>\<open>pull_chunk_v2\<close>: peer, cid, bytes\<close>
  dw_manifest_pulls :: "(peer_id \<times> hash) list"
  dw_store :: pub_store
  dw_index :: manifest_index
  dw_mdir :: mdir
  dw_output :: "bytes option"
  dw_disk :: nat  \<comment> \<open>disk operations so far\<close>

record download_env =
  de_libs :: access_libs
  de_wire :: wire_lib
  de_cbor :: cbor_lib
  de_rpc :: chain_rpc
  de_max_concurrent :: nat
  de_send_error :: "nat \<Rightarrow> string option"  \<comment> \<open>by the number of requests sent before\<close>
  de_io :: "nat \<Rightarrow> io_env"
  de_index_io :: mi_env
  de_create_error :: "string option"
  de_write_error :: "nat \<Rightarrow> string option"

datatype download_error =
    InvalidRoot string
  | SnapshotFailed u64 string
  | SnapshotAddrParse string
  | SnapshotEmpty u64
  | ChainParamsFailed string
  | EmptyAssignedSet u32 nat u32
  | ManifestExhausted nat nat nat nat string  \<comment> \<open>tried, assigned, resolvable, unresolvable, last reason\<close>
  | PullFailed u32 string
  | ChunkTimedOut u32
  | ChunkExhausted u32 nat
  | NetworkShutDown
  | StorePutFailed string store_error
  | IndexInsertFailed store_error
  | CreateFailed string
  | WriteFailed string
  | MissingChunk string store_error

definition next_turn :: "(download_world, 'e, turn) act" where
  "next_turn w =
     (case dw_turns w of
        [] \<Rightarrow> Some (Inr DeadlineReached, w)
      | t # ts \<Rightarrow> Some (Inr t, w\<lparr>dw_turns := ts\<rparr>))"

definition addr_to_peer :: "peer_map \<Rightarrow> addr20 \<Rightarrow> peer_id option" where
  "addr_to_peer peers = map_of (rev (map (\<lambda>(p, a). (a, p)) peers))"

definition requests_sent :: "download_world \<Rightarrow> nat" where
  "requests_sent w = length (dw_pulls w) + length (dw_manifest_pulls w)"

definition pull_chunk_v2 :: "download_env \<Rightarrow> peer_id \<Rightarrow> string \<Rightarrow> u64 \<Rightarrow> (download_world, string, unit) act" where
  "pull_chunk_v2 E peer cid n w =
     Some (case de_send_error E (requests_sent w) of None \<Rightarrow> Inr () | Some e \<Rightarrow> Inl e, w\<lparr>dw_pulls := dw_pulls w @ [(peer, cid, n)]\<rparr>)"

definition pull_manifest_v2 :: "download_env \<Rightarrow> peer_id \<Rightarrow> hash \<Rightarrow> (download_world, string, unit) act" where
  "pull_manifest_v2 E peer rt w =
     Some (case de_send_error E (requests_sent w) of None \<Rightarrow> Inr () | Some e \<Rightarrow> Inl e,
           w\<lparr>dw_manifest_pulls := dw_manifest_pulls w @ [(peer, rt)]\<rparr>)"

section \<open>Routing\<close>

record v2_assignment_view =
  av_snapshot :: "addr20 list"
  av_r :: u32
  av_distinct :: "addr20 set"
  av_per_chunk :: "(u32 \<times> addr20 list) list"

fun assign_chunks :: "wire_lib \<Rightarrow> hash \<Rightarrow> addr20 list \<Rightarrow> u32 \<Rightarrow> u32 list \<Rightarrow> download_error + (u32 \<times> addr20 list) list" where
  "assign_chunks W rt snapshot r [] = Inr []"
| "assign_chunks W rt snapshot r (i # ixs) =
     (let assigned = assigned_archives W rt snapshot i r in
      if assigned = [] then Inl (EmptyAssignedSet i (length snapshot) r)
      else map_sum id ((#) (i, assigned)) (assign_chunks W rt snapshot r ixs))"

definition build_v2_assignment_view ::
    "download_env \<Rightarrow> storage_file_info_v2 \<Rightarrow> hash \<Rightarrow> u32 list \<Rightarrow> (download_world, download_error, v2_assignment_view) act" where
  "build_v2_assignment_view E info rt chunk_indices =
     (let h = fi_assignment_height info in
      bind_act (map_err (SnapshotFailed h) (call (\<lambda>n. cr_active_nodes (de_rpc E) n h))) (\<lambda>raw.
      bind_act (map_err SnapshotAddrParse (lift (decode_addresses (de_libs E) (filter_active_archives raw)))) (\<lambda>decoded.
        (let snapshot = sort decoded in
         bind_act (require (snapshot \<noteq> []) (SnapshotEmpty h)) (\<lambda>_.
         bind_act (map_err ChainParamsFailed (call (cr_chain_params (de_rpc E)))) (\<lambda>params.
           (let r = cpi_assignment_replication_factor params in
            bind_act (lift (assign_chunks (de_wire E) rt snapshot r chunk_indices)) (\<lambda>per_chunk.
              ret \<lparr>av_snapshot = snapshot, av_r = r, av_distinct = \<Union>(set ` snd ` set per_chunk), av_per_chunk = per_chunk\<rparr>))))))))"

definition UNRESOLVED_ARCHIVE_GRACE :: nat where "UNRESOLVED_ARCHIVE_GRACE = 5 * 10 ^ 9"

fun scan_archives :: "nat \<Rightarrow> addr20 list \<Rightarrow> (addr20 \<Rightarrow> peer_id option) \<Rightarrow> bool \<Rightarrow> (nat \<times> peer_id) option" where
  "scan_archives pos [] resolved skip = None"
| "scan_archives pos (a # rest) resolved skip =
     (case resolved a of
        Some p \<Rightarrow> Some (pos, p)
      | None \<Rightarrow> if skip then scan_archives (Suc pos) rest resolved skip else None)"

definition next_assigned_archive :: "addr20 list \<Rightarrow> nat \<Rightarrow> (addr20 \<Rightarrow> peer_id option) \<Rightarrow> bool \<Rightarrow> (nat \<times> peer_id) option" where
  "next_assigned_archive order next resolved skip_unresolved = scan_archives next (drop next order) resolved skip_unresolved"

text \<open>\<open>rotate_right\<close> of an index range panics outside the slice.\<close>

definition mark_archive_asked :: "addr20 list \<Rightarrow> nat \<Rightarrow> nat \<Rightarrow> (addr20 list \<times> nat) option" where
  "mark_archive_asked order next pos =
     (if next \<le> pos \<and> pos < length order
      then Some (take next order @ [order ! pos] @ take (pos - next) (drop next order) @ drop (Suc pos) order, Suc next)
      else None)"

datatype manifest_decode_error = CborError string | RootDiffers string string | InvalidManifest string

definition decode_v2_manifest_bytes :: "digest_lib \<Rightarrow> cbor_lib \<Rightarrow> bytes \<Rightarrow> hash \<Rightarrow> manifest_decode_error + data_manifest" where
  "decode_v2_manifest_bytes L B manifest_bytes expected_root =
     (case cbor_de B manifest_bytes of
        Inl e \<Rightarrow> Inl (CborError e)
      | Inr m \<Rightarrow>
          if merkle_root m \<noteq> expected_root then Inl (RootDiffers (hex_encode (merkle_root m)) (hex_encode expected_root))
          else
            (case validate_manifest_push L B (hex_encode expected_root) manifest_bytes of
               Inl e \<Rightarrow> Inl (InvalidManifest e)
             | Inr _ \<Rightarrow> Inr m))"

definition parse_root_hex_32 :: "access_libs \<Rightarrow> string \<Rightarrow> string + hash" where
  "parse_root_hex_32 X s =
     (case xl_hex_decode X (case strip_prefix ''0x'' s of Some t \<Rightarrow> t | None \<Rightarrow> s) of
        Inl e \<Rightarrow> Inl (''invalid hex: '' @ e)
      | Inr b \<Rightarrow> if length b \<noteq> 32 then Inl (''root must be 32 bytes (got '' @ dec_of_nat (length b) @ '' bytes)'') else Inr b)"

section \<open>The manifest\<close>

datatype archive_status = Untried | Dispatched | StatusFailed

record manifest_fetch =
  mf_status :: "(addr20 \<times> archive_status) list"
  mf_dispatched :: "peer_id \<Rightarrow> addr20 option"
  mf_reason :: string

definition status_count :: "archive_status \<Rightarrow> manifest_fetch \<Rightarrow> nat" where
  "status_count s mf = length (filter (\<lambda>x. snd x = s) (mf_status mf))"

definition fail_archive :: "addr20 \<Rightarrow> string \<Rightarrow> manifest_fetch \<Rightarrow> manifest_fetch" where
  "fail_archive a reason mf = mf\<lparr>mf_status := AList.update a StatusFailed (mf_status mf), mf_reason := reason\<rparr>"

fun dispatch_archives :: "download_env \<Rightarrow> hash \<Rightarrow> (addr20 \<Rightarrow> peer_id option) \<Rightarrow> nat \<Rightarrow> addr20 list \<Rightarrow> manifest_fetch \<Rightarrow> (download_world, 'e, manifest_fetch) act" where
  "dispatch_archives E rt resolved remaining [] mf = ret mf"
| "dispatch_archives E rt resolved remaining (a # rest) mf =
     (if remaining = 0 then ret mf
      else
        (case resolved a of
           None \<Rightarrow> dispatch_archives E rt resolved remaining rest mf
         | Some peer \<Rightarrow>
             bind_act (attempt (pull_manifest_v2 E peer rt)) (\<lambda>r.
               case r of
                 Inr _ \<Rightarrow> dispatch_archives E rt resolved (remaining - 1) rest
                   (mf\<lparr>mf_status := AList.update a Dispatched (mf_status mf), mf_dispatched := (mf_dispatched mf)(peer \<mapsto> a)\<rparr>)
               | Inl _ \<Rightarrow> dispatch_archives E rt resolved remaining rest (mf\<lparr>mf_status := AList.update a StatusFailed (mf_status mf)\<rparr>))))"

definition dispatch_wave :: "download_env \<Rightarrow> hash \<Rightarrow> nat \<Rightarrow> manifest_fetch \<Rightarrow> (download_world, 'e, manifest_fetch) act" where
  "dispatch_wave E rt fanout mf =
     bind_act (gets dw_peers) (\<lambda>peers.
       dispatch_archives E rt (addr_to_peer peers) (fanout - status_count Dispatched mf)
         (sort (map fst (filter (\<lambda>x. snd x = Untried) (mf_status mf)))) mf)"

definition all_failed :: "v2_assignment_view \<Rightarrow> manifest_fetch \<Rightarrow> string \<Rightarrow> (download_world, download_error, 'a) act" where
  "all_failed view mf reason =
     bind_act (gets dw_peers) (\<lambda>peers.
       (let assigned_total = card (av_distinct view);
            resolvable = card {a \<in> av_distinct view. addr_to_peer peers a \<noteq> None};
            tried = length (mf_status mf) - status_count Untried mf in
        fail (ManifestExhausted tried assigned_total resolvable (assigned_total - resolvable) reason)))"

definition observe_peer :: "sum_net_event \<Rightarrow> (download_world, 'e, unit) act" where
  "observe_peer ev = modify (\<lambda>w. w\<lparr>dw_peers := snd (apply_peer_event (dw_peers w) ev)\<rparr>)"

definition decode_reason :: "addr20 \<Rightarrow> manifest_decode_error \<Rightarrow> string" where
  "decode_reason a e =
     ''archive '' @ hex_encode a @
     (case e of RootDiffers got _ \<Rightarrow> '' root mismatch (got '' @ got @ '')'' | InvalidManifest e \<Rightarrow> '' invalid manifest: '' @ e
      | CborError e \<Rightarrow> '' CBOR decode: '' @ e)"

text \<open>One turn: the manifest, or the table to go on with.\<close>

definition on_manifest_turn ::
    "download_env \<Rightarrow> v2_assignment_view \<Rightarrow> hash \<Rightarrow> nat \<Rightarrow> turn \<Rightarrow> manifest_fetch \<Rightarrow> (download_world, download_error, data_manifest + manifest_fetch) act" where
  "on_manifest_turn E view rt fanout t mf =
     (let again = (\<lambda>mf. bind_act (dispatch_wave E rt fanout mf) (\<lambda>mf. ret (Inr mf))) in
      case t of
        DeadlineReached \<Rightarrow> all_failed view mf (''manifest fetch deadline exceeded; previous: '' @ mf_reason mf)
      | NetworkDown \<Rightarrow> all_failed view mf (''network shut down mid-fetch; previous: '' @ mf_reason mf)
      | GraceElapsed \<Rightarrow> ret (Inr mf)
      | ShardRequestFailed peer err origin \<Rightarrow>
          if requested_manifest_root origin \<noteq> Some rt then ret (Inr mf)
          else
            (case mf_dispatched mf peer of
               None \<Rightarrow> ret (Inr mf)
             | Some a \<Rightarrow>
                 if map_of (mf_status mf) a = Some Dispatched
                 then again (fail_archive a (''archive '' @ hex_encode a @ '' outbound failure: '' @ err) mf)
                 else ret (Inr mf))
      | Event ev \<Rightarrow>
         (case ev of
            PeerIdentified _ _ \<Rightarrow> bind_act (observe_peer ev) (\<lambda>_. again mf)
          | PeerDisconnected _ \<Rightarrow> bind_act (observe_peer ev) (\<lambda>_. again mf)
          | ShardReceivedV2 peer (ManifestData root_seen manifest_bytes error) \<Rightarrow>
              if root_seen \<noteq> rt then ret (Inr mf)
              else
                (case mf_dispatched mf peer of
                   None \<Rightarrow> ret (Inr mf)
                 | Some a \<Rightarrow>
                     if map_of (mf_status mf) a \<noteq> Some Dispatched then ret (Inr mf)
                     else
                       (case error of
                          Some err \<Rightarrow> again (fail_archive a (''archive '' @ hex_encode a @ '' peer error: '' @ err) mf)
                        | None \<Rightarrow>
                            (case decode_v2_manifest_bytes (xl_digest (de_libs E)) (de_cbor E) manifest_bytes rt of
                               Inr m \<Rightarrow> ret (Inl m)
                             | Inl e \<Rightarrow> again (fail_archive a (decode_reason a e) mf))))
          | _ \<Rightarrow> ret (Inr mf)))"

fun manifest_turns ::
    "download_env \<Rightarrow> v2_assignment_view \<Rightarrow> hash \<Rightarrow> nat \<Rightarrow> nat \<Rightarrow> manifest_fetch \<Rightarrow> (download_world, download_error, data_manifest) act" where
  "manifest_turns E view rt fanout fuel mf =
     (if list_all (\<lambda>x. snd x = StatusFailed) (mf_status mf) then all_failed view mf (mf_reason mf)
      else
        bind_act next_turn (\<lambda>t.
        bind_act (on_manifest_turn E view rt fanout t mf) (\<lambda>r.
          case r of
            Inl m \<Rightarrow> ret m
          | Inr mf' \<Rightarrow> (case fuel of 0 \<Rightarrow> all_failed view mf' (mf_reason mf') | Suc fuel' \<Rightarrow> manifest_turns E view rt fanout fuel' mf'))))"

declare manifest_turns.simps [simp del]

definition fetch_v2_public_manifest :: "download_env \<Rightarrow> v2_assignment_view \<Rightarrow> hash \<Rightarrow> (download_world, download_error, data_manifest) act" where
  "fetch_v2_public_manifest E view rt =
     (let fanout = min (max (de_max_concurrent E) 1) (card (av_distinct view)) in
      bind_act (dispatch_wave E rt fanout
        \<lparr>mf_status = map (\<lambda>a. (a, Untried)) (sorted_list_of_set (av_distinct view)), mf_dispatched = Map.empty, mf_reason = ''no responses received''\<rparr>) (\<lambda>mf.
      bind_act (gets (\<lambda>w. length (dw_turns w))) (\<lambda>n. manifest_turns E view rt fanout n mf)))"

section \<open>The chunks\<close>

record chunk_fetch =
  cf_assigned :: "addr20 list"
  cf_next :: nat
  cf_in_flight :: "(peer_id \<times> addr20) option"
  cf_done :: bool

record public_dispatch =
  pd_chunk_index :: u32
  pd_peer_id :: peer_id
  pd_assigned_pos :: nat

type_synonym chunk_table = "(u32 \<times> chunk_fetch) list"

definition flights :: "chunk_table \<Rightarrow> nat" where
  "flights st = length (filter (\<lambda>x. cf_in_flight (snd x) \<noteq> None) st)"

fun select_chunks :: "chunk_table \<Rightarrow> (addr20 \<Rightarrow> peer_id option) \<Rightarrow> nat \<Rightarrow> bool \<Rightarrow> nat \<Rightarrow> chunk_descriptor list \<Rightarrow> public_dispatch list" where
  "select_chunks st resolved cap skip in_flight [] = []"
| "select_chunks st resolved cap skip in_flight (cd # cds) =
     (if in_flight \<ge> cap then []
      else
        (case map_of st (cd_index cd) of
           None \<Rightarrow> select_chunks st resolved cap skip in_flight cds
         | Some s \<Rightarrow>
             if cf_done s \<or> cf_in_flight s \<noteq> None then select_chunks st resolved cap skip in_flight cds
             else
               (case next_assigned_archive (cf_assigned s) (cf_next s) resolved skip of
                  None \<Rightarrow> select_chunks st resolved cap skip in_flight cds
                | Some (pos, p) \<Rightarrow>
                    \<lparr>pd_chunk_index = cd_index cd, pd_peer_id = p, pd_assigned_pos = pos\<rparr>
                      # select_chunks st resolved cap skip (Suc in_flight) cds)))"

definition select_public_chunk_dispatches ::
    "chunk_table \<Rightarrow> chunk_descriptor list \<Rightarrow> (addr20 \<Rightarrow> peer_id option) \<Rightarrow> nat \<Rightarrow> bool \<Rightarrow> public_dispatch list" where
  "select_public_chunk_dispatches st cds resolved max_concurrent skip_unresolved =
     select_chunks st resolved (max max_concurrent 1) skip_unresolved (flights st) cds"

definition unresolved_next_archives :: "chunk_table \<Rightarrow> (addr20 \<Rightarrow> peer_id option) \<Rightarrow> addr20 list" where
  "unresolved_next_archives st resolved =
     remdups_adj (sort (filter (\<lambda>a. resolved a = None) (List.map_filter (\<lambda>s.
       if cf_next s < length (cf_assigned s) then Some (cf_assigned s ! cf_next s) else None)
         (filter (\<lambda>s. \<not> cf_done s \<and> cf_in_flight s = None) (map snd st)))))"

text \<open>An index that is not in the manifest or not in the table would panic.\<close>

fun send_dispatches :: "download_env \<Rightarrow> data_manifest \<Rightarrow> public_dispatch list \<Rightarrow> chunk_table \<Rightarrow> (download_world, download_error, chunk_table) act" where
  "send_dispatches E m [] st = ret st"
| "send_dispatches E m (d # ds) st =
     (case find (\<lambda>c. cd_index c = pd_chunk_index d) (chunks m) of
        None \<Rightarrow> (\<lambda>_. None)
      | Some cd \<Rightarrow>
          bind_act (map_err (PullFailed (cd_index cd)) (pull_chunk_v2 E (pd_peer_id d) (cd_cid cd) (cd_size cd))) (\<lambda>_.
            case map_of st (cd_index cd) of
              None \<Rightarrow> (\<lambda>_. None)
            | Some s \<Rightarrow>
                (case mark_archive_asked (cf_assigned s) (cf_next s) (pd_assigned_pos d) of
                   None \<Rightarrow> (\<lambda>_. None)
                 | Some (order, nxt) \<Rightarrow>
                     send_dispatches E m ds (AList.update (cd_index cd)
                       (s\<lparr>cf_assigned := order, cf_next := nxt, cf_in_flight := Some (pd_peer_id d, cf_assigned s ! pd_assigned_pos d)\<rparr>) st))))"

definition try_dispatch :: "download_env \<Rightarrow> data_manifest \<Rightarrow> bool \<Rightarrow> chunk_table \<Rightarrow> (download_world, download_error, chunk_table) act" where
  "try_dispatch E m skip_unresolved st =
     bind_act (gets dw_peers) (\<lambda>peers.
       send_dispatches E m (select_public_chunk_dispatches st (chunks m) (addr_to_peer peers) (de_max_concurrent E) skip_unresolved) st)"

record fetch_outcome_v2 =
  fo_fetched :: u32
  fo_skipped :: u32
  fo_attribution :: "peer_id \<Rightarrow> u32 option"
  fo_contacted :: "peer_id set"

record chunk_progress =
  pg_table :: chunk_table
  pg_skip :: bool
  pg_fetched :: u32
  pg_attribution :: "peer_id \<Rightarrow> u32 option"
  pg_contacted :: "peer_id set"

definition cid_to_idx :: "data_manifest \<Rightarrow> string \<Rightarrow> u32 option" where
  "cid_to_idx m = map_of (rev (map (\<lambda>c. (cd_cid c, cd_index c)) (chunks m)))"

definition local_put :: "download_env \<Rightarrow> string \<Rightarrow> bytes \<Rightarrow> (download_world, store_error, unit) act" where
  "local_put E cid dat w =
     (case put (xl_digest (de_libs E)) (de_io E (dw_disk w)) (dw_store w) cid dat of
        (r, s) \<Rightarrow> Some (r, w\<lparr>dw_store := s, dw_disk := Suc (dw_disk w)\<rparr>))"

definition redispatch :: "download_env \<Rightarrow> data_manifest \<Rightarrow> chunk_progress \<Rightarrow> (download_world, download_error, chunk_progress) act" where
  "redispatch E m pg = bind_act (try_dispatch E m (pg_skip pg) (pg_table pg)) (\<lambda>st. ret (pg\<lparr>pg_table := st\<rparr>))"

text \<open>A chunk whose archive did not deliver: the next archive, unless all have been asked.\<close>

definition chunk_missed :: "download_env \<Rightarrow> data_manifest \<Rightarrow> u32 \<Rightarrow> chunk_fetch \<Rightarrow> chunk_progress \<Rightarrow> (download_world, download_error, chunk_progress) act" where
  "chunk_missed E m i s pg =
     bind_act (require (\<not> cf_next s \<ge> length (cf_assigned s)) (ChunkExhausted i (length (cf_assigned s)))) (\<lambda>_.
       redispatch E m (pg\<lparr>pg_table := AList.update i (s\<lparr>cf_in_flight := None\<rparr>) (pg_table pg)\<rparr>))"

definition on_chunk_data ::
    "download_env \<Rightarrow> data_manifest \<Rightarrow> peer_id \<Rightarrow> string \<Rightarrow> u64 \<Rightarrow> u64 \<Rightarrow> bytes \<Rightarrow> string option \<Rightarrow> chunk_progress
       \<Rightarrow> (download_world, download_error, chunk_progress) act" where
  "on_chunk_data E m peer cid offset total_bytes dat error pg =
     (case cid_to_idx m cid of
        None \<Rightarrow> ret pg
      | Some i \<Rightarrow>
         (case map_of (pg_table pg) i of
            None \<Rightarrow> (\<lambda>_. None)
          | Some s \<Rightarrow>
              if cf_done s then ret pg
              else
                (case cf_in_flight s of
                   None \<Rightarrow> ret pg
                 | Some (expected_peer, attempted) \<Rightarrow>
                     if peer \<noteq> expected_peer then ret pg
                     else
                       (case find (\<lambda>c. cd_index c = i) (chunks m) of
                          None \<Rightarrow> (\<lambda>_. None)
                        | Some cd \<Rightarrow>
                            if error \<noteq> None then chunk_missed E m i s pg
                            else if offset \<noteq> 0 \<or> total_bytes \<noteq> cd_size cd \<or> u64_of (length dat) \<noteq> cd_size cd then chunk_missed E m i s pg
                            else if blake3 (xl_digest (de_libs E)) dat \<noteq> cd_hash cd then chunk_missed E m i s pg
                            else
                              bind_act (map_err (StorePutFailed (cd_cid cd)) (local_put E (cd_cid cd) dat)) (\<lambda>_.
                                redispatch E m (pg\<lparr>pg_table := AList.update i (s\<lparr>cf_in_flight := None, cf_done := True\<rparr>) (pg_table pg),
                                  pg_fetched := pg_fetched pg + 1,
                                  pg_attribution := (pg_attribution pg)(peer \<mapsto> (case pg_attribution pg peer of None \<Rightarrow> 0 | Some n \<Rightarrow> n) + 1),
                                  pg_contacted := insert peer (pg_contacted pg)\<rparr>))))))"

definition next_missing :: "data_manifest \<Rightarrow> chunk_table \<Rightarrow> u32" where
  "next_missing m st =
     (case find (\<lambda>i. case map_of st i of None \<Rightarrow> False | Some s \<Rightarrow> \<not> cf_done s) (map cd_index (chunks m)) of None \<Rightarrow> 0 | Some i \<Rightarrow> i)"

definition wedged_idx :: "data_manifest \<Rightarrow> chunk_table \<Rightarrow> peer_id \<Rightarrow> outbound_origin \<Rightarrow> (u32 \<times> chunk_fetch) option" where
  "wedged_idx m st peer origin =
     (case requested_cid origin of
        None \<Rightarrow> None
      | Some cid \<Rightarrow>
         (case cid_to_idx m cid of
            None \<Rightarrow> None
          | Some i \<Rightarrow>
             (case map_of st i of
                None \<Rightarrow> None
              | Some s \<Rightarrow> (case cf_in_flight s of Some (p, _) \<Rightarrow> if p = peer then Some (i, s) else None | None \<Rightarrow> None))))"

definition on_chunk_turn :: "download_env \<Rightarrow> data_manifest \<Rightarrow> turn \<Rightarrow> chunk_progress \<Rightarrow> (download_world, download_error, chunk_progress) act" where
  "on_chunk_turn E m t pg =
     (case t of
        GraceElapsed \<Rightarrow> if pg_skip pg then ret pg else redispatch E m (pg\<lparr>pg_skip := True\<rparr>)
      | DeadlineReached \<Rightarrow> fail (ChunkTimedOut (next_missing m (pg_table pg)))
      | NetworkDown \<Rightarrow> fail NetworkShutDown
      | ShardRequestFailed peer _ origin \<Rightarrow>
          (case wedged_idx m (pg_table pg) peer origin of
             None \<Rightarrow> ret pg
           | Some (i, s) \<Rightarrow> chunk_missed E m i s pg)
      | Event ev \<Rightarrow>
         (case ev of
            PeerIdentified _ _ \<Rightarrow> bind_act (observe_peer ev) (\<lambda>_. redispatch E m pg)
          | PeerDisconnected _ \<Rightarrow> bind_act (observe_peer ev) (\<lambda>_. redispatch E m pg)
          | ShardReceivedV2 peer (Data cid offset total_bytes dat error) \<Rightarrow> on_chunk_data E m peer cid offset total_bytes dat error pg
          | _ \<Rightarrow> ret pg))"

fun chunk_turns :: "download_env \<Rightarrow> data_manifest \<Rightarrow> nat \<Rightarrow> chunk_progress \<Rightarrow> (download_world, download_error, chunk_progress) act" where
  "chunk_turns E m fuel pg =
     (if list_all (\<lambda>x. cf_done (snd x)) (pg_table pg) then ret pg
      else
        bind_act next_turn (\<lambda>t.
        bind_act (on_chunk_turn E m t pg) (\<lambda>pg'.
          case fuel of 0 \<Rightarrow> fail (ChunkTimedOut (next_missing m (pg_table pg'))) | Suc fuel' \<Rightarrow> chunk_turns E m fuel' pg')))"

declare chunk_turns.simps [simp del]

definition first_table :: "download_env \<Rightarrow> v2_assignment_view \<Rightarrow> io_env \<Rightarrow> pub_store \<Rightarrow> data_manifest \<Rightarrow> chunk_table" where
  "first_table E view env s m =
     fold (\<lambda>cd. AList.update (cd_index cd)
       \<lparr>cf_assigned = (case map_of (av_per_chunk view) (cd_index cd) of None \<Rightarrow> [] | Some a \<Rightarrow> a), cf_next = 0, cf_in_flight = None,
        cf_done = has env s (cd_cid cd)\<rparr>) (chunks m) []"

definition fetch_v2_public_chunks :: "download_env \<Rightarrow> v2_assignment_view \<Rightarrow> data_manifest \<Rightarrow> (download_world, download_error, fetch_outcome_v2) act" where
  "fetch_v2_public_chunks E view m =
     bind_act (gets id) (\<lambda>w.
       (let env = de_io E (dw_disk w) in
        bind_act (try_dispatch E m False (first_table E view env (dw_store w) m)) (\<lambda>st.
        bind_act (chunk_turns E m (length (dw_turns w))
          \<lparr>pg_table = st, pg_skip = False, pg_fetched = 0, pg_attribution = Map.empty, pg_contacted = {}\<rparr>) (\<lambda>pg.
          ret \<lparr>fo_fetched = pg_fetched pg, fo_skipped = u32_of (length (filter (\<lambda>cd. has env (dw_store w) (cd_cid cd)) (chunks m))),
               fo_attribution = pg_attribution pg, fo_contacted = pg_contacted pg\<rparr>))))"

section \<open>Assembly and the whole download\<close>

fun write_chunks :: "download_env \<Rightarrow> chunk_descriptor list \<Rightarrow> u64 \<Rightarrow> (download_world, download_error, u64) act" where
  "write_chunks E [] total_bytes = ret total_bytes"
| "write_chunks E (c # cs) total_bytes =
     bind_act (gets id) (\<lambda>w.
       case get (de_io E (dw_disk w)) (dw_store w) (cd_cid c) of
         Inl e \<Rightarrow> fail (MissingChunk (cd_cid c) e)
       | Inr dat \<Rightarrow>
           bind_act (modify (\<lambda>w. w\<lparr>dw_disk := Suc (dw_disk w)\<rparr>)) (\<lambda>_.
           (case de_write_error E (dw_disk w) of
              Some e \<Rightarrow> fail (WriteFailed e)
            | None \<Rightarrow>
                bind_act (modify (\<lambda>w. w\<lparr>dw_output := Some (the (dw_output w) @ dat)\<rparr>)) (\<lambda>_.
                  write_chunks E cs (total_bytes + u64_of (length dat))))))"

definition create_output :: "download_env \<Rightarrow> (download_world, download_error, unit) act" where
  "create_output E =
     (case de_create_error E of Some e \<Rightarrow> fail (CreateFailed e) | None \<Rightarrow> modify (\<lambda>w. w\<lparr>dw_output := Some []\<rparr>))"

text \<open>A root that does not match is logged only; \<open>flush\<close> of a \<open>std::fs::File\<close> does nothing.\<close>

definition assemble :: "download_env \<Rightarrow> data_manifest \<Rightarrow> (download_world, download_error, u64) act" where
  "assemble E m = bind_act (create_output E) (\<lambda>_. write_chunks E (chunks m) 0)"

record download_result =
  dr_fetched :: u32
  dr_skipped :: u32
  dr_total_bytes :: u64
  dr_merkle_verified :: bool
  dr_attribution :: "peer_id \<Rightarrow> u32 option"
  dr_contacted :: "peer_id set"

definition remember_manifest :: "download_env \<Rightarrow> data_manifest \<Rightarrow> (download_world, download_error, unit) act" where
  "remember_manifest E m w =
     (if get_by_merkle_root (dw_index w) (merkle_root m) \<noteq> None then Some (Inr (), w)
      else
        (case mi_insert (de_cbor E) (de_index_io E) (dw_index w) (dw_mdir w) m of
           (r, idx, d) \<Rightarrow> Some (map_sum IndexInsertFailed id r, w\<lparr>dw_index := idx, dw_mdir := d\<rparr>)))"

definition run_v2_public_with_manifest ::
    "download_env \<Rightarrow> storage_file_info_v2 \<Rightarrow> (download_world, download_error, download_result \<times> data_manifest) act" where
  "run_v2_public_with_manifest E info =
     bind_act (map_err InvalidRoot (lift (parse_root_hex_32 (de_libs E) (fi_merkle_root info)))) (\<lambda>chain_root.
     bind_act (build_v2_assignment_view E info chain_root (index_list (fi_chunk_count info))) (\<lambda>view.
     bind_act (fetch_v2_public_manifest E view chain_root) (\<lambda>m.
       if chunk_count m = 0 then
         bind_act (create_output E) (\<lambda>_.
           ret (\<lparr>dr_fetched = 0, dr_skipped = 0, dr_total_bytes = 0, dr_merkle_verified = True, dr_attribution = Map.empty, dr_contacted = {}\<rparr>, m))
       else
         bind_act (remember_manifest E m) (\<lambda>_.
         bind_act (fetch_v2_public_chunks E view m) (\<lambda>out.
         bind_act (assemble E m) (\<lambda>total_bytes.
           ret (\<lparr>dr_fetched = fo_fetched out, dr_skipped = fo_skipped out, dr_total_bytes = total_bytes, dr_merkle_verified = True,
                 dr_attribution = fo_attribution out, dr_contacted = fo_contacted out\<rparr>, m)))))))"

definition run_v2_public :: "download_env \<Rightarrow> storage_file_info_v2 \<Rightarrow> (download_world, download_error, download_result) act" where
  "run_v2_public E info = bind_act (run_v2_public_with_manifest E info) (\<lambda>(result, _). ret result)"

end
