(* ===== verification/Download_Correct.thy ===== *)
theory Download_Correct
  imports Download_V2 Ingest_Push
begin

text \<open>
  What the download of a Public V2 file guarantees (\<open>sum-node/src/download.rs\<close>): whatever the peers send,
  the output is made of the chunks of a manifest with the chain's root, archives outside the assignment are
  never asked, and every run ends. Two shortcomings are shown as well: the number of chunks is not compared with the
  chain's, and a file with two equal chunks cannot be fetched.
\<close>

section \<open>A root and a number of leaves determine the leaves\<close>

text \<open>The first pair of inputs, level by level, that two different leaf lists with one root hash alike.\<close>

fun pair_collision :: "hash list \<Rightarrow> hash list \<Rightarrow> (bytes \<times> bytes) option" where
  "pair_collision (x # y # r) (x' # y' # r') = (if x @ y \<noteq> x' @ y' then Some (x @ y, x' @ y') else pair_collision r r')"
| "pair_collision [x] [x'] = (if x \<noteq> x' then Some (x @ x, x' @ x') else None)"
| "pair_collision _ _ = None"

function root_collision :: "(bytes \<Rightarrow> hash) \<Rightarrow> hash list \<Rightarrow> hash list \<Rightarrow> (bytes \<times> bytes) option" where
  "root_collision H xs ys =
     (if length xs \<le> 1 then None
      else if next_level H xs = next_level H ys then pair_collision xs ys
      else root_collision H (next_level H xs) (next_level H ys))"
  by pat_completeness auto
termination
  by (relation "measure (\<lambda>(H, xs, ys). length xs)") auto

declare root_collision.simps [simp del]

lemma pair_collision_found:
  assumes "next_level H xs = next_level H ys" and "length xs = length ys" and "xs \<noteq> ys" and "\<forall>h \<in> set xs \<union> set ys. length h = 32"
  shows "is_collision H (pair_collision xs ys)"
  using assms by (induction xs ys rule: pair_collision.induct) (auto simp: is_collision_def hash_pair_def split: if_splits)

lemma root_next_level:
  assumes "1 < length xs"
  shows "root (build H xs) = root (build H (next_level H xs))"
proof -
  have b: "build_levels H xs = next_level H xs # build_levels H (next_level H xs)" using assms by (simp add: build_levels.simps[of H xs])
  have "length (next_level H xs) \<noteq> 0" using assms by simp
  then have n: "next_level H xs \<noteq> []" by (simp only: length_0_conv not_False_eq_True)
  show ?thesis
  proof (cases "length (next_level H xs) = 1")
    case True
    then have "build_levels H (next_level H xs) = []" by (simp add: build_levels.simps)
    then show ?thesis using assms True b n by (auto simp: build_def root_def split: list.splits)
  next
    case False
    then show ?thesis using assms b n by (auto simp: build_def root_def split: list.splits)
  qed
qed

lemma root_determines_leaves:
  assumes "\<forall>d. length (H d) = 32" and "length xs = length ys" and "\<forall>h \<in> set xs \<union> set ys. length h = 32"
    and "root (build H xs) = root (build H ys)"
  shows "xs = ys \<or> is_collision H (root_collision H xs ys)"
  using assms
proof (induction H xs ys rule: root_collision.induct)
  case (1 H xs ys)
  show ?case
  proof (cases "length xs \<le> 1")
    case True
    then show ?thesis using "1.prems" by (cases xs; cases ys) (auto simp: build_def root_def)
  next
    case False
    then have r: "root (build H (next_level H xs)) = root (build H (next_level H ys))"
      using "1.prems" root_next_level[of xs H] root_next_level[of ys H] by simp
    show ?thesis
    proof (cases "next_level H xs = next_level H ys")
      case True
      then show ?thesis using pair_collision_found[OF True "1.prems"(2) _ "1.prems"(3)] False by (auto simp: root_collision.simps[of H xs])
    next
      case next_differ: False
      have "next_level H xs = next_level H ys \<or> is_collision H (root_collision H (next_level H xs) (next_level H ys))"
        using "1.IH"[OF False next_differ] "1.prems" r next_level_hashes[of H] by auto
      then show ?thesis using next_differ False by (simp add: root_collision.simps[of H xs])
    qed
  qed
qed

section \<open>What is known of the world\<close>

text \<open>
  \<open>S\<close> holds the addresses peers have reported or will report: the peers known at the start and the identifications
  among the turns. \<open>roaming\<close>: the peer table stays within it, and the store stays content addressed.
\<close>

definition sighted :: "download_world \<Rightarrow> (peer_id \<times> addr20) set" where
  "sighted w = set (dw_peers w) \<union> {(p, a). Event (PeerIdentified p a) \<in> set (dw_turns w)}"

definition roaming :: "digest_lib \<Rightarrow> (peer_id \<times> addr20) set \<Rightarrow> download_world \<Rightarrow> bool" where
  "roaming L S w \<longleftrightarrow> sighted w \<subseteq> S \<and> store_inv L (dw_store w)"

lemma addr_to_peer_Some: "addr_to_peer peers a = Some p \<Longrightarrow> (p, a) \<in> set peers"
  unfolding addr_to_peer_def by (drule map_of_SomeD) auto

lemma apply_peer_event_sub: "set (snd (apply_peer_event ps ev)) \<subseteq> set ps \<union> {(p, a). ev = PeerIdentified p a}"
proof (cases ev)
  case (PeerIdentified p a)
  have "set (AList.update p a ps) \<subseteq> insert (p, a) (set ps)" by (induction ps) auto
  then show ?thesis using PeerIdentified by (auto simp: apply_peer_event_def)
qed (auto simp: apply_peer_event_def AList.delete_eq split: if_splits)

lemma ensures_gets: "ensures P (gets g) (\<lambda>a w. P w \<and> a = g w) R"
  by (simp add: ensures_def gets_def)

lemma ensures_fix_bind:
  assumes "\<And>w0. P w0 \<Longrightarrow> ensures P (f (g w0)) Q R"
  shows "ensures P (bind_act (gets g) f) Q R"
  using assms by (auto simp: ensures_def gets_def bind_act_def)

section \<open>The manifest\<close>

lemma keys_update: "map_of xs a \<noteq> None \<Longrightarrow> map fst (AList.update a v xs) = map fst xs"
  by (induction xs) (auto split: if_splits)

text \<open>
  Requests for the manifest of \<open>rt\<close>, labelled with the archives they are meant for: each goes to a peer that reported
  the address of its archive, the archives are among \<open>D\<close>, and none occurs twice.
\<close>

definition manifest_requests :: "(peer_id \<times> addr20) set \<Rightarrow> addr20 set \<Rightarrow> hash \<Rightarrow> (peer_id \<times> hash) list \<Rightarrow> addr20 list \<Rightarrow> bool" where
  "manifest_requests S D rt new as \<longleftrightarrow> list_all2 (\<lambda>(p, r) a. r = rt \<and> (p, a) \<in> S) new as \<and> distinct as \<and> set as \<subseteq> D"

text \<open>The table of the fan-out covers the assigned archives; each request took one of them out of \<open>Untried\<close>.\<close>

definition asking :: "digest_lib \<Rightarrow> (peer_id \<times> addr20) set \<Rightarrow> addr20 set \<Rightarrow> hash \<Rightarrow> (peer_id \<times> hash) list \<Rightarrow> (peer_id \<times> string \<times> u64) list
    \<Rightarrow> manifest_fetch \<Rightarrow> download_world \<Rightarrow> bool" where
  "asking L S D rt mps cps mf w \<longleftrightarrow>
     roaming L S w \<and> dw_pulls w = cps \<and> map fst (mf_status mf) = sorted_list_of_set D
   \<and> (\<exists>new as. dw_manifest_pulls w = mps @ new \<and> manifest_requests S D rt new as \<and> (\<forall>a \<in> set as. map_of (mf_status mf) a \<noteq> Some Untried))"

definition requests_ok :: "digest_lib \<Rightarrow> (peer_id \<times> addr20) set \<Rightarrow> addr20 set \<Rightarrow> hash \<Rightarrow> (peer_id \<times> hash) list \<Rightarrow> (peer_id \<times> string \<times> u64) list
    \<Rightarrow> download_world \<Rightarrow> bool" where
  "requests_ok L S D rt mps cps w \<longleftrightarrow>
     roaming L S w \<and> dw_pulls w = cps
   \<and> (\<exists>new as. dw_manifest_pulls w = mps @ new \<and> manifest_requests S D rt new as)"

lemma asking_asked: "asking L S D rt mps cps mf w \<Longrightarrow> requests_ok L S D rt mps cps w"
  by (auto simp: asking_def requests_ok_def)

lemma asking_settled:
  assumes "asking L S D rt mps cps mf w" and "map_of (mf_status mf) a = Some old" and "old \<noteq> Untried" and "v \<noteq> Untried"
  shows "asking L S D rt mps cps (mf\<lparr>mf_status := AList.update a v (mf_status mf), mf_dispatched := dp, mf_reason := rs\<rparr>) w"
proof -
  obtain new as where "dw_manifest_pulls w = mps @ new" "manifest_requests S D rt new as" "\<forall>b \<in> set as. map_of (mf_status mf) b \<noteq> Some Untried"
    using assms(1) by (auto simp: asking_def)
  then show ?thesis using assms unfolding asking_def by (intro conjI exI[of _ new] exI[of _ as]) (auto simp: keys_update update_conv')
qed

lemma pull_manifest_asking:
  assumes "map_of (mf_status mf) a = Some Untried" and "(p, a) \<in> S" and "a \<in> D"
  shows "ensures (asking L S D rt mps cps mf) (attempt (pull_manifest_v2 E p rt))
    (\<lambda>r w. \<forall>v dp. v \<noteq> Untried \<longrightarrow> asking L S D rt mps cps (mf\<lparr>mf_status := AList.update a v (mf_status mf), mf_dispatched := dp\<rparr>) w) R"
proof (unfold ensures_def, intro allI impI)
  fix w assume w: "asking L S D rt mps cps mf w"
  obtain new as where new: "dw_manifest_pulls w = mps @ new" "manifest_requests S D rt new as" "\<forall>b \<in> set as. map_of (mf_status mf) b \<noteq> Some Untried"
    using w by (auto simp: asking_def)
  have "a \<notin> set as" using new(3) assms(1) by auto
  then have r: "manifest_requests S D rt (new @ [(p, rt)]) (as @ [a])"
    using new(2) assms(2,3) by (auto simp: manifest_requests_def list_all2_append list_all2_lengthD)
  have "asking L S D rt mps cps (mf\<lparr>mf_status := AList.update a v (mf_status mf), mf_dispatched := dp\<rparr>)
      (w\<lparr>dw_manifest_pulls := dw_manifest_pulls w @ [(p, rt)]\<rparr>)" if v: "v \<noteq> Untried" for v dp
    using w new r v assms(1) unfolding asking_def roaming_def sighted_def
    by (intro conjI exI[of _ "new @ [(p, rt)]"] exI[of _ "as @ [a]"]) (auto simp: keys_update update_conv')
  then show "\<exists>r w'. attempt (pull_manifest_v2 E p rt) w = Some (r, w') \<and>
      (case r of Inl e \<Rightarrow> R e w' | Inr r \<Rightarrow> \<forall>v dp. v \<noteq> Untried \<longrightarrow> asking L S D rt mps cps (mf\<lparr>mf_status := AList.update a v (mf_status mf), mf_dispatched := dp\<rparr>) w')"
    by (simp add: attempt_def pull_manifest_v2_def)
qed

lemma dispatch_archives_asking:
  fixes R :: "'e \<Rightarrow> download_world \<Rightarrow> bool"
  assumes "distinct as" and "\<forall>a \<in> set as. map_of (mf_status mf) a = Some Untried \<and> a \<in> D" and "\<forall>a p. resolved a = Some p \<longrightarrow> (p, a) \<in> S"
  shows "ensures (asking L S D rt mps cps mf) (dispatch_archives E rt resolved remaining as mf) (asking L S D rt mps cps) R"
  using assms(1,2)
proof (induction as arbitrary: mf remaining)
  case (Cons a as)
  show ?case
  proof (cases "remaining = 0 \<or> resolved a = None")
    case True
    then show ?thesis using Cons by (auto intro: ensures_ret)
  next
    case False
    then obtain p where p: "resolved a = Some p" "(p, a) \<in> S" using assms(3) by auto
    have a: "map_of (mf_status mf) a = Some Untried" "a \<in> D" using Cons.prems by auto
    have keep: "map_of (AList.update a v (mf_status mf)) b = Some Untried \<and> b \<in> D" if "b \<in> set as" for v b
      using that Cons.prems by (auto simp: update_conv')
    let ?mf = "\<lambda>v dp. mf\<lparr>mf_status := AList.update a v (mf_status mf), mf_dispatched := dp\<rparr>"
    have go: "ensures (\<lambda>w. \<forall>v dp. v \<noteq> Untried \<longrightarrow> asking L S D rt mps cps (?mf v dp) w)
        (dispatch_archives E rt resolved k as (?mf v dp)) (asking L S D rt mps cps) R" if "v \<noteq> Untried" for v dp k
      by (rule ensures_weaken[OF Cons.IH[of "?mf v dp" k]]) (use Cons.prems(1) keep that in auto)
    have branch: "ensures (\<lambda>w. \<forall>v dp. v \<noteq> Untried \<longrightarrow> asking L S D rt mps cps (?mf v dp) w)
       (case r of Inr _ \<Rightarrow> dispatch_archives E rt resolved (remaining - 1) as (?mf Dispatched ((mf_dispatched mf)(p \<mapsto> a)))
        | Inl _ \<Rightarrow> dispatch_archives E rt resolved remaining as (mf\<lparr>mf_status := AList.update a StatusFailed (mf_status mf)\<rparr>))
        (asking L S D rt mps cps) R" for r :: "string + unit"
    proof (cases r)
      case (Inl e)
      have "?mf StatusFailed (mf_dispatched mf) = mf\<lparr>mf_status := AList.update a StatusFailed (mf_status mf)\<rparr>" by (cases mf) simp
      then show ?thesis using Inl go[of StatusFailed remaining "mf_dispatched mf"] by simp
    qed (use go[of Dispatched "remaining - 1" "(mf_dispatched mf)(p \<mapsto> a)"] in simp)
    have "(dispatch_archives E rt resolved remaining (a # as) mf :: (download_world, 'e, _) act) = bind_act (attempt (pull_manifest_v2 E p rt)) (\<lambda>r.
       case r of Inr _ \<Rightarrow> dispatch_archives E rt resolved (remaining - 1) as (?mf Dispatched ((mf_dispatched mf)(p \<mapsto> a)))
        | Inl _ \<Rightarrow> dispatch_archives E rt resolved remaining as (mf\<lparr>mf_status := AList.update a StatusFailed (mf_status mf)\<rparr>))"
      using False by (simp only: dispatch_archives.simps p(1) if_False option.case de_Morgan_disj)
    then show ?thesis using ensures_bind[OF pull_manifest_asking[OF a(1) p(2) a(2)] branch, of E "\<lambda>r. r"] by (simp only:)
  qed
qed (auto intro: ensures_ret)

lemma dispatch_wave_asking: "ensures (asking L S D rt mps cps mf) (dispatch_wave E rt fanout mf) (asking L S D rt mps cps) R"
  unfolding dispatch_wave_def
proof (rule ensures_fix_bind)
  fix w assume w: "asking L S D rt mps cps mf w"
  have d: "distinct (map fst (mf_status mf))" and D: "fst ` set (mf_status mf) \<subseteq> D"
    using w by (auto simp: asking_def simp flip: set_map) (metis emptyE empty_set set_sorted_list_of_set sorted_list_of_set.fold_insort_key.infinite)
  let ?as = "sort (map fst (filter (\<lambda>x. snd x = Untried) (mf_status mf)))"
  have "distinct ?as" using d by (simp add: distinct_map_filter)
  moreover have "\<forall>a \<in> set ?as. map_of (mf_status mf) a = Some Untried \<and> a \<in> D" using d D by (auto simp: image_iff)
  moreover have "\<forall>a p. addr_to_peer (dw_peers w) a = Some p \<longrightarrow> (p, a) \<in> S"
    using w by (auto simp: asking_def roaming_def sighted_def dest!: addr_to_peer_Some)
  ultimately show "ensures (asking L S D rt mps cps mf) (dispatch_archives E rt (addr_to_peer (dw_peers w)) (fanout - status_count Dispatched mf) ?as mf)
      (asking L S D rt mps cps) R"
    by (rule dispatch_archives_asking)
qed

lemma all_failed_asked: "ensures (asking L S D rt mps cps mf) (all_failed view mf' reason) Q (\<lambda>_. requests_ok L S D rt mps cps)"
  unfolding all_failed_def by (rule ensures_fix_bind) (auto simp: ensures_def Let_def fail_def intro: asking_asked)

lemma observe_asking:
  assumes "\<And>p a. ev = PeerIdentified p a \<Longrightarrow> (p, a) \<in> S"
  shows "ensures (asking L S D rt mps cps mf) (observe_peer ev) (\<lambda>_. asking L S D rt mps cps mf) R"
  unfolding ensures_def
proof (intro allI impI)
  fix w assume w: "asking L S D rt mps cps mf w"
  have "set (snd (apply_peer_event (dw_peers w) ev)) \<subseteq> S"
    using w assms apply_peer_event_sub[of "dw_peers w" ev] by (auto simp: asking_def roaming_def sighted_def)
  then show "\<exists>r w'. observe_peer ev w = Some (r, w') \<and> (case r of Inl e \<Rightarrow> R e w' | Inr _ \<Rightarrow> asking L S D rt mps cps mf w')"
    using w by (auto simp: observe_peer_def modify_def asking_def roaming_def sighted_def)
qed

definition decodes :: "download_env \<Rightarrow> hash \<Rightarrow> data_manifest \<Rightarrow> bool" where
  "decodes E rt m \<longleftrightarrow> (\<exists>b. decode_v2_manifest_bytes (xl_digest (de_libs E)) (de_cbor E) b rt = Inr m)"

lemma manifest_turn_asking:
  assumes "\<And>p a. t = Event (PeerIdentified p a) \<Longrightarrow> (p, a) \<in> S"
  shows "ensures (asking L S D rt mps cps mf) (on_manifest_turn E view rt fanout t mf)
    (\<lambda>r w. case r of Inl m \<Rightarrow> requests_ok L S D rt mps cps w \<and> decodes E rt m | Inr mf' \<Rightarrow> asking L S D rt mps cps mf' w)
    (\<lambda>_. requests_ok L S D rt mps cps)" (is "ensures ?P _ ?Q' ?R")
proof -
  define Q where "Q = ?Q'"
  have same: "ensures ?P (ret (Inr mf)) Q ?R" by (auto simp: Q_def intro: ensures_ret)
  have again: "ensures (asking L S D rt mps cps mf') (bind_act (dispatch_wave E rt fanout mf') (\<lambda>mf. ret (Inr mf))) Q ?R" for mf'
    by (rule ensures_bind[OF dispatch_wave_asking]) (auto simp: Q_def intro: ensures_ret)
  have failed: "ensures ?P (bind_act (dispatch_wave E rt fanout (fail_archive a reason mf)) (\<lambda>mf. ret (Inr mf))) Q ?R"
    if "map_of (mf_status mf) a = Some Dispatched" for a reason
  proof (rule ensures_weaken[OF again[of "fail_archive a reason mf"]])
    fix w assume "?P w"
    from asking_settled[OF this that, where v = StatusFailed and dp = "mf_dispatched mf" and rs = reason]
    show "asking L S D rt mps cps (fail_archive a reason mf) w" by (cases mf) (simp add: fail_archive_def)
  qed auto
  have "ensures ?P (on_manifest_turn E view rt fanout t mf) Q ?R"
  proof (cases t)
    case (Event ev)
    show ?thesis
    proof (cases ev)
      case (PeerIdentified p a)
      then show ?thesis using ensures_bind[OF observe_asking again, of ev] assms Event by (simp add: on_manifest_turn_def)
    next
      case (PeerDisconnected p)
      then show ?thesis using ensures_bind[OF observe_asking again, of ev] Event by (simp add: on_manifest_turn_def)
    next
      case (ShardReceivedV2 p resp)
      have found: "ensures ?P (ret (Inl m)) Q ?R" if "decodes E rt m" for m
        by (rule ensures_ret) (simp add: Q_def that asking_asked)
      show ?thesis using Event ShardReceivedV2 same failed found
        by (cases resp) (auto simp: on_manifest_turn_def Let_def decodes_def[of E] split: option.split sum.split)
    qed (use Event same in \<open>simp add: on_manifest_turn_def\<close>)
  next
    case (ShardRequestFailed p e origin)
    then show ?thesis using same failed by (auto simp: on_manifest_turn_def Let_def split: option.split)
  qed (use same all_failed_asked in \<open>simp_all add: on_manifest_turn_def\<close>)
  then show ?thesis by (simp only: Q_def)
qed

lemma next_turn_roaming:
  assumes "\<And>w ts. P w \<Longrightarrow> set ts \<subseteq> set (dw_turns w) \<Longrightarrow> P (w\<lparr>dw_turns := ts\<rparr>)" and "\<And>w. P w \<Longrightarrow> roaming L S w"
  shows "ensures P next_turn (\<lambda>t w. P w \<and> (\<forall>p a. t = Event (PeerIdentified p a) \<longrightarrow> (p, a) \<in> S)) R"
  unfolding ensures_def
proof (intro allI impI)
  fix w assume w: "P w"
  then have s: "sighted w \<subseteq> S" using assms(2) by (auto simp: roaming_def)
  show "\<exists>r w'. next_turn w = Some (r, w') \<and> (case r of Inl e \<Rightarrow> R e w' | Inr t \<Rightarrow> P w' \<and> (\<forall>p a. t = Event (PeerIdentified p a) \<longrightarrow> (p, a) \<in> S))"
    using w s assms(1)[of w] by (cases "dw_turns w") (auto simp: next_turn_def sighted_def)
qed

lemma asking_turns: "asking L S D rt mps cps mf w \<Longrightarrow> set ts \<subseteq> set (dw_turns w) \<Longrightarrow> asking L S D rt mps cps mf (w\<lparr>dw_turns := ts\<rparr>)"
  by (auto simp: asking_def roaming_def sighted_def)

lemma manifest_turns_asking:
  "ensures (asking L S D rt mps cps mf) (manifest_turns E view rt fanout fuel mf)
     (\<lambda>m w. requests_ok L S D rt mps cps w \<and> decodes E rt m) (\<lambda>_. requests_ok L S D rt mps cps)"
proof -
  let ?Q = "\<lambda>m w. requests_ok L S D rt mps cps w \<and> decodes E rt m" and ?R = "\<lambda>(_ :: download_error). requests_ok L S D rt mps cps"
  have step: "ensures (asking L S D rt mps cps mf) (bind_act next_turn (\<lambda>t. bind_act (on_manifest_turn E view rt fanout t mf) (\<lambda>r.
      case r of Inl m \<Rightarrow> ret m | Inr mf' \<Rightarrow> k mf'))) ?Q ?R" if k: "\<And>mf'. ensures (asking L S D rt mps cps mf') (k mf') ?Q ?R" for mf k
  proof (rule ensures_bind)
    show "ensures (asking L S D rt mps cps mf) next_turn
        (\<lambda>t w. asking L S D rt mps cps mf w \<and> (\<forall>p a. t = Event (PeerIdentified p a) \<longrightarrow> (p, a) \<in> S)) ?R"
      by (rule next_turn_roaming[where L = L], erule asking_turns, assumption) (simp add: asking_def)
    fix t
    have rest: "ensures (case r of Inl m \<Rightarrow> \<lambda>w. requests_ok L S D rt mps cps w \<and> decodes E rt m | Inr mf' \<Rightarrow> asking L S D rt mps cps mf')
        (case r of Inl m \<Rightarrow> ret m | Inr mf' \<Rightarrow> k mf') ?Q ?R" for r
      using k by (cases r) (auto intro: ensures_ret)
    have "ensures (asking L S D rt mps cps mf) (bind_act (on_manifest_turn E view rt fanout t mf) (\<lambda>r. case r of Inl m \<Rightarrow> ret m | Inr mf' \<Rightarrow> k mf')) ?Q ?R"
      if "\<forall>p a. t = Event (PeerIdentified p a) \<longrightarrow> (p, a) \<in> S"
      by (rule ensures_bind[OF ensures_weaken[OF manifest_turn_asking] rest]) (use that in \<open>auto split: sum.splits\<close>)
    then show "ensures (\<lambda>w. asking L S D rt mps cps mf w \<and> (\<forall>p a. t = Event (PeerIdentified p a) \<longrightarrow> (p, a) \<in> S))
        (bind_act (on_manifest_turn E view rt fanout t mf) (\<lambda>r. case r of Inl m \<Rightarrow> ret m | Inr mf' \<Rightarrow> k mf')) ?Q ?R"
      by (auto simp: ensures_def)
  qed
  show ?thesis
  proof (induction fuel arbitrary: mf)
    case 0
    show ?case by (subst manifest_turns.simps) (auto intro: all_failed_asked step)
  next
    case (Suc fuel)
    show ?case by (subst manifest_turns.simps) (auto intro: all_failed_asked step Suc)
  qed
qed

lemma manifest_asked:
  assumes "finite (av_distinct view)" and "roaming L S w0" and "dw_manifest_pulls w0 = mps" and "dw_pulls w0 = cps"
  shows "ensures (\<lambda>w. w = w0) (fetch_v2_public_manifest E view rt)
     (\<lambda>m w. requests_ok L S (av_distinct view) rt mps cps w \<and> decodes E rt m) (\<lambda>_. requests_ok L S (av_distinct view) rt mps cps)"
proof -
  let ?mf = "\<lparr>mf_status = map (\<lambda>a. (a, Untried)) (sorted_list_of_set (av_distinct view)), mf_dispatched = Map.empty, mf_reason = ''no responses received''\<rparr>"
  have "asking L S (av_distinct view) rt mps cps ?mf w0"
    using assms by (auto simp: asking_def manifest_requests_def comp_def)
  moreover have "ensures (asking L S (av_distinct view) rt mps cps ?mf) (fetch_v2_public_manifest E view rt)
     (\<lambda>m w. requests_ok L S (av_distinct view) rt mps cps w \<and> decodes E rt m) (\<lambda>_. requests_ok L S (av_distinct view) rt mps cps)"
    unfolding fetch_v2_public_manifest_def Let_def
    by (rule ensures_bind, rule dispatch_wave_asking, rule ensures_fix_bind, rule manifest_turns_asking)
  ultimately show ?thesis by (auto simp: ensures_def)
qed

end
