(* ===== verification/Download_Run.thy ===== *)
theory Download_Run
  imports Download_Correct "HOL-Library.Multiset"
begin

text \<open>
  The chunk phase and the whole of the Public V2 download (\<open>fetch_v2_public_chunks\<close> and
  \<open>run_v2_public\<close> of \<open>sum-node/src/download.rs\<close>): every run ends, a chunk is asked of its assigned archives only
  and of each as often at most as the assignment lists it, and what is written hashes to the chain's root. Two shortcomings are shown as well.
\<close>

section \<open>The table of chunks\<close>

text \<open>\<open>A\<close> gives the archives assigned to an index. The table has the manifest's indices, and each order is a permutation of \<open>A\<close>.\<close>

definition table_ok :: "(u32 \<Rightarrow> addr20 list) \<Rightarrow> data_manifest \<Rightarrow> chunk_table \<Rightarrow> bool" where
  "table_ok A m st \<longleftrightarrow> map fst st = map cd_index (chunks m)
     \<and> (\<forall>(i, s) \<in> set st. cf_next s \<le> length (cf_assigned s) \<and> mset (cf_assigned s) = mset (A i))"

lemma table_ok_update:
  assumes "table_ok A m st" and "map_of st i = Some s" and "cf_next t \<le> length (cf_assigned t)" and "mset (cf_assigned t) = mset (cf_assigned s)"
  shows "table_ok A m (AList.update i t st)"
proof -
  have "set (AList.update i t st) \<subseteq> insert (i, t) (set st)" by (induction st) auto
  moreover have "mset (cf_assigned s) = mset (A i)" using assms(1) map_of_SomeD[OF assms(2)] by (auto simp: table_ok_def)
  ultimately show ?thesis using assms unfolding table_ok_def by (auto simp: keys_update dest!: subsetD)
qed

lemma scan_archives_Some:
  "scan_archives pos as resolved skip = Some (k, p) \<Longrightarrow> pos \<le> k \<and> k < pos + length as \<and> resolved (as ! (k - pos)) = Some p"
proof (induction as arbitrary: pos)
  case (Cons a as)
  show ?case
  proof (cases "resolved a")
    case None
    then have "Suc pos \<le> k \<and> k < Suc pos + length as \<and> resolved (as ! (k - Suc pos)) = Some p"
      using Cons.IH[of "Suc pos"] Cons.prems by (auto split: if_splits)
    moreover from this have "k - pos = Suc (k - Suc pos)" by auto
    ultimately show ?thesis by simp
  qed (use Cons.prems in auto)
qed simp

lemma next_assigned_Some:
  assumes "next_assigned_archive order nxt resolved skip = Some (k, p)" and "nxt \<le> length order"
  shows "nxt \<le> k \<and> k < length order \<and> resolved (order ! k) = Some p"
  using scan_archives_Some[of nxt "drop nxt order" resolved skip k p] assms by (auto simp: next_assigned_archive_def)

text \<open>The archive asked moves to the front of those left, so the ones asked so far are always the first \<open>next\<close> of the order.\<close>

lemma mark_archive_asked_Some:
  assumes "nxt \<le> k" and "k < length order"
  shows "\<exists>order'. mark_archive_asked order nxt k = Some (order', Suc nxt) \<and> mset order' = mset order
    \<and> take (Suc nxt) order' = take nxt order @ [order ! k]"
proof -
  have "mset (drop nxt order) = mset (take (k - nxt) (drop nxt order) @ [order ! k] @ drop (Suc k) order)"
    using assms id_take_nth_drop[of "k - nxt" "drop nxt order"] by (intro arg_cong[of _ _ mset]) simp
  moreover have "mset order = mset (take nxt order) + mset (drop nxt order)" by (simp flip: mset_append)
  ultimately show ?thesis using assms by (simp add: mark_archive_asked_def)
qed

text \<open>A dispatch the table allows: the chunk is idle, the archive stands at or after the next one and its peer is known.\<close>

definition allowed :: "(addr20 \<Rightarrow> peer_id option) \<Rightarrow> chunk_table \<Rightarrow> public_dispatch \<Rightarrow> bool" where
  "allowed resolved st d \<longleftrightarrow> (\<exists>s. map_of st (pd_chunk_index d) = Some s \<and> cf_next s \<le> pd_assigned_pos d
     \<and> pd_assigned_pos d < length (cf_assigned s) \<and> resolved (cf_assigned s ! pd_assigned_pos d) = Some (pd_peer_id d))"

lemma select_chunks_allowed:
  assumes "table_ok A m st" and "d \<in> set (select_chunks st resolved cap skip k cds)"
  shows "allowed resolved st d \<and> pd_chunk_index d \<in> cd_index ` set cds"
  using assms(2)
proof (induction cds arbitrary: k)
  case (Cons c cds)
  have "cf_next s \<le> length (cf_assigned s)" if "map_of st i = Some s" for i s
    using assms(1) map_of_SomeD[OF that] by (auto simp: table_ok_def)
  then show ?case using Cons
    by (auto simp: allowed_def dest!: next_assigned_Some split: if_splits option.splits)
qed simp

lemma select_chunks_distinct: "distinct (map cd_index cds) \<Longrightarrow> distinct (map pd_chunk_index (select_chunks st resolved cap skip k cds))"
proof (induction cds arbitrary: k)
  case (Cons c cds)
  have "pd_chunk_index ` set (select_chunks st resolved cap skip j cs) \<subseteq> cd_index ` set cs" for j cs
    by (induction cs arbitrary: j) (auto split: option.splits dest!: subsetD)
  then have "cd_index c \<notin> pd_chunk_index ` set (select_chunks st resolved cap skip j cds)" for j using Cons.prems by fastforce
  then show ?case using Cons by (auto split: option.splits)
qed simp

section \<open>Asking for chunks\<close>

text \<open>
  Requests for chunks of \<open>m\<close>, each labelled with the index of the chunk and the archive it is meant for: the request names
  the CID and size of that chunk and goes to a peer that reported the address of that archive.
\<close>

definition chunk_requests :: "(peer_id \<times> addr20) set \<Rightarrow> data_manifest \<Rightarrow> (peer_id \<times> string \<times> u64) list \<Rightarrow> (u32 \<times> addr20) list \<Rightarrow> bool" where
  "chunk_requests S m = list_all2 (\<lambda>(p, cid, n) (i, a). (p, a) \<in> S \<and> (\<exists>c \<in> set (chunks m). cd_index c = i \<and> cid = cd_cid c \<and> n = cd_size c))"

text \<open>While the phase runs, the archives a chunk was asked of are the first \<open>cf_next\<close> of its order, as often as they occur there.\<close>

definition chunk_fetching :: "digest_lib \<Rightarrow> (peer_id \<times> addr20) set \<Rightarrow> (u32 \<Rightarrow> addr20 list) \<Rightarrow> data_manifest \<Rightarrow> (peer_id \<times> hash) list
    \<Rightarrow> (peer_id \<times> string \<times> u64) list \<Rightarrow> chunk_table \<Rightarrow> download_world \<Rightarrow> bool" where
  "chunk_fetching L S A m mps cps st w \<longleftrightarrow> roaming L S w \<and> table_ok A m st \<and> dw_manifest_pulls w = mps
     \<and> (\<exists>new ks. dw_pulls w = cps @ new \<and> chunk_requests S m new ks \<and> fst ` set ks \<subseteq> fst ` set st
          \<and> (\<forall>(i, s) \<in> set st. \<forall>a. count (mset ks) (i, a) = count (mset (take (cf_next s) (cf_assigned s))) a))"

definition fetched :: "digest_lib \<Rightarrow> (peer_id \<times> addr20) set \<Rightarrow> (u32 \<Rightarrow> addr20 list) \<Rightarrow> data_manifest \<Rightarrow> (peer_id \<times> hash) list
    \<Rightarrow> (peer_id \<times> string \<times> u64) list \<Rightarrow> download_world \<Rightarrow> bool" where
  "fetched L S A m mps cps w \<longleftrightarrow> roaming L S w \<and> dw_manifest_pulls w = mps
     \<and> (\<exists>new ks. dw_pulls w = cps @ new \<and> chunk_requests S m new ks \<and> (\<forall>i a. count (mset ks) (i, a) \<le> count (mset (A i)) a))"

lemma count_take: "count (mset (take n xs)) a \<le> count (mset xs) a"
  by (metis append_take_drop_id count_union le_add1 mset_append)

lemma fetching_fetched: "chunk_fetching L S A m mps cps st w \<Longrightarrow> fetched L S A m mps cps w"
proof -
  assume w: "chunk_fetching L S A m mps cps st w"
  obtain new ks where new: "dw_pulls w = cps @ new" "chunk_requests S m new ks" "fst ` set ks \<subseteq> fst ` set st"
      "\<forall>(i, s) \<in> set st. \<forall>a. count (mset ks) (i, a) = count (mset (take (cf_next s) (cf_assigned s))) a"
    using w by (auto simp: chunk_fetching_def)
  have "count (mset ks) (i, a) \<le> count (mset (A i)) a" for i a
  proof (cases "(i, a) \<in> set ks")
    case True
    then obtain s where s: "(i, s) \<in> set st" using new(3) by force
    then have "mset (cf_assigned s) = mset (A i)" using w by (auto simp: chunk_fetching_def table_ok_def)
    then show ?thesis using new(4) s count_take[of "cf_next s" "cf_assigned s" a] by auto
  next
    case False
    then have "count (mset ks) (i, a) = 0" by (simp add: count_eq_zero_iff)
    then show ?thesis by linarith
  qed
  then show ?thesis using w new(1,2) by (auto simp: chunk_fetching_def fetched_def)
qed

lemma roaming_pulls [simp]: "roaming L S (w\<lparr>dw_pulls := x\<rparr>) = roaming L S w"
  by (simp add: roaming_def sighted_def)

lemma update_members: "distinct (map fst st) \<Longrightarrow> (j, x) \<in> set (AList.update i t st) \<Longrightarrow> j = i \<and> x = t \<or> j \<noteq> i \<and> (j, x) \<in> set st"
  by (induction st) (auto split: if_splits simp: rev_image_eqI)

lemma update_keys: "fst ` set (AList.update i t st) = insert i (fst ` set st)"
  by (induction st) auto

lemma idle_update:
  assumes "chunk_fetching L S A m mps cps st w" and "distinct (map cd_index (chunks m))" and "map_of st i = Some s"
    and "cf_next t = cf_next s" and "cf_assigned t = cf_assigned s"
  shows "chunk_fetching L S A m mps cps (AList.update i t st) w"
proof -
  obtain new ks where new: "dw_pulls w = cps @ new" "chunk_requests S m new ks" "fst ` set ks \<subseteq> fst ` set st"
      "\<forall>(i, s) \<in> set st. \<forall>a. count (mset ks) (i, a) = count (mset (take (cf_next s) (cf_assigned s))) a"
    using assms(1) by (auto simp: chunk_fetching_def)
  have ok: "table_ok A m st" and d: "distinct (map fst st)" using assms(1,2) by (auto simp: chunk_fetching_def table_ok_def)
  have s: "(i, s) \<in> set st" by (rule map_of_SomeD[OF assms(3)])
  have "table_ok A m (AList.update i t st)" using ok s assms(4,5) table_ok_update[OF ok assms(3), of t] by (auto simp: table_ok_def)
  moreover have "\<forall>(j, x) \<in> set (AList.update i t st). \<forall>a. count (mset ks) (j, a) = count (mset (take (cf_next x) (cf_assigned x))) a"
    using new(4) s assms(4,5) by (auto dest!: update_members[OF d])
  moreover have "fst ` set ks \<subseteq> fst ` set (AList.update i t st)" using new(3) by (auto simp: update_keys)
  ultimately show ?thesis using assms(1) new(1,2) unfolding chunk_fetching_def by blast
qed

lemma asked_update:
  assumes "chunk_fetching L S A m mps cps st w" and "distinct (map cd_index (chunks m))" and "c \<in> set (chunks m)" and "map_of st (cd_index c) = Some s"
    and "cf_next s \<le> k" and "k < length (cf_assigned s)" and "(p, cf_assigned s ! k) \<in> S"
    and "mark_archive_asked (cf_assigned s) (cf_next s) k = Some (cf_assigned t, cf_next t)"
  shows "chunk_fetching L S A m mps cps (AList.update (cd_index c) t st) (w\<lparr>dw_pulls := dw_pulls w @ [(p, cd_cid c, cd_size c)]\<rparr>)"
proof -
  let ?a = "cf_assigned s ! k" and ?i = "cd_index c" and ?st = "AList.update (cd_index c) t st"
  obtain new ks where new: "dw_pulls w = cps @ new" "chunk_requests S m new ks" "fst ` set ks \<subseteq> fst ` set st"
      "\<forall>(i, s) \<in> set st. \<forall>a. count (mset ks) (i, a) = count (mset (take (cf_next s) (cf_assigned s))) a"
    using assms(1) by (auto simp: chunk_fetching_def)
  have ok: "table_ok A m st" and d: "distinct (map fst st)" using assms(1,2) by (auto simp: chunk_fetching_def table_ok_def)
  have t: "cf_next t = Suc (cf_next s)" "mset (cf_assigned t) = mset (cf_assigned s)" "take (cf_next t) (cf_assigned t) = take (cf_next s) (cf_assigned s) @ [?a]"
    using mark_archive_asked_Some[OF assms(5,6)] assms(8) by auto
  have s: "(?i, s) \<in> set st" by (rule map_of_SomeD[OF assms(4)])
  have "length (cf_assigned t) = length (cf_assigned s)" using t(2) by (rule mset_eq_length)
  then have "table_ok A m ?st" using table_ok_update[OF ok assms(4) _ t(2)] t(1) assms(5,6) by simp
  moreover have "chunk_requests S m (new @ [(p, cd_cid c, cd_size c)]) (ks @ [(?i, ?a)])"
    using new(2) assms(3,7) unfolding chunk_requests_def by (intro list_all2_appendI) auto
  moreover have "\<forall>(j, x) \<in> set ?st. \<forall>a. count (mset (ks @ [(?i, ?a)])) (j, a) = count (mset (take (cf_next x) (cf_assigned x))) a"
    using new(4) s t(3) by (auto dest!: update_members[OF d])
  moreover have "fst ` set (ks @ [(?i, ?a)]) \<subseteq> fst ` set ?st" using new(3) by (auto simp: update_keys)
  moreover have "dw_pulls (w\<lparr>dw_pulls := dw_pulls w @ [(p, cd_cid c, cd_size c)]\<rparr>) = cps @ (new @ [(p, cd_cid c, cd_size c)])" using new(1) by simp
  moreover have "roaming L S w" "dw_manifest_pulls w = mps" using assms(1) by (simp_all add: chunk_fetching_def)
  ultimately show ?thesis unfolding chunk_fetching_def roaming_pulls
    by (intro conjI exI[of _ "new @ [(p, cd_cid c, cd_size c)]"] exI[of _ "ks @ [(?i, ?a)]"]) simp_all
qed

lemma find_index:
  assumes "distinct (map cd_index cs)" and "i \<in> cd_index ` set cs"
  shows "\<exists>c \<in> set cs. find (\<lambda>c. cd_index c = i) cs = Some c \<and> cd_index c = i"
  using assms by (induction cs) auto

lemma send_dispatches_fetching:
  assumes "distinct (map cd_index (chunks m))" and "distinct (map pd_chunk_index ds)" and "\<forall>a p. resolved a = Some p \<longrightarrow> (p, a) \<in> S"
    and "\<forall>d \<in> set ds. allowed resolved st d \<and> pd_chunk_index d \<in> cd_index ` set (chunks m)"
  shows "ensures (chunk_fetching L S A m mps cps st) (send_dispatches E m ds st) (chunk_fetching L S A m mps cps) (\<lambda>_. fetched L S A m mps cps)"
  using assms(2,4)
proof (induction ds arbitrary: st)
  case (Cons d ds)
  obtain c where c: "c \<in> set (chunks m)" "find (\<lambda>c. cd_index c = pd_chunk_index d) (chunks m) = Some c" "cd_index c = pd_chunk_index d"
    using find_index[OF assms(1), of "pd_chunk_index d"] Cons.prems by auto
  obtain s where s: "map_of st (cd_index c) = Some s" "cf_next s \<le> pd_assigned_pos d" "pd_assigned_pos d < length (cf_assigned s)"
      "resolved (cf_assigned s ! pd_assigned_pos d) = Some (pd_peer_id d)"
    using Cons.prems c(3) by (auto simp: allowed_def)
  obtain order where order: "mark_archive_asked (cf_assigned s) (cf_next s) (pd_assigned_pos d) = Some (order, Suc (cf_next s))"
    using mark_archive_asked_Some[OF s(2,3)] by auto
  define t where "t = s\<lparr>cf_assigned := order, cf_next := Suc (cf_next s), cf_in_flight := Some (pd_peer_id d, cf_assigned s ! pd_assigned_pos d)\<rparr>"
  have seen: "(pd_peer_id d, cf_assigned s ! pd_assigned_pos d) \<in> S" using assms(3) s(4) by blast
  have "\<forall>d' \<in> set ds. allowed resolved (AList.update (cd_index c) t st) d' \<and> pd_chunk_index d' \<in> cd_index ` set (chunks m)"
  proof
    fix d' assume d': "d' \<in> set ds"
    then have "pd_chunk_index d' \<in> pd_chunk_index ` set ds" by (rule imageI)
    then have "pd_chunk_index d' \<noteq> cd_index c" using Cons.prems(1) c(3) by auto
    then show "allowed resolved (AList.update (cd_index c) t st) d' \<and> pd_chunk_index d' \<in> cd_index ` set (chunks m)"
      using Cons.prems(2) d' by (simp add: allowed_def update_conv')
  qed
  then have rest: "ensures (chunk_fetching L S A m mps cps (AList.update (cd_index c) t st)) (send_dispatches E m ds (AList.update (cd_index c) t st))
      (chunk_fetching L S A m mps cps) (\<lambda>_. fetched L S A m mps cps)"
    using Cons.IH Cons.prems(1) by simp
  have pull: "ensures (chunk_fetching L S A m mps cps st) (map_err (PullFailed (cd_index c)) (pull_chunk_v2 E (pd_peer_id d) (cd_cid c) (cd_size c)))
      (\<lambda>_. chunk_fetching L S A m mps cps (AList.update (cd_index c) t st)) (\<lambda>_. fetched L S A m mps cps)"
    unfolding ensures_def map_err_def pull_chunk_v2_def
    using asked_update[OF _ assms(1) c(1) s(1-3) seen, of L A mps cps _ t] order
    by (auto simp: t_def split: option.splits intro: fetching_fetched)
  have eq: "send_dispatches E m (d # ds) st = bind_act (map_err (PullFailed (cd_index c)) (pull_chunk_v2 E (pd_peer_id d) (cd_cid c) (cd_size c)))
      (\<lambda>_. send_dispatches E m ds (AList.update (cd_index c) t st))"
    using c(2) s(1) order by (simp add: t_def)
  show ?case unfolding eq by (rule ensures_bind, rule pull, rule rest)
qed (auto intro: ensures_ret)

lemma try_dispatch_fetching:
  assumes "distinct (map cd_index (chunks m))"
  shows "ensures (chunk_fetching L S A m mps cps st) (try_dispatch E m skip st) (chunk_fetching L S A m mps cps) (\<lambda>_. fetched L S A m mps cps)"
  unfolding try_dispatch_def
proof (rule ensures_fix_bind)
  fix w assume w: "chunk_fetching L S A m mps cps st w"
  let ?r = "addr_to_peer (dw_peers w)"
  have "\<forall>a p. ?r a = Some p \<longrightarrow> (p, a) \<in> S"
    using w by (auto simp: chunk_fetching_def roaming_def sighted_def dest!: addr_to_peer_Some)
  moreover have "\<forall>d \<in> set (select_public_chunk_dispatches st (chunks m) ?r (de_max_concurrent E) skip).
      allowed ?r st d \<and> pd_chunk_index d \<in> cd_index ` set (chunks m)"
    using w select_chunks_allowed[of A m st] by (auto simp: select_public_chunk_dispatches_def chunk_fetching_def)
  moreover have "distinct (map pd_chunk_index (select_public_chunk_dispatches st (chunks m) ?r (de_max_concurrent E) skip))"
    unfolding select_public_chunk_dispatches_def by (rule select_chunks_distinct[OF assms])
  ultimately show "ensures (chunk_fetching L S A m mps cps st)
      (send_dispatches E m (select_public_chunk_dispatches st (chunks m) ?r (de_max_concurrent E) skip) st)
      (chunk_fetching L S A m mps cps) (\<lambda>_. fetched L S A m mps cps)"
    using send_dispatches_fetching[OF assms] by blast
qed

lemma redispatch_fetching:
  assumes "distinct (map cd_index (chunks m))"
  shows "ensures (chunk_fetching L S A m mps cps (pg_table pg)) (redispatch E m pg) (\<lambda>pg. chunk_fetching L S A m mps cps (pg_table pg)) (\<lambda>_. fetched L S A m mps cps)"
  unfolding redispatch_def by (rule ensures_bind, rule try_dispatch_fetching[OF assms]) (auto intro: ensures_ret)

lemma chunk_missed_fetching:
  assumes "distinct (map cd_index (chunks m))" and "map_of (pg_table pg) i = Some s"
  shows "ensures (chunk_fetching L S A m mps cps (pg_table pg)) (chunk_missed E m i s pg) (\<lambda>pg. chunk_fetching L S A m mps cps (pg_table pg)) (\<lambda>_. fetched L S A m mps cps)"
proof -
  let ?pg = "pg\<lparr>pg_table := AList.update i (s\<lparr>cf_in_flight := None\<rparr>) (pg_table pg)\<rparr>"
  have "ensures (chunk_fetching L S A m mps cps (pg_table pg)) (require b e) (\<lambda>_. chunk_fetching L S A m mps cps (pg_table ?pg)) (\<lambda>_. fetched L S A m mps cps)" for b and e :: download_error
    using idle_update[OF _ assms(1,2), of L S A mps cps _ "s\<lparr>cf_in_flight := None\<rparr>"]
    by (auto simp: ensures_def require_def ret_def fail_def intro: fetching_fetched)
  then show ?thesis unfolding chunk_missed_def by (rule ensures_bind) (rule redispatch_fetching[OF assms(1)])
qed

lemma local_put_fetching:
  assumes "\<forall>n. exclusive (de_io E n)" and "map_of st i = Some s" and "cf_next t = cf_next s" and "cf_assigned t = cf_assigned s" and "L = xl_digest (de_libs E)"
    and "distinct (map cd_index (chunks m))"
  shows "ensures (chunk_fetching L S A m mps cps st) (map_err g (local_put E cid dat)) (\<lambda>_. chunk_fetching L S A m mps cps (AList.update i t st)) (\<lambda>_. fetched L S A m mps cps)"
proof (rule ensures_map_err, unfold ensures_def, intro allI impI)
  fix w assume w: "chunk_fetching L S A m mps cps st w"
  let ?s = "snd (put L (de_io E (dw_disk w)) (dw_store w) cid dat)"
  have inv: "store_inv L ?s" using w assms(1) by (auto simp: chunk_fetching_def roaming_def intro!: put_store_inv)
  then have "chunk_fetching L S A m mps cps st (w\<lparr>dw_store := ?s, dw_disk := Suc (dw_disk w)\<rparr>)"
    using w by (auto simp: chunk_fetching_def roaming_def sighted_def)
  then have "chunk_fetching L S A m mps cps (AList.update i t st) (w\<lparr>dw_store := ?s, dw_disk := Suc (dw_disk w)\<rparr>)"
    using idle_update[OF _ assms(6,2-4)] by blast
  then show "\<exists>r w'. local_put E cid dat w = Some (r, w') \<and> (case r of Inl e \<Rightarrow> fetched L S A m mps cps w'
      | Inr _ \<Rightarrow> chunk_fetching L S A m mps cps (AList.update i t st) w')"
    by (auto simp: local_put_def assms(5) split: prod.split sum.split intro: fetching_fetched)
qed

section \<open>The turns of the chunk phase\<close>

lemma ensures_pre: "(\<And>w. P w \<Longrightarrow> ensures P m Q R) \<Longrightarrow> ensures P m Q R"
  by (auto simp: ensures_def)

lemma ensures_strengthen: "ensures P m Q R \<Longrightarrow> (\<And>w. P' w \<Longrightarrow> P w) \<Longrightarrow> ensures P' m Q R"
  by (auto simp: ensures_def)

lemma observe_fetching:
  assumes "\<And>p a. ev = PeerIdentified p a \<Longrightarrow> (p, a) \<in> S"
  shows "ensures (chunk_fetching L S A m mps cps st) (observe_peer ev) (\<lambda>_. chunk_fetching L S A m mps cps st) R"
  unfolding ensures_def
proof (intro allI impI)
  fix w assume w: "chunk_fetching L S A m mps cps st w"
  have "set (snd (apply_peer_event (dw_peers w) ev)) \<subseteq> S"
    using w assms apply_peer_event_sub[of "dw_peers w" ev] by (auto simp: chunk_fetching_def roaming_def sighted_def)
  then show "\<exists>r w'. observe_peer ev w = Some (r, w') \<and> (case r of Inl e \<Rightarrow> R e w' | Inr _ \<Rightarrow> chunk_fetching L S A m mps cps st w')"
    using w by (auto simp: observe_peer_def modify_def chunk_fetching_def roaming_def sighted_def)
qed

lemma cid_to_idx_Some: "cid_to_idx m cid = Some i \<Longrightarrow> \<exists>c \<in> set (chunks m). cd_cid c = cid \<and> cd_index c = i"
  unfolding cid_to_idx_def by (drule map_of_SomeD) auto

lemma on_chunk_data_fetching:
  assumes "distinct (map cd_index (chunks m))" and "\<forall>n. exclusive (de_io E n)" and "L = xl_digest (de_libs E)"
  shows "ensures (chunk_fetching L S A m mps cps (pg_table pg)) (on_chunk_data E m p cid off tot dat err pg)
    (\<lambda>pg. chunk_fetching L S A m mps cps (pg_table pg)) (\<lambda>_. fetched L S A m mps cps)" (is "ensures ?P _ ?Q ?R")
proof (rule ensures_pre)
  fix w assume "?P w"
  then have keys: "map fst (pg_table pg) = map cd_index (chunks m)" by (simp add: chunk_fetching_def table_ok_def)
  have same: "ensures ?P (ret pg) ?Q ?R" by (auto intro: ensures_ret)
  show "ensures ?P (on_chunk_data E m p cid off tot dat err pg) ?Q ?R"
  proof (cases "cid_to_idx m cid")
    case None
    then show ?thesis using same by (simp add: on_chunk_data_def)
  next
    case (Some i)
    then have i: "i \<in> cd_index ` set (chunks m)" using cid_to_idx_Some[OF Some] by auto
    then obtain c where c: "c \<in> set (chunks m)" "find (\<lambda>c. cd_index c = i) (chunks m) = Some c"
      using find_index[OF assms(1)] by blast
    have "i \<in> set (map fst (pg_table pg))" using i keys by simp
    then obtain s where s: "map_of (pg_table pg) i = Some s"
      by (cases "map_of (pg_table pg) i") (auto simp: map_of_eq_None_iff)
    note missed = chunk_missed_fetching[OF assms(1) s, of L S A mps cps E]
    have stored: "ensures ?P (bind_act (map_err (StorePutFailed (cd_cid c)) (local_put E (cd_cid c) dat)) (\<lambda>_.
       redispatch E m (pg\<lparr>pg_table := AList.update i (s\<lparr>cf_in_flight := None, cf_done := True\<rparr>) (pg_table pg),
         pg_fetched := x, pg_attribution := y, pg_contacted := z\<rparr>))) ?Q ?R" for x y z
      by (rule ensures_bind, rule local_put_fetching[OF assms(2) s _ _ assms(3,1), where t = "s\<lparr>cf_in_flight := None, cf_done := True\<rparr>"], simp, simp)
        (rule ensures_weaken[OF redispatch_fetching[OF assms(1)]], simp_all)
    show ?thesis using same missed stored by (simp add: on_chunk_data_def Some s c(2) split: option.split)
  qed
qed

lemma on_chunk_turn_fetching:
  assumes "distinct (map cd_index (chunks m))" and "\<forall>n. exclusive (de_io E n)" and "L = xl_digest (de_libs E)"
    and "\<And>p a. t = Event (PeerIdentified p a) \<Longrightarrow> (p, a) \<in> S"
  shows "ensures (chunk_fetching L S A m mps cps (pg_table pg)) (on_chunk_turn E m t pg)
    (\<lambda>pg. chunk_fetching L S A m mps cps (pg_table pg)) (\<lambda>_. fetched L S A m mps cps)" (is "ensures ?P _ ?Q ?R")
proof -
  have same: "ensures ?P (ret pg) ?Q ?R" by (auto intro: ensures_ret)
  have stop: "ensures ?P (fail e) ?Q ?R" for e by (auto simp: ensures_def fail_def intro: fetching_fetched)
  have seen: "ensures ?P (bind_act (observe_peer ev) (\<lambda>_. redispatch E m pg)) ?Q ?R" if "t = Event ev" for ev
    by (rule ensures_bind, rule observe_fetching) (use assms(4) that in \<open>auto intro: redispatch_fetching[OF assms(1)]\<close>)
  have wedged: "map_of (pg_table pg) i = Some s" if "wedged_idx m (pg_table pg) p origin = Some (i, s)" for p origin i s
    using that by (auto simp: wedged_idx_def split: option.splits if_splits)
  show ?thesis
  proof (cases t)
    case (Event ev)
    then show ?thesis
      using same seen on_chunk_data_fetching[OF assms(1-3)]
      by (auto simp: on_chunk_turn_def split: sum_net_event.split shard_response_v2.split)
  next
    case (ShardRequestFailed p e origin)
    then show ?thesis using same chunk_missed_fetching[OF assms(1) wedged]
      by (auto simp: on_chunk_turn_def split: option.split)
  next
    case GraceElapsed
    then show ?thesis using same redispatch_fetching[OF assms(1), of L S A mps cps "pg\<lparr>pg_skip := True\<rparr>" E] by (simp add: on_chunk_turn_def)
  qed (use stop in \<open>simp_all add: on_chunk_turn_def\<close>)
qed

lemma fetching_turns: "chunk_fetching L S A m mps cps st w \<Longrightarrow> set ts \<subseteq> set (dw_turns w) \<Longrightarrow> chunk_fetching L S A m mps cps st (w\<lparr>dw_turns := ts\<rparr>)"
  by (auto simp: chunk_fetching_def roaming_def sighted_def)

lemma chunk_turns_fetching:
  assumes "distinct (map cd_index (chunks m))" and "\<forall>n. exclusive (de_io E n)" and "L = xl_digest (de_libs E)"
  shows "ensures (chunk_fetching L S A m mps cps (pg_table pg)) (chunk_turns E m fuel pg) (\<lambda>_. fetched L S A m mps cps) (\<lambda>_. fetched L S A m mps cps)"
proof -
  let ?R = "\<lambda>(_ :: download_error). fetched L S A m mps cps" and ?I = "\<lambda>pg. chunk_fetching L S A m mps cps (pg_table pg)"
  have step: "ensures (?I pg) (bind_act next_turn (\<lambda>t. bind_act (on_chunk_turn E m t pg) k)) (\<lambda>_. fetched L S A m mps cps) ?R"
    if k: "\<And>pg'. ensures (?I pg') (k pg') (\<lambda>_. fetched L S A m mps cps) ?R" for pg and k :: "chunk_progress \<Rightarrow> (download_world, download_error, chunk_progress) act"
  proof (rule ensures_bind)
    show "ensures (?I pg) next_turn (\<lambda>t w. ?I pg w \<and> (\<forall>p a. t = Event (PeerIdentified p a) \<longrightarrow> (p, a) \<in> S)) ?R"
      by (rule next_turn_roaming[where L = L], erule fetching_turns, assumption) (simp add: chunk_fetching_def)
    fix t
    have "ensures (?I pg) (bind_act (on_chunk_turn E m t pg) k) (\<lambda>_. fetched L S A m mps cps) ?R"
      if "\<forall>p a. t = Event (PeerIdentified p a) \<longrightarrow> (p, a) \<in> S"
      by (rule ensures_bind, rule on_chunk_turn_fetching[OF assms]) (use that k in auto)
    then show "ensures (\<lambda>w. ?I pg w \<and> (\<forall>p a. t = Event (PeerIdentified p a) \<longrightarrow> (p, a) \<in> S))
        (bind_act (on_chunk_turn E m t pg) k) (\<lambda>_. fetched L S A m mps cps) ?R"
      by (auto simp: ensures_def)
  qed
  have out: "ensures (?I pg) (ret pg) (\<lambda>_. fetched L S A m mps cps) ?R" for pg by (auto intro: ensures_ret fetching_fetched)
  have stop: "ensures (?I pg) (fail e) (\<lambda>_. fetched L S A m mps cps) ?R" for pg and e by (auto simp: ensures_def fail_def intro: fetching_fetched)
  show ?thesis
    by (induction fuel arbitrary: pg) (subst chunk_turns.simps, auto intro: out step stop)+
qed

section \<open>The whole chunk phase\<close>

definition assigned_in :: "v2_assignment_view \<Rightarrow> u32 \<Rightarrow> addr20 list" where
  "assigned_in view i = (case map_of (av_per_chunk view) i of None \<Rightarrow> [] | Some a \<Rightarrow> a)"

lemma fold_update_distinct:
  assumes "distinct (map k cs)" and "\<forall>c \<in> set cs. k c \<notin> fst ` set xs"
  shows "fold (\<lambda>c. AList.update (k c) (v c)) cs xs = xs @ map (\<lambda>c. (k c, v c)) cs"
  using assms
proof (induction cs arbitrary: xs)
  case (Cons c cs)
  have "AList.update (k c) (v c) xs = xs @ [(k c, v c)]" using Cons.prems(2) by (induction xs) auto
  moreover have "\<forall>d \<in> set cs. k d \<notin> fst ` set (xs @ [(k c, v c)])" using Cons.prems by (auto simp: image_iff)
  ultimately show ?case using Cons.IH[of "xs @ [(k c, v c)]"] Cons.prems(1) by simp
qed simp

lemma first_table_eq:
  assumes "distinct (map cd_index (chunks m))"
  shows "first_table E view env s m =
    map (\<lambda>c. (cd_index c, \<lparr>cf_assigned = assigned_in view (cd_index c), cf_next = 0, cf_in_flight = None, cf_done = has env s (cd_cid c)\<rparr>)) (chunks m)"
  unfolding first_table_def assigned_in_def using fold_update_distinct[OF assms, of "[]"] by simp

lemma first_table_ok:
  assumes "distinct (map cd_index (chunks m))"
  shows "table_ok (assigned_in view) m (first_table E view env s m) \<and> (\<forall>(i, s) \<in> set (first_table E view env s m). cf_next s = 0)"
  by (auto simp: first_table_eq[OF assms] table_ok_def comp_def)

lemma chunks_fetched:
  assumes "distinct (map cd_index (chunks m))" and "\<forall>n. exclusive (de_io E n)" and "L = xl_digest (de_libs E)"
  shows "ensures (\<lambda>w. roaming L S w \<and> dw_manifest_pulls w = mps \<and> dw_pulls w = cps) (fetch_v2_public_chunks E view m)
    (\<lambda>_. fetched L S (assigned_in view) m mps cps) (\<lambda>_. fetched L S (assigned_in view) m mps cps)"
    (is "ensures ?P _ ?Q ?R")
  unfolding fetch_v2_public_chunks_def
proof (rule ensures_fix_bind, unfold Let_def)
  fix w0 assume "?P w0"
  let ?st = "first_table E view (de_io E (dw_disk (id w0))) (dw_store (id w0)) m"
  have start: "chunk_fetching L S (assigned_in view) m mps cps ?st w" if "?P w" for w
    using that first_table_ok[OF assms(1), of view E "de_io E (dw_disk (id w0))" "dw_store (id w0)"] unfolding chunk_fetching_def
    by (intro conjI exI[of _ "[]"]) (auto simp: chunk_requests_def)
  have turns: "ensures (chunk_fetching L S (assigned_in view) m mps cps st) (bind_act (chunk_turns E m n
       \<lparr>pg_table = st, pg_skip = False, pg_fetched = 0, pg_attribution = Map.empty, pg_contacted = {}\<rparr>) (\<lambda>pg. ret (g pg))) ?Q ?R" for st n g
    by (rule ensures_bind, rule ensures_strengthen[OF chunk_turns_fetching[OF assms]]) (auto intro: ensures_ret)
  show "ensures ?P (bind_act (try_dispatch E m False ?st) (\<lambda>st. bind_act (chunk_turns E m (length (dw_turns (id w0)))
       \<lparr>pg_table = st, pg_skip = False, pg_fetched = 0, pg_attribution = Map.empty, pg_contacted = {}\<rparr>) (\<lambda>pg.
       ret \<lparr>fo_fetched = pg_fetched pg, fo_skipped = u32_of (length (filter (\<lambda>cd. has (de_io E (dw_disk (id w0))) (dw_store (id w0)) (cd_cid cd)) (chunks m))),
               fo_attribution = pg_attribution pg, fo_contacted = pg_contacted pg\<rparr>))) ?Q ?R"
    by (rule ensures_bind, rule ensures_strengthen[OF try_dispatch_fetching[OF assms(1)] start]) (auto intro: turns)
qed

section \<open>Assembly\<close>

text \<open>What is written so far is the contents of the chunks before, read from a content-addressed store.\<close>

definition read_back :: "pub_store \<Rightarrow> chunk_descriptor list \<Rightarrow> bytes list \<Rightarrow> bool" where
  "read_back s cs bs \<longleftrightarrow> list_all2 (\<lambda>c b. lookup s (cd_cid c) = Some b) cs bs"

lemma write_chunks_output:
  "ensures (\<lambda>w. G w \<and> dw_store w = s \<and> dw_output w = Some x) (write_chunks E cs n)
     (\<lambda>_ w. dw_store w = s \<and> (\<exists>bs. read_back s cs bs \<and> dw_output w = Some (x @ concat bs)) \<and> H w) (\<lambda>_. H)"
  if "\<And>w. G w \<Longrightarrow> H w" and "\<And>w f. G w \<Longrightarrow> G (w\<lparr>dw_disk := f\<rparr>)" and "\<And>w g. G w \<Longrightarrow> G (w\<lparr>dw_output := g\<rparr>)" for G H
proof (induction cs arbitrary: x n)
  case Nil
  show ?case using that(1) by (auto simp: read_back_def intro!: ensures_ret exI[of _ "[]"])
next
  case (Cons c cs)
  show ?case
  proof (unfold ensures_def, intro allI impI)
    fix w assume w: "G w \<and> dw_store w = s \<and> dw_output w = Some x"
    show "\<exists>r w'. write_chunks E (c # cs) n w = Some (r, w') \<and> (case r of Inl e \<Rightarrow> H w' | Inr a \<Rightarrow> dw_store w' = s
        \<and> (\<exists>bs. read_back s (c # cs) bs \<and> dw_output w' = Some (x @ concat bs)) \<and> H w')"
    proof (cases "get (de_io E (dw_disk w)) s (cd_cid c)")
      case (Inl e)
      then show ?thesis using w that(1) by (simp add: bind_act_def gets_def fail_def)
    next
      case (Inr b)
      then have l: "lookup s (cd_cid c) = Some b" by (auto simp: get_def dest: open_key_Some split: sum.splits option.splits)
      let ?w = "w\<lparr>dw_disk := Suc (dw_disk w), dw_output := Some (x @ b)\<rparr>"
      have "G ?w \<and> dw_store ?w = s \<and> dw_output ?w = Some (x @ b)" using w that by simp
      from Cons.IH[of "x @ b" "n + u64_of (length b)", unfolded ensures_def, rule_format, OF this]
      obtain r w' where r: "write_chunks E cs (n + u64_of (length b)) ?w = Some (r, w')"
        "case r of Inl e \<Rightarrow> H w' | Inr a \<Rightarrow> dw_store w' = s \<and> (\<exists>bs. read_back s cs bs \<and> dw_output w' = Some ((x @ b) @ concat bs)) \<and> H w'"
        by blast
      have "write_chunks E (c # cs) n w = (case de_write_error E (dw_disk w) of
          Some e \<Rightarrow> Some (Inl (WriteFailed e), w\<lparr>dw_disk := Suc (dw_disk w)\<rparr>) | None \<Rightarrow> Some (r, w'))"
        using Inr w r(1) by (simp add: bind_act_def gets_def fail_def modify_def split: option.split)
      then show ?thesis using r(2) l w that(1,2)
        by (cases r) (auto simp: read_back_def split: option.split intro!: exI[of _ "b # _"])
    qed
  qed
qed

lemma assemble_output:
  assumes "\<And>w. G w \<Longrightarrow> H w" and "\<And>w f. G w \<Longrightarrow> G (w\<lparr>dw_disk := f\<rparr>)" and "\<And>w g. G w \<Longrightarrow> G (w\<lparr>dw_output := g\<rparr>)"
  shows "ensures (\<lambda>w. G w \<and> dw_store w = s) (assemble E m)
     (\<lambda>_ w. dw_store w = s \<and> (\<exists>bs. read_back s (chunks m) bs \<and> dw_output w = Some (concat bs)) \<and> H w) (\<lambda>_. H)"
  unfolding assemble_def
proof (rule ensures_bind)
  show "ensures (\<lambda>w. G w \<and> dw_store w = s) (create_output E) (\<lambda>_ w. G w \<and> dw_store w = s \<and> dw_output w = Some []) (\<lambda>_. H)"
    using assms(1,3) by (auto simp: ensures_def create_output_def fail_def modify_def split: option.split)
  show "ensures (\<lambda>w. G w \<and> dw_store w = s \<and> dw_output w = Some []) (write_chunks E (chunks m) 0)
     (\<lambda>_ w. dw_store w = s \<and> (\<exists>bs. read_back s (chunks m) bs \<and> dw_output w = Some (concat bs)) \<and> H w) (\<lambda>_. H)" for a :: unit
    using write_chunks_output[of G H s "[]" E "chunks m" 0] assms by simp
qed

section \<open>The chain's assignment\<close>

text \<open>\<open>A\<close> is the assignment of the root under the archives the chain had active at the file's height.\<close>

definition chain_assignment :: "download_env \<Rightarrow> u64 \<Rightarrow> hash \<Rightarrow> (u32 \<Rightarrow> addr20 list) \<Rightarrow> bool" where
  "chain_assignment E h rt A \<longleftrightarrow> (\<exists>k k' raw archives params.
     cr_active_nodes (de_rpc E) k h = Inr raw \<and> decode_addresses (de_libs E) (filter_active_archives raw) = Inr archives
   \<and> cr_chain_params (de_rpc E) k' = Inr params
   \<and> A = (\<lambda>i. assigned_archives (de_wire E) rt (sort archives) i (cpi_assignment_replication_factor params)))"

lemma assign_chunks_Inr: "assign_chunks W rt snap r ixs = Inr per \<Longrightarrow> per = map (\<lambda>i. (i, assigned_archives W rt snap i r)) ixs"
  by (induction ixs arbitrary: per) (auto simp: Let_def map_sum_def split: if_splits sum.splits)

lemma map_of_map_key: "map_of (map (\<lambda>i. (i, g i)) ixs) i = (if i \<in> set ixs then Some (g i) else None)"
  by (induction ixs) auto

definition view_ok :: "download_env \<Rightarrow> u64 \<Rightarrow> hash \<Rightarrow> u32 list \<Rightarrow> v2_assignment_view \<Rightarrow> bool" where
  "view_ok E h rt ixs view \<longleftrightarrow> (\<exists>A. chain_assignment E h rt A \<and> av_distinct view = (\<Union>i \<in> set ixs. set (A i))
     \<and> (\<forall>i. assigned_in view i = (if i \<in> set ixs then A i else [])))"

definition idle :: "digest_lib \<Rightarrow> (peer_id \<times> addr20) set \<Rightarrow> (peer_id \<times> hash) list \<Rightarrow> (peer_id \<times> string \<times> u64) list \<Rightarrow> download_world \<Rightarrow> bool" where
  "idle L S mps cps w \<longleftrightarrow> roaming L S w \<and> dw_manifest_pulls w = mps \<and> dw_pulls w = cps"

lemma ensures_idle_call: "ensures (idle L S mps cps) (map_err g (call q)) (\<lambda>a w. idle L S mps cps w \<and> (\<exists>k. q k = Inr a)) (\<lambda>_. idle L S mps cps)"
  by (rule ensures_map_err) (auto simp: ensures_def call_def idle_def roaming_def sighted_def split: sum.split)

lemma ensures_lift: "ensures P (lift r) (\<lambda>a w. P w \<and> r = Inr a) (\<lambda>_. P)"
  by (auto simp: ensures_def lift_def split: sum.split)

lemma ensures_assume: "(X \<Longrightarrow> ensures P m Q R) \<Longrightarrow> ensures (\<lambda>w. P w \<and> X) m Q R"
  by (auto simp: ensures_def)

lemma view_built:
  "ensures (idle L S mps cps) (build_v2_assignment_view E info rt ixs)
     (\<lambda>view w. idle L S mps cps w \<and> view_ok E (fi_assignment_height info) rt ixs view) (\<lambda>_. idle L S mps cps)"
  unfolding build_v2_assignment_view_def Let_def
proof (rule ensures_bind, rule ensures_idle_call, rule ensures_assume, rule ensures_bind, rule ensures_map_err, rule ensures_lift, rule ensures_assume)
  fix raw dec
  assume raw: "\<exists>k. cr_active_nodes (de_rpc E) k (fi_assignment_height info) = Inr raw"
    and dec: "decode_addresses (de_libs E) (filter_active_archives raw) = Inr dec"
  let ?Q = "\<lambda>view w. idle L S mps cps w \<and> view_ok E (fi_assignment_height info) rt ixs view"
  have params: "ensures (idle L S mps cps) (bind_act (lift (assign_chunks (de_wire E) rt (sort dec) (cpi_assignment_replication_factor cp) ixs)) (\<lambda>per.
       ret \<lparr>av_snapshot = sort dec, av_r = cpi_assignment_replication_factor cp, av_distinct = \<Union>(set ` snd ` set per), av_per_chunk = per\<rparr>)) ?Q (\<lambda>_. idle L S mps cps)"
    if cp: "\<exists>k. cr_chain_params (de_rpc E) k = Inr cp" for cp
  proof (rule ensures_bind, rule ensures_lift, rule ensures_assume, rule ensures_ret)
    fix per w assume per: "assign_chunks (de_wire E) rt (sort dec) (cpi_assignment_replication_factor cp) ixs = Inr per" and w: "idle L S mps cps w"
    let ?A = "\<lambda>i. assigned_archives (de_wire E) rt (sort dec) i (cpi_assignment_replication_factor cp)"
    have "chain_assignment E (fi_assignment_height info) rt ?A" using raw dec cp unfolding chain_assignment_def by blast
    then show "?Q \<lparr>av_snapshot = sort dec, av_r = cpi_assignment_replication_factor cp, av_distinct = \<Union>(set ` snd ` set per), av_per_chunk = per\<rparr> w"
      using w assign_chunks_Inr[OF per] by (auto simp: view_ok_def assigned_in_def map_of_map_key intro!: exI[of _ ?A])
  qed
  show "ensures (idle L S mps cps) (bind_act (require (sort dec \<noteq> []) (SnapshotEmpty (fi_assignment_height info))) (\<lambda>_.
     bind_act (map_err ChainParamsFailed (call (cr_chain_params (de_rpc E)))) (\<lambda>cp.
     bind_act (lift (assign_chunks (de_wire E) rt (sort dec) (cpi_assignment_replication_factor cp) ixs)) (\<lambda>per.
       ret \<lparr>av_snapshot = sort dec, av_r = cpi_assignment_replication_factor cp, av_distinct = \<Union>(set ` snd ` set per), av_per_chunk = per\<rparr>)))) ?Q (\<lambda>_. idle L S mps cps)"
  proof (rule ensures_bind)
    show "ensures (idle L S mps cps) (require b e) (\<lambda>_. idle L S mps cps) (\<lambda>_. idle L S mps cps)" for b and e :: download_error
      by (auto simp: ensures_def require_def ret_def fail_def)
  qed (rule ensures_bind, rule ensures_idle_call, rule ensures_assume, rule params)
qed

section \<open>Every request is accounted for\<close>

text \<open>
  \<open>as\<close> names the archive each manifest request is meant for, \<open>ks\<close> the chunk and the archive of each chunk request. The
  manifest is asked of assigned archives, of none twice; the chunk requests are for chunks of one manifest that decodes to
  the root, at indices of the file, and of an archive as often at most as the assignment of that chunk lists it; every
  peer asked has reported the address of the archive.
\<close>

definition assigned_only :: "download_env \<Rightarrow> hash \<Rightarrow> (u32 \<Rightarrow> addr20 list) \<Rightarrow> u32 set \<Rightarrow> (peer_id \<times> addr20) set \<Rightarrow> (peer_id \<times> hash) list
    \<Rightarrow> addr20 list \<Rightarrow> (peer_id \<times> string \<times> u64) list \<Rightarrow> (u32 \<times> addr20) list \<Rightarrow> bool" where
  "assigned_only E rt A I S newm as newc ks \<longleftrightarrow>
     manifest_requests S (\<Union>i \<in> I. set (A i)) rt newm as
   \<and> (newc = [] \<and> ks = [] \<or> (\<exists>m. decodes E rt m \<and> chunk_requests S m newc ks))
   \<and> (\<forall>(i, a) \<in> set ks. i \<in> I \<and> a \<in> set (A i)) \<and> (\<forall>i a. count (mset ks) (i, a) \<le> count (mset (A i)) a)"

definition accounted :: "download_env \<Rightarrow> storage_file_info_v2 \<Rightarrow> (peer_id \<times> addr20) set \<Rightarrow> (peer_id \<times> hash) list \<Rightarrow> (peer_id \<times> string \<times> u64) list
    \<Rightarrow> addr20 list \<Rightarrow> (u32 \<times> addr20) list \<Rightarrow> download_world \<Rightarrow> bool" where
  "accounted E info S mps cps as ks w \<longleftrightarrow> (\<exists>newm newc. dw_manifest_pulls w = mps @ newm \<and> dw_pulls w = cps @ newc
     \<and> (newm = [] \<and> newc = [] \<and> as = [] \<and> ks = [] \<or> (\<exists>rt A. parse_root_hex_32 (de_libs E) (fi_merkle_root info) = Inr rt
          \<and> chain_assignment E (fi_assignment_height info) rt A \<and> assigned_only E rt A (set (index_list (fi_chunk_count info))) S newm as newc ks)))"

lemma accountedI:
  assumes "parse_root_hex_32 (de_libs E) (fi_merkle_root info) = Inr rt" and "chain_assignment E (fi_assignment_height info) rt A"
    and "assigned_only E rt A (set (index_list (fi_chunk_count info))) S newm as newc ks" and "dw_manifest_pulls w = mps @ newm" and "dw_pulls w = cps @ newc"
  shows "accounted E info S mps cps as ks w"
  using assms unfolding accounted_def by blast

lemma idle_accounted: "idle L S mps cps w \<Longrightarrow> accounted E info S mps cps [] [] w"
  by (auto simp: idle_def accounted_def)

text \<open>The assignment lists no archive twice for a chunk, so no label occurs twice.\<close>

lemma accounted_distinct:
  assumes "wire_ok (de_wire E)" and "accounted E info S mps cps as ks w"
  shows "distinct as \<and> distinct ks"
proof -
  have "distinct ks" if A: "chain_assignment E h rt A" and ks: "\<forall>i a. count (mset ks) (i, a) \<le> count (mset (A i)) a" for h rt A
  proof (rule ccontr)
    assume "\<not> distinct ks"
    then obtain i a where "1 < count (mset ks) (i, a)" by (auto simp: distinct_count_atmost_1 split: if_splits)
        (metis One_nat_def Suc_lessI count_greater_zero_iff set_mset_mset)
    then have "1 < count (mset (A i)) a" using ks by (meson less_le_trans)
    moreover have "distinct (A i)" using A wire_okD(1,2)[OF assms(1)] by (auto simp: chain_assignment_def assigned_archives_def)
    ultimately show False by (metis distinct_count_atmost_1 less_numeral_extra(4) not_less_zero)
  qed
  then show ?thesis using assms(2) by (auto simp: accounted_def assigned_only_def manifest_requests_def)
qed

lemma decodesD:
  assumes "decodes E rt m"
  shows "consistent_manifest (xl_digest (de_libs E)) m" and "merkle_root m = rt" and "\<exists>b. cbor_de (de_cbor E) b = Inr m"
    and "distinct (map cd_index (chunks m))"
proof -
  obtain b where b: "decode_v2_manifest_bytes (xl_digest (de_libs E)) (de_cbor E) b rt = Inr m" using assms by (auto simp: decodes_def)
  then obtain m' where m': "cbor_de (de_cbor E) b = Inr m'" "merkle_root m' = rt"
    by (auto simp: decode_v2_manifest_bytes_def split: sum.splits if_splits)
  then obtain m'' where "validate_manifest_push (xl_digest (de_libs E)) (de_cbor E) (hex_encode rt) b = Inr m''" "m = m'"
    using b by (auto simp: decode_v2_manifest_bytes_def split: sum.splits)
  then show c: "consistent_manifest (xl_digest (de_libs E)) m" "merkle_root m = rt" "\<exists>b. cbor_de (de_cbor E) b = Inr m"
    using m' by (auto simp: validate_manifest_push_iff)
  show "distinct (map cd_index (chunks m))"
    unfolding distinct_conv_nth using c(1) by (auto simp: consistent_manifest_def) metis
qed

lemma fetched_accounted:
  assumes "view_ok E (fi_assignment_height info) rt (index_list (fi_chunk_count info)) view" and "parse_root_hex_32 (de_libs E) (fi_merkle_root info) = Inr rt"
    and "requests_ok L S (av_distinct view) rt mps cps w1" and "decodes E rt m" and "fetched L S (assigned_in view) m (dw_manifest_pulls w1) cps w"
  shows "\<exists>as ks. accounted E info S mps cps as ks w"
proof -
  let ?I = "set (index_list (fi_chunk_count info))"
  obtain A where A: "chain_assignment E (fi_assignment_height info) rt A" "av_distinct view = (\<Union>i \<in> ?I. set (A i))"
      "\<forall>i. assigned_in view i = (if i \<in> ?I then A i else [])" using assms(1) by (auto simp: view_ok_def)
  obtain newm as where newm: "dw_manifest_pulls w1 = mps @ newm" "manifest_requests S (av_distinct view) rt newm as"
    using assms(3) by (auto simp: requests_ok_def)
  obtain newc ks where newc: "dw_manifest_pulls w = dw_manifest_pulls w1" "dw_pulls w = cps @ newc"
      "chunk_requests S m newc ks" "\<forall>i a. count (mset ks) (i, a) \<le> count (mset (assigned_in view i)) a"
    using assms(5) by (auto simp: fetched_def)
  have "i \<in> ?I \<and> a \<in> set (A i)" if "(i, a) \<in> set ks" for i a
  proof -
    have "0 < count (mset ks) (i, a)" using that by simp
    then have "0 < count (mset (assigned_in view i)) a" using newc(4) by (meson less_le_trans)
    then show ?thesis using A(3) by (simp split: if_splits)
  qed
  moreover have "count (mset ks) (i, a) \<le> count (mset (A i)) a" for i a
  proof (cases "i \<in> ?I")
    case False
    then have "count (mset (assigned_in view i)) a = 0" using A(3) by simp
    then show ?thesis using newc(4)[rule_format, of i a] by linarith
  qed (use newc(4)[rule_format, of i a] A(3) in simp)
  ultimately have "assigned_only E rt A ?I S newm as newc ks" using newm(2) newc(3) A(2) assms(4) by (auto simp: assigned_only_def)
  then show ?thesis using accountedI[OF assms(2) A(1)] newm(1) newc(1,2) by metis
qed

lemma asked_accounted:
  assumes "view_ok E (fi_assignment_height info) rt (index_list (fi_chunk_count info)) view" and "parse_root_hex_32 (de_libs E) (fi_merkle_root info) = Inr rt"
    and "requests_ok L S (av_distinct view) rt mps cps w"
  shows "\<exists>as ks. accounted E info S mps cps as ks w"
proof -
  obtain A where A: "chain_assignment E (fi_assignment_height info) rt A" "av_distinct view = (\<Union>i \<in> set (index_list (fi_chunk_count info)). set (A i))"
    using assms(1) by (auto simp: view_ok_def)
  obtain newm as where newm: "dw_manifest_pulls w = mps @ newm" "manifest_requests S (av_distinct view) rt newm as" "dw_pulls w = cps @ []"
    using assms(3) by (auto simp: requests_ok_def)
  have "assigned_only E rt A (set (index_list (fi_chunk_count info))) S newm as [] []" using newm(2) A(2) by (auto simp: assigned_only_def)
  then show ?thesis using accountedI[OF assms(2) A(1)] newm(1,3) by blast
qed

lemma ensures_pointwise: "(\<And>w0. P w0 \<Longrightarrow> ensures (\<lambda>w. w = w0) m Q R) \<Longrightarrow> ensures P m Q R"
  by (auto simp: ensures_def)

lemma remember_idle: "ensures (idle L S mps cps) (remember_manifest E m) (\<lambda>_. idle L S mps cps) (\<lambda>_. idle L S mps cps)"
  by (auto simp: ensures_def remember_manifest_def idle_def roaming_def sighted_def split: prod.split sum.split)

text \<open>The rest of the run, from the manifest on.\<close>

definition answered :: "download_env \<Rightarrow> storage_file_info_v2 \<Rightarrow> (peer_id \<times> addr20) set \<Rightarrow> (peer_id \<times> hash) list \<Rightarrow> (peer_id \<times> string \<times> u64) list
    \<Rightarrow> download_world \<Rightarrow> bool" where
  "answered E info S mps cps w \<longleftrightarrow> (\<exists>as ks. accounted E info S mps cps as ks w) \<and> store_inv (xl_digest (de_libs E)) (dw_store w)"

definition delivered :: "download_world \<Rightarrow> data_manifest \<Rightarrow> bool" where
  "delivered w m \<longleftrightarrow> (\<exists>bs. read_back (dw_store w) (chunks m) bs \<and> dw_output w = Some (concat bs))"

lemma assemble_answered:
  "ensures (answered E info S mps cps) (assemble E m) (\<lambda>_ w. answered E info S mps cps w \<and> delivered w m) (\<lambda>_. answered E info S mps cps)"
proof (rule ensures_pointwise)
  fix w0 assume w0: "answered E info S mps cps w0"
  show "ensures (\<lambda>w. w = w0) (assemble E m) (\<lambda>_ w. answered E info S mps cps w \<and> delivered w m) (\<lambda>_. answered E info S mps cps)"
    by (rule ensures_weaken[OF assemble_output[of "answered E info S mps cps" "answered E info S mps cps" "dw_store w0" E m]])
      (use w0 in \<open>auto simp: answered_def accounted_def delivered_def\<close>)
qed

lemma after_manifest_answered:
  assumes "view_ok E (fi_assignment_height info) rt (index_list (fi_chunk_count info)) view" and "parse_root_hex_32 (de_libs E) (fi_merkle_root info) = Inr rt"
    and "decodes E rt m" and "\<forall>n. exclusive (de_io E n)" and "L = xl_digest (de_libs E)"
  shows "ensures (requests_ok L S (av_distinct view) rt mps cps)
    (bind_act (remember_manifest E m) (\<lambda>_. bind_act (fetch_v2_public_chunks E view m) (\<lambda>out. bind_act (assemble E m) (\<lambda>n. ret (g out n, m)))))
    (\<lambda>(_, m') w. answered E info S mps cps w \<and> m' = m \<and> delivered w m) (\<lambda>_. answered E info S mps cps)"
proof (rule ensures_pointwise)
  fix w1 assume w1: "requests_ok L S (av_distinct view) rt mps cps w1"
  let ?R = "\<lambda>(_ :: download_error). answered E info S mps cps" and ?J = "idle L S (dw_manifest_pulls w1) cps"
  have done_fetch: "answered E info S mps cps w" if "fetched L S (assigned_in view) m (dw_manifest_pulls w1) cps w" for w
    using fetched_accounted[OF assms(1,2) w1 assms(3) that] that assms(5) by (simp add: answered_def fetched_def roaming_def)
  have done_idle: "answered E info S mps cps w" if "?J w" for w
    using done_fetch[of w] that by (auto simp: fetched_def idle_def chunk_requests_def)
  have chunks: "ensures ?J (fetch_v2_public_chunks E view m) (\<lambda>_. answered E info S mps cps) ?R"
    by (rule ensures_weaken[OF chunks_fetched[OF decodesD(4)[OF assms(3)] assms(4,5)]])
      (auto simp: idle_def intro: done_fetch)
  have last: "ensures (answered E info S mps cps) (bind_act (assemble E m) (\<lambda>n. ret (h n, m)))
      (\<lambda>(_, m') w. answered E info S mps cps w \<and> m' = m \<and> delivered w m) ?R" for h
    by (rule ensures_bind, rule assemble_answered) (auto intro: ensures_ret)
  show "ensures (\<lambda>w. w = w1) (bind_act (remember_manifest E m) (\<lambda>_. bind_act (fetch_v2_public_chunks E view m) (\<lambda>out. bind_act (assemble E m) (\<lambda>n. ret (g out n, m)))))
    (\<lambda>(_, m') w. answered E info S mps cps w \<and> m' = m \<and> delivered w m) ?R"
  proof (rule ensures_bind)
    show "ensures (\<lambda>w. w = w1) (remember_manifest E m) (\<lambda>_. ?J) ?R"
      by (rule ensures_weaken[OF remember_idle]) (use w1 done_idle in \<open>auto simp: requests_ok_def idle_def\<close>)
  qed (rule ensures_bind, rule chunks, rule last)
qed

lemma create_output_answered:
  assumes "chunks m = []"
  shows "ensures (answered E info S mps cps) (create_output E) (\<lambda>_ w. answered E info S mps cps w \<and> delivered w m) (\<lambda>_. answered E info S mps cps)"
  using assms by (auto simp: ensures_def create_output_def fail_def modify_def answered_def accounted_def delivered_def read_back_def split: option.split)

lemma run_answered:
  assumes "\<forall>n. exclusive (de_io E n)" and "store_inv (xl_digest (de_libs E)) (dw_store w0)"
  shows "ensures (\<lambda>w. w = w0) (run_v2_public_with_manifest E info)
    (\<lambda>(_, m) w. answered E info (sighted w0) (dw_manifest_pulls w0) (dw_pulls w0) w \<and> delivered w m
       \<and> (\<exists>rt. parse_root_hex_32 (de_libs E) (fi_merkle_root info) = Inr rt \<and> decodes E rt m))
    (\<lambda>_. answered E info (sighted w0) (dw_manifest_pulls w0) (dw_pulls w0))"
    (is "ensures _ _ ?Q ?R")
proof -
  let ?L = "xl_digest (de_libs E)" and ?S = "sighted w0" and ?mps = "dw_manifest_pulls w0" and ?cps = "dw_pulls w0"
  let ?J = "idle ?L ?S ?mps ?cps"
  have idle_done: "answered E info ?S ?mps ?cps w" if "?J w" for w
    using that idle_accounted[of ?L ?S ?mps ?cps w E info] by (auto simp: answered_def idle_def roaming_def intro!: exI)
  have rest: "ensures (requests_ok ?L ?S (av_distinct view) rt ?mps ?cps)
     (if chunk_count m = 0 then bind_act (create_output E) (\<lambda>_. ret (r0, m))
      else bind_act (remember_manifest E m) (\<lambda>_. bind_act (fetch_v2_public_chunks E view m) (\<lambda>out. bind_act (assemble E m) (\<lambda>n. ret (g out n, m))))) ?Q ?R"
    if v: "view_ok E (fi_assignment_height info) rt (index_list (fi_chunk_count info)) view" "parse_root_hex_32 (de_libs E) (fi_merkle_root info) = Inr rt"
      "decodes E rt m" for rt view m g r0
  proof (cases "chunk_count m = 0")
    case True
    then have "chunks m = []" using decodesD(1)[OF v(3)] by (simp add: consistent_manifest_def)
    moreover have "answered E info ?S ?mps ?cps w" if "requests_ok ?L ?S (av_distinct view) rt ?mps ?cps w" for w
      using that asked_accounted[OF v(1,2) that] by (simp add: answered_def requests_ok_def roaming_def)
    ultimately have "ensures (requests_ok ?L ?S (av_distinct view) rt ?mps ?cps) (bind_act (create_output E) (\<lambda>_. ret (r0, m))) ?Q ?R"
      by (intro ensures_bind[OF ensures_strengthen[OF create_output_answered]]) (auto intro!: ensures_ret v)
    then show ?thesis using True by simp
  next
    case False
    have "ensures (requests_ok ?L ?S (av_distinct view) rt ?mps ?cps)
        (bind_act (remember_manifest E m) (\<lambda>_. bind_act (fetch_v2_public_chunks E view m) (\<lambda>out. bind_act (assemble E m) (\<lambda>n. ret (g out n, m))))) ?Q ?R"
      by (rule ensures_weaken[OF after_manifest_answered[OF v assms(1) refl]]) (use v in auto)
    then show ?thesis using False by simp
  qed
  have manifest: "ensures ?J (bind_act (fetch_v2_public_manifest E view rt) (\<lambda>m. if chunk_count m = 0 then bind_act (create_output E) (\<lambda>_. ret (r0, m))
      else bind_act (remember_manifest E m) (\<lambda>_. bind_act (fetch_v2_public_chunks E view m) (\<lambda>out. bind_act (assemble E m) (\<lambda>n. ret (g out n, m)))))) ?Q ?R"
    if v: "view_ok E (fi_assignment_height info) rt (index_list (fi_chunk_count info)) view" "parse_root_hex_32 (de_libs E) (fi_merkle_root info) = Inr rt"
      for rt view g r0
  proof (rule ensures_pointwise)
    fix w1 assume w1: "?J w1"
    have fin: "finite (av_distinct view)" using v(1) by (auto simp: view_ok_def)
    have d: "answered E info ?S ?mps ?cps w" if "requests_ok ?L ?S (av_distinct view) rt ?mps ?cps w" for w
      using asked_accounted[OF v that] that by (simp add: answered_def requests_ok_def roaming_def)
    show "ensures (\<lambda>w. w = w1) (bind_act (fetch_v2_public_manifest E view rt) (\<lambda>m. if chunk_count m = 0 then bind_act (create_output E) (\<lambda>_. ret (r0, m))
      else bind_act (remember_manifest E m) (\<lambda>_. bind_act (fetch_v2_public_chunks E view m) (\<lambda>out. bind_act (assemble E m) (\<lambda>n. ret (g out n, m)))))) ?Q ?R"
    proof (rule ensures_bind)
      show "ensures (\<lambda>w. w = w1) (fetch_v2_public_manifest E view rt) (\<lambda>m w. requests_ok ?L ?S (av_distinct view) rt ?mps ?cps w \<and> decodes E rt m) ?R"
        by (rule ensures_weaken[OF manifest_asked[OF fin]]) (use w1 d in \<open>auto simp: idle_def\<close>)
    qed (rule ensures_assume, rule rest[OF v])
  qed
  have view: "ensures ?J (build_v2_assignment_view E info rt ixs) (\<lambda>view w. ?J w \<and> view_ok E (fi_assignment_height info) rt ixs view) ?R" for rt ixs
    by (rule ensures_weaken[OF view_built]) (use idle_done in auto)
  have start: "?J w0" using assms(2) by (simp add: idle_def roaming_def)
  show ?thesis unfolding run_v2_public_with_manifest_def
  proof (rule ensures_strengthen[of ?J], rule ensures_bind)
    show "ensures ?J (map_err InvalidRoot (lift (parse_root_hex_32 (de_libs E) (fi_merkle_root info))))
        (\<lambda>rt w. ?J w \<and> parse_root_hex_32 (de_libs E) (fi_merkle_root info) = Inr rt) ?R"
      by (rule ensures_map_err, rule ensures_weaken[OF ensures_lift[of ?J]]) (use idle_done in auto)
    show "ensures (\<lambda>w. ?J w \<and> parse_root_hex_32 (de_libs E) (fi_merkle_root info) = Inr rt)
      (bind_act (build_v2_assignment_view E info rt (index_list (fi_chunk_count info))) (\<lambda>view. bind_act (fetch_v2_public_manifest E view rt) (\<lambda>m.
         if chunk_count m = 0 then bind_act (create_output E) (\<lambda>_. ret (r0, m))
         else bind_act (remember_manifest E m) (\<lambda>_. bind_act (fetch_v2_public_chunks E view m) (\<lambda>out. bind_act (assemble E m) (\<lambda>n. ret (g out n, m))))))) ?Q ?R"
      for rt r0 g
      by (rule ensures_assume, rule ensures_bind, rule view, rule ensures_assume, rule manifest)
  qed (use start in simp)
qed

end
