(* ===== verification/Download_Safety.thy ===== *)
theory Download_Safety
  imports Download_Run Ingest_Demo
begin

text \<open>
  The guarantees of the Public V2 download, from the rules of the two phases: whom it asks, what it writes, and two
  files it cannot handle (equal chunks; a manifest that stops one chunk early).
\<close>

section \<open>What is written\<close>

fun block_collision :: "bytes list \<Rightarrow> bytes list \<Rightarrow> (bytes \<times> bytes) option" where
  "block_collision (x # xs) (y # ys) = (if x \<noteq> y then Some (x, y) else block_collision xs ys)"
| "block_collision _ _ = None"

definition hash_clash :: "(bytes \<Rightarrow> hash) \<Rightarrow> (bytes \<times> bytes) option \<Rightarrow> bool" where
  "hash_clash H c = (case c of None \<Rightarrow> False | Some (x, y) \<Rightarrow> x \<noteq> y \<and> H x = H y)"

text \<open>The collision two different block lists of one length and root exhibit: in the tree, or between two blocks.\<close>

definition file_collision :: "(bytes \<Rightarrow> hash) \<Rightarrow> bytes list \<Rightarrow> bytes list \<Rightarrow> (bytes \<times> bytes) option" where
  "file_collision H xs ys = (if map H xs = map H ys then block_collision xs ys else root_collision H (map H xs) (map H ys))"

lemma block_collision_found: "map H xs = map H ys \<Longrightarrow> xs \<noteq> ys \<Longrightarrow> hash_clash H (block_collision xs ys)"
  by (induction xs ys rule: block_collision.induct) (auto simp: hash_clash_def)

lemma root_determines_blocks:
  assumes "\<forall>d. length (H d) = 32" and "length xs = length ys" and "root (build H (map H xs)) = root (build H (map H ys))"
  shows "xs = ys \<or> hash_clash H (file_collision H xs ys)"
proof -
  have "\<forall>h \<in> set (map H xs) \<union> set (map H ys). length h = 32" using assms(1) by auto
  from root_determines_leaves[OF assms(1) _ this assms(3)] assms(2)
  have "map H xs = map H ys \<or> hash_clash H (root_collision H (map H xs) (map H ys))"
    by (auto simp: hash_clash_def is_collision_def split: option.splits prod.splits)
  then show ?thesis using block_collision_found[of H xs ys] by (auto simp: file_collision_def)
qed

lemma read_back_hashes:
  assumes "lib_ok L" and "store_inv L s" and "consistent_manifest L m" and "\<forall>c \<in> set (chunks m). length (cd_hash c) = 32"
    and "read_back s (chunks m) bs"
  shows "map (blake3 L) bs = map cd_hash (chunks m)"
proof (rule nth_equalityI)
  show len: "length (map (blake3 L) bs) = length (map cd_hash (chunks m))" using assms(5) by (simp add: read_back_def list_all2_lengthD)
  fix i assume "i < length (map (blake3 L) bs)"
  then have i: "i < length (chunks m)" "i < length bs" using len by auto
  let ?h = "cd_hash (chunks m ! i)"
  have c: "cd_cid (chunks m ! i) = cid_from_blake3_hash L ?h" "length ?h = 32" using assms(3,4) i by (auto simp: consistent_manifest_def)
  have "lookup s (cd_cid (chunks m ! i)) = Some (bs ! i)" using assms(5) i by (simp add: read_back_def list_all2_conv_all_nth)
  then have "cid_from_data L (bs ! i) = cid_from_blake3_hash L ?h"
    using assms(2) c canonical_cid_of_hash[OF assms(1) c(2), of s] by (auto simp: store_inv_def)
  then have "blake3 L (bs ! i) = ?h"
    using cid_from_blake3_hash_inject[OF assms(1) lib_ok_blake3[OF assms(1)] c(2)] by (simp add: cid_from_data_def)
  then show "map (blake3 L) bs ! i = map cd_hash (chunks m) ! i" using i by simp
qed

text \<open>
  C10. Whatever the peers send, a download that reports success has written blocks that hash to the leaves of a manifest whose
  Merkle root is the registered one; if the manifest has as many chunks as the registered file, the output is that file,
  or the two block lists exhibit a collision of the hash.
\<close>

theorem download_output_verified:
  assumes "lib_ok (xl_digest (de_libs E))" and "\<forall>n. exclusive (de_io E n)" and "store_inv (xl_digest (de_libs E)) (dw_store w)"
    and "\<forall>b m. cbor_de (de_cbor E) b = Inr m \<longrightarrow> (\<forall>c \<in> set (chunks m). length (cd_hash c) = 32)"
    and "run_v2_public_with_manifest E info w = Some (Inr (res, m), w')"
  shows "\<exists>rt bs. parse_root_hex_32 (de_libs E) (fi_merkle_root info) = Inr rt \<and> dw_output w' = Some (concat bs)
     \<and> consistent_manifest (xl_digest (de_libs E)) m \<and> merkle_root m = rt \<and> map (blake3 (xl_digest (de_libs E))) bs = map cd_hash (chunks m)
     \<and> (\<forall>file. root (build (blake3 (xl_digest (de_libs E))) (map (blake3 (xl_digest (de_libs E))) file)) = rt \<and> length file = unat (chunk_count m)
          \<longrightarrow> concat bs = concat file \<or> hash_clash (blake3 (xl_digest (de_libs E))) (file_collision (blake3 (xl_digest (de_libs E))) bs file))"
proof -
  let ?L = "xl_digest (de_libs E)" and ?H = "blake3 (xl_digest (de_libs E))"
  obtain rt where rt: "parse_root_hex_32 (de_libs E) (fi_merkle_root info) = Inr rt" "decodes E rt m" "delivered w' m" "store_inv ?L (dw_store w')"
    using run_answered[OF assms(2,3), of info] assms(5) by (fastforce simp: ensures_def answered_def)
  obtain bs where bs: "read_back (dw_store w') (chunks m) bs" "dw_output w' = Some (concat bs)" using rt(3) by (auto simp: delivered_def)
  have typed: "\<forall>c \<in> set (chunks m). length (cd_hash c) = 32" using decodesD(3)[OF rt(2)] assms(4) by blast
  have h: "map ?H bs = map cd_hash (chunks m)" by (rule read_back_hashes[OF assms(1) rt(4) decodesD(1)[OF rt(2)] typed bs(1)])
  have m: "consistent_manifest ?L m" "merkle_root m = rt" by (rule decodesD[OF rt(2)])+
  have "length bs = unat (chunk_count m)" using m(1) h by (metis consistent_manifest_def length_map)
  moreover have "root (build ?H (map ?H bs)) = rt" using m h by (simp add: consistent_manifest_def)
  ultimately have "concat bs = concat f \<or> hash_clash ?H (file_collision ?H bs f)"
    if "root (build ?H (map ?H f)) = rt" "length f = unat (chunk_count m)" for f
    using root_determines_blocks[of ?H bs f] lib_ok_blake3[OF assms(1)] that by auto
  then show ?thesis using rt(1) bs(2) m h by blast
qed

section \<open>Whom it asks\<close>

text \<open>
  C11. Every download returns, and whatever the network does meanwhile it asks only archives the chain assigned: the manifest
  of no archive twice (\<open>as\<close> names the archive of each manifest request), and no chunk twice of the same archive (\<open>ks\<close>
  names the chunk and the archive of each chunk request, and the archive is assigned to that chunk), always at a peer that
  reported the archive's address; the store stays content addressed.
\<close>

theorem download_asks_assigned_archives:
  assumes "\<forall>n. exclusive (de_io E n)" and "store_inv (xl_digest (de_libs E)) (dw_store w)" and "wire_ok (de_wire E)"
  shows "\<exists>r w' as ks. run_v2_public E info w = Some (r, w') \<and> accounted E info (sighted w) (dw_manifest_pulls w) (dw_pulls w) as ks w'
     \<and> distinct as \<and> distinct ks \<and> store_inv (xl_digest (de_libs E)) (dw_store w')"
proof -
  have "ensures (\<lambda>x. x = w) (run_v2_public E info) (\<lambda>_. answered E info (sighted w) (dw_manifest_pulls w) (dw_pulls w))
      (\<lambda>_. answered E info (sighted w) (dw_manifest_pulls w) (dw_pulls w))"
    unfolding run_v2_public_def by (rule ensures_bind, rule run_answered[OF assms(1,2)]) (auto intro: ensures_ret)
  then obtain r w' where r: "run_v2_public E info w = Some (r, w')" "answered E info (sighted w) (dw_manifest_pulls w) (dw_pulls w) w'"
    by (fastforce simp: ensures_def split: sum.splits)
  then show ?thesis using accounted_distinct[OF assms(3)] unfolding answered_def by blast
qed

section \<open>Equal chunks\<close>

definition unfinished :: "u32 \<Rightarrow> chunk_table \<Rightarrow> bool" where
  "unfinished i st \<longleftrightarrow> (\<exists>s. map_of st i = Some s \<and> \<not> cf_done s)"

lemma cid_to_idx_last:
  assumes "distinct (map cd_index (chunks m))" and "i < j" and "j < length (chunks m)" and "cd_cid (chunks m ! i) = cd_cid (chunks m ! j)"
  shows "cid_to_idx m cid \<noteq> Some (cd_index (chunks m ! i))"
proof
  assume hit: "cid_to_idx m cid = Some (cd_index (chunks m ! i))"
  let ?ps = "\<lambda>cs. map (\<lambda>c. (cd_cid c, cd_index c)) cs"
  have split: "chunks m = take j (chunks m) @ [chunks m ! j] @ drop (Suc j) (chunks m)" using assms(3) by (simp add: id_take_nth_drop)
  obtain c where c: "c \<in> set (chunks m)" "cd_cid c = cid" "cd_index c = cd_index (chunks m ! i)" using cid_to_idx_Some[OF hit] by auto
  then have "c = chunks m ! i" using assms(1-3) by (auto simp: distinct_map intro: inj_onD)
  then have cid: "cid = cd_cid (chunks m ! j)" using c(2) assms(4) by simp
  have "cid_to_idx m cid = map_of (rev (?ps (drop (Suc j) (chunks m))) @ (cid, cd_index (chunks m ! j)) # rev (?ps (take j (chunks m)))) cid"
    unfolding cid_to_idx_def by (subst split) (simp add: cid)
  then have "cd_index (chunks m ! i) \<in> cd_index ` set (chunks m ! j # drop (Suc j) (chunks m))"
    using hit by (cases "map_of (rev (?ps (drop (Suc j) (chunks m)))) cid") (auto simp: map_add_def dest!: map_of_SomeD)
  moreover have "chunks m ! i \<in> set (take j (chunks m))" using assms(2,3) by (auto simp: in_set_conv_nth)
  then have "cd_index (chunks m ! i) \<in> cd_index ` set (take j (chunks m))" by (rule imageI)
  moreover have "distinct (map cd_index (take j (chunks m) @ [chunks m ! j] @ drop (Suc j) (chunks m)))" using assms(1) split by simp
  ultimately show False by auto
qed

lemma pending_update: "unfinished i st \<Longrightarrow> (i = k \<Longrightarrow> \<not> cf_done t) \<Longrightarrow> unfinished i (AList.update k t st)"
  by (auto simp: unfinished_def update_conv')

lemma pending_send: "unfinished i st \<Longrightarrow> yields (send_dispatches E m ds st) st' \<Longrightarrow> unfinished i st'"
proof (induction ds arbitrary: st)
  case (Cons d ds)
  have panic: "\<not> yields (\<lambda>_. None) st'" by (simp add: yields_def)
  obtain c :: chunk_descriptor and s order nxt where "map_of st (cd_index c) = Some s"
      and rest: "yields (send_dispatches E m ds (AList.update (cd_index c)
        (s\<lparr>cf_assigned := order, cf_next := nxt, cf_in_flight := Some (pd_peer_id d, cf_assigned s ! pd_assigned_pos d)\<rparr>) st)) st'"
    using Cons.prems(2) panic by (auto split: option.splits prod.splits dest!: yields_bind intro: that)
  then have "unfinished i (AList.update (cd_index c)
      (s\<lparr>cf_assigned := order, cf_next := nxt, cf_in_flight := Some (pd_peer_id d, cf_assigned s ! pd_assigned_pos d)\<rparr>) st)"
    using Cons.prems(1) by (intro pending_update) (auto simp: unfinished_def)
  then show ?case using rest by (rule Cons.IH)
qed (simp add: yields_simple)

lemma pending_redispatch: "unfinished i (pg_table pg) \<Longrightarrow> yields (redispatch E m pg) pg' \<Longrightarrow> unfinished i (pg_table pg')"
  unfolding redispatch_def try_dispatch_def by (auto dest!: yields_bind simp: yields_simple intro: pending_send)

lemma pending_missed:
  assumes "unfinished i (pg_table pg)" and "map_of (pg_table pg) k = Some s" and "yields (chunk_missed E m k s pg) pg'"
  shows "unfinished i (pg_table pg')"
proof -
  have "unfinished i (AList.update k (s\<lparr>cf_in_flight := None\<rparr>) (pg_table pg))" using assms(1,2) by (intro pending_update) (auto simp: unfinished_def)
  then show ?thesis using assms(3) unfolding chunk_missed_def by (auto dest!: yields_bind intro: pending_redispatch[rotated])
qed

lemma pending_data:
  assumes "\<And>cid. cid_to_idx m cid \<noteq> Some i" and "unfinished i (pg_table pg)" and "yields (on_chunk_data E m p cid off tot dat err pg) pg'"
  shows "unfinished i (pg_table pg')"
proof (cases "pg' = pg")
  case False
  have panic: "\<not> yields (\<lambda>_. None) pg'" by (simp add: yields_def)
  have other: "\<not> yields (ret pg) pg'" using False by (simp add: yields_simple)
  obtain k s c where k: "cid_to_idx m cid = Some k" "map_of (pg_table pg) k = Some s" "find (\<lambda>c. cd_index c = k) (chunks m) = Some c"
    using assms(3) panic other unfolding on_chunk_data_def by (auto split: option.splits if_splits)
  have "k \<noteq> i" using assms(1) k(1) by blast
  then have "unfinished i (AList.update k t (pg_table pg))" for t using assms(2) by (intro pending_update) auto
  then have stored: "unfinished i (pg_table pg')" if "yields (redispatch E m (pg\<lparr>pg_table := AList.update k t (pg_table pg), pg_fetched := x,
      pg_attribution := y, pg_contacted := z\<rparr>)) pg'" for t x y z
    using pending_redispatch[OF _ that] by simp
  show ?thesis using assms(3) other stored pending_missed[OF assms(2) k(2)] unfolding on_chunk_data_def k(1,2) option.case k(3)
    by (auto split: option.splits if_splits dest!: yields_bind)
qed (use assms(2) in simp)

lemma pending_turn:
  assumes "\<And>cid. cid_to_idx m cid \<noteq> Some i" and "unfinished i (pg_table pg)" and "yields (on_chunk_turn E m t pg) pg'"
  shows "unfinished i (pg_table pg')"
proof -
  have wedged: "map_of (pg_table pg) k = Some s" if "wedged_idx m (pg_table pg) p origin = Some (k, s)" for p origin k s
    using that by (auto simp: wedged_idx_def split: option.splits if_splits)
  have skip: "unfinished i (pg_table pg')" if "yields (redispatch E m (pg\<lparr>pg_skip := True\<rparr>)) pg'" using pending_redispatch[OF _ that] assms(2) by simp
  note rules = skip pending_redispatch[OF assms(2)] pending_data[OF assms(1,2)] pending_missed[OF assms(2) wedged]
  show ?thesis using assms(2,3) rules unfolding on_chunk_turn_def
    by (cases t) (auto simp: yields_simple split: sum_net_event.splits shard_response_v2.splits option.splits if_splits dest!: yields_bind)
qed

lemma pending_unfinished: "unfinished i st \<Longrightarrow> \<not> list_all (\<lambda>x. cf_done (snd x)) st"
  by (force simp: unfinished_def list_all_iff dest!: map_of_SomeD)

lemma pending_turns:
  assumes "\<And>cid. cid_to_idx m cid \<noteq> Some i" and "unfinished i (pg_table pg)"
  shows "\<not> yields (chunk_turns E m fuel pg) pg'"
  using assms(2)
proof (induction fuel arbitrary: pg)
  case 0
  then show ?case by (subst chunk_turns.simps) (auto simp: yields_simple pending_unfinished dest!: yields_bind)
next
  case (Suc fuel)
  show ?case using pending_unfinished[OF Suc.prems] pending_turn[OF assms(1) Suc.prems] Suc.IH by (subst chunk_turns.simps) (auto simp: yields_simple dest!: yields_bind)
qed

text \<open>
  C39. A file with two equal chunks cannot be fetched: the responses are matched to chunks by CID and a CID names its
  last chunk only, so if the chunk is not in the local store yet, the fetch fails whatever the archives deliver.
\<close>

theorem equal_chunks_never_fetched:
  assumes "i < j" and "j < length (chunks m)" and "cd_cid (chunks m ! i) = cd_cid (chunks m ! j)" and "distinct (map cd_index (chunks m))"
    and "\<not> has (de_io E (dw_disk w)) (dw_store w) (cd_cid (chunks m ! i))"
    and "\<forall>n. exclusive (de_io E n)" and "store_inv (xl_digest (de_libs E)) (dw_store w)"
  shows "\<exists>e w'. fetch_v2_public_chunks E view m w = Some (Inl e, w')"
proof -
  let ?i = "cd_index (chunks m ! i)" and ?env = "de_io E (dw_disk w)"
  have idx: "\<And>cid. cid_to_idx m cid \<noteq> Some ?i" by (rule cid_to_idx_last[OF assms(4,1,2,3)])
  have "map_of (map (\<lambda>c. (cd_index c, g c)) (chunks m)) ?i = Some (g (chunks m ! i))" for g :: "_ \<Rightarrow> chunk_fetch"
    using assms(1,2,4) by (simp add: map_of_eq_Some_iff comp_def)
  then have start: "unfinished ?i (first_table E view ?env (dw_store w) m)"
    using assms(5) by (simp add: unfinished_def first_table_eq[OF assms(4)])
  obtain r w' where r: "fetch_v2_public_chunks E view m w = Some (r, w')"
    using chunks_fetched[OF assms(4,6) refl, of "sighted w" "dw_manifest_pulls w" "dw_pulls w" view] assms(7)
    by (auto simp: ensures_def roaming_def)
  moreover have "r \<noteq> Inr out" for out
  proof
    assume "r = Inr out"
    with r obtain st w1 pg w2 where t: "try_dispatch E m False (first_table E view ?env (dw_store w) m) w = Some (Inr st, w1)"
        "chunk_turns E m (length (dw_turns w)) \<lparr>pg_table = st, pg_skip = False, pg_fetched = 0, pg_attribution = Map.empty, pg_contacted = {}\<rparr> w1 = Some (Inr pg, w2)"
      unfolding fetch_v2_public_chunks_def by (auto simp: bind_act_Some gets_def Let_def)
    then have "yields (try_dispatch E m False (first_table E view ?env (dw_store w) m)) st"
        "yields (chunk_turns E m (length (dw_turns w)) \<lparr>pg_table = st, pg_skip = False, pg_fetched = 0, pg_attribution = Map.empty, pg_contacted = {}\<rparr>) pg"
      unfolding yields_def by blast+
    then show False using pending_turns[OF idx] start by (auto simp: try_dispatch_def dest!: yields_bind dest: pending_send)
  qed
  ultimately show ?thesis by (cases r) auto
qed

section \<open>A manifest that stops early\<close>

text \<open>
  The number of chunks is not compared with the registered one. A tree hashes its odd last node with itself, so for a
  file with an even number of chunks whose last two agree, the manifest without the last chunk has the same root and is
  consistent: the download accepts it, and what it writes is one chunk short.
\<close>

theorem truncated_manifest_accepted:
  assumes "consistent_manifest L m" and "even (length (chunks m))" and "4 \<le> length (chunks m)"
    and "cd_hash (chunks m ! (length (chunks m) - 1)) = cd_hash (chunks m ! (length (chunks m) - 2))"
    and "length (merkle_root m) = 32" and "cbor_de B b = Inr (m\<lparr>chunks := butlast (chunks m), chunk_count := chunk_count m - 1\<rparr>)"
  shows "decode_v2_manifest_bytes L B b (merkle_root m) = Inr (m\<lparr>chunks := butlast (chunks m), chunk_count := chunk_count m - 1\<rparr>)
     \<and> unat (chunk_count m - 1) + 1 = unat (chunk_count m)"
proof -
  let ?cs = "butlast (chunks m)" and ?m = "m\<lparr>chunks := butlast (chunks m), chunk_count := chunk_count m - 1\<rparr>"
  let ?hs = "map cd_hash ?cs"
  have ne: "chunks m \<noteq> []" "?cs \<noteq> []" using assms(3) by (auto simp: butlast_conv_take)
  have count: "unat (chunk_count m - 1) + 1 = unat (chunk_count m)"
  proof -
    have "chunk_count m \<noteq> 0" using assms(1,3) by (auto simp: consistent_manifest_def)
    then show ?thesis by (simp add: unat_minus_one unat_gt_0 Suc_leI)
  qed
  have "last ?hs = cd_hash (last (chunks m))"
    using assms(3,4) ne by (simp add: last_map last_conv_nth nth_butlast numeral_2_eq_2)
  then have "map cd_hash (chunks m) = ?hs @ [last ?hs]" using ne by (metis append_butlast_last_id list.simps(8,9) map_append)
  moreover have "odd (length ?hs)" "3 \<le> length ?hs" using assms(2,3) by auto
  ultimately have "merkle_root m = root (build (blake3 L) ?hs)"
    using merkle_root_duplicate_last[of ?hs "blake3 L"] assms(1) by (simp add: consistent_manifest_def)
  then have "consistent_manifest L ?m" using assms(1,3) count by (auto simp: consistent_manifest_def nth_butlast)
  then have "validate_manifest_push L B (hex_encode (merkle_root m)) b = Inr ?m"
    using assms(5,6) hex_to_32_encode by (simp add: validate_manifest_push_iff)
  then show ?thesis using assms(6) count by (simp add: decode_v2_manifest_bytes_def)
qed

section \<open>Instances\<close>

text \<open>One download carried out: one archive that delivers the manifest and the only chunk.\<close>

definition demo_dl :: download_env where
  "demo_dl = \<lparr>de_libs = ie_libs demo_ing, de_wire = demo_wire, de_cbor = \<lparr>cbor_ser = (\<lambda>_. Inr [1]), cbor_de = (\<lambda>_. Inr demo_ing_m)\<rparr>,
     de_rpc = demo_ing_rpc\<lparr>cr_chain_params := \<lambda>_. Inr \<lparr>cpi_chain_id = 1, cpi_block_time_ms = 1, cpi_finality_depth = 1, cpi_min_fee = 1,
       cpi_assignment_replication_factor = 1, cpi_max_chunk_indices_per_tx = 1, cpi_max_chunk_count_per_file = 9, cpi_activation_grace_blocks = 1,
       cpi_v2_enabled_from_height = Some 0\<rparr>\<rparr>,
     de_max_concurrent = 1, de_send_error = (\<lambda>_. None), de_io = (\<lambda>_. io_fine), de_index_io = me_fine, de_create_error = None, de_write_error = (\<lambda>_. None)\<rparr>"

definition demo_dl_info :: storage_file_info_v2 where
  "demo_dl_info = demo_ing_info\<lparr>fi_merkle_root := ''0x'' @ hex_encode demo_ing_root\<rparr>"

definition demo_dl_world :: download_world where
  "demo_dl_world = \<lparr>cw_calls = 0, cw_sent = [],
     dw_turns = [Event (ShardReceivedV2 ''p'' (ManifestData demo_ing_root [1] None)), Event (ShardReceivedV2 ''p'' (Data (cid_from_data demo_lib [7]) 0 1 [7] None))],
     dw_peers = [(''p'', demo_archive_addr)], dw_pulls = [], dw_manifest_pulls = [], dw_store = empty_chunk_store, dw_index = empty_index False,
     dw_mdir = [], dw_output = None, dw_disk = 0\<rparr>"

lemma demo_dl_env [simp]:
  "de_libs demo_dl = ie_libs demo_ing" "de_wire demo_dl = demo_wire" "cbor_de (de_cbor demo_dl) b = Inr demo_ing_m" "cbor_ser (de_cbor demo_dl) m = Inr [1]"
  "de_io demo_dl n = io_fine" "de_max_concurrent demo_dl = 1" "de_send_error demo_dl n = None" "de_index_io demo_dl = me_fine"
  "de_create_error demo_dl = None" "de_write_error demo_dl n = None"
  "cr_active_nodes (de_rpc demo_dl) n h = Inr [\<lparr>nr_address = ''a'', nr_role = ''ArchiveNode'', nr_staked_balance = 1, nr_status = ''Active'', nr_registered_at = 1\<rparr>]"
  by (simp_all add: demo_dl_def demo_ing_rpc_def)

lemma demo_dl_root: "parse_root_hex_32 (ie_libs demo_ing) (fi_merkle_root demo_dl_info) = Inr demo_ing_root"
  by (simp add: parse_root_hex_32_def demo_dl_info_def demo_ing_root_def strip_prefix_def)

definition demo_dl_view :: v2_assignment_view where
  "demo_dl_view = \<lparr>av_snapshot = [demo_archive_addr], av_r = 1, av_distinct = {demo_archive_addr}, av_per_chunk = [(0, [demo_archive_addr])]\<rparr>"

lemma demo_dl_assigned: "assigned_archives demo_wire rt [demo_archive_addr] i 1 = [demo_archive_addr]"
  using ing_demo_assigned[of rt i] by (simp add: assigned_to_def)

lemma demo_dl_decoded: "Ingest.decode_addresses (ie_libs demo_ing) (filter_active_archives [\<lparr>nr_address = ''a'', nr_role = ''ArchiveNode'', nr_staked_balance = 1,
     nr_status = ''Active'', nr_registered_at = 1\<rparr>]) = Inr [demo_archive_addr]"
  by (simp add: filter_active_archives_def is_active_archive_def l1_address_from_base58_def demo_ing_fields demo_lib_def demo_archive_addr_def)

lemma demo_dl_params: "\<exists>cp. cr_chain_params (de_rpc demo_dl) n = Inr cp \<and> cpi_assignment_replication_factor cp = 1"
  by (simp add: demo_dl_def)

lemma demo_dl_built:
  "build_v2_assignment_view demo_dl demo_dl_info rt (index_list 1) w = Some (Inr demo_dl_view, w\<lparr>cw_calls := Suc (Suc (cw_calls w))\<rparr>)"
  using demo_dl_params[of "Suc (cw_calls w)"]
  by (auto simp: build_v2_assignment_view_def Let_def bind_act_def map_err_def call_def lift_def require_def ret_def demo_dl_view_def
      index_list_def demo_dl_decoded demo_dl_assigned u32_of_def)

lemma demo_dl_decode: "decode_v2_manifest_bytes demo_lib (de_cbor demo_dl) b demo_ing_root = Inr demo_ing_m"
proof -
  have "consistent_manifest demo_lib demo_ing_m"
    by (simp add: consistent_manifest_def demo_ing_m_def root_def build_def build_levels.simps cid_from_data_def ing_demo_blake)
  moreover have "hex_to_32 (hex_encode demo_ing_root) = Some demo_ing_root" by (rule hex_to_32_encode) (simp add: demo_ing_root_def)
  ultimately have "validate_manifest_push demo_lib (de_cbor demo_dl) (hex_encode demo_ing_root) b = Inr demo_ing_m"
    by (simp add: validate_manifest_push_iff)
  then show ?thesis by (simp add: decode_v2_manifest_bytes_def)
qed

lemma demo_dl_manifest:
  assumes "dw_peers w = [(''p'', demo_archive_addr)]" and "dw_turns w = Event (ShardReceivedV2 ''p'' (ManifestData demo_ing_root [1] None)) # rest"
  shows "fetch_v2_public_manifest demo_dl demo_dl_view demo_ing_root w =
    Some (Inr demo_ing_m, w\<lparr>dw_turns := rest, dw_manifest_pulls := dw_manifest_pulls w @ [(''p'', demo_ing_root)]\<rparr>)"
  using assms demo_dl_decode
  by (simp add: fetch_v2_public_manifest_def Let_def demo_dl_view_def dispatch_wave_def bind_act_def gets_def addr_to_peer_def status_count_def
      attempt_def pull_manifest_v2_def ret_def manifest_turns.simps next_turn_def on_manifest_turn_def)

lemma demo_dl_chunks:
  assumes "dw_peers w = [(''p'', demo_archive_addr)]" and "dw_turns w = [Event (ShardReceivedV2 ''p'' (Data (cid_from_data demo_lib [7]) 0 1 [7] None))]"
    and "dw_store w = empty_chunk_store"
  shows "\<exists>out s. fetch_v2_public_chunks demo_dl demo_dl_view demo_ing_m w =
      Some (Inr out, w\<lparr>dw_turns := [], dw_pulls := dw_pulls w @ [(''p'', cid_from_data demo_lib [7], 1)], dw_store := s, dw_disk := Suc (dw_disk w)\<rparr>)
    \<and> get io_fine s (cid_from_data demo_lib [7]) = Inr [7]"
proof -
  let ?cid = "cid_from_data demo_lib [7]"
  have free: "lookup empty_chunk_store ?cid = None" by (simp add: lookup_def empty_chunk_store_def)
  obtain s where s: "put demo_lib io_fine empty_chunk_store ?cid [7] = (Inr (), s)" "get io_fine s ?cid = Inr [7]"
    using put_publishes[OF exclusive_fine store_inv_empty demo_put] demo_put free by (auto simp: demo_cid_def)
  have h: "\<not> has io_fine empty_chunk_store ?cid"
    using free by (auto simp: has_def dest!: open_key_Some split: sum.splits option.splits)
  have "fetch_v2_public_chunks demo_dl demo_dl_view demo_ing_m w =
     Some (Inr \<lparr>fo_fetched = 1, fo_skipped = u32_of 0, fo_attribution = [''p'' \<mapsto> 1], fo_contacted = {''p''}\<rparr>,
       w\<lparr>dw_turns := [], dw_pulls := dw_pulls w @ [(''p'', ?cid, 1)], dw_store := s, dw_disk := Suc (dw_disk w)\<rparr>)"
    using assms s(1) h
    by (simp add: fetch_v2_public_chunks_def Let_def demo_dl_view_def bind_act_def gets_def addr_to_peer_def first_table_def try_dispatch_def
        select_public_chunk_dispatches_def flights_def next_assigned_archive_def demo_ing_m_def map_err_def pull_chunk_v2_def
        mark_archive_asked_def ret_def chunk_turns.simps next_turn_def on_chunk_turn_def on_chunk_data_def cid_to_idx_def
        u64_of_def ing_demo_blake local_put_def redispatch_def)
  then show ?thesis using s(2) by blast
qed

lemma demo_dl_remember:
  assumes "dw_index w = empty_index False" and "dw_mdir w = []"
  shows "\<exists>idx d. remember_manifest demo_dl demo_ing_m w = Some (Inr (), w\<lparr>dw_index := idx, dw_mdir := d\<rparr>)"
  using assms by (simp add: remember_manifest_def get_by_merkle_root_def mi_insert_def write_manifest_def ensure_writable_def fs_write_def
      empty_index_def me_fine_def) blast

lemma demo_dl_run:
  "\<exists>res w'. run_v2_public_with_manifest demo_dl demo_dl_info demo_dl_world = Some (Inr (res, demo_ing_m), w')
     \<and> dw_output w' = Some [7] \<and> dr_merkle_verified res"
proof -
  let ?w1 = "demo_dl_world\<lparr>cw_calls := Suc (Suc 0)\<rparr>"
  let ?w2 = "?w1\<lparr>dw_turns := [Event (ShardReceivedV2 ''p'' (Data (cid_from_data demo_lib [7]) 0 1 [7] None))],
    dw_manifest_pulls := [(''p'', demo_ing_root)]\<rparr>"
  have m: "fetch_v2_public_manifest demo_dl demo_dl_view demo_ing_root ?w1 = Some (Inr demo_ing_m, ?w2)"
    using demo_dl_manifest[of ?w1 "[Event (ShardReceivedV2 ''p'' (Data (cid_from_data demo_lib [7]) 0 1 [7] None))]"] by (simp add: demo_dl_world_def)
  obtain idx d where r: "remember_manifest demo_dl demo_ing_m ?w2 = Some (Inr (), ?w2\<lparr>dw_index := idx, dw_mdir := d\<rparr>)"
    using demo_dl_remember[of ?w2] by (auto simp: demo_dl_world_def)
  let ?w3 = "?w2\<lparr>dw_index := idx, dw_mdir := d\<rparr>"
  obtain out s where c: "fetch_v2_public_chunks demo_dl demo_dl_view demo_ing_m ?w3 = Some (Inr out,
        ?w3\<lparr>dw_turns := [], dw_pulls := dw_pulls ?w3 @ [(''p'', cid_from_data demo_lib [7], 1)], dw_store := s, dw_disk := Suc (dw_disk ?w3)\<rparr>)"
      "get io_fine s (cid_from_data demo_lib [7]) = Inr [7]"
    using demo_dl_chunks[of ?w3] by (auto simp: demo_dl_world_def)
  have b: "build_v2_assignment_view demo_dl demo_dl_info demo_ing_root (index_list (fi_chunk_count demo_dl_info)) demo_dl_world = Some (Inr demo_dl_view, ?w1)"
    using demo_dl_built[of demo_ing_root demo_dl_world] by (simp add: demo_dl_info_def demo_ing_info_def demo_access_info_def demo_dl_world_def)
  show ?thesis using m r c b demo_dl_root
    by (simp add: run_v2_public_with_manifest_def bind_act_def map_err_def lift_def ret_def assemble_def create_output_def modify_def gets_def)
      (simp add: demo_ing_m_def bind_act_def gets_def modify_def ret_def)
qed

lemma demo_dl_sound:
  "lib_ok (xl_digest (de_libs demo_dl))" "\<forall>n. exclusive (de_io demo_dl n)" "store_inv (xl_digest (de_libs demo_dl)) (dw_store demo_dl_world)"
  "\<forall>b m. cbor_de (de_cbor demo_dl) b = Inr m \<longrightarrow> (\<forall>c \<in> set (chunks m). length (cd_hash c) = 32)"
  using demo_lib_ok store_inv_empty by (auto simp: demo_dl_world_def demo_ing_m_def demo_ing_root_def)

theorem download_output_verified_witness:
  "\<exists>res w' bs. run_v2_public_with_manifest demo_dl demo_dl_info demo_dl_world = Some (Inr (res, demo_ing_m), w')
     \<and> dw_output w' = Some (concat bs) \<and> (concat bs = concat [[7]] \<or> hash_clash (blake3 demo_lib) (file_collision (blake3 demo_lib) bs [[7]]))"
proof -
  obtain res w' where run: "run_v2_public_with_manifest demo_dl demo_dl_info demo_dl_world = Some (Inr (res, demo_ing_m), w')"
    using demo_dl_run by blast
  have "root (build (blake3 demo_lib) (map (blake3 demo_lib) [[7]])) = demo_ing_root" by (simp add: build_def root_def ing_demo_blake)
  moreover have "length [[7 :: byte]] = unat (chunk_count demo_ing_m)" by simp
  moreover obtain rt bs where "parse_root_hex_32 (de_libs demo_dl) (fi_merkle_root demo_dl_info) = Inr rt" "dw_output w' = Some (concat bs)"
      "\<forall>file. root (build (blake3 demo_lib) (map (blake3 demo_lib) file)) = rt \<and> length file = unat (chunk_count demo_ing_m)
          \<longrightarrow> concat bs = concat file \<or> hash_clash (blake3 demo_lib) (file_collision (blake3 demo_lib) bs file)"
    using download_output_verified[OF demo_dl_sound run] by (simp only: demo_dl_env ing_demo_env) blast
  ultimately show ?thesis using run demo_dl_root by (metis demo_dl_env(1) Inr_inject)
qed

theorem download_asks_assigned_archives_witness:
  "\<exists>r w' as ks. run_v2_public demo_dl demo_dl_info demo_dl_world = Some (r, w')
     \<and> accounted demo_dl demo_dl_info {(''p'', demo_archive_addr)} [] [] as ks w' \<and> distinct as \<and> distinct ks"
  using download_asks_assigned_archives[OF demo_dl_sound(2,3), of demo_dl_info] demo_wire_ok by (auto simp: demo_dl_world_def sighted_def)

definition demo_twin_m :: data_manifest where
  "demo_twin_m = demo_ing_m\<lparr>chunk_count := 2, chunks := [\<lparr>cd_index = 0, cd_offset = 0, cd_size = 1, cd_hash = demo_ing_root, cd_cid = demo_cid, cd_plaintext_hash = None\<rparr>,
     \<lparr>cd_index = 1, cd_offset = 1, cd_size = 1, cd_hash = demo_ing_root, cd_cid = demo_cid, cd_plaintext_hash = None\<rparr>]\<rparr>"

theorem equal_chunks_never_fetched_witness:
  "\<exists>e w'. fetch_v2_public_chunks demo_dl demo_dl_view demo_twin_m demo_dl_world = Some (Inl e, w')"
proof (rule equal_chunks_never_fetched[where i = 0 and j = 1])
  show "\<not> has (de_io demo_dl (dw_disk demo_dl_world)) (dw_store demo_dl_world) (cd_cid (chunks demo_twin_m ! 0))"
    by (auto simp: has_def demo_dl_world_def lookup_def empty_chunk_store_def dest!: open_key_Some split: sum.splits option.splits)
qed (use demo_dl_sound in \<open>simp_all add: demo_twin_m_def\<close>)

definition demo_tail_chunk :: "nat \<Rightarrow> byte \<Rightarrow> chunk_descriptor" where
  "demo_tail_chunk i b = \<lparr>cd_index = u32_of i, cd_offset = 0, cd_size = 1, cd_hash = blake3 demo_lib [b], cd_cid = cid_from_data demo_lib [b], cd_plaintext_hash = None\<rparr>"

definition demo_tail_m :: data_manifest where
  "demo_tail_m = (let cs = [demo_tail_chunk 0 1, demo_tail_chunk 1 2, demo_tail_chunk 2 3, demo_tail_chunk 3 3] in
     \<lparr>file_name = ''f'', file_hash = demo_ing_root, total_size_bytes = 4, chunk_count = 4, merkle_root = root (build (blake3 demo_lib) (map cd_hash cs)), chunks = cs\<rparr>)"

theorem truncated_manifest_accepted_witness:
  "decode_v2_manifest_bytes demo_lib \<lparr>cbor_ser = (\<lambda>_. Inr [1]), cbor_de = (\<lambda>_. Inr (demo_tail_m\<lparr>chunks := butlast (chunks demo_tail_m), chunk_count := chunk_count demo_tail_m - 1\<rparr>))\<rparr>
      [1] (merkle_root demo_tail_m) = Inr (demo_tail_m\<lparr>chunks := butlast (chunks demo_tail_m), chunk_count := chunk_count demo_tail_m - 1\<rparr>)"
proof (rule truncated_manifest_accepted[THEN conjunct1])
  show "consistent_manifest demo_lib demo_tail_m"
    by (simp add: consistent_manifest_def demo_tail_m_def Let_def demo_tail_chunk_def u32_of_def cid_from_data_def All_less_Suc)
  show "length (merkle_root demo_tail_m) = 32" unfolding demo_tail_m_def Let_def
    by simp (rule root_length32, use demo_lib_ok in \<open>auto simp: demo_tail_chunk_def\<close>)
qed (simp_all add: demo_tail_m_def Let_def demo_tail_chunk_def)

end
