(* ===== verification/Garbage_Collector.thy ===== *)
theory Garbage_Collector
  imports Publication
begin

text \<open>
  \<open>GarbageCollector\<close> (\<open>sum-store/src/gc.rs\<close>): mark and sweep with a grace period. Instants and
  durations are nanosecond counts. A sweep reads the clock twice, once for the age of the last L1
  poll and once for the sweep itself, and touches the disk through the chunk store; those readings
  and the I/O outcomes are the fields of \<open>sweep_env\<close>.
\<close>

section \<open>Model\<close>

record gc_state =
  unassigned_since :: "string \<rightharpoonup> nat"
  grace_period :: nat

record gc_result =
  chunks_deleted :: u32
  bytes_freed :: u64
  chunks_retained :: u32
  skipped :: bool

definition gc_result_default :: gc_result where
  "gc_result_default = \<lparr>chunks_deleted = 0, bytes_freed = 0, chunks_retained = 0, skipped = False\<rparr>"

definition MAX_L1_POLL_AGE :: nat where
  "MAX_L1_POLL_AGE = 300 * 10 ^ 9"

record sweep_env =
  sw_check :: nat                   \<comment> \<open>the clock at \<open>last_l1_poll.elapsed()\<close>\<close>
  sw_now :: nat                     \<comment> \<open>\<open>Instant::now()\<close>\<close>
  sw_list :: io_env
  sw_get :: "string \<Rightarrow> io_env"
  sw_delete :: "string \<Rightarrow> io_env"

definition gc_new :: "nat \<Rightarrow> gc_state" where
  "gc_new grace = \<lparr>unassigned_since = Map.empty, grace_period = grace\<rparr>"

text \<open>The body of the loop over \<open>all_cids\<close>.\<close>

definition sweep_one ::
    "sweep_env \<Rightarrow> (string \<Rightarrow> bool) \<Rightarrow> string \<Rightarrow> gc_state \<times> pub_store \<times> gc_result
       \<Rightarrow> gc_state \<times> pub_store \<times> gc_result" where
  "sweep_one env deletable cid = (\<lambda>(g, st, res).
     if \<not> deletable cid then (g, st, res)
     else
       (let first_seen = (case unassigned_since g cid of Some t \<Rightarrow> t | None \<Rightarrow> sw_now env);
            g1 = g\<lparr>unassigned_since := (unassigned_since g)(cid \<mapsto> first_seen)\<rparr>;
            unassigned_duration = sw_now env - first_seen
        in if unassigned_duration \<ge> grace_period g then
             (let size = (case get (sw_get env cid) st cid of Inr d \<Rightarrow> u64_of (length d) | Inl _ \<Rightarrow> 0) in
              case delete (sw_delete env cid) st cid of
                (Inr deleted, st') \<Rightarrow>
                   if deleted then
                     (g1\<lparr>unassigned_since := (unassigned_since g1)(cid := None)\<rparr>, st',
                      res\<lparr>chunks_deleted := chunks_deleted res + 1, bytes_freed := bytes_freed res + size\<rparr>)
                   else (g1, st', res)
              | (Inl e, st') \<Rightarrow> (g1, st', res))
           else (g1, st, res\<lparr>chunks_retained := chunks_retained res + 1\<rparr>)))"

definition sweep_where ::
    "gc_state \<Rightarrow> pub_store \<Rightarrow> nat \<Rightarrow> (string \<Rightarrow> bool) \<Rightarrow> sweep_env
       \<Rightarrow> (store_error + gc_result) \<times> gc_state \<times> pub_store" where
  "sweep_where g st last_l1_poll deletable env =
     (if sw_check env - last_l1_poll > MAX_L1_POLL_AGE
      then (Inr (gc_result_default\<lparr>skipped := True\<rparr>), g, st)
      else
        (case list_all_cids (sw_list env) st of Inl e \<Rightarrow> (Inl e, g, st)
         | Inr all_cids \<Rightarrow>
             (let g1 = g\<lparr>unassigned_since := (\<lambda>cid. if deletable cid then unassigned_since g cid else None)\<rparr>;
                  (g2, st2, res) = fold (sweep_one env deletable) all_cids (g1, st, gc_result_default)
              in (Inr res, g2, st2))))"

definition mark_and_sweep ::
    "gc_state \<Rightarrow> pub_store \<Rightarrow> string set \<Rightarrow> nat \<Rightarrow> sweep_env
       \<Rightarrow> (store_error + gc_result) \<times> gc_state \<times> pub_store" where
  "mark_and_sweep g st assigned_cids last_l1_poll env =
     sweep_where g st last_l1_poll (\<lambda>cid. cid \<notin> assigned_cids) env"

definition sweep_candidates ::
    "gc_state \<Rightarrow> pub_store \<Rightarrow> string set \<Rightarrow> nat \<Rightarrow> sweep_env
       \<Rightarrow> (store_error + gc_result) \<times> gc_state \<times> pub_store" where
  "sweep_candidates g st candidates last_l1_poll env =
     sweep_where g st last_l1_poll (\<lambda>cid. cid \<in> candidates) env"

definition tracked_count :: "gc_state \<Rightarrow> nat" where
  "tracked_count g = card (dom (unassigned_since g))"

section \<open>One sweep\<close>

definition quiet :: "sweep_env \<Rightarrow> bool" where
  "quiet env \<longleftrightarrow> (\<forall>c. exclusive (sw_delete env c))"

text \<open>When the collector may delete a chunk: deletable, and seen unassigned at least a grace period ago.\<close>

definition expired :: "sweep_env \<Rightarrow> (string \<Rightarrow> bool) \<Rightarrow> nat \<Rightarrow> (string \<rightharpoonup> nat) \<Rightarrow> string \<Rightarrow> bool" where
  "expired env deletable grace m cid \<longleftrightarrow> deletable cid
     \<and> grace \<le> sw_now env - (case m cid of Some t \<Rightarrow> t | None \<Rightarrow> sw_now env)"

lemma sweep_one_props:
  assumes "sweep_one env deletable c (g, st, res) = (g', st', res')" and "quiet env"
  shows "grace_period g' = grace_period g"
    and "\<forall>k. lookup st' k \<noteq> lookup st k \<longrightarrow> k = c \<and> lookup st' k = None
             \<and> expired env deletable (grace_period g) (unassigned_since g) k"
    and "\<forall>k t. unassigned_since g' k = Some t \<longrightarrow>
           unassigned_since g k = Some t \<or> (unassigned_since g k = None \<and> t = sw_now env \<and> deletable k)"
    and "store_inv L st \<Longrightarrow> store_inv L st'"
    and "\<forall>k a. unassigned_since g k = Some a \<longrightarrow> unassigned_since g' k = Some a \<or> lookup st' k = None"
proof -
  let ?t = "case unassigned_since g c of Some t \<Rightarrow> t | None \<Rightarrow> sw_now env"
  let ?m = "(unassigned_since g)(c \<mapsto> ?t)"
  obtain r s where d: "delete (sw_delete env c) st c = (r, s)" by fastforce
  have ex: "exclusive (sw_delete env c)" using assms(2) by (simp add: quiet_def)
  note sep = delete_cases [OF d ex]
  consider (keep) "\<not> deletable c" "g' = g" "st' = st"
    | (young) "deletable c" "\<not> grace_period g \<le> sw_now env - ?t" "g' = g\<lparr>unassigned_since := ?m\<rparr>" "st' = st"
    | (gone) "expired env deletable (grace_period g) (unassigned_since g) c" "r = Inr True"
        "g' = g\<lparr>unassigned_since := ?m(c := None)\<rparr>" "st' = s"
    | (stays) "expired env deletable (grace_period g) (unassigned_since g) c" "r \<noteq> Inr True"
        "g' = g\<lparr>unassigned_since := ?m\<rparr>" "st' = s"
    using assms(1) d by (auto simp: sweep_one_def Let_def expired_def split: if_splits sum.splits)
  note cases = this
  have map: "\<forall>k t. unassigned_since g' k = Some t \<longrightarrow>
      unassigned_since g k = Some t \<or> (unassigned_since g k = None \<and> t = sw_now env \<and> deletable k)"
    by (cases rule: cases) (auto simp: expired_def split: option.splits if_splits)
  then show "\<forall>k t. unassigned_since g' k = Some t \<longrightarrow>
      unassigned_since g k = Some t \<or> (unassigned_since g k = None \<and> t = sw_now env \<and> deletable k)" .
  show "grace_period g' = grace_period g" by (cases rule: cases) auto
  show "\<forall>k. lookup st' k \<noteq> lookup st k \<longrightarrow> k = c \<and> lookup st' k = None
      \<and> expired env deletable (grace_period g) (unassigned_since g) k"
    using sep by (cases rule: cases) auto
  show "store_inv L st \<Longrightarrow> store_inv L st'"
    using sep store_inv_remove [of L st c] by (cases rule: cases) auto
  show "\<forall>k a. unassigned_since g k = Some a \<longrightarrow> unassigned_since g' k = Some a \<or> lookup st' k = None"
    using sep by (cases rule: cases) auto
qed

lemma sweep_fold_props:
  assumes "fold (sweep_one env deletable) cs (g, st, res) = (g', st', res')" and "quiet env"
  shows "grace_period g' = grace_period g
    \<and> (\<forall>k. lookup st' k \<noteq> lookup st k \<longrightarrow> k \<in> set cs \<and> lookup st' k = None
          \<and> (\<exists>t. grace_period g \<le> sw_now env - t \<and> deletable k
                \<and> (unassigned_since g k = Some t \<or> unassigned_since g k = None \<and> t = sw_now env)))
    \<and> (\<forall>k t. unassigned_since g' k = Some t \<longrightarrow>
          unassigned_since g k = Some t \<or> (t = sw_now env \<and> deletable k))"
  using assms(1)
proof (induction cs arbitrary: g st res)
  case Nil
  then show ?case by simp
next
  case (Cons c cs)
  obtain g1 st1 res1 where one: "sweep_one env deletable c (g, st, res) = (g1, st1, res1)"
    by (metis prod_cases3)
  note p = sweep_one_props [OF one assms(2)]
  have "fold (sweep_one env deletable) cs (g1, st1, res1) = (g', st', res')" using Cons.prems one by simp
  note IH = Cons.IH [OF this]
  have "k \<in> set (c # cs) \<and> lookup st' k = None
      \<and> (\<exists>t. grace_period g \<le> sw_now env - t \<and> deletable k
            \<and> (unassigned_since g k = Some t \<or> unassigned_since g k = None \<and> t = sw_now env))"
    if ne: "lookup st' k \<noteq> lookup st k" for k
  proof (cases "lookup st1 k = lookup st k")
    case True
    then have "lookup st' k \<noteq> lookup st1 k" using ne by simp
    then obtain t where t: "k \<in> set cs" "lookup st' k = None" "grace_period g \<le> sw_now env - t" "deletable k"
        "unassigned_since g1 k = Some t \<or> unassigned_since g1 k = None \<and> t = sw_now env"
      using IH p(1) by auto
    have "lookup st1 k \<noteq> None" using True ne t(2) by metis
    show ?thesis
    proof (cases "unassigned_since g k")
      case None
      then have "t = sw_now env" using t(5) p(3) by (metis option.distinct(1))
      then show ?thesis using t None by auto
    next
      case (Some a)
      then have "unassigned_since g1 k = Some a" using p(5) \<open>lookup st1 k \<noteq> None\<close> by metis
      then show ?thesis using t Some by auto
    qed
  next
    case False
    with p(2) have e: "k = c" "lookup st1 k = None"
        "expired env deletable (grace_period g) (unassigned_since g) k" by auto
    moreover have "lookup st' k = None" using IH e(2) by metis
    ultimately show ?thesis by (auto simp: expired_def split: option.splits)
  qed
  moreover have "unassigned_since g k = Some t \<or> (t = sw_now env \<and> deletable k)"
    if "unassigned_since g' k = Some t" for k t
    using IH p(3) that by metis
  ultimately show ?case using IH p(1) by simp
qed

lemma sweep_fold_inv:
  assumes "fold (sweep_one env deletable) cs (g, st, res) = (g', st', res')" and "quiet env"
    and "store_inv L st"
  shows "store_inv L st'"
  using assms(1,3)
proof (induction cs arbitrary: g st res)
  case (Cons c cs)
  obtain g1 st1 res1 where one: "sweep_one env deletable c (g, st, res) = (g1, st1, res1)"
    by (metis prod_cases3)
  from sweep_one_props(4) [OF one assms(2) Cons.prems(2)] Cons one show ?case by simp
qed simp


lemma sweep_where_props:
  assumes "sweep_where g st poll deletable env = (r, g', st')" and "quiet env"
  shows "grace_period g' = grace_period g"
    and "lookup st' k \<noteq> lookup st k \<Longrightarrow>
      lookup st' k = None \<and> deletable k \<and> sw_check env - poll \<le> MAX_L1_POLL_AGE
      \<and> (\<exists>t. grace_period g \<le> sw_now env - t
            \<and> (unassigned_since g k = Some t \<or> unassigned_since g k = None \<and> t = sw_now env))"
    and "sw_check env - poll \<le> MAX_L1_POLL_AGE \<Longrightarrow> list_all_cids (sw_list env) st = Inr cs \<Longrightarrow>
      unassigned_since g' k = Some t \<Longrightarrow>
      deletable k \<and> (unassigned_since g k = Some t \<or> t = sw_now env)"
    and "\<not> (sw_check env - poll \<le> MAX_L1_POLL_AGE \<and> (\<exists>cs. list_all_cids (sw_list env) st = Inr cs)) \<Longrightarrow>
      g' = g \<and> st' = st"
    and "store_inv L st \<Longrightarrow> store_inv L st'"
proof -
  let ?fresh = "sw_check env - poll \<le> MAX_L1_POLL_AGE"
  let ?g1 = "g\<lparr>unassigned_since := (\<lambda>cid. if deletable cid then unassigned_since g cid else None)\<rparr>"
  have idle: "g' = g \<and> st' = st" if "\<not> (?fresh \<and> (\<exists>cs. list_all_cids (sw_list env) st = Inr cs))"
    using that assms(1) by (auto simp: sweep_where_def Let_def split: if_splits sum.splits prod.splits)
  then show "\<not> (?fresh \<and> (\<exists>cs. list_all_cids (sw_list env) st = Inr cs)) \<Longrightarrow> g' = g \<and> st' = st" .
  have run: "\<exists>res. fold (sweep_one env deletable) cs (?g1, st, gc_result_default) = (g', st', res)"
    if "?fresh" "list_all_cids (sw_list env) st = Inr cs" for cs
    using that assms(1) by (auto simp: sweep_where_def Let_def split: prod.splits)
  show "grace_period g' = grace_period g"
    using idle run sweep_fold_props [OF _ assms(2)] by fastforce
  show "store_inv L st \<Longrightarrow> store_inv L st'"
    using idle run sweep_fold_inv [OF _ assms(2)] by fastforce
  show "lookup st' k = None \<and> deletable k \<and> ?fresh
      \<and> (\<exists>t. grace_period g \<le> sw_now env - t
            \<and> (unassigned_since g k = Some t \<or> unassigned_since g k = None \<and> t = sw_now env))"
    if ne: "lookup st' k \<noteq> lookup st k"
  proof -
    obtain cs where cs: "?fresh" "list_all_cids (sw_list env) st = Inr cs" using ne idle by auto
    from run [OF this] obtain res where
      f: "fold (sweep_one env deletable) cs (?g1, st, gc_result_default) = (g', st', res)" by blast
    have "lookup st' k = None \<and> (\<exists>t. grace_period g \<le> sw_now env - t \<and> deletable k
        \<and> (unassigned_since ?g1 k = Some t \<or> unassigned_since ?g1 k = None \<and> t = sw_now env))"
      using sweep_fold_props [OF f assms(2)] ne by simp
    then show ?thesis using cs(1) by auto
  qed
  show "deletable k \<and> (unassigned_since g k = Some t \<or> t = sw_now env)"
    if "?fresh" "list_all_cids (sw_list env) st = Inr cs" "unassigned_since g' k = Some t"
  proof -
    from run [OF that(1,2)] obtain res where
      f: "fold (sweep_one env deletable) cs (?g1, st, gc_result_default) = (g', st', res)" by blast
    show ?thesis using sweep_fold_props [OF f assms(2)] that(3) by (auto split: if_splits)
  qed
qed


section \<open>Properties\<close>

text \<open>
  Safety of one sweep: a chunk that is currently assigned is never touched by
  \<open>mark_and_sweep\<close>, a chunk that the caller did not name is never touched by
  \<open>sweep_candidates\<close>, no chunk is touched when the last L1 poll is older than five minutes, and a
  chunk first seen unassigned less than a grace period ago is kept; the store invariant is kept too.
\<close>

theorem gc_sweep_safe:
  assumes "quiet env" and "store_inv L st"
    and "mark_and_sweep g st assigned poll env = (r, g', st')"
    and "sweep_candidates g st candidates poll env = (r2, g2, st2)"
  shows "(\<forall>k \<in> assigned. lookup st' k = lookup st k)
       \<and> (\<forall>k. k \<notin> candidates \<longrightarrow> lookup st2 k = lookup st k)
       \<and> (sw_check env - poll > MAX_L1_POLL_AGE \<longrightarrow> st' = st \<and> st2 = st)
       \<and> (\<forall>k t. unassigned_since g k = Some t \<longrightarrow> sw_now env - t < grace_period g
             \<longrightarrow> lookup st' k = lookup st k \<and> lookup st2 k = lookup st k)
       \<and> store_inv L st' \<and> store_inv L st2"
proof -
  note m = sweep_where_props [OF assms(3) [unfolded mark_and_sweep_def] assms(1)]
  note c = sweep_where_props [OF assms(4) [unfolded sweep_candidates_def] assms(1)]
  have young: "lookup st' k = lookup st k" "lookup st2 k = lookup st k"
    if "unassigned_since g k = Some t" "sw_now env - t < grace_period g" for k t
    using m(2) [of k] c(2) [of k] that by fastforce+
  then show ?thesis
    using m(2) m(4) m(5) [OF assms(2)] c(2) c(4) c(5) [OF assms(2)] by (metis not_le)
qed

text \<open>A history of sweeps; the store may change in any way between two of them.\<close>

record sweep_event =
  ev_store :: pub_store
  ev_poll :: nat
  ev_deletable :: "string \<Rightarrow> bool"
  ev_env :: sweep_env

definition sweep_event :: "gc_state \<Rightarrow> sweep_event \<Rightarrow> gc_state \<times> pub_store" where
  "sweep_event g e = snd (sweep_where g (ev_store e) (ev_poll e) (ev_deletable e) (ev_env e))"

definition effective :: "sweep_event \<Rightarrow> bool" where
  "effective e \<longleftrightarrow> sw_check (ev_env e) - ev_poll e \<le> MAX_L1_POLL_AGE
     \<and> (\<exists>cs. list_all_cids (sw_list (ev_env e)) (ev_store e) = Inr cs)"

fun gc_run :: "gc_state \<Rightarrow> sweep_event list \<Rightarrow> gc_state" where
  "gc_run g [] = g"
| "gc_run g (e # es) = gc_run (fst (sweep_event g e)) es"

definition unassigned_through :: "sweep_event list \<Rightarrow> string \<Rightarrow> nat \<Rightarrow> bool" where
  "unassigned_through hist k t \<longleftrightarrow> (\<exists>h1 e h2. hist = h1 @ e # h2 \<and> sw_now (ev_env e) = t \<and> effective e
     \<and> (\<forall>x \<in> set (e # h2). effective x \<longrightarrow> ev_deletable x k))"

definition tracks :: "sweep_event list \<Rightarrow> gc_state \<Rightarrow> bool" where
  "tracks hist g \<longleftrightarrow> (\<forall>k t. unassigned_since g k = Some t \<longrightarrow> unassigned_through hist k t)"

lemma unassigned_through_snoc:
  "unassigned_through hist k t \<Longrightarrow> (effective e \<Longrightarrow> ev_deletable e k) \<Longrightarrow> unassigned_through (hist @ [e]) k t"
  unfolding unassigned_through_def
proof (elim exE conjE)
  fix h1 x h2
  assume "hist = h1 @ x # h2" "sw_now (ev_env x) = t" "effective x"
    "\<forall>y \<in> set (x # h2). effective y \<longrightarrow> ev_deletable y k" "effective e \<Longrightarrow> ev_deletable e k"
  then show "\<exists>h1 x h2. hist @ [e] = h1 @ x # h2 \<and> sw_now (ev_env x) = t \<and> effective x
      \<and> (\<forall>y \<in> set (x # h2). effective y \<longrightarrow> ev_deletable y k)"
    by (intro exI [of _ h1] exI [of _ x] exI [of _ "h2 @ [e]"]) auto
qed

lemma unassigned_through_now:
  "effective e \<Longrightarrow> ev_deletable e k \<Longrightarrow> unassigned_through (hist @ [e]) k (sw_now (ev_env e))"
  unfolding unassigned_through_def by (intro exI [of _ hist] exI [of _ e] exI [of _ "[]"]) simp

lemma tracks_step:
  assumes "tracks hist g" and "quiet (ev_env e)" and "sweep_event g e = (g', st')"
  shows "tracks (hist @ [e]) g'" and "grace_period g' = grace_period g"
proof -
  obtain r where sw: "sweep_where g (ev_store e) (ev_poll e) (ev_deletable e) (ev_env e) = (r, g', st')"
    using assms(3) by (cases "sweep_where g (ev_store e) (ev_poll e) (ev_deletable e) (ev_env e)")
      (auto simp: sweep_event_def)
  note p = sweep_where_props [OF sw assms(2)]
  show "grace_period g' = grace_period g" by (rule p(1))
  show "tracks (hist @ [e]) g'"
    unfolding tracks_def
  proof (intro allI impI)
    fix k t assume t: "unassigned_since g' k = Some t"
    show "unassigned_through (hist @ [e]) k t"
    proof (cases "effective e")
      case False
      then have "g' = g" using p(4) by (auto simp: effective_def)
      then have "unassigned_through hist k t" using t assms(1) by (simp add: tracks_def)
      then show ?thesis by (rule unassigned_through_snoc) (use False in simp)
    next
      case True
      then have "ev_deletable e k \<and> (unassigned_since g k = Some t \<or> t = sw_now (ev_env e))"
        using p(3) t by (auto simp: effective_def)
      then show ?thesis using True assms(1)
        by (auto simp: tracks_def intro: unassigned_through_snoc unassigned_through_now)
    qed
  qed
qed

lemma tracks_run:
  assumes "\<forall>e \<in> set es. quiet (ev_env e)" and "tracks hist g"
  shows "tracks (hist @ es) (gc_run g es) \<and> grace_period (gc_run g es) = grace_period g"
  using assms
proof (induction es arbitrary: hist g)
  case (Cons e es)
  obtain g' st' where s: "sweep_event g e = (g', st')" by fastforce
  note t = tracks_step [OF Cons.prems(2) _ s]
  show ?case using Cons.IH [of "hist @ [e]" g'] Cons.prems(1) t s by simp
qed simp

text \<open>
  The grace period over whole histories: whenever a sweep removes a chunk, some earlier
  effective sweep of this collector (or the same one, for a zero grace period) took place at least a
  grace period before it, and in that sweep and every effective sweep since, the chunk was deletable.
  A chunk that was assigned again in between is never deleted by the old mark.
\<close>

theorem gc_grace_period:
  assumes "\<forall>x \<in> set (hist @ [e]). quiet (ev_env x)"
    and "sweep_event (gc_run (gc_new grace) hist) e = (g', st')"
    and "lookup (ev_store e) k = Some b" and "lookup st' k = None"
  shows "\<exists>t. grace \<le> sw_now (ev_env e) - t \<and> unassigned_through (hist @ [e]) k t"
proof -
  let ?g = "gc_run (gc_new grace) hist"
  have "tracks [] (gc_new grace)" by (simp add: tracks_def gc_new_def)
  then have tr: "tracks hist ?g" and gr: "grace_period ?g = grace"
    using tracks_run [of hist "[]" "gc_new grace"] assms(1) by (auto simp: gc_new_def)
  obtain r where sw: "sweep_where ?g (ev_store e) (ev_poll e) (ev_deletable e) (ev_env e) = (r, g', st')"
    using assms(2) by (cases "sweep_where ?g (ev_store e) (ev_poll e) (ev_deletable e) (ev_env e)")
      (auto simp: sweep_event_def)
  note p = sweep_where_props [OF sw]
  have q: "quiet (ev_env e)" using assms(1) by simp
  have del: "ev_deletable e k" "\<exists>t. grace \<le> sw_now (ev_env e) - t
      \<and> (unassigned_since ?g k = Some t \<or> unassigned_since ?g k = None \<and> t = sw_now (ev_env e))"
    using p(2) [OF q, of k] assms(3,4) gr by auto
  have "st' \<noteq> ev_store e" using assms(3,4) by auto
  then have eff: "effective e" using p(4) [OF q] by (meson effective_def)
  from del(2) obtain t where t: "grace \<le> sw_now (ev_env e) - t"
      "unassigned_since ?g k = Some t \<or> unassigned_since ?g k = None \<and> t = sw_now (ev_env e)" by blast
  then have "unassigned_through (hist @ [e]) k t"
    using tr del(1) eff by (auto simp: tracks_def intro: unassigned_through_snoc unassigned_through_now)
  with t(1) show ?thesis by blast
qed

section \<open>Instances\<close>

definition demo_env :: "nat \<Rightarrow> sweep_env" where
  "demo_env now = \<lparr>sw_check = now, sw_now = now, sw_list = io_fine,
     sw_get = (\<lambda>_. io_fine), sw_delete = (\<lambda>_. io_fine)\<rparr>"

lemma quiet_demo [simp]: "quiet (demo_env now)"
  by (simp add: quiet_def demo_env_def)

theorem gc_sweep_safe_witness:
  "store_inv demo_lib (snd (snd (mark_and_sweep (gc_new 5) empty_chunk_store {demo_cid} 0 (demo_env 1))))"
proof -
  obtain r g' st' where m:
    "mark_and_sweep (gc_new 5) empty_chunk_store {demo_cid} 0 (demo_env 1) = (r, g', st')" by (metis prod_cases3)
  obtain r2 g2 st2 where c:
    "sweep_candidates (gc_new 5) empty_chunk_store {} 0 (demo_env 1) = (r2, g2, st2)" by (metis prod_cases3)
  from gc_sweep_safe [OF quiet_demo store_inv_empty m c] show ?thesis using m by simp
qed

definition demo_store :: pub_store where
  "demo_store = snd (put demo_lib io_fine empty_chunk_store demo_cid [7])"

definition demo_event :: sweep_event where
  "demo_event = \<lparr>ev_store = demo_store, ev_poll = 1, ev_deletable = (\<lambda>_. True), ev_env = demo_env 1\<rparr>"

lemma demo_store_entries: "entries demo_store = [(demo_cid @ ''.chunk'', Regular [7])]"
    "suffix demo_store = ''.chunk''"
  by (simp_all add: demo_store_def demo_put published_def) (simp_all add: empty_chunk_store_def)

lemma demo_name: "name demo_store demo_cid = Inr (demo_cid @ ''.chunk'')"
  unfolding demo_cid_def cid_from_data_def
  using name_plain [OF lib_ok_plain [OF demo_lib_ok lib_ok_blake3 [OF demo_lib_ok]]] demo_store_entries(2)
  by simp

lemma demo_open: "open_key io_fine demo_store demo_cid = Inr (Some [7])"
  by (simp add: open_key_def demo_name demo_store_entries io_fine_def)

lemma demo_list: "list_all_cids io_fine demo_store = Inr [demo_cid]"
proof -
  have "strip_suffix ''.chunk'' (demo_cid @ ''.chunk'') = Some demo_cid"
    by (simp only: strip_suffix_Some)
  then show ?thesis
    by (simp add: list_all_cids_def demo_store_entries demo_name demo_open)
qed

lemma demo_delete: "delete io_fine demo_store demo_cid =
    (Inr True, remove_entry (demo_cid @ ''.chunk'') demo_store)"
  by (simp add: delete_def demo_name demo_open) (simp add: io_fine_def)

lemma demo_sweep: "lookup (snd (sweep_event (gc_run (gc_new 0) []) demo_event)) demo_cid = None"
  by (simp add: sweep_event_def demo_event_def sweep_where_def demo_env_def demo_list gc_new_def
      sweep_one_def Let_def demo_delete lookup_def demo_store_entries MAX_L1_POLL_AGE_def)

theorem gc_grace_period_witness:
  "\<exists>t. 0 \<le> sw_now (ev_env demo_event) - t \<and> unassigned_through ([] @ [demo_event]) demo_cid t"
proof -
  obtain g' st' where s: "sweep_event (gc_run (gc_new 0) []) demo_event = (g', st')" by fastforce
  have "lookup (ev_store demo_event) demo_cid = Some [7]"
    by (simp add: demo_event_def lookup_def demo_store_entries)
  moreover have "lookup st' demo_cid = None" using demo_sweep s by simp
  moreover have "\<forall>x \<in> set ([] @ [demo_event]). quiet (ev_env x)" by (simp add: demo_event_def)
  ultimately show ?thesis using gc_grace_period [OF _ s] by blast
qed

end
