(* ===== verification/Market_Sync.thy ===== *)
theory Market_Sync
  imports Garbage_Collector Assignment Manifest_Index Fetch Chain_Types
begin

text \<open>
  The market-sync worker (\<open>sum-node/src/market_sync.rs\<close>): which chunks of the funded V1 files this
  archive fetches, and which it may garbage-collect. The node's tables are hash maps, so the order in
  which \<open>all_merkle_roots\<close> lists the indexed roots is an argument. A cycle's RPC answers, clock and
  I/O outcomes are the fields of \<open>sync_env\<close>; \<open>None\<close> stands for an assignment loop that never ends.
\<close>

section \<open>The shared assignment kernel\<close>

definition sync_hex_to_32 :: "string \<Rightarrow> hash option" where
  "sync_hex_to_32 hex = (if length hex \<noteq> 64 then None else parse_hex_pairs hex)"

definition root_hex_of :: "storage_file_info \<Rightarrow> string" where
  "root_hex_of file = (case strip_prefix ''0x'' (sf_merkle_root file) of Some t \<Rightarrow> t | None \<Rightarrow> sf_merkle_root file)"

definition div_ceil :: "nat \<Rightarrow> nat \<Rightarrow> nat" where
  "div_ceil a b = a div b + (if a mod b > 0 then 1 else 0)"

definition file_chunk_count :: "storage_file_info \<Rightarrow> nat" where
  "file_chunk_count file = div_ceil (unat (sf_total_size_bytes file)) CHUNK_SIZE"

definition my_assigned_chunk_indices ::
    "(bytes \<Rightarrow> hash) \<Rightarrow> hash \<Rightarrow> nat \<Rightarrow> addr20 list \<Rightarrow> u32 \<Rightarrow> addr20 \<Rightarrow> (addr20 list list \<times> u32 list) option" where
  "my_assigned_chunk_indices H root_bytes n node_addrs replication_factor my_addr =
     map_option (\<lambda>assignment. (assignment, chunks_for_node assignment my_addr))
       (compute_chunk_assignment H root_bytes n node_addrs replication_factor)"

section \<open>What may be collected\<close>

record gc_attribution =
  ga_funded :: "hash set"
  ga_protected :: "string set"
  ga_unassigned :: "string set"

definition attribute_manifest :: "u32 list \<Rightarrow> data_manifest \<Rightarrow> gc_attribution \<Rightarrow> gc_attribution" where
  "attribute_manifest mine m a =
     foldl (\<lambda>a (i, c). if u32_of i \<in> set mine
              then a\<lparr>ga_protected := insert (cd_cid c) (ga_protected a)\<rparr>
              else a\<lparr>ga_unassigned := insert (cd_cid c) (ga_unassigned a)\<rparr>)
       a (enumerate 0 (chunks m))"

fun attribute_files ::
    "(bytes \<Rightarrow> hash) \<Rightarrow> u32 \<Rightarrow> addr20 \<Rightarrow> addr20 list \<Rightarrow> manifest_index \<Rightarrow> storage_file_info list \<Rightarrow> gc_attribution
       \<Rightarrow> gc_attribution option" where
  "attribute_files H rf me node_addrs idx [] a = Some a"
| "attribute_files H rf me node_addrs idx (file # files) a =
     (case sync_hex_to_32 (root_hex_of file) of
        None \<Rightarrow> attribute_files H rf me node_addrs idx files a
      | Some rt \<Rightarrow>
         (let a1 = a\<lparr>ga_funded := insert rt (ga_funded a)\<rparr>; n = file_chunk_count file in
          if n = 0 then attribute_files H rf me node_addrs idx files a1
          else
            (case my_assigned_chunk_indices H rt n node_addrs rf me of
               None \<Rightarrow> None
             | Some (_, mine) \<Rightarrow>
                 (case get_by_merkle_root idx rt of
                    None \<Rightarrow> attribute_files H rf me node_addrs idx files a1
                  | Some m \<Rightarrow> attribute_files H rf me node_addrs idx files (attribute_manifest mine m a1)))))"

definition other_manifest_cids :: "manifest_index \<Rightarrow> hash set \<Rightarrow> hash list \<Rightarrow> string list" where
  "other_manifest_cids idx funded roots =
     concat (map (\<lambda>rt. if rt \<in> funded then []
                       else (case get_by_merkle_root idx rt of None \<Rightarrow> [] | Some m \<Rightarrow> map cd_cid (chunks m))) roots)"

definition compute_gc_candidates ::
    "(bytes \<Rightarrow> hash) \<Rightarrow> u32 \<Rightarrow> addr20 \<Rightarrow> storage_file_info list \<Rightarrow> addr20 list \<Rightarrow> manifest_index \<Rightarrow> hash list
       \<Rightarrow> string set option" where
  "compute_gc_candidates H rf me files node_addrs idx roots =
     (if \<not> gc_protection_intact idx then Some {}
      else
        map_option (\<lambda>a. let protected = ga_protected a \<union> set (other_manifest_cids idx (ga_funded a) roots) in
             Set.filter (\<lambda>cid. cid \<notin> protected \<and> \<not> is_private_chunk_cid idx cid \<and> \<not> is_gc_protected idx cid)
               (ga_unassigned a))
          (attribute_files H rf me node_addrs idx files \<lparr>ga_funded = {}, ga_protected = {}, ga_unassigned = {}\<rparr>))"

section \<open>What is fetched\<close>

record fetch_target =
  ft_chunk_index :: u32
  ft_cid :: string
  ft_expected_size :: u64
  ft_peer_id :: peer_id

definition find_map :: "('a \<Rightarrow> 'b option) \<Rightarrow> 'a list \<Rightarrow> 'b option" where
  "find_map f xs = (case find (\<lambda>x. f x \<noteq> None) xs of None \<Rightarrow> None | Some x \<Rightarrow> f x)"

definition fetch_target_for ::
    "io_env \<Rightarrow> pub_store \<Rightarrow> fetch_manager \<Rightarrow> addr20 \<Rightarrow> (addr20 \<Rightarrow> peer_id option) \<Rightarrow> data_manifest \<Rightarrow> addr20 list list
       \<Rightarrow> u32 \<Rightarrow> fetch_target list" where
  "fetch_target_for env s fetcher me addr_to_peer m assignment i =
     (if unat i \<ge> length (chunks m) then []
      else
        (let c = chunks m ! unat i in
         if has env s (cd_cid c) then []
         else if is_active fetcher (cd_cid c) then []
         else
           (case nodes_for_chunk assignment i of
              None \<Rightarrow> []
            | Some holders \<Rightarrow>
               (case find_map addr_to_peer (filter (\<lambda>h. h \<noteq> me) holders) of
                  None \<Rightarrow> []
                | Some peer \<Rightarrow> [\<lparr>ft_chunk_index = i, ft_cid = cd_cid c, ft_expected_size = cd_size c, ft_peer_id = peer\<rparr>]))))"

datatype sync_plan =
    NothingToDo
  | AskManifest peer_id string
  | Fetch "fetch_target list"

definition plan_file ::
    "(bytes \<Rightarrow> hash) \<Rightarrow> u32 \<Rightarrow> addr20 \<Rightarrow> addr20 list \<Rightarrow> (addr20 \<Rightarrow> peer_id option) \<Rightarrow> io_env \<Rightarrow> pub_store \<Rightarrow> manifest_index
       \<Rightarrow> fetch_manager \<Rightarrow> storage_file_info \<Rightarrow> (string + sync_plan) option" where
  "plan_file H rf me node_addrs addr_to_peer env s idx fetcher file =
     (case sync_hex_to_32 (root_hex_of file) of
        None \<Rightarrow> Some (Inl ''invalid merkle_root hex'')
      | Some rt \<Rightarrow>
         (let n = file_chunk_count file in
          if n = 0 then Some (Inr NothingToDo)
          else
            (case my_assigned_chunk_indices H rt n node_addrs rf me of
               None \<Rightarrow> None
             | Some (assignment, my_chunks) \<Rightarrow>
                 if my_chunks = [] then Some (Inr NothingToDo)
                 else
                   (case get_by_merkle_root idx rt of
                      None \<Rightarrow>
                        (case nodes_for_chunk assignment 0 of
                           None \<Rightarrow> Some (Inr NothingToDo)
                         | Some nodes \<Rightarrow>
                            (case find_map addr_to_peer nodes of
                               None \<Rightarrow> Some (Inr NothingToDo)
                             | Some peer \<Rightarrow> Some (Inr (AskManifest peer (root_hex_of file)))))
                    | Some m \<Rightarrow>
                        Some (Inr (Fetch (concat (map (fetch_target_for env s fetcher me addr_to_peer m assignment)
                                                     my_chunks))))))))"

fun issue_fetches :: "fetch_net \<Rightarrow> fetch_manager \<Rightarrow> fetch_target list \<Rightarrow> fetch_manager" where
  "issue_fetches net m [] = m"
| "issue_fetches net m (t # ts) =
     (case start_fetch_with_expected_size net m (ft_peer_id t) (ft_cid t) (Some (ft_expected_size t)) of
        (_, m', _) \<Rightarrow> issue_fetches net m' ts)"

definition run_plan :: "fetch_net \<Rightarrow> fetch_manager \<Rightarrow> string + sync_plan \<Rightarrow> fetch_manager" where
  "run_plan net m plan = (case plan of Inr (Fetch ts) \<Rightarrow> issue_fetches net m ts | _ \<Rightarrow> m)"

fun sync_files ::
    "(bytes \<Rightarrow> hash) \<Rightarrow> u32 \<Rightarrow> addr20 \<Rightarrow> addr20 list \<Rightarrow> (addr20 \<Rightarrow> peer_id option) \<Rightarrow> io_env \<Rightarrow> fetch_net \<Rightarrow> pub_store
       \<Rightarrow> manifest_index \<Rightarrow> fetch_manager \<Rightarrow> storage_file_info list \<Rightarrow> fetch_manager option" where
  "sync_files H rf me node_addrs addr_to_peer env net s idx m [] = Some m"
| "sync_files H rf me node_addrs addr_to_peer env net s idx m (file # files) =
     (case plan_file H rf me node_addrs addr_to_peer env s idx m file of
        None \<Rightarrow> None
      | Some plan \<Rightarrow> sync_files H rf me node_addrs addr_to_peer env net s idx (run_plan net m plan) files)"

section \<open>A cycle\<close>

record sync_worker =
  mw_l1_address :: addr20
  mw_replication_factor :: u32
  mw_gc :: gc_state
  mw_last_l1_poll :: nat
  mw_poll_interval_secs :: u64
  mw_consecutive_failures :: u32
record sync_env =
  se_funded_files :: "string + storage_file_info list"
  se_block_height :: "string + u64"
  se_nodes_at :: "u64 \<Rightarrow> string + node_record_info list"
  se_bs58_decode :: "string \<Rightarrow> string + bytes"
  se_addr_to_peer :: "addr20 \<Rightarrow> peer_id option"
  se_has :: io_env
  se_net :: fetch_net
  se_poll :: nat
  se_sweep :: sweep_env
  se_roots :: "hash list"

definition active_nodes_at_finalized_head :: "sync_env \<Rightarrow> string + node_record_info list" where
  "active_nodes_at_finalized_head env =
     (case se_block_height env of Inl e \<Rightarrow> Inl e | Inr height \<Rightarrow> se_nodes_at env height)"

definition decoded_addrs :: "digest_lib \<Rightarrow> sync_env \<Rightarrow> node_record_info list \<Rightarrow> addr20 list" where
  "decoded_addrs L env records =
     sort (concat (map (\<lambda>r. case l1_address_from_base58 L (se_bs58_decode env) (nr_address r) of
                              Inl e \<Rightarrow> [] | Inr a \<Rightarrow> [a]) records))"

text \<open>The new fetch state, worker and store; fetching and collecting see the same files and nodes.\<close>

definition sync_cycle ::
    "digest_lib \<Rightarrow> sync_env \<Rightarrow> sync_worker \<Rightarrow> pub_store \<Rightarrow> manifest_index \<Rightarrow> fetch_manager
       \<Rightarrow> ((string + unit) \<times> sync_worker \<times> pub_store \<times> fetch_manager) option" where
  "sync_cycle L env w s idx fetcher =
     (case se_funded_files env of Inl e \<Rightarrow> Some (Inl e, w, s, fetcher)
      | Inr files \<Rightarrow>
        (case active_nodes_at_finalized_head env of Inl e \<Rightarrow> Some (Inl e, w, s, fetcher)
         | Inr records0 \<Rightarrow>
           (let records = filter_active_archives records0; node_addrs = decoded_addrs L env records in
            if files = [] \<or> records = [] then Some (Inr (), w, s, fetcher)
            else if mw_l1_address w \<notin> set node_addrs then Some (Inr (), w, s, fetcher)
            else
              (case sync_files (blake3 L) (mw_replication_factor w) (mw_l1_address w) node_addrs (se_addr_to_peer env)
                      (se_has env) (se_net env) s idx fetcher files of
                 None \<Rightarrow> None
               | Some fetcher' \<Rightarrow>
                  (case compute_gc_candidates (blake3 L) (mw_replication_factor w) (mw_l1_address w) files node_addrs
                          idx (se_roots env) of
                     None \<Rightarrow> None
                   | Some candidates \<Rightarrow>
                      (case sweep_candidates (mw_gc w) s candidates (se_poll env) (se_sweep env) of
                         (_, gc', s') \<Rightarrow>
                           Some (Inr (), w\<lparr>mw_gc := gc', mw_last_l1_poll := se_poll env\<rparr>, s', fetcher')))))))"

text \<open>What \<open>run\<close> does with a cycle's result: the backoff in seconds, if it sleeps.\<close>

definition after_cycle :: "string + unit \<Rightarrow> sync_worker \<Rightarrow> sync_worker \<times> u64 option" where
  "after_cycle r w =
     (case r of
        Inr _ \<Rightarrow> (w\<lparr>mw_consecutive_failures := 0\<rparr>, None)
      | Inl e \<Rightarrow>
         (let failures = mw_consecutive_failures w + 1 in
          (w\<lparr>mw_consecutive_failures := failures\<rparr>, Some (mw_poll_interval_secs w * 2 ^ unat (min failures 5)))))"

section \<open>Candidates, exactly\<close>

text \<open>A funded file with an indexed manifest names the chunk at an index that is, or is not, this archive's.\<close>

definition funded_chunk ::
    "(bytes \<Rightarrow> hash) \<Rightarrow> u32 \<Rightarrow> addr20 \<Rightarrow> addr20 list \<Rightarrow> manifest_index \<Rightarrow> storage_file_info list \<Rightarrow> bool \<Rightarrow> string \<Rightarrow> bool" where
  "funded_chunk H rf me node_addrs idx files mine cid \<longleftrightarrow>
     (\<exists>f \<in> set files. \<exists>rt assignment my m i. sync_hex_to_32 (root_hex_of f) = Some rt \<and> file_chunk_count f \<noteq> 0
        \<and> my_assigned_chunk_indices H rt (file_chunk_count f) node_addrs rf me = Some (assignment, my)
        \<and> get_by_merkle_root idx rt = Some m \<and> i < length (chunks m) \<and> cd_cid (chunks m ! i) = cid
        \<and> (u32_of i \<in> set my \<longleftrightarrow> mine))"

definition funded_root :: "storage_file_info list \<Rightarrow> hash \<Rightarrow> bool" where
  "funded_root files rt \<longleftrightarrow> (\<exists>f \<in> set files. sync_hex_to_32 (root_hex_of f) = Some rt)"

lemma setcompr_less_Suc:
  "{g i |i. i < Suc n \<and> Q i} = (if Q 0 then {g 0} else {}) \<union> {g (Suc i) |i. i < n \<and> Q (Suc i)}"
proof -
  have "{i. i < Suc n \<and> Q i} = (if Q 0 then {0} else {}) \<union> Suc ` {i. i < n \<and> Q (Suc i)}"
    by (auto simp: less_Suc_eq_0_disj image_iff)
  then have "g ` {i. i < Suc n \<and> Q i} = (if Q 0 then {g 0} else {}) \<union> (g \<circ> Suc) ` {i. i < n \<and> Q (Suc i)}"
    by (simp add: image_Un image_comp)
  then show ?thesis by (simp add: image_Collect)
qed

lemma attribute_manifest_eq:
  "attribute_manifest mine m a = a\<lparr>
     ga_protected := ga_protected a \<union> {cd_cid (chunks m ! i) |i. i < length (chunks m) \<and> u32_of i \<in> set mine},
     ga_unassigned := ga_unassigned a \<union> {cd_cid (chunks m ! i) |i. i < length (chunks m) \<and> u32_of i \<notin> set mine}\<rparr>"
proof -
  have "foldl (\<lambda>a (i, c). if u32_of i \<in> set mine
          then a\<lparr>ga_protected := insert (cd_cid c) (ga_protected a)\<rparr>
          else a\<lparr>ga_unassigned := insert (cd_cid c) (ga_unassigned a)\<rparr>) a (enumerate k cs) = a\<lparr>
     ga_protected := ga_protected a \<union> {cd_cid (cs ! i) |i. i < length cs \<and> u32_of (k + i) \<in> set mine},
     ga_unassigned := ga_unassigned a \<union> {cd_cid (cs ! i) |i. i < length cs \<and> u32_of (k + i) \<notin> set mine}\<rparr>" for cs k
  proof (induction cs arbitrary: a k)
    case (Cons c cs)
    have s: "{cd_cid ((c # cs) ! i) |i. i < length (c # cs) \<and> P (k + i)} =
        (if P k then {cd_cid c} else {}) \<union> {cd_cid (cs ! i) |i. i < length cs \<and> P (Suc k + i)}" for P
      using setcompr_less_Suc [of "\<lambda>i. cd_cid ((c # cs) ! i)" "length cs" "\<lambda>i. P (k + i)"] by simp
    show ?case
      unfolding s [of "\<lambda>i. u32_of i \<in> set mine"] s [of "\<lambda>i. u32_of i \<notin> set mine"] by (simp add: Cons.IH)
  qed simp
  from this [of 0 "chunks m"] show ?thesis by (simp add: attribute_manifest_def)
qed

lemma funded_chunk_Cons:
  "funded_chunk H rf me nodes idx (f # fs) b cid \<longleftrightarrow> funded_chunk H rf me nodes idx [f] b cid \<or> funded_chunk H rf me nodes idx fs b cid"
  by (auto simp: funded_chunk_def)

lemma attribute_files_eq:
  assumes "attribute_files H rf me nodes idx files a = Some a'"
  shows "ga_protected a' = ga_protected a \<union> {cid. funded_chunk H rf me nodes idx files True cid}
    \<and> ga_unassigned a' = ga_unassigned a \<union> {cid. funded_chunk H rf me nodes idx files False cid}
    \<and> ga_funded a' = ga_funded a \<union> {rt. funded_root files rt}"
  using assms
proof (induction files arbitrary: a)
  case Nil
  then show ?case by (simp add: funded_chunk_def funded_root_def)
next
  case (Cons f fs)
  show ?case
  proof (cases "sync_hex_to_32 (root_hex_of f)")
    case None
    then show ?thesis using Cons by (auto simp: funded_chunk_def funded_root_def)
  next
    case (Some rt)
    have r: "{x. funded_root (f # fs) x} = insert rt {x. funded_root fs x}" using Some by (auto simp: funded_root_def)
    have c: "{cid. funded_chunk H rf me nodes idx (f # fs) b cid}
        = {cid. funded_chunk H rf me nodes idx [f] b cid} \<union> {cid. funded_chunk H rf me nodes idx fs b cid}" for b
      using funded_chunk_Cons [of H rf me nodes idx f fs b] by auto
    show ?thesis
    proof (cases "file_chunk_count f = 0 \<or> get_by_merkle_root idx rt = None")
      case True
      then have "{cid. funded_chunk H rf me nodes idx [f] b cid} = {}" for b using Some by (auto simp: funded_chunk_def)
      then show ?thesis
        unfolding r c using Cons.IH [of "a\<lparr>ga_funded := insert rt (ga_funded a)\<rparr>"] Cons.prems Some True
        by (auto simp: Let_def split: if_splits option.splits prod.splits)
    next
      case False
      then obtain m where m: "get_by_merkle_root idx rt = Some m" by blast
      obtain asg my where k: "my_assigned_chunk_indices H rt (file_chunk_count f) nodes rf me = Some (asg, my)"
        using Cons.prems Some False by (auto simp: Let_def split: option.splits)
      have e: "{cid. funded_chunk H rf me nodes idx [f] b cid}
          = {cd_cid (chunks m ! i) |i. i < length (chunks m) \<and> (u32_of i \<in> set my \<longleftrightarrow> b)}" for b
        using Some m k False by (auto simp: funded_chunk_def)
      have rec: "attribute_files H rf me nodes idx fs (attribute_manifest my m (a\<lparr>ga_funded := insert rt (ga_funded a)\<rparr>)) = Some a'"
        using Cons.prems Some False m k by (simp add: Let_def)
      have "ga_protected a' = ga_protected a \<union> {cd_cid (chunks m ! i) |i. i < length (chunks m) \<and> u32_of i \<in> set my}
              \<union> {cid. funded_chunk H rf me nodes idx fs True cid}
          \<and> ga_unassigned a' = ga_unassigned a \<union> {cd_cid (chunks m ! i) |i. i < length (chunks m) \<and> u32_of i \<notin> set my}
              \<union> {cid. funded_chunk H rf me nodes idx fs False cid}
          \<and> ga_funded a' = insert rt (ga_funded a) \<union> {rt. funded_root fs rt}"
        using Cons.IH [OF rec] by (simp add: attribute_manifest_eq)
      then show ?thesis unfolding r c e by auto
    qed
  qed
qed

lemma candidates_cases:
  assumes "compute_gc_candidates H rf me files nodes idx roots = Some C"
  shows "C = (if gc_protection_intact idx then
      {cid. funded_chunk H rf me nodes idx files False cid \<and> \<not> funded_chunk H rf me nodes idx files True cid
          \<and> cid \<notin> set (other_manifest_cids idx {rt. funded_root files rt} roots)
          \<and> \<not> is_private_chunk_cid idx cid \<and> \<not> is_gc_protected idx cid} else {})"
proof (cases "gc_protection_intact idx")
  case False
  then show ?thesis using assms by (simp add: compute_gc_candidates_def)
next
  case True
  then obtain a where a: "attribute_files H rf me nodes idx files \<lparr>ga_funded = {}, ga_protected = {}, ga_unassigned = {}\<rparr> = Some a"
    using assms by (auto simp: compute_gc_candidates_def)
  then show ?thesis
    using attribute_files_eq [OF a] assms True by (auto simp: compute_gc_candidates_def Let_def)
qed

text \<open>
  Garbage collection is by positive attribution, exactly: with an intact protected list, a chunk is
  a candidate if and only if some funded V1 file with an indexed manifest names it at an index that is
  not this archive's, no funded file names it at an index that is, no indexed manifest outside the
  funded set names it, and it is neither a Private chunk nor exempt. Without an intact list nothing
  is a candidate.
\<close>

theorem gc_candidates_exact:
  assumes "compute_gc_candidates H rf me files nodes idx roots = Some C" and "set roots = dom (mi_by_root idx)"
  shows "if gc_protection_intact idx then
           (\<forall>cid. cid \<in> C \<longleftrightarrow>
              funded_chunk H rf me nodes idx files False cid \<and> \<not> funded_chunk H rf me nodes idx files True cid
            \<and> (\<forall>rt m. get_by_merkle_root idx rt = Some m \<longrightarrow> cid \<in> cd_cid ` set (chunks m) \<longrightarrow> funded_root files rt)
            \<and> mi_private_cid_to_root idx cid = None \<and> cid \<notin> mi_gc_protected idx)
         else C = {}"
proof -
  have named: "cid \<in> set (case get_by_merkle_root idx rt of None \<Rightarrow> [] | Some m \<Rightarrow> map cd_cid (chunks m)) \<longleftrightarrow>
      (\<exists>m. get_by_merkle_root idx rt = Some m \<and> cid \<in> cd_cid ` set (chunks m))" for cid rt
    by (cases "get_by_merkle_root idx rt") auto
  have all: "rt \<in> set roots" if "get_by_merkle_root idx rt = Some m" for rt m
    using that assms(2) by (auto simp: get_by_merkle_root_def)
  have "cid \<in> set (other_manifest_cids idx F roots) \<longleftrightarrow> (\<exists>rt \<in> set roots. rt \<notin> F
      \<and> cid \<in> set (case get_by_merkle_root idx rt of None \<Rightarrow> [] | Some m \<Rightarrow> map cd_cid (chunks m)))" for cid F
    unfolding other_manifest_cids_def by (simp add: if_distrib [of set] cong: if_cong) blast
  then have "cid \<in> set (other_manifest_cids idx F roots) \<longleftrightarrow>
      (\<exists>rt m. get_by_merkle_root idx rt = Some m \<and> cid \<in> cd_cid ` set (chunks m) \<and> rt \<notin> F)" for cid F
    unfolding named by (auto dest: all)
  then show ?thesis
    using candidates_cases [OF assms(1)] by (simp add: is_private_chunk_cid_def is_gc_protected_def) blast
qed

section \<open>Fetching and collecting agree\<close>

lemma find_map_Some: "find_map f xs = Some y \<Longrightarrow> \<exists>x \<in> set xs. f x = Some y"
  by (auto simp: find_map_def find_Some_iff split: option.splits)

lemma chunks_for_node_mem:
  assumes "length asg \<le> 2 ^ 32" and "i \<in> set (chunks_for_node asg a)"
  shows "unat i < length asg \<and> a \<in> set (asg ! unat i)"
proof -
  obtain j where j: "j < length asg" "a \<in> set (asg ! j)" "i = u32_of j"
    using assms(2) by (auto simp: chunks_for_node_def in_set_enumerate_eq)
  then have "unat i = j" using assms(1) by (simp add: unat_u32_of)
  then show ?thesis using j by simp
qed

lemma plan_targets:
  assumes "plan_file H rf me nodes peers env s idx m file = Some (Inr (Fetch ts))" and "t \<in> set ts"
  shows "\<exists>rt asg my mf. sync_hex_to_32 (root_hex_of file) = Some rt \<and> file_chunk_count file \<noteq> 0
    \<and> my_assigned_chunk_indices H rt (file_chunk_count file) nodes rf me = Some (asg, my)
    \<and> get_by_merkle_root idx rt = Some mf \<and> ft_chunk_index t \<in> set my
    \<and> t \<in> set (fetch_target_for env s m me peers mf asg (ft_chunk_index t))"
proof -
  obtain rt asg my mf i where p: "sync_hex_to_32 (root_hex_of file) = Some rt" "file_chunk_count file \<noteq> 0"
      "my_assigned_chunk_indices H rt (file_chunk_count file) nodes rf me = Some (asg, my)"
      "get_by_merkle_root idx rt = Some mf" "i \<in> set my" "t \<in> set (fetch_target_for env s m me peers mf asg i)"
    using assms by (auto simp: plan_file_def Let_def split: option.splits if_splits prod.splits)
  moreover have "ft_chunk_index t = i"
    using p(6) by (auto simp: fetch_target_for_def Let_def split: if_splits option.splits)
  ultimately show ?thesis by auto
qed

lemma target_facts:
  assumes "t \<in> set (fetch_target_for env s m me peers mf asg i)"
  shows "unat i < length (chunks mf) \<and> ft_cid t = cd_cid (chunks mf ! unat i) \<and> ft_expected_size t = cd_size (chunks mf ! unat i)
    \<and> \<not> has env s (ft_cid t) \<and> \<not> is_active m (ft_cid t)
    \<and> (\<exists>h \<in> set (asg ! unat i). h \<noteq> me \<and> peers h = Some (ft_peer_id t)) \<and> unat i < length asg"
proof -
  obtain holders peer where h: "nodes_for_chunk asg i = Some holders" "find_map peers (filter (\<lambda>h. h \<noteq> me) holders) = Some peer"
      "unat i < length (chunks mf)" "\<not> has env s (cd_cid (chunks mf ! unat i))" "\<not> is_active m (cd_cid (chunks mf ! unat i))"
      "t = \<lparr>ft_chunk_index = i, ft_cid = cd_cid (chunks mf ! unat i), ft_expected_size = cd_size (chunks mf ! unat i), ft_peer_id = peer\<rparr>"
    using assms
    by (auto simp: fetch_target_for_def Let_def split: if_splits option.splits dest: sym [where s = "Some x" for x])
  have "holders = asg ! unat i" "unat i < length asg" using h(1) by (auto simp: nodes_for_chunk_def split: if_splits)
  then show ?thesis using h find_map_Some [OF h(2)] by auto
qed

text \<open>
  Fetching and collecting never work against each other. A chunk the plan for a funded file fetches
  is one the assignment gives to this archive, is missing from the store and not in flight, is asked
  with its manifest size from another archive assigned the same chunk, and is no candidate for
  collection in the same cycle.
\<close>

theorem fetch_targets_never_collected:
  assumes "plan_file H rf me nodes peers env s idx m file = Some (Inr (Fetch ts))" and "t \<in> set ts"
    and "file \<in> set files" and "compute_gc_candidates H rf me files nodes idx roots = Some C"
    and "distinct nodes" and "file_chunk_count file \<le> 2 ^ 32"
  shows "ft_cid t \<notin> C \<and> \<not> has env s (ft_cid t) \<and> \<not> is_active m (ft_cid t)
       \<and> (\<exists>rt asg mf. sync_hex_to_32 (root_hex_of file) = Some rt \<and> get_by_merkle_root idx rt = Some mf
            \<and> compute_chunk_assignment H rt (file_chunk_count file) nodes rf = Some asg
            \<and> me \<in> set (asg ! unat (ft_chunk_index t))
            \<and> (\<exists>h \<in> set (asg ! unat (ft_chunk_index t)). h \<noteq> me \<and> peers h = Some (ft_peer_id t))
            \<and> ft_cid t = cd_cid (chunks mf ! unat (ft_chunk_index t))
            \<and> ft_expected_size t = cd_size (chunks mf ! unat (ft_chunk_index t)))"
proof -
  let ?i = "ft_chunk_index t"
  obtain rt asg my mf where p: "sync_hex_to_32 (root_hex_of file) = Some rt" "file_chunk_count file \<noteq> 0"
      "my_assigned_chunk_indices H rt (file_chunk_count file) nodes rf me = Some (asg, my)"
      "get_by_merkle_root idx rt = Some mf" "?i \<in> set my" "t \<in> set (fetch_target_for env s m me peers mf asg ?i)"
    using plan_targets [OF assms(1,2)] by blast
  note f = target_facts [OF p(6)]
  have a: "compute_chunk_assignment H rt (file_chunk_count file) nodes rf = Some asg" "my = chunks_for_node asg me"
    using p(3) by (auto simp: my_assigned_chunk_indices_def)
  have "length asg = file_chunk_count file"
    using a(1) compute_chunk_assignment_rows [OF assms(5), of H rt "file_chunk_count file" rf] by auto
  then have me: "me \<in> set (asg ! unat ?i)" using chunks_for_node_mem [of asg ?i me] p(5) a(2) assms(6) by simp
  have "funded_chunk H rf me nodes idx files True (ft_cid t)"
    unfolding funded_chunk_def using p f assms(3)
    by (intro bexI [OF _ assms(3)] exI [of _ rt] exI [of _ asg] exI [of _ my] exI [of _ mf] exI [of _ "unat ?i"]) auto
  then have "ft_cid t \<notin> C" using candidates_cases [OF assms(4)] by (auto split: if_splits)
  then show ?thesis using f p a me by blast
qed

section \<open>Whole cycles\<close>

lemma kernel_total: "distinct nodes \<Longrightarrow> \<exists>asg. my_assigned_chunk_indices H rt n nodes rf me = Some (asg, chunks_for_node asg me)"
  using compute_chunk_assignment_rows [of nodes H rt n rf] by (auto simp: my_assigned_chunk_indices_def)

lemma sync_files_total: "distinct nodes \<Longrightarrow> \<exists>m'. sync_files H rf me nodes peers env net s idx m files = Some m'"
proof (induction files arbitrary: m)
  case (Cons f fs)
  have "plan_file H rf me nodes peers env s idx m f \<noteq> None"
  proof (cases "sync_hex_to_32 (root_hex_of f)")
    case (Some rt)
    obtain asg where "my_assigned_chunk_indices H rt (file_chunk_count f) nodes rf me = Some (asg, chunks_for_node asg me)"
      using kernel_total [OF Cons.prems] by blast
    then show ?thesis using Some by (auto simp: plan_file_def Let_def split: option.split)
  qed (simp add: plan_file_def)
  then show ?case using Cons by auto
qed simp

lemma attribute_files_total: "distinct nodes \<Longrightarrow> \<exists>a'. attribute_files H rf me nodes idx files a = Some a'"
proof (induction files arbitrary: a)
  case (Cons f fs)
  show ?case
  proof (cases "sync_hex_to_32 (root_hex_of f)")
    case None
    then show ?thesis using Cons by simp
  next
    case (Some rt)
    obtain asg where "my_assigned_chunk_indices H rt (file_chunk_count f) nodes rf me = Some (asg, chunks_for_node asg me)"
      using kernel_total [OF Cons.prems] by blast
    then show ?thesis using Some Cons by (simp add: Let_def split: option.split)
  qed
qed simp

lemma candidates_total: "distinct nodes \<Longrightarrow> \<exists>C. compute_gc_candidates H rf me files nodes idx roots = Some C"
  using attribute_files_total [of nodes H rf me idx files "\<lparr>ga_funded = {}, ga_protected = {}, ga_unassigned = {}\<rparr>"]
  by (auto simp: compute_gc_candidates_def)

lemma sync_cycle_store:
  assumes "sync_cycle L env w s idx m = Some (r, w', s', m')" and "quiet (se_sweep env)"
  shows "s' = s \<or> (\<exists>files nodes C r1.
             compute_gc_candidates (blake3 L) (mw_replication_factor w) (mw_l1_address w) files nodes idx (se_roots env) = Some C
           \<and> sweep_candidates (mw_gc w) s C (se_poll env) (se_sweep env) = (r1, mw_gc w', s'))"
  using assms(1)
  by (fastforce simp: sync_cycle_def Let_def split: sum.splits if_splits option.splits prod.splits)

lemma sync_cycle_keeps:
  assumes "sync_cycle L env w s idx m = Some (r, w', s', m')" and "quiet (se_sweep env)"
  shows "store_inv L s \<Longrightarrow> store_inv L s'"
    and "lookup s' k \<noteq> lookup s k \<Longrightarrow> lookup s' k = None \<and> gc_protection_intact idx \<and> \<not> is_gc_protected idx k
           \<and> \<not> is_private_chunk_cid idx k
           \<and> (\<exists>t. grace_period (mw_gc w) \<le> sw_now (se_sweep env) - t
                \<and> (unassigned_since (mw_gc w) k = Some t \<or> unassigned_since (mw_gc w) k = None \<and> t = sw_now (se_sweep env)))"
proof -
  have "(store_inv L s \<longrightarrow> store_inv L s') \<and> (lookup s' k \<noteq> lookup s k \<longrightarrow> lookup s' k = None \<and> gc_protection_intact idx
      \<and> \<not> is_gc_protected idx k \<and> \<not> is_private_chunk_cid idx k
      \<and> (\<exists>t. grace_period (mw_gc w) \<le> sw_now (se_sweep env) - t
           \<and> (unassigned_since (mw_gc w) k = Some t \<or> unassigned_since (mw_gc w) k = None \<and> t = sw_now (se_sweep env))))"
    for k
  proof (cases "s' = s")
    case False
    then obtain files nodes C r1 where
        c: "compute_gc_candidates (blake3 L) (mw_replication_factor w) (mw_l1_address w) files nodes idx (se_roots env) = Some C"
      and sw: "sweep_candidates (mw_gc w) s C (se_poll env) (se_sweep env) = (r1, mw_gc w', s')"
      using sync_cycle_store [OF assms] by blast
    note p = sweep_where_props [OF sw [unfolded sweep_candidates_def] assms(2)]
    show ?thesis
      using p(2) [of k] p(5) [of L] candidates_cases [OF c] by (auto split: if_splits)
  qed simp
  then show "store_inv L s \<Longrightarrow> store_inv L s'"
    and "lookup s' k \<noteq> lookup s k \<Longrightarrow> lookup s' k = None \<and> gc_protection_intact idx \<and> \<not> is_gc_protected idx k
           \<and> \<not> is_private_chunk_cid idx k
           \<and> (\<exists>t. grace_period (mw_gc w) \<le> sw_now (se_sweep env) - t
                \<and> (unassigned_since (mw_gc w) k = Some t \<or> unassigned_since (mw_gc w) k = None \<and> t = sw_now (se_sweep env)))"
    by blast+
qed

text \<open>
  C38. A sync cycle ends, whatever the chain and the disk answer, when the eligible archives' addresses
  are distinct; it keeps the store's invariant; and the only chunks it removes are ones the index does
  not exempt and does not know as Private, seen unassigned for a whole grace period, with an intact
  protected list.
\<close>

theorem sync_cycle_ends_and_is_safe:
  assumes "\<forall>records. active_nodes_at_finalized_head env = Inr records
      \<longrightarrow> distinct (decoded_addrs L env (filter_active_archives records))"
    and "quiet (se_sweep env)" and "store_inv L s"
  shows "\<exists>r w' s' m'. sync_cycle L env w s idx m = Some (r, w', s', m') \<and> store_inv L s'
       \<and> (\<forall>k. lookup s' k \<noteq> lookup s k \<longrightarrow> lookup s' k = None \<and> gc_protection_intact idx \<and> \<not> is_gc_protected idx k
            \<and> \<not> is_private_chunk_cid idx k
            \<and> (\<exists>t. grace_period (mw_gc w) \<le> sw_now (se_sweep env) - t
                 \<and> (unassigned_since (mw_gc w) k = Some t \<or> unassigned_since (mw_gc w) k = None \<and> t = sw_now (se_sweep env))))"
proof -
  have "sync_cycle L env w s idx m \<noteq> None"
    using assms(1) sync_files_total candidates_total
    by (auto simp: sync_cycle_def Let_def split: sum.splits option.splits prod.splits) (metis option.distinct(1))+
  then obtain r w' s' m' where c: "sync_cycle L env w s idx m = Some (r, w', s', m')" by (metis not_Some_eq prod_cases4)
  from sync_cycle_keeps [OF c assms(2)] c assms(3) show ?thesis by blast
qed

section \<open>Instances\<close>

definition demo_v1_file :: storage_file_info where
  "demo_v1_file = \<lparr>sf_merkle_root = hex_encode demo_root, sf_owner = [], sf_total_size_bytes = 1, sf_access_list = [],
     sf_fee_pool = 0, sf_created_at = 0\<rparr>"

definition demo_synced :: manifest_index where
  "demo_synced = demo_trusted\<lparr>mi_by_root := [demo_root \<mapsto> demo_manifest]\<rparr>"

lemma demo_v1_root: "sync_hex_to_32 (root_hex_of demo_v1_file) = Some demo_root" "file_chunk_count demo_v1_file = 1"
proof -
  have "strip_prefix ''0x'' (hex_encode demo_root) = None"
  proof -
    have "CHR ''x'' \<notin> set (take 2 (hex_encode demo_root))"
      using hex_encode_avoids [of "CHR ''x''" demo_root] by (auto dest: in_set_takeD)
    then have "take 2 (hex_encode demo_root) \<noteq> ''0x''" by auto
    then show ?thesis by (simp add: strip_prefix_def numeral_2_eq_2)
  qed
  moreover have "length (hex_encode demo_root) = 64" by (simp add: demo_root_def)
  ultimately show "sync_hex_to_32 (root_hex_of demo_v1_file) = Some demo_root"
    by (simp add: demo_v1_file_def root_hex_of_def sync_hex_to_32_def)
qed (simp add: demo_v1_file_def file_chunk_count_def div_ceil_def CHUNK_SIZE_def)

text \<open>Two archives, one replica: the one-chunk file is on one of them.\<close>

lemma demo_kernel: "\<exists>asg. my_assigned_chunk_indices (blake3 demo_lib) demo_root 1 demo_nodes 1 me = Some (asg, chunks_for_node asg me)"
  using kernel_total [OF demo_nodes_simps(1)] by blast

theorem gc_candidates_exact_witness:
  "\<exists>C. compute_gc_candidates (blake3 demo_lib) 1 (replicate 20 1) [demo_v1_file] demo_nodes demo_synced [demo_root] = Some C
     \<and> (''abc'' \<in> C \<longrightarrow> \<not> funded_chunk (blake3 demo_lib) 1 (replicate 20 1) demo_nodes demo_synced [demo_v1_file] True ''abc'')"
proof -
  obtain C where c: "compute_gc_candidates (blake3 demo_lib) 1 (replicate 20 1) [demo_v1_file] demo_nodes demo_synced [demo_root] = Some C"
    using candidates_total [OF demo_nodes_simps(1)] by blast
  have "set [demo_root] = dom (mi_by_root demo_synced)" by (simp add: demo_synced_def)
  from gc_candidates_exact [OF c this] c show ?thesis
    by (auto simp: demo_synced_def demo_trusted_def gc_protection_intact_def)
qed

text \<open>Two replicas: both archives hold the chunk, and the first asks the second for it.\<close>

lemma demo_both_hold:
  assumes "compute_chunk_assignment (blake3 demo_lib) demo_root 1 demo_nodes 2 = Some asg"
  shows "\<exists>ns. asg = [ns] \<and> set ns = set demo_nodes"
proof -
  have a: "length asg = 1" "\<forall>ns \<in> set asg. distinct ns \<and> set ns \<subseteq> set demo_nodes \<and> length ns = 2"
    using compute_chunk_assignment_rows [OF demo_nodes_simps(1), of "blake3 demo_lib" demo_root 1 2] assms by auto
  then obtain ns where ns: "asg = [ns]" by (cases asg) auto
  then have "set ns \<subseteq> set demo_nodes" "card (set ns) = card (set demo_nodes)" using a by (auto simp: distinct_card)
  then have "set ns = set demo_nodes" by (metis card_subset_eq List.finite_set)
  then show ?thesis using ns by blast
qed

theorem fetch_targets_never_collected_witness:
  "\<exists>ts t C. plan_file (blake3 demo_lib) 2 (replicate 20 1) demo_nodes (\<lambda>_. Some ''p'') io_fine empty_chunk_store demo_synced
        (fetch_new 1024) demo_v1_file = Some (Inr (Fetch ts)) \<and> t \<in> set ts
     \<and> compute_gc_candidates (blake3 demo_lib) 2 (replicate 20 1) [demo_v1_file] demo_nodes demo_synced [demo_root] = Some C
     \<and> ft_cid t \<notin> C"
proof -
  obtain asg where k: "my_assigned_chunk_indices (blake3 demo_lib) demo_root 1 demo_nodes 2 (replicate 20 1)
      = Some (asg, chunks_for_node asg (replicate 20 1))"
    using kernel_total [OF demo_nodes_simps(1)] by blast
  then obtain ns where ns: "asg = [ns]" "set ns = {replicate 20 1, replicate 20 2}"
    using demo_both_hold [of asg] by (auto simp: my_assigned_chunk_indices_def)
  have "replicate 20 2 \<in> set (filter (\<lambda>h. h \<noteq> replicate 20 1) ns)" using ns(2) by simp
  then have "filter (\<lambda>h. h \<noteq> replicate 20 1) ns \<noteq> []" by force
  then have p: "find_map (\<lambda>_. Some ''p'') (filter (\<lambda>h. h \<noteq> replicate 20 1) ns) = Some ''p''"
    by (cases "filter (\<lambda>h. h \<noteq> replicate 20 1) ns") (simp_all add: find_map_def)
  have g: "get_by_merkle_root demo_synced demo_root = Some demo_manifest" by (simp add: demo_synced_def get_by_merkle_root_def)
  have h: "\<not> has io_fine empty_chunk_store c" for c
    by (auto simp: has_def open_key_def empty_chunk_store_def split: sum.splits option.splits)
  have ch: "chunks_for_node asg (replicate 20 1) = [0]" using ns by (simp add: chunks_for_node_def u32_of_def)
  have nf: "nodes_for_chunk asg 0 = Some ns" using ns by (simp add: nodes_for_chunk_def)
  have len: "0 < length (chunks demo_manifest)" by (simp add: demo_manifest_def)
  let ?c = "chunks demo_manifest ! 0"
  let ?t = "\<lparr>ft_chunk_index = 0, ft_cid = cd_cid ?c, ft_expected_size = cd_size ?c, ft_peer_id = ''p''\<rparr>"
  have "fetch_target_for io_fine empty_chunk_store (fetch_new 1024) (replicate 20 1) (\<lambda>_. Some ''p'') demo_manifest asg 0 = [?t]"
    using nf p h len by (simp add: fetch_target_for_def is_active_def fetch_new_def Let_def)
  then have pl: "plan_file (blake3 demo_lib) 2 (replicate 20 1) demo_nodes (\<lambda>_. Some ''p'') io_fine empty_chunk_store demo_synced
        (fetch_new 1024) demo_v1_file = Some (Inr (Fetch [?t]))"
    using demo_v1_root k g ch by (simp add: plan_file_def Let_def)
  obtain C where c: "compute_gc_candidates (blake3 demo_lib) 2 (replicate 20 1) [demo_v1_file] demo_nodes demo_synced [demo_root] = Some C"
    using candidates_total [OF demo_nodes_simps(1)] by blast
  have "ft_cid ?t \<notin> C"
    using fetch_targets_never_collected [OF pl, of ?t "[demo_v1_file]" "[demo_root]" C] c demo_v1_root(2) by simp
  then show ?thesis using pl c by (intro exI [of _ "[?t]"] exI [of _ ?t] exI [of _ C]) simp
qed

definition demo_sync_env :: sync_env where
  "demo_sync_env = \<lparr>se_funded_files = Inr [demo_v1_file], se_block_height = Inr 9, se_nodes_at = (\<lambda>_. Inr []),
     se_bs58_decode = (\<lambda>_. Inr []), se_addr_to_peer = (\<lambda>_. None), se_has = io_fine, se_net = (\<lambda>_. Inr ()), se_poll = 0,
     se_sweep = demo_env 1, se_roots = [demo_root]\<rparr>"

theorem sync_cycle_ends_and_is_safe_witness:
  "\<exists>r w' s' m'. sync_cycle demo_lib demo_sync_env \<lparr>mw_l1_address = replicate 20 1, mw_replication_factor = 3, mw_gc = gc_new 5,
       mw_last_l1_poll = 0, mw_poll_interval_secs = 30, mw_consecutive_failures = 0\<rparr> empty_chunk_store demo_synced (fetch_new 1024)
     = Some (r, w', s', m') \<and> store_inv demo_lib s'"
proof -
  have "\<forall>records. active_nodes_at_finalized_head demo_sync_env = Inr records
      \<longrightarrow> distinct (decoded_addrs demo_lib demo_sync_env (filter_active_archives records))"
    by (simp add: active_nodes_at_finalized_head_def demo_sync_env_def filter_active_archives_def decoded_addrs_def)
  moreover have "quiet (se_sweep demo_sync_env)" using quiet_demo by (simp add: demo_sync_env_def)
  ultimately show ?thesis using sync_cycle_ends_and_is_safe [OF _ _ store_inv_empty] by blast
qed

end
