(* ===== verification/Epoch_Watcher.thy ===== *)
theory Epoch_Watcher
  imports Attestor
begin

text \<open>
  The assignment-epoch watcher (\<open>sum-node/src/epoch_watcher.rs\<close>): it polls the chain for every file with
  held chunks and attests again when the file's latest assignment epoch changes. A visit to a root has
  its own chain answers for the watcher's reads, for the attestation run it may start, and the held set
  at that moment; \<open>None\<close> is a run that never returns.
\<close>

section \<open>State\<close>

definition MAX_ATTEMPTS_PER_EPOCH :: u32 where "MAX_ATTEMPTS_PER_EPOCH = 3"

record epoch_state =
  ep_epoch :: u64
  ep_done :: bool
  ep_attempts :: u32

record epoch_watcher =
  ew_attestor :: attestor
  ew_my_addr :: addr20
  ew_my_addr_base58 :: string
  ew_params :: v2_params
  ew_attest_poll_interval :: nat
  ew_attest_batch_timeout :: nat
  ew_state :: "hash \<Rightarrow> epoch_state option"
  ew_not_v2 :: "hash set"

record tick_report =
  tk_checked :: nat
  tk_attested :: "(hash \<times> u64) list"
  tk_retry :: "hash list"

record visit =
  vs_root :: hash
  vs_held :: "u32 set"
  vs_rpc :: trigger_rpc
  vs_run_rpc :: trigger_rpc
  vs_submit :: submit_env

section \<open>One root\<close>

definition attested_in_epoch :: "epoch_watcher \<Rightarrow> assignment_coverage_v2 \<Rightarrow> u64 \<Rightarrow> u32" where
  "attested_in_epoch w coverage epoch =
     (case find (\<lambda>e. ep_epoch_height e = epoch) (ac_per_epoch coverage) of
        None \<Rightarrow> 0
      | Some e \<Rightarrow>
         (case find (\<lambda>a. as_archive a = ew_my_addr_base58 w) (ep_per_archive e) of
            None \<Rightarrow> 0
          | Some a \<Rightarrow> as_attested_count a))"

definition wanted_chunks :: "wire_lib \<Rightarrow> epoch_watcher \<Rightarrow> hash \<Rightarrow> file_shape \<Rightarrow> addr20 list \<Rightarrow> u32 set \<Rightarrow> u32 list" where
  "wanted_chunks W w rt shape snapshot held =
     filter (\<lambda>i. i \<in> held)
       (chunks_for_archive_v2 W rt (fs_chunk_count shape) snapshot (v2p_assignment_replication_factor (ew_params w)) (ew_my_addr w))"

definition already_attested ::
    "digest_lib \<Rightarrow> wire_lib \<Rightarrow> trigger_rpc \<Rightarrow> epoch_watcher \<Rightarrow> hash \<Rightarrow> assignment_coverage_v2 \<Rightarrow> file_shape \<Rightarrow> u64 \<Rightarrow> u32 set
       \<Rightarrow> string + bool" where
  "already_attested L W rpc w rt coverage shape epoch held =
     (case trigger_snapshot L rpc epoch of
        Inl e \<Rightarrow> Inl e
      | Inr snapshot \<Rightarrow>
         (let wanted = length (wanted_chunks W w rt shape snapshot held) in
          Inr (wanted = 0 \<or> unat (attested_in_epoch w coverage epoch) \<ge> wanted)))"

text \<open>The state the visit works on: the one kept for this epoch, or a fresh one; nothing if it is handled.\<close>

definition epoch_entry :: "epoch_watcher \<Rightarrow> hash \<Rightarrow> u64 \<Rightarrow> epoch_state option" where
  "epoch_entry w rt epoch =
     (case ew_state w rt of
        Some st \<Rightarrow>
          if ep_epoch st = epoch \<and> ep_done st then None
          else if ep_epoch st = epoch then Some st
          else Some \<lparr>ep_epoch = epoch, ep_done = False, ep_attempts = 0\<rparr>
      | None \<Rightarrow> Some \<lparr>ep_epoch = epoch, ep_done = False, ep_attempts = 0\<rparr>)"

definition put_state :: "hash \<Rightarrow> epoch_state \<Rightarrow> epoch_watcher \<Rightarrow> epoch_watcher" where
  "put_state rt st w = w\<lparr>ew_state := (ew_state w)(rt \<mapsto> st)\<rparr>"

text \<open>The epoch of a started run, and the texts it sent.\<close>

type_synonym started = "(hash \<times> u64 \<times> string list) list"

definition attest_epoch ::
    "digest_lib \<Rightarrow> wire_lib \<Rightarrow> epoch_watcher \<Rightarrow> visit \<Rightarrow> epoch_state \<Rightarrow> tick_report \<Rightarrow> (epoch_watcher \<times> tick_report \<times> started) option" where
  "attest_epoch L W w v st0 report =
     (let rt = vs_root v; st = st0\<lparr>ep_attempts := ep_attempts st0 + 1\<rparr> in
      case run_attestation L W (ew_attestor w) (vs_run_rpc v) (vs_submit v) rt (vs_held v) (ew_my_addr_base58 w)
             (ew_attest_poll_interval w) (ew_attest_batch_timeout w) of
        None \<Rightarrow> None
      | Some summary \<Rightarrow>
          (let sent = (case summary of None \<Rightarrow> [] | Some (s, sent) \<Rightarrow> sent) in
           if (case summary of None \<Rightarrow> False | Some (s, _) \<Rightarrow> fully_attested s) then
             Some (put_state rt (st\<lparr>ep_done := True\<rparr>) w,
                   report\<lparr>tk_attested := tk_attested report @ [(rt, ep_epoch st)]\<rparr>, [(rt, ep_epoch st, sent)])
           else
             Some (put_state rt st w, report\<lparr>tk_retry := tk_retry report @ [rt]\<rparr>, [(rt, ep_epoch st, sent)])))"

definition check_root ::
    "digest_lib \<Rightarrow> wire_lib \<Rightarrow> epoch_watcher \<Rightarrow> visit \<Rightarrow> tick_report
       \<Rightarrow> ((string + unit) \<times> epoch_watcher \<times> tick_report \<times> started) option" where
  "check_root L W w v report =
     (let rt = vs_root v; rpc = vs_rpc v in
      case fetch_coverage rpc rt of
        Inl e \<Rightarrow> Some (Inl e, w, report, [])
      | Inr None \<Rightarrow> Some (Inr (), w\<lparr>ew_not_v2 := insert rt (ew_not_v2 w)\<rparr>, report, [])
      | Inr (Some coverage) \<Rightarrow>
         (let report1 = report\<lparr>tk_checked := tk_checked report + 1\<rparr> in
          if resolved_latest_epoch coverage = None then Some (Inr (), w, report1, [])
          else
            (case fetch_file_shape rpc rt of
               Inl e \<Rightarrow> Some (Inl e, w, report1, [])
             | Inr shape \<Rightarrow>
                if is_abandoned (fs_lifecycle shape) then Some (Inr (), w, report1, [])
                else
                  (case epoch_from_coverage coverage (fs_assignment_height shape) of
                     Inl e \<Rightarrow> Some (Inl e, w, report1, [])
                   | Inr epoch \<Rightarrow>
                      (case epoch_entry w rt epoch of
                         None \<Rightarrow> Some (Inr (), w, report1, [])
                       | Some st \<Rightarrow>
                          if ep_attempts st \<ge> MAX_ATTEMPTS_PER_EPOCH then Some (Inr (), w, report1, [])
                          else
                            (let skip = (if vs_held v = {} then Inr True
                                         else if ew_state w rt = None
                                         then already_attested L W rpc w rt coverage shape epoch (vs_held v)
                                         else Inr False) in
                             case skip of
                               Inl e \<Rightarrow> Some (Inl e, w, report1, [])
                             | Inr True \<Rightarrow> Some (Inr (), put_state rt (st\<lparr>ep_done := True\<rparr>) w, report1, [])
                             | Inr False \<Rightarrow> map_option (\<lambda>r. (Inr (), r)) (attest_epoch L W w v st report1)))))))"

fun tick_from ::
    "digest_lib \<Rightarrow> wire_lib \<Rightarrow> epoch_watcher \<Rightarrow> visit list \<Rightarrow> tick_report \<Rightarrow> (epoch_watcher \<times> tick_report \<times> started) option" where
  "tick_from L W w [] report = Some (w, report, [])"
| "tick_from L W w (v # vs) report =
     (if vs_root v \<in> ew_not_v2 w then tick_from L W w vs report
      else
        (case check_root L W w v report of
           None \<Rightarrow> None
         | Some (r, w1, report1, started1) \<Rightarrow>
            (let report2 = (case r of Inr _ \<Rightarrow> report1 | Inl e \<Rightarrow> report1\<lparr>tk_retry := tk_retry report1 @ [vs_root v]\<rparr>) in
             map_option (\<lambda>(w2, report3, started2). (w2, report3, started1 @ started2)) (tick_from L W w1 vs report2))))"

definition tick :: "digest_lib \<Rightarrow> wire_lib \<Rightarrow> epoch_watcher \<Rightarrow> visit list \<Rightarrow> (epoch_watcher \<times> tick_report \<times> started) option" where
  "tick L W w vs = tick_from L W w vs \<lparr>tk_checked = 0, tk_attested = [], tk_retry = []\<rparr>"

section \<open>Attempts are bounded\<close>

definition attempts_in :: "epoch_watcher \<Rightarrow> hash \<Rightarrow> u64 \<Rightarrow> nat" where
  "attempts_in w rt e = (case ew_state w rt of None \<Rightarrow> 0 | Some st \<Rightarrow> if ep_epoch st = e then unat (ep_attempts st) else 0)"

definition settled :: "epoch_watcher \<Rightarrow> hash \<Rightarrow> u64 \<Rightarrow> bool" where
  "settled w rt e \<longleftrightarrow> (\<exists>st. ew_state w rt = Some st \<and> ep_epoch st = e \<and> ep_done st)"

text \<open>Whenever the visit gets as far as reading the file's latest epoch, it is \<open>e\<close>.\<close>

definition reads_epoch :: "visit \<Rightarrow> u64 \<Rightarrow> bool" where
  "reads_epoch v e \<longleftrightarrow> (\<forall>coverage shape epoch. fetch_coverage (vs_rpc v) (vs_root v) = Inr (Some coverage)
     \<longrightarrow> fetch_file_shape (vs_rpc v) (vs_root v) = Inr shape
     \<longrightarrow> epoch_from_coverage coverage (fs_assignment_height shape) = Inr epoch \<longrightarrow> epoch = e)"

definition runs_for :: "hash \<Rightarrow> started \<Rightarrow> nat" where
  "runs_for rt started = length (filter (\<lambda>(r, _). r = rt) started)"

lemma runs_for_simps [simp]:
  "runs_for rt [] = 0" "runs_for rt (xs @ ys) = runs_for rt xs + runs_for rt ys"
  "runs_for rt ((r, x) # xs) = (if r = rt then 1 else 0) + runs_for rt xs"
  by (simp_all add: runs_for_def)

lemma put_state_simps [simp]:
  "ew_state (put_state rt st w) = (ew_state w)(rt \<mapsto> st)" "ew_not_v2 (put_state rt st w) = ew_not_v2 w"
  by (simp_all add: put_state_def)

lemma attest_epoch_effect:
  assumes "attest_epoch L W w v st rep = Some (w', rep', started)"
  shows "\<exists>sent fin. started = [(vs_root v, ep_epoch st, sent)]
      \<and> w' = put_state (vs_root v) (st\<lparr>ep_attempts := ep_attempts st + 1, ep_done := fin\<rparr>) w
      \<and> (fin = ep_done st \<or> fin)"
  using assms
  by (auto simp: attest_epoch_def Let_def put_state_def split: option.splits if_splits) (rule exI [of _ "ep_done st"], simp)+

text \<open>What a visit can do to the watcher.\<close>

lemma check_root_effect:
  assumes "check_root L W w v rep = Some (r, w', rep', started)"
  obtains (idle) "ew_state w' = ew_state w" "started = []"
  | (handled) st e where "epoch_entry w (vs_root v) e = Some st" "started = []" "\<forall>x. reads_epoch v x \<longrightarrow> x = e"
      "ew_state w' = (ew_state w)(vs_root v \<mapsto> st\<lparr>ep_done := True\<rparr>)"
  | (ran) st e fin sent where "epoch_entry w (vs_root v) e = Some st" "ep_attempts st < MAX_ATTEMPTS_PER_EPOCH"
      "started = [(vs_root v, e, sent)]" "\<forall>x. reads_epoch v x \<longrightarrow> x = e"
      "ew_state w' = (ew_state w)(vs_root v \<mapsto> st\<lparr>ep_attempts := ep_attempts st + 1, ep_done := fin\<rparr>)"
proof -
  let ?rt = "vs_root v"
  show thesis
  proof (cases "fetch_coverage (vs_rpc v) ?rt")
    case (Inl e)
    then show ?thesis using assms by (intro idle) (auto simp: check_root_def Let_def)
  next
    case (Inr oc)
    show ?thesis
    proof (cases oc)
      case None
      then show ?thesis using assms Inr by (intro idle) (auto simp: check_root_def Let_def)
    next
      case (Some c)
      note cov = Inr [unfolded Some]
      show ?thesis
      proof (cases "resolved_latest_epoch c = None")
        case True
        then show ?thesis using assms cov by (intro idle) (auto simp: check_root_def Let_def)
      next
        case False
        show ?thesis
        proof (cases "fetch_file_shape (vs_rpc v) ?rt")
          case (Inl e)
          then show ?thesis using assms cov False by (intro idle) (auto simp: check_root_def Let_def)
        next
          case (Inr shape)
          show ?thesis
          proof (cases "epoch_from_coverage c (fs_assignment_height shape)")
            case (Inl e)
            then show ?thesis using assms cov False Inr by (intro idle) (auto simp: check_root_def Let_def split: if_splits)
          next
            case e: (Inr e)
            then have re: "\<forall>x. reads_epoch v x \<longrightarrow> x = e" using cov Inr by (simp add: reads_epoch_def)
            show ?thesis
            proof (cases "is_abandoned (fs_lifecycle shape) \<or> epoch_entry w ?rt e = None
                \<or> (\<exists>st. epoch_entry w ?rt e = Some st \<and> ep_attempts st \<ge> MAX_ATTEMPTS_PER_EPOCH)")
              case True
              then show ?thesis using assms cov False Inr e by (intro idle) (auto simp: check_root_def Let_def split: if_splits)
            next
              case go: False
              then obtain st where st: "epoch_entry w ?rt e = Some st" "ep_attempts st < MAX_ATTEMPTS_PER_EPOCH"
                by (cases "epoch_entry w ?rt e") (auto simp: not_le)
              define skip where "skip = (if vs_held v = {} then Inr True
                 else if ew_state w ?rt = None then already_attested L W (vs_rpc v) w ?rt c shape e (vs_held v) else Inr False)"
              have eq: "check_root L W w v rep = (case skip of Inl x \<Rightarrow> Some (Inl x, w, rep\<lparr>tk_checked := tk_checked rep + 1\<rparr>, [])
                  | Inr True \<Rightarrow> Some (Inr (), put_state ?rt (st\<lparr>ep_done := True\<rparr>) w, rep\<lparr>tk_checked := tk_checked rep + 1\<rparr>, [])
                  | Inr False \<Rightarrow> map_option (\<lambda>r. (Inr (), r)) (attest_epoch L W w v st (rep\<lparr>tk_checked := tk_checked rep + 1\<rparr>)))"
                using cov False Inr e go st unfolding skip_def check_root_def Let_def by (auto simp del: split_paired_Ex)
              consider x where "skip = Inl x" | "skip = Inr True" | "skip = Inr False" by (cases skip) auto
              then show ?thesis
              proof cases
                case 1
                then show ?thesis using assms eq by (intro idle) auto
              next
                case 2
                then show ?thesis using assms eq by (intro handled [OF st(1) _ re]) auto
              next
                case 3
                then have "attest_epoch L W w v st (rep\<lparr>tk_checked := tk_checked rep + 1\<rparr>) = Some (w', rep', started)"
                  using assms eq by auto
                from attest_epoch_effect [OF this] obtain sent fin where "started = [(?rt, ep_epoch st, sent)]"
                    "w' = put_state ?rt (st\<lparr>ep_attempts := ep_attempts st + 1, ep_done := fin\<rparr>) w" by blast
                moreover have "ep_epoch st = e" using st(1) by (auto simp: epoch_entry_def split: option.splits if_splits)
                ultimately show ?thesis using re by (intro ran [OF st, of sent]) auto
              qed
            qed
          qed
        qed
      qed
    qed
  qed
qed

lemma entry_attempts:
  assumes "epoch_entry w rt e = Some st"
  shows "ep_epoch st = e" "unat (ep_attempts st) = attempts_in w rt e" "\<not> settled w rt e"
  using assms by (auto simp: epoch_entry_def attempts_in_def settled_def split: option.splits if_splits)

definition quota :: "epoch_watcher \<Rightarrow> hash \<Rightarrow> u64 \<Rightarrow> nat" where
  "quota w rt e = (if settled w rt e then 0 else 3 - attempts_in w rt e)"

lemma check_root_quota:
  assumes "check_root L W w v rep = Some (r, w', rep', started)" and "vs_root v = rt \<longrightarrow> reads_epoch v e"
  shows "runs_for rt started + quota w' rt e \<le> quota w rt e"
  using assms(1)
proof (cases rule: check_root_effect)
  case idle
  then show ?thesis by (simp add: quota_def settled_def attempts_in_def)
next
  case (handled st e')
  then show ?thesis using assms(2) by (auto simp: quota_def settled_def attempts_in_def dest: entry_attempts)
next
  case (ran st e' fin sent)
  show ?thesis
  proof (cases "vs_root v = rt")
    case False
    then show ?thesis using ran by (simp add: quota_def settled_def attempts_in_def)
  next
    case True
    then have e: "e' = e" using ran(4) assms(2) by auto
    note st = entry_attempts [OF ran(1) [unfolded True e]]
    have "unat (ep_attempts st) < 3" using ran(2) by (simp add: MAX_ATTEMPTS_PER_EPOCH_def word_less_nat_alt)
    moreover from this have "unat (ep_attempts st + 1) = Suc (unat (ep_attempts st))"
      using unat_less [of "ep_attempts st"] by (simp add: unat_word_ariths)
    ultimately show ?thesis
      using ran(3,5) True e st by (auto simp: quota_def settled_def attempts_in_def)
  qed
qed

lemma tick_from_quota:
  assumes "tick_from L W w vs rep = Some (w', rep', started)" and "\<forall>v \<in> set vs. vs_root v = rt \<longrightarrow> reads_epoch v e"
  shows "runs_for rt started + quota w' rt e \<le> quota w rt e"
  using assms
proof (induction vs arbitrary: w rep started)
  case (Cons v vs)
  show ?case
  proof (cases "vs_root v \<in> ew_not_v2 w")
    case True
    then show ?thesis using Cons by simp
  next
    case False
    then obtain r w1 rep1 s1 where c: "check_root L W w v rep = Some (r, w1, rep1, s1)"
      using Cons.prems(1) by (auto split: option.splits)
    then obtain rep2 s2 where t: "tick_from L W w1 vs rep2 = Some (w', rep', s2)" "started = s1 @ s2"
      using Cons.prems(1) False by (auto simp: Let_def)
    have "runs_for rt s1 + quota w1 rt e \<le> quota w rt e" using check_root_quota [OF c] Cons.prems(2) by simp
    moreover have "runs_for rt s2 + quota w' rt e \<le> quota w1 rt e" using Cons.IH [OF t(1)] Cons.prems(2) by simp
    ultimately show ?thesis using t(2) by simp
  qed
qed simp

fun watch :: "digest_lib \<Rightarrow> wire_lib \<Rightarrow> epoch_watcher \<Rightarrow> visit list list \<Rightarrow> (epoch_watcher \<times> started) option" where
  "watch L W w [] = Some (w, [])"
| "watch L W w (vs # vss) =
     (case tick L W w vs of
        None \<Rightarrow> None
      | Some (w1, _, started1) \<Rightarrow> map_option (\<lambda>(w2, started2). (w2, started1 @ started2)) (watch L W w1 vss))"

lemma run_attestation_ends:
  assumes "0 < poll"
  shows "\<exists>r. run_attestation L W a rpc env rt held me poll timeout = Some r"
proof -
  have "\<exists>s sent. attest W a env \<lparr>ar_merkle_root = rt, ar_chunk_count = n, ar_snapshot = snap, ar_held = held,
      ar_starting_nonce = k, ar_poll_interval = poll, ar_batch_timeout = timeout\<rparr> = Some (s, sent)" for n snap k
    using attest_ends [of "\<lparr>ar_merkle_root = rt, ar_chunk_count = n, ar_snapshot = snap, ar_held = held,
      ar_starting_nonce = k, ar_poll_interval = poll, ar_batch_timeout = timeout\<rparr>" W a env] assms by simp blast
  then show ?thesis by (auto simp: run_attestation_def split: sum.split)
qed

lemma check_root_total:
  assumes "0 < ew_attest_poll_interval w"
  shows "\<exists>r w' rep' started. check_root L W w v rep = Some (r, w', rep', started)
      \<and> ew_attest_poll_interval w' = ew_attest_poll_interval w"
proof -
  have a: "\<exists>w' rep' started. attest_epoch L W w v st rep1 = Some (w', rep', started)
      \<and> ew_attest_poll_interval w' = ew_attest_poll_interval w" for st rep1
    using run_attestation_ends [OF assms, of L W "ew_attestor w" "vs_run_rpc v" "vs_submit v" "vs_root v" "vs_held v"
        "ew_my_addr_base58 w" "ew_attest_batch_timeout w"]
    by (auto simp: attest_epoch_def Let_def put_state_def)
  show ?thesis
    unfolding check_root_def Let_def
    by (auto simp: put_state_def split: sum.split option.split bool.split) (use a in blast)+
qed

lemma tick_from_total:
  assumes "0 < ew_attest_poll_interval w"
  shows "\<exists>w' rep' started. tick_from L W w vs rep = Some (w', rep', started)
      \<and> ew_attest_poll_interval w' = ew_attest_poll_interval w"
  using assms
proof (induction vs arbitrary: w rep)
  case (Cons v vs)
  obtain r w1 rep1 s1 where c: "check_root L W w v rep = Some (r, w1, rep1, s1)"
      "ew_attest_poll_interval w1 = ew_attest_poll_interval w" using check_root_total [OF Cons.prems] by metis
  have "0 < ew_attest_poll_interval w1" using c(2) Cons.prems by simp
  from Cons.IH [OF this] Cons.IH [OF Cons.prems] c show ?case by (auto simp: Let_def)
qed simp

lemma watch_quota:
  assumes "0 < ew_attest_poll_interval w" and "\<forall>vs \<in> set vss. \<forall>v \<in> set vs. vs_root v = rt \<longrightarrow> reads_epoch v e"
  shows "\<exists>w' started. watch L W w vss = Some (w', started) \<and> runs_for rt started + quota w' rt e \<le> quota w rt e"
  using assms
proof (induction vss arbitrary: w)
  case (Cons vs vss)
  obtain w1 rep1 s1 where t: "tick L W w vs = Some (w1, rep1, s1)" "ew_attest_poll_interval w1 = ew_attest_poll_interval w"
    using tick_from_total [OF Cons.prems(1)] unfolding tick_def by metis
  have "0 < ew_attest_poll_interval w1" using t(2) Cons.prems by simp
  from Cons.IH [OF this] Cons.prems(2) obtain w' s2 where r: "watch L W w1 vss = Some (w', s2)"
      "runs_for rt s2 + quota w' rt e \<le> quota w1 rt e" by auto
  have "runs_for rt s1 + quota w1 rt e \<le> quota w rt e"
    using tick_from_quota [OF t(1) [unfolded tick_def]] Cons.prems(2) by simp
  then show ?case using t(1) r by simp
qed simp

text \<open>
  C33. The watcher always returns and never hammers the chain: over any number of ticks in which the chain
  keeps reporting the same latest epoch for a file, whatever else happens, it starts at most three
  attestation runs for it, and none at all once a run for that epoch has finished or there was nothing
  to attest.
\<close>

theorem watcher_attempts_bounded:
  assumes "0 < ew_attest_poll_interval w" and "\<forall>vs \<in> set vss. \<forall>v \<in> set vs. vs_root v = rt \<longrightarrow> reads_epoch v e"
  shows "\<exists>w' started. watch L W w vss = Some (w', started)
      \<and> runs_for rt started \<le> 3 \<and> (settled w rt e \<longrightarrow> runs_for rt started = 0)"
proof -
  obtain w' started where "watch L W w vss = Some (w', started)" "runs_for rt started + quota w' rt e \<le> quota w rt e"
    using watch_quota [OF assms] by blast
  then show ?thesis by (auto simp: quota_def split: if_splits)
qed

section \<open>An epoch change is acted on\<close>

text \<open>The chain reports epoch \<open>e\<close> for a file that is not abandoned.\<close>

definition reports_epoch :: "trigger_rpc \<Rightarrow> hash \<Rightarrow> u64 \<Rightarrow> bool" where
  "reports_epoch rpc rt e \<longleftrightarrow> (\<exists>coverage shape. fetch_coverage rpc rt = Inr (Some coverage)
     \<and> resolved_latest_epoch coverage \<noteq> None \<and> fetch_file_shape rpc rt = Inr shape \<and> \<not> is_abandoned (fs_lifecycle shape)
     \<and> epoch_from_coverage coverage (fs_assignment_height shape) = Inr e)"

lemma changed_epoch_attests:
  assumes "reports_epoch (vs_rpc v) (vs_root v) e" and "ew_state w (vs_root v) = Some st" and "ep_epoch st \<noteq> e"
    and "vs_held v \<noteq> {}"
  shows "check_root L W w v rep = map_option (\<lambda>r. (Inr (), r))
     (attest_epoch L W w v \<lparr>ep_epoch = e, ep_done = False, ep_attempts = 0\<rparr> (rep\<lparr>tk_checked := tk_checked rep + 1\<rparr>))"
proof -
  obtain coverage shape where "fetch_coverage (vs_rpc v) (vs_root v) = Inr (Some coverage)"
      "resolved_latest_epoch coverage \<noteq> None" "fetch_file_shape (vs_rpc v) (vs_root v) = Inr shape"
      "\<not> is_abandoned (fs_lifecycle shape)" "epoch_from_coverage coverage (fs_assignment_height shape) = Inr e"
    using assms(1) unfolding reports_epoch_def by blast
  then show ?thesis using assms(2-4) by (simp add: check_root_def epoch_entry_def MAX_ATTEMPTS_PER_EPOCH_def Let_def) auto
qed

text \<open>
  An epoch change is acted on at the first visit after it is reported: for a known file with held
  chunks the watcher starts exactly one attestation run for the new epoch, and the visit returns; if the
  run attests everything, the epoch is recorded as attested and settled, otherwise the file is left for
  a later tick.
\<close>

theorem epoch_change_attested_at_once:
  assumes "reports_epoch (vs_rpc v) (vs_root v) e" and "ew_state w (vs_root v) = Some st" and "ep_epoch st \<noteq> e"
    and "vs_held v \<noteq> {}" and "0 < ew_attest_poll_interval w"
  shows "\<exists>w' rep' sent summary. check_root L W w v rep = Some (Inr (), w', rep', [(vs_root v, e, sent)])
      \<and> run_attestation L W (ew_attestor w) (vs_run_rpc v) (vs_submit v) (vs_root v) (vs_held v) (ew_my_addr_base58 w)
          (ew_attest_poll_interval w) (ew_attest_batch_timeout w) = Some summary
      \<and> (if \<exists>s. summary = Some (s, sent) \<and> fully_attested s
         then (vs_root v, e) \<in> set (tk_attested rep') \<and> settled w' (vs_root v) e
         else vs_root v \<in> set (tk_retry rep') \<and> attempts_in w' (vs_root v) e = 1)"
proof -
  obtain summary where s: "run_attestation L W (ew_attestor w) (vs_run_rpc v) (vs_submit v) (vs_root v) (vs_held v)
      (ew_my_addr_base58 w) (ew_attest_poll_interval w) (ew_attest_batch_timeout w) = Some summary"
    using run_attestation_ends [OF assms(5)] by blast
  show ?thesis
    unfolding changed_epoch_attests [OF assms(1-4)]
    using s by (cases summary) (auto simp: attest_epoch_def Let_def settled_def attempts_in_def)
qed

section \<open>What reaches the chain\<close>

text \<open>A started run sent nothing or what its attestation of the tracker's set sent.\<close>

definition sent_by :: "digest_lib \<Rightarrow> wire_lib \<Rightarrow> attestor \<Rightarrow> visit \<Rightarrow> hash \<times> u64 \<times> string list \<Rightarrow> bool" where
  "sent_by L W a v st \<longleftrightarrow> fst st = vs_root v \<and> (snd (snd st) = []
     \<or> (\<exists>s me poll timeout. run_attestation L W a (vs_run_rpc v) (vs_submit v) (vs_root v) (vs_held v) me poll timeout
          = Some (Some (s, snd (snd st)))))"

lemma attest_epoch_sends:
  assumes "attest_epoch L W w v st rep = Some (w', rep', started)"
  shows "ew_attestor w' = ew_attestor w \<and> (\<forall>x \<in> set started. sent_by L W (ew_attestor w) v x)"
  using assms by (auto simp: attest_epoch_def put_state_def sent_by_def Let_def split: option.splits if_splits)

lemma check_root_sends:
  assumes "check_root L W w v rep = Some (r, w', rep', started)"
  shows "ew_attestor w' = ew_attestor w \<and> (\<forall>x \<in> set started. sent_by L W (ew_attestor w) v x)"
  using assms attest_epoch_sends
  by (auto simp: check_root_def put_state_def Let_def split: sum.splits option.splits if_splits bool.splits)

lemma tick_from_sends:
  assumes "tick_from L W w vs rep = Some (w', rep', started)"
  shows "ew_attestor w' = ew_attestor w \<and> (\<forall>x \<in> set started. \<exists>v \<in> set vs. sent_by L W (ew_attestor w) v x)"
  using assms
proof (induction vs arbitrary: w rep started)
  case (Cons v vs)
  show ?case
  proof (cases "vs_root v \<in> ew_not_v2 w")
    case True
    then show ?thesis using Cons by fastforce
  next
    case False
    then obtain r w1 rep1 s1 where c: "check_root L W w v rep = Some (r, w1, rep1, s1)"
      using Cons.prems(1) by (auto split: option.splits)
    then obtain rep2 s2 where t: "tick_from L W w1 vs rep2 = Some (w', rep', s2)" "started = s1 @ s2"
      using Cons.prems(1) False by (auto simp: Let_def)
    show ?thesis using Cons.IH [OF t(1)] check_root_sends [OF c] t(2) by auto
  qed
qed simp

lemma watch_sends:
  assumes "watch L W w vss = Some (w', started)"
  shows "\<forall>x \<in> set started. \<exists>vs \<in> set vss. \<exists>v \<in> set vs. sent_by L W (ew_attestor w) v x"
  using assms
proof (induction vss arbitrary: w started)
  case (Cons vs vss)
  obtain w1 rep1 s1 where t: "tick L W w vs = Some (w1, rep1, s1)" using Cons.prems by (auto split: option.splits)
  obtain s2 where u: "watch L W w1 vss = Some (w', s2)" "started = s1 @ s2" using Cons.prems t by auto
  show ?case using tick_from_sends [OF t [unfolded tick_def]] Cons.IH [OF u(1)] u(2) by auto
qed simp

text \<open>
  C3. What reaches the chain is true. Boot the dispatcher as the node does, the held tracker rebuilt from
  disk, and run it over any requests and faults. Every text sent for an attestation it spawned, and every
  text the epoch watcher sends over any ticks, reading the same tracker, is this account's acceptance of
  chunks of that root, within the cap, each of them assigned to this archive in the chain's snapshot at
  the file's latest assignment epoch, and each backed at the end of the run: answerable from its push,
  or by the indexed Public manifest, or, only where the held record on disk at boot lacked its push proof
  or exemption, by that record and the chunk stored under it.
\<close>

theorem submitted_attestations_sound:
  assumes "inbound_run L W B acl (seed_held_from_disk senv (v2_dispatcher_new pv s0 idx d)) evs = (vd, atts)"
    and "\<forall>ev \<in> set evs. exclusive (ie_put (event_env ev))" and "lib_ok L" and "store_inv L s0"
    and "index_consistent L idx" and "index_typed idx" and "proofs_ok (blake3 L) idx"
    and "sign_ok (at_sign (ew_attestor w))" and "wire_ok W"
    and "0 < v2p_max_chunk_indices_per_tx (at_params (ew_attestor w))"
    and "\<forall>vs \<in> set vss. \<forall>v \<in> set vs. vs_held v \<subseteq> held_for vd (vs_root v)"
    and "watch L W w vss = Some (w', started)"
  shows "(\<forall>(rt, held) \<in> set atts. \<forall>rpc env me poll timeout s sent.
            run_attestation L W (ew_attestor w) rpc env rt held me poll timeout = Some (Some (s, sent)) \<longrightarrow>
            (\<forall>tx \<in> set sent. sound_acceptance L W (ew_attestor w) rpc rt
               (\<lambda>i. answerable L vd rt i \<or> manifest_backed L vd rt i \<or> unproved_record L idx s0 rt i) tx))
       \<and> (\<forall>(rt, e, sent) \<in> set started. \<exists>vs \<in> set vss. \<exists>v \<in> set vs. rt = vs_root v
            \<and> (\<forall>tx \<in> set sent. sound_acceptance L W (ew_attestor w) (vs_run_rpc v) rt
                 (\<lambda>i. answerable L vd rt i \<or> manifest_backed L vd rt i \<or> unproved_record L idx s0 rt i) tx))"
    (is "?spawned \<and> ?watched")
proof
  note run = seeded_run [OF assms(1-7)] and sound = run_attestation_sound [OF assms(8-10)]
  let ?P = "\<lambda>rt i. answerable L vd rt i \<or> manifest_backed L vd rt i \<or> unproved_record L idx s0 rt i"
  have "sound_acceptance L W (ew_attestor w) rpc rt (?P rt) tx"
    if "(rt, held) \<in> set atts" "tx \<in> set sent"
      "run_attestation L W (ew_attestor w) rpc env rt held me poll timeout = Some (Some (s, sent))"
    for rt held rpc env me poll timeout s sent tx
    by (rule sound [OF that(3) _ that(2)]) (use run(2,3) that(1) in blast)
  then show ?spawned by auto
  have "\<exists>vs \<in> set vss. \<exists>v \<in> set vs. rt = vs_root v
      \<and> (\<forall>tx \<in> set sent. sound_acceptance L W (ew_attestor w) (vs_run_rpc v) rt (?P rt) tx)"
    if st: "(rt, e, sent) \<in> set started" for rt e sent
  proof -
    obtain vs v where v: "vs \<in> set vss" "v \<in> set vs" "sent_by L W (ew_attestor w) v (rt, e, sent)"
      using watch_sends [OF assms(12)] st by blast
    then have rt: "rt = vs_root v" by (simp add: sent_by_def)
    have p: "\<forall>i \<in> vs_held v. ?P rt i" using run(2) assms(11) v(1,2) rt by blast
    have "sound_acceptance L W (ew_attestor w) (vs_run_rpc v) rt (?P rt) tx" if "tx \<in> set sent" for tx
      using v(3) that sound [OF _ p that] by (auto simp: sent_by_def rt)
    then show ?thesis using v(1,2) rt by blast
  qed
  then show ?watched by auto
qed

section \<open>Instances\<close>

definition demo_watcher :: epoch_watcher where
  "demo_watcher = \<lparr>ew_attestor = demo_attestor, ew_my_addr = replicate 20 1, ew_my_addr_base58 = ''a'',
     ew_params = at_params demo_attestor, ew_attest_poll_interval = 2 * 10 ^ 9, ew_attest_batch_timeout = 120 * 10 ^ 9,
     ew_state = [demo_chunk_root \<mapsto> \<lparr>ep_epoch = 4, ep_done = True, ep_attempts = 1\<rparr>], ew_not_v2 = {}\<rparr>"

definition demo_visit :: visit where
  "demo_visit = \<lparr>vs_root = demo_chunk_root, vs_held = {0}, vs_rpc = demo_trigger, vs_run_rpc = demo_trigger, vs_submit = demo_submit\<rparr>"

lemma demo_coverage_read:
  "fetch_coverage demo_trigger rt = Inr (Some demo_coverage)" "epoch_from_coverage demo_coverage 5 = Inr 5"
  "resolved_latest_epoch demo_coverage = Some 5"
  by (simp_all add: fetch_coverage_def demo_trigger_def epoch_from_coverage_def resolved_latest_epoch_def demo_coverage_def)

lemma demo_reads_epoch: "reads_epoch demo_visit 5"
  by (simp add: reads_epoch_def demo_visit_def demo_trigger_reads(1) demo_coverage_read)

theorem watcher_attempts_bounded_witness:
  "\<exists>w' started. watch demo_lib demo_wire demo_watcher (replicate 9 [demo_visit]) = Some (w', started)
     \<and> runs_for demo_chunk_root started \<le> 3"
  using watcher_attempts_bounded [of demo_watcher "replicate 9 [demo_visit]" demo_chunk_root 5 demo_lib demo_wire] demo_reads_epoch
  by (simp add: demo_watcher_def) blast

lemma demo_reports: "reports_epoch (vs_rpc demo_visit) (vs_root demo_visit) 5"
  by (simp add: reports_epoch_def demo_visit_def demo_trigger_reads(1) demo_coverage_read is_abandoned_def)

theorem epoch_change_attested_at_once_witness:
  "\<exists>w' rep' sent. check_root demo_lib demo_wire demo_watcher demo_visit \<lparr>tk_checked = 0, tk_attested = [], tk_retry = []\<rparr>
     = Some (Inr (), w', rep', [(demo_chunk_root, 5, sent)])"
proof -
  have "ew_state demo_watcher (vs_root demo_visit) = Some \<lparr>ep_epoch = 4, ep_done = True, ep_attempts = 1\<rparr>"
    "0 < ew_attest_poll_interval demo_watcher" "vs_held demo_visit \<noteq> {}" "vs_root demo_visit = demo_chunk_root"
    by (simp_all add: demo_watcher_def demo_visit_def)
  with epoch_change_attested_at_once [OF demo_reports, of demo_watcher _ demo_lib demo_wire] show ?thesis by fastforce
qed

lemma demo_watch_sends:
  assumes "run_attestation demo_lib demo_wire demo_attestor demo_trigger demo_submit demo_chunk_root {0} ''a''
     (2 * 10 ^ 9) (120 * 10 ^ 9) = Some (Some (s, [tx]))"
  shows "\<exists>w'. watch demo_lib demo_wire demo_watcher [[demo_visit]] = Some (w', [(demo_chunk_root, 5, [tx])])"
proof -
  have d: "ew_state demo_watcher (vs_root demo_visit) = Some \<lparr>ep_epoch = 4, ep_done = True, ep_attempts = 1\<rparr>"
    "vs_held demo_visit \<noteq> {}" "vs_root demo_visit = demo_chunk_root" "demo_chunk_root \<notin> ew_not_v2 demo_watcher"
    by (simp_all add: demo_watcher_def demo_visit_def)
  have "run_attestation demo_lib demo_wire (ew_attestor demo_watcher) (vs_run_rpc demo_visit) (vs_submit demo_visit)
      demo_chunk_root (vs_held demo_visit) (ew_my_addr_base58 demo_watcher) (ew_attest_poll_interval demo_watcher)
      (ew_attest_batch_timeout demo_watcher) = Some (Some (s, [tx]))"
    using assms by (simp add: demo_watcher_def demo_visit_def)
  then show ?thesis
    using changed_epoch_attests [OF demo_reports d(1) _ d(2)] d(3,4)
    by (simp add: tick_def attest_epoch_def Let_def)
qed

theorem submitted_attestations_sound_witness:
  "\<exists>vd vd2 held s tx w' sent. inbound_run demo_lib demo_wire demo_cbor (\<lambda>_ _ _. True) demo_vd demo_events
        = (vd, [(demo_chunk_root, {0})])
     \<and> inbound_run demo_lib demo_wire demo_cbor (\<lambda>_ _ _. True) (demo_reboot vd) demo_again = (vd2, [(demo_chunk_root, held)])
     \<and> run_attestation demo_lib demo_wire demo_attestor demo_trigger demo_submit demo_chunk_root {0} ''a''
         (2 * 10 ^ 9) (120 * 10 ^ 9) = Some (Some (s, [tx]))
     \<and> watch demo_lib demo_wire demo_watcher [[demo_visit]] = Some (w', [(demo_chunk_root, 5, [tx])])
     \<and> sound_acceptance demo_lib demo_wire demo_attestor demo_trigger demo_chunk_root
         (\<lambda>i. answerable demo_lib vd2 demo_chunk_root i \<or> manifest_backed demo_lib vd2 demo_chunk_root i) tx"
proof -
  obtain vd where r: "inbound_run demo_lib demo_wire demo_cbor (\<lambda>_ _ _. True) demo_vd demo_events = (vd, [(demo_chunk_root, {0})])"
    using demo_run_attests by blast
  obtain vd2 held where r2: "inbound_run demo_lib demo_wire demo_cbor (\<lambda>_ _ _. True) (demo_reboot vd) demo_again
     = (vd2, [(demo_chunk_root, held)])" "0 \<in> held" using demo_reboot_attests [OF r] by blast
  note ok = demo_reboot_ok [OF r]
  have ex: "\<forall>ev \<in> set demo_again. exclusive (ie_put (event_env ev))" by (simp add: demo_again_def demo_vd_fields)
  note run = seeded_run [OF r2(1) [unfolded demo_reboot_def] ex demo_lib_ok ok(1-4)]
  obtain s tx where s: "run_attestation demo_lib demo_wire demo_attestor demo_trigger demo_submit demo_chunk_root {0} ''a''
     (2 * 10 ^ 9) (120 * 10 ^ 9) = Some (Some (s, [tx]))" using demo_run_submits by blast
  obtain w' where w: "watch demo_lib demo_wire demo_watcher [[demo_visit]] = Some (w', [(demo_chunk_root, 5, [tx])])"
    using demo_watch_sends [OF s] by blast
  have h: "\<forall>vs \<in> set [[demo_visit]]. \<forall>v \<in> set vs. vs_held v \<subseteq> held_for vd2 (vs_root v)"
    using run(3) r2(2) by (auto simp: demo_visit_def)
  have a: "ew_attestor demo_watcher = demo_attestor" "vs_run_rpc demo_visit = demo_trigger"
    by (simp_all add: demo_watcher_def demo_visit_def)
  have "sound_acceptance demo_lib demo_wire demo_attestor demo_trigger demo_chunk_root
      (\<lambda>i. answerable demo_lib vd2 demo_chunk_root i \<or> manifest_backed demo_lib vd2 demo_chunk_root i) tx"
    using submitted_attestations_sound [OF r2(1) [unfolded demo_reboot_def] ex demo_lib_ok ok(1-4) _ demo_wire_ok _ h w,
        unfolded a] demo_params(1,2) backed_not_unproved [OF ok(5)] a by simp
  then show ?thesis using r r2(1) s w by blast
qed

end
