(* ===== verification/Por_Worker.thy ===== *)
theory Por_Worker
  imports Inbound_V2 Tx_Builder
begin

text \<open>
  The responder to proof-of-retrievability challenges (\<open>sum-node/src/por_worker.rs\<close>): the answer built
  from the local store, the submission of one proof, and the polling loop with its bounded memory of
  answered challenges. The chain's answers and the store's read outcome are the fields of \<open>por_env\<close>;
  \<open>None\<close> is a panic.
\<close>

section \<open>Building an answer\<close>

record challenge_info =
  ch_challenge_id :: string
  ch_merkle_root :: string
  ch_chunk_index :: u32
  ch_target_node :: string
  ch_created_at_height :: u64
  ch_expires_at_height :: u64

datatype answer_source = PublicManifest | PushedProof

record por_answer =
  pa_chunk_hash :: hash
  pa_merkle_path :: "hash list"
  pa_source :: answer_source

definition answer_from_pushed_proof ::
    "digest_lib \<Rightarrow> io_env \<Rightarrow> manifest_index \<Rightarrow> pub_store \<Rightarrow> hash \<Rightarrow> u32 \<Rightarrow> string + hash \<times> hash list" where
  "answer_from_pushed_proof L env idx local rt i =
     (let root_hex = hex_encode rt; chunk = ''not answering: chunk '' @ dec_of_nat (unat i) @ '' of root 0x'' @ root_hex in
      case v2_pushed_proof idx rt i of
        None \<Rightarrow> Inl (''not answering: no Public manifest and no recorded push proof for chunk '' @ dec_of_nat (unat i)
                  @ '' of root 0x'' @ root_hex
                  @ '' (chunk not pushed to this archive, or pushed before push proofs were recorded)'')
      | Some proof \<Rightarrow>
         (case (case v2_held_records idx rt of None \<Rightarrow> None | Some records \<Rightarrow> map_of records i) of
            None \<Rightarrow> Inl (chunk @ '' has a recorded push proof but no held-index record'')
          | Some cid \<Rightarrow>
             (case get env local cid of
                Inl e \<Rightarrow> Inl (chunk @ '' ('' @ cid @ '') unreadable: '' @ display_error e)
              | Inr bytes \<Rightarrow>
                  if blake3 L bytes \<noteq> pp_leaf proof then
                    Inl (chunk @ '' ('' @ cid @ '') does not hash to its recorded push leaf'')
                  else Inr (pp_leaf proof, pp_path proof))))"

definition build_answer ::
    "digest_lib \<Rightarrow> io_env \<Rightarrow> manifest_index \<Rightarrow> pub_store \<Rightarrow> hash \<Rightarrow> u32 \<Rightarrow> (string + por_answer) option" where
  "build_answer L env idx local rt i =
     (case get_by_merkle_root idx rt of
        None \<Rightarrow>
          Some (map_sum id (\<lambda>(chunk_hash, path). \<lparr>pa_chunk_hash = chunk_hash, pa_merkle_path = path, pa_source = PushedProof\<rparr>)
                  (answer_from_pushed_proof L env idx local rt i))
      | Some m \<Rightarrow>
         (case chunk_cid idx rt i of
            None \<Rightarrow> Some (Inl (''no chunk at index '' @ dec_of_nat (unat i) @ '' for root 0x'' @ hex_encode rt))
          | Some cid \<Rightarrow>
             (case get env local cid of
                Inl e \<Rightarrow> Some (Inl (display_error e))
              | Inr chunk_data \<Rightarrow>
                  map_option (\<lambda>path. Inr \<lparr>pa_chunk_hash = blake3 L chunk_data, pa_merkle_path = path, pa_source = PublicManifest\<rparr>)
                    (generate_proof (build (blake3 L) (map cd_hash (chunks m))) i))))"

section \<open>Answering a challenge\<close>

definition MAX_RESPONDED :: nat where "MAX_RESPONDED = 500"

record por_worker =
  pw_ed25519_seed :: bytes
  pw_l1_address_base58 :: string
  pw_poll_interval_secs :: u64
  pw_responded :: "string list"
  pw_consecutive_failures :: u32

definition por_worker_new :: "bytes \<Rightarrow> string \<Rightarrow> u64 \<Rightarrow> por_worker" where
  "por_worker_new seed addr poll =
     \<lparr>pw_ed25519_seed = seed, pw_l1_address_base58 = addr, pw_poll_interval_secs = poll, pw_responded = [],
      pw_consecutive_failures = 0\<rparr>"

record por_env =
  po_hex_decode :: "string \<Rightarrow> string + bytes"
  po_get :: io_env
  po_nonce :: "string \<Rightarrow> string + u64"
  po_chain_id :: "string + u64"
  po_send :: "string \<Rightarrow> string + string"

text \<open>The result, and the text handed to \<open>send_raw_transaction\<close>, if any.\<close>

definition submit_proof ::
    "sign_lib \<Rightarrow> por_env \<Rightarrow> por_worker \<Rightarrow> challenge_info \<Rightarrow> hash \<Rightarrow> hash \<Rightarrow> hash \<Rightarrow> hash list \<Rightarrow> (string + unit) \<times> string option" where
  "submit_proof S env w challenge challenge_id rt chunk_hash path =
     (case po_nonce env (pw_l1_address_base58 w) of
        Inl e \<Rightarrow> (Inl e, None)
      | Inr nonce \<Rightarrow>
         (case po_chain_id env of
            Inl e \<Rightarrow> (Inl e, None)
          | Inr chain_id \<Rightarrow>
             (case build_submit_proof_tx S (pw_ed25519_seed w) chain_id nonce 1000000 challenge_id rt (ch_chunk_index challenge)
                     chunk_hash path of
                Inl e \<Rightarrow> (Inl e, None)
              | Inr tx_hex \<Rightarrow> (map_sum id (\<lambda>_. ()) (po_send env tx_hex), Some tx_hex))))"

definition decode_id :: "por_env \<Rightarrow> string \<Rightarrow> string \<Rightarrow> string + hash" where
  "decode_id env what text =
     (case po_hex_decode env (case strip_prefix ''0x'' text of Some t \<Rightarrow> t | None \<Rightarrow> text) of
        Inl e \<Rightarrow> Inl e
      | Inr b \<Rightarrow> if length b \<noteq> 32 then Inl (what @ '' is not 32 bytes'') else Inr b)"

definition respond_to_challenge ::
    "digest_lib \<Rightarrow> sign_lib \<Rightarrow> por_env \<Rightarrow> por_worker \<Rightarrow> manifest_index \<Rightarrow> pub_store \<Rightarrow> challenge_info
       \<Rightarrow> ((string + unit) \<times> string option) option" where
  "respond_to_challenge L S env w idx local challenge =
     (case decode_id env ''merkle_root'' (ch_merkle_root challenge) of
        Inl e \<Rightarrow> Some (Inl e, None)
      | Inr rt \<Rightarrow>
         (case decode_id env ''challenge_id'' (ch_challenge_id challenge) of
            Inl e \<Rightarrow> Some (Inl e, None)
          | Inr challenge_id \<Rightarrow>
             (case build_answer L (po_get env) idx local rt (ch_chunk_index challenge) of
                None \<Rightarrow> None
              | Some (Inl e) \<Rightarrow> Some (Inl e, None)
              | Some (Inr answer) \<Rightarrow>
                  Some (submit_proof S env w challenge challenge_id rt (pa_chunk_hash answer) (pa_merkle_path answer)))))"

section \<open>Polling\<close>

definition remember :: "string \<Rightarrow> string list \<Rightarrow> string list" where
  "remember challenge_id responded =
     (if length responded \<ge> MAX_RESPONDED then drop 1 responded else responded) @ [challenge_id]"

text \<open>
  The loop of \<open>poll_and_respond\<close>: the worker, the texts sent, and the challenges answered, in order.
  The store may change between two challenges, whose state it is read in.
\<close>

type_synonym por_view = "por_env \<times> manifest_index \<times> pub_store"

fun respond_all ::
    "digest_lib \<Rightarrow> sign_lib \<Rightarrow> por_worker \<Rightarrow> (por_view \<times> challenge_info) list
       \<Rightarrow> (por_worker \<times> string list \<times> string list) option" where
  "respond_all L S w [] = Some (w, [], [])"
| "respond_all L S w (((env, idx, local), challenge) # cs) =
     (if ch_challenge_id challenge \<in> set (pw_responded w) then respond_all L S w cs
      else
        (case respond_to_challenge L S env w idx local challenge of
           None \<Rightarrow> None
         | Some (r, tx) \<Rightarrow>
            (let w' = (case r of Inr _ \<Rightarrow> w\<lparr>pw_responded := remember (ch_challenge_id challenge) (pw_responded w)\<rparr>
                       | Inl _ \<Rightarrow> w) in
             map_option (\<lambda>(w2, sent, answered).
                 (w2, (case tx of Some t \<Rightarrow> t # sent | None \<Rightarrow> sent),
                  (case r of Inr _ \<Rightarrow> ch_challenge_id challenge # answered | Inl _ \<Rightarrow> answered)))
               (respond_all L S w' cs))))"

definition poll_and_respond ::
    "digest_lib \<Rightarrow> sign_lib \<Rightarrow> por_worker \<Rightarrow> string + (por_view \<times> challenge_info) list
       \<Rightarrow> ((string + unit) \<times> por_worker \<times> string list \<times> string list) option" where
  "poll_and_respond L S w active =
     (case active of Inl e \<Rightarrow> Some (Inl e, w, [], [])
      | Inr cs \<Rightarrow> map_option (\<lambda>r. (Inr (), r)) (respond_all L S w cs))"

text \<open>What \<open>run\<close> does with a poll's result: the backoff in seconds, if it sleeps.\<close>

definition after_poll :: "string + unit \<Rightarrow> por_worker \<Rightarrow> por_worker \<times> u64 option" where
  "after_poll r w =
     (case r of
        Inr _ \<Rightarrow> (w\<lparr>pw_consecutive_failures := 0\<rparr>, None)
      | Inl e \<Rightarrow>
         (let failures = pw_consecutive_failures w + 1 in
          (w\<lparr>pw_consecutive_failures := failures\<rparr>, Some (pw_poll_interval_secs w * 2 ^ unat (min failures 5)))))"

fun por_run ::
    "digest_lib \<Rightarrow> sign_lib \<Rightarrow> por_worker \<Rightarrow> (string + (por_view \<times> challenge_info) list) list
       \<Rightarrow> (por_worker \<times> string list \<times> string list) option" where
  "por_run L S w [] = Some (w, [], [])"
| "por_run L S w (p # ps) =
     (case poll_and_respond L S w p of
        None \<Rightarrow> None
      | Some (r, w1, sent1, answered1) \<Rightarrow>
          map_option (\<lambda>(w2, sent2, answered2). (w2, sent1 @ sent2, answered1 @ answered2))
            (por_run L S (fst (after_poll r w1)) ps))"

section \<open>Answers verify\<close>

lemma chunk_cid_Some:
  "chunk_cid idx rt i = Some cid \<longleftrightarrow> (\<exists>m. get_by_merkle_root idx rt = Some m \<and> unat i < length (chunks m)
     \<and> cid = cd_cid (chunks m ! unat i))"
  by (auto simp: chunk_cid_def get_by_merkle_root_def split: option.splits)

lemma consistent_manifest_answer:
  assumes "consistent_manifest L m" and "merkle_root m = rt" and "unat i < length (chunks m)"
  shows "\<exists>path. generate_proof (build (blake3 L) (map cd_hash (chunks m))) i = Some path
      \<and> verify_merkle_proof_bytes (blake3 L) (cd_hash (chunks m ! unat i)) i path rt"
proof -
  have "length (map cd_hash (chunks m)) < 2 ^ 32"
    using assms(1) unat_less [of "chunk_count m"] by (simp add: consistent_manifest_def)
  from generated_proof_verifies [OF this, of i "blake3 L"] assms(3)
  obtain path where "generate_proof (build (blake3 L) (map cd_hash (chunks m))) i = Some path"
      "verify_merkle_proof_bytes_for_tree (blake3 L) (map cd_hash (chunks m) ! unat i) i path
         (root (build (blake3 L) (map cd_hash (chunks m)))) (u32_of (length (map cd_hash (chunks m))))" by auto
  then show ?thesis using assms
    by (auto simp: consistent_manifest_def verify_merkle_proof_bytes_def verify_merkle_proof_def dest: verify_for_treeD(3))
qed

lemma manifest_answer:
  assumes "index_consistent L idx" and "get_by_merkle_root idx rt = Some m" and "unat i < length (chunks m)"
  shows "\<exists>path. generate_proof (build (blake3 L) (map cd_hash (chunks m))) i = Some path
      \<and> verify_merkle_proof_bytes (blake3 L) (cd_hash (chunks m ! unat i)) i path rt
      \<and> cd_cid (chunks m ! unat i) = cid_from_blake3_hash L (cd_hash (chunks m ! unat i))"
proof -
  have c: "consistent_manifest L m" "merkle_root m = rt" using assms by (auto simp: index_consistent_def)
  then show ?thesis using consistent_manifest_answer [OF c assms(3)] assms(3) by (auto simp: consistent_manifest_def)
qed

lemma build_answer_no_panic:
  assumes "index_consistent L idx"
  shows "build_answer L env idx local rt i \<noteq> None"
proof (cases "chunk_cid idx rt i")
  case None
  then show ?thesis by (simp add: build_answer_def split: option.split)
next
  case (Some cid)
  then show ?thesis
    using manifest_answer [OF assms] by (fastforce simp: build_answer_def chunk_cid_Some split: sum.split option.split)
qed

lemma get_Inr: "get env s key = Inr b \<Longrightarrow> lookup s key = Some b"
  by (auto simp: get_def split: sum.splits option.splits intro: open_key_Some)


lemma stored_hash:
  assumes "lib_ok L" and "store_inv L s" and "length h = 32" and "lookup s (cid_from_blake3_hash L h) = Some b"
  shows "blake3 L b = h"
proof -
  have "cid_from_data L b = cid_from_blake3_hash L h"
    using assms canonical_cid_of_hash [OF assms(1,3), of s] by (simp add: store_inv_def)
  then show ?thesis
    using cid_from_blake3_hash_inject [OF assms(1) lib_ok_blake3 [OF assms(1)] assms(3)] by (simp add: cid_from_data_def)
qed

text \<open>What the chain checks of a submitted proof, and that the bytes behind it are really here.\<close>

definition honest_answer :: "digest_lib \<Rightarrow> pub_store \<Rightarrow> hash \<Rightarrow> u32 \<Rightarrow> hash \<Rightarrow> hash list \<Rightarrow> bool" where
  "honest_answer L s rt i chunk_hash path \<longleftrightarrow> verify_merkle_proof_bytes (blake3 L) chunk_hash i path rt
     \<and> (\<exists>cid b. lookup s cid = Some b \<and> blake3 L b = chunk_hash)"

lemma pushed_answer:
  assumes "proofs_ok (blake3 L) idx" and "answer_from_pushed_proof L env idx s rt i = Inr (h, path)"
  shows "honest_answer L s rt i h path"
proof -
  obtain p where p1: "v2_pushed_proof idx rt i = Some p"
    using assms(2) by (auto simp: answer_from_pushed_proof_def Let_def split: option.splits)
  let ?rec = "case v2_held_records idx rt of None \<Rightarrow> None | Some records \<Rightarrow> map_of records i"
  obtain cid where c: "?rec = Some cid"
    using assms(2) p1 by (cases ?rec) (simp_all add: answer_from_pushed_proof_def Let_def)
  obtain b where b: "get env s cid = Inr b"
    using assms(2) p1 c by (cases "get env s cid") (simp_all add: answer_from_pushed_proof_def Let_def)
  have p: "blake3 L b = pp_leaf p" "h = pp_leaf p" "path = pp_path p"
    using assms(2) p1 c b by (simp_all add: answer_from_pushed_proof_def Let_def split: if_splits)
  have "pushed_proof_verifies (blake3 L) rt i p" using assms(1) p1 by (simp add: proofs_ok_def v2_pushed_proof_def)
  then show ?thesis using p get_Inr [OF b] by (auto simp: honest_answer_def pushed_proof_verifies_def)
qed

lemma answer_sound:
  assumes "lib_ok L" and "store_inv L s" and "index_consistent L idx" and "index_typed idx" and "proofs_ok (blake3 L) idx"
    and "build_answer L env idx s rt i = Some (Inr a)"
  shows "honest_answer L s rt i (pa_chunk_hash a) (pa_merkle_path a)"
proof (cases "get_by_merkle_root idx rt")
  case None
  then show ?thesis
    using assms(6) pushed_answer [OF assms(5)]
    by (cases "answer_from_pushed_proof L env idx s rt i") (auto simp: build_answer_def)
next
  case (Some m)
  obtain b path where b: "unat i < length (chunks m)" "get env s (cd_cid (chunks m ! unat i)) = Inr b"
      "generate_proof (build (blake3 L) (map cd_hash (chunks m))) i = Some path"
      "a = \<lparr>pa_chunk_hash = blake3 L b, pa_merkle_path = path, pa_source = PublicManifest\<rparr>"
    using assms(6) Some by (auto simp: build_answer_def chunk_cid_def get_by_merkle_root_def split: option.splits sum.splits if_splits)
  note m = manifest_answer [OF assms(3) Some b(1)]
  have "length (cd_hash (chunks m ! unat i)) = 32" using assms(4) Some b(1) by (auto simp: index_typed_def)
  then have "blake3 L b = cd_hash (chunks m ! unat i)"
    using stored_hash [OF assms(1,2)] get_Inr [OF b(2)] m by metis
  then show ?thesis using m b get_Inr [OF b(2)] by (auto simp: honest_answer_def)
qed

section \<open>What is submitted\<close>

definition por_view_ok :: "digest_lib \<Rightarrow> por_view \<Rightarrow> bool" where
  "por_view_ok L v \<longleftrightarrow> (case v of (env, idx, s) \<Rightarrow>
     store_inv L s \<and> index_consistent L idx \<and> index_typed idx \<and> proofs_ok (blake3 L) idx)"

definition proof_for :: "digest_lib \<Rightarrow> sign_lib \<Rightarrow> bytes \<Rightarrow> string \<Rightarrow> por_view \<times> challenge_info \<Rightarrow> bool" where
  "proof_for L S seed tx vc \<longleftrightarrow> (case vc of ((env, idx, s), c) \<Rightarrow>
     \<exists>ch rt h path chain n. decode_id env ''challenge_id'' (ch_challenge_id c) = Inr ch
       \<and> decode_id env ''merkle_root'' (ch_merkle_root c) = Inr rt
       \<and> authentic S tx = Some (own_tx S seed chain n 1000000
           (StorageMetadata (SubmitStorageProof ch rt (ch_chunk_index c) h path)))
       \<and> honest_answer L s rt (ch_chunk_index c) h path)"

lemma respond_sound:
  assumes "lib_ok L" and "sign_ok S" and "por_view_ok L (env, idx, s)" and "respond_to_challenge L S env w idx s c = Some (r, Some tx)"
  shows "proof_for L S (pw_ed25519_seed w) tx ((env, idx, s), c)"
proof -
  obtain rt ch a n chain where *: "decode_id env ''merkle_root'' (ch_merkle_root c) = Inr rt"
      "decode_id env ''challenge_id'' (ch_challenge_id c) = Inr ch"
      "build_answer L (po_get env) idx s rt (ch_chunk_index c) = Some (Inr a)"
      "build_submit_proof_tx S (pw_ed25519_seed w) chain n 1000000 ch rt (ch_chunk_index c) (pa_chunk_hash a) (pa_merkle_path a) = Inr tx"
    using assms(4) by (auto simp: respond_to_challenge_def submit_proof_def split: sum.splits option.splits)
  have "honest_answer L s rt (ch_chunk_index c) (pa_chunk_hash a) (pa_merkle_path a)"
    using answer_sound [OF assms(1) _ _ _ _ *(3)] assms(3) by (simp add: por_view_ok_def)
  moreover have "authentic S tx = Some (own_tx S (pw_ed25519_seed w) chain n 1000000
          (StorageMetadata (SubmitStorageProof ch rt (ch_chunk_index c) (pa_chunk_hash a) (pa_merkle_path a))))"
    using sign_and_encode_authentic [OF assms(2)] *(4) unfolding build_submit_proof_tx_def by (metis sum.inject(2))
  ultimately show ?thesis using * unfolding proof_for_def prod.case by blast
qed

lemma respond_all_sound:
  assumes "lib_ok L" and "sign_ok S" and "\<forall>(v, c) \<in> set cs. por_view_ok L v"
    and "respond_all L S w cs = Some (w', sent, answered)" and "tx \<in> set sent"
  shows "\<exists>vc \<in> set cs. proof_for L S (pw_ed25519_seed w) tx vc"
  using assms(3-5)
proof (induction cs arbitrary: w w' sent answered)
  case (Cons vc cs)
  obtain env idx s c where vc: "vc = ((env, idx, s), c)" by (metis surj_pair)
  show ?case
  proof (cases "ch_challenge_id c \<in> set (pw_responded w)")
    case True
    then show ?thesis using Cons.IH [of w] Cons.prems vc by fastforce
  next
    case False
    then obtain r t w1 sent1 answered1 where r: "respond_to_challenge L S env w idx s c = Some (r, t)"
        "respond_all L S w1 cs = Some (w', sent1, answered1)" "pw_ed25519_seed w1 = pw_ed25519_seed w"
        "sent = (case t of Some t \<Rightarrow> t # sent1 | None \<Rightarrow> sent1)"
      using Cons.prems(2) vc by (auto simp: Let_def split: option.splits sum.splits)
    then consider "t = Some tx" | "tx \<in> set sent1" using Cons.prems(3) by (auto split: option.splits)
    then show ?thesis
    proof cases
      case 1
      then show ?thesis
        using respond_sound [OF assms(1,2), of env idx s w c r tx] r(1) vc Cons.prems(1) by fastforce
    next
      case 2
      then show ?thesis using Cons.IH [OF _ r(2)] Cons.prems(1) r(3) by fastforce
    qed
  qed
qed simp

section \<open>The bounded memory of answered challenges\<close>

definition recent :: "string list \<Rightarrow> string list \<Rightarrow> bool" where
  "recent log responded \<longleftrightarrow> responded = drop (length log - MAX_RESPONDED) log"

definition spaced :: "string list \<Rightarrow> bool" where
  "spaced log \<longleftrightarrow> (\<forall>a b. a < b \<and> b < length log \<and> log ! a = log ! b \<longrightarrow> MAX_RESPONDED < b - a)"

lemma MAX_RESPONDED_pos: "Suc 0 - MAX_RESPONDED = 0"
  by (simp add: MAX_RESPONDED_def)

lemma remember_recent: "recent log r \<Longrightarrow> recent (log @ [x]) (remember x r)"
  by (cases "MAX_RESPONDED \<le> length log") (auto simp: recent_def remember_def Suc_diff_le MAX_RESPONDED_pos)

lemma spaced_snoc:
  assumes "spaced log" and "recent log r" and "x \<notin> set r"
  shows "spaced (log @ [x])"
  unfolding spaced_def
proof (intro allI impI, elim conjE)
  fix a b assume ab: "a < b" "b < length (log @ [x])" "(log @ [x]) ! a = (log @ [x]) ! b"
  show "MAX_RESPONDED < b - a"
  proof (cases "b < length log")
    case True
    then show ?thesis using ab assms(1) by (auto simp: spaced_def nth_append)
  next
    case False
    then have b: "b = length log" "log ! a = x" using ab by (auto simp: nth_append)
    have "a < length log - MAX_RESPONDED"
    proof (rule ccontr)
      assume "\<not> ?thesis"
      then have "x \<in> set (drop (length log - MAX_RESPONDED) log)"
        using ab b by (auto simp: in_set_conv_nth intro!: exI [of _ "a - (length log - MAX_RESPONDED)"])
      then show False using assms by (simp add: recent_def)
    qed
    then show ?thesis using b by simp
  qed
qed

lemma respond_all_memory:
  assumes "respond_all L S w cs = Some (w', sent, answered)" and "recent log (pw_responded w)" and "spaced log"
  shows "recent (log @ answered) (pw_responded w') \<and> spaced (log @ answered)"
  using assms
proof (induction cs arbitrary: w sent answered log)
  case (Cons vc cs)
  obtain env idx s c where vc: "vc = ((env, idx, s), c)" by (metis surj_pair)
  show ?case
  proof (cases "ch_challenge_id c \<in> set (pw_responded w)")
    case True
    then show ?thesis using Cons vc by simp
  next
    case False
    then obtain r t where r: "respond_to_challenge L S env w idx s c = Some (r, t)"
      using Cons.prems(1) vc by (auto split: option.splits)
    show ?thesis
    proof (cases r)
      case (Inl e)
      then show ?thesis using Cons.IH [OF _ Cons.prems(2,3)] Cons.prems(1) False r vc by auto
    next
      case (Inr u)
      let ?w = "w\<lparr>pw_responded := remember (ch_challenge_id c) (pw_responded w)\<rparr>"
      obtain sent1 answered1 where *: "respond_all L S ?w cs = Some (w', sent1, answered1)"
          "answered = ch_challenge_id c # answered1"
        using Cons.prems(1) False r vc Inr by (auto simp: Let_def)
      from Cons.IH [OF *(1), of "log @ [ch_challenge_id c]"] *(2) show ?thesis
        using remember_recent [OF Cons.prems(2)] spaced_snoc [OF Cons.prems(3,2) False] by simp
    qed
  qed
qed simp

lemma respond_all_total:
  assumes "\<forall>(v, c) \<in> set cs. por_view_ok L v"
  shows "\<exists>r. respond_all L S w cs = Some r"
  using assms
proof (induction cs arbitrary: w)
  case (Cons vc cs)
  obtain env idx s c where vc: "vc = ((env, idx, s), c)" by (metis surj_pair)
  have "index_consistent L idx" using Cons.prems vc by (simp add: por_view_ok_def)
  from build_answer_no_panic [OF this] have "\<exists>r. respond_to_challenge L S env w idx s c = Some r"
    by (simp add: respond_to_challenge_def split: sum.split option.split) (metis option.distinct(1))
  then show ?case using Cons vc by (auto simp: Let_def)
qed simp

definition poll_ok :: "digest_lib \<Rightarrow> string + (por_view \<times> challenge_info) list \<Rightarrow> bool" where
  "poll_ok L p \<longleftrightarrow> (case p of Inl e \<Rightarrow> True | Inr cs \<Rightarrow> \<forall>(v, c) \<in> set cs. por_view_ok L v)"

lemma respond_all_seed: "respond_all L S w cs = Some (w', sent, answered) \<Longrightarrow> pw_ed25519_seed w' = pw_ed25519_seed w"
proof (induction cs arbitrary: w sent answered)
  case (Cons vc cs)
  obtain env idx s c where vc: "vc = ((env, idx, s), c)" by (metis surj_pair)
  show ?case
    using Cons.prems Cons.IH unfolding vc by (fastforce simp: Let_def split: if_splits option.splits sum.splits)
qed simp

lemma after_poll_keeps [simp]:
  "pw_responded (fst (after_poll r w)) = pw_responded w" "pw_ed25519_seed (fst (after_poll r w)) = pw_ed25519_seed w"
  by (cases r; simp add: after_poll_def Let_def)+

lemma por_run_correct:
  assumes "lib_ok L" and "sign_ok S" and "\<forall>p \<in> set ps. poll_ok L p" and "recent log (pw_responded w)" and "spaced log"
  shows "\<exists>w' sent answered. por_run L S w ps = Some (w', sent, answered) \<and> recent (log @ answered) (pw_responded w')
      \<and> spaced (log @ answered)
      \<and> (\<forall>tx \<in> set sent. \<exists>cs vc. Inr cs \<in> set ps \<and> vc \<in> set cs \<and> proof_for L S (pw_ed25519_seed w) tx vc)"
  using assms(3-5)
proof (induction ps arbitrary: w log)
  case (Cons p ps)
  show ?case
  proof (cases p)
    case (Inl e)
    have "recent log (pw_responded (fst (after_poll (Inl e) w)))" using Cons.prems by simp
    from Cons.IH [OF _ this Cons.prems(3)] Cons.prems(1)
    obtain w' sent answered where *: "por_run L S (fst (after_poll (Inl e) w)) ps = Some (w', sent, answered)"
        "recent (log @ answered) (pw_responded w')" "spaced (log @ answered)"
        "\<forall>tx \<in> set sent. \<exists>cs vc. Inr cs \<in> set ps \<and> vc \<in> set cs \<and> proof_for L S (pw_ed25519_seed w) tx vc"
      by auto
    then have "por_run L S w (p # ps) = Some (w', sent, answered)" using Inl by (simp add: poll_and_respond_def)
    then show ?thesis using *(2-4) by (metis list.set_intros(2))
  next
    case (Inr cs)
    then have ok: "\<forall>(v, c) \<in> set cs. por_view_ok L v" using Cons.prems(1) by (simp add: poll_ok_def)
    obtain w1 sent1 ans1 where r: "respond_all L S w cs = Some (w1, sent1, ans1)"
      using respond_all_total [OF ok] by (metis surj_pair)
    note m = respond_all_memory [OF r Cons.prems(2,3)]
    from Cons.IH [of "log @ ans1" "fst (after_poll (Inr ()) w1)"] Cons.prems(1) m
    obtain w' sent2 ans2 where 2: "por_run L S (fst (after_poll (Inr ()) w1)) ps = Some (w', sent2, ans2)"
        "recent ((log @ ans1) @ ans2) (pw_responded w')" "spaced ((log @ ans1) @ ans2)"
        "\<forall>tx \<in> set sent2. \<exists>cs vc. Inr cs \<in> set ps \<and> vc \<in> set cs \<and> proof_for L S (pw_ed25519_seed w1) tx vc"
      by auto
    have "\<exists>vc. vc \<in> set cs \<and> proof_for L S (pw_ed25519_seed w) tx vc" if "tx \<in> set sent1" for tx
      using respond_all_sound [OF assms(1,2) ok r that] by blast
    then have "\<forall>tx \<in> set (sent1 @ sent2). \<exists>cs vc. Inr cs \<in> set (p # ps) \<and> vc \<in> set cs \<and> proof_for L S (pw_ed25519_seed w) tx vc"
      using 2(4) Inr unfolding respond_all_seed [OF r] set_append list.set by blast
    moreover have "por_run L S w (p # ps) = Some (w', sent1 @ sent2, ans1 @ ans2)"
      using 2(1) r Inr by (simp add: poll_and_respond_def)
    ultimately show ?thesis using 2(2,3) unfolding append_assoc by blast
  qed
qed simp

text \<open>
  C18. The responder over any sequence of polls, from a fresh start: it never panics; every proof it sends
  is this account's, for a challenge the chain listed, and passes the chain's Merkle check with a leaf
  whose bytes are in the store at that moment; it remembers at most 500 answered challenges, and two
  answers to the same challenge are more than 500 answers apart.
\<close>

theorem por_proofs_honest:
  assumes "lib_ok L" and "sign_ok S" and "\<forall>p \<in> set ps. poll_ok L p"
  shows "\<exists>w' sent answered. por_run L S (por_worker_new seed me poll) ps = Some (w', sent, answered)
      \<and> length (pw_responded w') \<le> 500
      \<and> (\<forall>a b. a < b \<and> b < length answered \<and> answered ! a = answered ! b \<longrightarrow> 500 < b - a)
      \<and> (\<forall>tx \<in> set sent. \<exists>cs env idx s c ch rt h path chain n. Inr cs \<in> set ps \<and> ((env, idx, s), c) \<in> set cs
           \<and> decode_id env ''challenge_id'' (ch_challenge_id c) = Inr ch
           \<and> decode_id env ''merkle_root'' (ch_merkle_root c) = Inr rt
           \<and> authentic S tx = Some (own_tx S seed chain n 1000000
               (StorageMetadata (SubmitStorageProof ch rt (ch_chunk_index c) h path)))
           \<and> verify_merkle_proof_bytes (blake3 L) h (ch_chunk_index c) path rt
           \<and> (\<exists>cid b. lookup s cid = Some b \<and> blake3 L b = h))"
proof -
  have "recent [] (pw_responded (por_worker_new seed me poll))" "spaced []"
    by (simp_all add: recent_def spaced_def por_worker_new_def)
  from por_run_correct [OF assms this]
  obtain w' sent answered where r: "por_run L S (por_worker_new seed me poll) ps = Some (w', sent, answered)"
      "recent answered (pw_responded w')" "spaced answered"
      "\<forall>tx \<in> set sent. \<exists>cs vc. Inr cs \<in> set ps \<and> vc \<in> set cs \<and> proof_for L S seed tx vc"
    by (auto simp: por_worker_new_def)
  have "\<exists>cs env idx s c ch rt h path chain n. Inr cs \<in> set ps \<and> ((env, idx, s), c) \<in> set cs
           \<and> decode_id env ''challenge_id'' (ch_challenge_id c) = Inr ch
           \<and> decode_id env ''merkle_root'' (ch_merkle_root c) = Inr rt
           \<and> authentic S tx = Some (own_tx S seed chain n 1000000
               (StorageMetadata (SubmitStorageProof ch rt (ch_chunk_index c) h path)))
           \<and> verify_merkle_proof_bytes (blake3 L) h (ch_chunk_index c) path rt
           \<and> (\<exists>cid b. lookup s cid = Some b \<and> blake3 L b = h)" if tx: "tx \<in> set sent" for tx
  proof -
    obtain cs env idx s c where "Inr cs \<in> set ps" "((env, idx, s), c) \<in> set cs" "proof_for L S seed tx ((env, idx, s), c)"
      using r(4) tx by (metis surj_pair)
    then show ?thesis unfolding proof_for_def honest_answer_def prod.case by blast
  qed
  then show ?thesis using r(1-3) by (auto simp: recent_def spaced_def MAX_RESPONDED_def)
qed

section \<open>Held chunks are proven\<close>






text \<open>
  A manifest push is not checked against the chunk count the chain registered (a re-fetched manifest
  is), and the root does not fix the count: when the last two chunks of a file are equal and their
  number is even, the manifest without the last one has the same root. Once that manifest is indexed,
  a challenge on the last chunk, for which a proof of the registered tree exists, goes unanswered,
  whatever the store and the push records hold.
\<close>

theorem short_manifest_silences_challenge:
  assumes "consistent_manifest L m" and "odd (length (chunks m))" and "1 < length (chunks m)"
    and "Suc (length (chunks m)) < 2 ^ 32" and "get_by_merkle_root idx (merkle_root m) = Some m"
  shows "(\<exists>path. verify_merkle_proof_bytes_for_tree (blake3 L) (cd_hash (last (chunks m))) (u32_of (length (chunks m))) path
            (merkle_root m) (u32_of (Suc (length (chunks m)))))
     \<and> (\<exists>e. build_answer L env idx s (merkle_root m) (u32_of (length (chunks m))) = Some (Inl e))"
proof
  let ?leaves = "map cd_hash (chunks m)" and ?n = "length (chunks m)"
  have n: "unat (u32_of ?n) = ?n" using assms(4) by (simp add: unat_u32_of)
  have "chunks m \<noteq> []" using assms(3) by auto
  have three: "3 \<le> ?n" using assms(2,3) by (cases "?n = 2") auto
  have "root (build (blake3 L) (?leaves @ [last ?leaves])) = merkle_root m"
    using merkle_root_duplicate_last [of ?leaves "blake3 L"] three assms(1,2) by (simp add: consistent_manifest_def)
  then show "\<exists>path. verify_merkle_proof_bytes_for_tree (blake3 L) (cd_hash (last (chunks m))) (u32_of ?n) path
            (merkle_root m) (u32_of (Suc ?n))"
    using generated_proof_verifies [of "?leaves @ [last ?leaves]" "u32_of ?n" "blake3 L"] assms(4) n \<open>chunks m \<noteq> []\<close>
    by (auto simp: nth_append last_map)
  show "\<exists>e. build_answer L env idx s (merkle_root m) (u32_of ?n) = Some (Inl e)"
    using assms(5) n by (auto simp: build_answer_def chunk_cid_def get_by_merkle_root_def)
qed

section \<open>Instances\<close>

definition demo_por_env :: por_env where
  "demo_por_env = \<lparr>po_hex_decode = (\<lambda>s. case parse_hex_pairs s of None \<Rightarrow> Inl [] | Some b \<Rightarrow> Inr b), po_get = io_fine,
     po_nonce = (\<lambda>_. Inr 3), po_chain_id = Inr 1, po_send = (\<lambda>_. Inr ''h'')\<rparr>"

definition demo_challenge :: challenge_info where
  "demo_challenge = \<lparr>ch_challenge_id = ''0x'' @ hex_encode (replicate 32 4), ch_merkle_root = ''0x'' @ hex_encode demo_chunk_root,
     ch_chunk_index = 0, ch_target_node = ''a'', ch_created_at_height = 1, ch_expires_at_height = 51\<rparr>"




theorem por_proofs_honest_witness:
  "\<exists>w' sent answered. por_run demo_lib demo_sign (por_worker_new (replicate 32 1) ''a'' 30)
       [Inl ''down'', Inr [((demo_por_env, empty_index False, empty_chunk_store), demo_challenge)]] = Some (w', sent, answered)
     \<and> length (pw_responded w') \<le> 500"
proof -
  have "\<forall>p \<in> set [Inl ''down'', Inr [((demo_por_env, empty_index False, empty_chunk_store), demo_challenge)]]. poll_ok demo_lib p"
    by (simp add: poll_ok_def por_view_ok_def store_inv_empty index_consistent_def index_typed_def proofs_ok_def recorded_def
        get_by_merkle_root_def empty_index_def)
  from por_proofs_honest [OF demo_lib_ok demo_sign_ok this] show ?thesis by blast
qed

end
