(* ===== verification/Refetch.thy ===== *)
theory Refetch
  imports Attestor
begin

text \<open>
  Re-fetch of newly assigned Public chunks (\<open>sum-node/src/refetch_v2.rs\<close>): the plan, the manifest,
  the pulls from other archives, and a bounded pass over the chain's listing. The sink is the inbound
  dispatcher. Every call out, to the chain, to another archive or into the dispatcher, has its own
  moment \<open>rs_clock\<close>, so the answers and the disk faults may differ from call to call. The state also
  keeps the pulls made, what was handed to the dispatcher and the attestations spawned; \<open>None\<close> is a
  panic.
\<close>

section \<open>The plan\<close>

definition MAX_EPOCHS_CONSULTED :: nat where "MAX_EPOCHS_CONSULTED = 4"

record chunk_plan =
  cp_chunk_index :: u32
  cp_sources :: "addr20 list"

fun add_sources :: "addr20 \<Rightarrow> addr20 list \<Rightarrow> addr20 list \<Rightarrow> addr20 list" where
  "add_sources me sources [] = sources"
| "add_sources me sources (a # as) =
     add_sources me (if a \<noteq> me \<and> a \<notin> set sources then sources @ [a] else sources) as"

fun chunk_sources ::
    "wire_lib \<Rightarrow> hash \<Rightarrow> u32 \<Rightarrow> u32 \<Rightarrow> addr20 \<Rightarrow> addr20 list \<Rightarrow> (u64 \<times> addr20 list) list \<Rightarrow> addr20 list" where
  "chunk_sources W rt i rf me sources [] = sources"
| "chunk_sources W rt i rf me sources ((_, snapshot) # epochs) =
     chunk_sources W rt i rf me (add_sources me sources (assigned_archives W rt snapshot i rf)) epochs"

definition plan_refetch ::
    "wire_lib \<Rightarrow> hash \<Rightarrow> u32 \<Rightarrow> (u64 \<times> addr20 list) list \<Rightarrow> u32 \<Rightarrow> addr20 \<Rightarrow> u32 set \<Rightarrow> chunk_plan list" where
  "plan_refetch W rt n epochs rf me held =
     (case rev epochs of
        (_, latest) # (_, previous) # _ \<Rightarrow>
          if me \<notin> set latest then []
          else
            (let now = chunks_for_archive_v2 W rt n latest rf me;
                 before = chunks_for_archive_v2 W rt n previous rf me in
             map (\<lambda>i. \<lparr>cp_chunk_index = i, cp_sources = chunk_sources W rt i rf me [] (rev epochs)\<rparr>)
               (filter (\<lambda>i. i \<notin> held) (filter (\<lambda>i. i \<notin> set before) now)))
      | _ \<Rightarrow> [])"

section \<open>State and environment\<close>

record refetch_limits =
  rl_files_per_run :: nat
  rl_chunks_per_run :: nat
  rl_sources_per_chunk :: nat
  rl_page :: u32

definition default_limits :: refetch_limits where
  "default_limits = \<lparr>rl_files_per_run = 256, rl_chunks_per_run = 1024, rl_sources_per_chunk = 3, rl_page = 256\<rparr>"

record refetch_report =
  rr_files_checked :: nat
  rr_private_skipped :: nat
  rr_errors :: nat
  rr_planned :: nat
  rr_fetched :: "(hash \<times> u32) list"
  rr_failed :: "(hash \<times> u32) list"
  rr_corrupt_refused :: nat
  rr_validator_refused :: nat
  rr_manifest_refused :: nat

definition report_default :: refetch_report where
  "report_default = \<lparr>rr_files_checked = 0, rr_private_skipped = 0, rr_errors = 0, rr_planned = 0, rr_fetched = [],
     rr_failed = [], rr_corrupt_refused = 0, rr_validator_refused = 0, rr_manifest_refused = 0\<rparr>"

record refetcher =
  rf_me :: addr20
  rf_replication_factor :: u32
  rf_limits :: refetch_limits

record pushable_file_info_v2 =
  pf_merkle_root :: string
  pf_chunk_count :: u32
  pf_lifecycle :: byte
  pf_created_at :: u64

text \<open>The outside at each moment: the chain, the archives that serve pulls, the disk and the clock.\<close>

record refetch_env =
  re_pushable :: "nat \<Rightarrow> u32 \<Rightarrow> u32 \<Rightarrow> string + pushable_file_info_v2 list"
  re_chain :: "nat \<Rightarrow> trigger_rpc"
  re_pull_manifest :: "nat \<Rightarrow> addr20 \<Rightarrow> hash \<Rightarrow> string + bytes"
  re_pull_chunk :: "nat \<Rightarrow> addr20 \<Rightarrow> string \<Rightarrow> u64 \<Rightarrow> string + bytes"
  re_inbound :: "nat \<Rightarrow> inbound_env"
  re_hex_decode :: "string \<Rightarrow> string + bytes"

datatype refetch_pull = ManifestPullFrom addr20 hash | ChunkPullFrom addr20 string

record refetch_state =
  rs_sink :: v2_dispatcher
  rs_report :: refetch_report
  rs_private_noted :: "hash set"
  rs_clock :: nat
  rs_pulls :: "refetch_pull list"
  rs_handed :: "inbound_event list"
  rs_attests :: "attestation list"

definition refetch_start :: "v2_dispatcher \<Rightarrow> hash set \<Rightarrow> refetch_state" where
  "refetch_start vd noted = \<lparr>rs_sink = vd, rs_report = report_default, rs_private_noted = noted, rs_clock = 0,
     rs_pulls = [], rs_handed = [], rs_attests = []\<rparr>"

text \<open>The elementary updates.\<close>

definition reported :: "(refetch_report \<Rightarrow> refetch_report) \<Rightarrow> refetch_state \<Rightarrow> refetch_state" where
  "reported f st = st\<lparr>rs_report := f (rs_report st)\<rparr>"

definition asked :: "refetch_state \<Rightarrow> refetch_state" where
  "asked st = st\<lparr>rs_clock := Suc (rs_clock st)\<rparr>"

definition pulled :: "refetch_pull \<Rightarrow> refetch_state \<Rightarrow> refetch_state" where
  "pulled p st = st\<lparr>rs_clock := Suc (rs_clock st), rs_pulls := rs_pulls st @ [p]\<rparr>"

definition handed :: "inbound_event \<Rightarrow> v2_dispatcher \<Rightarrow> refetch_state \<Rightarrow> refetch_state" where
  "handed ev vd st = st\<lparr>rs_clock := Suc (rs_clock st), rs_sink := vd, rs_handed := rs_handed st @ [ev]\<rparr>"

definition add_error :: "refetch_report \<Rightarrow> refetch_report" where
  "add_error r = r\<lparr>rr_errors := Suc (rr_errors r)\<rparr>"

definition add_failed :: "hash \<Rightarrow> u32 \<Rightarrow> refetch_report \<Rightarrow> refetch_report" where
  "add_failed rt i r = r\<lparr>rr_failed := rr_failed r @ [(rt, i)]\<rparr>"

definition add_fetched :: "hash \<Rightarrow> u32 \<Rightarrow> refetch_report \<Rightarrow> refetch_report" where
  "add_fetched rt i r = r\<lparr>rr_fetched := rr_fetched r @ [(rt, i)]\<rparr>"

section \<open>One file\<close>

fun pull_manifests ::
    "digest_lib \<Rightarrow> cbor_lib \<Rightarrow> refetch_env \<Rightarrow> nat \<Rightarrow> hash \<Rightarrow> u32 \<Rightarrow> addr20 list \<Rightarrow> addr20 list \<Rightarrow> refetch_state
       \<Rightarrow> data_manifest option \<times> refetch_state" where
  "pull_manifests L B E k rt n tried [] st = (None, st)"
| "pull_manifests L B E k rt n tried (from # rest) st =
     (if from \<in> set tried then pull_manifests L B E k rt n tried rest st
      else if length tried \<ge> k then (None, st)
      else
        (let st1 = pulled (ManifestPullFrom from rt) st in
         case re_pull_manifest E (rs_clock st) from rt of
           Inl e \<Rightarrow> pull_manifests L B E k rt n (tried @ [from]) rest st1
         | Inr bs \<Rightarrow>
            (let env = re_inbound E (rs_clock st1) in
             case accept_refetched_manifest L B env (rs_sink st1) rt n bs of
               (Inr m, vd) \<Rightarrow> (Some m, handed (RefetchManifest env rt n bs) vd st1)
             | (Inl e, vd) \<Rightarrow>
                 pull_manifests L B E k rt n (tried @ [from]) rest
                   (reported (\<lambda>r. r\<lparr>rr_manifest_refused := Suc (rr_manifest_refused r)\<rparr>)
                     (handed (RefetchManifest env rt n bs) vd st1)))))"

definition manifest_for ::
    "digest_lib \<Rightarrow> cbor_lib \<Rightarrow> refetch_env \<Rightarrow> refetcher \<Rightarrow> hash \<Rightarrow> u32 \<Rightarrow> chunk_plan list \<Rightarrow> refetch_state
       \<Rightarrow> data_manifest option \<times> refetch_state" where
  "manifest_for L B E R rt n plan st =
     (case get_by_merkle_root (vd_index (rs_sink st)) rt of
        Some m \<Rightarrow> (Some m, st)
      | None \<Rightarrow>
          pull_manifests L B E (rl_sources_per_chunk (rf_limits R)) rt n [] (concat (map cp_sources plan)) st)"

fun try_sources ::
    "digest_lib \<Rightarrow> wire_lib \<Rightarrow> refetch_env \<Rightarrow> hash \<Rightarrow> u32 \<Rightarrow> chunk_descriptor \<Rightarrow> merkle_tree \<Rightarrow> addr20 list
       \<Rightarrow> refetch_state \<Rightarrow> (bool \<times> refetch_state) option" where
  "try_sources L W E rt i desc tree [] st = Some (False, st)"
| "try_sources L W E rt i desc tree (from # rest) st =
     (let st1 = pulled (ChunkPullFrom from (cd_cid desc)) st in
      case re_pull_chunk E (rs_clock st) from (cd_cid desc) (cd_size desc) of
        Inl e \<Rightarrow> try_sources L W E rt i desc tree rest st1
      | Inr data \<Rightarrow>
          if blake3 L data \<noteq> cd_hash desc then
            try_sources L W E rt i desc tree rest
              (reported (\<lambda>r. r\<lparr>rr_corrupt_refused := Suc (rr_corrupt_refused r)\<rparr>) st1)
          else
            (case generate_proof tree i of
               None \<Rightarrow> None
             | Some path \<Rightarrow>
                (let env = re_inbound E (rs_clock st1) in
                 case accept_refetched_chunk L W env (rs_sink st1) data rt i path of
                   (None, vd) \<Rightarrow> Some (True, handed (RefetchChunk env data rt i path) vd st1)
                 | (Some reason, vd) \<Rightarrow>
                     Some (False, reported (\<lambda>r. r\<lparr>rr_validator_refused := Suc (rr_validator_refused r)\<rparr>)
                                    (handed (RefetchChunk env data rt i path) vd st1)))))"

definition attempted :: "refetch_report \<Rightarrow> nat" where
  "attempted r = length (rr_fetched r) + length (rr_failed r)"

fun fetch_planned ::
    "digest_lib \<Rightarrow> wire_lib \<Rightarrow> refetch_env \<Rightarrow> refetch_limits \<Rightarrow> hash \<Rightarrow> data_manifest \<Rightarrow> merkle_tree \<Rightarrow> chunk_plan list
       \<Rightarrow> refetch_state \<Rightarrow> refetch_state option" where
  "fetch_planned L W E lim rt m tree [] st = Some st"
| "fetch_planned L W E lim rt m tree (cp # plan) st =
     (let i = cp_chunk_index cp in
      if attempted (rs_report st) \<ge> rl_chunks_per_run lim then Some st
      else if unat i \<ge> length (chunks m) then
        fetch_planned L W E lim rt m tree plan (reported (add_failed rt i) st)
      else
        (case try_sources L W E rt i (chunks m ! unat i) tree (take (rl_sources_per_chunk lim) (cp_sources cp)) st of
           None \<Rightarrow> None
         | Some (accepted, st1) \<Rightarrow>
             fetch_planned L W E lim rt m tree plan
               (reported (if accepted then add_fetched rt i else add_failed rt i) st1)))"

fun fetch_epochs ::
    "digest_lib \<Rightarrow> refetch_env \<Rightarrow> u64 list \<Rightarrow> refetch_state \<Rightarrow> (string + (u64 \<times> addr20 list) list) \<times> refetch_state" where
  "fetch_epochs L E [] st = (Inr [], st)"
| "fetch_epochs L E (h # hs) st =
     (case trigger_snapshot L (re_chain E (rs_clock st)) h of
        Inl e \<Rightarrow> (Inl e, asked st)
      | Inr s \<Rightarrow>
         (case fetch_epochs L E hs (asked st) of
            (Inl e, st1) \<Rightarrow> (Inl e, st1)
          | (Inr eps, st1) \<Rightarrow> (Inr ((h, s) # eps), st1)))"

definition consistent_epochs :: "assignment_coverage_v2 \<Rightarrow> file_shape \<Rightarrow> bool" where
  "consistent_epochs coverage shape \<longleftrightarrow>
     (let heights = ac_assignment_epochs coverage in
      sorted_wrt (<) heights \<and> heights \<noteq> [] \<and> hd heights = fs_assignment_height shape
      \<and> last heights = ac_latest_assignment_epoch coverage)"

definition execute_plan ::
    "digest_lib \<Rightarrow> wire_lib \<Rightarrow> cbor_lib \<Rightarrow> refetch_env \<Rightarrow> refetcher \<Rightarrow> hash \<Rightarrow> u32 \<Rightarrow> chunk_plan list \<Rightarrow> refetch_state
       \<Rightarrow> refetch_state option" where
  "execute_plan L W B E R rt n plan st =
     (if plan = [] then Some st
      else
        (let st0 = reported (\<lambda>r. r\<lparr>rr_planned := rr_planned r + length plan\<rparr>) st in
         case manifest_for L B E R rt n plan st0 of
           (None, st1) \<Rightarrow>
             Some (reported (\<lambda>r. r\<lparr>rr_failed := rr_failed r @ map (\<lambda>cp. (rt, cp_chunk_index cp)) plan\<rparr>) st1)
         | (Some m, st1) \<Rightarrow>
             map_option (\<lambda>st2.
                 if length (rr_fetched (rs_report st1)) < length (rr_fetched (rs_report st2))
                 then st2\<lparr>rs_attests := rs_attests st2 @ [spawn_attestation (rs_sink st2) rt]\<rparr> else st2)
               (fetch_planned L W E (rf_limits R) rt m (build (blake3 L) (map cd_hash (chunks m))) plan st1)))"

definition refetch_file ::
    "digest_lib \<Rightarrow> wire_lib \<Rightarrow> cbor_lib \<Rightarrow> refetch_env \<Rightarrow> refetcher \<Rightarrow> hash \<Rightarrow> refetch_state \<Rightarrow> refetch_state option" where
  "refetch_file L W B E R rt st =
     (let st1 = asked st in
      case fetch_file_shape (re_chain E (rs_clock st)) rt of
        Inl e \<Rightarrow> Some (reported add_error st1)
      | Inr shape \<Rightarrow>
          if is_abandoned (fs_lifecycle shape) then Some st1
          else if is_private (fs_visibility shape) then
            Some ((reported (\<lambda>r. r\<lparr>rr_private_skipped := Suc (rr_private_skipped r)\<rparr>) st1)
                    \<lparr>rs_private_noted := insert rt (rs_private_noted st1)\<rparr>)
          else
            (let st2 = asked st1 in
             case fetch_coverage (re_chain E (rs_clock st1)) rt of
               Inl e \<Rightarrow> Some (reported add_error st2)
             | Inr None \<Rightarrow> Some st2
             | Inr (Some coverage) \<Rightarrow>
                (let heights = ac_assignment_epochs coverage in
                 if length heights < 2 then Some st2
                 else if \<not> consistent_epochs coverage shape then Some (reported add_error st2)
                 else
                   (case fetch_epochs L E (drop (length heights - MAX_EPOCHS_CONSULTED) heights) st2 of
                      (Inl e, st3) \<Rightarrow> Some (reported add_error st3)
                    | (Inr epochs, st3) \<Rightarrow>
                        execute_plan L W B E R rt (fs_chunk_count shape)
                          (plan_refetch W rt (fs_chunk_count shape) epochs (rf_replication_factor R) (rf_me R)
                             (held_for (rs_sink st3) rt)) st3))))"

section \<open>A pass over the listing\<close>

definition parse_root :: "refetch_env \<Rightarrow> string \<Rightarrow> hash option" where
  "parse_root E s =
     (case re_hex_decode E (case strip_prefix ''0x'' s of Some t \<Rightarrow> t | None \<Rightarrow> s) of
        Inl e \<Rightarrow> None
      | Inr b \<Rightarrow> if length b = 32 then Some b else None)"

text \<open>The rows of one page; the flag is \<open>break 'pages\<close>.\<close>

fun page_rows ::
    "digest_lib \<Rightarrow> wire_lib \<Rightarrow> cbor_lib \<Rightarrow> refetch_env \<Rightarrow> refetcher \<Rightarrow> pushable_file_info_v2 list \<Rightarrow> refetch_state
       \<Rightarrow> (bool \<times> refetch_state) option" where
  "page_rows L W B E R [] st = Some (False, st)"
| "page_rows L W B E R (row # rows) st =
     (if rr_files_checked (rs_report st) \<ge> rl_files_per_run (rf_limits R)
         \<or> attempted (rs_report st) \<ge> rl_chunks_per_run (rf_limits R) then Some (True, st)
      else
        (let st1 = reported (\<lambda>r. r\<lparr>rr_files_checked := Suc (rr_files_checked r)\<rparr>) st in
         case parse_root E (pf_merkle_root row) of
           None \<Rightarrow> page_rows L W B E R rows (reported add_error st1)
         | Some rt \<Rightarrow>
            (case refetch_file L W B E R rt st1 of
               None \<Rightarrow> None
             | Some st2 \<Rightarrow> page_rows L W B E R rows st2)))"

lemma reported_simps [simp]:
  "rs_report (reported f st) = f (rs_report st)" "rs_sink (reported f st) = rs_sink st"
  "rs_clock (reported f st) = rs_clock st" "rs_pulls (reported f st) = rs_pulls st"
  "rs_handed (reported f st) = rs_handed st" "rs_attests (reported f st) = rs_attests st"
  by (simp_all add: reported_def)

lemma asked_simps [simp]:
  "rs_report (asked st) = rs_report st" "rs_sink (asked st) = rs_sink st" "rs_clock (asked st) = Suc (rs_clock st)"
  "rs_pulls (asked st) = rs_pulls st" "rs_handed (asked st) = rs_handed st" "rs_attests (asked st) = rs_attests st"
  by (simp_all add: asked_def)

lemma pulled_simps [simp]:
  "rs_report (pulled p st) = rs_report st" "rs_sink (pulled p st) = rs_sink st"
  "rs_clock (pulled p st) = Suc (rs_clock st)" "rs_pulls (pulled p st) = rs_pulls st @ [p]"
  "rs_handed (pulled p st) = rs_handed st" "rs_attests (pulled p st) = rs_attests st"
  by (simp_all add: pulled_def)

lemma handed_simps [simp]:
  "rs_report (handed ev vd st) = rs_report st" "rs_sink (handed ev vd st) = vd"
  "rs_clock (handed ev vd st) = Suc (rs_clock st)" "rs_pulls (handed ev vd st) = rs_pulls st"
  "rs_handed (handed ev vd st) = rs_handed st @ [ev]" "rs_attests (handed ev vd st) = rs_attests st"
  by (simp_all add: handed_def)

text \<open>The work on a file leaves the count of files alone; a page that does not stop counts its rows.\<close>

abbreviation files_checked :: "refetch_state \<Rightarrow> nat" where
  "files_checked st \<equiv> rr_files_checked (rs_report st)"

lemma pull_manifests_files: "files_checked (snd (pull_manifests L B E k rt n tried fs st)) = files_checked st"
  by (induction L B E k rt n tried fs st rule: pull_manifests.induct) (auto simp: Let_def split: sum.splits prod.splits)

lemma try_sources_files: "try_sources L W E rt i desc tree fs st = Some (a, st') \<Longrightarrow> files_checked st' = files_checked st"
  by (induction L W E rt i desc tree fs st rule: try_sources.induct)
    (auto simp: Let_def split: sum.splits prod.splits option.splits if_splits)

lemma fetch_planned_files: "fetch_planned L W E lim rt m tree plan st = Some st' \<Longrightarrow> files_checked st' = files_checked st"
proof (induction plan arbitrary: st)
  case (Cons cp plan)
  then show ?case
    by (auto simp: Let_def add_failed_def add_fetched_def split: option.splits if_splits prod.splits dest!: try_sources_files)
qed simp

lemma fetch_epochs_frame:
  "fetch_epochs L E hs st = (r, st') \<Longrightarrow> rs_report st' = rs_report st \<and> rs_sink st' = rs_sink st \<and> rs_pulls st' = rs_pulls st
     \<and> rs_handed st' = rs_handed st \<and> rs_attests st' = rs_attests st"
proof (induction hs arbitrary: st r)
  case (Cons h hs)
  then show ?case by (fastforce split: sum.splits prod.splits)
qed simp

lemma execute_plan_files: "execute_plan L W B E R rt n plan st = Some st' \<Longrightarrow> files_checked st' = files_checked st"
  using pull_manifests_files [of L B E "rl_sources_per_chunk (rf_limits R)" rt n "[]" "concat (map cp_sources plan)"]
  by (auto simp: execute_plan_def manifest_for_def Let_def split: if_splits prod.splits option.splits
      dest!: fetch_planned_files arg_cong [where f = snd])

lemma refetch_file_files:
  assumes "refetch_file L W B E R rt st = Some st'"
  shows "files_checked st' = files_checked st"
proof -
  have "files_checked st' = files_checked st3"
    if "execute_plan L W B E R rt n plan st3 = Some st'" for n plan st3
    using execute_plan_files [OF that] .
  then show ?thesis using assms
    by (auto simp: refetch_file_def Let_def add_error_def split: sum.splits if_splits option.splits prod.splits
        dest!: fetch_epochs_frame)
qed

lemma page_rows_files:
  "page_rows L W B E R rows st = Some (False, st') \<Longrightarrow>
     files_checked st' = files_checked st + length rows
     \<and> (rows \<noteq> [] \<longrightarrow> files_checked st < rl_files_per_run (rf_limits R))"
proof (induction rows arbitrary: st)
  case (Cons row rows)
  then show ?case
    by (auto simp: Let_def add_error_def split: option.splits if_splits dest!: refetch_file_files)
qed simp

lemma page_progress:
  assumes "page_rows L W B E R rows (asked st) = Some (False, st1)" and "\<not> length rows < unat (max page (1 :: u32))"
  shows "rl_files_per_run (rf_limits R) - files_checked st1 < rl_files_per_run (rf_limits R) - files_checked st"
proof -
  have "unat (1 :: u32) \<le> unat (max page 1)" by (metis max.cobounded2 word_le_nat_alt)
  then have "rows \<noteq> []" using assms(2) by auto
  then show ?thesis using page_rows_files [OF assms(1)] by (cases rows) auto
qed

text \<open>
  The page loop. A page of at least \<open>page\<close> rows that does not stop the run counts them all, below the
  limit on files, so the loop ends.
\<close>

function run_pages ::
    "digest_lib \<Rightarrow> wire_lib \<Rightarrow> cbor_lib \<Rightarrow> refetch_env \<Rightarrow> refetcher \<Rightarrow> u32 \<Rightarrow> refetch_state \<Rightarrow> refetch_state option" where
  "run_pages L W B E R offset st =
     (let page = max (rl_page (rf_limits R)) 1 in
      case re_pushable E (rs_clock st) offset page of
        Inl e \<Rightarrow> Some (reported add_error (asked st))
      | Inr rows \<Rightarrow>
         (case page_rows L W B E R rows (asked st) of
            None \<Rightarrow> None
          | Some (True, st1) \<Rightarrow> Some st1
          | Some (False, st1) \<Rightarrow>
              if length rows < unat page then Some st1
              else run_pages L W B E R (saturating_add offset (u32_of (length rows))) st1))"
  by pat_completeness auto
termination
  by (relation "measure (\<lambda>(L, W, B, E, R, offset, st). rl_files_per_run (rf_limits R) - files_checked st)")
    (auto intro: page_progress)

declare run_pages.simps [simp del]

definition run_once ::
    "digest_lib \<Rightarrow> wire_lib \<Rightarrow> cbor_lib \<Rightarrow> refetch_env \<Rightarrow> refetcher \<Rightarrow> v2_dispatcher \<Rightarrow> hash set \<Rightarrow> refetch_state option" where
  "run_once L W B E R vd noted = run_pages L W B E R 0 (refetch_start vd noted)"

section \<open>Re-fetch as a sequence of elementary steps\<close>

text \<open>
  What a re-fetch may do: ask the chain, pull, count, hand a pulled manifest or chunk to the
  dispatcher, report a chunk as fetched when the dispatcher holds it, and spawn an attestation of what
  is held. Every run is a sequence of such steps, so what all of them keep every run keeps.
\<close>

inductive refetch_step ::
    "digest_lib \<Rightarrow> wire_lib \<Rightarrow> cbor_lib \<Rightarrow> refetch_env \<Rightarrow> refetch_state \<Rightarrow> refetch_state \<Rightarrow> bool"
  for L W B E where
  asked: "refetch_step L W B E st (asked st)"
| pulled: "refetch_step L W B E st (pulled p st)"
| reported: "rr_fetched (f (rs_report st)) = rr_fetched (rs_report st) \<Longrightarrow> refetch_step L W B E st (reported f st)"
| noted: "refetch_step L W B E st (st\<lparr>rs_private_noted := noted\<rparr>)"
| manifest: "accept_refetched_manifest L B (re_inbound E (rs_clock st)) (rs_sink st) rt n bs = (r, vd) \<Longrightarrow>
    refetch_step L W B E st (handed (RefetchManifest (re_inbound E (rs_clock st)) rt n bs) vd st)"
| chunk: "accept_refetched_chunk L W (re_inbound E (rs_clock st)) (rs_sink st) data rt i path = (e, vd) \<Longrightarrow>
    refetch_step L W B E st (handed (RefetchChunk (re_inbound E (rs_clock st)) data rt i path) vd st)"
| fetched: "i \<in> held_for (rs_sink st) rt \<Longrightarrow> refetch_step L W B E st (reported (add_fetched rt i) st)"
| attest: "refetch_step L W B E st (st\<lparr>rs_attests := rs_attests st @ [spawn_attestation (rs_sink st) rt]\<rparr>)"

abbreviation refetch_steps where
  "refetch_steps L W B E \<equiv> (refetch_step L W B E)\<^sup>*\<^sup>*"

lemma step_then: "refetch_step L W B E a b \<Longrightarrow> refetch_steps L W B E b c \<Longrightarrow> refetch_steps L W B E a c"
  by (rule converse_rtranclp_into_rtranclp)

lemma then_step: "refetch_steps L W B E a b \<Longrightarrow> refetch_step L W B E b c \<Longrightarrow> refetch_steps L W B E a c"
  by (rule rtranclp.rtrancl_into_rtrancl)

lemma two_steps: "refetch_step L W B E a b \<Longrightarrow> refetch_step L W B E b c \<Longrightarrow> refetch_steps L W B E a c"
  by (auto intro: step_then)

lemma count_steps:
  "refetch_step L W B E st (reported (\<lambda>r. r\<lparr>rr_manifest_refused := Suc (rr_manifest_refused r)\<rparr>) st)"
  "refetch_step L W B E st (reported (\<lambda>r. r\<lparr>rr_corrupt_refused := Suc (rr_corrupt_refused r)\<rparr>) st)"
  "refetch_step L W B E st (reported (\<lambda>r. r\<lparr>rr_validator_refused := Suc (rr_validator_refused r)\<rparr>) st)"
  "refetch_step L W B E st (reported (\<lambda>r. r\<lparr>rr_private_skipped := Suc (rr_private_skipped r)\<rparr>) st)"
  "refetch_step L W B E st (reported (\<lambda>r. r\<lparr>rr_files_checked := Suc (rr_files_checked r)\<rparr>) st)"
  "refetch_step L W B E st (reported (\<lambda>r. r\<lparr>rr_planned := rr_planned r + k\<rparr>) st)"
  "refetch_step L W B E st (reported (\<lambda>r. r\<lparr>rr_failed := rr_failed r @ fs\<rparr>) st)"
  "refetch_step L W B E st (reported (add_failed rt i) st)" "refetch_step L W B E st (reported add_error st)"
  by (rule refetch_step.reported; simp add: add_failed_def add_error_def)+

lemma pull_manifests_steps:
  "pull_manifests L B E k rt n tried fs st = (r, st') \<Longrightarrow> refetch_steps L W B E st st'"
proof (induction fs arbitrary: tried st)
  case (Cons src fs)
  let ?st1 = "pulled (ManifestPullFrom src rt) st"
  consider (skip) "src \<in> set tried" | (stop) "src \<notin> set tried" "k \<le> length tried"
    | (err) e where "src \<notin> set tried" "length tried < k" "re_pull_manifest E (rs_clock st) src rt = Inl e"
    | (got) bs where "src \<notin> set tried" "length tried < k" "re_pull_manifest E (rs_clock st) src rt = Inr bs"
    by (cases "re_pull_manifest E (rs_clock st) src rt") (meson not_le)+
  then show ?case
  proof cases
    case skip
    then show ?thesis using Cons by simp
  next
    case stop
    then show ?thesis using Cons by simp
  next
    case err
    then have "refetch_steps L W B E ?st1 st'" using Cons.prems by (intro Cons.IH) (simp add: Let_def)
    then show ?thesis by (rule step_then [OF refetch_step.pulled])
  next
    case got
    let ?env = "re_inbound E (rs_clock ?st1)"
    obtain q vd where q: "accept_refetched_manifest L B ?env (rs_sink ?st1) rt n bs = (q, vd)" by fastforce
    let ?st2 = "handed (RefetchManifest ?env rt n bs) vd ?st1"
    have s: "refetch_steps L W B E st ?st2"
      by (rule two_steps [OF refetch_step.pulled refetch_step.manifest [OF q]])
    show ?thesis
    proof (cases q)
      case (Inl e)
      then have "refetch_steps L W B E (reported (\<lambda>r. r\<lparr>rr_manifest_refused := Suc (rr_manifest_refused r)\<rparr>) ?st2) st'"
        using Cons got q by simp
      then show ?thesis using step_then [OF count_steps(1)] s by (meson rtranclp_trans)
    next
      case (Inr m)
      then show ?thesis using Cons.prems got q s by simp
    qed
  qed
qed simp

lemma accepted_is_held:
  assumes "accept_refetched_chunk L W env vd data rt i path = (None, vd')" and "exclusive (ie_put env)"
  shows "i \<in> held_for vd' rt"
  using accept_validated_step [OF assms(1) [unfolded accept_refetched_chunk_def] assms(2)] by (auto simp: held_for_def)

lemma try_sources_steps:
  assumes "\<And>t. exclusive (ie_put (re_inbound E t))"
  shows "try_sources L W E rt i desc tree fs st = Some (a, st') \<Longrightarrow>
    refetch_steps L W B E st st' \<and> (a \<longrightarrow> i \<in> held_for (rs_sink st') rt)"
proof (induction fs arbitrary: st)
  case (Cons src fs)
  let ?st1 = "pulled (ChunkPullFrom src (cd_cid desc)) st"
  have s1: "refetch_step L W B E st ?st1" by (rule refetch_step.pulled)
  show ?case
  proof (cases "re_pull_chunk E (rs_clock st) src (cd_cid desc) (cd_size desc)")
    case (Inl e)
    then show ?thesis using Cons step_then [OF s1] by auto
  next
    case (Inr data)
    show ?thesis
    proof (cases "blake3 L data = cd_hash desc")
      case False
      then have "refetch_steps L W B E (reported (\<lambda>r. r\<lparr>rr_corrupt_refused := Suc (rr_corrupt_refused r)\<rparr>) ?st1) st'
          \<and> (a \<longrightarrow> i \<in> held_for (rs_sink st') rt)"
        using Cons.prems Inr by (intro Cons.IH) simp
      then show ?thesis using step_then [OF s1 step_then [OF count_steps(2)]] by blast
    next
      case True
      then obtain path where p: "generate_proof tree i = Some path"
        using Cons.prems Inr by (auto simp: Let_def split: option.splits)
      let ?env = "re_inbound E (rs_clock ?st1)"
      obtain e vd where q: "accept_refetched_chunk L W ?env (rs_sink ?st1) data rt i path = (e, vd)" by fastforce
      let ?st2 = "handed (RefetchChunk ?env data rt i path) vd ?st1"
      have s: "refetch_steps L W B E st ?st2"
        by (rule two_steps [OF s1 refetch_step.chunk [OF q]])
      show ?thesis
      proof (cases e)
        case None
        then show ?thesis using Cons.prems Inr True p q s accepted_is_held [OF _ assms] by auto
      next
        case (Some reason)
        then show ?thesis using Cons.prems Inr True p q then_step [OF s count_steps(3)] by auto
      qed
    qed
  qed
qed simp

lemma fetch_planned_steps:
  assumes "\<And>t. exclusive (ie_put (re_inbound E t))"
  shows "fetch_planned L W E lim rt m tree plan st = Some st' \<Longrightarrow> refetch_steps L W B E st st'"
proof (induction plan arbitrary: st)
  case (Cons cp plan)
  let ?i = "cp_chunk_index cp"
  show ?case
  proof (cases "rl_chunks_per_run lim \<le> attempted (rs_report st)")
    case True
    then show ?thesis using Cons.prems by simp
  next
    case under: False
    show ?thesis
    proof (cases "length (chunks m) \<le> unat ?i")
      case True
      then have "refetch_steps L W B E (reported (add_failed rt ?i) st) st'" using Cons under by (simp add: Let_def)
      then show ?thesis by (rule step_then [OF count_steps(8)])
    next
      case False
      then obtain a st1 where t: "try_sources L W E rt ?i (chunks m ! unat ?i) tree
            (take (rl_sources_per_chunk lim) (cp_sources cp)) st = Some (a, st1)"
        and r: "fetch_planned L W E lim rt m tree plan (reported (if a then add_fetched rt ?i else add_failed rt ?i) st1) = Some st'"
        using Cons.prems under by (auto simp: Let_def split: option.splits)
      note s = try_sources_steps [OF assms t, of B]
      have "refetch_step L W B E st1 (reported (if a then add_fetched rt ?i else add_failed rt ?i) st1)"
        using s count_steps(8) by (auto intro: refetch_step.fetched)
      then show ?thesis using s Cons.IH [OF r] by (meson rtranclp_trans step_then)
    qed
  qed
qed simp

lemma fetch_epochs_steps: "fetch_epochs L E hs st = (r, st') \<Longrightarrow> refetch_steps L W B E st st'"
proof (induction hs arbitrary: st r)
  case (Cons h hs)
  show ?case
  proof (cases "trigger_snapshot L (re_chain E (rs_clock st)) h")
    case (Inl e)
    then show ?thesis using Cons.prems by (auto intro: r_into_rtranclp refetch_step.asked)
  next
    case (Inr s)
    obtain q st1 where q: "fetch_epochs L E hs (asked st) = (q, st1)" by fastforce
    moreover from this have "st1 = st'" using Cons.prems Inr by (cases q) auto
    ultimately show ?thesis using step_then [OF refetch_step.asked Cons.IH] by simp
  qed
qed simp

lemma manifest_for_steps: "manifest_for L B E R rt n plan st = (r, st') \<Longrightarrow> refetch_steps L W B E st st'"
  by (auto simp: manifest_for_def split: option.splits intro: pull_manifests_steps)

lemma execute_plan_steps:
  assumes "\<And>t. exclusive (ie_put (re_inbound E t))" and "execute_plan L W B E R rt n plan st = Some st'"
  shows "refetch_steps L W B E st st'"
proof (cases "plan = []")
  case True
  then show ?thesis using assms(2) by (simp add: execute_plan_def)
next
  case False
  let ?st0 = "reported (\<lambda>r. r\<lparr>rr_planned := rr_planned r + length plan\<rparr>) st"
  obtain q st1 where q: "manifest_for L B E R rt n plan ?st0 = (q, st1)" by fastforce
  have s1: "refetch_steps L W B E st st1" by (rule step_then [OF count_steps(6) manifest_for_steps [OF q]])
  show ?thesis
  proof (cases q)
    case None
    then show ?thesis using assms(2) False q then_step [OF s1 count_steps(7)] by (auto simp: execute_plan_def Let_def)
  next
    case (Some m)
    then obtain st2 where f: "fetch_planned L W E (rf_limits R) rt m (build (blake3 L) (map cd_hash (chunks m))) plan st1 = Some st2"
      and st': "st' = st2 \<or> st' = st2\<lparr>rs_attests := rs_attests st2 @ [spawn_attestation (rs_sink st2) rt]\<rparr>"
      using assms(2) False q by (auto simp: execute_plan_def Let_def)
    have s2: "refetch_steps L W B E st st2" using rtranclp_trans [OF s1 fetch_planned_steps [OF assms(1) f]] .
    then show ?thesis using st' then_step [OF s2 refetch_step.attest] by blast
  qed
qed

lemma refetch_file_steps:
  assumes "\<And>t. exclusive (ie_put (re_inbound E t))" and "refetch_file L W B E R rt st = Some st'"
  shows "refetch_steps L W B E st st'"
proof -
  have a1: "refetch_steps L W B E st (asked st)" using refetch_step.asked by (rule r_into_rtranclp)
  have a2: "refetch_steps L W B E st (asked (asked st))" using refetch_step.asked refetch_step.asked by (rule two_steps)
  have skip: "refetch_steps L W B E st ((reported (\<lambda>r. r\<lparr>rr_private_skipped := Suc (rr_private_skipped r)\<rparr>) (asked st))
      \<lparr>rs_private_noted := insert rt (rs_private_noted (asked st))\<rparr>)"
    by (rule then_step [OF then_step [OF a1 count_steps(4)] refetch_step.noted])
  have s3: "refetch_steps L W B E st st3" if "fetch_epochs L E hs (asked (asked st)) = (r, st3)" for hs r st3
    using rtranclp_trans [OF a2 fetch_epochs_steps [OF that]] .
  have err: "refetch_steps L W B E st (reported add_error st3)" if "fetch_epochs L E hs (asked (asked st)) = (r, st3)" for hs r st3
    using then_step [OF s3 [OF that] count_steps(9)] .
  have run: "refetch_steps L W B E st st'"
    if "fetch_epochs L E hs (asked (asked st)) = (r, st3)" "execute_plan L W B E R rt n plan st3 = Some st'" for hs r st3 n plan
    using rtranclp_trans [OF s3 [OF that(1)] execute_plan_steps [OF assms(1) that(2)]] .
  show ?thesis
    using assms(2) a1 a2 skip then_step [OF a1 count_steps(9)] then_step [OF a2 count_steps(9)]
    by (auto simp: refetch_file_def Let_def split: sum.splits if_splits option.splits prod.splits intro: err run)
qed

lemma page_rows_steps:
  assumes "\<And>t. exclusive (ie_put (re_inbound E t))"
  shows "page_rows L W B E R rows st = Some (stop, st') \<Longrightarrow> refetch_steps L W B E st st'"
proof (induction rows arbitrary: st)
  case (Cons row rows)
  let ?st1 = "reported (\<lambda>r. r\<lparr>rr_files_checked := Suc (rr_files_checked r)\<rparr>) st"
  have s1: "refetch_step L W B E st ?st1" by (rule count_steps(5))
  show ?case
  proof (cases "rr_files_checked (rs_report st) \<ge> rl_files_per_run (rf_limits R)
      \<or> attempted (rs_report st) \<ge> rl_chunks_per_run (rf_limits R)")
    case True
    then show ?thesis using Cons.prems by auto
  next
    case under: False
    show ?thesis
    proof (cases "parse_root E (pf_merkle_root row)")
      case None
      then have "refetch_steps L W B E (reported add_error ?st1) st'" using Cons.prems under by (intro Cons.IH) (auto simp: Let_def)
      then show ?thesis by (rule step_then [OF s1 step_then [OF count_steps(9)]])
    next
      case (Some rt)
      then obtain st2 where f: "refetch_file L W B E R rt ?st1 = Some st2" "page_rows L W B E R rows st2 = Some (stop, st')"
        using Cons.prems under by (auto simp: Let_def split: option.splits)
      then show ?thesis
        using step_then [OF s1 rtranclp_trans [OF refetch_file_steps [OF assms f(1)] Cons.IH [OF f(2)]]] by simp
    qed
  qed
qed simp


section \<open>What every run keeps\<close>

lemma step_consistent:
  assumes "refetch_step L W B E st st'" and "\<forall>t. exclusive (ie_put (re_inbound E t))"
    and "index_consistent L (vd_index (rs_sink st))"
  shows "index_consistent L (vd_index (rs_sink st'))"
  using assms
proof (cases rule: refetch_step.cases)
  case (manifest rt n bs r vd)
  then show ?thesis using refetched_manifest_step(4) [OF manifest(2)] assms(3) by simp
next
  case (chunk data rt i path e vd)
  then have "mi_by_root (vd_index vd) = mi_by_root (vd_index (rs_sink st))"
    using accept_validated_step [OF chunk(2) [unfolded accept_refetched_chunk_def]] assms(2) by blast
  then show ?thesis using chunk(1) assms(3) index_consistent_cong [of "vd_index vd"] by simp
qed simp_all

lemma steps_consistent:
  assumes "refetch_steps L W B E st st'" and "\<forall>t. exclusive (ie_put (re_inbound E t))"
    and "index_consistent L (vd_index (rs_sink st))"
  shows "index_consistent L (vd_index (rs_sink st'))"
  using assms by (induction rule: rtranclp_induct) (auto intro: step_consistent)







section \<open>No panic\<close>

lemma try_sources_total:
  assumes "generate_proof tree i \<noteq> None"
  shows "\<exists>r. try_sources L W E rt i desc tree fs st = Some r"
  using assms by (induction fs arbitrary: st) (auto simp: Let_def split: sum.splits prod.splits option.splits)

lemma fetch_planned_total:
  assumes "length (chunks m) < 2 ^ 32"
  shows "\<exists>st'. fetch_planned L W E lim rt m (build (blake3 L) (map cd_hash (chunks m))) plan st = Some st'"
proof (induction plan arbitrary: st)
  case (Cons cp plan)
  let ?i = "cp_chunk_index cp" and ?tree = "build (blake3 L) (map cd_hash (chunks m))"
  show ?case
  proof (cases "length (chunks m) \<le> unat ?i")
    case True
    then show ?thesis using Cons.IH by (simp add: Let_def)
  next
    case False
    then have "generate_proof ?tree ?i \<noteq> None"
      using generated_proof_verifies [of "map cd_hash (chunks m)" ?i "blake3 L"] assms by fastforce
    then obtain a st1 where "try_sources L W E rt ?i (chunks m ! unat ?i) ?tree
        (take (rl_sources_per_chunk lim) (cp_sources cp)) st = Some (a, st1)"
      using try_sources_total [of ?tree ?i] by fastforce
    then show ?thesis using Cons.IH False by (simp add: Let_def)
  qed
qed simp

lemma consistent_chunk_bound: "consistent_manifest L m \<Longrightarrow> length (chunks m) < 2 ^ 32"
  using unsigned_less [of "chunk_count m"] by (simp add: consistent_manifest_def)

lemma pull_manifests_consistent:
  "pull_manifests L B E k rt n tried fs st = (Some m, st') \<Longrightarrow> consistent_manifest L m \<and> merkle_root m = rt \<and> chunk_count m = n"
proof (induction L B E k rt n tried fs st rule: pull_manifests.induct)
  case (2 L B E k rt n tried src rest st)
  let ?st1 = "pulled (ManifestPullFrom src rt) st"
  show ?case
  proof (cases "re_pull_manifest E (rs_clock st) src rt")
    case (Inl e)
    then show ?thesis using "2.prems" "2.IH"(1,2) by (auto split: if_splits)
  next
    case (Inr bs)
    obtain q vd where q: "accept_refetched_manifest L B (re_inbound E (Suc (rs_clock st))) (rs_sink st) rt n bs = (q, vd)"
      by fastforce
    show ?thesis
      using "2.prems" "2.IH"(1) "2.IH"(3) [OF _ _ refl Inr refl] Inr q refetched_manifest_step(5) [OF q]
      by (cases q) (auto simp: Let_def split: if_splits)
  qed
qed simp

lemma execute_plan_total:
  assumes "index_consistent L (vd_index (rs_sink st))"
  shows "\<exists>st'. execute_plan L W B E R rt n plan st = Some st'"
proof -
  let ?st0 = "reported (\<lambda>r. r\<lparr>rr_planned := rr_planned r + length plan\<rparr>) st"
  obtain q st1 where q: "manifest_for L B E R rt n plan ?st0 = (q, st1)" by fastforce
  have "length (chunks m) < 2 ^ 32" if "q = Some m" for m
  proof -
    have "consistent_manifest L m"
      using q that assms by (auto simp: manifest_for_def index_consistent_def split: option.splits dest: pull_manifests_consistent)
    then show ?thesis by (rule consistent_chunk_bound)
  qed
  then show ?thesis using q fetch_planned_total by (cases q) (auto simp: execute_plan_def Let_def)
qed

lemma refetch_file_total:
  assumes "index_consistent L (vd_index (rs_sink st))"
  shows "\<exists>st'. refetch_file L W B E R rt st = Some st'"
proof -
  have "\<exists>st'. execute_plan L W B E R rt n plan st3 = Some st'"
    if "fetch_epochs L E hs (asked (asked st)) = (r, st3)" for hs r st3 n plan
    using fetch_epochs_frame [OF that] assms by (intro execute_plan_total) simp
  then show ?thesis
    by (auto simp: refetch_file_def Let_def split: sum.splits option.splits prod.splits)
qed

lemma page_rows_total:
  assumes "\<forall>t. exclusive (ie_put (re_inbound E t))" and "index_consistent L (vd_index (rs_sink st))"
  shows "\<exists>r. page_rows L W B E R rows st = Some r"
  using assms(2)
proof (induction rows arbitrary: st)
  case (Cons row rows)
  let ?st1 = "reported (\<lambda>r. r\<lparr>rr_files_checked := Suc (rr_files_checked r)\<rparr>) st"
  have "\<exists>st2. refetch_file L W B E R rt ?st1 = Some st2 \<and> index_consistent L (vd_index (rs_sink st2))" for rt
    using refetch_file_total [of L ?st1] refetch_file_steps steps_consistent Cons.prems assms(1) by (metis reported_simps(2))
  then obtain st2 where "\<And>rt. refetch_file L W B E R rt ?st1 = Some (st2 rt) \<and> index_consistent L (vd_index (rs_sink (st2 rt)))"
    by metis
  then show ?case using Cons.prems Cons.IH by (auto simp: Let_def split: option.splits)
qed auto

lemma run_pages_total:
  assumes "\<forall>t. exclusive (ie_put (re_inbound E t))" and "index_consistent L (vd_index (rs_sink st))"
  shows "\<exists>st'. run_pages L W B E R offset st = Some st'"
  using assms
proof (induction L W B E R offset st rule: run_pages.induct)
  case (1 L W B E R offset st)
  let ?page = "max (rl_page (rf_limits R)) 1"
  show ?case
  proof (cases "re_pushable E (rs_clock st) offset ?page")
    case (Inl e)
    then show ?thesis by (simp add: run_pages.simps [of L W B E R offset st])
  next
    case (Inr rows)
    obtain stop st1 where p: "page_rows L W B E R rows (asked st) = Some (stop, st1)"
      using page_rows_total [OF "1.prems"(1), of L "asked st" W B R rows] "1.prems"(2) by auto
    have "refetch_steps L W B E (asked st) st1" using "1.prems"(1) by (intro page_rows_steps [OF _ p]) blast
    from steps_consistent [OF this "1.prems"(1)] have "index_consistent L (vd_index (rs_sink st1))" using "1.prems"(2) by simp
    then show ?thesis
      using "1.IH" [OF refl Inr p refl] "1.prems"(1) Inr p
      by (cases stop) (auto simp: run_pages.simps [of L W B E R offset st])
  qed
qed

section \<open>Bounds\<close>

definition chunk_pulls :: "refetch_state \<Rightarrow> nat" where
  "chunk_pulls st = length (filter (\<lambda>p. case p of ChunkPullFrom _ _ \<Rightarrow> True | _ \<Rightarrow> False) (rs_pulls st))"

definition manifest_pulls :: "refetch_state \<Rightarrow> nat" where
  "manifest_pulls st = length (filter (\<lambda>p. case p of ManifestPullFrom _ _ \<Rightarrow> True | _ \<Rightarrow> False) (rs_pulls st))"

lemma pulls_simps [simp]:
  "chunk_pulls (reported f st) = chunk_pulls st" "manifest_pulls (reported f st) = manifest_pulls st"
  "chunk_pulls (asked st) = chunk_pulls st" "manifest_pulls (asked st) = manifest_pulls st"
  "chunk_pulls (handed ev vd st) = chunk_pulls st" "manifest_pulls (handed ev vd st) = manifest_pulls st"
  "chunk_pulls (pulled (ChunkPullFrom a c) st) = Suc (chunk_pulls st)"
  "manifest_pulls (pulled (ChunkPullFrom a c) st) = manifest_pulls st"
  "chunk_pulls (pulled (ManifestPullFrom a r) st) = chunk_pulls st"
  "manifest_pulls (pulled (ManifestPullFrom a r) st) = Suc (manifest_pulls st)"
  by (simp_all add: chunk_pulls_def manifest_pulls_def)

lemma pull_manifests_bound:
  "pull_manifests L B E k rt n tried fs st = (r, st') \<Longrightarrow> chunk_pulls st' = chunk_pulls st
     \<and> manifest_pulls st' \<le> manifest_pulls st + (k - length tried)
     \<and> rr_fetched (rs_report st') = rr_fetched (rs_report st) \<and> rr_failed (rs_report st') = rr_failed (rs_report st)"
proof (induction L B E k rt n tried fs st rule: pull_manifests.induct)
  case (2 L B E k rt n tried src rest st)
  let ?st1 = "pulled (ManifestPullFrom src rt) st"
  show ?case
  proof (cases "re_pull_manifest E (rs_clock st) src rt")
    case (Inl e)
    then show ?thesis
      using "2.prems" "2.IH"(1) "2.IH"(2) [OF _ _ refl Inl] by (auto split: if_splits)
  next
    case (Inr bs)
    obtain q vd where q: "accept_refetched_manifest L B (re_inbound E (Suc (rs_clock st))) (rs_sink st) rt n bs = (q, vd)"
      by fastforce
    show ?thesis
      using "2.prems" "2.IH"(1) "2.IH"(3) [OF _ _ refl Inr refl] Inr q
      by (cases q) (auto simp: Let_def split: if_splits)
  qed
qed simp

lemma try_sources_bound:
  "try_sources L W E rt i desc tree fs st = Some (a, st') \<Longrightarrow> manifest_pulls st' = manifest_pulls st
     \<and> chunk_pulls st' \<le> chunk_pulls st + length fs
     \<and> rr_fetched (rs_report st') = rr_fetched (rs_report st) \<and> rr_failed (rs_report st') = rr_failed (rs_report st)"
proof (induction fs arbitrary: st)
  case (Cons src fs)
  show ?case
    using Cons.prems Cons.IH [of "pulled (ChunkPullFrom src (cd_cid desc)) st"]
      Cons.IH [of "reported (\<lambda>r. r\<lparr>rr_corrupt_refused := Suc (rr_corrupt_refused r)\<rparr>) (pulled (ChunkPullFrom src (cd_cid desc)) st)"]
    by (auto simp: Let_def split: sum.splits if_splits option.splits prod.splits)
qed simp

text \<open>The budget of chunks and of pulls for them.\<close>

definition within :: "refetch_limits \<Rightarrow> refetch_state \<Rightarrow> bool" where
  "within lim st \<longleftrightarrow> length (rr_fetched (rs_report st)) \<le> rl_chunks_per_run lim
     \<and> chunk_pulls st \<le> rl_sources_per_chunk lim * min (rl_chunks_per_run lim) (attempted (rs_report st))"

lemma within_more:
  assumes "within lim st" and "rr_fetched (rs_report st') = rr_fetched (rs_report st)"
    and "attempted (rs_report st) \<le> attempted (rs_report st')" and "chunk_pulls st' = chunk_pulls st"
  shows "within lim st'"
proof -
  have "rl_sources_per_chunk lim * min (rl_chunks_per_run lim) (attempted (rs_report st))
      \<le> rl_sources_per_chunk lim * min (rl_chunks_per_run lim) (attempted (rs_report st'))"
    using assms(3) by (intro mult_le_mono2) simp
  then show ?thesis using assms(1,2,4) unfolding within_def by (metis order_trans)
qed

lemma fetch_planned_within:
  "fetch_planned L W E lim rt m tree plan st = Some st' \<Longrightarrow> within lim st \<Longrightarrow>
     within lim st' \<and> manifest_pulls st' = manifest_pulls st"
proof (induction plan arbitrary: st)
  case (Cons cp plan)
  let ?i = "cp_chunk_index cp"
  show ?case
  proof (cases "rl_chunks_per_run lim \<le> attempted (rs_report st)")
    case True
    then show ?thesis using Cons.prems by simp
  next
    case under: False
    show ?thesis
    proof (cases "length (chunks m) \<le> unat ?i")
      case True
      have "within lim (reported (add_failed rt ?i) st)"
        using Cons.prems(2) by (rule within_more) (simp_all add: attempted_def add_failed_def)
      then show ?thesis using Cons.IH Cons.prems(1) under True by (fastforce simp: Let_def)
    next
      case False
      then obtain a st1 where t: "try_sources L W E rt ?i (chunks m ! unat ?i) tree
            (take (rl_sources_per_chunk lim) (cp_sources cp)) st = Some (a, st1)"
        and r: "fetch_planned L W E lim rt m tree plan (reported (if a then add_fetched rt ?i else add_failed rt ?i) st1) = Some st'"
        using Cons.prems under by (auto simp: Let_def split: option.splits)
      note b = try_sources_bound [OF t]
      let ?st2 = "reported (if a then add_fetched rt ?i else add_failed rt ?i) st1"
      have att: "attempted (rs_report ?st2) = Suc (attempted (rs_report st))"
        using b by (auto simp: attempted_def add_failed_def add_fetched_def)
      have "chunk_pulls ?st2 \<le> rl_sources_per_chunk lim * attempted (rs_report st) + rl_sources_per_chunk lim"
        using b Cons.prems(2) under by (simp add: within_def min_def split: if_splits)
      moreover have "length (rr_fetched (rs_report ?st2)) \<le> rl_chunks_per_run lim"
        using b under by (auto simp: attempted_def add_failed_def add_fetched_def)
      moreover have "min (rl_chunks_per_run lim) (Suc (attempted (rs_report st))) = Suc (attempted (rs_report st))"
        using under by simp
      ultimately have "within lim ?st2" unfolding within_def att by simp
      then show ?thesis using Cons.IH [OF r] b by simp
    qed
  qed
qed simp

lemma execute_plan_within:
  assumes "execute_plan L W B E R rt n plan st = Some st'" and "within (rf_limits R) st"
  shows "within (rf_limits R) st' \<and> manifest_pulls st' \<le> manifest_pulls st + rl_sources_per_chunk (rf_limits R)"
proof (cases "plan = []")
  case True
  then show ?thesis using assms by (simp add: execute_plan_def)
next
  case False
  let ?st0 = "reported (\<lambda>r. r\<lparr>rr_planned := rr_planned r + length plan\<rparr>) st"
  obtain q st1 where q: "manifest_for L B E R rt n plan ?st0 = (q, st1)" by fastforce
  then have m: "chunk_pulls st1 = chunk_pulls st" "manifest_pulls st1 \<le> manifest_pulls st + rl_sources_per_chunk (rf_limits R)"
    "rr_fetched (rs_report st1) = rr_fetched (rs_report st)" "rr_failed (rs_report st1) = rr_failed (rs_report st)"
    by (auto simp: manifest_for_def split: option.splits dest!: pull_manifests_bound)
  show ?thesis
  proof (cases q)
    case None
    let ?st2 = "reported (\<lambda>r. r\<lparr>rr_failed := rr_failed r @ map (\<lambda>cp. (rt, cp_chunk_index cp)) plan\<rparr>) st1"
    have "within (rf_limits R) ?st2" by (rule within_more [OF assms(2)]) (use m in \<open>simp_all add: attempted_def\<close>)
    then show ?thesis using assms(1) None False q m by (auto simp: execute_plan_def Let_def)
  next
    case (Some x)
    then obtain st2 where f: "fetch_planned L W E (rf_limits R) rt x (build (blake3 L) (map cd_hash (chunks x))) plan st1 = Some st2"
      and st': "rs_report st' = rs_report st2" "rs_pulls st' = rs_pulls st2"
      using assms(1) False q by (auto simp: execute_plan_def Let_def)
    have "within (rf_limits R) st1" by (rule within_more [OF assms(2)]) (use m in \<open>simp_all add: attempted_def\<close>)
    from fetch_planned_within [OF f this] show ?thesis
      using m st' by (simp add: within_def chunk_pulls_def manifest_pulls_def)
  qed
qed

text \<open>A file is left alone, up to the counters, or its plan is executed after the chain reads.\<close>

definition untouched :: "refetch_state \<Rightarrow> refetch_state \<Rightarrow> bool" where
  "untouched st st' \<longleftrightarrow> rs_sink st' = rs_sink st \<and> rs_pulls st' = rs_pulls st \<and> rs_handed st' = rs_handed st
     \<and> rs_attests st' = rs_attests st \<and> rr_fetched (rs_report st') = rr_fetched (rs_report st)
     \<and> rr_failed (rs_report st') = rr_failed (rs_report st)"

lemma refetch_file_cases:
  assumes "refetch_file L W B E R rt st = Some st'"
  obtains "untouched st st'"
  | shape coverage epochs st3 where "fetch_file_shape (re_chain E (rs_clock st)) rt = Inr shape"
      "\<not> is_abandoned (fs_lifecycle shape)" "\<not> is_private (fs_visibility shape)"
      "fetch_coverage (re_chain E (Suc (rs_clock st))) rt = Inr (Some coverage)" "consistent_epochs coverage shape"
      "fetch_epochs L E (drop (length (ac_assignment_epochs coverage) - MAX_EPOCHS_CONSULTED) (ac_assignment_epochs coverage))
         (asked (asked st)) = (Inr epochs, st3)" "untouched st st3"
      "execute_plan L W B E R rt (fs_chunk_count shape) (plan_refetch W rt (fs_chunk_count shape) epochs
         (rf_replication_factor R) (rf_me R) (held_for (rs_sink st3) rt)) st3 = Some st'"
proof (cases "fetch_file_shape (re_chain E (rs_clock st)) rt")
  case (Inl e)
  then have "untouched st st'" using assms by (auto simp: refetch_file_def untouched_def add_error_def)
  then show ?thesis by (rule that(1))
next
  case (Inr shape)
  show ?thesis
  proof (cases "is_abandoned (fs_lifecycle shape) \<or> is_private (fs_visibility shape)")
    case True
    then have "untouched st st'" using assms Inr by (auto simp: refetch_file_def untouched_def Let_def split: if_splits)
    then show ?thesis by (rule that(1))
  next
    case live: False
    show ?thesis
    proof (cases "\<exists>coverage. fetch_coverage (re_chain E (Suc (rs_clock st))) rt = Inr (Some coverage)
        \<and> \<not> length (ac_assignment_epochs coverage) < 2 \<and> consistent_epochs coverage shape")
      case False
      then have "untouched st st'" using assms Inr live
        by (auto simp: refetch_file_def untouched_def Let_def add_error_def split: if_splits sum.splits option.splits)
      then show ?thesis by (rule that(1))
    next
      case True
      then obtain coverage where c: "fetch_coverage (re_chain E (Suc (rs_clock st))) rt = Inr (Some coverage)"
          "\<not> length (ac_assignment_epochs coverage) < 2" "consistent_epochs coverage shape" by blast
      obtain q st3 where q: "fetch_epochs L E (drop (length (ac_assignment_epochs coverage) - MAX_EPOCHS_CONSULTED)
          (ac_assignment_epochs coverage)) (asked (asked st)) = (q, st3)" by fastforce
      have u: "untouched st st3" using fetch_epochs_frame [OF q] by (simp add: untouched_def)
      show ?thesis
      proof (cases q)
        case (Inl e)
        then have "untouched st st'" using assms Inr live c q u
          by (auto simp: refetch_file_def untouched_def Let_def add_error_def)
        then show ?thesis by (rule that(1))
      next
        case Inr': (Inr epochs)
        show ?thesis
          by (rule that(2)) (use assms Inr live c q u Inr' in \<open>auto simp: refetch_file_def Let_def\<close>)
      qed
    qed
  qed
qed

lemma untouched_within: "untouched st st' \<Longrightarrow> within lim st' = within lim st \<and> manifest_pulls st' = manifest_pulls st"
  by (simp add: untouched_def within_def attempted_def chunk_pulls_def manifest_pulls_def)

lemma refetch_file_within:
  assumes "refetch_file L W B E R rt st = Some st'" and "within (rf_limits R) st"
  shows "within (rf_limits R) st' \<and> manifest_pulls st' \<le> manifest_pulls st + rl_sources_per_chunk (rf_limits R)"
  using assms(1)
proof (cases rule: refetch_file_cases)
  case 1
  then show ?thesis using assms(2) untouched_within by fastforce
next
  case (2 shape coverage epochs st3)
  then show ?thesis using execute_plan_within [OF 2(8)] assms(2) untouched_within by fastforce
qed

lemma page_rows_within:
  assumes "page_rows L W B E R rows st = Some (stop, st')" and "within (rf_limits R) st"
    and "files_checked st \<le> rl_files_per_run (rf_limits R)"
    and "manifest_pulls st \<le> rl_sources_per_chunk (rf_limits R) * files_checked st"
  shows "within (rf_limits R) st' \<and> files_checked st' \<le> rl_files_per_run (rf_limits R)
    \<and> manifest_pulls st' \<le> rl_sources_per_chunk (rf_limits R) * files_checked st'"
  using assms
proof (induction rows arbitrary: st)
  case (Cons row rows)
  let ?st1 = "reported (\<lambda>r. r\<lparr>rr_files_checked := Suc (rr_files_checked r)\<rparr>) st"
  show ?case
  proof (cases "rr_files_checked (rs_report st) \<ge> rl_files_per_run (rf_limits R)
      \<or> attempted (rs_report st) \<ge> rl_chunks_per_run (rf_limits R)")
    case True
    then show ?thesis using Cons.prems by auto
  next
    case under: False
    have w1: "within (rf_limits R) ?st1"
      by (rule within_more [OF Cons.prems(2)]) (simp_all add: attempted_def)
    show ?thesis
    proof (cases "parse_root E (pf_merkle_root row)")
      case None
      have "within (rf_limits R) (reported add_error ?st1)"
        by (rule within_more [OF w1]) (simp_all add: attempted_def add_error_def)
      then show ?thesis
        using Cons.prems under None Cons.IH [of "reported add_error ?st1"] by (auto simp: Let_def add_error_def)
    next
      case (Some rt)
      then obtain st2 where f: "refetch_file L W B E R rt ?st1 = Some st2" "page_rows L W B E R rows st2 = Some (stop, st')"
        using Cons.prems under by (auto simp: Let_def split: option.splits)
      then show ?thesis
        using Cons.IH [OF f(2)] refetch_file_within [OF f(1) w1] refetch_file_files [OF f(1)] Cons.prems(3,4) under by simp
    qed
  qed
qed simp

lemma run_pages_within:
  assumes "run_pages L W B E R offset st = Some st'" and "within (rf_limits R) st"
    and "files_checked st \<le> rl_files_per_run (rf_limits R)"
    and "manifest_pulls st \<le> rl_sources_per_chunk (rf_limits R) * files_checked st"
  shows "within (rf_limits R) st' \<and> files_checked st' \<le> rl_files_per_run (rf_limits R)
    \<and> manifest_pulls st' \<le> rl_sources_per_chunk (rf_limits R) * files_checked st'"
  using assms
proof (induction L W B E R offset st rule: run_pages.induct)
  case (1 L W B E R offset st)
  let ?page = "max (rl_page (rf_limits R)) 1"
  have wa: "within (rf_limits R) (asked st)" by (rule within_more [OF "1.prems"(2)]) simp_all
  show ?case
  proof (cases "re_pushable E (rs_clock st) offset ?page")
    case (Inl e)
    have "within (rf_limits R) (reported add_error (asked st))"
      by (rule within_more [OF wa]) (simp_all add: attempted_def add_error_def)
    then show ?thesis
      using "1.prems" Inl by (auto simp: run_pages.simps [of L W B E R offset st] add_error_def)
  next
    case (Inr rows)
    then obtain stop st1 where p: "page_rows L W B E R rows (asked st) = Some (stop, st1)"
      using "1.prems"(1) by (auto simp: run_pages.simps [of L W B E R offset st] split: option.splits)
    note w1 = page_rows_within [OF p wa, simplified, OF "1.prems"(3,4)]
    show ?thesis
    proof (cases "stop \<or> length rows < unat ?page")
      case True
      then show ?thesis
        using "1.prems"(1) Inr p w1 by (cases stop) (auto simp: run_pages.simps [of L W B E R offset st])
    next
      case False
      then have "run_pages L W B E R (saturating_add offset (u32_of (length rows))) st1 = Some st'"
        using "1.prems"(1) Inr p by (simp add: run_pages.simps [of L W B E R offset st])
      then show ?thesis using "1.IH" [OF refl Inr p refl] False w1 by simp
    qed
  qed
qed

text \<open>
  C31. A re-fetch pass is bounded whatever the chain lists and the archives serve: it ends without a panic,
  reads at most the configured number of files, stores at most the configured number of chunks, and
  makes at most the configured number of pulls for each chunk of the budget and each file.
\<close>

theorem refetch_run_bounded:
  assumes "\<forall>t. exclusive (ie_put (re_inbound E t))" and "index_consistent L (vd_index vd)"
  shows "\<exists>st. run_once L W B E R vd noted = Some st
    \<and> rr_files_checked (rs_report st) \<le> rl_files_per_run (rf_limits R)
    \<and> length (rr_fetched (rs_report st)) \<le> rl_chunks_per_run (rf_limits R)
    \<and> chunk_pulls st \<le> rl_sources_per_chunk (rf_limits R) * rl_chunks_per_run (rf_limits R)
    \<and> manifest_pulls st \<le> rl_sources_per_chunk (rf_limits R) * rl_files_per_run (rf_limits R)"
proof -
  let ?st0 = "refetch_start vd noted" and ?lim = "rf_limits R"
  have "index_consistent L (vd_index (rs_sink ?st0))" using assms(2) by (simp add: refetch_start_def)
  then obtain st where st: "run_pages L W B E R 0 ?st0 = Some st" using run_pages_total [OF assms(1)] by blast
  have "within ?lim ?st0" "files_checked ?st0 = 0" "manifest_pulls ?st0 = 0"
    by (simp_all add: refetch_start_def report_default_def within_def chunk_pulls_def manifest_pulls_def)
  then have w: "within ?lim st" "files_checked st \<le> rl_files_per_run ?lim"
      "manifest_pulls st \<le> rl_sources_per_chunk ?lim * files_checked st"
    using run_pages_within [OF st] by simp_all
  have "chunk_pulls st \<le> rl_sources_per_chunk ?lim * rl_chunks_per_run ?lim"
    using w(1) mult_le_mono2 [of "min (rl_chunks_per_run ?lim) (attempted (rs_report st))" "rl_chunks_per_run ?lim" "rl_sources_per_chunk ?lim"]
    unfolding within_def by linarith
  moreover have "manifest_pulls st \<le> rl_sources_per_chunk ?lim * rl_files_per_run ?lim"
    using w(3) mult_le_mono2 [OF w(2), of "rl_sources_per_chunk ?lim"] by linarith
  ultimately show ?thesis using st w(1,2) by (auto simp: run_once_def within_def)
qed

section \<open>Re-fetch through the dispatcher\<close>


text \<open>
  Private files fail closed: a file the chain reports as Private is only counted. Nothing is pulled,
  handed over, reported as fetched or failed, or attested for it. And should the visibility change
  between that read and the acceptance, the dispatcher refuses the chunk and keeps what it holds.
\<close>

theorem refetch_private_fails_closed:
  assumes "fetch_file_shape (re_chain E (rs_clock st)) rt = Inr shape" and "is_private (fs_visibility shape)"
  shows "(\<exists>st'. refetch_file L W B E R rt st = Some st' \<and> untouched st st'
        \<and> rr_private_skipped (rs_report st') = rr_private_skipped (rs_report st) + of_bool (\<not> is_abandoned (fs_lifecycle shape)))
     \<and> (\<forall>env vd i data path v pv. validate_push L W (ie_pv env) (vd_validator vd) rt i data path = (Inr v, pv)
          \<and> is_private (vp_visibility v) \<longrightarrow>
          (\<exists>reason. accept_refetched_chunk L W env vd data rt i path = (Some reason, vd\<lparr>vd_validator := pv\<rparr>)))"
  using assms
  by (auto simp: refetch_file_def untouched_def Let_def accept_refetched_chunk_def accept_validated_def)

section \<open>The plan is exact\<close>

lemma set_add_sources: "set (add_sources me srcs as) = set srcs \<union> (set as - {me})"
  by (induction as arbitrary: srcs) auto

lemma distinct_add_sources: "distinct srcs \<Longrightarrow> distinct (add_sources me srcs as)"
  by (induction as arbitrary: srcs) auto

lemma prefix_add_sources: "\<exists>more. add_sources me srcs as = srcs @ more"
proof (induction as arbitrary: srcs)
  case (Cons a as)
  show ?case using Cons.IH [of srcs] Cons.IH [of "srcs @ [a]"] by auto
qed simp

lemma set_chunk_sources:
  "set (chunk_sources W rt i rf me srcs eps)
     = set srcs \<union> ((\<Union>(h, snapshot) \<in> set eps. set (assigned_archives W rt snapshot i rf)) - {me})"
  by (induction W rt i rf me srcs eps rule: chunk_sources.induct) (auto simp: set_add_sources)

lemma distinct_chunk_sources: "distinct srcs \<Longrightarrow> distinct (chunk_sources W rt i rf me srcs eps)"
  by (induction W rt i rf me srcs eps rule: chunk_sources.induct) (auto simp: distinct_add_sources)

lemma prefix_chunk_sources: "\<exists>more. chunk_sources W rt i rf me srcs eps = srcs @ more"
proof (induction W rt i rf me srcs eps rule: chunk_sources.induct)
  case (2 W rt i rf me sources h snapshot epochs)
  obtain more where "add_sources me sources (assigned_archives W rt snapshot i rf) = sources @ more"
    using prefix_add_sources by blast
  then show ?case using 2 by auto
qed simp

text \<open>
  The plan. With a latest and a previous snapshot, the planned indices, each once and in ascending
  order, are exactly the chunks of the file assigned to this archive under the latest snapshot, not
  under the previous one, and not held. The sources of each are, without repetition and without this
  archive, all its assignees in the snapshots consulted, those of the latest snapshot first.
\<close>

theorem plan_refetch_exact:
  assumes "wire_ok W" and "epochs = older @ [(h1, previous), (h2, latest)]"
  shows "set (map cp_chunk_index (plan_refetch W rt n epochs rf me held)) =
      {i. i < n \<and> me \<in> set (assigned_archives W rt latest i rf) \<and> me \<notin> set (assigned_archives W rt previous i rf) \<and> i \<notin> held}
    \<and> sorted_wrt (<) (map cp_chunk_index (plan_refetch W rt n epochs rf me held))
    \<and> (\<forall>cp \<in> set (plan_refetch W rt n epochs rf me held). distinct (cp_sources cp)
        \<and> set (cp_sources cp)
            = (\<Union>(h, snapshot) \<in> set epochs. set (assigned_archives W rt snapshot (cp_chunk_index cp) rf)) - {me}
        \<and> (\<exists>first more. cp_sources cp = first @ more
             \<and> set first = set (assigned_archives W rt latest (cp_chunk_index cp) rf) - {me}))"
proof -
  let ?plan = "plan_refetch W rt n epochs rf me held"
  let ?todo = "filter (\<lambda>i. i \<notin> held) (filter (\<lambda>i. i \<notin> set (chunks_for_archive_v2 W rt n previous rf me))
      (chunks_for_archive_v2 W rt n latest rf me))"
  have out: "chunks_for_archive_v2 W rt n latest rf me = []" if "me \<notin> set latest"
    using that by (simp add: chunks_for_archive_v2_def binary_search_def)
  have plan: "?plan = map (\<lambda>i. \<lparr>cp_chunk_index = i, cp_sources = chunk_sources W rt i rf me [] (rev epochs)\<rparr>) ?todo"
    using out by (simp add: plan_refetch_def assms(2))
  then have idx: "map cp_chunk_index ?plan = ?todo" by (simp add: comp_def)
  have mem: "i \<in> set (chunks_for_archive_v2 W rt n s rf me) \<longleftrightarrow> i < n \<and> me \<in> set (assigned_archives W rt s i rf)" for i s
    using u32_range [of n] unfolding v2_entry_points_agree [OF assms(1), THEN conjunct2] by auto
  have "sorted_wrt (<) (chunks_for_archive_v2 W rt n latest rf me)"
    unfolding v2_entry_points_agree [OF assms(1), THEN conjunct2] using sorted_u32_range [of n] by (simp add: sorted_wrt_filter)
  then have "sorted_wrt (<) ?todo" by (intro sorted_wrt_filter)
  moreover have "\<exists>first more. chunk_sources W rt i rf me [] (rev epochs) = first @ more
      \<and> set first = set (assigned_archives W rt latest i rf) - {me}" for i
    using prefix_chunk_sources [of W rt i rf me "add_sources me [] (assigned_archives W rt latest i rf)" "(h1, previous) # rev older"]
    by (fastforce simp: assms(2) set_add_sources)
  ultimately show ?thesis unfolding idx
    by (auto simp: plan mem set_chunk_sources distinct_chunk_sources)
qed

section \<open>One honest source suffices\<close>

lemma try_sources_reaches:
  assumes "j < length fs"
    and "\<forall>k < j. \<forall>d. re_pull_chunk E (rs_clock st + k) (fs ! k) (cd_cid desc) (cd_size desc) = Inr d \<longrightarrow> blake3 L d \<noteq> cd_hash desc"
    and "re_pull_chunk E (rs_clock st + j) (fs ! j) (cd_cid desc) (cd_size desc) = Inr data" and "blake3 L data = cd_hash desc"
    and "generate_proof tree i = Some path"
    and "accept_refetched_chunk L W (re_inbound E (rs_clock st + Suc j)) (rs_sink st) data rt i path = (None, vd)"
  shows "\<exists>st'. try_sources L W E rt i desc tree fs st = Some (True, st') \<and> rs_sink st' = vd
      \<and> rs_handed st' = rs_handed st @ [RefetchChunk (re_inbound E (rs_clock st + Suc j)) data rt i path]"
  using assms
proof (induction j arbitrary: fs st)
  case 0
  then show ?case by (cases fs) (auto simp: Let_def)
next
  case (Suc j)
  then obtain src rest where fs: "fs = src # rest" by (cases fs) auto
  let ?st1 = "pulled (ChunkPullFrom src (cd_cid desc)) st"
  let ?st2 = "reported (\<lambda>r. r\<lparr>rr_corrupt_refused := Suc (rr_corrupt_refused r)\<rparr>) ?st1"
  have next0: "\<forall>d. re_pull_chunk E (rs_clock st) src (cd_cid desc) (cd_size desc) = Inr d \<longrightarrow> blake3 L d \<noteq> cd_hash desc"
    using Suc.prems(2) fs by (metis add.right_neutral nth_Cons_0 zero_less_Suc)
  have later: "\<forall>k < j. \<forall>d. re_pull_chunk E (Suc (rs_clock st) + k) (rest ! k) (cd_cid desc) (cd_size desc) = Inr d \<longrightarrow> blake3 L d \<noteq> cd_hash desc"
    using Suc.prems(2) fs by (metis Suc_less_eq add_Suc add_Suc_right nth_Cons_Suc)
  have "\<exists>st'. try_sources L W E rt i desc tree rest x = Some (True, st') \<and> rs_sink st' = vd
      \<and> rs_handed st' = rs_handed st @ [RefetchChunk (re_inbound E (rs_clock st + Suc (Suc j))) data rt i path]"
    if "x = ?st1 \<or> x = ?st2" for x
    using Suc.IH [of rest x] Suc.prems(1,3-6) fs later that by auto
  then show ?case
    using next0 fs by (cases "re_pull_chunk E (rs_clock st) src (cd_cid desc) (cd_size desc)") (simp_all add: Let_def)
qed

text \<open>
  Sources that fail or serve other bytes do not matter: when every source before the \<open>j\<close>-th fails or
  serves bytes with another hash, the \<open>j\<close>-th serves the chunk of the manifest and the dispatcher takes
  it, the chunk is fetched, and nothing else reached the dispatcher.
\<close>

theorem one_honest_source_suffices:
  assumes "attempted (rs_report st) < rl_chunks_per_run lim" and "unat i < length (chunks m)"
    and "length (chunks m) < 2 ^ 32" and "j < rl_sources_per_chunk lim" and "j < length srcs"
    and "\<forall>k < j. \<forall>d. re_pull_chunk E (rs_clock st + k) (srcs ! k) (cd_cid (chunks m ! unat i)) (cd_size (chunks m ! unat i)) = Inr d
           \<longrightarrow> blake3 L d \<noteq> cd_hash (chunks m ! unat i)"
    and "re_pull_chunk E (rs_clock st + j) (srcs ! j) (cd_cid (chunks m ! unat i)) (cd_size (chunks m ! unat i)) = Inr data"
    and "blake3 L data = cd_hash (chunks m ! unat i)"
    and "\<forall>path. verify_merkle_proof_bytes_for_tree (blake3 L) (blake3 L data) i path
             (root (build (blake3 L) (map cd_hash (chunks m)))) (u32_of (length (chunks m)))
           \<longrightarrow> (\<exists>vd. accept_refetched_chunk L W (re_inbound E (rs_clock st + Suc j)) (rs_sink st) data rt i path = (None, vd))"
  shows "\<exists>st'. fetch_planned L W E lim rt m (build (blake3 L) (map cd_hash (chunks m)))
           [\<lparr>cp_chunk_index = i, cp_sources = srcs\<rparr>] st = Some st'
      \<and> rr_fetched (rs_report st') = rr_fetched (rs_report st) @ [(rt, i)]"
proof -
  let ?leaves = "map cd_hash (chunks m)"
  obtain path where p: "generate_proof (build (blake3 L) ?leaves) i = Some path"
      "verify_merkle_proof_bytes_for_tree (blake3 L) (blake3 L data) i path (root (build (blake3 L) ?leaves)) (u32_of (length (chunks m)))"
    using generated_proof_verifies [of ?leaves i "blake3 L"] assms(2,3,8) by auto
  obtain vd where "accept_refetched_chunk L W (re_inbound E (rs_clock st + Suc j)) (rs_sink st) data rt i path = (None, vd)"
    using assms(9) p(2) by blast
  then have "\<exists>st1. try_sources L W E rt i (chunks m ! unat i) (build (blake3 L) ?leaves)
      (take (rl_sources_per_chunk lim) srcs) st = Some (True, st1) \<and> rs_sink st1 = vd
      \<and> rs_handed st1 = rs_handed st @ [RefetchChunk (re_inbound E (rs_clock st + Suc j)) data rt i path]"
    by (intro try_sources_reaches) (use assms(4-8) p(1) in simp_all)
  then obtain st1 where t: "try_sources L W E rt i (chunks m ! unat i) (build (blake3 L) ?leaves)
      (take (rl_sources_per_chunk lim) srcs) st = Some (True, st1)" by blast
  then show ?thesis
    using assms(1,2) try_sources_bound [OF t] by (simp add: Let_def add_fetched_def)
qed

section \<open>Instances\<close>

definition demo_desc :: chunk_descriptor where
  "demo_desc = \<lparr>cd_index = 0, cd_offset = 0, cd_size = 1, cd_hash = blake3 demo_lib [7], cd_cid = demo_cid, cd_plaintext_hash = None\<rparr>"

definition demo_refetch_manifest :: data_manifest where
  "demo_refetch_manifest = \<lparr>file_name = ''f'', file_hash = [], total_size_bytes = 1, chunk_count = 1, merkle_root = demo_chunk_root,
     chunks = [demo_desc]\<rparr>"

definition demo_refetch_env :: refetch_env where
  "demo_refetch_env = \<lparr>re_pushable = (\<lambda>_ _ _. Inr [\<lparr>pf_merkle_root = ''0x'', pf_chunk_count = 1, pf_lifecycle = 1, pf_created_at = 0\<rparr>]),
     re_chain = (\<lambda>_. demo_trigger), re_pull_manifest = (\<lambda>_ _ _. Inl ''down''),
     re_pull_chunk = (\<lambda>_ a _ _. if a = replicate 20 2 then Inr [8] else Inr [7]),
     re_inbound = (\<lambda>_. demo_ienv), re_hex_decode = (\<lambda>_. Inr demo_chunk_root)\<rparr>"

definition demo_refetcher :: refetcher where
  "demo_refetcher = \<lparr>rf_me = replicate 20 1, rf_replication_factor = 3, rf_limits = default_limits\<rparr>"

lemma demo_refetch_exclusive: "\<forall>t. exclusive (ie_put (re_inbound demo_refetch_env t))"
  by (simp add: demo_refetch_env_def demo_vd_fields)

lemma demo_refetch_ok:
  "index_consistent demo_lib (vd_index demo_vd)" "attestable demo_lib demo_vd"
  by (simp_all add: index_consistent_def attestable_def demo_vd_fields demo_trusted_def empty_index_def get_by_merkle_root_def
      proofs_ok_def recorded_def)

lemma demo_accept_refetched:
  "\<exists>vd'. accept_refetched_chunk demo_lib demo_wire demo_ienv demo_vd [7] demo_chunk_root 0 [] = (None, vd')"
proof -
  obtain pv where "validate_push demo_lib demo_wire demo_pv_env (push_validator_new (replicate 20 1) 3) demo_chunk_root 0 [7] []
      = (Inr \<lparr>vp_leaf_hash = blake3 demo_lib [7], vp_visibility = 0\<rparr>, pv)" using demo_validates by blast
  then have "accept_refetched_chunk demo_lib demo_wire demo_ienv demo_vd [7] demo_chunk_root 0 []
      = accept_chunk demo_lib demo_wire demo_ienv demo_vd [7] demo_chunk_root 0 []"
    by (simp add: accept_refetched_chunk_def accept_chunk_def accept_validated_def demo_ienv_def demo_vd_def v2_dispatcher_new_def
        is_private_def)
  then show ?thesis using demo_accept by simp
qed

theorem refetch_run_bounded_witness:
  "\<exists>st. run_once demo_lib demo_wire demo_cbor demo_refetch_env demo_refetcher demo_vd {} = Some st
     \<and> rr_files_checked (rs_report st) \<le> 256 \<and> chunk_pulls st \<le> 3 * 1024"
  using refetch_run_bounded [OF demo_refetch_exclusive demo_refetch_ok(1), of demo_wire demo_cbor demo_refetcher "{}"]
  by (simp add: demo_refetcher_def default_limits_def) blast


theorem refetch_private_fails_closed_witness:
  "\<exists>st'. refetch_file demo_lib demo_wire demo_cbor
       (demo_refetch_env\<lparr>re_chain := (\<lambda>_. demo_trigger\<lparr>tr_file_info_v2 := (\<lambda>_. Inr (Some (demo_info\<lparr>fi_visibility := 1\<rparr>)))\<rparr>)\<rparr>)
       demo_refetcher demo_chunk_root (refetch_start demo_vd {}) = Some st' \<and> rs_pulls st' = []"
proof -
  let ?info = "demo_info\<lparr>fi_visibility := 1\<rparr>"
  let ?E = "demo_refetch_env\<lparr>re_chain := (\<lambda>_. demo_trigger\<lparr>tr_file_info_v2 := (\<lambda>_. Inr (Some ?info))\<rparr>)\<rparr>"
  let ?shape = "\<lparr>fs_chunk_count = fi_chunk_count ?info, fs_assignment_height = fi_assignment_height ?info,
      fs_visibility = 1, fs_lifecycle = fi_lifecycle ?info\<rparr>"
  have s: "fetch_file_shape (re_chain ?E (rs_clock (refetch_start demo_vd {}))) demo_chunk_root = Inr ?shape"
    by (simp add: fetch_file_shape_def)
  have "is_private (fs_visibility ?shape)" by (simp add: is_private_def)
  from refetch_private_fails_closed [OF s this, of demo_lib demo_wire demo_cbor demo_refetcher]
  show ?thesis by (auto simp: untouched_def refetch_start_def)
qed

theorem plan_refetch_exact_witness:
  "set (map cp_chunk_index (plan_refetch demo_wire demo_chunk_root 2 [(5, [replicate 20 2]), (6, demo_nodes)] 3 (replicate 20 1) {}))
     = {i. i < 2}"
  using plan_refetch_exact [OF demo_wire_ok, of "[(5, [replicate 20 2]), (6, demo_nodes)]" "[]" 5 "[replicate 20 2]" 6 demo_nodes
      demo_chunk_root 2 3 "replicate 20 1" "{}"]
  by (simp add: demo_wire_def assigned_archives_def presorted_addresses_def demo_nodes_def)

theorem one_honest_source_suffices_witness:
  "\<exists>st'. fetch_planned demo_lib demo_wire demo_refetch_env default_limits demo_chunk_root demo_refetch_manifest
       (build (blake3 demo_lib) (map cd_hash (chunks demo_refetch_manifest)))
       [\<lparr>cp_chunk_index = 0, cp_sources = [replicate 20 2, replicate 20 3]\<rparr>] (refetch_start demo_vd {}) = Some st'
     \<and> rr_fetched (rs_report st') = [(demo_chunk_root, 0)]"
proof -
  have p: "path = []" if "verify_merkle_proof_bytes_for_tree (blake3 demo_lib) h 0 path r 1" for h path r
    using that by (simp add: verify_merkle_proof_bytes_for_tree_def expected_proof_depth_def split: if_splits)
  show ?thesis
    using one_honest_source_suffices [of "refetch_start demo_vd {}" default_limits 0 demo_refetch_manifest 1
        "[replicate 20 2, replicate 20 3]" demo_refetch_env demo_lib "[7]" demo_wire demo_chunk_root] demo_accept_refetched p
    by (fastforce simp: demo_refetch_manifest_def demo_desc_def refetch_start_def report_default_def attempted_def default_limits_def
        demo_refetch_env_def less_Suc_eq u32_of_def demo_lib_def)
qed

end
