(* ===== verification/Reassign.thy ===== *)
theory Reassign
  imports Chain_Client
begin

text \<open>
  The owner's reassignment command (\<open>sum-node/src/reassign_v2.rs\<close>): the N2 policy over one coverage
  response, the read-stability loop, the verification of the transaction the chain built, and the whole
  flow up to finality. The chain's answers are given per call; the wire crate's codec and base58 are the
  fields of \<open>tx_codec\<close> and \<open>sign_lib\<close>.
\<close>

section \<open>Data\<close>

definition READ_ATTEMPTS :: nat where "READ_ATTEMPTS = 3"

record block_head_info =
  bh_height :: u64
  bh_hash :: string
  bh_state_root :: string

record storage_build_response =
  sb_unsigned_tx :: string
  sb_signing_hash :: string
  sb_from :: string
  sb_nonce :: u64
  sb_fee :: u128
  sb_chain_id :: u64

record reassign_request =
  rq_merkle_root :: hash
  rq_chain_id :: u64
  rq_fee :: u128
  rq_dry_run :: bool
  rq_poll_interval :: nat
  rq_finality_timeout :: nat

datatype assigned_evidence = ChainCount u32 | LocalFirstChunk u32

record departed_assignee =
  da_archive :: string
  da_evidence :: assigned_evidence

datatype n2_verdict =
    Departed departed_assignee
  | NoDeparted "string list"

datatype n2_error = Inconsistent string | Unusable string

datatype reassign_failure =
    RpcFailure string
  | SigningFailure string
  | DroppedTx string
  | FinalityTimeout string tx_status_v2

datatype reassign_outcome =
    Reassigned string u64 departed_assignee
  | DryRun u64 u128 string departed_assignee block_head_info
  | NotRegistered
  | NotOwner string
  | NotNeeded "u64 option"
  | NoDepartedAssignee u64 "string list" block_head_info
  | UnstableRead nat string
  | UnusableCoverage string
  | BuildMismatch string
  | Refused string "u64 option" string
  | ReassignFailed reassign_failure

text \<open>The wire crate and the hex crate, and the chain at each call of one command.\<close>

record tx_codec =
  tc_from_base58 :: "string \<Rightarrow> string + addr20"
  tc_from_bytes :: "bytes \<Rightarrow> string + transaction_v2"
  tc_to_bytes :: "transaction_v2 \<Rightarrow> bytes"
  tc_hex_decode :: "string \<Rightarrow> string + bytes"

record reassign_rpc =
  rx_file_info :: "string \<Rightarrow> string + storage_file_info_v2 option"
  rx_chain_params :: "string + chain_params_info"
  rx_head_1 :: "nat \<Rightarrow> string + block_head_info"
  rx_coverage_1 :: "nat \<Rightarrow> string \<Rightarrow> string + assignment_coverage_v2 option"
  rx_coverage_2 :: "nat \<Rightarrow> string \<Rightarrow> string + assignment_coverage_v2 option"
  rx_head_2 :: "nat \<Rightarrow> string + block_head_info"
  rx_build :: "string \<Rightarrow> string \<Rightarrow> u128 \<Rightarrow> string + storage_build_response"
  rx_send :: "string \<Rightarrow> string + string"
  rx_wait :: "string \<Rightarrow> wait_env"
  rx_wait_start :: nat

type_synonym assignment_oracle = "hash \<Rightarrow> u32 \<Rightarrow> addr20 list \<Rightarrow> u32 \<Rightarrow> addr20 list \<Rightarrow> (u32 \<times> addr20) option"

definition chain_scorer :: "wire_lib \<Rightarrow> assignment_oracle" where
  "chain_scorer W rt n snapshot rf targets = first_chunk_assigned_to_any W rt n snapshot rf targets"

section \<open>N2: is there a departed assignee?\<close>

fun snapshot_of :: "tx_codec \<Rightarrow> archive_coverage_summary_v2 list \<Rightarrow> n2_error + addr20 list" where
  "snapshot_of C [] = Inr []"
| "snapshot_of C (entry # es) =
     (case tc_from_base58 C (as_archive entry) of
        Inl e \<Rightarrow> Inl (Unusable (''archive '' @ as_archive entry @ '' is not an L1 address: '' @ e))
      | Inr a \<Rightarrow> map_sum id ((#) a) (snapshot_of C es))"

definition counted_hit :: "(archive_coverage_summary_v2 \<times> addr20) list \<Rightarrow> departed_assignee option" where
  "counted_hit departed =
     map_option (\<lambda>(e, _). \<lparr>da_archive = as_archive e, da_evidence = ChainCount (the (as_assigned_count e))\<rparr>)
       (find (\<lambda>(e, _). case as_assigned_count e of Some n \<Rightarrow> 0 < n | None \<Rightarrow> False) departed)"

definition local_hit ::
    "sign_lib \<Rightarrow> assignment_oracle \<Rightarrow> hash \<Rightarrow> u32 \<Rightarrow> addr20 list \<Rightarrow> u32 \<Rightarrow> (archive_coverage_summary_v2 \<times> addr20) list
       \<Rightarrow> departed_assignee option" where
  "local_hit S oracle rt n snapshot rf departed =
     (let uncounted = map snd (filter (\<lambda>(e, _). as_assigned_count e = None) departed) in
      if uncounted = [] then None
      else map_option (\<lambda>(chunk, who). \<lparr>da_archive = sl_to_base58 S who, da_evidence = LocalFirstChunk chunk\<rparr>)
             (oracle rt n snapshot rf uncounted))"

definition evaluate_n2 ::
    "sign_lib \<Rightarrow> tx_codec \<Rightarrow> assignment_oracle \<Rightarrow> assignment_coverage_v2 \<Rightarrow> hash \<Rightarrow> u32 \<Rightarrow> n2_error + n2_verdict" where
  "evaluate_n2 S C oracle coverage rt rf =
     (if rf = 0 then Inl (Unusable ''the chain reports assignment_replication_factor 0'')
      else
        (case resolved_latest_epoch coverage of
           None \<Rightarrow> Inl (Unusable ''the coverage response has no assignment epochs (pre-reassignment chain)'')
         | Some latest_epoch \<Rightarrow>
             if length (ac_per_epoch coverage) \<noteq> length (ac_assignment_epochs coverage) then
               Inl (Unusable (''per_epoch has '' @ dec_of_nat (length (ac_per_epoch coverage)) @ '' entries for ''
                     @ dec_of_nat (length (ac_assignment_epochs coverage)) @ '' assignment epochs''))
             else if ac_per_epoch coverage = [] then Inl (Unusable ''per_epoch is empty'')
             else
               (let latest = last (ac_per_epoch coverage) in
                if ep_epoch_height latest \<noteq> latest_epoch then
                  Inl (Unusable (''the last per_epoch entry is for height '' @ dec_of_nat (unat (ep_epoch_height latest))
                        @ '', not the latest epoch '' @ dec_of_nat (unat latest_epoch)))
                else
                  (case snapshot_of C (ep_per_archive latest) of
                     Inl e \<Rightarrow> Inl e
                   | Inr snapshot \<Rightarrow>
                      (let departed = filter (\<lambda>(e, _). \<not> as_currently_active e) (zip (ep_per_archive latest) snapshot) in
                       if departed = [] then
                         Inl (Inconsistent ''reassignment_needed is set, but every archive in the latest snapshot is active'')
                       else
                         (case counted_hit departed of
                            Some d \<Rightarrow> Inr (Departed d)
                          | None \<Rightarrow>
                             (case local_hit S oracle rt (ac_chunk_count coverage) snapshot rf departed of
                                Some d \<Rightarrow> Inr (Departed d)
                              | None \<Rightarrow> Inr (NoDeparted (map (\<lambda>(e, _). as_archive e) departed)))))))))"

section \<open>The built transaction\<close>

definition decode_hex_field :: "tx_codec \<Rightarrow> string \<Rightarrow> string \<Rightarrow> string + bytes" where
  "decode_hex_field C field value =
     (case tc_hex_decode C (case strip_prefix ''0x'' value of Some t \<Rightarrow> t | None \<Rightarrow> value) of
        Inl e \<Rightarrow> Inl (field @ '' is not hex: '' @ e)
      | Inr b \<Rightarrow> Inr b)"

definition verify_unsigned_reassign ::
    "sign_lib \<Rightarrow> tx_codec \<Rightarrow> storage_build_response \<Rightarrow> addr20 \<Rightarrow> hash \<Rightarrow> u64 \<Rightarrow> u128 \<Rightarrow> string + transaction_v2" where
  "verify_unsigned_reassign S C resp expected_from rt chain_id fee =
     (case decode_hex_field C ''unsigned_tx'' (sb_unsigned_tx resp) of
        Inl e \<Rightarrow> Inl e
      | Inr b \<Rightarrow>
         (case tc_from_bytes C b of
            Inl e \<Rightarrow> Inl (''unsigned_tx does not decode as one TransactionV2: '' @ e)
          | Inr tx \<Rightarrow>
              if tc_to_bytes C tx \<noteq> b then Inl ''unsigned_tx is not the canonical encoding of its transaction''
              else if tx_chain_id tx \<noteq> chain_id then
                Inl (''chain_id is '' @ dec_of_nat (unat (tx_chain_id tx)) @ '', expected '' @ dec_of_nat (unat chain_id))
              else if tx_from tx \<noteq> expected_from then
                Inl (''sender is '' @ sl_to_base58 S (tx_from tx) @ '', expected '' @ sl_to_base58 S expected_from)
              else if tx_fee tx \<noteq> fee then
                Inl (''fee is '' @ dec_of_nat (unat (tx_fee tx)) @ '', expected '' @ dec_of_nat (unat fee))
              else if tx_payload tx \<noteq> StorageMetadataV2 (ReassignChunksV2 rt) then
                Inl (''payload is not ReassignChunksV2 for 0x'' @ hex_encode rt)
              else if sb_from resp \<noteq> sl_to_base58 S (tx_from tx) then
                Inl (''response `from` '' @ sb_from resp @ '' disagrees with the transaction sender'')
              else if sb_nonce resp \<noteq> tx_nonce tx then
                Inl (''response nonce '' @ dec_of_nat (unat (sb_nonce resp)) @ '' disagrees with the transaction nonce ''
                      @ dec_of_nat (unat (tx_nonce tx)))
              else if sb_fee resp \<noteq> tx_fee tx then
                Inl (''response fee '' @ dec_of_nat (unat (sb_fee resp)) @ '' disagrees with the transaction fee ''
                      @ dec_of_nat (unat (tx_fee tx)))
              else if sb_chain_id resp \<noteq> tx_chain_id tx then
                Inl (''response chain_id '' @ dec_of_nat (unat (sb_chain_id resp))
                      @ '' disagrees with the transaction chain_id '' @ dec_of_nat (unat (tx_chain_id tx)))
              else
                (case decode_hex_field C ''signing_hash'' (sb_signing_hash resp) of
                   Inl e \<Rightarrow> Inl e
                 | Inr h \<Rightarrow>
                     if h \<noteq> sl_signing_hash S tx then Inl ''response signing_hash is not the hash of unsigned_tx''
                     else Inr tx)))"

section \<open>The command\<close>

definition head_changed :: "block_head_info \<Rightarrow> block_head_info \<Rightarrow> string" where
  "head_changed a b = ''the chain head changed during the reads: height '' @ dec_of_nat (unat (bh_height a)) @ '' hash ''
     @ bh_hash a @ '' state root '' @ bh_state_root a @ '' -> height '' @ dec_of_nat (unat (bh_height b)) @ '' hash ''
     @ bh_hash b @ '' state root '' @ bh_state_root b"

text \<open>Attempts \<open>k\<close> on, with \<open>left\<close> of them to go.\<close>

fun read_attempts ::
    "sign_lib \<Rightarrow> tx_codec \<Rightarrow> assignment_oracle \<Rightarrow> reassign_rpc \<Rightarrow> hash \<Rightarrow> string \<Rightarrow> u32 \<Rightarrow> nat \<Rightarrow> nat \<Rightarrow> string
       \<Rightarrow> reassign_outcome + n2_verdict \<times> assignment_coverage_v2 \<times> block_head_info" where
  "read_attempts S C oracle rpc rt root_hex rf k 0 last_reason = Inl (UnstableRead READ_ATTEMPTS last_reason)"
| "read_attempts S C oracle rpc rt root_hex rf k (Suc left) last_reason =
     (case rx_head_1 rpc k of
        Inl e \<Rightarrow> Inl (ReassignFailed (RpcFailure e))
      | Inr head_1 \<Rightarrow>
     (case rx_coverage_1 rpc k root_hex of
        Inl e \<Rightarrow> Inl (ReassignFailed (RpcFailure e))
      | Inr None \<Rightarrow> Inl NotRegistered
      | Inr (Some first) \<Rightarrow>
          if \<not> ac_reassignment_needed first then Inl (NotNeeded (resolved_latest_epoch first))
          else
     (case rx_coverage_2 rpc k root_hex of
        Inl e \<Rightarrow> Inl (ReassignFailed (RpcFailure e))
      | Inr None \<Rightarrow> Inl NotRegistered
      | Inr (Some second) \<Rightarrow>
     (case rx_head_2 rpc k of
        Inl e \<Rightarrow> Inl (ReassignFailed (RpcFailure e))
      | Inr head_2 \<Rightarrow>
          if head_1 \<noteq> head_2 then
            read_attempts S C oracle rpc rt root_hex rf (Suc k) left (head_changed head_1 head_2)
          else if first \<noteq> second then
            read_attempts S C oracle rpc rt root_hex rf (Suc k) left ''the two coverage reads differ''
          else
            (case evaluate_n2 S C oracle first rt rf of
               Inr v \<Rightarrow> Inr (v, first, head_1)
             | Inl (Inconsistent reason) \<Rightarrow> read_attempts S C oracle rpc rt root_hex rf (Suc k) left reason
             | Inl (Unusable reason) \<Rightarrow> Inl (UnusableCoverage reason))))))"

fun wait_outcome :: "string \<Rightarrow> departed_assignee \<Rightarrow> tx_wait_error + u64 \<Rightarrow> reassign_outcome" where
  "wait_outcome tx_hash d (Inr height) = Reassigned tx_hash height d"
| "wait_outcome tx_hash d (Inl (WaitFailed block_height reason)) = Refused tx_hash block_height reason"
| "wait_outcome tx_hash d (Inl WaitDropped) = ReassignFailed (DroppedTx tx_hash)"
| "wait_outcome tx_hash d (Inl (WaitTimeout status)) = ReassignFailed (FinalityTimeout tx_hash status)"
| "wait_outcome tx_hash d (Inl (WaitRpc e)) = ReassignFailed (RpcFailure e)"

text \<open>Building, verifying, signing and submitting, with what was sent.\<close>

definition submit_reassign ::
    "sign_lib \<Rightarrow> tx_codec \<Rightarrow> reassign_rpc \<Rightarrow> bytes \<Rightarrow> reassign_request \<Rightarrow> string \<Rightarrow> departed_assignee \<Rightarrow> block_head_info
       \<Rightarrow> (reassign_outcome \<times> string list) option" where
  "submit_reassign S C rpc seed req root_hex departed head =
     (let own = sl_address S (sl_verifying_key S seed) in
      case rx_build rpc (sl_to_base58 S own) root_hex (rq_fee req) of
        Inl e \<Rightarrow> Some (ReassignFailed (RpcFailure e), [])
      | Inr resp \<Rightarrow>
         (case verify_unsigned_reassign S C resp own (rq_merkle_root req) (rq_chain_id req) (rq_fee req) of
            Inl reason \<Rightarrow> Some (BuildMismatch reason, [])
          | Inr tx \<Rightarrow>
              if rq_dry_run req then Some (DryRun (tx_nonce tx) (tx_fee tx) (sb_signing_hash resp) departed head, [])
              else
                (case sign_transaction_v2 S seed tx of
                   Inl e \<Rightarrow> Some (ReassignFailed (SigningFailure e), [])
                 | Inr signed_hex \<Rightarrow>
                    (case rx_send rpc signed_hex of
                       Inl e \<Rightarrow> Some (ReassignFailed (RpcFailure e), [signed_hex])
                     | Inr tx_hash \<Rightarrow>
                         map_option (\<lambda>r. (wait_outcome tx_hash departed r, [signed_hex]))
                           (wait_for_finalized (rx_wait rpc tx_hash) (rx_wait_start rpc) (rq_poll_interval req)
                              (rq_finality_timeout req))))))"

definition reassign_chunks_v2_with ::
    "sign_lib \<Rightarrow> tx_codec \<Rightarrow> reassign_rpc \<Rightarrow> bytes \<Rightarrow> reassign_request \<Rightarrow> assignment_oracle
       \<Rightarrow> (reassign_outcome \<times> string list) option" where
  "reassign_chunks_v2_with S C rpc seed req oracle =
     (let own = sl_address S (sl_verifying_key S seed);
          own_b58 = sl_to_base58 S own;
          root_hex = ''0x'' @ hex_encode (rq_merkle_root req) in
      case rx_file_info rpc root_hex of
        Inl e \<Rightarrow> Some (ReassignFailed (RpcFailure e), [])
      | Inr None \<Rightarrow> Some (NotRegistered, [])
      | Inr (Some info) \<Rightarrow>
          if fi_owner info \<noteq> own_b58 then Some (NotOwner (fi_owner info), [])
          else
            (case rx_chain_params rpc of
               Inl e \<Rightarrow> Some (ReassignFailed (RpcFailure e), [])
             | Inr p \<Rightarrow>
                (case read_attempts S C oracle rpc (rq_merkle_root req) root_hex (cpi_assignment_replication_factor p)
                        0 READ_ATTEMPTS [] of
                   Inl refusal \<Rightarrow> Some (refusal, [])
                 | Inr (NoDeparted departed, coverage, head) \<Rightarrow>
                     Some (NoDepartedAssignee (ac_latest_assignment_epoch coverage) departed head, [])
                 | Inr (Departed departed, coverage, head) \<Rightarrow>
                     submit_reassign S C rpc seed req root_hex departed head)))"

definition reassign_chunks_v2 ::
    "sign_lib \<Rightarrow> tx_codec \<Rightarrow> wire_lib \<Rightarrow> reassign_rpc \<Rightarrow> bytes \<Rightarrow> reassign_request
       \<Rightarrow> (reassign_outcome \<times> string list) option" where
  "reassign_chunks_v2 S C W rpc seed req = reassign_chunks_v2_with S C rpc seed req (chain_scorer W)"

section \<open>N2 is exact\<close>

text \<open>
  An archive of the latest snapshot holds a chunk of the file: on the chain's count where it gives one,
  and by the assignment otherwise.
\<close>

definition holds_chunk ::
    "wire_lib \<Rightarrow> hash \<Rightarrow> u32 \<Rightarrow> addr20 list \<Rightarrow> u32 \<Rightarrow> archive_coverage_summary_v2 \<Rightarrow> addr20 \<Rightarrow> bool" where
  "holds_chunk W rt n snapshot rf e a \<longleftrightarrow>
     (case as_assigned_count e of
        Some k \<Rightarrow> 0 < k
      | None \<Rightarrow> \<exists>i < n. a \<in> set (assigned_archives W rt snapshot i rf))"

lemma snapshot_of_Inr:
  "snapshot_of C es = Inr s \<longleftrightarrow> list_all2 (\<lambda>e a. tc_from_base58 C (as_archive e) = Inr a) es s"
proof (induction es arbitrary: s)
  case (Cons e es)
  show ?case
  proof (cases "tc_from_base58 C (as_archive e)")
    case (Inl x)
    then show ?thesis by (cases s) simp_all
  next
    case (Inr a)
    then have "snapshot_of C (e # es) = Inr s \<longleftrightarrow> (\<exists>s'. s = a # s' \<and> snapshot_of C es = Inr s')"
      by (cases "snapshot_of C es") auto
    then show ?thesis using Inr by (cases s) (auto simp: Cons.IH)
  qed
qed auto

lemma counted_hit_Some:
  assumes "counted_hit dep = Some d"
  shows "\<exists>e a k. (e, a) \<in> set dep \<and> as_assigned_count e = Some k \<and> 0 < k
    \<and> d = \<lparr>da_archive = as_archive e, da_evidence = ChainCount k\<rparr>"
proof -
  obtain e a where f: "find (\<lambda>(e, _). case as_assigned_count e of Some n \<Rightarrow> 0 < n | None \<Rightarrow> False) dep = Some (e, a)"
    and d: "d = \<lparr>da_archive = as_archive e, da_evidence = ChainCount (the (as_assigned_count e))\<rparr>"
    using assms by (auto simp: counted_hit_def)
  from find_SomeD [OF f] have "(e, a) \<in> set dep" "\<exists>k. as_assigned_count e = Some k \<and> 0 < k"
    by (auto split: option.splits)
  then show ?thesis using d by auto
qed

lemma counted_hit_None: "counted_hit dep = None \<longleftrightarrow> (\<forall>(e, a) \<in> set dep. \<forall>k. as_assigned_count e = Some k \<longrightarrow> k = 0)"
  by (fastforce simp: counted_hit_def find_None_iff word_gt_0 split: option.splits)

lemma local_hit_scorer:
  assumes "wire_ok W"
  shows "case local_hit S (chain_scorer W) rt n s rf dep of
      None \<Rightarrow> \<forall>(e, a) \<in> set dep. as_assigned_count e = None \<longrightarrow> \<not> holds_chunk W rt n s rf e a
    | Some d \<Rightarrow> \<exists>e a i. (e, a) \<in> set dep \<and> as_assigned_count e = None \<and> i < n \<and> a \<in> set (assigned_archives W rt s i rf)
        \<and> d = \<lparr>da_archive = sl_to_base58 S a, da_evidence = LocalFirstChunk i\<rparr>"
proof -
  let ?un = "map snd (filter (\<lambda>(e, _). as_assigned_count e = None) dep)"
  note c = first_chunk_assigned_to_any_correct [OF assms, where r = rt and n = n and snapshot = s and R = rf and targets = ?un]
  show ?thesis
  proof (cases "chain_scorer W rt n s rf ?un")
    case None
    then have no: "\<forall>i < unat n. set (assigned_archives W rt s (u32_of i) rf) \<inter> set ?un = {}"
      using c by (simp add: chain_scorer_def)
    have "a \<notin> set (assigned_archives W rt s i rf)" if "i < n" "a \<in> set ?un" for a i
    proof -
      have "u32_of (unat i) = i" "unat i < unat n" using that(1) by (simp_all add: u32_of_def word_less_nat_alt)
      moreover from this have "set (assigned_archives W rt s (u32_of (unat i)) rf) \<inter> set ?un = {}" using no by blast
      ultimately show ?thesis using that(2) by auto
    qed
    then show ?thesis using None by (fastforce simp: local_hit_def holds_chunk_def Let_def)
  next
    case (Some x)
    then obtain i a where x: "x = (i, a)" "a \<in> set ?un" "a \<in> set (assigned_archives W rt s i rf)" "i < n"
      using c by (cases x) (auto simp: chain_scorer_def word_less_nat_alt)
    have "?un \<noteq> []" using x(2) by (metis empty_iff list.set(1))
    then have "local_hit S (chain_scorer W) rt n s rf dep = Some \<lparr>da_archive = sl_to_base58 S a, da_evidence = LocalFirstChunk i\<rparr>"
      using Some x(1) by (simp add: local_hit_def)
    moreover obtain e where "(e, a) \<in> set dep" "as_assigned_count e = None" using x(2) by auto
    ultimately show ?thesis using x(3,4) by auto
  qed
qed

text \<open>
  C26. The N2 policy decides what it means to. Whenever a coverage response yields a verdict with the chain's
  assignment, it is to submit exactly if some archive that has left the active set holds a chunk of the
  file under the latest epoch; the archive named is such an archive, and a chunk index given as evidence
  is assigned to it. Otherwise the verdict lists exactly the archives that have left.
\<close>

theorem n2_verdict_exact:
  assumes "wire_ok W" and "\<forall>s a. tc_from_base58 C s = Inr a \<longrightarrow> sl_to_base58 S a = s"
    and "evaluate_n2 S C (chain_scorer W) coverage rt rf = Inr v"
  shows "\<exists>latest snapshot. latest = last (ac_per_epoch coverage) \<and> resolved_latest_epoch coverage = Some (ep_epoch_height latest)
      \<and> snapshot_of C (ep_per_archive latest) = Inr snapshot
      \<and> (case v of
           Departed d \<Rightarrow> \<exists>j < length snapshot. let e = ep_per_archive latest ! j in
             \<not> as_currently_active e \<and> da_archive d = as_archive e
             \<and> holds_chunk W rt (ac_chunk_count coverage) snapshot rf e (snapshot ! j)
             \<and> (\<forall>i. da_evidence d = LocalFirstChunk i \<longrightarrow>
                  i < ac_chunk_count coverage \<and> snapshot ! j \<in> set (assigned_archives W rt snapshot i rf))
         | NoDeparted l \<Rightarrow> l = map as_archive (filter (\<lambda>e. \<not> as_currently_active e) (ep_per_archive latest))
             \<and> (\<forall>j < length snapshot. let e = ep_per_archive latest ! j in
                  \<not> as_currently_active e \<longrightarrow> \<not> holds_chunk W rt (ac_chunk_count coverage) snapshot rf e (snapshot ! j)))"
proof -
  define latest where "latest = last (ac_per_epoch coverage)"
  let ?n = "ac_chunk_count coverage" and ?es = "ep_per_archive latest"
  obtain snapshot where s: "snapshot_of C ?es = Inr snapshot" and le: "resolved_latest_epoch coverage = Some (ep_epoch_height latest)"
    using assms(3) unfolding evaluate_n2_def latest_def by (auto simp: Let_def split: if_splits option.splits sum.splits)
  define dep where "dep = filter (\<lambda>(e, _). \<not> as_currently_active e) (zip ?es snapshot)"
  have v: "v = (case counted_hit dep of Some d \<Rightarrow> Departed d
      | None \<Rightarrow> (case local_hit S (chain_scorer W) rt ?n snapshot rf dep of Some d \<Rightarrow> Departed d
                 | None \<Rightarrow> NoDeparted (map (\<lambda>(e, _). as_archive e) dep)))"
    using assms(3) s le unfolding evaluate_n2_def dep_def latest_def by (auto simp: Let_def split: if_splits option.splits)
  have l2: "list_all2 (\<lambda>e a. tc_from_base58 C (as_archive e) = Inr a) ?es snapshot" using s by (simp add: snapshot_of_Inr)
  have len: "length ?es = length snapshot" using list_all2_lengthD [OF l2] .
  have mem: "(e, a) \<in> set dep \<longleftrightarrow> (\<exists>j < length snapshot. e = ?es ! j \<and> a = snapshot ! j \<and> \<not> as_currently_active e)" for e a
    using len by (auto simp: dep_def set_zip)
  have name: "sl_to_base58 S a = as_archive e" if "(e, a) \<in> set dep" for e a
  proof -
    from that have "\<exists>j < length snapshot. e = ?es ! j \<and> a = snapshot ! j \<and> \<not> as_currently_active e" by (simp only: mem)
    then obtain j where j: "j < length snapshot" "e = ?es ! j" "a = snapshot ! j" by blast
    have "tc_from_base58 C (as_archive (?es ! j)) = Inr (snapshot ! j)" using list_all2_nthD2 [OF l2 j(1)] .
    then show ?thesis using assms(2) j by simp
  qed
  have "case v of
       Departed d \<Rightarrow> \<exists>j < length snapshot. let e = ?es ! j in
         \<not> as_currently_active e \<and> da_archive d = as_archive e \<and> holds_chunk W rt ?n snapshot rf e (snapshot ! j)
         \<and> (\<forall>i. da_evidence d = LocalFirstChunk i \<longrightarrow> i < ?n \<and> snapshot ! j \<in> set (assigned_archives W rt snapshot i rf))
     | NoDeparted l \<Rightarrow> l = map as_archive (filter (\<lambda>e. \<not> as_currently_active e) ?es)
         \<and> (\<forall>j < length snapshot. let e = ?es ! j in
              \<not> as_currently_active e \<longrightarrow> \<not> holds_chunk W rt ?n snapshot rf e (snapshot ! j))"
  proof (cases "counted_hit dep")
    case (Some d)
    then obtain e a k where d: "(e, a) \<in> set dep" "as_assigned_count e = Some k" "0 < k"
        "d = \<lparr>da_archive = as_archive e, da_evidence = ChainCount k\<rparr>" using counted_hit_Some by blast
    then show ?thesis using v Some mem by (auto simp: holds_chunk_def Let_def)
  next
    case c: None
    note lh = local_hit_scorer [OF assms(1), where S = S and rt = rt and n = ?n and s = snapshot and rf = rf and dep = dep]
    show ?thesis
    proof (cases "local_hit S (chain_scorer W) rt ?n snapshot rf dep")
      case (Some d)
      then obtain e a i where d: "(e, a) \<in> set dep" "as_assigned_count e = None" "i < ?n"
          "a \<in> set (assigned_archives W rt snapshot i rf)" "d = \<lparr>da_archive = sl_to_base58 S a, da_evidence = LocalFirstChunk i\<rparr>"
        using lh by auto
      obtain j where "j < length snapshot" "e = ?es ! j" "a = snapshot ! j" "\<not> as_currently_active e" using d(1) mem by blast
      moreover from this have "holds_chunk W rt ?n snapshot rf (?es ! j) (snapshot ! j)" using d by (auto simp: holds_chunk_def)
      ultimately show ?thesis using v c Some d name [OF d(1)] by (auto simp: Let_def intro!: exI [of _ j])
    next
      case None
      have "map (\<lambda>(e, _). as_archive e) (filter (\<lambda>(e, _). \<not> as_currently_active e) (zip es xs))
          = map as_archive (filter (\<lambda>e. \<not> as_currently_active e) es)" if "length es = length xs" for es and xs :: "addr20 list"
        using that by (induction es xs rule: list_induct2) auto
      from this [OF len] have "map (\<lambda>(e, _). as_archive e) dep = map as_archive (filter (\<lambda>e. \<not> as_currently_active e) ?es)"
        unfolding dep_def .
      moreover have "\<not> holds_chunk W rt ?n snapshot rf (?es ! j) (snapshot ! j)"
        if "j < length snapshot" "\<not> as_currently_active (?es ! j)" for j
      proof -
        have m: "(?es ! j, snapshot ! j) \<in> set dep" using that mem by blast
        show ?thesis
        proof (cases "as_assigned_count (?es ! j)")
          case x: None
          then show ?thesis using lh None m by auto
        next
          case (Some k)
          then have "k = 0" using c m counted_hit_None by blast
          then show ?thesis using Some by (simp add: holds_chunk_def)
        qed
      qed
      ultimately show ?thesis using v c None by (simp add: Let_def)
    qed
  qed
  then show ?thesis using s le latest_def by blast
qed

section \<open>Authority\<close>

lemma verified_is_own:
  assumes "verify_unsigned_reassign S C resp (sl_address S (sl_verifying_key S seed)) rt c f = Inr tx"
  shows "tx = own_tx S seed c (sb_nonce resp) f (StorageMetadataV2 (ReassignChunksV2 rt))"
  using assms by (auto simp: verify_unsigned_reassign_def own_tx_def split: sum.splits if_splits)

lemma read_attempts_Inr:
  "read_attempts S C oracle rpc rt root_hex rf k left reason = Inr (v, coverage, head) \<Longrightarrow>
     \<exists>j. k \<le> j \<and> j < k + left \<and> rx_head_1 rpc j = Inr head \<and> rx_head_2 rpc j = Inr head
       \<and> rx_coverage_1 rpc j root_hex = Inr (Some coverage) \<and> rx_coverage_2 rpc j root_hex = Inr (Some coverage)
       \<and> ac_reassignment_needed coverage \<and> evaluate_n2 S C oracle coverage rt rf = Inr v"
proof (induction left arbitrary: k reason)
  case (Suc left)
  have go: "\<exists>j. k \<le> j \<and> j < k + Suc left \<and> rx_head_1 rpc j = Inr head \<and> rx_head_2 rpc j = Inr head
       \<and> rx_coverage_1 rpc j root_hex = Inr (Some coverage) \<and> rx_coverage_2 rpc j root_hex = Inr (Some coverage)
       \<and> ac_reassignment_needed coverage \<and> evaluate_n2 S C oracle coverage rt rf = Inr v"
    if "read_attempts S C oracle rpc rt root_hex rf (Suc k) left r = Inr (v, coverage, head)" for r
    using Suc.IH [OF that] by (metis Suc_leD add_Suc_right add_Suc)
  show ?case
    using Suc.prems go by (auto split: sum.splits option.splits if_splits n2_error.splits)
qed simp

definition settled_by_chain :: "reassign_outcome \<Rightarrow> bool" where
  "settled_by_chain outcome \<longleftrightarrow> (\<exists>h b d. outcome = Reassigned h b d) \<or> (\<exists>h b r. outcome = Refused h b r)"

lemma read_attempts_Inl:
  "read_attempts S C oracle rpc rt root_hex rf k left reason = Inl outcome \<Longrightarrow> \<not> settled_by_chain outcome"
proof (induction left arbitrary: k reason)
  case (Suc left)
  show ?case
    using Suc.prems Suc.IH by (auto simp: settled_by_chain_def split: sum.splits option.splits if_splits n2_error.splits)
qed (auto simp: settled_by_chain_def)

lemma submit_cases:
  assumes "submit_reassign S C rpc seed req root_hex d head = Some (outcome, sent)" and "sign_ok S"
  shows "sent = [] \<and> \<not> settled_by_chain outcome
    \<or> (\<exists>signed nonce. sent = [signed] \<and> \<not> rq_dry_run req \<and> authentic S signed = Some (own_tx S seed (rq_chain_id req) nonce (rq_fee req)
          (StorageMetadataV2 (ReassignChunksV2 (rq_merkle_root req)))))"
proof -
  let ?own = "sl_address S (sl_verifying_key S seed)"
  show ?thesis
  proof (cases "\<exists>resp tx signed. rx_build rpc (sl_to_base58 S ?own) root_hex (rq_fee req) = Inr resp
      \<and> verify_unsigned_reassign S C resp ?own (rq_merkle_root req) (rq_chain_id req) (rq_fee req) = Inr tx
      \<and> \<not> rq_dry_run req \<and> sign_transaction_v2 S seed tx = Inr signed")
    case False
    then show ?thesis
      using assms(1) by (auto simp: submit_reassign_def settled_by_chain_def Let_def split: sum.splits if_splits)
  next
    case True
    then obtain resp tx signed where t: "rx_build rpc (sl_to_base58 S ?own) root_hex (rq_fee req) = Inr resp"
        "verify_unsigned_reassign S C resp ?own (rq_merkle_root req) (rq_chain_id req) (rq_fee req) = Inr tx"
        "\<not> rq_dry_run req" "sign_transaction_v2 S seed tx = Inr signed" by blast
    have "authentic S signed = Some tx" using sign_transaction_only_own [OF assms(2), where seed = seed and tx = tx] t(4) by simp
    moreover have "sent = [signed]" using assms(1) t by (auto simp: submit_reassign_def Let_def split: sum.splits)
    ultimately show ?thesis using verified_is_own [OF t(2)] t(3) by blast
  qed
qed

lemma reassign_cases:
  assumes "reassign_chunks_v2_with S C rpc seed req oracle = Some (outcome, sent)"
  obtains "sent = []" "\<not> settled_by_chain outcome"
  | info p coverage head d where "rx_file_info rpc (''0x'' @ hex_encode (rq_merkle_root req)) = Inr (Some info)"
      "fi_owner info = sl_to_base58 S (sl_address S (sl_verifying_key S seed))" "rx_chain_params rpc = Inr p"
      "read_attempts S C oracle rpc (rq_merkle_root req) (''0x'' @ hex_encode (rq_merkle_root req))
         (cpi_assignment_replication_factor p) 0 READ_ATTEMPTS [] = Inr (Departed d, coverage, head)"
      "submit_reassign S C rpc seed req (''0x'' @ hex_encode (rq_merkle_root req)) d head = Some (outcome, sent)"
proof -
  let ?root_hex = "''0x'' @ hex_encode (rq_merkle_root req)"
  show thesis
  proof (cases "\<exists>info p d coverage head. rx_file_info rpc ?root_hex = Inr (Some info)
      \<and> fi_owner info = sl_to_base58 S (sl_address S (sl_verifying_key S seed)) \<and> rx_chain_params rpc = Inr p
      \<and> read_attempts S C oracle rpc (rq_merkle_root req) ?root_hex (cpi_assignment_replication_factor p) 0 READ_ATTEMPTS []
          = Inr (Departed d, coverage, head)")
    case True
    then obtain info p d coverage head where r: "rx_file_info rpc ?root_hex = Inr (Some info)"
      "fi_owner info = sl_to_base58 S (sl_address S (sl_verifying_key S seed))" "rx_chain_params rpc = Inr p"
      "read_attempts S C oracle rpc (rq_merkle_root req) ?root_hex (cpi_assignment_replication_factor p) 0 READ_ATTEMPTS []
          = Inr (Departed d, coverage, head)" by blast
    then have "submit_reassign S C rpc seed req ?root_hex d head = Some (outcome, sent)"
      using assms by (simp add: reassign_chunks_v2_with_def Let_def)
    then show thesis using that(2) r by blast
  next
    case False
    have "sent = [] \<and> \<not> settled_by_chain outcome"
    proof (cases "rx_file_info rpc ?root_hex")
      case (Inl e)
      then show ?thesis using assms by (auto simp: reassign_chunks_v2_with_def settled_by_chain_def)
    next
      case (Inr io)
      show ?thesis
      proof (cases "\<exists>info p. io = Some info \<and> fi_owner info = sl_to_base58 S (sl_address S (sl_verifying_key S seed))
          \<and> rx_chain_params rpc = Inr p")
        case no: False
        then show ?thesis using assms Inr
          by (auto simp: reassign_chunks_v2_with_def settled_by_chain_def Let_def split: option.splits sum.splits if_splits)
      next
        case True
        then obtain info p where i: "io = Some info" "fi_owner info = sl_to_base58 S (sl_address S (sl_verifying_key S seed))"
            "rx_chain_params rpc = Inr p" by blast
        show ?thesis
        proof (cases "read_attempts S C oracle rpc (rq_merkle_root req) ?root_hex (cpi_assignment_replication_factor p) 0 READ_ATTEMPTS []")
          case (Inl o1)
          then show ?thesis using assms Inr i read_attempts_Inl [OF Inl] by (simp add: reassign_chunks_v2_with_def Let_def)
        next
          case res: (Inr x)
          obtain v coverage head where x: "x = (v, coverage, head)" by (cases x)
          then show ?thesis using assms Inr i res False
            by (cases v) (auto simp: reassign_chunks_v2_with_def Let_def settled_by_chain_def)
        qed
      qed
    qed
    then show thesis using that(1) by blast
  qed
qed

text \<open>
  C25. The command never oversteps. It sends at most one transaction; if it sends one, it was not a dry run,
  the chain names this key's address as the owner, one of three attempts read the same head before and
  after two identical coverage responses that ask for a reassignment and for which N2 names a departed
  archive, and what is sent is this account's reassignment of that very file with the requested chain
  and fee, whatever the builder returned. Only a sent transaction is ever reported as done or refused.
\<close>

theorem reassign_sends_only_justified:
  assumes "sign_ok S" and "reassign_chunks_v2_with S C rpc seed req oracle = Some (outcome, sent)"
  shows "length sent \<le> 1
    \<and> (\<forall>signed \<in> set sent. \<not> rq_dry_run req
        \<and> (\<exists>info. rx_file_info rpc (''0x'' @ hex_encode (rq_merkle_root req)) = Inr (Some info)
             \<and> fi_owner info = sl_to_base58 S (sl_address S (sl_verifying_key S seed)))
        \<and> (\<exists>p k head coverage d. rx_chain_params rpc = Inr p \<and> k < 3
             \<and> rx_head_1 rpc k = Inr head \<and> rx_head_2 rpc k = Inr head
             \<and> rx_coverage_1 rpc k (''0x'' @ hex_encode (rq_merkle_root req)) = Inr (Some coverage)
             \<and> rx_coverage_2 rpc k (''0x'' @ hex_encode (rq_merkle_root req)) = Inr (Some coverage)
             \<and> ac_reassignment_needed coverage
             \<and> evaluate_n2 S C oracle coverage (rq_merkle_root req) (cpi_assignment_replication_factor p) = Inr (Departed d))
        \<and> (\<exists>nonce. authentic S signed = Some (own_tx S seed (rq_chain_id req) nonce (rq_fee req)
             (StorageMetadataV2 (ReassignChunksV2 (rq_merkle_root req))))))
    \<and> ((\<exists>h b d. outcome = Reassigned h b d) \<or> (\<exists>h b r. outcome = Refused h b r) \<longrightarrow> length sent = 1)"
proof -
  let ?root_hex = "''0x'' @ hex_encode (rq_merkle_root req)" and ?own = "sl_address S (sl_verifying_key S seed)"
  consider (quiet) "sent = []" "\<not> settled_by_chain outcome"
    | (submitted) info p coverage head d where "rx_file_info rpc ?root_hex = Inr (Some info)" "fi_owner info = sl_to_base58 S ?own"
      "rx_chain_params rpc = Inr p" "read_attempts S C oracle rpc (rq_merkle_root req) ?root_hex
         (cpi_assignment_replication_factor p) 0 READ_ATTEMPTS [] = Inr (Departed d, coverage, head)"
      "submit_reassign S C rpc seed req ?root_hex d head = Some (outcome, sent)"
    using assms(2) by (rule reassign_cases)
  then show ?thesis
  proof cases
    case quiet
    then show ?thesis by (auto simp: settled_by_chain_def)
  next
    case submitted
    from read_attempts_Inr [OF submitted(4)]
    obtain k where k: "k < 3" "rx_head_1 rpc k = Inr head" "rx_head_2 rpc k = Inr head"
        "rx_coverage_1 rpc k ?root_hex = Inr (Some coverage)" "rx_coverage_2 rpc k ?root_hex = Inr (Some coverage)"
        "ac_reassignment_needed coverage"
        "evaluate_n2 S C oracle coverage (rq_merkle_root req) (cpi_assignment_replication_factor p) = Inr (Departed d)"
      by (auto simp: READ_ATTEMPTS_def)
    from submit_cases [OF submitted(5) assms(1)] show ?thesis
    proof (elim disjE exE conjE)
      assume "sent = []" "\<not> settled_by_chain outcome"
      then show ?thesis by (auto simp: settled_by_chain_def)
    next
      fix signed nonce
      assume t: "sent = [signed]" "\<not> rq_dry_run req"
        "authentic S signed = Some (own_tx S seed (rq_chain_id req) nonce (rq_fee req)
             (StorageMetadataV2 (ReassignChunksV2 (rq_merkle_root req))))"
      have "\<exists>p k head coverage d. rx_chain_params rpc = Inr p \<and> k < 3
             \<and> rx_head_1 rpc k = Inr head \<and> rx_head_2 rpc k = Inr head
             \<and> rx_coverage_1 rpc k ?root_hex = Inr (Some coverage) \<and> rx_coverage_2 rpc k ?root_hex = Inr (Some coverage)
             \<and> ac_reassignment_needed coverage
             \<and> evaluate_n2 S C oracle coverage (rq_merkle_root req) (cpi_assignment_replication_factor p) = Inr (Departed d)"
        using submitted(3) k by blast
      then show ?thesis using t submitted(1,2) by auto
    qed
  qed
qed

text \<open>
  The command always returns when the poll interval is positive, whatever the chain answers.
\<close>

theorem reassign_returns:
  assumes "0 < rq_poll_interval req"
  shows "\<exists>r. reassign_chunks_v2_with S C rpc seed req oracle = Some r"
proof -
  have w: "\<exists>r. wait_for_finalized env t0 (rq_poll_interval req) T = Some r" for env t0 T
    using wait_total [OF assms] by blast
  have "\<exists>r. submit_reassign S C rpc seed req rh d head = Some r" for rh d head
    using w by (auto simp: submit_reassign_def Let_def split: sum.splits)
  then show ?thesis
    by (auto simp: reassign_chunks_v2_with_def Let_def split: sum.splits option.splits n2_verdict.splits)
qed

section \<open>Instances\<close>

definition demo_rsign :: sign_lib where
  "demo_rsign = demo_sign\<lparr>sl_to_base58 := (\<lambda>a. if a = replicate 20 1 then ''a'' else ''b'')\<rparr>"

definition demo_reassign_tx :: transaction_v2 where
  "demo_reassign_tx = \<lparr>tx_chain_id = 1, tx_from = replicate 20 1, tx_fee = 5, tx_nonce = 9,
     tx_payload = StorageMetadataV2 (ReassignChunksV2 demo_chunk_root)\<rparr>"

definition demo_codec :: tx_codec where
  "demo_codec = \<lparr>tc_from_base58 = (\<lambda>s. if s = ''a'' then Inr (replicate 20 1) else if s = ''b'' then Inr (replicate 20 2) else Inl ''bad''),
     tc_from_bytes = (\<lambda>_. Inr demo_reassign_tx), tc_to_bytes = (\<lambda>_. []), tc_hex_decode = (\<lambda>_. Inr [])\<rparr>"

definition demo_departure :: assignment_coverage_v2 where
  "demo_departure = demo_coverage\<lparr>ac_reassignment_needed := True, ac_per_epoch :=
     [\<lparr>ep_epoch_height = 5, ep_is_epoch_zero = True, ep_covered_count = 0, ep_per_archive =
        [\<lparr>as_archive = ''b'', as_assigned_count = None, as_attested_count = 0, as_currently_active = False\<rparr>]\<rparr>]\<rparr>"

definition demo_reassign_rpc :: reassign_rpc where
  "demo_reassign_rpc = \<lparr>rx_file_info = (\<lambda>_. Inr (Some (demo_info\<lparr>fi_owner := ''a''\<rparr>))),
     rx_chain_params = Inr \<lparr>cpi_chain_id = 1, cpi_block_time_ms = 0, cpi_finality_depth = 0, cpi_min_fee = 0,
       cpi_assignment_replication_factor = 3, cpi_max_chunk_indices_per_tx = 8, cpi_max_chunk_count_per_file = 8,
       cpi_activation_grace_blocks = 0, cpi_v2_enabled_from_height = None\<rparr>,
     rx_head_1 = (\<lambda>k. Inr \<lparr>bh_height = 7, bh_hash = [], bh_state_root = []\<rparr>),
     rx_coverage_1 = (\<lambda>_ _. Inr (Some demo_departure)), rx_coverage_2 = (\<lambda>_ _. Inr (Some demo_departure)),
     rx_head_2 = (\<lambda>k. Inr \<lparr>bh_height = 7, bh_hash = [], bh_state_root = []\<rparr>),
     rx_build = (\<lambda>_ _ _. Inr \<lparr>sb_unsigned_tx = [], sb_signing_hash = [], sb_from = ''a'', sb_nonce = 9, sb_fee = 5, sb_chain_id = 1\<rparr>),
     rx_send = (\<lambda>_. Inr ''h''),
     rx_wait = (\<lambda>_. \<lparr>we_status = (\<lambda>_. Inr (TxFinalized 11)), we_delay = (\<lambda>_. 0), we_oversleep = (\<lambda>_. 0)\<rparr>), rx_wait_start = 0\<rparr>"

definition demo_reassign_request :: reassign_request where
  "demo_reassign_request = \<lparr>rq_merkle_root = demo_chunk_root, rq_chain_id = 1, rq_fee = 5, rq_dry_run = False,
     rq_poll_interval = 1, rq_finality_timeout = 10\<rparr>"

lemma demo_rsign_ok: "sign_ok demo_rsign"
  using demo_sign_ok by (simp add: sign_ok_def demo_rsign_def)

lemma demo_n2:
  "evaluate_n2 demo_rsign demo_codec (chain_scorer demo_wire) demo_departure demo_chunk_root 3
     = Inr (Departed \<lparr>da_archive = ''b'', da_evidence = LocalFirstChunk 0\<rparr>)"
  by (simp add: evaluate_n2_def demo_departure_def demo_coverage_def resolved_latest_epoch_def demo_codec_def counted_hit_def
      local_hit_def chain_scorer_def first_chunk_assigned_to_any_def demo_wire_def presorted_addresses_def binary_search_def
      demo_rsign_def u32_of_def)

lemma demo_reassign:
  "\<exists>signed. reassign_chunks_v2_with demo_rsign demo_codec demo_reassign_rpc (replicate 20 1) demo_reassign_request (chain_scorer demo_wire)
     = Some (Reassigned ''h'' 11 \<lparr>da_archive = ''b'', da_evidence = LocalFirstChunk 0\<rparr>, [signed])"
proof -
  let ?own = "sl_address demo_rsign (sl_verifying_key demo_rsign (replicate 20 1))"
  have own: "?own = replicate 20 1" "sl_to_base58 demo_rsign (replicate 20 1) = ''a''"
    by (simp_all add: demo_rsign_def demo_sign_def)
  have "verify_unsigned_reassign demo_rsign demo_codec \<lparr>sb_unsigned_tx = [], sb_signing_hash = [], sb_from = ''a'', sb_nonce = 9, sb_fee = 5, sb_chain_id = 1\<rparr>
      (replicate 20 1) demo_chunk_root 1 5 = Inr demo_reassign_tx"
    by (simp add: verify_unsigned_reassign_def decode_hex_field_def demo_codec_def demo_reassign_tx_def own(2))
       (simp add: demo_rsign_def demo_sign_def)
  moreover have "sign_transaction_v2 demo_rsign (replicate 20 1) demo_reassign_tx = Inr (sign_v2 demo_rsign (replicate 20 1) demo_reassign_tx)"
    using own(1) by (simp add: sign_transaction_v2_def demo_reassign_tx_def Let_def)
  moreover have "wait_for_finalized \<lparr>we_status = (\<lambda>_. Inr (TxFinalized 11)), we_delay = (\<lambda>_. 0), we_oversleep = (\<lambda>_. 0)\<rparr> 0 1 10 = Some (Inr 11)"
    by (simp add: wait_for_finalized_def wait_loop.simps)
  ultimately have "\<exists>signed. submit_reassign demo_rsign demo_codec demo_reassign_rpc (replicate 20 1) demo_reassign_request rh d head
      = Some (Reassigned ''h'' 11 d, [signed])" for rh d head
    using own unfolding submit_reassign_def Let_def own by (simp add: demo_reassign_rpc_def demo_reassign_request_def)
  moreover have "read_attempts demo_rsign demo_codec (chain_scorer demo_wire) demo_reassign_rpc demo_chunk_root rh 3 0 READ_ATTEMPTS []
      = Inr (Departed \<lparr>da_archive = ''b'', da_evidence = LocalFirstChunk 0\<rparr>, demo_departure, \<lparr>bh_height = 7, bh_hash = [], bh_state_root = []\<rparr>)" for rh
    using demo_n2 by (simp add: READ_ATTEMPTS_def numeral_3_eq_3 demo_reassign_rpc_def) (simp add: demo_departure_def)
  moreover have "rx_file_info demo_reassign_rpc rh = Inr (Some (demo_info\<lparr>fi_owner := ''a''\<rparr>))"
    "\<exists>p. rx_chain_params demo_reassign_rpc = Inr p \<and> cpi_assignment_replication_factor p = 3" for rh
    by (simp_all add: demo_reassign_rpc_def)
  ultimately show ?thesis
    using own unfolding reassign_chunks_v2_with_def Let_def by (auto simp: demo_reassign_request_def)
qed

theorem n2_verdict_exact_witness:
  "\<exists>j < 1. \<not> as_currently_active (ep_per_archive (last (ac_per_epoch demo_departure)) ! j)
     \<and> as_archive (ep_per_archive (last (ac_per_epoch demo_departure)) ! j) = ''b''"
proof -
  have "\<forall>s a. tc_from_base58 demo_codec s = Inr a \<longrightarrow> sl_to_base58 demo_rsign a = s"
    by (simp add: demo_codec_def demo_rsign_def split: if_splits)
  from n2_verdict_exact [OF demo_wire_ok this demo_n2]
  show ?thesis by (auto simp: demo_departure_def demo_codec_def Let_def)
qed

theorem reassign_sends_only_justified_witness:
  "\<exists>signed nonce. reassign_chunks_v2_with demo_rsign demo_codec demo_reassign_rpc (replicate 20 1) demo_reassign_request (chain_scorer demo_wire)
     = Some (Reassigned ''h'' 11 \<lparr>da_archive = ''b'', da_evidence = LocalFirstChunk 0\<rparr>, [signed])
     \<and> authentic demo_rsign signed = Some (own_tx demo_rsign (replicate 20 1) 1 nonce 5 (StorageMetadataV2 (ReassignChunksV2 demo_chunk_root)))"
proof -
  obtain signed where r: "reassign_chunks_v2_with demo_rsign demo_codec demo_reassign_rpc (replicate 20 1) demo_reassign_request
      (chain_scorer demo_wire) = Some (Reassigned ''h'' 11 \<lparr>da_archive = ''b'', da_evidence = LocalFirstChunk 0\<rparr>, [signed])"
    using demo_reassign by blast
  show ?thesis using reassign_sends_only_justified [OF demo_rsign_ok r] r by (auto simp: demo_reassign_request_def)
qed

theorem reassign_returns_witness:
  "\<exists>r. reassign_chunks_v2_with demo_rsign demo_codec demo_reassign_rpc [] demo_reassign_request (chain_scorer demo_wire) = Some r"
  by (rule reassign_returns) (simp add: demo_reassign_request_def)

end
