(* ===== verification/Net_Policy.thy ===== *)
theory Net_Policy
  imports Snip_Prelude "HOL-Library.AList"
begin

text \<open>
  The network policy of controlled networks: the outbound allow-list, its counters and labels
  (\<open>sum-net/src/policy.rs\<close>), and the places that enforce it (\<open>sum-net/src/gate.rs\<close>). A multiaddr is
  its list of components. The text parsers of addresses are the fields of \<open>addr_lib\<close>; mutexes and
  atomics are the explicit state \<open>net_policy\<close>, whose \<open>np_audit\<close> is what was sent on the audit channel.
\<close>

section \<open>Addresses and entries\<close>

type_synonym peer = string
type_synonym connection_id = nat

datatype protocol =
    Ip4 u32
  | Ip6 "128 word"
  | Dns string
  | Dns4 string
  | Dns6 string
  | Dnsaddr string
  | Tcp "16 word"
  | Udp "16 word"
  | QuicV1
  | P2p peer
  | P2pCircuit
  | OtherProtocol string bytes

type_synonym multiaddr = "protocol list"

datatype ip_addr = V4 u32 | V6 "128 word"

datatype allow_entry =
    Network ip_addr byte
  | Prefix "protocol list" "peer option"

datatype policy_parse_error = PolicyParseError string string

record addr_lib =
  al_parse_ip :: "string \<Rightarrow> ip_addr option"
  al_parse_multiaddr :: "string \<Rightarrow> string + multiaddr"
  al_tag :: "protocol \<Rightarrow> string"

definition is_host :: "protocol \<Rightarrow> bool" where
  "is_host p = (case p of Ip4 _ \<Rightarrow> True | Ip6 _ \<Rightarrow> True | Dns _ \<Rightarrow> True | Dns4 _ \<Rightarrow> True | Dns6 _ \<Rightarrow> True
     | Dnsaddr _ \<Rightarrow> True | _ \<Rightarrow> False)"

definition is_p2p :: "protocol \<Rightarrow> bool" where
  "is_p2p p = (case p of P2p _ \<Rightarrow> True | _ \<Rightarrow> False)"

fun mask_addr :: "ip_addr \<Rightarrow> byte \<Rightarrow> ip_addr" where
  "mask_addr (V4 v4) prefix = V4 (v4 AND (if prefix = 0 then 0 else push_bit (32 - unat prefix) (- 1)))"
| "mask_addr (V6 v6) prefix = V6 (v6 AND (if prefix = 0 then 0 else push_bit (128 - unat prefix) (- 1)))"

definition to_ipv4_mapped :: "128 word \<Rightarrow> u32 option" where
  "to_ipv4_mapped v6 = (if drop_bit 32 v6 = 0xFFFF then Some (ucast v6) else None)"

fun network_contains :: "ip_addr \<Rightarrow> byte \<Rightarrow> ip_addr \<Rightarrow> bool" where
  "network_contains (V4 net) prefix (V4 ip) = (mask_addr (V4 ip) prefix = V4 net)"
| "network_contains (V6 net) prefix (V6 ip) = (mask_addr (V6 ip) prefix = V6 net)"
| "network_contains (V4 net) prefix (V6 v6) =
     (case to_ipv4_mapped v6 of None \<Rightarrow> False | Some v4 \<Rightarrow> mask_addr (V4 v4) prefix = V4 net)"
| "network_contains (V6 net) prefix (V4 ip) = False"

section \<open>Parsing\<close>

text \<open>\<open>str::split_once('/')\<close> and \<open>u8::parse\<close>, which accepts one leading plus sign.\<close>

definition split_slash :: "string \<Rightarrow> string \<times> string option" where
  "split_slash s =
     (case dropWhile (\<lambda>c. c \<noteq> CHR ''/'') s of
        [] \<Rightarrow> (s, None)
      | _ # rest \<Rightarrow> (takeWhile (\<lambda>c. c \<noteq> CHR ''/'') s, Some rest))"

definition parse_u8 :: "string \<Rightarrow> byte option" where
  "parse_u8 s =
     (let d = (case s of c # r \<Rightarrow> if c = CHR ''+'' then r else s | [] \<Rightarrow> s) in
      if d \<noteq> [] \<and> list_all is_ascii_digit d \<and> nat_of_dec d < 256 then Some (word_of_nat (nat_of_dec d)) else None)"

definition max_prefix :: "ip_addr \<Rightarrow> byte" where
  "max_prefix a = (case a of V4 _ \<Rightarrow> 32 | V6 _ \<Rightarrow> 128)"

definition parse_network :: "addr_lib \<Rightarrow> string \<Rightarrow> string + allow_entry" where
  "parse_network A s =
     (case split_slash s of (ip_part, prefix_part) \<Rightarrow>
      (case al_parse_ip A ip_part of
         None \<Rightarrow> Inl (''`'' @ ip_part @ ''` is not an IP address or CIDR (multiaddr entries start with `/`, e.g. /ip4/127.0.0.1/tcp/4001)'')
       | Some addr \<Rightarrow>
          (case prefix_part of
             None \<Rightarrow> Inr (Network (mask_addr addr (max_prefix addr)) (max_prefix addr))
           | Some p \<Rightarrow>
              (case parse_u8 p of
                 None \<Rightarrow> Inl (''`'' @ p @ ''` is not a prefix length'')
               | Some n \<Rightarrow>
                   if n > max_prefix addr then
                     Inl (''prefix length '' @ dec_of_nat (unat n) @ '' exceeds '' @ dec_of_nat (unat (max_prefix addr)))
                   else Inr (Network (mask_addr addr n) n)))))"

text \<open>\<open>split_last\<close> with the pin of a final \<open>/p2p\<close>.\<close>

definition split_peer :: "protocol list \<Rightarrow> protocol list \<times> peer option" where
  "split_peer ps = (if ps = [] then (ps, None) else (case last ps of P2p p \<Rightarrow> (butlast ps, Some p) | _ \<Rightarrow> (ps, None)))"

definition port_form :: "protocol list \<Rightarrow> bool option" where  \<comment> \<open>\<open>Some b\<close>: a supported form, with a usable port if \<open>b\<close>\<close>
  "port_form ps =
     (case ps of
        [] \<Rightarrow> Some True
      | [Tcp port] \<Rightarrow> Some (port \<noteq> 0)
      | [Udp port] \<Rightarrow> Some (port \<noteq> 0)
      | [Udp port, QuicV1] \<Rightarrow> Some (port \<noteq> 0)
      | _ \<Rightarrow> None)"

text \<open>The UTF-8 bytes of the dash in one of the messages.\<close>

definition em_dash :: string where
  "em_dash = [CHR 0xE2, CHR 0x80, CHR 0x94]"

definition parse_prefix :: "addr_lib \<Rightarrow> string \<Rightarrow> string + allow_entry" where
  "parse_prefix A s =
     (case al_parse_multiaddr A s of
        Inl e \<Rightarrow> Inl (''not a valid multiaddr ('' @ e @ '')'')
      | Inr comps \<Rightarrow>
          if P2pCircuit \<in> set comps then Inl (''relayed (/p2p-circuit) addresses cannot be listed; list the relay'' @ [CHR 0x27] @ ''s own address instead ''
            @ em_dash @ '' a relayed address is allowed when its relay part is'')
          else
            (case split_peer comps of (body, peer) \<Rightarrow>
             (case body of
                [] \<Rightarrow> Inl (''a peer ID alone does not restrict addresses (an allowed peer can advertise any address); ''
                    @ ''name the host too, e.g. /ip4/127.0.0.1/tcp/4001/p2p/<peer-id>'')
              | host # rest \<Rightarrow>
                  if \<not> is_host host then Inl (''must start with /ip4, /ip6, /dns, /dns4, /dns6 or /dnsaddr, not /'' @ al_tag A host)
                  else
                    (case port_form rest of
                       None \<Rightarrow> Inl (''unsupported form after the host: an entry may continue with /tcp/<port>, ''
                           @ ''/udp/<port> or /udp/<port>/quic-v1, then an optional final /p2p/<peer-id>'')
                     | Some False \<Rightarrow> Inl ''port 0 is not a wildcard; leave the port out to allow every port on the host''
                     | Some True \<Rightarrow> Inr (Prefix body peer)))))"

definition parse_entry :: "addr_lib \<Rightarrow> string \<Rightarrow> policy_parse_error + allow_entry" where
  "parse_entry A raw =
     (let s = trim raw in
      if s = [] then Inl (PolicyParseError raw ''empty entry'')
      else map_sum (PolicyParseError s) id (if hd s = CHR ''/'' then parse_prefix A s else parse_network A s))"

text \<open>\<open>AddrPolicy::parse\<close>: blank items are skipped, an empty list is no policy.\<close>

fun parse_entries :: "addr_lib \<Rightarrow> string list \<Rightarrow> policy_parse_error + allow_entry list" where
  "parse_entries A [] = Inr []"
| "parse_entries A (item # items) =
     (if trim item = [] then parse_entries A items
      else
        (case parse_entry A item of
           Inl e \<Rightarrow> Inl e
         | Inr en \<Rightarrow> map_sum id ((#) en) (parse_entries A items)))"

definition parse_policy :: "addr_lib \<Rightarrow> string list \<Rightarrow> policy_parse_error + allow_entry list option" where
  "parse_policy A items = map_sum id (\<lambda>es. if es = [] then None else Some es) (parse_entries A items)"

section \<open>Matching\<close>

definition to_ascii_lowercase :: "char \<Rightarrow> char" where
  "to_ascii_lowercase c = (if is_ascii_uppercase c then char_of ((of_char c :: nat) + 32) else c)"

definition trim_dots :: "string \<Rightarrow> string" where
  "trim_dots s = rev (dropWhile (\<lambda>c. c = CHR ''.'') (rev s))"

definition dns_eq :: "string \<Rightarrow> string \<Rightarrow> bool" where
  "dns_eq a b \<longleftrightarrow> map to_ascii_lowercase (trim_dots a) = map to_ascii_lowercase (trim_dots b)"

definition same_component :: "protocol \<Rightarrow> protocol \<Rightarrow> bool" where
  "same_component en ad =
     (case en of
        Dns a \<Rightarrow> (case ad of Dns b \<Rightarrow> dns_eq a b | _ \<Rightarrow> False)
      | Dns4 a \<Rightarrow> (case ad of Dns4 b \<Rightarrow> dns_eq a b | _ \<Rightarrow> False)
      | Dns6 a \<Rightarrow> (case ad of Dns6 b \<Rightarrow> dns_eq a b | _ \<Rightarrow> False)
      | Dnsaddr a \<Rightarrow> (case ad of Dnsaddr b \<Rightarrow> dns_eq a b | _ \<Rightarrow> False)
      | _ \<Rightarrow> en = ad)"

datatype peer_pin = Enforce | Defer

fun entry_matches :: "allow_entry \<Rightarrow> protocol list \<Rightarrow> peer option \<Rightarrow> peer_pin \<Rightarrow> bool" where
  "entry_matches (Network addr prefix) transport peer pin =
     (case transport of
        Ip4 ip # _ \<Rightarrow> network_contains addr prefix (V4 ip)
      | Ip6 ip # _ \<Rightarrow> network_contains addr prefix (V6 ip)
      | _ \<Rightarrow> False)"
| "entry_matches (Prefix components wanted) transport peer pin =
     (length components \<le> length transport \<and> list_all (\<lambda>(e, a). same_component e a) (zip components transport)
      \<and> (case wanted of None \<Rightarrow> True | Some w \<Rightarrow> (case peer of Some p \<Rightarrow> w = p | None \<Rightarrow> pin = Defer)))"

definition decide :: "allow_entry list \<Rightarrow> multiaddr \<Rightarrow> peer option \<Rightarrow> peer_pin \<Rightarrow> bool" where
  "decide entries comps peer_hint pin =
     (let segment = takeWhile (\<lambda>p. p \<noteq> P2pCircuit) comps;
          relayed = (P2pCircuit \<in> set comps);
          (transport, peer) =
            (case split_peer segment of
               (rest, Some p) \<Rightarrow> (rest, Some p)
             | (rest, None) \<Rightarrow> (segment, if relayed then None else peer_hint)) in
      case transport of
        [] \<Rightarrow> False
      | host # _ \<Rightarrow>
          if \<not> is_host host \<or> list_ex is_p2p transport then False
          else list_ex (\<lambda>e. entry_matches e transport peer pin) entries)"

definition allows :: "allow_entry list \<Rightarrow> multiaddr \<Rightarrow> peer option \<Rightarrow> bool" where
  "allows entries addr peer_hint = decide entries addr peer_hint Enforce"

section \<open>The shared policy state\<close>

datatype policy_source = Bootstrap | Mdns | Identify | Kad | Autodial | Inbound | OtherSource
datatype refusal_stage = Admission | DialStage | InboundStage
datatype endpoint = Dialer | Listener

definition WARN_DEDUP_CAP :: nat where "WARN_DEDUP_CAP = 1024"
definition DIAL_LABEL_CAP :: nat where "DIAL_LABEL_CAP = 4096"

datatype connection_audit =
    Established peer multiaddr bool bool
  | Closed peer multiaddr bool bool
  | Refused policy_source refusal_stage multiaddr

record net_policy =
  np_mdns :: bool
  np_allow :: "allow_entry list option"
  np_refusals :: "policy_source \<Rightarrow> u64"
  np_audit :: "connection_audit list"
  np_labels :: "(connection_id \<times> policy_source) list"
  np_current :: policy_source
  np_warned :: "(policy_source \<times> multiaddr) set"

definition net_policy_new :: "bool \<Rightarrow> allow_entry list option \<Rightarrow> net_policy" where
  "net_policy_new mdns allow = \<lparr>np_mdns = mdns, np_allow = allow, np_refusals = (\<lambda>_. 0), np_audit = [], np_labels = [],
     np_current = OtherSource, np_warned = {}\<rparr>"

definition from_config :: "addr_lib \<Rightarrow> bool \<Rightarrow> string list \<Rightarrow> policy_parse_error + net_policy" where
  "from_config A mdns outbound_allow = map_sum id (net_policy_new mdns) (parse_policy A outbound_allow)"

definition is_restricted :: "net_policy \<Rightarrow> bool" where
  "is_restricted p \<longleftrightarrow> np_allow p \<noteq> None"

text \<open>\<open>PolicyRefusals\<close>: the snapshot of the counters and its total.\<close>

record policy_refusals =
  pr_bootstrap :: u64
  pr_mdns :: u64
  pr_identify :: u64
  pr_kad :: u64
  pr_autodial :: u64
  pr_inbound :: u64
  pr_other :: u64

definition refusals :: "net_policy \<Rightarrow> policy_refusals" where
  "refusals p = \<lparr>pr_bootstrap = np_refusals p Bootstrap, pr_mdns = np_refusals p Mdns, pr_identify = np_refusals p Identify,
     pr_kad = np_refusals p Kad, pr_autodial = np_refusals p Autodial, pr_inbound = np_refusals p Inbound,
     pr_other = np_refusals p OtherSource\<rparr>"

definition refusals_total :: "policy_refusals \<Rightarrow> u64" where
  "refusals_total r = pr_bootstrap r + pr_mdns r + pr_identify r + pr_kad r + pr_autodial r + pr_inbound r + pr_other r"

definition refusals_get :: "policy_refusals \<Rightarrow> policy_source \<Rightarrow> u64" where
  "refusals_get r source =
     (case source of Bootstrap \<Rightarrow> pr_bootstrap r | Mdns \<Rightarrow> pr_mdns r | Identify \<Rightarrow> pr_identify r | Kad \<Rightarrow> pr_kad r
      | Autodial \<Rightarrow> pr_autodial r | Inbound \<Rightarrow> pr_inbound r | OtherSource \<Rightarrow> pr_other r)"

definition record_refusal :: "policy_source \<Rightarrow> refusal_stage \<Rightarrow> multiaddr \<Rightarrow> net_policy \<Rightarrow> net_policy" where
  "record_refusal source stage addr p =
     p\<lparr>np_refusals := (np_refusals p)(source := np_refusals p source + 1),
       np_warned := (if card (np_warned p) < WARN_DEDUP_CAP then insert (source, addr) (np_warned p) else np_warned p),
       np_audit := np_audit p @ [Refused source stage addr]\<rparr>"

definition judge :: "policy_source \<Rightarrow> refusal_stage \<Rightarrow> multiaddr \<Rightarrow> peer option \<Rightarrow> net_policy \<Rightarrow> bool \<times> net_policy" where
  "judge source stage addr peer p =
     (case np_allow p of
        None \<Rightarrow> (True, p)
      | Some es \<Rightarrow> if allows es addr peer then (True, p) else (False, record_refusal source stage addr p))"

definition admit :: "policy_source \<Rightarrow> multiaddr \<Rightarrow> peer option \<Rightarrow> net_policy \<Rightarrow> bool \<times> net_policy" where
  "admit source addr peer p = judge source Admission addr peer p"

definition admit_dial :: "policy_source \<Rightarrow> multiaddr \<Rightarrow> peer option \<Rightarrow> net_policy \<Rightarrow> bool \<times> net_policy" where
  "admit_dial source addr peer p = judge source DialStage addr peer p"

definition allows_quietly :: "net_policy \<Rightarrow> multiaddr \<Rightarrow> peer option \<Rightarrow> bool" where
  "allows_quietly p addr peer = (case np_allow p of None \<Rightarrow> True | Some es \<Rightarrow> allows es addr peer)"

definition check_transport_dial :: "multiaddr \<Rightarrow> endpoint \<Rightarrow> net_policy \<Rightarrow> (policy_source + unit) \<times> net_policy" where
  "check_transport_dial addr role p =
     (case np_allow p of
        None \<Rightarrow> (Inr (), p)
      | Some es \<Rightarrow>
          if allows es addr None then (Inr (), p)
          else
            (let source = (if np_current p = OtherSource \<and> role = Listener then Autodial else np_current p) in
             (Inl source, record_refusal source DialStage addr p)))"

definition inbound_allowed :: "multiaddr \<Rightarrow> multiaddr \<Rightarrow> peer option \<Rightarrow> net_policy \<Rightarrow> bool \<times> net_policy" where
  "inbound_allowed local_addr remote_addr peer p =
     (case np_allow p of
        None \<Rightarrow> (True, p)
      | Some es \<Rightarrow>
         (let relayed = (P2pCircuit \<in> set local_addr);
              (judged, ok) =
                (if relayed then (local_addr, decide es local_addr None Enforce)
                 else (remote_addr, decide es remote_addr peer (if peer \<noteq> None then Enforce else Defer))) in
          (ok, if ok then p else record_refusal Inbound InboundStage judged p)))"

definition outbound_established_allowed :: "multiaddr \<Rightarrow> peer \<Rightarrow> net_policy \<Rightarrow> bool \<times> net_policy" where
  "outbound_established_allowed addr peer p = judge OtherSource DialStage addr (Some peer) p"

definition label_dial :: "connection_id \<Rightarrow> policy_source \<Rightarrow> net_policy \<Rightarrow> net_policy" where
  "label_dial cid source p =
     (if np_allow p = None then p
      else p\<lparr>np_labels := AList.update cid source (if length (np_labels p) \<ge> DIAL_LABEL_CAP then [] else np_labels p)\<rparr>)"

definition begin_dial :: "connection_id \<Rightarrow> net_policy \<Rightarrow> net_policy" where
  "begin_dial cid p =
     (if np_allow p = None then p
      else p\<lparr>np_current := (case map_of (np_labels p) cid of None \<Rightarrow> OtherSource | Some s \<Rightarrow> s),
             np_labels := AList.delete cid (np_labels p)\<rparr>)"

definition forget_dial :: "connection_id \<Rightarrow> net_policy \<Rightarrow> net_policy" where
  "forget_dial cid p = (if np_allow p = None then p else p\<lparr>np_labels := AList.delete cid (np_labels p)\<rparr>)"

section \<open>Enforcement\<close>

text \<open>
  What the swarm asks of the gate. \<open>TransportDial\<close> is \<open>PolicyTransport::dial\<close>; the pending and
  established connections are the handlers of \<open>PolicyBehaviour\<close>; \<open>Offered\<close> and \<open>BehaviourDial\<close> are the
  addresses and dials of a wrapped behaviour (\<open>Gated\<close>), \<open>Published\<close> a peer address it would publish to the
  others; \<open>Learned\<close> is an address a source learned.
\<close>

datatype gate_event =
    TransportDial multiaddr endpoint
  | PendingInbound multiaddr multiaddr
  | EstablishedInbound peer multiaddr multiaddr
  | PendingOutbound connection_id
  | EstablishedOutbound peer multiaddr
  | DialFailure connection_id
  | BehaviourDial policy_source connection_id
  | OfferedAddrs policy_source "multiaddr list" "peer option"
  | Published policy_source peer multiaddr
  | Learned policy_source multiaddr "peer option"

text \<open>What is let through: a dial on the inner transport, a connection kept, an address kept.\<close>

datatype gate_effect =
    Dialed multiaddr
  | KeptInbound multiaddr multiaddr "peer option"
  | KeptOutbound multiaddr peer
  | KeptAddr multiaddr "peer option"

fun retain_offered :: "policy_source \<Rightarrow> peer option \<Rightarrow> multiaddr list \<Rightarrow> net_policy \<Rightarrow> multiaddr list \<times> net_policy" where
  "retain_offered source peer [] p = ([], p)"
| "retain_offered source peer (a # as) p =
     (case admit_dial source a peer p of
        (ok, p1) \<Rightarrow>
          (case retain_offered source peer as p1 of
             (kept, p2) \<Rightarrow> (if ok then a # kept else kept, p2)))"

definition transport_dial :: "multiaddr \<Rightarrow> endpoint \<Rightarrow> net_policy \<Rightarrow> gate_effect list \<times> net_policy" where
  "transport_dial addr role p =
     (case check_transport_dial addr role p of
        (Inl source, p1) \<Rightarrow> ([], p1)
      | (Inr _, p1) \<Rightarrow> ([Dialed addr], p1))"

definition handle_pending_inbound_connection :: "multiaddr \<Rightarrow> multiaddr \<Rightarrow> net_policy \<Rightarrow> gate_effect list \<times> net_policy" where
  "handle_pending_inbound_connection local_addr remote_addr p =
     (case inbound_allowed local_addr remote_addr None p of
        (ok, p1) \<Rightarrow> (if ok then [KeptInbound local_addr remote_addr None] else [], p1))"

definition handle_established_inbound_connection :: "peer \<Rightarrow> multiaddr \<Rightarrow> multiaddr \<Rightarrow> net_policy \<Rightarrow> gate_effect list \<times> net_policy" where
  "handle_established_inbound_connection peer local_addr remote_addr p =
     (case inbound_allowed local_addr remote_addr (Some peer) p of
        (ok, p1) \<Rightarrow> (if ok then [KeptInbound local_addr remote_addr (Some peer)] else [], p1))"

definition handle_pending_outbound_connection :: "connection_id \<Rightarrow> net_policy \<Rightarrow> gate_effect list \<times> net_policy" where
  "handle_pending_outbound_connection cid p = ([], begin_dial cid p)"

definition handle_established_outbound_connection :: "peer \<Rightarrow> multiaddr \<Rightarrow> net_policy \<Rightarrow> gate_effect list \<times> net_policy" where
  "handle_established_outbound_connection peer addr p =
     (case outbound_established_allowed addr peer p of
        (ok, p1) \<Rightarrow> (if ok then [KeptOutbound addr peer] else [], p1))"

definition on_dial_failure :: "connection_id \<Rightarrow> net_policy \<Rightarrow> gate_effect list \<times> net_policy" where
  "on_dial_failure cid p = ([], forget_dial cid p)"

definition gated_dial :: "policy_source \<Rightarrow> connection_id \<Rightarrow> net_policy \<Rightarrow> gate_effect list \<times> net_policy" where
  "gated_dial source cid p = ([], label_dial cid source p)"

definition gated_pending_outbound :: "policy_source \<Rightarrow> multiaddr list \<Rightarrow> peer option \<Rightarrow> net_policy \<Rightarrow> gate_effect list \<times> net_policy" where
  "gated_pending_outbound source offered maybe_peer p =
     (if is_restricted p then
        (case retain_offered source maybe_peer offered p of (kept, p1) \<Rightarrow> (map (\<lambda>a. KeptAddr a maybe_peer) kept, p1))
      else (map (\<lambda>a. KeptAddr a maybe_peer) offered, p))"

definition gated_publish :: "peer \<Rightarrow> multiaddr \<Rightarrow> net_policy \<Rightarrow> gate_effect list \<times> net_policy" where
  "gated_publish peer addr p =
     (if \<not> allows_quietly p addr (Some peer) then ([], p) else ([KeptAddr addr (Some peer)], p))"

lemmas gate_handler_defs [simp] = transport_dial_def handle_pending_inbound_connection_def handle_established_inbound_connection_def
  handle_pending_outbound_connection_def handle_established_outbound_connection_def on_dial_failure_def gated_dial_def
  gated_pending_outbound_def gated_publish_def

fun gate_step :: "net_policy \<Rightarrow> gate_event \<Rightarrow> gate_effect list \<times> net_policy" where
  "gate_step p (TransportDial addr role) = transport_dial addr role p"
| "gate_step p (PendingInbound local_addr remote_addr) = handle_pending_inbound_connection local_addr remote_addr p"
| "gate_step p (EstablishedInbound peer local_addr remote_addr) = handle_established_inbound_connection peer local_addr remote_addr p"
| "gate_step p (PendingOutbound cid) = handle_pending_outbound_connection cid p"
| "gate_step p (EstablishedOutbound peer addr) = handle_established_outbound_connection peer addr p"
| "gate_step p (DialFailure cid) = on_dial_failure cid p"
| "gate_step p (BehaviourDial source cid) = gated_dial source cid p"
| "gate_step p (OfferedAddrs source offered peer) = gated_pending_outbound source offered peer p"
| "gate_step p (Published source peer addr) = gated_publish peer addr p"
| "gate_step p (Learned source addr peer) =
     (case admit source addr peer p of (ok, p1) \<Rightarrow> (if ok then [KeptAddr addr peer] else [], p1))"

fun gate_run :: "net_policy \<Rightarrow> gate_event list \<Rightarrow> gate_effect list \<times> net_policy" where
  "gate_run p [] = ([], p)"
| "gate_run p (ev # evs) =
     (case gate_step p ev of (out, p1) \<Rightarrow> (case gate_run p1 evs of (outs, p2) \<Rightarrow> (out @ outs, p2)))"

section \<open>Networks\<close>

text \<open>Sample parsers for concrete inputs: two addresses and two multiaddrs.\<close>

definition sample_addr_lib :: addr_lib where
  "sample_addr_lib = \<lparr>
     al_parse_ip = (\<lambda>s. if s = ''10.0.0.7'' then Some (V4 0x0A000007) else if s = ''fd00::'' then Some (V6 (push_bit 120 0xFD)) else None),
     al_parse_multiaddr = (\<lambda>s. if s = ''/ip4/10.0.0.7/tcp/4001'' then Inr [Ip4 0x0A000007, Tcp 4001] else Inl ''unknown''),
     al_tag = (\<lambda>_. ''other'')\<rparr>"

lemma sample_network: "parse_network sample_addr_lib ''10.0.0.7/8'' = Inr (Network (V4 0x0A000000) 8)"
  by code_simp

lemma sample_policy: "parse_policy sample_addr_lib [''10.0.0.7/8'', '' ''] = Inr (Some [Network (V4 0x0A000000) 8])"
  by code_simp

lemma bit_prefix_mask:
  fixes w :: "'a::len word"
  assumes "0 < p" "p \<le> LENGTH('a)"
  shows "bit (w AND push_bit (LENGTH('a) - p) (- 1)) n \<longleftrightarrow> LENGTH('a) - p \<le> n \<and> bit w n"
  using assms by (auto simp: bit_simps dest: bit_imp_le_length)

lemma prefix_mask_eq_iff:
  fixes v w :: "'a::len word"
  assumes "0 < p" "p \<le> LENGTH('a)"
  shows "v AND push_bit (LENGTH('a) - p) (- 1) = w AND push_bit (LENGTH('a) - p) (- 1)
    \<longleftrightarrow> (\<forall>i<p. bit v (LENGTH('a) - 1 - i) = bit w (LENGTH('a) - 1 - i))" (is "?L \<longleftrightarrow> ?R")
proof
  assume L: ?L
  show ?R
  proof (intro allI impI)
    fix i assume i: "i < p"
    have "LENGTH('a) - p \<le> LENGTH('a) - 1 - i" using i assms by linarith
    then show "bit v (LENGTH('a) - 1 - i) = bit w (LENGTH('a) - 1 - i)"
      using L bit_prefix_mask[OF assms, of v "LENGTH('a) - 1 - i"] bit_prefix_mask[OF assms, of w "LENGTH('a) - 1 - i"] by metis
  qed
next
  assume R: ?R
  show ?L
  proof (rule bit_word_eqI)
    fix n assume n: "n < LENGTH('a)"
    have "bit v n = bit w n" if "LENGTH('a) - p \<le> n"
    proof -
      have "LENGTH('a) - 1 - n < p" "LENGTH('a) - 1 - (LENGTH('a) - 1 - n) = n" using that n assms by linarith+
      then show ?thesis using R by metis
    qed
    then show "bit (v AND push_bit (LENGTH('a) - p) (- 1)) n = bit (w AND push_bit (LENGTH('a) - p) (- 1)) n"
      unfolding bit_prefix_mask[OF assms] by blast
  qed
qed

lemma mask_v4_eq_iff:
  assumes "unat p \<le> 32"
  shows "mask_addr (V4 v) p = mask_addr (V4 w) p \<longleftrightarrow> (\<forall>i<unat p. bit v (31 - i) = bit w (31 - i))"
proof (cases "p = 0")
  case False
  then have "0 < unat p" by (simp add: unat_gt_0)
  then show ?thesis using prefix_mask_eq_iff[of "unat p" v w] assms False by simp
qed simp

lemma mask_v6_eq_iff:
  assumes "unat p \<le> 128"
  shows "mask_addr (V6 v) p = mask_addr (V6 w) p \<longleftrightarrow> (\<forall>i<unat p. bit v (127 - i) = bit w (127 - i))"
proof (cases "p = 0")
  case False
  then have "0 < unat p" by (simp add: unat_gt_0)
  then show ?thesis using prefix_mask_eq_iff[of "unat p" v w] assms False by simp
qed simp

lemma max_prefix_unat: "unat (max_prefix (V4 a)) = 32" "unat (max_prefix (V6 b)) = 128"
  by (simp_all add: max_prefix_def)

lemma parse_network_cases:
  assumes "parse_network A s = Inr e"
  obtains addr prefix where "al_parse_ip A (fst (split_slash s)) = Some addr" "e = Network (mask_addr addr prefix) prefix"
    "prefix \<le> max_prefix addr"
  using assms
  by (force simp: parse_network_def not_less split: prod.splits option.splits if_splits)

lemma mask_addr_idem [simp]: "mask_addr (mask_addr a p) p = mask_addr a p"
  by (cases a) (simp_all add: and.assoc)

lemma max_prefix_mask [simp]: "max_prefix (mask_addr a p) = max_prefix a"
  by (cases a) (simp_all add: max_prefix_def)

text \<open>A CIDR entry against a textual specification: agreement of the leading bits.\<close>

definition same_leading_bits :: "nat \<Rightarrow> 'a::len word \<Rightarrow> 'a word \<Rightarrow> bool" where
  "same_leading_bits n v w \<longleftrightarrow> (\<forall>i<n. bit v (LENGTH('a) - 1 - i) = bit w (LENGTH('a) - 1 - i))"

definition v4_mapped :: "u32 \<Rightarrow> 128 word" where  \<comment> \<open>\<open>::ffff:a.b.c.d\<close>\<close>
  "v4_mapped v4 = push_bit 32 0xFFFF OR ucast v4"

fun in_network :: "ip_addr \<Rightarrow> nat \<Rightarrow> protocol \<Rightarrow> bool" where
  "in_network (V4 a) n (Ip4 ip) = same_leading_bits n ip a"
| "in_network (V4 a) n (Ip6 ip) = (\<exists>v4. ip = v4_mapped v4 \<and> same_leading_bits n v4 a)"
| "in_network (V6 a) n (Ip6 ip) = same_leading_bits n ip a"
| "in_network _ n _ = False"

lemma split_halves:
  fixes h :: "128 word" and v4 :: u32
  shows "ucast (push_bit 32 h OR ucast v4) = v4" "drop_bit 32 (ucast v4 :: 128 word) = 0"
    "v6 = push_bit 32 (drop_bit 32 v6) OR ucast (ucast (v6 :: 128 word) :: u32)"
  by (rule bit_word_eqI; auto simp: bit_simps dest: bit_imp_le_length)+

lemma to_ipv4_mapped_iff: "to_ipv4_mapped v6 = Some v4 \<longleftrightarrow> v6 = v4_mapped v4" (is "?L \<longleftrightarrow> ?R")
proof
  assume ?L
  then have d: "drop_bit 32 v6 = 0xFFFF" and v: "v4 = ucast v6" by (auto simp: to_ipv4_mapped_def split: if_splits)
  show ?R using split_halves(3)[of v6] unfolding d v v4_mapped_def .
next
  assume R: ?R
  have "drop_bit 32 (push_bit 32 (0xFFFF :: 128 word)) = 0xFFFF" by simp
  then have "drop_bit 32 v6 = 0xFFFF" unfolding R v4_mapped_def drop_bit_or split_halves by simp
  then show ?L unfolding to_ipv4_mapped_def R v4_mapped_def split_halves by simp
qed

lemma prefix_fits:
  assumes "prefix \<le> max_prefix addr"
  shows "unat prefix \<le> (case addr of V4 _ \<Rightarrow> 32 | V6 _ \<Rightarrow> 128)"
  using assms by (cases addr) (auto simp: word_le_nat_alt max_prefix_def)

lemma network_contains_mask:
  "network_contains (mask_addr (V4 a) p) p (V4 ip) \<longleftrightarrow> mask_addr (V4 ip) p = mask_addr (V4 a) p"
  "network_contains (mask_addr (V6 b) p) p (V6 iq) \<longleftrightarrow> mask_addr (V6 iq) p = mask_addr (V6 b) p"
  "network_contains (mask_addr (V4 a) p) p (V6 iq) \<longleftrightarrow> (\<exists>v4. iq = v4_mapped v4 \<and> mask_addr (V4 v4) p = mask_addr (V4 a) p)"
  "\<not> network_contains (mask_addr (V6 b) p) p (V4 ip)"
  unfolding to_ipv4_mapped_iff[symmetric] by (auto split: option.splits)

lemma network_matches_iff:
  assumes "prefix \<le> max_prefix addr"
  shows "entry_matches (Network (mask_addr addr prefix) prefix) (host # rest) peer pin \<longleftrightarrow> in_network addr (unat prefix) host"
proof (cases addr)
  case (V4 a)
  have p: "unat prefix \<le> 32" using prefix_fits[OF assms] V4 by simp
  have eq: "mask_addr (V4 w) prefix = mask_addr (V4 a) prefix \<longleftrightarrow> same_leading_bits (unat prefix) w a" for w
    using mask_v4_eq_iff[OF p, of w a] by (simp add: same_leading_bits_def)
  show ?thesis
    unfolding V4 entry_matches.simps using network_contains_mask(1,3)[where a = a and p = prefix] eq
    by (cases host) (simp_all del: mask_addr.simps network_contains.simps)
next
  case (V6 a)
  have p: "unat prefix \<le> 128" using prefix_fits[OF assms] V6 by simp
  have eq: "mask_addr (V6 w) prefix = mask_addr (V6 a) prefix \<longleftrightarrow> same_leading_bits (unat prefix) w a" for w
    using mask_v6_eq_iff[OF p, of w a] by (simp add: same_leading_bits_def)
  show ?thesis
    unfolding V6 entry_matches.simps using network_contains_mask(2,4)[where b = a and p = prefix] eq
    by (cases host) (simp_all del: mask_addr.simps network_contains.simps)
qed

text \<open>
  What a CIDR entry admits. For every entry the configuration text parses to, an address matches exactly when
  its host agrees with the written address on the first \<open>prefix\<close> bits; an IPv4 network also admits the same
  IPv4 addresses in their IPv4-mapped IPv6 form and nothing else of IPv6, an IPv6 network admits no IPv4 address, and
  names are never admitted; the peer and the ports do not matter.
\<close>

theorem cidr_entry_exact:
  assumes "parse_network A s = Inr (Network net prefix)"
  shows "\<exists>addr. al_parse_ip A (fst (split_slash s)) = Some addr \<and> prefix \<le> max_prefix addr \<and>
    (\<forall>host rest peer pin. entry_matches (Network net prefix) (host # rest) peer pin \<longleftrightarrow> in_network addr (unat prefix) host)"
proof -
  obtain addr where "al_parse_ip A (fst (split_slash s)) = Some addr" "net = mask_addr addr prefix" "prefix \<le> max_prefix addr"
    by (rule parse_network_cases[OF assms]) auto
  then show ?thesis using network_matches_iff by metis
qed

theorem cidr_entry_exact_witness:
  "\<exists>addr. al_parse_ip sample_addr_lib (fst (split_slash ''10.0.0.7/8'')) = Some addr \<and> 8 \<le> max_prefix addr \<and>
    (\<forall>host rest peer pin. entry_matches (Network (V4 0x0A000000) 8) (host # rest) peer pin \<longleftrightarrow> in_network addr (unat (8 :: byte)) host)"
  using cidr_entry_exact[OF sample_network] .

section \<open>Well-formed entries\<close>

definition wf_entry :: "allow_entry \<Rightarrow> bool" where
  "wf_entry e =
     (case e of
        Network addr prefix \<Rightarrow> prefix \<le> max_prefix addr \<and> mask_addr addr prefix = addr
      | Prefix components peer \<Rightarrow>
          components \<noteq> [] \<and> is_host (hd components) \<and> port_form (tl components) = Some True
          \<and> P2pCircuit \<notin> set components \<and> \<not> list_ex is_p2p components)"

lemma parse_network_wf: "parse_network A s = Inr e \<Longrightarrow> wf_entry e"
  by (erule parse_network_cases) (simp add: wf_entry_def del: mask_addr.simps)

lemma split_peer_cases:
  "split_peer ps = (body, peer) \<Longrightarrow> ps = body @ (case peer of None \<Rightarrow> [] | Some p \<Rightarrow> [P2p p])"
  by (auto simp: split_peer_def split: if_splits protocol.splits) (metis append_butlast_last_id)

lemma port_form_no_p2p: "port_form ps = Some b \<Longrightarrow> \<not> list_ex is_p2p ps \<and> P2pCircuit \<notin> set ps"
  by (auto simp: port_form_def is_p2p_def split: list.splits protocol.splits)

lemma is_host_not_p2p: "is_host h \<Longrightarrow> \<not> is_p2p h \<and> h \<noteq> P2pCircuit"
  by (auto simp: is_host_def is_p2p_def split: protocol.splits)

lemma parse_prefix_wf:
  assumes "parse_prefix A s = Inr e"
  shows "wf_entry e"
proof -
  obtain comps body peer host rest where
    "split_peer comps = (body, peer)" "body = host # rest" "is_host host" "port_form rest = Some True" "e = Prefix body peer"
    using assms by (auto simp: parse_prefix_def split: sum.splits if_splits prod.splits list.splits option.splits bool.splits)
  then show ?thesis using port_form_no_p2p[of rest] is_host_not_p2p[of host] by (auto simp: wf_entry_def)
qed

lemma parse_entry_wf: "parse_entry A raw = Inr e \<Longrightarrow> wf_entry e"
  by (auto simp: parse_entry_def Let_def map_sum_def parse_prefix_wf parse_network_wf split: if_splits sum.splits
        intro: parse_prefix_wf parse_network_wf)

lemma parse_entries_sound:
  "parse_entries A items = Inr es \<Longrightarrow>
     list_all2 (\<lambda>item e. parse_entry A item = Inr e) (filter (\<lambda>i. trim i \<noteq> []) items) es"
  by (induction A items arbitrary: es rule: parse_entries.induct)
    (auto simp: list_all2_Cons1 map_sum_def split: if_splits sum.splits)

text \<open>
  C36. The type invariant of a parsed allow-list. A list that parses to a policy has at least one entry, one per
  item that is not blank, in order, each the parse of its item; every network entry is stored with its host bits cleared
  and a prefix length that fits its family; every address entry starts with a host, names a usable port if any, and
  contains neither a relay hop nor a peer component.
\<close>

theorem parsed_policy_wf:
  assumes "parse_policy A items = Inr (Some es)"
  shows "es \<noteq> [] \<and> list_all wf_entry es
    \<and> list_all2 (\<lambda>item e. parse_entry A item = Inr e) (filter (\<lambda>i. trim i \<noteq> []) items) es"
proof -
  have pe: "parse_entries A items = Inr es" and ne: "es \<noteq> []"
    using assms by (auto simp: parse_policy_def map_sum_def split: sum.splits if_splits)
  note l2 = parse_entries_sound[OF pe]
  have "list_all wf_entry es"
    using l2 parse_entry_wf by (auto simp: list_all_length list_all2_conv_all_nth)
  then show ?thesis using ne l2 by blast
qed

theorem parsed_policy_wf_witness:
  "[Network (V4 0x0A000000) 8] \<noteq> [] \<and> list_all wf_entry [Network (V4 0x0A000000) 8]
    \<and> list_all2 (\<lambda>item e. parse_entry sample_addr_lib item = Inr e) (filter (\<lambda>i. trim i \<noteq> []) [''10.0.0.7/8'', '' ''])
        [Network (V4 0x0A000000) 8]"
  using parsed_policy_wf[OF sample_policy] .

section \<open>Decisions\<close>

lemma split_peer_Nil [simp]: "split_peer [] = ([], None)"
  by (simp add: split_peer_def)

lemma takeWhile_direct: "P2pCircuit \<notin> set a \<Longrightarrow> takeWhile (\<lambda>p. p \<noteq> P2pCircuit) a = a"
  by (induction a) auto

lemma takeWhile_relay: "P2pCircuit \<notin> set relay \<Longrightarrow> takeWhile (\<lambda>p. p \<noteq> P2pCircuit) (relay @ P2pCircuit # rest) = relay"
  by (induction relay) auto

lemma split_peer_None: "split_peer ps = (body, None) \<Longrightarrow> body = ps"
  using split_peer_cases[of ps body None] by simp

text \<open>The transport part an address is judged by, and the peer it names.\<close>

definition transport_part :: "multiaddr \<Rightarrow> protocol list" where
  "transport_part addr = fst (split_peer (takeWhile (\<lambda>p. p \<noteq> P2pCircuit) addr))"

definition named_peer :: "multiaddr \<Rightarrow> peer option \<Rightarrow> peer option" where
  "named_peer addr hint =
     (case snd (split_peer (takeWhile (\<lambda>p. p \<noteq> P2pCircuit) addr)) of
        Some p \<Rightarrow> Some p | None \<Rightarrow> if P2pCircuit \<in> set addr then None else hint)"

lemma decide_iff:
  "decide es addr hint pin \<longleftrightarrow> transport_part addr \<noteq> [] \<and> is_host (hd (transport_part addr))
     \<and> \<not> list_ex is_p2p (transport_part addr)
     \<and> list_ex (\<lambda>e. entry_matches e (transport_part addr) (named_peer addr hint) pin) es"
proof -
  obtain body peer where sp: "split_peer (takeWhile (\<lambda>p. p \<noteq> P2pCircuit) addr) = (body, peer)" by force
  show ?thesis
  proof (cases peer)
    case None
    then have "takeWhile (\<lambda>p. p \<noteq> P2pCircuit) addr = body" using split_peer_None sp by metis
    then show ?thesis using sp None
      by (cases body) (auto simp: decide_def transport_part_def named_peer_def)
  next
    case (Some p)
    then show ?thesis using sp by (cases body) (auto simp: decide_def transport_part_def named_peer_def)
  qed
qed

lemma entry_matches_defer:
  "entry_matches e t peer Enforce \<Longrightarrow> entry_matches e t peer Defer \<and> entry_matches e t None Defer"
  by (cases e) (auto split: option.splits)

lemma decide_relayed:
  "P2pCircuit \<notin> set relay \<Longrightarrow> decide es (relay @ P2pCircuit # rest) hint pin = decide es relay None pin"
  by (simp add: decide_iff transport_part_def named_peer_def takeWhile_relay takeWhile_direct split: option.splits)

lemma decide_defer:
  assumes "decide es addr (Some p) Enforce"
  shows "decide es addr None Defer"
proof -
  have "named_peer addr None \<in> {named_peer addr (Some p), None}"
    by (auto simp: named_peer_def split: option.splits)
  then show ?thesis
    using assms entry_matches_defer unfolding decide_iff list_ex_iff by (metis insertE singletonD)
qed

lemma decide_hostless:
  assumes "decide es addr hint pin"
  shows "\<exists>host rest. addr = host # rest \<and> is_host host"
proof -
  obtain body peer where sp: "split_peer (takeWhile (\<lambda>p. p \<noteq> P2pCircuit) addr) = (body, peer)" by force
  then have "body \<noteq> []" "is_host (hd body)" using assms by (auto simp: decide_iff transport_part_def)
  then obtain h b where b: "body = h # b" "is_host h" by (cases body) auto
  have "takeWhile (\<lambda>p. p \<noteq> P2pCircuit) addr = h # b @ (case peer of None \<Rightarrow> [] | Some p \<Rightarrow> [P2p p])"
    using split_peer_cases[OF sp] b by simp
  then show ?thesis using b by (cases addr) (auto split: if_splits)
qed

text \<open>
  How an address is judged. A relayed address is judged by its relay part alone: neither the destination after the
  relay hop nor the peer the dial is for changes the verdict. An address that does not start with a host is refused by
  every list, and an address with no entry for it is refused: the empty list admits nothing. The early check of an
  inbound connection, before its peer is known, refuses nothing that the check after the handshake would allow.
\<close>

theorem policy_decision_laws:
  "(P2pCircuit \<notin> set relay \<longrightarrow> decide es (relay @ P2pCircuit # rest) hint pin = decide es relay None pin)
   \<and> (decide es addr hint pin \<longrightarrow> (\<exists>host tail. addr = host # tail \<and> is_host host))
   \<and> \<not> decide [] addr hint pin
   \<and> (decide es addr (Some peer) Enforce \<longrightarrow> decide es addr None Defer)"
  using decide_relayed decide_hostless decide_defer by (simp add: decide_iff[of "[]"])

theorem policy_decision_laws_witness:
  "decide [Network (V4 0x0A000000) 8] ([Ip4 0x0A000007, Tcp 4001] @ P2pCircuit # [P2p ''x'']) (Some ''x'') Enforce
   \<and> decide [Prefix [Ip4 0x0A000007] (Some ''x'')] [Ip4 0x0A000007] None Defer"
proof -
  have "decide [Network (V4 0x0A000000) 8] [Ip4 0x0A000007, Tcp 4001] None Enforce"
    "decide [Prefix [Ip4 0x0A000007] (Some ''x'')] [Ip4 0x0A000007] (Some ''x'') Enforce" by code_simp+
  then show ?thesis
    using policy_decision_laws[of "[Ip4 0x0A000007, Tcp 4001]" "[Network (V4 0x0A000000) 8]" "[P2p ''x'']" "Some ''x''" Enforce]
      policy_decision_laws[where es = "[Prefix [Ip4 0x0A000007] (Some ''x'')]" and addr = "[Ip4 0x0A000007]" and peer = "''x''"]
    by simp
qed

section \<open>The gate\<close>

definition refused_from :: "policy_source \<Rightarrow> connection_audit \<Rightarrow> bool" where
  "refused_from s a = (case a of Refused s' _ _ \<Rightarrow> s' = s | _ \<Rightarrow> False)"

definition policy_inv :: "net_policy \<Rightarrow> bool" where
  "policy_inv p \<longleftrightarrow>
     (\<forall>s. np_refusals p s = of_nat (length (filter (refused_from s) (np_audit p))))
     \<and> finite (np_warned p) \<and> card (np_warned p) \<le> WARN_DEDUP_CAP
     \<and> length (np_labels p) \<le> DIAL_LABEL_CAP \<and> distinct (map fst (np_labels p))"

lemma policy_inv_new: "policy_inv (net_policy_new mdns allow)"
  by (simp add: policy_inv_def net_policy_new_def)

lemma policy_inv_record: "policy_inv p \<Longrightarrow> policy_inv (record_refusal s stage a p)"
  by (auto simp: policy_inv_def record_refusal_def refused_from_def card_insert_if)

text \<open>What the gate relies on in every policy operation: the list in force and the invariant stay.\<close>

locale policy_op =
  fixes op :: "net_policy \<Rightarrow> 'r \<times> net_policy"
  assumes op_allow [simp]: "np_allow (snd (op p)) = np_allow p"
    and op_inv: "policy_inv p \<Longrightarrow> policy_inv (snd (op p))"
begin

lemma iterate_keeps:
  "np_allow (((\<lambda>q. snd (op q)) ^^ n) p) = np_allow p \<and> (policy_inv p \<longrightarrow> policy_inv (((\<lambda>q. snd (op q)) ^^ n) p))"
  by (induction n) (auto intro: op_inv)

end

lemma record_refusal_allow [simp]: "np_allow (record_refusal s stage a p) = np_allow p"
  by (simp add: record_refusal_def)

interpretation judge_op: policy_op "judge source stage addr peer"
  by unfold_locales (auto simp: judge_def policy_inv_record split: option.splits)

interpretation transport_op: policy_op "check_transport_dial addr role"
  by unfold_locales (auto simp: check_transport_dial_def Let_def policy_inv_record split: option.splits)

interpretation inbound_op: policy_op "inbound_allowed local_addr remote_addr peer"
  by unfold_locales (auto simp: inbound_allowed_def Let_def policy_inv_record split: option.splits)

lemma retain_offered_Cons:
  "snd (retain_offered source peer (a # as) p) = snd (retain_offered source peer as (snd (judge source DialStage a peer p)))"
  by (simp add: admit_dial_def split: prod.splits)

interpretation offered_op: policy_op "retain_offered source peer offered"
proof unfold_locales
  show "np_allow (snd (retain_offered source peer offered p)) = np_allow p" for p
    by (induction offered arbitrary: p) (simp_all add: retain_offered_Cons del: retain_offered.simps(2))
  show "policy_inv p \<Longrightarrow> policy_inv (snd (retain_offered source peer offered p))" for p
    by (induction offered arbitrary: p)
      (simp_all add: retain_offered_Cons judge_op.op_inv del: retain_offered.simps(2))
qed

interpretation label_op: policy_op "\<lambda>p. ((), label_dial cid source p)"
proof unfold_locales
  have "length (AList.update cid source al) \<le> Suc (length al)" for al :: "(connection_id \<times> policy_source) list"
    by (induction al) auto
  then have "length al < 4096 \<Longrightarrow> length (AList.update cid source al) \<le> 4096" for al :: "(connection_id \<times> policy_source) list"
    by (meson Suc_leI le_trans)
  then show "policy_inv p \<Longrightarrow> policy_inv (snd ((), label_dial cid source p))" for p
    by (auto simp: label_dial_def policy_inv_def DIAL_LABEL_CAP_def distinct_update not_le)
qed (simp add: label_dial_def)

lemma delete_shorter: "length (AList.delete k al) \<le> length al"
  by (simp add: AList.delete_eq)

interpretation begin_op: policy_op "\<lambda>p. ((), begin_dial cid p)"
  by unfold_locales
    (auto simp: begin_dial_def policy_inv_def distinct_delete intro: le_trans[OF delete_shorter])

interpretation forget_op: policy_op "\<lambda>p. ((), forget_dial cid p)"
  by unfold_locales
    (auto simp: forget_dial_def policy_inv_def distinct_delete intro: le_trans[OF delete_shorter])

lemma gate_step_state:
  "snd (gate_step p ev) =
     (case ev of
        TransportDial a role \<Rightarrow> snd (check_transport_dial a role p)
      | PendingInbound l r \<Rightarrow> snd (inbound_allowed l r None p)
      | EstablishedInbound peer l r \<Rightarrow> snd (inbound_allowed l r (Some peer) p)
      | PendingOutbound cid \<Rightarrow> begin_dial cid p
      | EstablishedOutbound peer a \<Rightarrow> snd (judge OtherSource DialStage a (Some peer) p)
      | DialFailure cid \<Rightarrow> forget_dial cid p
      | BehaviourDial s cid \<Rightarrow> label_dial cid s p
      | OfferedAddrs s as peer \<Rightarrow> if is_restricted p then snd (retain_offered s peer as p) else p
      | Published s peer a \<Rightarrow> p
      | Learned s a peer \<Rightarrow> snd (judge s Admission a peer p))"
  by (cases ev) (auto simp: outbound_established_allowed_def admit_def split: prod.splits sum.splits)

interpretation gate_op: policy_op "\<lambda>p. gate_step p ev"
proof unfold_locales
  show "np_allow (snd (gate_step p ev)) = np_allow p" for p
    using begin_op.op_allow forget_op.op_allow label_op.op_allow unfolding gate_step_state by (cases ev) auto
  show "policy_inv p \<Longrightarrow> policy_inv (snd (gate_step p ev))" for p
    using begin_op.op_inv forget_op.op_inv label_op.op_inv judge_op.op_inv inbound_op.op_inv transport_op.op_inv offered_op.op_inv
    unfolding gate_step_state by (cases ev) auto
qed

lemma gate_run_Cons:
  "gate_run p (ev # evs) = (fst (gate_step p ev) @ fst (gate_run (snd (gate_step p ev)) evs), snd (gate_run (snd (gate_step p ev)) evs))"
  by (simp split: prod.splits)

lemma gate_run_keeps:
  "np_allow (snd (gate_run p evs)) = np_allow p \<and> (policy_inv p \<longrightarrow> policy_inv (snd (gate_run p evs)))"
  by (induction evs arbitrary: p) (simp_all add: gate_run_Cons gate_op.op_inv del: gate_run.simps(2))

text \<open>What a restricted gate may let through.\<close>

fun effect_allowed :: "allow_entry list \<Rightarrow> gate_effect \<Rightarrow> bool" where
  "effect_allowed es (Dialed a) = allows es a None"
| "effect_allowed es (KeptInbound l r peer) =
     (if P2pCircuit \<in> set l then allows es l None
      else decide es r peer (if peer = None then Defer else Enforce))"
| "effect_allowed es (KeptOutbound a peer) = allows es a (Some peer)"
| "effect_allowed es (KeptAddr a peer) = allows es a peer"

lemma retain_offered_kept:
  assumes "np_allow p = Some es"
  shows "fst (retain_offered s peer as p) = filter (\<lambda>a. allows es a peer) as"
  using assms
proof (induction as arbitrary: p)
  case (Cons a as)
  have "np_allow (snd (judge s DialStage a peer p)) = Some es" using Cons.prems by simp
  from Cons.IH[OF this] show ?case
    using Cons.prems by (auto simp: admit_dial_def judge_def split: prod.splits if_splits)
qed simp

lemma gate_step_allowed:
  assumes "np_allow p = Some es"
  shows "list_all (effect_allowed es) (fst (gate_step p ev))"
proof (cases ev)
  case (OfferedAddrs s as peer)
  then show ?thesis using assms retain_offered_kept[OF assms, of s peer as]
    by (auto simp: is_restricted_def list_all_iff split: prod.splits)
qed (use assms in \<open>auto simp: check_transport_dial_def inbound_allowed_def allows_def outbound_established_allowed_def admit_def
       judge_def allows_quietly_def Let_def split: prod.splits sum.splits if_splits\<close>)

lemma gate_run_allowed:
  "np_allow p = Some es \<Longrightarrow> list_all (effect_allowed es) (fst (gate_run p evs))"
  by (induction evs arbitrary: p) (simp_all add: gate_run_Cons gate_step_allowed del: gate_run.simps(2))

text \<open>
  C23. Controlled-network safety of the whole gate. When the configured list is not empty, then for every sequence of
  transport dials, pending and established connections in both directions, behaviour dials, offered and learned
  addresses, whatever the gate lets through is allowed by the list: a dial reaches the inner transport only for an allowed
  address, a connection is kept only if its address is allowed for its peer (for a relayed inbound connection its relay
  part), an address is kept only if allowed. Meanwhile every counter equals the number of its source's refusals on the
  audit stream, the remembered warnings stay within 1024 and the pending dial labels within 4096.
\<close>

theorem gate_enforces_policy:
  assumes "from_config A mdns items = Inr p" "is_restricted p"
  shows "\<exists>es. parse_policy A items = Inr (Some es) \<and> list_all (effect_allowed es) (fst (gate_run p evs))
    \<and> np_allow (snd (gate_run p evs)) = Some es \<and> policy_inv (snd (gate_run p evs))"
proof -
  obtain es where es: "parse_policy A items = Inr (Some es)" "p = net_policy_new mdns (Some es)"
    using assms by (auto simp: from_config_def is_restricted_def map_sum_def net_policy_new_def split: sum.splits)
  then have "np_allow p = Some es" "policy_inv p" by (simp_all add: net_policy_new_def policy_inv_new[unfolded net_policy_new_def])
  then show ?thesis using es(1) gate_run_allowed gate_run_keeps[of p evs] by auto
qed

theorem gate_enforces_policy_witness:
  "\<exists>es. parse_policy sample_addr_lib [''10.0.0.7/8'', '' ''] = Inr (Some es)
    \<and> list_all (effect_allowed es) (fst (gate_run (net_policy_new False (Some [Network (V4 0x0A000000) 8])) [TransportDial [Ip4 1] Dialer]))
    \<and> np_allow (snd (gate_run (net_policy_new False (Some [Network (V4 0x0A000000) 8])) [TransportDial [Ip4 1] Dialer])) = Some es
    \<and> policy_inv (snd (gate_run (net_policy_new False (Some [Network (V4 0x0A000000) 8])) [TransportDial [Ip4 1] Dialer]))"
  by (rule gate_enforces_policy[where mdns = False])
    (simp_all add: from_config_def sample_policy is_restricted_def net_policy_new_def)







lemma np_audit_record [simp]: "np_audit (record_refusal s stage a p) = np_audit p @ [Refused s stage a]"
  by (simp add: record_refusal_def)










text \<open>
  Attribution. When a labelled behaviour asks for a dial, the swarm announces it and the transport refuses one of its
  addresses, the refusal is counted for that behaviour's source, whatever other labels are pending; the counters of
  the other sources do not move and the label is gone.
\<close>

theorem dial_refusal_attributed:
  assumes "np_allow p = Some es" "\<not> allows es addr None" "source \<noteq> OtherSource"
  shows "let p' = snd (gate_run p [BehaviourDial source cid, PendingOutbound cid, TransportDial addr role]) in
     np_refusals p' = (np_refusals p)(source := np_refusals p source + 1) \<and> np_current p' = source
     \<and> map_of (np_labels p') cid = None"
  using assms
  by (simp add: Let_def label_dial_def begin_dial_def check_transport_dial_def record_refusal_def update_conv' delete_conv')

theorem dial_refusal_attributed_witness:
  "np_refusals (snd (gate_run (net_policy_new False (Some [Network (V4 0x0A000000) 8]))
     [BehaviourDial Kad 3, PendingOutbound 3, TransportDial [Ip4 1] Dialer])) Kad = 1"
proof -
  have "\<not> allows [Network (V4 0x0A000000) 8] [Ip4 1] None" by code_simp
  then show ?thesis
    using dial_refusal_attributed[where p = "net_policy_new False (Some [Network (V4 0x0A000000) 8])"
        and es = "[Network (V4 0x0A000000) 8]" and addr = "[Ip4 1]" and source = Kad and cid = 3 and role = Dialer]
    by (simp add: Let_def net_policy_new_def del: gate_run.simps)
qed

end
