(* ===== verification/Spec2Isabelle.thy ===== *)
theory Spec2Isabelle
  imports Repush_Correct Download_Safety Market_Sync Epoch_Watcher Por_Worker Acl Correlation Refetch Reassign Net_Policy
begin

text \<open>
  \<^bold>\<open>A verification library for the SUM storage node.\<close>

  The program is a storage node of a decentralised storage network. It cuts files into chunks that are
  addressed by their BLAKE3 hash, keeps them in a content-addressed directory, serves and fetches them
  over a request-response protocol, proves to a chain that it holds them, and lets owners and archives
  drive the chain's file lifecycle. The crates are \<open>sum-types\<close> (records), \<open>sum-store\<close> (storage),
  \<open>sum-net\<close> (protocol), \<open>sum-crypto\<close> (content encryption) and \<open>sum-node\<close> (the node and its commands), all
  under \<open>src/crates/\<close>.

  \<^bold>\<open>Conventions.\<close> Machine integers are words of their width (\<open>u32\<close>, \<open>u64\<close>, \<open>u128\<close>, bytes), casts
  and saturating or wrapping operations are written out; a Rust \<open>Result\<close> is a sum with the error on the
  left, a \<open>struct\<close> a record, an \<open>enum\<close> a datatype. State is passed explicitly. What the node does not
  control is an argument: the disk and its faults (\<open>io_env\<close>, \<open>mi_env\<close>), the chain's answers, the other
  peers, clocks. Third-party code is a parameter with its documented behaviour as a named hypothesis:
  BLAKE3 and CIDs (\<open>digest_lib\<close>, \<open>lib_ok\<close>), CBOR and bincode (\<open>cbor_lib\<close>, \<open>bincode_lib\<close>), the chain's
  assignment scorer (\<open>wire_lib\<close>, \<open>wire_ok\<close>), signatures and the transaction codec (\<open>sign_lib\<close>,
  \<open>sign_ok\<close>, \<open>tx_codec\<close>), HKDF, ChaCha20-Poly1305 and X25519 (\<open>crypto_lib\<close>, \<open>crypto_ok\<close>). The operator
  commands thread a world through their calls with the combinators of \<open>Chain_Client\<close>: a computation
  takes a world and returns its result with the next one. Functions that may panic or may not return yield an option, with \<open>None\<close> for
  it, and the theorems prove that a result is returned.

  \<^bold>\<open>Theories, in the order of the code.\<close>
  \<^item> \<open>Snip_Prelude\<close>: types, hexadecimal and decimal text, word lemmas, \<open>StoreError\<close> (\<open>error.rs\<close>).
  \<^item> \<open>Storage_Types\<close>: content identifiers, manifests (\<open>content_id.rs\<close>, \<open>verify.rs\<close>, \<open>storage.rs\<close>).
  \<^item> \<open>Merkle\<close>: \<open>merkle.rs\<close> and the verifiers of \<open>verify.rs\<close>. Completeness and binding of proofs.
  \<^item> \<open>Chunker\<close>: \<open>chunker.rs\<close>. The chunks partition the file.
  \<^item> \<open>Assignment\<close>: \<open>assignment.rs\<close>, \<open>assignment_v2.rs\<close>. Both satisfy the locale
    \<open>replica_assignment\<close>; termination of the V1 probe, and where it does not terminate.
  \<^item> \<open>Publication\<close>: \<open>publication.rs\<close>, \<open>store.rs\<close>. Directory contents with durability under any
    interleaving of I/O failures; the locale \<open>content_store\<close> is the interface the rest relies on.
  \<^item> \<open>Garbage_Collector\<close>: \<open>gc.rs\<close>. Grace periods over any sequence of sweeps.
  \<^item> \<open>Wire_Codec\<close>: \<open>codec.rs\<close>. Framing round trips, no confusion of protocol versions.
  \<^item> \<open>Fetch\<close>: \<open>fetch.rs\<close>. The download state machine and its invariant against arbitrary peers.
  \<^item> \<open>Sidecar\<close>, \<open>Manifest_Index\<close>: \<open>manifest_index.rs\<close>. Line formats (locale \<open>line_codec\<close>), torn
    tails, reload after a crash, protection from collection.
  \<^item> \<open>Serve\<close>: \<open>serve.rs\<close>. V1 pulls and pushes with full validation.
  \<^item> \<open>Chain_Types\<close>: the rows of \<open>rpc_types.rs\<close> and address decoding.
  \<^item> \<open>Push_Validator\<close>: \<open>push_validator.rs\<close>. The chain-rooted gates with their caches.
  \<^item> \<open>Inbound_V2\<close>: \<open>inbound_v2.rs\<close>. The dispatcher: pushes, pulls, held tracker, attestation
    triggers, rebuild after a restart.
  \<^item> \<open>Market_Sync\<close>: \<open>market_sync.rs\<close>. Fetch plans and collection candidates.
  \<^item> \<open>Tx_Builder\<close>, \<open>Attestor\<close>: \<open>tx_builder.rs\<close>, \<open>tx_wait.rs\<close>, \<open>assignment_attestor.rs\<close> and
    \<open>run_attestation\<close>. Signing, finality, batched attestation.
  \<^item> \<open>Epoch_Watcher\<close>: \<open>epoch_watcher.rs\<close>. Re-attestation after an epoch change, and the soundness of every
    attestation sent, by the dispatcher's trigger or by the watcher.
  \<^item> \<open>Por_Worker\<close>: \<open>por_worker.rs\<close>. Answers to storage challenges.
  \<^item> \<open>Acl\<close>: \<open>acl.rs\<close>, \<open>profile.rs\<close>, \<open>download_route.rs\<close>. Who may read what.
  \<^item> \<open>Correlation\<close>: \<open>correlation.rs\<close>, \<open>manifest_ingress.rs\<close>. Responses against requests.
  \<^item> \<open>Refetch\<close>: \<open>refetch_v2.rs\<close>. Re-fetch of newly assigned chunks through the dispatcher.
  \<^item> \<open>Reassign\<close>: \<open>reassign_v2.rs\<close>. The owner's reassignment command.
  \<^item> \<open>Net_Policy\<close>: \<open>policy.rs\<close>, \<open>gate.rs\<close> of \<open>sum-net\<close>. The allow-list of a controlled network and its enforcement.
  \<^item> \<open>Content_Crypto\<close>: \<open>sum-crypto\<close>. Chunk, manifest and key-bundle encryption: what decrypts, for whom,
    and the separation of the derived keys.
  \<^item> \<open>Peer_Discovery\<close>: \<open>peer_state.rs\<close>, \<open>peer_discovery.rs\<close>. The peer table and the wait for archives.
  \<^item> \<open>Chain_Client\<close>: the chain calls of the commands (\<open>V2IngestRpc\<close>, \<open>tx_wait.rs\<close>) as computations over a world that
    records every transaction sent, with their program logic (\<open>holds\<close>, \<open>quiet\<close>, \<open>yields\<close>, \<open>sends_only\<close>).
  \<^item> \<open>Access_Ops\<close>: \<open>access.rs\<close>. Share, revoke and update-access.
  \<^item> \<open>Ingest_Types\<close>, \<open>Ingest\<close>: \<open>ingest_v2.rs\<close>. Parameters, outcomes and exit codes; the stages S0 to S6, the Public and the
    Private ingestion, resume and abandon. A wait ends after a number of events the environment gives (\<open>ie_turns\<close>).
  \<^item> \<open>Ingest_Demo\<close>: a complete concrete ingestion, evaluated; the witnesses are taken from it.
  \<^item> \<open>Ingest_Push\<close>: what is pushed and acknowledged before a file is activated, and the round trips of the
    Private path. \<open>Ingest_Correct\<close>: which transactions are sent, the exit status, the missing chunks, resume.
  \<^item> \<open>Repush\<close>, \<open>Repush_Correct\<close>: \<open>repush\<close> of \<open>ingest_v2.rs\<close>. Pushing a registered file again to the archives of its
    latest epoch, and what a complete run means.
  \<^item> \<open>Download_V2\<close>: \<open>download_v2_routing.rs\<close> and the Public V2 path of \<open>download.rs\<close>. Manifest fan-out, chunk phase, assembly.
    \<open>Download_Correct\<close> proves the rules of the manifest phase and that a root with a number of leaves fixes the leaves,
    \<open>Download_Run\<close> those of the chunk phase and of the whole run, \<open>Download_Safety\<close> the properties.
  This theory composes them: a fetcher against a server, and a node that interleaves inbound messages
  with market-sync cycles.

  \<^bold>\<open>What the theorems show.\<close> A chunk whose push was acknowledged is stored, recorded, exempt from
  collection and stays so, across restarts and under any disk faults; what the node attests after a
  boot, from the dispatcher or the epoch watcher, it holds and can prove, from the push or from an indexed
  manifest, unless a held record on disk lacked its proof, which the rebuild of the tracker does not check,
  and it proves it when challenged unless a Public manifest one chunk short hides the chunk; nothing is accepted that the chain does not assign or the
  Merkle root does not cover; data is served only to peers entitled to the file the index
  resolves it to; a response is used only for the
  request it answers; a file is activated only after enough assigned archives have acknowledged every chunk,
  and the outcome of a command tells which transactions it has sent; a shared key opens for its
  recipient, and otherwise only with a forgery of the cipher; a download asks only assigned archives, none twice for the same thing, and writes only bytes under the registered root; loops end, with the bounds the code sets, except where a finding says otherwise.

  \<^bold>\<open>Bounds and fuel.\<close> \<open>transfer\<close> below has fuel, one unit per response; the theorem gives the
  number of responses that is enough. The event loops of a download run over the list of turns the world holds; when it is used up,
  the deadline has come, so the number of turns is enough fuel. Chunks are at most one megabyte (\<open>CHUNK_SIZE\<close>), manifests have
  fewer than \<open>2 ^ 32\<close> chunks because the count is a \<open>u32\<close>, the challenge memory is 500 entries, an
  epoch has three attestation attempts, a re-fetch has the limits of \<open>RefetchLimits\<close>.

  \<^bold>\<open>Not modelled.\<close> The swarm, its behaviours, gossip and NAT traversal (event plumbing around libp2p, whose
  decisions are taken in the modelled components), and with it \<open>shard_dispatch.rs\<close> and \<open>refetch_net.rs\<close>, which
  hand its events to the modelled handlers; the V1 and Private download commands and the upload, whose routing, fetching,
  verification, key recovery and decryption are modelled but not the loops that drive them and write the
  output; the JSON-RPC client, whose answers are parameters; argument parsing, configuration files,
  metrics, the repair log and end-to-end test tools; the memory map and the lock file of the store. The
  ciphers are not implemented, their laws are hypotheses. Log lines and the exact text of some error
  messages are left out where nothing depends on them.
\<close>

section \<open>A whole transfer: the fetcher against the server\<close>

text \<open>
  One node serves chunk requests from its store, another fetches. \<open>transfer\<close> alternates the two: the
  server answers the outstanding request, the fetch manager consumes the answer and may ask again.
\<close>

definition as_request :: "fetch_request \<Rightarrow> shard_request" where
  "as_request q = \<lparr>sr_cid = fq_cid q, sr_offset = fq_offset q, sr_max_bytes = fq_max_bytes q, sr_push_data = None\<rparr>"

fun transfer ::
    "digest_lib \<Rightarrow> fetch_net \<Rightarrow> pub_store \<Rightarrow> fetch_manager \<Rightarrow> pub_store \<Rightarrow> nat \<Rightarrow> fetch_request
       \<Rightarrow> (fetch_outcome \<times> fetch_manager \<times> pub_store) option" where
  "transfer L net srv m s 0 q = None"
| "transfer L net srv m s (Suc fuel) q =
     (case handle_chunk_request io_fine srv (as_request q) of None \<Rightarrow> None
      | Some r \<Rightarrow>
          (case on_chunk_received L io_fine net m s r of
             (InProgress, m', s', [q']) \<Rightarrow> transfer L net srv m' s' fuel q'
           | (out, m', s', _) \<Rightarrow> Some (out, m', s')))"

definition fetching :: "digest_lib \<Rightarrow> fetch_manager \<Rightarrow> bytes \<Rightarrow> nat \<Rightarrow> bool" where
  "fetching L m b off \<longleftrightarrow> (\<exists>st. fm_active m (cid_from_data L b) = Some st
     \<and> fs_buffer st = take off b \<and> fs_next_offset st = u64_of off
     \<and> (fs_total_bytes st = None \<and> off = 0 \<or> fs_total_bytes st = Some (u64_of (length b)))
     \<and> (\<forall>e. fs_expected_size st = Some e \<longrightarrow> e = u64_of (length b)))"

lemma transfer_step:
  assumes "lib_ok L" and "name srv c = Inr (c @ suffix srv)" and "lookup srv c = Some b"
    and b: "length b \<le> 1048576" "off < length b"
    and "fetching L m b off" and c: "c = cid_from_data L b" and n: "fm_chunk_size m = n" "0 < unat n"
    and net: "\<forall>q. net q = Inr ()" and q: "fq_cid q = c" "fq_offset q = Some (u64_of off)" "fq_max_bytes q = Some n"
    and free: "map_of (entries s) (c @ suffix s) = None"
  shows "\<exists>r. handle_chunk_request io_fine srv (as_request q) = Some r
     \<and> (if off + unat n < length b
        then \<exists>m' q'. on_chunk_received L io_fine net m s r = (InProgress, m', s, [q'])
               \<and> fetching L m' b (off + unat n) \<and> fm_chunk_size m' = n
               \<and> fq_cid q' = c \<and> fq_offset q' = Some (u64_of (off + unat n)) \<and> fq_max_bytes q' = Some n
        else \<exists>m' s'. on_chunk_received L io_fine net m s r = (fetch_outcome.Complete c (u64_of (length b)), m', s', [])
               \<and> lookup s' = (lookup s)(c \<mapsto> b) \<and> fm_active m' c = None)"
proof -
  obtain st where st: "fm_active m c = Some st" "fs_buffer st = take off b" "fs_next_offset st = u64_of off"
      "fs_total_bytes st = None \<and> off = 0 \<or> fs_total_bytes st = Some (u64_of (length b))"
      "\<forall>e. fs_expected_size st = Some e \<longrightarrow> e = u64_of (length b)"
    using assms(6) c by (auto simp: fetching_def)
  have u: "unat (u64_of off) = off" "unat (u64_of (length b)) = length b"
    using b by (simp_all add: unat_u64_of)
  define dat where "dat = take (unat n) (drop off b)"
  define resp where "resp = ok_response c (u64_of off) (u64_of (length b)) dat"
  have w: "resolve_chunk_window (length b) (Some (u64_of off)) (Some n) = (off, min (off + unat n) (length b))"
    using b u by (simp add: resolve_window_eq Let_def)
  have "take (min (off + unat n) (length b) - off) (drop off b) = dat"
    using b by (simp add: min_def dat_def)
  then have r: "handle_chunk_request io_fine srv (as_request q) = Some resp"
    using handle_chunk_found [OF assms(2,3), of io_fine "as_request q"] b q w
    by (simp add: as_request_def io_fine_def resp_def)
  have rf: "rs_error resp = None" "rs_cid resp = c" "rs_data resp = dat" "rs_offset resp = u64_of off"
      "rs_total_bytes resp = u64_of (length b)"
    by (simp_all add: ok_response_def resp_def)
  have pos: "length dat = min (unat n) (length b - off)" by (simp add: dat_def min.commute)
  have "u64_of (length b) \<le> fetch_bound st"
    using st(5) b u MAX_CHUNK_BYTES_nat by (auto simp: fetch_bound_def word_le_nat_alt split: option.splits)
  then have v: "validate_response_metadata resp (fs_next_offset st) (fs_total_bytes st) (fs_expected_size st)
      (fetch_bound st) = Inr ()"
    using b u st(3-5) pos unfolding rf by (intro validate_complete; unfold rf) (auto simp: word_less_nat_alt)
  let ?off = "off + length dat"
  have off: "u64_of off + u64_of (length dat) = u64_of ?off" by (simp add: u64_of_def)
  have buf: "fs_buffer st @ dat = take ?off b"
    unfolding st(2) pos by (simp add: dat_def min_def take_add)
  have ab: "absorb_piece st resp = st\<lparr>fs_total_bytes := Some (u64_of (length b)), fs_buffer := take ?off b,
      fs_next_offset := u64_of ?off\<rparr>"
    using st(4) buf off by (auto simp: absorb_piece_def ok_response_def resp_def)
  have lt: "u64_of ?off < u64_of (length b) \<longleftrightarrow> off + unat n < length b"
    using b pos by (auto simp: word_less_nat_alt unat_u64_of min_def)
  show ?thesis
  proof (cases "off + unat n < length b")
    case True
    then have o: "?off = off + unat n" using pos by simp
    let ?q = "\<lparr>fq_peer = fs_peer_id st, fq_cid = c, fq_offset = Some (u64_of ?off), fq_max_bytes = Some n\<rparr>"
    have "on_chunk_received L io_fine net m s resp =
        (InProgress, active_insert c (absorb_piece st resp) m, s, [?q])"
      using st(1) v lt True net n(1) by (simp add: on_chunk_received_def rf ab Let_def)
    moreover have "fetching L (active_insert c (absorb_piece st resp) m) b (off + unat n)"
      unfolding ab fetching_def o [symmetric] using st(5) by (simp add: c [symmetric])
    ultimately show ?thesis using True r n(1) o by auto
  next
    case False
    then have "take ?off b = b" using pos by simp
    moreover have "finish_fetch L io_fine s c b = (fetch_outcome.Complete c (u64_of (length b)),
        mark_durable (c @ suffix s) (published s c b))"
      using put_fresh_succeeds [OF assms(1), of s b] free c
      by (simp add: finish_fetch_def verify_cid_def Let_def)
    ultimately have "on_chunk_received L io_fine net m s resp =
        (fetch_outcome.Complete c (u64_of (length b)), active_remove c m, mark_durable (c @ suffix s) (published s c b), [])"
      using st(1) v lt False by (simp add: on_chunk_received_def rf ab Let_def)
    then show ?thesis using False r free by (auto simp: fun_eq_iff)
  qed
qed

lemma transfer_from:
  assumes "lib_ok L" and "name srv c = Inr (c @ suffix srv)" and "lookup srv c = Some b"
    and "length b \<le> 1048576" and "c = cid_from_data L b" and "0 < unat n" and "\<forall>q. net q = Inr ()"
    and "map_of (entries s) (c @ suffix s) = None"
  shows "off < length b \<Longrightarrow> length b - off < fuel \<Longrightarrow> fetching L m b off \<Longrightarrow> fm_chunk_size m = n \<Longrightarrow> fq_cid q = c
    \<Longrightarrow> fq_offset q = Some (u64_of off) \<Longrightarrow> fq_max_bytes q = Some n
    \<Longrightarrow> \<exists>m' s'. transfer L net srv m s fuel q = Some (fetch_outcome.Complete c (u64_of (length b)), m', s')
          \<and> lookup s' = (lookup s)(c \<mapsto> b) \<and> fm_active m' c = None"
proof (induction fuel arbitrary: off m q)
  case (Suc fuel)
  note st = transfer_step [OF assms(1-4) Suc.prems(1,3) assms(5) Suc.prems(4) assms(6,7) Suc.prems(5-7) assms(8)]
  then obtain r where r: "handle_chunk_request io_fine srv (as_request q) = Some r" by blast
  show ?case
  proof (cases "off + unat n < length b")
    case True
    then obtain m' q' where m': "on_chunk_received L io_fine net m s r = (InProgress, m', s, [q'])"
        "fetching L m' b (off + unat n)" "fm_chunk_size m' = n"
        "fq_cid q' = c" "fq_offset q' = Some (u64_of (off + unat n))" "fq_max_bytes q' = Some n"
      using st r by auto
    have "length b - (off + unat n) < fuel" using Suc.prems(2) True assms(6) by linarith
    from Suc.IH [OF True this m'(2-6)] show ?thesis using r m'(1) by simp
  next
    case False
    then obtain m' s' where "on_chunk_received L io_fine net m s r = (fetch_outcome.Complete c (u64_of (length b)), m', s', [])"
        "lookup s' = (lookup s)(c \<mapsto> b)" "fm_active m' c = None"
      using st r by auto
    then show ?thesis using r by (intro exI [of _ m'] exI [of _ s']) simp
  qed
qed simp

text \<open>
  C12. End to end: a chunk of 1 byte to 1 MiB that a peer's store holds under its CID is fetched
  completely. Starting the fetch (with the right expected size or none) succeeds, and after at most
  one round per byte the fetch reports completion with the true size, the local store then holds
  exactly the peer's bytes under the CID and no other key changed, and the fetch is no longer
  active. The window size may be any positive number.
\<close>

theorem fetch_from_honest_peer_completes:
  assumes "lib_ok L" and "store_inv L srv" and "lookup srv c = Some b" and "c = cid_from_data L b"
    and "0 < length b" and "length b \<le> 1048576" and "0 < window" and "window < 2 ^ 64"
    and "expected = None \<or> expected = Some (u64_of (length b))" and "\<forall>q. net q = Inr ()"
    and "map_of (entries s) (c @ suffix s) = None"
  shows "\<exists>m q. start_fetch_with_expected_size net (fetch_new window) peer c expected = (Inr (), m, [q])
       \<and> (\<exists>m' s'. transfer L net srv m s (length b + 1) q = Some (fetch_outcome.Complete c (u64_of (length b)), m', s')
             \<and> lookup s' = (lookup s)(c \<mapsto> b) \<and> fm_active m' c = None)"
proof -
  have can: "canonical_cid L srv c = Inr ()"
    unfolding assms(4) cid_from_data_def using assms(1) by (intro canonical_cid_of_hash) auto
  then have nm: "name srv c = Inr (c @ suffix srv)" by (rule canonical_name)
  let ?n = "u64_of window"
  have n: "0 < unat ?n" using assms(7,8) by (simp add: unat_u64_of)
  obtain m q where s: "start_fetch_with_expected_size net (fetch_new window) peer c expected = (Inr (), m, [q])"
    "fm_chunk_size m = ?n" "fetching L m b 0" "fq_cid q = c" "fq_offset q = Some (u64_of 0)" "fq_max_bytes q = Some ?n"
    using assms(4,9,10)
    by (auto simp: start_fetch_with_expected_size_def fetch_new_def is_active_def Let_def fetching_def u64_of_def)
  from transfer_from [OF assms(1) nm assms(3,6,4) n assms(10,11), of 0 "length b + 1" m q] s assms(5)
  show ?thesis by auto
qed

theorem fetch_from_honest_peer_completes_witness:
  "\<exists>srv m q m' s'. lookup srv demo_cid = Some [7]
     \<and> start_fetch_with_expected_size demo_net (fetch_new 1) ''p'' demo_cid None = (Inr (), m, [q])
     \<and> transfer demo_lib demo_net srv m empty_chunk_store 2 q = Some (fetch_outcome.Complete demo_cid 1, m', s')
     \<and> lookup s' demo_cid = Some [7]"
proof -
  let ?srv = "mark_durable (demo_cid @ ''.chunk'') (published empty_chunk_store demo_cid [7])"
  have inv: "store_inv demo_lib ?srv"
    using cs.put_inv [OF exclusive_fine store_inv_empty, of demo_lib demo_cid "[7]"] demo_put by simp
  have l: "lookup ?srv demo_cid = Some [7]"
    using cs.put_fresh [OF exclusive_fine demo_put] by (simp add: lookup_def empty_chunk_store_def)
  have "map_of (entries empty_chunk_store) (demo_cid @ suffix empty_chunk_store) = None"
    by (simp add: empty_chunk_store_def)
  note t = fetch_from_honest_peer_completes [OF demo_lib_ok inv l demo_cid_def, of 1 None demo_net,
      OF _ _ _ _ _ _ this, of "''p''"]
  have e: "length [7 :: byte] + 1 = 2" "u64_of (length [7 :: byte]) = 1" by (simp_all add: u64_of_def)
  have "0 < length [7 :: byte]" "length [7 :: byte] \<le> 1048576" "\<forall>q. demo_net q = Inr ()"
    by (simp_all add: demo_net_def)
  with t [unfolded e] obtain m q m' s' where
    "start_fetch_with_expected_size demo_net (fetch_new 1) ''p'' demo_cid None = (Inr (), m, [q])"
    "transfer demo_lib demo_net ?srv m empty_chunk_store 2 q = Some (fetch_outcome.Complete demo_cid 1, m', s')"
    "lookup s' = (lookup empty_chunk_store)(demo_cid \<mapsto> [7])"
    by fastforce
  then show ?thesis using l by fastforce
qed

section \<open>A node under requests and sync cycles\<close>

text \<open>
  The inbound dispatcher and the market-sync worker share one store. \<open>node_run\<close> interleaves their
  steps in any order; it is \<open>None\<close> only if a cycle's assignment loop never ends.
\<close>

datatype node_event = Inbound inbound_event | Cycle sync_env

type_synonym node_state = "v2_dispatcher \<times> sync_worker \<times> fetch_manager"

fun node_step ::
    "digest_lib \<Rightarrow> wire_lib \<Rightarrow> cbor_lib \<Rightarrow> access_checker \<Rightarrow> node_state \<Rightarrow> node_event \<Rightarrow> node_state option" where
  "node_step L W B acl (vd, w, m) (Inbound ev) = Some (fst (inbound_step L W B acl vd ev), w, m)"
| "node_step L W B acl (vd, w, m) (Cycle env) =
     (case sync_cycle L env w (vd_local vd) (vd_index vd) m of
        None \<Rightarrow> None
      | Some (r, w', s', m') \<Rightarrow> Some (vd\<lparr>vd_local := s'\<rparr>, fst (after_cycle r w'), m'))"

fun node_run ::
    "digest_lib \<Rightarrow> wire_lib \<Rightarrow> cbor_lib \<Rightarrow> access_checker \<Rightarrow> node_state \<Rightarrow> node_event list \<Rightarrow> node_state option" where
  "node_run L W B acl st [] = Some st"
| "node_run L W B acl st (ev # evs) =
     (case node_step L W B acl st ev of None \<Rightarrow> None | Some st' \<Rightarrow> node_run L W B acl st' evs)"

fun undisturbed :: "node_event \<Rightarrow> bool" where
  "undisturbed (Inbound ev) = exclusive (ie_put (event_env ev))"
| "undisturbed (Cycle env) = quiet (se_sweep env)"

lemma cycle_answerable:
  assumes "sync_cycle L env w (vd_local vd) (vd_index vd) m = Some (r, w', s', m')" and "quiet (se_sweep env)"
    and "answerable L vd rt i"
  shows "answerable L (vd\<lparr>vd_local := s'\<rparr>) rt i"
proof -
  obtain p :: pushed_proof and b where p: "v2_pushed_proof (vd_index vd) rt i = Some p"
      "lookup (vd_local vd) (cid_from_blake3_hash L (pp_leaf p)) = Some b" "blake3 L b = pp_leaf p"
      "verify_merkle_proof_bytes (blake3 L) (blake3 L b) i (pp_path p) rt"
      "recorded (mi_v2_held (vd_index vd)) rt i = Some (cid_from_data L b)"
      "is_gc_protected (vd_index vd) (cid_from_data L b)"
    using assms(3) unfolding answerable_def by blast
  then have "lookup s' (cid_from_blake3_hash L (pp_leaf p)) = Some b"
    using sync_cycle_keeps(2) [OF assms(1,2), of "cid_from_blake3_hash L (pp_leaf p)"]
    by (auto simp: cid_from_data_def)
  then show ?thesis using p unfolding answerable_def by auto
qed

text \<open>What a node keeps across a step: held indices stay answerable, and proofs and held indices stay.\<close>

lemma node_step_keeps:
  assumes "node_step L W B acl (vd, w, m) ev = Some (vd', w', m')" and "undisturbed ev" and "lib_ok L" and "attestable L vd"
  shows "attestable L vd' \<and> (\<forall>rt. vd_held vd rt \<subseteq> vd_held vd' rt)
    \<and> (\<forall>rt i p. v2_pushed_proof (vd_index vd) rt i = Some p \<longrightarrow> v2_pushed_proof (vd_index vd') rt i = Some p)"
proof (cases ev)
  case (Inbound e)
  obtain vd1 att where st: "inbound_step L W B acl vd e = (vd1, att)" by fastforce
  then have "vd' = vd1" using assms(1) Inbound by simp
  then show ?thesis
    using inbound_step_attestable [OF st _ assms(3,4)] assms(2) Inbound
    by (auto simp: vd_grows_def dest: index_extendsD(2))
next
  case (Cycle env)
  obtain r w1 s' where c: "sync_cycle L env w (vd_local vd) (vd_index vd) m = Some (r, w1, s', m')" "vd' = vd\<lparr>vd_local := s'\<rparr>"
    using assms(1) Cycle by (auto split: option.splits prod.splits)
  show ?thesis
    using cycle_answerable [OF c(1)] c(2) assms(2,4) Cycle by (auto simp: attestable_def)
qed

lemma node_run_keeps:
  assumes "node_run L W B acl (vd, w, m) evs = Some (vd', w', m')" and "\<forall>ev \<in> set evs. undisturbed ev"
    and "lib_ok L" and "attestable L vd"
  shows "attestable L vd' \<and> (\<forall>rt. vd_held vd rt \<subseteq> vd_held vd' rt)
    \<and> (\<forall>rt i p. v2_pushed_proof (vd_index vd) rt i = Some p \<longrightarrow> v2_pushed_proof (vd_index vd') rt i = Some p)"
  using assms
proof (induction evs arbitrary: vd w m)
  case (Cons ev evs)
  obtain vd1 w1 m1 where s: "node_step L W B acl (vd, w, m) ev = Some (vd1, w1, m1)"
      "node_run L W B acl (vd1, w1, m1) evs = Some (vd', w', m')"
    using Cons.prems(1) by (auto split: option.splits)
  have k: "attestable L vd1 \<and> (\<forall>rt. vd_held vd rt \<subseteq> vd_held vd1 rt)
    \<and> (\<forall>rt i p. v2_pushed_proof (vd_index vd) rt i = Some p \<longrightarrow> v2_pushed_proof (vd_index vd1) rt i = Some p)"
    using node_step_keeps [OF s(1)] Cons.prems by simp
  have "attestable L vd' \<and> (\<forall>rt. vd_held vd1 rt \<subseteq> vd_held vd' rt)
    \<and> (\<forall>rt i p. v2_pushed_proof (vd_index vd1) rt i = Some p \<longrightarrow> v2_pushed_proof (vd_index vd') rt i = Some p)"
    using Cons.IH [OF s(2)] Cons.prems k by simp
  then show ?case using k by blast
qed simp

text \<open>
  C1. An acknowledged V2 chunk is kept. Start a node over an index whose recorded proofs verify, run
  requests, re-fetches and sync cycles in any order, acknowledge a push, and go on for as long as you
  like: as long as no other process removes files, the pushed content stays readable under its content
  identifier, its index stays in the held set that attestations are made from, and its recorded path
  still proves the stored bytes against the root. Garbage collection never takes it.
\<close>

theorem acknowledged_push_is_kept:
  assumes "node_run L W B acl (v2_dispatcher_new pv s idx d, w, m) evs = Some (vd, w0, m0)"
    and "proofs_ok (blake3 L) idx" and "lib_ok L"
    and "accept_chunk L W env vd data rt i path = (None, vd1)"
    and "node_run L W B acl (vd1, w0, m0) evs' = Some (vd2, w2, m2)"
    and "exclusive (ie_put env)" and "\<forall>ev \<in> set evs \<union> set evs'. undisturbed ev"
  shows "\<exists>b. lookup (vd_local vd2) (cid_from_data L data) = Some b \<and> blake3 L b = blake3 L data
           \<and> v2_pushed_proof (vd_index vd2) rt i = Some \<lparr>pp_leaf = blake3 L data, pp_path = path\<rparr>
           \<and> verify_merkle_proof_bytes (blake3 L) (blake3 L b) i path rt
           \<and> i \<in> held_for vd2 rt"
proof -
  have "attestable L (v2_dispatcher_new pv s idx d)" using assms(2) by (simp add: attestable_def v2_dispatcher_new_def)
  then have a0: "attestable L vd" using node_run_keeps [OF assms(1)] assms(3,7) by simp
  note acc = assms(4) [unfolded accept_chunk_def]
  have pk: "proofs_ok (blake3 L) (vd_index vd)" using a0 by (simp add: attestable_def)
  have "v2_pushed_proof (vd_index vd1) rt i = Some \<lparr>pp_leaf = blake3 L data, pp_path = path\<rparr>" "i \<in> vd_held vd1 rt"
    using accepted_answerable(2,4) [OF acc assms(6,3) pk] by auto
  moreover have "attestable L vd1" using accept_attestable(2) [OF acc assms(6,3) a0] .
  ultimately have k: "attestable L vd2" "i \<in> vd_held vd2 rt"
      "v2_pushed_proof (vd_index vd2) rt i = Some \<lparr>pp_leaf = blake3 L data, pp_path = path\<rparr>"
    using node_run_keeps [OF assms(5)] assms(3,7) by auto
  then have "answerable L vd2 rt i" by (auto simp: attestable_def)
  then show ?thesis using k by (auto simp: answerable_def cid_from_data_def held_for_def)
qed

definition demo_worker :: sync_worker where
  "demo_worker = \<lparr>mw_l1_address = replicate 20 1, mw_replication_factor = 3, mw_gc = gc_new 0, mw_last_l1_poll = 0,
     mw_poll_interval_secs = 30, mw_consecutive_failures = 0\<rparr>"

lemma demo_cycle: "sync_cycle demo_lib demo_sync_env demo_worker s idx m = Some (Inr (), demo_worker, s, m)"
  by (simp add: sync_cycle_def demo_sync_env_def active_nodes_at_finalized_head_def filter_active_archives_def)

theorem acknowledged_push_is_kept_witness:
  "\<exists>vd1 vd2 w2 m2 b. accept_chunk demo_lib demo_wire demo_ienv demo_vd [7] demo_chunk_root 0 [] = (None, vd1)
     \<and> node_run demo_lib demo_wire demo_cbor (\<lambda>_ _ _. True) (vd1, demo_worker, fetch_new 1024) [Cycle demo_sync_env] = Some (vd2, w2, m2)
     \<and> lookup (vd_local vd2) (cid_from_data demo_lib [7]) = Some b \<and> blake3 demo_lib b = blake3 demo_lib [7]"
proof -
  obtain vd1 where a: "accept_chunk demo_lib demo_wire demo_ienv demo_vd [7] demo_chunk_root 0 [] = (None, vd1)"
    using demo_accept by blast
  obtain vd2 w2 m2 where r: "node_run demo_lib demo_wire demo_cbor (\<lambda>_ _ _. True) (vd1, demo_worker, fetch_new 1024)
      [Cycle demo_sync_env] = Some (vd2, w2, m2)"
    by (simp add: demo_cycle)
  have r0: "node_run demo_lib demo_wire demo_cbor (\<lambda>_ _ _. True) (v2_dispatcher_new (push_validator_new (replicate 20 1) 3)
      empty_chunk_store demo_trusted [(GC_PROTECTED_FILE, [])], demo_worker, fetch_new 1024) []
      = Some (demo_vd, demo_worker, fetch_new 1024)"
    by (simp add: demo_vd_def)
  have "undisturbed (Cycle demo_sync_env)" using quiet_demo by (simp add: demo_sync_env_def)
  then show ?thesis
    using acknowledged_push_is_kept [OF r0 demo_vd_fields(4) demo_lib_ok a r] a r by (auto simp: demo_vd_fields)
qed

end
